(* ===== verification/Cob_Prelude.thy ===== *)
theory Cob_Prelude
  imports Main "HOL-Library.Word" "HOL-Library.Monad_Syntax" "HOL-Library.Signed_Division"
begin

text \<open>
  Shared types, accessors and lemmas of the development.

  \<^item> Storage is a list of bytes. A C access outside the storage an operation was given is
    undefined behaviour; here every access is checked and the result is \<open>None\<close>, so a
    theorem with \<open>Some\<close> on its right-hand side also says that the code stays in bounds.
  \<^item> C integers are HOL integers, wrapped explicitly (\<open>i32\<close>, \<open>u64\<close>, \<open>\<dots>\<close>) where the
    C type can overflow. Signed overflow is taken to wrap in two's complement.
  \<^item> Decimal digit strings (bytes \<open>'0'\<close>..\<open>'9'\<close>) are read by \<open>dec_val\<close> and written by
    \<open>pad_digits\<close>; most numeric results below are stated with these two.
\<close>

unbundle bit_operations_syntax

named_theorems cob_simps \<open>equations that evaluate the model's accessors\<close>

section \<open>Bytes and checked storage access\<close>

type_synonym u8 = "8 word"
type_synonym bytes = "8 word list"

definition rd :: "bytes \<Rightarrow> nat \<Rightarrow> u8 option" where
  "rd p i = (if i < length p then Some (p ! i) else None)"

definition wr :: "bytes \<Rightarrow> nat \<Rightarrow> u8 \<Rightarrow> bytes option" where
  "wr p i b = (if i < length p then Some (p[i := b]) else None)"

definition rds :: "bytes \<Rightarrow> nat \<Rightarrow> nat \<Rightarrow> bytes option" where
  "rds p off k = (if off + k \<le> length p then Some (take k (drop off p)) else None)"

definition wrs :: "bytes \<Rightarrow> nat \<Rightarrow> bytes \<Rightarrow> bytes option" where
  "wrs p off bs = (if off + length bs \<le> length p
     then Some (take off p @ bs @ drop (off + length bs) p) else None)"

lemma rd_Some [cob_simps]: "i < length p \<Longrightarrow> rd p i = Some (p ! i)"
  by (simp add: rd_def)

lemma wr_Some [cob_simps]: "i < length p \<Longrightarrow> wr p i b = Some (p[i := b])"
  by (simp add: wr_def)

lemma rds_Some [cob_simps]: "off + k \<le> length p \<Longrightarrow> rds p off k = Some (take k (drop off p))"
  by (simp add: rds_def)

lemma wrs_Some [cob_simps]:
  "off + length bs \<le> length p \<Longrightarrow> wrs p off bs = Some (take off p @ bs @ drop (off + length bs) p)"
  by (simp add: wrs_def)

lemma wrs_length: "wrs p off bs = Some q \<Longrightarrow> length q = length p"
  by (auto simp: wrs_def split: if_splits)

lemma wr_length: "wr p i b = Some q \<Longrightarrow> length q = length p"
  by (auto simp: wr_def split: if_splits)

lemma wrs_all: "length bs = length p \<Longrightarrow> wrs p 0 bs = Some bs"
  by (simp add: wrs_def)

lemma length_rds: "rds p off k = Some bs \<Longrightarrow> length bs = k"
  by (auto simp: rds_def split: if_splits)

section \<open>C integers\<close>

abbreviation i8 :: "int \<Rightarrow> int" where "i8 x \<equiv> signed_take_bit 7 x"
abbreviation i16 :: "int \<Rightarrow> int" where "i16 x \<equiv> signed_take_bit 15 x"
abbreviation i32 :: "int \<Rightarrow> int" where "i32 x \<equiv> signed_take_bit 31 x"
abbreviation i64 :: "int \<Rightarrow> int" where "i64 x \<equiv> signed_take_bit 63 x"
abbreviation u16 :: "int \<Rightarrow> int" where "u16 x \<equiv> take_bit 16 x"
abbreviation u32 :: "int \<Rightarrow> int" where "u32 x \<equiv> take_bit 32 x"
abbreviation u64 :: "int \<Rightarrow> int" where "u64 x \<equiv> take_bit 64 x"

text \<open>The comparison idiom \<open>(val < n) ? -1 : (val > n)\<close>.\<close>

definition cmp3 :: "int \<Rightarrow> int \<Rightarrow> int" where
  "cmp3 x n = (if x < n then -1 else if x > n then 1 else 0)"

lemma cmp3_sgn: "cmp3 x n = sgn (x - n)"
  by (simp add: cmp3_def sgn_if)

lemma i32_id: "- (2 ^ 31) \<le> x \<Longrightarrow> x < 2 ^ 31 \<Longrightarrow> i32 x = x"
  by (rule signed_take_bit_int_eq_self) simp_all

lemma i64_id: "- (2 ^ 63) \<le> x \<Longrightarrow> x < 2 ^ 63 \<Longrightarrow> i64 x = x"
  by (rule signed_take_bit_int_eq_self) simp_all

lemma u64_id: "0 \<le> x \<Longrightarrow> x < 2 ^ 64 \<Longrightarrow> u64 x = x"
  by (simp add: take_bit_int_eq_self_iff)

lemma u32_id: "0 \<le> x \<Longrightarrow> x < 2 ^ 32 \<Longrightarrow> u32 x = x"
  by (simp add: take_bit_int_eq_self_iff)

section \<open>Characters\<close>

text \<open>The byte values of the character constants of the source (ASCII).\<close>

abbreviation chr_space :: u8 where "chr_space \<equiv> 32"
abbreviation chr_plus :: u8 where "chr_plus \<equiv> 43"
abbreviation chr_comma :: u8 where "chr_comma \<equiv> 44"
abbreviation chr_minus :: u8 where "chr_minus \<equiv> 45"
abbreviation chr_dot :: u8 where "chr_dot \<equiv> 46"
abbreviation chr_slash :: u8 where "chr_slash \<equiv> 47"
abbreviation chr_0 :: u8 where "chr_0 \<equiv> 48"
abbreviation chr_9 :: u8 where "chr_9 \<equiv> 57"
abbreviation chr_star :: u8 where "chr_star \<equiv> 42"

text \<open>\<open><ctype.h>\<close> in the "C" locale.\<close>

definition isdigit :: "u8 \<Rightarrow> bool" where
  "isdigit c \<longleftrightarrow> 48 \<le> c \<and> c \<le> 57"

definition isspace :: "u8 \<Rightarrow> bool" where
  "isspace c \<longleftrightarrow> c = 32 \<or> (9 \<le> c \<and> c \<le> 13)"

definition isupper :: "u8 \<Rightarrow> bool" where
  "isupper c \<longleftrightarrow> 65 \<le> c \<and> c \<le> 90"

definition islower :: "u8 \<Rightarrow> bool" where
  "islower c \<longleftrightarrow> 97 \<le> c \<and> c \<le> 122"

definition isalpha :: "u8 \<Rightarrow> bool" where
  "isalpha c \<longleftrightarrow> isupper c \<or> islower c"

definition toupper :: "u8 \<Rightarrow> u8" where
  "toupper c = (if islower c then c - 32 else c)"

definition tolower :: "u8 \<Rightarrow> u8" where
  "tolower c = (if isupper c then c + 32 else c)"

section \<open>Decimal digit strings\<close>

text \<open>\<open>cob_d2i\<close> and \<open>cob_i2d\<close> of common.h.\<close>

definition cob_d2i :: "u8 \<Rightarrow> int" where
  "cob_d2i x = uint x - 48"

definition cob_i2d :: "int \<Rightarrow> u8" where
  "cob_i2d x = word_of_int (x + 48)"

lemma d2i_i2d: "0 \<le> x \<Longrightarrow> x \<le> 9 \<Longrightarrow> cob_d2i (cob_i2d x) = x"
  unfolding cob_d2i_def cob_i2d_def by (simp only: uint_word_of_int) simp

lemma i2d_d2i: "cob_i2d (cob_d2i b) = b"
  by (simp add: cob_d2i_def cob_i2d_def)

lemma isdigit_iff: "isdigit b \<longleftrightarrow> 0 \<le> cob_d2i b \<and> cob_d2i b \<le> 9"
  by (simp add: isdigit_def cob_d2i_def word_le_def)

lemma isdigit_d2i: "isdigit b \<Longrightarrow> 0 \<le> cob_d2i b" "isdigit b \<Longrightarrow> cob_d2i b \<le> 9"
  "isdigit b \<Longrightarrow> cob_d2i b < 10"
  by (simp_all add: isdigit_iff)

lemma isdigit_i2d: "0 \<le> x \<Longrightarrow> x \<le> 9 \<Longrightarrow> isdigit (cob_i2d x)"
  by (simp add: isdigit_iff d2i_i2d)

definition all_digits :: "bytes \<Rightarrow> bool" where
  "all_digits bs = list_all isdigit bs"

lemma all_digits_simps [simp]:
  "all_digits []" "all_digits (b # bs) \<longleftrightarrow> isdigit b \<and> all_digits bs"
  "all_digits (xs @ ys) \<longleftrightarrow> all_digits xs \<and> all_digits ys"
  by (simp_all add: all_digits_def)

lemma all_digits_nth: "all_digits xs \<Longrightarrow> i < length xs \<Longrightarrow> isdigit (xs ! i)"
  by (simp add: all_digits_def list_all_length)

lemma all_digits_take: "all_digits xs \<Longrightarrow> all_digits (take n xs)"
  by (metis all_digits_simps(3) append_take_drop_id)

lemma all_digits_drop: "all_digits xs \<Longrightarrow> all_digits (drop n xs)"
  by (metis all_digits_simps(3) append_take_drop_id)

lemma all_digits_replicate [simp]: "all_digits (replicate n 48)"
  by (induction n) (simp_all add: isdigit_def)

fun dec_acc :: "int \<Rightarrow> bytes \<Rightarrow> int" where
  "dec_acc v [] = v"
| "dec_acc v (b # bs) = dec_acc (v * 10 + cob_d2i b) bs"

definition dec_val :: "bytes \<Rightarrow> int" where
  "dec_val bs = dec_acc 0 bs"

lemma dec_acc_shift: "dec_acc v bs = v * 10 ^ length bs + dec_acc 0 bs"
proof (induction bs arbitrary: v)
  case Nil
  then show ?case by simp
next
  case (Cons b bs)
  show ?case
    using Cons.IH [of "v * 10 + cob_d2i b"] Cons.IH [of "cob_d2i b"] by (simp add: algebra_simps)
qed

lemma dec_acc_append: "dec_acc v (xs @ ys) = dec_acc (dec_acc v xs) ys"
  by (induction xs arbitrary: v) simp_all

lemma dec_val_Nil [simp]: "dec_val [] = 0"
  by (simp add: dec_val_def)

lemma dec_val_Cons: "dec_val (b # bs) = cob_d2i b * 10 ^ length bs + dec_val bs"
  by (simp add: dec_val_def dec_acc_shift [of "cob_d2i b"])

lemma dec_val_append: "dec_val (xs @ ys) = dec_val xs * 10 ^ length ys + dec_val ys"
  by (simp add: dec_val_def dec_acc_append dec_acc_shift [of "dec_acc 0 xs"])

lemma dec_val_snoc: "dec_val (xs @ [b]) = dec_val xs * 10 + cob_d2i b"
  by (simp add: dec_val_append dec_val_Cons)

lemma dec_val_replicate0 [simp]: "dec_val (replicate n 48) = 0"
  by (induction n) (simp_all add: dec_val_Cons cob_d2i_def)

lemma dec_val_nonneg: "all_digits bs \<Longrightarrow> 0 \<le> dec_val bs"
  by (induction bs) (simp_all add: dec_val_Cons isdigit_iff)

lemma dec_val_less: "all_digits bs \<Longrightarrow> dec_val bs < 10 ^ length bs"
proof (induction bs)
  case Nil
  then show ?case by simp
next
  case (Cons b bs)
  then have "dec_val bs < 10 ^ length bs" and "cob_d2i b \<le> 9"
    by (simp_all add: isdigit_iff)
  then have "cob_d2i b * 10 ^ length bs + dec_val bs < 9 * 10 ^ length bs + 10 ^ length bs"
    by (intro add_le_less_mono mult_right_mono) simp_all
  then show ?case by (simp add: dec_val_Cons)
qed

fun pad_digits :: "nat \<Rightarrow> int \<Rightarrow> bytes" where
  "pad_digits 0 n = []"
| "pad_digits (Suc k) n = pad_digits k (n div 10) @ [cob_i2d (n mod 10)]"

lemma length_pad_digits [simp]: "length (pad_digits k n) = k"
  by (induction k arbitrary: n) simp_all

lemma all_digits_pad [simp]: "all_digits (pad_digits k n)"
proof (induction k arbitrary: n)
  case (Suc k)
  have "n mod 10 < 10" by simp
  then have "n mod 10 \<le> 9" by arith
  with Suc show ?case by (simp add: isdigit_i2d)
qed simp

lemma mod_exp10_Suc: "(n div 10 mod 10 ^ k) * 10 + n mod 10 = (n::int) mod 10 ^ Suc k"
  by (simp add: zmod_zmult2_eq mult.commute)

lemma dec_val_pad: "dec_val (pad_digits k n) = n mod 10 ^ k"
proof (induction k arbitrary: n)
  case 0
  then show ?case by simp
next
  case (Suc k)
  have "0 \<le> n mod 10" "n mod 10 \<le> 9"
    using pos_mod_bound [of "10::int" n] by simp_all
  then have "dec_val (pad_digits (Suc k) n) = (n div 10 mod 10 ^ k) * 10 + n mod 10"
    by (simp add: dec_val_snoc Suc.IH d2i_i2d)
  then show ?case
    by (simp only: mod_exp10_Suc)
qed

lemma pad_digits_dec_val: "all_digits bs \<Longrightarrow> pad_digits (length bs) (dec_val bs) = bs"
proof (induction bs rule: rev_induct)
  case Nil
  then show ?case by simp
next
  case (snoc b bs)
  then have d: "0 \<le> cob_d2i b" "cob_d2i b < 10" and IH: "pad_digits (length bs) (dec_val bs) = bs"
    by (simp_all add: isdigit_d2i)
  have "(dec_val bs * 10 + cob_d2i b) div 10 = dec_val bs"
    "(dec_val bs * 10 + cob_d2i b) mod 10 = cob_d2i b"
    using d by simp_all
  then show ?case
    by (simp add: dec_val_snoc IH i2d_d2i)
qed

lemma dec_val_inj:
  assumes "all_digits xs" "all_digits ys" "length xs = length ys" "dec_val xs = dec_val ys"
  shows "xs = ys"
  using assms pad_digits_dec_val by metis

lemma pad_digits_mod: "pad_digits k (n mod 10 ^ k) = pad_digits k n"
  by (rule dec_val_inj) (simp_all add: dec_val_pad)

text \<open>
  \<open>mpz_get_str\<close> in base 10 of a non-negative number: its digits without leading zeros,
  \<open>"0"\<close> for zero.
\<close>

fun dec_len :: "nat \<Rightarrow> nat" where
  "dec_len n = (if n < 10 then 1 else Suc (dec_len (n div 10)))"

declare dec_len.simps [simp del]

definition mpz_get_str10 :: "int \<Rightarrow> bytes" where
  "mpz_get_str10 v = pad_digits (dec_len (nat v)) v"

lemma dec_len_bound: "n < 10 ^ dec_len n"
proof (induction n rule: dec_len.induct)
  case (1 n)
  show ?case
  proof (cases "n < 10")
    case True
    then show ?thesis by (simp add: dec_len.simps)
  next
    case False
    with 1 have "n div 10 < 10 ^ dec_len (n div 10)" by simp
    then have "n < 10 * 10 ^ dec_len (n div 10)"
      by (simp add: div_less_iff_less_mult mult.commute)
    with False show ?thesis by (simp add: dec_len.simps [of n])
  qed
qed

lemma dec_len_le: "n < 10 ^ k \<Longrightarrow> 0 < k \<Longrightarrow> dec_len n \<le> k"
proof (induction n arbitrary: k rule: dec_len.induct)
  case (1 n)
  show ?case
  proof (cases "n < 10")
    case True
    with 1 show ?thesis by (simp add: dec_len.simps)
  next
    case False
    then obtain j where k: "k = Suc j" and j: "0 < j"
      using 1(2,3) by (cases k; cases "k - 1") auto
    from k 1(2) have "n div 10 < 10 ^ j"
      by (simp add: div_less_iff_less_mult mult.commute)
    with False j 1(1) k show ?thesis by (simp add: dec_len.simps [of n])
  qed
qed

lemma dec_val_get_str: "0 \<le> v \<Longrightarrow> dec_val (mpz_get_str10 v) = v"
proof -
  assume v: "0 \<le> v"
  have "int (nat v) < int (10 ^ dec_len (nat v))"
    using dec_len_bound by (simp only: of_nat_less_iff)
  with v have "v < 10 ^ dec_len (nat v)" by simp
  with v show ?thesis by (simp add: mpz_get_str10_def dec_val_pad)
qed

lemma all_digits_get_str [simp]: "all_digits (mpz_get_str10 v)"
  by (simp add: mpz_get_str10_def)

lemma length_get_str: "length (mpz_get_str10 v) = dec_len (nat v)"
  by (simp add: mpz_get_str10_def)

lemma dec_len_pos [simp]: "0 < dec_len n"
  by (simp add: dec_len.simps)

lemma get_str_fits: "0 \<le> v \<Longrightarrow> v < 10 ^ k \<Longrightarrow> 0 < k \<Longrightarrow> length (mpz_get_str10 v) \<le> k"
proof -
  assume "0 \<le> v" "v < 10 ^ k" "0 < k"
  then have "nat v < 10 ^ k" by (simp add: nat_less_iff)
  with \<open>0 < k\<close> show ?thesis by (simp add: length_get_str dec_len_le)
qed

lemma get_str_overflows: "0 \<le> v \<Longrightarrow> 10 ^ k \<le> v \<Longrightarrow> k < length (mpz_get_str10 v)"
proof (rule ccontr)
  assume v: "0 \<le> v" "10 ^ k \<le> v" and "\<not> k < length (mpz_get_str10 v)"
  then have "dec_len (nat v) \<le> k" by (simp add: length_get_str)
  then have "(10::int) ^ dec_len (nat v) \<le> 10 ^ k" by (rule power_increasing) simp
  moreover have "int (nat v) < int (10 ^ dec_len (nat v))"
    using dec_len_bound by (simp only: of_nat_less_iff)
  then have "v < 10 ^ dec_len (nat v)" using v by simp
  ultimately show False using v by linarith
qed

end
