(* ===== verification/Cob_Target.thy ===== *)
theory Cob_Target
  imports Cob_Prelude
begin

text \<open>
  The host the run-time is compiled for, and how C objects lie in its storage.

  The record \<open>target\<close> holds the three configuration switches the sources test
  (\<open>WORDS_BIGENDIAN\<close>, \<open>ALLOW_MISALIGNED\<close>, \<open>COB_LI_IS_LL\<close>), so that both branches of
  each \<open>#ifdef\<close> are in the model. A local integer variable that the C code fills or reads
  through a byte pointer is a list of its bytes in host order. The byte-swap macros of
  common.h are translated mask by mask and proved to reverse the bytes.
\<close>

section \<open>Configuration\<close>

record target =
  words_bigendian :: bool
  allow_misaligned :: bool
  cob_li_is_ll :: bool

section \<open>Integers as byte strings\<close>

definition le_val :: "bytes \<Rightarrow> int" where
  "le_val bs = horner_sum uint 256 bs"

fun le_bytes :: "nat \<Rightarrow> int \<Rightarrow> bytes" where
  "le_bytes 0 v = []"
| "le_bytes (Suc k) v = word_of_int v # le_bytes k (v div 256)"

lemma le_val_simps [simp]:
  "le_val [] = 0" "le_val (b # bs) = uint b + 256 * le_val bs"
  by (simp_all add: le_val_def)

lemma le_val_append: "le_val (xs @ ys) = le_val xs + 256 ^ length xs * le_val ys"
  by (induction xs) (simp_all add: algebra_simps)

lemma le_val_replicate0 [simp]: "le_val (replicate n 0) = 0"
  by (induction n) simp_all

lemma le_val_nonneg [simp]: "0 \<le> le_val bs"
  by (induction bs) simp_all

lemma uint8_less: "uint (b :: u8) < 256"
  using uint_lt2p [of b] by simp

lemma le_val_less: "le_val bs < 256 ^ length bs"
proof (induction bs)
  case (Cons b bs)
  then have "256 * le_val bs \<le> 256 * (256 ^ length bs - 1)" by simp
  then show ?case using uint8_less [of b] by simp
qed simp

lemma length_le_bytes [simp]: "length (le_bytes k v) = k"
  by (induction k arbitrary: v) simp_all

lemma exp256: "(256::int) ^ k = 2 ^ (8 * k)"
  by (simp add: power_mult)

lemma le_val_le_bytes: "le_val (le_bytes k v) = v mod 256 ^ k"
proof (induction k arbitrary: v)
  case 0
  then show ?case by simp
next
  case (Suc k)
  have "uint (word_of_int v :: u8) = v mod 256"
    by (simp add: uint_word_of_int)
  then show ?case
    using Suc [of "v div 256"] by (simp add: zmod_zmult2_eq)
qed

lemma le_bytes_le_val: "le_bytes (length bs) (le_val bs) = bs"
proof (induction bs)
  case (Cons b bs)
  have "(uint b + 256 * le_val bs) div 256 = le_val bs"
    using uint8_less [of b] by simp
  moreover have "uint (word_of_int (uint b + 256 * le_val bs) :: u8) = uint b"
    using uint8_less [of b] by (simp only: uint_word_of_int) simp
  then have "(word_of_int (uint b + 256 * le_val bs) :: u8) = b"
    by (simp only: word_uint_eq_iff)
  ultimately show ?case using Cons by simp
qed simp

lemma le_bytes_cong:
  assumes "take_bit (8 * k) v = take_bit (8 * k) w"
  shows "le_bytes k v = le_bytes k w"
proof -
  have "le_val (le_bytes k v) = le_val (le_bytes k w)"
    using assms by (simp add: le_val_le_bytes exp256 take_bit_eq_mod)
  then show ?thesis
    by (metis le_bytes_le_val length_le_bytes)
qed

lemma le_bytes_take_bit: "8 * k \<le> n \<Longrightarrow> le_bytes k (take_bit n v) = le_bytes k v"
  by (rule le_bytes_cong) (simp add: min_def)

lemma le_bytes_signed: "8 * k \<le> Suc n \<Longrightarrow> le_bytes k (signed_take_bit n v) = le_bytes k v"
  by (rule le_bytes_cong) (simp add: take_bit_signed_take_bit)

lemma le_bytes_add_take_bit: "8 * k \<le> n \<Longrightarrow> le_bytes k (take_bit n v + w) = le_bytes k (v + w)"
proof (rule le_bytes_cong)
  assume "8 * k \<le> n"
  then have "take_bit (8 * k) (take_bit (8 * k) (take_bit n v) + take_bit (8 * k) w) =
      take_bit (8 * k) (take_bit (8 * k) v + take_bit (8 * k) w)"
    by (simp add: min_def)
  then show "take_bit (8 * k) (take_bit n v + w) = take_bit (8 * k) (v + w)"
    by (simp only: take_bit_add)
qed

lemma le_bytes_add_signed:
  "8 * k \<le> Suc n \<Longrightarrow> le_bytes k (signed_take_bit n v + w) = le_bytes k (v + w)"
proof (rule le_bytes_cong)
  assume "8 * k \<le> Suc n"
  then have "take_bit (8 * k) (take_bit (8 * k) (signed_take_bit n v) + take_bit (8 * k) w) =
      take_bit (8 * k) (take_bit (8 * k) v + take_bit (8 * k) w)"
    by (simp add: take_bit_signed_take_bit)
  then show "take_bit (8 * k) (signed_take_bit n v + w) = take_bit (8 * k) (v + w)"
    by (simp only: take_bit_add)
qed

lemma take_le_bytes: "k \<le> n \<Longrightarrow> take k (le_bytes n v) = le_bytes k v"
proof (induction k arbitrary: n v)
  case (Suc k)
  then show ?case by (cases n) simp_all
qed simp

lemma take_bit_le_val: "8 * length bs \<le> n \<Longrightarrow> take_bit n (le_val bs) = le_val bs"
proof -
  assume "8 * length bs \<le> n"
  then have "(2::int) ^ (8 * length bs) \<le> 2 ^ n" by (simp add: power_increasing)
  then have "le_val bs < 2 ^ n" using le_val_less [of bs] unfolding exp256 by linarith
  then show ?thesis by (simp add: take_bit_int_eq_self_iff)
qed

section \<open>C objects in host order\<close>

definition host_val :: "target \<Rightarrow> bytes \<Rightarrow> int" where
  "host_val T bs = (if words_bigendian T then le_val (rev bs) else le_val bs)"

definition host_bytes :: "target \<Rightarrow> nat \<Rightarrow> int \<Rightarrow> bytes" where
  "host_bytes T sz v = (if words_bigendian T then rev (le_bytes sz v) else le_bytes sz v)"

text \<open>
  \<open>ld_obj\<close>/\<open>st_obj\<close>: read or write an object of \<open>sz\<close> bytes through a cast pointer.
  \<open>obj_in\<close>: a zero-initialised object of \<open>sz\<close> bytes after \<open>bs\<close> was copied to its bytes
  from offset \<open>off\<close> on; \<open>obj_out\<close>: \<open>k\<close> of its bytes from offset \<open>off\<close> on.
\<close>

definition ld_obj :: "target \<Rightarrow> nat \<Rightarrow> bytes \<Rightarrow> int option" where
  "ld_obj T sz p = do { bs \<leftarrow> rds p 0 sz; Some (host_val T bs) }"

definition st_obj :: "target \<Rightarrow> nat \<Rightarrow> int \<Rightarrow> bytes \<Rightarrow> bytes option" where
  "st_obj T sz v p = wrs p 0 (host_bytes T sz v)"

definition obj_in :: "target \<Rightarrow> nat \<Rightarrow> nat \<Rightarrow> bytes \<Rightarrow> int option" where
  "obj_in T sz off bs = do { ob \<leftarrow> wrs (replicate sz 0) off bs; Some (host_val T ob) }"

definition obj_out :: "target \<Rightarrow> nat \<Rightarrow> nat \<Rightarrow> nat \<Rightarrow> int \<Rightarrow> bytes option" where
  "obj_out T sz off k v = rds (host_bytes T sz v) off k"

text \<open>The offset of the low-order, respectively high-order, \<open>k\<close> bytes of an object.\<close>

definition low_off :: "target \<Rightarrow> nat \<Rightarrow> nat" where
  "low_off T d = (if words_bigendian T then d else 0)"

definition high_off :: "target \<Rightarrow> nat \<Rightarrow> nat" where
  "high_off T d = (if words_bigendian T then 0 else d)"

lemma length_host_bytes [simp]: "length (host_bytes T sz v) = sz"
  by (simp add: host_bytes_def)

lemma host_val_host_bytes: "host_val T (host_bytes T k v) = v mod 256 ^ k"
  by (simp add: host_val_def host_bytes_def le_val_le_bytes)

lemma host_bytes_host_val: "host_bytes T (length bs) (host_val T bs) = bs"
  using le_bytes_le_val [of bs] le_bytes_le_val [of "rev bs"]
  by (auto simp: host_val_def host_bytes_def)

lemma obj_in_low:
  "length bs + d = sz \<Longrightarrow> obj_in T sz (low_off T d) bs = Some (host_val T bs)"
  by (auto simp: obj_in_def low_off_def host_val_def wrs_def le_val_append)

lemma obj_in_high:
  "length bs + d = sz \<Longrightarrow> obj_in T sz (high_off T d) bs = Some (256 ^ d * host_val T bs)"
  by (auto simp: obj_in_def high_off_def host_val_def wrs_def le_val_append)

lemma obj_out_low:
  "k + d = sz \<Longrightarrow> obj_out T sz (low_off T d) k v = Some (host_bytes T k v)"
  by (auto simp: obj_out_def low_off_def host_bytes_def rds_def take_le_bytes drop_rev)

lemma host_bytes_cong:
  "take_bit (8 * k) v = take_bit (8 * k) w \<Longrightarrow> host_bytes T k v = host_bytes T k w"
  by (auto simp: host_bytes_def intro: le_bytes_cong)

lemma host_val_bounds: "0 \<le> host_val T bs" "host_val T bs < 2 ^ (8 * length bs)"
  using le_val_less [of bs] le_val_less [of "rev bs"] by (simp_all add: host_val_def exp256)

text \<open>
  The "shift with sign" idiom: bytes placed at the high end of a wider signed object and
  shifted down arithmetically give their two's complement value.
\<close>

lemma shift_with_sign:
  assumes "0 < k"
  shows "drop_bit (8 * d) (signed_take_bit (8 * (k + d) - 1) (256 ^ d * v)) = signed_take_bit (8 * k - 1) (v :: int)"
proof (rule bit_eqI)
  fix n
  have v: "256 ^ d * v = push_bit (8 * d) v"
    by (simp add: push_bit_eq_mult exp256)
  have m: "min (8 * (k + d) - 1) (8 * d + n) = 8 * d + min (8 * k - 1) n"
    using assms by simp
  show "bit (drop_bit (8 * d) (signed_take_bit (8 * (k + d) - 1) (256 ^ d * v))) n =
        bit (signed_take_bit (8 * k - 1) v) n"
    unfolding v bit_drop_bit_eq o_def bit_signed_take_bit_iff m
    by (simp add: bit_push_bit_iff_int)
qed

section \<open>Byte swapping\<close>

text \<open>\<open>COB_BSWAP_16_CONSTANT\<close>, \<open>COB_BSWAP_32_CONSTANT\<close>, \<open>COB_BSWAP_64_CONSTANT\<close>.\<close>

definition cob_bswap_16 :: "int \<Rightarrow> int" where
  "cob_bswap_16 val = u16 (drop_bit 8 (u16 val) OR u16 (push_bit 8 (u16 val)))"

definition cob_bswap_32 :: "int \<Rightarrow> int" where
  "cob_bswap_32 val = u32 (
     u32 (push_bit 24 (u32 val AND 0x000000ff)) OR
     u32 (push_bit 8 (u32 val AND 0x0000ff00)) OR
     drop_bit 8 (u32 val AND 0x00ff0000) OR
     drop_bit 24 (u32 val AND 0xff000000))"

definition cob_bswap_64 :: "int \<Rightarrow> int" where
  "cob_bswap_64 val = u64 (
     u64 (push_bit 56 (u64 val AND 0x00000000000000ff)) OR
     u64 (push_bit 40 (u64 val AND 0x000000000000ff00)) OR
     u64 (push_bit 24 (u64 val AND 0x0000000000ff0000)) OR
     u64 (push_bit 8 (u64 val AND 0x00000000ff000000)) OR
     drop_bit 8 (u64 val AND 0x000000ff00000000) OR
     drop_bit 24 (u64 val AND 0x0000ff0000000000) OR
     drop_bit 40 (u64 val AND 0x00ff000000000000) OR
     drop_bit 56 (u64 val AND 0xff00000000000000))"

lemma bit_le_val: "bit (le_val bs) n \<longleftrightarrow> n div 8 < length bs \<and> bit (bs ! (n div 8)) (n mod 8)"
  using bit_horner_sum_uint_exp_iff [of bs n] by (simp add: le_val_def)

lemmas bswap_bits = bit_le_val bit_simps rev_nth numeral_2_eq_2

lemma bswap_16_le_val: "length bs = 2 \<Longrightarrow> cob_bswap_16 (le_val bs) = le_val (rev bs)"
proof (rule bit_eqI)
  fix n
  assume l: "length bs = 2"
  show "bit (cob_bswap_16 (le_val bs)) n = bit (le_val (rev bs)) n"
  proof (cases "n \<in> set [0..<16]")
    case True
    with l show ?thesis
      by (simp add: upt_conv_Cons) (elim disjE; simp add: cob_bswap_16_def bswap_bits)
  next
    case False
    with l show ?thesis by (auto simp: cob_bswap_16_def bswap_bits)
  qed
qed

lemma bswap_32_le_val: "length bs = 4 \<Longrightarrow> cob_bswap_32 (le_val bs) = le_val (rev bs)"
proof (rule bit_eqI)
  fix n
  assume l: "length bs = 4"
  show "bit (cob_bswap_32 (le_val bs)) n = bit (le_val (rev bs)) n"
  proof (cases "n \<in> set [0..<32]")
    case True
    with l show ?thesis
      by (simp add: upt_conv_Cons) (elim disjE; simp add: cob_bswap_32_def bswap_bits)
  next
    case False
    with l show ?thesis by (auto simp: cob_bswap_32_def bswap_bits)
  qed
qed

lemma bswap_64_le_val: "length bs = 8 \<Longrightarrow> cob_bswap_64 (le_val bs) = le_val (rev bs)"
proof (rule bit_eqI)
  fix n
  assume l: "length bs = 8"
  show "bit (cob_bswap_64 (le_val bs)) n = bit (le_val (rev bs)) n"
  proof (cases "n \<in> set [0..<64]")
    case True
    with l show ?thesis
      by (simp add: upt_conv_Cons) (elim disjE; simp add: cob_bswap_64_def bswap_bits)
  next
    case False
    with l show ?thesis by (auto simp: cob_bswap_64_def bswap_bits)
  qed
qed

end
