(* ===== verification/Cob_Cells.thy ===== *)
theory Cob_Cells
  imports Cob_Target
begin

text \<open>
  What a binary data item of \<open>k\<close> bytes is, independently of how the run-time reads it: the
  specification the optimised routines of codegen.h are compared with. A cell is read
  (\<open>cell_get\<close>, \<open>cell_sget\<close>), overwritten (\<open>cell_set\<close>) or updated (\<open>cell_upd\<close>) at the
  front of the storage it is given, most significant byte first when \<open>be\<close>. The locales
  state the contract an optimised compare/add/subtract family owes its callers, and what
  follows from it for every such family.
\<close>

section \<open>Cells\<close>

definition end_val :: "bool \<Rightarrow> bytes \<Rightarrow> int" where
  "end_val be bs = (if be then le_val (rev bs) else le_val bs)"

definition end_bytes :: "bool \<Rightarrow> nat \<Rightarrow> int \<Rightarrow> bytes" where
  "end_bytes be k v = (if be then rev (le_bytes k v) else le_bytes k v)"

definition cell_get :: "bool \<Rightarrow> nat \<Rightarrow> bytes \<Rightarrow> int option" where
  "cell_get be k p = map_option (end_val be) (rds p 0 k)"

definition cell_sget :: "bool \<Rightarrow> nat \<Rightarrow> bytes \<Rightarrow> int option" where
  "cell_sget be k p = map_option (\<lambda>x. signed_take_bit (8 * k - 1) x) (cell_get be k p)"

definition cell_set :: "bool \<Rightarrow> nat \<Rightarrow> bytes \<Rightarrow> int \<Rightarrow> bytes option" where
  "cell_set be k p v = wrs p 0 (end_bytes be k v)"

definition cell_upd :: "bool \<Rightarrow> nat \<Rightarrow> bytes \<Rightarrow> (int \<Rightarrow> int) \<Rightarrow> bytes option" where
  "cell_upd be k p f = do { x \<leftarrow> cell_get be k p; cell_set be k p (f x) }"

definition cell_cmpu :: "bool \<Rightarrow> nat \<Rightarrow> bytes \<Rightarrow> int \<Rightarrow> int option" where
  "cell_cmpu be k p n = (if n < 0 then Some 1 else map_option (\<lambda>x. cmp3 x n) (cell_get be k p))"

definition cell_cmps :: "bool \<Rightarrow> nat \<Rightarrow> bytes \<Rightarrow> int \<Rightarrow> int option" where
  "cell_cmps be k p n = map_option (\<lambda>x. cmp3 x n) (cell_sget be k p)"

lemma host_val_end: "host_val T bs = end_val (words_bigendian T) bs"
  by (simp add: host_val_def end_val_def)

lemma host_bytes_end: "host_bytes T k v = end_bytes (words_bigendian T) k v"
  by (simp add: host_bytes_def end_bytes_def)

lemma length_end_bytes [simp]: "length (end_bytes be k v) = k"
  by (simp add: end_bytes_def)

lemma end_val_end_bytes: "end_val be (end_bytes be k v) = v mod 256 ^ k"
  by (simp add: end_val_def end_bytes_def le_val_le_bytes)

lemma end_bytes_end_val: "length bs = k \<Longrightarrow> end_bytes be k (end_val be bs) = bs"
  using le_bytes_le_val [of bs] le_bytes_le_val [of "rev bs"]
  by (auto simp: end_val_def end_bytes_def)

lemma end_bytes_cong:
  "take_bit (8 * k) v = take_bit (8 * k) w \<Longrightarrow> end_bytes be k v = end_bytes be k w"
  by (auto simp: end_bytes_def intro: le_bytes_cong)

lemma end_val_bounds: "0 \<le> end_val be bs" "end_val be bs < 2 ^ (8 * length bs)"
  using le_val_less [of bs] le_val_less [of "rev bs"] by (simp_all add: end_val_def exp256)

lemma rds0: "rds p 0 k = (if k \<le> length p then Some (take k p) else None)"
  by (simp add: rds_def)

lemma wrs0: "wrs p 0 bs = (if length bs \<le> length p then Some (bs @ drop (length bs) p) else None)"
  by (simp add: wrs_def)

lemma cell_set_Some: "k \<le> length p \<Longrightarrow> cell_set be k p v = Some (end_bytes be k v @ drop k p)"
  by (simp add: cell_set_def wrs0)

lemma cell_get_Some: "k \<le> length p \<Longrightarrow> cell_get be k p = Some (end_val be (take k p))"
  by (simp add: cell_get_def rds0)

lemma cell_get_None: "length p < k \<Longrightarrow> cell_get be k p = None"
  by (simp add: cell_get_def rds0)

lemma cell_get_set: "cell_set be k p v = Some q \<Longrightarrow> cell_get be k q = Some (v mod 256 ^ k)"
  by (auto simp: cell_set_def wrs0 cell_get_def rds0 end_val_end_bytes split: if_splits)

lemma cell_get_upd:
  "cell_upd be k p f = Some q \<Longrightarrow> \<exists>x. cell_get be k p = Some x \<and> cell_get be k q = Some (f x mod 256 ^ k)"
  by (auto simp: cell_upd_def bind_eq_Some_conv dest: cell_get_set)

lemma cell_upd_frame: "cell_upd be k p f = Some q \<Longrightarrow> length q = length p \<and> drop k q = drop k p"
  by (auto simp: cell_upd_def bind_eq_Some_conv cell_set_def wrs0 split: if_splits)

lemma cell_upd_defined: "k \<le> length p \<longleftrightarrow> (\<exists>q. cell_upd be k p f = Some q)"
  by (auto simp: cell_upd_def cell_get_def cell_set_def rds0 wrs0 bind_eq_Some_conv split: if_splits)

lemma end_bytes_mod: "end_bytes be k (x mod 256 ^ k + w) = end_bytes be k (x + w)"
  by (rule end_bytes_cong) (simp add: exp256 take_bit_eq_mod mod_simps)

lemma cell_upd_upd:
  "cell_upd be k p (\<lambda>x. x + v) = Some q \<Longrightarrow> cell_upd be k q (\<lambda>x. x + w) = cell_upd be k p (\<lambda>x. x + (v + w))"
  by (auto simp: cell_upd_def cell_get_def rds0 cell_set_def wrs0 end_val_end_bytes
      end_bytes_mod add.assoc split: if_splits)

lemma cell_upd_0: "k \<le> length p \<Longrightarrow> cell_upd be k p (\<lambda>x. x + 0) = Some p"
  by (simp add: cell_upd_def cell_get_Some cell_set_Some end_bytes_end_val)

section \<open>The contract of an optimised routine family\<close>

locale binary_cell =
  fixes be :: bool and k :: nat
    and cmp :: "bytes \<Rightarrow> int \<Rightarrow> int option"
    and add :: "bytes \<Rightarrow> int \<Rightarrow> bytes option"
    and sub :: "bytes \<Rightarrow> int \<Rightarrow> bytes option"
    and val :: "bytes \<Rightarrow> int option"
  assumes add_spec: "add p v = cell_upd be k p (\<lambda>x. x + v)"
    and sub_spec: "sub p v = cell_upd be k p (\<lambda>x. x - v)"
    and cmp_spec: "- (2 ^ 31) \<le> n \<Longrightarrow> n < 2 ^ 31 \<Longrightarrow> val p = Some x \<Longrightarrow> cmp p n = Some (cmp3 x n)"
    and val_defined: "k \<le> length p \<longleftrightarrow> val p \<noteq> None"
    and val_cong: "val p = Some x \<Longrightarrow> \<exists>y. cell_get be k p = Some y \<and> x mod 256 ^ k = y"
begin

lemma sub_is_add: "sub p v = add p (- v)"
  by (simp add: add_spec sub_spec)

lemma sub_add: "add p v = Some q \<Longrightarrow> sub q v = Some p"
  using cell_upd_upd [of be k p v q "- v"] cell_upd_0 [of k p be] cell_upd_defined [of k p be "\<lambda>x. x + v"]
  by (simp add: sub_spec add_spec)

lemma add_add: "add p v = Some q \<Longrightarrow> add q w = add p (v + w)"
  by (simp add: add_spec cell_upd_upd)

lemma add_frame: "add p v = Some q \<Longrightarrow> length q = length p \<and> drop k q = drop k p"
  by (simp add: add_spec cell_upd_frame)

lemma add_defined: "k \<le> length p \<longleftrightarrow> (\<exists>q. add p v = Some q)"
  by (simp add: add_spec flip: cell_upd_defined)

lemma add_val:
  assumes "val p = Some x" "add p v = Some q"
  shows "\<exists>y. val q = Some y \<and> y mod 256 ^ k = (x + v) mod 256 ^ k"
proof -
  from val_cong [OF assms(1)] obtain z where z: "cell_get be k p = Some z" "x mod 256 ^ k = z"
    by blast
  from assms(2) have u: "cell_upd be k p (\<lambda>x. x + v) = Some q" by (simp add: add_spec)
  with z have q: "cell_get be k q = Some ((z + v) mod 256 ^ k)"
    using cell_get_upd by fastforce
  then have "val q \<noteq> None"
    using val_defined [of q] by (simp add: cell_get_def rds0 split: if_splits)
  then obtain y where y: "val q = Some y" by blast
  with val_cong [OF y] q z(2) have "y mod 256 ^ k = (x + v) mod 256 ^ k"
    by (auto simp: mod_simps)
  with y show ?thesis by blast
qed

lemma cmp_after_add:
  assumes "val p = Some x" "add p v = Some q" "- (2 ^ 31) \<le> n" "n < 2 ^ 31"
  shows "\<exists>y. cmp q n = Some (cmp3 y n) \<and> y mod 256 ^ k = (x + v) mod 256 ^ k"
  using add_val [OF assms(1,2)] cmp_spec [OF assms(3,4)] by blast

end

text \<open>The byte-swapped families also have a store.\<close>

locale settable_cell = binary_cell +
  fixes set :: "bytes \<Rightarrow> int \<Rightarrow> bytes option"
  assumes set_spec: "set p v = cell_set be k p v"
begin

lemma val_set:
  assumes "set p v = Some q"
  shows "\<exists>y. val q = Some y \<and> y mod 256 ^ k = v mod 256 ^ k"
proof -
  from assms have q: "cell_get be k q = Some (v mod 256 ^ k)"
    by (simp add: set_spec cell_get_set)
  then have "val q \<noteq> None"
    using val_defined [of q] by (simp add: cell_get_def rds0 split: if_splits)
  with q show ?thesis using val_cong by fastforce
qed

lemma set_add: "set p v = Some q \<Longrightarrow> add q w = set p (v + w)"
  by (auto simp: set_spec add_spec cell_upd_def cell_get_def cell_set_def rds0 wrs0
      end_val_end_bytes end_bytes_mod split: if_splits)

end

section \<open>Shared lemmas for the routines\<close>

lemma drop_bit_shift_sign:
  "length bs = k \<Longrightarrow> 0 < k \<Longrightarrow> n = 8 * (k + d) - 1 \<Longrightarrow> s = 8 * d \<Longrightarrow>
   drop_bit s (signed_take_bit n (256 ^ d * host_val T bs)) = signed_take_bit (8 * k - 1) (host_val T bs)"
  by (simp only: shift_with_sign)

lemma obj_in_full: "length bs = sz \<Longrightarrow> obj_in T sz 0 bs = Some (host_val T bs)"
  using obj_in_low [of bs 0 sz T] by (simp add: low_off_def)

lemma obj_out_full: "obj_out T sz 0 sz v = Some (host_bytes T sz v)"
  using obj_out_low [of sz 0 sz T v] by (simp add: low_off_def)

lemma end_bytes_add_wrap:
  assumes "8 * k \<le> n"
  shows "end_bytes be k (take_bit n (x + v)) = end_bytes be k (x + v)"
    "end_bytes be k (take_bit n (x - v)) = end_bytes be k (x - v)"
    "end_bytes be k (take_bit n v) = end_bytes be k v"
  by (rule end_bytes_cong; use assms in \<open>simp add: min_def\<close>)+

lemma end_bytes_add_signed_wrap:
  assumes "8 * k \<le> Suc n"
  shows "end_bytes be k (signed_take_bit n (x + v)) = end_bytes be k (x + v)"
    "end_bytes be k (signed_take_bit n (x - v)) = end_bytes be k (x - v)"
    "end_bytes be k (signed_take_bit n v) = end_bytes be k v"
  by (rule end_bytes_cong; use assms in \<open>simp add: take_bit_signed_take_bit\<close>)+

lemma end_bytes_signed_arg:
  assumes "8 * k \<le> Suc n"
  shows "end_bytes be k (signed_take_bit n x + v) = end_bytes be k (x + v)"
    "end_bytes be k (signed_take_bit n x - v) = end_bytes be k (x - v)"
proof -
  show "end_bytes be k (signed_take_bit n x + v) = end_bytes be k (x + v)"
    using assms by (auto simp: end_bytes_def le_bytes_add_signed)
  show "end_bytes be k (signed_take_bit n x - v) = end_bytes be k (x - v)"
    using assms le_bytes_add_signed [of k n x "- v"] by (auto simp: end_bytes_def)
qed

section \<open>Discharging the contract\<close>

lemma cell_cmpu_val:
  "cell_get be k p = Some x \<Longrightarrow> cell_cmpu be k p n = Some (cmp3 x n)"
  using end_val_bounds(1) [of be "take k p"]
  by (auto simp: cell_cmpu_def cell_get_def rds0 cmp3_def split: if_splits)

lemma unsigned_cellI:
  assumes "\<And>p v. add p v = cell_upd be k p (\<lambda>x. x + v)"
    and "\<And>p v. sub p v = cell_upd be k p (\<lambda>x. x - v)"
    and "\<And>p n. - (2 ^ 31) \<le> n \<Longrightarrow> n < 2 ^ 31 \<Longrightarrow> cmp p n = cell_cmpu be k p n"
  shows "binary_cell be k cmp add sub (cell_get be k)"
proof (unfold_locales)
  fix p x
  assume "cell_get be k p = Some x"
  then have "x mod 256 ^ k = x"
    using end_val_bounds [of be "take k p"]
    by (auto simp: cell_get_def rds0 exp256 min_def split: if_splits)
  with \<open>cell_get be k p = Some x\<close> show "\<exists>y. cell_get be k p = Some y \<and> x mod 256 ^ k = y"
    by simp
qed (use assms in \<open>auto simp: cell_cmpu_val cell_get_Some cell_get_None\<close>,
     auto simp: cell_get_def rds0 split: if_splits)

lemma signed_cellI:
  assumes "\<And>p v. add p v = cell_upd be k p (\<lambda>x. x + v)"
    and "\<And>p v. sub p v = cell_upd be k p (\<lambda>x. x - v)"
    and "\<And>p n. - (2 ^ 31) \<le> n \<Longrightarrow> n < 2 ^ 31 \<Longrightarrow> cmp p n = cell_cmps be k p n"
    and "0 < k"
  shows "binary_cell be k cmp add sub (cell_sget be k)"
proof (unfold_locales)
  fix p x
  assume "cell_sget be k p = Some x"
  then obtain y where y: "cell_get be k p = Some y" "x = signed_take_bit (8 * k - 1) y"
    by (auto simp: cell_sget_def)
  then have "take_bit (8 * k) y = y"
    using end_val_bounds [of be "take k p"]
    by (auto simp: cell_get_def rds0 take_bit_int_eq_self_iff min_def split: if_splits)
  with y \<open>0 < k\<close> have "x mod 256 ^ k = y"
    by (simp add: exp256 take_bit_signed_take_bit flip: take_bit_eq_mod)
  with y show "\<exists>y. cell_get be k p = Some y \<and> x mod 256 ^ k = y" by simp
qed (use assms in \<open>auto simp: cell_cmps_def cell_sget_def cell_get_Some cell_get_None\<close>,
     auto simp: cell_get_def rds0 split: if_splits)

end
