(* ===== verification/Cob_Codegen_Native.thy ===== *)
theory Cob_Codegen_Native
  imports Cob_Cells
begin

text \<open>
  The optimised compare, add and subtract routines of libcob/codegen.h for binary items in
  host byte order, one definition per routine, both \<open>#ifdef ALLOW_MISALIGNED\<close> and both
  \<open>#ifdef WORDS_BIGENDIAN\<close> branches included. An operand \<open>p\<close> is the storage from the
  item's first byte on; \<open>low_off\<close> is the source's \<open>x = ((unsigned char * )&n) + d\<close> on a
  big-endian host and \<open>x = (unsigned char * )&n\<close> on a little-endian one, \<open>high_off\<close> the
  reverse. Every routine is proved to be the cell operation of its width.
\<close>

section \<open>The routines\<close>

definition cob_cmp_u8_binary :: "bytes \<Rightarrow> int \<Rightarrow> int option" where
  "cob_cmp_u8_binary p n =
     (if n < 0 then Some 1 else do { b \<leftarrow> rd p 0; Some (cmp3 (uint b) n) })"

definition cob_cmp_s8_binary :: "bytes \<Rightarrow> int \<Rightarrow> int option" where
  "cob_cmp_s8_binary p n =
     do { b \<leftarrow> rd p 0; Some (cmp3 (sint b) n) }"

definition cob_cmp_u16_binary :: "target \<Rightarrow> bytes \<Rightarrow> int \<Rightarrow> int option" where
  "cob_cmp_u16_binary T p n =
     (if n < 0 then Some 1 else do {
       val \<leftarrow> (if allow_misaligned T then ld_obj T 2 p
              else do { bs \<leftarrow> rds p 0 2; obj_in T 2 0 bs });
       Some (cmp3 (val) (n)) })"

definition cob_cmp_s16_binary :: "target \<Rightarrow> bytes \<Rightarrow> int \<Rightarrow> int option" where
  "cob_cmp_s16_binary T p n =
     do {
       val \<leftarrow> (if allow_misaligned T then ld_obj T 2 p
              else do { bs \<leftarrow> rds p 0 2; obj_in T 2 0 bs });
       Some (cmp3 (i16 (val)) (n)) }"

definition cob_cmp_u24_binary :: "target \<Rightarrow> bytes \<Rightarrow> int \<Rightarrow> int option" where
  "cob_cmp_u24_binary T p n =
     (if n < 0 then Some 1 else do {
       bs \<leftarrow> rds p 0 3;
       val \<leftarrow> obj_in T 4 (low_off T 1) bs;
       Some (cmp3 val (u32 n)) })"

definition cob_cmp_s24_binary :: "target \<Rightarrow> bytes \<Rightarrow> int \<Rightarrow> int option" where
  "cob_cmp_s24_binary T p n =
     do {
       bs \<leftarrow> rds p 0 3;
       val \<leftarrow> obj_in T 4 (high_off T 1) bs;
       let val = drop_bit 8 (i32 (val));
       Some (cmp3 val n) }"

definition cob_cmp_u32_binary :: "target \<Rightarrow> bytes \<Rightarrow> int \<Rightarrow> int option" where
  "cob_cmp_u32_binary T p n =
     (if n < 0 then Some 1 else do {
       val \<leftarrow> (if allow_misaligned T then ld_obj T 4 p
              else do { bs \<leftarrow> rds p 0 4; obj_in T 4 0 bs });
       Some (cmp3 (val) (u32 n)) })"

definition cob_cmp_s32_binary :: "target \<Rightarrow> bytes \<Rightarrow> int \<Rightarrow> int option" where
  "cob_cmp_s32_binary T p n =
     do {
       val \<leftarrow> (if allow_misaligned T then ld_obj T 4 p
              else do { bs \<leftarrow> rds p 0 4; obj_in T 4 0 bs });
       Some (cmp3 (i32 (val)) (n)) }"

definition cob_cmp_u40_binary :: "target \<Rightarrow> bytes \<Rightarrow> int \<Rightarrow> int option" where
  "cob_cmp_u40_binary T p n =
     (if n < 0 then Some 1 else do {
       bs \<leftarrow> rds p 0 5;
       val \<leftarrow> obj_in T 8 (low_off T 3) bs;
       Some (cmp3 val (u64 n)) })"

definition cob_cmp_s40_binary :: "target \<Rightarrow> bytes \<Rightarrow> int \<Rightarrow> int option" where
  "cob_cmp_s40_binary T p n =
     do {
       bs \<leftarrow> rds p 0 5;
       val \<leftarrow> obj_in T 8 (high_off T 3) bs;
       let val = drop_bit 24 (i64 (val));
       Some (cmp3 val n) }"

definition cob_cmp_u48_binary :: "target \<Rightarrow> bytes \<Rightarrow> int \<Rightarrow> int option" where
  "cob_cmp_u48_binary T p n =
     (if n < 0 then Some 1 else do {
       bs \<leftarrow> rds p 0 6;
       val \<leftarrow> obj_in T 8 (low_off T 2) bs;
       Some (cmp3 val (u64 n)) })"

definition cob_cmp_s48_binary :: "target \<Rightarrow> bytes \<Rightarrow> int \<Rightarrow> int option" where
  "cob_cmp_s48_binary T p n =
     do {
       bs \<leftarrow> rds p 0 6;
       val \<leftarrow> obj_in T 8 (high_off T 2) bs;
       let val = drop_bit 16 (i64 (val));
       Some (cmp3 val n) }"

definition cob_cmp_u56_binary :: "target \<Rightarrow> bytes \<Rightarrow> int \<Rightarrow> int option" where
  "cob_cmp_u56_binary T p n =
     (if n < 0 then Some 1 else do {
       bs \<leftarrow> rds p 0 7;
       val \<leftarrow> obj_in T 8 (low_off T 1) bs;
       Some (cmp3 val (u64 n)) })"

definition cob_cmp_s56_binary :: "target \<Rightarrow> bytes \<Rightarrow> int \<Rightarrow> int option" where
  "cob_cmp_s56_binary T p n =
     do {
       bs \<leftarrow> rds p 0 7;
       val \<leftarrow> obj_in T 8 (high_off T 1) bs;
       let val = drop_bit 8 (i64 (val));
       Some (cmp3 val n) }"

definition cob_cmp_u64_binary :: "target \<Rightarrow> bytes \<Rightarrow> int \<Rightarrow> int option" where
  "cob_cmp_u64_binary T p n =
     (if n < 0 then Some 1 else do {
       val \<leftarrow> (if allow_misaligned T then ld_obj T 8 p
              else do { bs \<leftarrow> rds p 0 8; obj_in T 8 0 bs });
       Some (cmp3 (val) (u64 n)) })"

definition cob_cmp_s64_binary :: "target \<Rightarrow> bytes \<Rightarrow> int \<Rightarrow> int option" where
  "cob_cmp_s64_binary T p n =
     do {
       val \<leftarrow> (if allow_misaligned T then ld_obj T 8 p
              else do { bs \<leftarrow> rds p 0 8; obj_in T 8 0 bs });
       Some (cmp3 (i64 (val)) (n)) }"

definition cob_add_u8_binary :: "bytes \<Rightarrow> int \<Rightarrow> bytes option" where
  "cob_add_u8_binary p val =
     do { b \<leftarrow> rd p 0; wr p 0 (word_of_int (uint b + val)) }"

definition cob_add_s8_binary :: "bytes \<Rightarrow> int \<Rightarrow> bytes option" where
  "cob_add_s8_binary p val =
     do { b \<leftarrow> rd p 0; wr p 0 (word_of_int (sint b + val)) }"

definition cob_add_u16_binary :: "target \<Rightarrow> bytes \<Rightarrow> int \<Rightarrow> bytes option" where
  "cob_add_u16_binary T p val =
     (if allow_misaligned T then do {
        n \<leftarrow> ld_obj T 2 p;
        st_obj T 2 (u16 (n + val)) p }
      else do {
        bs \<leftarrow> rds p 0 2;
        n \<leftarrow> obj_in T 2 0 bs;
        let n = u16 (n + val);
        xs \<leftarrow> obj_out T 2 0 2 n;
        wrs p 0 xs })"

definition cob_add_s16_binary :: "target \<Rightarrow> bytes \<Rightarrow> int \<Rightarrow> bytes option" where
  "cob_add_s16_binary T p val =
     (if allow_misaligned T then do {
        n \<leftarrow> ld_obj T 2 p;
        st_obj T 2 (i16 (i16 (n) + val)) p }
      else do {
        bs \<leftarrow> rds p 0 2;
        n \<leftarrow> obj_in T 2 0 bs;
        let n = i16 (i16 (n) + val);
        xs \<leftarrow> obj_out T 2 0 2 n;
        wrs p 0 xs })"

definition cob_add_u24_binary :: "target \<Rightarrow> bytes \<Rightarrow> int \<Rightarrow> bytes option" where
  "cob_add_u24_binary T p val =
     do {
      bs \<leftarrow> rds p 0 3;
      n \<leftarrow> obj_in T 4 (low_off T 1) bs;
      let n = u32 (n + val);
      xs \<leftarrow> obj_out T 4 (low_off T 1) 3 n;
      wrs p 0 xs }"

definition cob_add_s24_binary :: "target \<Rightarrow> bytes \<Rightarrow> int \<Rightarrow> bytes option" where
  "cob_add_s24_binary T p val =
     do {
      bs \<leftarrow> rds p 0 3;
      n \<leftarrow> obj_in T 4 (high_off T 1) bs;
      let n = drop_bit 8 (i32 (n));
      let n = i32 (n + val);
      xs \<leftarrow> obj_out T 4 (low_off T 1) 3 n;
      wrs p 0 xs }"

definition cob_add_u32_binary :: "target \<Rightarrow> bytes \<Rightarrow> int \<Rightarrow> bytes option" where
  "cob_add_u32_binary T p val =
     (if allow_misaligned T then do {
        n \<leftarrow> ld_obj T 4 p;
        st_obj T 4 (u32 (n + val)) p }
      else do {
        bs \<leftarrow> rds p 0 4;
        n \<leftarrow> obj_in T 4 0 bs;
        let n = u32 (n + val);
        xs \<leftarrow> obj_out T 4 0 4 n;
        wrs p 0 xs })"

definition cob_add_s32_binary :: "target \<Rightarrow> bytes \<Rightarrow> int \<Rightarrow> bytes option" where
  "cob_add_s32_binary T p val =
     (if allow_misaligned T then do {
        n \<leftarrow> ld_obj T 4 p;
        st_obj T 4 (i32 (i32 (n) + val)) p }
      else do {
        bs \<leftarrow> rds p 0 4;
        n \<leftarrow> obj_in T 4 0 bs;
        let n = i32 (i32 (n) + val);
        xs \<leftarrow> obj_out T 4 0 4 n;
        wrs p 0 xs })"

definition cob_add_u40_binary :: "target \<Rightarrow> bytes \<Rightarrow> int \<Rightarrow> bytes option" where
  "cob_add_u40_binary T p val =
     do {
      bs \<leftarrow> rds p 0 5;
      n \<leftarrow> obj_in T 8 (low_off T 3) bs;
      let n = u64 (n + val);
      xs \<leftarrow> obj_out T 8 (low_off T 3) 5 n;
      wrs p 0 xs }"

definition cob_add_s40_binary :: "target \<Rightarrow> bytes \<Rightarrow> int \<Rightarrow> bytes option" where
  "cob_add_s40_binary T p val =
     do {
      bs \<leftarrow> rds p 0 5;
      n \<leftarrow> obj_in T 8 (high_off T 3) bs;
      let n = drop_bit 24 (i64 (n));
      let n = i64 (n + val);
      xs \<leftarrow> obj_out T 8 (low_off T 3) 5 n;
      wrs p 0 xs }"

definition cob_add_u48_binary :: "target \<Rightarrow> bytes \<Rightarrow> int \<Rightarrow> bytes option" where
  "cob_add_u48_binary T p val =
     do {
      bs \<leftarrow> rds p 0 6;
      n \<leftarrow> obj_in T 8 (low_off T 2) bs;
      let n = u64 (n + val);
      xs \<leftarrow> obj_out T 8 (low_off T 2) 6 n;
      wrs p 0 xs }"

definition cob_add_s48_binary :: "target \<Rightarrow> bytes \<Rightarrow> int \<Rightarrow> bytes option" where
  "cob_add_s48_binary T p val =
     do {
      bs \<leftarrow> rds p 0 6;
      n \<leftarrow> obj_in T 8 (high_off T 2) bs;
      let n = drop_bit 16 (i64 (n));
      let n = i64 (n + val);
      xs \<leftarrow> obj_out T 8 (low_off T 2) 6 n;
      wrs p 0 xs }"

definition cob_add_u56_binary :: "target \<Rightarrow> bytes \<Rightarrow> int \<Rightarrow> bytes option" where
  "cob_add_u56_binary T p val =
     do {
      bs \<leftarrow> rds p 0 7;
      n \<leftarrow> obj_in T 8 (low_off T 1) bs;
      let n = u64 (n + val);
      xs \<leftarrow> obj_out T 8 (low_off T 1) 7 n;
      wrs p 0 xs }"

definition cob_add_s56_binary :: "target \<Rightarrow> bytes \<Rightarrow> int \<Rightarrow> bytes option" where
  "cob_add_s56_binary T p val =
     do {
      bs \<leftarrow> rds p 0 7;
      n \<leftarrow> obj_in T 8 (high_off T 1) bs;
      let n = drop_bit 8 (i64 (n));
      let n = i64 (n + val);
      xs \<leftarrow> obj_out T 8 (low_off T 1) 7 n;
      wrs p 0 xs }"

definition cob_add_u64_binary :: "target \<Rightarrow> bytes \<Rightarrow> int \<Rightarrow> bytes option" where
  "cob_add_u64_binary T p val =
     (if allow_misaligned T then do {
        n \<leftarrow> ld_obj T 8 p;
        st_obj T 8 (u64 (n + val)) p }
      else do {
        bs \<leftarrow> rds p 0 8;
        n \<leftarrow> obj_in T 8 0 bs;
        let n = u64 (n + val);
        xs \<leftarrow> obj_out T 8 0 8 n;
        wrs p 0 xs })"

definition cob_add_s64_binary :: "target \<Rightarrow> bytes \<Rightarrow> int \<Rightarrow> bytes option" where
  "cob_add_s64_binary T p val =
     (if allow_misaligned T then do {
        n \<leftarrow> ld_obj T 8 p;
        st_obj T 8 (i64 (i64 (n) + val)) p }
      else do {
        bs \<leftarrow> rds p 0 8;
        n \<leftarrow> obj_in T 8 0 bs;
        let n = i64 (i64 (n) + val);
        xs \<leftarrow> obj_out T 8 0 8 n;
        wrs p 0 xs })"

definition cob_sub_u8_binary :: "bytes \<Rightarrow> int \<Rightarrow> bytes option" where
  "cob_sub_u8_binary p val =
     do { b \<leftarrow> rd p 0; wr p 0 (word_of_int (uint b - val)) }"

definition cob_sub_s8_binary :: "bytes \<Rightarrow> int \<Rightarrow> bytes option" where
  "cob_sub_s8_binary p val =
     do { b \<leftarrow> rd p 0; wr p 0 (word_of_int (sint b - val)) }"

definition cob_sub_u16_binary :: "target \<Rightarrow> bytes \<Rightarrow> int \<Rightarrow> bytes option" where
  "cob_sub_u16_binary T p val =
     (if allow_misaligned T then do {
        n \<leftarrow> ld_obj T 2 p;
        st_obj T 2 (u16 (n - val)) p }
      else do {
        bs \<leftarrow> rds p 0 2;
        n \<leftarrow> obj_in T 2 0 bs;
        let n = u16 (n - val);
        xs \<leftarrow> obj_out T 2 0 2 n;
        wrs p 0 xs })"

definition cob_sub_s16_binary :: "target \<Rightarrow> bytes \<Rightarrow> int \<Rightarrow> bytes option" where
  "cob_sub_s16_binary T p val =
     (if allow_misaligned T then do {
        n \<leftarrow> ld_obj T 2 p;
        st_obj T 2 (i16 (i16 (n) - val)) p }
      else do {
        bs \<leftarrow> rds p 0 2;
        n \<leftarrow> obj_in T 2 0 bs;
        let n = i16 (i16 (n) - val);
        xs \<leftarrow> obj_out T 2 0 2 n;
        wrs p 0 xs })"

definition cob_sub_u24_binary :: "target \<Rightarrow> bytes \<Rightarrow> int \<Rightarrow> bytes option" where
  "cob_sub_u24_binary T p val =
     do {
      bs \<leftarrow> rds p 0 3;
      n \<leftarrow> obj_in T 4 (low_off T 1) bs;
      let n = u32 (n - val);
      xs \<leftarrow> obj_out T 4 (low_off T 1) 3 n;
      wrs p 0 xs }"

definition cob_sub_s24_binary :: "target \<Rightarrow> bytes \<Rightarrow> int \<Rightarrow> bytes option" where
  "cob_sub_s24_binary T p val =
     do {
      bs \<leftarrow> rds p 0 3;
      n \<leftarrow> obj_in T 4 (high_off T 1) bs;
      let n = drop_bit 8 (i32 (n));
      let n = i32 (n - val);
      xs \<leftarrow> obj_out T 4 (low_off T 1) 3 n;
      wrs p 0 xs }"

definition cob_sub_u32_binary :: "target \<Rightarrow> bytes \<Rightarrow> int \<Rightarrow> bytes option" where
  "cob_sub_u32_binary T p val =
     (if allow_misaligned T then do {
        n \<leftarrow> ld_obj T 4 p;
        st_obj T 4 (u32 (n - val)) p }
      else do {
        bs \<leftarrow> rds p 0 4;
        n \<leftarrow> obj_in T 4 0 bs;
        let n = u32 (n - val);
        xs \<leftarrow> obj_out T 4 0 4 n;
        wrs p 0 xs })"

definition cob_sub_s32_binary :: "target \<Rightarrow> bytes \<Rightarrow> int \<Rightarrow> bytes option" where
  "cob_sub_s32_binary T p val =
     (if allow_misaligned T then do {
        n \<leftarrow> ld_obj T 4 p;
        st_obj T 4 (i32 (i32 (n) - val)) p }
      else do {
        bs \<leftarrow> rds p 0 4;
        n \<leftarrow> obj_in T 4 0 bs;
        let n = i32 (i32 (n) - val);
        xs \<leftarrow> obj_out T 4 0 4 n;
        wrs p 0 xs })"

definition cob_sub_u40_binary :: "target \<Rightarrow> bytes \<Rightarrow> int \<Rightarrow> bytes option" where
  "cob_sub_u40_binary T p val =
     do {
      bs \<leftarrow> rds p 0 5;
      n \<leftarrow> obj_in T 8 (low_off T 3) bs;
      let n = u64 (n - val);
      xs \<leftarrow> obj_out T 8 (low_off T 3) 5 n;
      wrs p 0 xs }"

definition cob_sub_s40_binary :: "target \<Rightarrow> bytes \<Rightarrow> int \<Rightarrow> bytes option" where
  "cob_sub_s40_binary T p val =
     do {
      bs \<leftarrow> rds p 0 5;
      n \<leftarrow> obj_in T 8 (high_off T 3) bs;
      let n = drop_bit 24 (i64 (n));
      let n = i64 (n - val);
      xs \<leftarrow> obj_out T 8 (low_off T 3) 5 n;
      wrs p 0 xs }"

definition cob_sub_u48_binary :: "target \<Rightarrow> bytes \<Rightarrow> int \<Rightarrow> bytes option" where
  "cob_sub_u48_binary T p val =
     do {
      bs \<leftarrow> rds p 0 6;
      n \<leftarrow> obj_in T 8 (low_off T 2) bs;
      let n = u64 (n - val);
      xs \<leftarrow> obj_out T 8 (low_off T 2) 6 n;
      wrs p 0 xs }"

definition cob_sub_s48_binary :: "target \<Rightarrow> bytes \<Rightarrow> int \<Rightarrow> bytes option" where
  "cob_sub_s48_binary T p val =
     do {
      bs \<leftarrow> rds p 0 6;
      n \<leftarrow> obj_in T 8 (high_off T 2) bs;
      let n = drop_bit 16 (i64 (n));
      let n = i64 (n - val);
      xs \<leftarrow> obj_out T 8 (low_off T 2) 6 n;
      wrs p 0 xs }"

definition cob_sub_u56_binary :: "target \<Rightarrow> bytes \<Rightarrow> int \<Rightarrow> bytes option" where
  "cob_sub_u56_binary T p val =
     do {
      bs \<leftarrow> rds p 0 7;
      n \<leftarrow> obj_in T 8 (low_off T 1) bs;
      let n = u64 (n - val);
      xs \<leftarrow> obj_out T 8 (low_off T 1) 7 n;
      wrs p 0 xs }"

definition cob_sub_s56_binary :: "target \<Rightarrow> bytes \<Rightarrow> int \<Rightarrow> bytes option" where
  "cob_sub_s56_binary T p val =
     do {
      bs \<leftarrow> rds p 0 7;
      n \<leftarrow> obj_in T 8 (high_off T 1) bs;
      let n = drop_bit 8 (i64 (n));
      let n = i64 (n - val);
      xs \<leftarrow> obj_out T 8 (low_off T 1) 7 n;
      wrs p 0 xs }"

definition cob_sub_u64_binary :: "target \<Rightarrow> bytes \<Rightarrow> int \<Rightarrow> bytes option" where
  "cob_sub_u64_binary T p val =
     (if allow_misaligned T then do {
        n \<leftarrow> ld_obj T 8 p;
        st_obj T 8 (u64 (n - val)) p }
      else do {
        bs \<leftarrow> rds p 0 8;
        n \<leftarrow> obj_in T 8 0 bs;
        let n = u64 (n - val);
        xs \<leftarrow> obj_out T 8 0 8 n;
        wrs p 0 xs })"

definition cob_sub_s64_binary :: "target \<Rightarrow> bytes \<Rightarrow> int \<Rightarrow> bytes option" where
  "cob_sub_s64_binary T p val =
     (if allow_misaligned T then do {
        n \<leftarrow> ld_obj T 8 p;
        st_obj T 8 (i64 (i64 (n) - val)) p }
      else do {
        bs \<leftarrow> rds p 0 8;
        n \<leftarrow> obj_in T 8 0 bs;
        let n = i64 (i64 (n) - val);
        xs \<leftarrow> obj_out T 8 0 8 n;
        wrs p 0 xs })"

section \<open>The routines are the cell operations\<close>

lemmas cell_eval = rds0 wrs0 obj_in_full obj_out_full obj_in_low obj_in_high obj_out_low
  ld_obj_def st_obj_def cell_get_def cell_sget_def cell_set_def cell_upd_def cell_cmpu_def
  cell_cmps_def host_val_end host_bytes_end end_bytes_add_wrap end_bytes_add_signed_wrap
  end_bytes_signed_arg min_def

lemma end_val_1 [simp]: "end_val be [b] = uint b"
  by (simp add: end_val_def)

lemma end_bytes_1 [simp]: "end_bytes be (Suc 0) v = [word_of_int v]"
  by (simp add: end_bytes_def)

lemma sint_signed_take_bit: "sint (b :: u8) = signed_take_bit 7 (uint b)"
  by (simp add: sint_uint)

lemma shift_s24: "drop_bit 8 (i32 (256 * v)) = signed_take_bit 23 v"
  using shift_with_sign [of 3 1 v] by simp

lemma shift_s40: "drop_bit 24 (i64 (16777216 * v)) = signed_take_bit 39 v"
  using shift_with_sign [of 5 3 v] by simp

lemma shift_s48: "drop_bit 16 (i64 (65536 * v)) = signed_take_bit 47 v"
  using shift_with_sign [of 6 2 v] by simp

lemma shift_s56: "drop_bit 8 (i64 (256 * v)) = signed_take_bit 55 v"
  using shift_with_sign [of 7 1 v] by simp

lemma u32_nonneg: "\<not> n < 0 \<Longrightarrow> n < 2 ^ 31 \<Longrightarrow> u32 n = n"
  by (rule u32_id) simp_all

lemma u64_nonneg: "\<not> n < 0 \<Longrightarrow> n < 2 ^ 31 \<Longrightarrow> u64 n = n"
  by (rule u64_id) simp_all

lemmas cell_cmp_eval = u32_nonneg u64_nonneg

lemma cob_cmp_u8_binary_spec: "cob_cmp_u8_binary p n = cell_cmpu False 1 p n"
  by (cases p) (simp_all add: cob_cmp_u8_binary_def rd_def wr_def cell_eval sint_signed_take_bit)

lemma cob_add_u8_binary_spec: "cob_add_u8_binary p val = cell_upd False 1 p (\<lambda>x. x + val)"
  by (cases p) (simp_all add: cob_add_u8_binary_def rd_def wr_def cell_eval)

lemma cob_sub_u8_binary_spec: "cob_sub_u8_binary p val = cell_upd False 1 p (\<lambda>x. x - val)"
  by (cases p) (simp_all add: cob_sub_u8_binary_def rd_def wr_def cell_eval)

lemma cob_cmp_s8_binary_spec: "cob_cmp_s8_binary p n = cell_cmps False 1 p n"
  by (cases p) (simp_all add: cob_cmp_s8_binary_def rd_def wr_def cell_eval sint_signed_take_bit)

lemma cob_add_s8_binary_spec: "cob_add_s8_binary p val = cell_upd False 1 p (\<lambda>x. x + val)"
  by (cases p) (simp_all add: cob_add_s8_binary_def rd_def wr_def cell_eval)

lemma cob_sub_s8_binary_spec: "cob_sub_s8_binary p val = cell_upd False 1 p (\<lambda>x. x - val)"
  by (cases p) (simp_all add: cob_sub_s8_binary_def rd_def wr_def cell_eval)

lemma cob_cmp_u16_binary_spec: "cob_cmp_u16_binary T p n = cell_cmpu (words_bigendian T) 2 p n"
  by (cases "2 \<le> length p") (simp_all add: cob_cmp_u16_binary_def cell_eval cell_cmp_eval)

lemma cob_add_u16_binary_spec: "cob_add_u16_binary T p val = cell_upd (words_bigendian T) 2 p (\<lambda>x. x + val)"
  by (cases "2 \<le> length p") (simp_all add: cob_add_u16_binary_def cell_eval)

lemma cob_sub_u16_binary_spec: "cob_sub_u16_binary T p val = cell_upd (words_bigendian T) 2 p (\<lambda>x. x - val)"
  by (cases "2 \<le> length p") (simp_all add: cob_sub_u16_binary_def cell_eval)

lemma cob_cmp_s16_binary_spec: "cob_cmp_s16_binary T p n = cell_cmps (words_bigendian T) 2 p n"
  by (cases "2 \<le> length p") (simp_all add: cob_cmp_s16_binary_def cell_eval)

lemma cob_add_s16_binary_spec: "cob_add_s16_binary T p val = cell_upd (words_bigendian T) 2 p (\<lambda>x. x + val)"
  by (cases "2 \<le> length p") (simp_all add: cob_add_s16_binary_def cell_eval)

lemma cob_sub_s16_binary_spec: "cob_sub_s16_binary T p val = cell_upd (words_bigendian T) 2 p (\<lambda>x. x - val)"
  by (cases "2 \<le> length p") (simp_all add: cob_sub_s16_binary_def cell_eval)

lemma cob_cmp_u24_binary_spec: "n < 2 ^ 31 \<Longrightarrow> cob_cmp_u24_binary T p n = cell_cmpu (words_bigendian T) 3 p n"
  by (cases "3 \<le> length p") (simp_all add: cob_cmp_u24_binary_def cell_eval cell_cmp_eval)

lemma cob_add_u24_binary_spec: "cob_add_u24_binary T p val = cell_upd (words_bigendian T) 3 p (\<lambda>x. x + val)"
  by (cases "3 \<le> length p") (simp_all add: cob_add_u24_binary_def cell_eval)

lemma cob_sub_u24_binary_spec: "cob_sub_u24_binary T p val = cell_upd (words_bigendian T) 3 p (\<lambda>x. x - val)"
  by (cases "3 \<le> length p") (simp_all add: cob_sub_u24_binary_def cell_eval)

lemma cob_cmp_s24_binary_spec: "cob_cmp_s24_binary T p n = cell_cmps (words_bigendian T) 3 p n"
  by (cases "3 \<le> length p") (simp_all add: cob_cmp_s24_binary_def cell_eval shift_s24)

lemma cob_add_s24_binary_spec: "cob_add_s24_binary T p val = cell_upd (words_bigendian T) 3 p (\<lambda>x. x + val)"
  by (cases "3 \<le> length p") (simp_all add: cob_add_s24_binary_def cell_eval shift_s24)

lemma cob_sub_s24_binary_spec: "cob_sub_s24_binary T p val = cell_upd (words_bigendian T) 3 p (\<lambda>x. x - val)"
  by (cases "3 \<le> length p") (simp_all add: cob_sub_s24_binary_def cell_eval shift_s24)

lemma cob_cmp_u32_binary_spec: "n < 2 ^ 31 \<Longrightarrow> cob_cmp_u32_binary T p n = cell_cmpu (words_bigendian T) 4 p n"
  by (cases "4 \<le> length p") (simp_all add: cob_cmp_u32_binary_def cell_eval cell_cmp_eval)

lemma cob_add_u32_binary_spec: "cob_add_u32_binary T p val = cell_upd (words_bigendian T) 4 p (\<lambda>x. x + val)"
  by (cases "4 \<le> length p") (simp_all add: cob_add_u32_binary_def cell_eval)

lemma cob_sub_u32_binary_spec: "cob_sub_u32_binary T p val = cell_upd (words_bigendian T) 4 p (\<lambda>x. x - val)"
  by (cases "4 \<le> length p") (simp_all add: cob_sub_u32_binary_def cell_eval)

lemma cob_cmp_s32_binary_spec: "cob_cmp_s32_binary T p n = cell_cmps (words_bigendian T) 4 p n"
  by (cases "4 \<le> length p") (simp_all add: cob_cmp_s32_binary_def cell_eval)

lemma cob_add_s32_binary_spec: "cob_add_s32_binary T p val = cell_upd (words_bigendian T) 4 p (\<lambda>x. x + val)"
  by (cases "4 \<le> length p") (simp_all add: cob_add_s32_binary_def cell_eval)

lemma cob_sub_s32_binary_spec: "cob_sub_s32_binary T p val = cell_upd (words_bigendian T) 4 p (\<lambda>x. x - val)"
  by (cases "4 \<le> length p") (simp_all add: cob_sub_s32_binary_def cell_eval)

lemma cob_cmp_u40_binary_spec: "n < 2 ^ 31 \<Longrightarrow> cob_cmp_u40_binary T p n = cell_cmpu (words_bigendian T) 5 p n"
  by (cases "5 \<le> length p") (simp_all add: cob_cmp_u40_binary_def cell_eval cell_cmp_eval)

lemma cob_add_u40_binary_spec: "cob_add_u40_binary T p val = cell_upd (words_bigendian T) 5 p (\<lambda>x. x + val)"
  by (cases "5 \<le> length p") (simp_all add: cob_add_u40_binary_def cell_eval)

lemma cob_sub_u40_binary_spec: "cob_sub_u40_binary T p val = cell_upd (words_bigendian T) 5 p (\<lambda>x. x - val)"
  by (cases "5 \<le> length p") (simp_all add: cob_sub_u40_binary_def cell_eval)

lemma cob_cmp_s40_binary_spec: "cob_cmp_s40_binary T p n = cell_cmps (words_bigendian T) 5 p n"
  by (cases "5 \<le> length p") (simp_all add: cob_cmp_s40_binary_def cell_eval shift_s40)

lemma cob_add_s40_binary_spec: "cob_add_s40_binary T p val = cell_upd (words_bigendian T) 5 p (\<lambda>x. x + val)"
  by (cases "5 \<le> length p") (simp_all add: cob_add_s40_binary_def cell_eval shift_s40)

lemma cob_sub_s40_binary_spec: "cob_sub_s40_binary T p val = cell_upd (words_bigendian T) 5 p (\<lambda>x. x - val)"
  by (cases "5 \<le> length p") (simp_all add: cob_sub_s40_binary_def cell_eval shift_s40)

lemma cob_cmp_u48_binary_spec: "n < 2 ^ 31 \<Longrightarrow> cob_cmp_u48_binary T p n = cell_cmpu (words_bigendian T) 6 p n"
  by (cases "6 \<le> length p") (simp_all add: cob_cmp_u48_binary_def cell_eval cell_cmp_eval)

lemma cob_add_u48_binary_spec: "cob_add_u48_binary T p val = cell_upd (words_bigendian T) 6 p (\<lambda>x. x + val)"
  by (cases "6 \<le> length p") (simp_all add: cob_add_u48_binary_def cell_eval)

lemma cob_sub_u48_binary_spec: "cob_sub_u48_binary T p val = cell_upd (words_bigendian T) 6 p (\<lambda>x. x - val)"
  by (cases "6 \<le> length p") (simp_all add: cob_sub_u48_binary_def cell_eval)

lemma cob_cmp_s48_binary_spec: "cob_cmp_s48_binary T p n = cell_cmps (words_bigendian T) 6 p n"
  by (cases "6 \<le> length p") (simp_all add: cob_cmp_s48_binary_def cell_eval shift_s48)

lemma cob_add_s48_binary_spec: "cob_add_s48_binary T p val = cell_upd (words_bigendian T) 6 p (\<lambda>x. x + val)"
  by (cases "6 \<le> length p") (simp_all add: cob_add_s48_binary_def cell_eval shift_s48)

lemma cob_sub_s48_binary_spec: "cob_sub_s48_binary T p val = cell_upd (words_bigendian T) 6 p (\<lambda>x. x - val)"
  by (cases "6 \<le> length p") (simp_all add: cob_sub_s48_binary_def cell_eval shift_s48)

lemma cob_cmp_u56_binary_spec: "n < 2 ^ 31 \<Longrightarrow> cob_cmp_u56_binary T p n = cell_cmpu (words_bigendian T) 7 p n"
  by (cases "7 \<le> length p") (simp_all add: cob_cmp_u56_binary_def cell_eval cell_cmp_eval)

lemma cob_add_u56_binary_spec: "cob_add_u56_binary T p val = cell_upd (words_bigendian T) 7 p (\<lambda>x. x + val)"
  by (cases "7 \<le> length p") (simp_all add: cob_add_u56_binary_def cell_eval)

lemma cob_sub_u56_binary_spec: "cob_sub_u56_binary T p val = cell_upd (words_bigendian T) 7 p (\<lambda>x. x - val)"
  by (cases "7 \<le> length p") (simp_all add: cob_sub_u56_binary_def cell_eval)

lemma cob_cmp_s56_binary_spec: "cob_cmp_s56_binary T p n = cell_cmps (words_bigendian T) 7 p n"
  by (cases "7 \<le> length p") (simp_all add: cob_cmp_s56_binary_def cell_eval shift_s56)

lemma cob_add_s56_binary_spec: "cob_add_s56_binary T p val = cell_upd (words_bigendian T) 7 p (\<lambda>x. x + val)"
  by (cases "7 \<le> length p") (simp_all add: cob_add_s56_binary_def cell_eval shift_s56)

lemma cob_sub_s56_binary_spec: "cob_sub_s56_binary T p val = cell_upd (words_bigendian T) 7 p (\<lambda>x. x - val)"
  by (cases "7 \<le> length p") (simp_all add: cob_sub_s56_binary_def cell_eval shift_s56)

lemma cob_cmp_u64_binary_spec: "n < 2 ^ 31 \<Longrightarrow> cob_cmp_u64_binary T p n = cell_cmpu (words_bigendian T) 8 p n"
  by (cases "8 \<le> length p") (simp_all add: cob_cmp_u64_binary_def cell_eval cell_cmp_eval)

lemma cob_add_u64_binary_spec: "cob_add_u64_binary T p val = cell_upd (words_bigendian T) 8 p (\<lambda>x. x + val)"
  by (cases "8 \<le> length p") (simp_all add: cob_add_u64_binary_def cell_eval)

lemma cob_sub_u64_binary_spec: "cob_sub_u64_binary T p val = cell_upd (words_bigendian T) 8 p (\<lambda>x. x - val)"
  by (cases "8 \<le> length p") (simp_all add: cob_sub_u64_binary_def cell_eval)

lemma cob_cmp_s64_binary_spec: "cob_cmp_s64_binary T p n = cell_cmps (words_bigendian T) 8 p n"
  by (cases "8 \<le> length p") (simp_all add: cob_cmp_s64_binary_def cell_eval)

lemma cob_add_s64_binary_spec: "cob_add_s64_binary T p val = cell_upd (words_bigendian T) 8 p (\<lambda>x. x + val)"
  by (cases "8 \<le> length p") (simp_all add: cob_add_s64_binary_def cell_eval)

lemma cob_sub_s64_binary_spec: "cob_sub_s64_binary T p val = cell_upd (words_bigendian T) 8 p (\<lambda>x. x - val)"
  by (cases "8 \<le> length p") (simp_all add: cob_sub_s64_binary_def cell_eval)

section \<open>The contract of each width\<close>

interpretation u8: binary_cell False 1 cob_cmp_u8_binary cob_add_u8_binary cob_sub_u8_binary "cell_get False 1"
  by (rule unsigned_cellI) (simp_all add: cob_cmp_u8_binary_spec cob_add_u8_binary_spec cob_sub_u8_binary_spec)

interpretation s8: binary_cell False 1 cob_cmp_s8_binary cob_add_s8_binary cob_sub_s8_binary "cell_sget False 1"
  by (rule signed_cellI) (simp_all add: cob_cmp_s8_binary_spec cob_add_s8_binary_spec cob_sub_s8_binary_spec)

interpretation u16: binary_cell "words_bigendian T" 2 "cob_cmp_u16_binary T" "cob_add_u16_binary T" "cob_sub_u16_binary T" "cell_get (words_bigendian T) 2" for T
  by (rule unsigned_cellI) (simp_all add: cob_cmp_u16_binary_spec cob_add_u16_binary_spec cob_sub_u16_binary_spec)

interpretation s16: binary_cell "words_bigendian T" 2 "cob_cmp_s16_binary T" "cob_add_s16_binary T" "cob_sub_s16_binary T" "cell_sget (words_bigendian T) 2" for T
  by (rule signed_cellI) (simp_all add: cob_cmp_s16_binary_spec cob_add_s16_binary_spec cob_sub_s16_binary_spec)

interpretation u24: binary_cell "words_bigendian T" 3 "cob_cmp_u24_binary T" "cob_add_u24_binary T" "cob_sub_u24_binary T" "cell_get (words_bigendian T) 3" for T
  by (rule unsigned_cellI) (simp_all add: cob_cmp_u24_binary_spec cob_add_u24_binary_spec cob_sub_u24_binary_spec)

interpretation s24: binary_cell "words_bigendian T" 3 "cob_cmp_s24_binary T" "cob_add_s24_binary T" "cob_sub_s24_binary T" "cell_sget (words_bigendian T) 3" for T
  by (rule signed_cellI) (simp_all add: cob_cmp_s24_binary_spec cob_add_s24_binary_spec cob_sub_s24_binary_spec)

interpretation u32: binary_cell "words_bigendian T" 4 "cob_cmp_u32_binary T" "cob_add_u32_binary T" "cob_sub_u32_binary T" "cell_get (words_bigendian T) 4" for T
  by (rule unsigned_cellI) (simp_all add: cob_cmp_u32_binary_spec cob_add_u32_binary_spec cob_sub_u32_binary_spec)

interpretation s32: binary_cell "words_bigendian T" 4 "cob_cmp_s32_binary T" "cob_add_s32_binary T" "cob_sub_s32_binary T" "cell_sget (words_bigendian T) 4" for T
  by (rule signed_cellI) (simp_all add: cob_cmp_s32_binary_spec cob_add_s32_binary_spec cob_sub_s32_binary_spec)

interpretation u40: binary_cell "words_bigendian T" 5 "cob_cmp_u40_binary T" "cob_add_u40_binary T" "cob_sub_u40_binary T" "cell_get (words_bigendian T) 5" for T
  by (rule unsigned_cellI) (simp_all add: cob_cmp_u40_binary_spec cob_add_u40_binary_spec cob_sub_u40_binary_spec)

interpretation s40: binary_cell "words_bigendian T" 5 "cob_cmp_s40_binary T" "cob_add_s40_binary T" "cob_sub_s40_binary T" "cell_sget (words_bigendian T) 5" for T
  by (rule signed_cellI) (simp_all add: cob_cmp_s40_binary_spec cob_add_s40_binary_spec cob_sub_s40_binary_spec)

interpretation u48: binary_cell "words_bigendian T" 6 "cob_cmp_u48_binary T" "cob_add_u48_binary T" "cob_sub_u48_binary T" "cell_get (words_bigendian T) 6" for T
  by (rule unsigned_cellI) (simp_all add: cob_cmp_u48_binary_spec cob_add_u48_binary_spec cob_sub_u48_binary_spec)

interpretation s48: binary_cell "words_bigendian T" 6 "cob_cmp_s48_binary T" "cob_add_s48_binary T" "cob_sub_s48_binary T" "cell_sget (words_bigendian T) 6" for T
  by (rule signed_cellI) (simp_all add: cob_cmp_s48_binary_spec cob_add_s48_binary_spec cob_sub_s48_binary_spec)

interpretation u56: binary_cell "words_bigendian T" 7 "cob_cmp_u56_binary T" "cob_add_u56_binary T" "cob_sub_u56_binary T" "cell_get (words_bigendian T) 7" for T
  by (rule unsigned_cellI) (simp_all add: cob_cmp_u56_binary_spec cob_add_u56_binary_spec cob_sub_u56_binary_spec)

interpretation s56: binary_cell "words_bigendian T" 7 "cob_cmp_s56_binary T" "cob_add_s56_binary T" "cob_sub_s56_binary T" "cell_sget (words_bigendian T) 7" for T
  by (rule signed_cellI) (simp_all add: cob_cmp_s56_binary_spec cob_add_s56_binary_spec cob_sub_s56_binary_spec)

interpretation u64: binary_cell "words_bigendian T" 8 "cob_cmp_u64_binary T" "cob_add_u64_binary T" "cob_sub_u64_binary T" "cell_get (words_bigendian T) 8" for T
  by (rule unsigned_cellI) (simp_all add: cob_cmp_u64_binary_spec cob_add_u64_binary_spec cob_sub_u64_binary_spec)

interpretation s64: binary_cell "words_bigendian T" 8 "cob_cmp_s64_binary T" "cob_add_s64_binary T" "cob_sub_s64_binary T" "cell_sget (words_bigendian T) 8" for T
  by (rule signed_cellI) (simp_all add: cob_cmp_s64_binary_spec cob_add_s64_binary_spec cob_sub_s64_binary_spec)

end
