(* ===== verification/Cob_Codegen_Swapped.thy ===== *)
theory Cob_Codegen_Swapped
  imports Cob_Codegen_Native
begin

text \<open>
  The byte-swapped compare, add, subtract and set routines of libcob/codegen.h, which a
  little-endian host uses for items stored most significant byte first, and the aligned
  variants of a host that cannot access misaligned objects. The source compiles the swapped
  routines only when \<open>WORDS_BIGENDIAN\<close> is not defined; their lemmas assume that. Copies in
  reversed order (\<open>*x = *(p + 2); *(x + 1) = *(p + 1); \<dots>\<close>) are copies of the reversed
  bytes. Each routine is proved to be the big-endian cell operation of its width.
\<close>

section \<open>The swapped routines\<close>

text \<open>
  The byte-by-byte load \<open>(p[0] << 8) | p[1]\<close> and store \<open>p[0] = n >> 8; p[1] = n;\<close>
  (and their four-byte forms) of the branches without misaligned access.
\<close>

definition load_shift16 :: "bytes \<Rightarrow> int option" where
  "load_shift16 p = do {
     b0 \<leftarrow> rd p 0; b1 \<leftarrow> rd p 1;
     Some (push_bit 8 (uint b0) OR uint b1) }"

definition load_shift32 :: "bytes \<Rightarrow> int option" where
  "load_shift32 p = do {
     b0 \<leftarrow> rd p 0; b1 \<leftarrow> rd p 1; b2 \<leftarrow> rd p 2; b3 \<leftarrow> rd p 3;
     Some (push_bit 24 (uint b0) OR push_bit 16 (uint b1) OR push_bit 8 (uint b2) OR uint b3) }"

definition store_shift16 :: "int \<Rightarrow> bytes \<Rightarrow> bytes option" where
  "store_shift16 n p = do {
     p \<leftarrow> wr p 0 (word_of_int (drop_bit 8 n));
     wr p 1 (word_of_int n) }"

definition store_shift32 :: "int \<Rightarrow> bytes \<Rightarrow> bytes option" where
  "store_shift32 n p = do {
     p \<leftarrow> wr p 0 (word_of_int (drop_bit 24 n));
     p \<leftarrow> wr p 1 (word_of_int (drop_bit 16 n));
     p \<leftarrow> wr p 2 (word_of_int (drop_bit 8 n));
     wr p 3 (word_of_int n) }"

definition cob_cmpswp_u16_binary :: "target \<Rightarrow> bytes \<Rightarrow> int \<Rightarrow> int option" where
  "cob_cmpswp_u16_binary T p n =
     (if n < 0 then Some 1 else do {
       val \<leftarrow> (if allow_misaligned T then ld_obj T 2 p
              else do { bs \<leftarrow> rds p 0 2; obj_in T 2 0 bs });
       Some (cmp3 (cob_bswap_16 val) (n)) })"

definition cob_cmpswp_s16_binary :: "target \<Rightarrow> bytes \<Rightarrow> int \<Rightarrow> int option" where
  "cob_cmpswp_s16_binary T p n =
     do {
       val \<leftarrow> (if allow_misaligned T then ld_obj T 2 p
              else do { bs \<leftarrow> rds p 0 2; obj_in T 2 0 bs });
       Some (cmp3 (i16 (cob_bswap_16 (i16 (val)))) (n)) }"

definition cob_cmpswp_u24_binary :: "target \<Rightarrow> bytes \<Rightarrow> int \<Rightarrow> int option" where
  "cob_cmpswp_u24_binary T p n =
     (if n < 0 then Some 1 else do {
       bs \<leftarrow> rds p 0 3;
       val \<leftarrow> obj_in T 4 1 bs;
       Some (cmp3 (cob_bswap_32 val) (u32 n)) })"

definition cob_cmpswp_s24_binary :: "target \<Rightarrow> bytes \<Rightarrow> int \<Rightarrow> int option" where
  "cob_cmpswp_s24_binary T p n =
     do {
       bs \<leftarrow> rds p 0 3;
       val \<leftarrow> obj_in T 4 0 bs;
       let val = i32 (cob_bswap_32 val);
       let val = drop_bit 8 val;
       Some (cmp3 val n) }"

definition cob_cmpswp_u32_binary :: "target \<Rightarrow> bytes \<Rightarrow> int \<Rightarrow> int option" where
  "cob_cmpswp_u32_binary T p n =
     (if n < 0 then Some 1 else do {
       val \<leftarrow> (if allow_misaligned T then ld_obj T 4 p
              else do { bs \<leftarrow> rds p 0 4; obj_in T 4 0 bs });
       Some (cmp3 (cob_bswap_32 val) (u32 n)) })"

definition cob_cmpswp_s32_binary :: "target \<Rightarrow> bytes \<Rightarrow> int \<Rightarrow> int option" where
  "cob_cmpswp_s32_binary T p n =
     do {
       val \<leftarrow> (if allow_misaligned T then ld_obj T 4 p
              else do { bs \<leftarrow> rds p 0 4; obj_in T 4 0 bs });
       Some (cmp3 (i32 (cob_bswap_32 (i32 (val)))) (n)) }"

definition cob_cmpswp_u40_binary :: "target \<Rightarrow> bytes \<Rightarrow> int \<Rightarrow> int option" where
  "cob_cmpswp_u40_binary T p n =
     (if n < 0 then Some 1 else do {
       bs \<leftarrow> rds p 0 5;
       val \<leftarrow> obj_in T 8 3 bs;
       Some (cmp3 (cob_bswap_64 val) (u64 n)) })"

definition cob_cmpswp_s40_binary :: "target \<Rightarrow> bytes \<Rightarrow> int \<Rightarrow> int option" where
  "cob_cmpswp_s40_binary T p n =
     do {
       bs \<leftarrow> rds p 0 5;
       val \<leftarrow> obj_in T 8 0 bs;
       let val = i64 (cob_bswap_64 val);
       let val = drop_bit 24 val;
       Some (cmp3 val n) }"

definition cob_cmpswp_u48_binary :: "target \<Rightarrow> bytes \<Rightarrow> int \<Rightarrow> int option" where
  "cob_cmpswp_u48_binary T p n =
     (if n < 0 then Some 1 else do {
       bs \<leftarrow> rds p 0 6;
       val \<leftarrow> obj_in T 8 2 bs;
       Some (cmp3 (cob_bswap_64 val) (u64 n)) })"

definition cob_cmpswp_s48_binary :: "target \<Rightarrow> bytes \<Rightarrow> int \<Rightarrow> int option" where
  "cob_cmpswp_s48_binary T p n =
     do {
       bs \<leftarrow> rds p 0 6;
       val \<leftarrow> obj_in T 8 0 bs;
       let val = i64 (cob_bswap_64 val);
       let val = drop_bit 16 val;
       Some (cmp3 val n) }"

definition cob_cmpswp_u56_binary :: "target \<Rightarrow> bytes \<Rightarrow> int \<Rightarrow> int option" where
  "cob_cmpswp_u56_binary T p n =
     (if n < 0 then Some 1 else do {
       bs \<leftarrow> rds p 0 7;
       val \<leftarrow> obj_in T 8 1 bs;
       Some (cmp3 (cob_bswap_64 val) (u64 n)) })"

definition cob_cmpswp_s56_binary :: "target \<Rightarrow> bytes \<Rightarrow> int \<Rightarrow> int option" where
  "cob_cmpswp_s56_binary T p n =
     do {
       bs \<leftarrow> rds p 0 7;
       val \<leftarrow> obj_in T 8 0 bs;
       let val = i64 (cob_bswap_64 val);
       let val = drop_bit 8 val;
       Some (cmp3 val n) }"

definition cob_cmpswp_u64_binary :: "target \<Rightarrow> bytes \<Rightarrow> int \<Rightarrow> int option" where
  "cob_cmpswp_u64_binary T p n =
     (if n < 0 then Some 1 else do {
       val \<leftarrow> (if allow_misaligned T then ld_obj T 8 p
              else do { bs \<leftarrow> rds p 0 8; obj_in T 8 0 bs });
       Some (cmp3 (cob_bswap_64 val) (u64 n)) })"

definition cob_cmpswp_s64_binary :: "target \<Rightarrow> bytes \<Rightarrow> int \<Rightarrow> int option" where
  "cob_cmpswp_s64_binary T p n =
     do {
       val \<leftarrow> (if allow_misaligned T then ld_obj T 8 p
              else do { bs \<leftarrow> rds p 0 8; obj_in T 8 0 bs });
       Some (cmp3 (i64 (cob_bswap_64 (i64 (val)))) (n)) }"

definition cob_addswp_u16_binary :: "target \<Rightarrow> bytes \<Rightarrow> int \<Rightarrow> bytes option" where
  "cob_addswp_u16_binary T p val =
     (if allow_misaligned T then do {
        n \<leftarrow> ld_obj T 2 p;
        let n = cob_bswap_16 n;
        let n = u16 (n + val);
        st_obj T 2 (cob_bswap_16 n) p }
      else do {
        n \<leftarrow> load_shift16 p;
        let n = u16 (n);
        let n = u16 (n + val);
        store_shift16 n p })"

definition cob_addswp_s16_binary :: "target \<Rightarrow> bytes \<Rightarrow> int \<Rightarrow> bytes option" where
  "cob_addswp_s16_binary T p val =
     (if allow_misaligned T then do {
        n \<leftarrow> ld_obj T 2 p;
        let n = i16 (cob_bswap_16 (i16 (n)));
        let n = i16 (n + val);
        st_obj T 2 (cob_bswap_16 n) p }
      else do {
        n \<leftarrow> load_shift16 p;
        let n = i16 (n);
        let n = i16 (n + val);
        store_shift16 n p })"

definition cob_addswp_u24_binary :: "target \<Rightarrow> bytes \<Rightarrow> int \<Rightarrow> bytes option" where
  "cob_addswp_u24_binary T p val =
     do {
      bs \<leftarrow> rds p 0 3;
      n \<leftarrow> obj_in T 4 0 (rev bs);
      let n = u32 (n + val);
      xs \<leftarrow> obj_out T 4 0 3 n;
      wrs p 0 (rev xs) }"

definition cob_addswp_s24_binary :: "target \<Rightarrow> bytes \<Rightarrow> int \<Rightarrow> bytes option" where
  "cob_addswp_s24_binary T p val =
     do {
      bs \<leftarrow> rds p 0 3;
      n \<leftarrow> obj_in T 4 1 (rev bs);
      let n = drop_bit 8 (i32 (n));
      let n = i32 (n + val);
      xs \<leftarrow> obj_out T 4 0 3 n;
      wrs p 0 (rev xs) }"

definition cob_addswp_u32_binary :: "target \<Rightarrow> bytes \<Rightarrow> int \<Rightarrow> bytes option" where
  "cob_addswp_u32_binary T p val =
     (if allow_misaligned T then do {
        n \<leftarrow> ld_obj T 4 p;
        let n = cob_bswap_32 n;
        let n = u32 (n + val);
        st_obj T 4 (cob_bswap_32 n) p }
      else do {
        n \<leftarrow> load_shift32 p;
        let n = u32 (n);
        let n = u32 (n + val);
        store_shift32 n p })"

definition cob_addswp_s32_binary :: "target \<Rightarrow> bytes \<Rightarrow> int \<Rightarrow> bytes option" where
  "cob_addswp_s32_binary T p val =
     (if allow_misaligned T then do {
        n \<leftarrow> ld_obj T 4 p;
        let n = i32 (cob_bswap_32 (i32 (n)));
        let n = i32 (n + val);
        st_obj T 4 (cob_bswap_32 n) p }
      else do {
        n \<leftarrow> load_shift32 p;
        let n = i32 (n);
        let n = i32 (n + val);
        store_shift32 n p })"

definition cob_addswp_u40_binary :: "target \<Rightarrow> bytes \<Rightarrow> int \<Rightarrow> bytes option" where
  "cob_addswp_u40_binary T p val =
     do {
      bs \<leftarrow> rds p 0 5;
      n \<leftarrow> obj_in T 8 0 (rev bs);
      let n = u64 (n + val);
      xs \<leftarrow> obj_out T 8 0 5 n;
      wrs p 0 (rev xs) }"

definition cob_addswp_s40_binary :: "target \<Rightarrow> bytes \<Rightarrow> int \<Rightarrow> bytes option" where
  "cob_addswp_s40_binary T p val =
     do {
      bs \<leftarrow> rds p 0 5;
      n \<leftarrow> obj_in T 8 3 (rev bs);
      let n = drop_bit 24 (i64 (n));
      let n = i64 (n + val);
      xs \<leftarrow> obj_out T 8 0 5 n;
      wrs p 0 (rev xs) }"

definition cob_addswp_u48_binary :: "target \<Rightarrow> bytes \<Rightarrow> int \<Rightarrow> bytes option" where
  "cob_addswp_u48_binary T p val =
     do {
      bs \<leftarrow> rds p 0 6;
      n \<leftarrow> obj_in T 8 0 (rev bs);
      let n = u64 (n + val);
      xs \<leftarrow> obj_out T 8 0 6 n;
      wrs p 0 (rev xs) }"

definition cob_addswp_s48_binary :: "target \<Rightarrow> bytes \<Rightarrow> int \<Rightarrow> bytes option" where
  "cob_addswp_s48_binary T p val =
     do {
      bs \<leftarrow> rds p 0 6;
      n \<leftarrow> obj_in T 8 2 (rev bs);
      let n = drop_bit 16 (i64 (n));
      let n = i64 (n + val);
      xs \<leftarrow> obj_out T 8 0 6 n;
      wrs p 0 (rev xs) }"

definition cob_addswp_u56_binary :: "target \<Rightarrow> bytes \<Rightarrow> int \<Rightarrow> bytes option" where
  "cob_addswp_u56_binary T p val =
     do {
      bs \<leftarrow> rds p 0 7;
      n \<leftarrow> obj_in T 8 0 (rev bs);
      let n = u64 (n + val);
      xs \<leftarrow> obj_out T 8 0 7 n;
      wrs p 0 (rev xs) }"

definition cob_addswp_s56_binary :: "target \<Rightarrow> bytes \<Rightarrow> int \<Rightarrow> bytes option" where
  "cob_addswp_s56_binary T p val =
     do {
      bs \<leftarrow> rds p 0 7;
      n \<leftarrow> obj_in T 8 1 (rev bs);
      let n = drop_bit 8 (i64 (n));
      let n = i64 (n + val);
      xs \<leftarrow> obj_out T 8 0 7 n;
      wrs p 0 (rev xs) }"

definition cob_addswp_u64_binary :: "target \<Rightarrow> bytes \<Rightarrow> int \<Rightarrow> bytes option" where
  "cob_addswp_u64_binary T p val =
     (if allow_misaligned T then do {
        n \<leftarrow> ld_obj T 8 p;
        let n = cob_bswap_64 n;
        let n = u64 (n + val);
        st_obj T 8 (cob_bswap_64 n) p }
      else do {
        bs \<leftarrow> rds p 0 8;
        let n = host_val T (rev bs);
        let n = u64 (n + val);
        wrs p 0 (rev (host_bytes T 8 n)) })"

definition cob_addswp_s64_binary :: "target \<Rightarrow> bytes \<Rightarrow> int \<Rightarrow> bytes option" where
  "cob_addswp_s64_binary T p val =
     (if allow_misaligned T then do {
        n \<leftarrow> ld_obj T 8 p;
        let n = i64 (cob_bswap_64 (i64 (n)));
        let n = i64 (n + val);
        st_obj T 8 (cob_bswap_64 n) p }
      else do {
        bs \<leftarrow> rds p 0 8;
        let n = i64 (host_val T (rev bs));
        let n = i64 (n + val);
        wrs p 0 (rev (host_bytes T 8 n)) })"

definition cob_subswp_u16_binary :: "target \<Rightarrow> bytes \<Rightarrow> int \<Rightarrow> bytes option" where
  "cob_subswp_u16_binary T p val =
     (if allow_misaligned T then do {
        n \<leftarrow> ld_obj T 2 p;
        let n = cob_bswap_16 n;
        let n = u16 (n - val);
        st_obj T 2 (cob_bswap_16 n) p }
      else do {
        n \<leftarrow> load_shift16 p;
        let n = u16 (n);
        let n = u16 (n - val);
        store_shift16 n p })"

definition cob_subswp_s16_binary :: "target \<Rightarrow> bytes \<Rightarrow> int \<Rightarrow> bytes option" where
  "cob_subswp_s16_binary T p val =
     (if allow_misaligned T then do {
        n \<leftarrow> ld_obj T 2 p;
        let n = i16 (cob_bswap_16 (i16 (n)));
        let n = i16 (n - val);
        st_obj T 2 (cob_bswap_16 n) p }
      else do {
        n \<leftarrow> load_shift16 p;
        let n = i16 (n);
        let n = i16 (n - val);
        store_shift16 n p })"

definition cob_subswp_u24_binary :: "target \<Rightarrow> bytes \<Rightarrow> int \<Rightarrow> bytes option" where
  "cob_subswp_u24_binary T p val =
     do {
      bs \<leftarrow> rds p 0 3;
      n \<leftarrow> obj_in T 4 0 (rev bs);
      let n = u32 (n - val);
      xs \<leftarrow> obj_out T 4 0 3 n;
      wrs p 0 (rev xs) }"

definition cob_subswp_s24_binary :: "target \<Rightarrow> bytes \<Rightarrow> int \<Rightarrow> bytes option" where
  "cob_subswp_s24_binary T p val =
     do {
      bs \<leftarrow> rds p 0 3;
      n \<leftarrow> obj_in T 4 1 (rev bs);
      let n = drop_bit 8 (i32 (n));
      let n = i32 (n - val);
      xs \<leftarrow> obj_out T 4 0 3 n;
      wrs p 0 (rev xs) }"

definition cob_subswp_u32_binary :: "target \<Rightarrow> bytes \<Rightarrow> int \<Rightarrow> bytes option" where
  "cob_subswp_u32_binary T p val =
     (if allow_misaligned T then do {
        n \<leftarrow> ld_obj T 4 p;
        let n = cob_bswap_32 n;
        let n = u32 (n - val);
        st_obj T 4 (cob_bswap_32 n) p }
      else do {
        n \<leftarrow> load_shift32 p;
        let n = u32 (n);
        let n = u32 (n - val);
        store_shift32 n p })"

definition cob_subswp_s32_binary :: "target \<Rightarrow> bytes \<Rightarrow> int \<Rightarrow> bytes option" where
  "cob_subswp_s32_binary T p val =
     (if allow_misaligned T then do {
        n \<leftarrow> ld_obj T 4 p;
        let n = i32 (cob_bswap_32 (i32 (n)));
        let n = i32 (n - val);
        st_obj T 4 (cob_bswap_32 n) p }
      else do {
        n \<leftarrow> load_shift32 p;
        let n = i32 (n);
        let n = i32 (n - val);
        store_shift32 n p })"

definition cob_subswp_u40_binary :: "target \<Rightarrow> bytes \<Rightarrow> int \<Rightarrow> bytes option" where
  "cob_subswp_u40_binary T p val =
     do {
      bs \<leftarrow> rds p 0 5;
      n \<leftarrow> obj_in T 8 0 (rev bs);
      let n = u64 (n - val);
      xs \<leftarrow> obj_out T 8 0 5 n;
      wrs p 0 (rev xs) }"

definition cob_subswp_s40_binary :: "target \<Rightarrow> bytes \<Rightarrow> int \<Rightarrow> bytes option" where
  "cob_subswp_s40_binary T p val =
     do {
      bs \<leftarrow> rds p 0 5;
      n \<leftarrow> obj_in T 8 3 (rev bs);
      let n = drop_bit 24 (i64 (n));
      let n = i64 (n - val);
      xs \<leftarrow> obj_out T 8 0 5 n;
      wrs p 0 (rev xs) }"

definition cob_subswp_u48_binary :: "target \<Rightarrow> bytes \<Rightarrow> int \<Rightarrow> bytes option" where
  "cob_subswp_u48_binary T p val =
     do {
      bs \<leftarrow> rds p 0 6;
      n \<leftarrow> obj_in T 8 0 (rev bs);
      let n = u64 (n - val);
      xs \<leftarrow> obj_out T 8 0 6 n;
      wrs p 0 (rev xs) }"

definition cob_subswp_s48_binary :: "target \<Rightarrow> bytes \<Rightarrow> int \<Rightarrow> bytes option" where
  "cob_subswp_s48_binary T p val =
     do {
      bs \<leftarrow> rds p 0 6;
      n \<leftarrow> obj_in T 8 2 (rev bs);
      let n = drop_bit 16 (i64 (n));
      let n = i64 (n - val);
      xs \<leftarrow> obj_out T 8 0 6 n;
      wrs p 0 (rev xs) }"

definition cob_subswp_u56_binary :: "target \<Rightarrow> bytes \<Rightarrow> int \<Rightarrow> bytes option" where
  "cob_subswp_u56_binary T p val =
     do {
      bs \<leftarrow> rds p 0 7;
      n \<leftarrow> obj_in T 8 0 (rev bs);
      let n = u64 (n - val);
      xs \<leftarrow> obj_out T 8 0 7 n;
      wrs p 0 (rev xs) }"

definition cob_subswp_s56_binary :: "target \<Rightarrow> bytes \<Rightarrow> int \<Rightarrow> bytes option" where
  "cob_subswp_s56_binary T p val =
     do {
      bs \<leftarrow> rds p 0 7;
      n \<leftarrow> obj_in T 8 1 (rev bs);
      let n = drop_bit 8 (i64 (n));
      let n = i64 (n - val);
      xs \<leftarrow> obj_out T 8 0 7 n;
      wrs p 0 (rev xs) }"

definition cob_subswp_u64_binary :: "target \<Rightarrow> bytes \<Rightarrow> int \<Rightarrow> bytes option" where
  "cob_subswp_u64_binary T p val =
     (if allow_misaligned T then do {
        n \<leftarrow> ld_obj T 8 p;
        let n = cob_bswap_64 n;
        let n = u64 (n - val);
        st_obj T 8 (cob_bswap_64 n) p }
      else do {
        bs \<leftarrow> rds p 0 8;
        let n = host_val T (rev bs);
        let n = u64 (n - val);
        wrs p 0 (rev (host_bytes T 8 n)) })"

definition cob_subswp_s64_binary :: "target \<Rightarrow> bytes \<Rightarrow> int \<Rightarrow> bytes option" where
  "cob_subswp_s64_binary T p val =
     (if allow_misaligned T then do {
        n \<leftarrow> ld_obj T 8 p;
        let n = i64 (cob_bswap_64 (i64 (n)));
        let n = i64 (n - val);
        st_obj T 8 (cob_bswap_64 n) p }
      else do {
        bs \<leftarrow> rds p 0 8;
        let n = i64 (host_val T (rev bs));
        let n = i64 (n - val);
        wrs p 0 (rev (host_bytes T 8 n)) })"

definition cob_setswp_u16_binary :: "target \<Rightarrow> bytes \<Rightarrow> int \<Rightarrow> bytes option" where
  "cob_setswp_u16_binary T p val =
     (let n = u16 (val) in
      if allow_misaligned T then st_obj T 2 (cob_bswap_16 n) p
      else do {
        store_shift16 n p })"

definition cob_setswp_s16_binary :: "target \<Rightarrow> bytes \<Rightarrow> int \<Rightarrow> bytes option" where
  "cob_setswp_s16_binary T p val =
     (let n = i16 (val) in
      if allow_misaligned T then st_obj T 2 (cob_bswap_16 n) p
      else do {
        store_shift16 n p })"

definition cob_setswp_u24_binary :: "target \<Rightarrow> bytes \<Rightarrow> int \<Rightarrow> bytes option" where
  "cob_setswp_u24_binary T p val =
     do {
      let n = u32 (val);
      xs \<leftarrow> obj_out T 4 0 3 n;
      wrs p 0 (rev xs) }"

definition cob_setswp_s24_binary :: "target \<Rightarrow> bytes \<Rightarrow> int \<Rightarrow> bytes option" where
  "cob_setswp_s24_binary T p val =
     do {
      let n = i32 (val);
      xs \<leftarrow> obj_out T 4 0 3 n;
      wrs p 0 (rev xs) }"

definition cob_setswp_u32_binary :: "target \<Rightarrow> bytes \<Rightarrow> int \<Rightarrow> bytes option" where
  "cob_setswp_u32_binary T p val =
     (let n = u32 (val) in
      if allow_misaligned T then st_obj T 4 (cob_bswap_32 n) p
      else do {
        store_shift32 n p })"

definition cob_setswp_s32_binary :: "target \<Rightarrow> bytes \<Rightarrow> int \<Rightarrow> bytes option" where
  "cob_setswp_s32_binary T p val =
     (let n = i32 (val) in
      if allow_misaligned T then st_obj T 4 (cob_bswap_32 n) p
      else do {
        store_shift32 n p })"

definition cob_setswp_u40_binary :: "target \<Rightarrow> bytes \<Rightarrow> int \<Rightarrow> bytes option" where
  "cob_setswp_u40_binary T p val =
     do {
      let n = u64 (val);
      xs \<leftarrow> obj_out T 8 0 5 n;
      wrs p 0 (rev xs) }"

definition cob_setswp_s40_binary :: "target \<Rightarrow> bytes \<Rightarrow> int \<Rightarrow> bytes option" where
  "cob_setswp_s40_binary T p val =
     do {
      let n = i64 (val);
      xs \<leftarrow> obj_out T 8 0 5 n;
      wrs p 0 (rev xs) }"

definition cob_setswp_u48_binary :: "target \<Rightarrow> bytes \<Rightarrow> int \<Rightarrow> bytes option" where
  "cob_setswp_u48_binary T p val =
     do {
      let n = u64 (val);
      xs \<leftarrow> obj_out T 8 0 6 n;
      wrs p 0 (rev xs) }"

definition cob_setswp_s48_binary :: "target \<Rightarrow> bytes \<Rightarrow> int \<Rightarrow> bytes option" where
  "cob_setswp_s48_binary T p val =
     do {
      let n = i64 (val);
      xs \<leftarrow> obj_out T 8 0 6 n;
      wrs p 0 (rev xs) }"

definition cob_setswp_u56_binary :: "target \<Rightarrow> bytes \<Rightarrow> int \<Rightarrow> bytes option" where
  "cob_setswp_u56_binary T p val =
     do {
      let n = u64 (val);
      xs \<leftarrow> obj_out T 8 0 7 n;
      wrs p 0 (rev xs) }"

definition cob_setswp_s56_binary :: "target \<Rightarrow> bytes \<Rightarrow> int \<Rightarrow> bytes option" where
  "cob_setswp_s56_binary T p val =
     do {
      let n = i64 (val);
      xs \<leftarrow> obj_out T 8 0 7 n;
      wrs p 0 (rev xs) }"

definition cob_setswp_u64_binary :: "target \<Rightarrow> bytes \<Rightarrow> int \<Rightarrow> bytes option" where
  "cob_setswp_u64_binary T p val =
     (let n = u64 (val) in
      if allow_misaligned T then st_obj T 8 (cob_bswap_64 n) p
      else do {
        wrs p 0 (rev (host_bytes T 8 n)) })"

definition cob_setswp_s64_binary :: "target \<Rightarrow> bytes \<Rightarrow> int \<Rightarrow> bytes option" where
  "cob_setswp_s64_binary T p val =
     (let n = i64 (val) in
      if allow_misaligned T then st_obj T 8 (cob_bswap_64 n) p
      else do {
        wrs p 0 (rev (host_bytes T 8 n)) })"

section \<open>The aligned variants\<close>

definition cob_cmp_align_u16_binary :: "target \<Rightarrow> bytes \<Rightarrow> int \<Rightarrow> int option" where
  "cob_cmp_align_u16_binary T p n =
     (if n < 0 then Some 1 else do { val \<leftarrow> ld_obj T 2 p; Some (cmp3 (val) (n)) })"

definition cob_cmp_align_s16_binary :: "target \<Rightarrow> bytes \<Rightarrow> int \<Rightarrow> int option" where
  "cob_cmp_align_s16_binary T p n =
     do { val \<leftarrow> ld_obj T 2 p; Some (cmp3 (i16 (val)) (n)) }"

definition cob_cmp_align_u32_binary :: "target \<Rightarrow> bytes \<Rightarrow> int \<Rightarrow> int option" where
  "cob_cmp_align_u32_binary T p n =
     (if n < 0 then Some 1 else do { val \<leftarrow> ld_obj T 4 p; Some (cmp3 (val) (u32 n)) })"

definition cob_cmp_align_s32_binary :: "target \<Rightarrow> bytes \<Rightarrow> int \<Rightarrow> int option" where
  "cob_cmp_align_s32_binary T p n =
     do { val \<leftarrow> ld_obj T 4 p; Some (cmp3 (i32 (val)) (n)) }"

definition cob_cmp_align_u64_binary :: "target \<Rightarrow> bytes \<Rightarrow> int \<Rightarrow> int option" where
  "cob_cmp_align_u64_binary T p n =
     (if n < 0 then Some 1 else do { val \<leftarrow> ld_obj T 8 p; Some (cmp3 (val) (u64 n)) })"

definition cob_cmp_align_s64_binary :: "target \<Rightarrow> bytes \<Rightarrow> int \<Rightarrow> int option" where
  "cob_cmp_align_s64_binary T p n =
     do { val \<leftarrow> ld_obj T 8 p; Some (cmp3 (i64 (val)) (n)) }"

definition cob_add_align_u16_binary :: "target \<Rightarrow> bytes \<Rightarrow> int \<Rightarrow> bytes option" where
  "cob_add_align_u16_binary T p val =
     do { n \<leftarrow> ld_obj T 2 p; st_obj T 2 (u16 (n + val)) p }"

definition cob_add_align_s16_binary :: "target \<Rightarrow> bytes \<Rightarrow> int \<Rightarrow> bytes option" where
  "cob_add_align_s16_binary T p val =
     do { n \<leftarrow> ld_obj T 2 p; st_obj T 2 (i16 (i16 (n) + val)) p }"

definition cob_add_align_u32_binary :: "target \<Rightarrow> bytes \<Rightarrow> int \<Rightarrow> bytes option" where
  "cob_add_align_u32_binary T p val =
     do { n \<leftarrow> ld_obj T 4 p; st_obj T 4 (u32 (n + val)) p }"

definition cob_add_align_s32_binary :: "target \<Rightarrow> bytes \<Rightarrow> int \<Rightarrow> bytes option" where
  "cob_add_align_s32_binary T p val =
     do { n \<leftarrow> ld_obj T 4 p; st_obj T 4 (i32 (i32 (n) + val)) p }"

definition cob_add_align_u64_binary :: "target \<Rightarrow> bytes \<Rightarrow> int \<Rightarrow> bytes option" where
  "cob_add_align_u64_binary T p val =
     do { n \<leftarrow> ld_obj T 8 p; st_obj T 8 (u64 (n + val)) p }"

definition cob_add_align_s64_binary :: "target \<Rightarrow> bytes \<Rightarrow> int \<Rightarrow> bytes option" where
  "cob_add_align_s64_binary T p val =
     do { n \<leftarrow> ld_obj T 8 p; st_obj T 8 (i64 (i64 (n) + val)) p }"

definition cob_sub_align_u16_binary :: "target \<Rightarrow> bytes \<Rightarrow> int \<Rightarrow> bytes option" where
  "cob_sub_align_u16_binary T p val =
     do { n \<leftarrow> ld_obj T 2 p; st_obj T 2 (u16 (n - val)) p }"

definition cob_sub_align_s16_binary :: "target \<Rightarrow> bytes \<Rightarrow> int \<Rightarrow> bytes option" where
  "cob_sub_align_s16_binary T p val =
     do { n \<leftarrow> ld_obj T 2 p; st_obj T 2 (i16 (i16 (n) - val)) p }"

definition cob_sub_align_u32_binary :: "target \<Rightarrow> bytes \<Rightarrow> int \<Rightarrow> bytes option" where
  "cob_sub_align_u32_binary T p val =
     do { n \<leftarrow> ld_obj T 4 p; st_obj T 4 (u32 (n - val)) p }"

definition cob_sub_align_s32_binary :: "target \<Rightarrow> bytes \<Rightarrow> int \<Rightarrow> bytes option" where
  "cob_sub_align_s32_binary T p val =
     do { n \<leftarrow> ld_obj T 4 p; st_obj T 4 (i32 (i32 (n) - val)) p }"

definition cob_sub_align_u64_binary :: "target \<Rightarrow> bytes \<Rightarrow> int \<Rightarrow> bytes option" where
  "cob_sub_align_u64_binary T p val =
     do { n \<leftarrow> ld_obj T 8 p; st_obj T 8 (u64 (n - val)) p }"

definition cob_sub_align_s64_binary :: "target \<Rightarrow> bytes \<Rightarrow> int \<Rightarrow> bytes option" where
  "cob_sub_align_s64_binary T p val =
     do { n \<leftarrow> ld_obj T 8 p; st_obj T 8 (i64 (i64 (n) - val)) p }"

definition cob_cmpswp_align_u16_binary :: "target \<Rightarrow> bytes \<Rightarrow> int \<Rightarrow> int option" where
  "cob_cmpswp_align_u16_binary T p n =
     (if n < 0 then Some 1 else do { val \<leftarrow> ld_obj T 2 p; Some (cmp3 (cob_bswap_16 val) (n)) })"

definition cob_cmpswp_align_s16_binary :: "target \<Rightarrow> bytes \<Rightarrow> int \<Rightarrow> int option" where
  "cob_cmpswp_align_s16_binary T p n =
     do { val \<leftarrow> ld_obj T 2 p; Some (cmp3 (i16 (cob_bswap_16 (i16 (val)))) (n)) }"

definition cob_cmpswp_align_u32_binary :: "target \<Rightarrow> bytes \<Rightarrow> int \<Rightarrow> int option" where
  "cob_cmpswp_align_u32_binary T p n =
     (if n < 0 then Some 1 else do { val \<leftarrow> ld_obj T 4 p; Some (cmp3 (cob_bswap_32 val) (u32 n)) })"

definition cob_cmpswp_align_s32_binary :: "target \<Rightarrow> bytes \<Rightarrow> int \<Rightarrow> int option" where
  "cob_cmpswp_align_s32_binary T p n =
     do { val \<leftarrow> ld_obj T 4 p; Some (cmp3 (i32 (cob_bswap_32 (i32 (val)))) (n)) }"

definition cob_cmpswp_align_u64_binary :: "target \<Rightarrow> bytes \<Rightarrow> int \<Rightarrow> int option" where
  "cob_cmpswp_align_u64_binary T p n =
     (if n < 0 then Some 1 else do { val \<leftarrow> ld_obj T 8 p; Some (cmp3 (cob_bswap_64 val) (u64 n)) })"

definition cob_cmpswp_align_s64_binary :: "target \<Rightarrow> bytes \<Rightarrow> int \<Rightarrow> int option" where
  "cob_cmpswp_align_s64_binary T p n =
     do { val \<leftarrow> ld_obj T 8 p; Some (cmp3 (i64 (cob_bswap_64 (i64 (val)))) (n)) }"

section \<open>Byte swapping on cells\<close>

lemma bswap_signed:
  "cob_bswap_16 (i16 v) = cob_bswap_16 v" "cob_bswap_32 (i32 v) = cob_bswap_32 v"
  "cob_bswap_64 (i64 v) = cob_bswap_64 v"
  by (simp_all add: cob_bswap_16_def cob_bswap_32_def cob_bswap_64_def take_bit_signed_take_bit)

lemma bswap_unsigned:
  "cob_bswap_16 (u16 v) = cob_bswap_16 v" "cob_bswap_32 (u32 v) = cob_bswap_32 v"
  "cob_bswap_64 (u64 v) = cob_bswap_64 v"
  by (simp_all add: cob_bswap_16_def cob_bswap_32_def cob_bswap_64_def)

lemma le_bytes_bswap_16: "le_bytes 2 (cob_bswap_16 n) = rev (le_bytes 2 n)"
proof -
  have "cob_bswap_16 n = cob_bswap_16 (le_val (le_bytes 2 n))"
    using bswap_unsigned(1) [of n] by (simp add: le_val_le_bytes take_bit_eq_mod)
  then have "cob_bswap_16 n = le_val (rev (le_bytes 2 n))"
    by (simp add: bswap_16_le_val)
  then show ?thesis
    using le_bytes_le_val [of "rev (le_bytes 2 n)"] by (simp only: length_rev length_le_bytes)
qed

lemma le_bytes_bswap_32: "le_bytes 4 (cob_bswap_32 n) = rev (le_bytes 4 n)"
proof -
  have "cob_bswap_32 n = cob_bswap_32 (le_val (le_bytes 4 n))"
    using bswap_unsigned(2) [of n] by (simp add: le_val_le_bytes take_bit_eq_mod)
  then have "cob_bswap_32 n = le_val (rev (le_bytes 4 n))"
    by (simp add: bswap_32_le_val)
  then show ?thesis
    using le_bytes_le_val [of "rev (le_bytes 4 n)"] by (simp only: length_rev length_le_bytes)
qed

lemma le_bytes_bswap_64: "le_bytes 8 (cob_bswap_64 n) = rev (le_bytes 8 n)"
proof -
  have "cob_bswap_64 n = cob_bswap_64 (le_val (le_bytes 8 n))"
    using bswap_unsigned(3) [of n] by (simp add: le_val_le_bytes take_bit_eq_mod)
  then have "cob_bswap_64 n = le_val (rev (le_bytes 8 n))"
    by (simp add: bswap_64_le_val)
  then show ?thesis
    using le_bytes_le_val [of "rev (le_bytes 8 n)"] by (simp only: length_rev length_le_bytes)
qed

text \<open>Swapping a wider object whose padding is zero moves the item to the other end.\<close>

lemma bswap_32_pad: "length bs + d = 4 \<Longrightarrow> cob_bswap_32 (256 ^ d * le_val bs) = le_val (rev bs)"
  "length bs + d = 4 \<Longrightarrow> cob_bswap_32 (le_val bs) = 256 ^ d * le_val (rev bs)"
  using bswap_32_le_val [of "replicate d 0 @ bs"] bswap_32_le_val [of "bs @ replicate d 0"]
  by (simp_all add: le_val_append)

lemma bswap_64_pad: "length bs + d = 8 \<Longrightarrow> cob_bswap_64 (256 ^ d * le_val bs) = le_val (rev bs)"
  "length bs + d = 8 \<Longrightarrow> cob_bswap_64 (le_val bs) = 256 ^ d * le_val (rev bs)"
  using bswap_64_le_val [of "replicate d 0 @ bs"] bswap_64_le_val [of "bs @ replicate d 0"]
  by (simp_all add: le_val_append)

lemma bswap_pads:
  "length bs = 3 \<Longrightarrow> cob_bswap_32 (256 * le_val bs) = le_val (rev bs)"
  "length bs = 3 \<Longrightarrow> cob_bswap_32 (le_val bs) = 256 * le_val (rev bs)"
  "length bs = 5 \<Longrightarrow> cob_bswap_64 (16777216 * le_val bs) = le_val (rev bs)"
  "length bs = 5 \<Longrightarrow> cob_bswap_64 (le_val bs) = 16777216 * le_val (rev bs)"
  "length bs = 6 \<Longrightarrow> cob_bswap_64 (65536 * le_val bs) = le_val (rev bs)"
  "length bs = 6 \<Longrightarrow> cob_bswap_64 (le_val bs) = 65536 * le_val (rev bs)"
  "length bs = 7 \<Longrightarrow> cob_bswap_64 (256 * le_val bs) = le_val (rev bs)"
  "length bs = 7 \<Longrightarrow> cob_bswap_64 (le_val bs) = 256 * le_val (rev bs)"
  using bswap_32_pad [of bs 1] bswap_64_pad [of bs 3] bswap_64_pad [of bs 2] bswap_64_pad [of bs 1]
  by simp_all

text \<open>The shift-and-or assembly of a host without misaligned access.\<close>

lemma assemble_16: "push_bit 8 (uint (b0 :: u8)) OR uint (b1 :: u8) = le_val [b1, b0]"
proof -
  have "push_bit 8 (uint b0) OR uint b1 = concat_bit 8 (uint b1) (uint b0)"
    by (simp add: concat_bit_def or.commute take_bit_int_eq_self uint8_less)
  then show ?thesis
    by (simp add: concat_bit_eq take_bit_int_eq_self uint8_less push_bit_eq_mult)
qed

lemma assemble_32:
  "push_bit 24 (uint (b0 :: u8)) OR push_bit 16 (uint (b1 :: u8)) OR push_bit 8 (uint (b2 :: u8)) OR uint (b3 :: u8)
   = le_val [b3, b2, b1, b0]"
proof -
  have "push_bit 24 (uint b0) OR push_bit 16 (uint b1) OR push_bit 8 (uint b2) OR uint b3
      = uint b3 OR push_bit 8 (uint b2 OR push_bit 8 (uint b1 OR push_bit 8 (uint b0)))"
    by (simp add: push_bit_or ac_simps)
  also have "\<dots> = concat_bit 8 (uint b3) (concat_bit 8 (uint b2) (concat_bit 8 (uint b1) (uint b0)))"
    by (simp add: concat_bit_def take_bit_int_eq_self uint8_less)
  finally show ?thesis
    by (simp add: concat_bit_eq take_bit_int_eq_self uint8_less push_bit_eq_mult algebra_simps)
qed

lemma u16_le_val: "length bs = 2 \<Longrightarrow> u16 (le_val bs) = le_val bs"
  by (rule take_bit_le_val) simp

lemma u32_le_val: "length bs = 4 \<Longrightarrow> u32 (le_val bs) = le_val bs"
  by (rule take_bit_le_val) simp

lemma le_bytes_2: "le_bytes 2 v = [word_of_int v, word_of_int (drop_bit 8 v)]"
  by (simp add: numeral_2_eq_2 drop_bit_eq_div)

lemma le_bytes_4: "le_bytes 4 v =
  [word_of_int v, word_of_int (drop_bit 8 v), word_of_int (drop_bit 16 v), word_of_int (drop_bit 24 v)]"
  by (simp add: eval_nat_numeral drop_bit_eq_div flip: div_mult2_eq zdiv_zmult2_eq)

text \<open>A store of fewer than two (four) bytes, or its first two (four) bytes and the rest.\<close>

lemma cases_2:
  obtains "p = []" | a where "p = [a]" | a b r where "p = a # b # r"
  by (metis list.exhaust)

lemma cases_4:
  obtains "p = []" | a where "p = [a]" | a b where "p = [a, b]" | a b c where "p = [a, b, c]"
    | a b c d r where "p = a # b # c # d # r"
  by (metis list.exhaust)

lemma load_shift16: "load_shift16 p = map_option (\<lambda>bs. le_val (rev bs)) (rds p 0 2)"
  by (cases p rule: cases_2) (simp_all add: load_shift16_def rd_def rds0 assemble_16)

lemma load_shift32: "load_shift32 p = map_option (\<lambda>bs. le_val (rev bs)) (rds p 0 4)"
  by (cases p rule: cases_4) (simp_all add: load_shift32_def rd_def rds0 assemble_32)

lemma store_shift16: "store_shift16 n p = wrs p 0 (rev (le_bytes 2 n))"
  by (cases p rule: cases_2) (simp_all add: store_shift16_def wr_def wrs0 le_bytes_2)

lemma store_shift32: "store_shift32 n p = wrs p 0 (rev (le_bytes 4 n))"
  by (cases p rule: cases_4) (simp_all add: store_shift32_def wr_def wrs0 le_bytes_4)

lemma end_val_True: "end_val True bs = le_val (rev bs)"
  by (simp add: end_val_def)

lemma end_val_False: "end_val False bs = le_val bs"
  by (simp add: end_val_def)

lemma end_bytes_False: "end_bytes False k v = le_bytes k v"
  by (simp add: end_bytes_def)

lemma end_bytes_True: "end_bytes True k v = rev (le_bytes k v)"
  by (simp add: end_bytes_def)

lemma obj_in_LE:
  assumes "\<not> words_bigendian T" "length bs + d = sz"
  shows "obj_in T sz 0 bs = Some (le_val bs)" "obj_in T sz d bs = Some (256 ^ d * le_val bs)"
  using obj_in_low [OF assms(2), of T] obj_in_high [OF assms(2), of T] assms(1)
  by (simp_all add: low_off_def high_off_def host_val_def)

lemma obj_out_LE: "\<not> words_bigendian T \<Longrightarrow> k \<le> sz \<Longrightarrow> obj_out T sz 0 k v = Some (le_bytes k v)"
  using obj_out_low [of k "sz - k" sz T v] by (simp add: low_off_def host_bytes_def)

lemma obj_in_LEs:
  assumes "\<not> words_bigendian T"
  shows "length bs = 3 \<Longrightarrow> obj_in T 4 0 bs = Some (le_val bs)"
    "length bs = 5 \<Longrightarrow> obj_in T 8 0 bs = Some (le_val bs)"
    "length bs = 6 \<Longrightarrow> obj_in T 8 0 bs = Some (le_val bs)"
    "length bs = 7 \<Longrightarrow> obj_in T 8 0 bs = Some (le_val bs)"
    "length bs = 3 \<Longrightarrow> obj_in T 4 (Suc 0) bs = Some (256 * le_val bs)"
    "length bs = 5 \<Longrightarrow> obj_in T 8 3 bs = Some (16777216 * le_val bs)"
    "length bs = 6 \<Longrightarrow> obj_in T 8 2 bs = Some (65536 * le_val bs)"
    "length bs = 7 \<Longrightarrow> obj_in T 8 (Suc 0) bs = Some (256 * le_val bs)"
  using obj_in_LE [OF assms, of bs 1 4] obj_in_LE [OF assms, of bs 3 8]
    obj_in_LE [OF assms, of bs 2 8] obj_in_LE [OF assms, of bs 1 8]
  by simp_all

lemma le_bytes_wraps:
  "8 * k \<le> n \<Longrightarrow> le_bytes k (take_bit n v) = le_bytes k v"
  "8 * k \<le> Suc n \<Longrightarrow> le_bytes k (signed_take_bit n v) = le_bytes k v"
  "8 * k \<le> Suc n \<Longrightarrow> le_bytes k (signed_take_bit n v + w) = le_bytes k (v + w)"
  "8 * k \<le> Suc n \<Longrightarrow> le_bytes k (signed_take_bit n v - w) = le_bytes k (v - w)"
  using le_bytes_add_signed [of k n v "- w"]
  by (simp_all add: le_bytes_take_bit le_bytes_signed le_bytes_add_signed)

lemma host_val_LE: "\<not> words_bigendian T \<Longrightarrow> host_val T bs = le_val bs"
  by (simp add: host_val_def)

lemma host_bytes_LE: "\<not> words_bigendian T \<Longrightarrow> host_bytes T k v = le_bytes k v"
  by (simp add: host_bytes_def)

lemmas swap_eval = load_shift16 load_shift32 store_shift16 store_shift32 u16_le_val u32_le_val
  rds0 wrs0 obj_in_full obj_in_LEs obj_out_LE host_val_LE host_bytes_LE
  ld_obj_def st_obj_def cell_get_def cell_sget_def cell_set_def cell_upd_def cell_cmpu_def
  cell_cmps_def end_val_True end_bytes_True bswap_signed bswap_pads
  bswap_16_le_val bswap_32_le_val bswap_64_le_val
  le_bytes_bswap_16 le_bytes_bswap_32 le_bytes_bswap_64 le_bytes_wraps min_def


section \<open>The swapped routines are big-endian cell operations\<close>

lemma cob_cmpswp_u16_binary_spec: "\<not> words_bigendian T \<Longrightarrow> cob_cmpswp_u16_binary T p n = cell_cmpu True 2 p n"
  by (cases "2 \<le> length p") (simp_all add: cob_cmpswp_u16_binary_def swap_eval Let_def cell_cmp_eval)

lemma cob_addswp_u16_binary_spec: "\<not> words_bigendian T \<Longrightarrow> cob_addswp_u16_binary T p val = cell_upd True 2 p (\<lambda>x. x + val)"
  by (cases "2 \<le> length p") (simp_all add: cob_addswp_u16_binary_def swap_eval Let_def)

lemma cob_subswp_u16_binary_spec: "\<not> words_bigendian T \<Longrightarrow> cob_subswp_u16_binary T p val = cell_upd True 2 p (\<lambda>x. x - val)"
  by (cases "2 \<le> length p") (simp_all add: cob_subswp_u16_binary_def swap_eval Let_def)

lemma cob_setswp_u16_binary_spec: "\<not> words_bigendian T \<Longrightarrow> cob_setswp_u16_binary T p val = cell_set True 2 p val"
  by (cases "2 \<le> length p") (simp_all add: cob_setswp_u16_binary_def swap_eval Let_def)

lemma cob_cmpswp_s16_binary_spec: "\<not> words_bigendian T \<Longrightarrow> cob_cmpswp_s16_binary T p n = cell_cmps True 2 p n"
  by (cases "2 \<le> length p") (simp_all add: cob_cmpswp_s16_binary_def swap_eval Let_def)

lemma cob_addswp_s16_binary_spec: "\<not> words_bigendian T \<Longrightarrow> cob_addswp_s16_binary T p val = cell_upd True 2 p (\<lambda>x. x + val)"
  by (cases "2 \<le> length p") (simp_all add: cob_addswp_s16_binary_def swap_eval Let_def)

lemma cob_subswp_s16_binary_spec: "\<not> words_bigendian T \<Longrightarrow> cob_subswp_s16_binary T p val = cell_upd True 2 p (\<lambda>x. x - val)"
  by (cases "2 \<le> length p") (simp_all add: cob_subswp_s16_binary_def swap_eval Let_def)

lemma cob_setswp_s16_binary_spec: "\<not> words_bigendian T \<Longrightarrow> cob_setswp_s16_binary T p val = cell_set True 2 p val"
  by (cases "2 \<le> length p") (simp_all add: cob_setswp_s16_binary_def swap_eval Let_def)

lemma cob_cmpswp_u24_binary_spec: "\<not> words_bigendian T \<Longrightarrow> n < 2 ^ 31 \<Longrightarrow> cob_cmpswp_u24_binary T p n = cell_cmpu True 3 p n"
  by (cases "3 \<le> length p") (simp_all add: cob_cmpswp_u24_binary_def swap_eval Let_def cell_cmp_eval)

lemma cob_addswp_u24_binary_spec: "\<not> words_bigendian T \<Longrightarrow> cob_addswp_u24_binary T p val = cell_upd True 3 p (\<lambda>x. x + val)"
  by (cases "3 \<le> length p") (simp_all add: cob_addswp_u24_binary_def swap_eval Let_def)

lemma cob_subswp_u24_binary_spec: "\<not> words_bigendian T \<Longrightarrow> cob_subswp_u24_binary T p val = cell_upd True 3 p (\<lambda>x. x - val)"
  by (cases "3 \<le> length p") (simp_all add: cob_subswp_u24_binary_def swap_eval Let_def)

lemma cob_setswp_u24_binary_spec: "\<not> words_bigendian T \<Longrightarrow> cob_setswp_u24_binary T p val = cell_set True 3 p val"
  by (cases "3 \<le> length p") (simp_all add: cob_setswp_u24_binary_def swap_eval Let_def)

lemma cob_cmpswp_s24_binary_spec: "\<not> words_bigendian T \<Longrightarrow> cob_cmpswp_s24_binary T p n = cell_cmps True 3 p n"
  by (cases "3 \<le> length p") (simp_all add: cob_cmpswp_s24_binary_def swap_eval Let_def shift_s24)

lemma cob_addswp_s24_binary_spec: "\<not> words_bigendian T \<Longrightarrow> cob_addswp_s24_binary T p val = cell_upd True 3 p (\<lambda>x. x + val)"
  by (cases "3 \<le> length p") (simp_all add: cob_addswp_s24_binary_def swap_eval Let_def shift_s24)

lemma cob_subswp_s24_binary_spec: "\<not> words_bigendian T \<Longrightarrow> cob_subswp_s24_binary T p val = cell_upd True 3 p (\<lambda>x. x - val)"
  by (cases "3 \<le> length p") (simp_all add: cob_subswp_s24_binary_def swap_eval Let_def shift_s24)

lemma cob_setswp_s24_binary_spec: "\<not> words_bigendian T \<Longrightarrow> cob_setswp_s24_binary T p val = cell_set True 3 p val"
  by (cases "3 \<le> length p") (simp_all add: cob_setswp_s24_binary_def swap_eval Let_def shift_s24)

lemma cob_cmpswp_u32_binary_spec: "\<not> words_bigendian T \<Longrightarrow> n < 2 ^ 31 \<Longrightarrow> cob_cmpswp_u32_binary T p n = cell_cmpu True 4 p n"
  by (cases "4 \<le> length p") (simp_all add: cob_cmpswp_u32_binary_def swap_eval Let_def cell_cmp_eval)

lemma cob_addswp_u32_binary_spec: "\<not> words_bigendian T \<Longrightarrow> cob_addswp_u32_binary T p val = cell_upd True 4 p (\<lambda>x. x + val)"
  by (cases "4 \<le> length p") (simp_all add: cob_addswp_u32_binary_def swap_eval Let_def)

lemma cob_subswp_u32_binary_spec: "\<not> words_bigendian T \<Longrightarrow> cob_subswp_u32_binary T p val = cell_upd True 4 p (\<lambda>x. x - val)"
  by (cases "4 \<le> length p") (simp_all add: cob_subswp_u32_binary_def swap_eval Let_def)

lemma cob_setswp_u32_binary_spec: "\<not> words_bigendian T \<Longrightarrow> cob_setswp_u32_binary T p val = cell_set True 4 p val"
  by (cases "4 \<le> length p") (simp_all add: cob_setswp_u32_binary_def swap_eval Let_def)

lemma cob_cmpswp_s32_binary_spec: "\<not> words_bigendian T \<Longrightarrow> cob_cmpswp_s32_binary T p n = cell_cmps True 4 p n"
  by (cases "4 \<le> length p") (simp_all add: cob_cmpswp_s32_binary_def swap_eval Let_def)

lemma cob_addswp_s32_binary_spec: "\<not> words_bigendian T \<Longrightarrow> cob_addswp_s32_binary T p val = cell_upd True 4 p (\<lambda>x. x + val)"
  by (cases "4 \<le> length p") (simp_all add: cob_addswp_s32_binary_def swap_eval Let_def)

lemma cob_subswp_s32_binary_spec: "\<not> words_bigendian T \<Longrightarrow> cob_subswp_s32_binary T p val = cell_upd True 4 p (\<lambda>x. x - val)"
  by (cases "4 \<le> length p") (simp_all add: cob_subswp_s32_binary_def swap_eval Let_def)

lemma cob_setswp_s32_binary_spec: "\<not> words_bigendian T \<Longrightarrow> cob_setswp_s32_binary T p val = cell_set True 4 p val"
  by (cases "4 \<le> length p") (simp_all add: cob_setswp_s32_binary_def swap_eval Let_def)

lemma cob_cmpswp_u40_binary_spec: "\<not> words_bigendian T \<Longrightarrow> n < 2 ^ 31 \<Longrightarrow> cob_cmpswp_u40_binary T p n = cell_cmpu True 5 p n"
  by (cases "5 \<le> length p") (simp_all add: cob_cmpswp_u40_binary_def swap_eval Let_def cell_cmp_eval)

lemma cob_addswp_u40_binary_spec: "\<not> words_bigendian T \<Longrightarrow> cob_addswp_u40_binary T p val = cell_upd True 5 p (\<lambda>x. x + val)"
  by (cases "5 \<le> length p") (simp_all add: cob_addswp_u40_binary_def swap_eval Let_def)

lemma cob_subswp_u40_binary_spec: "\<not> words_bigendian T \<Longrightarrow> cob_subswp_u40_binary T p val = cell_upd True 5 p (\<lambda>x. x - val)"
  by (cases "5 \<le> length p") (simp_all add: cob_subswp_u40_binary_def swap_eval Let_def)

lemma cob_setswp_u40_binary_spec: "\<not> words_bigendian T \<Longrightarrow> cob_setswp_u40_binary T p val = cell_set True 5 p val"
  by (cases "5 \<le> length p") (simp_all add: cob_setswp_u40_binary_def swap_eval Let_def)

lemma cob_cmpswp_s40_binary_spec: "\<not> words_bigendian T \<Longrightarrow> cob_cmpswp_s40_binary T p n = cell_cmps True 5 p n"
  by (cases "5 \<le> length p") (simp_all add: cob_cmpswp_s40_binary_def swap_eval Let_def shift_s40)

lemma cob_addswp_s40_binary_spec: "\<not> words_bigendian T \<Longrightarrow> cob_addswp_s40_binary T p val = cell_upd True 5 p (\<lambda>x. x + val)"
  by (cases "5 \<le> length p") (simp_all add: cob_addswp_s40_binary_def swap_eval Let_def shift_s40)

lemma cob_subswp_s40_binary_spec: "\<not> words_bigendian T \<Longrightarrow> cob_subswp_s40_binary T p val = cell_upd True 5 p (\<lambda>x. x - val)"
  by (cases "5 \<le> length p") (simp_all add: cob_subswp_s40_binary_def swap_eval Let_def shift_s40)

lemma cob_setswp_s40_binary_spec: "\<not> words_bigendian T \<Longrightarrow> cob_setswp_s40_binary T p val = cell_set True 5 p val"
  by (cases "5 \<le> length p") (simp_all add: cob_setswp_s40_binary_def swap_eval Let_def shift_s40)

lemma cob_cmpswp_u48_binary_spec: "\<not> words_bigendian T \<Longrightarrow> n < 2 ^ 31 \<Longrightarrow> cob_cmpswp_u48_binary T p n = cell_cmpu True 6 p n"
  by (cases "6 \<le> length p") (simp_all add: cob_cmpswp_u48_binary_def swap_eval Let_def cell_cmp_eval)

lemma cob_addswp_u48_binary_spec: "\<not> words_bigendian T \<Longrightarrow> cob_addswp_u48_binary T p val = cell_upd True 6 p (\<lambda>x. x + val)"
  by (cases "6 \<le> length p") (simp_all add: cob_addswp_u48_binary_def swap_eval Let_def)

lemma cob_subswp_u48_binary_spec: "\<not> words_bigendian T \<Longrightarrow> cob_subswp_u48_binary T p val = cell_upd True 6 p (\<lambda>x. x - val)"
  by (cases "6 \<le> length p") (simp_all add: cob_subswp_u48_binary_def swap_eval Let_def)

lemma cob_setswp_u48_binary_spec: "\<not> words_bigendian T \<Longrightarrow> cob_setswp_u48_binary T p val = cell_set True 6 p val"
  by (cases "6 \<le> length p") (simp_all add: cob_setswp_u48_binary_def swap_eval Let_def)

lemma cob_cmpswp_s48_binary_spec: "\<not> words_bigendian T \<Longrightarrow> cob_cmpswp_s48_binary T p n = cell_cmps True 6 p n"
  by (cases "6 \<le> length p") (simp_all add: cob_cmpswp_s48_binary_def swap_eval Let_def shift_s48)

lemma cob_addswp_s48_binary_spec: "\<not> words_bigendian T \<Longrightarrow> cob_addswp_s48_binary T p val = cell_upd True 6 p (\<lambda>x. x + val)"
  by (cases "6 \<le> length p") (simp_all add: cob_addswp_s48_binary_def swap_eval Let_def shift_s48)

lemma cob_subswp_s48_binary_spec: "\<not> words_bigendian T \<Longrightarrow> cob_subswp_s48_binary T p val = cell_upd True 6 p (\<lambda>x. x - val)"
  by (cases "6 \<le> length p") (simp_all add: cob_subswp_s48_binary_def swap_eval Let_def shift_s48)

lemma cob_setswp_s48_binary_spec: "\<not> words_bigendian T \<Longrightarrow> cob_setswp_s48_binary T p val = cell_set True 6 p val"
  by (cases "6 \<le> length p") (simp_all add: cob_setswp_s48_binary_def swap_eval Let_def shift_s48)

lemma cob_cmpswp_u56_binary_spec: "\<not> words_bigendian T \<Longrightarrow> n < 2 ^ 31 \<Longrightarrow> cob_cmpswp_u56_binary T p n = cell_cmpu True 7 p n"
  by (cases "7 \<le> length p") (simp_all add: cob_cmpswp_u56_binary_def swap_eval Let_def cell_cmp_eval)

lemma cob_addswp_u56_binary_spec: "\<not> words_bigendian T \<Longrightarrow> cob_addswp_u56_binary T p val = cell_upd True 7 p (\<lambda>x. x + val)"
  by (cases "7 \<le> length p") (simp_all add: cob_addswp_u56_binary_def swap_eval Let_def)

lemma cob_subswp_u56_binary_spec: "\<not> words_bigendian T \<Longrightarrow> cob_subswp_u56_binary T p val = cell_upd True 7 p (\<lambda>x. x - val)"
  by (cases "7 \<le> length p") (simp_all add: cob_subswp_u56_binary_def swap_eval Let_def)

lemma cob_setswp_u56_binary_spec: "\<not> words_bigendian T \<Longrightarrow> cob_setswp_u56_binary T p val = cell_set True 7 p val"
  by (cases "7 \<le> length p") (simp_all add: cob_setswp_u56_binary_def swap_eval Let_def)

lemma cob_cmpswp_s56_binary_spec: "\<not> words_bigendian T \<Longrightarrow> cob_cmpswp_s56_binary T p n = cell_cmps True 7 p n"
  by (cases "7 \<le> length p") (simp_all add: cob_cmpswp_s56_binary_def swap_eval Let_def shift_s56)

lemma cob_addswp_s56_binary_spec: "\<not> words_bigendian T \<Longrightarrow> cob_addswp_s56_binary T p val = cell_upd True 7 p (\<lambda>x. x + val)"
  by (cases "7 \<le> length p") (simp_all add: cob_addswp_s56_binary_def swap_eval Let_def shift_s56)

lemma cob_subswp_s56_binary_spec: "\<not> words_bigendian T \<Longrightarrow> cob_subswp_s56_binary T p val = cell_upd True 7 p (\<lambda>x. x - val)"
  by (cases "7 \<le> length p") (simp_all add: cob_subswp_s56_binary_def swap_eval Let_def shift_s56)

lemma cob_setswp_s56_binary_spec: "\<not> words_bigendian T \<Longrightarrow> cob_setswp_s56_binary T p val = cell_set True 7 p val"
  by (cases "7 \<le> length p") (simp_all add: cob_setswp_s56_binary_def swap_eval Let_def shift_s56)

lemma cob_cmpswp_u64_binary_spec: "\<not> words_bigendian T \<Longrightarrow> n < 2 ^ 31 \<Longrightarrow> cob_cmpswp_u64_binary T p n = cell_cmpu True 8 p n"
  by (cases "8 \<le> length p") (simp_all add: cob_cmpswp_u64_binary_def swap_eval Let_def cell_cmp_eval)

lemma cob_addswp_u64_binary_spec: "\<not> words_bigendian T \<Longrightarrow> cob_addswp_u64_binary T p val = cell_upd True 8 p (\<lambda>x. x + val)"
  by (cases "8 \<le> length p") (simp_all add: cob_addswp_u64_binary_def swap_eval Let_def)

lemma cob_subswp_u64_binary_spec: "\<not> words_bigendian T \<Longrightarrow> cob_subswp_u64_binary T p val = cell_upd True 8 p (\<lambda>x. x - val)"
  by (cases "8 \<le> length p") (simp_all add: cob_subswp_u64_binary_def swap_eval Let_def)

lemma cob_setswp_u64_binary_spec: "\<not> words_bigendian T \<Longrightarrow> cob_setswp_u64_binary T p val = cell_set True 8 p val"
  by (cases "8 \<le> length p") (simp_all add: cob_setswp_u64_binary_def swap_eval Let_def)

lemma cob_cmpswp_s64_binary_spec: "\<not> words_bigendian T \<Longrightarrow> cob_cmpswp_s64_binary T p n = cell_cmps True 8 p n"
  by (cases "8 \<le> length p") (simp_all add: cob_cmpswp_s64_binary_def swap_eval Let_def)

lemma cob_addswp_s64_binary_spec: "\<not> words_bigendian T \<Longrightarrow> cob_addswp_s64_binary T p val = cell_upd True 8 p (\<lambda>x. x + val)"
  by (cases "8 \<le> length p") (simp_all add: cob_addswp_s64_binary_def swap_eval Let_def)

lemma cob_subswp_s64_binary_spec: "\<not> words_bigendian T \<Longrightarrow> cob_subswp_s64_binary T p val = cell_upd True 8 p (\<lambda>x. x - val)"
  by (cases "8 \<le> length p") (simp_all add: cob_subswp_s64_binary_def swap_eval Let_def)

lemma cob_setswp_s64_binary_spec: "\<not> words_bigendian T \<Longrightarrow> cob_setswp_s64_binary T p val = cell_set True 8 p val"
  by (cases "8 \<le> length p") (simp_all add: cob_setswp_s64_binary_def swap_eval Let_def)

section \<open>The aligned variants are cell operations\<close>

lemma cob_cmp_align_u16_binary_spec: "cob_cmp_align_u16_binary T p n = cell_cmpu (words_bigendian T) 2 p n"
  by (cases "2 \<le> length p") (simp_all add: cob_cmp_align_u16_binary_def cell_eval cell_cmp_eval)

lemma cob_add_align_u16_binary_spec: "cob_add_align_u16_binary T p val = cell_upd (words_bigendian T) 2 p (\<lambda>x. x + val)"
  by (cases "2 \<le> length p") (simp_all add: cob_add_align_u16_binary_def cell_eval)

lemma cob_sub_align_u16_binary_spec: "cob_sub_align_u16_binary T p val = cell_upd (words_bigendian T) 2 p (\<lambda>x. x - val)"
  by (cases "2 \<le> length p") (simp_all add: cob_sub_align_u16_binary_def cell_eval)

lemma cob_cmpswp_align_u16_binary_spec: "\<not> words_bigendian T \<Longrightarrow> cob_cmpswp_align_u16_binary T p n = cell_cmpu True 2 p n"
  by (cases "2 \<le> length p") (simp_all add: cob_cmpswp_align_u16_binary_def swap_eval cell_cmp_eval)

lemma cob_cmp_align_s16_binary_spec: "cob_cmp_align_s16_binary T p n = cell_cmps (words_bigendian T) 2 p n"
  by (cases "2 \<le> length p") (simp_all add: cob_cmp_align_s16_binary_def cell_eval)

lemma cob_add_align_s16_binary_spec: "cob_add_align_s16_binary T p val = cell_upd (words_bigendian T) 2 p (\<lambda>x. x + val)"
  by (cases "2 \<le> length p") (simp_all add: cob_add_align_s16_binary_def cell_eval)

lemma cob_sub_align_s16_binary_spec: "cob_sub_align_s16_binary T p val = cell_upd (words_bigendian T) 2 p (\<lambda>x. x - val)"
  by (cases "2 \<le> length p") (simp_all add: cob_sub_align_s16_binary_def cell_eval)

lemma cob_cmpswp_align_s16_binary_spec: "\<not> words_bigendian T \<Longrightarrow> cob_cmpswp_align_s16_binary T p n = cell_cmps True 2 p n"
  by (cases "2 \<le> length p") (simp_all add: cob_cmpswp_align_s16_binary_def swap_eval)

lemma cob_cmp_align_u32_binary_spec: "n < 2 ^ 31 \<Longrightarrow> cob_cmp_align_u32_binary T p n = cell_cmpu (words_bigendian T) 4 p n"
  by (cases "4 \<le> length p") (simp_all add: cob_cmp_align_u32_binary_def cell_eval cell_cmp_eval)

lemma cob_add_align_u32_binary_spec: "cob_add_align_u32_binary T p val = cell_upd (words_bigendian T) 4 p (\<lambda>x. x + val)"
  by (cases "4 \<le> length p") (simp_all add: cob_add_align_u32_binary_def cell_eval)

lemma cob_sub_align_u32_binary_spec: "cob_sub_align_u32_binary T p val = cell_upd (words_bigendian T) 4 p (\<lambda>x. x - val)"
  by (cases "4 \<le> length p") (simp_all add: cob_sub_align_u32_binary_def cell_eval)

lemma cob_cmpswp_align_u32_binary_spec: "\<not> words_bigendian T \<Longrightarrow> n < 2 ^ 31 \<Longrightarrow> cob_cmpswp_align_u32_binary T p n = cell_cmpu True 4 p n"
  by (cases "4 \<le> length p") (simp_all add: cob_cmpswp_align_u32_binary_def swap_eval cell_cmp_eval)

lemma cob_cmp_align_s32_binary_spec: "cob_cmp_align_s32_binary T p n = cell_cmps (words_bigendian T) 4 p n"
  by (cases "4 \<le> length p") (simp_all add: cob_cmp_align_s32_binary_def cell_eval)

lemma cob_add_align_s32_binary_spec: "cob_add_align_s32_binary T p val = cell_upd (words_bigendian T) 4 p (\<lambda>x. x + val)"
  by (cases "4 \<le> length p") (simp_all add: cob_add_align_s32_binary_def cell_eval)

lemma cob_sub_align_s32_binary_spec: "cob_sub_align_s32_binary T p val = cell_upd (words_bigendian T) 4 p (\<lambda>x. x - val)"
  by (cases "4 \<le> length p") (simp_all add: cob_sub_align_s32_binary_def cell_eval)

lemma cob_cmpswp_align_s32_binary_spec: "\<not> words_bigendian T \<Longrightarrow> cob_cmpswp_align_s32_binary T p n = cell_cmps True 4 p n"
  by (cases "4 \<le> length p") (simp_all add: cob_cmpswp_align_s32_binary_def swap_eval)

lemma cob_cmp_align_u64_binary_spec: "n < 2 ^ 31 \<Longrightarrow> cob_cmp_align_u64_binary T p n = cell_cmpu (words_bigendian T) 8 p n"
  by (cases "8 \<le> length p") (simp_all add: cob_cmp_align_u64_binary_def cell_eval cell_cmp_eval)

lemma cob_add_align_u64_binary_spec: "cob_add_align_u64_binary T p val = cell_upd (words_bigendian T) 8 p (\<lambda>x. x + val)"
  by (cases "8 \<le> length p") (simp_all add: cob_add_align_u64_binary_def cell_eval)

lemma cob_sub_align_u64_binary_spec: "cob_sub_align_u64_binary T p val = cell_upd (words_bigendian T) 8 p (\<lambda>x. x - val)"
  by (cases "8 \<le> length p") (simp_all add: cob_sub_align_u64_binary_def cell_eval)

lemma cob_cmpswp_align_u64_binary_spec: "\<not> words_bigendian T \<Longrightarrow> n < 2 ^ 31 \<Longrightarrow> cob_cmpswp_align_u64_binary T p n = cell_cmpu True 8 p n"
  by (cases "8 \<le> length p") (simp_all add: cob_cmpswp_align_u64_binary_def swap_eval cell_cmp_eval)

lemma cob_cmp_align_s64_binary_spec: "cob_cmp_align_s64_binary T p n = cell_cmps (words_bigendian T) 8 p n"
  by (cases "8 \<le> length p") (simp_all add: cob_cmp_align_s64_binary_def cell_eval)

lemma cob_add_align_s64_binary_spec: "cob_add_align_s64_binary T p val = cell_upd (words_bigendian T) 8 p (\<lambda>x. x + val)"
  by (cases "8 \<le> length p") (simp_all add: cob_add_align_s64_binary_def cell_eval)

lemma cob_sub_align_s64_binary_spec: "cob_sub_align_s64_binary T p val = cell_upd (words_bigendian T) 8 p (\<lambda>x. x - val)"
  by (cases "8 \<le> length p") (simp_all add: cob_sub_align_s64_binary_def cell_eval)

lemma cob_cmpswp_align_s64_binary_spec: "\<not> words_bigendian T \<Longrightarrow> cob_cmpswp_align_s64_binary T p n = cell_cmps True 8 p n"
  by (cases "8 \<le> length p") (simp_all add: cob_cmpswp_align_s64_binary_def swap_eval)

section \<open>The contract of each width\<close>

interpretation swu16: settable_cell True 2 
    "cob_cmpswp_u16_binary (T\<lparr>words_bigendian := False\<rparr>)" 
    "cob_addswp_u16_binary (T\<lparr>words_bigendian := False\<rparr>)" 
    "cob_subswp_u16_binary (T\<lparr>words_bigendian := False\<rparr>)"
    "cell_get True 2" "cob_setswp_u16_binary (T\<lparr>words_bigendian := False\<rparr>)" for T
  by (intro settable_cell.intro unsigned_cellI settable_cell_axioms.intro)
    (simp_all add: cob_cmpswp_u16_binary_spec cob_addswp_u16_binary_spec cob_subswp_u16_binary_spec cob_setswp_u16_binary_spec)

interpretation sws16: settable_cell True 2 
    "cob_cmpswp_s16_binary (T\<lparr>words_bigendian := False\<rparr>)" 
    "cob_addswp_s16_binary (T\<lparr>words_bigendian := False\<rparr>)" 
    "cob_subswp_s16_binary (T\<lparr>words_bigendian := False\<rparr>)"
    "cell_sget True 2" "cob_setswp_s16_binary (T\<lparr>words_bigendian := False\<rparr>)" for T
  by (intro settable_cell.intro signed_cellI settable_cell_axioms.intro)
    (simp_all add: cob_cmpswp_s16_binary_spec cob_addswp_s16_binary_spec cob_subswp_s16_binary_spec cob_setswp_s16_binary_spec)

interpretation swu24: settable_cell True 3 
    "cob_cmpswp_u24_binary (T\<lparr>words_bigendian := False\<rparr>)" 
    "cob_addswp_u24_binary (T\<lparr>words_bigendian := False\<rparr>)" 
    "cob_subswp_u24_binary (T\<lparr>words_bigendian := False\<rparr>)"
    "cell_get True 3" "cob_setswp_u24_binary (T\<lparr>words_bigendian := False\<rparr>)" for T
  by (intro settable_cell.intro unsigned_cellI settable_cell_axioms.intro)
    (simp_all add: cob_cmpswp_u24_binary_spec cob_addswp_u24_binary_spec cob_subswp_u24_binary_spec cob_setswp_u24_binary_spec)

interpretation sws24: settable_cell True 3 
    "cob_cmpswp_s24_binary (T\<lparr>words_bigendian := False\<rparr>)" 
    "cob_addswp_s24_binary (T\<lparr>words_bigendian := False\<rparr>)" 
    "cob_subswp_s24_binary (T\<lparr>words_bigendian := False\<rparr>)"
    "cell_sget True 3" "cob_setswp_s24_binary (T\<lparr>words_bigendian := False\<rparr>)" for T
  by (intro settable_cell.intro signed_cellI settable_cell_axioms.intro)
    (simp_all add: cob_cmpswp_s24_binary_spec cob_addswp_s24_binary_spec cob_subswp_s24_binary_spec cob_setswp_s24_binary_spec)

interpretation swu32: settable_cell True 4 
    "cob_cmpswp_u32_binary (T\<lparr>words_bigendian := False\<rparr>)" 
    "cob_addswp_u32_binary (T\<lparr>words_bigendian := False\<rparr>)" 
    "cob_subswp_u32_binary (T\<lparr>words_bigendian := False\<rparr>)"
    "cell_get True 4" "cob_setswp_u32_binary (T\<lparr>words_bigendian := False\<rparr>)" for T
  by (intro settable_cell.intro unsigned_cellI settable_cell_axioms.intro)
    (simp_all add: cob_cmpswp_u32_binary_spec cob_addswp_u32_binary_spec cob_subswp_u32_binary_spec cob_setswp_u32_binary_spec)

interpretation sws32: settable_cell True 4 
    "cob_cmpswp_s32_binary (T\<lparr>words_bigendian := False\<rparr>)" 
    "cob_addswp_s32_binary (T\<lparr>words_bigendian := False\<rparr>)" 
    "cob_subswp_s32_binary (T\<lparr>words_bigendian := False\<rparr>)"
    "cell_sget True 4" "cob_setswp_s32_binary (T\<lparr>words_bigendian := False\<rparr>)" for T
  by (intro settable_cell.intro signed_cellI settable_cell_axioms.intro)
    (simp_all add: cob_cmpswp_s32_binary_spec cob_addswp_s32_binary_spec cob_subswp_s32_binary_spec cob_setswp_s32_binary_spec)

interpretation swu40: settable_cell True 5 
    "cob_cmpswp_u40_binary (T\<lparr>words_bigendian := False\<rparr>)" 
    "cob_addswp_u40_binary (T\<lparr>words_bigendian := False\<rparr>)" 
    "cob_subswp_u40_binary (T\<lparr>words_bigendian := False\<rparr>)"
    "cell_get True 5" "cob_setswp_u40_binary (T\<lparr>words_bigendian := False\<rparr>)" for T
  by (intro settable_cell.intro unsigned_cellI settable_cell_axioms.intro)
    (simp_all add: cob_cmpswp_u40_binary_spec cob_addswp_u40_binary_spec cob_subswp_u40_binary_spec cob_setswp_u40_binary_spec)

interpretation sws40: settable_cell True 5 
    "cob_cmpswp_s40_binary (T\<lparr>words_bigendian := False\<rparr>)" 
    "cob_addswp_s40_binary (T\<lparr>words_bigendian := False\<rparr>)" 
    "cob_subswp_s40_binary (T\<lparr>words_bigendian := False\<rparr>)"
    "cell_sget True 5" "cob_setswp_s40_binary (T\<lparr>words_bigendian := False\<rparr>)" for T
  by (intro settable_cell.intro signed_cellI settable_cell_axioms.intro)
    (simp_all add: cob_cmpswp_s40_binary_spec cob_addswp_s40_binary_spec cob_subswp_s40_binary_spec cob_setswp_s40_binary_spec)

interpretation swu48: settable_cell True 6 
    "cob_cmpswp_u48_binary (T\<lparr>words_bigendian := False\<rparr>)" 
    "cob_addswp_u48_binary (T\<lparr>words_bigendian := False\<rparr>)" 
    "cob_subswp_u48_binary (T\<lparr>words_bigendian := False\<rparr>)"
    "cell_get True 6" "cob_setswp_u48_binary (T\<lparr>words_bigendian := False\<rparr>)" for T
  by (intro settable_cell.intro unsigned_cellI settable_cell_axioms.intro)
    (simp_all add: cob_cmpswp_u48_binary_spec cob_addswp_u48_binary_spec cob_subswp_u48_binary_spec cob_setswp_u48_binary_spec)

interpretation sws48: settable_cell True 6 
    "cob_cmpswp_s48_binary (T\<lparr>words_bigendian := False\<rparr>)" 
    "cob_addswp_s48_binary (T\<lparr>words_bigendian := False\<rparr>)" 
    "cob_subswp_s48_binary (T\<lparr>words_bigendian := False\<rparr>)"
    "cell_sget True 6" "cob_setswp_s48_binary (T\<lparr>words_bigendian := False\<rparr>)" for T
  by (intro settable_cell.intro signed_cellI settable_cell_axioms.intro)
    (simp_all add: cob_cmpswp_s48_binary_spec cob_addswp_s48_binary_spec cob_subswp_s48_binary_spec cob_setswp_s48_binary_spec)

interpretation swu56: settable_cell True 7 
    "cob_cmpswp_u56_binary (T\<lparr>words_bigendian := False\<rparr>)" 
    "cob_addswp_u56_binary (T\<lparr>words_bigendian := False\<rparr>)" 
    "cob_subswp_u56_binary (T\<lparr>words_bigendian := False\<rparr>)"
    "cell_get True 7" "cob_setswp_u56_binary (T\<lparr>words_bigendian := False\<rparr>)" for T
  by (intro settable_cell.intro unsigned_cellI settable_cell_axioms.intro)
    (simp_all add: cob_cmpswp_u56_binary_spec cob_addswp_u56_binary_spec cob_subswp_u56_binary_spec cob_setswp_u56_binary_spec)

interpretation sws56: settable_cell True 7 
    "cob_cmpswp_s56_binary (T\<lparr>words_bigendian := False\<rparr>)" 
    "cob_addswp_s56_binary (T\<lparr>words_bigendian := False\<rparr>)" 
    "cob_subswp_s56_binary (T\<lparr>words_bigendian := False\<rparr>)"
    "cell_sget True 7" "cob_setswp_s56_binary (T\<lparr>words_bigendian := False\<rparr>)" for T
  by (intro settable_cell.intro signed_cellI settable_cell_axioms.intro)
    (simp_all add: cob_cmpswp_s56_binary_spec cob_addswp_s56_binary_spec cob_subswp_s56_binary_spec cob_setswp_s56_binary_spec)

interpretation swu64: settable_cell True 8 
    "cob_cmpswp_u64_binary (T\<lparr>words_bigendian := False\<rparr>)" 
    "cob_addswp_u64_binary (T\<lparr>words_bigendian := False\<rparr>)" 
    "cob_subswp_u64_binary (T\<lparr>words_bigendian := False\<rparr>)"
    "cell_get True 8" "cob_setswp_u64_binary (T\<lparr>words_bigendian := False\<rparr>)" for T
  by (intro settable_cell.intro unsigned_cellI settable_cell_axioms.intro)
    (simp_all add: cob_cmpswp_u64_binary_spec cob_addswp_u64_binary_spec cob_subswp_u64_binary_spec cob_setswp_u64_binary_spec)

interpretation sws64: settable_cell True 8 
    "cob_cmpswp_s64_binary (T\<lparr>words_bigendian := False\<rparr>)" 
    "cob_addswp_s64_binary (T\<lparr>words_bigendian := False\<rparr>)" 
    "cob_subswp_s64_binary (T\<lparr>words_bigendian := False\<rparr>)"
    "cell_sget True 8" "cob_setswp_s64_binary (T\<lparr>words_bigendian := False\<rparr>)" for T
  by (intro settable_cell.intro signed_cellI settable_cell_axioms.intro)
    (simp_all add: cob_cmpswp_s64_binary_spec cob_addswp_s64_binary_spec cob_subswp_s64_binary_spec cob_setswp_s64_binary_spec)

end
