(* ===== verification/Cob_Field.thy ===== *)
theory Cob_Field
  imports Cob_Prelude
begin

text \<open>
  The data model of libcob (common.h): field attributes, fields, the module settings that
  the run-time consults, and the operational sign of DISPLAY and PACKED-DECIMAL items
  (\<open>cob_real_get_sign\<close>, \<open>cob_real_put_sign\<close> and their EBCDIC helpers in common.c).

  A field is a value: its attribute and the bytes of its storage, whose number is the
  \<open>size\<close> member. Two fields never share storage here. An operation that writes through a
  field pointer returns the new field. Characters have their ASCII codes; the
  \<open>COB_EBCDIC_MACHINE\<close> build is not modelled.
\<close>

section \<open>Attributes, fields, module\<close>

datatype cob_type =
    COB_TYPE_UNKNOWN | COB_TYPE_GROUP | COB_TYPE_BOOLEAN
  | COB_TYPE_NUMERIC_DISPLAY | COB_TYPE_NUMERIC_BINARY | COB_TYPE_NUMERIC_PACKED
  | COB_TYPE_NUMERIC_FLOAT | COB_TYPE_NUMERIC_DOUBLE | COB_TYPE_NUMERIC_EDITED
  | COB_TYPE_ALPHANUMERIC | COB_TYPE_ALPHANUMERIC_ALL | COB_TYPE_ALPHANUMERIC_EDITED
  | COB_TYPE_NATIONAL | COB_TYPE_NATIONAL_EDITED

fun type_code :: "cob_type \<Rightarrow> u8" where
  "type_code COB_TYPE_UNKNOWN = 0x00"
| "type_code COB_TYPE_GROUP = 0x01"
| "type_code COB_TYPE_BOOLEAN = 0x02"
| "type_code COB_TYPE_NUMERIC_DISPLAY = 0x10"
| "type_code COB_TYPE_NUMERIC_BINARY = 0x11"
| "type_code COB_TYPE_NUMERIC_PACKED = 0x12"
| "type_code COB_TYPE_NUMERIC_FLOAT = 0x13"
| "type_code COB_TYPE_NUMERIC_DOUBLE = 0x14"
| "type_code COB_TYPE_NUMERIC_EDITED = 0x24"
| "type_code COB_TYPE_ALPHANUMERIC = 0x21"
| "type_code COB_TYPE_ALPHANUMERIC_ALL = 0x22"
| "type_code COB_TYPE_ALPHANUMERIC_EDITED = 0x23"
| "type_code COB_TYPE_NATIONAL = 0x40"
| "type_code COB_TYPE_NATIONAL_EDITED = 0x41"

text \<open>A picture string is its sequence of (character, repeat count) pairs.\<close>

type_synonym picture = "(u8 \<times> nat) list"

record cob_field_attr =
  attr_type :: cob_type
  attr_digits :: nat
  attr_scale :: int
  attr_flags :: u8
  attr_pic :: picture

record cob_field =
  fdata :: bytes
  fattr :: cob_field_attr

record cob_module =
  collating_sequence :: "bytes option"
  display_sign :: bool
  decimal_point :: u8
  currency_symbol :: u8
  numeric_separator :: u8
  flag_binary_truncate :: bool

text \<open>The settings the compiler emits for a program without special options.\<close>

definition default_module :: cob_module where
  "default_module = \<lparr>collating_sequence = None, display_sign = False, decimal_point = 46,
     currency_symbol = 36, numeric_separator = 44, flag_binary_truncate = True\<rparr>"

abbreviation COB_FLAG_HAVE_SIGN :: u8 where "COB_FLAG_HAVE_SIGN \<equiv> 0x01"
abbreviation COB_FLAG_SIGN_SEPARATE :: u8 where "COB_FLAG_SIGN_SEPARATE \<equiv> 0x02"
abbreviation COB_FLAG_SIGN_LEADING :: u8 where "COB_FLAG_SIGN_LEADING \<equiv> 0x04"
abbreviation COB_FLAG_BLANK_ZERO :: u8 where "COB_FLAG_BLANK_ZERO \<equiv> 0x08"
abbreviation COB_FLAG_JUSTIFIED :: u8 where "COB_FLAG_JUSTIFIED \<equiv> 0x10"
abbreviation COB_FLAG_BINARY_SWAP :: u8 where "COB_FLAG_BINARY_SWAP \<equiv> 0x20"
abbreviation COB_FLAG_REAL_BINARY :: u8 where "COB_FLAG_REAL_BINARY \<equiv> 0x40"

definition cob_fld :: "cob_type \<Rightarrow> nat \<Rightarrow> int \<Rightarrow> u8 \<Rightarrow> picture \<Rightarrow> bytes \<Rightarrow> cob_field" where
  "cob_fld t d s fl pc bs = \<lparr>fdata = bs,
     fattr = \<lparr>attr_type = t, attr_digits = d, attr_scale = s, attr_flags = fl, attr_pic = pc\<rparr>\<rparr>"

definition fsize :: "cob_field \<Rightarrow> nat" where
  "fsize f = length (fdata f)"

definition have_sign :: "cob_field \<Rightarrow> bool" where
  "have_sign f \<longleftrightarrow> attr_flags (fattr f) AND COB_FLAG_HAVE_SIGN \<noteq> 0"

definition sign_separate :: "cob_field \<Rightarrow> bool" where
  "sign_separate f \<longleftrightarrow> attr_flags (fattr f) AND COB_FLAG_SIGN_SEPARATE \<noteq> 0"

definition sign_leading :: "cob_field \<Rightarrow> bool" where
  "sign_leading f \<longleftrightarrow> attr_flags (fattr f) AND COB_FLAG_SIGN_LEADING \<noteq> 0"

definition blank_zero :: "cob_field \<Rightarrow> bool" where
  "blank_zero f \<longleftrightarrow> attr_flags (fattr f) AND COB_FLAG_BLANK_ZERO \<noteq> 0"

definition justified :: "cob_field \<Rightarrow> bool" where
  "justified f \<longleftrightarrow> attr_flags (fattr f) AND COB_FLAG_JUSTIFIED \<noteq> 0"

definition binary_swap :: "cob_field \<Rightarrow> bool" where
  "binary_swap f \<longleftrightarrow> attr_flags (fattr f) AND COB_FLAG_BINARY_SWAP \<noteq> 0"

definition real_binary :: "cob_field \<Rightarrow> bool" where
  "real_binary f \<longleftrightarrow> attr_flags (fattr f) AND COB_FLAG_REAL_BINARY \<noteq> 0"

definition field_type :: "cob_field \<Rightarrow> cob_type" where
  "field_type f = attr_type (fattr f)"

definition field_digits :: "cob_field \<Rightarrow> nat" where
  "field_digits f = attr_digits (fattr f)"

definition field_scale :: "cob_field \<Rightarrow> int" where
  "field_scale f = attr_scale (fattr f)"

definition field_pic :: "cob_field \<Rightarrow> picture" where
  "field_pic f = attr_pic (fattr f)"

definition field_is_numeric :: "cob_field \<Rightarrow> bool" where
  "field_is_numeric f \<longleftrightarrow> type_code (field_type f) AND 0x10 \<noteq> 0"

text \<open>
  \<open>COB_FIELD_DATA\<close> and \<open>COB_FIELD_SIZE\<close>: where the digits lie when the sign is a
  character of its own. \<open>field_bytes\<close> is that part of the storage.
\<close>

definition data_off :: "cob_field \<Rightarrow> nat" where
  "data_off f = (if sign_separate f \<and> sign_leading f then 1 else 0)"

definition data_size :: "cob_field \<Rightarrow> nat" where
  "data_size f = fsize f - (if sign_separate f then 1 else 0)"

definition field_bytes :: "cob_field \<Rightarrow> bytes" where
  "field_bytes f = take (data_size f) (drop (data_off f) (fdata f))"

definition put_bytes :: "cob_field \<Rightarrow> bytes \<Rightarrow> cob_field" where
  "put_bytes f bs = f\<lparr>fdata := take (data_off f) (fdata f) @ bs @
     drop (data_off f + data_size f) (fdata f)\<rparr>"

definition set_data :: "cob_field \<Rightarrow> bytes \<Rightarrow> cob_field" where
  "set_data f bs = f\<lparr>fdata := bs\<rparr>"

text \<open>A separate sign needs a byte of its own.\<close>

definition wf_field :: "cob_field \<Rightarrow> bool" where
  "wf_field f \<longleftrightarrow> (sign_separate f \<longrightarrow> 0 < fsize f) \<and> 0 < data_size f"

lemmas field_sel = fsize_def have_sign_def sign_separate_def sign_leading_def blank_zero_def
  justified_def binary_swap_def real_binary_def field_type_def field_digits_def field_scale_def
  field_pic_def

lemma cob_fld_sel [simp]:
  "fdata (cob_fld t d s fl pc bs) = bs" "fsize (cob_fld t d s fl pc bs) = length bs"
  "field_type (cob_fld t d s fl pc bs) = t" "field_digits (cob_fld t d s fl pc bs) = d"
  "field_scale (cob_fld t d s fl pc bs) = s" "field_pic (cob_fld t d s fl pc bs) = pc"
  "have_sign (cob_fld t d s fl pc bs) \<longleftrightarrow> fl AND COB_FLAG_HAVE_SIGN \<noteq> 0"
  "sign_separate (cob_fld t d s fl pc bs) \<longleftrightarrow> fl AND COB_FLAG_SIGN_SEPARATE \<noteq> 0"
  "sign_leading (cob_fld t d s fl pc bs) \<longleftrightarrow> fl AND COB_FLAG_SIGN_LEADING \<noteq> 0"
  "blank_zero (cob_fld t d s fl pc bs) \<longleftrightarrow> fl AND COB_FLAG_BLANK_ZERO \<noteq> 0"
  "justified (cob_fld t d s fl pc bs) \<longleftrightarrow> fl AND COB_FLAG_JUSTIFIED \<noteq> 0"
  "binary_swap (cob_fld t d s fl pc bs) \<longleftrightarrow> fl AND COB_FLAG_BINARY_SWAP \<noteq> 0"
  "real_binary (cob_fld t d s fl pc bs) \<longleftrightarrow> fl AND COB_FLAG_REAL_BINARY \<noteq> 0"
  by (simp_all add: field_sel cob_fld_def)

text \<open>Writing storage changes no attribute.\<close>

lemma set_data_sel [simp]:
  "fdata (set_data f bs) = bs" "fattr (set_data f bs) = fattr f" "fsize (set_data f bs) = length bs"
  "field_type (set_data f bs) = field_type f" "field_digits (set_data f bs) = field_digits f"
  "field_scale (set_data f bs) = field_scale f" "field_pic (set_data f bs) = field_pic f"
  "have_sign (set_data f bs) = have_sign f" "sign_separate (set_data f bs) = sign_separate f"
  "sign_leading (set_data f bs) = sign_leading f" "blank_zero (set_data f bs) = blank_zero f"
  "justified (set_data f bs) = justified f" "binary_swap (set_data f bs) = binary_swap f"
  "real_binary (set_data f bs) = real_binary f" "set_data (set_data f bs) cs = set_data f cs"
  "data_off (set_data f bs) = data_off f" "field_is_numeric (set_data f bs) = field_is_numeric f"
  by (simp_all add: field_sel set_data_def data_off_def field_is_numeric_def)

lemma set_data_id [simp]: "set_data f (fdata f) = f"
  by (simp add: set_data_def)

lemma put_bytes_set_data: "put_bytes f bs = set_data f (take (data_off f) (fdata f) @ bs @
     drop (data_off f + data_size f) (fdata f))"
  by (simp add: put_bytes_def set_data_def)

lemma data_room: "wf_field f \<Longrightarrow> data_off f + data_size f \<le> fsize f"
  by (auto simp: wf_field_def data_off_def data_size_def)

lemma length_field_bytes: "wf_field f \<Longrightarrow> length (field_bytes f) = data_size f"
  using data_room [of f] by (simp add: field_bytes_def fsize_def)

lemma put_bytes_sel:
  assumes "wf_field f" "length bs = data_size f"
  shows "fsize (put_bytes f bs) = fsize f" "data_size (put_bytes f bs) = data_size f"
    "field_bytes (put_bytes f bs) = bs"
proof -
  have r: "data_off f + data_size f \<le> length (fdata f)" "0 < data_size f"
    using assms data_room [of f] by (simp_all add: fsize_def wf_field_def)
  show size: "fsize (put_bytes f bs) = fsize f"
    using assms r by (simp add: put_bytes_set_data fsize_def)
  then show "data_size (put_bytes f bs) = data_size f"
    by (simp add: data_size_def put_bytes_set_data)
  then show "field_bytes (put_bytes f bs) = bs"
    using assms r by (simp add: field_bytes_def put_bytes_set_data)
qed

section \<open>The sign of zoned items: the two encodings\<close>

text \<open>\<open>cob_get_sign_ebcdic\<close>: the sign of an overpunched byte, and the digit it becomes.\<close>

definition cob_get_sign_ebcdic :: "u8 \<Rightarrow> int \<times> u8" where
  "cob_get_sign_ebcdic p =
    (if p = 0x7B then (1, 0x30)
     else if p = 0x41 then (1, 0x31) else if p = 0x42 then (1, 0x32)
     else if p = 0x43 then (1, 0x33) else if p = 0x44 then (1, 0x34)
     else if p = 0x45 then (1, 0x35) else if p = 0x46 then (1, 0x36)
     else if p = 0x47 then (1, 0x37) else if p = 0x48 then (1, 0x38)
     else if p = 0x49 then (1, 0x39)
     else if p = 0x7D then (-1, 0x30)
     else if p = 0x4A then (-1, 0x31) else if p = 0x4B then (-1, 0x32)
     else if p = 0x4C then (-1, 0x33) else if p = 0x4D then (-1, 0x34)
     else if p = 0x4E then (-1, 0x35) else if p = 0x4F then (-1, 0x36)
     else if p = 0x50 then (-1, 0x37) else if p = 0x51 then (-1, 0x38)
     else if p = 0x52 then (-1, 0x39)
     else (1, 0x30))"

definition cob_put_sign_ebcdic :: "int \<Rightarrow> u8 \<Rightarrow> u8" where
  "cob_put_sign_ebcdic sign p =
    (if sign < 0 then
       (if p = 0x30 then 0x7D else if p = 0x31 then 0x4A else if p = 0x32 then 0x4B
        else if p = 0x33 then 0x4C else if p = 0x34 then 0x4D else if p = 0x35 then 0x4E
        else if p = 0x36 then 0x4F else if p = 0x37 then 0x50 else if p = 0x38 then 0x51
        else if p = 0x39 then 0x52 else 0x7D)
     else if p = 0x30 then 0x7B else if p = 0x31 then 0x41 else if p = 0x32 then 0x42
        else if p = 0x33 then 0x43 else if p = 0x34 then 0x44 else if p = 0x35 then 0x45
        else if p = 0x36 then 0x46 else if p = 0x37 then 0x47 else if p = 0x38 then 0x48
        else if p = 0x39 then 0x49 else 0x7B)"

text \<open>
  The non-separate sign byte as \<open>cob_real_get_sign\<close> reads it and \<open>cob_real_put_sign\<close>
  writes it: a plain digit is positive, a space counts as zero, anything else is
  overpunched (EBCDIC style, or \<open>GET_SIGN_ASCII\<close>: minus 0x40).
\<close>

definition zoned_get :: "bool \<Rightarrow> u8 \<Rightarrow> int \<times> u8" where
  "zoned_get ebcdic p =
    (if 0x30 \<le> p \<and> p \<le> 0x39 then (1, p)
     else if p = 0x20 then (1, 0x30)
     else if ebcdic then cob_get_sign_ebcdic p
     else (-1, p - 0x40))"

definition zoned_put :: "bool \<Rightarrow> int \<Rightarrow> u8 \<Rightarrow> u8" where
  "zoned_put ebcdic sign p =
    (if ebcdic then cob_put_sign_ebcdic sign p
     else if sign < 0 then p + 0x40 else p)"

locale sign_codec =
  fixes get :: "u8 \<Rightarrow> int \<times> u8" and put :: "int \<Rightarrow> u8 \<Rightarrow> u8"
  assumes get_put: "isdigit d \<Longrightarrow> get (put s d) = (if s < 0 then -1 else 1, d)"
    and get_plain: "isdigit d \<Longrightarrow> get d = (1, d)"
begin

lemma put_inj: "isdigit d \<Longrightarrow> isdigit e \<Longrightarrow> put s d = put t e \<Longrightarrow> d = e \<and> (s < 0 \<longleftrightarrow> t < 0)"
  using get_put [of d s] get_put [of e t] by (auto split: if_splits)

lemma negative_not_digit: "isdigit d \<Longrightarrow> s < 0 \<Longrightarrow> \<not> isdigit (put s d)"
  using get_put [of d s] get_plain [of "put s d"] by auto

end

lemma isdigit_cases:
  "isdigit d \<Longrightarrow> d \<in> {0x30, 0x31, 0x32, 0x33, 0x34, 0x35, 0x36, 0x37, 0x38, 0x39}"
proof -
  assume "isdigit d"
  then have "0 \<le> cob_d2i d" "cob_d2i d \<le> 9" by (simp_all add: isdigit_iff)
  then have "cob_d2i d = 0 \<or> cob_d2i d = 1 \<or> cob_d2i d = 2 \<or> cob_d2i d = 3 \<or> cob_d2i d = 4 \<or>
      cob_d2i d = 5 \<or> cob_d2i d = 6 \<or> cob_d2i d = 7 \<or> cob_d2i d = 8 \<or> cob_d2i d = 9"
    by presburger
  then have "cob_d2i d \<in> {0, 1, 2, 3, 4, 5, 6, 7, 8, 9}" by simp
  then have "cob_i2d (cob_d2i d) \<in> cob_i2d ` {0, 1, 2, 3, 4, 5, 6, 7, 8, 9}" by (rule imageI)
  then show ?thesis by (simp only: i2d_d2i) (simp add: cob_i2d_def)
qed

interpretation ascii_sign: sign_codec "zoned_get False" "zoned_put False"
  by unfold_locales (auto dest!: isdigit_cases simp: zoned_get_def zoned_put_def)

interpretation ebcdic_sign: sign_codec "zoned_get True" "zoned_put True"
  by unfold_locales
    (auto dest!: isdigit_cases simp: zoned_get_def zoned_put_def cob_get_sign_ebcdic_def
      cob_put_sign_ebcdic_def)

lemma zoned_codec: "sign_codec (zoned_get e) (zoned_put e)"
  using ascii_sign.sign_codec_axioms ebcdic_sign.sign_codec_axioms by (cases e) simp_all

section \<open>Reading and writing the sign\<close>

definition sign_pos :: "cob_field \<Rightarrow> nat" where
  "sign_pos f = (if sign_leading f then 0 else fsize f - 1)"

definition cob_real_get_sign :: "cob_module \<Rightarrow> cob_field \<Rightarrow> (int \<times> cob_field) option" where
  "cob_real_get_sign M f =
    (case field_type f of
       COB_TYPE_NUMERIC_DISPLAY \<Rightarrow> do {
         b \<leftarrow> rd (fdata f) (sign_pos f);
         if sign_separate f then Some ((if b = chr_plus then 1 else -1), f)
         else do {
           let (s, b') = zoned_get (display_sign M) b;
           p \<leftarrow> wr (fdata f) (sign_pos f) b';
           Some (s, set_data f p) } }
     | COB_TYPE_NUMERIC_PACKED \<Rightarrow> do {
         b \<leftarrow> rd (fdata f) (fsize f - 1);
         Some ((if b AND 0x0f = 0x0d then -1 else 1), f) }
     | _ \<Rightarrow> Some (0, f))"

definition cob_real_put_sign :: "cob_module \<Rightarrow> cob_field \<Rightarrow> int \<Rightarrow> cob_field option" where
  "cob_real_put_sign M f sign =
    (case field_type f of
       COB_TYPE_NUMERIC_DISPLAY \<Rightarrow> do {
         b \<leftarrow> rd (fdata f) (sign_pos f);
         let b' = (if sign_separate f then (if sign < 0 then chr_minus else chr_plus)
                   else zoned_put (display_sign M) sign b);
         p \<leftarrow> wr (fdata f) (sign_pos f) b';
         Some (set_data f p) }
     | COB_TYPE_NUMERIC_PACKED \<Rightarrow> do {
         b \<leftarrow> rd (fdata f) (fsize f - 1);
         p \<leftarrow> wr (fdata f) (fsize f - 1) ((b AND 0xf0) OR (if sign < 0 then 0x0d else 0x0c));
         Some (set_data f p) }
     | _ \<Rightarrow> Some f)"

definition cob_get_sign :: "cob_module \<Rightarrow> cob_field \<Rightarrow> (int \<times> cob_field) option" where
  "cob_get_sign M f = (if have_sign f then cob_real_get_sign M f else Some (0, f))"

definition cob_put_sign :: "cob_module \<Rightarrow> cob_field \<Rightarrow> int \<Rightarrow> cob_field option" where
  "cob_put_sign M f sign = (if have_sign f then cob_real_put_sign M f sign else Some f)"

section \<open>Facts about the sign operations\<close>

lemma data_size_set_data [simp]: "data_size (set_data f bs) = length bs - (if sign_separate f then 1 else 0)"
  by (simp add: data_size_def)

lemma sign_pos_set_data [simp]: "length bs = fsize f \<Longrightarrow> sign_pos (set_data f bs) = sign_pos f"
  by (simp add: sign_pos_def)

lemma sign_pos_room: "wf_field f \<Longrightarrow> sign_pos f < length (fdata f)"
  by (auto simp: wf_field_def sign_pos_def data_size_def fsize_def split: if_splits)

lemma field_bytes_nonsep: "\<not> sign_separate f \<Longrightarrow> field_bytes f = fdata f"
  by (simp add: field_bytes_def data_size_def data_off_def fsize_def)

lemma field_bytes_upd_sep:
  "wf_field f \<Longrightarrow> sign_separate f \<Longrightarrow> field_bytes (set_data f ((fdata f)[sign_pos f := b])) = field_bytes f"
  by (cases "fdata f")
    (auto simp: field_bytes_def sign_pos_def data_off_def data_size_def fsize_def split: nat.split)

lemma cob_get_sign_frame:
  assumes "cob_get_sign M f = Some (s, g)"
  shows "fattr g = fattr f" "fsize g = fsize f" "\<exists>bs. g = set_data f bs \<and> length bs = fsize f"
  using assms
  by (auto simp: cob_get_sign_def cob_real_get_sign_def bind_eq_Some_conv fsize_def Let_def
      split: if_splits cob_type.splits prod.splits dest: wr_length
      intro: exI [of _ "fdata f"])

lemma cob_put_sign_frame:
  assumes "cob_put_sign M f s = Some g"
  shows "fattr g = fattr f" "fsize g = fsize f" "\<exists>bs. g = set_data f bs \<and> length bs = fsize f"
  using assms
  by (auto simp: cob_put_sign_def cob_real_put_sign_def bind_eq_Some_conv fsize_def Let_def
      split: if_splits cob_type.splits prod.splits dest: wr_length
      intro: exI [of _ "fdata f"])

text \<open>
  \<open>sign_of M f s ds\<close>: read through \<open>cob_get_sign\<close>, the DISPLAY field holds the sign
  indicator \<open>s\<close> (0 for an unsigned item) and the digit characters \<open>ds\<close>.
\<close>

definition sign_of :: "cob_module \<Rightarrow> cob_field \<Rightarrow> int \<Rightarrow> bytes \<Rightarrow> bool" where
  "sign_of M f s ds \<longleftrightarrow> (\<exists>g. cob_get_sign M f = Some (s, g) \<and> field_bytes g = ds)"

definition sign_result :: "cob_field \<Rightarrow> int \<Rightarrow> int" where
  "sign_result f s = (if have_sign f then (if s < 0 then -1 else 1) else 0)"

lemma sign_result_set_data [simp]: "sign_result (set_data f bs) s = sign_result f s"
  by (simp add: sign_result_def)

lemma put_sign_sign_of:
  assumes wf: "wf_field f" and t: "field_type f = COB_TYPE_NUMERIC_DISPLAY"
    and d: "all_digits (field_bytes f)"
  shows "\<exists>h. cob_put_sign M f s = Some h \<and> sign_of M h (sign_result f s) (field_bytes f)"
proof (cases "have_sign f")
  case False
  then show ?thesis
    by (simp add: cob_put_sign_def sign_of_def cob_get_sign_def sign_result_def)
next
  case True
  note room = sign_pos_room [OF wf]
  show ?thesis
  proof (cases "sign_separate f")
    case sep: True
    let ?h = "set_data f ((fdata f)[sign_pos f := if s < 0 then chr_minus else chr_plus])"
    have "cob_put_sign M f s = Some ?h"
      using True sep t room by (simp add: cob_put_sign_def cob_real_put_sign_def rd_def wr_def)
    moreover have "cob_get_sign M ?h = Some (sign_result f s, ?h)"
      using True sep t room
      by (auto simp: cob_get_sign_def cob_real_get_sign_def sign_result_def rd_def fsize_def)
    ultimately show ?thesis
      using field_bytes_upd_sep [OF wf sep] by (auto simp: sign_of_def)
  next
    case sep: False
    let ?b = "fdata f ! sign_pos f" and ?e = "display_sign M"
    have "isdigit ?b"
      using d room sep by (simp add: field_bytes_nonsep all_digits_nth)
    then have zg: "zoned_get ?e (zoned_put ?e s ?b) = (if s < 0 then -1 else 1, ?b)"
      using zoned_codec by (simp add: sign_codec_def)
    let ?h = "set_data f ((fdata f)[sign_pos f := zoned_put ?e s ?b])"
    have "cob_put_sign M f s = Some ?h"
      using True sep t room by (simp add: cob_put_sign_def cob_real_put_sign_def rd_def wr_def)
    moreover have "cob_get_sign M ?h = Some (sign_result f s, f)"
      using True sep t room zg
      by (simp add: cob_get_sign_def cob_real_get_sign_def sign_result_def rd_def wr_def fsize_def)
    ultimately show ?thesis by (auto simp: sign_of_def)
  qed
qed

lemma sign_of_code [code]:
  "sign_of M f s ds \<longleftrightarrow> map_option (\<lambda>(t, g). (t, field_bytes g)) (cob_get_sign M f) = Some (s, ds)"
  by (auto simp: sign_of_def)

lemma sign_ofE:
  assumes "sign_of M f s ds"
  obtains g where "cob_get_sign M f = Some (s, g)" "field_bytes g = ds" "fattr g = fattr f" "fsize g = fsize f"
  using assms cob_get_sign_frame by (metis sign_of_def)

text \<open>The integer value of a DISPLAY item's digits and sign, scale left aside.\<close>

definition signed_val :: "int \<Rightarrow> bytes \<Rightarrow> int" where
  "signed_val s ds = (if s < 0 then - dec_val ds else dec_val ds)"

end
