(* ===== verification/Cob_Runtime.thy ===== *)
theory Cob_Runtime
  imports Cob_Field
begin

text \<open>
  The run-time's global state outside the data items (common.c): the exception register and
  the source location recorded with it, run-unit switches, the stack of active modules, the
  run-time checks that end the run unit, the ALLOCATE/FREE cache, and the lists of exit and
  error procedures.
\<close>

section \<open>Exceptions\<close>

text \<open>
  The tables the preprocessor builds from exception.def: row \<open>i\<close> holds the code and the name
  of identifier \<open>i\<close> of \<open>enum cob_exception_id\<close>, framed by \<open>COB_EC_ZERO\<close> and \<open>COB_EC_MAX\<close>.
\<close>

definition exception_def :: "(int \<times> string) list" where
  "exception_def =
  [(0xFFFF, ''EC-ALL''),
   (0x0100, ''EC-ARGUMENT''),
   (0x0101, ''EC-ARGUMENT-FUNCTION''),
   (0x0102, ''EC-ARGUMENT-IMP''),
   (0x0200, ''EC-BOUND''),
   (0x0201, ''EC-BOUND-IMP''),
   (0x0202, ''EC-BOUND-ODO''),
   (0x0203, ''EC-BOUND-OVERFLOW''),
   (0x0204, ''EC-BOUND-PTR''),
   (0x0205, ''EC-BOUND-REF-MOD''),
   (0x0206, ''EC-BOUND-SET''),
   (0x0207, ''EC-BOUND-SUBSCRIPT''),
   (0x0208, ''EC-BOUND-TABLE-LIMIT''),
   (0x0300, ''EC-DATA''),
   (0x0301, ''EC-DATA-CONVERSION''),
   (0x0302, ''EC-DATA-IMP''),
   (0x0303, ''EC-DATA-INCOMPATIBLE''),
   (0x0304, ''EC-DATA-INTEGRITY''),
   (0x0305, ''EC-DATA-PTR-NULL''),
   (0x0306, ''EC-DATA-INFINITY''),
   (0x0307, ''EC-DATA-NEGATIVE-INFINITY''),
   (0x0308, ''EC-DATA-NOT_A_NUMBER''),
   (0x0400, ''EC-FLOW''),
   (0x0401, ''EC-FLOW-GLOBAL-EXIT''),
   (0x0402, ''EC-FLOW-GLOBAL-GOBACK''),
   (0x0403, ''EC-FLOW-IMP''),
   (0x0404, ''EC-FLOW-RELEASE''),
   (0x0405, ''EC-FLOW-REPORT''),
   (0x0406, ''EC-FLOW-RETURN''),
   (0x0407, ''EC-FLOW-SEARCH''),
   (0x0408, ''EC-FLOW-USE''),
   (0x0500, ''EC-I-O''),
   (0x0501, ''EC-I-O-AT-END''),
   (0x0502, ''EC-I-O-EOP''),
   (0x0503, ''EC-I-O-EOP-OVERFLOW''),
   (0x0504, ''EC-I-O-FILE-SHARING''),
   (0x0505, ''EC-I-O-IMP''),
   (0x0506, ''EC-I-O-INVALID-KEY''),
   (0x0507, ''EC-I-O-LINAGE''),
   (0x0508, ''EC-I-O-LOGIC-ERROR''),
   (0x0509, ''EC-I-O-PERMANENT-ERROR''),
   (0x050A, ''EC-I-O-RECORD-OPERATION''),
   (0x0600, ''EC-IMP''),
   (0x0601, ''EC-IMP-ACCEPT''),
   (0x0602, ''EC-IMP-DISPLAY''),
   (0x0700, ''EC-LOCALE''),
   (0x0701, ''EC-LOCALE-IMP''),
   (0x0702, ''EC-LOCALE-INCOMPATIBLE''),
   (0x0703, ''EC-LOCALE-INVALID''),
   (0x0704, ''EC-LOCALE-INVALID-PTR''),
   (0x0705, ''EC-LOCALE-MISSING''),
   (0x0706, ''EC-LOCALE-SIZE''),
   (0x0800, ''EC-OO''),
   (0x0801, ''EC-OO-CONFORMANCE''),
   (0x0802, ''EC-OO-EXCEPTION''),
   (0x0803, ''EC-OO-IMP''),
   (0x0804, ''EC-OO-METHOD''),
   (0x0805, ''EC-OO-NULL''),
   (0x0806, ''EC-OO-RESOURCE''),
   (0x0807, ''EC-OO-UNIVERSAL''),
   (0x0900, ''EC-ORDER''),
   (0x0901, ''EC-ORDER-IMP''),
   (0x0902, ''EC-ORDER-NOT-SUPPORTED''),
   (0x0A00, ''EC-OVERFLOW''),
   (0x0A01, ''EC-OVERFLOW-IMP''),
   (0x0A02, ''EC-OVERFLOW-STRING''),
   (0x0A03, ''EC-OVERFLOW-UNSTRING''),
   (0x0B00, ''EC-PROGRAM''),
   (0x0B01, ''EC-PROGRAM-ARG-MISMATCH''),
   (0x0B02, ''EC-PROGRAM-ARG-OMITTED''),
   (0x0B03, ''EC-PROGRAM-CANCEL-ACTIVE''),
   (0x0B04, ''EC-PROGRAM-IMP''),
   (0x0B05, ''EC-PROGRAM-NOT-FOUND''),
   (0x0B06, ''EC-PROGRAM-PTR-NULL''),
   (0x0B07, ''EC-PROGRAM-RECURSIVE-CALL''),
   (0x0B08, ''EC-PROGRAM-RESOURCES''),
   (0x0C00, ''EC-RAISING''),
   (0x0C01, ''EC-RAISING-IMP''),
   (0x0C02, ''EC-RAISING-NOT-SPECIFIED''),
   (0x0D00, ''EC-RANGE''),
   (0x0D01, ''EC-RANGE-IMP''),
   (0x0D02, ''EC-RANGE-INDEX''),
   (0x0D03, ''EC-RANGE-INSPECT-SIZE''),
   (0x0D04, ''EC-RANGE-INVALID''),
   (0x0D05, ''EC-RANGE-PERFORM-VARYING''),
   (0x0D06, ''EC-RANGE-PTR''),
   (0x0D07, ''EC-RANGE-SEARCH-INDEX''),
   (0x0D08, ''EC-RANGE-SEARCH-NO-MATCH''),
   (0x0E00, ''EC-REPORT''),
   (0x0E01, ''EC-REPORT-ACTIVE''),
   (0x0E02, ''EC-REPORT-COLUMN-OVERLAP''),
   (0x0E03, ''EC-REPORT-FILE-MODE''),
   (0x0E04, ''EC-REPORT-IMP''),
   (0x0E05, ''EC-REPORT-INACTIVE''),
   (0x0E06, ''EC-REPORT-LINE-OVERLAP''),
   (0x0E08, ''EC-REPORT-NOT-TERMINATED''),
   (0x0E09, ''EC-REPORT-PAGE-LIMIT''),
   (0x0E0A, ''EC-REPORT-PAGE-WIDTH''),
   (0x0E0B, ''EC-REPORT-SUM-SIZE''),
   (0x0E0C, ''EC-REPORT-VARYING''),
   (0x0F00, ''EC-SCREEN''),
   (0x0F01, ''EC-SCREEN-FIELD-OVERLAP''),
   (0x0F02, ''EC-SCREEN-IMP''),
   (0x0F03, ''EC-SCREEN-ITEM-TRUNCATED''),
   (0x0F04, ''EC-SCREEN-LINE-NUMBER''),
   (0x0F05, ''EC-SCREEN-STARTING-COLUMN''),
   (0x1000, ''EC-SIZE''),
   (0x1001, ''EC-SIZE-ADDRESS''),
   (0x1002, ''EC-SIZE-EXPONENTIATION''),
   (0x1003, ''EC-SIZE-IMP''),
   (0x1004, ''EC-SIZE-OVERFLOW''),
   (0x1005, ''EC-SIZE-TRUNCATION''),
   (0x1006, ''EC-SIZE-UNDERFLOW''),
   (0x1007, ''EC-SIZE-ZERO-DIVIDE''),
   (0x1100, ''EC-SORT-MERGE''),
   (0x1101, ''EC-SORT-MERGE-ACTIVE''),
   (0x1102, ''EC-SORT-MERGE-FILE-OPEN''),
   (0x1103, ''EC-SORT-MERGE-IMP''),
   (0x1104, ''EC-SORT-MERGE-RELEASE''),
   (0x1105, ''EC-SORT-MERGE-RETURN''),
   (0x1106, ''EC-SORT-MERGE-SEQUENCE''),
   (0x1200, ''EC-STORAGE''),
   (0x1201, ''EC-STORAGE-IMP''),
   (0x1202, ''EC-STORAGE-NOT-ALLOC''),
   (0x1203, ''EC-STORAGE-NOT-AVAIL''),
   (0x1300, ''EC-USER''),
   (0x1400, ''EC-VALIDATE''),
   (0x1401, ''EC-VALIDATE-CONTENT''),
   (0x1402, ''EC-VALIDATE-FORMAT''),
   (0x1403, ''EC-VALIDATE-IMP''),
   (0x1404, ''EC-VALIDATE-RELATION''),
   (0x1405, ''EC-VALIDATE-VARYING''),
   (0x1500, ''EC-FUNCTION''),
   (0x1501, ''EC-FUNCTION-NOT-FOUND''),
   (0x1502, ''EC-FUNCTION-PTR-INVALID''),
   (0x1503, ''EC-FUNCTION-PTR-NULL''),
   (0x1600, ''EC-XML''),
   (0x1601, ''EC-XML-CODESET''),
   (0x1602, ''EC-XML-CODESET-CONVERSION''),
   (0x1603, ''EC-XML-COUNT''),
   (0x1604, ''EC-XML-DOCUMENT-TYPE''),
   (0x1605, ''EC-XML-IMPLICIT-CLOSE''),
   (0x1606, ''EC-XML-INVALID''),
   (0x1607, ''EC-XML-NAMESPACE''),
   (0x1608, ''EC-XML-STACKED-OPEN''),
   (0x1609, ''EC-XML-RANGE'')]"

abbreviation COB_EC_ARGUMENT_FUNCTION :: nat where "COB_EC_ARGUMENT_FUNCTION \<equiv> 3"
abbreviation COB_EC_BOUND_ODO :: nat where "COB_EC_BOUND_ODO \<equiv> 7"
abbreviation COB_EC_BOUND_REF_MOD :: nat where "COB_EC_BOUND_REF_MOD \<equiv> 10"
abbreviation COB_EC_BOUND_SUBSCRIPT :: nat where "COB_EC_BOUND_SUBSCRIPT \<equiv> 12"
abbreviation COB_EC_OVERFLOW_STRING :: nat where "COB_EC_OVERFLOW_STRING \<equiv> 66"
abbreviation COB_EC_OVERFLOW_UNSTRING :: nat where "COB_EC_OVERFLOW_UNSTRING \<equiv> 67"
abbreviation COB_EC_RANGE_INSPECT_SIZE :: nat where "COB_EC_RANGE_INSPECT_SIZE \<equiv> 83"
abbreviation COB_EC_SIZE_OVERFLOW :: nat where "COB_EC_SIZE_OVERFLOW \<equiv> 111"
abbreviation COB_EC_SIZE_ZERO_DIVIDE :: nat where "COB_EC_SIZE_ZERO_DIVIDE \<equiv> 114"
abbreviation COB_EC_STORAGE_NOT_ALLOC :: nat where "COB_EC_STORAGE_NOT_ALLOC \<equiv> 124"
abbreviation COB_EC_STORAGE_NOT_AVAIL :: nat where "COB_EC_STORAGE_NOT_AVAIL \<equiv> 125"
abbreviation COB_EC_PROGRAM_NOT_FOUND :: nat where "COB_EC_PROGRAM_NOT_FOUND \<equiv> 73"
abbreviation COB_EC_IMP_ACCEPT :: nat where "COB_EC_IMP_ACCEPT \<equiv> 44"
abbreviation COB_EC_IMP_DISPLAY :: nat where "COB_EC_IMP_DISPLAY \<equiv> 45"

definition cob_exception_tab_code :: "int list" where
  "cob_exception_tab_code = 0 # map fst exception_def @ [0]"

definition cob_exception_tab_name :: "string option list" where
  "cob_exception_tab_name = None # map (\<lambda>r. Some (snd r)) exception_def @ [None]"

record location =
  loc_program_id :: "string option"
  loc_line :: nat
  loc_section :: "string option"
  loc_paragraph :: "string option"
  loc_statement :: "string option"

record cob_rt =
  exception_code :: int
  got_exception :: bool
  source_file :: "string option"
  source_loc :: location
  orig_loc :: location
  line_trace :: bool

definition cob_rt_init :: cob_rt where
  "cob_rt_init = (let l = \<lparr>loc_program_id = None, loc_line = 0, loc_section = None,
       loc_paragraph = None, loc_statement = None\<rparr> in
     \<lparr>exception_code = 0, got_exception = False, source_file = None, source_loc = l,
       orig_loc = l, line_trace = False\<rparr>)"

definition cob_set_location ::
  "cob_rt \<Rightarrow> string option \<Rightarrow> string option \<Rightarrow> nat \<Rightarrow> string option \<Rightarrow> string option \<Rightarrow> string option \<Rightarrow> cob_rt" where
  "cob_set_location R progid sfile sline csect cpara cstatement =
     R\<lparr>source_file := sfile, source_loc := \<lparr>loc_program_id = progid, loc_line = sline,
        loc_section = csect, loc_paragraph = cpara,
        loc_statement = (case cstatement of None \<Rightarrow> loc_statement (source_loc R) | Some s \<Rightarrow> Some s)\<rparr>\<rparr>"

definition cob_ready_trace :: "cob_rt \<Rightarrow> cob_rt" where
  "cob_ready_trace R = R\<lparr>line_trace := True\<rparr>"

definition cob_reset_trace :: "cob_rt \<Rightarrow> cob_rt" where
  "cob_reset_trace R = R\<lparr>line_trace := False\<rparr>"

definition cob_set_exception :: "cob_rt \<Rightarrow> nat \<Rightarrow> cob_rt" where
  "cob_set_exception R n =
    (let c = cob_exception_tab_code ! n; R = R\<lparr>exception_code := c\<rparr> in
     if c \<noteq> 0 then R\<lparr>got_exception := True, orig_loc := source_loc R\<rparr> else R)"

fun exception_name_loop :: "int \<Rightarrow> int list \<Rightarrow> string option list \<Rightarrow> string option" where
  "exception_name_loop c (k # ks) (n # ns) = (if c = k then n else exception_name_loop c ks ns)"
| "exception_name_loop c _ _ = None"

definition cob_get_exception_name :: "int \<Rightarrow> string option" where
  "cob_get_exception_name c =
     exception_name_loop c cob_exception_tab_code cob_exception_tab_name"

definition cob_clear_exception :: "cob_rt \<Rightarrow> cob_rt" where
  "cob_clear_exception R = R\<lparr>exception_code := 0\<rparr>"

lemma exception_loop_nth:
  assumes "distinct ks" "i < length ks" "length ns = length ks"
  shows "exception_name_loop (ks ! i) ks ns = ns ! i"
  using assms
proof (induction ks arbitrary: i ns)
  case (Cons k ks)
  then obtain n ms where ns: "ns = n # ms" by (cases ns) auto
  show ?case
  proof (cases i)
    case (Suc j)
    with Cons.prems have "k \<noteq> ks ! j" by auto
    with Suc Cons ns show ?thesis by auto
  qed (use ns in simp)
qed simp

lemma exception_codes_distinct: "distinct (butlast cob_exception_tab_code)"
  by code_simp

lemma length_exception_def: "length exception_def = 146"
  by (simp add: exception_def_def)

lemma exception_loop_append:
  "c \<in> set ks \<Longrightarrow> length ns = length ks \<Longrightarrow>
   exception_name_loop c (ks @ js) (ns @ ms) = exception_name_loop c ks ns"
proof (induction ks arbitrary: ns)
  case (Cons k ks)
  then show ?case by (cases ns) auto
qed simp

lemma exception_code_zero_divide:
  "exception_code (cob_set_exception R COB_EC_SIZE_ZERO_DIVIDE) = 0x1007"
  by (simp add: cob_set_exception_def cob_exception_tab_code_def exception_def_def Let_def)

text \<open>Every code of the table is looked up under its own name, and no other code has a name.\<close>

lemma exception_name_lookup:
  assumes "i < length exception_def"
  shows "cob_get_exception_name (fst (exception_def ! i)) = Some (snd (exception_def ! i))"
proof -
  have d: "distinct (0 # map fst exception_def)"
    using exception_codes_distinct by (simp add: cob_exception_tab_code_def)
  let ?ks = "0 # map fst exception_def" and ?ns = "None # map (\<lambda>r. Some (snd r)) exception_def"
  have nth: "?ks ! Suc i = fst (exception_def ! i)" "?ns ! Suc i = Some (snd (exception_def ! i))"
    using assms by simp_all
  have "cob_get_exception_name (?ks ! Suc i) = exception_name_loop (?ks ! Suc i) ?ks ?ns"
    unfolding cob_get_exception_name_def cob_exception_tab_code_def cob_exception_tab_name_def
    using exception_loop_append [of "?ks ! Suc i" ?ks ?ns "[0]" "[None]"] assms by simp
  also have "\<dots> = ?ns ! Suc i"
    using exception_loop_nth [OF d, of "Suc i" ?ns] assms by simp
  finally show ?thesis by (simp only: nth)
qed

lemma exception_raised:
  assumes "i < length exception_def"
  shows "exception_code (cob_set_exception R (Suc i)) = fst (exception_def ! i)"
    "fst (exception_def ! i) \<noteq> 0" "orig_loc (cob_set_exception R (Suc i)) = source_loc R"
    "got_exception (cob_set_exception R (Suc i))"
proof -
  have "0 \<notin> fst ` set exception_def" by code_simp
  moreover have "exception_def ! i \<in> set exception_def" using assms by simp
  ultimately show nz: "fst (exception_def ! i) \<noteq> 0" by (metis imageI)
  have c: "cob_exception_tab_code ! Suc i = fst (exception_def ! i)"
    using assms by (simp add: cob_exception_tab_code_def nth_append)
  show "exception_code (cob_set_exception R (Suc i)) = fst (exception_def ! i)"
    "orig_loc (cob_set_exception R (Suc i)) = source_loc R" "got_exception (cob_set_exception R (Suc i))"
    using nz by (simp_all add: cob_set_exception_def c Let_def)
qed

lemma exception_code_size_overflow:
  "exception_code (cob_set_exception R COB_EC_SIZE_OVERFLOW) = 0x1004"
  by (simp add: cob_set_exception_def cob_exception_tab_code_def exception_def_def Let_def)

end
