(* ===== verification/Cob_Decimal.thy ===== *)
theory Cob_Decimal
  imports Complex_Main Cob_Runtime
begin

text \<open>
  The decimal accumulator of numeric.c (\<open>cob_decimal\<close>: an unbounded integer and a scale,
  denoting \<open>value / 10 ^ scale\<close>) and its arithmetic. A GMP integer \<open>mpz_t\<close> is a HOL
  integer; \<open>mpz_tdiv_q\<close> truncates towards zero (\<open>sdiv\<close>). Operations that align their
  operands change both, so they return both. \<open>dec_rat\<close> gives the rational number a decimal
  stands for; the arithmetic is proved exact with respect to it.
\<close>

record cob_decimal =
  dvalue :: int
  dscale :: int

definition DECIMAL_NAN :: int where
  "DECIMAL_NAN = -128"

definition mkdec :: "int \<Rightarrow> int \<Rightarrow> cob_decimal" where
  "mkdec v s = \<lparr>dvalue = v, dscale = s\<rparr>"

lemma mkdec_sel [simp]: "dvalue (mkdec v s) = v" "dscale (mkdec v s) = s"
  by (simp_all add: mkdec_def)

lemma mkdec_collapse [simp]: "mkdec (dvalue d) (dscale d) = d"
  by (simp add: mkdec_def)

definition shift_decimal :: "cob_decimal \<Rightarrow> int \<Rightarrow> cob_decimal" where
  "shift_decimal d n =
    (if n = 0 then d
     else if n > 0 then mkdec (dvalue d * 10 ^ nat n) (dscale d + n)
     else mkdec (dvalue d sdiv 10 ^ nat (- n)) (dscale d + n))"

definition align_decimal :: "cob_decimal \<Rightarrow> cob_decimal \<Rightarrow> cob_decimal \<times> cob_decimal" where
  "align_decimal d1 d2 =
    (if dscale d1 < dscale d2 then (shift_decimal d1 (dscale d2 - dscale d1), d2)
     else if dscale d1 > dscale d2 then (d1, shift_decimal d2 (dscale d1 - dscale d2))
     else (d1, d2))"

definition decimal_nan :: "cob_decimal \<Rightarrow> cob_decimal \<Rightarrow> bool" where
  "decimal_nan d1 d2 \<longleftrightarrow> dscale d1 = DECIMAL_NAN \<or> dscale d2 = DECIMAL_NAN"

definition cob_decimal_add :: "cob_decimal \<Rightarrow> cob_decimal \<Rightarrow> cob_decimal \<times> cob_decimal" where
  "cob_decimal_add d1 d2 =
    (if decimal_nan d1 d2 then (d1\<lparr>dscale := DECIMAL_NAN\<rparr>, d2)
     else let (a, b) = align_decimal d1 d2 in (a\<lparr>dvalue := dvalue a + dvalue b\<rparr>, b))"

definition cob_decimal_sub :: "cob_decimal \<Rightarrow> cob_decimal \<Rightarrow> cob_decimal \<times> cob_decimal" where
  "cob_decimal_sub d1 d2 =
    (if decimal_nan d1 d2 then (d1\<lparr>dscale := DECIMAL_NAN\<rparr>, d2)
     else let (a, b) = align_decimal d1 d2 in (a\<lparr>dvalue := dvalue a - dvalue b\<rparr>, b))"

definition cob_decimal_mul :: "cob_decimal \<Rightarrow> cob_decimal \<Rightarrow> cob_decimal" where
  "cob_decimal_mul d1 d2 =
    (if decimal_nan d1 d2 then d1\<lparr>dscale := DECIMAL_NAN\<rparr>
     else mkdec (dvalue d1 * dvalue d2) (dscale d1 + dscale d2))"

definition cob_decimal_div :: "cob_rt \<Rightarrow> cob_decimal \<Rightarrow> cob_decimal \<Rightarrow> cob_rt \<times> cob_decimal" where
  "cob_decimal_div R d1 d2 =
    (if decimal_nan d1 d2 then (R, d1\<lparr>dscale := DECIMAL_NAN\<rparr>)
     else if dvalue d2 = 0 then (cob_set_exception R COB_EC_SIZE_ZERO_DIVIDE, d1\<lparr>dscale := DECIMAL_NAN\<rparr>)
     else if dvalue d1 = 0 then (R, d1\<lparr>dscale := 0\<rparr>)
     else let d = d1\<lparr>dscale := dscale d1 - dscale d2\<rparr>;
              d = shift_decimal d (37 + (if dscale d < 0 then - dscale d else 0))
          in (R, d\<lparr>dvalue := dvalue d sdiv dvalue d2\<rparr>))"

text \<open>
  \<open>cob_decimal_pow\<close>: a non-negative integer exponent that fits an unsigned long is raised
  exactly (the exponent passes through an \<open>unsigned int\<close>); everything else goes through C
  doubles, which is the parameter \<open>pow_fp\<close>.
\<close>

definition cob_decimal_pow ::
  "(cob_decimal \<Rightarrow> cob_decimal \<Rightarrow> cob_decimal) \<Rightarrow> cob_decimal \<Rightarrow> cob_decimal \<Rightarrow> cob_decimal" where
  "cob_decimal_pow pow_fp d1 d2 =
    (if decimal_nan d1 d2 then d1\<lparr>dscale := DECIMAL_NAN\<rparr>
     else if dscale d2 = 0 \<and> 0 \<le> dvalue d2 \<and> dvalue d2 < 2 ^ 64 then
       let n = u32 (dvalue d2) in mkdec (dvalue d1 ^ nat n) (dscale d1 * n)
     else pow_fp d1 d2)"

definition cob_decimal_cmp :: "cob_decimal \<Rightarrow> cob_decimal \<Rightarrow> int \<times> cob_decimal \<times> cob_decimal" where
  "cob_decimal_cmp d1 d2 =
    (let (a, b) = align_decimal d1 d2 in (sgn (dvalue a - dvalue b), a, b))"

section \<open>What a decimal denotes\<close>

definition dec_rat :: "cob_decimal \<Rightarrow> rat" where
  "dec_rat d = of_int (dvalue d) * power_int 10 (- dscale d)"

lemma power_int_10_split: "(10::rat) powi (a + b) = 10 powi a * 10 powi b"
  by (simp add: power_int_add)

lemma dec_rat_shift_up: "0 \<le> n \<Longrightarrow> dec_rat (shift_decimal d n) = dec_rat d"
proof (cases "n = 0")
  case False
  assume "0 \<le> n"
  then have "(10::rat) powi n = 10 ^ nat n" by (simp add: power_int_def)
  moreover have "(10::rat) powi (- dscale d) = 10 powi n * 10 powi (- (dscale d + n))"
    by (simp flip: power_int_10_split)
  ultimately show ?thesis
    using False \<open>0 \<le> n\<close> by (simp add: dec_rat_def shift_decimal_def)
qed (simp add: shift_decimal_def)

lemma dscale_shift [simp]: "dscale (shift_decimal d n) = dscale d + n"
  by (simp add: shift_decimal_def)

lemma align_exact:
  assumes "align_decimal d1 d2 = (a, b)"
  shows "dec_rat a = dec_rat d1" "dec_rat b = dec_rat d2" "dscale a = dscale b"
    "dscale a = max (dscale d1) (dscale d2)"
  using assms
  by (auto simp: align_decimal_def dec_rat_shift_up split: if_splits)

lemma dec_rat_add_same: "dscale a = dscale b \<Longrightarrow>
    dec_rat (a\<lparr>dvalue := dvalue a + dvalue b\<rparr>) = dec_rat a + dec_rat b"
  by (simp add: dec_rat_def algebra_simps)

lemma dec_rat_sub_same: "dscale a = dscale b \<Longrightarrow>
    dec_rat (a\<lparr>dvalue := dvalue a - dvalue b\<rparr>) = dec_rat a - dec_rat b"
  by (simp add: dec_rat_def algebra_simps)

lemma cob_decimal_add_exact:
  assumes "\<not> decimal_nan d1 d2" "cob_decimal_add d1 d2 = (a, b)"
  shows "dec_rat a = dec_rat d1 + dec_rat d2" "dscale a = max (dscale d1) (dscale d2)"
    "dec_rat b = dec_rat d2"
proof -
  obtain x y where al: "align_decimal d1 d2 = (x, y)" by fastforce
  then have a: "a = x\<lparr>dvalue := dvalue x + dvalue y\<rparr>" and "b = y"
    using assms by (auto simp: cob_decimal_add_def)
  then show "dec_rat a = dec_rat d1 + dec_rat d2" "dscale a = max (dscale d1) (dscale d2)"
    "dec_rat b = dec_rat d2"
    using align_exact [OF al] by (simp_all add: dec_rat_add_same)
qed

lemma cob_decimal_sub_exact:
  assumes "\<not> decimal_nan d1 d2" "cob_decimal_sub d1 d2 = (a, b)"
  shows "dec_rat a = dec_rat d1 - dec_rat d2" "dscale a = max (dscale d1) (dscale d2)"
    "dec_rat b = dec_rat d2"
proof -
  obtain x y where al: "align_decimal d1 d2 = (x, y)" by fastforce
  then have a: "a = x\<lparr>dvalue := dvalue x - dvalue y\<rparr>" and "b = y"
    using assms by (auto simp: cob_decimal_sub_def)
  then show "dec_rat a = dec_rat d1 - dec_rat d2" "dscale a = max (dscale d1) (dscale d2)"
    "dec_rat b = dec_rat d2"
    using align_exact [OF al] by (simp_all add: dec_rat_sub_same)
qed

lemma cob_decimal_mul_exact:
  "\<not> decimal_nan d1 d2 \<Longrightarrow> dec_rat (cob_decimal_mul d1 d2) = dec_rat d1 * dec_rat d2"
  using power_int_10_split [of "- dscale d1" "- dscale d2"]
  by (simp add: cob_decimal_mul_def dec_rat_def)

lemma powi_pos: "0 < (10::rat) powi n"
  by (simp add: zero_less_power_int)

lemma cob_decimal_cmp_exact: "fst (cob_decimal_cmp d1 d2) = sgn (dvalue (fst (align_decimal d1 d2)) - dvalue (snd (align_decimal d1 d2)))"
  by (simp add: cob_decimal_cmp_def split: prod.split)

lemma cob_decimal_cmp_rat:
  "cob_decimal_cmp d1 d2 = (c, a, b) \<Longrightarrow>
   (c < 0 \<longleftrightarrow> dec_rat d1 < dec_rat d2) \<and> (c = 0 \<longleftrightarrow> dec_rat d1 = dec_rat d2) \<and>
   (c > 0 \<longleftrightarrow> dec_rat d1 > dec_rat d2)"
proof -
  assume c: "cob_decimal_cmp d1 d2 = (c, a, b)"
  then have al: "align_decimal d1 d2 = (a, b)" and c: "c = sgn (dvalue a - dvalue b)"
    by (auto simp: cob_decimal_cmp_def split: prod.splits)
  have "dec_rat d1 < dec_rat d2 \<longleftrightarrow> dvalue a < dvalue b"
    "dec_rat d1 = dec_rat d2 \<longleftrightarrow> dvalue a = dvalue b"
    "dec_rat d1 > dec_rat d2 \<longleftrightarrow> dvalue a > dvalue b"
    unfolding align_exact(1,2) [OF al, symmetric]
    using powi_pos [of "- dscale b"] by (simp_all add: align_exact(3) [OF al] dec_rat_def)
  then show ?thesis using c by (auto simp: sgn_if)
qed

section \<open>Division: a truncated quotient with at least 37 decimals\<close>

lemma sdiv_int: "(a::int) sdiv b = sgn a * sgn b * (\<bar>a\<bar> div \<bar>b\<bar>)"
  by (simp add: signed_divide_int_def)

lemma sdiv_abs: "b \<noteq> 0 \<Longrightarrow> \<bar>(a::int) sdiv b\<bar> = \<bar>a\<bar> div \<bar>b\<bar>"
proof -
  assume "b \<noteq> 0"
  then have "0 \<le> \<bar>a\<bar> div \<bar>b\<bar>" by (simp add: pos_imp_zdiv_nonneg_iff)
  with \<open>b \<noteq> 0\<close> show ?thesis by (cases "a = 0") (simp_all add: sdiv_int abs_mult abs_sgn_eq)
qed

lemma sdiv_error:
  assumes "(b::int) \<noteq> 0"
  shows "\<bar>(of_int a :: rat) / of_int b - of_int (a sdiv b)\<bar> < 1"
    and "\<bar>of_int (a sdiv b) :: rat\<bar> \<le> \<bar>of_int a / of_int b\<bar>"
proof -
  let ?q = "\<bar>a\<bar> div \<bar>b\<bar>"
  have eq: "(of_int a :: rat) / of_int b = of_int (sgn a * sgn b) * (of_int \<bar>a\<bar> / of_int \<bar>b\<bar>)"
    using assms by (auto simp: sgn_if)
  have bpos: "(0::rat) < of_int \<bar>b\<bar>" using assms by simp
  have le: "?q * \<bar>b\<bar> \<le> \<bar>a\<bar>" "\<bar>a\<bar> < (?q + 1) * \<bar>b\<bar>"
  proof -
    have "\<bar>a\<bar> = ?q * \<bar>b\<bar> + \<bar>a\<bar> mod \<bar>b\<bar>" by (simp add: div_mult_mod_eq)
    moreover have "0 \<le> \<bar>a\<bar> mod \<bar>b\<bar>" "\<bar>a\<bar> mod \<bar>b\<bar> < \<bar>b\<bar>" using assms by simp_all
    ultimately show "?q * \<bar>b\<bar> \<le> \<bar>a\<bar>" "\<bar>a\<bar> < (?q + 1) * \<bar>b\<bar>"
      unfolding distrib_right by linarith+
  qed
  have "(of_int (?q * \<bar>b\<bar>) :: rat) \<le> of_int \<bar>a\<bar>" "(of_int \<bar>a\<bar> :: rat) < of_int ((?q + 1) * \<bar>b\<bar>)"
    using le by (simp_all only: of_int_le_iff of_int_less_iff)
  then have lo: "(of_int ?q :: rat) \<le> of_int \<bar>a\<bar> / of_int \<bar>b\<bar>"
    and hi: "(of_int \<bar>a\<bar> :: rat) / of_int \<bar>b\<bar> < of_int ?q + 1"
    using bpos by (simp_all add: pos_le_divide_eq pos_divide_less_eq)
  have q0: "0 \<le> ?q" using assms by (simp add: pos_imp_zdiv_nonneg_iff)
  have s: "a = 0 \<or> sgn a * sgn b = 1 \<or> sgn a * sgn b = -1"
    using assms by (auto simp: sgn_if)
  have sd: "of_int (a sdiv b) = (of_int (sgn a * sgn b) * of_int ?q :: rat)"
    by (simp add: sdiv_int)
  from s show "\<bar>(of_int a :: rat) / of_int b - of_int (a sdiv b)\<bar> < 1"
    unfolding eq sd using lo hi by (elim disjE) (auto simp: sgn_if abs_if)
  from s show "\<bar>of_int (a sdiv b) :: rat\<bar> \<le> \<bar>of_int a / of_int b\<bar>"
    unfolding eq sd using lo q0 by (elim disjE) (auto simp: abs_mult sgn_if)
qed

lemma cob_decimal_div_scale:
  assumes "\<not> decimal_nan d1 d2" "dvalue d1 \<noteq> 0" "dvalue d2 \<noteq> 0" "cob_decimal_div R d1 d2 = (R', q)"
  shows "37 \<le> dscale q" "R' = R"
  using assms by (auto simp: cob_decimal_div_def Let_def shift_decimal_def split: if_splits)

lemma abs_diff_scale: "0 < k \<Longrightarrow> \<bar>x * k - y * k\<bar> = \<bar>x - y\<bar> * (k :: rat)"
  by (simp add: abs_mult flip: left_diff_distrib)

lemma abs_le_scale: "0 < k \<Longrightarrow> \<bar>x\<bar> \<le> \<bar>y\<bar> \<Longrightarrow> \<bar>x * k\<bar> \<le> \<bar>y * (k :: rat)\<bar>"
  by (simp add: abs_mult mult_right_mono)

lemma cob_decimal_div_bound:
  assumes n: "\<not> decimal_nan d1 d2" and nz: "dvalue d1 \<noteq> 0" "dvalue d2 \<noteq> 0"
    and q: "cob_decimal_div R d1 d2 = (R', q)"
  shows "\<bar>dec_rat d1 / dec_rat d2 - dec_rat q\<bar> < 10 powi (- dscale q)"
    and "\<bar>dec_rat q\<bar> \<le> \<bar>dec_rat d1 / dec_rat d2\<bar>"
proof -
  let ?d = "d1\<lparr>dscale := dscale d1 - dscale d2\<rparr>"
  let ?n = "37 + (if dscale ?d < 0 then - dscale ?d else 0)"
  let ?e = "shift_decimal ?d ?n"
  have qe: "q = ?e\<lparr>dvalue := dvalue ?e sdiv dvalue d2\<rparr>"
    using n nz q by (simp add: cob_decimal_div_def Let_def)
  have "dec_rat d1 / dec_rat d2 = dec_rat ?d / of_int (dvalue d2)"
  proof -
    have p: "(10::rat) powi (- dscale d1) = 10 powi (- dscale ?d) * 10 powi (- dscale d2)"
      by (simp flip: power_int_10_split)
    have "(10::rat) powi (- dscale d2) \<noteq> 0" using powi_pos [of "- dscale d2"] by simp
    then show ?thesis unfolding dec_rat_def p by simp
  qed
  also have "dec_rat ?d = dec_rat ?e"
    by (rule dec_rat_shift_up [symmetric]) simp
  also have "dec_rat ?e / of_int (dvalue d2) = of_int (dvalue ?e) / of_int (dvalue d2) * 10 powi (- dscale q)"
    by (simp add: dec_rat_def qe)
  finally have r: "dec_rat d1 / dec_rat d2 = of_int (dvalue ?e) / of_int (dvalue d2) * 10 powi (- dscale q)" .
  have dq: "dec_rat q = of_int (dvalue ?e sdiv dvalue d2) * 10 powi (- dscale q)"
    by (simp add: dec_rat_def qe)
  have "\<bar>dec_rat d1 / dec_rat d2 - dec_rat q\<bar> =
      \<bar>of_int (dvalue ?e) / of_int (dvalue d2) - of_int (dvalue ?e sdiv dvalue d2)\<bar> * 10 powi (- dscale q)"
    unfolding r dq by (rule abs_diff_scale [OF powi_pos])
  also have "\<dots> < 1 * 10 powi (- dscale q)"
    by (rule mult_strict_right_mono [OF sdiv_error(1) [OF nz(2)] powi_pos])
  finally show "\<bar>dec_rat d1 / dec_rat d2 - dec_rat q\<bar> < 10 powi (- dscale q)" by simp
  show "\<bar>dec_rat q\<bar> \<le> \<bar>dec_rat d1 / dec_rat d2\<bar>"
    unfolding r dq by (rule abs_le_scale [OF powi_pos sdiv_error(2) [OF nz(2)]])
qed

end
