(* ===== verification/Cob_Display.thy ===== *)
theory Cob_Display
  imports Cob_Decimal
begin

text \<open>
  DISPLAY (zoned decimal) arithmetic of numeric.c: loading a DISPLAY item into a decimal
  (\<open>cob_decimal_set_display\<close>), storing a decimal into one (\<open>cob_decimal_get_display\<close>), the
  in-place addition of an integer (\<open>display_add_int\<close>, \<open>display_sub_int\<close>,
  \<open>cob_display_add_int\<close>) and the compares of unsigned and signed digit strings with an
  integer. The loops of the source that walk a pointer from the last digit down are written
  as recursion over the reversed digits.
\<close>

section \<open>Options of a store\<close>

abbreviation COB_STORE_ROUND :: u8 where "COB_STORE_ROUND \<equiv> 0x01"
abbreviation COB_STORE_KEEP_ON_OVERFLOW :: u8 where "COB_STORE_KEEP_ON_OVERFLOW \<equiv> 0x02"
abbreviation COB_STORE_TRUNC_ON_OVERFLOW :: u8 where "COB_STORE_TRUNC_ON_OVERFLOW \<equiv> 0x04"

definition opt_set :: "u8 \<Rightarrow> u8 \<Rightarrow> bool" where
  "opt_set opt fl \<longleftrightarrow> opt AND fl \<noteq> 0"

section \<open>Loading\<close>

text \<open>
  GMP's \<open>mpz_set_str\<close> in base 10: white space is ignored, a minus sign may lead, and a
  string that is no number is refused (the target keeps its value).
\<close>

definition mpz_set_str10 :: "int \<Rightarrow> bytes \<Rightarrow> int" where
  "mpz_set_str10 old s =
    (let t = filter (\<lambda>c. \<not> isspace c) (takeWhile (\<lambda>c. c \<noteq> 0) s);
         (neg, ds) = (case t of [] \<Rightarrow> (False, []) | c # cs \<Rightarrow> if c = chr_minus then (True, cs) else (False, t))
     in if ds = [] \<or> \<not> all_digits ds then old
        else if neg then - dec_val ds else dec_val ds)"

fun skip_zeros :: "bytes \<Rightarrow> bytes" where
  "skip_zeros (b # c # bs) = (if b = chr_0 then skip_zeros (c # bs) else b # c # bs)"
| "skip_zeros bs = bs"

fun u32_acc :: "int \<Rightarrow> bytes \<Rightarrow> int" where
  "u32_acc n [] = n"
| "u32_acc n (b # bs) = u32_acc (u32 (n * 10 + cob_d2i b)) bs"

definition num_buff_size :: nat where
  "num_buff_size = 2048"

definition cob_decimal_set_display ::
  "cob_module \<Rightarrow> cob_decimal \<Rightarrow> cob_field \<Rightarrow> (cob_decimal \<times> cob_field) option" where
  "cob_decimal_set_display M d f = do {
     c \<leftarrow> rd (fdata f) (data_off f);
     if c = 255 then Some (mkdec (10 ^ data_size f) (field_scale f), f)
     else if c = 0 then Some (mkdec (- (10 ^ data_size f)) (field_scale f), f)
     else do {
       (sign, f) \<leftarrow> cob_get_sign M f;
       let ds = skip_zeros (field_bytes f);
       v \<leftarrow> (if length ds < 10 then Some (u32_acc 0 ds)
             else if length ds < num_buff_size then Some (mpz_set_str10 (dvalue d) ds) else None);
       f \<leftarrow> cob_put_sign M f sign;
       Some (mkdec (if sign < 0 then - v else v) (field_scale f), f) } }"

section \<open>Storing\<close>

definition cob_decimal_get_display ::
  "cob_rt \<Rightarrow> cob_module \<Rightarrow> cob_decimal \<Rightarrow> cob_field \<Rightarrow> u8 \<Rightarrow> (int \<times> cob_rt \<times> cob_field) option" where
  "cob_decimal_get_display R M d f opt =
    (let sign = sgn (dvalue d); s = mpz_get_str10 \<bar>dvalue d\<bar> in
     if num_buff_size \<le> length s then None
     else if data_size f < length s then
       let R = cob_set_exception R COB_EC_SIZE_OVERFLOW in
       if opt_set opt COB_STORE_KEEP_ON_OVERFLOW then Some (exception_code R, R, f)
       else do {
         f \<leftarrow> cob_put_sign M (put_bytes f (drop (length s - data_size f) s)) sign;
         Some (0, R, f) }
     else do {
       f \<leftarrow> cob_put_sign M (put_bytes f (replicate (data_size f - length s) chr_0 @ s)) sign;
       Some (0, R, f) })"

section \<open>In-place addition of an integer\<close>

fun carry_up :: "bool \<Rightarrow> bytes \<Rightarrow> int \<times> bytes" where
  "carry_up trunc [] = ((if trunc then 1 else 0), [])"
| "carry_up trunc (x # xs) =
    (let b = x + 1 in
     if b \<le> chr_9 then (0, b # xs)
     else let (r, ys) = carry_up trunc xs in (r, chr_0 # ys))"

fun add_loop :: "bool \<Rightarrow> int \<Rightarrow> int \<Rightarrow> bytes \<Rightarrow> int \<times> bytes" where
  "add_loop trunc n carry [] =
    (if n > 0 then ((if trunc then 1 else 0), [])
     else if carry = 0 then (0, []) else carry_up trunc [])"
| "add_loop trunc n carry (x # xs) =
    (if n > 0 then
       let i = n mod 10; n = n div 10; s = uint (x AND 0x0F) + i + carry in
       if s > 9 then let (r, ys) = add_loop trunc n 1 xs in (r, cob_i2d (s mod 10) # ys)
       else let (r, ys) = add_loop trunc n 0 xs in (r, cob_i2d s # ys)
     else if carry = 0 then (0, x # xs) else carry_up trunc (x # xs))"

definition display_add_int :: "cob_module \<Rightarrow> bytes \<Rightarrow> int \<Rightarrow> int \<times> bytes" where
  "display_add_int M data n =
    (let (r, ys) = add_loop (flag_binary_truncate M) n 0 (rev data) in (r, rev ys))"

fun borrow_up :: "bytes \<Rightarrow> int \<times> bytes" where
  "borrow_up [] = (1, [])"
| "borrow_up (x # xs) =
    (let b = x - 1 in
     if b \<ge> chr_0 then (0, b # xs)
     else let (r, ys) = borrow_up xs in (r, chr_9 # ys))"

fun sub_loop :: "int \<Rightarrow> int \<Rightarrow> bytes \<Rightarrow> int \<times> bytes" where
  "sub_loop n carry [] =
    (if n > 0 then (1, []) else if carry = 0 then (0, []) else borrow_up [])"
| "sub_loop n carry (x # xs) =
    (if n > 0 then
       let i = n mod 10; n = n div 10; b = x - word_of_int (i + carry) in
       if b < chr_0 then let (r, ys) = sub_loop n 1 xs in (r, (b + 10) # ys)
       else let (r, ys) = sub_loop n 0 xs in (r, b # ys)
     else if carry = 0 then (0, x # xs) else borrow_up (x # xs))"

definition display_sub_int :: "bytes \<Rightarrow> int \<Rightarrow> int \<times> bytes" where
  "display_sub_int data n = (let (r, ys) = sub_loop n 0 (rev data) in (r, rev ys))"

fun scale_up :: "nat \<Rightarrow> int \<Rightarrow> int" where
  "scale_up 0 n = n"
| "scale_up (Suc k) n = scale_up k (i64 (n * 10))"

fun scale_down :: "nat \<Rightarrow> int \<Rightarrow> int" where
  "scale_down 0 n = n"
| "scale_down (Suc k) n = scale_down k (n sdiv 10)"

definition cob_display_add_int ::
  "cob_rt \<Rightarrow> cob_module \<Rightarrow> cob_field \<Rightarrow> int \<Rightarrow> (int \<times> cob_rt \<times> cob_field) option" where
  "cob_display_add_int R M f n0 = do {
     (sign, f) \<leftarrow> cob_get_sign M f;
     let data = field_bytes f;
     if 64 < length data then None
     else do {
       let n = (if sign < 0 then - n0 else n0);
       let n = scale_up (nat (field_scale f)) n;
       let n = (if field_scale f < 0 then
                  (if - field_scale f < 10 then scale_down (nat (- field_scale f)) n else 0)
                else n);
       if n > 0 then
         let (r, data') = display_add_int M data n in
         if r \<noteq> 0 then do {
           f \<leftarrow> cob_put_sign M f sign;
           let R = cob_set_exception R COB_EC_SIZE_OVERFLOW;
           Some (exception_code R, R, f) }
         else do {
           f \<leftarrow> cob_put_sign M (put_bytes f data') sign;
           Some (0, R, f) }
       else if n < 0 then
         let (r, data') = display_sub_int data (- n) in
         if r \<noteq> 0 then do {
           let data' = map (\<lambda>b. cob_i2d (9 - cob_d2i b)) data';
           let data' = snd (display_add_int M data' 1);
           f \<leftarrow> cob_put_sign M (put_bytes f data') (- sign);
           Some (0, R, f) }
         else do {
           f \<leftarrow> cob_put_sign M (put_bytes f data') sign;
           Some (0, R, f) }
       else do {
         f \<leftarrow> cob_put_sign M f sign;
         Some (0, R, f) } } }"

section \<open>Compares with an integer\<close>

fun i32_acc :: "int \<Rightarrow> bytes \<Rightarrow> int" where
  "i32_acc v [] = v"
| "i32_acc v (b # bs) = i32_acc (i32 (v * 10 + cob_d2i b)) bs"

fun i64_acc :: "int \<Rightarrow> bytes \<Rightarrow> int" where
  "i64_acc v [] = v"
| "i64_acc v (b # bs) = i64_acc (i64 (v * 10 + cob_d2i b)) bs"

definition cob_cmp_numdisp :: "bytes \<Rightarrow> int \<Rightarrow> int" where
  "cob_cmp_numdisp data n = cmp3 (i32_acc 0 data) n"

definition cob_cmp_long_numdisp :: "bytes \<Rightarrow> int \<Rightarrow> int" where
  "cob_cmp_long_numdisp data n = cmp3 (i64_acc 0 data) n"

text \<open>
  \<open>cob_get_ebcdic_sign\<close>: what it adds to the value and whether the sign is negative; the
  \<open>long\<close> version differs in the type of the value only.
\<close>

definition cob_get_ebcdic_sign :: "u8 \<Rightarrow> int \<Rightarrow> bool \<times> int" where
  "cob_get_ebcdic_sign p val =
    (if p = 0x7B then (False, val)
     else if p = 0x41 then (False, val + 1) else if p = 0x42 then (False, val + 2)
     else if p = 0x43 then (False, val + 3) else if p = 0x44 then (False, val + 4)
     else if p = 0x45 then (False, val + 5) else if p = 0x46 then (False, val + 6)
     else if p = 0x47 then (False, val + 7) else if p = 0x48 then (False, val + 8)
     else if p = 0x49 then (False, val + 9)
     else if p = 0x7D then (True, val)
     else if p = 0x4A then (True, val + 1) else if p = 0x4B then (True, val + 2)
     else if p = 0x4C then (True, val + 3) else if p = 0x4D then (True, val + 4)
     else if p = 0x4E then (True, val + 5) else if p = 0x4F then (True, val + 6)
     else if p = 0x50 then (True, val + 7) else if p = 0x51 then (True, val + 8)
     else if p = 0x52 then (True, val + 9)
     else (False, val))"

definition sign_numdisp :: "cob_module \<Rightarrow> u8 \<Rightarrow> int \<Rightarrow> int" where
  "sign_numdisp M p val =
    (if chr_0 \<le> p \<and> p \<le> chr_9 then val + cob_d2i p
     else if display_sign M then
       let (neg, v) = cob_get_ebcdic_sign p val in if neg then - v else v
     else - (val + (uint p - 0x70)))"

definition cob_cmp_sign_numdisp :: "cob_module \<Rightarrow> bytes \<Rightarrow> int \<Rightarrow> int option" where
  "cob_cmp_sign_numdisp M data n =
    (case rev data of [] \<Rightarrow> None
     | p # ps \<Rightarrow> Some (cmp3 (i32 (sign_numdisp M p (i32 (i32_acc 0 (rev ps) * 10)))) n))"

definition cob_cmp_long_sign_numdisp :: "cob_module \<Rightarrow> bytes \<Rightarrow> int \<Rightarrow> int option" where
  "cob_cmp_long_sign_numdisp M data n =
    (case rev data of [] \<Rightarrow> None
     | p # ps \<Rightarrow> Some (cmp3 (i64 (sign_numdisp M p (i64 (i64_acc 0 (rev ps) * 10)))) n))"

text \<open>\<open>cob_get_numdisp\<close> of codegen.h: a byte above \<open>'9'\<close> counts as ten.\<close>

fun numdisp_acc :: "int \<Rightarrow> bytes \<Rightarrow> int" where
  "numdisp_acc v [] = v"
| "numdisp_acc v (b # bs) =
     numdisp_acc (i32 (i32 (v * 10) + (if b > chr_9 then 10 else cob_d2i b))) bs"

definition cob_get_numdisp :: "bytes \<Rightarrow> int" where
  "cob_get_numdisp data = numdisp_acc 0 data"

section \<open>The carry loops compute modulo a power of ten\<close>

text \<open>The value of a digit string read from its last digit on.\<close>

definition lsd_val :: "bytes \<Rightarrow> int" where
  "lsd_val xs = dec_val (rev xs)"

lemma lsd_val_simps [simp]:
  "lsd_val [] = 0" "lsd_val (x # xs) = lsd_val xs * 10 + cob_d2i x"
  by (simp_all add: lsd_val_def dec_val_snoc)

lemma all_digits_rev [simp]: "all_digits (rev xs) = all_digits xs"
  by (simp add: all_digits_def)

lemma lsd_val_bounds: "all_digits xs \<Longrightarrow> 0 \<le> lsd_val xs" "all_digits xs \<Longrightarrow> lsd_val xs < 10 ^ length xs"
  using dec_val_nonneg [of "rev xs"] dec_val_less [of "rev xs"] by (simp_all add: lsd_val_def)

lemma digit_consts: "cob_d2i 48 = 0" "cob_d2i 57 = 9" "isdigit 48" "isdigit 57"
  by (simp_all add: cob_d2i_def isdigit_def)

lemma digit_word: "isdigit x \<Longrightarrow> x = word_of_int (48 + cob_d2i x)"
  by (simp add: cob_d2i_def)

lemma digit_nibble: "isdigit x \<Longrightarrow> uint (x AND 0x0F) = cob_d2i x"
  by (drule isdigit_cases) (auto simp: cob_d2i_def)

lemma digit_minus:
  assumes "isdigit x" "0 \<le> k" "k \<le> 10"
  shows "uint (x - word_of_int k) = 48 + cob_d2i x - k"
proof -
  have "x - word_of_int k = word_of_int (48 + cob_d2i x - k)"
    by (subst digit_word [OF assms(1)]) (simp only: wi_hom_sub)
  moreover have "0 \<le> 48 + cob_d2i x - k" "48 + cob_d2i x - k < 256"
    using assms isdigit_d2i [of x] by simp_all
  ultimately show ?thesis by (simp only: uint_word_of_int) simp
qed

lemma digit_plus:
  assumes "isdigit x" "0 \<le> k" "k \<le> 10"
  shows "uint (x + word_of_int k) = 48 + cob_d2i x + k"
proof -
  have "x + word_of_int k = word_of_int (48 + cob_d2i x + k)"
    by (subst digit_word [OF assms(1)]) (simp only: wi_hom_add)
  moreover have "0 \<le> 48 + cob_d2i x + k" "48 + cob_d2i x + k < 256"
    using assms isdigit_d2i [of x] by simp_all
  ultimately show ?thesis by (simp only: uint_word_of_int) simp
qed

lemma mod_exp10_digit:
  "0 \<le> d \<Longrightarrow> d < 10 \<Longrightarrow> (v mod 10 ^ k) * 10 + d = (v * 10 + d :: int) mod 10 ^ Suc k"
  using mod_exp10_Suc [of "v * 10 + d" k] by simp

lemma exp10_digit_le: "0 \<le> d \<Longrightarrow> d < 10 \<Longrightarrow> (10 ^ Suc k \<le> v * 10 + (d::int)) = (10 ^ k \<le> v)"
  by auto

lemma digit_less: "a - b = (p - q) * 10 + d \<Longrightarrow> 0 \<le> d \<Longrightarrow> d < 10 \<Longrightarrow> (a < b) = (p < (q::int))"
  by presburger

definition overflow_flag :: "bool \<Rightarrow> nat \<Rightarrow> int \<Rightarrow> int" where
  "overflow_flag trunc k v = (if trunc \<and> 10 ^ k \<le> v then 1 else 0)"

lemma overflow_flag_digit:
  "0 \<le> d \<Longrightarrow> d < 10 \<Longrightarrow> overflow_flag t (Suc k) (v * 10 + d) = overflow_flag t k v"
  by (simp only: overflow_flag_def exp10_digit_le)

lemma carry_up_val:
  assumes "all_digits xs" "carry_up t xs = (r, ys)"
  shows "length ys = length xs \<and> all_digits ys \<and> lsd_val ys = (lsd_val xs + 1) mod 10 ^ length xs \<and>
    r = overflow_flag t (length xs) (lsd_val xs + 1)"
  using assms
proof (induction xs arbitrary: r ys)
  case Nil
  then show ?case by (auto simp: overflow_flag_def)
next
  case (Cons x xs)
  then have x: "isdigit x" and xs: "all_digits xs" by simp_all
  note u = digit_plus [OF x, of 1, simplified]
  have le: "x + 1 \<le> chr_9 \<longleftrightarrow> cob_d2i x \<le> 8"
    by (simp add: word_le_def u)
  have d1: "cob_d2i (x + 1) = cob_d2i x + 1" by (simp add: cob_d2i_def u)
  show ?case
  proof (cases "cob_d2i x \<le> 8")
    case True
    then have r: "r = 0" "ys = (x + 1) # xs" using Cons.prems le by auto
    have "lsd_val xs * 10 + (cob_d2i x + 1) = (lsd_val xs mod 10 ^ length xs) * 10 + (cob_d2i x + 1)"
      using lsd_val_bounds [OF xs] by simp
    moreover have "\<not> 10 ^ length xs \<le> lsd_val xs" using lsd_val_bounds [OF xs] by simp
    ultimately show ?thesis
      using r x xs True d1 isdigit_d2i [OF x] mod_exp10_digit [of "cob_d2i x + 1" "lsd_val xs" "length xs"]
        overflow_flag_digit [of "cob_d2i x + 1" t "length xs" "lsd_val xs"]
      by (simp add: isdigit_iff overflow_flag_def add.assoc del: power_Suc)
  next
    case False
    then have x9: "cob_d2i x = 9" using isdigit_d2i [OF x] by simp
    obtain r' zs where c: "carry_up t xs = (r', zs)" by fastforce
    then have r: "r = r'" "ys = chr_0 # zs" using Cons.prems le False by auto
    have e: "lsd_val (x # xs) + 1 = (lsd_val xs + 1) * 10 + 0" by (simp add: x9)
    show ?thesis
      using Cons.IH [OF xs c] r e mod_exp10_digit [of 0 "lsd_val xs + 1" "length xs"]
        overflow_flag_digit [of 0 t "length xs" "lsd_val xs + 1"]
      by (simp add: digit_consts add.commute del: power_Suc)
  qed
qed

lemma add_loop_val:
  assumes "all_digits xs" "0 \<le> n" "carry = 0 \<or> carry = 1" "add_loop t n carry xs = (r, ys)"
  shows "length ys = length xs \<and> all_digits ys \<and> lsd_val ys = (lsd_val xs + n + carry) mod 10 ^ length xs \<and>
    r = overflow_flag t (length xs) (lsd_val xs + n + carry)"
  using assms
proof (induction xs arbitrary: n carry r ys)
  case Nil
  then show ?case by (auto simp: overflow_flag_def split: if_splits)
next
  case (Cons x xs)
  then have x: "isdigit x" and xs: "all_digits xs" by simp_all
  show ?case
  proof (cases "n > 0")
    case False
    with Cons.prems have n: "n = 0" by simp
    show ?thesis
    proof (cases "carry = 0")
      case True
      then show ?thesis
        using Cons.prems n lsd_val_bounds [of "x # xs"] by (auto simp: overflow_flag_def)
    next
      case c: False
      then have "carry_up t (x # xs) = (r, ys)" using Cons.prems n by simp
      from carry_up_val [OF Cons.prems(1) this] c n Cons.prems(3) show ?thesis by simp
    qed
  next
    case True
    define s where "s = cob_d2i x + n mod 10 + carry"
    have s: "0 \<le> s" "s \<le> 19"
      using isdigit_d2i [OF x] Cons.prems(3) pos_mod_bound [of 10 n] by (auto simp: s_def)
    have e: "lsd_val (x # xs) + n + carry = (lsd_val xs + n div 10) * 10 + s"
      using div_mult_mod_eq [of n 10] by (simp add: s_def)
    obtain r' zs where c: "add_loop t (n div 10) (if s > 9 then 1 else 0) xs = (r', zs)" by fastforce
    have r: "r = r'" "ys = cob_i2d (s mod 10) # zs"
      using Cons.prems(4) True c s digit_nibble [OF x]
      by (auto simp: Let_def s_def mod_pos_pos_trivial split: if_splits)
    have d: "cob_d2i (cob_i2d (s mod 10)) = s mod 10" "isdigit (cob_i2d (s mod 10))"
      using pos_mod_bound [of 10 s] by (simp_all add: d2i_i2d isdigit_i2d)
    define c' where "c' = (if s > 9 then 1 else (0::int))"
    have sc: "s = 10 * c' + s mod 10" using s by (simp add: c'_def) presburger
    have e2: "lsd_val (x # xs) + n + carry = (lsd_val xs + n div 10 + c') * 10 + s mod 10"
      unfolding e by (subst sc) simp
    have "0 \<le> n div 10" using True by simp
    from Cons.IH [OF xs this _ c] show ?thesis
      using r d mod_exp10_digit [of "s mod 10" "lsd_val xs + n div 10 + c'" "length xs"]
        overflow_flag_digit [of "s mod 10" t "length xs" "lsd_val xs + n div 10 + c'"]
        pos_mod_bound [of 10 s]
      unfolding e2 by (simp add: c'_def del: power_Suc split: if_splits)
  qed
qed

lemma display_add_int_val:
  assumes "all_digits data" "0 \<le> n" "display_add_int M data n = (r, ys)"
  shows "length ys = length data" "all_digits ys" "dec_val ys = (dec_val data + n) mod 10 ^ length data"
    "r = overflow_flag (flag_binary_truncate M) (length data) (dec_val data + n)"
proof -
  obtain zs where z: "add_loop (flag_binary_truncate M) n 0 (rev data) = (r, zs)" "ys = rev zs"
    using assms(3) by (auto simp: display_add_int_def split: prod.splits)
  from add_loop_val [OF _ assms(2) _ z(1)] assms(1) z(2)
  show "length ys = length data" "all_digits ys" "dec_val ys = (dec_val data + n) mod 10 ^ length data"
    "r = overflow_flag (flag_binary_truncate M) (length data) (dec_val data + n)"
    by (simp_all add: lsd_val_def)
qed

lemma borrow_up_val:
  assumes "all_digits xs" "borrow_up xs = (r, ys)"
  shows "length ys = length xs \<and> all_digits ys \<and> lsd_val ys = (lsd_val xs - 1) mod 10 ^ length xs \<and>
    r = (if lsd_val xs < 1 then 1 else 0)"
  using assms
proof (induction xs arbitrary: r ys)
  case Nil
  then show ?case by auto
next
  case (Cons x xs)
  then have x: "isdigit x" and xs: "all_digits xs" by simp_all
  note u = digit_minus [OF x, of 1, simplified]
  have le: "chr_0 \<le> x - 1 \<longleftrightarrow> 1 \<le> cob_d2i x" by (simp add: word_le_def u)
  have d1: "cob_d2i (x - 1) = cob_d2i x - 1" by (simp add: cob_d2i_def u)
  show ?case
  proof (cases "1 \<le> cob_d2i x")
    case True
    then have r: "r = 0" "ys = (x - 1) # xs" using Cons.prems le by auto
    show ?thesis
      using r x xs True d1 isdigit_d2i [OF x] lsd_val_bounds [OF xs]
        mod_exp10_digit [of "cob_d2i x - 1" "lsd_val xs" "length xs"]
      by (simp add: isdigit_iff algebra_simps del: power_Suc)
  next
    case False
    then have x0: "cob_d2i x = 0" using isdigit_d2i [OF x] by simp
    obtain r' zs where c: "borrow_up xs = (r', zs)" by fastforce
    then have r: "r = r'" "ys = chr_9 # zs" using Cons.prems le False by auto
    have e: "lsd_val (x # xs) - 1 = (lsd_val xs - 1) * 10 + 9" by (simp add: x0)
    show ?thesis
      using Cons.IH [OF xs c] r e mod_exp10_digit [of 9 "lsd_val xs - 1" "length xs"]
      by (simp add: cob_d2i_def isdigit_def del: power_Suc)
  qed
qed

lemma sub_loop_val:
  assumes "all_digits xs" "0 \<le> n" "carry = 0 \<or> carry = 1" "sub_loop n carry xs = (r, ys)"
  shows "length ys = length xs \<and> all_digits ys \<and> lsd_val ys = (lsd_val xs - (n + carry)) mod 10 ^ length xs \<and>
    r = (if lsd_val xs < n + carry then 1 else 0)"
  using assms
proof (induction xs arbitrary: n carry r ys)
  case Nil
  then show ?case by (auto split: if_splits)
next
  case (Cons x xs)
  then have x: "isdigit x" and xs: "all_digits xs" by simp_all
  show ?case
  proof (cases "n > 0")
    case False
    with Cons.prems have n: "n = 0" by simp
    show ?thesis
    proof (cases "carry = 0")
      case True
      then show ?thesis using Cons.prems n lsd_val_bounds [of "x # xs"] by auto
    next
      case c: False
      then have "borrow_up (x # xs) = (r, ys)" using Cons.prems n by simp
      from borrow_up_val [OF Cons.prems(1) this] c n Cons.prems(3) show ?thesis by simp
    qed
  next
    case True
    define k where "k = n mod 10 + carry"
    define b where "b = x - word_of_int k"
    have k: "0 \<le> k" "k \<le> 10"
      using Cons.prems(3) pos_mod_bound [of 10 n] by (auto simp: k_def)
    have u: "uint b = 48 + cob_d2i x - k" unfolding b_def by (rule digit_minus [OF x k])
    define c' where "c' = (if cob_d2i x < k then 1 else (0::int))"
    define d where "d = cob_d2i x - k + 10 * c'"
    have dd: "0 \<le> d" "d < 10" using isdigit_d2i [OF x] k by (auto simp: d_def c'_def)
    have lt: "b < chr_0 \<longleftrightarrow> cob_d2i x < k" by (simp add: word_less_def u)
    have e: "lsd_val (x # xs) - (n + carry) = (lsd_val xs - (n div 10 + c')) * 10 + d"
      unfolding lsd_val_simps d_def k_def using div_mult_mod_eq [of n 10] by (simp add: algebra_simps)
    obtain r' zs where c: "sub_loop (n div 10) c' xs = (r', zs)" by fastforce
    define y where "y = (if b < chr_0 then b + 10 else b)"
    have r: "r = r'" "ys = y # zs"
      using Cons.prems(4) True c lt by (auto simp: Let_def y_def b_def c'_def k_def split: if_splits)
    have "uint (b + 10) = uint b + 10"
      using u k isdigit_d2i [OF x] by (simp add: uint_word_ariths)
    then have y: "cob_d2i y = d" "isdigit y"
      using dd lt u by (auto simp: y_def d_def c'_def cob_d2i_def isdigit_iff)
    have q: "0 \<le> n div 10" "c' = 0 \<or> c' = 1" using True by (auto simp: c'_def)
    have "lsd_val (x # xs) < n + carry \<longleftrightarrow> lsd_val xs < n div 10 + c'"
      by (rule digit_less [OF e dd])
    then show ?thesis
      using Cons.IH [OF xs q c] r y dd mod_exp10_digit [OF dd, of "lsd_val xs - (n div 10 + c')" "length xs"]
      unfolding e by (simp del: power_Suc lsd_val_simps add: lsd_val_simps(2) [of y])
  qed
qed

lemma display_sub_int_val:
  assumes "all_digits data" "0 \<le> n" "display_sub_int data n = (r, ys)"
  shows "length ys = length data" "all_digits ys" "dec_val ys = (dec_val data - n) mod 10 ^ length data"
    "r = (if dec_val data < n then 1 else 0)"
proof -
  obtain zs where z: "sub_loop n 0 (rev data) = (r, zs)" "ys = rev zs"
    using assms(3) by (auto simp: display_sub_int_def split: prod.splits)
  from sub_loop_val [OF _ assms(2) _ z(1)] assms(1) z(2)
  show "length ys = length data" "all_digits ys" "dec_val ys = (dec_val data - n) mod 10 ^ length data"
    "r = (if dec_val data < n then 1 else 0)"
    by (simp_all add: lsd_val_def)
qed

section \<open>Loading and storing a DISPLAY item\<close>

lemma skip_zeros_facts:
  "dec_val (skip_zeros bs) = dec_val bs \<and> length (skip_zeros bs) \<le> length bs \<and>
   (all_digits bs \<longrightarrow> all_digits (skip_zeros bs)) \<and> (bs \<noteq> [] \<longrightarrow> skip_zeros bs \<noteq> [])"
  by (induction bs rule: skip_zeros.induct) (auto simp: dec_val_Cons digit_consts)

lemma exp10_mono: "m \<le> n \<Longrightarrow> (10::int) ^ m \<le> 10 ^ n"
  by (rule power_increasing) simp_all

lemma dec_acc_mono: "0 \<le> v \<Longrightarrow> all_digits bs \<Longrightarrow> v \<le> dec_acc v bs"
proof (induction bs arbitrary: v)
  case Nil
  then show ?case by simp
next
  case (Cons b bs)
  then have d: "0 \<le> cob_d2i b" "all_digits bs" by (simp_all add: isdigit_iff)
  then have "v * 10 + cob_d2i b \<le> dec_acc (v * 10 + cob_d2i b) bs"
    using Cons.IH [of "v * 10 + cob_d2i b"] Cons.prems by simp
  then show ?case using d Cons.prems by simp
qed

lemma acc_loops_exact:
  assumes "all_digits bs" "0 \<le> v"
  shows "dec_acc v bs < 2 ^ 32 \<Longrightarrow> u32_acc v bs = dec_acc v bs"
    and "dec_acc v bs < 2 ^ 31 \<Longrightarrow> i32_acc v bs = dec_acc v bs"
    and "dec_acc v bs < 2 ^ 63 \<Longrightarrow> i64_acc v bs = dec_acc v bs"
    and "dec_acc v bs < 2 ^ 31 \<Longrightarrow> numdisp_acc v bs = dec_acc v bs"
  using assms
proof (induction bs arbitrary: v)
  case Nil
  { case 1 then show ?case by simp }
  { case 2 then show ?case by simp }
  { case 3 then show ?case by simp }
  { case 4 then show ?case by simp }
next
  case (Cons b bs)
  { case 1
    then have b: "0 \<le> cob_d2i b" "all_digits bs" by (simp_all add: isdigit_iff)
    with 1 have "v * 10 + cob_d2i b \<le> dec_acc (v * 10 + cob_d2i b) bs"
      by (intro dec_acc_mono) simp_all
    with 1 b Cons.IH(1) [of "v * 10 + cob_d2i b"] show ?case by (simp add: u32_id) }
  { case 2
    then have b: "0 \<le> cob_d2i b" "all_digits bs" by (simp_all add: isdigit_iff)
    with 2 have "v * 10 + cob_d2i b \<le> dec_acc (v * 10 + cob_d2i b) bs"
      by (intro dec_acc_mono) simp_all
    with 2 b Cons.IH(2) [of "v * 10 + cob_d2i b"] show ?case by (simp add: i32_id) }
  { case 3
    then have b: "0 \<le> cob_d2i b" "all_digits bs" by (simp_all add: isdigit_iff)
    with 3 have "v * 10 + cob_d2i b \<le> dec_acc (v * 10 + cob_d2i b) bs"
      by (intro dec_acc_mono) simp_all
    with 3 b Cons.IH(3) [of "v * 10 + cob_d2i b"] show ?case by (simp add: i64_id) }
  { case 4
    then have b: "0 \<le> cob_d2i b" "all_digits bs" "\<not> b > chr_9"
      by (simp_all add: isdigit_iff word_less_def cob_d2i_def)
    with 4 have "v * 10 + cob_d2i b \<le> dec_acc (v * 10 + cob_d2i b) bs"
      by (intro dec_acc_mono) simp_all
    with 4 b Cons.IH(4) [of "v * 10 + cob_d2i b"] show ?case by (simp add: i32_id) }
qed

lemma dec_val_small:
  "all_digits bs \<Longrightarrow> length bs \<le> 9 \<Longrightarrow> dec_val bs < 10 ^ 9"
  "all_digits bs \<Longrightarrow> length bs \<le> 18 \<Longrightarrow> dec_val bs < 10 ^ 18"
  using dec_val_less [of bs] exp10_mono [of "length bs" 9] exp10_mono [of "length bs" 18]
  by linarith+

lemma acc_small:
  assumes "all_digits bs"
  shows "length bs \<le> 9 \<Longrightarrow> u32_acc 0 bs = dec_val bs"
    and "length bs \<le> 9 \<Longrightarrow> i32_acc 0 bs = dec_val bs"
    and "length bs \<le> 18 \<Longrightarrow> i64_acc 0 bs = dec_val bs"
    and "length bs \<le> 9 \<Longrightarrow> numdisp_acc 0 bs = dec_val bs"
  using acc_loops_exact [OF assms, of 0] dec_val_small [OF assms] by (simp_all add: dec_val_def)

lemma digits_not_space: "all_digits s \<Longrightarrow> filter (\<lambda>c. \<not> isspace c) s = s \<and> takeWhile (\<lambda>c. c \<noteq> 0) s = s"
proof (induction s)
  case (Cons a s)
  then have "isdigit a" by simp
  then have "\<not> isspace a" "a \<noteq> 0" by (auto dest!: isdigit_cases simp: isspace_def)
  with Cons show ?case by simp
qed simp

lemma mpz_set_str10_digits: "all_digits s \<Longrightarrow> s \<noteq> [] \<Longrightarrow> mpz_set_str10 old s = dec_val s"
  using digits_not_space [of s]
  by (cases s) (auto simp: mpz_set_str10_def isdigit_def)

lemma store_digits:
  assumes wf: "wf_field f" and t: "field_type f = COB_TYPE_NUMERIC_DISPLAY"
    and ds: "all_digits ds" "length ds = data_size f"
  shows "\<exists>h. cob_put_sign M (put_bytes f ds) t = Some h \<and> sign_of M h (sign_result f t) ds \<and>
    fattr h = fattr f \<and> fsize h = fsize f"
proof -
  note p = put_bytes_sel [OF wf ds(2)]
  have "wf_field (put_bytes f ds)" using wf p by (simp add: wf_field_def put_bytes_set_data)
  moreover have "field_type (put_bytes f ds) = COB_TYPE_NUMERIC_DISPLAY"
    using t by (simp add: put_bytes_set_data)
  ultimately obtain h where h: "cob_put_sign M (put_bytes f ds) t = Some h"
    "sign_of M h (sign_result (put_bytes f ds) t) ds"
    using put_sign_sign_of [of "put_bytes f ds" M t] p ds by auto
  have "sign_result (put_bytes f ds) t = sign_result f t" "fattr (put_bytes f ds) = fattr f"
    by (simp_all add: put_bytes_set_data)
  then show ?thesis using h p cob_put_sign_frame [OF h(1)] by simp
qed

lemma put_field_bytes: "wf_field g \<Longrightarrow> put_bytes g (field_bytes g) = g"
proof -
  assume "wf_field g"
  have "take (data_off g) (fdata g) @ field_bytes g @ drop (data_off g + data_size g) (fdata g) = fdata g"
    by (simp add: field_bytes_def) (metis add.commute append_take_drop_id drop_drop)
  then show ?thesis by (simp add: put_bytes_set_data)
qed

lemma sign_of_length:
  "sign_of M f s ds \<Longrightarrow> wf_field f \<Longrightarrow> length ds = data_size f"
proof -
  assume "sign_of M f s ds" and wf: "wf_field f"
  then obtain g where g: "cob_get_sign M f = Some (s, g)" "field_bytes g = ds" by (auto simp: sign_of_def)
  obtain bs where "g = set_data f bs" "length bs = fsize f" using cob_get_sign_frame [OF g(1)] by auto
  then have "wf_field g" "data_size g = data_size f" using wf by (simp_all add: wf_field_def data_size_def)
  with g length_field_bytes [of g] show ?thesis by simp
qed

lemma get_sign_wf:
  assumes "cob_get_sign M f = Some (s, g)" "wf_field f"
  shows "wf_field g" "data_size g = data_size f" "field_type g = field_type f" "field_scale g = field_scale f"
    "sign_result g = sign_result f"
  using cob_get_sign_frame [OF assms(1)] assms(2)
  by (auto simp: wf_field_def data_size_def fun_eq_iff)

lemma put_sign_again:
  assumes "cob_get_sign M f = Some (s, g)" "wf_field f" "field_type f = COB_TYPE_NUMERIC_DISPLAY"
    "all_digits ds" "length ds = data_size f"
  shows "\<exists>h. cob_put_sign M (put_bytes g ds) t = Some h \<and> sign_of M h (sign_result f t) ds \<and>
    fattr h = fattr f \<and> fsize h = fsize f"
  using store_digits [of g ds M t] get_sign_wf [OF assms(1,2)] cob_get_sign_frame [OF assms(1)] assms(3-)
  by simp

lemma set_display_value:
  assumes wf: "wf_field f" and t: "field_type f = COB_TYPE_NUMERIC_DISPLAY"
    and s: "sign_of M f s ds" "all_digits ds" "length ds < num_buff_size"
    and lo: "fdata f ! data_off f \<notin> {0, 255}"
  shows "\<exists>g. cob_decimal_set_display M d f = Some (mkdec (signed_val s ds) (field_scale f), g) \<and>
    sign_of M g (sign_result f s) ds \<and> fattr g = fattr f \<and> fsize g = fsize f"
proof -
  obtain g where g: "cob_get_sign M f = Some (s, g)" "field_bytes g = ds" using s(1) by (auto simp: sign_of_def)
  note gw = get_sign_wf [OF g(1) wf]
  have len: "length ds = data_size f" using s wf by (simp add: sign_of_length)
  obtain h where h: "cob_put_sign M g s = Some h" "sign_of M h (sign_result f s) ds"
    "fattr h = fattr f" "fsize h = fsize f"
    using put_sign_again [OF g(1) wf t s(2) len, of s] put_field_bytes [OF gw(1)] g(2) by auto
  define z where "z = skip_zeros ds"
  have ne: "ds \<noteq> []" using len wf by (auto simp: wf_field_def)
  have z: "dec_val z = dec_val ds" "all_digits z" "z \<noteq> []" "length z \<le> length ds"
    using skip_zeros_facts [of ds] s(2) ne by (simp_all add: z_def)
  have "data_off f < length (fdata f)"
    using wf data_room [OF wf] by (auto simp: wf_field_def fsize_def)
  then have r: "rd (fdata f) (data_off f) = Some (fdata f ! data_off f)" by (simp add: rd_def)
  have "cob_decimal_set_display M d f = Some (mkdec (signed_val s ds) (field_scale f), h)"
  proof -
    have sc: "field_scale h = field_scale f" using h(3) by (simp add: field_scale_def)
    have dv: "length z < 10 \<Longrightarrow> u32_acc 0 z = dec_val ds" "mpz_set_str10 (dvalue d) z = dec_val ds"
      "length z < num_buff_size"
      using z s(3) by (simp_all add: acc_small mpz_set_str10_digits)
    show ?thesis
      using lo h(1) dv
      by (cases "length z < 10")
        (simp_all add: cob_decimal_set_display_def r g sc signed_val_def flip: z_def)
  qed
  with h show ?thesis by auto
qed

lemma num_buff_pred: "num_buff_size - 1 = 2047"
  by (simp add: num_buff_size_def)

lemma buffer_room: "\<bar>v\<bar> < 10 ^ k \<Longrightarrow> k < 2048 \<Longrightarrow> \<bar>v\<bar> < (10::int) ^ (num_buff_size - 1)"
  unfolding num_buff_pred by (erule less_le_trans) (rule exp10_mono, simp)

lemma pad_digits_get_str:
  "0 \<le> v \<Longrightarrow> length (mpz_get_str10 v) \<le> k \<Longrightarrow>
   replicate (k - length (mpz_get_str10 v)) chr_0 @ mpz_get_str10 v = pad_digits k v"
proof (rule dec_val_inj)
  assume v: "0 \<le> v" and k: "length (mpz_get_str10 v) \<le> k"
  have "v < 10 ^ length (mpz_get_str10 v)"
    using dec_val_less [of "mpz_get_str10 v"] v by (simp add: dec_val_get_str)
  then have "v < 10 ^ k" using k exp10_mono [of "length (mpz_get_str10 v)" k] by linarith
  then show "dec_val (replicate (k - length (mpz_get_str10 v)) chr_0 @ mpz_get_str10 v) = dec_val (pad_digits k v)"
    using v by (simp add: dec_val_append dec_val_get_str dec_val_pad)
qed simp_all

lemma drop_pad_digits: "k \<le> m \<Longrightarrow> drop (m - k) (pad_digits m v) = pad_digits k v"
proof (induction m arbitrary: k v)
  case (Suc m)
  show ?case
  proof (cases k)
    case (Suc j)
    then show ?thesis using Suc.IH [of j "v div 10"] Suc.prems by simp
  qed simp
qed simp

lemma get_display_value:
  fixes R :: cob_rt
  assumes wf: "wf_field f" and t: "field_type f = COB_TYPE_NUMERIC_DISPLAY"
    and room: "\<bar>dvalue d\<bar> < 10 ^ 2047"
  defines "fits \<equiv> \<bar>dvalue d\<bar> < 10 ^ data_size f"
    and "R1 \<equiv> cob_set_exception R COB_EC_SIZE_OVERFLOW"
  shows "\<not> fits \<Longrightarrow> opt_set opt COB_STORE_KEEP_ON_OVERFLOW \<Longrightarrow>
      cob_decimal_get_display R M d f opt = Some (exception_code R1, R1, f)"
    and "fits \<or> \<not> opt_set opt COB_STORE_KEEP_ON_OVERFLOW \<Longrightarrow>
      \<exists>g. cob_decimal_get_display R M d f opt = Some (0, if fits then R else R1, g) \<and>
        sign_of M g (sign_result f (sgn (dvalue d))) (pad_digits (data_size f) \<bar>dvalue d\<bar>) \<and>
        fattr g = fattr f \<and> fsize g = fsize f"
proof -
  let ?v = "\<bar>dvalue d\<bar>" let ?s = "mpz_get_str10 \<bar>dvalue d\<bar>"
  have b: "\<not> num_buff_size \<le> length ?s"
    using get_str_fits [OF _ room] by (simp add: num_buff_size_def)
  have pos: "0 < data_size f" using wf by (simp add: wf_field_def)
  have len: "data_size f < length ?s \<longleftrightarrow> \<not> fits"
  proof (cases fits)
    case True
    then show ?thesis using get_str_fits [of ?v "data_size f"] pos by (simp add: fits_def)
  next
    case False
    then show ?thesis using get_str_overflows [of ?v "data_size f"] by (simp add: fits_def)
  qed
  show "\<not> fits \<Longrightarrow> opt_set opt COB_STORE_KEEP_ON_OVERFLOW \<Longrightarrow>
      cob_decimal_get_display R M d f opt = Some (exception_code R1, R1, f)"
    using b len by (simp add: cob_decimal_get_display_def Let_def R1_def)
  have put: "\<exists>g. cob_put_sign M (put_bytes f (pad_digits (data_size f) ?v)) (sgn (dvalue d)) = Some g \<and>
        sign_of M g (sign_result f (sgn (dvalue d))) (pad_digits (data_size f) ?v) \<and>
        fattr g = fattr f \<and> fsize g = fsize f"
    by (rule store_digits [OF wf t]) simp_all
  have digs: "(if data_size f < length ?s then drop (length ?s - data_size f) ?s
      else replicate (data_size f - length ?s) chr_0 @ ?s) = pad_digits (data_size f) ?v"
  proof (cases "data_size f < length ?s")
    case True
    then show ?thesis
      using drop_pad_digits [of "data_size f" "length ?s" ?v]
      unfolding if_P [OF True] by (simp add: mpz_get_str10_def)
  next
    case False
    then show ?thesis
      unfolding if_not_P [OF False] by (intro pad_digits_get_str) simp_all
  qed
  show "fits \<or> \<not> opt_set opt COB_STORE_KEEP_ON_OVERFLOW \<Longrightarrow>
      \<exists>g. cob_decimal_get_display R M d f opt = Some (0, if fits then R else R1, g) \<and>
        sign_of M g (sign_result f (sgn (dvalue d))) (pad_digits (data_size f) ?v) \<and>
        fattr g = fattr f \<and> fsize g = fsize f"
  proof -
    assume c: "fits \<or> \<not> opt_set opt COB_STORE_KEEP_ON_OVERFLOW"
    obtain g where g: "cob_put_sign M (put_bytes f (pad_digits (data_size f) ?v)) (sgn (dvalue d)) = Some g"
      "sign_of M g (sign_result f (sgn (dvalue d))) (pad_digits (data_size f) ?v)"
      "fattr g = fattr f" "fsize g = fsize f" using put by auto
    have "cob_decimal_get_display R M d f opt = Some (0, if fits then R else R1, g)"
    proof (cases fits)
      case True
      then have nl: "\<not> data_size f < length ?s" using len by simp
      note ps = digs [unfolded if_not_P [OF nl]]
      show ?thesis
        unfolding cob_decimal_get_display_def Let_def if_not_P [OF b] if_not_P [OF nl] ps g(1) if_P [OF True]
        by simp
    next
      case False
      then have l: "data_size f < length ?s" and k: "\<not> opt_set opt COB_STORE_KEEP_ON_OVERFLOW"
        using len c by simp_all
      note ps = digs [unfolded if_P [OF l]]
      show ?thesis
        unfolding cob_decimal_get_display_def Let_def if_not_P [OF b] if_P [OF l] if_not_P [OF k] ps g(1)
          if_not_P [OF False] R1_def
        by simp
    qed
    with g show ?thesis by blast
  qed
qed

section \<open>Adding an integer in place\<close>

lemma scale_up_exact: "\<bar>n * 10 ^ k\<bar> < 2 ^ 63 \<Longrightarrow> scale_up k n = n * 10 ^ k"
proof (induction k arbitrary: n)
  case (Suc k)
  have "\<bar>n * 10\<bar> * 1 \<le> \<bar>n * 10\<bar> * 10 ^ k" by (rule mult_left_mono) simp_all
  also have "\<dots> = \<bar>n * 10 ^ Suc k\<bar>" by (simp add: abs_mult)
  finally have "\<bar>n * 10\<bar> < 2 ^ 63" using Suc.prems by simp
  then have "i64 (n * 10) = n * 10" by (intro i64_id) (simp_all add: abs_less_iff)
  then show ?case using Suc.IH [of "n * 10"] Suc.prems by (simp add: algebra_simps)
qed simp

lemma cob_d2i_complement:
  "isdigit b \<Longrightarrow> cob_d2i (cob_i2d (9 - cob_d2i b)) = 9 - cob_d2i b \<and> isdigit (cob_i2d (9 - cob_d2i b))"
  using isdigit_d2i [of b] by (simp add: d2i_i2d isdigit_i2d)

lemma nines_complement:
  "all_digits ds \<Longrightarrow> all_digits (map (\<lambda>b. cob_i2d (9 - cob_d2i b)) ds) \<and>
   dec_val (map (\<lambda>b. cob_i2d (9 - cob_d2i b)) ds) = 10 ^ length ds - 1 - dec_val ds"
  by (induction ds) (auto simp: dec_val_Cons cob_d2i_complement algebra_simps)

text \<open>
  The complement step of \<open>cob_display_add_int\<close>: after a borrow out of the first digit, nines'
  complement plus one gives the magnitude of the (negative) difference.
\<close>

lemma borrow_complement:
  fixes M :: cob_module
  assumes ds: "all_digits ds" "0 \<le> n" "dec_val ds < n" "n - dec_val ds < 10 ^ length ds"
    and sub: "display_sub_int ds n = (r, ys)"
  defines "zs \<equiv> snd (display_add_int M (map (\<lambda>b. cob_i2d (9 - cob_d2i b)) ys) 1)"
  shows "r = 1" "all_digits zs" "length zs = length ds" "dec_val zs = n - dec_val ds"
proof -
  note y = display_sub_int_val [OF ds(1,2) sub]
  show "r = 1" using y(4) ds(3) by simp
  let ?E = "(10::int) ^ length ds"
  let ?c = "map (\<lambda>b. cob_i2d (9 - cob_d2i b)) ys"
  have yv: "dec_val ys = ?E - (n - dec_val ds)"
  proof -
    have "(dec_val ds - n + ?E) mod ?E = dec_val ds - n + ?E"
      using ds by (intro mod_pos_pos_trivial) simp_all
    then show ?thesis using y(3) by simp
  qed
  have c: "all_digits ?c" "dec_val ?c + 1 = n - dec_val ds" "length ?c = length ds"
    using nines_complement [OF y(2)] y(1) yv by simp_all
  obtain r' where z: "display_add_int M ?c 1 = (r', zs)"
    by (simp add: zs_def prod_eq_iff)
  from display_add_int_val [OF c(1) _ z] c ds
  show "all_digits zs" "length zs = length ds" "dec_val zs = n - dec_val ds"
    by simp_all
qed

text \<open>The signed addend as the operation sees it: negated for a negative item, scaled.\<close>

definition addend :: "int \<Rightarrow> int \<Rightarrow> nat \<Rightarrow> int" where
  "addend s n k = (if s < 0 then - n else n) * 10 ^ k"

lemma display_add_int_core:
  fixes n :: int
  assumes wf: "wf_field f" and t: "field_type f = COB_TYPE_NUMERIC_DISPLAY"
    and s: "sign_of M f s ds" "all_digits ds" "length ds \<le> 64"
    and sc: "0 \<le> field_scale f" "\<bar>n * 10 ^ nat (field_scale f)\<bar> < 2 ^ 63"
  defines "w \<equiv> addend s n (nat (field_scale f))"
  shows "\<bar>dec_val ds + w\<bar> < 10 ^ length ds \<Longrightarrow>
      \<exists>g. cob_display_add_int R M f n = Some (0, R, g) \<and>
        sign_of M g (sign_result f (if dec_val ds + w < 0 then - s else s))
          (pad_digits (length ds) \<bar>dec_val ds + w\<bar>) \<and> fattr g = fattr f \<and> fsize g = fsize f"
    and "10 ^ length ds \<le> dec_val ds + w \<Longrightarrow> flag_binary_truncate M \<Longrightarrow>
      \<exists>g. cob_display_add_int R M f n = Some (0x1004, cob_set_exception R COB_EC_SIZE_OVERFLOW, g) \<and>
        sign_of M g (sign_result f s) ds \<and> fattr g = fattr f \<and> fsize g = fsize f"
    and "10 ^ length ds \<le> dec_val ds + w \<Longrightarrow> \<not> flag_binary_truncate M \<Longrightarrow>
      \<exists>g. cob_display_add_int R M f n = Some (0, R, g) \<and>
        sign_of M g (sign_result f s) (pad_digits (length ds) (dec_val ds + w)) \<and>
        fattr g = fattr f \<and> fsize g = fsize f"
proof -
  obtain g where g: "cob_get_sign M f = Some (s, g)" "field_bytes g = ds" using s(1) by (auto simp: sign_of_def)
  note gw = get_sign_wf [OF g(1) wf]
  have len: "length ds = data_size f" using s wf by (simp add: sign_of_length)
  have put: "\<exists>h. cob_put_sign M (put_bytes g es) u = Some h \<and> sign_of M h (sign_result f u) es \<and>
    fattr h = fattr f \<and> fsize h = fsize f" if "all_digits es" "length es = length ds" for es u
    using put_sign_again [OF g(1) wf t that(1)] that(2) len by simp
  have put0: "\<exists>h. cob_put_sign M g u = Some h \<and> sign_of M h (sign_result f u) ds \<and>
    fattr h = fattr f \<and> fsize h = fsize f" for u
    using put [of ds u] s(2) put_field_bytes [OF gw(1)] g(2) by simp
  have d: "0 \<le> dec_val ds" "dec_val ds < 10 ^ length ds"
    using s(2) by (simp_all add: dec_val_nonneg dec_val_less)
  have w: "scale_up (nat (field_scale f)) (if s < 0 then - n else n) = w"
    using scale_up_exact [of n "nat (field_scale f)"] scale_up_exact [of "- n" "nat (field_scale f)"] sc
    by (simp add: w_def addend_def)
  have pd: "all_digits es \<Longrightarrow> length es = length ds \<Longrightarrow> dec_val es = v \<Longrightarrow> es = pad_digits (length ds) v" for es v
    using pad_digits_dec_val [of es] by simp
  have run: "cob_display_add_int R M f n =
     (if w > 0 then
         let (r, data') = display_add_int M ds w in
         if r \<noteq> 0 then do {
           f \<leftarrow> cob_put_sign M g s;
           let R = cob_set_exception R COB_EC_SIZE_OVERFLOW;
           Some (exception_code R, R, f) }
         else do { f \<leftarrow> cob_put_sign M (put_bytes g data') s; Some (0, R, f) }
       else if w < 0 then
         let (r, data') = display_sub_int ds (- w) in
         if r \<noteq> 0 then do {
           let data' = map (\<lambda>b. cob_i2d (9 - cob_d2i b)) data';
           let data' = snd (display_add_int M data' 1);
           f \<leftarrow> cob_put_sign M (put_bytes g data') (- s);
           Some (0, R, f) }
         else do { f \<leftarrow> cob_put_sign M (put_bytes g data') s; Some (0, R, f) }
       else do { f \<leftarrow> cob_put_sign M g s; Some (0, R, f) })"
    using s(3) sc(1) gw(4) by (simp add: cob_display_add_int_def g Let_def w)
  { assume fit: "\<bar>dec_val ds + w\<bar> < 10 ^ length ds"
    consider "w > 0" | "w = 0" | "w < 0" by linarith
    then show "\<exists>g. cob_display_add_int R M f n = Some (0, R, g) \<and>
        sign_of M g (sign_result f (if dec_val ds + w < 0 then - s else s))
          (pad_digits (length ds) \<bar>dec_val ds + w\<bar>) \<and> fattr g = fattr f \<and> fsize g = fsize f"
    proof cases
      case 1
      obtain r ys where a: "display_add_int M ds w = (r, ys)" by fastforce
      from 1 have "0 \<le> w" by simp
      note v = display_add_int_val [OF s(2) this a]
      have "r = 0" "dec_val ys = \<bar>dec_val ds + w\<bar>" using v fit d 1 by (simp_all add: overflow_flag_def)
      with put [OF v(2,1), of s] pd [OF v(2,1)] 1 d show ?thesis by (auto simp: run a)
    next
      case 2
      with put0 [of s] pd [of ds] s(2) d show ?thesis by (auto simp: run)
    next
      case 3
      obtain r ys where a: "display_sub_int ds (- w) = (r, ys)" by fastforce
      from 3 have nn: "0 \<le> - w" by simp
      note v = display_sub_int_val [OF s(2) nn a]
      show ?thesis
      proof (cases "dec_val ds + w < 0")
        case True
        then have lt: "dec_val ds < - w" "- w - dec_val ds < 10 ^ length ds" using fit by simp_all
        note b1 = borrow_complement(1) [OF s(2) nn lt a]
        note b = borrow_complement(2-4) [where M = M, OF s(2) nn lt a]
        from put [OF b(1,2), of "- s"] pd [OF b(1,2), of "\<bar>dec_val ds + w\<bar>"] b1 b(3) 3 True show ?thesis
          by (auto simp: run a)
      next
        case False
        then have "r = 0" "dec_val ys = \<bar>dec_val ds + w\<bar>" using v d 3 by simp_all
        with put [OF v(2,1), of s] pd [OF v(2,1)] 3 False show ?thesis by (auto simp: run a)
      qed
    qed
  }
  { assume over: "10 ^ length ds \<le> dec_val ds + w"
    then have wp: "0 < w" "0 \<le> w" using d by linarith+
    obtain r ys where a: "display_add_int M ds w = (r, ys)" by fastforce
    note v = display_add_int_val [OF s(2) wp(2) a]
    { assume "flag_binary_truncate M"
      then have "r = 1" using v over by (simp add: overflow_flag_def)
      with put0 [of s] wp show "\<exists>g. cob_display_add_int R M f n = Some (0x1004, cob_set_exception R COB_EC_SIZE_OVERFLOW, g) \<and>
        sign_of M g (sign_result f s) ds \<and> fattr g = fattr f \<and> fsize g = fsize f"
        by (auto simp: run a exception_code_size_overflow) }
    { assume "\<not> flag_binary_truncate M"
      then have r: "r = 0" "ys = pad_digits (length ds) (dec_val ds + w)"
        using v pd [OF v(2,1,3)] by (simp_all add: overflow_flag_def pad_digits_mod)
      with put [OF v(2,1), of s] wp show "\<exists>g. cob_display_add_int R M f n = Some (0, R, g) \<and>
        sign_of M g (sign_result f s) (pad_digits (length ds) (dec_val ds + w)) \<and>
        fattr g = fattr f \<and> fsize g = fsize f"
        by (auto simp: run a) } }
qed

section \<open>The compares of digit strings\<close>

lemma cmp_numdisp_val:
  assumes "all_digits ds"
  shows "length ds \<le> 9 \<Longrightarrow> cob_cmp_numdisp ds n = cmp3 (dec_val ds) n"
    and "length ds \<le> 18 \<Longrightarrow> cob_cmp_long_numdisp ds n = cmp3 (dec_val ds) n"
    and "length ds \<le> 9 \<Longrightarrow> cob_get_numdisp ds = dec_val ds"
  using acc_small [OF assms]
  by (simp_all add: cob_cmp_numdisp_def cob_cmp_long_numdisp_def cob_get_numdisp_def)

text \<open>
  A stored item with a trailing overpunched sign: the digits before the last, and the last
  digit with the sign on it.
\<close>

lemma cob_get_ebcdic_sign_put:
  "isdigit d \<Longrightarrow> cob_get_ebcdic_sign (cob_put_sign_ebcdic s d) v = (s < 0, v + cob_d2i d)"
  by (drule isdigit_cases) (auto simp: cob_get_ebcdic_sign_def cob_put_sign_ebcdic_def cob_d2i_def)

lemma sign_numdisp_put:
  "isdigit d \<Longrightarrow> sign_numdisp M (zoned_put (display_sign M) s d) v =
     (if s < 0 then - (v + cob_d2i d) else v + cob_d2i d)"
proof -
  assume d: "isdigit d"
  have "cob_put_sign_ebcdic s d < chr_0 \<or> chr_9 < cob_put_sign_ebcdic s d"
    using isdigit_cases [OF d] by (auto simp: cob_put_sign_ebcdic_def)
  then have e: "\<not> (chr_0 \<le> cob_put_sign_ebcdic s d \<and> cob_put_sign_ebcdic s d \<le> chr_9)"
    by (simp add: not_le)
  show ?thesis
  proof (cases "display_sign M")
    case True
    then have "zoned_put (display_sign M) s d = cob_put_sign_ebcdic s d" by (simp add: zoned_put_def)
    with True show ?thesis
      by (simp only: sign_numdisp_def if_not_P [OF e] if_True cob_get_ebcdic_sign_put [OF d] prod.case Let_def)
  next
    case False
    then show ?thesis
      using isdigit_cases [OF d] by (auto simp: sign_numdisp_def zoned_put_def cob_d2i_def)
  qed
qed

lemma cmp_sign_numdisp_val:
  fixes M :: cob_module and s :: int
  assumes "all_digits ds" "isdigit d"
  defines "data \<equiv> ds @ [zoned_put (display_sign M) s d]"
  shows "length data \<le> 9 \<Longrightarrow> cob_cmp_sign_numdisp M data n = Some (cmp3 (signed_val s (ds @ [d])) n)"
    and "length data \<le> 18 \<Longrightarrow> cob_cmp_long_sign_numdisp M data n = Some (cmp3 (signed_val s (ds @ [d])) n)"
proof -
  have v: "dec_val (ds @ [d]) = dec_val ds * 10 + cob_d2i d" by (simp add: dec_val_snoc)
  have b: "0 \<le> dec_val ds" "0 \<le> cob_d2i d" "cob_d2i d \<le> 9"
    using assms by (simp_all add: dec_val_nonneg isdigit_d2i)
  { assume l: "length data \<le> 9"
    then have "dec_val (ds @ [d]) < 10 ^ 9" using assms by (intro dec_val_small) simp_all
    then have "i32 (dec_val ds * 10) = dec_val ds * 10" "i32 (dec_val (ds @ [d])) = dec_val (ds @ [d])"
      "i32 (- dec_val (ds @ [d])) = - dec_val (ds @ [d])"
      using v b by (intro i32_id; simp)+
    moreover have "i32_acc 0 ds = dec_val ds" using l assms by (intro acc_small) (simp_all add: data_def)
    ultimately show "cob_cmp_sign_numdisp M data n = Some (cmp3 (signed_val s (ds @ [d])) n)"
      using assms(2) by (simp add: data_def cob_cmp_sign_numdisp_def sign_numdisp_put v signed_val_def) }
  { assume l: "length data \<le> 18"
    then have "dec_val (ds @ [d]) < 10 ^ 18" using assms by (intro dec_val_small) simp_all
    then have "i64 (dec_val ds * 10) = dec_val ds * 10" "i64 (dec_val (ds @ [d])) = dec_val (ds @ [d])"
      "i64 (- dec_val (ds @ [d])) = - dec_val (ds @ [d])"
      using v b by (intro i64_id; simp)+
    moreover have "i64_acc 0 ds = dec_val ds" using l assms by (intro acc_small) (simp_all add: data_def)
    ultimately show "cob_cmp_long_sign_numdisp M data n = Some (cmp3 (signed_val s (ds @ [d])) n)"
      using assms(2) by (simp add: data_def cob_cmp_long_sign_numdisp_def sign_numdisp_put v signed_val_def) }
qed

section \<open>Stored and loaded again\<close>

lemma put_sign_first_byte:
  assumes wf: "wf_field f" and t: "field_type f = COB_TYPE_NUMERIC_DISPLAY" and d: "all_digits (field_bytes f)"
    and p: "cob_put_sign M f s = Some h"
  shows "fdata h ! data_off h \<notin> {0, 255}"
proof -
  have pos: "0 < data_size f" "data_off f < length (fdata f)"
    using wf data_room [OF wf] by (auto simp: wf_field_def fsize_def)
  have "fdata f ! data_off f = field_bytes f ! 0"
    using pos by (simp add: field_bytes_def)
  then have dig: "isdigit (fdata f ! data_off f)"
    using d pos length_field_bytes [OF wf] by (simp add: all_digits_nth)
  have "h = f \<or> (\<exists>b. h = set_data f ((fdata f)[sign_pos f := b]) \<and>
     (sign_pos f = data_off f \<longrightarrow> b = zoned_put (display_sign M) s (fdata f ! data_off f)))"
  proof (cases "have_sign f")
    case True
    have "sign_pos f \<noteq> data_off f" if "sign_separate f"
      using that pos wf by (auto simp: sign_pos_def data_off_def data_size_def fsize_def)
    then show ?thesis
      using p t sign_pos_room [OF wf] True
      by (intro disjI2) (auto simp: cob_put_sign_def cob_real_put_sign_def rd_def wr_def Let_def split: if_splits)
  qed (use p in \<open>simp add: cob_put_sign_def\<close>)
  moreover have "zoned_put e s c \<notin> {0, 255}" "c \<notin> {0, 255}" if "isdigit c" for e c
    using isdigit_cases [OF that] by (auto simp: zoned_put_def cob_put_sign_ebcdic_def)
  moreover have "data_off h = data_off f"
    using cob_put_sign_frame(1) [OF p] by (simp add: data_off_def sign_separate_def sign_leading_def)
  ultimately show ?thesis using dig pos by (elim disjE exE conjE; cases "sign_pos f = data_off f") simp_all
qed

lemma display_store_load_core:
  fixes R :: cob_rt
  assumes wf: "wf_field f" and t: "field_type f = COB_TYPE_NUMERIC_DISPLAY" and sg: "have_sign f"
    and v: "\<bar>v\<bar> < 10 ^ data_size f" and sz: "data_size f < 2048"
  shows "\<exists>g h. cob_decimal_get_display R M (mkdec v (field_scale f)) f opt = Some (0, R, g) \<and>
    cob_decimal_set_display M d g = Some (mkdec v (field_scale f), h) \<and> fattr h = fattr f \<and> fsize h = fsize f"
proof -
  let ?ds = "pad_digits (data_size f) \<bar>v\<bar>" let ?s = "mpz_get_str10 \<bar>v\<bar>"
  have ds0: "0 < data_size f" using wf by (simp add: wf_field_def)
  have room: "\<bar>dvalue (mkdec v (field_scale f))\<bar> < 10 ^ 2047" unfolding mkdec_sel by (rule less_le_trans [OF v exp10_mono]) (use sz in simp)
  from get_display_value(2) [OF wf t room, of opt R M] v obtain g where
    g: "cob_decimal_get_display R M (mkdec v (field_scale f)) f opt = Some (0, R, g)"
      "sign_of M g (sign_result f (sgn v)) ?ds" "fattr g = fattr f" "fsize g = fsize f" by auto
  have same: "wf_field g" "field_type g = COB_TYPE_NUMERIC_DISPLAY" "sign_result g (sign_result f (sgn v)) = sign_result f (sgn v)"
    "field_scale g = field_scale f"
    using wf t g(3,4) by (simp_all add: wf_field_def field_sel data_size_def sign_result_def)
  have sv: "signed_val (sign_result f (sgn v)) ?ds = v"
    using v sg by (auto simp: signed_val_def sign_result_def dec_val_pad sgn_if)
  have l: "length ?s \<le> data_size f"
    using get_str_fits [of "\<bar>v\<bar>" "data_size f"] v ds0 by simp
  then have l2: "\<not> 2048 \<le> length ?s" using sz by linarith
  let ?b = "replicate (data_size f - length ?s) chr_0 @ ?s"
  have p: "cob_put_sign M (put_bytes f ?b) (sgn v) = Some g"
    using g(1) l l2 by (simp add: cob_decimal_get_display_def num_buff_size_def bind_eq_Some_conv Let_def)
  have b: "all_digits ?b" "length ?b = data_size f" using l by simp_all
  have "wf_field (put_bytes f ?b)" using wf put_bytes_sel [OF wf b(2)] by (simp add: wf_field_def put_bytes_set_data)
  from put_sign_first_byte [OF this _ _ p] t b put_bytes_sel [OF wf b(2)]
  have lo: "fdata g ! data_off g \<notin> {0, 255}" by (simp add: put_bytes_set_data)
  show ?thesis
    using set_display_value [OF same(1,2) g(2) _ _ lo, of d] sz g same sv by (auto simp: num_buff_size_def)
qed

end
