(* ===== verification/Cob_Packed.thy ===== *)
theory Cob_Packed
  imports Cob_Display
begin

text \<open>
  PACKED-DECIMAL items (COMP-3): two digits to a byte, the low half of the last byte holds the
  sign (0xD negative, 0xC positive, 0xF unsigned). From numeric.c: the sign, the load into and
  the store from a decimal, the in-place addition with its tens' complement step, the setting
  to zero or to an int, and \<open>cob_cmp_packed\<close> with the packed comparand it caches between
  calls. From codegen.h: the inlined get, compare and add for items of up to nine digits.

  The pair of pointer and flag (\<open>p\<close>, \<open>msn\<close>) that walks the digits in the source is the index
  of a half byte here: \<open>2 * i\<close> is the high half of byte \<open>i\<close>, \<open>2 * i + 1\<close> its low half.
\<close>

section \<open>Half bytes\<close>

definition get_nib :: "bytes \<Rightarrow> nat \<Rightarrow> int option" where
  "get_nib p j = do {
     b \<leftarrow> rd p (j div 2);
     Some (uint (if even j then drop_bit 4 (b AND 0xf0) else b AND 0x0f)) }"

definition set_nib :: "bytes \<Rightarrow> nat \<Rightarrow> int \<Rightarrow> bytes option" where
  "set_nib p j t = do {
     b \<leftarrow> rd p (j div 2);
     wr p (j div 2) (if even j then (b AND 0x0f) OR word_of_int (t * 16)
                     else (b AND 0xf0) OR word_of_int t) }"

definition packed_bytes :: "u8 list" where
  "packed_bytes =
    [0x00, 0x01, 0x02, 0x03, 0x04, 0x05, 0x06, 0x07, 0x08, 0x09,
     0x10, 0x11, 0x12, 0x13, 0x14, 0x15, 0x16, 0x17, 0x18, 0x19,
     0x20, 0x21, 0x22, 0x23, 0x24, 0x25, 0x26, 0x27, 0x28, 0x29,
     0x30, 0x31, 0x32, 0x33, 0x34, 0x35, 0x36, 0x37, 0x38, 0x39,
     0x40, 0x41, 0x42, 0x43, 0x44, 0x45, 0x46, 0x47, 0x48, 0x49,
     0x50, 0x51, 0x52, 0x53, 0x54, 0x55, 0x56, 0x57, 0x58, 0x59,
     0x60, 0x61, 0x62, 0x63, 0x64, 0x65, 0x66, 0x67, 0x68, 0x69,
     0x70, 0x71, 0x72, 0x73, 0x74, 0x75, 0x76, 0x77, 0x78, 0x79,
     0x80, 0x81, 0x82, 0x83, 0x84, 0x85, 0x86, 0x87, 0x88, 0x89,
     0x90, 0x91, 0x92, 0x93, 0x94, 0x95, 0x96, 0x97, 0x98, 0x99]"

section \<open>The operations\<close>

definition cob_packed_get_sign :: "cob_field \<Rightarrow> int option" where
  "cob_packed_get_sign f =
    (if \<not> have_sign f then Some 0
     else do { b \<leftarrow> rd (fdata f) (fsize f - 1); Some (if b AND 0x0f = 0x0d then -1 else 1) })"

definition empty_digit :: "cob_field \<Rightarrow> nat" where
  "empty_digit f = 1 - field_digits f mod 2"

fun complement_loop :: "nat \<Rightarrow> nat \<Rightarrow> int \<Rightarrow> bytes \<Rightarrow> bytes option" where
  "complement_loop e 0 carry p = Some p"
| "complement_loop e (Suc k) carry p = do {
     t \<leftarrow> get_nib p (k + e);
     let t = t + carry;
     p \<leftarrow> set_nib p (k + e) (if t > 0 then 10 - t else t);
     complement_loop e k (if t > 0 then 1 else 0) p }"

definition cob_complement_packed :: "cob_field \<Rightarrow> cob_field option" where
  "cob_complement_packed f = do {
     p \<leftarrow> complement_loop (empty_digit f) (field_digits f) 0 (fdata f);
     Some (set_data f p) }"

fun add_packed_loop :: "bool \<Rightarrow> nat \<Rightarrow> nat \<Rightarrow> int \<Rightarrow> int \<Rightarrow> nat \<Rightarrow> bytes \<Rightarrow> (int \<times> nat \<times> bytes) option" where
  "add_packed_loop subtr e 0 val carry zeroes p = Some (carry, zeroes, p)"
| "add_packed_loop subtr e (Suc k) val carry zeroes p = do {
     t \<leftarrow> get_nib p (k + e);
     let carry = carry + (if val \<noteq> 0 then val smod 10 else 0);
     let val = (if val \<noteq> 0 then val sdiv 10 else val);
     let (t, carry) =
       (if subtr then if t - carry < 0 then (t - carry + 10, 1) else (t - carry, 0)
        else if t + carry > 9 then ((t + carry) smod 10, 1) else (t + carry, 0));
     p \<leftarrow> set_nib p (k + e) t;
     add_packed_loop subtr e k val carry (if t = 0 then Suc zeroes else zeroes) p }"

definition set_sign_nib :: "cob_field \<Rightarrow> u8 \<Rightarrow> cob_field option" where
  "set_sign_nib f s = do {
     b \<leftarrow> rd (fdata f) (fsize f - 1);
     p \<leftarrow> wr (fdata f) (fsize f - 1) ((b AND 0xf0) OR s);
     Some (set_data f p) }"

definition cob_add_packed :: "cob_field \<Rightarrow> int \<Rightarrow> cob_field option" where
  "cob_add_packed f ival = (
     let val = scale_up (nat (field_scale f)) ival in
     if field_digits f = 0 then Some f
     else do {
       sign \<leftarrow> cob_packed_get_sign f;
       let val = (if sign < 0 then i64 (- val) else val);
       let subtr = (val < 0);
       let val = (if val < 0 then i64 (- val) else val);
       (carry, zeroes, p) \<leftarrow>
         add_packed_loop subtr (empty_digit f) (field_digits f) val 0 0 (fdata f);
       let f = set_data f p;
       if sign \<noteq> 0 then
         if field_digits f = zeroes then set_sign_nib f 0x0c
         else if subtr \<and> carry \<noteq> 0 then do {
           f \<leftarrow> cob_complement_packed f;
           set_sign_nib f (if - sign < 0 then 0x0d else 0x0c) }
         else Some f
       else if subtr \<and> carry \<noteq> 0 then cob_complement_packed f
       else Some f })"

text \<open>Loading: items of fewer than ten digits go through an \<open>unsigned int\<close>.\<close>

fun set_packed_int_loop :: "nat \<Rightarrow> bytes \<Rightarrow> int \<Rightarrow> int option" where
  "set_packed_int_loop digits [] val = None"
| "set_packed_int_loop digits (b # bs) val =
    (if digits > 1 then
       let val = (if val \<noteq> 0 then u32 (val * 100) else val);
           val = (if b \<noteq> 0 then u32 (val + uint (drop_bit 4 b) * 10 + uint (b AND 0x0f)) else val)
       in set_packed_int_loop (digits - 2) bs val
     else
       let val = (if val \<noteq> 0 then u32 (val * 10) else val)
       in Some (u32 (val + uint (drop_bit 4 b))))"

fun set_packed_mpz_loop :: "nat \<Rightarrow> bytes \<Rightarrow> bool \<Rightarrow> int \<Rightarrow> int option" where
  "set_packed_mpz_loop digits [] seen val = None"
| "set_packed_mpz_loop digits (b # bs) seen val =
    (if digits > 1 then
       let val = (if seen then val * 100 else val);
           val = (if b \<noteq> 0 then val + (uint (drop_bit 4 b) * 10 + uint (b AND 0x0f)) else val)
       in set_packed_mpz_loop (digits - 2) bs (seen \<or> b \<noteq> 0) val
     else
       let val = (if seen then val * 10 else val)
       in Some (val + uint (drop_bit 4 b)))"

definition cob_decimal_set_packed :: "cob_field \<Rightarrow> cob_decimal option" where
  "cob_decimal_set_packed f = do {
     sign \<leftarrow> cob_packed_get_sign f;
     b \<leftarrow> rd (fdata f) 0;
     let ev = even (field_digits f);
     let val = (if ev then uint (b AND 0x0f) else 0);
     let digits = (if ev then field_digits f - 1 else field_digits f);
     let p = (if ev then drop 1 (fdata f) else fdata f);
     v \<leftarrow> (if field_digits f < 10 then set_packed_int_loop digits p val
           else set_packed_mpz_loop digits p (val \<noteq> 0) val);
     Some (mkdec (if sign < 0 then - v else v) (field_scale f)) }"

text \<open>Storing: \<open>i\<close> counts half bytes from the start of the byte that takes the first digit.\<close>

fun put_packed :: "nat \<Rightarrow> bytes \<Rightarrow> nat \<Rightarrow> bytes \<Rightarrow> bytes option" where
  "put_packed i [] p buf = Some buf"
| "put_packed i (c # cs) p buf = (
     let x = word_of_int (cob_d2i c) in
     if even i then do {
       buf \<leftarrow> wr buf p (push_bit 4 x);
       put_packed (Suc i) cs p buf }
     else do {
       b \<leftarrow> rd buf p;
       buf \<leftarrow> wr buf p (b OR x);
       put_packed (Suc i) cs (Suc p) buf })"

definition packed_sign_code :: "cob_field \<Rightarrow> bool \<Rightarrow> u8" where
  "packed_sign_code f neg = (if \<not> have_sign f then 0x0f else if neg then 0x0d else 0x0c)"

definition cob_decimal_get_packed ::
  "cob_rt \<Rightarrow> cob_decimal \<Rightarrow> cob_field \<Rightarrow> u8 \<Rightarrow> (int \<times> cob_rt \<times> cob_field) option" where
  "cob_decimal_get_packed R d f opt = (
     let s = mpz_get_str10 \<bar>dvalue d\<bar>; digits = field_digits f;
         over = digits < length s;
         R = (if over then cob_set_exception R COB_EC_SIZE_OVERFLOW else R) in
     if num_buff_size \<le> length s then None
     else if over \<and> opt_set opt COB_STORE_KEEP_ON_OVERFLOW then Some (exception_code R, R, f)
     else do {
       let q = (if over then drop (length s - digits) s else s);
       p \<leftarrow> put_packed (1 - length q mod 2) q (digits div 2 - length q div 2) (replicate (fsize f) 0);
       f \<leftarrow> set_sign_nib (set_data f p) (packed_sign_code f (dvalue d < 0));
       Some (0, R, f) })"

definition cob_set_packed_zero :: "cob_field \<Rightarrow> cob_field option" where
  "cob_set_packed_zero f = do {
     p \<leftarrow> wr (replicate (fsize f) 0) (fsize f - 1) (packed_sign_code f False);
     Some (set_data f p) }"

text \<open>
  \<open>set_int_pairs i n\<close> fills the bytes below index \<open>i\<close> from right to left, two digits each;
  digits that do not fit are dropped (\<open>p >= f->data\<close>).
\<close>

fun set_int_pairs :: "nat \<Rightarrow> int \<Rightarrow> bytes \<Rightarrow> bytes option" where
  "set_int_pairs 0 n buf = Some buf"
| "set_int_pairs (Suc i) n buf =
    (if n = 0 then Some buf
     else if n smod 100 < 0 then None
     else do {
       buf \<leftarrow> wr buf i (packed_bytes ! nat (n smod 100));
       set_int_pairs i (n sdiv 100) buf })"

definition cob_set_packed_int :: "cob_field \<Rightarrow> int \<Rightarrow> cob_field option" where
  "cob_set_packed_int f val = (
     let n = (if val < 0 then i32 (- val) else val) in do {
       p \<leftarrow> wr (replicate (fsize f) 0) (fsize f - 1)
             (word_of_int ((n smod 10) * 16) OR packed_sign_code f (val < 0));
       p \<leftarrow> set_int_pairs (fsize f - 1) (n sdiv 10) p;
       b \<leftarrow> rd p 0;
       Some (set_data f (if even (field_digits f) then p[0 := b AND 0x0f] else p)) })"

section \<open>Compare, with the cached comparand\<close>

record packed_cache =
  packed_value :: bytes
  packed_lastval :: int

definition packed_cache_init :: packed_cache where
  "packed_cache_init = \<lparr>packed_value = replicate 20 0, packed_lastval = 0\<rparr>"

fun pack_pairs :: "nat \<Rightarrow> int \<Rightarrow> bytes \<Rightarrow> bytes option" where
  "pack_pairs 0 n buf = (if n = 0 then Some buf else None)"
| "pack_pairs (Suc i) n buf =
    (if n = 0 then Some buf
     else do {
       let size = u64 (n smod 100);
       buf \<leftarrow> wr buf i (word_of_int ((size mod 10) OR ((size div 10) * 16)));
       pack_pairs i (n sdiv 100) buf })"

definition pack_comparand :: "bytes \<Rightarrow> int \<Rightarrow> bytes option" where
  "pack_comparand buf n =
    (let n = (if n < 0 then i32 (- n) else n);
         buf = take 14 buf @ replicate 6 0 in
     if n = 0 then Some buf
     else do {
       buf \<leftarrow> wr buf 19 (word_of_int ((n smod 10) * 16));
       pack_pairs 19 (n sdiv 10) buf })"

fun packed_diff :: "int \<Rightarrow> bytes \<Rightarrow> bytes \<Rightarrow> int" where
  "packed_diff sign (x # xs) (y # ys) =
    (if x \<noteq> y then (if sign < 0 then uint y - uint x else uint x - uint y)
     else packed_diff sign xs ys)"
| "packed_diff sign _ _ = 0"

definition cob_cmp_packed :: "packed_cache \<Rightarrow> cob_field \<Rightarrow> int \<Rightarrow> (int \<times> packed_cache) option" where
  "cob_cmp_packed C f n = do {
     sign \<leftarrow> cob_packed_get_sign f;
     if sign \<ge> 0 \<and> n < 0 then Some (1, C)
     else if sign < 0 \<and> n \<ge> 0 then Some (-1, C)
     else do {
       let val1 = (if fsize f \<le> 20 then replicate (20 - fsize f) 0 @ fdata f else replicate 20 0);
       let val1 = val1[19 := val1 ! 19 AND 0xf0];
       val1 \<leftarrow> (if even (field_digits f) then
                  if fsize f \<le> 20 then do {
                    b \<leftarrow> rd val1 (20 - fsize f);
                    wr val1 (20 - fsize f) (b AND 0x0f) }
                  else None
                else Some val1);
       C \<leftarrow> (if n \<noteq> packed_lastval C then do {
               buf \<leftarrow> pack_comparand (packed_value C) n;
               Some \<lparr>packed_value = buf, packed_lastval = n\<rparr> }
             else Some C);
       Some (packed_diff sign val1 (packed_value C), C) } }"

section \<open>The inlined operations of codegen.h\<close>

fun packed_int_loop :: "int \<Rightarrow> bytes \<Rightarrow> int option" where
  "packed_int_loop val [] = None"
| "packed_int_loop val [b] =
    (let v = i32 (i32 (val * 10) + uint (drop_bit 4 b)) in
     Some (if b AND 0x0f = 0x0d then i32 (- v) else v))"
| "packed_int_loop val (b # bs) =
    packed_int_loop (i32 (i32 (i32 (i32 (val * 10) + uint (drop_bit 4 b)) * 10) + uint (b AND 0x0f))) bs"

definition cob_get_packed_int :: "cob_field \<Rightarrow> int option" where
  "cob_get_packed_int f = packed_int_loop 0 (fdata f)"

definition cob_cmp_packed_int :: "cob_field \<Rightarrow> int \<Rightarrow> int option" where
  "cob_cmp_packed_int f n = map_option (\<lambda>val. cmp3 val n) (cob_get_packed_int f)"

text \<open>
  \<open>add_pairs i\<close> adds into the bytes below index \<open>i\<close>, right to left. An addition that needs a
  subtraction is left to \<open>cob_add_int\<close>, which is the packed addition here.
\<close>

fun add_pairs :: "nat \<Rightarrow> int \<Rightarrow> int \<Rightarrow> bytes \<Rightarrow> bytes option" where
  "add_pairs 0 carry n p = Some p"
| "add_pairs (Suc i) carry n p =
    (if carry = 0 \<and> n = 0 then Some p
     else do {
       b \<leftarrow> rd p i;
       let inc = uint (drop_bit 4 b) * 10 + uint (b AND 0x0f) + carry + n smod 100;
       let c = inc smod 100;
       p \<leftarrow> wr p i (word_of_int (((c sdiv 10) * 16) OR (c smod 10)));
       add_pairs i (inc sdiv 100) (n sdiv 100) p })"

definition cob_add_packed_int :: "cob_field \<Rightarrow> int \<Rightarrow> (int \<times> cob_field) option" where
  "cob_add_packed_int f val =
    (if val = 0 then Some (0, f)
     else do {
       b \<leftarrow> rd (fdata f) (fsize f - 1);
       let neg = (b AND 0x0f = 0x0d);
       if (if neg then val > 0 else val < 0) then do { f \<leftarrow> cob_add_packed f val; Some (0, f) }
       else do {
         let n = (if neg then i32 (- val) else val);
         let inc = uint (drop_bit 4 b) + n smod 10;
         p \<leftarrow> wr (fdata f) (fsize f - 1) (word_of_int ((inc smod 10) * 16) OR (b AND 0x0f));
         p \<leftarrow> add_pairs (fsize f - 1) (inc sdiv 10) (n sdiv 10) p;
         Some (0, set_data f p) } })"

section \<open>Bytes as pairs of half bytes\<close>

lemma nibble_or: "0 \<le> l \<Longrightarrow> l < 16 \<Longrightarrow> 16 * h OR l = 16 * h + (l::int)"
proof -
  assume "0 \<le> l" "l < 16"
  then have l: "take_bit 4 l = l" by (simp add: take_bit_int_eq_self_iff)
  have "push_bit 4 h + take_bit 4 l = push_bit 4 h OR take_bit 4 l"
    by (rule disjunctive_add) (auto simp: bit_simps)
  then show ?thesis using l by (simp add: push_bit_eq_mult mult.commute)
qed

lemma byte_bounds: "0 \<le> uint (b :: u8)" "uint (b :: u8) < 256"
  using unsigned_less [of b] by simp_all

lemma high_nib: "uint (drop_bit 4 b) = uint (b :: u8) div 16"
  by (simp add: drop_bit_eq_div uint_div_distrib)

lemma low_nib: "uint ((b :: u8) AND 0x0f) = uint b mod 16"
proof -
  have "b AND 0x0f = take_bit 4 b"
    by (simp add: take_bit_eq_mask mask_eq_exp_minus_1)
  then show ?thesis by (simp add: take_bit_eq_mod uint_mod_distrib)
qed

lemma byte_range: "0 \<le> uint (b :: u8) div 16" "uint b div 16 < 16" "0 \<le> uint b mod 16" "uint b mod 16 < 16"
  using byte_bounds [of b] by (simp_all add: pos_imp_zdiv_nonneg_iff)

lemma high_nib': "uint (drop_bit 4 (b AND 0xf0)) = uint (b :: u8) div 16"
proof -
  have "drop_bit 4 (b AND 0xf0) = drop_bit 4 b AND 0x0f" by simp
  then have "uint (drop_bit 4 (b AND 0xf0)) = uint b div 16 mod 16" by (simp only: low_nib high_nib)
  also have "\<dots> = uint b div 16" by (intro mod_pos_pos_trivial byte_range)
  finally show ?thesis .
qed

lemma byte_make:
  assumes "0 \<le> h" "h < 16" "0 \<le> l" "l < 16"
  shows "uint (word_of_int (16 * h + l) :: u8) = 16 * h + l"
  using assms by (simp only: uint_word_of_int) simp

lemma set_high_nib:
  assumes "0 \<le> t" "t < 16"
  shows "uint ((b AND 0x0f) OR word_of_int (t * 16) :: u8) = 16 * t + uint b mod 16"
proof -
  have l: "0 \<le> uint b mod 16" "uint b mod 16 < 16" by simp_all
  have "uint (word_of_int (t * 16) :: u8) = 16 * t"
    using byte_make [OF assms, of 0] by (simp add: mult.commute)
  then have "uint ((b AND 0x0f) OR word_of_int (t * 16) :: u8) = uint b mod 16 OR 16 * t"
    by (simp only: uint_or low_nib)
  also have "\<dots> = 16 * t + uint b mod 16"
    using nibble_or [OF l, of t] by (simp add: or.commute)
  finally show ?thesis .
qed

lemma and_f0: "((b::int) AND 0xf0) = 16 * ((b div 16) mod 16)"
proof -
  have m: "(0xf0::int) = push_bit 4 (mask 4)" by (simp add: mask_eq_exp_minus_1 push_bit_eq_mult)
  have "b AND 0xf0 = push_bit 4 (take_bit 4 (drop_bit 4 b))"
    unfolding m by (rule bit_eqI) (auto simp: bit_simps)
  then show ?thesis by (simp add: push_bit_eq_mult take_bit_eq_mod drop_bit_eq_div mult.commute)
qed

lemma set_low_nib:
  assumes "0 \<le> t" "t < 16"
  shows "uint ((b AND 0xf0) OR word_of_int t :: u8) = 16 * (uint b div 16) + t"
proof -
  have "uint (b AND 0xf0) = uint b AND 0xf0" by (simp add: uint_and)
  moreover have "uint b div 16 mod 16 = uint b div 16"
    by (intro mod_pos_pos_trivial byte_range)
  ultimately have "uint (b AND 0xf0) = 16 * (uint b div 16)" by (simp only: and_f0)
  moreover have "uint (word_of_int t :: u8) = t" using assms byte_make [of 0 t] by simp
  ultimately show ?thesis
    using nibble_or [OF assms, of "uint b div 16"] by (simp only: uint_or)
qed

fun nibs :: "bytes \<Rightarrow> int list" where
  "nibs [] = []"
| "nibs (b # bs) = uint b div 16 # uint b mod 16 # nibs bs"

lemma length_nibs [simp]: "length (nibs p) = 2 * length p"
  by (induction p) simp_all

lemma nibs_append: "nibs (p @ q) = nibs p @ nibs q"
  by (induction p) simp_all

lemma nibs_nth: "i < length p \<Longrightarrow> nibs p ! (2 * i) = uint (p ! i) div 16 \<and> nibs p ! (2 * i + 1) = uint (p ! i) mod 16"
proof (induction p arbitrary: i)
  case (Cons b p)
  then show ?case by (cases i) simp_all
qed simp

lemma nibs_range: "j < 2 * length p \<Longrightarrow> 0 \<le> nibs p ! j \<and> nibs p ! j < 16"
proof -
  assume j: "j < 2 * length p"
  then have i: "j div 2 < length p" by simp
  have "j = 2 * (j div 2) \<or> j = 2 * (j div 2) + 1" by presburger
  then show ?thesis
    using nibs_nth [OF i] byte_range [of "p ! (j div 2)"] by metis
qed

lemma get_nib_eq: "j < 2 * length p \<Longrightarrow> get_nib p j = Some (nibs p ! j)"
proof -
  assume j: "j < 2 * length p"
  then have i: "j div 2 < length p" by simp
  show ?thesis
  proof (cases "even j")
    case True
    then have "j = 2 * (j div 2)" by presburger
    then have "nibs p ! j = uint (p ! (j div 2)) div 16" using nibs_nth [OF i] by metis
    then show ?thesis using i True by (simp only: get_nib_def rd_def if_True bind.bind_lunit high_nib')
  next
    case False
    then have "j = 2 * (j div 2) + 1" by presburger
    then have "nibs p ! j = uint (p ! (j div 2)) mod 16" using nibs_nth [OF i] by metis
    then show ?thesis using i False by (simp add: get_nib_def rd_def low_nib)
  qed
qed

lemma nibs_upd: "i < length p \<Longrightarrow>
   nibs (p[i := b]) = ((nibs p)[2 * i := uint b div 16])[2 * i + 1 := uint b mod 16]"
proof (induction p arbitrary: i)
  case (Cons c p)
  then show ?case by (cases i) simp_all
qed simp

lemma list_upd_pair: "i \<noteq> j \<Longrightarrow> xs[j := y] = xs \<Longrightarrow> xs[i := t, j := y] = xs[i := t]"
  by (metis list_update_swap)

lemma set_nib_eq:
  assumes "j < 2 * length p" "0 \<le> t" "t < 16"
  shows "\<exists>q. set_nib p j t = Some q \<and> length q = length p \<and> nibs q = (nibs p)[j := t]"
proof -
  have i: "j div 2 < length p" using assms by simp
  note n = nibs_nth [OF i]
  show ?thesis
  proof (cases "even j")
    case True
    then have j: "j = 2 * (j div 2)" by presburger
    have "(nibs p)[2 * (j div 2) + 1 := uint (p ! (j div 2)) mod 16] = nibs p"
      using n by (metis list_update_id)
    then have "nibs (p[j div 2 := (p ! (j div 2) AND 0x0f) OR word_of_int (t * 16)]) = (nibs p)[j := t]"
      using i assms j by (simp only: nibs_upd set_high_nib) (simp add: list_upd_pair)
    with i True show ?thesis by (simp add: set_nib_def rd_def wr_def)
  next
    case False
    then have j: "j = 2 * (j div 2) + 1" by presburger
    have "(nibs p)[2 * (j div 2) := uint (p ! (j div 2)) div 16] = nibs p"
      using n by (metis list_update_id)
    then have "nibs (p[j div 2 := (p ! (j div 2) AND 0xf0) OR word_of_int t]) = (nibs p)[j := t]"
      using i assms j by (simp only: nibs_upd set_low_nib) simp
    with i False show ?thesis by (simp add: set_nib_def rd_def wr_def)
  qed
qed

section \<open>Strings of decimal half bytes\<close>

definition dval :: "int list \<Rightarrow> int" where
  "dval ds = foldl (\<lambda>v d. v * 10 + d) 0 ds"

definition digs :: "int list \<Rightarrow> bool" where
  "digs ds \<longleftrightarrow> list_all (\<lambda>d. 0 \<le> d \<and> d \<le> 9) ds"

lemma dval_simps [simp]: "dval [] = 0" "dval (xs @ [d]) = dval xs * 10 + d"
  by (simp_all add: dval_def)

lemma digs_simps [simp]:
  "digs []" "digs (d # ds) \<longleftrightarrow> 0 \<le> d \<and> d \<le> 9 \<and> digs ds" "digs (xs @ ys) \<longleftrightarrow> digs xs \<and> digs ys"
  by (auto simp: digs_def)

lemma digs_drop: "digs ds \<Longrightarrow> digs (drop k ds)"
  by (metis append_take_drop_id digs_simps(3))

lemma dval_append: "dval (xs @ ys) = dval xs * 10 ^ length ys + dval ys"
proof (induction ys rule: rev_induct)
  case (snoc y ys)
  have "dval (xs @ ys @ [y]) = dval ((xs @ ys) @ [y])" by simp
  also have "\<dots> = (dval xs * 10 ^ length ys + dval ys) * 10 + y"
    unfolding dval_simps(2) snoc.IH by simp
  finally show ?case by (simp add: algebra_simps)
qed simp

lemma dval_Cons: "dval (d # ds) = d * 10 ^ length ds + dval ds"
  using dval_append [of "[d]" ds] by (simp add: dval_def)

lemma dval_bounds: "digs ds \<Longrightarrow> 0 \<le> dval ds \<and> dval ds < 10 ^ length ds"
proof (induction ds rule: rev_induct)
  case (snoc d ds)
  then have "dval ds + 1 \<le> 10 ^ length ds" "0 \<le> dval ds" by simp_all
  then show ?case using snoc.prems by simp
qed simp

lemma dval_zero_iff: "digs ds \<Longrightarrow> dval ds = 0 \<longleftrightarrow> (\<forall>d \<in> set ds. d = 0)"
proof (induction ds rule: rev_induct)
  case (snoc d ds)
  then have b: "0 \<le> dval ds" "0 \<le> d" "d \<le> 9" using dval_bounds [of ds] by simp_all
  then have "dval (ds @ [d]) = 0 \<longleftrightarrow> dval ds = 0 \<and> d = 0" unfolding dval_simps by presburger
  then show ?case using snoc by auto
qed simp

text \<open>The segment of \<open>k\<close> half bytes from index \<open>e\<close> on.\<close>

definition seg :: "nat \<Rightarrow> nat \<Rightarrow> bytes \<Rightarrow> int list" where
  "seg e k p = take k (drop e (nibs p))"

lemma seg_Suc: "e + k < 2 * length p \<Longrightarrow> seg e (Suc k) p = seg e k p @ [nibs p ! (k + e)]"
  by (simp add: seg_def take_Suc_conv_app_nth add.commute)

lemma length_seg: "e + k \<le> 2 * length p \<Longrightarrow> length (seg e k p) = k"
  by (simp add: seg_def)

text \<open>Two storages that differ inside a segment only.\<close>

definition same_outside :: "nat \<Rightarrow> nat \<Rightarrow> bytes \<Rightarrow> bytes \<Rightarrow> bool" where
  "same_outside e k p q \<longleftrightarrow> length q = length p \<and>
     (\<forall>j < 2 * length p. j < e \<or> e + k \<le> j \<longrightarrow> nibs q ! j = nibs p ! j)"

lemma same_outside_step:
  assumes "nibs p1 = (nibs p)[k + e := t]" "length p1 = length p" "same_outside e k p1 q"
    "e + k < 2 * length p"
  shows "same_outside e (Suc k) p q" "nibs q ! (k + e) = t" "seg e k p1 = seg e k p"
proof -
  show "same_outside e (Suc k) p q" "nibs q ! (k + e) = t"
    using assms by (auto simp: same_outside_def)
  show "seg e k p1 = seg e k p"
    using assms(1) by (simp add: seg_def drop_update_swap)
qed

section \<open>The digit loops\<close>

lemma smod_nonneg: "0 \<le> (a::int) \<Longrightarrow> 0 < b \<Longrightarrow> a smod b = a mod b"
  by (simp add: signed_modulo_int_def signed_divide_int_def sgn_if minus_mult_div_eq_mod mult.commute)

lemma sdiv_nonneg: "0 \<le> (a::int) \<Longrightarrow> 0 < b \<Longrightarrow> a sdiv b = a div b"
  by (simp add: signed_divide_int_def sgn_if)

definition nzeros :: "int list \<Rightarrow> nat" where
  "nzeros ds = length (filter (\<lambda>d. d = 0) ds)"

lemma nzeros_le: "nzeros ds \<le> length ds"
  by (simp add: nzeros_def)

lemma nzeros_all: "nzeros ds = length ds \<longleftrightarrow> (\<forall>d \<in> set ds. d = 0)"
proof (induction ds)
  case (Cons d ds)
  have "nzeros ds \<noteq> Suc (length ds)" using nzeros_le [of ds] by linarith
  with Cons show ?case by (cases "d = 0") (simp_all add: nzeros_def)
qed (simp add: nzeros_def)

lemma seg_digs_step:
  "e + k < 2 * length p \<Longrightarrow> digs (seg e (Suc k) p) \<Longrightarrow>
   digs (seg e k p) \<and> 0 \<le> nibs p ! (k + e) \<and> nibs p ! (k + e) \<le> 9"
  by (simp add: seg_Suc)

lemma complement_loop_val:
  assumes "e + k \<le> 2 * length p" "digs (seg e k p)" "c = 0 \<or> c = 1"
  shows "\<exists>q. complement_loop e k c p = Some q \<and> same_outside e k p q \<and> digs (seg e k q) \<and>
    dval (seg e k q) = (- dval (seg e k p) - c) mod 10 ^ k"
  using assms
proof (induction k arbitrary: c p)
  case 0
  then show ?case by (auto simp: same_outside_def seg_def)
next
  case (Suc k)
  let ?x = "nibs p ! (k + e)"
  have r: "e + k < 2 * length p" "k + e < 2 * length p" using Suc.prems by simp_all
  note sd = seg_digs_step [OF r(1) Suc.prems(2)]
  define c' where "c' = (if ?x + c > 0 then 1 else (0::int))"
  define t where "t = (if ?x + c > 0 then 10 - (?x + c) else ?x + c)"
  have t: "0 \<le> t" "t \<le> 9" using sd Suc.prems(3) by (auto simp: t_def)
  obtain p1 where p1: "set_nib p (k + e) t = Some p1" "length p1 = length p" "nibs p1 = (nibs p)[k + e := t]"
    using set_nib_eq [OF r(2), of t] t by auto
  have s1: "seg e k p1 = seg e k p" using p1(3) by (simp add: seg_def drop_update_swap)
  have "c' = 0 \<or> c' = 1" by (simp add: c'_def)
  then obtain q where q: "complement_loop e k c' p1 = Some q" "same_outside e k p1 q" "digs (seg e k q)"
    "dval (seg e k q) = (- dval (seg e k p) - c') mod 10 ^ k"
    using Suc.IH [of p1 c'] r sd p1 s1 by auto
  note so = same_outside_step [OF p1(3,2) q(2) r(1)]
  have run: "complement_loop e (Suc k) c p = Some q"
    using q(1) p1(1) by (simp add: get_nib_eq [OF r(2)] t_def c'_def)
  have lq: "e + k < 2 * length q" using r q(2) p1(2) by (simp add: same_outside_def)
  have "- dval (seg e (Suc k) p) - c = (- dval (seg e k p) - c') * 10 + t"
    using sd Suc.prems(3) by (auto simp: seg_Suc [OF r(1)] t_def c'_def)
  then have "dval (seg e (Suc k) q) = (- dval (seg e (Suc k) p) - c) mod 10 ^ Suc k"
    using mod_exp10_digit [OF t(1), of "- dval (seg e k p) - c'" k] t(2) q(4) so(2)
    by (simp add: seg_Suc [OF lq] del: power_Suc)
  then show ?case
    using run so q(3) t by (simp add: seg_Suc [OF lq])
qed

lemma nzeros_snoc: "nzeros (xs @ [d]) = nzeros xs + (if d = 0 then 1 else 0)"
  by (simp add: nzeros_def)

lemma mod_exp10_split: "(v::int) mod 10 ^ Suc k = (v div 10 mod 10 ^ k) * 10 + v mod 10"
  by (simp only: mod_exp10_Suc)

lemma add_packed_loop_val:
  assumes "e + k \<le> 2 * length p" "digs (seg e k p)" "c = 0 \<or> c = 1" "0 \<le> val"
  shows "\<exists>c' z' q. add_packed_loop subtr e k val c z p = Some (c', z', q) \<and> same_outside e k p q \<and>
    digs (seg e k q) \<and> z' = z + nzeros (seg e k q) \<and>
    (if subtr then dval (seg e k q) = (dval (seg e k p) - (val + c)) mod 10 ^ k \<and>
       c' = (if dval (seg e k p) < val mod 10 ^ k + c then 1 else 0)
     else dval (seg e k q) = (dval (seg e k p) + (val + c)) mod 10 ^ k)"
  using assms
proof (induction k arbitrary: c val z p)
  case 0
  then show ?case by (auto simp: same_outside_def seg_def nzeros_def)
next
  case (Suc k)
  let ?x = "nibs p ! (k + e)"
  have r: "e + k < 2 * length p" "k + e < 2 * length p" using Suc.prems by simp_all
  note sd = seg_digs_step [OF r(1) Suc.prems(2)]
  define m where "m = c + val mod 10"
  have m: "0 \<le> m" "m \<le> 10" using Suc.prems(3) pos_mod_bound [of 10 val] by (auto simp: m_def)
  have mv: "c + (if val \<noteq> 0 then val smod 10 else 0) = m" "(if val \<noteq> 0 then val sdiv 10 else val) = val div 10"
    using Suc.prems(4) by (simp_all add: m_def smod_nonneg sdiv_nonneg)
  define c1 where "c1 = (if subtr then if ?x < m then 1 else 0 else if ?x + m > 9 then 1 else (0::int))"
  define t where "t = (if subtr then ?x - m + 10 * c1 else ?x + m - 10 * c1)"
  have t: "0 \<le> t" "t \<le> 9" using sd m by (auto simp: t_def c1_def)
  have step: "(if subtr then if ?x - m < 0 then (?x - m + 10, 1) else (?x - m, 0)
        else if ?x + m > 9 then ((?x + m) smod 10, 1) else (?x + m, 0)) = (t, c1)"
  proof -
    have "(?x + m) smod 10 = ?x + m - 10" if "?x + m > 9"
    proof -
      have "(?x + m) mod 10 = (?x + m - 10) mod 10" by simp
      also have "\<dots> = ?x + m - 10" using that sd m by (intro mod_pos_pos_trivial) simp_all
      finally show ?thesis using sd m by (simp add: smod_nonneg)
    qed
    then show ?thesis by (auto simp: t_def c1_def)
  qed
  obtain p1 where p1: "set_nib p (k + e) t = Some p1" "length p1 = length p" "nibs p1 = (nibs p)[k + e := t]"
    using set_nib_eq [OF r(2), of t] t by auto
  have s1: "seg e k p1 = seg e k p" using p1(3) by (simp add: seg_def drop_update_swap)
  have c1: "c1 = 0 \<or> c1 = 1" by (simp add: c1_def)
  have vd: "0 \<le> val div 10" using Suc.prems(4) by simp
  let ?z = "if t = 0 then Suc z else z"
  obtain c' z' q where q: "add_packed_loop subtr e k (val div 10) c1 ?z p1 = Some (c', z', q)"
    "same_outside e k p1 q" "digs (seg e k q)" "z' = ?z + nzeros (seg e k q)"
    "if subtr then dval (seg e k q) = (dval (seg e k p) - (val div 10 + c1)) mod 10 ^ k \<and>
       c' = (if dval (seg e k p) < val div 10 mod 10 ^ k + c1 then 1 else 0)
     else dval (seg e k q) = (dval (seg e k p) + (val div 10 + c1)) mod 10 ^ k"
    using Suc.IH [of p1 c1 "val div 10" ?z] r sd p1 s1 c1 vd by auto
  note so = same_outside_step [OF p1(3,2) q(2) r(1)]
  have run: "add_packed_loop subtr e (Suc k) val c z p = Some (c', z', q)"
    using q(1) p1(1) by (simp only: add_packed_loop.simps get_nib_eq [OF r(2)] bind.bind_lunit Let_def mv step
        prod.case)
  have lq: "e + k < 2 * length q" using r q(2) p1(2) by (simp add: same_outside_def)
  have sq: "seg e (Suc k) q = seg e k q @ [t]" using so(2) by (simp add: seg_Suc [OF lq])
  have sp: "dval (seg e (Suc k) p) = dval (seg e k p) * 10 + ?x" by (simp add: seg_Suc [OF r(1)])
  have v10: "val = val div 10 * 10 + val mod 10" by simp
  have val: "if subtr then dval (seg e (Suc k) q) = (dval (seg e (Suc k) p) - (val + c)) mod 10 ^ Suc k \<and>
       c' = (if dval (seg e (Suc k) p) < val mod 10 ^ Suc k + c then 1 else 0)
     else dval (seg e (Suc k) q) = (dval (seg e (Suc k) p) + (val + c)) mod 10 ^ Suc k"
  proof (cases subtr)
    case True
    have e1: "dval (seg e (Suc k) p) - (val + c) = (dval (seg e k p) - (val div 10 + c1)) * 10 + t"
      unfolding sp using True v10 by (simp add: t_def m_def algebra_simps)
    have "dval (seg e (Suc k) p) - (val mod 10 ^ Suc k + c) =
        (dval (seg e k p) - (val div 10 mod 10 ^ k + c1)) * 10 + t"
      unfolding sp mod_exp10_split using True by (simp add: t_def m_def algebra_simps)
    from digit_less [OF this] t
    have "(dval (seg e (Suc k) p) < val mod 10 ^ Suc k + c) = (dval (seg e k p) < val div 10 mod 10 ^ k + c1)"
      by simp
    with True q(5) show ?thesis
      unfolding e1 sq using mod_exp10_digit [OF t(1), of "dval (seg e k p) - (val div 10 + c1)" k] t(2)
      by (simp del: power_Suc)
  next
    case False
    have e1: "dval (seg e (Suc k) p) + (val + c) = (dval (seg e k p) + (val div 10 + c1)) * 10 + t"
      unfolding sp using False v10 by (simp add: t_def m_def algebra_simps)
    from False q(5) show ?thesis
      unfolding e1 sq using mod_exp10_digit [OF t(1), of "dval (seg e k p) + (val div 10 + c1)" k] t(2)
      by (simp del: power_Suc)
  qed
  have z: "z' = z + nzeros (seg e (Suc k) q)" using q(4) by (simp add: sq nzeros_snoc)
  show ?case using run so(1) q(3) t z val sq by auto
qed

section \<open>Packed items and their value\<close>

definition pk_digits :: "cob_field \<Rightarrow> int list" where
  "pk_digits f = seg (empty_digit f) (field_digits f) (fdata f)"

definition wf_packed :: "cob_field \<Rightarrow> bool" where
  "wf_packed f \<longleftrightarrow> 0 < field_digits f \<and> fsize f = field_digits f div 2 + 1 \<and> digs (pk_digits f)"

definition sign_nib :: "cob_field \<Rightarrow> int" where
  "sign_nib f = nibs (fdata f) ! (2 * fsize f - 1)"

definition pk_neg :: "cob_field \<Rightarrow> bool" where
  "pk_neg f \<longleftrightarrow> have_sign f \<and> sign_nib f = 13"

definition pk_val :: "cob_field \<Rightarrow> int" where
  "pk_val f = (if pk_neg f then - dval (pk_digits f) else dval (pk_digits f))"

lemma empty_digit_set_data [simp]: "empty_digit (set_data f p) = empty_digit f"
  by (simp add: empty_digit_def)

lemma packed_layout:
  "fsize f = field_digits f div 2 + 1 \<Longrightarrow> empty_digit f + field_digits f = 2 * fsize f - 1"
  "fsize f = field_digits f div 2 + 1 \<Longrightarrow> empty_digit f + field_digits f < 2 * length (fdata f)"
  unfolding empty_digit_def fsize_def by presburger+

lemma length_pk_digits: "fsize f = field_digits f div 2 + 1 \<Longrightarrow> length (pk_digits f) = field_digits f"
  using packed_layout(2) [of f] by (simp add: pk_digits_def length_seg)

lemma last_nib: "0 < length p \<Longrightarrow> nibs p ! (2 * length p - 1) = uint (p ! (length p - 1)) mod 16"
  using nibs_nth [of "length p - 1" p] by (cases "length p") simp_all

lemma byte_low_eq: "(b :: u8) AND 0x0f = c \<longleftrightarrow> uint b mod 16 = uint c"
  by (metis low_nib word_uint_eq_iff)

lemma packed_get_sign_eq:
  "0 < fsize f \<Longrightarrow> cob_packed_get_sign f = Some (if have_sign f then (if pk_neg f then -1 else 1) else 0)"
  using last_nib [of "fdata f"] by (simp add: cob_packed_get_sign_def rd_def fsize_def pk_neg_def sign_nib_def byte_low_eq)

lemma set_sign_nib_eq:
  assumes "0 < fsize f" "uint s < 16"
  shows "\<exists>g. set_sign_nib f s = Some g \<and> g = set_data f (fdata g) \<and> fsize g = fsize f \<and>
    nibs (fdata g) = (nibs (fdata f))[2 * fsize f - 1 := uint s]"
proof -
  let ?p = "fdata f" let ?i = "fsize f - 1"
  have i: "?i < length ?p" using assms(1) by (simp add: fsize_def)
  have i2: "2 * fsize f - 1 = 2 * ?i + 1" using assms(1) by presburger
  let ?b = "(?p ! ?i AND 0xf0) OR s"
  have "uint ?b = 16 * (uint (?p ! ?i) div 16) + uint s"
    using set_low_nib [of "uint s" "?p ! ?i"] assms(2) by simp
  moreover have "(nibs ?p)[2 * ?i := uint (?p ! ?i) div 16] = nibs ?p"
    using nibs_nth [OF i] by (metis list_update_id)
  ultimately have "nibs (?p[?i := ?b]) = (nibs ?p)[2 * fsize f - 1 := uint s]"
    unfolding i2 using assms(2) by (simp only: nibs_upd [OF i]) simp
  then show ?thesis
    using i by (intro exI [of _ "set_data f (?p[?i := ?b])"])
      (simp add: set_sign_nib_def rd_def wr_def fsize_def)
qed

lemma pk_of_nibs:
  assumes "g = set_data f (fdata g)" "fsize g = fsize f" "fsize f = field_digits f div 2 + 1"
    "same_outside (empty_digit f) (field_digits f) (fdata f) (fdata g)"
  shows "pk_digits g = seg (empty_digit f) (field_digits f) (fdata g)" "sign_nib g = sign_nib f" "pk_neg g = pk_neg f"
proof -
  have a: "have_sign g = have_sign f" "field_digits g = field_digits f" "empty_digit g = empty_digit f"
    by (subst assms(1), simp)+
  then show "pk_digits g = seg (empty_digit f) (field_digits f) (fdata g)" by (simp add: pk_digits_def)
  show s: "sign_nib g = sign_nib f"
    using assms(2-) packed_layout [OF assms(3)]
    by (simp add: sign_nib_def same_outside_def fsize_def)
  show "pk_neg g = pk_neg f" by (simp add: pk_neg_def a s)
qed

lemma put_sign_nib_pk:
  assumes "fsize f = field_digits f div 2 + 1" "uint s < 16"
  shows "\<exists>g. set_sign_nib f s = Some g \<and> g = set_data f (fdata g) \<and> fsize g = fsize f \<and>
    pk_digits g = pk_digits f \<and> sign_nib g = uint s \<and> pk_neg g = (have_sign f \<and> uint s = 13)"
proof -
  from assms have "0 < fsize f" by simp
  from set_sign_nib_eq [OF this assms(2)] obtain g where
    g: "set_sign_nib f s = Some g" "g = set_data f (fdata g)" "fsize g = fsize f"
      "nibs (fdata g) = (nibs (fdata f))[2 * fsize f - 1 := uint s]" by auto
  have a: "have_sign g = have_sign f" "field_digits g = field_digits f" "empty_digit g = empty_digit f"
    by (subst g(2), simp)+
  note l = packed_layout [OF assms(1)]
  have "pk_digits g = pk_digits f"
    using l by (simp add: pk_digits_def a seg_def g(4) drop_update_swap fsize_def)
  moreover have "sign_nib g = uint s"
    using l g(3) by (simp add: sign_nib_def g(4) fsize_def)
  ultimately show ?thesis using g by (auto simp: pk_neg_def a)
qed

lemma complement_packed_pk:
  assumes "fsize f = field_digits f div 2 + 1" "digs (pk_digits f)"
  shows "\<exists>g. cob_complement_packed f = Some g \<and> g = set_data f (fdata g) \<and> fsize g = fsize f \<and>
    digs (pk_digits g) \<and> sign_nib g = sign_nib f \<and> pk_neg g = pk_neg f \<and>
    dval (pk_digits g) = (- dval (pk_digits f)) mod 10 ^ field_digits f"
proof -
  from complement_loop_val [of "empty_digit f" "field_digits f" "fdata f" 0] packed_layout [OF assms(1)] assms(2)
  obtain q where q: "complement_loop (empty_digit f) (field_digits f) 0 (fdata f) = Some q"
    "same_outside (empty_digit f) (field_digits f) (fdata f) q" "digs (seg (empty_digit f) (field_digits f) q)"
    "dval (seg (empty_digit f) (field_digits f) q) = (- dval (pk_digits f)) mod 10 ^ field_digits f"
    by (auto simp: pk_digits_def)
  have "fsize (set_data f q) = fsize f" using q(2) by (simp add: same_outside_def fsize_def)
  moreover note pk_of_nibs [of "set_data f q" f, OF _ this assms(1)]
  ultimately show ?thesis using q by (simp add: cob_complement_packed_def)
qed

text \<open>
  In-place addition. The result is exact when it fits the item and the scaled addend itself
  has no more digits than the item; an unsigned item keeps the magnitude.
\<close>

lemma dval_zero_nzeros: "digs ds \<Longrightarrow> length ds = nzeros ds \<longleftrightarrow> dval ds = 0"
  using nzeros_all [of ds] dval_zero_iff [of ds] by auto

definition packed_sum :: "cob_field \<Rightarrow> int \<Rightarrow> int" where
  "packed_sum f n = (if have_sign f then pk_val f + n else \<bar>pk_val f + n\<bar>)"

lemma add_packed_pk:
  assumes wf: "wf_packed f" and sc: "\<bar>n * 10 ^ nat (field_scale f)\<bar> < 2 ^ 63"
  defines "w \<equiv> n * 10 ^ nat (field_scale f)"
  assumes fit: "\<bar>pk_val f + w\<bar> < 10 ^ field_digits f" "\<bar>w\<bar> < 10 ^ field_digits f"
  shows "\<exists>g. cob_add_packed f n = Some g \<and> g = set_data f (fdata g) \<and> wf_packed g \<and> pk_val g = packed_sum f w"
proof -
  let ?D = "field_digits f" let ?e = "empty_digit f" let ?E = "(10::int) ^ field_digits f"
  define s where "s = (if have_sign f then (if pk_neg f then -1 else 1) else (0::int))"
  define u where "u = (if s < 0 then - w else w)"
  have sz: "fsize f = ?D div 2 + 1" and dg: "digs (pk_digits f)" and D: "0 < ?D"
    using wf by (simp_all add: wf_packed_def)
  note lay = packed_layout [OF sz]
  have gs: "cob_packed_get_sign f = Some s" using packed_get_sign_eq [of f] sz by (simp add: s_def)
  have b: "0 \<le> dval (pk_digits f)" "dval (pk_digits f) < ?E"
    using dval_bounds [OF dg] length_pk_digits [OF sz] by simp_all
  have pv: "pk_val f + w = (if s < 0 then - (dval (pk_digits f) + u) else dval (pk_digits f) + u)"
    by (auto simp: pk_val_def s_def u_def pk_neg_def)
  have fu: "\<bar>dval (pk_digits f) + u\<bar> < ?E" using fit(1) unfolding pv by (auto split: if_splits)
  have uw: "\<bar>u\<bar> < ?E" "\<bar>u\<bar> < 2 ^ 63" using fit(2) sc by (auto simp: u_def w_def)
  have n1: "scale_up (nat (field_scale f)) n = w" using scale_up_exact [OF sc] by (simp add: w_def)
  have n2: "(if s < 0 then i64 (- w) else w) = u" using sc by (auto simp: u_def w_def intro!: i64_id)
  have n3: "(if u < 0 then i64 (- u) else u) = \<bar>u\<bar>" using uw(2) by (auto intro!: i64_id)
  obtain c z q where lp: "add_packed_loop (u < 0) ?e ?D \<bar>u\<bar> 0 0 (fdata f) = Some (c, z, q)"
    and so: "same_outside ?e ?D (fdata f) q" and dq: "digs (seg ?e ?D q)" and zq: "z = nzeros (seg ?e ?D q)"
    and v: "if u < 0 then dval (seg ?e ?D q) = (dval (pk_digits f) - \<bar>u\<bar>) mod ?E \<and>
       c = (if dval (pk_digits f) < \<bar>u\<bar> mod ?E then 1 else 0)
     else dval (seg ?e ?D q) = (dval (pk_digits f) + \<bar>u\<bar>) mod ?E"
    using add_packed_loop_val [of ?e ?D "fdata f" 0 "\<bar>u\<bar>" "u < 0" 0] lay dg by (auto simp: pk_digits_def)
  let ?g = "set_data f q"
  have gsz: "fsize ?g = fsize f" using so by (simp add: same_outside_def fsize_def)
  note pg = pk_of_nibs [of ?g f, OF _ gsz sz, simplified, OF so]
  have lg: "length (seg ?e ?D q) = ?D" using lay so by (simp add: length_seg same_outside_def)
  have zz: "?D = z \<longleftrightarrow> dval (pk_digits ?g) = 0" using dval_zero_nzeros [OF dq] by (simp add: zq lg pg)
  have run: "cob_add_packed f n =
     (if s \<noteq> 0 then
         if ?D = z then set_sign_nib ?g 0x0c
         else if u < 0 \<and> c \<noteq> 0 then do {
           f \<leftarrow> cob_complement_packed ?g;
           set_sign_nib f (if - s < 0 then 0x0d else 0x0c) }
         else Some ?g
       else if u < 0 \<and> c \<noteq> 0 then cob_complement_packed ?g
       else Some ?g)"
    using D by (simp only: cob_add_packed_def n1 gs n2 n3 lp Let_def bind.bind_lunit prod.case set_data_sel
      if_not_P [of "field_digits f = 0"] neq0_conv)
  define m where "m = dval (pk_digits f) + u"
  have goal: "pk_val h = packed_sum f w"
    if "dval (pk_digits h) = \<bar>m\<bar>" "s \<noteq> 0 \<Longrightarrow> m \<noteq> 0 \<Longrightarrow> pk_neg h = ((m < 0) = (0 < s))" "s = 0 \<Longrightarrow> \<not> pk_neg h" for h
  proof -
    have ps: "packed_sum f w = (if s \<noteq> 0 then (if s < 0 then - m else m) else \<bar>m\<bar>)"
      unfolding packed_sum_def pv m_def by (simp add: s_def)
    have ph: "pk_val h = (if pk_neg h then - \<bar>m\<bar> else \<bar>m\<bar>)" by (simp add: pk_val_def that(1))
    show ?thesis
    proof (cases "m = 0")
      case False
      with that(2,3) show ?thesis unfolding ps ph by (cases "s = 0") auto
    qed (simp add: ps ph)
  qed
  consider "u < 0 \<and> m < 0" | "\<not> (u < 0 \<and> m < 0)" by blast
  then show ?thesis
  proof cases
    case 1
    then have c: "c = 1" "dval (pk_digits ?g) = m + ?E"
    proof -
      have "m mod ?E = (m + ?E) mod ?E" by simp
      also have "\<dots> = m + ?E" using 1 fu by (intro mod_pos_pos_trivial) (simp_all add: m_def)
      finally show "dval (pk_digits ?g) = m + ?E" using v 1 by (simp add: pg m_def)
      have "\<bar>u\<bar> mod ?E = \<bar>u\<bar>" using uw by (intro mod_pos_pos_trivial) simp_all
      then show "c = 1" using v 1 by (auto simp: m_def split: if_splits)
    qed
    have nz: "?D \<noteq> z" using zz c(2) fu 1 by (simp add: m_def)
    from complement_packed_pk [of ?g] sz gsz dq obtain h where
      h: "cob_complement_packed ?g = Some h" "h = set_data f (fdata h)" "fsize h = fsize f" "digs (pk_digits h)"
         "pk_neg h = pk_neg f" "dval (pk_digits h) = (- dval (pk_digits ?g)) mod ?E"
      by (auto simp: pg)
    have "(- (m + ?E)) mod ?E = (- m - ?E) mod ?E" by (simp add: algebra_simps)
    also have "\<dots> = (- m) mod ?E" by (rule minus_mod_self2)
    also have "\<dots> = - m" using 1 fu by (intro mod_pos_pos_trivial) (simp_all add: m_def)
    finally have hm: "dval (pk_digits h) = \<bar>m\<bar>" using h(6) 1 unfolding c(2) by simp
    have hd: "field_digits h = ?D" "have_sign h = have_sign f" by (subst h(2), simp)+
    show ?thesis
    proof (cases "s = 0")
      case True
      then have "cob_add_packed f n = Some h" using run 1 c h(1) by simp
      moreover have "wf_packed h" using h sz D hd by (simp add: wf_packed_def)
      moreover have "pk_val h = packed_sum f w"
        using hm True h(5) by (intro goal) (auto simp: s_def pk_neg_def split: if_splits)
      ultimately show ?thesis using h(2) by blast
    next
      case False
      let ?sn = "if - s < 0 then 0x0d else 0x0c :: u8"
      have sn: "uint ?sn < 16" "uint ?sn = 13 \<longleftrightarrow> 0 < s" by simp_all
      have "fsize h = field_digits h div 2 + 1" using h(3) sz hd by simp
      from put_sign_nib_pk [OF this sn(1)] obtain k where
        k: "set_sign_nib h ?sn = Some k" "k = set_data h (fdata k)" "fsize k = fsize f" "pk_digits k = pk_digits h"
           "pk_neg k = (have_sign f \<and> 0 < s)" unfolding sn(2) hd h(3) by blast
      have kf: "k = set_data f (fdata k)" using k(2) h(2) by (metis set_data_sel(15))
      have kd: "field_digits k = ?D" "have_sign k = have_sign f" by (subst kf, simp)+
      have "cob_add_packed f n = Some k" using run 1 c h(1) nz False k(1) by simp
      moreover have "wf_packed k" using k sz D kd h(4) by (simp add: wf_packed_def)
      moreover have "pk_val k = packed_sum f w"
        using hm False k(4,5) 1 by (intro goal) (auto simp: s_def split: if_splits)
      ultimately show ?thesis using kf by blast
    qed
  next
    case 2
    have m0: "0 \<le> m" using 2 b by (auto simp: m_def)
    have gv: "dval (pk_digits ?g) = m"
    proof -
      have "m mod ?E = m" using m0 fu by (intro mod_pos_pos_trivial) (simp_all add: m_def)
      then show ?thesis using v by (auto simp: pg m_def split: if_splits)
    qed
    have nc: "\<not> (u < 0 \<and> c \<noteq> 0)"
    proof
      assume uc: "u < 0 \<and> c \<noteq> 0"
      have "\<bar>u\<bar> mod ?E = \<bar>u\<bar>" using uw by (intro mod_pos_pos_trivial) simp_all
      with uc v m0 show False by (auto simp: m_def split: if_splits)
    qed
    have wg: "wf_packed ?g" using sz gsz D dq pg by (simp add: wf_packed_def)
    show ?thesis
    proof (cases "s \<noteq> 0 \<and> ?D = z")
      case True
      then have mz: "m = 0" using zz gv by simp
      from put_sign_nib_pk [of ?g "0x0c"] gsz sz obtain k where
        k: "set_sign_nib ?g 0x0c = Some k" "k = set_data f (fdata k)" "fsize k = fsize f" "pk_digits k = pk_digits ?g"
        by auto
      have kd: "field_digits k = ?D" "have_sign k = have_sign f" by (subst k(2), simp)+
      have "cob_add_packed f n = Some k" using run True k(1) by simp
      moreover have "wf_packed k" using k sz D kd dq pg by (simp add: wf_packed_def)
      moreover have "pk_val k = packed_sum f w"
        using gv mz True k(4) by (intro goal) auto
      ultimately show ?thesis using k(2) by blast
    next
      case False
      then have "cob_add_packed f n = Some ?g" using run nc by auto
      moreover have "pk_val ?g = packed_sum f w"
        using gv m0 pg(3) by (intro goal) (auto simp: s_def pk_neg_def split: if_splits)
      ultimately show ?thesis using wg by (intro exI [of _ ?g]) simp
    qed
  qed
qed

section \<open>Loading a packed item\<close>

lemma dval_take2: "take (Suc (Suc k)) (nibs (b # bs)) = uint b div 16 # uint b mod 16 # take k (nibs bs)"
  by simp

lemma byte_eq0: "(b :: u8) = 0 \<longleftrightarrow> uint b div 16 = 0 \<and> uint b mod 16 = 0"
  using div_mult_mod_eq [of "uint b" 16] by (auto simp: word_uint_eq_iff)

lemma set_packed_mpz_loop_val:
  assumes "m < length bs" "seen \<or> val = 0"
  shows "set_packed_mpz_loop (2 * m + 1) bs seen val =
    Some (val * 10 ^ (2 * m + 1) + dval (take (2 * m + 1) (nibs bs)))"
  using assms
proof (induction m arbitrary: bs seen val)
  case 0
  then obtain b bs' where "bs = b # bs'" by (cases bs) auto
  with 0 show ?case by (auto simp: Let_def high_nib dval_def)
next
  case (Suc m)
  then obtain b bs' where bs: "bs = b # bs'" "m < length bs'" by (cases bs) auto
  let ?v = "val * 100 + (uint b div 16 * 10 + uint b mod 16)"
  have v: "(if b \<noteq> 0 then (if seen then val * 100 else val) + (uint (drop_bit 4 b) * 10 + uint (b AND 0x0f))
       else (if seen then val * 100 else val)) = ?v"
    using Suc.prems(2) by (auto simp: high_nib low_nib byte_eq0)
  have "set_packed_mpz_loop (2 * Suc m + 1) bs seen val = set_packed_mpz_loop (2 * m + 1) bs' (seen \<or> b \<noteq> 0) ?v"
    unfolding bs(1) set_packed_mpz_loop.simps Let_def v by simp
  also have "\<dots> = Some (?v * 10 ^ (2 * m + 1) + dval (take (2 * m + 1) (nibs bs')))"
    using Suc.IH [of bs' "seen \<or> b \<noteq> 0" ?v] bs(2) Suc.prems(2) by auto
  finally show ?case
    using bs by (simp add: dval_Cons algebra_simps)
qed

lemma set_packed_int_loop_val:
  assumes "m < length bs" "0 \<le> val" "digs (take (2 * m + 1) (nibs bs))"
    "val * 10 ^ (2 * m + 1) + dval (take (2 * m + 1) (nibs bs)) < 2 ^ 32"
  shows "set_packed_int_loop (2 * m + 1) bs val =
    Some (val * 10 ^ (2 * m + 1) + dval (take (2 * m + 1) (nibs bs)))"
  using assms
proof (induction m arbitrary: bs val)
  case 0
  then obtain b bs' where bs: "bs = b # bs'" by (cases bs) auto
  with 0 have f: "0 \<le> uint b div 16" "val * 10 + uint b div 16 < 2 ^ 32" by (simp_all add: dval_def)
  then have "u32 (val * 10) = val * 10" "u32 (val * 10 + uint b div 16) = val * 10 + uint b div 16"
    using 0 by (intro u32_id; simp)+
  with bs show ?case by (auto simp: Let_def high_nib dval_def)
next
  case (Suc m)
  then obtain b bs' where bs: "bs = b # bs'" "m < length bs'" by (cases bs) auto
  let ?v = "val * 100 + (uint b div 16 * 10 + uint b mod 16)" let ?r = "take (2 * m + 1) (nibs bs')"
  have d: "0 \<le> uint b div 16" "0 \<le> uint b mod 16" "digs ?r" using Suc.prems(3) bs by simp_all
  have tot: "val * 10 ^ (2 * Suc m + 1) + dval (take (2 * Suc m + 1) (nibs bs)) = ?v * 10 ^ (2 * m + 1) + dval ?r"
    using bs by (simp add: dval_Cons algebra_simps)
  have v0: "0 \<le> ?v" using Suc.prems(2) d by simp
  have "(1::int) \<le> 10 ^ (2 * m + 1)" by (rule one_le_power) simp
  then have "?v * 1 \<le> ?v * 10 ^ (2 * m + 1)" using v0 by (rule mult_left_mono)
  also have "\<dots> \<le> ?v * 10 ^ (2 * m + 1) + dval ?r" using dval_bounds [OF d(3)] by simp
  also have "\<dots> < 2 ^ 32" using Suc.prems(4) unfolding tot .
  finally have lt: "?v < 2 ^ 32" by simp
  then have "u32 (val * 100) = val * 100" "u32 ?v = ?v"
    using Suc.prems(2) d v0 by (intro u32_id; simp)+
  then have v: "(if b \<noteq> 0 then u32 ((if val \<noteq> 0 then u32 (val * 100) else val) +
         uint (drop_bit 4 b) * 10 + uint (b AND 0x0f)) else (if val \<noteq> 0 then u32 (val * 100) else val)) = ?v"
    by (auto simp: high_nib low_nib byte_eq0 add.assoc)
  have "set_packed_int_loop (2 * Suc m + 1) bs val = set_packed_int_loop (2 * m + 1) bs' ?v"
    unfolding bs(1) set_packed_int_loop.simps Let_def v by simp
  then show ?case
    using Suc.IH [of bs' ?v] bs(2) v0 d(3) Suc.prems(4) unfolding tot by simp
qed

lemma set_packed_pk:
  assumes wf: "wf_packed f"
  shows "cob_decimal_set_packed f = Some (mkdec (pk_val f) (field_scale f))"
proof -
  let ?D = "field_digits f" let ?p = "fdata f"
  have sz: "length ?p = ?D div 2 + 1" and dg: "digs (pk_digits f)" and D: "0 < ?D"
    using wf by (simp_all add: wf_packed_def fsize_def)
  obtain b bs where p: "?p = b # bs" using sz by (cases ?p) auto
  define val where "val = (if even ?D then uint b mod 16 else 0)"
  define m where "m = (?D - 1) div 2"
  define q where "q = (if even ?D then bs else b # bs)"
  have m: "(if even ?D then ?D - 1 else ?D) = 2 * m + 1" "m < length q"
    using D sz p by (auto simp: m_def q_def elim!: evenE oddE)
  have total: "val * 10 ^ (2 * m + 1) + dval (take (2 * m + 1) (nibs q)) = dval (pk_digits f)"
  proof (cases "even ?D")
    case True
    then have "?D = Suc (2 * m + 1)" using m D by simp
    moreover have "length (take (2 * m + 1) (nibs q)) = 2 * m + 1" using m(2) by simp
    ultimately show ?thesis using True
      by (simp add: val_def q_def pk_digits_def seg_def empty_digit_def p dval_Cons del: length_take length_nibs)
  next
    case False
    then have "?D = 2 * m + 1" "empty_digit f = 0" using m(1) False by (simp_all add: empty_digit_def odd_iff_mod_2_eq_one [symmetric] mod_2_eq_odd)
    then show ?thesis using False by (simp add: val_def q_def pk_digits_def seg_def p)
  qed
  have dq: "digs (take (2 * m + 1) (nibs q))"
    using dg m(1) by (cases "even ?D")
      (auto simp: q_def pk_digits_def seg_def empty_digit_def p odd_iff_mod_2_eq_one take_Cons' split: if_splits)
  have v0: "0 \<le> val" by (simp add: val_def)
  have loop: "(if ?D < 10 then set_packed_int_loop (2 * m + 1) q val
      else set_packed_mpz_loop (2 * m + 1) q (val \<noteq> 0) val) = Some (dval (pk_digits f))"
  proof (cases "?D < 10")
    case True
    have "dval (pk_digits f) < 10 ^ ?D" using dval_bounds [OF dg] length_pk_digits [of f] sz by (simp add: fsize_def)
    also have "(10::int) ^ ?D \<le> 10 ^ 9" using True by (intro exp10_mono) simp
    finally have "dval (pk_digits f) < 2 ^ 32" by simp
    from set_packed_int_loop_val [OF m(2) v0 dq, unfolded total, OF this] True show ?thesis by simp
  next
    case False
    with set_packed_mpz_loop_val [OF m(2), of "val \<noteq> 0" val, unfolded total] show ?thesis by simp
  qed
  have gs: "cob_packed_get_sign f = Some (if have_sign f then (if pk_neg f then -1 else 1) else 0)"
    using sz by (intro packed_get_sign_eq) (simp add: fsize_def)
  have rd0: "rd (fdata f) 0 = Some b" by (simp add: rd_def p)
  have q: "(if even ?D then drop 1 (fdata f) else fdata f) = q" by (simp add: q_def p)
  show ?thesis
    by (simp only: cob_decimal_set_packed_def gs rd0 bind.bind_lunit Let_def q m(1) low_nib
        val_def [symmetric] loop)
       (simp add: pk_val_def pk_neg_def)
qed

section \<open>Storing a decimal\<close>

lemma dval_digit_chars: "dval (map cob_d2i cs) = dec_val cs" "all_digits cs \<Longrightarrow> digs (map cob_d2i cs)"
  by (induction cs) (auto simp: dval_Cons dec_val_Cons isdigit_iff)

lemma put_packed_nibs:
  assumes "2 * p + i mod 2 + length cs \<le> 2 * length buf" "all_digits cs"
    "\<forall>m. 2 * p + i mod 2 \<le> m \<and> m < 2 * length buf \<longrightarrow> nibs buf ! m = 0"
  shows "\<exists>q. put_packed i cs p buf = Some q \<and> length q = length buf \<and>
    nibs q = take (2 * p + i mod 2) (nibs buf) @ map cob_d2i cs @
      replicate (2 * length buf - (2 * p + i mod 2) - length cs) 0"
  using assms
proof (induction cs arbitrary: i p buf)
  case Nil
  let ?j = "2 * p + i mod 2"
  have "drop ?j (nibs buf) = replicate (2 * length buf - ?j) 0"
    using Nil(3) by (intro nth_equalityI) auto
  then have "nibs buf = take ?j (nibs buf) @ replicate (2 * length buf - ?j) 0"
    by (metis append_take_drop_id)
  then show ?case by simp
next
  case (Cons c cs)
  let ?j = "2 * p + i mod 2" and ?d = "cob_d2i c" and ?x = "word_of_int (cob_d2i c) :: u8"
  have d: "0 \<le> ?d" "?d < 16" "isdigit c" "all_digits cs" using Cons.prems(2) isdigit_d2i [of c] by simp_all
  have x: "uint ?x = ?d" using byte_make [of 0 ?d] d by simp
  have pl: "p < length buf" using Cons.prems(1) by simp
  define b where "b = (if even i then push_bit 4 ?x else buf ! p OR ?x)"
  have j: "?j < 2 * length buf" using Cons.prems(1) by simp
  have nb: "nibs (buf[p := b]) = (nibs buf)[?j := ?d]"
  proof (cases "even i")
    case True
    have "push_bit 4 ?x = word_of_int (16 * ?d + 0)" by (simp add: push_bit_eq_mult)
    then have "uint b = 16 * ?d" using True d byte_make [of ?d 0] by (simp add: b_def)
    moreover have "nibs buf ! (2 * p + 1) = 0" using Cons.prems(3) True pl by simp
    then have "(nibs buf)[2 * p + 1 := 0] = nibs buf" by (metis list_update_id)
    ultimately show ?thesis using True by (simp add: nibs_upd [OF pl] list_upd_pair even_iff_mod_2_eq_zero)
  next
    case False
    have "nibs buf ! (2 * p + 1) = 0" using Cons.prems(3) False pl by (simp add: odd_iff_mod_2_eq_one)
    then have lo: "uint (buf ! p) mod 16 = 0" using nibs_nth [OF pl] by simp
    then have "uint (buf ! p) = 16 * (uint (buf ! p) div 16)" by (metis add.right_neutral mult_div_mod_eq)
    then have "uint b = 16 * (uint (buf ! p) div 16) + ?d"
      using False nibble_or [OF d(1,2), of "uint (buf ! p) div 16"] x by (simp add: b_def uint_or)
    moreover have "(nibs buf)[2 * p := uint (buf ! p) div 16] = nibs buf"
      using nibs_nth [OF pl] by (metis list_update_id)
    ultimately show ?thesis using False d
      by (simp add: nibs_upd [OF pl] odd_iff_mod_2_eq_one)
  qed
  let ?p' = "if even i then p else Suc p"
  have step: "put_packed i (c # cs) p buf = put_packed (Suc i) cs ?p' (buf[p := b])"
    using pl by (simp add: b_def wr_def rd_def Let_def)
  have j': "2 * ?p' + Suc i mod 2 = Suc ?j" by (cases "even i") (simp_all add: mod_2_eq_odd)
  have "\<exists>q. put_packed (Suc i) cs ?p' (buf[p := b]) = Some q \<and> length q = length (buf[p := b]) \<and>
    nibs q = take (Suc ?j) (nibs (buf[p := b])) @ map cob_d2i cs @
      replicate (2 * length (buf[p := b]) - Suc ?j - length cs) 0"
    using Cons.IH [of ?p' "Suc i" "buf[p := b]"] Cons.prems d(4) unfolding j' nb by simp
  then show ?case
    using j unfolding step by (simp add: nb take_Suc_conv_app_nth)
qed

lemma packed_sign_code_low: "uint (packed_sign_code f neg) < 16"
  "have_sign f \<Longrightarrow> uint (packed_sign_code f neg) = 13 \<longleftrightarrow> neg"
  by (simp_all add: packed_sign_code_def)

lemma nibs_replicate0: "nibs (replicate n 0) = replicate (2 * n) 0"
  by (induction n) simp_all

lemma dval_zeros: "dval (replicate n 0 @ ds) = dval ds"
  by (induction n) (simp_all add: dval_Cons)

lemma digs_zeros [simp]: "digs (replicate n 0)"
  by (induction n) simp_all

lemma get_packed_pk:
  fixes R :: cob_rt
  assumes wf: "field_digits f > 0" "fsize f = field_digits f div 2 + 1"
    and room: "\<bar>dvalue d\<bar> < 10 ^ 2047"
  defines "fits \<equiv> \<bar>dvalue d\<bar> < 10 ^ field_digits f"
    and "R1 \<equiv> cob_set_exception R COB_EC_SIZE_OVERFLOW"
  shows "\<not> fits \<Longrightarrow> opt_set opt COB_STORE_KEEP_ON_OVERFLOW \<Longrightarrow>
      cob_decimal_get_packed R d f opt = Some (exception_code R1, R1, f)"
    and "fits \<or> \<not> opt_set opt COB_STORE_KEEP_ON_OVERFLOW \<Longrightarrow>
      \<exists>g. cob_decimal_get_packed R d f opt = Some (0, if fits then R else R1, g) \<and>
        g = set_data f (fdata g) \<and> wf_packed g \<and>
        dval (pk_digits g) = \<bar>dvalue d\<bar> mod 10 ^ field_digits f \<and> pk_neg g = (have_sign f \<and> dvalue d < 0)"
proof -
  let ?v = "\<bar>dvalue d\<bar>" let ?s = "mpz_get_str10 \<bar>dvalue d\<bar>" let ?D = "field_digits f"
  have b: "\<not> num_buff_size \<le> length ?s" using get_str_fits [OF _ room] by (simp add: num_buff_size_def)
  have len: "?D < length ?s \<longleftrightarrow> \<not> fits"
    using get_str_fits [of ?v ?D] get_str_overflows [of ?v ?D] wf(1) by (auto simp: fits_def)
  show "\<not> fits \<Longrightarrow> opt_set opt COB_STORE_KEEP_ON_OVERFLOW \<Longrightarrow>
      cob_decimal_get_packed R d f opt = Some (exception_code R1, R1, f)"
    using b len by (simp add: cob_decimal_get_packed_def Let_def R1_def)
  assume c: "fits \<or> \<not> opt_set opt COB_STORE_KEEP_ON_OVERFLOW"
  define q where "q = (if ?D < length ?s then drop (length ?s - ?D) ?s else ?s)"
  have q: "all_digits q" "length q \<le> ?D"
    by (simp_all add: q_def all_digits_drop)
  have qv: "dec_val q = ?v mod 10 ^ ?D"
  proof (cases "?D < length ?s")
    case True
    then have "q = pad_digits ?D ?v"
      using drop_pad_digits [of ?D "length ?s" ?v] by (simp add: q_def mpz_get_str10_def)
    then show ?thesis by (simp add: dec_val_pad)
  next
    case False
    then have "fits" using len by simp
    then have "?v mod 10 ^ ?D = ?v" by (intro mod_pos_pos_trivial) (simp_all add: fits_def)
    then show ?thesis using False by (simp add: q_def dec_val_get_str)
  qed
  let ?i = "1 - length q mod 2" and ?p = "?D div 2 - length q div 2"
  define j where "j = 2 * ?p + ?i mod 2"
  have j: "j + length q = 2 * (?D div 2) + 1"
    unfolding j_def using q(2) by (cases "even (length q)") (auto elim!: evenE oddE simp: diff_mult_distrib2)
  have eD: "empty_digit f + ?D = 2 * (?D div 2) + 1" using packed_layout(1) [OF wf(2)] wf(2) by simp
  then have je: "empty_digit f \<le> j" "j - empty_digit f + length q = ?D" using j q(2) by linarith+
  obtain buf where buf: "put_packed ?i q ?p (replicate (fsize f) 0) = Some buf" "length buf = fsize f"
    "nibs buf = replicate j 0 @ map cob_d2i q @ [0]"
  proof -
    have "j + length q \<le> 2 * fsize f" "j \<le> 2 * fsize f" "2 * fsize f - j - length q = 1"
      using j wf(2) by simp_all
    with put_packed_nibs [of ?p ?i q "replicate (fsize f) 0"] q(1) that show thesis
      unfolding j_def [symmetric] by (auto simp: nibs_replicate0 min_def)
  qed
  have "seg (empty_digit f) ?D buf = replicate (j - empty_digit f) 0 @ map cob_d2i q"
    using je by (simp add: seg_def buf(3))
  then have pd: "digs (seg (empty_digit f) ?D buf)" "dval (seg (empty_digit f) ?D buf) = ?v mod 10 ^ ?D"
    using q(1) qv by (simp_all add: dval_zeros dval_digit_chars)
  let ?g = "set_data f buf"
  obtain g where g: "set_sign_nib ?g (packed_sign_code f (dvalue d < 0)) = Some g" "g = set_data f (fdata g)"
    "fsize g = fsize f" "pk_digits g = pk_digits ?g"
    "pk_neg g = (have_sign f \<and> uint (packed_sign_code f (dvalue d < 0)) = 13)"
    using put_sign_nib_pk [of ?g "packed_sign_code f (dvalue d < 0)"] wf(2) buf(2) packed_sign_code_low(1) by auto
  have gd: "field_digits g = ?D" by (subst g(2)) simp
  have pg: "pk_digits g = seg (empty_digit f) ?D buf" unfolding g(4) by (simp add: pk_digits_def)
  have "cob_decimal_get_packed R d f opt = Some (0, if fits then R else R1, g)"
    using b len c buf(1) g(1) unfolding q_def
    by (cases fits) (simp_all add: cob_decimal_get_packed_def Let_def R1_def)
  moreover have "wf_packed g" using wf g(3) gd pd by (simp add: wf_packed_def pg)
  moreover have "pk_neg g = (have_sign f \<and> dvalue d < 0)" using g(5) packed_sign_code_low(2) by auto
  ultimately show "\<exists>g. cob_decimal_get_packed R d f opt = Some (0, if fits then R else R1, g) \<and>
        g = set_data f (fdata g) \<and> wf_packed g \<and>
        dval (pk_digits g) = \<bar>dvalue d\<bar> mod 10 ^ field_digits f \<and> pk_neg g = (have_sign f \<and> dvalue d < 0)"
    using g(2) pd(2) pg by auto
qed

section \<open>Setting an item to an int\<close>

lemma packed_bytes_nth:
  "0 \<le> v \<Longrightarrow> v < 100 \<Longrightarrow> uint (packed_bytes ! nat v) = 16 * (v div 10) + v mod 10"
proof -
  assume v: "0 \<le> v" "v < 100"
  have "list_all (\<lambda>i. uint (packed_bytes ! i) = 16 * (int i div 10) + int i mod 10) [0..<100]"
    by code_simp
  then have "\<forall>i < 100. uint (packed_bytes ! i) = 16 * (int i div 10) + int i mod 10"
    by (simp add: list_all_iff)
  then have "uint (packed_bytes ! nat v) = 16 * (int (nat v) div 10) + int (nat v) mod 10"
    using v by simp
  then show ?thesis using v by simp
qed

lemma mod_100_split:
  "0 \<le> n \<Longrightarrow> (n::int) mod (100 * 10 ^ (2 * i)) = (n div 100 mod 10 ^ (2 * i)) * 100 + n mod 100"
  by (simp add: zmod_zmult2_eq)

lemma take_2Suc_nibs: "i < length p \<Longrightarrow>
   take (2 * Suc i) (nibs p) = take (2 * i) (nibs p) @ [uint (p ! i) div 16, uint (p ! i) mod 16]"
  using nibs_nth [of i p] by (simp add: take_Suc_conv_app_nth)

text \<open>What the bytes below \<open>i\<close> hold, and that the others are untouched.\<close>

definition low_val :: "nat \<Rightarrow> bytes \<Rightarrow> int" where
  "low_val i p = dval (take (2 * i) (nibs p))"

lemma low_val_Suc: "i < length p \<Longrightarrow>
   low_val (Suc i) p = low_val i p * 100 + (uint (p ! i) div 16 * 10 + uint (p ! i) mod 16)"
  unfolding low_val_def take_2Suc_nibs
  using dval_append [of "take (2 * i) (nibs p)" "[uint (p ! i) div 16, uint (p ! i) mod 16]"]
  by (simp add: dval_Cons)

lemma low_val_take: "take i p = take i q \<Longrightarrow> i \<le> length p \<Longrightarrow> i \<le> length q \<Longrightarrow>
   take (2 * i) (nibs p) = take (2 * i) (nibs q)"
proof -
  assume a: "take i p = take i q" "i \<le> length p" "i \<le> length q"
  have "take (2 * i) (nibs r) = nibs (take i r)" if "i \<le> length r" for r
  proof -
    have "nibs r = nibs (take i r) @ nibs (drop i r)" by (simp flip: nibs_append)
    then show ?thesis using that by simp
  qed
  then show ?thesis using a by simp
qed

lemma low_val_upd: "low_val i (p[i := b]) = low_val i p"
proof (cases "i < length p")
  case True
  then show ?thesis unfolding low_val_def by (subst low_val_take [of i "p[i := b]" p]) simp_all
qed (simp add: list_update_beyond)

lemma decimal_byte:
  assumes "0 \<le> v" "v < 100" "uint b = 16 * (v div 10) + v mod 10"
  shows "uint (b :: u8) div 16 * 10 + uint b mod 16 = v" "0 \<le> uint b div 16" "uint b div 16 \<le> 9"
    "0 \<le> uint b mod 16" "uint b mod 16 \<le> 9"
proof -
  have m: "0 \<le> v mod 10" "v mod 10 < 10" by simp_all
  then have e: "v mod 10 div 16 = 0" "v mod 10 mod 16 = v mod 10"
    by (simp_all add: div_pos_pos_trivial mod_pos_pos_trivial)
  have q: "uint b div 16 = v div 10" "uint b mod 16 = v mod 10"
    unfolding assms(3) using e by (simp_all add: add.commute)
  have r: "0 \<le> v div 10" "v div 10 \<le> 9" using assms by simp_all
  show "uint b div 16 * 10 + uint b mod 16 = v" "0 \<le> uint b div 16" "uint b div 16 \<le> 9"
    "0 \<le> uint b mod 16" "uint b mod 16 \<le> 9"
    unfolding q using m r by simp_all
qed

lemma set_int_pairs_val:
  assumes "i \<le> length buf" "0 \<le> n" "\<forall>m < i. buf ! m = 0"
  shows "\<exists>q. set_int_pairs i n buf = Some q \<and> length q = length buf \<and> (\<forall>m \<ge> i. m < length buf \<longrightarrow> q ! m = buf ! m) \<and>
    digs (take (2 * i) (nibs q)) \<and> low_val i q = n mod 10 ^ (2 * i)"
  using assms
proof (induction i arbitrary: n buf)
  case 0
  then show ?case by (simp add: low_val_def)
next
  case (Suc i)
  show ?case
  proof (cases "n = 0")
    case True
    have "take (Suc i) buf = replicate (Suc i) 0"
      using Suc.prems by (intro nth_equalityI) (simp_all del: replicate.simps)
    then have "take (2 * Suc i) (nibs buf) = take (2 * Suc i) (nibs (replicate (Suc i) 0))"
      using Suc.prems(1) by (intro low_val_take) simp_all
    also have "\<dots> = replicate (2 * Suc i) 0" by (simp only: nibs_replicate0) simp
    finally have z: "take (2 * Suc i) (nibs buf) = replicate (2 * Suc i) 0" .
    then have "low_val (Suc i) buf = 0" unfolding low_val_def using dval_zeros [of "2 * Suc i" "[]"] by simp
    with z True show ?thesis by (simp del: mult_Suc_right)
  next
    case False
    let ?v = "n mod 100"
    have v: "0 \<le> ?v" "?v < 100" "n smod 100 = ?v" "n sdiv 100 = n div 100" "0 \<le> n div 100"
      using Suc.prems(2) by (simp_all add: smod_nonneg sdiv_nonneg)
    define b where "b = packed_bytes ! nat ?v"
    note db = decimal_byte [OF v(1,2) packed_bytes_nth [OF v(1,2)], folded b_def]
    have "\<forall>m < i. buf[i := b] ! m = 0" using Suc.prems by simp
    then obtain q where q: "set_int_pairs i (n div 100) (buf[i := b]) = Some q" "length q = length buf"
      "\<forall>m \<ge> i. m < length buf \<longrightarrow> q ! m = buf[i := b] ! m" "digs (take (2 * i) (nibs q))"
      "low_val i q = n div 100 mod 10 ^ (2 * i)"
      using Suc.IH [of "buf[i := b]" "n div 100"] Suc.prems v(5) by auto
    have il: "i < length buf" "i < length q" using Suc.prems q(2) by simp_all
    have qi: "q ! i = b" using q(3) il by simp
    have "set_int_pairs (Suc i) n buf = Some q"
      using False v il q(1) by (simp add: wr_def b_def)
    moreover have "\<forall>m \<ge> Suc i. m < length buf \<longrightarrow> q ! m = buf ! m" using q(3) by simp
    moreover have "digs (take (2 * Suc i) (nibs q))"
      unfolding take_2Suc_nibs [OF il(2)] qi using q(4) db by simp
    moreover have "low_val (Suc i) q = n mod 10 ^ (2 * Suc i)"
      unfolding low_val_Suc [OF il(2)] qi q(5) db(1)
      using mod_100_split [OF Suc.prems(2), of i] by simp
    ultimately show ?thesis using q(2) by blast
  qed
qed

lemma nibs_mask:
  assumes "i < length p"
  shows "nibs (p[i := p ! i AND 0x0f]) = (nibs p)[2 * i := 0]"
    and "nibs (p[i := p ! i AND 0xf0]) = (nibs p)[2 * i + 1 := 0]"
proof -
  obtain q where "set_nib p (2 * i) 0 = Some q" "nibs q = (nibs p)[2 * i := 0]"
    using set_nib_eq [of "2 * i" p 0] assms by auto
  then show "nibs (p[i := p ! i AND 0x0f]) = (nibs p)[2 * i := 0]"
    using assms by (simp add: set_nib_def rd_def wr_def)
  obtain q where "set_nib p (2 * i + 1) 0 = Some q" "nibs q = (nibs p)[2 * i + 1 := 0]"
    using set_nib_eq [of "2 * i + 1" p 0] assms by auto
  then show "nibs (p[i := p ! i AND 0xf0]) = (nibs p)[2 * i + 1 := 0]"
    using assms by (simp add: set_nib_def rd_def wr_def)
qed

text \<open>An item's half bytes: an unused one before an even number of digits, then digits and sign.\<close>

lemma nibs_layout:
  assumes "fsize f = field_digits f div 2 + 1"
  shows "nibs (fdata f) = take (empty_digit f) (nibs (fdata f)) @ pk_digits f @ [sign_nib f]"
proof -
  let ?xs = "nibs (fdata f)" let ?e = "empty_digit f" let ?D = "field_digits f"
  have l: "length ?xs = Suc (?e + ?D)" using packed_layout(1) [OF assms] assms by (simp add: fsize_def)
  have "?xs = take (?e + ?D) ?xs @ [?xs ! (?e + ?D)]" using l by (metis lessI take_Suc_conv_app_nth take_all order_refl)
  moreover have "take (?e + ?D) ?xs = take ?e ?xs @ pk_digits f" by (simp add: take_add pk_digits_def seg_def)
  moreover have "sign_nib f = ?xs ! (?e + ?D)" using packed_layout(1) [OF assms] by (simp add: sign_nib_def)
  ultimately show ?thesis by simp
qed

lemma sign_byte:
  assumes "0 \<le> d" "d \<le> 9" "uint c < 16"
  shows "uint (word_of_int (d * 16) OR c :: u8) = 16 * d + uint c"
proof -
  have "uint (word_of_int (16 * d + 0) :: u8) = 16 * d + 0" using assms by (intro byte_make) simp_all
  then show ?thesis using nibble_or [of "uint c" d] assms by (simp add: uint_or mult.commute)
qed

lemma mod_10_odd_split: "0 \<le> n \<Longrightarrow> (n::int) mod 10 ^ (2 * k + 1) = (n div 10 mod 10 ^ (2 * k)) * 10 + n mod 10"
  using mod_exp10_Suc [of n "2 * k"] by simp

lemma take_drop_snoc: "length T = e + D \<Longrightarrow> take D (drop e (T @ [c])) = drop e T"
  by simp

lemma set_packed_int_pk:
  assumes wf: "field_digits f > 0" "fsize f = field_digits f div 2 + 1"
    and n: "\<bar>n\<bar> < 10 ^ field_digits f" "\<bar>n\<bar> < 2 ^ 31"
  shows "\<exists>g. cob_set_packed_int f n = Some g \<and> g = set_data f (fdata g) \<and> wf_packed g \<and>
    pk_val g = (if have_sign f then n else \<bar>n\<bar>)"
proof -
  let ?D = "field_digits f" let ?k = "?D div 2" let ?c = "packed_sign_code f (n < 0)"
  have m: "(if n < 0 then i32 (- n) else n) = \<bar>n\<bar>" using n(2) by (auto intro!: i32_id)
  have sm: "\<bar>n\<bar> smod 10 = \<bar>n\<bar> mod 10" "\<bar>n\<bar> sdiv 10 = \<bar>n\<bar> div 10" by (simp_all add: smod_nonneg sdiv_nonneg)
  have d: "0 \<le> \<bar>n\<bar> mod 10" "\<bar>n\<bar> mod 10 \<le> 9" using pos_mod_bound [of 10 "\<bar>n\<bar>"] by simp_all
  define B where "B = word_of_int ((\<bar>n\<bar> mod 10) * 16) OR ?c"
  have B: "uint B = 16 * (\<bar>n\<bar> mod 10) + uint ?c" "uint B div 16 = \<bar>n\<bar> mod 10" "uint B mod 16 = uint ?c"
  proof -
    show b: "uint B = 16 * (\<bar>n\<bar> mod 10) + uint ?c"
      unfolding B_def by (rule sign_byte [OF d packed_sign_code_low(1)])
    have "uint ?c div 16 = 0" "uint ?c mod 16 = uint ?c"
      using packed_sign_code_low(1) [of f "n < 0"] by (simp_all add: div_pos_pos_trivial)
    then show "uint B div 16 = \<bar>n\<bar> mod 10" "uint B mod 16 = uint ?c"
      unfolding b by (simp_all add: add.commute)
  qed
  define p1 where "p1 = (replicate (Suc ?k) 0)[?k := B]"
  have "?k \<le> length p1" "0 \<le> \<bar>n\<bar> div 10" "\<forall>i < ?k. p1 ! i = 0"
    by (simp_all add: p1_def del: replicate.simps)
  from set_int_pairs_val [OF this] obtain p2 where
    p2: "set_int_pairs ?k (\<bar>n\<bar> div 10) p1 = Some p2" "length p2 = length p1"
      "\<forall>m \<ge> ?k. m < length p1 \<longrightarrow> p2 ! m = p1 ! m" "digs (take (2 * ?k) (nibs p2))"
      "low_val ?k p2 = \<bar>n\<bar> div 10 mod 10 ^ (2 * ?k)"
    by blast
  have "length p1 = Suc ?k" "p1 ! ?k = B" by (simp_all add: p1_def del: replicate.simps)
  with p2(2,3) have lp2: "length p2 = Suc ?k" and bp2: "p2 ! ?k = B" by simp_all
  define p3 where "p3 = (if even ?D then p2[0 := p2 ! 0 AND 0x0f] else p2)"
  let ?T = "take (2 * ?k) (nibs p2) @ [\<bar>n\<bar> mod 10]"
  have kl: "?k < length p2" using lp2 by simp
  have n2: "nibs p2 = ?T @ [uint ?c]"
    using take_2Suc_nibs [OF kl] lp2 bp2 B by simp
  have lT: "length ?T = 2 * ?k + 1" using lp2 by simp
  have dT: "digs ?T" using p2(4) d by simp
  have pw: "(10::int) ^ ?D \<le> 10 ^ (2 * ?k + 1)" by (rule exp10_mono) presburger
  have vT: "dval ?T = \<bar>n\<bar>"
  proof -
    have "dval ?T = \<bar>n\<bar> mod 10 ^ (2 * ?k + 1)"
      using p2(5) mod_10_odd_split [of "\<bar>n\<bar>" ?k] by (simp add: low_val_def)
    also have "\<dots> = \<bar>n\<bar>" using n(1) pw by (intro mod_pos_pos_trivial) linarith+
    finally show ?thesis .
  qed
  let ?g = "set_data f p3"
  have pd: "pk_digits ?g = drop (empty_digit f) ?T" "digs (pk_digits ?g)" "dval (pk_digits ?g) = \<bar>n\<bar>"
    "sign_nib ?g = uint ?c"
  proof -
    have n3: "drop (empty_digit f) (nibs p3) = drop (empty_digit f) (nibs p2)" "nibs p3 ! (2 * ?k + 1) = nibs p2 ! (2 * ?k + 1)"
      using nibs_mask(1) [of 0 p2] lp2 by (simp_all add: p3_def empty_digit_def)
    have De: "length ?T = empty_digit f + ?D" unfolding lT empty_digit_def by presburger
    have "pk_digits ?g = take ?D (drop (empty_digit f) (nibs p2))"
      unfolding n3(1) [symmetric] by (simp add: pk_digits_def seg_def)
    also have "\<dots> = drop (empty_digit f) ?T" by (subst n2) (rule take_drop_snoc [OF De])
    finally show pd: "pk_digits ?g = drop (empty_digit f) ?T" .
    show "digs (pk_digits ?g)" unfolding pd using dT by (metis append_take_drop_id digs_simps(3))
    have "sign_nib ?g = nibs p2 ! (2 * ?k + 1)"
    proof -
      have "fsize ?g = Suc ?k" using lp2 by (simp add: p3_def)
      then show ?thesis using n3(2) by (simp add: sign_nib_def)
    qed
    also have "\<dots> = uint ?c" by (subst n2) (simp only: lT [symmetric] nth_append_length)
    finally show "sign_nib ?g = uint ?c" .
    show "dval (pk_digits ?g) = \<bar>n\<bar>"
    proof (cases "even ?D")
      case False
      then have "empty_digit f = 0" by (simp add: empty_digit_def odd_iff_mod_2_eq_one)
      then show ?thesis unfolding pd using vT by simp
    next
      case True
      then have e: "empty_digit f = 1" "?D = 2 * ?k" by (simp_all add: empty_digit_def)
      obtain t T' where T: "?T = t # T'" by (cases ?T) simp_all
      have "length T' = ?D" "digs T'" "0 \<le> t" using lT dT e(2) unfolding T by simp_all
      moreover have "\<bar>n\<bar> = t * 10 ^ length T' + dval T'" using vT unfolding T dval_Cons by simp
      ultimately have "t = 0"
        using n(1) dval_bounds [of T'] by (smt (verit) mult_le_cancel_right1 zero_less_power)
      then have "dval T' = \<bar>n\<bar>" using vT unfolding T dval_Cons by simp
      then show ?thesis unfolding pd T e(1) by simp
    qed
  qed
  have "cob_set_packed_int f n = Some ?g"
  proof -
    have "wr (replicate (fsize f) 0) (fsize f - 1) B = Some p1"
      using wf(2) by (simp add: wr_def p1_def)
    moreover have "fsize f - 1 = ?k" using wf(2) by simp
    moreover have "rd p2 0 = Some (p2 ! 0)" using lp2 by (simp add: rd_def)
    ultimately show ?thesis
      by (simp only: cob_set_packed_int_def m sm Let_def B_def [symmetric] bind.bind_lunit p2(1) p3_def)
  qed
  moreover have "wf_packed ?g" using wf lp2 pd by (simp add: wf_packed_def p3_def)
  moreover have "pk_neg ?g = (have_sign f \<and> n < 0)"
    using packed_sign_code_low(2) [of f "n < 0"] pd(4) by (auto simp: pk_neg_def)
  ultimately show ?thesis using pd(3) by (intro exI [of _ ?g]) (simp add: pk_val_def)
qed

lemma set_packed_zero_pk:
  assumes wf: "field_digits f > 0" "fsize f = field_digits f div 2 + 1"
  shows "\<exists>g. cob_set_packed_zero f = Some g \<and> g = set_data f (fdata g) \<and> wf_packed g \<and> pk_val g = 0 \<and> \<not> pk_neg g"
proof -
  let ?k = "field_digits f div 2" let ?c = "packed_sign_code f False"
  let ?g = "set_data f ((replicate (Suc ?k) 0)[?k := ?c])"
  have c: "uint ?c div 16 = 0" "uint ?c mod 16 = uint ?c"
    using packed_sign_code_low(1) [of f False] by (simp_all add: div_pos_pos_trivial)
  have z: "(replicate (2 * Suc ?k) 0)[2 * ?k := 0] = replicate (2 * Suc ?k) (0::int)"
    by (intro nth_equalityI) (simp_all add: nth_list_update del: replicate.simps)
  have nb: "nibs (fdata ?g) = (replicate (2 * Suc ?k) 0)[2 * ?k + 1 := uint ?c]"
    using nibs_upd [of ?k "replicate (Suc ?k) 0" ?c] unfolding nibs_replicate0 c z by simp
  have De: "empty_digit f + field_digits f = 2 * ?k + 1" using packed_layout(1) [OF wf(2)] wf(2) by simp
  then have pd: "pk_digits ?g = replicate (field_digits f) 0"
    unfolding pk_digits_def seg_def nb by (simp add: drop_update_swap min_def del: replicate.simps)
  then have "digs (pk_digits ?g)" "dval (pk_digits ?g) = 0" using dval_zeros [of "field_digits f" "[]"] by simp_all
  moreover have "fsize ?g = Suc ?k" by (simp del: replicate.simps)
  then have "sign_nib ?g = uint ?c" unfolding sign_nib_def nb by (simp del: replicate.simps)
  then have "\<not> pk_neg ?g" using packed_sign_code_low(2) [of f False] by (simp add: pk_neg_def)
  moreover have "cob_set_packed_zero f = Some ?g"
    using wf(2) by (simp add: cob_set_packed_zero_def wr_def)
  moreover have "wf_packed ?g"
    using wf calculation(1) unfolding wf_packed_def by (simp del: replicate.simps)
  ultimately show ?thesis by (intro exI [of _ ?g]) (simp add: pk_val_def del: replicate.simps)
qed

section \<open>The compare and its cache\<close>

text \<open>The cache holds the packed form of the magnitude of the last comparand.\<close>

definition cache_ok :: "packed_cache \<Rightarrow> bool" where
  "cache_ok C \<longleftrightarrow> length (packed_value C) = 20 \<and> digs (nibs (packed_value C)) \<and>
     dval (nibs (packed_value C)) = \<bar>packed_lastval C\<bar> * 10 \<and> \<bar>packed_lastval C\<bar> < 2 ^ 31"

lemma cache_ok_init: "cache_ok packed_cache_init"
  using dval_zeros [of 40 "[]"]
  by (simp only: cache_ok_def packed_cache_init_def packed_cache.simps nibs_replicate0) simp

lemma pair_byte:
  assumes "0 \<le> v" "v < 100"
  shows "(word_of_int ((v mod 10) OR ((v div 10) * 16)) :: u8) = packed_bytes ! nat v"
proof -
  have m: "0 \<le> v mod 10" "v mod 10 < 16" "0 \<le> v div 10" "v div 10 < 16"
  proof -
    have "v mod 10 < 10" by simp
    then show "0 \<le> v mod 10" "v mod 10 < 16" "0 \<le> v div 10" "v div 10 < 16" using assms by simp_all
  qed
  have "(v mod 10) OR ((v div 10) * 16) = 16 * (v div 10) + v mod 10"
    using nibble_or [OF m(1,2), of "v div 10"] by (simp add: or.commute mult.commute)
  then have "uint (word_of_int ((v mod 10) OR ((v div 10) * 16)) :: u8) = uint (packed_bytes ! nat v)"
    using byte_make [OF m(3,4,1,2)] packed_bytes_nth [OF assms] by simp
  then show ?thesis by (simp only: word_uint_eq_iff)
qed

lemma pack_pairs_set_int: "0 \<le> n \<Longrightarrow> n < 10 ^ (2 * i) \<Longrightarrow> pack_pairs i n buf = set_int_pairs i n buf"
proof (induction i arbitrary: n buf)
  case (Suc i)
  have v: "0 \<le> n mod 100" "n mod 100 < 100" "n smod 100 = n mod 100" "n sdiv 100 = n div 100" "0 \<le> n div 100"
    using Suc.prems(1) by (simp_all add: smod_nonneg sdiv_nonneg)
  have "n < 100 * 10 ^ (2 * i)" using Suc.prems(2) by simp
  then have "n div 100 < 10 ^ (2 * i)" by (simp add: div_less_iff_less_mult mult.commute)
  moreover have "u64 (n mod 100) = n mod 100" using v by (intro u64_id) simp_all
  ultimately have "pack_pairs i (n div 100) = set_int_pairs i (n div 100)" "u64 (n mod 100) = n mod 100"
    using Suc.IH [of "n div 100"] v by (auto intro: ext)
  moreover have "\<not> n mod 100 < 0" using v(1) by linarith
  ultimately show ?case using v pair_byte [OF v(1,2)] by (simp only: pack_pairs.simps set_int_pairs.simps Let_def if_False)
qed simp

lemma low_val_all: "low_val (length p) p = dval (nibs p)"
  by (simp add: low_val_def)

lemma pack_comparand_val:
  assumes "length buf = 20" "\<forall>i < 14. buf ! i = 0" "\<bar>n\<bar> < 2 ^ 31"
  shows "\<exists>q. pack_comparand buf n = Some q \<and> length q = 20 \<and> digs (nibs q) \<and> dval (nibs q) = \<bar>n\<bar> * 10"
proof -
  let ?b0 = "take 14 buf @ replicate 6 0"
  have b0: "?b0 = replicate 20 0"
    using assms(1,2) by (intro nth_equalityI) (auto simp: nth_append simp del: replicate.simps)
  have m: "(if n < 0 then i32 (- n) else n) = \<bar>n\<bar>" using assms(3) by (auto intro!: i32_id)
  have run: "pack_comparand buf n = (if \<bar>n\<bar> = 0 then Some (replicate 20 0) else do {
       buf \<leftarrow> wr (replicate 20 0) 19 (word_of_int ((\<bar>n\<bar> smod 10) * 16));
       pack_pairs 19 (\<bar>n\<bar> sdiv 10) buf })"
    by (simp only: pack_comparand_def Let_def m b0)
  show ?thesis
  proof (cases "n = 0")
    case True
    have "digs (nibs (replicate 20 0)) \<and> dval (nibs (replicate 20 0)) = 0"
      unfolding nibs_replicate0 using dval_zeros [of 40 "[]"] by simp
    moreover have "pack_comparand buf n = Some (replicate 20 0)" unfolding run using True by simp
    ultimately show ?thesis using True by (intro exI [of _ "replicate 20 0"]) (simp del: replicate.simps)
  next
    case False
    define B where "B = (word_of_int ((\<bar>n\<bar> mod 10) * 16) :: u8)"
    define p1 where "p1 = (replicate 20 0)[19 := B]"
    have d: "0 \<le> \<bar>n\<bar> mod 10" "\<bar>n\<bar> mod 10 \<le> 9" using pos_mod_bound [of 10 "\<bar>n\<bar>"] by simp_all
    have B: "uint B div 16 = \<bar>n\<bar> mod 10" "uint B mod 16 = 0"
      using sign_byte [OF d, of 0] by (simp_all add: B_def)
    have sm: "\<bar>n\<bar> smod 10 = \<bar>n\<bar> mod 10" "\<bar>n\<bar> sdiv 10 = \<bar>n\<bar> div 10" by (simp_all add: smod_nonneg sdiv_nonneg)
    have lp1: "length p1 = 20" "p1 ! 19 = B" by (simp_all add: p1_def del: replicate.simps)
    have z: "\<forall>i < 19. p1 ! i = 0" by (simp add: p1_def del: replicate.simps)
    have r: "0 \<le> \<bar>n\<bar> div 10" "\<bar>n\<bar> div 10 < 10 ^ (2 * 19)" using assms(3) by simp_all
    obtain q where q: "set_int_pairs 19 (\<bar>n\<bar> div 10) p1 = Some q" "length q = length p1"
      "\<forall>i \<ge> 19. i < length p1 \<longrightarrow> q ! i = p1 ! i" "digs (take (2 * 19) (nibs q))"
      "low_val 19 q = \<bar>n\<bar> div 10 mod 10 ^ (2 * 19)"
      using set_int_pairs_val [OF _ r(1) z] lp1(1) by fastforce
    have lq: "length q = 20" "q ! 19 = B" "19 < length q" using q(2,3) lp1 by simp_all
    have "take (2 * Suc 19) (nibs q) = nibs q" using lq(1) by simp
    then have nq: "nibs q = take (2 * 19) (nibs q) @ [\<bar>n\<bar> mod 10, 0]"
      using take_2Suc_nibs [OF lq(3)] unfolding lq(2) B by simp
    have dq: "digs (nibs q)" by (subst nq) (use q(4) d in simp)
    have "dval (nibs q) = low_val 19 q * 100 + (\<bar>n\<bar> mod 10 * 10 + 0)"
      using low_val_Suc [OF lq(3)] low_val_all [of q] unfolding lq(1,2) B by simp
    also have "\<bar>n\<bar> div 10 mod 10 ^ (2 * 19) = \<bar>n\<bar> div 10" using r by (rule mod_pos_pos_trivial)
    then have "low_val 19 q * 100 + (\<bar>n\<bar> mod 10 * 10 + 0) = (\<bar>n\<bar> div 10 * 10 + \<bar>n\<bar> mod 10) * 10"
      unfolding q(5) by (simp only: distrib_right)
    also have "\<dots> = \<bar>n\<bar> * 10" by (simp only: div_mult_mod_eq)
    finally have vq: "dval (nibs q) = \<bar>n\<bar> * 10" .
    have "pack_comparand buf n = Some q"
    proof -
      have "wr (replicate 20 0) 19 B = Some p1" by (simp add: wr_def p1_def del: replicate.simps)
      moreover have "\<bar>n\<bar> \<noteq> 0" using False by simp
      ultimately show ?thesis
        by (simp only: run sm B_def [symmetric] if_False bind.bind_lunit pack_pairs_set_int [OF r] q(1))
    qed
    then show ?thesis using lq dq vq by blast
  qed
qed

lemma cache_high_zero:
  assumes "cache_ok C"
  shows "\<forall>i < 14. packed_value C ! i = 0"
proof -
  let ?p = "packed_value C"
  have l: "length ?p = 20" "digs (nibs ?p)" "dval (nibs ?p) < 10 ^ 12"
    using assms by (simp_all add: cache_ok_def)
  let ?h = "take 28 (nibs ?p)" and ?t = "drop 28 (nibs ?p)"
  have d: "digs ?h" "digs ?t" using l(2) by (metis append_take_drop_id digs_simps(3))+
  have "dval (nibs ?p) = dval ?h * 10 ^ 12 + dval ?t"
    using dval_append [of ?h ?t] l(1) by simp
  moreover have "0 \<le> dval ?h" "0 \<le> dval ?t" using dval_bounds [OF d(1)] dval_bounds [OF d(2)] by simp_all
  ultimately have "dval ?h = 0" using l(3) by simp
  then have z: "\<forall>x \<in> set ?h. x = 0" using dval_zero_iff [OF d(1)] by simp
  have nz: "nibs ?p ! j = 0" if "j < 28" for j
  proof -
    have "?h ! j \<in> set ?h" using that l(1) by (intro nth_mem) simp
    with z that show ?thesis by simp
  qed
  show ?thesis
  proof (intro allI impI)
    fix i :: nat assume i: "i < 14"
    have "i < length ?p" using i l(1) by simp
    from nibs_nth [OF this] nz [of "2 * i"] nz [of "2 * i + 1"] i show "?p ! i = 0"
      by (simp add: byte_eq0)
  qed
qed

lemma packed_diff_val:
  assumes "length xs = length ys" "digs (nibs xs)" "digs (nibs ys)"
  shows "sgn (packed_diff s xs ys) = (if s < 0 then sgn (dval (nibs ys) - dval (nibs xs))
     else sgn (dval (nibs xs) - dval (nibs ys)))"
  using assms
proof (induction xs ys rule: list_induct2)
  case (Cons x xs y ys)
  let ?X = "uint x div 16 * 10 + uint x mod 16" and ?Y = "uint y div 16 * 10 + uint y mod 16"
  let ?E = "(10::int) ^ (2 * length ys)"
  have dx: "digs (nibs xs)" "digs (nibs ys)" "uint x div 16 \<le> 9" "uint x mod 16 \<le> 9" "uint y div 16 \<le> 9" "uint y mod 16 \<le> 9"
    using Cons.prems by simp_all
  have v: "dval (nibs (x # xs)) = ?X * ?E + dval (nibs xs)" "dval (nibs (y # ys)) = ?Y * ?E + dval (nibs ys)"
    using Cons.hyps by (simp_all add: dval_Cons algebra_simps)
  have b: "0 \<le> dval (nibs xs)" "dval (nibs xs) < ?E" "0 \<le> dval (nibs ys)" "dval (nibs ys) < ?E"
    using dval_bounds [OF dx(1)] dval_bounds [OF dx(2)] Cons.hyps by simp_all
  show ?case
  proof (cases "x = y")
    case True
    then show ?thesis using Cons.IH dx v by simp
  next
    case False
    have key: "uint a < uint c \<Longrightarrow> A * ?E + da < C * ?E + dc"
      if "A = uint a div 16 * 10 + uint a mod 16" "C = uint c div 16 * 10 + uint c mod 16"
         "uint a mod 16 \<le> 9" "0 \<le> dc" "da < ?E" for a c :: u8 and A C da dc
    proof -
      assume lt: "uint a < uint c"
      have "uint a = uint a div 16 * 16 + uint a mod 16" "uint c = uint c div 16 * 16 + uint c mod 16" by simp_all
      with lt byte_range [of a] byte_range [of c] that(3)
      have "uint a div 16 < uint c div 16 \<or> uint a div 16 = uint c div 16 \<and> uint a mod 16 < uint c mod 16"
        by linarith
      then have "A + 1 \<le> C" unfolding that(1,2) using byte_range [of a] byte_range [of c] that(3) by linarith
      then have "(A + 1) * ?E \<le> C * ?E" by (rule mult_right_mono) simp
      then show ?thesis using that(4,5) by (simp add: algebra_simps)
    qed
    from False have "uint x < uint y \<or> uint y < uint x" by (metis linorder_neqE word_uint_eq_iff)
    then show ?thesis
    proof
      assume lt: "uint x < uint y"
      from key [OF refl refl dx(4) b(3,2) this] v lt False show ?thesis by simp
    next
      assume lt: "uint y < uint x"
      from key [OF refl refl dx(6) b(1,4) this] v lt False show ?thesis by simp
    qed
  qed
qed simp

text \<open>The operand \<open>val1\<close> of the compare: the item right-aligned in 20 bytes, sign and pad cleared.\<close>

lemma cmp_operand:
  assumes "wf_packed f" "fsize f \<le> 20"
  defines "v \<equiv> replicate (20 - fsize f) 0 @ fdata f"
  defines "v1 \<equiv> v[19 := v ! 19 AND 0xf0]"
  defines "v2 \<equiv> (if even (field_digits f) then v1[20 - fsize f := v1 ! (20 - fsize f) AND 0x0f] else v1)"
  shows "length v2 = 20" "length v1 = 20" "digs (nibs v2)" "dval (nibs v2) = dval (pk_digits f) * 10"
proof -
  let ?n = "fsize f" let ?z = "2 * (20 - fsize f)" let ?e = "empty_digit f"
  have sz: "?n = field_digits f div 2 + 1" and dg: "digs (pk_digits f)" using assms(1) by (simp_all add: wf_packed_def)
  have lv: "length v = 20" using assms(2) by (simp add: v_def fsize_def)
  then show l1: "length v1 = 20" "length v2 = 20" by (simp_all add: v1_def v2_def)
  have lay: "nibs v = replicate ?z 0 @ take ?e (nibs (fdata f)) @ pk_digits f @ [sign_nib f]"
    unfolding v_def nibs_append nibs_replicate0 by (subst nibs_layout [OF sz]) simp
  have n1: "nibs v1 = (nibs v)[39 := 0]" using nibs_mask(2) [of 19 v] lv by (simp add: v1_def)
  have le: "length (take ?e (nibs (fdata f))) = ?e" using packed_layout [OF sz] by simp
  have "length (replicate ?z 0 @ take ?e (nibs (fdata f)) @ pk_digits f) = 39"
  proof -
    have "length (replicate ?z 0 @ take ?e (nibs (fdata f)) @ pk_digits f @ [sign_nib f]) = 40"
      unfolding lay [symmetric] using lv by simp
    then show ?thesis by simp
  qed
  then have n1': "nibs v1 = replicate ?z 0 @ take ?e (nibs (fdata f)) @ pk_digits f @ [0]"
    unfolding n1 lay by (metis append_assoc list_update_length)
  have n2: "nibs v2 = replicate ?z 0 @ replicate ?e 0 @ pk_digits f @ [0]"
  proof (cases "even (field_digits f)")
    case False
    then have "?e = 0" by (simp add: empty_digit_def odd_iff_mod_2_eq_one)
    with False n1' show ?thesis by (simp add: v2_def)
  next
    case True
    then have e: "?e = 1" by (simp add: empty_digit_def)
    obtain t where t: "take ?e (nibs (fdata f)) = [t]" using le e by (metis length_0_conv length_Suc_conv One_nat_def)
    have "20 - ?n < length v1" using l1 sz by simp
    from nibs_mask(1) [OF this] have "nibs v2 = (nibs v1)[?z := 0]" using True by (simp add: v2_def)
    also have "\<dots> = replicate ?z 0 @ [0] @ pk_digits f @ [0]"
      unfolding n1' t by (metis append_Cons append_Nil length_replicate list_update_length)
    finally show ?thesis using e by simp
  qed
  show "digs (nibs v2)" unfolding n2 using dg by simp
  show "dval (nibs v2) = dval (pk_digits f) * 10"
  proof -
    have "dval (nibs v2) = dval ((replicate (?z + ?e) 0 @ pk_digits f) @ [0])" unfolding n2 by (simp add: replicate_add)
    then show ?thesis by (simp only: dval_simps dval_zeros add_0_right)
  qed
qed

lemma cmp_packed_pk:
  assumes wf: "wf_packed f" "fsize f \<le> 20" and C: "cache_ok C" and n: "\<bar>n\<bar> < 2 ^ 31"
    and nz: "\<not> (pk_neg f \<and> pk_val f = 0 \<and> n = 0)"
  shows "\<exists>r C'. cob_cmp_packed C f n = Some (r, C') \<and> cache_ok C' \<and> sgn r = sgn (pk_val f - n)"
proof -
  define s where "s = (if have_sign f then (if pk_neg f then -1 else 1) else (0::int))"
  have sz: "0 < fsize f" and dg: "digs (pk_digits f)" using wf by (simp_all add: wf_packed_def)
  have gs: "cob_packed_get_sign f = Some s" using packed_get_sign_eq [OF sz] by (simp add: s_def)
  have s: "s < 0 \<longleftrightarrow> pk_neg f" by (auto simp: s_def pk_neg_def)
  have p: "0 \<le> dval (pk_digits f)" using dval_bounds [OF dg] by simp
  consider "s \<ge> 0 \<and> n < 0" | "s < 0 \<and> n \<ge> 0" | "(s \<ge> 0 \<and> n \<ge> 0) \<or> (s < 0 \<and> n < 0)" by linarith
  then show ?thesis
  proof cases
    case 1
    then show ?thesis using C s p by (simp add: cob_cmp_packed_def gs pk_val_def)
  next
    case 2
    have "pk_val f < n"
      using 2 s p nz by (cases "dval (pk_digits f) = 0") (auto simp: pk_val_def)
    then show ?thesis using C 2 by (simp add: cob_cmp_packed_def gs)
  next
    case 3
    define v1 where "v1 = (replicate (20 - fsize f) 0 @ fdata f)[19 := (replicate (20 - fsize f) 0 @ fdata f) ! 19 AND 0xf0]"
    define v2 where "v2 = (if even (field_digits f) then v1[20 - fsize f := v1 ! (20 - fsize f) AND 0x0f] else v1)"
    note op = cmp_operand [OF wf, folded v1_def, folded v2_def]
    have mask: "(if even (field_digits f) then
                  if fsize f \<le> 20 then do { b \<leftarrow> rd v1 (20 - fsize f); wr v1 (20 - fsize f) (b AND 0x0f) }
                  else None else Some v1) = Some v2"
      using op(2) sz wf(2) by (simp add: v2_def rd_def wr_def)
    obtain C' where C': "(if n \<noteq> packed_lastval C then do {
               buf \<leftarrow> pack_comparand (packed_value C) n;
               Some \<lparr>packed_value = buf, packed_lastval = n\<rparr> } else Some C) = Some C'"
      "cache_ok C'" "packed_lastval C' = n"
    proof (cases "n = packed_lastval C")
      case True
      then show thesis using that C by simp
    next
      case False
      obtain q where q: "pack_comparand (packed_value C) n = Some q" "length q = 20" "digs (nibs q)" "dval (nibs q) = \<bar>n\<bar> * 10"
        using pack_comparand_val [OF _ cache_high_zero [OF C] n] C by (auto simp: cache_ok_def)
      show thesis
        using that [of "\<lparr>packed_value = q, packed_lastval = n\<rparr>"] False q n by (simp add: cache_ok_def)
    qed
    let ?r = "packed_diff s v2 (packed_value C')"
    have run: "cob_cmp_packed C f n = Some (?r, C')"
    proof -
      have c: "\<not> (0 \<le> s \<and> n < 0)" "\<not> (s < 0 \<and> 0 \<le> n)" using 3 by auto
      show ?thesis
        by (simp only: cob_cmp_packed_def gs bind.bind_lunit if_not_P [OF c(1)] if_not_P [OF c(2)] Let_def
            if_P [OF wf(2)] v1_def [symmetric] mask [unfolded if_P [OF wf(2)]] C'(1))
    qed
    have "sgn ?r = (if s < 0 then sgn (\<bar>n\<bar> * 10 - dval (pk_digits f) * 10) else sgn (dval (pk_digits f) * 10 - \<bar>n\<bar> * 10))"
      using packed_diff_val [of v2 "packed_value C'" s] op C'(2,3) by (simp add: cache_ok_def)
    also have "\<dots> = sgn (pk_val f - n)"
      using 3 s by (auto simp: pk_val_def sgn_if)
    finally show ?thesis using run C'(2) by blast
  qed
qed

section \<open>The inlined operations on items of up to nine digits\<close>

definition pad_clear :: "cob_field \<Rightarrow> bool" where
  "pad_clear f \<longleftrightarrow> (even (field_digits f) \<longrightarrow> nibs (fdata f) ! 0 = 0)"

text \<open>The sign half byte says negative only in a signed item.\<close>

definition sign_clear :: "cob_field \<Rightarrow> bool" where
  "sign_clear f \<longleftrightarrow> (have_sign f \<or> sign_nib f \<noteq> 13)"

lemma pad_drop:
  assumes "digs T" "length T = e + D" "e \<le> 1" "dval T < 10 ^ D"
  shows "dval (drop e T) = dval T" "e = 1 \<Longrightarrow> T ! 0 = 0"
proof -
  have "dval (drop e T) = dval T \<and> (e = 1 \<longrightarrow> T ! 0 = 0)"
  proof (cases "e = 0")
    case False
    then have e: "e = 1" using assms(3) by simp
    then obtain t T' where T: "T = t # T'" using assms(2) by (cases T) simp_all
    then have "length T' = D" "digs T'" "0 \<le> t" "dval T = t * 10 ^ D + dval T'"
      using assms e by (simp_all add: dval_Cons)
    moreover from this have "0 \<le> dval T'" using dval_bounds [of T'] by simp
    ultimately have "t * 10 ^ D < 1 * 10 ^ D" using assms(4) by linarith
    then have "t = 0" using \<open>0 \<le> t\<close> by (simp add: mult_less_cancel_right)
    then show ?thesis using T e by (simp add: dval_Cons)
  qed simp
  then show "dval (drop e T) = dval T" "e = 1 \<Longrightarrow> T ! 0 = 0" by simp_all
qed

lemma packed_front:
  assumes "wf_packed f" "pad_clear f"
  defines "T \<equiv> butlast (nibs (fdata f))"
  shows "nibs (fdata f) = T @ [sign_nib f]" "length T = 2 * fsize f - 1" "digs T" "dval T = dval (pk_digits f)"
proof -
  have sz: "fsize f = field_digits f div 2 + 1" and dg: "digs (pk_digits f)" using assms(1) by (simp_all add: wf_packed_def)
  have T: "T = take (empty_digit f) (nibs (fdata f)) @ pk_digits f"
    unfolding T_def by (subst nibs_layout [OF sz]) (simp add: butlast_append)
  show "nibs (fdata f) = T @ [sign_nib f]" by (subst nibs_layout [OF sz]) (simp add: T)
  show "length T = 2 * fsize f - 1" by (simp add: T_def fsize_def)
  have pre: "take (empty_digit f) (nibs (fdata f)) = replicate (empty_digit f) 0"
  proof (cases "even (field_digits f)")
    case True
    then have "nibs (fdata f) ! 0 = 0" "empty_digit f = 1" using assms(2) by (simp_all add: pad_clear_def empty_digit_def)
    moreover obtain x xs where "nibs (fdata f) = x # xs"
      using packed_layout(2) [OF sz] by (cases "nibs (fdata f)") (simp_all add: length_nibs [symmetric] del: length_nibs)
    ultimately show ?thesis by simp
  qed (simp add: empty_digit_def odd_iff_mod_2_eq_one)
  show "digs T" "dval T = dval (pk_digits f)" unfolding T pre using dg by (simp_all add: dval_zeros)
qed

lemma packed_int_loop_val:
  assumes "bs \<noteq> []" "0 \<le> v" "nibs bs = T @ [s]" "digs T" "v * 10 ^ length T + dval T < 2 ^ 31"
  shows "packed_int_loop v bs = Some (if s = 13 then - (v * 10 ^ length T + dval T) else v * 10 ^ length T + dval T)"
  using assms
proof (induction v bs arbitrary: T rule: packed_int_loop.induct)
  case (1 v)
  then show ?case by simp
next
  case (2 v b)
  then have T: "T = [uint b div 16]" "s = uint b mod 16" by (cases T; simp)+
  have w: "v * 10 + uint b div 16 < 2 ^ 31" using 2 T by (simp add: dval_def)
  have "0 \<le> uint b div 16" by (rule byte_range)
  then have "i32 (v * 10) = v * 10" "i32 (v * 10 + uint b div 16) = v * 10 + uint b div 16"
    "i32 (- (v * 10 + uint b div 16)) = - (v * 10 + uint b div 16)"
    using w 2(2) by (intro i32_id; simp)+
  then show ?case using byte_low_eq [of b 13] by (simp add: Let_def high_nib T dval_def)
next
  case (3 v b c cs)
  let ?h = "uint b div 16" and ?l = "uint b mod 16"
  obtain T' where T: "T = ?h # ?l # T'" "nibs (c # cs) = T' @ [s]"
    using 3(4) by (cases T; cases "tl T") auto
  have d: "0 \<le> ?h" "0 \<le> ?l" "digs T'" using 3(5) T(1) by simp_all
  let ?w = "v * 100 + ?h * 10 + ?l"
  have tot: "v * 10 ^ length T + dval T = ?w * 10 ^ length T' + dval T'"
    by (simp add: T(1) dval_Cons algebra_simps)
  have w0: "0 \<le> ?w" using 3(3) d by simp
  have "(1::int) \<le> 10 ^ length T'" by (rule one_le_power) simp
  then have "?w * 1 \<le> ?w * 10 ^ length T'" using w0 by (rule mult_left_mono)
  also have "\<dots> \<le> ?w * 10 ^ length T' + dval T'" using dval_bounds [OF d(3)] by simp
  also have "\<dots> < 2 ^ 31" using 3(6) unfolding tot .
  finally have lt: "?w < 2 ^ 31" by simp
  have e1: "i32 (v * 10) = v * 10" using 3(3) d lt by (intro i32_id; simp)
  have e2: "i32 (v * 10 + ?h) = v * 10 + ?h" using 3(3) d lt by (intro i32_id; simp)
  have e3: "i32 ((v * 10 + ?h) * 10) = (v * 10 + ?h) * 10" using 3(3) d lt by (intro i32_id; simp)
  have e4: "i32 ((v * 10 + ?h) * 10 + ?l) = ?w" using 3(3) d lt by (subst i32_id; simp)
  have st: "packed_int_loop v (b # c # cs) = packed_int_loop ?w (c # cs)"
    by (simp only: packed_int_loop.simps high_nib low_nib e1 e2 e3 e4)
  have "packed_int_loop ?w (c # cs) = Some (if s = 13 then - (?w * 10 ^ length T' + dval T') else ?w * 10 ^ length T' + dval T')"
    using 3(1) [of T'] w0 T(2) d(3) 3(6) unfolding tot high_nib low_nib e1 e2 e3 e4 by simp
  then show ?case unfolding st tot .
qed

lemma get_packed_int_pk:
  assumes "wf_packed f" "pad_clear f" "sign_clear f" "field_digits f < 10"
  shows "cob_get_packed_int f = Some (pk_val f)"
proof -
  have sz: "fsize f = field_digits f div 2 + 1" and dg: "digs (pk_digits f)" using assms(1) by (simp_all add: wf_packed_def)
  note fr = packed_front [OF assms(1,2)]
  have "dval (pk_digits f) < 10 ^ field_digits f" using dval_bounds [OF dg] length_pk_digits [OF sz] by simp
  also have "(10::int) ^ field_digits f \<le> 10 ^ 9" using assms(4) by (intro exp10_mono) simp
  finally have "dval (pk_digits f) < 2 ^ 31" by simp
  moreover have "fdata f \<noteq> []" using sz by (auto simp: fsize_def)
  ultimately show ?thesis
    using packed_int_loop_val [of "fdata f" 0, OF _ _ fr(1,3)] fr(4) assms(3)
    by (auto simp: cob_get_packed_int_def pk_val_def pk_neg_def sign_clear_def)
qed

lemma base_split: "0 < b \<Longrightarrow> (a * b + c) div b = a + c div (b::int)" "(a * b + c) mod b = c mod b"
  by simp_all

lemma add_pairs_val:
  assumes "i \<le> length p" "0 \<le> n" "carry = 0 \<or> carry = 1" "digs (take (2 * i) (nibs p))"
  shows "\<exists>q. add_pairs i carry n p = Some q \<and> length q = length p \<and> (\<forall>m \<ge> i. m < length p \<longrightarrow> q ! m = p ! m) \<and>
    digs (take (2 * i) (nibs q)) \<and> low_val i q = (low_val i p + carry + n) mod 10 ^ (2 * i)"
  using assms
proof (induction i arbitrary: n carry p)
  case 0
  then show ?case by (simp add: low_val_def)
next
  case (Suc i)
  have il: "i < length p" using Suc.prems(1) by simp
  have dp: "digs (take (2 * i) (nibs p))" "0 \<le> uint (p ! i) div 16" "uint (p ! i) div 16 \<le> 9" "uint (p ! i) mod 16 \<le> 9"
    using Suc.prems(4) unfolding take_2Suc_nibs [OF il] by simp_all
  have lb: "0 \<le> low_val j p \<and> low_val j p < 10 ^ (2 * j)" if "j \<le> Suc i" for j
  proof -
    have "take (2 * j) (nibs p) = take (2 * j) (take (2 * Suc i) (nibs p))" using that by (simp add: min_def)
    then have "digs (take (2 * j) (nibs p))" using Suc.prems(4) by (metis append_take_drop_id digs_simps(3))
    moreover have "length (take (2 * j) (nibs p)) = 2 * j" using that Suc.prems(1) by simp
    ultimately show ?thesis using dval_bounds [of "take (2 * j) (nibs p)"] by (simp add: low_val_def)
  qed
  show ?case
  proof (cases "carry = 0 \<and> n = 0")
    case True
    have "low_val (Suc i) p mod 10 ^ (2 * Suc i) = low_val (Suc i) p"
      using lb [of "Suc i"] by (intro mod_pos_pos_trivial) simp_all
    with True Suc.prems(4) show ?thesis by (simp del: mult_Suc_right)
  next
    case False
    let ?x = "uint (p ! i) div 16 * 10 + uint (p ! i) mod 16"
    define inc where "inc = ?x + carry + n mod 100"
    have v: "0 \<le> n mod 100" "n mod 100 < 100" "n smod 100 = n mod 100" "n sdiv 100 = n div 100" "0 \<le> n div 100"
      using Suc.prems(2) by (simp_all add: smod_nonneg sdiv_nonneg)
    have inc: "0 \<le> inc" "inc < 200" "inc smod 100 = inc mod 100" "inc sdiv 100 = inc div 100"
    proof -
      show "0 \<le> inc" "inc < 200" using v dp Suc.prems(3) by (auto simp: inc_def)
      then show "inc smod 100 = inc mod 100" "inc sdiv 100 = inc div 100" by (simp_all add: smod_nonneg sdiv_nonneg)
    qed
    define c where "c = inc mod 100"
    have c: "0 \<le> c" "c < 100" by (simp_all add: c_def)
    have cd: "c sdiv 10 = c div 10" "c smod 10 = c mod 10" using c by (simp_all add: smod_nonneg sdiv_nonneg)
    define b where "b = packed_bytes ! nat c"
    have bw: "(word_of_int ((c div 10) * 16 OR c mod 10) :: u8) = b"
      using pair_byte [OF c] by (simp add: b_def or.commute)
    note db = decimal_byte [OF c packed_bytes_nth [OF c], folded b_def]
    have ic: "inc div 100 = 0 \<or> inc div 100 = 1" using inc(1,2) by presburger
    have dp1: "digs (take (2 * i) (nibs (p[i := b])))"
      using dp(1) by (subst low_val_take [of i _ p]) (use il in simp_all)
    obtain q where q: "add_pairs i (inc div 100) (n div 100) (p[i := b]) = Some q" "length q = length p"
      "\<forall>m \<ge> i. m < length p \<longrightarrow> q ! m = p[i := b] ! m" "digs (take (2 * i) (nibs q))"
      "low_val i q = (low_val i p + inc div 100 + n div 100) mod 10 ^ (2 * i)"
      using Suc.IH [of "p[i := b]" "n div 100" "inc div 100", OF _ v(5) ic dp1] il by (auto simp: low_val_upd)
    have qi: "i < length q" "q ! i = b" using q(2,3) il by simp_all
    have run: "add_pairs (Suc i) carry n p = Some q"
      using False il q(1)
      by (simp only: add_pairs.simps rd_def wr_def if_True Let_def bind.bind_lunit high_nib low_nib v inc_def [symmetric]
          inc(3,4) c_def [symmetric] cd bw) simp
    have "low_val (Suc i) q = ((low_val i p + inc div 100 + n div 100) mod 10 ^ (2 * i)) * 100 + c"
      unfolding low_val_Suc [OF qi(1)] qi(2) q(5) db(1) ..
    also have "\<dots> = (((low_val i p + n div 100) * 100 + inc) div 100 mod 10 ^ (2 * i)) * 100 + ((low_val i p + n div 100) * 100 + inc) mod 100"
    proof -
      have "((low_val i p + n div 100) * 100 + inc) div 100 = low_val i p + n div 100 + inc div 100"
        by (rule base_split) simp
      moreover have "((low_val i p + n div 100) * 100 + inc) mod 100 = c"
        unfolding c_def by (rule base_split)
      ultimately show ?thesis by (simp only: add.assoc add.commute [of "n div 100"])
    qed
    also have "\<dots> = ((low_val i p + n div 100) * 100 + inc) mod (100 * 10 ^ (2 * i))"
      using lb [of i] v(5) inc(1) by (intro mod_100_split [symmetric]) simp
    also have "(low_val i p + n div 100) * 100 + inc = low_val (Suc i) p + carry + n"
      unfolding low_val_Suc [OF il] inc_def by (simp only: distrib_right) (simp add: algebra_simps)
    also have "(100 * 10 ^ (2 * i)) = (10::int) ^ (2 * Suc i)" by simp
    finally have val: "low_val (Suc i) q = (low_val (Suc i) p + carry + n) mod 10 ^ (2 * Suc i)" .
    have "digs (take (2 * Suc i) (nibs q))" unfolding take_2Suc_nibs [OF qi(1)] qi(2) using q(4) db by simp
    moreover have "\<forall>m \<ge> Suc i. m < length p \<longrightarrow> q ! m = p ! m" using q(3) by simp
    ultimately show ?thesis using run q(2) val by blast
  qed
qed

lemma mod_exp10_mono: "0 \<le> v \<Longrightarrow> v < 10 ^ k \<Longrightarrow> k \<le> j \<Longrightarrow> (v::int) mod 10 ^ j = v"
  using exp10_mono [of k j] by (intro mod_pos_pos_trivial) linarith+

lemma add_packed_int_pk:
  assumes wf: "wf_packed f" "pad_clear f" "sign_clear f" and sc: "field_scale f = 0"
    and n: "\<bar>n\<bar> < 2 ^ 31" "\<bar>n\<bar> < 10 ^ field_digits f" and fit: "\<bar>pk_val f + n\<bar> < 10 ^ field_digits f"
  shows "\<exists>g. cob_add_packed_int f n = Some (0, g) \<and> g = set_data f (fdata g) \<and> wf_packed g \<and>
    pk_val g = packed_sum f n"
proof -
  let ?D = "field_digits f" let ?k = "?D div 2" let ?p = "fdata f" let ?B = "?p ! ?k"
  have sz: "fsize f = ?k + 1" and dg: "digs (pk_digits f)" and D: "0 < ?D" using wf by (simp_all add: wf_packed_def)
  have lp: "length ?p = Suc ?k" "?k < length ?p" "fsize f - 1 = ?k" using sz by (simp_all add: fsize_def)
  note fr = packed_front [OF wf(1,2)]
  have pn: "pk_neg f \<longleftrightarrow> ?B AND 0x0f = 0x0d"
  proof -
    have "sign_nib f = uint ?B mod 16" using nibs_nth [OF lp(2)] lp(1,3) sz by (simp add: sign_nib_def)
    then show ?thesis using wf(3) by (auto simp: pk_neg_def sign_clear_def byte_low_eq)
  qed
  have pos: "0 \<le> dval (pk_digits f)" using dval_bounds [OF dg] by simp
  show ?thesis
  proof (cases "n = 0")
    case True
    then show ?thesis using wf(1) pos
      by (intro exI [of _ f]) (simp add: cob_add_packed_int_def packed_sum_def pk_val_def pk_neg_def)
  next
    case nz: False
    have rdB: "rd ?p (fsize f - 1) = Some ?B" using lp by (simp add: rd_def)
    show ?thesis
    proof (cases "if pk_neg f then n > 0 else n < 0")
      case True
      have "\<bar>n * 10 ^ nat (field_scale f)\<bar> < 2 ^ 63" using n(1) sc by simp
      then obtain g where "cob_add_packed f n = Some g" "g = set_data f (fdata g)" "wf_packed g" "pk_val g = packed_sum f n"
        using add_packed_pk [OF wf(1), of n] n(2) fit sc by auto
      moreover have "cob_add_packed_int f n = do { f \<leftarrow> cob_add_packed f n; Some (0, f) }"
        by (simp only: cob_add_packed_int_def nz if_False rdB bind.bind_lunit Let_def if_P [OF True [unfolded pn]])
      ultimately show ?thesis by simp
    next
      case False
      have m: "(if ?B AND 0x0f = 0x0d then i32 (- n) else n) = \<bar>n\<bar>"
        using False n(1) by (auto simp: pn intro!: i32_id split: if_splits)
      have sm: "\<bar>n\<bar> smod 10 = \<bar>n\<bar> mod 10" "\<bar>n\<bar> sdiv 10 = \<bar>n\<bar> div 10" by (simp_all add: smod_nonneg sdiv_nonneg)
      define h where "h = uint ?B div 16"
      let ?T = "butlast (nibs ?p)"
      have nb: "nibs ?p = take (2 * ?k) (nibs ?p) @ [h, uint ?B mod 16]"
        using take_2Suc_nibs [OF lp(2)] lp(1) by (simp add: h_def)
      then have Tk: "?T = take (2 * ?k) (nibs ?p) @ [h]" by (metis butlast.simps(2) butlast_append list.distinct(1))
      then have dT: "digs (take (2 * ?k) (nibs ?p))" "0 \<le> h" "h \<le> 9" using fr(3) by simp_all
      have vT: "dval (pk_digits f) = low_val ?k ?p * 10 + h" using fr(4) unfolding Tk by (simp add: low_val_def)
      define inc where "inc = h + \<bar>n\<bar> mod 10"
      have inc: "0 \<le> inc" "inc \<le> 18" "inc smod 10 = inc mod 10" "inc sdiv 10 = inc div 10"
      proof -
        have "\<bar>n\<bar> mod 10 < 10" by simp
        then show "0 \<le> inc" "inc \<le> 18" using dT by (simp_all add: inc_def)
        then show "inc smod 10 = inc mod 10" "inc sdiv 10 = inc div 10" by (simp_all add: smod_nonneg sdiv_nonneg)
      qed
      have d: "0 \<le> inc mod 10" "inc mod 10 \<le> 9" using pos_mod_bound [of 10 inc] by simp_all
      define b where "b = word_of_int ((inc mod 10) * 16) OR (?B AND 0x0f)"
      have low: "uint (?B AND 0x0f) = uint ?B mod 16" "uint (?B AND 0x0f) < 16" by (simp_all only: low_nib byte_range)
      have b: "uint b div 16 = inc mod 10" "uint b mod 16 = uint ?B mod 16"
        using sign_byte [OF d low(2)] unfolding b_def [symmetric] low(1) by (simp_all add: add.commute)
      define p1 where "p1 = ?p[?k := b]"
      have p1: "length p1 = Suc ?k" "p1 ! ?k = b" using lp by (simp_all add: p1_def)
      have lo1: "take (2 * ?k) (nibs p1) = take (2 * ?k) (nibs ?p)"
        unfolding p1_def by (rule low_val_take) (use lp in simp_all)
      have c: "inc div 10 = 0 \<or> inc div 10 = 1" using inc(1,2) by presburger
      obtain q where q: "add_pairs ?k (inc div 10) (\<bar>n\<bar> div 10) p1 = Some q" "length q = length p1"
        "\<forall>i \<ge> ?k. i < length p1 \<longrightarrow> q ! i = p1 ! i" "digs (take (2 * ?k) (nibs q))"
        "low_val ?k q = (low_val ?k p1 + inc div 10 + \<bar>n\<bar> div 10) mod 10 ^ (2 * ?k)"
      proof -
        have "?k \<le> length p1" "0 \<le> \<bar>n\<bar> div 10" "digs (take (2 * ?k) (nibs p1))"
          using p1(1) dT(1) lo1 by simp_all
        from add_pairs_val [OF this(1,2) c this(3)] that show thesis by blast
      qed
      have lq: "length q = Suc ?k" "?k < length q" "q ! ?k = b" using q(2,3) p1 by simp_all
      let ?U = "take (2 * ?k) (nibs q) @ [inc mod 10]"
      have nq: "nibs q = ?U @ [uint ?B mod 16]"
        using take_2Suc_nibs [OF lq(2)] lq(1) unfolding lq(3) b by simp
      have dU: "digs ?U" using q(4) d by simp
      have lU: "length ?U = 2 * ?k + 1" using lq(1) by simp
      let ?m = "dval (pk_digits f) + \<bar>n\<bar>"
      have mabs: "?m = \<bar>pk_val f + n\<bar>" using False pos by (auto simp: pk_val_def split: if_splits)
      have vU: "dval ?U = ?m"
      proof -
        have "dval ?U = ((low_val ?k ?p + \<bar>n\<bar> div 10) * 10 + inc) div 10 mod 10 ^ (2 * ?k) * 10 +
            ((low_val ?k ?p + \<bar>n\<bar> div 10) * 10 + inc) mod 10"
        proof -
          have "dval ?U = (low_val ?k ?p + inc div 10 + \<bar>n\<bar> div 10) mod 10 ^ (2 * ?k) * 10 + inc mod 10"
            using q(5) lo1 by (simp add: low_val_def)
          moreover have "((low_val ?k ?p + \<bar>n\<bar> div 10) * 10 + inc) div 10 = low_val ?k ?p + \<bar>n\<bar> div 10 + inc div 10"
            by (rule base_split) simp
          moreover have "((low_val ?k ?p + \<bar>n\<bar> div 10) * 10 + inc) mod 10 = inc mod 10" by (rule base_split)
          ultimately show ?thesis by (simp only: add.assoc add.commute [of "\<bar>n\<bar> div 10"])
        qed
        also have "(low_val ?k ?p + \<bar>n\<bar> div 10) * 10 + inc = ?m"
          unfolding vT inc_def using div_mult_mod_eq [of "\<bar>n\<bar>" 10] by (simp add: distrib_right del: div_mult_mod_eq)
        also have "?m div 10 mod 10 ^ (2 * ?k) * 10 + ?m mod 10 = ?m mod 10 ^ (2 * ?k + 1)"
          by (rule mod_10_odd_split [symmetric]) (use pos in simp)
        also have "\<dots> = ?m"
        proof (rule mod_exp10_mono)
          show "0 \<le> ?m" using pos by simp
          show "?m < 10 ^ ?D" using fit mabs by simp
          show "?D \<le> 2 * ?k + 1" by presburger
        qed
        finally show ?thesis .
      qed
      have eD: "length ?U = empty_digit f + ?D" "empty_digit f \<le> 1" unfolding lU empty_digit_def by presburger+
      let ?g = "set_data f q"
      have pdU: "pk_digits ?g = drop (empty_digit f) ?U"
        unfolding pk_digits_def seg_def by (simp only: set_data_sel empty_digit_set_data) (subst nq, rule take_drop_snoc [OF eD(1)])
      have ltU: "dval ?U < 10 ^ ?D" unfolding vU using fit mabs by simp
      have pd: "dval (pk_digits ?g) = ?m" "digs (pk_digits ?g)"
        unfolding pdU pad_drop(1) [OF dU eD ltU] vU using digs_drop [OF dU] by blast+
      have "sign_nib ?g = uint ?B mod 16"
      proof -
        have "fsize ?g = Suc ?k" using lq by simp
        then have "sign_nib ?g = nibs q ! (2 * ?k + 1)" by (simp add: sign_nib_def)
        also have "\<dots> = uint ?B mod 16" by (subst nq) (simp only: lU [symmetric] nth_append_length)
        finally show ?thesis .
      qed
      then have neg: "pk_neg ?g = pk_neg f"
        using pn wf(3) by (auto simp: pk_neg_def byte_low_eq)
      have "cob_add_packed_int f n = Some (0, ?g)"
      proof -
        have nt: "\<not> (if ?B AND 0x0f = 0x0d then n > 0 else n < 0)" using False unfolding pn .
        have w: "wr ?p ?k b = Some p1" using lp by (simp add: wr_def p1_def)
        show ?thesis
          by (simp only: cob_add_packed_int_def nz if_False rdB [unfolded lp(3)] bind.bind_lunit Let_def if_not_P [OF nt] m sm high_nib
              h_def [symmetric] inc_def [symmetric] inc(3,4) b_def [symmetric] lp(3) w q(1))
      qed
      moreover have "wf_packed ?g" using D sz lq pd by (simp add: wf_packed_def)
      moreover have "pk_val ?g = packed_sum f n"
        using False neg pd(1) pos by (auto simp: packed_sum_def pk_val_def pk_neg_def split: if_splits)
      ultimately show ?thesis by (intro exI [of _ ?g]) simp
    qed
  qed
qed

lemma packed_store_load_core:
  fixes R :: cob_rt
  assumes wf: "field_digits f > 0" "fsize f = field_digits f div 2 + 1"
    and v: "\<bar>v\<bar> < 10 ^ field_digits f" and sz: "field_digits f < 2048"
  shows "\<exists>g. cob_decimal_get_packed R (mkdec v (field_scale f)) f opt = Some (0, R, g) \<and>
    cob_decimal_set_packed g = Some (mkdec (if have_sign f then v else \<bar>v\<bar>) (field_scale f))"
proof -
  have room: "\<bar>dvalue (mkdec v (field_scale f))\<bar> < 10 ^ 2047" unfolding mkdec_sel by (rule less_le_trans [OF v exp10_mono]) (use sz in simp)
  from get_packed_pk(2) [OF wf room, of opt R] v obtain g where
    g: "cob_decimal_get_packed R (mkdec v (field_scale f)) f opt = Some (0, R, g)"
      "g = set_data f (fdata g)" "wf_packed g" "dval (pk_digits g) = \<bar>v\<bar>" "pk_neg g = (have_sign f \<and> v < 0)" by auto
  have "pk_val g = (if have_sign f then v else \<bar>v\<bar>)" using g(4,5) by (auto simp: pk_val_def)
  moreover have "field_scale g = field_scale f" by (metis g(2) set_data_sel(6))
  ultimately show ?thesis using g(1) set_packed_pk [OF g(3)] by auto
qed

end
