(* ===== verification/Cob_Binary.thy ===== *)
theory Cob_Binary
  imports Cob_Cells Cob_Display
begin

text \<open>
  Binary items (BINARY, COMP-5, COMP-X) of one to eight bytes: the byte-wise access of
  numeric.c and move.c (\<open>cob_binary_get_int64\<close>, \<open>cob_binary_set_int64\<close>, \<open>\<dots>\<close>), and the load into
  and the store from a decimal (\<open>cob_decimal_set_binary\<close>, \<open>cob_decimal_get_binary\<close>) with its
  two overflow rules, for hosts whose \<open>long\<close> is 64 bits wide (\<open>COB_LI_IS_LL\<close>) and for the
  others. The \<open>COB_EXPERIMENTAL\<close> access to GMP's limbs is not modelled.
\<close>

section \<open>Byte-wise access\<close>

definition cob_binary_get_int64 :: "target \<Rightarrow> cob_field \<Rightarrow> int option" where
  "cob_binary_get_int64 T f =
    (let fsiz = 8 - fsize f in
     if fsize f = 0 then None
     else if \<not> words_bigendian T then
       if binary_swap f then
         if have_sign f then do {
           n \<leftarrow> obj_in T 8 0 (fdata f);
           Some (drop_bit (8 * fsiz) (i64 (cob_bswap_64 n))) }
         else do {
           n \<leftarrow> obj_in T 8 fsiz (fdata f);
           Some (i64 (cob_bswap_64 n)) }
       else
         if have_sign f then do {
           n \<leftarrow> obj_in T 8 fsiz (fdata f);
           Some (drop_bit (8 * fsiz) (i64 n)) }
         else do {
           n \<leftarrow> obj_in T 8 0 (fdata f);
           Some (i64 n) }
     else
       if have_sign f then do {
         n \<leftarrow> obj_in T 8 0 (fdata f);
         Some (drop_bit (8 * fsiz) (i64 n)) }
       else do {
         n \<leftarrow> obj_in T 8 fsiz (fdata f);
         Some (i64 n) })"

definition cob_binary_get_uint64 :: "target \<Rightarrow> cob_field \<Rightarrow> int option" where
  "cob_binary_get_uint64 T f =
    (let fsiz = 8 - fsize f in
     if fsize f = 0 then None
     else if \<not> words_bigendian T then
       if binary_swap f then do {
         n \<leftarrow> obj_in T 8 fsiz (fdata f);
         Some (cob_bswap_64 n) }
       else obj_in T 8 0 (fdata f)
     else obj_in T 8 fsiz (fdata f))"

definition cob_binary_set_uint64 :: "target \<Rightarrow> cob_field \<Rightarrow> int \<Rightarrow> cob_field option" where
  "cob_binary_set_uint64 T f n =
    (if fsize f = 0 \<or> 8 < fsize f then None
     else do {
       bs \<leftarrow> (if \<not> words_bigendian T then
                if binary_swap f then obj_out T 8 (8 - fsize f) (fsize f) (cob_bswap_64 (u64 n))
                else obj_out T 8 0 (fsize f) (u64 n)
              else obj_out T 8 (8 - fsize f) (fsize f) (u64 n));
       Some (set_data f bs) })"

definition cob_binary_set_int64 :: "target \<Rightarrow> cob_field \<Rightarrow> int \<Rightarrow> cob_field option" where
  "cob_binary_set_int64 T f n =
    (if fsize f = 0 \<or> 8 < fsize f then None
     else do {
       bs \<leftarrow> (if \<not> words_bigendian T then
                if binary_swap f then obj_out T 8 (8 - fsize f) (fsize f) (cob_bswap_64 (u64 n))
                else obj_out T 8 0 (fsize f) (u64 n)
              else obj_out T 8 (8 - fsize f) (fsize f) (u64 n));
       Some (set_data f bs) })"

text \<open>The copies of the two in move.c.\<close>

definition cob_binary_mget_int64 :: "target \<Rightarrow> cob_field \<Rightarrow> int option" where
  "cob_binary_mget_int64 T f = cob_binary_get_int64 T f"

definition cob_binary_mset_int64 :: "target \<Rightarrow> cob_field \<Rightarrow> int \<Rightarrow> cob_field option" where
  "cob_binary_mset_int64 T f n = cob_binary_set_int64 T f n"

section \<open>GMP's conversions to and from machine integers\<close>

text \<open>
  \<open>mpz_get_ui\<close> returns the low bits of the magnitude; \<open>mpz_get_si\<close> the value where it fits
  and otherwise low bits of the magnitude with the sign. The width is that of \<open>long\<close>.
\<close>

definition long_bits :: "target \<Rightarrow> nat" where
  "long_bits T = (if cob_li_is_ll T then 64 else 32)"

definition mpz_get_ui :: "target \<Rightarrow> int \<Rightarrow> int" where
  "mpz_get_ui T v = take_bit (long_bits T) \<bar>v\<bar>"

definition mpz_get_si :: "target \<Rightarrow> int \<Rightarrow> int" where
  "mpz_get_si T v =
    (if v < 0 then - 1 - take_bit (long_bits T - 1) (\<bar>v\<bar> - 1)
     else take_bit (long_bits T - 1) v)"

section \<open>Decimals\<close>

definition cob_decimal_set_binary :: "target \<Rightarrow> cob_field \<Rightarrow> cob_decimal option" where
  "cob_decimal_set_binary T f = do {
     v \<leftarrow> (if cob_li_is_ll T then
             (if have_sign f then cob_binary_get_int64 T f else cob_binary_get_uint64 T f)
           else if fsize f \<le> 4 then
             (if have_sign f then map_option i32 (cob_binary_get_int64 T f)
              else map_option u32 (cob_binary_get_uint64 T f))
           else if have_sign f then do {
             val \<leftarrow> cob_binary_get_int64 T f;
             let negative = (val < 0);
             let val = (if val < 0 then i64 (- val) else val);
             let v = u32 (drop_bit 32 (val AND 0x7FFFFFFF00000000)) * 2 ^ 32 + u32 (val AND 0xffffffff);
             Some (if negative then - v else v) }
           else do {
             uval \<leftarrow> cob_binary_get_uint64 T f;
             Some (u32 (drop_bit 32 uval) * 2 ^ 32 + u32 (uval AND 0xffffffff)) });
     Some (mkdec v (field_scale f)) }"

definition store_binary :: "target \<Rightarrow> cob_field \<Rightarrow> bool \<Rightarrow> int \<Rightarrow> cob_field option" where
  "store_binary T f unsgn v =
    (if cob_li_is_ll T \<or> fsize f \<le> 4 then
       (if unsgn then cob_binary_set_uint64 T f (mpz_get_ui T v)
        else cob_binary_set_int64 T f (mpz_get_si T v))
     else
       let lo = u32 (mpz_get_ui T (v mod 2 ^ 32)); v = v div 2 ^ 32 in
       if unsgn then cob_binary_set_uint64 T f (u64 (u64 (push_bit 32 (mpz_get_ui T v)) OR lo))
       else cob_binary_set_int64 T f (i64 (i64 (push_bit 32 (mpz_get_si T v)) OR lo)))"

definition truncate_binary :: "cob_field \<Rightarrow> u8 \<Rightarrow> int \<Rightarrow> int" where
  "truncate_binary f opt v =
    (if opt_set opt COB_STORE_TRUNC_ON_OVERFLOW then v smod 10 ^ field_digits f
     else v mod 2 ^ (fsize f * 8))"

definition COB_MAX_BINARY :: nat where
  "COB_MAX_BINARY = 36"

definition cob_decimal_get_binary ::
  "cob_rt \<Rightarrow> target \<Rightarrow> cob_module \<Rightarrow> cob_decimal \<Rightarrow> cob_field \<Rightarrow> u8 \<Rightarrow> (int \<times> cob_rt \<times> cob_field) option" where
  "cob_decimal_get_binary R T M d f opt =
    (if dvalue d = 0 then Some (0, R, set_data f (replicate (fsize f) 0))
     else
       let v = (if have_sign f then dvalue d else \<bar>dvalue d\<bar>);
           bitnum = fsize f * 8 - (if have_sign f then 1 else 0);
           wide = (2 ^ bitnum \<le> \<bar>v\<bar>);
           pic_check = (opt \<noteq> 0 \<and> flag_binary_truncate M);
           overflow = (wide \<or> pic_check \<and> 10 ^ field_digits f \<le> \<bar>v\<bar>);
           R1 = (if overflow then cob_set_exception R COB_EC_SIZE_OVERFLOW else R) in
       if COB_MAX_BINARY \<le> field_digits f \<and>
          (if wide then opt_set opt COB_STORE_TRUNC_ON_OVERFLOW \<and> \<not> opt_set opt COB_STORE_KEEP_ON_OVERFLOW
           else pic_check) then None
       else if overflow \<and> opt_set opt COB_STORE_KEEP_ON_OVERFLOW then Some (exception_code R1, R1, f)
       else do {
         g \<leftarrow> store_binary T f (\<not> have_sign f \<or> overflow) (if overflow then truncate_binary f opt v else v);
         Some (if overflow then exception_code R1 else 0, R1, g) })"

section \<open>What a binary item holds\<close>

definition wf_binary :: "cob_field \<Rightarrow> bool" where
  "wf_binary f \<longleftrightarrow> 0 < fsize f \<and> fsize f \<le> 8"

definition bin_be :: "target \<Rightarrow> cob_field \<Rightarrow> bool" where
  "bin_be T f \<longleftrightarrow> words_bigendian T \<or> binary_swap f"

definition bin_raw :: "target \<Rightarrow> cob_field \<Rightarrow> int" where
  "bin_raw T f = end_val (bin_be T f) (fdata f)"

definition bin_val :: "target \<Rightarrow> cob_field \<Rightarrow> int" where
  "bin_val T f = (if have_sign f then signed_take_bit (8 * fsize f - 1) (bin_raw T f) else bin_raw T f)"

lemma bin_raw_bounds: "0 \<le> bin_raw T f" "bin_raw T f < 2 ^ (8 * fsize f)"
  using end_val_bounds [of "bin_be T f" "fdata f"] by (simp_all add: bin_raw_def fsize_def)

lemma bswap_high:
  assumes "length bs + d = 8"
  shows "cob_bswap_64 (le_val (bs @ replicate d 0)) = 256 ^ d * le_val (rev bs)"
    and "cob_bswap_64 (le_val (replicate d 0 @ bs)) = le_val (rev bs)"
  using bswap_64_le_val [of "bs @ replicate d 0"] bswap_64_le_val [of "replicate d 0 @ bs"] assms
  by (simp_all add: le_val_append)

lemma obj_in_plain:
  assumes "\<not> words_bigendian T" "length bs + d = 8"
  shows "obj_in T 8 0 bs = Some (le_val (bs @ replicate d 0))"
    and "obj_in T 8 d bs = Some (le_val (replicate d 0 @ bs))"
proof -
  have "8 - length bs = d" using assms(2) by simp
  then show "obj_in T 8 0 bs = Some (le_val (bs @ replicate d 0))"
    "obj_in T 8 d bs = Some (le_val (replicate d 0 @ bs))"
    using assms by (auto simp: obj_in_def wrs_def host_val_def)
qed

lemma u64_raw: "length bs \<le> 8 \<Longrightarrow> u64 (end_val be bs) = end_val be bs"
  using take_bit_le_val [of bs 64] take_bit_le_val [of "rev bs" 64] by (simp add: end_val_def)

lemma get_uint64_raw: "wf_binary f \<Longrightarrow> cob_binary_get_uint64 T f = Some (bin_raw T f)"
proof -
  assume wf: "wf_binary f"
  let ?d = "8 - fsize f"
  have l: "length (fdata f) + ?d = 8" and p: "fsize f \<noteq> 0"
    using wf by (simp_all add: wf_binary_def fsize_def)
  show ?thesis
  proof (cases "words_bigendian T")
    case True
    then have "obj_in T 8 ?d (fdata f) = Some (le_val (rev (fdata f)))"
      using obj_in_low [OF l, of T] by (simp add: low_off_def host_val_def)
    then show ?thesis using True p by (simp add: cob_binary_get_uint64_def Let_def bin_raw_def bin_be_def end_val_def)
  next
    case False
    then show ?thesis using p obj_in_plain [OF False l] bswap_high [OF l]
      by (simp add: cob_binary_get_uint64_def Let_def bin_raw_def bin_be_def end_val_def le_val_append)
  qed
qed

lemma get_int64_raw:
  "wf_binary f \<Longrightarrow> cob_binary_get_int64 T f =
    Some (if have_sign f then signed_take_bit (8 * fsize f - 1) (bin_raw T f) else i64 (bin_raw T f))"
proof -
  assume wf: "wf_binary f"
  let ?d = "8 - fsize f"
  have l: "length (fdata f) + ?d = 8" and p: "fsize f \<noteq> 0" "0 < length (fdata f)"
    using wf by (simp_all add: wf_binary_def fsize_def)
  have sh: "drop_bit (8 * ?d) (i64 (256 ^ ?d * v)) = signed_take_bit (8 * fsize f - 1) v" for v :: int
    using shift_with_sign [OF p(2), of ?d v] l by (simp add: fsize_def)
  show ?thesis
  proof (cases "words_bigendian T")
    case True
    then have "obj_in T 8 ?d (fdata f) = Some (le_val (rev (fdata f)))"
      "obj_in T 8 0 (fdata f) = Some (256 ^ ?d * le_val (rev (fdata f)))"
      using obj_in_low [OF l, of T] obj_in_high [OF l, of T] by (simp_all add: low_off_def high_off_def host_val_def)
    then show ?thesis using True p
      by (simp add: cob_binary_get_int64_def Let_def bin_raw_def bin_be_def end_val_def sh)
  next
    case False
    then show ?thesis using p obj_in_plain [OF False l] bswap_high [OF l]
      by (simp add: cob_binary_get_int64_def Let_def bin_raw_def bin_be_def end_val_def le_val_append sh
          del: mult_Suc_right)
  qed
qed

lemma obj_out_swap:
  assumes "\<not> words_bigendian T" "k + d = 8"
  shows "obj_out T 8 d k (cob_bswap_64 (u64 n)) = Some (rev (le_bytes k n))"
    and "obj_out T 8 0 k (u64 n) = Some (le_bytes k n)"
proof -
  have u: "u64 n = le_val (le_bytes 8 n)" by (simp add: le_val_le_bytes take_bit_eq_mod)
  have "le_bytes 8 (cob_bswap_64 (u64 n)) = rev (le_bytes 8 n)"
    using bswap_64_le_val [of "le_bytes 8 n"] le_bytes_le_val [of "rev (le_bytes 8 n)"] by (simp add: u)
  moreover have "take k (drop d (rev (le_bytes 8 n))) = rev (le_bytes k n)"
  proof -
    have "8 - d = k" "k \<le> 8" using assms(2) by simp_all
    then show ?thesis using take_le_bytes [of k 8 n] by (simp add: drop_rev)
  qed
  ultimately show "obj_out T 8 d k (cob_bswap_64 (u64 n)) = Some (rev (le_bytes k n))"
    using assms by (simp add: obj_out_def host_bytes_def rds_def)
  show "obj_out T 8 0 k (u64 n) = Some (le_bytes k n)"
    using assms take_le_bytes [of k 8 "u64 n"] le_bytes_take_bit [of k 64 n]
    by (simp add: obj_out_def host_bytes_def rds_def)
qed

lemma set_int64_raw:
  assumes "wf_binary f"
  shows "cob_binary_set_uint64 T f n = Some (set_data f (end_bytes (bin_be T f) (fsize f) n))"
    and "cob_binary_set_int64 T f n = Some (set_data f (end_bytes (bin_be T f) (fsize f) n))"
proof -
  have l: "fsize f + (8 - fsize f) = 8" and g: "\<not> (fsize f = 0 \<or> 8 < fsize f)" using assms by (auto simp: wf_binary_def)
  have be: "words_bigendian T \<Longrightarrow> obj_out T 8 (8 - fsize f) (fsize f) (u64 n) = Some (rev (le_bytes (fsize f) n))"
    using obj_out_low [OF l, of T "u64 n"] le_bytes_take_bit [of "fsize f" 64 n] assms
    by (simp add: low_off_def host_bytes_def wf_binary_def)
  show "cob_binary_set_uint64 T f n = Some (set_data f (end_bytes (bin_be T f) (fsize f) n))"
    unfolding cob_binary_set_uint64_def if_not_P [OF g]
    by (simp add: be obj_out_swap [OF _ l] end_bytes_def bin_be_def)
  show "cob_binary_set_int64 T f n = Some (set_data f (end_bytes (bin_be T f) (fsize f) n))"
    unfolding cob_binary_set_int64_def if_not_P [OF g]
    by (simp add: be obj_out_swap [OF _ l] end_bytes_def bin_be_def)
qed

lemma set_bin_frame:
  assumes "wf_binary f" "g = set_data f (end_bytes (bin_be T f) (fsize f) n)"
  shows "wf_binary g" "fsize g = fsize f" "bin_raw T g = n mod 2 ^ (8 * fsize f)" "have_sign g = have_sign f"
  using assms by (simp_all add: wf_binary_def bin_raw_def bin_be_def end_val_end_bytes exp256)

lemma signed_fits: "0 < k \<Longrightarrow> - (2 ^ (8 * k - 1)) \<le> v \<Longrightarrow> v < 2 ^ (8 * k - 1) \<Longrightarrow>
  signed_take_bit (8 * k - 1) (v mod 2 ^ (8 * k)) = (v :: int)"
proof -
  assume k: "0 < k" and v: "- (2 ^ (8 * k - 1)) \<le> v" "v < 2 ^ (8 * k - 1)"
  have "v mod 2 ^ (8 * k) = take_bit (8 * k) v" by (simp add: take_bit_eq_mod)
  moreover have "signed_take_bit (8 * k - 1) (take_bit (8 * k) v) = signed_take_bit (8 * k - 1) v"
    using k by (simp add: signed_take_bit_take_bit) arith
  ultimately show ?thesis using signed_take_bit_int_eq_self [OF v] by simp
qed

section \<open>Loading\<close>

lemma bin_val_bounds:
  assumes "wf_binary f"
  shows "have_sign f \<Longrightarrow> - (2 ^ (8 * fsize f - 1)) \<le> bin_val T f" "bin_val T f < 2 ^ (8 * fsize f)"
    "have_sign f \<Longrightarrow> bin_val T f < 2 ^ (8 * fsize f - 1)" "\<not> have_sign f \<Longrightarrow> 0 \<le> bin_val T f"
proof -
  show "have_sign f \<Longrightarrow> - (2 ^ (8 * fsize f - 1)) \<le> bin_val T f"
    by (simp add: bin_val_def signed_take_bit_int_greater_eq_minus_exp)
  show s: "have_sign f \<Longrightarrow> bin_val T f < 2 ^ (8 * fsize f - 1)"
    by (simp add: bin_val_def signed_take_bit_int_less_exp)
  show "\<not> have_sign f \<Longrightarrow> 0 \<le> bin_val T f" using bin_raw_bounds by (simp add: bin_val_def)
  have "(2::int) ^ (8 * fsize f - 1) \<le> 2 ^ (8 * fsize f)" by (rule power_increasing) simp_all
  then show "bin_val T f < 2 ^ (8 * fsize f)"
  proof (cases "have_sign f")
    case True
    then show ?thesis using s [OF True] \<open>(2::int) ^ (8 * fsize f - 1) \<le> 2 ^ (8 * fsize f)\<close> by linarith
  next
    case False
    then show ?thesis using bin_raw_bounds(2) by (simp add: bin_val_def)
  qed
qed

lemma get_bin_val:
  assumes "wf_binary f"
  shows "(if have_sign f then cob_binary_get_int64 T f else cob_binary_get_uint64 T f) = Some (bin_val T f)"
  using get_int64_raw [OF assms, of T] get_uint64_raw [OF assms, of T] by (simp add: bin_val_def)

lemma high_word:
  assumes "0 \<le> v" "v < 2 ^ 63"
  shows "u32 (drop_bit 32 (v AND 0x7FFFFFFF00000000)) = v div 2 ^ 32"
proof -
  have m: "(0x7FFFFFFF00000000::int) = push_bit 32 (mask 31)" by (simp add: mask_eq_exp_minus_1 push_bit_eq_mult)
  have h: "drop_bit 32 (v AND 0x7FFFFFFF00000000) = drop_bit 32 v AND mask 31"
    unfolding m by (rule bit_eqI) (auto simp: bit_simps)
  have b: "0 \<le> v div 2 ^ 32" "v div 2 ^ 32 < 2 ^ 31"
    using assms by (simp_all add: pos_imp_zdiv_nonneg_iff div_less_iff_less_mult)
  have "drop_bit 32 v AND mask 31 = v div 2 ^ 32"
    using b by (simp only: take_bit_eq_mask [symmetric] drop_bit_eq_div) (simp add: take_bit_int_eq_self_iff)
  then show ?thesis unfolding h using b by (simp add: take_bit_int_eq_self_iff)
qed

lemma low_word: "u32 (v AND 0xffffffff) = (v::int) mod 2 ^ 32"
proof -
  have "v AND 0xffffffff = take_bit 32 v" by (simp add: take_bit_eq_mask mask_eq_exp_minus_1)
  then show ?thesis by (simp add: take_bit_eq_mod)
qed

lemma set_binary_val:
  assumes wf: "wf_binary f"
    and ll: "cob_li_is_ll T \<or> \<not> (have_sign f \<and> bin_val T f = - (2 ^ 63))"
  shows "cob_decimal_set_binary T f = Some (mkdec (bin_val T f) (field_scale f))"
proof -
  note g = get_bin_val [OF wf, of T] and b = bin_val_bounds [OF wf, of T]
  consider "cob_li_is_ll T" | "\<not> cob_li_is_ll T \<and> fsize f \<le> 4" | "\<not> cob_li_is_ll T \<and> \<not> fsize f \<le> 4" by blast
  then show ?thesis
  proof cases
    case 1
    then show ?thesis by (simp only: cob_decimal_set_binary_def if_True g bind.bind_lunit)
  next
    case 2
    have "8 * fsize f - 1 \<le> 31" "8 * fsize f \<le> 32" using 2 by linarith+
    then have e: "(2::int) ^ (8 * fsize f - 1) \<le> 2 ^ 31" "(2::int) ^ (8 * fsize f) \<le> 2 ^ 32"
      by (intro power_increasing; simp)+
    have "have_sign f \<Longrightarrow> i32 (bin_val T f) = bin_val T f" "\<not> have_sign f \<Longrightarrow> u32 (bin_val T f) = bin_val T f"
      using b e by (auto intro!: i32_id u32_id)
    then show ?thesis using 2 g by (cases "have_sign f") (simp_all add: cob_decimal_set_binary_def)
  next
    case 3
    have "8 * fsize f - 1 \<le> 63" "8 * fsize f \<le> 64" using wf unfolding wf_binary_def by linarith+
    then have e: "(2::int) ^ (8 * fsize f - 1) \<le> 2 ^ 63" "(2::int) ^ (8 * fsize f) \<le> 2 ^ 64"
      by (intro power_increasing; simp)+
    have split: "x div 2 ^ 32 * 2 ^ 32 + x mod 2 ^ 32 = x" for x :: int by (rule div_mult_mod_eq)
    show ?thesis
    proof (cases "have_sign f")
      case True
      define v where "v = (if bin_val T f < 0 then i64 (- bin_val T f) else bin_val T f)"
      have lo: "- (2 ^ 63) < bin_val T f" using b(1) [OF True] e(1) ll 3 True by fastforce
      then have v: "v = \<bar>bin_val T f\<bar>" "0 \<le> v" "v < 2 ^ 63"
      proof -
        have "\<bar>bin_val T f\<bar> < 2 ^ 63" using b(3) [OF True] e(1) lo by linarith
        moreover from this have "bin_val T f < 0 \<Longrightarrow> i64 (- bin_val T f) = - bin_val T f"
          by (intro i64_id) linarith+
        ultimately show "v = \<bar>bin_val T f\<bar>" "0 \<le> v" "v < 2 ^ 63" unfolding v_def by auto
      qed
      have "cob_decimal_set_binary T f = Some (mkdec (if bin_val T f < 0 then - v else v) (field_scale f))"
        using 3 True g unfolding cob_decimal_set_binary_def
        by (simp only: if_False if_True Let_def bind.bind_lunit v_def [symmetric] high_word [OF v(2,3)] low_word split)
      then show ?thesis using v(1) by simp
    next
      case False
      have u: "u32 (drop_bit 32 (bin_val T f)) = bin_val T f div 2 ^ 32"
      proof -
        have "0 \<le> bin_val T f div 2 ^ 32" "bin_val T f div 2 ^ 32 < 2 ^ 32"
          using b(2) b(4) [OF False] e(2) by (simp_all add: pos_imp_zdiv_nonneg_iff div_less_iff_less_mult)
        then show ?thesis by (simp add: drop_bit_eq_div take_bit_int_eq_self_iff)
      qed
      show ?thesis
        using 3 False g unfolding cob_decimal_set_binary_def
        by (simp only: if_False Let_def bind.bind_lunit u low_word split)
    qed
  qed
qed

section \<open>Storing\<close>

lemma mpz_get_si_fits: "- (2 ^ (long_bits T - 1)) \<le> v \<Longrightarrow> v < 2 ^ (long_bits T - 1) \<Longrightarrow> mpz_get_si T v = v"
proof -
  assume v: "- (2 ^ (long_bits T - 1)) \<le> v" "v < 2 ^ (long_bits T - 1)"
  show ?thesis
  proof (cases "v < 0")
    case True
    then have "take_bit (long_bits T - 1) (\<bar>v\<bar> - 1) = \<bar>v\<bar> - 1"
      using v by (intro take_bit_int_eq_self) linarith+
    with True show ?thesis unfolding mpz_get_si_def by simp
  next
    case False
    then have "take_bit (long_bits T - 1) v = v" using v by (intro take_bit_int_eq_self) linarith+
    with False show ?thesis by (simp add: mpz_get_si_def)
  qed
qed

lemma store_binary_ll:
  assumes "wf_binary f" "cob_li_is_ll T"
  shows "- (2 ^ 63) \<le> v \<Longrightarrow> v < 2 ^ 63 \<Longrightarrow>
      store_binary T f False v = Some (set_data f (end_bytes (bin_be T f) (fsize f) v))"
    and "store_binary T f True v = Some (set_data f (end_bytes (bin_be T f) (fsize f) \<bar>v\<bar>))"
proof -
  have "long_bits T = 64" using assms(2) by (simp add: long_bits_def)
  then show "- (2 ^ 63) \<le> v \<Longrightarrow> v < 2 ^ 63 \<Longrightarrow>
      store_binary T f False v = Some (set_data f (end_bytes (bin_be T f) (fsize f) v))"
    using assms mpz_get_si_fits [of T v] by (simp add: store_binary_def set_int64_raw)
  have "end_bytes (bin_be T f) (fsize f) (u64 \<bar>v\<bar>) = end_bytes (bin_be T f) (fsize f) \<bar>v\<bar>"
    using assms(1) by (intro end_bytes_add_wrap) (simp add: wf_binary_def)
  then show "store_binary T f True v = Some (set_data f (end_bytes (bin_be T f) (fsize f) \<bar>v\<bar>))"
    using assms by (simp add: store_binary_def set_int64_raw mpz_get_ui_def long_bits_def)
qed

text \<open>The magnitude an item can take: its bits, less one for the sign, and its digits when checked.\<close>

definition binary_fits :: "cob_module \<Rightarrow> cob_field \<Rightarrow> u8 \<Rightarrow> int \<Rightarrow> bool" where
  "binary_fits M f opt v \<longleftrightarrow> \<bar>v\<bar> < 2 ^ (fsize f * 8 - (if have_sign f then 1 else 0)) \<and>
     (opt \<noteq> 0 \<and> flag_binary_truncate M \<longrightarrow> \<bar>v\<bar> < 10 ^ field_digits f)"

lemma store_fit:
  assumes "wf_binary f" "cob_li_is_ll T" "\<bar>v\<bar> < 2 ^ (fsize f * 8 - (if have_sign f then 1 else 0))"
    "\<not> have_sign f \<Longrightarrow> 0 \<le> v"
  shows "\<exists>g. store_binary T f (\<not> have_sign f) v = Some g \<and> g = set_data f (fdata g) \<and> fsize g = fsize f \<and> bin_val T g = v"
proof (cases "have_sign f")
  case True
  have k: "0 < fsize f" "8 * fsize f - 1 \<le> 63" using assms(1) unfolding wf_binary_def by linarith+
  have lt: "- (2 ^ (8 * fsize f - 1)) \<le> v" "v < 2 ^ (8 * fsize f - 1)"
    using assms(3) True by (simp_all add: mult.commute)
  have "(2::int) ^ (8 * fsize f - 1) \<le> 2 ^ 63" using k(2) by (rule power_increasing) simp
  then have "- (2 ^ 63) \<le> v" "v < 2 ^ 63" using lt by linarith+
  from store_binary_ll(1) [OF assms(1,2) this] set_bin_frame [OF assms(1) refl, of T v] signed_fits [OF k(1) lt] True
  show ?thesis by (intro exI [of _ "set_data f (end_bytes (bin_be T f) (fsize f) v)"]) (simp add: bin_val_def)
next
  case False
  then have "v mod 2 ^ (8 * fsize f) = v" using assms(3,4) by (simp add: mult.commute)
  with store_binary_ll(2) [OF assms(1,2), of v] set_bin_frame [OF assms(1) refl, of T "\<bar>v\<bar>"] False assms(4)
  show ?thesis by (intro exI [of _ "set_data f (end_bytes (bin_be T f) (fsize f) \<bar>v\<bar>)"]) (simp add: bin_val_def)
qed

lemma get_binary_val:
  assumes wf: "wf_binary f" and ll: "cob_li_is_ll T" and D: "field_digits f < COB_MAX_BINARY"
  shows "binary_fits M f opt (dvalue d) \<Longrightarrow>
      \<exists>g. cob_decimal_get_binary R T M d f opt = Some (0, R, g) \<and> g = set_data f (fdata g) \<and> fsize g = fsize f \<and>
        bin_val T g = (if have_sign f then dvalue d else \<bar>dvalue d\<bar>)"
    and "\<not> binary_fits M f opt (dvalue d) \<Longrightarrow> opt_set opt COB_STORE_KEEP_ON_OVERFLOW \<Longrightarrow> dvalue d \<noteq> 0 \<Longrightarrow>
      cob_decimal_get_binary R T M d f opt = Some (0x1004, cob_set_exception R COB_EC_SIZE_OVERFLOW, f)"
    and "\<not> binary_fits M f opt (dvalue d) \<Longrightarrow> \<not> opt_set opt COB_STORE_KEEP_ON_OVERFLOW \<Longrightarrow> dvalue d \<noteq> 0 \<Longrightarrow>
      \<exists>g. cob_decimal_get_binary R T M d f opt = Some (0x1004, cob_set_exception R COB_EC_SIZE_OVERFLOW, g) \<and>
        g = set_data f (fdata g) \<and> fsize g = fsize f \<and>
        bin_raw T g = \<bar>truncate_binary f opt (if have_sign f then dvalue d else \<bar>dvalue d\<bar>)\<bar> mod 2 ^ (8 * fsize f)"
proof -
  let ?v = "if have_sign f then dvalue d else \<bar>dvalue d\<bar>"
  let ?b = "fsize f * 8 - (if have_sign f then 1 else 0)"
  have D': "\<not> COB_MAX_BINARY \<le> field_digits f" using D by simp
  have av: "\<bar>?v\<bar> = \<bar>dvalue d\<bar>" by simp
  have ov: "(2 ^ ?b \<le> \<bar>?v\<bar> \<or> (opt \<noteq> 0 \<and> flag_binary_truncate M) \<and> 10 ^ field_digits f \<le> \<bar>?v\<bar>) = (\<not> binary_fits M f opt (dvalue d))"
    unfolding av by (auto simp: binary_fits_def not_less)
  have run: "cob_decimal_get_binary R T M d f opt =
    (if dvalue d = 0 then Some (0, R, set_data f (replicate (fsize f) 0))
     else
       let overflow = (\<not> binary_fits M f opt (dvalue d));
           R1 = (if overflow then cob_set_exception R COB_EC_SIZE_OVERFLOW else R) in
       if overflow \<and> opt_set opt COB_STORE_KEEP_ON_OVERFLOW then Some (exception_code R1, R1, f)
       else do {
         g \<leftarrow> store_binary T f (\<not> have_sign f \<or> overflow) (if overflow then truncate_binary f opt ?v else ?v);
         Some (if overflow then exception_code R1 else 0, R1, g) })"
    by (simp only: cob_decimal_get_binary_def Let_def ov D' simp_thms if_False)
  { assume fit: "binary_fits M f opt (dvalue d)"
    show "\<exists>g. cob_decimal_get_binary R T M d f opt = Some (0, R, g) \<and> g = set_data f (fdata g) \<and> fsize g = fsize f \<and>
        bin_val T g = (if have_sign f then dvalue d else \<bar>dvalue d\<bar>)"
    proof (cases "dvalue d = 0")
      case True
      have "end_val be (replicate k 0) = 0" for be k by (simp add: end_val_def)
      then have "bin_val T (set_data f (replicate (fsize f) 0)) = 0"
        by (simp add: bin_val_def bin_raw_def)
      with True show ?thesis by (simp add: run)
    next
      case False
      have "\<bar>?v\<bar> < 2 ^ ?b" using fit unfolding av by (simp add: binary_fits_def)
      from store_fit [OF wf ll this] obtain g where
        "store_binary T f (\<not> have_sign f) ?v = Some g" "g = set_data f (fdata g)" "fsize g = fsize f" "bin_val T g = ?v"
        by auto
      with fit False show ?thesis by (simp add: run Let_def)
    qed }
  { assume nf: "\<not> binary_fits M f opt (dvalue d)" and nz: "dvalue d \<noteq> 0"
    { assume "opt_set opt COB_STORE_KEEP_ON_OVERFLOW"
      with nf nz show "cob_decimal_get_binary R T M d f opt = Some (0x1004, cob_set_exception R COB_EC_SIZE_OVERFLOW, f)"
        by (simp add: run exception_code_size_overflow) }
    { assume "\<not> opt_set opt COB_STORE_KEEP_ON_OVERFLOW"
      let ?g = "set_data f (end_bytes (bin_be T f) (fsize f) \<bar>truncate_binary f opt ?v\<bar>)"
      have "cob_decimal_get_binary R T M d f opt = Some (0x1004, cob_set_exception R COB_EC_SIZE_OVERFLOW, ?g)"
        using nf nz \<open>\<not> opt_set opt COB_STORE_KEEP_ON_OVERFLOW\<close>
        unfolding run Let_def by (simp add: store_binary_ll(2) [OF wf ll] exception_code_size_overflow)
      then show "\<exists>g. cob_decimal_get_binary R T M d f opt = Some (0x1004, cob_set_exception R COB_EC_SIZE_OVERFLOW, g) \<and>
        g = set_data f (fdata g) \<and> fsize g = fsize f \<and>
        bin_raw T g = \<bar>truncate_binary f opt ?v\<bar> mod 2 ^ (8 * fsize f)"
        using set_bin_frame [OF wf refl, of T "\<bar>truncate_binary f opt ?v\<bar>"]
        by (intro exI [of _ ?g] conjI) simp_all } }
qed

lemma binary_store_core:
  fixes R :: cob_rt
  assumes "wf_binary f" "cob_li_is_ll T" "field_digits f < COB_MAX_BINARY"
  shows "(binary_fits M f opt (dvalue d) \<longrightarrow>
      (\<exists>g. cob_decimal_get_binary R T M d f opt = Some (0, R, g) \<and>
        cob_decimal_set_binary T g = Some (mkdec (if have_sign f then dvalue d else \<bar>dvalue d\<bar>) (field_scale f)))) \<and>
    (\<not> binary_fits M f opt (dvalue d) \<and> opt_set opt COB_STORE_KEEP_ON_OVERFLOW \<longrightarrow>
      cob_decimal_get_binary R T M d f opt = Some (0x1004, cob_set_exception R COB_EC_SIZE_OVERFLOW, f))"
proof -
  have nz: "\<not> binary_fits M f opt (dvalue d) \<Longrightarrow> dvalue d \<noteq> 0" by (auto simp: binary_fits_def)
  { assume b: "binary_fits M f opt (dvalue d)"
    obtain g where g: "cob_decimal_get_binary R T M d f opt = Some (0, R, g)" "g = set_data f (fdata g)"
      "fsize g = fsize f" "bin_val T g = (if have_sign f then dvalue d else \<bar>dvalue d\<bar>)"
      using get_binary_val(1) [OF assms b] by blast
    have "wf_binary g" "field_scale g = field_scale f"
      using assms(1) g(3) by (simp_all add: wf_binary_def) (metis g(2) set_data_sel(6))
    with g set_binary_val [of g T] assms(2) have
      "\<exists>g. cob_decimal_get_binary R T M d f opt = Some (0, R, g) \<and>
        cob_decimal_set_binary T g = Some (mkdec (if have_sign f then dvalue d else \<bar>dvalue d\<bar>) (field_scale f))"
      by auto }
  then show ?thesis using get_binary_val(2) [OF assms] nz by blast
qed

end
