(* ===== verification/Cob_Move.thy ===== *)
theory Cob_Move
  imports Cob_Display Cob_Packed Cob_Binary
begin

text \<open>
  MOVE (move.c): one definition per conversion routine, the dispatcher \<open>cob_move\<close>, and the
  conversions to and from C integers.

  A routine takes the source and the target item and returns both: several routines strip
  the sign off the source while they work and put it back. Positions that the code keeps in
  pointers are indices into the storage, and may be negative like the pointer differences they
  stand for. Item sizes are below 2 ^ 31, so the casts to \<open>int\<close> of sizes are not wrapped.
  The C library's conversion between text and floating point, and the layout of \<open>float\<close> and
  \<open>double\<close>, are the parameters collected in \<open>fp_env\<close>.
\<close>

section \<open>Parameters for floating point\<close>

text \<open>
  \<open>fp_scan t s\<close>: the storage of a float or double item after \<open>sscanf (s, "%lf", &val)\<close> and
  the cast, \<open>None\<close> when nothing was converted; \<open>fp_print t p\<close>: whether the number in
  storage \<open>p\<close> is negative, how many digits the integer part of its magnitude has and what
  \<open>snprintf ("%-18.*lf")\<close> makes of the magnitude; \<open>fp_to_int\<close>: \<open>mpz_set_d\<close> of the number
  times 1.0e9; \<open>fp_of_dec\<close>: the storage after \<open>cob_decimal_get_double\<close>.
\<close>

record fp_env =
  fp_scan :: "cob_type \<Rightarrow> bytes \<Rightarrow> bytes option"
  fp_print :: "cob_type \<Rightarrow> bytes \<Rightarrow> bool \<times> nat \<times> bytes"
  fp_to_int :: "cob_type \<Rightarrow> bytes \<Rightarrow> int"
  fp_of_dec :: "cob_type \<Rightarrow> cob_decimal \<Rightarrow> bytes"

text \<open>A host on which every conversion gives zero, for examples that use no floating point.\<close>

definition fp_none :: fp_env where
  "fp_none = \<lparr>fp_scan = (\<lambda>t s. None), fp_print = (\<lambda>t p. (False, 0, [])),
     fp_to_int = (\<lambda>t p. 0), fp_of_dec = (\<lambda>t d. [])\<rparr>"

section \<open>Storage at integer positions\<close>

definition rdi :: "bytes \<Rightarrow> int \<Rightarrow> u8 option" where
  "rdi p i = (if i < 0 then None else rd p (nat i))"

definition wri :: "bytes \<Rightarrow> int \<Rightarrow> u8 \<Rightarrow> bytes option" where
  "wri p i b = (if i < 0 then None else wr p (nat i) b)"

text \<open>Put \<open>bs\<close> over the bytes from position \<open>off\<close> on (inside \<open>z\<close>).\<close>

definition overlay :: "bytes \<Rightarrow> nat \<Rightarrow> bytes \<Rightarrow> bytes" where
  "overlay z off bs = take off z @ bs @ drop (off + length bs) z"

section \<open>The common region of two digit strings\<close>

definition space_to_zero :: "u8 \<Rightarrow> u8" where
  "space_to_zero c = (if c = chr_space then chr_0 else c)"

definition store_common_region :: "cob_field \<Rightarrow> bytes \<Rightarrow> int \<Rightarrow> cob_field" where
  "store_common_region f data scale =
    (let lf1 = - scale; lf2 = - field_scale f;
         hf1 = int (length data) + lf1; hf2 = int (data_size f) + lf2;
         lcf = max lf1 lf2; gcf = min hf1 hf2;
         zeros = replicate (data_size f) chr_0 in
     if gcf > lcf then
       let csize = nat (gcf - lcf); p = nat (hf1 - gcf); q = nat (hf2 - gcf) in
       put_bytes f (overlay zeros q (map space_to_zero (take csize (drop p data))))
     else put_bytes f zeros)"

section \<open>To DISPLAY\<close>

fun skip_digits :: "nat \<Rightarrow> bytes \<Rightarrow> bytes option" where
  "skip_digits 0 s = Some s"
| "skip_digits (Suc k) s =
    (case dropWhile (\<lambda>c. \<not> isdigit c) s of [] \<Rightarrow> None | _ # t \<Rightarrow> skip_digits k t)"

text \<open>The digits moved, or \<open>None\<close> for the jump to \<open>error\<close>.\<close>

fun an_loop :: "cob_module \<Rightarrow> nat \<Rightarrow> nat \<Rightarrow> bytes \<Rightarrow> bytes option" where
  "an_loop M room count [] = Some []"
| "an_loop M 0 count (c # s) = Some []"
| "an_loop M (Suc room) count (c # s) =
    (if isdigit c then map_option ((#) c) (an_loop M room count s)
     else if c = decimal_point M then
       if count > 0 then None else an_loop M (Suc room) (Suc count) s
     else if isspace c \<or> c = numeric_separator M then an_loop M (Suc room) count s
     else None)"

definition cob_move_alphanum_to_display ::
  "cob_module \<Rightarrow> cob_field \<Rightarrow> cob_field \<Rightarrow> (cob_field \<times> cob_field) option" where
  "cob_move_alphanum_to_display M f1 f2 =
    (let f2 = set_data f2 (replicate (fsize f2) chr_0);
         s1 = dropWhile isspace (fdata f1);
         (sign, s1) = (case s1 of [] \<Rightarrow> (0, [])
            | c # t \<Rightarrow> if c = chr_plus then (1, t) else if c = chr_minus then (-1, t) else (0, s1));
         count = int (length (filter isdigit (takeWhile (\<lambda>c. c \<noteq> decimal_point M) s1)));
         size = int (data_size f2) - field_scale f2;
         off = (if count < size then nat (size - count) else 0) in do {
       s1 \<leftarrow> (if count < size then Some s1 else skip_digits (nat (count - size)) s1);
       f2 \<leftarrow> (case an_loop M (data_size f2 - off) 0 s1 of
           Some ds \<Rightarrow> cob_put_sign M (put_bytes f2 (overlay (field_bytes f2) off ds)) sign
         | None \<Rightarrow> cob_put_sign M f2 0);
       Some (f1, f2) })"

definition cob_move_display_to_display ::
  "cob_module \<Rightarrow> cob_field \<Rightarrow> cob_field \<Rightarrow> (cob_field \<times> cob_field) option" where
  "cob_move_display_to_display M f1 f2 = do {
     (sign, f1) \<leftarrow> cob_get_sign M f1;
     let f2 = store_common_region f2 (field_bytes f1) (field_scale f1);
     f1 \<leftarrow> cob_put_sign M f1 sign;
     f2 \<leftarrow> cob_put_sign M f2 sign;
     Some (f1, f2) }"

definition cob_move_packed_to_display ::
  "cob_module \<Rightarrow> cob_field \<Rightarrow> cob_field \<Rightarrow> (cob_field \<times> cob_field) option" where
  "cob_move_packed_to_display M f1 f2 = do {
     (sign, f1) \<leftarrow> cob_get_sign M f1;
     let offset = 1 - field_digits f1 mod 2;
     buff \<leftarrow> (if 64 < field_digits f1 then None
        else those (map (\<lambda>i. map_option (\<lambda>b. cob_i2d (if even i then uint (drop_bit 4 b) else uint (b AND 0x0f)))
               (rd (fdata f1) (i div 2))) [offset ..< field_digits f1 + offset]));
     f2 \<leftarrow> cob_put_sign M (store_common_region f2 buff (field_scale f1)) sign;
     Some (f1, f2) }"

text \<open>The digits of an unsigned number without leading zeros, none for zero.\<close>

definition u64_digits :: "int \<Rightarrow> bytes" where
  "u64_digits v = (if v = 0 then [] else mpz_get_str10 v)"

definition cob_move_binary_to_display ::
  "target \<Rightarrow> cob_module \<Rightarrow> cob_field \<Rightarrow> cob_field \<Rightarrow> (cob_field \<times> cob_field) option" where
  "cob_move_binary_to_display T M f1 f2 = do {
     n \<leftarrow> cob_binary_mget_int64 T f1;
     let sign = (if have_sign f1 \<and> n < 0 then -1 else 1);
     let val = (if have_sign f1 \<and> n < 0 then u64 (- n) else u64 n);
     f2 \<leftarrow> cob_put_sign M (store_common_region f2 (u64_digits val) (field_scale f1)) sign;
     Some (f1, f2) }"

text \<open>
  The number printed loses its decimal point and its padding blanks; 18 digits in all.
\<close>

definition cob_move_fp_to_display ::
  "fp_env \<Rightarrow> cob_module \<Rightarrow> cob_field \<Rightarrow> cob_field \<Rightarrow> (cob_field \<times> cob_field) option" where
  "cob_move_fp_to_display E M f1 f2 =
    (let (negative, decs, buff2) = fp_print E (field_type f1) (fdata f1);
         buff = filter (\<lambda>x. x \<noteq> chr_dot \<and> x \<noteq> chr_space) (takeWhile (\<lambda>x. x \<noteq> 0) (take 62 buff2)) in do {
       f2 \<leftarrow> cob_put_sign M (store_common_region f2 buff (18 - int decs)) (if negative then -1 else 1);
       Some (f1, f2) })"

section \<open>From DISPLAY to the other usages\<close>

definition cob_move_display_to_alphanum ::
  "cob_module \<Rightarrow> cob_field \<Rightarrow> cob_field \<Rightarrow> (cob_field \<times> cob_field) option" where
  "cob_move_display_to_alphanum M f1 f2 = do {
     (sign, f1) \<leftarrow> cob_get_sign M f1;
     let data1 = field_bytes f1;
     let size1 = length data1;
     let size2 = fsize f2;
     let out = (if size1 \<ge> size2 then take size2 data1
                else let diff = size2 - size1;
                         zero_size = (if field_scale f1 < 0 then min (nat (- field_scale f1)) diff else 0)
                     in data1 @ replicate zero_size chr_0 @ replicate (diff - zero_size) chr_space);
     f1 \<leftarrow> cob_put_sign M f1 sign;
     Some (f1, set_data f2 out) }"

definition cob_move_alphanum_to_alphanum ::
  "cob_field \<Rightarrow> cob_field \<Rightarrow> (cob_field \<times> cob_field) option" where
  "cob_move_alphanum_to_alphanum f1 f2 =
    (let data1 = fdata f1; size1 = fsize f1; size2 = fsize f2;
         out = (if size1 \<ge> size2 then
                  if justified f2 then drop (size1 - size2) data1 else take size2 data1
                else if justified f2 then replicate (size2 - size1) chr_space @ data1
                else data1 @ replicate (size2 - size1) chr_space)
     in Some (f1, set_data f2 out))"

text \<open>
  \<open>pack_chars\<close> runs over the half bytes \<open>i \<dots>\<close> of the target; \<open>p\<close> is the position of the next
  source digit. The code looks at \<open>*p\<close> before it tests that \<open>p\<close> lies in the digits, but what
  it sees out there does not matter: the half byte is 0 either way.
\<close>

fun pack_chars :: "nat \<Rightarrow> nat \<Rightarrow> int \<Rightarrow> nat \<Rightarrow> bytes \<Rightarrow> bytes \<Rightarrow> bytes option" where
  "pack_chars digits1 0 p i data1 data2 = Some data2"
| "pack_chars digits1 (Suc k) p i data1 data2 = do {
     n \<leftarrow> (if 0 \<le> p \<and> p < int digits1 then do {
             c \<leftarrow> rdi data1 p;
             Some (if c = chr_space then 0 else word_of_int (cob_d2i c)) }
           else Some 0);
     b \<leftarrow> rd data2 (i div 2);
     data2 \<leftarrow> wr data2 (i div 2) (if even i then push_bit 4 n else b OR n);
     pack_chars digits1 k (p + 1) (Suc i) data1 data2 }"

definition cob_move_display_to_packed ::
  "cob_module \<Rightarrow> cob_field \<Rightarrow> cob_field \<Rightarrow> (cob_field \<times> cob_field) option" where
  "cob_move_display_to_packed M f1 f2 = do {
     (sign, f1) \<leftarrow> cob_get_sign M f1;
     let digits1 = field_digits f1;
     let digits2 = field_digits f2;
     let p = (int digits1 - field_scale f1) - (int digits2 - field_scale f2);
     let offset = 1 - digits2 mod 2;
     let data1 = drop (data_off f1) (fdata f1);
     let zeros = replicate (fsize f2) 0;
     let code = (if \<not> have_sign f2 then 0x0f else if sign < 0 then 0x0d else 0x0c);
     data2 \<leftarrow> pack_chars digits1 digits2 p offset data1 zeros;
     f1 \<leftarrow> cob_put_sign M f1 sign;
     b \<leftarrow> rdi data2 (int (fsize f2) - 1);
     data2 \<leftarrow> wri data2 (int (fsize f2) - 1) ((b AND 0xf0) OR code);
     Some (f1, set_data f2 data2) }"

fun bin_loop :: "nat \<Rightarrow> int \<Rightarrow> bytes \<Rightarrow> int" where
  "bin_loop 0 val s = val"
| "bin_loop (Suc k) val (b # s) = bin_loop k (i64 (val * 10 + cob_d2i b)) s"
| "bin_loop (Suc k) val [] = bin_loop k (i64 (val * 10)) []"

definition cob_exp10LL :: "nat \<Rightarrow> int option" where
  "cob_exp10LL d = (if d < 19 then Some (10 ^ d) else None)"

text \<open>The loop bound is a \<open>size_t\<close>: a negative difference wraps to a huge count.\<close>

definition cob_move_display_to_binary ::
  "target \<Rightarrow> cob_module \<Rightarrow> cob_field \<Rightarrow> cob_field \<Rightarrow> (cob_field \<times> cob_field) option" where
  "cob_move_display_to_binary T M f1 f2 = do {
     (sign, f1) \<leftarrow> cob_get_sign M f1;
     let size = u64 (int (data_size f1) - field_scale f1 + field_scale f2);
     let val = bin_loop (nat size) 0 (field_bytes f1);
     let val = (if sign < 0 \<and> have_sign f2 then i64 (- val) else val);
     val \<leftarrow> (if flag_binary_truncate M \<and> \<not> real_binary f2
             then map_option (\<lambda>e. val smod e) (cob_exp10LL (field_digits f2)) else Some val);
     f2 \<leftarrow> cob_binary_mset_int64 T f2 val;
     f1 \<leftarrow> cob_put_sign M f1 sign;
     Some (f1, f2) }"

text \<open>
  The conversion \<open>%*.*s\<close> with width and precision \<open>n\<close>: at most \<open>n\<close> characters up to a NUL,
  padded on the left. The text starts at \<open>f1->data\<close>, and the sign is not put back into the
  source. A scale beyond the size gives a negative precision, which reads on without bound.
\<close>

definition fmt_s :: "nat \<Rightarrow> bytes \<Rightarrow> bytes" where
  "fmt_s n s = (let t = take n (takeWhile (\<lambda>c. c \<noteq> 0) s) in replicate (n - length t) chr_space @ t)"

definition cob_move_display_to_fp ::
  "fp_env \<Rightarrow> cob_module \<Rightarrow> cob_field \<Rightarrow> cob_field \<Rightarrow> (cob_field \<times> cob_field) option" where
  "cob_move_display_to_fp E M f1 f2 = do {
     (sign, f1) \<leftarrow> cob_get_sign M f1;
     let size = int (data_size f1) - field_scale f1;
     let n = nat size;
     let text = (if field_scale f1 \<le> 0 then fmt_s n (fdata f1) @ [chr_dot, chr_0]
                 else fmt_s n (fdata f1) @ chr_dot # fmt_s (nat (field_scale f1)) (drop n (fdata f1)));
     let buff2 = (if sign < 0 then [chr_minus] else []) @ take 62 text;
     bs \<leftarrow> (if size < 0 \<or> fsize f1 < n \<and> 0 \<notin> set (fdata f1) then None else fp_scan E (field_type f2) buff2);
     f2 \<leftarrow> map_option (set_data f2) (wrs (fdata f2) 0 bs);
     Some (f1, f2) }"

section \<open>Editing\<close>

text \<open>
  First the digit places before the decimal point are counted; the three components are
  \<open>count\<close>, \<open>count_sign\<close> and \<open>count_curr\<close>, the result is \<open>count\<close> and \<open>p_is_left\<close>.
\<close>

fun count_places :: "cob_module \<Rightarrow> nat \<Rightarrow> bool \<Rightarrow> bool \<Rightarrow> picture \<Rightarrow> nat \<times> bool" where
  "count_places M count csign ccurr [] = (count, False)"
| "count_places M count csign ccurr ((c, rep) # pic) =
    (if c = chr_9 \<or> c = 0x5A \<or> c = chr_star then count_places M (count + rep) False False pic
     else if ccurr \<and> c = currency_symbol M then count_places M (count + rep) csign ccurr pic
     else if csign \<and> (c = chr_plus \<or> c = chr_minus) then count_places M (count + rep) csign ccurr pic
     else if c = 0x50 then
       if count = 0 then (count, True) else count_places M (count + rep) False False pic
     else if c = 0x56 \<or> c = decimal_point M then (count, False)
     else count_places M count csign ccurr pic)"

text \<open>The variables of \<open>cob_move_display_to_edited\<close> while it runs over the picture.\<close>

record edit =
  ed_out :: bytes
  ed_dst :: int
  ed_end :: int
  ed_src :: int
  ed_point :: "int option"
  ed_pad :: u8
  ed_is_zero :: bool
  ed_suppress :: bool
  ed_trail_sign :: bool
  ed_trail_curr :: bool
  ed_sign_first :: bool
  ed_sign_symbol :: u8
  ed_curr_symbol :: u8

definition ed_put :: "edit \<Rightarrow> u8 \<Rightarrow> edit option" where
  "ed_put e b = map_option (\<lambda>out. e\<lparr>ed_out := out\<rparr>) (wri (ed_out e) (ed_dst e) b)"

text \<open>The next source digit, \<open>'0'\<close> outside the source; a digit other than zero ends suppression.\<close>

definition ed_next :: "bytes \<Rightarrow> edit \<Rightarrow> u8 \<times> edit" where
  "ed_next data e =
    (let x = (if 0 \<le> ed_src e \<and> ed_src e < int (length data) then data ! nat (ed_src e) else chr_0);
         e = e\<lparr>ed_src := ed_src e + 1\<rparr>
     in (x, if x \<noteq> chr_0 then e\<lparr>ed_is_zero := False, ed_suppress := False\<rparr> else e))"

definition sign_char :: "bool \<Rightarrow> u8 \<Rightarrow> u8" where
  "sign_char neg c = (if neg then chr_minus else if c = chr_plus then chr_plus else chr_space)"

text \<open>One round of the inner loop for the picture character \<open>c\<close>, its final \<open>++dst\<close> left out.\<close>

definition ed_char :: "cob_module \<Rightarrow> bytes \<Rightarrow> bool \<Rightarrow> bool \<Rightarrow> u8 \<Rightarrow> edit \<Rightarrow> edit option" where
  "ed_char M data neg p_is_left c e =
    (if c = chr_0 \<or> c = chr_slash then ed_put e c
     else if c = 0x42 then ed_put e (if ed_suppress e then ed_pad e else 0x42)
     else if c = 0x50 then
       Some (if p_is_left then e\<lparr>ed_src := ed_src e + 1, ed_dst := ed_dst e - 1\<rparr> else e)
     else if c = chr_9 then
       let (x, e) = ed_next data e in
       ed_put (e\<lparr>ed_suppress := False, ed_trail_sign := True, ed_trail_curr := True\<rparr>) x
     else if c = 0x56 then Some (e\<lparr>ed_dst := ed_dst e - 1, ed_point := Some (ed_dst e - 1)\<rparr>)
     else if c = chr_dot \<or> c = chr_comma then
       if c = decimal_point M then ed_put (e\<lparr>ed_point := Some (ed_dst e)\<rparr>) c
       else ed_put e (if ed_suppress e then ed_pad e else c)
     else if c = 0x43 \<or> c = 0x44 then do {
       let (a, b) = (if neg then (if c = 0x43 then (0x43, 0x52) else (0x44, 0x42))
                     else (chr_space, chr_space));
       e \<leftarrow> ed_put (e\<lparr>ed_end := ed_dst e\<rparr>) a;
       ed_put (e\<lparr>ed_dst := ed_dst e + 1\<rparr>) b }
     else if c = 0x5A \<or> c = chr_star then
       let (x, e) = ed_next data e;
           pad = (if c = chr_star then chr_star else chr_space) in
       ed_put (e\<lparr>ed_pad := pad, ed_trail_sign := True, ed_trail_curr := True\<rparr>)
         (if ed_suppress e then pad else x)
     else if c = chr_plus \<or> c = chr_minus then
       let (x, e) = ed_next data e in
       if ed_trail_sign e then ed_put (e\<lparr>ed_end := ed_end e - 1\<rparr>) (sign_char neg c)
       else if ed_dst e = 0 \<or> ed_suppress e then
         ed_put (e\<lparr>ed_sign_symbol := sign_char neg c,
           ed_sign_first := (ed_sign_first e \<or> ed_curr_symbol e = 0)\<rparr>) (ed_pad e)
       else ed_put e x
     else if c = currency_symbol M then
       let (x, e) = ed_next data e in
       if ed_trail_curr e then ed_put (e\<lparr>ed_end := ed_end e - 1\<rparr>) (currency_symbol M)
       else if ed_dst e = 0 \<or> ed_suppress e then
         ed_put (e\<lparr>ed_curr_symbol := currency_symbol M\<rparr>) (ed_pad e)
       else ed_put e x
     else ed_put e 0x3F)"

fun ed_repeat :: "cob_module \<Rightarrow> bytes \<Rightarrow> bool \<Rightarrow> bool \<Rightarrow> u8 \<Rightarrow> nat \<Rightarrow> edit \<Rightarrow> edit option" where
  "ed_repeat M data neg pl c 0 e = Some e"
| "ed_repeat M data neg pl c (Suc n) e = do {
     e \<leftarrow> ed_char M data neg pl c e;
     ed_repeat M data neg pl c n (e\<lparr>ed_dst := ed_dst e + 1\<rparr>) }"

fun ed_picture :: "cob_module \<Rightarrow> bytes \<Rightarrow> bool \<Rightarrow> bool \<Rightarrow> picture \<Rightarrow> edit \<Rightarrow> edit option" where
  "ed_picture M data neg pl [] e = Some e"
| "ed_picture M data neg pl ((c, n) # pic) e = do {
     e \<leftarrow> ed_repeat M data neg pl c n e;
     ed_picture M data neg pl pic e }"

text \<open>
  The loops after the picture: digits after the decimal point, the search for the last blank,
  and the insertion characters.
\<close>

definition zero_fill :: "int \<Rightarrow> int \<Rightarrow> bytes \<Rightarrow> bytes" where
  "zero_fill from till out =
     map (\<lambda>i. let b = out ! i in
            if from \<le> int i \<and> int i < till \<and> \<not> isdigit b \<and>
               b \<notin> {0, chr_comma, chr_plus, chr_minus, chr_slash, 0x42} then chr_0 else b)
       [0 ..< length out]"

fun find_blank :: "bytes \<Rightarrow> nat \<Rightarrow> nat" where
  "find_blank out 0 = 0"
| "find_blank out (Suc i) = (if out ! Suc i = chr_space then Suc i else find_blank out i)"

definition put_symbols :: "edit \<Rightarrow> edit option" where
  "put_symbols e =
    (if ed_sign_symbol e = 0 \<and> ed_curr_symbol e = 0 then Some e
     else do {
       let pos = (if ed_end e - 1 > 0 then int (find_blank (ed_out e) (nat (ed_end e - 1))) else ed_end e - 1);
       let (first, second) =
         (if ed_sign_symbol e \<noteq> 0 \<and> ed_curr_symbol e \<noteq> 0 then
            if ed_sign_first e then (ed_curr_symbol e, Some (ed_sign_symbol e))
            else (ed_sign_symbol e, Some (ed_curr_symbol e))
          else if ed_sign_symbol e \<noteq> 0 then (ed_sign_symbol e, None)
          else (ed_curr_symbol e, None));
       out \<leftarrow> wri (ed_out e) pos first;
       out \<leftarrow> (case second of Some s \<Rightarrow> if pos - 1 \<ge> 0 then wri out (pos - 1) s else Some out
                | None \<Rightarrow> Some out);
       Some (e\<lparr>ed_out := out\<rparr>) })"

fun replace_B :: "u8 \<Rightarrow> bool \<Rightarrow> bytes \<Rightarrow> bytes" where
  "replace_B pad seen [] = []"
| "replace_B pad seen (b # bs) =
    (if b = 0x42 then (if seen then chr_space else pad) # replace_B pad seen bs
     else b # replace_B pad True bs)"

definition ed_finish :: "cob_module \<Rightarrow> bool \<Rightarrow> edit \<Rightarrow> bytes option" where
  "ed_finish M blankz e =
    (let out = ed_out e in
     if ed_suppress e \<or> ed_is_zero e \<and> blankz then
       Some (if ed_pad e = chr_space \<or> blankz then replicate (length out) chr_space
             else map (\<lambda>b. if b = decimal_point M then b else ed_pad e) out)
     else do {
       let e = (case ed_point e of None \<Rightarrow> e
                | Some q \<Rightarrow> e\<lparr>ed_out := zero_fill (q + 1) (ed_end e) out\<rparr>);
       e \<leftarrow> put_symbols e;
       let k = nat (ed_end e);
       Some (replace_B (ed_pad e) False (take k (ed_out e)) @ drop k (ed_out e)) })"

definition cob_move_display_to_edited ::
  "cob_module \<Rightarrow> cob_field \<Rightarrow> cob_field \<Rightarrow> (cob_field \<times> cob_field) option" where
  "cob_move_display_to_edited M f1 f2 = do {
     (sign, f1) \<leftarrow> cob_get_sign M f1;
     let neg = (sign < 0);
     let (count, p_is_left) = count_places M 0 True True (field_pic f2);
     let data = field_bytes f1;
     e \<leftarrow> ed_picture M data neg p_is_left (field_pic f2)
       \<lparr>ed_out = fdata f2, ed_dst = 0, ed_end = int (fsize f2),
        ed_src = int (length data) - field_scale f1 - int count, ed_point = None,
        ed_pad = chr_space, ed_is_zero = True, ed_suppress = True, ed_trail_sign = False,
        ed_trail_curr = False, ed_sign_first = False, ed_sign_symbol = 0, ed_curr_symbol = 0\<rparr>;
     out \<leftarrow> ed_finish M (blank_zero f2) e;
     f1 \<leftarrow> cob_put_sign M f1 sign;
     Some (f1, set_data f2 out) }"

text \<open>De-editing: the digits of the item, the places after the point, a minus or CR for the sign.\<close>

fun deedit :: "cob_module \<Rightarrow> bool \<Rightarrow> int \<Rightarrow> int \<Rightarrow> bytes \<Rightarrow> bytes \<times> bool \<times> int \<times> int" where
  "deedit M point scale sign [] = ([], point, scale, sign)"
| "deedit M point scale sign (c # s) =
    (if isdigit c then
       let (ds, r) = deedit M point (if point then scale + 1 else scale) sign s in (c # ds, r)
     else if c = chr_dot \<or> c = chr_comma then
       deedit M (point \<or> c = decimal_point M) scale sign s
     else if c = chr_minus \<or> c = 0x43 then deedit M point scale (- 1) s
     else deedit M point scale sign s)"

fun pic_scale :: "int \<Rightarrow> int \<Rightarrow> bool \<Rightarrow> picture \<Rightarrow> int" where
  "pic_scale scale count point [] = scale"
| "pic_scale scale count point ((c, n) # pic) =
    (if c = chr_9 \<or> c = chr_0 \<or> c = 0x5A \<or> c = chr_star then
       if point then pic_scale (scale + int n) count point pic else pic_scale scale (count + int n) point pic
     else if c = 0x50 then
       if count = 0 then pic_scale (scale + int n) count True pic else pic_scale (scale - int n) count point pic
     else if c = 0x56 then pic_scale scale count True pic
     else pic_scale scale count point pic)"

definition cob_move_edited_to_display ::
  "cob_module \<Rightarrow> cob_field \<Rightarrow> cob_field \<Rightarrow> (cob_field \<times> cob_field) option" where
  "cob_move_edited_to_display M f1 f2 =
    (let (buff, point, scale, sign) = deedit M False 0 0 (fdata f1);
         scale = (if scale = 0 then pic_scale 0 0 point (field_pic f1) else scale) in
     if 64 < length buff then None
     else do {
       f2 \<leftarrow> cob_put_sign M (store_common_region f2 buff scale) sign;
       Some (f1, f2) })"

fun edit_alnum :: "picture \<Rightarrow> bytes \<Rightarrow> bytes" where
  "edit_alnum [] src = []"
| "edit_alnum ((c, 0) # pic) src = edit_alnum pic src"
| "edit_alnum ((c, Suc n) # pic) src =
    (if c = 0x41 \<or> c = 0x58 \<or> c = chr_9 then
       (case src of [] \<Rightarrow> chr_space # edit_alnum ((c, n) # pic) []
        | b # s \<Rightarrow> b # edit_alnum ((c, n) # pic) s)
     else (if c = chr_0 \<or> c = chr_slash then c else if c = 0x42 then chr_space else 0x3F)
       # edit_alnum ((c, n) # pic) src)"

definition cob_move_alphanum_to_edited ::
  "cob_module \<Rightarrow> cob_field \<Rightarrow> cob_field \<Rightarrow> (cob_field \<times> cob_field) option" where
  "cob_move_alphanum_to_edited M f1 f2 = do {
     (sign, f1) \<leftarrow> cob_get_sign M f1;
     p \<leftarrow> wrs (fdata f2) 0 (edit_alnum (field_pic f2) (field_bytes f1));
     f1 \<leftarrow> cob_put_sign M f1 sign;
     Some (f1, set_data f2 p) }"

section \<open>The dispatcher\<close>

text \<open>
  \<open>indirect_move\<close> converts into a temporary signed DISPLAY item of at most 64 bytes, whose
  storage every conversion fills with zeros first, and moves that on.
\<close>

definition indirect_temp ::
  "(cob_field \<Rightarrow> cob_field \<Rightarrow> (cob_field \<times> cob_field) option) \<Rightarrow> cob_field \<Rightarrow> nat \<Rightarrow> int \<Rightarrow>
   (cob_field \<times> bytes) option" where
  "indirect_temp func src sz scale =
    (if 64 < sz then None
     else map_option (\<lambda>(src', t). (src', fdata t))
       (func src (cob_fld COB_TYPE_NUMERIC_DISPLAY sz scale COB_FLAG_HAVE_SIGN [] (replicate sz 0))))"

definition display_temp :: "nat \<Rightarrow> int \<Rightarrow> bytes \<Rightarrow> cob_field" where
  "display_temp sz scale bs = cob_fld COB_TYPE_NUMERIC_DISPLAY sz scale COB_FLAG_HAVE_SIGN [] bs"

definition cob_space :: cob_field where
  "cob_space = cob_fld COB_TYPE_ALPHANUMERIC_ALL 0 0 0 [] [chr_space]"

definition repeat_all :: "bytes \<Rightarrow> nat \<Rightarrow> bytes option" where
  "repeat_all d n =
    (if length d = 1 then Some (replicate n (d ! 0))
     else if d = [] \<and> 0 < n then None
     else Some (map (\<lambda>i. d ! (i mod length d)) [0 ..< n]))"

definition all_temp :: "cob_field \<Rightarrow> bytes \<Rightarrow> cob_field" where
  "all_temp dst bs =
    (if field_is_numeric dst then cob_fld COB_TYPE_NUMERIC_DISPLAY 18 0 0 [] bs
     else cob_fld COB_TYPE_ALPHANUMERIC 0 0 0 [] bs)"

definition all_count :: "cob_field \<Rightarrow> nat" where
  "all_count dst = (if field_is_numeric dst then 18 else fsize dst)"

definition expands_P :: "cob_field \<Rightarrow> bool" where
  "expands_P f \<longleftrightarrow> field_scale f < 0 \<or> field_scale f > int (field_digits f)"

text \<open>The temporaries \<open>cob_move\<close> recurs on have smaller rank than their source.\<close>

definition move_rank :: "cob_field \<Rightarrow> nat" where
  "move_rank f =
    (if field_type f = COB_TYPE_ALPHANUMERIC_ALL then 4
     else if field_type f \<noteq> COB_TYPE_NUMERIC_DISPLAY then 3
     else if fsize f = 0 then 2
     else if expands_P f then (if field_digits f = 0 \<and> field_scale f \<le> 0 then 3 else 1)
     else 0)"

lemma move_rank_temp: "length bs = sz \<Longrightarrow> move_rank (display_temp sz s bs) \<le> (if sz = 0 then 2 else 1)"
  by (simp add: move_rank_def display_temp_def)

lemma move_rank_all_temp: "move_rank (all_temp dst bs) \<le> 3"
  by (simp add: move_rank_def all_temp_def)

lemma move_rank_expanded:
  "length bs = max d (nat s) \<Longrightarrow>
   move_rank (display_temp (max d (nat s)) (max 0 s) bs) = (if max d (nat s) = 0 then 2 else 0)"
  by (auto simp: move_rank_def display_temp_def expands_P_def)

text \<open>Conversions keep the size and the attributes of the items.\<close>

lemma store_common_region_frame:
  "fattr (store_common_region f bs s) = fattr f"
  by (simp add: store_common_region_def Let_def put_bytes_set_data)

lemma length_overlay: "off + length bs \<le> length z \<Longrightarrow> length (overlay z off bs) = length z"
  by (simp add: overlay_def)

definition has_room :: "cob_field \<Rightarrow> bool" where
  "has_room f \<longleftrightarrow> data_off f + data_size f \<le> fsize f"

definition same_shape :: "cob_field \<Rightarrow> cob_field \<Rightarrow> bool" where
  "same_shape f g \<longleftrightarrow> fattr g = fattr f \<and> fsize g = fsize f"

lemma wf_has_room: "wf_field f \<Longrightarrow> has_room f"
  by (simp add: has_room_def data_room)

lemma plain_has_room: "\<not> sign_separate f \<Longrightarrow> has_room f"
  by (simp add: has_room_def data_off_def data_size_def)

lemma same_shape_trans: "same_shape f g \<Longrightarrow> same_shape g h \<Longrightarrow> same_shape f h"
  by (simp add: same_shape_def)

lemma put_sign_shape: "cob_put_sign M f s = Some g \<Longrightarrow> same_shape f g"
  by (simp add: same_shape_def cob_put_sign_frame)

lemma get_sign_shape: "cob_get_sign M f = Some (s, g) \<Longrightarrow> same_shape f g"
  by (simp add: same_shape_def cob_get_sign_frame)

lemma put_bytes_shape: "has_room f \<Longrightarrow> length bs = data_size f \<Longrightarrow> same_shape f (put_bytes f bs)"
  by (simp add: same_shape_def has_room_def put_bytes_set_data fsize_def)

lemma region_room:
  fixes n1 n2 :: nat and s1 s2 :: int
  assumes "max (- s1) (- s2) < min (int n1 - s1) (int n2 - s2)"
  shows "nat (int n2 - s2 - min (int n1 - s1) (int n2 - s2)) +
      nat (min (int n1 - s1) (int n2 - s2) - max (- s1) (- s2)) \<le> n2"
    and "nat (int n1 - s1 - min (int n1 - s1) (int n2 - s2)) +
      nat (min (int n1 - s1) (int n2 - s2) - max (- s1) (- s2)) \<le> n1"
  using assms by linarith+

lemma store_common_region_shape:
  assumes "has_room f"
  shows "same_shape f (store_common_region f bs s)"
proof -
  have "length (overlay (replicate (data_size f) chr_0) q (map space_to_zero (take c xs))) = data_size f"
    if "q + c \<le> data_size f" for q c xs
    using that by (subst length_overlay) auto
  then show ?thesis
    using region_room(1) [of s "field_scale f" "length bs" "data_size f"]
    unfolding store_common_region_def Let_def
    by (auto intro!: put_bytes_shape [OF assms])
qed

lemma an_loop_length: "an_loop M room n s = Some ds \<Longrightarrow> length ds \<le> room"
  by (induction M room n s arbitrary: ds rule: an_loop.induct) (auto split: if_splits)

lemma move_to_display_shape:
  assumes "has_room f2"
  shows "cob_move_alphanum_to_display M f1 f2 = Some (g1, g2) \<Longrightarrow> same_shape f2 g2"
    and "cob_move_display_to_display M f1 f2 = Some (g1, g2) \<Longrightarrow> same_shape f2 g2"
    and "cob_move_packed_to_display M f1 f2 = Some (g1, g2) \<Longrightarrow> same_shape f2 g2"
    and "cob_move_binary_to_display T M f1 f2 = Some (g1, g2) \<Longrightarrow> same_shape f2 g2"
    and "cob_move_fp_to_display E M f1 f2 = Some (g1, g2) \<Longrightarrow> same_shape f2 g2"
    and "cob_move_edited_to_display M f1 f2 = Some (g1, g2) \<Longrightarrow> same_shape f2 g2"
proof -
  note store = same_shape_trans [OF store_common_region_shape [OF assms] put_sign_shape]
  show "cob_move_display_to_display M f1 f2 = Some (g1, g2) \<Longrightarrow> same_shape f2 g2"
    "cob_move_packed_to_display M f1 f2 = Some (g1, g2) \<Longrightarrow> same_shape f2 g2"
    "cob_move_binary_to_display T M f1 f2 = Some (g1, g2) \<Longrightarrow> same_shape f2 g2"
    "cob_move_fp_to_display E M f1 f2 = Some (g1, g2) \<Longrightarrow> same_shape f2 g2"
    "cob_move_edited_to_display M f1 f2 = Some (g1, g2) \<Longrightarrow> same_shape f2 g2"
    by (auto simp: cob_move_display_to_display_def cob_move_packed_to_display_def cob_move_binary_to_display_def
        cob_move_fp_to_display_def cob_move_edited_to_display_def bind_eq_Some_conv Let_def
        intro: store split: if_splits prod.splits)
  let ?z = "set_data f2 (replicate (fsize f2) chr_0)"
  have z: "same_shape f2 ?z" "has_room ?z" using assms by (simp_all add: same_shape_def has_room_def data_size_def)
  have put: "same_shape f2 g" if g: "cob_put_sign M (put_bytes ?z (overlay (field_bytes ?z) off ds)) s = Some g"
    and l: "length ds \<le> data_size ?z - off" for off ds s g
  proof -
    have "length (field_bytes ?z) = data_size ?z"
      using z(2) by (simp add: field_bytes_def has_room_def fsize_def)
    then have "length (overlay (field_bytes ?z) off ds) = data_size ?z"
      using l by (cases "ds = []") (simp_all add: overlay_def)
    then show ?thesis
      using same_shape_trans [OF z(1) same_shape_trans [OF put_bytes_shape [OF z(2)] put_sign_shape [OF g]]] by simp
  qed
  assume m: "cob_move_alphanum_to_display M f1 f2 = Some (g1, g2)"
  have "(\<exists>off s ds sg. an_loop M (data_size ?z - off) 0 s = Some ds \<and>
      cob_put_sign M (put_bytes ?z (overlay (field_bytes ?z) off ds)) sg = Some g2) \<or> cob_put_sign M ?z 0 = Some g2"
    using m unfolding cob_move_alphanum_to_display_def Let_def
    by (force simp: bind_eq_Some_conv simp del: data_size_set_data split: prod.split_asm if_split_asm option.split_asm)
  then show "same_shape f2 g2"
    using put an_loop_length same_shape_trans [OF z(1) put_sign_shape] by blast
qed

lemma indirect_temp_length:
  assumes "indirect_temp func src sz s = Some (g, bs)"
    and "\<And>t g1 g2. has_room t \<Longrightarrow> func src t = Some (g1, g2) \<Longrightarrow> same_shape t g2"
  shows "length bs = sz" "sz \<le> 64"
proof -
  let ?t = "cob_fld COB_TYPE_NUMERIC_DISPLAY sz s COB_FLAG_HAVE_SIGN [] (replicate sz 0)"
  obtain h where h: "sz \<le> 64" "func src ?t = Some (g, h)" "bs = fdata h"
    using assms(1) by (auto simp: indirect_temp_def split: if_splits)
  moreover have "has_room ?t" by (rule plain_has_room) simp
  ultimately have "same_shape ?t h" using assms(2) by blast
  then show "length bs = sz" "sz \<le> 64" using h by (simp_all add: same_shape_def fsize_def)
qed

lemma indirect_lengths:
  "indirect_temp (cob_move_alphanum_to_display M) src sz s = Some (g, bs) \<Longrightarrow> length bs = sz"
  "indirect_temp (cob_move_display_to_display M) src sz s = Some (g, bs) \<Longrightarrow> length bs = sz"
  "indirect_temp (cob_move_packed_to_display M) src sz s = Some (g, bs) \<Longrightarrow> length bs = sz"
  "indirect_temp (cob_move_binary_to_display T M) src sz s = Some (g, bs) \<Longrightarrow> length bs = sz"
  "indirect_temp (cob_move_fp_to_display E M) src sz s = Some (g, bs) \<Longrightarrow> length bs = sz"
  "indirect_temp (cob_move_edited_to_display M) src sz s = Some (g, bs) \<Longrightarrow> length bs = sz"
  by (erule indirect_temp_length(1), erule move_to_display_shape, assumption)+

definition is_fp :: "cob_type \<Rightarrow> bool" where
  "is_fp t \<longleftrightarrow> t = COB_TYPE_NUMERIC_FLOAT \<or> t = COB_TYPE_NUMERIC_DOUBLE"

definition other_numeric :: "cob_type \<Rightarrow> bool" where
  "other_numeric t \<longleftrightarrow> is_fp t \<or> t = COB_TYPE_NUMERIC_BINARY \<or> t = COB_TYPE_NUMERIC_PACKED \<or>
     t = COB_TYPE_NUMERIC_EDITED"

text \<open>
  \<open>cob_move\<close>. The outer pair is returned with the source as the caller sees it: an empty
  source stands aside for \<open>cob_space\<close>.
\<close>

function cob_move ::
  "target \<Rightarrow> fp_env \<Rightarrow> cob_module \<Rightarrow> cob_field \<Rightarrow> cob_field \<Rightarrow> (cob_field \<times> cob_field) option" where
  "cob_move T E M src dst =
    (if field_type src = COB_TYPE_ALPHANUMERIC_ALL then do {
       bs \<leftarrow> repeat_all (fdata src) (all_count dst);
       (_, dst') \<leftarrow> cob_move T E M (all_temp dst bs) dst;
       Some (src, dst') }
     else if fsize dst = 0 then Some (src, dst)
     else let s = (if fsize src = 0 then cob_space else src); keep = (\<lambda>s'. if fsize src = 0 then src else s') in
       if field_type s = COB_TYPE_GROUP \<or> field_type dst = COB_TYPE_GROUP then
         map_option (apfst keep) (cob_move_alphanum_to_alphanum s dst)
       else if field_type s = COB_TYPE_NUMERIC_DISPLAY then
         (if is_fp (field_type dst) then cob_move_display_to_fp E M s dst
          else if field_type dst = COB_TYPE_NUMERIC_DISPLAY then cob_move_display_to_display M s dst
          else if field_type dst = COB_TYPE_NUMERIC_PACKED then cob_move_display_to_packed M s dst
          else if field_type dst = COB_TYPE_NUMERIC_BINARY then cob_move_display_to_binary T M s dst
          else if field_type dst = COB_TYPE_NUMERIC_EDITED then cob_move_display_to_edited M s dst
          else if field_type dst = COB_TYPE_ALPHANUMERIC_EDITED then
            if expands_P s then do {
              (s', t) \<leftarrow> indirect_temp (cob_move_display_to_display M) s
                 (max (field_digits s) (nat (field_scale s))) (max 0 (field_scale s));
              (_, dst') \<leftarrow> cob_move T E M (display_temp (max (field_digits s) (nat (field_scale s)))
                 (max 0 (field_scale s)) t) dst;
              Some (s', dst') }
            else cob_move_alphanum_to_edited M s dst
          else cob_move_display_to_alphanum M s dst)
       else if field_type s = COB_TYPE_NUMERIC_PACKED then
         (if field_type dst = COB_TYPE_NUMERIC_DISPLAY then cob_move_packed_to_display M s dst
          else do {
            (s', t) \<leftarrow> indirect_temp (cob_move_packed_to_display M) s (field_digits s) (field_scale s);
            (_, dst') \<leftarrow> cob_move T E M (display_temp (field_digits s) (field_scale s) t) dst;
            Some (s', dst') })
       else if field_type s = COB_TYPE_NUMERIC_BINARY then
         (if field_type dst = COB_TYPE_NUMERIC_DISPLAY then cob_move_binary_to_display T M s dst
          else do {
            let sz = (if other_numeric (field_type dst) then 20 else field_digits s);
            (s', t) \<leftarrow> indirect_temp (cob_move_binary_to_display T M) s sz (field_scale s);
            (_, dst') \<leftarrow> cob_move T E M (display_temp sz (field_scale s) t) dst;
            Some (s', dst') })
       else if field_type s = COB_TYPE_NUMERIC_EDITED then
         (if field_type dst = COB_TYPE_NUMERIC_DISPLAY then cob_move_edited_to_display M s dst
          else if other_numeric (field_type dst) then do {
            (s', t) \<leftarrow> indirect_temp (cob_move_edited_to_display M) s 36 18;
            (_, dst') \<leftarrow> cob_move T E M (display_temp 36 18 t) dst;
            Some (s', dst') }
          else if field_type dst = COB_TYPE_ALPHANUMERIC_EDITED then cob_move_alphanum_to_edited M s dst
          else cob_move_alphanum_to_alphanum s dst)
       else if is_fp (field_type s) then do {
         (s', t) \<leftarrow> indirect_temp (cob_move_fp_to_display E M) s 40 20;
         (_, dst') \<leftarrow> cob_move T E M (display_temp 40 20 t) dst;
         Some (s', dst') }
       else if field_type dst = COB_TYPE_NUMERIC_DISPLAY then
         map_option (apfst keep) (cob_move_alphanum_to_display M s dst)
       else if other_numeric (field_type dst) then do {
         (s', t) \<leftarrow> indirect_temp (cob_move_alphanum_to_display M) s 36 18;
         (_, dst') \<leftarrow> cob_move T E M (display_temp 36 18 t) dst;
         Some (keep s', dst') }
       else if field_type dst = COB_TYPE_ALPHANUMERIC_EDITED then
         map_option (apfst keep) (cob_move_alphanum_to_edited M s dst)
       else map_option (apfst keep) (cob_move_alphanum_to_alphanum s dst))"
  by auto

termination
  by (relation "measure (\<lambda>(T, E, M, src, dst). move_rank src)")
    (auto simp: move_rank_def display_temp_def all_temp_def expands_P_def cob_space_def is_fp_def
      dest!: indirect_lengths split: if_splits)

declare cob_move.simps [simp del]

section \<open>To and from C integers\<close>

fun int_acc :: "nat \<Rightarrow> int \<Rightarrow> int list \<Rightarrow> int" where
  "int_acc w val [] = val"
| "int_acc w val (d # ds) = int_acc w (signed_take_bit (w - 1) (signed_take_bit (w - 1) (val * 10) + d)) ds"

text \<open>
  The half bytes \<open>offset \<dots>\<close> of a packed item before its decimal point. The bound is computed
  in \<open>size_t\<close>; past the storage the read is undefined.
\<close>

definition packed_int_digits :: "cob_field \<Rightarrow> int list option" where
  "packed_int_digits f =
    (let offset = 1 - field_digits f mod 2;
         upper = int (field_digits f) - field_scale f + int offset in
     if upper < 0 then None
     else those (map (\<lambda>i. map_option (\<lambda>b. if even i then uint (drop_bit 4 b) else uint (b AND 0x0f))
            (rd (fdata f) (i div 2))) [offset ..< nat upper]))"

definition cob_packed_get_int :: "cob_module \<Rightarrow> cob_field \<Rightarrow> int option" where
  "cob_packed_get_int M f = do {
     (sign, f) \<leftarrow> cob_get_sign M f;
     ds \<leftarrow> packed_int_digits f;
     let val = int_acc 32 0 ds;
     Some (if sign < 0 then i32 (- val) else val) }"

definition cob_packed_get_long_long :: "cob_module \<Rightarrow> cob_field \<Rightarrow> int option" where
  "cob_packed_get_long_long M f = do {
     (sign, f) \<leftarrow> cob_get_sign M f;
     ds \<leftarrow> packed_int_digits f;
     let val = int_acc 64 0 ds;
     Some (if sign < 0 then i64 (- val) else val) }"

text \<open>
  The digits of a DISPLAY item that count, leading zeros skipped; \<open>size -= scale\<close> is a
  \<open>size_t\<close> subtraction, so a scale beyond the size runs past the storage. The second
  component is the power of ten for a negative scale.
\<close>

definition display_int_digits :: "cob_field \<Rightarrow> (bytes \<times> nat) option" where
  "display_int_digits f =
    (let data = field_bytes f; i = length (takeWhile (\<lambda>b. cob_d2i b = 0) data) in
     if field_scale f < 0 then Some (drop i data, nat (- field_scale f))
     else if field_scale f \<le> int (length data) then
       Some (drop i (take (length data - nat (field_scale f)) data), 0)
     else None)"

definition display_get :: "nat \<Rightarrow> nat \<Rightarrow> cob_module \<Rightarrow> cob_field \<Rightarrow> (int \<times> cob_field) option" where
  "display_get w pow M f = do {
     (sign, f) \<leftarrow> cob_get_sign M f;
     (ds, e) \<leftarrow> display_int_digits f;
     val \<leftarrow> (if pow < e then None
             else Some (signed_take_bit (w - 1) (int_acc w 0 (map cob_d2i ds) * 10 ^ e)));
     let val = (if sign < 0 then signed_take_bit (w - 1) (- val) else val);
     f \<leftarrow> cob_put_sign M f sign;
     Some (val, f) }"

definition cob_display_get_int :: "cob_module \<Rightarrow> cob_field \<Rightarrow> (int \<times> cob_field) option" where
  "cob_display_get_int M f = display_get 32 9 M f"

definition cob_display_get_long_long :: "cob_module \<Rightarrow> cob_field \<Rightarrow> (int \<times> cob_field) option" where
  "cob_display_get_long_long M f = display_get 64 18 M f"

definition int_temp :: "target \<Rightarrow> nat \<Rightarrow> nat \<Rightarrow> int \<Rightarrow> cob_field" where
  "int_temp T digits sz n = cob_fld COB_TYPE_NUMERIC_BINARY digits 0 COB_FLAG_HAVE_SIGN [] (host_bytes T sz n)"

definition cob_set_int :: "target \<Rightarrow> fp_env \<Rightarrow> cob_module \<Rightarrow> cob_field \<Rightarrow> int \<Rightarrow> cob_field option" where
  "cob_set_int T E M f n = map_option snd (cob_move T E M (int_temp T 9 4 n) f)"

definition cob_get_int :: "target \<Rightarrow> fp_env \<Rightarrow> cob_module \<Rightarrow> cob_field \<Rightarrow> (int \<times> cob_field) option" where
  "cob_get_int T E M f =
    (case field_type f of
       COB_TYPE_NUMERIC_DISPLAY \<Rightarrow> cob_display_get_int M f
     | COB_TYPE_NUMERIC_BINARY \<Rightarrow> map_option (\<lambda>n. (i32 n, f)) (cob_binary_mget_int64 T f)
     | COB_TYPE_NUMERIC_PACKED \<Rightarrow> map_option (\<lambda>n. (n, f)) (cob_packed_get_int M f)
     | _ \<Rightarrow> do {
         (f, t) \<leftarrow> cob_move T E M f (int_temp T 9 4 0);
         Some (i32 (host_val T (fdata t)), f) })"

definition cob_get_long_long :: "target \<Rightarrow> fp_env \<Rightarrow> cob_module \<Rightarrow> cob_field \<Rightarrow> (int \<times> cob_field) option" where
  "cob_get_long_long T E M f =
    (case field_type f of
       COB_TYPE_NUMERIC_DISPLAY \<Rightarrow> cob_display_get_long_long M f
     | COB_TYPE_NUMERIC_BINARY \<Rightarrow> map_option (\<lambda>n. (n, f)) (cob_binary_mget_int64 T f)
     | COB_TYPE_NUMERIC_PACKED \<Rightarrow> map_option (\<lambda>n. (n, f)) (cob_packed_get_long_long M f)
     | _ \<Rightarrow> do {
         (f, t) \<leftarrow> cob_move T E M f (int_temp T 18 8 0);
         Some (i64 (host_val T (fdata t)), f) })"

end
