(* ===== verification/Cob_Move_Numeric.thy ===== *)
theory Cob_Move_Numeric
  imports Cob_Move
begin

text \<open>
  MOVE between numeric items (move.c): the common region of two digit strings as decimal
  rescaling (\<open>store_common_region\<close>), the value each conversion routine stores, and the
  theorem \<open>move_num\<close> on the dispatcher: from any of DISPLAY, PACKED-DECIMAL and BINARY to
  any of them, directly or through the temporary item, the target receives the number of the
  source, aligned at the decimal point and cut to the digits of the target, and the source
  keeps its number.
\<close>

section \<open>Rescaling\<close>

definition rescale :: "int \<Rightarrow> int \<Rightarrow> int" where
  "rescale v k = (if k \<ge> 0 then v * 10 ^ nat k else v div 10 ^ nat (- k))"

lemma space_to_zero_digits: "all_digits bs \<Longrightarrow> map space_to_zero bs = bs"
  by (induction bs) (auto simp: space_to_zero_def isdigit_def)

lemma dec_val_segment:
  assumes "all_digits bs" "p + c \<le> length bs"
  shows "dec_val (take c (drop p bs)) = dec_val bs div 10 ^ (length bs - p - c) mod 10 ^ c"
proof -
  define a where "a = take p bs" define b where "b = take c (drop p bs)" define d where "d = drop (p + c) bs"
  have bs: "bs = a @ b @ d" unfolding a_def b_def d_def by (metis append_take_drop_id drop_drop add.commute)
  have l: "length b = c" "length d = length bs - p - c" using assms(2) by (simp_all add: b_def d_def)
  have dg: "all_digits b" "all_digits d" using assms(1) bs by simp_all
  have "dec_val bs = (dec_val a * 10 ^ c + dec_val b) * 10 ^ length d + dec_val d"
    using bs l(1) by (simp add: dec_val_append algebra_simps power_add)
  then have "dec_val bs div 10 ^ length d = dec_val a * 10 ^ c + dec_val b"
    using dec_val_nonneg [OF dg(2)] dec_val_less [OF dg(2)] base_split(1) [of "10 ^ length d" _ "dec_val d"] by simp
  then have "dec_val bs div 10 ^ length d mod 10 ^ c = dec_val b"
    using dec_val_nonneg [OF dg(1)] dec_val_less [OF dg(1)] l(1) by simp
  then show ?thesis using l(2) by (simp add: b_def)
qed

lemma dec_val_overlay_zeros:
  assumes "q + length bs \<le> n"
  shows "dec_val (overlay (replicate n 48) q bs) = dec_val bs * 10 ^ (n - q - length bs)"
    "all_digits bs \<Longrightarrow> all_digits (overlay (replicate n 48) q bs)"
  using assms by (simp_all add: overlay_def dec_val_append)

lemma zdiv_less: "0 < k \<Longrightarrow> x < y * k \<Longrightarrow> x div k < (y :: int)"
proof (rule ccontr)
  assume k: "0 < k" "x < y * k" and "\<not> x div k < y"
  then have "y * k \<le> x div k * k" by (intro mult_right_mono) simp_all
  moreover have "x = x div k * k + x mod k" "0 \<le> x mod k" using k(1) by simp_all
  ultimately show False using k(2) by linarith
qed

lemma region_value:
  fixes v :: int and s1 s2 :: int and n1 n2 :: nat
  assumes v: "0 \<le> v" "v < 10 ^ n1"
  defines "L \<equiv> max (- s1) (- s2)" and "G \<equiv> min (int n1 - s1) (int n2 - s2)"
  shows "L < G \<Longrightarrow> (v div 10 ^ nat (L + s1) mod 10 ^ nat (G - L)) * 10 ^ nat (L + s2) = rescale v (s2 - s1) mod 10 ^ n2"
    and "\<not> L < G \<Longrightarrow> rescale v (s2 - s1) mod 10 ^ n2 = 0"
proof -
  show "rescale v (s2 - s1) mod 10 ^ n2 = 0" if "\<not> L < G"
  proof (cases "s1 \<le> s2")
    case True
    then have "n1 = 0 \<or> n2 \<le> nat (s2 - s1)" using that unfolding L_def G_def by linarith
    then consider "n1 = 0" | "n2 \<le> nat (s2 - s1)" by blast
    then show ?thesis
    proof cases
      case 1
      then have "v = 0" using v by simp
      then show ?thesis by (simp add: rescale_def)
    next
      case 2
      then have "(10::int) ^ n2 dvd 10 ^ nat (s2 - s1)" by (rule le_imp_power_dvd)
      then show ?thesis using True by (simp add: rescale_def)
    qed
  next
    case False
    then have "n2 = 0 \<or> n1 \<le> nat (s1 - s2)" using that unfolding L_def G_def by linarith
    then consider "n2 = 0" | "n1 \<le> nat (s1 - s2)" by blast
    then show ?thesis
    proof cases
      case 2
      then have "(10::int) ^ n1 \<le> 10 ^ nat (s1 - s2)" by (rule exp10_mono)
      then have "v < 10 ^ nat (s1 - s2)" using v(2) by linarith
      then show ?thesis using v(1) False by (simp add: rescale_def)
    qed simp
  qed
  assume LG: "L < G"
  show "(v div 10 ^ nat (L + s1) mod 10 ^ nat (G - L)) * 10 ^ nat (L + s2) = rescale v (s2 - s1) mod 10 ^ n2"
  proof (cases "s1 \<le> s2")
    case True
    then have l: "nat (L + s1) = 0" "nat (L + s2) = nat (s2 - s1)" by (simp_all add: L_def)
    define k where "k = nat (s2 - s1)"
    have "(v mod 10 ^ nat (G - L)) * 10 ^ k = (v * 10 ^ k) mod 10 ^ n2"
    proof (cases "int n1 - s1 \<le> int n2 - s2")
      case le: True
      then have "nat (G - L) = n1" "n1 + k \<le> n2" using True LG by (simp_all add: G_def L_def k_def)
      then have m: "v mod 10 ^ nat (G - L) = v" using v by simp
      have "v * 10 ^ k < 10 ^ (n1 + k)" using v by (simp add: power_add)
      then have "v * 10 ^ k < 10 ^ n2" by (rule less_le_trans [OF _ exp10_mono]) (rule \<open>n1 + k \<le> n2\<close>)
      moreover have "0 \<le> v * 10 ^ k" using v by simp
      ultimately show ?thesis unfolding m by (simp only: mod_pos_pos_trivial)
    next
      case False
      then have "nat (G - L) + k = n2" using True LG by (simp add: G_def L_def k_def)
      then have "(10::int) ^ n2 = 10 ^ nat (G - L) * 10 ^ k" by (simp flip: power_add)
      then show ?thesis by (simp add: mult_mod_left)
    qed
    then show ?thesis using True l by (simp add: rescale_def k_def)
  next
    case False
    define k where "k = nat (s1 - s2)"
    have l: "nat (L + s1) = k" "nat (L + s2) = 0" using False by (simp_all add: L_def k_def)
    have "v div 10 ^ k mod 10 ^ nat (G - L) = v div 10 ^ k mod 10 ^ n2"
    proof (cases "int n1 - s1 \<le> int n2 - s2")
      case le: True
      then have n: "nat (G - L) + k = n1" "nat (G - L) \<le> n2" using False LG by (simp_all add: G_def L_def k_def)
      have "v < 10 ^ nat (G - L) * 10 ^ k" using v(2) n(1) by (simp flip: power_add)
      then have "v div 10 ^ k < 10 ^ nat (G - L)" by (rule zdiv_less [rotated]) simp
      moreover from this have "v div 10 ^ k < 10 ^ n2" by (rule less_le_trans [OF _ exp10_mono]) (rule n(2))
      moreover have "0 \<le> v div 10 ^ k" using v(1) by (simp add: pos_imp_zdiv_nonneg_iff)
      ultimately show ?thesis by (simp only: mod_pos_pos_trivial)
    next
      case gt: False
      then have "nat (G - L) = n2" using False LG by (simp add: G_def L_def)
      then show ?thesis by simp
    qed
    then show ?thesis using False l by (simp add: rescale_def k_def)
  qed
qed

lemma store_common_region_digits:
  assumes d: "all_digits data"
  shows "store_common_region f data s =
    put_bytes f (pad_digits (data_size f) (rescale (dec_val data) (field_scale f - s)))"
proof -
  let ?n1 = "length data" and ?n2 = "data_size f" and ?s2 = "field_scale f"
  let ?L = "max (- s) (- ?s2)" and ?G = "min (int ?n1 - s) (int ?n2 - ?s2)"
  let ?p = "nat (int ?n1 - s - ?G)" and ?q = "nat (int ?n2 - ?s2 - ?G)" and ?c = "nat (?G - ?L)"
  let ?bs = "if ?L < ?G then overlay (replicate ?n2 chr_0) ?q (take ?c (drop ?p data)) else replicate ?n2 chr_0"
  have st: "store_common_region f data s = put_bytes f ?bs"
    using space_to_zero_digits [OF all_digits_take [OF all_digits_drop [OF d]]]
    by (simp add: store_common_region_def Let_def)
  note v = dec_val_nonneg [OF d] dec_val_less [OF d]
  have "?bs = pad_digits ?n2 (rescale (dec_val data) (?s2 - s))"
  proof (cases "?L < ?G")
    case True
    note r = region_room [OF True]
    have len: "length (take ?c (drop ?p data)) = ?c" using r(2) unfolding length_take length_drop by linarith
    have e: "?n1 - ?p - ?c = nat (?L + s)" "?n2 - ?q - ?c = nat (?L + ?s2)" using True by linarith+
    have bs: "?bs = overlay (replicate ?n2 chr_0) ?q (take ?c (drop ?p data))" by (rule if_P [OF True])
    have "dec_val ?bs = dec_val (take ?c (drop ?p data)) * 10 ^ (?n2 - ?q - ?c)"
      unfolding bs using dec_val_overlay_zeros(1) [of ?q "take ?c (drop ?p data)" ?n2] r(1) unfolding len .
    also have "\<dots> = (dec_val data div 10 ^ nat (?L + s) mod 10 ^ ?c) * 10 ^ nat (?L + ?s2)"
      unfolding dec_val_segment [OF d r(2)] e ..
    also have "\<dots> = rescale (dec_val data) (?s2 - s) mod 10 ^ ?n2"
      by (rule region_value(1) [OF v True])
    finally have "dec_val ?bs = dec_val (pad_digits ?n2 (rescale (dec_val data) (?s2 - s)))" unfolding dec_val_pad .
    moreover have "all_digits ?bs" unfolding bs
      by (rule dec_val_overlay_zeros(2)) (use r(1) len d in \<open>simp_all only: all_digits_take all_digits_drop\<close>)
    moreover have "length ?bs = ?n2" unfolding bs
      by (subst length_overlay) (use r(1) len in \<open>simp_all only: length_replicate\<close>)
    ultimately show ?thesis by (intro dec_val_inj) (simp_all only: all_digits_pad length_pad_digits)
  next
    case False
    have "dec_val (replicate ?n2 chr_0) = dec_val (pad_digits ?n2 (rescale (dec_val data) (?s2 - s)))"
      unfolding dec_val_pad dec_val_replicate0 by (rule region_value(2) [OF v False, symmetric])
    then have "replicate ?n2 chr_0 = pad_digits ?n2 (rescale (dec_val data) (?s2 - s))"
      by (intro dec_val_inj) (simp_all only: all_digits_pad length_pad_digits length_replicate all_digits_replicate)
    then show ?thesis unfolding if_not_P [OF False] .
  qed
  with st show ?thesis by simp
qed


section \<open>Windows of a digit string\<close>

text \<open>The \<open>k\<close> characters from position \<open>p\<close> on, zeros where there are none.\<close>

definition window :: "bytes \<Rightarrow> nat \<Rightarrow> int \<Rightarrow> nat \<Rightarrow> bytes" where
  "window ds n p k = map (\<lambda>j. if 0 \<le> p + int j \<and> p + int j < int n then ds ! nat (p + int j) else chr_0) [0 ..< k]"

lemma window_Cons: "window ds n p (Suc k) =
    (if 0 \<le> p \<and> p < int n then ds ! nat p else chr_0) # window ds n (p + 1) k"
  by (simp add: window_def map_upt_Suc algebra_simps del: upt_Suc)

lemma digit_of_dec_val:
  assumes "all_digits ds" "j < length ds"
  shows "dec_val ds div 10 ^ (length ds - 1 - j) mod 10 = cob_d2i (ds ! j)"
  using dec_val_segment [OF assms(1), of j 1] assms(2)
  by (simp add: take_Suc_conv_app_nth hd_drop_conv_nth dec_val_Cons take_Suc)

lemma rescale_div: "rescale v (k + 1) div 10 = rescale v k"
proof -
  consider "k \<ge> 0" | "k = - 1" | "k < - 1" by linarith
  then show ?thesis
  proof cases
    case 1
    then have "nat (k + 1) = Suc (nat k)" by linarith
    then show ?thesis using 1 by (simp add: rescale_def)
  next
    case 3
    define m where "m = nat (- (k + 1))"
    have "nat (- k) = Suc m" using 3 by (simp add: m_def)
    moreover have "v div 10 ^ Suc m = v div 10 ^ m div 10" unfolding power_Suc2 by (rule zdiv_zmult2_eq) simp
    ultimately show ?thesis using 3 by (simp only: rescale_def if_not_P m_def not_le)
  qed (simp add: rescale_def)
qed

lemma window_digits:
  assumes d: "all_digits ds"
  shows "window ds (length ds) p k = pad_digits k (rescale (dec_val ds) (p + int k - int (length ds)))"
proof (induction k)
  case (Suc k)
  let ?n = "length ds" and ?v = "dec_val ds" let ?j = "p + int k"
  have e: "p + int (Suc k) - int ?n = (p + int k - int ?n) + 1" by simp
  have "(if 0 \<le> ?j \<and> ?j < int ?n then ds ! nat ?j else chr_0) = cob_i2d (rescale ?v (p + int (Suc k) - int ?n) mod 10)"
  proof -
    consider "int ?n \<le> ?j" | "0 \<le> ?j \<and> ?j < int ?n" | "?j < 0" by linarith
    then show ?thesis
    proof cases
      case 1
      then have "nat (p + int (Suc k) - int ?n) = Suc (nat (?j - int ?n))" by linarith
      then have "rescale ?v (p + int (Suc k) - int ?n) mod 10 = 0" using 1 by (simp add: rescale_def)
      then show ?thesis using 1 by (simp only: cob_i2d_def) simp
    next
      case 2
      then have r: "rescale ?v (p + int (Suc k) - int ?n) = ?v div 10 ^ (?n - 1 - nat ?j)"
      proof (cases "p + int (Suc k) - int ?n = 0")
        case True
        then have "?n - 1 - nat ?j = 0" by linarith
        then show ?thesis unfolding True by (simp add: rescale_def)
      next
        case False
        then have "nat (- (p + int (Suc k) - int ?n)) = ?n - 1 - nat ?j" "\<not> 0 \<le> p + int (Suc k) - int ?n"
          using 2 by linarith+
        then show ?thesis by (simp only: rescale_def if_False)
      qed
      have "nat ?j < ?n" using 2 by linarith
      from digit_of_dec_val [OF d this] show ?thesis using 2 unfolding r by (simp add: i2d_d2i)
    next
      case 3
      then have b: "?n \<le> nat (- (p + int (Suc k) - int ?n))" by linarith
      have "?v < 10 ^ nat (- (p + int (Suc k) - int ?n))"
        by (rule less_le_trans [OF dec_val_less [OF d] exp10_mono [OF b]])
      then have "?v div 10 ^ nat (- (p + int (Suc k) - int ?n)) = 0" using dec_val_nonneg [OF d] by simp
      moreover have "?v = 0 \<or> p + int (Suc k) - int ?n < 0 \<or> p + int (Suc k) = int ?n"
        using 3 by linarith
      moreover have "p + int (Suc k) = int ?n \<Longrightarrow> ?v = 0"
        using 3 d by (cases ds) auto
      ultimately have "rescale ?v (p + int (Suc k) - int ?n) = 0"
        by (auto simp: rescale_def)
      then show ?thesis using 3 by (simp only: cob_i2d_def) simp
    qed
  qed
  then show ?case
    using Suc.IH unfolding pad_digits.simps e rescale_div by (simp add: window_def)
qed (simp add: window_def)

lemma pack_chars_put:
  assumes "i + k \<le> 2 * length data2" "digits1 \<le> length data1" "all_digits (take digits1 data1)"
  shows "pack_chars digits1 k p i data1 data2 = put_packed i (window data1 digits1 p k) (i div 2) data2"
  using assms
proof (induction k arbitrary: p i data2)
  case 0
  then show ?case by (simp add: window_def)
next
  case (Suc k)
  let ?c = "if 0 \<le> p \<and> p < int digits1 then data1 ! nat p else chr_0"
  have ib: "i div 2 < length data2" using Suc.prems(1) by linarith
  have c: "(if 0 \<le> p \<and> p < int digits1 then do {
      c \<leftarrow> rdi data1 p; Some (if c = chr_space then 0 else word_of_int (cob_d2i c)) } else Some 0) =
    Some (word_of_int (cob_d2i ?c) :: u8)"
  proof (cases "0 \<le> p \<and> p < int digits1")
    case True
    then have "nat p < length (take digits1 data1)" using Suc.prems(2) by (simp add: nat_less_iff)
    from all_digits_nth [OF Suc.prems(3) this] have "isdigit (data1 ! nat p)" using True by (simp add: nat_less_iff)
    then have "data1 ! nat p \<noteq> chr_space" by (auto simp: isdigit_def)
    then show ?thesis using True Suc.prems(2) by (simp add: rdi_def rd_def nat_less_iff)
  next
    case False
    then show ?thesis unfolding if_not_P [OF False] by (simp add: cob_d2i_def)
  qed
  have IH: "pack_chars digits1 k (p + 1) (Suc i) data1 buf = put_packed (Suc i) (window data1 digits1 (p + 1) k) (Suc i div 2) buf"
    if "length buf = length data2" for buf
    using Suc.IH [of "Suc i" buf "p + 1"] Suc.prems that by simp
  show ?case
    unfolding pack_chars.simps window_Cons put_packed.simps c
    using ib IH by (cases "even i") (simp_all add: rd_def wr_def Let_def)
qed


section \<open>What a numeric item holds\<close>

definition num_val :: "target \<Rightarrow> cob_module \<Rightarrow> cob_field \<Rightarrow> int option" where
  "num_val T M f =
    (case field_type f of
       COB_TYPE_NUMERIC_DISPLAY \<Rightarrow>
         (case cob_get_sign M f of
            Some (s, g) \<Rightarrow> if wf_field f \<and> all_digits (field_bytes g) then Some (signed_val s (field_bytes g)) else None
          | None \<Rightarrow> None)
     | COB_TYPE_NUMERIC_PACKED \<Rightarrow> if wf_packed f then Some (pk_val f) else None
     | COB_TYPE_NUMERIC_BINARY \<Rightarrow> if wf_binary f then Some (bin_val T f) else None
     | _ \<Rightarrow> None)"

text \<open>The digit positions of an item, and what it keeps of a number moved to it \<open>k\<close> places up.\<close>

definition capacity :: "cob_field \<Rightarrow> nat" where
  "capacity f = (if field_type f = COB_TYPE_NUMERIC_DISPLAY then data_size f else field_digits f)"

definition move_result :: "cob_field \<Rightarrow> int \<Rightarrow> int \<Rightarrow> int" where
  "move_result f v k =
    (let a = rescale \<bar>v\<bar> k mod 10 ^ capacity f in if v < 0 \<and> have_sign f then - a else a)"

definition in_range :: "cob_field \<Rightarrow> int \<Rightarrow> bool" where
  "in_range f v \<longleftrightarrow> \<bar>v\<bar> < 10 ^ capacity f \<and> (v < 0 \<longrightarrow> have_sign f)"

text \<open>An item a MOVE may store into: enough storage for its usage.\<close>

definition num_target :: "cob_module \<Rightarrow> cob_field \<Rightarrow> bool" where
  "num_target M f \<longleftrightarrow>
    (case field_type f of
       COB_TYPE_NUMERIC_DISPLAY \<Rightarrow> wf_field f
     | COB_TYPE_NUMERIC_PACKED \<Rightarrow> 0 < field_digits f \<and> fsize f = field_digits f div 2 + 1
     | COB_TYPE_NUMERIC_BINARY \<Rightarrow> wf_binary f \<and> flag_binary_truncate M \<and> \<not> real_binary f \<and> field_digits f < 19 \<and>
         (10::int) ^ field_digits f \<le> 2 ^ (8 * fsize f - (if have_sign f then 1 else 0))
     | _ \<Rightarrow> False)"

lemma rescale_0 [simp]: "rescale 0 k = 0"
  by (simp add: rescale_def)

lemma move_result_split:
  "0 \<le> d \<Longrightarrow> move_result f (if s < 0 then - d else d) k =
    (if have_sign f \<and> s < (0 :: int) then - (rescale d k mod 10 ^ capacity f) else rescale d k mod 10 ^ capacity f)"
proof -
  assume d: "0 \<le> d"
  then have a: "\<bar>if s < 0 then - d else d\<bar> = d" by simp
  show ?thesis
  proof (cases "d = 0")
    case True
    then show ?thesis unfolding move_result_def a Let_def by (simp only: rescale_0 mod_0 minus_zero if_cancel)
  next
    case False
    then have "(if s < 0 then - d else d) < 0 \<longleftrightarrow> s < 0" using d by simp
    then show ?thesis unfolding move_result_def a Let_def by (simp only: conj_commute)
  qed
qed

lemma num_valE:
  assumes "num_val T M f = Some v" "field_type f = COB_TYPE_NUMERIC_DISPLAY"
  obtains s g where "wf_field f" "cob_get_sign M f = Some (s, g)" "all_digits (field_bytes g)"
    "v = signed_val s (field_bytes g)" "length (field_bytes g) = data_size f"
proof -
  from assms obtain s g where *: "wf_field f" "cob_get_sign M f = Some (s, g)" "all_digits (field_bytes g)"
    "v = signed_val s (field_bytes g)"
    by (auto simp: num_val_def split: option.splits if_splits)
  moreover from * have "length (field_bytes g) = data_size f"
    using sign_of_length [of M f s "field_bytes g"] by (auto simp: sign_of_def)
  ultimately show thesis using that by blast
qed

lemma sign_of_num_val:
  "sign_of M f s ds \<Longrightarrow> wf_field f \<Longrightarrow> field_type f = COB_TYPE_NUMERIC_DISPLAY \<Longrightarrow> all_digits ds \<Longrightarrow>
   num_val T M f = Some (signed_val s ds)"
  by (auto simp: num_val_def sign_of_def)

lemma store_region_num:
  assumes wf: "wf_field f" and t: "field_type f = COB_TYPE_NUMERIC_DISPLAY" and d: "all_digits data"
  shows "\<exists>g. cob_put_sign M (store_common_region f data s) sg = Some g \<and> same_shape f g \<and>
    num_val T M g = Some (move_result f (if sg < 0 then - dec_val data else dec_val data) (field_scale f - s))"
proof -
  let ?k = "field_scale f - s" let ?ds = "pad_digits (data_size f) (rescale (dec_val data) ?k)"
  obtain g where g: "cob_put_sign M (put_bytes f ?ds) sg = Some g" "sign_of M g (sign_result f sg) ?ds"
    "fattr g = fattr f" "fsize g = fsize f"
    using store_digits [OF wf t, of ?ds M sg] by auto
  have "wf_field g" "field_type g = COB_TYPE_NUMERIC_DISPLAY"
    using wf t g by (simp_all add: wf_field_def data_size_def field_type_def sign_separate_def)
  from sign_of_num_val [OF g(2) this]
  have "num_val T M g = Some (signed_val (sign_result f sg) ?ds)" by simp
  also have "signed_val (sign_result f sg) ?ds = move_result f (if sg < 0 then - dec_val data else dec_val data) ?k"
    using dec_val_nonneg [OF d] t
    by (cases "dec_val data = 0")
      (auto simp: signed_val_def sign_result_def move_result_def capacity_def dec_val_pad Let_def rescale_def)
  finally show ?thesis
    using g by (auto simp: store_common_region_digits [OF d] same_shape_def)
qed


lemma put_back_sign:
  assumes wf: "wf_field f" and t: "field_type f = COB_TYPE_NUMERIC_DISPLAY" and g: "cob_get_sign M f = Some (s, g)"
    and d: "all_digits (field_bytes g)"
  shows "\<exists>h. cob_put_sign M g s = Some h \<and> same_shape f h \<and> num_val T M h = Some (signed_val s (field_bytes g))"
proof -
  note gw = get_sign_wf [OF g wf]
  have "sign_of M f s (field_bytes g)" using g by (auto simp: sign_of_def)
  from sign_of_length [OF this wf] put_sign_again [OF g wf t d, of s] put_field_bytes [OF gw(1)]
  obtain h where h: "cob_put_sign M g s = Some h" "sign_of M h (sign_result f s) (field_bytes g)"
    "fattr h = fattr f" "fsize h = fsize f" by auto
  have "wf_field h" "field_type h = COB_TYPE_NUMERIC_DISPLAY"
    using wf t h by (simp_all add: wf_field_def data_size_def field_type_def sign_separate_def)
  from sign_of_num_val [OF h(2) this d, of T]
  have "num_val T M h = Some (signed_val (sign_result f s) (field_bytes g))" .
  moreover have "s = 0 \<or> have_sign f" using g by (auto simp: cob_get_sign_def split: if_splits)
  then have "signed_val (sign_result f s) (field_bytes g) = signed_val s (field_bytes g)"
    by (auto simp: signed_val_def sign_result_def)
  ultimately show ?thesis using h by (auto simp: same_shape_def)
qed

lemma move_result_signed:
  "all_digits ds \<Longrightarrow> move_result f (if s < 0 then - dec_val ds else dec_val ds) k = move_result f (signed_val s ds) k"
  by (simp add: signed_val_def)

lemma display_to_display_num:
  assumes v: "num_val T M f1 = Some v" "field_type f1 = COB_TYPE_NUMERIC_DISPLAY"
    and f2: "wf_field f2" "field_type f2 = COB_TYPE_NUMERIC_DISPLAY"
  shows "\<exists>g1 g2. cob_move_display_to_display M f1 f2 = Some (g1, g2) \<and> same_shape f1 g1 \<and> same_shape f2 g2 \<and>
    num_val T M g1 = Some v \<and> num_val T M g2 = Some (move_result f2 v (field_scale f2 - field_scale f1))"
proof -
  obtain s g where g: "wf_field f1" "cob_get_sign M f1 = Some (s, g)" "all_digits (field_bytes g)"
    "v = signed_val s (field_bytes g)" using num_valE [OF v] .
  obtain h1 where h1: "cob_put_sign M g s = Some h1" "same_shape f1 h1" "num_val T M h1 = Some v"
    using put_back_sign [OF g(1) v(2) g(2,3), of T] g(4) by auto
  obtain h2 where h2: "cob_put_sign M (store_common_region f2 (field_bytes g) (field_scale f1)) s = Some h2"
    "same_shape f2 h2" "num_val T M h2 = Some (move_result f2 v (field_scale f2 - field_scale f1))"
    using store_region_num [OF f2 g(3), of M "field_scale f1" s T] move_result_signed [OF g(3)] g(4) by auto
  have "field_scale g = field_scale f1" using get_sign_wf(4) [OF g(2,1)] .
  then show ?thesis using g(2) h1 h2 by (simp add: cob_move_display_to_display_def)
qed

lemma mget_bin_val:
  assumes "wf_binary f"
  shows "\<exists>n. cob_binary_mget_int64 T f = Some n \<and>
    (if have_sign f \<and> n < 0 then u64 (- n) else u64 n) = \<bar>bin_val T f\<bar> \<and> (have_sign f \<and> n < 0 \<longleftrightarrow> bin_val T f < 0)"
proof (cases "have_sign f")
  case True
  then have "cob_binary_mget_int64 T f = Some (bin_val T f)"
    using get_int64_raw [OF assms, of T] by (simp add: cob_binary_mget_int64_def bin_val_def)
  moreover have "\<bar>bin_val T f\<bar> < 2 ^ 64"
  proof -
    have "(2::int) ^ (8 * fsize f - 1) \<le> 2 ^ 63" using assms unfolding wf_binary_def by (intro power_increasing) linarith+
    moreover have "(2::int) ^ 63 < 2 ^ 64" by simp
    ultimately show ?thesis using bin_val_bounds(1,3) [OF assms True, of T] by linarith
  qed
  ultimately show ?thesis using True by (auto simp: u64_id)
next
  case False
  have b: "0 \<le> bin_raw T f" "bin_raw T f < 2 ^ 64"
  proof -
    have "(2::int) ^ (8 * fsize f) \<le> 2 ^ 64" using assms unfolding wf_binary_def by (intro power_increasing) simp_all
    then show "0 \<le> bin_raw T f" "bin_raw T f < 2 ^ 64" using bin_raw_bounds [where T = T and f = f] by linarith+
  qed
  then have "u64 (i64 (bin_raw T f)) = bin_raw T f" by (simp add: u64_id take_bit_signed_take_bit)
  with False b show ?thesis using get_int64_raw [OF assms, of T] by (simp add: cob_binary_mget_int64_def bin_val_def)
qed

lemma binary_to_display_num:
  assumes v: "num_val T M f1 = Some v" "field_type f1 = COB_TYPE_NUMERIC_BINARY"
    and f2: "wf_field f2" "field_type f2 = COB_TYPE_NUMERIC_DISPLAY"
  shows "\<exists>g2. cob_move_binary_to_display T M f1 f2 = Some (f1, g2) \<and> same_shape f2 g2 \<and>
    num_val T M g2 = Some (move_result f2 v (field_scale f2 - field_scale f1))"
proof -
  have wf: "wf_binary f1" and vb: "v = bin_val T f1" using v by (auto simp: num_val_def split: if_splits)
  obtain n where n: "cob_binary_mget_int64 T f1 = Some n"
    and a: "(if have_sign f1 \<and> n < 0 then u64 (- n) else u64 n) = \<bar>v\<bar>"
    and sg: "have_sign f1 \<and> n < 0 \<longleftrightarrow> v < 0"
    using mget_bin_val [OF wf, of T] unfolding vb by blast
  let ?ds = "u64_digits \<bar>v\<bar>"
  have ds: "all_digits ?ds" "dec_val ?ds = \<bar>v\<bar>" by (simp_all add: u64_digits_def dec_val_get_str)
  let ?sg = "if have_sign f1 \<and> n < 0 then - 1 else (1::int)"
  have e: "(if ?sg < 0 then - dec_val ?ds else dec_val ?ds) = v" using ds(2) sg by simp
  obtain g2 where "cob_put_sign M (store_common_region f2 ?ds (field_scale f1)) ?sg = Some g2" "same_shape f2 g2"
    "num_val T M g2 = Some (move_result f2 v (field_scale f2 - field_scale f1))"
    using store_region_num [OF f2 ds(1), of M "field_scale f1" ?sg T] unfolding e by blast
  then show ?thesis unfolding cob_move_binary_to_display_def n bind.bind_lunit Let_def a by simp
qed


lemma those_Some: "(\<And>x. x \<in> set xs \<Longrightarrow> f x = Some (g x)) \<Longrightarrow> those (map f xs) = Some (map g xs)"
  by (induction xs) simp_all

lemma unpack_nibs:
  assumes "e + n \<le> 2 * length p"
  shows "those (map (\<lambda>i. map_option (\<lambda>b. h (if even i then uint (drop_bit 4 b) else uint (b AND 0x0f)))
      (rd p (i div 2))) [e ..< n + e]) = Some (map h (seg e n p))"
proof -
  have "map_option (\<lambda>b. h (if even i then uint (drop_bit 4 b) else uint (b AND 0x0f))) (rd p (i div 2)) =
      Some (h (nibs p ! i))" if "i \<in> set [e ..< n + e]" for i
  proof -
    have i: "i div 2 < length p" using that assms by auto
    have "nibs p ! i = (if even i then uint (p ! (i div 2)) div 16 else uint (p ! (i div 2)) mod 16)"
      using nibs_nth [OF i] by (cases "even i") (auto elim!: evenE oddE)
    then show ?thesis using i by (simp add: rd_def high_nib low_nib)
  qed
  then have "those (map (\<lambda>i. map_option (\<lambda>b. h (if even i then uint (drop_bit 4 b) else uint (b AND 0x0f)))
      (rd p (i div 2))) [e ..< n + e]) = Some (map (\<lambda>i. h (nibs p ! i)) [e ..< n + e])" by (rule those_Some)
  also have "map (\<lambda>i. h (nibs p ! i)) [e ..< n + e] = map h (seg e n p)"
    using assms by (intro nth_equalityI) (simp_all add: seg_def)
  finally show ?thesis .
qed

lemma digit_chars_of_digs: "digs ds \<Longrightarrow> all_digits (map cob_i2d ds) \<and> dec_val (map cob_i2d ds) = dval ds"
proof (induction ds rule: rev_induct)
  case (snoc d ds)
  then show ?case by (simp add: isdigit_i2d d2i_i2d dec_val_snoc)
qed simp

lemma packed_get_sign_pk:
  "field_type f = COB_TYPE_NUMERIC_PACKED \<Longrightarrow> 0 < fsize f \<Longrightarrow>
   cob_get_sign M f = Some (if have_sign f then (if pk_neg f then -1 else 1) else 0, f)"
  using last_nib [of "fdata f"]
  by (simp add: cob_get_sign_def cob_real_get_sign_def rd_def fsize_def pk_neg_def sign_nib_def byte_low_eq)

lemma packed_to_display_num:
  assumes v: "num_val T M f1 = Some v" "field_type f1 = COB_TYPE_NUMERIC_PACKED" "field_digits f1 \<le> 64"
    and f2: "wf_field f2" "field_type f2 = COB_TYPE_NUMERIC_DISPLAY"
  shows "\<exists>g2. cob_move_packed_to_display M f1 f2 = Some (f1, g2) \<and> same_shape f2 g2 \<and>
    num_val T M g2 = Some (move_result f2 v (field_scale f2 - field_scale f1))"
proof -
  have wf: "wf_packed f1" and vp: "v = pk_val f1" using v by (auto simp: num_val_def split: if_splits)
  have sz: "fsize f1 = field_digits f1 div 2 + 1" and dg: "digs (pk_digits f1)" using wf by (simp_all add: wf_packed_def)
  let ?sg = "if have_sign f1 then (if pk_neg f1 then -1 else 1) else (0::int)"
  let ?ds = "map cob_i2d (pk_digits f1)"
  have gs: "cob_get_sign M f1 = Some (?sg, f1)" by (rule packed_get_sign_pk [OF v(2)]) (simp add: sz)
  have un: "those (map (\<lambda>i. map_option (\<lambda>b. cob_i2d (if even i then uint (drop_bit 4 b) else uint (b AND 0x0f)))
      (rd (fdata f1) (i div 2))) [1 - field_digits f1 mod 2 ..< field_digits f1 + (1 - field_digits f1 mod 2)]) = Some ?ds"
    using unpack_nibs [of "empty_digit f1" "field_digits f1" "fdata f1" cob_i2d] packed_layout(2) [OF sz]
    by (simp add: pk_digits_def empty_digit_def)
  have ds: "all_digits ?ds" "dec_val ?ds = dval (pk_digits f1)" using digit_chars_of_digs [OF dg] by simp_all
  have e: "(if ?sg < 0 then - dec_val ?ds else dec_val ?ds) = v" unfolding ds vp by (simp add: pk_val_def pk_neg_def)
  obtain g2 where "cob_put_sign M (store_common_region f2 ?ds (field_scale f1)) ?sg = Some g2" "same_shape f2 g2"
    "num_val T M g2 = Some (move_result f2 v (field_scale f2 - field_scale f1))"
    using store_region_num [OF f2 ds(1), of M "field_scale f1" ?sg T] unfolding e by blast
  then show ?thesis
    unfolding cob_move_packed_to_display_def gs Let_def bind.bind_lunit prod.case un
      if_not_P [OF not_less [THEN iffD2, OF v(3)]] by simp
qed

text \<open>To PACKED-DECIMAL: right when the source has as many bytes as digits, that is, no P positions.\<close>

lemma display_to_packed_num:
  assumes v: "num_val T M f1 = Some v" "field_type f1 = COB_TYPE_NUMERIC_DISPLAY" "field_digits f1 = data_size f1"
    and f2: "field_type f2 = COB_TYPE_NUMERIC_PACKED" "0 < field_digits f2" "fsize f2 = field_digits f2 div 2 + 1"
  shows "\<exists>g1 g2. cob_move_display_to_packed M f1 f2 = Some (g1, g2) \<and> same_shape f1 g1 \<and> same_shape f2 g2 \<and>
    num_val T M g1 = Some v \<and> num_val T M g2 = Some (move_result f2 v (field_scale f2 - field_scale f1))"
proof -
  obtain s g where g: "wf_field f1" "cob_get_sign M f1 = Some (s, g)" "all_digits (field_bytes g)"
    "v = signed_val s (field_bytes g)" "length (field_bytes g) = data_size f1" using num_valE [OF v(1,2)] .
  obtain h1 where h1: "cob_put_sign M g s = Some h1" "same_shape f1 h1" "num_val T M h1 = Some v"
    using put_back_sign [OF g(1) v(2) g(2,3), of T] g(4) by auto
  note gw = get_sign_wf [OF g(2,1)]
  let ?ds = "field_bytes g" and ?D = "field_digits f2" and ?d1 = "drop (data_off g) (fdata g)"
  have gd: "field_digits g = data_size f1" using v(3) cob_get_sign_frame(1) [OF g(2)] by (simp add: field_digits_def)
  let ?p = "(int (data_size f1) - field_scale f1) - (int ?D - field_scale f2)"
  let ?a = "rescale (dec_val ?ds) (field_scale f2 - field_scale f1)"
  have tk: "take (data_size f1) ?d1 = ?ds" using gw(2) by (simp add: field_bytes_def)
  have len: "data_size f1 \<le> length ?d1" using g(5) tk by (metis length_take min.absorb_iff2 min.commute)
  have win: "window ?d1 (data_size f1) ?p ?D = pad_digits ?D ?a"
  proof -
    have "window ?d1 (data_size f1) ?p ?D = window ?ds (data_size f1) ?p ?D"
      unfolding tk [symmetric] by (simp add: window_def nat_less_iff)
    then show ?thesis using window_digits [OF g(3), of ?p ?D] g(5) by (simp add: algebra_simps)
  qed
  have eD: "empty_digit f2 + ?D = 2 * (?D div 2) + 1" using packed_layout(1) [OF f2(3)] f2(3) by simp
  let ?e = "empty_digit f2" let ?cs = "pad_digits ?D ?a"
  have e2: "?e div 2 = 0" "?e mod 2 = ?e" by (simp_all add: empty_digit_def)
  define Z where "Z = replicate (fsize f2) (0 :: u8)"
  have Z: "length Z = fsize f2" "nibs Z = replicate (2 * fsize f2) 0" by (simp_all only: Z_def nibs_replicate0 length_replicate)
  have pc: "pack_chars (data_size f1) ?D ?p ?e ?d1 Z = put_packed ?e ?cs 0 Z"
    using pack_chars_put [of ?e ?D Z "data_size f1" ?d1 ?p] eD f2(3) len tk g(3) Z(1) unfolding win e2 by simp
  have "\<exists>q. put_packed ?e ?cs 0 Z = Some q \<and> length q = length Z \<and>
      nibs q = take (2 * 0 + ?e mod 2) (nibs Z) @ map cob_d2i ?cs @ replicate (2 * length Z - (2 * 0 + ?e mod 2) - length ?cs) 0"
  proof (rule put_packed_nibs)
    show "2 * 0 + ?e mod 2 + length ?cs \<le> 2 * length Z" using eD f2(3) Z(1) e2 by simp
    show "\<forall>m. 2 * 0 + ?e mod 2 \<le> m \<and> m < 2 * length Z \<longrightarrow> nibs Z ! m = 0"
      unfolding Z by (simp del: replicate.simps)
  qed simp
  then obtain buf where buf: "pack_chars (data_size f1) ?D ?p ?e ?d1 Z = Some buf" "length buf = fsize f2"
    "nibs buf = take ?e (nibs Z) @ map cob_d2i ?cs @ replicate (2 * fsize f2 - ?e - ?D) 0"
    unfolding pc e2 Z(1) by auto
  have "?e \<le> 2 * fsize f2" using eD f2(3) by linarith
  then have "length (take ?e (nibs Z)) = ?e" by (simp add: Z)
  then have "seg ?e ?D buf = map cob_d2i ?cs" unfolding seg_def buf(3) by simp
  then have pd: "digs (seg (empty_digit f2) ?D buf)" "dval (seg (empty_digit f2) ?D buf) = ?a mod 10 ^ ?D"
    by (simp_all add: dval_digit_chars dec_val_pad)
  let ?g = "set_data f2 buf"
  obtain g2 where g2: "set_sign_nib ?g (packed_sign_code f2 (s < 0)) = Some g2" "g2 = set_data f2 (fdata g2)"
    "fsize g2 = fsize f2" "pk_digits g2 = pk_digits ?g"
    "pk_neg g2 = (have_sign f2 \<and> uint (packed_sign_code f2 (s < 0)) = 13)"
    using put_sign_nib_pk [of ?g "packed_sign_code f2 (s < 0)"] f2(3) buf(2) packed_sign_code_low(1) by auto
  have gd2: "field_digits g2 = ?D" "field_type g2 = COB_TYPE_NUMERIC_PACKED" by (subst g2(2), simp add: f2)+
  have pg: "pk_digits g2 = seg (empty_digit f2) ?D buf" unfolding g2(4) by (simp add: pk_digits_def)
  have "wf_packed g2" using f2 g2(3) gd2 pd by (simp add: wf_packed_def pg)
  moreover have "pk_neg g2 = (have_sign f2 \<and> s < 0)" using g2(5) packed_sign_code_low(2) by auto
  moreover have "capacity f2 = ?D" using f2(1) by (simp add: capacity_def)
  then have "move_result f2 v (field_scale f2 - field_scale f1) = (if have_sign f2 \<and> s < 0 then - (?a mod 10 ^ ?D) else ?a mod 10 ^ ?D)"
    using move_result_split [OF dec_val_nonneg [OF g(3)], of f2 s] unfolding g(4) signed_val_def by simp
  ultimately have nv: "num_val T M g2 = Some (move_result f2 v (field_scale f2 - field_scale f1))"
    using gd2(2) by (simp add: num_val_def pk_val_def pg pd)
  have "same_shape f2 g2" using g2(3) by (subst g2(2)) (simp add: same_shape_def fsize_def)
  moreover have "cob_move_display_to_packed M f1 f2 = Some (h1, g2)"
  proof -
    let ?i = "fsize f2 - 1"
    obtain c q where q: "rd buf ?i = Some c" "wr buf ?i ((c AND 0xf0) OR packed_sign_code f2 (s < 0)) = Some q" "g2 = set_data f2 q"
      using g2(1) buf(2) by (auto simp: set_sign_nib_def bind_eq_Some_conv)
    have i: "rdi buf (int (fsize f2) - 1) = rd buf ?i" "wri buf (int (fsize f2) - 1) = wr buf ?i"
      using f2(3) by (simp_all add: rdi_def wri_def fun_eq_iff nat_diff_distrib)
    show ?thesis
      unfolding cob_move_display_to_packed_def g(2) bind.bind_lunit prod.case Let_def gd gw(4)
        empty_digit_def [symmetric] Z_def [symmetric] buf(1) h1(1) packed_sign_code_def [symmetric] i q ..
  qed
  ultimately show ?thesis using h1 nv by blast
qed


lemma i64_pos: "0 \<le> x \<Longrightarrow> x < 2 ^ 63 \<Longrightarrow> i64 x = x"
  by (rule i64_id) simp_all

lemma bin_loop_val:
  assumes "all_digits s" "0 \<le> v" "dec_acc v (take k s) * 10 ^ (k - length s) < 2 ^ 63"
  shows "bin_loop k v s = dec_acc v (take k s) * 10 ^ (k - length s)"
  using assms
proof (induction k v s rule: bin_loop.induct)
  case (2 k v b s)
  let ?w = "v * 10 + cob_d2i b"
  have d: "0 \<le> ?w" "all_digits s" using 2 by (simp_all add: isdigit_d2i)
  have "?w * 1 \<le> dec_acc ?w (take k s) * 10 ^ (k - length s)"
    using dec_acc_mono [OF d(1) all_digits_take [OF d(2)], of k] d(1)
    by (intro mult_mono) (simp_all add: one_le_power order.trans [OF d(1)])
  then have "i64 ?w = ?w" using 2(4) d(1) by (intro i64_pos) simp_all
  then show ?case using 2 d by simp
next
  case (3 k v)
  have "v * 10 * 1 \<le> v * 10 * 10 ^ k" using 3 by (intro mult_left_mono) (simp_all add: one_le_power)
  then have "i64 (v * 10) = v * 10" using 3 by (intro i64_pos) (simp_all add: mult.assoc)
  then show ?case using 3 by (simp add: mult.assoc)
qed simp

lemma bin_loop_rescale:
  fixes k :: int
  assumes d: "all_digits ds" and k: "0 \<le> int (length ds) + k" and r: "rescale (dec_val ds) k < 2 ^ 63"
  shows "bin_loop (nat (int (length ds) + k)) 0 ds = rescale (dec_val ds) k"
proof -
  let ?n = "nat (int (length ds) + k)"
  have "dec_acc 0 (take ?n ds) * 10 ^ (?n - length ds) = rescale (dec_val ds) k"
  proof (cases "0 \<le> k")
    case True
    then have "length ds \<le> ?n" "?n - length ds = nat k" by simp_all
    then show ?thesis using True by (simp add: rescale_def dec_val_def)
  next
    case False
    then have n: "?n - length ds = 0" "length ds - 0 - ?n = nat (- k)" "0 + ?n \<le> length ds" using k by linarith+
    have "dec_val (take ?n ds) = dec_val ds div 10 ^ nat (- k) mod 10 ^ ?n"
      using dec_val_segment [OF d n(3)] unfolding n(2) drop_0 .
    moreover have "dec_val ds div 10 ^ nat (- k) < 10 ^ ?n"
    proof (rule zdiv_less)
      have "?n + nat (- k) = length ds" using k False by linarith
      then show "dec_val ds < 10 ^ ?n * 10 ^ nat (- k)" using dec_val_less [OF d] by (simp flip: power_add)
    qed simp
    moreover have "0 \<le> dec_val ds div 10 ^ nat (- k)" using dec_val_nonneg [OF d] by (simp add: pos_imp_zdiv_nonneg_iff)
    ultimately have "dec_val (take ?n ds) = dec_val ds div 10 ^ nat (- k)" by (simp only: mod_pos_pos_trivial)
    then show ?thesis using False unfolding n(1) by (simp add: rescale_def dec_val_def)
  qed
  then show ?thesis using bin_loop_val [OF d, of 0 ?n] r by simp
qed

lemma bin_val_stored:
  assumes wf: "wf_binary f" and r: "if have_sign f then - (2 ^ (8 * fsize f - 1)) \<le> n \<and> n < 2 ^ (8 * fsize f - 1)
      else 0 \<le> n \<and> n < 2 ^ (8 * fsize f)"
  shows "\<exists>g. cob_binary_mset_int64 T f n = Some g \<and> same_shape f g \<and> wf_binary g \<and> bin_val T g = n"
proof -
  let ?g = "set_data f (end_bytes (bin_be T f) (fsize f) n)"
  note fr = set_bin_frame [OF wf, of ?g T n, OF refl]
  have "bin_val T ?g = n"
  proof (cases "have_sign f")
    case True
    have "0 < fsize f" using wf by (simp add: wf_binary_def)
    from signed_fits [OF this] r True show ?thesis unfolding bin_val_def fr(2,3,4) by simp
  next
    case False
    then show ?thesis using r unfolding bin_val_def fr(2,3,4) by simp
  qed
  moreover have "same_shape f ?g" using fr(2) by (simp add: same_shape_def)
  ultimately show ?thesis using set_int64_raw(2) [OF wf, of T n] fr(1) by (simp add: cob_binary_mset_int64_def)
qed

lemma smod_sign: "0 \<le> a \<Longrightarrow> 0 < b \<Longrightarrow> (if c then - a else a) smod b = (if c then - (a mod b) else a mod (b :: int))"
  by (cases "a = 0") (simp_all add: signed_modulo_int_def)

lemma display_to_binary_num:
  assumes v: "num_val T M f1 = Some v" "field_type f1 = COB_TYPE_NUMERIC_DISPLAY"
    and f2: "field_type f2 = COB_TYPE_NUMERIC_BINARY" "num_target M f2"
    and sc: "0 \<le> int (data_size f1) - field_scale f1 + field_scale f2" "int (data_size f1) - field_scale f1 + field_scale f2 < 2 ^ 64"
      "rescale \<bar>v\<bar> (field_scale f2 - field_scale f1) < 2 ^ 63"
  shows "\<exists>g1 g2. cob_move_display_to_binary T M f1 f2 = Some (g1, g2) \<and> same_shape f1 g1 \<and> same_shape f2 g2 \<and>
    num_val T M g1 = Some v \<and> num_val T M g2 = Some (move_result f2 v (field_scale f2 - field_scale f1))"
proof -
  obtain s g where g: "wf_field f1" "cob_get_sign M f1 = Some (s, g)" "all_digits (field_bytes g)"
    "v = signed_val s (field_bytes g)" "length (field_bytes g) = data_size f1" using num_valE [OF v(1,2)] .
  obtain h1 where h1: "cob_put_sign M g s = Some h1" "same_shape f1 h1" "num_val T M h1 = Some v"
    using put_back_sign [OF g(1) v(2) g(2,3), of T] g(4) by auto
  note gw = get_sign_wf [OF g(2,1)]
  have wf: "wf_binary f2" and tr: "flag_binary_truncate M \<and> \<not> real_binary f2" and D: "field_digits f2 < 19"
    and room: "(10::int) ^ field_digits f2 \<le> 2 ^ (8 * fsize f2 - (if have_sign f2 then 1 else 0))"
    using f2 by (simp_all add: num_target_def)
  let ?ds = "field_bytes g" let ?k = "field_scale f2 - field_scale f1" let ?a = "rescale (dec_val ?ds) ?k"
  have av: "\<bar>v\<bar> = dec_val ?ds" using dec_val_nonneg [OF g(3)] unfolding g(4) signed_val_def by simp
  have a0: "0 \<le> ?a" using dec_val_nonneg [OF g(3)] by (simp add: rescale_def pos_imp_zdiv_nonneg_iff)
  have a1: "?a < 2 ^ 63" using sc(3) unfolding av .
  have sz: "u64 (int (data_size f1) - field_scale f1 + field_scale f2) = int (length ?ds) + ?k"
    using sc(1,2) g(5) by (simp add: u64_id)
  have loop: "bin_loop (nat (int (length ?ds) + ?k)) 0 ?ds = ?a"
    by (rule bin_loop_rescale [OF g(3) _ a1]) (use sc(1) g(5) in simp)
  let ?c = "s < 0 \<and> have_sign f2"
  let ?n = "if ?c then - (?a mod 10 ^ field_digits f2) else ?a mod 10 ^ field_digits f2"
  have neg: "(if ?c then i64 (- ?a) else ?a) = (if ?c then - ?a else ?a)" using a0 a1 by (auto intro!: i64_id)
  have b: "0 \<le> ?a mod 10 ^ field_digits f2" "?a mod 10 ^ field_digits f2 < 10 ^ field_digits f2" by simp_all
  have "if have_sign f2 then - (2 ^ (8 * fsize f2 - 1)) \<le> ?n \<and> ?n < 2 ^ (8 * fsize f2 - 1) else 0 \<le> ?n \<and> ?n < 2 ^ (8 * fsize f2)"
    using b room by (cases "have_sign f2"; cases "s < 0") (simp_all only: if_True if_False simp_thms minus_zero diff_zero, linarith+)
  from bin_val_stored [OF wf this] obtain g2 where
    g2: "cob_binary_mset_int64 T f2 ?n = Some g2" "same_shape f2 g2" "wf_binary g2" "bin_val T g2 = ?n" by blast
  have "capacity f2 = field_digits f2" using f2(1) by (simp add: capacity_def)
  then have "move_result f2 v ?k = ?n"
    using move_result_split [OF dec_val_nonneg [OF g(3)], of f2 s ?k] unfolding g(4) signed_val_def by (simp only: conj_commute)
  moreover have "field_type g2 = COB_TYPE_NUMERIC_BINARY" using g2(2) f2(1) by (simp add: same_shape_def field_type_def)
  ultimately have nv: "num_val T M g2 = Some (move_result f2 v ?k)" using g2(3,4) by (simp add: num_val_def)
  have e10: "cob_exp10LL (field_digits f2) = Some (10 ^ field_digits f2)" using D by (simp add: cob_exp10LL_def)
  have "cob_move_display_to_binary T M f1 f2 = Some (h1, g2)"
    unfolding cob_move_display_to_binary_def g(2) bind.bind_lunit prod.case Let_def gw(2,4) sz loop neg if_P [OF tr]
      e10 option.map smod_sign [OF a0 zero_less_power [OF zero_less_numeral]] g2(1) h1(1) ..
  then show ?thesis using h1 g2(2) nv by blast
qed


section \<open>MOVE between numeric items\<close>

definition source_len :: "cob_field \<Rightarrow> nat" where
  "source_len f = (if field_type f = COB_TYPE_NUMERIC_DISPLAY then data_size f
     else if field_type f = COB_TYPE_NUMERIC_PACKED then field_digits f else 20)"

text \<open>
  The source has no P positions (its digits are its storage), a packed source fits the
  temporary, and for a binary target the number fits a \<open>long long\<close>.
\<close>

definition move_fits :: "cob_field \<Rightarrow> cob_field \<Rightarrow> int \<Rightarrow> bool" where
  "move_fits f1 f2 v \<longleftrightarrow>
    (field_type f1 = COB_TYPE_NUMERIC_DISPLAY \<longrightarrow> field_digits f1 = data_size f1) \<and>
    (field_type f1 = COB_TYPE_NUMERIC_PACKED \<longrightarrow> field_digits f1 \<le> 64) \<and>
    (field_type f2 = COB_TYPE_NUMERIC_BINARY \<longrightarrow>
      0 \<le> int (source_len f1) - field_scale f1 + field_scale f2 \<and>
      int (source_len f1) - field_scale f1 + field_scale f2 < 2 ^ 64 \<and>
      rescale \<bar>v\<bar> (field_scale f2 - field_scale f1) < 2 ^ 63)"

definition num_type :: "cob_type \<Rightarrow> bool" where
  "num_type t \<longleftrightarrow> t = COB_TYPE_NUMERIC_DISPLAY \<or> t = COB_TYPE_NUMERIC_PACKED \<or> t = COB_TYPE_NUMERIC_BINARY"

definition moved :: "target \<Rightarrow> cob_module \<Rightarrow> cob_field \<Rightarrow> cob_field \<Rightarrow> int \<Rightarrow> (cob_field \<times> cob_field) option \<Rightarrow> bool" where
  "moved T M f1 f2 v r \<longleftrightarrow> (\<exists>g1 g2. r = Some (g1, g2) \<and> same_shape f1 g1 \<and> same_shape f2 g2 \<and>
     num_val T M g1 = Some v \<and> num_val T M g2 = Some (move_result f2 v (field_scale f2 - field_scale f1)))"

lemma num_target_size: "num_target M f \<Longrightarrow> fsize f \<noteq> 0 \<and> num_type (field_type f)"
  by (auto simp: num_target_def num_type_def wf_field_def wf_binary_def data_size_def split: cob_type.splits)

lemma num_val_size: "num_val T M f = Some v \<Longrightarrow> fsize f \<noteq> 0 \<and> num_type (field_type f)"
  by (auto simp: num_val_def num_type_def wf_field_def wf_packed_def wf_binary_def data_size_def
      split: cob_type.splits option.splits if_splits)

lemma same_shape_refl [simp]: "same_shape f f"
  by (simp add: same_shape_def)

lemma move_display_num:
  assumes v: "num_val T M f1 = Some v" "field_type f1 = COB_TYPE_NUMERIC_DISPLAY"
    and f2: "num_target M f2" and ok: "move_fits f1 f2 v"
  shows "moved T M f1 f2 v (cob_move T E M f1 f2)"
proof -
  note n = num_val_size [OF v(1)] num_target_size [OF f2]
  then consider "field_type f2 = COB_TYPE_NUMERIC_DISPLAY" | "field_type f2 = COB_TYPE_NUMERIC_PACKED"
    | "field_type f2 = COB_TYPE_NUMERIC_BINARY" by (auto simp: num_type_def)
  then show ?thesis
  proof cases
    case 1
    then have "cob_move T E M f1 f2 = cob_move_display_to_display M f1 f2"
      using n v(2) by (subst cob_move.simps) (simp add: is_fp_def)
    then show ?thesis using display_to_display_num [OF v] f2 1 by (simp add: moved_def num_target_def)
  next
    case 2
    then have "cob_move T E M f1 f2 = cob_move_display_to_packed M f1 f2"
      using n v(2) by (subst cob_move.simps) (simp add: is_fp_def)
    then show ?thesis using display_to_packed_num [OF v] f2 2 ok v(2) by (simp add: moved_def num_target_def move_fits_def)
  next
    case 3
    then have m: "cob_move T E M f1 f2 = cob_move_display_to_binary T M f1 f2"
      using n v(2) by (subst cob_move.simps) (simp add: is_fp_def)
    have "0 \<le> int (data_size f1) - field_scale f1 + field_scale f2"
      "int (data_size f1) - field_scale f1 + field_scale f2 < 2 ^ 64"
      "rescale \<bar>v\<bar> (field_scale f2 - field_scale f1) < 2 ^ 63"
      using ok 3 v(2) unfolding move_fits_def source_len_def by auto
    from display_to_binary_num [OF v 3 f2 this] show ?thesis unfolding m moved_def .
  qed
qed

lemma display_temp_shape:
  "same_shape (cob_fld COB_TYPE_NUMERIC_DISPLAY sz s COB_FLAG_HAVE_SIGN [] (replicate sz 0)) t \<Longrightarrow>
   display_temp sz s (fdata t) = t"
  by (simp add: same_shape_def display_temp_def cob_fld_def fsize_def)

lemma temp_capacity:
  assumes "\<bar>v\<bar> < 10 ^ sz"
  shows "move_result (cob_fld COB_TYPE_NUMERIC_DISPLAY sz s COB_FLAG_HAVE_SIGN [] (replicate sz 0)) v 0 = v"
proof -
  have "rescale \<bar>v\<bar> 0 mod 10 ^ sz = \<bar>v\<bar>" using assms by (simp add: rescale_def)
  moreover have "capacity (cob_fld COB_TYPE_NUMERIC_DISPLAY sz s COB_FLAG_HAVE_SIGN [] (replicate sz 0)) = sz"
    by (simp add: capacity_def data_size_def)
  ultimately show ?thesis by (simp add: move_result_def Let_def)
qed

lemma move_through_temp:
  assumes cv: "\<And>t. wf_field t \<Longrightarrow> field_type t = COB_TYPE_NUMERIC_DISPLAY \<Longrightarrow>
      \<exists>g. func f1 t = Some (f1, g) \<and> same_shape t g \<and> num_val T M g = Some (move_result t v (field_scale t - field_scale f1))"
    and sz: "0 < sz" "sz \<le> 64" "\<bar>v\<bar> < 10 ^ sz" and v: "num_val T M f1 = Some v"
    and f2: "num_target M f2" and ok: "move_fits f1 f2 v" "field_type f2 = COB_TYPE_NUMERIC_BINARY \<Longrightarrow> source_len f1 = sz"
  shows "moved T M f1 f2 v (do { (s', t) \<leftarrow> indirect_temp func f1 sz (field_scale f1);
     (_, d) \<leftarrow> cob_move T E M (display_temp sz (field_scale f1) t) f2; Some (s', d) })"
proof -
  let ?t = "cob_fld COB_TYPE_NUMERIC_DISPLAY sz (field_scale f1) COB_FLAG_HAVE_SIGN [] (replicate sz 0)"
  have "wf_field ?t" using sz(1) by (simp add: wf_field_def data_size_def)
  then obtain g where g: "func f1 ?t = Some (f1, g)" "same_shape ?t g" "num_val T M g = Some v"
    using cv [of ?t] temp_capacity [OF sz(3), of "field_scale f1"] by auto
  have gd: "display_temp sz (field_scale f1) (fdata g) = g" by (rule display_temp_shape [OF g(2)])
  have a: "field_type g = COB_TYPE_NUMERIC_DISPLAY" "field_scale g = field_scale f1" "field_digits g = sz" "data_size g = sz"
    using g(2) by (auto simp: same_shape_def field_sel data_size_def cob_fld_def)
  then have "source_len g = sz" by (simp add: source_len_def)
  then have "move_fits g f2 v" using ok a by (auto simp: move_fits_def)
  from move_display_num [OF g(3) a(1) f2 this, of E] obtain g1 g2 where
    "cob_move T E M g f2 = Some (g1, g2)" "same_shape f2 g2"
    "num_val T M g2 = Some (move_result f2 v (field_scale f2 - field_scale f1))"
    by (auto simp: moved_def a)
  moreover have "indirect_temp func f1 sz (field_scale f1) = Some (f1, fdata g)"
    using g(1) sz(2) by (simp add: indirect_temp_def)
  ultimately show ?thesis using v by (simp add: moved_def gd)
qed

lemma packed_val_bound: "wf_packed f \<Longrightarrow> \<bar>pk_val f\<bar> < 10 ^ field_digits f"
  using dval_bounds [of "pk_digits f"] length_pk_digits [of f] by (simp add: wf_packed_def pk_val_def)

lemma bin_val_20: "wf_binary f \<Longrightarrow> \<bar>bin_val T f\<bar> < 10 ^ 20"
proof -
  assume wf: "wf_binary f"
  have "(2::int) ^ (8 * fsize f) \<le> 2 ^ 64" "(2::int) ^ (8 * fsize f - 1) \<le> 2 ^ 64"
    using wf unfolding wf_binary_def by (intro power_increasing; linarith)+
  moreover have "(2::int) ^ 64 < 10 ^ 20" by simp
  ultimately show ?thesis using bin_val_bounds [OF wf, of T] by (cases "have_sign f") linarith+
qed

lemma move_num:
  assumes v: "num_val T M f1 = Some v" and f2: "num_target M f2" and ok: "move_fits f1 f2 v"
  shows "moved T M f1 f2 v (cob_move T E M f1 f2)"
proof -
  have n: "fsize f1 \<noteq> 0" "fsize f2 \<noteq> 0" "field_type f2 \<noteq> COB_TYPE_GROUP"
    "num_type (field_type f1)" "num_type (field_type f2)"
    using num_val_size [OF v] num_target_size [OF f2] by (auto simp: num_type_def)
  then consider "field_type f1 = COB_TYPE_NUMERIC_DISPLAY" | "field_type f1 = COB_TYPE_NUMERIC_PACKED"
    | "field_type f1 = COB_TYPE_NUMERIC_BINARY" by (auto simp: num_type_def)
  then show ?thesis
  proof cases
    case 1
    then show ?thesis by (rule move_display_num [OF v _ f2 ok])
  next
    case p: 2
    have D: "field_digits f1 \<le> 64" using ok p by (simp add: move_fits_def)
    note cv = packed_to_display_num [OF v p D]
    show ?thesis
    proof (cases "field_type f2 = COB_TYPE_NUMERIC_DISPLAY")
      case True
      then have "cob_move T E M f1 f2 = cob_move_packed_to_display M f1 f2"
        using n(1-3) p by (subst cob_move.simps) simp
      then show ?thesis using cv [of f2] f2 True v by (auto simp: moved_def num_target_def)
    next
      case False
      have wf: "wf_packed f1" "v = pk_val f1" using v p by (auto simp: num_val_def split: if_splits)
      have "cob_move T E M f1 f2 = do {
          (s', t) \<leftarrow> indirect_temp (cob_move_packed_to_display M) f1 (field_digits f1) (field_scale f1);
          (_, d) \<leftarrow> cob_move T E M (display_temp (field_digits f1) (field_scale f1) t) f2; Some (s', d) }"
        using n(1-3) p False by (subst cob_move.simps) simp
      moreover have "moved T M f1 f2 v \<dots>"
      proof (rule move_through_temp [where func = "cob_move_packed_to_display M", OF cv])
        show "0 < field_digits f1" "source_len f1 = field_digits f1" using wf p by (simp_all add: wf_packed_def source_len_def)
        show "\<bar>v\<bar> < 10 ^ field_digits f1" using packed_val_bound [OF wf(1)] wf(2) by simp
      qed (use D v f2 ok in simp_all)
      ultimately show ?thesis by simp
    qed
  next
    case b: 3
    note cv = binary_to_display_num [OF v b]
    show ?thesis
    proof (cases "field_type f2 = COB_TYPE_NUMERIC_DISPLAY")
      case True
      then have "cob_move T E M f1 f2 = cob_move_binary_to_display T M f1 f2"
        using n(1-3) b by (subst cob_move.simps) simp
      then show ?thesis using cv [of f2] f2 True v by (auto simp: moved_def num_target_def)
    next
      case False
      have wf: "wf_binary f1" "v = bin_val T f1" using v b by (auto simp: num_val_def split: if_splits)
      have on: "other_numeric (field_type f2)" using n(5) False by (auto simp: num_type_def other_numeric_def)
      have "cob_move T E M f1 f2 = do {
          (s', t) \<leftarrow> indirect_temp (cob_move_binary_to_display T M) f1 20 (field_scale f1);
          (_, d) \<leftarrow> cob_move T E M (display_temp 20 (field_scale f1) t) f2; Some (s', d) }"
        using n(1-3) b False by (subst cob_move.simps) (simp add: on)
      moreover have "moved T M f1 f2 v \<dots>"
      proof (rule move_through_temp [where func = "cob_move_binary_to_display T M", OF cv])
        show "source_len f1 = 20" using b by (simp add: source_len_def)
        show "\<bar>v\<bar> < 10 ^ 20" using bin_val_20 [OF wf(1), of T] wf(2) by simp
      qed (use v f2 ok in simp_all)
      ultimately show ?thesis by simp
    qed
  qed
qed

text \<open>The item an int is put into before it is moved.\<close>

lemma int_temp_val:
  assumes "- (2 ^ 31) \<le> n" "n < 2 ^ 31"
  shows "num_val T M (int_temp T 9 4 n) = Some n"
proof -
  let ?f = "int_temp T 9 4 n"
  have f: "field_type ?f = COB_TYPE_NUMERIC_BINARY" "have_sign ?f" "fsize ?f = 4" "\<not> binary_swap ?f" "fdata ?f = host_bytes T 4 n"
    by (simp_all add: int_temp_def)
  then have "bin_be T ?f = words_bigendian T" by (simp add: bin_be_def)
  then have "bin_raw T ?f = n mod 2 ^ 32" by (simp add: bin_raw_def f(5) host_bytes_end end_val_end_bytes)
  then have "bin_val T ?f = signed_take_bit 31 n"
    using f signed_take_bit_take_bit [of 31 32 n] by (simp add: bin_val_def take_bit_eq_mod)
  also have "\<dots> = n" using assms by (simp add: signed_take_bit_int_eq_self)
  finally show ?thesis using f by (simp add: num_val_def wf_binary_def)
qed

end
