(* ===== verification/Cob_Numeric.thy ===== *)
theory Cob_Numeric
  imports Cob_Move_Numeric
begin

text \<open>
  Arithmetic on items (numeric.c): loading an item of any usage into a decimal, rounding and
  storing a decimal into an item, and the statements built from them (ADD, SUBTRACT, DIVIDE
  with remainder, numeric comparison).

  The four static decimals \<open>cob_d1\<close>..\<open>cob_d4\<close> are the record \<open>cob_accs\<close>; DIVIDE leaves the
  remainder in \<open>cob_d3\<close> for a later call, so they are threaded through. Arithmetic in C
  doubles is the parameter \<open>fp_env\<close>.
\<close>

record cob_accs =
  cob_d1 :: cob_decimal
  cob_d2 :: cob_decimal
  cob_d3 :: cob_decimal
  cob_d4 :: cob_decimal

definition cob_decimal_init :: cob_decimal where
  "cob_decimal_init = mkdec 0 0"

definition cob_init_numeric :: cob_accs where
  "cob_init_numeric = \<lparr>cob_d1 = cob_decimal_init, cob_d2 = cob_decimal_init,
     cob_d3 = cob_decimal_init, cob_d4 = cob_decimal_init\<rparr>"

definition cob_decimal_set_field ::
  "target \<Rightarrow> fp_env \<Rightarrow> cob_module \<Rightarrow> cob_decimal \<Rightarrow> cob_field \<Rightarrow> (cob_decimal \<times> cob_field) option" where
  "cob_decimal_set_field T E M d f =
    (if field_type f = COB_TYPE_NUMERIC_BINARY then map_option (\<lambda>d. (d, f)) (cob_decimal_set_binary T f)
     else if field_type f = COB_TYPE_NUMERIC_PACKED then map_option (\<lambda>d. (d, f)) (cob_decimal_set_packed f)
     else if is_fp (field_type f) then Some (mkdec (fp_to_int E (field_type f) (fdata f)) 9, f)
     else cob_decimal_set_display M d f)"

text \<open>Rounding adds 5 in the first place that is lost; then digits are appended or cut off.\<close>

definition round_decimal :: "int \<Rightarrow> u8 \<Rightarrow> cob_decimal \<Rightarrow> cob_decimal" where
  "round_decimal scale opt d =
    (let d = (if opt_set opt COB_STORE_ROUND \<and> scale < dscale d \<and> dvalue d \<noteq> 0 then
                let e = shift_decimal d (scale - dscale d + 1) in
                e\<lparr>dvalue := (if dvalue d > 0 then dvalue e + 5 else dvalue e - 5)\<rparr>
              else d)
     in shift_decimal d (scale - dscale d))"

definition cob_decimal_get_field ::
  "cob_rt \<Rightarrow> target \<Rightarrow> fp_env \<Rightarrow> cob_module \<Rightarrow> cob_accs \<Rightarrow> cob_decimal \<Rightarrow> cob_field \<Rightarrow> u8 \<Rightarrow>
   (int \<times> cob_rt \<times> cob_accs \<times> cob_field) option" where
  "cob_decimal_get_field R T E M N d f opt =
    (if dscale d = DECIMAL_NAN then
       let R = cob_set_exception R COB_EC_SIZE_OVERFLOW in Some (exception_code R, R, N, f)
     else
       let d = round_decimal (field_scale f) opt d; N = N\<lparr>cob_d1 := d\<rparr> in
       if field_type f = COB_TYPE_NUMERIC_BINARY then
         map_option (\<lambda>(r, R, f). (r, R, N, f)) (cob_decimal_get_binary R T M d f opt)
       else if field_type f = COB_TYPE_NUMERIC_PACKED then
         map_option (\<lambda>(r, R, f). (r, R, N, f)) (cob_decimal_get_packed R d f opt)
       else if field_type f = COB_TYPE_NUMERIC_DISPLAY then
         map_option (\<lambda>(r, R, f). (r, R, N, f)) (cob_decimal_get_display R M d f opt)
       else if is_fp (field_type f) then
         map_option (\<lambda>p. (0, R, N, set_data f p)) (wrs (fdata f) 0 (fp_of_dec E (field_type f) d))
       else if 64 < field_digits f then None
       else do {
         (r, R, t) \<leftarrow> cob_decimal_get_display R M d
           (cob_fld COB_TYPE_NUMERIC_DISPLAY (field_digits f) (field_scale f) COB_FLAG_HAVE_SIGN []
              (replicate (field_digits f) 0)) opt;
         f \<leftarrow> (if r = 0 then map_option snd (cob_move T E M t f) else Some f);
         Some (exception_code R, R, N, f) })"

section \<open>Statements\<close>

definition cob_add ::
  "cob_rt \<Rightarrow> target \<Rightarrow> fp_env \<Rightarrow> cob_module \<Rightarrow> cob_accs \<Rightarrow> cob_field \<Rightarrow> cob_field \<Rightarrow> u8 \<Rightarrow>
   (int \<times> cob_rt \<times> cob_accs \<times> cob_field \<times> cob_field) option" where
  "cob_add R T E M N f1 f2 opt = do {
     (d1, f1) \<leftarrow> cob_decimal_set_field T E M (cob_d1 N) f1;
     (d2, f2) \<leftarrow> cob_decimal_set_field T E M (cob_d2 N) f2;
     let (d1, d2) = cob_decimal_add d1 d2;
     (r, R, N, f1) \<leftarrow> cob_decimal_get_field R T E M (N\<lparr>cob_d1 := d1, cob_d2 := d2\<rparr>) d1 f1 opt;
     Some (r, R, N, f1, f2) }"

definition cob_sub ::
  "cob_rt \<Rightarrow> target \<Rightarrow> fp_env \<Rightarrow> cob_module \<Rightarrow> cob_accs \<Rightarrow> cob_field \<Rightarrow> cob_field \<Rightarrow> u8 \<Rightarrow>
   (int \<times> cob_rt \<times> cob_accs \<times> cob_field \<times> cob_field) option" where
  "cob_sub R T E M N f1 f2 opt = do {
     (d1, f1) \<leftarrow> cob_decimal_set_field T E M (cob_d1 N) f1;
     (d2, f2) \<leftarrow> cob_decimal_set_field T E M (cob_d2 N) f2;
     let (d1, d2) = cob_decimal_sub d1 d2;
     (r, R, N, f1) \<leftarrow> cob_decimal_get_field R T E M (N\<lparr>cob_d1 := d1, cob_d2 := d2\<rparr>) d1 f1 opt;
     Some (r, R, N, f1, f2) }"

text \<open>
  \<open>cob_add_int\<close>. For other usages the int is brought to the scale of the item; the exponent
  is cast to \<open>unsigned int\<close>, so a negative scale asks GMP for an astronomic power.
\<close>

definition cob_add_int ::
  "cob_rt \<Rightarrow> target \<Rightarrow> fp_env \<Rightarrow> cob_module \<Rightarrow> cob_accs \<Rightarrow> cob_field \<Rightarrow> int \<Rightarrow>
   (int \<times> cob_rt \<times> cob_accs \<times> cob_field) option" where
  "cob_add_int R T E M N f n =
    (if n = 0 then Some (0, R, N, f)
     else if field_type f = COB_TYPE_NUMERIC_DISPLAY then
       map_option (\<lambda>(r, R, f). (r, R, N, f)) (cob_display_add_int R M f n)
     else if field_type f = COB_TYPE_NUMERIC_PACKED then
       map_option (\<lambda>f. (0, R, N, f)) (cob_add_packed f n)
     else do {
       (d1, f) \<leftarrow> cob_decimal_set_field T E M (cob_d1 N) f;
       let d2 = (if dscale d1 \<noteq> 0 then mkdec (n * 10 ^ nat (u32 (dscale d1))) (dscale d1) else mkdec n 0);
       let d1 = d1\<lparr>dvalue := dvalue d1 + dvalue d2\<rparr>;
       cob_decimal_get_field R T E M (N\<lparr>cob_d1 := d1, cob_d2 := d2\<rparr>) d1 f 0 })"

definition cob_sub_int ::
  "cob_rt \<Rightarrow> target \<Rightarrow> fp_env \<Rightarrow> cob_module \<Rightarrow> cob_accs \<Rightarrow> cob_field \<Rightarrow> int \<Rightarrow>
   (int \<times> cob_rt \<times> cob_accs \<times> cob_field) option" where
  "cob_sub_int R T E M N f n =
    (if n = 0 then Some (0, R, N, f) else cob_add_int R T E M N f (i32 (- n)))"

definition cob_div_quotient ::
  "cob_rt \<Rightarrow> target \<Rightarrow> fp_env \<Rightarrow> cob_module \<Rightarrow> cob_accs \<Rightarrow> cob_field \<Rightarrow> cob_field \<Rightarrow> cob_field \<Rightarrow> u8 \<Rightarrow>
   (int \<times> cob_rt \<times> cob_accs \<times> cob_field \<times> cob_field \<times> cob_field) option" where
  "cob_div_quotient R T E M N dividend divisor quot opt = do {
     (d1, dividend) \<leftarrow> cob_decimal_set_field T E M (cob_d1 N) dividend;
     (d2, divisor) \<leftarrow> cob_decimal_set_field T E M (cob_d2 N) divisor;
     let d3 = d1;
     let (R, d1) = cob_decimal_div R d1 d2;
     if dscale d1 = DECIMAL_NAN then
       Some (exception_code R, R, N\<lparr>cob_d1 := d1, cob_d2 := d2, cob_d3 := d3\<lparr>dscale := DECIMAL_NAN\<rparr>\<rparr>,
         dividend, divisor, quot)
     else do {
       let d4 = d1;
       (ret, R, N, quot) \<leftarrow> cob_decimal_get_field R T E M (N\<lparr>cob_d1 := d1, cob_d2 := d2\<rparr>) d1 quot opt;
       let d4 = shift_decimal d4 (field_scale quot - dscale d4);
       let d4 = cob_decimal_mul d4 d2;
       let (d3, d4) = cob_decimal_sub d3 d4;
       Some (ret, R, N\<lparr>cob_d3 := d3, cob_d4 := d4\<rparr>, dividend, divisor, quot) } }"

definition cob_div_remainder ::
  "cob_rt \<Rightarrow> target \<Rightarrow> fp_env \<Rightarrow> cob_module \<Rightarrow> cob_accs \<Rightarrow> cob_field \<Rightarrow> u8 \<Rightarrow>
   (int \<times> cob_rt \<times> cob_accs \<times> cob_field) option" where
  "cob_div_remainder R T E M N f opt = cob_decimal_get_field R T E M N (cob_d3 N) f opt"

section \<open>Comparison\<close>

definition cmp_with ::
  "target \<Rightarrow> fp_env \<Rightarrow> cob_module \<Rightarrow> cob_accs \<Rightarrow> cob_field \<Rightarrow> int \<Rightarrow> (int \<times> cob_accs \<times> cob_field) option" where
  "cmp_with T E M N f1 n = do {
     (d1, f1) \<leftarrow> cob_decimal_set_field T E M (cob_d1 N) f1;
     let (c, d1, d2) = cob_decimal_cmp d1 (mkdec n 0);
     Some (c, N\<lparr>cob_d1 := d1, cob_d2 := d2\<rparr>, f1) }"

definition cob_cmp_int ::
  "target \<Rightarrow> fp_env \<Rightarrow> cob_module \<Rightarrow> cob_accs \<Rightarrow> cob_field \<Rightarrow> int \<Rightarrow> (int \<times> cob_accs \<times> cob_field) option" where
  "cob_cmp_int T E M N f1 n = cmp_with T E M N f1 (i32 n)"

definition cob_cmp_uint ::
  "target \<Rightarrow> fp_env \<Rightarrow> cob_module \<Rightarrow> cob_accs \<Rightarrow> cob_field \<Rightarrow> int \<Rightarrow> (int \<times> cob_accs \<times> cob_field) option" where
  "cob_cmp_uint T E M N f1 n = cmp_with T E M N f1 (u32 n)"

definition cob_numeric_cmp ::
  "target \<Rightarrow> fp_env \<Rightarrow> cob_module \<Rightarrow> cob_accs \<Rightarrow> cob_field \<Rightarrow> cob_field \<Rightarrow>
   (int \<times> cob_accs \<times> cob_field \<times> cob_field) option" where
  "cob_numeric_cmp T E M N f1 f2 = do {
     (d1, f1) \<leftarrow> cob_decimal_set_field T E M (cob_d1 N) f1;
     (d2, f2) \<leftarrow> cob_decimal_set_field T E M (cob_d2 N) f2;
     let (c, d1, d2) = cob_decimal_cmp d1 d2;
     Some (c, N\<lparr>cob_d1 := d1, cob_d2 := d2\<rparr>, f1, f2) }"

section \<open>Rounding\<close>

text \<open>A number in units of \<open>10 ^ - s\<close>, cut or rounded half away from zero.\<close>

definition rounded :: "rat \<Rightarrow> int \<Rightarrow> u8 \<Rightarrow> int" where
  "rounded x s opt =
    (let u = x * 10 powi s; a = \<lfloor>\<bar>u\<bar> + (if opt_set opt COB_STORE_ROUND then 1 / 2 else 0)\<rfloor> in
     if u < 0 then - a else a)"

lemma floor_div_int: "0 < b \<Longrightarrow> \<lfloor>(of_int a :: rat) / of_int b\<rfloor> = a div b"
  by (rule floor_divide_of_int_eq)

lemma dec_rat_units:
  "dec_rat d * 10 powi s = of_int (dvalue d) * 10 powi (s - dscale d)"
  using power_int_10_split [of "- dscale d" s] by (simp add: dec_rat_def algebra_simps)

lemma sdiv_pow_abs: "\<bar>v sdiv 10 ^ k\<bar> = \<bar>v\<bar> div (10 :: int) ^ k"
  using sdiv_abs [of "10 ^ k" v] by simp

lemma sdiv_pow_sgn: "v sdiv 10 ^ k = (if v < 0 then - (\<bar>v\<bar> div 10 ^ k) else \<bar>v\<bar> div (10 :: int) ^ k)"
  by (simp add: sdiv_int sgn_if abs_if)

lemma div_pow_nonneg: "0 \<le> \<bar>v\<bar> div (10 :: int) ^ k"
  by (simp add: pos_imp_zdiv_nonneg_iff)

lemma round_decimal_value:
  assumes "scale < dscale d" "dscale d - scale = int (Suc k)"
  shows "dvalue (round_decimal scale opt d) =
    (let a = (\<bar>dvalue d\<bar> + (if opt_set opt COB_STORE_ROUND then 5 * 10 ^ k else 0)) div 10 ^ Suc k in
     if dvalue d < 0 then - a else a)"
proof -
  let ?v = "dvalue d"
  have n: "nat (dscale d - scale) = Suc k" using assms(2) by simp
  show ?thesis
  proof (cases "opt_set opt COB_STORE_ROUND \<and> ?v \<noteq> 0")
    case False
    then have "dvalue (round_decimal scale opt d) = ?v sdiv 10 ^ Suc k"
      using assms n by (auto simp: round_decimal_def shift_decimal_def)
    moreover have "\<not> opt_set opt COB_STORE_ROUND \<or> ?v = 0" using False by blast
    moreover have "(5 * 10 ^ k :: int) div 10 ^ Suc k = 0" by (intro div_pos_pos_trivial) simp_all
    ultimately show ?thesis by (auto simp: sdiv_pow_sgn Let_def simp del: power_Suc)
  next
    case True
    let ?w = "?v sdiv 10 ^ k" let ?a = "\<bar>?v\<bar> div 10 ^ k"
    have e: "shift_decimal d (scale - dscale d + 1) = mkdec ?w (scale + 1)"
    proof (cases "k = 0")
      case True
      then have "scale + 1 = dscale d" using assms(2) by simp
      then show ?thesis using True by (simp add: shift_decimal_def mkdec_def)
    next
      case False
      then have "nat (- (scale - dscale d + 1)) = k" "scale - dscale d + 1 < 0" using assms(2) by linarith+
      then show ?thesis by (simp add: shift_decimal_def)
    qed
    have r: "dvalue (round_decimal scale opt d) = (if ?v > 0 then ?w + 5 else ?w - 5) sdiv 10 ^ 1"
    proof -
      have c: "opt_set opt COB_STORE_ROUND \<and> scale < dscale d \<and> ?v \<noteq> 0" using True assms(1) by simp
      show ?thesis unfolding round_decimal_def Let_def if_P [OF c] e by (simp add: shift_decimal_def)
    qed
    have s: "(\<bar>?v\<bar> + 5 * 10 ^ k) div 10 ^ Suc k = (?a + 5) div 10"
      unfolding power_Suc2 by (subst zdiv_zmult2_eq) simp_all
    have a0: "0 \<le> ?a" by (rule div_pow_nonneg)
    have w: "?w = (if ?v < 0 then - ?a else ?a)" by (rule sdiv_pow_sgn)
    have sd: "x sdiv 10 = (if x < 0 then - (\<bar>x\<bar> div 10) else \<bar>x\<bar> div 10)" for x :: int
      using sdiv_pow_sgn [of x 1] by simp
    show ?thesis
    proof (cases "?v < 0")
      case neg: True
      have "(- ?a - 5) sdiv 10 = - ((?a + 5) div 10)" using a0 sd [of "- ?a - 5"] by simp
      then show ?thesis using neg True unfolding r Let_def w by (simp only: s if_True if_False not_less_iff_gr_or_eq power_one_right) simp
    next
      case False
      then have pos: "0 < ?v" using True by simp
      have "(?a + 5) sdiv 10 = (?a + 5) div 10" using a0 sd [of "?a + 5"] by simp
      then show ?thesis using pos False True unfolding r Let_def w by (simp only: s if_True if_False power_one_right)
    qed
  qed
qed

lemma dscale_round [simp]: "dscale (round_decimal scale opt d) = scale"
  by (simp add: round_decimal_def Let_def)

lemma round_decimal_rounded: "dvalue (round_decimal s opt d) = rounded (dec_rat d) s opt"
proof (cases "s < dscale d")
  case False
  let ?n = "nat (s - dscale d)"
  have "dvalue (round_decimal s opt d) = dvalue d * 10 ^ ?n"
    using False by (auto simp: round_decimal_def shift_decimal_def Let_def)
  moreover have "dec_rat d * 10 powi s = of_int (dvalue d * 10 ^ ?n)"
    unfolding dec_rat_units using False by (simp add: power_int_def)
  moreover have "\<lfloor>\<bar>(of_int a :: rat)\<bar> + 1 / 2\<rfloor> = \<bar>a\<bar>" "\<lfloor>\<bar>(of_int a :: rat)\<bar>\<rfloor> = \<bar>a\<bar>" for a
    by (auto simp: abs_if floor_eq_iff)
  ultimately show ?thesis by (auto simp: rounded_def Let_def simp del: of_int_mult)
next
  case True
  define k where "k = nat (dscale d - s) - 1"
  have k: "dscale d - s = int (Suc k)" using True by (simp add: k_def)
  let ?u = "dec_rat d * 10 powi s" let ?v = "dvalue d" let ?h = "if opt_set opt COB_STORE_ROUND then 5 * 10 ^ k else (0 :: int)"
  have u: "?u = of_int ?v / of_int (10 ^ Suc k)"
  proof -
    have "s - dscale d = - int (Suc k)" using k by simp
    then have "(10::rat) powi (s - dscale d) = inverse (10 ^ Suc k)" by (simp only: power_int_minus power_int_of_nat)
    then show ?thesis unfolding dec_rat_units divide_inverse by (simp only: of_int_power of_int_numeral)
  qed
  have h: "(if opt_set opt COB_STORE_ROUND then 1 / 2 else 0) = (of_int ?h :: rat) / of_int (10 ^ Suc k)"
    by simp
  have "\<bar>?u\<bar> + (if opt_set opt COB_STORE_ROUND then 1 / 2 else 0) = of_int (\<bar>?v\<bar> + ?h) / of_int (10 ^ Suc k)"
    unfolding h u by (simp add: abs_divide add_divide_distrib)
  then have "\<lfloor>\<bar>?u\<bar> + (if opt_set opt COB_STORE_ROUND then 1 / 2 else 0)\<rfloor> = (\<bar>?v\<bar> + ?h) div 10 ^ Suc k"
    by (simp only: floor_div_int zero_less_power zero_less_numeral)
  moreover have "?u < 0 \<longleftrightarrow> ?v < 0" unfolding u by (simp add: divide_less_0_iff)
  ultimately show ?thesis
    unfolding round_decimal_value [OF True k] rounded_def Let_def by simp
qed


section \<open>Loading and storing numeric items\<close>

text \<open>
  What a load asks of a DISPLAY item (its first byte is not the HIGH-VALUE or LOW-VALUE that
  stands for an infinite number) and of an 8 byte binary item with a 32 bit \<open>long\<close>.
\<close>

definition loadable :: "target \<Rightarrow> cob_field \<Rightarrow> int \<Rightarrow> bool" where
  "loadable T f v \<longleftrightarrow>
    (field_type f = COB_TYPE_NUMERIC_DISPLAY \<longrightarrow> fdata f ! data_off f \<notin> {0, 255} \<and> data_size f < num_buff_size) \<and>
    (field_type f = COB_TYPE_NUMERIC_BINARY \<longrightarrow> cob_li_is_ll T \<or> v \<noteq> - (2 ^ 63))"

lemma set_field_num:
  assumes v: "num_val T M f = Some v" and l: "loadable T f v"
  shows "\<exists>g. cob_decimal_set_field T E M d f = Some (mkdec v (field_scale f), g) \<and> same_shape f g \<and> num_val T M g = Some v"
proof -
  from num_val_size [OF v] consider "field_type f = COB_TYPE_NUMERIC_DISPLAY" | "field_type f = COB_TYPE_NUMERIC_PACKED"
    | "field_type f = COB_TYPE_NUMERIC_BINARY" by (auto simp: num_type_def)
  then show ?thesis
  proof cases
    case 1
    obtain s g where g: "wf_field f" "cob_get_sign M f = Some (s, g)" "all_digits (field_bytes g)"
      "v = signed_val s (field_bytes g)" "length (field_bytes g) = data_size f" using num_valE [OF v 1] .
    have so: "sign_of M f s (field_bytes g)" using g(2) by (auto simp: sign_of_def)
    obtain h where h: "cob_decimal_set_display M d f = Some (mkdec v (field_scale f), h)"
      "sign_of M h (sign_result f s) (field_bytes g)" "fattr h = fattr f" "fsize h = fsize f"
      using set_display_value [OF g(1) 1 so g(3)] l 1 g(4,5) by (auto simp: loadable_def)
    have "wf_field h" "field_type h = COB_TYPE_NUMERIC_DISPLAY"
      using g(1) 1 h(3,4) by (simp_all add: wf_field_def data_size_def field_type_def sign_separate_def)
    from sign_of_num_val [OF h(2) this g(3), of T]
    have "num_val T M h = Some (signed_val (sign_result f s) (field_bytes g))" .
    moreover have "s = 0 \<or> have_sign f" using g(2) by (auto simp: cob_get_sign_def split: if_splits)
    then have "signed_val (sign_result f s) (field_bytes g) = v"
      unfolding g(4) by (auto simp: signed_val_def sign_result_def)
    ultimately show ?thesis using h 1 by (auto simp: cob_decimal_set_field_def is_fp_def same_shape_def)
  next
    case 2
    then have "wf_packed f" "v = pk_val f" using v by (auto simp: num_val_def split: if_splits)
    then show ?thesis using set_packed_pk 2 v by (simp add: cob_decimal_set_field_def)
  next
    case 3
    then have b: "wf_binary f" "v = bin_val T f" using v by (auto simp: num_val_def split: if_splits)
    then have "cob_decimal_set_binary T f = Some (mkdec v (field_scale f))"
      using set_binary_val [OF b(1), of T] l 3 by (auto simp: loadable_def)
    then show ?thesis using 3 v by (simp add: cob_decimal_set_field_def)
  qed
qed

text \<open>An item that can take any value, and the values it takes without a size error.\<close>

definition storable :: "target \<Rightarrow> cob_field \<Rightarrow> bool" where
  "storable T f \<longleftrightarrow>
    (case field_type f of
       COB_TYPE_NUMERIC_DISPLAY \<Rightarrow> wf_field f
     | COB_TYPE_NUMERIC_PACKED \<Rightarrow> 0 < field_digits f \<and> fsize f = field_digits f div 2 + 1
     | COB_TYPE_NUMERIC_BINARY \<Rightarrow> wf_binary f \<and> cob_li_is_ll T \<and> field_digits f < COB_MAX_BINARY
     | _ \<Rightarrow> False)"

definition field_fits :: "cob_module \<Rightarrow> cob_field \<Rightarrow> u8 \<Rightarrow> int \<Rightarrow> bool" where
  "field_fits M f opt v =
    (if field_type f = COB_TYPE_NUMERIC_BINARY then binary_fits M f opt v else \<bar>v\<bar> < 10 ^ capacity f)"

text \<open>
  The outcome of storing \<open>v\<close>: stored (without its sign in an unsigned item), or, when it does
  not fit and the statement has ON SIZE ERROR, EC-SIZE-OVERFLOW with the item as it was.
\<close>

definition stored :: "target \<Rightarrow> cob_module \<Rightarrow> cob_rt \<Rightarrow> cob_field \<Rightarrow> u8 \<Rightarrow> int \<Rightarrow> int \<Rightarrow> cob_rt \<Rightarrow> cob_field \<Rightarrow> bool" where
  "stored T M R f opt v r R' g \<longleftrightarrow>
    (field_fits M f opt v \<longrightarrow> r = 0 \<and> R' = R \<and> same_shape f g \<and>
       num_val T M g = Some (if have_sign f then v else \<bar>v\<bar>)) \<and>
    (\<not> field_fits M f opt v \<and> opt_set opt COB_STORE_KEEP_ON_OVERFLOW \<longrightarrow>
       r = 0x1004 \<and> R' = cob_set_exception R COB_EC_SIZE_OVERFLOW \<and> g = f)"

lemma get_field_num:
  fixes R :: cob_rt
  assumes st: "storable T f" and n: "dscale d \<noteq> DECIMAL_NAN" and v: "v = rounded (dec_rat d) (field_scale f) opt"
    and room: "\<bar>v\<bar> < 10 ^ (num_buff_size - 1)" and k: "opt_set opt COB_STORE_KEEP_ON_OVERFLOW \<or> field_fits M f opt v"
  shows "\<exists>r R' g. cob_decimal_get_field R T E M N d f opt =
      Some (r, R', N\<lparr>cob_d1 := round_decimal (field_scale f) opt d\<rparr>, g) \<and> stored T M R f opt v r R' g"
proof -
  let ?d = "round_decimal (field_scale f) opt d" and ?N = "N\<lparr>cob_d1 := round_decimal (field_scale f) opt d\<rparr>"
  have dv: "dvalue ?d = v" by (simp add: round_decimal_rounded v)
  have rm: "\<bar>dvalue ?d\<bar> < 10 ^ 2047" using room unfolding dv num_buff_pred .
  from st consider "field_type f = COB_TYPE_NUMERIC_DISPLAY \<and> wf_field f"
    | "field_type f = COB_TYPE_NUMERIC_PACKED \<and> 0 < field_digits f \<and> fsize f = field_digits f div 2 + 1"
    | "field_type f = COB_TYPE_NUMERIC_BINARY \<and> wf_binary f \<and> cob_li_is_ll T \<and> field_digits f < COB_MAX_BINARY"
    by (auto simp: storable_def split: cob_type.splits)
  then show ?thesis
  proof cases
    case 1
    then have t: "field_type f = COB_TYPE_NUMERIC_DISPLAY" and wf: "wf_field f" by simp_all
    have ft: "field_fits M f opt v \<longleftrightarrow> \<bar>dvalue ?d\<bar> < 10 ^ data_size f"
      unfolding field_fits_def capacity_def dv t by simp
    have e: "cob_decimal_get_field R T E M N d f opt = map_option (\<lambda>(r, R, f). (r, R, ?N, f)) (cob_decimal_get_display R M ?d f opt)"
      using n t by (simp add: cob_decimal_get_field_def Let_def)
    note gd = get_display_value [OF wf t rm, of opt R M, folded ft]
    show ?thesis
    proof (cases "field_fits M f opt v")
      case False
      then show ?thesis unfolding e using gd(1) k by (auto simp: stored_def exception_code_size_overflow)
    next
      case True
      obtain g where g: "cob_decimal_get_display R M ?d f opt = Some (0, R, g)"
        "sign_of M g (sign_result f (sgn v)) (pad_digits (data_size f) \<bar>v\<bar>)" "fattr g = fattr f" "fsize g = fsize f"
        using gd(2) True unfolding dv by auto
      have "wf_field g" "field_type g = COB_TYPE_NUMERIC_DISPLAY"
        using wf t g(3,4) by (simp_all add: wf_field_def data_size_def field_type_def sign_separate_def)
      from sign_of_num_val [OF g(2) this all_digits_pad, of T]
      have "num_val T M g = Some (signed_val (sign_result f (sgn v)) (pad_digits (data_size f) \<bar>v\<bar>))" .
      moreover have "\<bar>v\<bar> mod 10 ^ data_size f = \<bar>v\<bar>" using True unfolding ft dv by (intro mod_pos_pos_trivial) simp_all
      then have "signed_val (sign_result f (sgn v)) (pad_digits (data_size f) \<bar>v\<bar>) = (if have_sign f then v else \<bar>v\<bar>)"
        by (auto simp: signed_val_def sign_result_def dec_val_pad sgn_if)
      ultimately show ?thesis unfolding e using g True by (auto simp: stored_def same_shape_def)
    qed
  next
    case 2
    then have t: "field_type f = COB_TYPE_NUMERIC_PACKED" and wf: "0 < field_digits f" "fsize f = field_digits f div 2 + 1" by simp_all
    have ft: "field_fits M f opt v \<longleftrightarrow> \<bar>dvalue ?d\<bar> < 10 ^ field_digits f"
      unfolding field_fits_def capacity_def dv t by simp
    have e: "cob_decimal_get_field R T E M N d f opt = map_option (\<lambda>(r, R, f). (r, R, ?N, f)) (cob_decimal_get_packed R ?d f opt)"
      using n t by (simp add: cob_decimal_get_field_def Let_def)
    note gd = get_packed_pk [OF wf rm, of opt R, folded ft]
    show ?thesis
    proof (cases "field_fits M f opt v")
      case False
      then show ?thesis unfolding e using gd(1) k by (auto simp: stored_def exception_code_size_overflow)
    next
      case True
      obtain g where g: "cob_decimal_get_packed R ?d f opt = Some (0, R, g)" "g = set_data f (fdata g)" "wf_packed g"
        "dval (pk_digits g) = \<bar>v\<bar> mod 10 ^ field_digits f" "pk_neg g = (have_sign f \<and> v < 0)"
        using gd(2) True unfolding dv by auto
      have "\<bar>v\<bar> mod 10 ^ field_digits f = \<bar>v\<bar>" using True unfolding ft dv by (intro mod_pos_pos_trivial) simp_all
      then have pv: "pk_val g = (if have_sign f then v else \<bar>v\<bar>)" using g(4,5) by (auto simp: pk_val_def)
      have a: "field_type g = COB_TYPE_NUMERIC_PACKED" "field_digits g = field_digits f" "fattr g = fattr f" by (subst g(2), simp add: t)+
      then have "same_shape f g" using g(3) wf(2) by (simp add: same_shape_def wf_packed_def)
      then show ?thesis unfolding e using g(1,3) a(1) True pv by (auto simp: stored_def num_val_def)
    qed
  next
    case 3
    then have t: "field_type f = COB_TYPE_NUMERIC_BINARY" and b: "wf_binary f" "cob_li_is_ll T" "field_digits f < COB_MAX_BINARY"
      by simp_all
    have ft: "field_fits M f opt v \<longleftrightarrow> binary_fits M f opt (dvalue ?d)" unfolding field_fits_def dv t by simp
    have e: "cob_decimal_get_field R T E M N d f opt = map_option (\<lambda>(r, R, f). (r, R, ?N, f)) (cob_decimal_get_binary R T M ?d f opt)"
      using n t by (simp add: cob_decimal_get_field_def Let_def)
    note gd = get_binary_val [OF b, of M opt ?d R, folded ft]
    show ?thesis
    proof (cases "field_fits M f opt v")
      case False
      then have "dvalue ?d \<noteq> 0" unfolding ft by (auto simp: binary_fits_def)
      then show ?thesis unfolding e using gd(2) [OF False] k False by (auto simp: stored_def)
    next
      case True
      obtain g where g: "cob_decimal_get_binary R T M ?d f opt = Some (0, R, g)" "g = set_data f (fdata g)" "fsize g = fsize f"
        "bin_val T g = (if have_sign f then v else \<bar>v\<bar>)"
        using gd(1) [OF True] unfolding dv by auto
      have a: "field_type g = COB_TYPE_NUMERIC_BINARY" "fattr g = fattr f" by (subst g(2), simp add: t)+
      have "wf_binary g" using b(1) g(3) by (simp add: wf_binary_def)
      then show ?thesis unfolding e using g a True by (auto simp: stored_def num_val_def same_shape_def)
    qed
  qed
qed


section \<open>ADD, SUBTRACT, comparison\<close>

definition item_rat :: "cob_field \<Rightarrow> int \<Rightarrow> rat" where
  "item_rat f v = dec_rat (mkdec v (field_scale f))"

lemma not_nan_mkdec: "s \<noteq> - 128 \<Longrightarrow> t \<noteq> - 128 \<Longrightarrow> \<not> decimal_nan (mkdec v s) (mkdec w t)"
  by (simp add: decimal_nan_def DECIMAL_NAN_def)

lemma storable_shape: "same_shape f g \<Longrightarrow> storable T g = storable T f"
  by (simp add: same_shape_def storable_def field_sel wf_field_def data_size_def wf_binary_def split: cob_type.split)

lemma fits_shape: "same_shape f g \<Longrightarrow> field_fits M g opt v = field_fits M f opt v"
  by (simp add: same_shape_def field_fits_def binary_fits_def capacity_def field_sel data_size_def)

lemma same_shape_sel: "same_shape f g \<Longrightarrow> field_scale g = field_scale f" "same_shape f g \<Longrightarrow> have_sign g = have_sign f"
  by (simp_all add: same_shape_def field_sel)

lemma accumulate_num:
  fixes R :: cob_rt
  assumes st: "storable T f" and sh: "same_shape f f'" and vf: "num_val T M f' = Some v0"
    and d: "dscale d \<noteq> DECIMAL_NAN" and v: "v = rounded (dec_rat d) (field_scale f) opt"
    and room: "\<bar>v\<bar> < 10 ^ (num_buff_size - 1)" and k: "opt_set opt COB_STORE_KEEP_ON_OVERFLOW \<or> field_fits M f opt v"
  shows "\<exists>r R' N' g. cob_decimal_get_field R T E M N d f' opt = Some (r, R', N', g) \<and> same_shape f g \<and>
    (if field_fits M f opt v then r = 0 \<and> R' = R \<and> num_val T M g = Some (if have_sign f then v else \<bar>v\<bar>)
     else r = 0x1004 \<and> R' = cob_set_exception R COB_EC_SIZE_OVERFLOW \<and> num_val T M g = Some v0)"
proof -
  note s = same_shape_sel [OF sh] and ff = fits_shape [OF sh, of M opt v]
  obtain r R' g where g: "cob_decimal_get_field R T E M N d f' opt =
      Some (r, R', N\<lparr>cob_d1 := round_decimal (field_scale f') opt d\<rparr>, g)" "stored T M R f' opt v r R' g"
    using get_field_num [of T f' d v opt M R E N] st d v room k unfolding storable_shape [OF sh] s ff by auto
  have "same_shape f g"
    using g(2) sh k same_shape_trans [OF sh] unfolding stored_def ff by blast
  then show ?thesis
    using g vf k unfolding stored_def ff s by (cases "field_fits M f opt v") auto
qed

lemma cob_add_num:
  fixes R :: cob_rt
  assumes v1: "num_val T M f1 = Some v1" "loadable T f1 v1" and v2: "num_val T M f2 = Some v2" "loadable T f2 v2"
    and sc: "field_scale f1 \<noteq> - 128" "field_scale f2 \<noteq> - 128" and st: "storable T f1"
    and v: "v = rounded (item_rat f1 v1 + item_rat f2 v2) (field_scale f1) opt"
    and room: "\<bar>v\<bar> < 10 ^ (num_buff_size - 1)" and k: "opt_set opt COB_STORE_KEEP_ON_OVERFLOW \<or> field_fits M f1 opt v"
  shows "\<exists>r R' N' g1 g2. cob_add R T E M N f1 f2 opt = Some (r, R', N', g1, g2) \<and> same_shape f1 g1 \<and>
    num_val T M g2 = Some v2 \<and>
    (if field_fits M f1 opt v then r = 0 \<and> R' = R \<and> num_val T M g1 = Some (if have_sign f1 then v else \<bar>v\<bar>)
     else r = 0x1004 \<and> R' = cob_set_exception R COB_EC_SIZE_OVERFLOW \<and> num_val T M g1 = Some v1)"
proof -
  obtain h1 where h1: "cob_decimal_set_field T E M (cob_d1 N) f1 = Some (mkdec v1 (field_scale f1), h1)"
    "same_shape f1 h1" "num_val T M h1 = Some v1" using set_field_num [OF v1] by blast
  obtain h2 where h2: "cob_decimal_set_field T E M (cob_d2 N) f2 = Some (mkdec v2 (field_scale f2), h2)"
    "num_val T M h2 = Some v2" using set_field_num [OF v2] by blast
  obtain a b where ab: "cob_decimal_add (mkdec v1 (field_scale f1)) (mkdec v2 (field_scale f2)) = (a, b)" by fastforce
  note ex = cob_decimal_add_exact [OF not_nan_mkdec [OF sc] ab]
  have d: "dscale a \<noteq> DECIMAL_NAN" using ex(2) sc by (auto simp: DECIMAL_NAN_def max_def)
  have va: "v = rounded (dec_rat a) (field_scale f1) opt" using v ex(1) by (simp add: item_rat_def)
  from accumulate_num [OF st h1(2,3) d va room k, where R = R and E = E and N = "N\<lparr>cob_d1 := a, cob_d2 := b\<rparr>"]
  obtain r R' N' g where
    g: "cob_decimal_get_field R T E M (N\<lparr>cob_d1 := a, cob_d2 := b\<rparr>) a h1 opt = Some (r, R', N', g)" "same_shape f1 g"
    "if field_fits M f1 opt v then r = 0 \<and> R' = R \<and> num_val T M g = Some (if have_sign f1 then v else \<bar>v\<bar>)
     else r = 0x1004 \<and> R' = cob_set_exception R COB_EC_SIZE_OVERFLOW \<and> num_val T M g = Some v1" by blast
  have "cob_add R T E M N f1 f2 opt = Some (r, R', N', g, h2)"
    unfolding cob_add_def h1(1) h2(1) bind.bind_lunit prod.case ab g(1) Let_def ..
  then show ?thesis using g h2(2) by blast
qed

lemma cob_sub_num:
  fixes R :: cob_rt
  assumes v1: "num_val T M f1 = Some v1" "loadable T f1 v1" and v2: "num_val T M f2 = Some v2" "loadable T f2 v2"
    and sc: "field_scale f1 \<noteq> - 128" "field_scale f2 \<noteq> - 128" and st: "storable T f1"
    and v: "v = rounded (item_rat f1 v1 - item_rat f2 v2) (field_scale f1) opt"
    and room: "\<bar>v\<bar> < 10 ^ (num_buff_size - 1)" and k: "opt_set opt COB_STORE_KEEP_ON_OVERFLOW \<or> field_fits M f1 opt v"
  shows "\<exists>r R' N' g1 g2. cob_sub R T E M N f1 f2 opt = Some (r, R', N', g1, g2) \<and> same_shape f1 g1 \<and>
    num_val T M g2 = Some v2 \<and>
    (if field_fits M f1 opt v then r = 0 \<and> R' = R \<and> num_val T M g1 = Some (if have_sign f1 then v else \<bar>v\<bar>)
     else r = 0x1004 \<and> R' = cob_set_exception R COB_EC_SIZE_OVERFLOW \<and> num_val T M g1 = Some v1)"
proof -
  obtain h1 where h1: "cob_decimal_set_field T E M (cob_d1 N) f1 = Some (mkdec v1 (field_scale f1), h1)"
    "same_shape f1 h1" "num_val T M h1 = Some v1" using set_field_num [OF v1] by blast
  obtain h2 where h2: "cob_decimal_set_field T E M (cob_d2 N) f2 = Some (mkdec v2 (field_scale f2), h2)"
    "num_val T M h2 = Some v2" using set_field_num [OF v2] by blast
  obtain a b where ab: "cob_decimal_sub (mkdec v1 (field_scale f1)) (mkdec v2 (field_scale f2)) = (a, b)" by fastforce
  note ex = cob_decimal_sub_exact [OF not_nan_mkdec [OF sc] ab]
  have d: "dscale a \<noteq> DECIMAL_NAN" using ex(2) sc by (auto simp: DECIMAL_NAN_def max_def)
  have va: "v = rounded (dec_rat a) (field_scale f1) opt" using v ex(1) by (simp add: item_rat_def)
  from accumulate_num [OF st h1(2,3) d va room k, where R = R and E = E and N = "N\<lparr>cob_d1 := a, cob_d2 := b\<rparr>"]
  obtain r R' N' g where
    g: "cob_decimal_get_field R T E M (N\<lparr>cob_d1 := a, cob_d2 := b\<rparr>) a h1 opt = Some (r, R', N', g)" "same_shape f1 g"
    "if field_fits M f1 opt v then r = 0 \<and> R' = R \<and> num_val T M g = Some (if have_sign f1 then v else \<bar>v\<bar>)
     else r = 0x1004 \<and> R' = cob_set_exception R COB_EC_SIZE_OVERFLOW \<and> num_val T M g = Some v1" by blast
  have "cob_sub R T E M N f1 f2 opt = Some (r, R', N', g, h2)"
    unfolding cob_sub_def h1(1) h2(1) bind.bind_lunit prod.case ab g(1) Let_def ..
  then show ?thesis using g h2(2) by blast
qed

lemma numeric_cmp_num:
  assumes v1: "num_val T M f1 = Some v1" "loadable T f1 v1" and v2: "num_val T M f2 = Some v2" "loadable T f2 v2"
  shows "\<exists>c N' g1 g2. cob_numeric_cmp T E M N f1 f2 = Some (c, N', g1, g2) \<and> same_shape f1 g1 \<and> same_shape f2 g2 \<and>
    num_val T M g1 = Some v1 \<and> num_val T M g2 = Some v2 \<and>
    (c < 0 \<longleftrightarrow> item_rat f1 v1 < item_rat f2 v2) \<and> (c = 0 \<longleftrightarrow> item_rat f1 v1 = item_rat f2 v2)"
proof -
  obtain h1 where h1: "cob_decimal_set_field T E M (cob_d1 N) f1 = Some (mkdec v1 (field_scale f1), h1)"
    "same_shape f1 h1" "num_val T M h1 = Some v1" using set_field_num [OF v1] by blast
  obtain h2 where h2: "cob_decimal_set_field T E M (cob_d2 N) f2 = Some (mkdec v2 (field_scale f2), h2)"
    "same_shape f2 h2" "num_val T M h2 = Some v2" using set_field_num [OF v2] by blast
  obtain c a b where c: "cob_decimal_cmp (mkdec v1 (field_scale f1)) (mkdec v2 (field_scale f2)) = (c, a, b)"
    using prod_cases3 by blast
  then show ?thesis using h1 h2 cob_decimal_cmp_rat [OF c]
    by (auto simp: cob_numeric_cmp_def item_rat_def Let_def)
qed

lemma cmp_int_num:
  assumes v: "num_val T M f = Some v" "loadable T f v"
  shows "- (2 ^ 31) \<le> n \<Longrightarrow> n < 2 ^ 31 \<Longrightarrow> \<exists>c N' g. cob_cmp_int T E M N f n = Some (c, N', g) \<and> num_val T M g = Some v \<and>
      (c < 0 \<longleftrightarrow> item_rat f v < of_int n) \<and> (c = 0 \<longleftrightarrow> item_rat f v = of_int n)"
    and "0 \<le> n \<Longrightarrow> n < 2 ^ 32 \<Longrightarrow> \<exists>c N' g. cob_cmp_uint T E M N f n = Some (c, N', g) \<and> num_val T M g = Some v \<and>
      (c < 0 \<longleftrightarrow> item_rat f v < of_int n) \<and> (c = 0 \<longleftrightarrow> item_rat f v = of_int n)"
proof -
  obtain h where h: "cob_decimal_set_field T E M (cob_d1 N) f = Some (mkdec v (field_scale f), h)"
    "num_val T M h = Some v" using set_field_num [OF v] by blast
  have w: "\<exists>c N' g. cmp_with T E M N f n = Some (c, N', g) \<and> num_val T M g = Some v \<and>
      (c < 0 \<longleftrightarrow> item_rat f v < of_int n) \<and> (c = 0 \<longleftrightarrow> item_rat f v = of_int n)" for n
  proof -
    obtain c a b where c: "cob_decimal_cmp (mkdec v (field_scale f)) (mkdec n 0) = (c, a, b)" using prod_cases3 by blast
    have "dec_rat (mkdec n 0) = of_int n" by (simp add: dec_rat_def)
    then show ?thesis using h cob_decimal_cmp_rat [OF c] by (auto simp: cmp_with_def item_rat_def Let_def c)
  qed
  show "- (2 ^ 31) \<le> n \<Longrightarrow> n < 2 ^ 31 \<Longrightarrow> \<exists>c N' g. cob_cmp_int T E M N f n = Some (c, N', g) \<and> num_val T M g = Some v \<and>
      (c < 0 \<longleftrightarrow> item_rat f v < of_int n) \<and> (c = 0 \<longleftrightarrow> item_rat f v = of_int n)"
    using w [of n] by (simp add: cob_cmp_int_def i32_id)
  show "0 \<le> n \<Longrightarrow> n < 2 ^ 32 \<Longrightarrow> \<exists>c N' g. cob_cmp_uint T E M N f n = Some (c, N', g) \<and> num_val T M g = Some v \<and>
      (c < 0 \<longleftrightarrow> item_rat f v < of_int n) \<and> (c = 0 \<longleftrightarrow> item_rat f v = of_int n)"
    using w [of n] by (simp add: cob_cmp_uint_def u32_id)
qed


section \<open>DIVIDE: rounding a truncated quotient\<close>

lemma floor_div_nat: "0 < b \<Longrightarrow> \<lfloor>(y :: rat) / of_int b\<rfloor> = \<lfloor>y\<rfloor> div b"
proof -
  assume b: "0 < b"
  let ?m = "\<lfloor>y\<rfloor> div b"
  have m: "?m * b \<le> \<lfloor>y\<rfloor>" "\<lfloor>y\<rfloor> < (?m + 1) * b"
  proof -
    have "\<lfloor>y\<rfloor> = ?m * b + \<lfloor>y\<rfloor> mod b" "0 \<le> \<lfloor>y\<rfloor> mod b" "\<lfloor>y\<rfloor> mod b < b" using b by simp_all
    then show "?m * b \<le> \<lfloor>y\<rfloor>" "\<lfloor>y\<rfloor> < (?m + 1) * b" unfolding distrib_right by linarith+
  qed
  have "of_int (?m * b) \<le> y" "y < of_int ((?m + 1) * b)"
    using m by (simp_all only: le_floor_iff floor_less_iff)
  then have "of_int ?m * of_int b \<le> y" "y < (of_int ?m + 1) * of_int b" by simp_all
  then have "of_int ?m \<le> y / of_int b" "y / of_int b < of_int ?m + 1"
    using b by (simp_all only: pos_le_divide_eq pos_divide_less_eq of_int_0_less_iff)
  then show ?thesis by (rule floor_unique)
qed

lemma rounded_units:
  assumes "S - s = int (Suc m)" "\<bar>x\<bar> * 10 powi S = y"
  shows "rounded x s opt =
    (let a = (\<lfloor>y\<rfloor> + (if opt_set opt COB_STORE_ROUND then 5 * 10 ^ m else 0)) div 10 ^ Suc m in if x < 0 then - a else a)"
proof -
  let ?h = "if opt_set opt COB_STORE_ROUND then 5 * 10 ^ m else (0 :: int)"
  have e: "(10::rat) powi S = 10 powi s * 10 ^ Suc m"
  proof -
    have "S = s + int (Suc m)" using assms(1) by simp
    then show ?thesis by (simp only: power_int_10_split power_int_of_nat)
  qed
  have ab: "\<bar>x * 10 powi s\<bar> = y / of_int (10 ^ Suc m)"
    unfolding assms(2) [symmetric] e using powi_pos [of s] by (simp add: abs_mult)
  have h: "(if opt_set opt COB_STORE_ROUND then 1 / 2 else 0) = (of_int ?h :: rat) / of_int (10 ^ Suc m)" by simp
  have "\<bar>x * 10 powi s\<bar> + (if opt_set opt COB_STORE_ROUND then 1 / 2 else 0) = (y + of_int ?h) / of_int (10 ^ Suc m)"
    unfolding ab h by (simp only: add_divide_distrib)
  then have "\<lfloor>\<bar>x * 10 powi s\<bar> + (if opt_set opt COB_STORE_ROUND then 1 / 2 else 0)\<rfloor> = (\<lfloor>y\<rfloor> + ?h) div 10 ^ Suc m"
    by (simp only: floor_div_nat zero_less_power zero_less_numeral floor_add_int)
  moreover have "\<not> (10::rat) powi s < 0" using powi_pos [of s] by (simp only: not_less order.strict_implies_order)
  then have "x * 10 powi s < 0 \<longleftrightarrow> x < 0" using powi_pos [of s] unfolding mult_less_0_iff by blast
  ultimately show ?thesis unfolding rounded_def Let_def by (simp only:)
qed

lemma rounded_truncated:
  assumes s: "s < dscale q" and near: "\<bar>x - dec_rat q\<bar> < 10 powi (- dscale q)" and below: "\<bar>dec_rat q\<bar> \<le> \<bar>x\<bar>"
  shows "rounded (dec_rat q) s opt = rounded x s opt"
proof -
  let ?S = "dscale q" let ?k = "dvalue q" let ?p = "(10::rat) powi ?S" let ?i = "(10::rat) powi (- ?S)"
  define m where "m = nat (?S - s) - 1"
  have m: "?S - s = int (Suc m)" using s by (simp add: m_def)
  have pi: "?i * ?p = 1" "0 < ?p" "0 < ?i" using power_int_10_split [of "- ?S" ?S] powi_pos by simp_all
  have q: "dec_rat q = of_int ?k * ?i" by (simp add: dec_rat_def)
  have qy: "\<bar>dec_rat q\<bar> * ?p = of_int \<bar>?k\<bar>"
    unfolding q abs_mult using pi by (simp add: mult.assoc)
  let ?y = "\<bar>x\<bar> * ?p"
  have fl: "\<lfloor>?y\<rfloor> = \<bar>?k\<bar>"
  proof (rule floor_unique)
    show "of_int \<bar>?k\<bar> \<le> ?y" unfolding qy [symmetric] using below pi by (intro mult_right_mono) simp_all
    have "\<bar>x\<bar> < \<bar>dec_rat q\<bar> + ?i" using near by linarith
    then have "?y < (\<bar>dec_rat q\<bar> + ?i) * ?p" using pi(2) by (rule mult_strict_right_mono)
    then show "?y < of_int \<bar>?k\<bar> + 1" unfolding distrib_right qy pi(1) .
  qed
  let ?h = "if opt_set opt COB_STORE_ROUND then 5 * 10 ^ m else (0 :: int)"
  let ?a = "(\<bar>?k\<bar> + ?h) div 10 ^ Suc m"
  have r: "rounded x s opt = (if x < 0 then - ?a else ?a)" "rounded (dec_rat q) s opt = (if dec_rat q < 0 then - ?a else ?a)"
    using rounded_units [OF m refl, of x opt] rounded_units [OF m qy, of opt] unfolding fl floor_of_int Let_def .
  show ?thesis
  proof (cases "?k = 0")
    case True
    have "?h < 10 ^ Suc m" by simp
    moreover have "0 \<le> ?h" by simp
    ultimately have "?a = 0" unfolding True by (simp only: abs_zero add_0 div_pos_pos_trivial)
    then show ?thesis unfolding r by simp
  next
    case False
    then have "1 * ?i \<le> of_int \<bar>?k\<bar> * ?i" using pi(3) by (intro mult_right_mono) simp_all
    then have "?i \<le> \<bar>dec_rat q\<bar>" unfolding q abs_mult using pi(3) by simp
    then have "x < 0 \<longleftrightarrow> dec_rat q < 0" using near pi(3) by linarith
    then show ?thesis unfolding r by simp
  qed
qed


lemma dec_rat_shift_down:
  assumes "scale < dscale d"
  shows "dec_rat (shift_decimal d (scale - dscale d)) = of_int (rounded (dec_rat d) scale 0) * 10 powi (- scale)"
proof -
  have "shift_decimal d (scale - dscale d) = round_decimal scale 0 d"
    by (simp add: round_decimal_def opt_set_def)
  moreover have "dvalue (round_decimal scale 0 d) = rounded (dec_rat d) scale 0" by (rule round_decimal_rounded)
  ultimately show ?thesis by (simp add: dec_rat_def [of "round_decimal scale 0 d"])
qed

lemma rounded_zero [simp]: "rounded 0 s opt = 0"
  by (simp add: rounded_def Let_def floor_eq_iff)

text \<open>A quotient in decimals and how the later steps use it.\<close>

lemma quotient_rounds:
  assumes n: "\<not> decimal_nan d1 d2" "dvalue d2 \<noteq> 0" and q: "cob_decimal_div R d1 d2 = (R', q)" and s: "s < 37"
  shows "R' = R" "dscale q \<noteq> DECIMAL_NAN" "rounded (dec_rat q) s opt = rounded (dec_rat d1 / dec_rat d2) s opt"
    "dec_rat (shift_decimal q (s - dscale q)) = of_int (rounded (dec_rat d1 / dec_rat d2) s 0) * 10 powi (- s)"
proof -
  have "R' = R \<and> dscale q \<noteq> DECIMAL_NAN \<and> (\<forall>opt. rounded (dec_rat q) s opt = rounded (dec_rat d1 / dec_rat d2) s opt) \<and>
    dec_rat (shift_decimal q (s - dscale q)) = of_int (rounded (dec_rat d1 / dec_rat d2) s 0) * 10 powi (- s)"
  proof (cases "dvalue d1 = 0")
    case True
    then have "R' = R" "q = d1\<lparr>dscale := 0\<rparr>" using n q by (simp_all add: cob_decimal_div_def)
    moreover have "dec_rat d1 = 0" using True by (simp add: dec_rat_def)
    moreover have "dec_rat (shift_decimal q (s - dscale q)) = 0"
      using True calculation(2) by (simp add: shift_decimal_def dec_rat_def)
    ultimately show ?thesis using True by (simp add: dec_rat_def DECIMAL_NAN_def)
  next
    case False
    note sc = cob_decimal_div_scale [OF n(1) False n(2) q] and b = cob_decimal_div_bound [OF n(1) False n(2) q]
    have lt: "s < dscale q" using sc(1) s by simp
    have r: "rounded (dec_rat q) s opt = rounded (dec_rat d1 / dec_rat d2) s opt" for opt by (rule rounded_truncated [OF lt b])
    have "dscale q \<noteq> DECIMAL_NAN" using sc(1) by (simp add: DECIMAL_NAN_def)
    then show ?thesis using sc(2) r dec_rat_shift_down [OF lt] by simp
  qed
  then show "R' = R" "dscale q \<noteq> DECIMAL_NAN" "rounded (dec_rat q) s opt = rounded (dec_rat d1 / dec_rat d2) s opt"
    "dec_rat (shift_decimal q (s - dscale q)) = of_int (rounded (dec_rat d1 / dec_rat d2) s 0) * 10 powi (- s)" by simp_all
qed

lemma div_quotient_num:
  fixes R :: cob_rt
  assumes v1: "num_val T M f1 = Some v1" "loadable T f1 v1" and v2: "num_val T M f2 = Some v2" "loadable T f2 v2" "v2 \<noteq> 0"
    and sc: "field_scale f1 > - 128" "field_scale f2 \<noteq> - 128" "- 128 < field_scale q + field_scale f2" "field_scale q \<noteq> - 128" "field_scale q < 37"
    and st: "storable T q" and v: "v = rounded (item_rat f1 v1 / item_rat f2 v2) (field_scale q) opt"
    and room: "\<bar>v\<bar> < 10 ^ (num_buff_size - 1)" and k: "opt_set opt COB_STORE_KEEP_ON_OVERFLOW \<or> field_fits M q opt v"
  shows "\<exists>r R' N' g1 g2 g. cob_div_quotient R T E M N f1 f2 q opt = Some (r, R', N', g1, g2, g) \<and>
    stored T M R q opt v r R' g \<and> dscale (cob_d3 N') \<noteq> DECIMAL_NAN \<and>
    dec_rat (cob_d3 N') = item_rat f1 v1 -
      of_int (rounded (item_rat f1 v1 / item_rat f2 v2) (field_scale q) 0) * 10 powi (- field_scale q) * item_rat f2 v2"
proof -
  let ?d1 = "mkdec v1 (field_scale f1)" let ?d2 = "mkdec v2 (field_scale f2)"
  obtain h1 where h1: "cob_decimal_set_field T E M (cob_d1 N) f1 = Some (?d1, h1)" using set_field_num [OF v1] by blast
  obtain h2 where h2: "cob_decimal_set_field T E M (cob_d2 N) f2 = Some (?d2, h2)" using set_field_num [OF v2(1,2)] by blast
  have nn: "\<not> decimal_nan ?d1 ?d2" by (rule not_nan_mkdec) (use sc in simp_all)
  obtain R1 e where e: "cob_decimal_div R ?d1 ?d2 = (R1, e)" by fastforce
  have "dvalue ?d2 \<noteq> 0" using v2(3) by simp
  note qr = quotient_rounds [OF nn this e sc(5)]
  let ?N = "N\<lparr>cob_d1 := e, cob_d2 := ?d2\<rparr>"
  have ve: "v = rounded (dec_rat e) (field_scale q) opt" unfolding qr(3) v item_rat_def ..
  obtain r R' g where g: "cob_decimal_get_field R T E M ?N e q opt =
      Some (r, R', ?N\<lparr>cob_d1 := round_decimal (field_scale q) opt e\<rparr>, g)" "stored T M R q opt v r R' g"
    using get_field_num [OF st qr(2) ve room k, of R E ?N] by blast
  have sq: "field_scale g = field_scale q"
    using g(2) k same_shape_sel(1) [of q g] unfolding stored_def by auto
  define d4 where "d4 = shift_decimal e (field_scale q - dscale e)"
  have d4: "dscale d4 = field_scale q" by (simp add: d4_def)
  have nn4: "\<not> decimal_nan d4 ?d2" using sc d4 nn st by (auto simp: decimal_nan_def DECIMAL_NAN_def)
  define d5 where "d5 = cob_decimal_mul d4 ?d2"
  have d5: "dec_rat d5 = dec_rat d4 * dec_rat ?d2" "dscale d5 = field_scale q + field_scale f2"
    using cob_decimal_mul_exact [OF nn4] nn4 d4 by (simp_all add: d5_def cob_decimal_mul_def)
  have nn5: "\<not> decimal_nan ?d1 d5" using sc d5(2) by (simp add: decimal_nan_def DECIMAL_NAN_def)
  obtain d6 d7 where d6: "cob_decimal_sub ?d1 d5 = (d6, d7)" by fastforce
  note sub = cob_decimal_sub_exact [OF nn5 d6]
  have nan6: "dscale d6 \<noteq> DECIMAL_NAN" using sub(2) sc(1) by (simp add: DECIMAL_NAN_def)
  have res: "cob_div_quotient R T E M N f1 f2 q opt =
      Some (r, R', ?N\<lparr>cob_d1 := round_decimal (field_scale q) opt e\<rparr>\<lparr>cob_d3 := d6, cob_d4 := d7\<rparr>, h1, h2, g)"
    unfolding cob_div_quotient_def h1 h2 bind.bind_lunit prod.case e Let_def if_not_P [OF qr(2)]
      qr(1) g(1) sq d4_def [symmetric] d5_def [symmetric] d6 ..
  have "dec_rat d6 = item_rat f1 v1 -
      of_int (rounded (item_rat f1 v1 / item_rat f2 v2) (field_scale q) 0) * 10 powi (- field_scale q) * item_rat f2 v2"
    unfolding sub(1) d5(1) d4_def qr(4) item_rat_def ..
  then show ?thesis using res g(2) nan6 by auto
qed

end
