(* ===== verification/Cob_Common.thy ===== *)
theory Cob_Common
  imports Cob_Numeric "HOL-Library.List_Lexorder" "HOL-Library.Multiset"
begin

text \<open>
  The rest of common.c that computes: alphanumeric comparison with a collating sequence, the
  general comparison \<open>cob_cmp\<close>, the comparison of table elements for SORT, class
  conditions, the run-time checks, the switches, the bit-string routines and the text
  routines called by name.

  \<open>qsort\<close> belongs to the C library; what it needs of \<open>sort_compare\<close> is proved here. The
  check \<open>COB_CHK_PARMS\<close> of the number of arguments is taken to have passed. A collating
  sequence has 256 entries.
\<close>

section \<open>Comparing characters\<close>

definition collate :: "bytes option \<Rightarrow> u8 \<Rightarrow> int" where
  "collate col b = (case col of None \<Rightarrow> uint b | Some s \<Rightarrow> uint (s ! unat b))"

fun common_cmpc :: "bytes option \<Rightarrow> bytes \<Rightarrow> u8 \<Rightarrow> int" where
  "common_cmpc col [] c = 0"
| "common_cmpc col (b # s1) c =
    (let ret = collate col b - collate col c in if ret \<noteq> 0 then ret else common_cmpc col s1 c)"

text \<open>The strings have equal lengths.\<close>

fun common_cmps :: "bytes option \<Rightarrow> bytes \<Rightarrow> bytes \<Rightarrow> int" where
  "common_cmps col (a # s1) (b # s2) =
    (let ret = collate col a - collate col b in if ret \<noteq> 0 then ret else common_cmps col s1 s2)"
| "common_cmps col _ _ = 0"

text \<open>A packed item lost no sign when it was read, and gets none back.\<close>

definition restore_sign :: "cob_module \<Rightarrow> cob_field \<Rightarrow> int \<Rightarrow> cob_field option" where
  "restore_sign M f sign = (if field_type f = COB_TYPE_NUMERIC_PACKED then Some f else cob_put_sign M f sign)"

definition cob_cmp_char :: "cob_module \<Rightarrow> cob_field \<Rightarrow> u8 \<Rightarrow> (int \<times> cob_field) option" where
  "cob_cmp_char M f c = do {
     (sign, f) \<leftarrow> cob_get_sign M f;
     let ret = common_cmpc (collating_sequence M) (fdata f) c;
     f \<leftarrow> restore_sign M f sign;
     Some (ret, f) }"

text \<open>An empty pattern would keep the loop from ending.\<close>

function cmp_all_loop :: "bytes option \<Rightarrow> bytes \<Rightarrow> bytes \<Rightarrow> int" where
  "cmp_all_loop col data pat =
    (if pat \<noteq> [] \<and> length pat \<le> length data then
       let ret = common_cmps col (take (length pat) data) pat in
       if ret \<noteq> 0 then ret else cmp_all_loop col (drop (length pat) data) pat
     else common_cmps col data (take (length data) pat))"
  by auto

termination
  by (relation "measure (\<lambda>(col, data, pat). length data)") (auto simp: neq_Nil_conv)

declare cmp_all_loop.simps [simp del]

definition cob_cmp_all :: "cob_module \<Rightarrow> cob_field \<Rightarrow> cob_field \<Rightarrow> (int \<times> cob_field) option" where
  "cob_cmp_all M f1 f2 = do {
     (sign, f1) \<leftarrow> cob_get_sign M f1;
     ret \<leftarrow> (if fdata f2 = [] then None else Some (cmp_all_loop (collating_sequence M) (fdata f1) (fdata f2)));
     f1 \<leftarrow> restore_sign M f1 sign;
     Some (ret, f1) }"

definition alnum_order :: "bytes option \<Rightarrow> bytes \<Rightarrow> bytes \<Rightarrow> int" where
  "alnum_order col d1 d2 =
    (let m = min (length d1) (length d2); ret = common_cmps col (take m d1) (take m d2) in
     if ret \<noteq> 0 then ret
     else if length d1 > length d2 then common_cmpc col (drop m d1) chr_space
     else if length d1 < length d2 then - common_cmpc col (drop m d2) chr_space
     else 0)"

definition cob_cmp_alnum :: "cob_module \<Rightarrow> cob_field \<Rightarrow> cob_field \<Rightarrow> (int \<times> cob_field \<times> cob_field) option" where
  "cob_cmp_alnum M f1 f2 = do {
     (sign1, f1) \<leftarrow> cob_get_sign M f1;
     (sign2, f2) \<leftarrow> cob_get_sign M f2;
     let ret = alnum_order (collating_sequence M) (fdata f1) (fdata f2);
     f1 \<leftarrow> restore_sign M f1 sign1;
     f2 \<leftarrow> restore_sign M f2 sign2;
     Some (ret, f1, f2) }"

text \<open>
  \<open>cob_cmp\<close>. \<open>z1\<close> and \<open>z2\<close> say whether an operand is the object \<open>cob_zero\<close>. A numeric
  operand of another usage is moved to an unsigned DISPLAY item of its digits first.
\<close>

definition alnum_operand ::
  "target \<Rightarrow> fp_env \<Rightarrow> cob_module \<Rightarrow> cob_field \<Rightarrow> (cob_field \<times> cob_field) option" where
  "alnum_operand T E M f =
    (if field_is_numeric f \<and> field_type f \<noteq> COB_TYPE_NUMERIC_DISPLAY then
       if 48 < field_digits f then None
       else cob_move T E M f (cob_fld COB_TYPE_NUMERIC_DISPLAY (field_digits f) (field_scale f)
         (attr_flags (fattr f) AND NOT COB_FLAG_HAVE_SIGN) (field_pic f) (replicate (field_digits f) 0))
     else Some (f, f))"

definition cob_cmp ::
  "target \<Rightarrow> fp_env \<Rightarrow> cob_module \<Rightarrow> cob_accs \<Rightarrow> bool \<Rightarrow> cob_field \<Rightarrow> bool \<Rightarrow> cob_field \<Rightarrow>
   (int \<times> cob_accs \<times> cob_field \<times> cob_field) option" where
  "cob_cmp T E M N z1 f1 z2 f2 =
    (if field_is_numeric f1 \<and> field_is_numeric f2 then cob_numeric_cmp T E M N f1 f2
     else if field_type f2 = COB_TYPE_ALPHANUMERIC_ALL then
       if z2 \<and> field_is_numeric f1 then map_option (\<lambda>(c, N, f1). (c, N, f1, f2)) (cob_cmp_int T E M N f1 0)
       else if fsize f2 = 1 then map_option (\<lambda>(c, f1). (c, N, f1, f2)) (cob_cmp_char M f1 (fdata f2 ! 0))
       else map_option (\<lambda>(c, f1). (c, N, f1, f2)) (cob_cmp_all M f1 f2)
     else if field_type f1 = COB_TYPE_ALPHANUMERIC_ALL then
       if z1 \<and> field_is_numeric f2 then map_option (\<lambda>(c, N, f2). (- c, N, f1, f2)) (cob_cmp_int T E M N f2 0)
       else if fsize f1 = 1 then map_option (\<lambda>(c, f2). (- c, N, f1, f2)) (cob_cmp_char M f2 (fdata f1 ! 0))
       else map_option (\<lambda>(c, f2). (- c, N, f1, f2)) (cob_cmp_all M f2 f1)
     else do {
       (g1, t1) \<leftarrow> alnum_operand T E M f1;
       (g2, t2) \<leftarrow> alnum_operand T E M f2;
       (c, h1, h2) \<leftarrow> cob_cmp_alnum M t1 t2;
       let own = (\<lambda>f. \<not> field_is_numeric f \<or> field_type f = COB_TYPE_NUMERIC_DISPLAY);
       Some (c, N, if own f1 then h1 else g1, if own f2 then h2 else g2) })"

section \<open>Class conditions\<close>

definition pk_digit_byte :: "u8 \<Rightarrow> bool" where
  "pk_digit_byte b \<longleftrightarrow> b AND 0xf0 \<le> 0x90 \<and> b AND 0x0f \<le> 0x09"

definition packed_class :: "cob_field \<Rightarrow> bool option" where
  "packed_class f =
    (if fdata f = [] then None
     else if \<not> list_all pk_digit_byte (butlast (fdata f)) then Some False
     else let b = last (fdata f); sign = b AND 0x0f in
       if b AND 0xf0 > 0x90 then Some False
       else Some (sign = 0x0f \<or> have_sign f \<and> (sign = 0x0c \<or> sign = 0x0d)))"

definition cob_is_numeric :: "cob_module \<Rightarrow> cob_field \<Rightarrow> (bool \<times> cob_field) option" where
  "cob_is_numeric M f =
    (case field_type f of
       COB_TYPE_NUMERIC_BINARY \<Rightarrow> Some (True, f)
     | COB_TYPE_NUMERIC_FLOAT \<Rightarrow> Some (True, f)
     | COB_TYPE_NUMERIC_DOUBLE \<Rightarrow> Some (True, f)
     | COB_TYPE_NUMERIC_PACKED \<Rightarrow> map_option (\<lambda>r. (r, f)) (packed_class f)
     | COB_TYPE_NUMERIC_DISPLAY \<Rightarrow> do {
         (sign, f) \<leftarrow> cob_get_sign M f;
         let r = all_digits (field_bytes f);
         f \<leftarrow> cob_put_sign M f sign;
         Some (r, f) }
     | _ \<Rightarrow> Some (all_digits (fdata f), f))"

definition cob_is_alpha :: "cob_field \<Rightarrow> bool" where
  "cob_is_alpha f = list_all (\<lambda>b. isspace b \<or> isalpha b) (fdata f)"

definition cob_is_upper :: "cob_field \<Rightarrow> bool" where
  "cob_is_upper f = list_all (\<lambda>b. isspace b \<or> isupper b) (fdata f)"

definition cob_is_lower :: "cob_field \<Rightarrow> bool" where
  "cob_is_lower f = list_all (\<lambda>b. isspace b \<or> islower b) (fdata f)"

section \<open>SORT of a table\<close>

record sort_key =
  sk_ascending :: bool
  sk_field :: cob_field
  sk_offset :: nat

fun sort_compare ::
  "target \<Rightarrow> fp_env \<Rightarrow> cob_module \<Rightarrow> cob_accs \<Rightarrow> bytes option \<Rightarrow> sort_key list \<Rightarrow> bytes \<Rightarrow> bytes \<Rightarrow>
   (int \<times> cob_accs \<times> bytes \<times> bytes) option" where
  "sort_compare T E M N col [] e1 e2 = Some (0, N, e1, e2)"
| "sort_compare T E M N col (k # ks) e1 e2 = do {
     d1 \<leftarrow> rds e1 (sk_offset k) (fsize (sk_field k));
     d2 \<leftarrow> rds e2 (sk_offset k) (fsize (sk_field k));
     let f1 = set_data (sk_field k) d1;
     let f2 = set_data (sk_field k) d2;
     (cmp, N, f1, f2) \<leftarrow> (if field_is_numeric f1 then cob_numeric_cmp T E M N f1 f2
       else Some (common_cmps col (fdata f1) (fdata f2), N, f1, f2));
     e1 \<leftarrow> wrs e1 (sk_offset k) (fdata f1);
     e2 \<leftarrow> wrs e2 (sk_offset k) (fdata f2);
     if cmp \<noteq> 0 then Some (if sk_ascending k then cmp else - cmp, N, e1, e2)
     else sort_compare T E M N col ks e1 e2 }"

record sort_state =
  sort_keys :: "sort_key list"
  sort_collate :: "bytes option"

definition cob_table_sort_init :: "cob_module \<Rightarrow> bytes option \<Rightarrow> sort_state" where
  "cob_table_sort_init M col = \<lparr>sort_keys = [],
     sort_collate = (case col of Some c \<Rightarrow> Some c | None \<Rightarrow> collating_sequence M)\<rparr>"

definition cob_table_sort_init_key :: "sort_state \<Rightarrow> bool \<Rightarrow> cob_field \<Rightarrow> nat \<Rightarrow> sort_state" where
  "cob_table_sort_init_key S flag f off =
     S\<lparr>sort_keys := sort_keys S @ [\<lparr>sk_ascending = flag, sk_field = f, sk_offset = off\<rparr>]\<rparr>"

text \<open>
  The table starts with the first element, \<open>f\<close>; \<open>tab\<close> is its whole storage and \<open>qsort\<close> the
  function of the C library, which calls the comparison on pairs of elements.
\<close>

definition cob_table_sort ::
  "((bytes \<Rightarrow> bytes \<Rightarrow> int) \<Rightarrow> bytes list \<Rightarrow> bytes list) \<Rightarrow> target \<Rightarrow> fp_env \<Rightarrow> cob_module \<Rightarrow> cob_accs \<Rightarrow>
   sort_state \<Rightarrow> nat \<Rightarrow> nat \<Rightarrow> bytes \<Rightarrow> bytes option" where
  "cob_table_sort qsort T E M N S width n tab = do {
     let cmp = (\<lambda>a b. case sort_compare T E M N (sort_collate S) (sort_keys S) a b of
                        None \<Rightarrow> 0 | Some (c, _) \<Rightarrow> c);
     area \<leftarrow> rds tab 0 (n * width);
     wrs tab 0 (concat (qsort cmp (map (\<lambda>i. take width (drop (i * width) area)) [0..<n]))) }"

section \<open>Facts: the order of characters\<close>

definition fill :: "nat \<Rightarrow> bytes \<Rightarrow> bytes" where
  "fill n d = d @ replicate (n - length d) chr_space"

lemma common_cmps_same [simp]: "common_cmps col xs xs = 0"
  by (induction xs) simp_all

lemma common_cmps_append:
  "length xs = length ys \<Longrightarrow>
   common_cmps col (xs @ us) (ys @ vs) =
     (if common_cmps col xs ys \<noteq> 0 then common_cmps col xs ys else common_cmps col us vs)"
  by (induction xs ys rule: list_induct2) (auto simp: Let_def)

lemma common_cmpc_replicate: "common_cmpc col xs c = common_cmps col xs (replicate (length xs) c)"
  by (induction xs) (simp_all add: Let_def)

lemma common_cmps_minus: "common_cmps col xs ys = - common_cmps col ys xs"
  by (induction col xs ys rule: common_cmps.induct) (auto simp: Let_def)

lemma common_cmps_order:
  "length xs = length ys \<Longrightarrow>
   (common_cmps col xs ys < 0 \<longleftrightarrow> map (collate col) xs < map (collate col) ys) \<and>
   (common_cmps col xs ys = 0 \<longleftrightarrow> map (collate col) xs = map (collate col) ys)"
  by (induction xs ys rule: list_induct2) (auto simp: Let_def)

lemma alnum_order_fill:
  "alnum_order col d1 d2 = common_cmps col (fill (max (length d1) (length d2)) d1) (fill (max (length d1) (length d2)) d2)"
proof -
  have split: "d = take m d @ drop m d" for m and d :: bytes by simp
  consider (lt) "length d1 < length d2" | (eq) "length d1 = length d2" | (gt) "length d1 > length d2" by linarith
  then show ?thesis
  proof cases
    case lt
    have "common_cmps col (fill (length d2) d1) d2 = common_cmps col (d1 @ replicate (length d2 - length d1) chr_space)
       (take (length d1) d2 @ drop (length d1) d2)" by (simp add: fill_def)
    also have "\<dots> = (if common_cmps col d1 (take (length d1) d2) \<noteq> 0 then common_cmps col d1 (take (length d1) d2)
       else common_cmps col (replicate (length d2 - length d1) chr_space) (drop (length d1) d2))"
      using lt by (intro common_cmps_append) simp
    finally show ?thesis
      using lt by (simp add: alnum_order_def fill_def Let_def common_cmpc_replicate
          common_cmps_minus [of col "replicate _ _"])
  next
    case eq
    then show ?thesis by (simp add: alnum_order_def fill_def Let_def)
  next
    case gt
    have "common_cmps col d1 (fill (length d1) d2) = common_cmps col (take (length d2) d1 @ drop (length d2) d1)
       (d2 @ replicate (length d1 - length d2) chr_space)" by (simp add: fill_def)
    also have "\<dots> = (if common_cmps col (take (length d2) d1) d2 \<noteq> 0 then common_cmps col (take (length d2) d1) d2
       else common_cmps col (drop (length d2) d1) (replicate (length d1 - length d2) chr_space))"
      using gt by (intro common_cmps_append) simp
    finally show ?thesis
      using gt by (simp add: alnum_order_def fill_def Let_def common_cmpc_replicate)
  qed
qed

lemma cmp_all_loop_repeat:
  "pat \<noteq> [] \<Longrightarrow> cmp_all_loop col d pat = common_cmps col d (take (length d) (concat (replicate (length d) pat)))"
proof (induction col d pat rule: cmp_all_loop.induct)
  case (1 col d pat)
  let ?m = "length pat"
  show ?case
  proof (cases "?m \<le> length d")
    case True
    then obtain j where j: "length d = Suc j" using \<open>pat \<noteq> []\<close> by (cases d; cases pat) auto
    let ?r = "concat (replicate j pat)"
    have less: "length d - ?m \<le> j" using \<open>pat \<noteq> []\<close> j by (cases pat) auto
    have len: "j \<le> length ?r" using \<open>pat \<noteq> []\<close> by (induction j) (auto simp: neq_Nil_conv)
    have cut: "take k (concat (replicate i pat)) = take k (concat (replicate j pat))" if "k \<le> i" "i \<le> j" for i k
    proof -
      have "replicate j pat = replicate i pat @ replicate (j - i) pat"
        using that by (simp flip: replicate_add)
      moreover have "i \<le> length (concat (replicate i pat))" using \<open>pat \<noteq> []\<close>
        by (induction i) (auto simp: neq_Nil_conv)
      ultimately show ?thesis using that by simp
    qed
    have "common_cmps col d (take (length d) (concat (replicate (length d) pat))) =
       common_cmps col (take ?m d @ drop ?m d) (pat @ take (length d - ?m) ?r)"
      using True j by simp
    also have "\<dots> = (if common_cmps col (take ?m d) pat \<noteq> 0 then common_cmps col (take ?m d) pat
         else common_cmps col (drop ?m d) (take (length d - ?m) ?r))"
      using True by (intro common_cmps_append) simp
    also have "take (length d - ?m) ?r = take (length d - ?m) (concat (replicate (length d - ?m) pat))"
      using cut [of "length d - ?m" "length d - ?m"] less by simp
    finally show ?thesis
      using 1 True by (subst cmp_all_loop.simps) (simp add: Let_def)
  next
    case False
    then have "take (length d) (concat (replicate (length d) pat)) = take (length d) pat"
      by (cases d) simp_all
    then show ?thesis using False by (subst cmp_all_loop.simps) simp
  qed
qed

lemma unsigned_sign [simp]:
  "\<not> have_sign f \<Longrightarrow> cob_get_sign M f = Some (0, f)" "\<not> have_sign f \<Longrightarrow> cob_put_sign M f s = Some f"
  "\<not> have_sign f \<Longrightarrow> restore_sign M f s = Some f"
  by (simp_all add: cob_get_sign_def cob_put_sign_def restore_sign_def)

text \<open>
  What an alphanumeric operand compares as: an item or literal as its characters, \<open>ALL\<close>
  literals and figurative constants repeated to the size of the other operand.
\<close>

definition char_operand :: "cob_field \<Rightarrow> bool" where
  "char_operand f \<longleftrightarrow> \<not> have_sign f \<and> (\<not> field_is_numeric f \<or> field_type f = COB_TYPE_NUMERIC_DISPLAY)"

lemma char_operand_alnum [simp]: "char_operand f \<Longrightarrow> alnum_operand T E M f = Some (f, f)"
  by (auto simp: char_operand_def alnum_operand_def)

lemma cob_cmp_items:
  assumes "char_operand f1" "char_operand f2" "field_type f1 \<noteq> COB_TYPE_ALPHANUMERIC_ALL"
    "field_type f2 \<noteq> COB_TYPE_ALPHANUMERIC_ALL" "\<not> (field_is_numeric f1 \<and> field_is_numeric f2)"
  shows "cob_cmp T E M N z1 f1 z2 f2 = Some (alnum_order (collating_sequence M) (fdata f1) (fdata f2), N, f1, f2)"
  using assms by (auto simp: cob_cmp_def cob_cmp_alnum_def char_operand_def alnum_operand_def)

lemma cob_cmp_figurative:
  assumes "char_operand f1" "fdata f2 \<noteq> []" "field_type f2 = COB_TYPE_ALPHANUMERIC_ALL" "\<not> z2 \<or> \<not> field_is_numeric f1"
  shows "cob_cmp T E M N z1 f1 z2 f2 = Some (common_cmps (collating_sequence M) (fdata f1)
     (take (fsize f1) (concat (replicate (fsize f1) (fdata f2)))), N, f1, f2)"
proof -
  have n2: "\<not> field_is_numeric f2" using assms by (simp add: field_is_numeric_def)
  have s: "\<not> have_sign f1" using assms by (simp add: char_operand_def)
  have "cob_cmp_char M f1 (fdata f2 ! 0) = Some (cmp_all_loop (collating_sequence M) (fdata f1) (fdata f2), f1)"
    if "fsize f2 = 1"
  proof -
    from that obtain c where c: "fdata f2 = [c]" by (auto simp: fsize_def length_Suc_conv)
    have "concat (replicate n [c]) = replicate n c" for n by (induction n) simp_all
    with s c show ?thesis
      by (simp add: cob_cmp_char_def cmp_all_loop_repeat common_cmpc_replicate)
  qed
  with assms s n2 show ?thesis
    by (auto simp: cob_cmp_def cob_cmp_all_def cmp_all_loop_repeat fsize_def)
qed

section \<open>Facts: the order of table elements\<close>

text \<open>What a key of an element is compared as.\<close>

datatype key_val = Num rat | Text "int list"

instantiation key_val :: linorder
begin

fun less_eq_key_val :: "key_val \<Rightarrow> key_val \<Rightarrow> bool" where
  "less_eq_key_val (Num a) (Num b) = (a \<le> b)"
| "less_eq_key_val (Num a) (Text b) = True"
| "less_eq_key_val (Text a) (Num b) = False"
| "less_eq_key_val (Text a) (Text b) = (a \<le> b)"

definition less_key_val :: "key_val \<Rightarrow> key_val \<Rightarrow> bool" where
  "less_key_val a b \<longleftrightarrow> a \<le> b \<and> \<not> b \<le> a"

instance
proof
  fix x y z :: key_val
  show "x < y \<longleftrightarrow> x \<le> y \<and> \<not> y \<le> x" by (rule less_key_val_def)
  show "x \<le> x" by (cases x) simp_all
  show "x \<le> y \<Longrightarrow> y \<le> z \<Longrightarrow> x \<le> z" by (cases x; cases y; cases z) auto
  show "x \<le> y \<Longrightarrow> y \<le> x \<Longrightarrow> x = y" by (cases x; cases y) auto
  show "x \<le> y \<or> y \<le> x" by (cases x; cases y) auto
qed

end

lemma less_key_simps [simp]:
  "Num a < Num b \<longleftrightarrow> a < b" "Text xs < Text ys \<longleftrightarrow> xs < ys"
  by (auto simp: less_key_val_def)

definition sign_stable :: "cob_module \<Rightarrow> cob_field \<Rightarrow> bool" where
  "sign_stable M f \<longleftrightarrow> (case cob_get_sign M f of None \<Rightarrow> False | Some (s, g) \<Rightarrow> cob_put_sign M g s = Some f)"

definition key_of :: "target \<Rightarrow> cob_module \<Rightarrow> bytes option \<Rightarrow> sort_key \<Rightarrow> bytes \<Rightarrow> key_val option" where
  "key_of T M col k e = do {
     d \<leftarrow> rds e (sk_offset k) (fsize (sk_field k));
     let f = set_data (sk_field k) d;
     if field_is_numeric f then do {
       v \<leftarrow> num_val T M f;
       if loadable T f v \<and> (field_type f = COB_TYPE_NUMERIC_DISPLAY \<longrightarrow> sign_stable M f) then Some (Num (item_rat f v)) else None }
     else Some (Text (map (collate col) d)) }"

fun keys_of :: "target \<Rightarrow> cob_module \<Rightarrow> bytes option \<Rightarrow> sort_key list \<Rightarrow> bytes \<Rightarrow> key_val list option" where
  "keys_of T M col [] e = Some []"
| "keys_of T M col (k # ks) e = do { v \<leftarrow> key_of T M col k e; vs \<leftarrow> keys_of T M col ks e; Some (v # vs) }"

fun keys_before :: "bool list \<Rightarrow> key_val list \<Rightarrow> key_val list \<Rightarrow> bool" where
  "keys_before (a # fs) (v # vs) (w # ws) =
    (if v = w then keys_before fs vs ws else if a then v < w else w < v)"
| "keys_before _ _ _ = False"

lemma keys_before_irrefl [simp]: "\<not> keys_before fs vs vs"
proof (induction vs arbitrary: fs)
  case (Cons v vs)
  then show ?case by (cases fs) auto
qed simp

lemma keys_before_trans:
  "keys_before fs us vs \<Longrightarrow> keys_before fs vs ws \<Longrightarrow> keys_before fs us ws"
proof (induction fs us vs arbitrary: ws rule: keys_before.induct)
  case (1 a fs u us v vs)
  from 1(3) obtain w ws' where ws: "ws = w # ws'" by (cases ws) auto
  show ?case using 1 ws by (cases a) (auto split: if_splits)
qed auto

lemma keys_before_total:
  "length vs = length fs \<Longrightarrow> length ws = length fs \<Longrightarrow> vs \<noteq> ws \<Longrightarrow> keys_before fs vs ws \<or> keys_before fs ws vs"
proof (induction fs arbitrary: vs ws)
  case (Cons a fs)
  then obtain v vs' w ws' where "vs = v # vs'" "ws = w # ws'" by (metis length_Suc_conv)
  with Cons show ?case by (cases "v = w") auto
qed simp

lemma length_keys_of: "keys_of T M col ks e = Some vs \<Longrightarrow> length vs = length ks"
  by (induction ks arbitrary: vs) (auto simp: bind_eq_Some_conv)

lemma get_sign_other:
  "field_type f \<noteq> COB_TYPE_NUMERIC_DISPLAY \<Longrightarrow> cob_decimal_set_field T E M d f = Some (e, g) \<Longrightarrow> num_val T M f = Some v \<Longrightarrow> g = f"
  by (auto simp: cob_decimal_set_field_def num_val_def split: cob_type.splits if_splits)

lemma set_display_stable:
  assumes "sign_stable M f" "cob_decimal_set_display M d f = Some (e, g)"
  shows "g = f"
  using assms
  by (auto simp: cob_decimal_set_display_def sign_stable_def bind_eq_Some_conv Let_def
      split: if_splits prod.splits)

lemma set_field_stable:
  assumes "num_val T M f = Some v" "loadable T f v" "field_type f = COB_TYPE_NUMERIC_DISPLAY \<longrightarrow> sign_stable M f"
  shows "cob_decimal_set_field T E M d f = Some (mkdec v (field_scale f), f)"
proof -
  obtain g where g: "cob_decimal_set_field T E M d f = Some (mkdec v (field_scale f), g)"
    using set_field_num [OF assms(1,2)] by blast
  have "g = f"
  proof (cases "field_type f = COB_TYPE_NUMERIC_DISPLAY")
    case True
    with g have "cob_decimal_set_display M d f = Some (mkdec v (field_scale f), g)"
      by (simp add: cob_decimal_set_field_def is_fp_def)
    with True assms(3) set_display_stable show ?thesis by blast
  qed (use get_sign_other g assms(1) in blast)
  with g show ?thesis by simp
qed

text \<open>One key: the elements stay as they are and the result has the sign of the order.\<close>

lemma key_compare:
  assumes "key_of T M col k e1 = Some v1" "key_of T M col k e2 = Some v2"
  obtains d1 d2 c N' where
    "rds e1 (sk_offset k) (fsize (sk_field k)) = Some d1" "rds e2 (sk_offset k) (fsize (sk_field k)) = Some d2"
    "(if field_is_numeric (sk_field k) then cob_numeric_cmp T E M N (set_data (sk_field k) d1) (set_data (sk_field k) d2)
      else Some (common_cmps col d1 d2, N, set_data (sk_field k) d1, set_data (sk_field k) d2)) =
     Some (c, N', set_data (sk_field k) d1, set_data (sk_field k) d2)"
    "c < 0 \<longleftrightarrow> v1 < v2" "c = 0 \<longleftrightarrow> v1 = v2"
proof -
  from assms obtain d1 d2 where d: "rds e1 (sk_offset k) (fsize (sk_field k)) = Some d1"
    "rds e2 (sk_offset k) (fsize (sk_field k)) = Some d2"
    by (auto simp: key_of_def bind_eq_Some_conv)
  let ?f1 = "set_data (sk_field k) d1" and ?f2 = "set_data (sk_field k) d2"
  show ?thesis
  proof (cases "field_is_numeric (sk_field k)")
    case True
    with assms d obtain w1 w2 where
      n: "num_val T M ?f1 = Some w1" "loadable T ?f1 w1" "field_type ?f1 = COB_TYPE_NUMERIC_DISPLAY \<longrightarrow> sign_stable M ?f1"
        "num_val T M ?f2 = Some w2" "loadable T ?f2 w2" "field_type ?f2 = COB_TYPE_NUMERIC_DISPLAY \<longrightarrow> sign_stable M ?f2"
      and v: "v1 = Num (item_rat ?f1 w1)" "v2 = Num (item_rat ?f2 w2)"
      by (auto simp: key_of_def bind_eq_Some_conv Let_def split: if_splits)
    obtain c a b where c: "cob_decimal_cmp (mkdec w1 (field_scale ?f1)) (mkdec w2 (field_scale ?f2)) = (c, a, b)"
      using prod_cases3 by blast
    have "cob_numeric_cmp T E M N ?f1 ?f2 = Some (c, N\<lparr>cob_d1 := a, cob_d2 := b\<rparr>, ?f1, ?f2)"
      using c by (simp add: cob_numeric_cmp_def set_field_stable [OF n(1-3)] set_field_stable [OF n(4-6)])
    moreover have "c < 0 \<longleftrightarrow> v1 < v2" "c = 0 \<longleftrightarrow> v1 = v2"
      using cob_decimal_cmp_rat [OF c] by (simp_all add: v item_rat_def)
    ultimately show ?thesis using that d True by simp
  next
    case False
    with assms d have v: "v1 = Text (map (collate col) d1)" "v2 = Text (map (collate col) d2)"
      by (simp_all add: key_of_def)
    have "length d1 = length d2" using d by (metis length_rds)
    from common_cmps_order [OF this] have "common_cmps col d1 d2 < 0 \<longleftrightarrow> v1 < v2" "common_cmps col d1 d2 = 0 \<longleftrightarrow> v1 = v2"
      by (simp_all add: v)
    then show ?thesis using that d False by simp
  qed
qed

lemma wrs_rds: "rds e off n = Some d \<Longrightarrow> wrs e off d = Some e"
proof -
  assume "rds e off n = Some d"
  then have "off + n \<le> length e" "d = take n (drop off e)" by (auto simp: rds_def split: if_splits)
  moreover have "take off e @ take n (drop off e) @ drop (off + n) e = e"
    by (metis append_take_drop_id drop_drop add.commute)
  ultimately show ?thesis by (simp add: wrs_def min_def)
qed

lemma sort_compare_order:
  assumes "keys_of T M col ks e1 = Some vs" "keys_of T M col ks e2 = Some ws"
  shows "\<exists>c N'. sort_compare T E M N col ks e1 e2 = Some (c, N', e1, e2) \<and>
    (c < 0 \<longleftrightarrow> keys_before (map sk_ascending ks) vs ws) \<and> (c = 0 \<longleftrightarrow> vs = ws)"
  using assms
proof (induction ks arbitrary: N vs ws)
  case (Cons k ks)
  then obtain v vs' w ws' where k: "key_of T M col k e1 = Some v" "key_of T M col k e2 = Some w"
    and ks: "keys_of T M col ks e1 = Some vs'" "keys_of T M col ks e2 = Some ws'"
    and vs: "vs = v # vs'" "ws = w # ws'"
    by (auto simp: bind_eq_Some_conv)
  obtain d1 d2 c N' where d: "rds e1 (sk_offset k) (fsize (sk_field k)) = Some d1"
      "rds e2 (sk_offset k) (fsize (sk_field k)) = Some d2"
    and cmp: "(if field_is_numeric (sk_field k) then cob_numeric_cmp T E M N (set_data (sk_field k) d1) (set_data (sk_field k) d2)
      else Some (common_cmps col d1 d2, N, set_data (sk_field k) d1, set_data (sk_field k) d2)) =
     Some (c, N', set_data (sk_field k) d1, set_data (sk_field k) d2)"
    and c: "c < 0 \<longleftrightarrow> v < w" "c = 0 \<longleftrightarrow> v = w"
    by (rule key_compare [OF k, of E N])
  have step: "sort_compare T E M N col (k # ks) e1 e2 =
      (if c \<noteq> 0 then Some (if sk_ascending k then c else - c, N', e1, e2) else sort_compare T E M N' col ks e1 e2)"
    using d cmp by (auto simp: wrs_rds Let_def split: if_splits)
  show ?case
  proof (cases "c = 0")
    case True
    with step c vs Cons.IH [OF ks, of N'] show ?thesis by simp
  next
    case False
    then have "0 < c \<longleftrightarrow> w < v" using c by (metis linorder_cases not_less_iff_gr_or_eq)
    with False step c vs show ?thesis by auto
  qed
qed simp

section \<open>Facts: class conditions\<close>

text \<open>A numeric item that holds a number passes the test NUMERIC.\<close>

lemma is_numeric_display:
  assumes "num_val T M f = Some v" "field_type f = COB_TYPE_NUMERIC_DISPLAY"
  shows "\<exists>g. cob_is_numeric M f = Some (True, g) \<and> num_val T M g = Some v \<and> same_shape f g"
proof -
  from num_valE [OF assms] obtain s g where g: "wf_field f" "cob_get_sign M f = Some (s, g)"
    "all_digits (field_bytes g)" "v = signed_val s (field_bytes g)" by metis
  from put_back_sign [OF g(1) assms(2) g(2,3), of T] g assms(2) show ?thesis
    by (auto simp: cob_is_numeric_def)
qed

lemma is_numeric_display_iff:
  assumes "wf_field f" "field_type f = COB_TYPE_NUMERIC_DISPLAY"
  shows "(\<exists>g. cob_is_numeric M f = Some (True, g)) \<longleftrightarrow> num_val T M f \<noteq> None"
proof
  assume "\<exists>g. cob_is_numeric M f = Some (True, g)"
  then obtain s h where "cob_get_sign M f = Some (s, h)" "all_digits (field_bytes h)"
    using assms(2) by (auto simp: cob_is_numeric_def bind_eq_Some_conv)
  with assms show "num_val T M f \<noteq> None" by (simp add: num_val_def)
qed (use is_numeric_display [of T M f] assms in blast)

text \<open>The test reads a trailing space of a signed item as a zero, and leaves a zero there.\<close>

lemma is_numeric_space:
  assumes "field_type f = COB_TYPE_NUMERIC_DISPLAY" "have_sign f" "\<not> sign_separate f" "\<not> sign_leading f"
    "fdata f = ds @ [chr_space]" "all_digits ds" "\<not> display_sign M"
  shows "cob_is_numeric M f = Some (True, set_data f (ds @ [chr_0]))"
  using assms
  by (simp add: cob_is_numeric_def cob_get_sign_def cob_put_sign_def cob_real_get_sign_def
      cob_real_put_sign_def sign_pos_def fsize_def zoned_get_def zoned_put_def rd_def wr_def field_bytes_nonsep
      isdigit_def)

section \<open>Facts: SORT\<close>

text \<open>The promise of \<open>qsort\<close> for a comparison that orders the elements.\<close>

definition orders :: "('a \<Rightarrow> 'a \<Rightarrow> int) \<Rightarrow> 'a set \<Rightarrow> bool" where
  "orders cmp A \<longleftrightarrow> (\<forall>a\<in>A. \<forall>b\<in>A. cmp a b < 0 \<longleftrightarrow> 0 < cmp b a) \<and>
     (\<forall>a\<in>A. \<forall>b\<in>A. \<forall>c\<in>A. cmp a b \<le> 0 \<longrightarrow> cmp b c \<le> 0 \<longrightarrow> cmp a c \<le> 0)"

lemma orders_mono: "orders cmp B \<Longrightarrow> A \<subseteq> B \<Longrightarrow> orders cmp A"
  unfolding orders_def by (meson subsetD)

definition sorts :: "((bytes \<Rightarrow> bytes \<Rightarrow> int) \<Rightarrow> bytes list \<Rightarrow> bytes list) \<Rightarrow> bool" where
  "sorts qsort \<longleftrightarrow> (\<forall>cmp es. orders cmp (set es) \<longrightarrow>
     mset (qsort cmp es) = mset es \<and> sorted_wrt (\<lambda>a b. cmp a b \<le> 0) (qsort cmp es))"

definition elements :: "nat \<Rightarrow> nat \<Rightarrow> bytes \<Rightarrow> bytes list" where
  "elements width n tab = map (\<lambda>i. take width (drop (i * width) tab)) [0..<n]"

lemma elements_Suc: "elements w (Suc n) tab = take w tab # elements w n (drop w tab)"
proof -
  have "elements w (Suc n) tab = take w tab # map (\<lambda>i. take w (drop (Suc i * w) tab)) [0..<n]"
    unfolding elements_def by (simp add: upt_conv_Cons map_Suc_upt [symmetric] comp_def del: upt_Suc)
  then show ?thesis by (simp add: elements_def add.commute)
qed

lemma elements_concat:
  "length es = n \<Longrightarrow> \<forall>e\<in>set es. length e = w \<Longrightarrow> elements w n (concat es @ rest) = es"
proof (induction es arbitrary: n)
  case Nil
  then show ?case by (simp add: elements_def)
next
  case (Cons e es)
  then obtain m where "n = Suc m" by (cases n) auto
  with Cons show ?case by (simp add: elements_Suc)
qed

lemma length_elements: "n * w \<le> length tab \<Longrightarrow> \<forall>e\<in>set (elements w n tab). length e = w"
proof (induction n arbitrary: tab)
  case 0
  then show ?case by (simp add: elements_def)
next
  case (Suc n)
  then have "n * w \<le> length (drop w tab)" by simp
  from Suc.IH [OF this] Suc.prems show ?case by (simp add: elements_Suc)
qed

lemma elements_take: "elements w n (take (n * w) tab) = elements w n tab"
  by (induction n arbitrary: tab)
    (simp_all add: elements_Suc elements_def [of _ 0] drop_take take_take)

lemma length_concat_same: "\<forall>e\<in>set es. length e = w \<Longrightarrow> length (concat es) = length es * w"
  by (induction es) auto

fun insert_elem :: "('a \<Rightarrow> 'a \<Rightarrow> int) \<Rightarrow> 'a \<Rightarrow> 'a list \<Rightarrow> 'a list" where
  "insert_elem cmp x [] = [x]"
| "insert_elem cmp x (y # ys) = (if cmp x y \<le> 0 then x # y # ys else y # insert_elem cmp x ys)"

definition insertion_sort :: "('a \<Rightarrow> 'a \<Rightarrow> int) \<Rightarrow> 'a list \<Rightarrow> 'a list" where
  "insertion_sort cmp xs = foldr (insert_elem cmp) xs []"

lemma mset_insert_elem [simp]: "mset (insert_elem cmp x ys) = add_mset x (mset ys)"
  by (induction ys) auto

lemma set_insert_elem: "set (insert_elem cmp x ys) = insert x (set ys)"
  by (metis mset_insert_elem set_mset_add_mset_insert set_mset_mset)

lemma mset_insertion_sort: "mset (insertion_sort cmp xs) = mset xs"
  by (induction xs) (simp_all add: insertion_sort_def)

lemma sorted_insert_elem:
  assumes "orders cmp (insert x (set ys))" "sorted_wrt (\<lambda>a b. cmp a b \<le> 0) ys"
  shows "sorted_wrt (\<lambda>a b. cmp a b \<le> 0) (insert_elem cmp x ys)"
  using assms
proof (induction ys)
  case (Cons y ys)
  have "orders cmp (insert x (set ys))" by (rule orders_mono [OF Cons.prems(1)]) auto
  with Cons have IH: "sorted_wrt (\<lambda>a b. cmp a b \<le> 0) (insert_elem cmp x ys)" by simp
  have mem: "x \<in> insert x (set (y # ys))" "y \<in> insert x (set (y # ys))" by simp_all
  have asym: "cmp y x < 0 \<longleftrightarrow> 0 < cmp x y" and
    trans: "\<forall>z\<in>set ys. cmp x y \<le> 0 \<longrightarrow> cmp y z \<le> 0 \<longrightarrow> cmp x z \<le> 0"
    using Cons.prems(1) mem unfolding orders_def by (blast, meson list.set_intros(2) insertI2)
  show ?case
  proof (cases "cmp x y \<le> 0")
    case True
    with Cons.prems(2) trans show ?thesis by simp
  next
    case False
    with asym have "cmp y x \<le> 0" by simp
    with False IH Cons.prems(2) show ?thesis by (simp add: set_insert_elem)
  qed
qed simp

lemma insertion_sort_sorts: "sorts insertion_sort"
proof -
  have "sorted_wrt (\<lambda>a b. cmp a b \<le> 0) (insertion_sort cmp es)" if "orders cmp (set es)" for cmp and es :: "bytes list"
    using that
  proof (induction es)
    case (Cons e es)
    have "orders cmp (set es)" by (rule orders_mono [OF Cons.prems]) auto
    with Cons have "sorted_wrt (\<lambda>a b. cmp a b \<le> 0) (insertion_sort cmp es)" by simp
    moreover have "set (insertion_sort cmp es) = set es" using mset_insertion_sort by (metis set_mset_mset)
    ultimately show ?case using Cons.prems by (simp add: insertion_sort_def sorted_insert_elem)
  qed (simp add: insertion_sort_def)
  then show ?thesis by (simp add: sorts_def mset_insertion_sort)
qed

definition element_keys :: "target \<Rightarrow> cob_module \<Rightarrow> sort_state \<Rightarrow> bytes \<Rightarrow> key_val list option" where
  "element_keys T M S e = keys_of T M (sort_collate S) (sort_keys S) e"

definition in_order :: "target \<Rightarrow> cob_module \<Rightarrow> sort_state \<Rightarrow> bytes \<Rightarrow> bytes \<Rightarrow> bool" where
  "in_order T M S a b \<longleftrightarrow>
     \<not> keys_before (map sk_ascending (sort_keys S)) (the (element_keys T M S b)) (the (element_keys T M S a))"

lemma table_sort_sorted:
  assumes q: "sorts qsort" and room: "n * w \<le> length tab"
    and keys: "\<forall>e\<in>set (elements w n tab). element_keys T M S e \<noteq> None"
  shows "\<exists>tab'. cob_table_sort qsort T E M N S w n tab = Some tab' \<and> length tab' = length tab \<and>
    drop (n * w) tab' = drop (n * w) tab \<and> mset (elements w n tab') = mset (elements w n tab) \<and>
    sorted_wrt (in_order T M S) (elements w n tab')"
proof -
  let ?cmp = "\<lambda>a b. case sort_compare T E M N (sort_collate S) (sort_keys S) a b of None \<Rightarrow> 0 | Some (c, _) \<Rightarrow> c"
  let ?fs = "map sk_ascending (sort_keys S)" and ?key = "\<lambda>e. the (element_keys T M S e)"
  let ?es = "elements w n tab" let ?r = "qsort ?cmp ?es"
  have cmp: "(?cmp a b < 0 \<longleftrightarrow> keys_before ?fs (?key a) (?key b)) \<and> (?cmp a b = 0 \<longleftrightarrow> ?key a = ?key b) \<and>
      length (?key a) = length ?fs" if "a \<in> set ?es" "b \<in> set ?es" for a b
  proof -
    from that keys have "element_keys T M S a \<noteq> None" "element_keys T M S b \<noteq> None" by blast+
    then obtain vs ws where "keys_of T M (sort_collate S) (sort_keys S) a = Some vs"
      "keys_of T M (sort_collate S) (sort_keys S) b = Some ws" by (auto simp: element_keys_def)
    from sort_compare_order [OF this, of E N] this length_keys_of [OF this(1)] show ?thesis
      by (auto simp: element_keys_def)
  qed
  have neg: "0 < ?cmp a b \<longleftrightarrow> keys_before ?fs (?key b) (?key a)" if "a \<in> set ?es" "b \<in> set ?es" for a b
  proof -
    note c = cmp [OF that] and d = cmp [OF that(2,1)]
    have pos: "0 < ?cmp a b \<longleftrightarrow> \<not> ?cmp a b < 0 \<and> ?cmp a b \<noteq> 0" by linarith
    show ?thesis
    proof (cases "?key a = ?key b")
      case True
      then show ?thesis using c by simp
    next
      case False
      have "\<not> (keys_before ?fs (?key a) (?key b) \<and> keys_before ?fs (?key b) (?key a))"
        using keys_before_trans keys_before_irrefl by blast
      then show ?thesis
        using keys_before_total [of "?key a" ?fs "?key b"] c d pos False by blast
    qed
  qed
  have le: "?cmp a b \<le> 0 \<longleftrightarrow> in_order T M S a b" if "a \<in> set ?es" "b \<in> set ?es" for a b
    using neg [OF that] by (auto simp: in_order_def)
  have "orders ?cmp (set ?es)"
    unfolding orders_def
  proof (intro conjI ballI impI)
    fix a b c assume ab: "a \<in> set ?es" "b \<in> set ?es"
    show "?cmp a b < 0 \<longleftrightarrow> 0 < ?cmp b a" using cmp [OF ab] neg [OF ab(2,1)] by blast
    assume c: "c \<in> set ?es" and "?cmp a b \<le> 0" "?cmp b c \<le> 0"
    then have n: "\<not> keys_before ?fs (?key b) (?key a)" "\<not> keys_before ?fs (?key c) (?key b)"
      using neg [OF ab] neg [OF ab(2) c] by linarith+
    have "\<not> keys_before ?fs (?key c) (?key a)"
    proof
      assume k: "keys_before ?fs (?key c) (?key a)"
      with n(2) have "?key a \<noteq> ?key b" by metis
      then have "keys_before ?fs (?key a) (?key b)"
        using keys_before_total [of "?key a" ?fs "?key b"] cmp [OF ab] cmp [OF ab(2,1)] n(1) by blast
      from keys_before_trans [OF k this] n(2) show False by contradiction
    qed
    then show "?cmp a c \<le> 0" using neg [OF ab(1) c] by linarith
  qed
  with q have r: "mset ?r = mset ?es" "sorted_wrt (\<lambda>a b. ?cmp a b \<le> 0) ?r" by (simp_all add: sorts_def)
  have s: "set ?r = set ?es" using arg_cong [OF r(1), of set_mset] by (simp only: set_mset_mset)
  have "length ?es = n" by (simp add: elements_def)
  then have len: "length ?r = n" using arg_cong [OF r(1), of size] by (simp only: size_mset)
  have sorted: "sorted_wrt (in_order T M S) ?r"
    by (rule sorted_wrt_mono_rel [OF _ r(2)]) (use le s in blast)
  have sizes: "\<forall>e\<in>set ?r. length e = w" using length_elements [OF room] s by simp
  then have "length (concat ?r) = n * w" using length_concat_same len by metis
  with room have "cob_table_sort qsort T E M N S w n tab = Some (concat ?r @ drop (n * w) tab)"
    by (simp add: cob_table_sort_def rds_def wrs_def flip: elements_def) (simp add: elements_take)
  moreover have "elements w n (concat ?r @ drop (n * w) tab) = ?r" using elements_concat [OF len sizes] .
  ultimately show ?thesis
    using room sorted r(1) \<open>length (concat ?r) = n * w\<close> by simp
qed

lemma repeat_long: "pat \<noteq> [] \<Longrightarrow> n \<le> length (concat (replicate n pat))"
  by (induction n) (auto simp: neq_Nil_conv)

end
