(* ===== verification/Cob_Services.thy ===== *)
theory Cob_Services
  imports Cob_Common
begin

text \<open>
  The services of common.c: run-time checks, switches, the bit and text routines programs
  call by name, the stack of modules, EXTERNAL storage, ALLOCATE and FREE, exit and error
  procedures, and ACCEPT/DISPLAY of the command line and the environment.

  Addresses are natural numbers. The address \<open>malloc\<close> returns is an argument, taken not to
  be in use. A check that fails ends the run unit; its result is the message.
  \<open>COB_CHK_PARMS\<close>, the check of the number of arguments of a call, is taken to have passed.
\<close>

section \<open>Run-time checks\<close>

datatype rt_message =
    Null_address string
  | Not_numeric string bytes
  | Odo_out_of_bounds string int
  | Subscript_out_of_bounds string int
  | Offset_out_of_bounds string int
  | Length_out_of_bounds string int
  | External_size bytes int

text \<open>The result of a check: the message it stops with, if any, and the exception register.\<close>

type_synonym check = "rt_message option \<times> cob_rt"

definition cob_check_based :: "cob_rt \<Rightarrow> nat option \<Rightarrow> string \<Rightarrow> check" where
  "cob_check_based R x name = (if x = None then Some (Null_address name) else None, R)"

definition isprint :: "u8 \<Rightarrow> bool" where
  "isprint c \<longleftrightarrow> 32 \<le> c \<and> c \<le> 126"

definition octal3 :: "u8 \<Rightarrow> bytes" where
  "octal3 b = [92, 48 + drop_bit 6 b, 48 + (drop_bit 3 b AND 7), 48 + (b AND 7)]"

definition shown_bytes :: "bytes \<Rightarrow> bytes" where
  "shown_bytes d = concat (map (\<lambda>b. if isprint b then [b] else octal3 b) d)"

definition COB_SMALL_BUFF :: nat where "COB_SMALL_BUFF = 1024"
definition COB_MEDIUM_BUFF :: nat where "COB_MEDIUM_BUFF = 8192"

text \<open>The shown bytes and a final NUL are written to a buffer of \<open>COB_SMALL_BUFF\<close> bytes.\<close>

definition cob_check_numeric ::
  "cob_rt \<Rightarrow> cob_module \<Rightarrow> cob_field \<Rightarrow> string \<Rightarrow> (check \<times> cob_field) option" where
  "cob_check_numeric R M f name = do {
     (r, f) \<leftarrow> cob_is_numeric M f;
     if r then Some ((None, R), f)
     else if length (shown_bytes (fdata f)) < COB_SMALL_BUFF
     then Some ((Some (Not_numeric name (shown_bytes (fdata f))), R), f)
     else None }"

definition cob_check_odo :: "cob_rt \<Rightarrow> int \<Rightarrow> int \<Rightarrow> int \<Rightarrow> string \<Rightarrow> check" where
  "cob_check_odo R i mn mx name =
    (if i < mn \<or> mx < i then (Some (Odo_out_of_bounds name i), cob_set_exception R COB_EC_BOUND_ODO)
     else (None, R))"

definition cob_check_subscript :: "cob_rt \<Rightarrow> int \<Rightarrow> int \<Rightarrow> int \<Rightarrow> string \<Rightarrow> check" where
  "cob_check_subscript R i mn mx name =
    (if i < mn \<or> mx < i then (Some (Subscript_out_of_bounds name i), cob_set_exception R COB_EC_BOUND_SUBSCRIPT)
     else (None, R))"

definition cob_check_ref_mod :: "cob_rt \<Rightarrow> int \<Rightarrow> int \<Rightarrow> int \<Rightarrow> string \<Rightarrow> check" where
  "cob_check_ref_mod R offset len sz name =
    (if offset < 1 \<or> offset > sz then
       (Some (Offset_out_of_bounds name offset), cob_set_exception R COB_EC_BOUND_REF_MOD)
     else if len < 1 \<or> i32 (i32 (offset + len) - 1) > sz then
       (Some (Length_out_of_bounds name len), cob_set_exception R COB_EC_BOUND_REF_MOD)
     else (None, R))"

section \<open>Switches\<close>

definition cob_get_switch :: "int list \<Rightarrow> nat \<Rightarrow> int option" where
  "cob_get_switch S n = (if n < length S then Some (S ! n) else None)"

definition cob_set_switch :: "int list \<Rightarrow> nat \<Rightarrow> int \<Rightarrow> int list option" where
  "cob_set_switch S n flag =
    (if flag = 0 \<or> flag = 1 then if n < length S then Some (S[n := flag]) else None else Some S)"

definition set_switches :: "int list \<Rightarrow> bytes \<Rightarrow> int list" where
  "set_switches S p = map2 (\<lambda>s b. if b = 0 then 0 else if b = 1 then 1 else s) S p"

text \<open>\<open>CBL_X91\<close>: the switches, the result byte and the parameter after the call.\<close>

definition CBL_X91 :: "int list \<Rightarrow> int \<Rightarrow> u8 \<Rightarrow> bytes \<Rightarrow> (int list \<times> u8 \<times> bytes) option" where
  "CBL_X91 S params func parm =
    (if func = 11 then
       if 8 \<le> length parm then Some (set_switches S (take 8 parm), 0, parm) else None
     else if func = 12 then
       map_option (\<lambda>p. (S, 0, p)) (wrs parm 0 (map word_of_int (take 8 S)))
     else if func = 16 then map_option (\<lambda>p. (S, 0, p)) (wr parm 0 (word_of_int params))
     else Some (S, 1, parm))"

section \<open>Bit and text routines\<close>

text \<open>The loop of the binary routines: \<open>data_2[n] = op(data_1[n], data_2[n])\<close>.\<close>

definition bitwise :: "(u8 \<Rightarrow> u8 \<Rightarrow> u8) \<Rightarrow> bytes \<Rightarrow> bytes \<Rightarrow> int \<Rightarrow> bytes option" where
  "bitwise oper d1 d2 len =
    (if len \<le> 0 then Some d2
     else if nat len \<le> length d1 \<and> nat len \<le> length d2 then
       Some (map2 oper (take (nat len) d1) (take (nat len) d2) @ drop (nat len) d2)
     else None)"

definition CBL_AND :: "bytes \<Rightarrow> bytes \<Rightarrow> int \<Rightarrow> bytes option" where
  "CBL_AND = bitwise (\<lambda>a b. b AND a)"

definition CBL_OR :: "bytes \<Rightarrow> bytes \<Rightarrow> int \<Rightarrow> bytes option" where
  "CBL_OR = bitwise (\<lambda>a b. b OR a)"

definition CBL_NOR :: "bytes \<Rightarrow> bytes \<Rightarrow> int \<Rightarrow> bytes option" where
  "CBL_NOR = bitwise (\<lambda>a b. NOT (a OR b))"

definition CBL_XOR :: "bytes \<Rightarrow> bytes \<Rightarrow> int \<Rightarrow> bytes option" where
  "CBL_XOR = bitwise (\<lambda>a b. b XOR a)"

definition CBL_IMP :: "bytes \<Rightarrow> bytes \<Rightarrow> int \<Rightarrow> bytes option" where
  "CBL_IMP = bitwise (\<lambda>a b. NOT a OR b)"

definition CBL_NIMP :: "bytes \<Rightarrow> bytes \<Rightarrow> int \<Rightarrow> bytes option" where
  "CBL_NIMP = bitwise (\<lambda>a b. a AND NOT b)"

definition CBL_EQ :: "bytes \<Rightarrow> bytes \<Rightarrow> int \<Rightarrow> bytes option" where
  "CBL_EQ = bitwise (\<lambda>a b. NOT (a XOR b))"

definition each_byte :: "(u8 \<Rightarrow> u8) \<Rightarrow> bytes \<Rightarrow> int \<Rightarrow> bytes option" where
  "each_byte oper d len =
    (if len \<le> 0 then Some d
     else if nat len \<le> length d then Some (map oper (take (nat len) d) @ drop (nat len) d)
     else None)"

definition CBL_NOT :: "bytes \<Rightarrow> int \<Rightarrow> bytes option" where
  "CBL_NOT = each_byte (\<lambda>a. NOT a)"

definition CBL_TOUPPER :: "bytes \<Rightarrow> int \<Rightarrow> bytes option" where
  "CBL_TOUPPER = each_byte (\<lambda>a. if islower a then toupper a else a)"

definition CBL_TOLOWER :: "bytes \<Rightarrow> int \<Rightarrow> bytes option" where
  "CBL_TOLOWER = each_byte (\<lambda>a. if isupper a then tolower a else a)"

text \<open>Eight bytes into the bits of one, and back.\<close>

fun xf4_loop :: "nat \<Rightarrow> u8 \<Rightarrow> bytes \<Rightarrow> u8" where
  "xf4_loop n acc [] = acc"
| "xf4_loop n acc (b # bs) = xf4_loop (Suc n) (acc OR push_bit (7 - n) (b AND 1)) bs"

definition CBL_XF4 :: "bytes \<Rightarrow> u8 option" where
  "CBL_XF4 d2 = map_option (xf4_loop 0 0) (rds d2 0 8)"

definition CBL_XF5 :: "u8 \<Rightarrow> bytes \<Rightarrow> bytes option" where
  "CBL_XF5 d1 d2 = wrs d2 0 (map (\<lambda>n. if d1 AND push_bit (7 - n) 1 \<noteq> 0 then 1 else 0) [0..<8])"

text \<open>\<open>C$JUSTIFY\<close>: \<open>dir\<close> is the first byte of the second argument, if there is one.\<close>

definition cob_acuw_justify :: "bytes \<Rightarrow> u8 option \<Rightarrow> bytes" where
  "cob_acuw_justify d dir =
    (if length d < 2 then d
     else if d ! 0 \<noteq> chr_space \<and> d ! (length d - 1) \<noteq> chr_space then d
     else let left = length (takeWhile (\<lambda>b. b = chr_space) d) in
       if left = length d then d
       else let right = length (takeWhile (\<lambda>b. b = chr_space) (rev d));
           movelen = length d - left - right; txt = take movelen (drop left d) in
         if dir = Some 76 then txt @ replicate (length d - movelen) chr_space
         else if dir = Some 67 then
           let centrelen = (left + right) div 2 in
             replicate centrelen chr_space @ txt @
             replicate (if odd (left + right) then centrelen + 1 else centrelen) chr_space
         else replicate (length d - movelen) chr_space @ txt)"

section \<open>The stack of modules\<close>

text \<open>Modules are numbered; \<open>mod_next m\<close> is the member \<open>next\<close>.\<close>

record module_stack =
  mod_next :: "nat \<Rightarrow> nat option"
  cob_current_module :: "nat option"

definition cob_module_enter :: "module_stack \<Rightarrow> nat \<Rightarrow> module_stack" where
  "cob_module_enter S m = \<lparr>mod_next = (mod_next S)(m := cob_current_module S), cob_current_module = Some m\<rparr>"

definition cob_module_leave :: "module_stack \<Rightarrow> module_stack option" where
  "cob_module_leave S =
    (case cob_current_module S of None \<Rightarrow> None
     | Some c \<Rightarrow> Some (S\<lparr>cob_current_module := mod_next S c\<rparr>))"

section \<open>EXTERNAL storage\<close>

record cob_external =
  ename :: bytes
  esize :: int
  ext_alloc :: nat

text \<open>
  \<open>cob_external_addr\<close>: the list, the address, and the new \<open>cob_initial_external\<close>; or the
  message. \<open>a\<close> is the address of a new block.
\<close>

fun find_external :: "bytes \<Rightarrow> cob_external list \<Rightarrow> cob_external option" where
  "find_external n [] = None"
| "find_external n (e # es) = (if n = ename e then Some e else find_external n es)"

definition cob_external_addr ::
  "nat \<Rightarrow> bytes \<Rightarrow> int \<Rightarrow> cob_external list \<Rightarrow> rt_message + (cob_external list \<times> nat \<times> bool)" where
  "cob_external_addr a exname exlength L =
    (case find_external exname L of
       Some e \<Rightarrow> if exlength > esize e then Inl (External_size exname exlength) else Inr (L, ext_alloc e, False)
     | None \<Rightarrow> Inr (\<lparr>ename = exname, esize = exlength, ext_alloc = a\<rparr> # L, a, True))"

section \<open>ALLOCATE and FREE\<close>

text \<open>
  The cache, newest first: the block's address (\<open>NULL\<close> once freed) and its size; and the
  blocks \<open>malloc\<close> has handed out. \<open>free\<close> of an address that is not such a block is undefined.
\<close>

record alloc_state =
  alloc_cache :: "(nat option \<times> nat) list"
  alloc_heap :: "nat \<rightharpoonup> bytes"

definition cob_allocate ::
  "target \<Rightarrow> fp_env \<Rightarrow> cob_module \<Rightarrow> cob_rt \<Rightarrow> nat option \<Rightarrow> cob_field \<Rightarrow> alloc_state \<Rightarrow>
   (cob_rt \<times> alloc_state \<times> nat option \<times> cob_field) option" where
  "cob_allocate T E M R mem sizefld A = do {
     let R = cob_clear_exception R;
     (sz, sizefld) \<leftarrow> cob_get_int T E M sizefld;
     if sz > 0 then
       (case mem of
          None \<Rightarrow> Some (cob_set_exception R COB_EC_STORAGE_NOT_AVAIL, A, None, sizefld)
        | Some a \<Rightarrow> Some (R, \<lparr>alloc_cache = (Some a, nat sz) # alloc_cache A,
            alloc_heap = (alloc_heap A)(a \<mapsto> replicate (nat sz) 0)\<rparr>, Some a, sizefld))
     else Some (R, A, None, sizefld) }"

fun drop_cached :: "nat \<Rightarrow> (nat option \<times> nat) list \<Rightarrow> (nat option \<times> nat) list option" where
  "drop_cached p [] = None"
| "drop_cached p ((q, n) # cs) =
    (if q = Some p then Some ((None, n) # cs) else map_option (Cons (q, n)) (drop_cached p cs))"

definition free_block :: "nat \<Rightarrow> alloc_state \<Rightarrow> alloc_state option" where
  "free_block p A = (if alloc_heap A p = None then None else Some (A\<lparr>alloc_heap := (alloc_heap A)(p := None)\<rparr>))"

text \<open>One of the two halves of \<open>cob_free_alloc\<close>: the pointer item has a value.\<close>

definition free_pointer ::
  "cob_rt \<Rightarrow> nat \<Rightarrow> alloc_state \<Rightarrow> (cob_rt \<times> alloc_state \<times> nat option) option" where
  "free_pointer R p A =
    (case drop_cached p (alloc_cache A) of
       None \<Rightarrow> Some (cob_set_exception R COB_EC_STORAGE_NOT_ALLOC, A, Some p)
     | Some c \<Rightarrow> map_option (\<lambda>A. (R, A, None)) (free_block p (A\<lparr>alloc_cache := c\<rparr>)))"

text \<open>
  The arguments are pointers to pointers: \<open>None\<close> is the null pointer, \<open>Some v\<close> a pointer item
  with the value \<open>v\<close>. The result holds the values of the two items afterwards.
\<close>

definition cob_free_alloc ::
  "cob_rt \<Rightarrow> nat option option \<Rightarrow> nat option option \<Rightarrow> alloc_state \<Rightarrow>
   (cob_rt \<times> alloc_state \<times> nat option option \<times> nat option option) option" where
  "cob_free_alloc R ptr1 ptr2 A =
    (let R = cob_clear_exception R in
     case ptr1 of
       Some (Some p) \<Rightarrow> map_option (\<lambda>(R, A, v). (R, A, Some v, ptr2)) (free_pointer R p A)
     | _ \<Rightarrow> (case ptr2 of
         Some (Some p) \<Rightarrow> map_option (\<lambda>(R, A, v). (R, A, ptr1, Some v)) (free_pointer R p A)
       | _ \<Rightarrow> Some (R, A, ptr1, ptr2)))"

section \<open>Exit and error procedures\<close>

text \<open>
  The nodes of \<open>exit_hdlrs\<close> and of \<open>hdlrs\<close>, by address; a freed node is not in the heap.
  Procedures are numbered. The loops follow the links, so they are partial.
\<close>

record handler =
  h_next :: "nat option"
  h_proc :: nat

record handler_list =
  hl_head :: "nat option"
  hl_heap :: "nat \<rightharpoonup> handler"

partial_function (option) remove_handler :: "nat \<Rightarrow> nat option \<Rightarrow> nat option \<Rightarrow> handler_list \<Rightarrow> handler_list option" where
  "remove_handler p hp h L =
    (case h of None \<Rightarrow> Some L
     | Some a \<Rightarrow> Option.bind (hl_heap L a) (\<lambda>n.
         if h_proc n = p then
           (case hp of
              None \<Rightarrow> Some (L\<lparr>hl_head := h_next n\<rparr>)
            | Some b \<Rightarrow> Option.bind (hl_heap L b) (\<lambda>m.
                let H = (hl_heap L)(b \<mapsto> m\<lparr>h_next := h_next n\<rparr>) in Some (L\<lparr>hl_heap := H(b := None)\<rparr>)))
         else remove_handler p (Some a) (h_next n) L))"

definition add_handler :: "nat \<Rightarrow> nat \<Rightarrow> handler_list \<Rightarrow> handler_list" where
  "add_handler a p L = \<lparr>hl_head = Some a, hl_heap = (hl_heap L)(a \<mapsto> \<lparr>h_next = hl_head L, h_proc = p\<rparr>)\<rparr>"

text \<open>\<open>a\<close> is the address of a new node, \<open>proc\<close> the procedure pointer of the call.\<close>

definition CBL_EXIT_PROC :: "nat \<Rightarrow> u8 \<Rightarrow> nat option \<Rightarrow> handler_list \<Rightarrow> (int \<times> handler_list) option" where
  "CBL_EXIT_PROC a x proc L =
    (case proc of None \<Rightarrow> Some (- 1, L)
     | Some p \<Rightarrow> do {
         L \<leftarrow> remove_handler p None (hl_head L) L;
         if x \<noteq> 0 \<and> x \<noteq> 2 \<and> x \<noteq> 3 then Some (0, L) else Some (0, add_handler a p L) })"

definition CBL_ERROR_PROC :: "nat \<Rightarrow> u8 \<Rightarrow> nat option \<Rightarrow> handler_list \<Rightarrow> (int \<times> handler_list) option" where
  "CBL_ERROR_PROC a x proc L =
    (case proc of None \<Rightarrow> Some (- 1, L)
     | Some p \<Rightarrow> do {
         L \<leftarrow> remove_handler p None (hl_head L) L;
         if x \<noteq> 0 then Some (0, L) else Some (0, add_handler a p L) })"

text \<open>The calls \<open>cob_stop_run\<close> and \<open>cobtidy\<close> make, in order; \<open>None\<close> if a freed node is read or the list has no end.\<close>

partial_function (option) run_handlers :: "nat option \<Rightarrow> (nat \<rightharpoonup> handler) \<Rightarrow> nat list option" where
  "run_handlers h H =
    (case h of None \<Rightarrow> Some []
     | Some a \<Rightarrow> Option.bind (H a) (\<lambda>n. Option.bind (run_handlers (h_next n) H) (\<lambda>ps. Some (h_proc n # ps))))"

definition cob_stop_run :: "handler_list \<Rightarrow> nat list option" where
  "cob_stop_run L = run_handlers (hl_head L) (hl_heap L)"

definition cobtidy :: "handler_list \<Rightarrow> nat list option" where
  "cobtidy L = run_handlers (hl_head L) (hl_heap L)"

text \<open>\<open>cob_runtime_error\<close> calls the error procedures and forgets them.\<close>

definition cob_runtime_error :: "handler_list \<Rightarrow> (nat list \<times> handler_list) option" where
  "cob_runtime_error L = map_option (\<lambda>ps. (ps, L\<lparr>hl_head := None\<rparr>)) (run_handlers (hl_head L) (hl_heap L))"

section \<open>The command line and the environment\<close>

text \<open>
  C strings are byte lists without the final NUL. \<open>ce_command\<close> is what DISPLAY UPON
  COMMAND-LINE has left, \<open>ce_name\<close> the variable name of DISPLAY UPON ENVIRONMENT-NAME.
\<close>

record cob_cenv =
  ce_argv :: "bytes list"
  ce_current_arg :: nat
  ce_command :: bytes
  ce_name :: "bytes option"
  ce_env :: "bytes \<rightharpoonup> bytes"

definition cob_memcpy :: "target \<Rightarrow> fp_env \<Rightarrow> cob_module \<Rightarrow> cob_field \<Rightarrow> bytes \<Rightarrow> cob_field option" where
  "cob_memcpy T E M dst src = map_option snd (cob_move T E M (cob_fld COB_TYPE_ALPHANUMERIC 0 0 0 [] src) dst)"

definition cob_field_to_string :: "cob_field \<Rightarrow> bytes" where
  "cob_field_to_string f = rev (dropWhile (\<lambda>b. b = chr_space \<or> b = 0) (rev (fdata f)))"

definition c_string :: "bytes \<Rightarrow> bytes" where
  "c_string bs = takeWhile (\<lambda>b. b \<noteq> 0) bs"

definition cob_display_command_line :: "cob_cenv \<Rightarrow> cob_field \<Rightarrow> cob_cenv" where
  "cob_display_command_line C f = C\<lparr>ce_command := fdata f\<rparr>"

fun command_line_loop :: "bytes \<Rightarrow> bytes list \<Rightarrow> bytes" where
  "command_line_loop buf [] = buf"
| "command_line_loop buf (a # as) =
    (if COB_MEDIUM_BUFF \<le> length buf + length a then buf else command_line_loop (buf @ a @ [chr_space]) as)"

definition cob_accept_command_line ::
  "target \<Rightarrow> fp_env \<Rightarrow> cob_module \<Rightarrow> cob_cenv \<Rightarrow> cob_field \<Rightarrow> cob_field option" where
  "cob_accept_command_line T E M C f =
    (if ce_command C \<noteq> [] then cob_memcpy T E M f (ce_command C)
     else cob_memcpy T E M f (command_line_loop [] (drop 1 (ce_argv C))))"

definition cob_display_arg_number ::
  "target \<Rightarrow> fp_env \<Rightarrow> cob_module \<Rightarrow> cob_rt \<Rightarrow> cob_cenv \<Rightarrow> cob_field \<Rightarrow> (cob_rt \<times> cob_cenv \<times> cob_field) option" where
  "cob_display_arg_number T E M R C f = do {
     (f, tmp) \<leftarrow> cob_move T E M f (cob_fld COB_TYPE_NUMERIC_BINARY 9 0 0 [] (replicate 4 0));
     let n = i32 (host_val T (fdata tmp));
     if n < 0 \<or> int (length (ce_argv C)) \<le> n then Some (cob_set_exception R COB_EC_IMP_DISPLAY, C, f)
     else Some (R, C\<lparr>ce_current_arg := nat n\<rparr>, f) }"

definition cob_accept_arg_number ::
  "target \<Rightarrow> fp_env \<Rightarrow> cob_module \<Rightarrow> cob_cenv \<Rightarrow> cob_field \<Rightarrow> cob_field option" where
  "cob_accept_arg_number T E M C f =
     map_option snd (cob_move T E M (cob_fld COB_TYPE_NUMERIC_BINARY 9 0 0 [] (host_bytes T 4 (int (length (ce_argv C)) - 1))) f)"

definition cob_accept_arg_value ::
  "target \<Rightarrow> fp_env \<Rightarrow> cob_module \<Rightarrow> cob_rt \<Rightarrow> cob_cenv \<Rightarrow> cob_field \<Rightarrow> (cob_rt \<times> cob_cenv \<times> cob_field) option" where
  "cob_accept_arg_value T E M R C f =
    (if length (ce_argv C) \<le> ce_current_arg C then Some (cob_set_exception R COB_EC_IMP_ACCEPT, C, f)
     else do {
       f \<leftarrow> cob_memcpy T E M f (ce_argv C ! ce_current_arg C);
       Some (R, C\<lparr>ce_current_arg := ce_current_arg C + 1\<rparr>, f) })"

definition cob_display_environment :: "cob_rt \<Rightarrow> cob_cenv \<Rightarrow> cob_field \<Rightarrow> cob_rt \<times> cob_cenv" where
  "cob_display_environment R C f =
    (let C = (if ce_name C = None then C\<lparr>ce_name := Some []\<rparr> else C) in
     if fsize f > COB_SMALL_BUFF - 1 then (cob_set_exception R COB_EC_IMP_DISPLAY, C)
     else (R, C\<lparr>ce_name := Some (c_string (cob_field_to_string f))\<rparr>))"

text \<open>\<open>putenv\<close> splits its argument at the first \<open>=\<close>.\<close>

definition put_env :: "bytes \<Rightarrow> (bytes \<rightharpoonup> bytes) \<Rightarrow> (bytes \<rightharpoonup> bytes)" where
  "put_env s env = env(takeWhile (\<lambda>b. b \<noteq> 61) s \<mapsto> drop 1 (dropWhile (\<lambda>b. b \<noteq> 61) s))"

definition cob_display_env_value :: "cob_rt \<Rightarrow> cob_cenv \<Rightarrow> cob_field \<Rightarrow> cob_rt \<times> cob_cenv" where
  "cob_display_env_value R C f =
    (case ce_name C of
       None \<Rightarrow> (cob_set_exception R COB_EC_IMP_DISPLAY, C)
     | Some n \<Rightarrow>
         if n = [] then (cob_set_exception R COB_EC_IMP_DISPLAY, C)
         else (R, C\<lparr>ce_env := put_env (n @ [61] @ c_string (cob_field_to_string f)) (ce_env C)\<rparr>))"

definition cob_set_environment :: "cob_rt \<Rightarrow> cob_cenv \<Rightarrow> cob_field \<Rightarrow> cob_field \<Rightarrow> cob_rt \<times> cob_cenv" where
  "cob_set_environment R C f1 f2 =
    (let (R, C) = cob_display_environment R C f1 in cob_display_env_value R C f2)"

definition accept_string ::
  "target \<Rightarrow> fp_env \<Rightarrow> cob_module \<Rightarrow> cob_rt \<Rightarrow> bytes option \<Rightarrow> cob_field \<Rightarrow> (cob_rt \<times> cob_field) option" where
  "accept_string T E M R p f =
    (case p of None \<Rightarrow> map_option (Pair (cob_set_exception R COB_EC_IMP_ACCEPT)) (cob_memcpy T E M f [chr_space])
     | Some s \<Rightarrow> map_option (Pair R) (cob_memcpy T E M f s))"

definition cob_get_environment ::
  "target \<Rightarrow> fp_env \<Rightarrow> cob_module \<Rightarrow> cob_rt \<Rightarrow> cob_cenv \<Rightarrow> cob_field \<Rightarrow> cob_field \<Rightarrow> (cob_rt \<times> cob_field) option" where
  "cob_get_environment T E M R C envname envval =
    accept_string T E M R
      (if fsize envname < COB_SMALL_BUFF then ce_env C (c_string (cob_field_to_string envname)) else None) envval"

definition cob_accept_environment ::
  "target \<Rightarrow> fp_env \<Rightarrow> cob_module \<Rightarrow> cob_rt \<Rightarrow> cob_cenv \<Rightarrow> cob_field \<Rightarrow> (cob_rt \<times> cob_field) option" where
  "cob_accept_environment T E M R C f = accept_string T E M R (Option.bind (ce_name C) (ce_env C)) f"

text \<open>Parameters of a main program: the result is the item's storage and \<open>cob_call_params\<close>.\<close>

definition cob_chain_setup :: "cob_cenv \<Rightarrow> nat \<Rightarrow> nat \<Rightarrow> (bytes \<times> int) option" where
  "cob_chain_setup C parm sz =
    (if ce_argv C = [] then None
     else Some (if parm \<le> length (ce_argv C) - 1 then
         let a = ce_argv C ! parm in take sz a @ replicate (sz - length a) chr_space
       else replicate sz chr_space, int (length (ce_argv C)) - 1))"

section \<open>Date and time\<close>

text \<open>\<open>struct tm\<close> as \<open>localtime\<close> fills it, and the microseconds of \<open>gettimeofday\<close>.\<close>

record tm =
  tm_sec :: int
  tm_min :: int
  tm_hour :: int
  tm_mday :: int
  tm_mon :: int
  tm_year :: int
  tm_wday :: int
  tm_yday :: int

definition cob_accept_date :: "target \<Rightarrow> fp_env \<Rightarrow> cob_module \<Rightarrow> tm \<Rightarrow> cob_field \<Rightarrow> cob_field option" where
  "cob_accept_date T E M t f = cob_memcpy T E M f
     (pad_digits 2 (tm_year t) @ pad_digits 2 (tm_mon t + 1) @ pad_digits 2 (tm_mday t))"

definition cob_accept_date_yyyymmdd :: "target \<Rightarrow> fp_env \<Rightarrow> cob_module \<Rightarrow> tm \<Rightarrow> cob_field \<Rightarrow> cob_field option" where
  "cob_accept_date_yyyymmdd T E M t f = cob_memcpy T E M f
     (pad_digits 4 (tm_year t + 1900) @ pad_digits 2 (tm_mon t + 1) @ pad_digits 2 (tm_mday t))"

definition cob_accept_day :: "target \<Rightarrow> fp_env \<Rightarrow> cob_module \<Rightarrow> tm \<Rightarrow> cob_field \<Rightarrow> cob_field option" where
  "cob_accept_day T E M t f = cob_memcpy T E M f (pad_digits 2 (tm_year t) @ pad_digits 3 (tm_yday t + 1))"

definition cob_accept_day_yyyyddd :: "target \<Rightarrow> fp_env \<Rightarrow> cob_module \<Rightarrow> tm \<Rightarrow> cob_field \<Rightarrow> cob_field option" where
  "cob_accept_day_yyyyddd T E M t f = cob_memcpy T E M f (pad_digits 4 (tm_year t + 1900) @ pad_digits 3 (tm_yday t + 1))"

definition cob_accept_day_of_week :: "target \<Rightarrow> fp_env \<Rightarrow> cob_module \<Rightarrow> tm \<Rightarrow> cob_field \<Rightarrow> cob_field option" where
  "cob_accept_day_of_week T E M t f = cob_memcpy T E M f
     [if tm_wday t = 0 then 55 else word_of_int (tm_wday t + 48)]"

definition cob_accept_time :: "target \<Rightarrow> fp_env \<Rightarrow> cob_module \<Rightarrow> tm \<Rightarrow> int \<Rightarrow> cob_field \<Rightarrow> cob_field option" where
  "cob_accept_time T E M t usec f = cob_memcpy T E M f
     (pad_digits 2 (tm_hour t) @ pad_digits 2 (tm_min t) @ pad_digits 2 (tm_sec t) @ pad_digits 2 (usec div 10000))"

section \<open>Facts: checks, bits, text\<close>

lemma check_odo_iff:
  "cob_check_odo R i mn mx name = (None, R) \<longleftrightarrow> mn \<le> i \<and> i \<le> mx"
  "fst (cob_check_odo R i mn mx name) = None \<longleftrightarrow> mn \<le> i \<and> i \<le> mx"
  by (auto simp: cob_check_odo_def)

lemma check_subscript_iff:
  "fst (cob_check_subscript R i mn mx name) = None \<longleftrightarrow> mn \<le> i \<and> i \<le> mx"
  by (auto simp: cob_check_subscript_def)

lemma check_ref_mod_iff:
  assumes "0 \<le> sz" "offset + len < 2 ^ 31" "- (2 ^ 31) < offset + len"
  shows "fst (cob_check_ref_mod R offset len sz name) = None \<longleftrightarrow>
    1 \<le> offset \<and> 1 \<le> len \<and> offset + len - 1 \<le> sz"
proof -
  have "i32 (i32 (offset + len) - 1) = offset + len - 1"
    using assms by (simp add: i32_id)
  then show ?thesis by (auto simp: cob_check_ref_mod_def)
qed

text \<open>A length near \<open>INT_MAX\<close> makes the sum wrap, and the check passes.\<close>

lemma check_ref_mod_wraps:
  "fst (cob_check_ref_mod R 2 2147483647 10 name) = None"
  by (simp add: cob_check_ref_mod_def)

lemma xf4_loop_bits:
  "length bs \<le> 8 - n \<Longrightarrow> i < 8 \<Longrightarrow> bit (xf4_loop n acc bs) i =
    (bit acc i \<or> (8 - n - length bs \<le> i \<and> i + n \<le> 7 \<and> bit (bs ! (7 - n - i)) 0))"
proof (induction bs arbitrary: n acc)
  case (Cons b bs)
  then have "length bs \<le> 8 - Suc n" "n \<le> 7" by simp_all
  have b: "bit (acc OR push_bit (7 - n) (b AND 1)) i \<longleftrightarrow> bit acc i \<or> (i = 7 - n \<and> bit b 0)"
    unfolding bit_or_iff bit_push_bit_iff bit_and_iff bit_1_iff using Cons.prems(2) by auto
  have ix: "(b # bs) ! (7 - n - i) = (if i = 7 - n then b else bs ! (7 - Suc n - i))" if "i + n \<le> 7"
  proof (cases "i = 7 - n")
    case False
    then have "7 - n - i = Suc (7 - Suc n - i)" using that by arith
    with False show ?thesis by simp
  qed simp
  show ?case
    unfolding xf4_loop.simps Cons.IH [OF \<open>length bs \<le> 8 - Suc n\<close> Cons.prems(2)] b using ix \<open>n \<le> 7\<close> Cons.prems
    by (cases "i + n = 7") auto
qed auto

lemma xf5_xf4:
  assumes "length d2 \<ge> 8"
  obtains e where "CBL_XF5 d1 d2 = Some e" "CBL_XF4 e = Some d1" "length e = length d2"
proof -
  let ?bs = "map (\<lambda>n. if d1 AND push_bit (7 - n) 1 \<noteq> 0 then 1 else 0) [0..<8] :: bytes"
  have e: "CBL_XF5 d1 d2 = Some (?bs @ drop 8 d2)"
    using assms by (simp add: CBL_XF5_def wrs_def)
  have nz: "d1 AND push_bit k 1 \<noteq> 0 \<longleftrightarrow> bit d1 k" if "k < 8" for k
    using that by (simp add: and_exp_eq_0_iff_not_bit push_bit_of_1)
  have "xf4_loop 0 0 ?bs = d1"
  proof (rule bit_word_eqI)
    fix i assume i: "i < LENGTH(8)"
    then have "bit (xf4_loop 0 0 ?bs) i = bit (?bs ! (7 - i)) 0"
      by (subst xf4_loop_bits) auto
    also have "\<dots> = bit d1 i" using i nz [of i] by (simp del: map_upt_Suc upt_rec_numeral)
    finally show "bit (xf4_loop 0 0 ?bs) i = bit d1 i" .
  qed
  then have "CBL_XF4 (?bs @ drop 8 d2) = Some d1" by (simp add: CBL_XF4_def rds_def del: upt_rec_numeral)
  with e show ?thesis using that assms by (simp del: upt_rec_numeral)
qed

lemma xor_twice:
  assumes "CBL_XOR k d n = Some e" shows "CBL_XOR k e n = Some d"
proof -
  have "map2 (\<lambda>a b. b XOR a) xs (map2 (\<lambda>a b. b XOR a) xs ys) = ys" if "length xs = length ys" for xs ys :: bytes
    using that by (induction xs ys rule: list_induct2) (simp_all add: xor.assoc)
  then show ?thesis using assms by (auto simp: CBL_XOR_def bitwise_def split: if_splits)
qed

lemma switches_round_trip:
  assumes "length S = 8" "length p \<ge> 8" "\<forall>b\<in>set (take 8 p). b = 0 \<or> b = 1"
  shows "\<exists>S'. CBL_X91 S c 11 p = Some (S', 0, p) \<and> length S' = 8 \<and> CBL_X91 S' c 12 (replicate 8 0) = Some (S', 0, take 8 p)"
proof -
  have "map word_of_int (map2 (\<lambda>s b. if b = 0 then 0 else if b = 1 then 1 else s) xs ys) = ys"
    if "length xs = length ys" "\<forall>b\<in>set ys. b = 0 \<or> b = (1 :: u8)" for xs :: "int list" and ys
    using that by (induction xs ys rule: list_induct2) auto
  from this [of S "take 8 p"] assms show ?thesis
    by (simp add: CBL_X91_def set_switches_def wrs_def)
qed

text \<open>JUSTIFY moves the text between the spaces and keeps it, whatever the direction.\<close>

definition trimmed :: "bytes \<Rightarrow> bytes" where
  "trimmed d = rev (dropWhile (\<lambda>b. b = chr_space) (rev (dropWhile (\<lambda>b. b = chr_space) d)))"

lemma takeWhile_all_length: "length (takeWhile P xs) = length xs \<longleftrightarrow> (\<forall>x\<in>set xs. P x)"
  by (metis takeWhile_eq_all_conv length_takeWhile_le takeWhile_eq_take take_all_iff)

lemma blank_split:
  assumes "\<exists>b\<in>set d. b \<noteq> chr_space"
  obtains l t r where "d = replicate l chr_space @ t @ replicate r chr_space" "t \<noteq> []" "hd t \<noteq> chr_space" "last t \<noteq> chr_space"
    "length (takeWhile (\<lambda>b. b = chr_space) d) = l" "length (takeWhile (\<lambda>b. b = chr_space) (rev d)) = r" "trimmed d = t"
proof -
  let ?P = "\<lambda>b. b = chr_space"
  let ?l = "takeWhile ?P d" and ?d = "dropWhile ?P d"
  let ?r = "takeWhile ?P (rev ?d)" and ?t = "rev (dropWhile ?P (rev ?d))"
  have ne: "?d \<noteq> []" using assms by (simp add: dropWhile_eq_Nil_conv)
  have hd: "hd ?d \<noteq> chr_space" using hd_dropWhile [OF ne] .
  have sp: "takeWhile ?P xs = replicate (length (takeWhile ?P xs)) chr_space" for xs
    by (induction xs) auto
  have dr: "?d = ?t @ rev ?r" by (metis rev_append rev_rev_ident takeWhile_dropWhile_id)
  have "hd ?d \<in> set (rev ?d)" using ne by simp
  then have ne2: "dropWhile ?P (rev ?d) \<noteq> []" using hd by (auto simp: dropWhile_eq_Nil_conv simp del: set_rev)
  have tl: "last ?t \<noteq> chr_space" unfolding last_rev using hd_dropWhile [OF ne2] .
  have th: "hd ?t \<noteq> chr_space" using hd ne2 by (subst (asm) dr) simp
  have d: "d = replicate (length ?l) chr_space @ ?t @ replicate (length ?r) chr_space"
    by (metis dr sp takeWhile_dropWhile_id rev_replicate)
  have "takeWhile ?P (rev d) = takeWhile ?P (rev ?d @ rev ?l)" by (metis rev_append takeWhile_dropWhile_id)
  also have "\<dots> = ?r" using ne hd by (intro takeWhile_append1 [of "hd ?d"]) simp_all
  finally have "length (takeWhile ?P (rev d)) = length ?r" by simp
  with that [OF d _ th tl refl] ne2 show ?thesis by (simp add: trimmed_def)
qed

lemma trimmed_blanks:
  assumes "t \<noteq> []" "hd t \<noteq> chr_space" "last t \<noteq> chr_space"
  shows "trimmed (replicate l chr_space @ t @ replicate r chr_space) = t"
proof -
  have "dropWhile (\<lambda>b. b = chr_space) (replicate n chr_space @ u) = dropWhile (\<lambda>b. b = chr_space) u" for n u
    by (induction n) simp_all
  moreover have "dropWhile (\<lambda>b. b = chr_space) (t @ u) = t @ u" for u using assms by (cases t) simp_all
  moreover have "dropWhile (\<lambda>b. b = chr_space) (rev t) = rev t"
    using assms by (cases t rule: rev_cases) simp_all
  ultimately show ?thesis by (simp add: trimmed_def)
qed

lemma justify_keeps_text:
  shows "length (cob_acuw_justify d dir) = length d" "trimmed (cob_acuw_justify d dir) = trimmed d"
proof -
  have "length (cob_acuw_justify d dir) = length d \<and> trimmed (cob_acuw_justify d dir) = trimmed d"
  proof (cases "length d < 2 \<or> (d ! 0 \<noteq> chr_space \<and> d ! (length d - 1) \<noteq> chr_space) \<or> (\<forall>b\<in>set d. b = chr_space)")
    case True
    then show ?thesis by (auto simp: cob_acuw_justify_def takeWhile_all_length Let_def)
  next
    case False
    then have "\<exists>b\<in>set d. b \<noteq> chr_space" by blast
    then obtain l t r where s: "d = replicate l chr_space @ t @ replicate r chr_space" and
      t: "t \<noteq> []" "hd t \<noteq> chr_space" "last t \<noteq> chr_space" and
      n: "length (takeWhile (\<lambda>b. b = chr_space) d) = l" "length (takeWhile (\<lambda>b. b = chr_space) (rev d)) = r" "trimmed d = t"
      by (rule blank_split)
    have len: "length d = l + length t + r" using s by simp
    have cut: "take (length d - l - r) (drop l d) = t" using len by (subst s) simp
    have c: "l \<noteq> length d" "\<not> length d < 2" "\<not> (d ! 0 \<noteq> chr_space \<and> d ! (length d - 1) \<noteq> chr_space)"
      using False len t by simp_all
    have half: "(l + r) div 2 + (if odd (l + r) then (l + r) div 2 + 1 else (l + r) div 2) = l + r" by presburger
    have m: "length d - (length d - l - r) = l + r" using len by simp
    have j: "cob_acuw_justify d dir = (if dir = Some 76 then t @ replicate (l + r) chr_space
       else if dir = Some 67 then replicate ((l + r) div 2) chr_space @ t @
         replicate (if odd (l + r) then (l + r) div 2 + 1 else (l + r) div 2) chr_space
       else replicate (l + r) chr_space @ t)"
      unfolding cob_acuw_justify_def if_not_P [OF c(2)] if_not_P [OF c(3)] n Let_def if_not_P [OF c(1)] cut m ..
    have "length (cob_acuw_justify d dir) = length d"
      unfolding j len using half by simp
    moreover have "trimmed (cob_acuw_justify d dir) = t"
      unfolding j using trimmed_blanks [OF t] trimmed_blanks [OF t, of 0 "l + r"] trimmed_blanks [OF t, of "l + r" 0] by simp
    ultimately show ?thesis using n(3) by simp
  qed
  then show "length (cob_acuw_justify d dir) = length d" "trimmed (cob_acuw_justify d dir) = trimmed d" by simp_all
qed

section \<open>Facts: modules and EXTERNAL items\<close>

text \<open>Entering and leaving modules, none of them active already, nests like parentheses.\<close>

fun active :: "module_stack \<Rightarrow> nat list \<Rightarrow> bool" where
  "active S [] \<longleftrightarrow> cob_current_module S = None"
| "active S (m # ms) \<longleftrightarrow> cob_current_module S = Some m \<and> m \<notin> set ms \<and>
     active (S\<lparr>cob_current_module := mod_next S m\<rparr>) ms"

lemma active_update:
  "active S ms \<Longrightarrow> m \<notin> set ms \<Longrightarrow> active (S\<lparr>mod_next := (mod_next S)(m := v)\<rparr>) ms"
proof (induction S ms rule: active.induct)
  case (2 S c ms)
  have "S\<lparr>cob_current_module := mod_next S c, mod_next := (mod_next S)(m := v)\<rparr> =
      S\<lparr>mod_next := (mod_next S)(m := v), cob_current_module := mod_next S c\<rparr>" by (cases S) simp
  with 2 show ?case by (auto simp: fun_upd_other simp del: fun_upd_apply)
qed simp

lemma enter_active:
  "active S ms \<Longrightarrow> m \<notin> set ms \<Longrightarrow> active (cob_module_enter S m) (m # ms)"
  using active_update [of S ms m "cob_current_module S"] by (cases S) (simp add: cob_module_enter_def)

lemma leave_active:
  "active S (m # ms) \<Longrightarrow> \<exists>S'. cob_module_leave S = Some S' \<and> active S' ms"
  by (simp add: cob_module_leave_def)

text \<open>A module that is active is entered again only by a recursive call; then it stays current.\<close>

lemma enter_twice:
  assumes "cob_current_module S = Some m"
  shows "cob_module_leave (cob_module_enter S m) = Some (cob_module_enter S m)"
  using assms by (simp add: cob_module_leave_def cob_module_enter_def)

lemma find_external_ename: "find_external n L = Some e \<Longrightarrow> e \<in> set L \<and> ename e = n"
  by (induction L) (auto split: if_splits)

definition externals_ok :: "cob_external list \<Rightarrow> bool" where
  "externals_ok L \<longleftrightarrow> distinct (map ename L) \<and> distinct (map ext_alloc L)"

lemma find_external_None: "find_external n L = None \<longleftrightarrow> n \<notin> ename ` set L"
  by (induction L) auto

lemma external_addr_ok:
  assumes "externals_ok L" "a \<notin> ext_alloc ` set L" "cob_external_addr a n k L = Inr (L', p, new)"
  shows "externals_ok L' \<and> set L \<subseteq> set L' \<and> (\<exists>e\<in>set L'. ename e = n \<and> ext_alloc e = p \<and> k \<le> esize e)"
  using assms
  by (auto simp: cob_external_addr_def externals_ok_def find_external_None split: option.splits if_splits
      dest: find_external_ename)

text \<open>Every program that names the item is given the same storage.\<close>

lemma external_shared:
  assumes L: "externals_ok L" and e: "e \<in> set L"
  shows "cob_external_addr a (ename e) k L =
    (if k > esize e then Inl (External_size (ename e) k) else Inr (L, ext_alloc e, False))"
proof -
  have "find_external (ename e) L = Some e"
    using L e by (induction L) (auto simp: externals_ok_def image_iff)
  then show ?thesis by (simp add: cob_external_addr_def)
qed

section \<open>Facts: ALLOCATE and FREE\<close>

definition live :: "alloc_state \<Rightarrow> nat list" where
  "live A = List.map_filter fst (alloc_cache A)"

definition alloc_ok :: "alloc_state \<Rightarrow> bool" where
  "alloc_ok A \<longleftrightarrow> distinct (live A) \<and> dom (alloc_heap A) = set (live A) \<and>
     (\<forall>p n. (Some p, n) \<in> set (alloc_cache A) \<longrightarrow> (\<exists>bs. alloc_heap A p = Some bs \<and> length bs = n))"

lemma drop_cached_live:
  "drop_cached p cs = (if p \<in> set (List.map_filter fst cs) then drop_cached p cs else None)"
  by (induction cs) (auto simp: map_filter_simps split: option.splits if_splits)

lemma drop_cached_Some:
  "p \<in> set (List.map_filter fst cs) \<Longrightarrow> distinct (List.map_filter fst cs) \<Longrightarrow>
   \<exists>ds. drop_cached p cs = Some ds \<and> List.map_filter fst ds = remove1 p (List.map_filter fst cs) \<and>
     (\<forall>q n. (Some q, n) \<in> set ds \<longleftrightarrow> (Some q, n) \<in> set cs \<and> q \<noteq> p)"
proof (induction cs)
  case (Cons c cs)
  obtain q n where c: "c = (q, n)" by fastforce
  have mem: "q' \<in> set (List.map_filter fst cs)" if "(Some q', n') \<in> set cs" for q' n'
    using that by (force simp: map_filter_def)
  show ?case
  proof (cases "q = Some p")
    case True
    with Cons.prems c mem show ?thesis by (auto simp: map_filter_simps)
  next
    case False
    with Cons.prems c have "p \<in> set (List.map_filter fst cs)" "distinct (List.map_filter fst cs)"
      by (auto simp: map_filter_simps split: option.splits)
    from Cons.IH [OF this] False c show ?thesis
      by (auto simp: map_filter_simps split: option.splits)
  qed
qed (simp add: map_filter_simps)

lemma free_pointer_ok:
  assumes "alloc_ok A"
  shows "free_pointer R p A =
      (if p \<in> set (live A) then Some (R, A\<lparr>alloc_cache := the (drop_cached p (alloc_cache A)), alloc_heap := (alloc_heap A)(p := None)\<rparr>, None)
       else Some (cob_set_exception R COB_EC_STORAGE_NOT_ALLOC, A, Some p))"
    and "p \<in> set (live A) \<Longrightarrow> alloc_ok (A\<lparr>alloc_cache := the (drop_cached p (alloc_cache A)), alloc_heap := (alloc_heap A)(p := None)\<rparr>)"
    and "p \<in> set (live A) \<Longrightarrow> live (A\<lparr>alloc_cache := the (drop_cached p (alloc_cache A)), alloc_heap := (alloc_heap A)(p := None)\<rparr>) = remove1 p (live A)"
proof -
  have d: "distinct (live A)" "dom (alloc_heap A) = set (live A)" using assms by (simp_all add: alloc_ok_def)
  show "free_pointer R p A =
      (if p \<in> set (live A) then Some (R, A\<lparr>alloc_cache := the (drop_cached p (alloc_cache A)), alloc_heap := (alloc_heap A)(p := None)\<rparr>, None)
       else Some (cob_set_exception R COB_EC_STORAGE_NOT_ALLOC, A, Some p))"
  proof (cases "p \<in> set (live A)")
    case True
    then obtain cs where "drop_cached p (alloc_cache A) = Some cs"
      using drop_cached_Some [of p "alloc_cache A"] d by (auto simp: live_def)
    moreover have "alloc_heap A p \<noteq> None" using d True by blast
    ultimately show ?thesis using True by (simp add: free_pointer_def free_block_def)
  next
    case False
    then have "drop_cached p (alloc_cache A) = None" using drop_cached_live [of p "alloc_cache A"] by (simp add: live_def)
    with False show ?thesis by (simp add: free_pointer_def)
  qed
  assume p: "p \<in> set (live A)"
  then obtain cs where cs: "drop_cached p (alloc_cache A) = Some cs" "List.map_filter fst cs = remove1 p (live A)"
    "\<forall>q n. (Some q, n) \<in> set cs \<longleftrightarrow> (Some q, n) \<in> set (alloc_cache A) \<and> q \<noteq> p"
    using drop_cached_Some [of p "alloc_cache A"] d by (auto simp: live_def)
  then show "live (A\<lparr>alloc_cache := the (drop_cached p (alloc_cache A)), alloc_heap := (alloc_heap A)(p := None)\<rparr>) = remove1 p (live A)"
    by (simp add: live_def)
  then show "alloc_ok (A\<lparr>alloc_cache := the (drop_cached p (alloc_cache A)), alloc_heap := (alloc_heap A)(p := None)\<rparr>)"
    using assms d cs by (auto simp: alloc_ok_def)
qed

text \<open>What a program can do with the cache, the allocator answering as it likes.\<close>

inductive alloc_reachable :: "target \<Rightarrow> fp_env \<Rightarrow> cob_module \<Rightarrow> alloc_state \<Rightarrow> bool" for T E M where
  start: "alloc_reachable T E M \<lparr>alloc_cache = [], alloc_heap = Map.empty\<rparr>"
| allocate: "alloc_reachable T E M A \<Longrightarrow> (\<And>a. mem = Some a \<Longrightarrow> alloc_heap A a = None) \<Longrightarrow>
    cob_allocate T E M R mem f A = Some (R', A', p, g) \<Longrightarrow> alloc_reachable T E M A'"
| free: "alloc_reachable T E M A \<Longrightarrow> cob_free_alloc R p1 p2 A = Some (R', A', q1, q2) \<Longrightarrow> alloc_reachable T E M A'"

lemma allocate_ok:
  assumes "alloc_ok A" "\<And>a. mem = Some a \<Longrightarrow> alloc_heap A a = None"
    "cob_allocate T E M R mem f A = Some (R', A', p, g)"
  shows "alloc_ok A'"
proof -
  from assms(3) consider (same) "A' = A" | (new) a n where "mem = Some a" "0 < n"
    "A' = \<lparr>alloc_cache = (Some a, n) # alloc_cache A, alloc_heap = (alloc_heap A)(a \<mapsto> replicate n 0)\<rparr>"
    by (auto simp: cob_allocate_def bind_eq_Some_conv Let_def split: if_splits option.splits)
  then show ?thesis
  proof cases
    case new
    then have "a \<notin> dom (alloc_heap A)" using assms(2) by auto
    then have "a \<notin> set (live A)" using assms(1) by (simp add: alloc_ok_def)
    then have "(Some a, k) \<notin> set (alloc_cache A)" for k by (force simp: live_def map_filter_def)
    with new assms(1) \<open>a \<notin> set (live A)\<close> show ?thesis by (auto simp: alloc_ok_def live_def map_filter_simps)
  qed (use assms(1) in simp)
qed

lemma free_alloc_ok:
  assumes "alloc_ok A"
  shows "\<exists>R' A' q1 q2. cob_free_alloc R p1 p2 A = Some (R', A', q1, q2) \<and> alloc_ok A'"
  using assms free_pointer_ok [OF assms]
  by (auto simp: cob_free_alloc_def Let_def split: option.split)

lemma alloc_reachable_ok: "alloc_reachable T E M A \<Longrightarrow> alloc_ok A"
proof (induction rule: alloc_reachable.induct)
  case start
  show ?case by (simp add: alloc_ok_def live_def map_filter_simps)
next
  case allocate
  then show ?case by (blast intro: allocate_ok)
next
  case (free A R p1 p2 R' A' q1 q2)
  from free_alloc_ok [OF free.IH, of R p1 p2] free.hyps(2) show ?case by auto
qed

section \<open>Facts: exit and error procedures\<close>

text \<open>The addresses of a list that ends, and the procedures on it.\<close>

fun chain :: "(nat \<rightharpoonup> handler) \<Rightarrow> nat option \<Rightarrow> nat list \<Rightarrow> bool" where
  "chain H h [] \<longleftrightarrow> h = None"
| "chain H h (a # as) \<longleftrightarrow> h = Some a \<and> (\<exists>n. H a = Some n \<and> chain H (h_next n) as)"

definition procs :: "(nat \<rightharpoonup> handler) \<Rightarrow> nat list \<Rightarrow> nat list" where
  "procs H as = map (\<lambda>a. h_proc (the (H a))) as"

definition handlers_ok :: "handler_list \<Rightarrow> nat list \<Rightarrow> bool" where
  "handlers_ok L as \<longleftrightarrow> chain (hl_heap L) (hl_head L) as \<and> distinct as"

lemma procs_simps [simp]: "procs H [] = []" "procs H (a # as) = h_proc (the (H a)) # procs H as"
  "procs H (as @ bs) = procs H as @ procs H bs"
  by (simp_all add: procs_def)

lemma run_chain: "chain H h as \<Longrightarrow> run_handlers h H = Some (procs H as)"
proof (induction as arbitrary: h)
  case Nil
  then show ?case by (simp add: run_handlers.simps)
next
  case (Cons a as)
  then show ?case by (subst run_handlers.simps) auto
qed

lemma run_handlers_ends:
  assumes "run_handlers h H = Some ps"
  shows "\<exists>as. chain H h as \<and> ps = procs H as"
proof (rule run_handlers.raw_induct [where P = "\<lambda>h H ps. \<exists>as. chain H h as \<and> ps = procs H as", OF _ assms])
  fix f h H ps
  assume 1: "\<And>h H ps. f h H = Some ps \<Longrightarrow> \<exists>as. chain H h as \<and> ps = procs H as"
    "(case h of None \<Rightarrow> Some [] | Some a \<Rightarrow> H a \<bind> (\<lambda>n. f (h_next n) H \<bind> (\<lambda>ps. Some (h_proc n # ps)))) = Some ps"
  show "\<exists>as. chain H h as \<and> ps = procs H as"
  proof (cases h)
    case None
    with 1(2) show ?thesis by (intro exI [of _ "[]"]) simp
  next
    case (Some a)
    with 1(2) obtain n qs where n: "H a = Some n" "f (h_next n) H = Some qs" "ps = h_proc n # qs"
      by (auto simp: bind_eq_Some_conv)
    obtain as where "chain H (h_next n) as" "qs = procs H as" using 1(1) n(2) by blast
    with n Some show ?thesis by (intro exI [of _ "a # as"]) simp
  qed
qed

lemma chain_frame: "a \<notin> set as \<Longrightarrow> chain (H(a := v)) h as = chain H h as"
  by (induction as arbitrary: h) auto

lemma procs_frame: "a \<notin> set as \<Longrightarrow> procs (H(a := v)) as = procs H as"
  by (auto simp: procs_def)

lemma chain_append: "chain H h (as @ b # bs) \<Longrightarrow> \<exists>n. H b = Some n \<and> chain H (h_next n) bs"
  by (induction as arbitrary: h) auto

lemma remove_absent:
  "chain (hl_heap L) h as \<Longrightarrow> p \<notin> set (procs (hl_heap L) as) \<Longrightarrow> remove_handler p hp h L = Some L"
proof (induction as arbitrary: h hp)
  case Nil
  then show ?case by (simp add: remove_handler.simps)
next
  case (Cons a as)
  then show ?case by (subst remove_handler.simps) auto
qed

lemma remove_later:
  "chain (hl_heap L) h (as @ b # a # cs) \<Longrightarrow> p \<notin> set (procs (hl_heap L) (as @ [b])) \<Longrightarrow>
   h_proc (the (hl_heap L a)) = p \<Longrightarrow> remove_handler p hp h L = Some (L\<lparr>hl_heap := (hl_heap L)(b := None)\<rparr>)"
proof (induction as arbitrary: h hp)
  case Nil
  then obtain n m where n: "h = Some b" "hl_heap L b = Some n" "h_next n = Some a" "hl_heap L a = Some m"
    by fastforce
  with Nil(2,3) have "h_proc n \<noteq> p" "h_proc m = p" by simp_all
  note n = n this
  then have "remove_handler p hp h L = remove_handler p (Some b) (Some a) L"
    by (subst remove_handler.simps) simp
  also have "\<dots> = Some (L\<lparr>hl_heap := (hl_heap L)(b := None)\<rparr>)"
    using n by (subst remove_handler.simps) simp
  finally show ?case .
next
  case (Cons c as)
  then obtain n where "h = Some c" "hl_heap L c = Some n" "h_proc n \<noteq> p" "chain (hl_heap L) (h_next n) (as @ b # a # cs)"
    by auto
  with Cons show ?case by (subst remove_handler.simps) (simp del: fun_upd_apply)
qed

text \<open>
  The list as a sequence of procedures: installing puts the procedure first, and removing it
  again works when it is the first.
\<close>

lemma install_handler:
  assumes "handlers_ok L as" "a \<notin> set as" "p \<notin> set (procs (hl_heap L) as)"
  shows "\<exists>L'. CBL_EXIT_PROC a 0 (Some p) L = Some (0, L') \<and> handlers_ok L' (a # as) \<and>
    procs (hl_heap L') (a # as) = p # procs (hl_heap L) as"
    "\<exists>L'. CBL_ERROR_PROC a 0 (Some p) L = Some (0, L') \<and> handlers_ok L' (a # as) \<and>
    procs (hl_heap L') (a # as) = p # procs (hl_heap L) as"
  using assms remove_absent [of L "hl_head L" as p None]
  by (auto simp: CBL_EXIT_PROC_def CBL_ERROR_PROC_def handlers_ok_def add_handler_def chain_frame procs_frame)

lemma remove_first_handler:
  assumes "handlers_ok L (a # as)" "h_proc (the (hl_heap L a)) = p" "x \<noteq> 0" "x \<noteq> 2" "x \<noteq> 3"
  shows "\<exists>L'. CBL_EXIT_PROC b x (Some p) L = Some (0, L') \<and> handlers_ok L' as \<and> hl_heap L' = hl_heap L"
    "\<exists>L'. CBL_ERROR_PROC b x (Some p) L = Some (0, L') \<and> handlers_ok L' as \<and> hl_heap L' = hl_heap L"
proof -
  from assms obtain n where "hl_head L = Some a" "hl_heap L a = Some n" "h_proc n = p" "chain (hl_heap L) (h_next n) as"
    by (auto simp: handlers_ok_def)
  then have "remove_handler p None (hl_head L) L = Some (L\<lparr>hl_head := h_next n\<rparr>)"
    and "handlers_ok (L\<lparr>hl_head := h_next n\<rparr>) as"
    using assms(1) by (simp_all add: remove_handler.simps [of p None "Some a"] handlers_ok_def)
  with assms(3-5) show
    "\<exists>L'. CBL_EXIT_PROC b x (Some p) L = Some (0, L') \<and> handlers_ok L' as \<and> hl_heap L' = hl_heap L"
    "\<exists>L'. CBL_ERROR_PROC b x (Some p) L = Some (0, L') \<and> handlers_ok L' as \<and> hl_heap L' = hl_heap L"
    by (simp_all add: CBL_EXIT_PROC_def CBL_ERROR_PROC_def)
qed

lemma chain_unique: "chain H h as \<Longrightarrow> chain H h bs \<Longrightarrow> as = bs"
proof (induction as arbitrary: h bs)
  case (Cons a as)
  then show ?case by (cases bs) auto
qed (case_tac bs; simp)

text \<open>
  Removing a procedure that is not the first frees the node before it and leaves the freed
  node linked: the next walk over the list reads freed storage, or never ends when the
  allocator hands the node out again.
\<close>

lemma dangling:
  "chain H h (as @ b # cs) \<Longrightarrow> b \<notin> set as \<Longrightarrow> chain (H(b := None)) h ds \<Longrightarrow> False"
proof (induction as arbitrary: h ds)
  case Nil
  then show ?case by (cases ds) auto
next
  case (Cons a as)
  then show ?case by (cases ds) (auto split: if_splits)
qed

lemma remove_later_dangles:
  assumes L: "handlers_ok L (as @ b # a # cs)" and p: "p \<notin> set (procs (hl_heap L) (as @ [b]))"
    "h_proc (the (hl_heap L a)) = p"
  shows "\<exists>L'. CBL_EXIT_PROC new 1 (Some p) L = Some (0, L') \<and> cob_stop_run L' = None"
    "\<exists>L'. CBL_ERROR_PROC new 1 (Some p) L = Some (0, L') \<and> cob_runtime_error L' = None"
proof -
  let ?L = "L\<lparr>hl_heap := (hl_heap L)(b := None)\<rparr>"
  have c: "chain (hl_heap L) (hl_head L) (as @ b # a # cs)" "b \<notin> set as" using L by (auto simp: handlers_ok_def)
  have "run_handlers (hl_head ?L) (hl_heap ?L) = None"
    using dangling [OF c] run_handlers_ends [of "hl_head ?L" "hl_heap ?L"] by (cases "run_handlers (hl_head ?L) (hl_heap ?L)") auto
  with remove_later [OF c(1) p, of None] show
    "\<exists>L'. CBL_EXIT_PROC new 1 (Some p) L = Some (0, L') \<and> cob_stop_run L' = None"
    "\<exists>L'. CBL_ERROR_PROC new 1 (Some p) L = Some (0, L') \<and> cob_runtime_error L' = None"
    by (simp_all add: CBL_EXIT_PROC_def CBL_ERROR_PROC_def cob_stop_run_def cob_runtime_error_def)
qed

section \<open>Facts: the environment\<close>

lemma env_round_trip:
  assumes n: "c_string (cob_field_to_string f1) = nm" "nm \<noteq> []" "61 \<notin> set nm" "fsize f1 < COB_SMALL_BUFF"
  shows "\<exists>C'. cob_set_environment R C f1 f2 = (R, C') \<and>
    cob_get_environment T E M R' C' f1 f3 = map_option (Pair R') (cob_memcpy T E M f3 (c_string (cob_field_to_string f2)))"
proof -
  have "takeWhile (\<lambda>b. b \<noteq> 61) (nm @ 61 # v) = nm" "dropWhile (\<lambda>b. b \<noteq> 61) (nm @ 61 # v) = 61 # v" for v
    using n(3) by (induction nm) auto
  moreover have "\<not> COB_SMALL_BUFF - 1 < fsize f1" using n(4) by simp
  ultimately show ?thesis
    using n by (cases "ce_name C") (simp_all add: cob_set_environment_def cob_display_environment_def cob_display_env_value_def
        cob_get_environment_def put_env_def accept_string_def Let_def)
qed

lemma run_handlers_ok: "handlers_ok L as \<Longrightarrow> cob_stop_run L = Some (procs (hl_heap L) as)"
  by (simp add: handlers_ok_def cob_stop_run_def run_chain)

end
