(* ===== verification/Cob_Strings.thy ===== *)
theory Cob_Strings
  imports Cob_Services
begin

text \<open>
  strings.c: INSPECT, STRING and UNSTRING. Each statement is compiled to a call that starts
  it, one call per phrase, and one that ends it; between the calls the file keeps its state
  in static variables, which are a record here.

  The pointers into the inspected data are offsets into it. \<open>memcmp\<close> is only called inside
  the data, so it is the comparison of byte lists. An empty pattern keeps the loops of
  \<open>inspect_common\<close> from ending, except for \<open>INSPECT_FIRST\<close>; the result is then \<open>None\<close>.
\<close>

section \<open>INSPECT\<close>

datatype inspect_type = INSPECT_ALL | INSPECT_LEADING | INSPECT_FIRST | INSPECT_TRAILING

record inspect_state =
  in_var :: cob_field
  in_data :: bytes
  in_start :: nat
  in_end :: nat
  in_mark :: "int list"
  in_replacing :: bool
  in_sign :: int

definition cob_low :: cob_field where
  "cob_low = cob_fld COB_TYPE_ALPHANUMERIC_ALL 0 0 0 [] [0]"

definition cob_zero :: cob_field where
  "cob_zero = cob_fld COB_TYPE_ALPHANUMERIC_ALL 0 0 0 [] [chr_0]"

text \<open>The bytes of \<open>f1\<close>, repeated to a number of characters.\<close>

fun figurative_loop :: "bytes \<Rightarrow> nat \<Rightarrow> nat \<Rightarrow> bytes" where
  "figurative_loop d i 0 = []"
| "figurative_loop d i (Suc n) = d ! i # figurative_loop d (if length d \<le> Suc i then 0 else Suc i) n"

definition alloc_figurative :: "cob_field \<Rightarrow> cob_field \<Rightarrow> cob_field option" where
  "alloc_figurative f1 f2 =
    (if fdata f1 = [] \<and> fsize f2 \<noteq> 0 then None
     else Some (cob_fld COB_TYPE_ALPHANUMERIC 0 0 0 [] (figurative_loop (fdata f1) 0 (fsize f2))))"

definition match_at :: "bytes \<Rightarrow> bytes \<Rightarrow> nat \<Rightarrow> bool" where
  "match_at pat d p \<longleftrightarrow> take (length pat) (drop p d) = pat"

definition unmarked :: "nat \<Rightarrow> int list \<Rightarrow> nat \<Rightarrow> bool" where
  "unmarked k mark p \<longleftrightarrow> list_all (\<lambda>m. m = -1) (take k (drop p mark))"

definition put_marks :: "int list \<Rightarrow> int list \<Rightarrow> nat \<Rightarrow> int list" where
  "put_marks vs mark p = take p mark @ vs @ drop (p + length vs) mark"

text \<open>
  The loop of ALL, LEADING and FIRST at position \<open>p\<close>, up to \<open>e\<close>; \<open>vs\<close> is what a match
  writes to the marks. A pattern that is not empty makes it end.
\<close>

function inspect_forward ::
  "inspect_type \<Rightarrow> int list \<Rightarrow> bytes \<Rightarrow> bytes \<Rightarrow> nat \<Rightarrow> nat \<Rightarrow> int list \<Rightarrow> nat \<Rightarrow> int list \<times> nat" where
  "inspect_forward ty vs pat d e p mark n =
    (if pat = [] \<or> e < p + length pat then (mark, n)
     else if match_at pat d p then
       if unmarked (length pat) mark p then
         if ty = INSPECT_FIRST then (put_marks vs mark p, Suc n)
         else inspect_forward ty vs pat d e (p + length pat) (put_marks vs mark p) (Suc n)
       else inspect_forward ty vs pat d e (p + 1) mark n
     else if ty = INSPECT_LEADING then (mark, n)
     else inspect_forward ty vs pat d e (p + 1) mark n)"
  by pat_completeness auto

termination
  by (relation "measure (\<lambda>(ty, vs, pat, d, e, p, mark, n). e - p)") (auto simp: neq_Nil_conv)

declare inspect_forward.simps [simp del]

text \<open>The loop of TRAILING: \<open>i\<close> is the position in the window that starts at \<open>s\<close>.\<close>

function inspect_backward ::
  "int list \<Rightarrow> bytes \<Rightarrow> bytes \<Rightarrow> nat \<Rightarrow> int \<Rightarrow> int list \<Rightarrow> nat \<Rightarrow> int list \<times> nat" where
  "inspect_backward vs pat d s i mark n =
    (if pat = [] \<or> i < 0 then (mark, n)
     else if match_at pat d (s + nat i) then
       if unmarked (length pat) mark (s + nat i) then
         inspect_backward vs pat d s (i - int (length pat)) (put_marks vs mark (s + nat i)) (Suc n)
       else inspect_backward vs pat d s (i - 1) mark n
     else (mark, n))"
  by pat_completeness auto

termination
  by (relation "measure (\<lambda>(vs, pat, d, s, i, mark, n). nat (i + 1))") (auto simp: neq_Nil_conv)

declare inspect_backward.simps [simp del]

definition inspect_common ::
  "cob_rt \<Rightarrow> target \<Rightarrow> fp_env \<Rightarrow> cob_module \<Rightarrow> cob_accs \<Rightarrow> inspect_state \<Rightarrow> cob_field option \<Rightarrow> cob_field option \<Rightarrow>
   inspect_type \<Rightarrow> (cob_rt \<times> cob_accs \<times> inspect_state \<times> cob_field) option" where
  "inspect_common R T E M N S f1 f2 ty = do {
     let f1 = (case f1 of None \<Rightarrow> cob_low | Some f \<Rightarrow> f);
     let f2 = (case f2 of None \<Rightarrow> cob_low | Some f \<Rightarrow> f);
     if in_replacing S \<and> fsize f1 \<noteq> fsize f2 \<and> field_type f1 \<noteq> COB_TYPE_ALPHANUMERIC_ALL
     then Some (cob_set_exception R COB_EC_RANGE_INSPECT_SIZE, N, S, f1)
     else do {
       g1 \<leftarrow> (if in_replacing S \<and> fsize f1 \<noteq> fsize f2 then alloc_figurative f1 f2 else Some f1);
       let vs = (if in_replacing S then map uint (fdata g1) else replicate (fsize f2) 1);
       let (mark, n) = (if fdata f2 = [] then (in_mark S, 1)
         else if ty = INSPECT_TRAILING then
           inspect_backward vs (fdata f2) (in_data S) (in_start S)
             (int (in_end S) - int (in_start S) - int (fsize f2)) (in_mark S) 0
         else inspect_forward ty vs (fdata f2) (in_data S) (in_end S) (in_start S) (in_mark S) 0);
       if fdata f2 = [] \<and> ty \<noteq> INSPECT_FIRST then None
       else if n > 0 \<and> \<not> in_replacing S then
         map_option (\<lambda>(_, R, N, f1). (R, N, S\<lparr>in_mark := mark\<rparr>, f1)) (cob_add_int R T E M N f1 (int n))
       else Some (R, N, S\<lparr>in_mark := mark\<rparr>, f1) } }"

definition cob_inspect_init :: "cob_rt \<Rightarrow> cob_module \<Rightarrow> cob_field \<Rightarrow> bool \<Rightarrow> (cob_rt \<times> inspect_state) option" where
  "cob_inspect_init R M var replacing = do {
     (sign, v) \<leftarrow> cob_get_sign M var;
     Some (cob_clear_exception R, \<lparr>in_var = v, in_data = field_bytes v, in_start = 0, in_end = 0,
        in_mark = replicate (data_size v) (-1), in_replacing = replacing, in_sign = sign\<rparr>) }"

definition cob_inspect_start :: "inspect_state \<Rightarrow> inspect_state" where
  "cob_inspect_start S = S\<lparr>in_start := 0, in_end := length (in_data S)\<rparr>"

text \<open>The first place from \<open>p\<close> on where a string lies before \<open>e\<close>.\<close>

function find_from :: "bytes \<Rightarrow> bytes \<Rightarrow> nat \<Rightarrow> nat \<Rightarrow> nat option" where
  "find_from str d e p =
    (if e < p + length str then None
     else if match_at str d p then Some p
     else find_from str d e (p + 1))"
  by pat_completeness auto

termination
  by (relation "measure (\<lambda>(str, d, e, p). Suc e - p)") auto

declare find_from.simps [simp del]

definition cob_inspect_before :: "inspect_state \<Rightarrow> bytes \<Rightarrow> inspect_state" where
  "cob_inspect_before S str =
    (case find_from str (in_data S) (in_end S) (in_start S) of None \<Rightarrow> S | Some p \<Rightarrow> S\<lparr>in_end := p\<rparr>)"

definition cob_inspect_after :: "inspect_state \<Rightarrow> bytes \<Rightarrow> inspect_state" where
  "cob_inspect_after S str =
    (case find_from str (in_data S) (in_end S) (in_start S) of
       None \<Rightarrow> S\<lparr>in_start := in_end S\<rparr> | Some p \<Rightarrow> S\<lparr>in_start := p + length str\<rparr>)"

text \<open>The marks of the window, each free one set.\<close>

definition mark_window :: "int \<Rightarrow> inspect_state \<Rightarrow> int list" where
  "mark_window v S = take (in_start S) (in_mark S) @
     map (\<lambda>m. if m = -1 then v else m) (take (in_end S - in_start S) (drop (in_start S) (in_mark S))) @
     drop (max (in_start S) (in_end S)) (in_mark S)"

definition cob_inspect_characters ::
  "cob_rt \<Rightarrow> target \<Rightarrow> fp_env \<Rightarrow> cob_module \<Rightarrow> cob_accs \<Rightarrow> inspect_state \<Rightarrow> cob_field \<Rightarrow>
   (cob_rt \<times> cob_accs \<times> inspect_state \<times> cob_field) option" where
  "cob_inspect_characters R T E M N S f1 =
    (if in_replacing S then do {
       c \<leftarrow> (if in_start S < in_end S then rd (fdata f1) 0 else Some 0);
       Some (R, N, S\<lparr>in_mark := mark_window (uint c) S\<rparr>, f1) }
     else
       let n = length (filter (\<lambda>m. m = -1) (take (in_end S - in_start S) (drop (in_start S) (in_mark S))));
           S = S\<lparr>in_mark := mark_window 1 S\<rparr> in
       if n > 0 then map_option (\<lambda>(_, R, N, f1). (R, N, S, f1)) (cob_add_int R T E M N f1 (int n))
       else Some (R, N, S, f1))"

definition cob_inspect_all where
  "cob_inspect_all R T E M N S f1 f2 = inspect_common R T E M N S f1 f2 INSPECT_ALL"

definition cob_inspect_leading where
  "cob_inspect_leading R T E M N S f1 f2 = inspect_common R T E M N S f1 f2 INSPECT_LEADING"

definition cob_inspect_first where
  "cob_inspect_first R T E M N S f1 f2 = inspect_common R T E M N S f1 f2 INSPECT_FIRST"

definition cob_inspect_trailing where
  "cob_inspect_trailing R T E M N S f1 f2 = inspect_common R T E M N S f1 f2 INSPECT_TRAILING"

text \<open>
  CONVERTING with a list of replacements that is not empty: the marks keep a converted character from being converted again; the loop reads
  them from the first one on, whatever the window.
\<close>

fun convert_loop :: "u8 \<Rightarrow> u8 \<Rightarrow> bytes \<Rightarrow> int list \<Rightarrow> bytes \<times> int list" where
  "convert_loop c t (b # bs) (m # ms) =
    (let (bs', ms') = convert_loop c t bs ms in
     if m = -1 \<and> b = c then (t # bs', 1 # ms') else (b # bs', m # ms'))"
| "convert_loop c t bs ms = (bs, ms)"

fun converting_loop :: "bytes \<Rightarrow> bytes \<Rightarrow> nat \<Rightarrow> bytes \<Rightarrow> int list \<Rightarrow> bytes \<times> int list" where
  "converting_loop [] to j d ms = (d, ms)"
| "converting_loop (c # cs) to j d ms =
    (let (d, ms) = convert_loop c (to ! (if length to \<le> j then length to - 1 else j)) d ms in
     converting_loop cs to (Suc j) d ms)"

definition cob_inspect_converting :: "inspect_state \<Rightarrow> cob_field \<Rightarrow> cob_field \<Rightarrow> inspect_state option" where
  "cob_inspect_converting S f1 f2 =
    (if fdata f2 = [] \<and> fdata f1 \<noteq> [] then None
     else let len = in_end S - in_start S;
         (d, ms) = converting_loop (fdata f1) (fdata f2) 0 (take len (drop (in_start S) (in_data S))) (take len (in_mark S)) in
       Some (S\<lparr>in_data := take (in_start S) (in_data S) @ d @ drop (in_start S + len) (in_data S),
         in_mark := ms @ drop len (in_mark S)\<rparr>))"

definition cob_inspect_finish :: "cob_module \<Rightarrow> inspect_state \<Rightarrow> cob_field option" where
  "cob_inspect_finish M S =
    (let d = (if in_replacing S then map2 (\<lambda>b m. if m \<noteq> -1 then word_of_int m else b) (in_data S) (in_mark S)
              else in_data S) in
     cob_put_sign M (put_bytes (in_var S) d) (in_sign S))"

section \<open>STRING\<close>

record string_state =
  st_dst :: cob_field
  st_ptr :: "cob_field option"
  st_dlm :: "bytes option"
  st_offset :: int

definition cob_string_init ::
  "cob_rt \<Rightarrow> target \<Rightarrow> fp_env \<Rightarrow> cob_module \<Rightarrow> cob_field \<Rightarrow> cob_field option \<Rightarrow> (cob_rt \<times> string_state) option" where
  "cob_string_init R T E M dst ptr = do {
     let R = cob_clear_exception R;
     let S = \<lparr>st_dst = dst, st_ptr = None, st_dlm = None, st_offset = 0\<rparr>;
     case ptr of
       None \<Rightarrow> Some (R, S)
     | Some p \<Rightarrow> do {
         (n, p) \<leftarrow> cob_get_int T E M p;
         let off = i32 (n - 1);
         let S = S\<lparr>st_ptr := Some p, st_offset := off\<rparr>;
         if off < 0 \<or> int (fsize dst) \<le> off then Some (cob_set_exception R COB_EC_OVERFLOW_STRING, S)
         else Some (R, S) } }"

definition cob_string_delimited :: "string_state \<Rightarrow> cob_field option \<Rightarrow> string_state" where
  "cob_string_delimited S dlm = S\<lparr>st_dlm := map_option fdata dlm\<rparr>"

definition cob_string_append :: "cob_rt \<Rightarrow> string_state \<Rightarrow> cob_field \<Rightarrow> (cob_rt \<times> string_state) option" where
  "cob_string_append R S src =
    (if exception_code R \<noteq> 0 then Some (R, S)
     else let src_size = (case st_dlm S of None \<Rightarrow> fsize src
            | Some d \<Rightarrow> (case find_from d (fdata src) (fsize src) 0 of None \<Rightarrow> fsize src | Some i \<Rightarrow> i));
          room = fsize (st_dst S) - nat (st_offset S) in
       if src_size \<le> room then do {
         bs \<leftarrow> wrs (fdata (st_dst S)) (nat (st_offset S)) (take src_size (fdata src));
         Some (R, S\<lparr>st_dst := set_data (st_dst S) bs, st_offset := st_offset S + int src_size\<rparr>) }
       else do {
         bs \<leftarrow> wrs (fdata (st_dst S)) (nat (st_offset S)) (take room (fdata src));
         Some (cob_set_exception R COB_EC_OVERFLOW_STRING,
           S\<lparr>st_dst := set_data (st_dst S) bs, st_offset := st_offset S + int room\<rparr>) })"

definition cob_string_finish :: "target \<Rightarrow> fp_env \<Rightarrow> cob_module \<Rightarrow> string_state \<Rightarrow> string_state option" where
  "cob_string_finish T E M S =
    (case st_ptr S of None \<Rightarrow> Some S
     | Some p \<Rightarrow> map_option (\<lambda>p. S\<lparr>st_ptr := Some p\<rparr>) (cob_set_int T E M p (st_offset S + 1)))"

section \<open>UNSTRING\<close>

text \<open>A delimiter is its bytes and whether \<open>ALL\<close> was given.\<close>

record unstring_state =
  un_src :: cob_field
  un_ptr :: "cob_field option"
  un_dlms :: "(bytes \<times> bool) list"
  un_offset :: int
  un_count :: int

definition cob_unstring_init ::
  "cob_rt \<Rightarrow> target \<Rightarrow> fp_env \<Rightarrow> cob_module \<Rightarrow> cob_field \<Rightarrow> cob_field option \<Rightarrow> (cob_rt \<times> unstring_state) option" where
  "cob_unstring_init R T E M src ptr = do {
     let R = cob_clear_exception R;
     let S = \<lparr>un_src = src, un_ptr = None, un_dlms = [], un_offset = 0, un_count = 0\<rparr>;
     case ptr of
       None \<Rightarrow> Some (R, S)
     | Some p \<Rightarrow> do {
         (n, p) \<leftarrow> cob_get_int T E M p;
         let off = i32 (n - 1);
         let S = S\<lparr>un_ptr := Some p, un_offset := off\<rparr>;
         if off < 0 \<or> int (fsize src) \<le> off then Some (cob_set_exception R COB_EC_OVERFLOW_UNSTRING, S)
         else Some (R, S) } }"

definition cob_unstring_delimited :: "unstring_state \<Rightarrow> cob_field \<Rightarrow> bool \<Rightarrow> unstring_state" where
  "cob_unstring_delimited S dlm all = S\<lparr>un_dlms := un_dlms S @ [(fdata dlm, all)]\<rparr>"

text \<open>The first delimiter that lies at position \<open>p\<close>, and the first position that has one.\<close>

fun dlm_at :: "(bytes \<times> bool) list \<Rightarrow> bytes \<Rightarrow> nat \<Rightarrow> (bytes \<times> bool) option" where
  "dlm_at [] d p = None"
| "dlm_at ((dp, all) # ds) d p =
    (if p + length dp \<le> length d \<and> match_at dp d p then Some (dp, all) else dlm_at ds d p)"

function scan_dlm :: "(bytes \<times> bool) list \<Rightarrow> bytes \<Rightarrow> nat \<Rightarrow> (nat \<times> bytes \<times> bool) option" where
  "scan_dlm ds d p =
    (if length d \<le> p then None
     else case dlm_at ds d p of Some (dp, all) \<Rightarrow> Some (p, dp, all) | None \<Rightarrow> scan_dlm ds d (p + 1))"
  by pat_completeness auto

termination
  by (relation "measure (\<lambda>(ds, d, p). length d - p)") auto

declare scan_dlm.simps [simp del]

text \<open>Where the run of a delimiter ends; an empty delimiter would run on for ever.\<close>

function skip_all :: "bytes \<Rightarrow> bytes \<Rightarrow> nat \<Rightarrow> nat option" where
  "skip_all dp d p =
    (if p < length d \<and> p + length dp \<le> length d \<and> match_at dp d p then
       if dp = [] then None else skip_all dp d (p + length dp)
     else Some p)"
  by pat_completeness auto

termination
  by (relation "measure (\<lambda>(dp, d, p). length d - p)") (auto simp: neq_Nil_conv)

declare skip_all.simps [simp del]

text \<open>One receiving item: what it is given, the delimiter found, and the new offset.\<close>

definition unstring_take :: "unstring_state \<Rightarrow> nat \<Rightarrow> (bytes \<times> bytes option \<times> nat) option" where
  "unstring_take S room =
    (let d = fdata (un_src S); off = nat (un_offset S) in
     if un_dlms S = [] then
       let k = min room (length d - off) in Some (take k (drop off d), None, off + k)
     else case scan_dlm (un_dlms S) d off of
       None \<Rightarrow> Some (drop off d, None, length d)
     | Some (p, dp, all) \<Rightarrow> do {
         stop \<leftarrow> (if all then skip_all dp d (p + length dp) else Some (p + length dp));
         Some (take (p - off) (drop off d), Some dp, stop) })"

definition cob_unstring_into ::
  "cob_rt \<Rightarrow> target \<Rightarrow> fp_env \<Rightarrow> cob_module \<Rightarrow> unstring_state \<Rightarrow> cob_field \<Rightarrow> cob_field option \<Rightarrow> cob_field option \<Rightarrow>
   (unstring_state \<times> cob_field \<times> cob_field option \<times> cob_field option) option" where
  "cob_unstring_into R T E M S dst dlm cnt =
    (if exception_code R \<noteq> 0 \<or> int (fsize (un_src S)) \<le> un_offset S then Some (S, dst, dlm, cnt)
     else do {
       (tok, dp, off) \<leftarrow> unstring_take S (data_size dst);
       dst \<leftarrow> cob_memcpy T E M dst tok;
       dlm \<leftarrow> (case dlm of None \<Rightarrow> Some None
         | Some f \<Rightarrow> map_option Some (case dp of
             Some b \<Rightarrow> cob_memcpy T E M f b
           | None \<Rightarrow> map_option snd (cob_move T E M (if field_is_numeric f then cob_zero else cob_space) f)));
       cnt \<leftarrow> (case cnt of None \<Rightarrow> Some None
         | Some f \<Rightarrow> map_option Some (cob_set_int T E M f (int (length tok))));
       Some (S\<lparr>un_offset := int off, un_count := un_count S + 1\<rparr>, dst, dlm, cnt) })"

definition cob_unstring_tallying ::
  "cob_rt \<Rightarrow> target \<Rightarrow> fp_env \<Rightarrow> cob_module \<Rightarrow> cob_accs \<Rightarrow> unstring_state \<Rightarrow> cob_field \<Rightarrow>
   (int \<times> cob_rt \<times> cob_accs \<times> cob_field) option" where
  "cob_unstring_tallying R T E M N S f = cob_add_int R T E M N f (un_count S)"

definition cob_unstring_finish ::
  "cob_rt \<Rightarrow> target \<Rightarrow> fp_env \<Rightarrow> cob_module \<Rightarrow> unstring_state \<Rightarrow> (cob_rt \<times> unstring_state) option" where
  "cob_unstring_finish R T E M S = do {
     let R = (if un_offset S < int (fsize (un_src S)) then cob_set_exception R COB_EC_OVERFLOW_UNSTRING else R);
     case un_ptr S of
       None \<Rightarrow> Some (R, S)
     | Some p \<Rightarrow> map_option (\<lambda>p. (R, S\<lparr>un_ptr := Some p\<rparr>)) (cob_set_int T E M p (un_offset S + 1)) }"

section \<open>Facts: searching\<close>

lemma match_at_drop: "match_at pat d p \<longleftrightarrow> (\<exists>rest. drop p d = pat @ rest)"
  by (metis append_eq_conv_conj append_take_drop_id match_at_def)

lemma find_from_Some:
  "find_from str d e p = Some q \<Longrightarrow> p \<le> q \<and> q + length str \<le> e \<and> match_at str d q \<and> (\<forall>r. p \<le> r \<longrightarrow> r < q \<longrightarrow> \<not> match_at str d r)"
proof (induction str d e p rule: find_from.induct)
  case (1 str d e p)
  then show ?case
    by (subst (asm) (2) find_from.simps) (force split: if_splits simp: le_eq_less_or_eq [of p])
qed

lemma find_from_None:
  "find_from str d e p = None \<Longrightarrow> \<forall>r. p \<le> r \<longrightarrow> r + length str \<le> e \<longrightarrow> \<not> match_at str d r"
proof (induction str d e p rule: find_from.induct)
  case (1 str d e p)
  then show ?case
    by (subst (asm) (2) find_from.simps) (force split: if_splits simp: le_eq_less_or_eq [of p])
qed

section \<open>Facts: INSPECT\<close>

text \<open>
  The reference: the occurrences of a pattern from left to right, none of them overlapping,
  and the text with each of them replaced.
\<close>

function replace_all :: "bytes \<Rightarrow> bytes \<Rightarrow> bytes \<Rightarrow> bytes" where
  "replace_all pat rep s =
    (if pat = [] \<or> length s < length pat then s
     else if take (length pat) s = pat then rep @ replace_all pat rep (drop (length pat) s)
     else hd s # replace_all pat rep (tl s))"
  by pat_completeness auto

termination
  by (relation "measure (\<lambda>(pat, rep, s). length s)") (auto simp: neq_Nil_conv)

declare replace_all.simps [simp del]

function occurrences :: "bytes \<Rightarrow> bytes \<Rightarrow> nat" where
  "occurrences pat s =
    (if pat = [] \<or> length s < length pat then 0
     else if take (length pat) s = pat then Suc (occurrences pat (drop (length pat) s))
     else occurrences pat (tl s))"
  by pat_completeness auto

termination
  by (relation "measure (\<lambda>(pat, s). length s)") (auto simp: neq_Nil_conv)

declare occurrences.simps [simp del]

definition apply_marks :: "bytes \<Rightarrow> int list \<Rightarrow> bytes" where
  "apply_marks d mark = map2 (\<lambda>b m. if m \<noteq> -1 then word_of_int m else b) d mark"

lemma apply_marks_append:
  "length d = length m \<Longrightarrow> apply_marks (d @ d') (m @ m') = apply_marks d m @ apply_marks d' m'"
  by (simp add: apply_marks_def)

lemma apply_marks_none: "length d \<le> n \<Longrightarrow> apply_marks d (replicate n (-1)) = d"
proof (induction d arbitrary: n)
  case (Cons b d)
  then show ?case by (cases n) (auto simp: apply_marks_def)
qed (simp add: apply_marks_def)

lemma apply_marks_all: "length d = length vs \<Longrightarrow> apply_marks d (map uint vs) = (vs :: bytes)"
proof (induction d vs rule: list_induct2)
  case (Cons b d v vs)
  have "uint v \<noteq> -1" using uint_ge_0 [of v] by linarith
  with Cons show ?case by (simp add: apply_marks_def)
qed (simp add: apply_marks_def)

function all_marks :: "int list \<Rightarrow> bytes \<Rightarrow> bytes \<Rightarrow> int list" where
  "all_marks vs pat s =
    (if pat = [] \<or> length s < length pat then replicate (length s) (-1)
     else if take (length pat) s = pat then vs @ all_marks vs pat (drop (length pat) s)
     else -1 # all_marks vs pat (tl s))"
  by pat_completeness auto

termination
  by (relation "measure (\<lambda>(vs, pat, s). length s)") (auto simp: neq_Nil_conv)

declare all_marks.simps [simp del]

lemma match_at_window:
  "length pat \<le> length w \<Longrightarrow> match_at pat (u @ w @ v) (length u) \<longleftrightarrow> take (length pat) w = pat"
  by (simp add: match_at_def)

lemma unmarked_window: "k \<le> n \<Longrightarrow> unmarked k (u @ replicate n (-1) @ v) (length u)"
  by (simp add: unmarked_def list_all_iff)

lemma put_marks_window:
  "length vs = k \<Longrightarrow> k \<le> n \<Longrightarrow> put_marks vs (u @ replicate n (-1) @ v) (length u) = (u @ vs) @ replicate (n - k) (-1) @ v"
  by (simp add: put_marks_def)

lemma inspect_forward_all:
  assumes "pat \<noteq> []" "length vs = length pat" "length mu = length u"
  shows "inspect_forward INSPECT_ALL vs pat (u @ w @ x) (length u + length w) (length u)
      (mu @ replicate (length w) (-1) @ mx) n = (mu @ all_marks vs pat w @ mx, n + occurrences pat w)"
  using assms
proof (induction vs pat w arbitrary: u mu n rule: all_marks.induct)
  case (1 vs pat w)
  let ?k = "length pat"
  show ?case
  proof (cases "length w < ?k")
    case True
    then show ?thesis by (simp add: inspect_forward.simps all_marks.simps occurrences.simps)
  next
    case long: False
    show ?thesis
    proof (cases "take ?k w = pat")
      case True
      let ?w = "drop ?k w"
      have w: "w = pat @ ?w" using True by (metis append_take_drop_id)
      have IH: "inspect_forward INSPECT_ALL vs pat ((u @ pat) @ ?w @ x) (length (u @ pat) + length ?w) (length (u @ pat))
          ((mu @ vs) @ replicate (length ?w) (-1) @ mx) (Suc n) =
          ((mu @ vs) @ all_marks vs pat ?w @ mx, Suc n + occurrences pat ?w)"
        using 1(3-5) long True by (intro 1(1)) simp_all
      have d: "(u @ pat) @ ?w @ x = u @ w @ x" using w by simp
      have e: "length (u @ pat) + length ?w = length u + length w" using long by simp
      have "inspect_forward INSPECT_ALL vs pat (u @ w @ x) (length u + length w) (length u)
          (mu @ replicate (length w) (-1) @ mx) n =
        inspect_forward INSPECT_ALL vs pat (u @ w @ x) (length u + length w) (length u + ?k)
          ((mu @ vs) @ replicate (length w - ?k) (-1) @ mx) (Suc n)"
        using long True 1(3-5) match_at_window [of pat w u x] unmarked_window [of ?k "length w" mu mx]
          put_marks_window [of vs ?k "length w" mu mx]
        by (subst inspect_forward.simps) simp
      also have "\<dots> = ((mu @ vs) @ all_marks vs pat ?w @ mx, Suc n + occurrences pat ?w)"
        using IH unfolding d e by simp
      finally show ?thesis
        using long True 1(3) by (simp add: all_marks.simps [of vs pat w] occurrences.simps [of pat w])
    next
      case False
      obtain b v where w: "w = b # v" using long 1(3) by (cases w) auto
      have IH: "inspect_forward INSPECT_ALL vs pat ((u @ [b]) @ tl w @ x) (length (u @ [b]) + length (tl w)) (length (u @ [b]))
          ((mu @ [-1]) @ replicate (length (tl w)) (-1) @ mx) n =
          ((mu @ [-1]) @ all_marks vs pat (tl w) @ mx, n + occurrences pat (tl w))"
        using 1(3-5) long False by (intro 1(2)) simp_all
      have "inspect_forward INSPECT_ALL vs pat (u @ w @ x) (length u + length w) (length u)
          (mu @ replicate (length w) (-1) @ mx) n =
        inspect_forward INSPECT_ALL vs pat (u @ w @ x) (length u + length w) (length u + 1)
          (mu @ replicate (length w) (-1) @ mx) n"
        using long False match_at_window [of pat w u x] 1(3) by (subst inspect_forward.simps) simp
      also have "\<dots> = ((mu @ [-1]) @ all_marks vs pat v @ mx, n + occurrences pat v)"
        using IH w by simp
      finally show ?thesis
        using long False 1(3) w by (simp add: all_marks.simps [of vs pat "b # v"] occurrences.simps [of pat "b # v"])
    qed
  qed
qed

lemma length_all_marks: "length vs = length pat \<Longrightarrow> length (all_marks vs pat s) = length s"
proof (induction vs pat s rule: all_marks.induct)
  case (1 vs pat s)
  then show ?case by (subst all_marks.simps) (auto simp: neq_Nil_conv)
qed

lemma apply_all_marks:
  "length rep = length pat \<Longrightarrow> apply_marks s (all_marks (map uint rep) pat s) = replace_all pat rep s"
proof (induction pat rep s rule: replace_all.induct)
  case (1 pat rep s)
  let ?k = "length pat"
  show ?case
  proof (cases "pat = [] \<or> length s < ?k")
    case True
    then show ?thesis by (simp add: all_marks.simps [of _ pat s] replace_all.simps [of pat rep s] apply_marks_none)
  next
    case long: False
    show ?thesis
    proof (cases "take ?k s = pat")
      case True
      have "apply_marks (take ?k s @ drop ?k s) (map uint rep @ all_marks (map uint rep) pat (drop ?k s)) =
          rep @ replace_all pat rep (drop ?k s)"
        using 1 long True by (subst apply_marks_append) (simp_all add: apply_marks_all)
      then show ?thesis unfolding append_take_drop_id
        using long True by (simp add: all_marks.simps [of _ pat s] replace_all.simps [of pat rep s])
    next
      case False
      obtain b v where s: "s = b # v" using long by (cases s) auto
      show ?thesis using 1 long False s
        by (simp add: all_marks.simps [of _ pat "b # v"] replace_all.simps [of pat rep "b # v"] apply_marks_def)
    qed
  qed
qed

text \<open>The window that BEFORE and AFTER cut out lies inside the data; they change nothing else.\<close>

inductive window_of :: "inspect_state \<Rightarrow> inspect_state \<Rightarrow> bool" for S0 where
  whole: "window_of S0 (cob_inspect_start S0)"
| before: "window_of S0 S \<Longrightarrow> window_of S0 (cob_inspect_before S str)"
| after: "window_of S0 S \<Longrightarrow> window_of S0 (cob_inspect_after S str)"

lemma window_ofE:
  assumes "window_of S0 S"
  obtains a b where "S = S0\<lparr>in_start := a, in_end := b\<rparr>" "a \<le> b" "b \<le> length (in_data S0)"
proof -
  from assms have "\<exists>a b. S = S0\<lparr>in_start := a, in_end := b\<rparr> \<and> a \<le> b \<and> b \<le> length (in_data S0)"
  proof (induction rule: window_of.induct)
    case whole
    show ?case by (intro exI [of _ 0] exI [of _ "length (in_data S0)"]) (simp add: cob_inspect_start_def)
  next
    case (before S str)
    then obtain a b where S: "S = S0\<lparr>in_start := a, in_end := b\<rparr>" "a \<le> b" "b \<le> length (in_data S0)" by blast
    show ?case
    proof (cases "find_from str (in_data S0) b a")
      case None
      with S show ?thesis by (intro exI [of _ a] exI [of _ b]) (simp add: cob_inspect_before_def)
    next
      case (Some q)
      with S find_from_Some [OF Some] show ?thesis
        by (intro exI [of _ a] exI [of _ q]) (simp add: cob_inspect_before_def)
    qed
  next
    case (after S str)
    then obtain a b where S: "S = S0\<lparr>in_start := a, in_end := b\<rparr>" "a \<le> b" "b \<le> length (in_data S0)" by blast
    show ?case
    proof (cases "find_from str (in_data S0) b a")
      case None
      with S show ?thesis by (intro exI [of _ b]) (simp add: cob_inspect_after_def)
    next
      case (Some q)
      with S find_from_Some [OF Some] show ?thesis
        by (intro exI [of _ "q + length str"] exI [of _ b]) (simp add: cob_inspect_after_def)
    qed
  qed
  with that show thesis by blast
qed

definition window :: "inspect_state \<Rightarrow> bytes" where
  "window S = take (in_end S - in_start S) (drop (in_start S) (in_data S))"

lemma window_split:
  assumes "in_start S \<le> in_end S" "in_end S \<le> length (in_data S)"
  shows "in_data S = take (in_start S) (in_data S) @ window S @ drop (in_end S) (in_data S)"
    "length (take (in_start S) (in_data S)) = in_start S" "length (window S) = in_end S - in_start S"
proof -
  have "drop (in_start S) (in_data S) = window S @ drop (in_end S) (in_data S)"
    using assms append_take_drop_id [of "in_end S - in_start S" "drop (in_start S) (in_data S)"]
    by (simp add: window_def)
  then show "in_data S = take (in_start S) (in_data S) @ window S @ drop (in_end S) (in_data S)"
    by (metis append_take_drop_id)
  show "length (take (in_start S) (in_data S)) = in_start S" "length (window S) = in_end S - in_start S"
    using assms by (simp_all add: window_def)
qed

lemma inspect_all_window:
  assumes w: "in_start S \<le> in_end S" "in_end S \<le> length (in_data S)"
    and m: "in_mark S = replicate (length (in_data S)) (-1)" and p: "pat \<noteq> []" "length vs = length pat"
  shows "inspect_forward INSPECT_ALL vs pat (in_data S) (in_end S) (in_start S) (in_mark S) 0 =
    (replicate (in_start S) (-1) @ all_marks vs pat (window S) @ replicate (length (in_data S) - in_end S) (-1),
     occurrences pat (window S))"
proof -
  let ?u = "take (in_start S) (in_data S)" and ?x = "drop (in_end S) (in_data S)"
  note s = window_split [OF w]
  have "replicate (length (in_data S)) (-1) = replicate (in_start S) (-1) @ replicate (length (window S)) (-1) @
      replicate (length (in_data S) - in_end S) (-1 :: int)"
    using w s(3) by (simp flip: replicate_add)
  with inspect_forward_all [of pat vs "replicate (in_start S) (-1)" ?u "window S" ?x
      "replicate (length (in_data S) - in_end S) (-1)" 0] p s w m
  show ?thesis by (simp flip: s(1))
qed

lemma replacing_all:
  assumes init: "cob_inspect_init R M f True = Some (R', S0)" and wf: "wf_field f" and win: "window_of S0 S"
    and len: "fsize f1 = fsize f2" "fdata f2 \<noteq> []"
  shows "\<exists>S'. cob_inspect_all R' T E M N S (Some f1) (Some f2) = Some (R', N, S', f1) \<and>
    cob_inspect_finish M S' = cob_put_sign M (put_bytes (in_var S0)
      (take (in_start S) (in_data S0) @ replace_all (fdata f2) (fdata f1) (window S) @ drop (in_end S) (in_data S0))) (in_sign S0)"
proof -
  obtain s g where g: "cob_get_sign M f = Some (s, g)" and S0: "S0 = \<lparr>in_var = g, in_data = field_bytes g, in_start = 0,
      in_end = 0, in_mark = replicate (data_size g) (-1), in_replacing = True, in_sign = s\<rparr>"
    using init by (auto simp: cob_inspect_init_def bind_eq_Some_conv)
  have "wf_field g" using get_sign_wf(1) [OF g wf] .
  note dl = length_field_bytes [OF this]
  obtain a b where ab: "S = S0\<lparr>in_start := a, in_end := b\<rparr>" "a \<le> b" "b \<le> length (in_data S0)" using window_ofE [OF win] .
  then have S: "in_data S = in_data S0" "in_mark S = replicate (length (in_data S)) (-1)" "in_replacing S"
    "in_var S = g" "in_sign S = s" using S0 dl by simp_all
  let ?vs = "map uint (fdata f1)"
  let ?m = "replicate (in_start S) (-1) @ all_marks ?vs (fdata f2) (window S) @ replicate (length (in_data S) - in_end S) (-1)"
  have b: "in_start S \<le> in_end S" "in_end S \<le> length (in_data S)" using ab by simp_all
  have len': "length ?vs = length (fdata f2)" using len by (simp add: fsize_def)
  have c: "cob_inspect_all R' T E M N S (Some f1) (Some f2) = Some (R', N, S\<lparr>in_mark := ?m\<rparr>, f1)"
    using inspect_all_window [OF b S(2) len(2) len'] len S(3)
    by (simp add: cob_inspect_all_def inspect_common_def)
  note ws = window_split [OF b]
  have "apply_marks (in_data S) ?m = take (in_start S) (in_data S) @ replace_all (fdata f2) (fdata f1) (window S) @ drop (in_end S) (in_data S)"
    using len len' b by (subst ws(1))
      (simp add: apply_marks_append length_all_marks apply_marks_none apply_all_marks fsize_def)
  then have "cob_inspect_finish M (S\<lparr>in_mark := ?m\<rparr>) = cob_put_sign M (put_bytes g
      (take (in_start S) (in_data S) @ replace_all (fdata f2) (fdata f1) (window S) @ drop (in_end S) (in_data S))) s"
    using S by (simp add: cob_inspect_finish_def apply_marks_def)
  with c S S0 show ?thesis by auto
qed

lemma tallying_all:
  assumes init: "cob_inspect_init R M f False = Some (R', S0)" and wf: "wf_field f" and win: "window_of S0 S"
    and len: "fdata f2 \<noteq> []"
  shows "\<exists>S'. cob_inspect_all R' T E M N S (Some f1) (Some f2) =
      map_option (\<lambda>(_, R, N, g). (R, N, S', g)) (cob_add_int R' T E M N f1 (int (occurrences (fdata f2) (window S)))) \<and>
    cob_inspect_finish M S' = cob_put_sign M (in_var S0) (in_sign S0)"
proof -
  obtain s g where g: "cob_get_sign M f = Some (s, g)" and S0: "S0 = \<lparr>in_var = g, in_data = field_bytes g, in_start = 0,
      in_end = 0, in_mark = replicate (data_size g) (-1), in_replacing = False, in_sign = s\<rparr>"
    using init by (auto simp: cob_inspect_init_def bind_eq_Some_conv)
  have wg: "wf_field g" using get_sign_wf(1) [OF g wf] .
  note dl = length_field_bytes [OF this]
  obtain a b where ab: "S = S0\<lparr>in_start := a, in_end := b\<rparr>" "a \<le> b" "b \<le> length (in_data S0)" using window_ofE [OF win] .
  then have S: "in_data S = in_data S0" "in_mark S = replicate (length (in_data S)) (-1)" "\<not> in_replacing S"
    "in_var S = g" "in_sign S = s" using S0 dl by simp_all
  let ?vs = "replicate (length (fdata f2)) 1 :: int list"
  let ?m = "replicate (in_start S) (-1) @ all_marks ?vs (fdata f2) (window S) @ replicate (length (in_data S) - in_end S) (-1)"
  have b: "in_start S \<le> in_end S" "in_end S \<le> length (in_data S)" using ab by simp_all
  have c: "cob_inspect_all R' T E M N S (Some f1) (Some f2) = map_option (\<lambda>(_, R, N, g). (R, N, S\<lparr>in_mark := ?m\<rparr>, g))
      (cob_add_int R' T E M N f1 (int (occurrences (fdata f2) (window S))))"
    using inspect_all_window [OF b S(2) len, of ?vs] S(3) len
    by (simp add: cob_inspect_all_def inspect_common_def fsize_def cob_add_int_def)
  have "cob_inspect_finish M (S\<lparr>in_mark := ?m\<rparr>) = cob_put_sign M g s"
    using S S0 put_field_bytes [OF wg] by (simp add: cob_inspect_finish_def)
  with c S0 show ?thesis by auto
qed

section \<open>Facts: STRING\<close>

text \<open>What a sending item contributes, and the calls of one statement.\<close>

definition piece :: "cob_field option \<times> cob_field \<Rightarrow> bytes" where
  "piece x = (case x of (None, src) \<Rightarrow> fdata src
    | (Some d, src) \<Rightarrow> (case find_from (fdata d) (fdata src) (fsize src) 0 of None \<Rightarrow> fdata src | Some i \<Rightarrow> take i (fdata src)))"

fun string_items ::
  "cob_rt \<Rightarrow> string_state \<Rightarrow> (cob_field option \<times> cob_field) list \<Rightarrow> (cob_rt \<times> string_state) option" where
  "string_items R S [] = Some (R, S)"
| "string_items R S ((dlm, src) # xs) = do {
     (R, S) \<leftarrow> cob_string_append R (cob_string_delimited S dlm) src;
     string_items R S xs }"

lemma string_items_stop: "exception_code R \<noteq> 0 \<Longrightarrow> \<exists>S'. string_items R S xs = Some (R, S') \<and>
    st_dst S' = st_dst S \<and> st_offset S' = st_offset S \<and> st_ptr S' = st_ptr S"
  by (induction R S xs rule: string_items.induct)
    (auto simp: cob_string_append_def cob_string_delimited_def)

lemma overflow_string_code: "exception_code (cob_set_exception R COB_EC_OVERFLOW_STRING) \<noteq> 0"
  by (simp add: cob_set_exception_def cob_exception_tab_code_def exception_def_def Let_def)

lemma piece_size:
  "take (case map_option fdata dlm of None \<Rightarrow> fsize src
     | Some d \<Rightarrow> (case find_from d (fdata src) (fsize src) 0 of None \<Rightarrow> fsize src | Some i \<Rightarrow> i)) (fdata src) = piece (dlm, src)"
  "(case map_option fdata dlm of None \<Rightarrow> fsize src
     | Some d \<Rightarrow> (case find_from d (fdata src) (fsize src) 0 of None \<Rightarrow> fsize src | Some i \<Rightarrow> i)) = length (piece (dlm, src))"
  by (auto simp: piece_def fsize_def split: option.split dest: find_from_Some)

lemma piece_take: "take (length (piece (dlm, src))) (fdata src) = piece (dlm, src)"
  using piece_size(1) [where dlm = dlm and src = src] unfolding piece_size(2) .

lemma string_delimited_sel [simp]:
  "st_dst (cob_string_delimited S dlm) = st_dst S" "st_ptr (cob_string_delimited S dlm) = st_ptr S"
  "st_offset (cob_string_delimited S dlm) = st_offset S" "st_dlm (cob_string_delimited S dlm) = map_option fdata dlm"
  by (simp_all add: cob_string_delimited_def)

lemma append_eq:
  "exception_code R = 0 \<Longrightarrow> cob_string_append R (cob_string_delimited S dlm) src =
    (let room = fsize (st_dst S) - nat (st_offset S) in
     if length (piece (dlm, src)) \<le> room then do {
       bs \<leftarrow> wrs (fdata (st_dst S)) (nat (st_offset S)) (piece (dlm, src));
       Some (R, (cob_string_delimited S dlm)\<lparr>st_dst := set_data (st_dst S) bs,
         st_offset := st_offset S + int (length (piece (dlm, src)))\<rparr>) }
     else do {
       bs \<leftarrow> wrs (fdata (st_dst S)) (nat (st_offset S)) (take room (fdata src));
       Some (cob_set_exception R COB_EC_OVERFLOW_STRING, (cob_string_delimited S dlm)\<lparr>
         st_dst := set_data (st_dst S) bs, st_offset := st_offset S + int room\<rparr>) })"
  by (simp only: cob_string_append_def Let_def string_delimited_sel piece_size piece_take simp_thms if_False)

text \<open>One sending item, written from the offset \<open>k\<close> on.\<close>

lemma append_piece:
  assumes "exception_code R = 0" "st_offset S = int k" "k \<le> fsize (st_dst S)"
    and "m = min (length (piece (dlm, src))) (fsize (st_dst S) - k)"
  shows "\<exists>S'. cob_string_append R (cob_string_delimited S dlm) src =
      Some (if fsize (st_dst S) - k < length (piece (dlm, src)) then cob_set_exception R COB_EC_OVERFLOW_STRING else R, S') \<and>
    st_dst S' = set_data (st_dst S) (take k (fdata (st_dst S)) @ take m (piece (dlm, src)) @ drop (k + m) (fdata (st_dst S))) \<and>
    st_offset S' = int (k + m) \<and> st_ptr S' = st_ptr S"
proof -
  let ?p = "piece (dlm, src)" and ?room = "fsize (st_dst S) - k"
  have t: "take ?room (fdata src) = take ?room ?p" if "?room < length ?p"
  proof -
    have "?p = take (length ?p) (fdata src)" by (simp only: piece_take)
    then have "take ?room ?p = take (min ?room (length ?p)) (fdata src)" by (metis take_take)
    with that show ?thesis by (simp add: min_def)
  qed
  show ?thesis
  proof (cases "?room < length ?p")
    case True
    then show ?thesis
      using assms t by (simp add: append_eq wrs_def fsize_def)
  next
    case False
    then show ?thesis
      using assms by (simp add: append_eq wrs_def fsize_def)
  qed
qed

lemma string_items_concat:
  assumes "exception_code R = 0" "st_offset S = int k" "k \<le> fsize (st_dst S)"
    and "c = concat (map piece xs)" "m = min (length c) (fsize (st_dst S) - k)"
  shows "\<exists>S'. string_items R S xs =
      Some (if fsize (st_dst S) - k < length c then cob_set_exception R COB_EC_OVERFLOW_STRING else R, S') \<and>
    st_dst S' = set_data (st_dst S) (take k (fdata (st_dst S)) @ take m c @ drop (k + m) (fdata (st_dst S))) \<and>
    st_offset S' = int (k + m) \<and> st_ptr S' = st_ptr S"
  using assms
proof (induction xs arbitrary: S k m c)
  case Nil
  then show ?case by simp
next
  case (Cons x xs)
  obtain dlm src where x: "x = (dlm, src)" by fastforce
  let ?p = "piece x" and ?c = "concat (map piece xs)" and ?sz = "fsize (st_dst S)"
  define j where "j = min (length ?p) (?sz - k)"
  obtain S1 where S1: "cob_string_append R (cob_string_delimited S dlm) src =
      Some (if ?sz - k < length ?p then cob_set_exception R COB_EC_OVERFLOW_STRING else R, S1)"
    "st_dst S1 = set_data (st_dst S) (take k (fdata (st_dst S)) @ take j ?p @ drop (k + j) (fdata (st_dst S)))"
    "st_offset S1 = int (k + j)" "st_ptr S1 = st_ptr S"
    using append_piece [OF Cons.prems(1-3), where m = j and dlm = dlm and src = src] x by (auto simp: j_def)
  show ?case
  proof (cases "?sz - k < length ?p")
    case True
    then have m: "m = ?sz - k" "j = m" using Cons.prems(4,5) by (simp_all add: j_def)
    obtain S2 where "string_items (cob_set_exception R COB_EC_OVERFLOW_STRING) S1 xs = Some (cob_set_exception R COB_EC_OVERFLOW_STRING, S2)"
      "st_dst S2 = st_dst S1" "st_offset S2 = st_offset S1" "st_ptr S2 = st_ptr S1"
      using string_items_stop [OF overflow_string_code] by blast
    with S1 m True x Cons.prems show ?thesis by (auto simp: take_append)
  next
    case False
    then have j: "j = length ?p" by (simp add: j_def)
    have sz: "fsize (st_dst S1) = ?sz" using S1(2) Cons.prems(3) False j by (simp add: fsize_def)
    have "k + j \<le> ?sz" using False j Cons.prems(3) by simp
    then obtain S2 where S2: "string_items R S1 xs =
        Some (if ?sz - (k + j) < length ?c then cob_set_exception R COB_EC_OVERFLOW_STRING else R, S2)"
      "st_dst S2 = set_data (st_dst S1) (take (k + j) (fdata (st_dst S1)) @ take (min (length ?c) (?sz - (k + j))) ?c @
         drop (k + j + min (length ?c) (?sz - (k + j))) (fdata (st_dst S1)))"
      "st_offset S2 = int (k + j + min (length ?c) (?sz - (k + j)))" "st_ptr S2 = st_ptr S1"
      using Cons.IH [OF Cons.prems(1) S1(3), of ?c] sz by auto
    have m: "m = j + min (length ?c) (?sz - (k + j))" "c = ?p @ ?c" using Cons.prems(4,5) j False by auto
    have "string_items R S (x # xs) = Some (if ?sz - k < length c then cob_set_exception R COB_EC_OVERFLOW_STRING else R, S2)"
      using S1(1) S2(1) False x m(2) j by (auto simp: less_diff_conv)
    moreover have "st_dst S2 = set_data (st_dst S) (take k (fdata (st_dst S)) @ take m c @ drop (k + m) (fdata (st_dst S)))"
      using S2(2) S1(2) m j \<open>k + j \<le> ?sz\<close> by (simp add: fsize_def ac_simps)
    ultimately show ?thesis using S2(3,4) S1(4) m(1) by simp
  qed
qed

section \<open>Facts: UNSTRING\<close>

lemma dlm_at_single: "dlm_at [(dp, all)] d p = (if p + length dp \<le> length d \<and> match_at dp d p then Some (dp, all) else None)"
  by simp

fun unstring_items ::
  "cob_rt \<Rightarrow> target \<Rightarrow> fp_env \<Rightarrow> cob_module \<Rightarrow> unstring_state \<Rightarrow> cob_field list \<Rightarrow> (unstring_state \<times> cob_field list) option" where
  "unstring_items R T E M S [] = Some (S, [])"
| "unstring_items R T E M S (f # fs) = do {
     (S, g, _, _) \<leftarrow> cob_unstring_into R T E M S f None None;
     (S, gs) \<leftarrow> unstring_items R T E M S fs;
     Some (S, g # gs) }"

fun joined :: "u8 \<Rightarrow> bytes list \<Rightarrow> bytes" where
  "joined c [] = []"
| "joined c [t] = t"
| "joined c (t # u # ts) = t @ c # joined c (u # ts)"

lemma scan_one:
  "c \<notin> set t \<Longrightarrow> scan_dlm [([c], all)] (u @ t @ c # rest) (length u) = Some (length u + length t, [c], all)"
proof (induction t arbitrary: u)
  case Nil
  show ?case by (subst scan_dlm.simps) (simp add: match_at_def)
next
  case (Cons b t)
  then show ?case
    using Cons.IH [of "u @ [b]"] by (subst scan_dlm.simps) (auto simp: match_at_def)
qed

lemma scan_none:
  "c \<notin> set t \<Longrightarrow> scan_dlm [([c], all)] (u @ t) (length u) = None"
proof (induction t arbitrary: u)
  case Nil
  show ?case by (subst scan_dlm.simps) simp
next
  case (Cons b t)
  then show ?case
    using Cons.IH [of "u @ [b]"] by (subst scan_dlm.simps) (auto simp: match_at_def)
qed

lemma joined_Cons: "joined c (t # ts) = (if ts = [] then t else t @ c # joined c ts)"
  by (cases ts) simp_all

lemma unstring_tokens:
  assumes "exception_code R = 0" "un_dlms S = [([c], False)]" "un_offset S = int (length u)"
    "fdata (un_src S) = u @ joined c ts" "\<forall>t\<in>set ts. c \<notin> set t" "ts \<noteq> []" "last ts \<noteq> []"
    "list_all2 (\<lambda>f (t, g). cob_memcpy T E M f t = Some g) fs (zip ts gs)" "length gs = length ts"
  shows "\<exists>S'. unstring_items R T E M S fs = Some (S', gs) \<and> un_offset S' = int (fsize (un_src S)) \<and>
    un_count S' = un_count S + int (length ts) \<and> un_src S' = un_src S \<and> un_ptr S' = un_ptr S"
  using assms
proof (induction ts arbitrary: S u fs gs)
  case (Cons t ts)
  obtain g gs' where gs: "gs = g # gs'" "length gs' = length ts" using Cons.prems(9) by (cases gs) auto
  obtain f fs' where fs: "fs = f # fs'" "cob_memcpy T E M f t = Some g"
    "list_all2 (\<lambda>f (t, g). cob_memcpy T E M f t = Some g) fs' (zip ts gs')"
    using Cons.prems(8) gs by (auto simp: list_all2_Cons2)
  have nt: "c \<notin> set t" using Cons.prems(5) by simp
  show ?case
  proof (cases "ts = []")
    case True
    have "unstring_take S (data_size f) = Some (t, None, length (u @ t))"
      using Cons.prems(2-4) scan_none [OF nt, of False u] True by (simp add: unstring_take_def)
    then show ?thesis
      using True gs fs Cons.prems(1,3,4,7) by (auto simp: cob_unstring_into_def fsize_def)
  next
    case False
    let ?rest = "joined c ts"
    have d: "fdata (un_src S) = u @ t @ c # ?rest" using Cons.prems(4) False by (simp add: joined_Cons)
    have take: "unstring_take S (data_size f) = Some (t, Some [c], length (u @ t @ [c]))"
      using Cons.prems(2,3) d scan_one [OF nt, of False u ?rest] by (simp add: unstring_take_def)
    let ?S = "S\<lparr>un_offset := int (length (u @ t @ [c])), un_count := un_count S + 1\<rparr>"
    have into: "cob_unstring_into R T E M S f None None = Some (?S, g, None, None)"
      using take fs(2) Cons.prems(1,3) d by (simp add: cob_unstring_into_def fsize_def)
    obtain S' where "unstring_items R T E M ?S fs' = Some (S', gs')" "un_offset S' = int (fsize (un_src S))"
      "un_count S' = un_count ?S + int (length ts)" "un_src S' = un_src S" "un_ptr S' = un_ptr S"
      using Cons.IH [of ?S "u @ t @ [c]" fs' gs'] Cons.prems False d fs gs by auto
    with into fs gs show ?thesis by auto
  qed
qed simp
end
