(* ===== verification/Cob_Stdio.thy ===== *)
theory Cob_Stdio
  imports Cob_Services
begin

text \<open>
  What fileio.c uses of the C library's streams: a file is the sequence of its bytes, a
  stream a position in a file with the directions it was opened for. \<open>FILE *\<close> is a number
  that names an open stream; \<open>fclose\<close> removes it, and an operation on a stream that is not
  open (a null or stale pointer) has no result. Buffering is not visible: what is written is
  in the file at once.
\<close>

section \<open>Streams\<close>

record stream =
  sm_name :: bytes
  sm_pos :: nat
  sm_read :: bool
  sm_write :: bool
  sm_append :: bool
  sm_err :: bool

text \<open>
  The state every file operation works on: the run-time's exception register and decimal
  accumulators, the files by name, the open streams, the end-of-page flag \<open>eop_status\<close> and the
  connector that last had its status set and the connectors opened so far (\<open>cob_error_file\<close>,
  \<open>file_cache\<close>; a connector is named by its SELECT name).
\<close>

record io_world =
  io_rt :: cob_rt
  io_accs :: cob_accs
  io_disk :: "bytes \<Rightarrow> bytes option"
  io_streams :: "nat \<Rightarrow> stream option"
  io_next :: nat
  eop_status :: bool
  cob_error_file :: bytes
  file_cache :: "bytes list"

datatype fopen_mode = FM_R | FM_RPLUS | FM_W | FM_WPLUS | FM_APLUS

definition contents :: "io_world \<Rightarrow> bytes \<Rightarrow> bytes" where
  "contents W n = (case io_disk W n of None \<Rightarrow> [] | Some bs \<Rightarrow> bs)"

definition put_stream :: "io_world \<Rightarrow> nat \<Rightarrow> stream \<Rightarrow> io_world" where
  "put_stream W h s = W\<lparr>io_streams := (io_streams W)(h := Some s)\<rparr>"

definition get_stream :: "io_world \<Rightarrow> nat option \<Rightarrow> (nat \<times> stream) option" where
  "get_stream W fp = do { h \<leftarrow> fp; s \<leftarrow> io_streams W h; Some (h, s) }"

text \<open>A gap between the end of the file and the position reads as zeros.\<close>

definition overwrite :: "bytes \<Rightarrow> nat \<Rightarrow> bytes \<Rightarrow> bytes" where
  "overwrite c p bs = take p c @ replicate (p - length c) 0 @ bs @ drop (p + length bs) c"

text \<open>
  \<open>fread (buf, 1, n, fp)\<close>: the bytes there are, up to \<open>n\<close>, and the stream behind them. A
  call for one object of \<open>n\<close> bytes succeeds when it got them all. A stream that was not opened
  for reading sets its error indicator.
\<close>

definition fread :: "io_world \<Rightarrow> nat option \<Rightarrow> nat \<Rightarrow> (bytes \<times> io_world) option" where
  "fread W fp n = do {
     (h, s) \<leftarrow> get_stream W fp;
     if \<not> sm_read s then Some ([], put_stream W h (s\<lparr>sm_err := True\<rparr>))
     else let bs = take n (drop (sm_pos s) (contents W (sm_name s))) in
       Some (bs, put_stream W h (s\<lparr>sm_pos := sm_pos s + length bs\<rparr>)) }"

definition fwrite :: "io_world \<Rightarrow> nat option \<Rightarrow> bytes \<Rightarrow> (bool \<times> io_world) option" where
  "fwrite W fp bs = do {
     (h, s) \<leftarrow> get_stream W fp;
     if \<not> sm_write s then Some (False, put_stream W h (s\<lparr>sm_err := True\<rparr>))
     else let c = contents W (sm_name s); p = (if sm_append s then length c else sm_pos s) in
       Some (True, (put_stream W h (s\<lparr>sm_pos := p + length bs\<rparr>))
         \<lparr>io_disk := (io_disk W)(sm_name s := Some (overwrite c p bs))\<rparr>) }"

definition putc :: "io_world \<Rightarrow> nat option \<Rightarrow> u8 \<Rightarrow> io_world option" where
  "putc W fp c = map_option snd (fwrite W fp [c])"

definition putn :: "io_world \<Rightarrow> nat option \<Rightarrow> int \<Rightarrow> u8 \<Rightarrow> io_world option" where
  "putn W fp n c = (if n \<le> 0 then Some W else map_option snd (fwrite W fp (replicate (nat n) c)))"

definition getc :: "io_world \<Rightarrow> nat option \<Rightarrow> (u8 option \<times> io_world) option" where
  "getc W fp = map_option (\<lambda>(bs, W). (case bs of [] \<Rightarrow> None | c # _ \<Rightarrow> Some c, W)) (fread W fp 1)"

definition ferror :: "io_world \<Rightarrow> nat option \<Rightarrow> bool option" where
  "ferror W fp = map_option (\<lambda>(h, s). sm_err s) (get_stream W fp)"

definition ftell :: "io_world \<Rightarrow> nat option \<Rightarrow> nat option" where
  "ftell W fp = map_option (\<lambda>(h, s). sm_pos s) (get_stream W fp)"

text \<open>\<open>fseek\<close> to an absolute offset, relative to the position, or to the end.\<close>

definition fseek_set :: "io_world \<Rightarrow> nat option \<Rightarrow> int \<Rightarrow> (bool \<times> io_world) option" where
  "fseek_set W fp p = do {
     (h, s) \<leftarrow> get_stream W fp;
     Some (if p < 0 then (False, W) else (True, put_stream W h (s\<lparr>sm_pos := nat p\<rparr>))) }"

definition fseek_cur :: "io_world \<Rightarrow> nat option \<Rightarrow> int \<Rightarrow> (bool \<times> io_world) option" where
  "fseek_cur W fp d = do { (h, s) \<leftarrow> get_stream W fp; fseek_set W fp (int (sm_pos s) + d) }"

definition fseek_end :: "io_world \<Rightarrow> nat option \<Rightarrow> io_world option" where
  "fseek_end W fp = do {
     (h, s) \<leftarrow> get_stream W fp;
     Some (put_stream W h (s\<lparr>sm_pos := length (contents W (sm_name s))\<rparr>)) }"

definition fflush :: "io_world \<Rightarrow> nat option \<Rightarrow> io_world option" where
  "fflush W fp = map_option (\<lambda>_. W) (get_stream W fp)"

definition fclose :: "io_world \<Rightarrow> nat option \<Rightarrow> io_world option" where
  "fclose W fp = map_option (\<lambda>(h, s). W\<lparr>io_streams := (io_streams W)(h := None)\<rparr>) (get_stream W fp)"

text \<open>
  \<open>fopen\<close>: what the system refuses for other reasons than a missing file is the parameter
  \<open>refuse\<close>, an \<open>errno\<close>.
\<close>

abbreviation (input) ENOENT :: nat where "ENOENT \<equiv> 2"
abbreviation (input) EAGAIN :: nat where "EAGAIN \<equiv> 11"
abbreviation (input) EACCES :: nat where "EACCES \<equiv> 13"
abbreviation (input) EISDIR :: nat where "EISDIR \<equiv> 21"
abbreviation (input) EROFS :: nat where "EROFS \<equiv> 30"

definition fopen ::
  "(bytes \<Rightarrow> fopen_mode \<Rightarrow> nat option) \<Rightarrow> io_world \<Rightarrow> bytes \<Rightarrow> fopen_mode \<Rightarrow> nat + (nat \<times> io_world)" where
  "fopen refuse W n m =
    (case refuse n m of
       Some e \<Rightarrow> Inl e
     | None \<Rightarrow>
       if io_disk W n = None \<and> (m = FM_R \<or> m = FM_RPLUS) then Inl ENOENT
       else Inr (io_next W, (put_stream W (io_next W)
           \<lparr>sm_name = n, sm_pos = 0, sm_read = (m \<noteq> FM_W), sm_write = (m \<noteq> FM_R),
            sm_append = (m = FM_APLUS), sm_err = False\<rparr>)
         \<lparr>io_next := Suc (io_next W),
          io_disk := (if m = FM_W \<or> m = FM_WPLUS then (io_disk W)(n := Some [])
            else if io_disk W n = None then (io_disk W)(n := Some []) else io_disk W)\<rparr>))"

end
