(* ===== verification/Cob_File.thy ===== *)
theory Cob_File
  imports Cob_Stdio Cob_Numeric
begin

text \<open>
  File handling (fileio.c): the file connector and its FILE STATUS, the SEQUENTIAL, LINE
  SEQUENTIAL and RELATIVE handlers over the streams of \<open>Cob_Stdio\<close>, LINAGE, file name
  mapping, and the statements OPEN, CLOSE, START, READ, WRITE, REWRITE and DELETE. INDEXED
  files are the build without an ISAM library, whose handlers answer 91.

  Items the program names (RELATIVE KEY, the DEPENDING ON item, LINAGE items, FILE STATUS)
  are members of the connector or arguments; the record area is \<open>record_data\<close>, of which the
  first \<open>record_len\<close> bytes are the record. A call that would touch a stream that is not open,
  or write outside a buffer, has no result.
\<close>

section \<open>The connector\<close>

datatype org = COB_ORG_SEQUENTIAL | COB_ORG_LINE_SEQUENTIAL | COB_ORG_RELATIVE | COB_ORG_INDEXED
datatype access = COB_ACCESS_SEQUENTIAL | COB_ACCESS_DYNAMIC | COB_ACCESS_RANDOM
datatype open_mode = COB_OPEN_CLOSED | COB_OPEN_INPUT | COB_OPEN_OUTPUT | COB_OPEN_I_O | COB_OPEN_EXTEND | COB_OPEN_LOCKED
datatype close_opt = COB_CLOSE_NORMAL | COB_CLOSE_LOCK | COB_CLOSE_NO_REWIND | COB_CLOSE_UNIT | COB_CLOSE_UNIT_REMOVAL
datatype start_cond = COB_EQ | COB_LT | COB_LE | COB_GT | COB_GE

type_synonym io_opts = "32 word"

abbreviation COB_WRITE_MASK :: io_opts where "COB_WRITE_MASK \<equiv> 0x0000ffff"
abbreviation COB_WRITE_LINES :: io_opts where "COB_WRITE_LINES \<equiv> 0x00010000"
abbreviation COB_WRITE_PAGE :: io_opts where "COB_WRITE_PAGE \<equiv> 0x00020000"
abbreviation COB_WRITE_AFTER :: io_opts where "COB_WRITE_AFTER \<equiv> 0x00100000"
abbreviation COB_WRITE_BEFORE :: io_opts where "COB_WRITE_BEFORE \<equiv> 0x00200000"
abbreviation COB_WRITE_EOP :: io_opts where "COB_WRITE_EOP \<equiv> 0x00400000"
abbreviation COB_READ_PREVIOUS :: io_opts where "COB_READ_PREVIOUS \<equiv> 0x02"

abbreviation (input) COB_STATUS_00_SUCCESS :: nat where "COB_STATUS_00_SUCCESS \<equiv> 0"
abbreviation (input) COB_STATUS_04_SUCCESS_INCOMPLETE :: nat where "COB_STATUS_04_SUCCESS_INCOMPLETE \<equiv> 4"
abbreviation (input) COB_STATUS_05_SUCCESS_OPTIONAL :: nat where "COB_STATUS_05_SUCCESS_OPTIONAL \<equiv> 5"
abbreviation (input) COB_STATUS_07_SUCCESS_NO_UNIT :: nat where "COB_STATUS_07_SUCCESS_NO_UNIT \<equiv> 7"
abbreviation (input) COB_STATUS_10_END_OF_FILE :: nat where "COB_STATUS_10_END_OF_FILE \<equiv> 10"
abbreviation (input) COB_STATUS_14_OUT_OF_KEY_RANGE :: nat where "COB_STATUS_14_OUT_OF_KEY_RANGE \<equiv> 14"
abbreviation (input) COB_STATUS_21_KEY_INVALID :: nat where "COB_STATUS_21_KEY_INVALID \<equiv> 21"
abbreviation (input) COB_STATUS_22_KEY_EXISTS :: nat where "COB_STATUS_22_KEY_EXISTS \<equiv> 22"
abbreviation (input) COB_STATUS_23_KEY_NOT_EXISTS :: nat where "COB_STATUS_23_KEY_NOT_EXISTS \<equiv> 23"
abbreviation (input) COB_STATUS_30_PERMANENT_ERROR :: nat where "COB_STATUS_30_PERMANENT_ERROR \<equiv> 30"
abbreviation (input) COB_STATUS_35_NOT_EXISTS :: nat where "COB_STATUS_35_NOT_EXISTS \<equiv> 35"
abbreviation (input) COB_STATUS_37_PERMISSION_DENIED :: nat where "COB_STATUS_37_PERMISSION_DENIED \<equiv> 37"
abbreviation (input) COB_STATUS_38_CLOSED_WITH_LOCK :: nat where "COB_STATUS_38_CLOSED_WITH_LOCK \<equiv> 38"
abbreviation (input) COB_STATUS_41_ALREADY_OPEN :: nat where "COB_STATUS_41_ALREADY_OPEN \<equiv> 41"
abbreviation (input) COB_STATUS_42_NOT_OPEN :: nat where "COB_STATUS_42_NOT_OPEN \<equiv> 42"
abbreviation (input) COB_STATUS_43_READ_NOT_DONE :: nat where "COB_STATUS_43_READ_NOT_DONE \<equiv> 43"
abbreviation (input) COB_STATUS_44_RECORD_OVERFLOW :: nat where "COB_STATUS_44_RECORD_OVERFLOW \<equiv> 44"
abbreviation (input) COB_STATUS_46_READ_ERROR :: nat where "COB_STATUS_46_READ_ERROR \<equiv> 46"
abbreviation (input) COB_STATUS_47_INPUT_DENIED :: nat where "COB_STATUS_47_INPUT_DENIED \<equiv> 47"
abbreviation (input) COB_STATUS_48_OUTPUT_DENIED :: nat where "COB_STATUS_48_OUTPUT_DENIED \<equiv> 48"
abbreviation (input) COB_STATUS_49_I_O_DENIED :: nat where "COB_STATUS_49_I_O_DENIED \<equiv> 49"
abbreviation (input) COB_STATUS_52_EOP :: nat where "COB_STATUS_52_EOP \<equiv> 52"
abbreviation (input) COB_STATUS_57_I_O_LINAGE :: nat where "COB_STATUS_57_I_O_LINAGE \<equiv> 57"
abbreviation (input) COB_STATUS_61_FILE_SHARING :: nat where "COB_STATUS_61_FILE_SHARING \<equiv> 61"
abbreviation (input) COB_STATUS_91_NOT_AVAILABLE :: nat where "COB_STATUS_91_NOT_AVAILABLE \<equiv> 91"
abbreviation (input) COB_LINAGE_INVALID :: nat where "COB_LINAGE_INVALID \<equiv> 16384"

abbreviation (input) chr_nl :: u8 where "chr_nl \<equiv> 10"
abbreviation (input) chr_cr :: u8 where "chr_cr \<equiv> 13"
abbreviation (input) chr_ff :: u8 where "chr_ff \<equiv> 12"

record linage_struct =
  linage_item :: cob_field
  linage_ctr :: cob_field
  latfoot :: "cob_field option"
  lattop :: "cob_field option"
  latbot :: "cob_field option"
  lin_lines :: int
  lin_foot :: int
  lin_top :: int
  lin_bot :: int

record cob_file =
  select_name :: bytes
  file_status :: "u8 \<times> u8"
  assign :: "cob_field option"
  record_data :: bytes
  record_len :: nat
  record_size :: "cob_field option"
  rel_key :: "cob_field option"
  fhandle :: "nat option"
  linage :: "linage_struct option"
  record_min :: nat
  record_max :: nat
  organization :: org
  access_mode :: access
  open_mode :: open_mode
  flag_optional :: bool
  last_open_mode :: open_mode
  special :: nat
  flag_nonexistent :: bool
  flag_end_of_file :: bool
  flag_begin_of_file :: bool
  flag_first_read :: nat
  flag_read_done :: bool
  flag_needs_nl :: bool
  flag_needs_top :: bool

text \<open>
  The configuration of the run-time and the system around it: host and build switches
  (\<open>WITH_VARSEQ\<close>), the module, the environment, COB_LS_NULLS, COB_LS_FIXED, COB_FILE_PATH and
  COB_SYNC, and what the system answers to \<open>fopen\<close> and to a lock request.
\<close>

record io_env =
  env_target :: target
  env_fp :: fp_env
  env_module :: cob_module
  env_varseq :: nat
  env_getenv :: "bytes \<Rightarrow> bytes option"
  flag_filename_mapping :: bool
  cob_ls_nulls :: bool
  cob_ls_fixed :: bool
  cob_file_path :: "bytes option"
  cob_do_sync :: nat
  env_refuse :: "bytes \<Rightarrow> fopen_mode \<Rightarrow> nat option"
  env_lock :: "bytes \<Rightarrow> bool \<Rightarrow> nat option"

definition status_exception :: "nat list" where
  "status_exception = [0, 33, 38, 41, 40, 42, 36, 32, 32, 37]"

type_synonym io_result = "(nat \<times> io_world \<times> cob_file) option"
type_synonym stmt_result = "(io_world \<times> cob_file \<times> cob_field option) option"

text \<open>\<open>save_status\<close>: the FILE STATUS item, when there is one, has at least two bytes.\<close>

definition put_status :: "u8 \<times> u8 \<Rightarrow> cob_field option \<Rightarrow> cob_field option option" where
  "put_status st fns = (case fns of None \<Rightarrow> Some None
     | Some g \<Rightarrow> map_option (\<lambda>bs. Some (set_data g bs)) (wrs (fdata g) 0 [fst st, snd st]))"

definition save_status :: "nat \<Rightarrow> io_world \<Rightarrow> cob_file \<Rightarrow> cob_field option \<Rightarrow> stmt_result" where
  "save_status status W f fns = do {
     let W = W\<lparr>cob_error_file := select_name f\<rparr>;
     if status = 0 then do {
       fns \<leftarrow> put_status (chr_0, chr_0) fns;
       Some (W\<lparr>io_rt := cob_clear_exception (io_rt W)\<rparr>, f\<lparr>file_status := (chr_0, chr_0)\<rparr>, fns) }
     else do {
       let W = (if status \<noteq> COB_STATUS_52_EOP
         then W\<lparr>io_rt := cob_set_exception (io_rt W) (status_exception ! (status div 10))\<rparr> else W);
       let st = (cob_i2d (int (status div 10)), cob_i2d (int (status mod 10)));
       fns \<leftarrow> put_status st fns;
       Some (W, f\<lparr>file_status := st\<rparr>, fns) } }"

definition finish :: "cob_field option \<Rightarrow> io_result \<Rightarrow> stmt_result" where
  "finish fns r = do { (ret, W, f) \<leftarrow> r; save_status ret W f fns }"

section \<open>Items of the connector\<close>

definition item_get :: "io_env \<Rightarrow> cob_field \<Rightarrow> (int \<times> cob_field) option" where
  "item_get E g = cob_get_int (env_target E) (env_fp E) (env_module E) g"

definition item_set :: "io_env \<Rightarrow> cob_field \<Rightarrow> int \<Rightarrow> cob_field option" where
  "item_set E g n = cob_set_int (env_target E) (env_fp E) (env_module E) g n"

definition item_add :: "io_env \<Rightarrow> io_world \<Rightarrow> cob_field \<Rightarrow> int \<Rightarrow> (int \<times> io_world \<times> cob_field) option" where
  "item_add E W g n = map_option (\<lambda>(r, R, N, g). (r, W\<lparr>io_rt := R, io_accs := N\<rparr>, g))
     (cob_add_int (io_rt W) (env_target E) (env_fp E) (env_module E) (io_accs W) g n)"

text \<open>The DEPENDING ON item and the RELATIVE KEY, when there is one.\<close>

definition set_record_size :: "io_env \<Rightarrow> cob_file \<Rightarrow> int \<Rightarrow> cob_file option" where
  "set_record_size E f n = (case record_size f of None \<Rightarrow> Some f
     | Some g \<Rightarrow> map_option (\<lambda>g. f\<lparr>record_size := Some g\<rparr>) (item_set E g n))"

definition set_rel_key :: "io_env \<Rightarrow> cob_file \<Rightarrow> int \<Rightarrow> cob_file option" where
  "set_rel_key E f n = (case rel_key f of None \<Rightarrow> Some f
     | Some g \<Rightarrow> map_option (\<lambda>g. f\<lparr>rel_key := Some g\<rparr>) (item_set E g n))"

text \<open>The record number in the RELATIVE KEY, which the handler dereferences.\<close>

definition get_rel_key :: "io_env \<Rightarrow> cob_file \<Rightarrow> (int \<times> cob_file) option" where
  "get_rel_key E f = do { g \<leftarrow> rel_key f; (n, g) \<leftarrow> item_get E g; Some (n, f\<lparr>rel_key := Some g\<rparr>) }"

section \<open>LINAGE\<close>

definition opt_item :: "io_env \<Rightarrow> cob_field option \<Rightarrow> (int \<times> cob_field option) option" where
  "opt_item E g = (case g of None \<Rightarrow> Some (0, None)
     | Some g \<Rightarrow> map_option (\<lambda>(n, g). (n, Some g)) (item_get E g))"

text \<open>\<open>file_linage_check\<close>: the result says whether the check failed.\<close>

definition linage_error :: "io_env \<Rightarrow> linage_struct \<Rightarrow> (bool \<times> linage_struct) option" where
  "linage_error E L = do { c \<leftarrow> item_set E (linage_ctr L) 0; Some (True, L\<lparr>linage_ctr := c\<rparr>) }"

definition file_linage_check :: "io_env \<Rightarrow> linage_struct \<Rightarrow> (bool \<times> linage_struct) option" where
  "file_linage_check E L = do {
     (n, g) \<leftarrow> item_get E (linage_item L);
     let L = L\<lparr>linage_item := g, lin_lines := n\<rparr>;
     if n < 1 then linage_error E L
     else do {
       (m, g) \<leftarrow> opt_item E (latfoot L);
       let L = L\<lparr>latfoot := g, lin_foot := m\<rparr>;
       if latfoot L \<noteq> None \<and> (m < 1 \<or> m > n) then linage_error E L
       else do {
         (m, g) \<leftarrow> opt_item E (lattop L);
         let L = L\<lparr>lattop := g, lin_top := m\<rparr>;
         if m < 0 then linage_error E L
         else do {
           (m, g) \<leftarrow> opt_item E (latbot L);
           let L = L\<lparr>latbot := g, lin_bot := m\<rparr>;
           if m < 0 then linage_error E L else Some (False, L) } } } }"

definition write_lines :: "io_opts \<Rightarrow> int" where
  "write_lines opt = uint (opt AND COB_WRITE_MASK)"

definition linage_page :: "io_env \<Rightarrow> io_world \<Rightarrow> nat option \<Rightarrow> linage_struct \<Rightarrow>
   (nat \<times> io_world \<times> linage_struct) option" where
  "linage_page E W fp L = do {
     (i, c) \<leftarrow> item_get E (linage_ctr L);
     let L = L\<lparr>linage_ctr := c\<rparr>;
     if i = 0 then Some (COB_STATUS_57_I_O_LINAGE, W, L)
     else do {
       W \<leftarrow> putn W fp (lin_lines L - i) chr_nl;
       W \<leftarrow> putn W fp (lin_bot L) chr_nl;
       (bad, L) \<leftarrow> file_linage_check E L;
       if bad then Some (COB_STATUS_57_I_O_LINAGE, W, L)
       else do {
         W \<leftarrow> putn W fp (lin_top L) chr_nl;
         c \<leftarrow> item_set E (linage_ctr L) 1;
         Some (0, W, L\<lparr>linage_ctr := c\<rparr>) } } }"

definition linage_lines :: "io_env \<Rightarrow> io_world \<Rightarrow> nat option \<Rightarrow> linage_struct \<Rightarrow> io_opts \<Rightarrow>
   (nat \<times> io_world \<times> linage_struct) option" where
  "linage_lines E W fp L opt = do {
     (n, c) \<leftarrow> item_get E (linage_ctr L);
     let L = L\<lparr>linage_ctr := c\<rparr>;
     if n = 0 then Some (COB_STATUS_57_I_O_LINAGE, W, L)
     else do {
       (_, W, c) \<leftarrow> item_add E W c (write_lines opt);
       (i, c) \<leftarrow> item_get E c;
       let L = L\<lparr>linage_ctr := c\<rparr>;
       let eop = (opt AND COB_WRITE_EOP \<noteq> 0);
       let W = (if eop \<and> lin_foot L \<noteq> 0 \<and> i \<ge> lin_foot L then W\<lparr>eop_status := True\<rparr> else W);
       if i > lin_lines L then do {
         let W = (if eop then W\<lparr>eop_status := True\<rparr> else W);
         W \<leftarrow> putn W fp (lin_lines L - n) chr_nl;
         W \<leftarrow> putn W fp (lin_bot L) chr_nl;
         (bad, L) \<leftarrow> file_linage_check E L;
         if bad then Some (COB_STATUS_57_I_O_LINAGE, W, L)
         else do {
           c \<leftarrow> item_set E (linage_ctr L) 1;
           W \<leftarrow> putn W fp (lin_top L) chr_nl;
           Some (0, W, L\<lparr>linage_ctr := c\<rparr>) } }
       else do {
         W \<leftarrow> putn W fp (write_lines opt - 1) chr_nl;
         Some (0, W, L) } } }"

definition cob_linage_write_opt :: "io_env \<Rightarrow> io_world \<Rightarrow> cob_file \<Rightarrow> linage_struct \<Rightarrow> io_opts \<Rightarrow> io_result" where
  "cob_linage_write_opt E W f L opt = map_option (\<lambda>(r, W, L). (r, W, f\<lparr>linage := Some L\<rparr>))
     (if opt AND COB_WRITE_PAGE \<noteq> 0 then linage_page E W (fhandle f) L
      else if opt AND COB_WRITE_LINES \<noteq> 0 then linage_lines E W (fhandle f) L opt
      else Some (0, W, L))"

definition cob_file_write_opt :: "io_env \<Rightarrow> io_world \<Rightarrow> cob_file \<Rightarrow> io_opts \<Rightarrow> io_result" where
  "cob_file_write_opt E W f opt =
    (case linage f of
       Some L \<Rightarrow> cob_linage_write_opt E W f L opt
     | None \<Rightarrow>
       if opt AND COB_WRITE_LINES \<noteq> 0 then
         map_option (\<lambda>W. (0, W, f)) (putn W (fhandle f) (write_lines opt) chr_nl)
       else if opt AND COB_WRITE_PAGE \<noteq> 0 then map_option (\<lambda>W. (0, W, f)) (putc W (fhandle f) chr_ff)
       else Some (0, W, f))"

section \<open>OPEN and CLOSE of byte files\<close>

definition open_fmode :: "org \<Rightarrow> open_mode \<Rightarrow> fopen_mode" where
  "open_fmode og mode =
    (case mode of
       COB_OPEN_OUTPUT \<Rightarrow> (if og = COB_ORG_RELATIVE then FM_WPLUS else FM_W)
     | COB_OPEN_I_O \<Rightarrow> FM_RPLUS
     | COB_OPEN_EXTEND \<Rightarrow> FM_APLUS
     | _ \<Rightarrow> FM_R)"

abbreviation dev_prefix :: bytes where "dev_prefix \<equiv> [47, 100, 101, 118, 47]"

definition cob_file_open :: "io_env \<Rightarrow> io_world \<Rightarrow> cob_file \<Rightarrow> bytes \<Rightarrow> open_mode \<Rightarrow> bool \<Rightarrow> io_result" where
  "cob_file_open E W f name mode sharing =
    (case fopen (env_refuse E) W name (open_fmode (organization f) mode) of
       Inl e \<Rightarrow> Some (e, W, f)
     | Inr (fp, W) \<Rightarrow> do {
         W \<leftarrow> (if mode = COB_OPEN_EXTEND then fseek_end W (Some fp) else Some W);
         case (if take 5 name = dev_prefix then None
               else env_lock E name (sharing \<or> mode = COB_OPEN_OUTPUT)) of
           Some e \<Rightarrow> map_option (\<lambda>W. (e, W, f)) (fclose W (Some fp))
         | None \<Rightarrow>
             let f = f\<lparr>fhandle := Some fp\<rparr> in
             (case linage f of
                None \<Rightarrow> Some (0, W, f)
              | Some L \<Rightarrow> do {
                  (bad, L) \<leftarrow> file_linage_check E L;
                  if bad then Some (COB_LINAGE_INVALID, W, f\<lparr>linage := Some L\<rparr>)
                  else do {
                    c \<leftarrow> item_set E (linage_ctr L) 1;
                    Some (0, W, f\<lparr>flag_needs_top := True, linage := Some (L\<lparr>linage_ctr := c\<rparr>)\<rparr>) } }) })"

definition cob_file_close :: "io_world \<Rightarrow> cob_file \<Rightarrow> close_opt \<Rightarrow> io_result" where
  "cob_file_close W f opt =
    (if opt = COB_CLOSE_NORMAL \<or> opt = COB_CLOSE_LOCK \<or> opt = COB_CLOSE_NO_REWIND then do {
       let nl = (organization f = COB_ORG_LINE_SEQUENTIAL \<and> flag_needs_nl f \<and> linage f = None);
       let f = (if nl then f\<lparr>flag_needs_nl := False\<rparr> else f);
       W \<leftarrow> (if nl then putc W (fhandle f) chr_nl else Some W);
       W \<leftarrow> fclose W (fhandle f);
       Some (if opt = COB_CLOSE_NO_REWIND
         then (COB_STATUS_07_SUCCESS_NO_UNIT, W, f\<lparr>open_mode := COB_OPEN_CLOSED\<rparr>)
         else (COB_STATUS_00_SUCCESS, W, f)) }
     else map_option (\<lambda>W. (COB_STATUS_07_SUCCESS_NO_UNIT, W, f)) (fflush W (fhandle f)))"

section \<open>Transfers of one object\<close>

text \<open>
  \<open>fread (p, n, 1, fp) == 1\<close> and \<open>fwrite (p, n, 1, fp) == 1\<close>. An object of no bytes counts
  as not transferred.
\<close>

definition fread1 :: "io_world \<Rightarrow> nat option \<Rightarrow> nat \<Rightarrow> (bool \<times> bytes \<times> io_world) option" where
  "fread1 W fp n = map_option (\<lambda>(bs, W). (length bs = n \<and> 0 < n, bs, W)) (fread W fp n)"

definition fwrite1 :: "io_world \<Rightarrow> nat option \<Rightarrow> bytes \<Rightarrow> (bool \<times> io_world) option" where
  "fwrite1 W fp bs = map_option (\<lambda>(ok, W). (ok \<and> bs \<noteq> [], W)) (fwrite W fp bs)"

text \<open>\<open>sizeof (f->record->size)\<close>, and a \<open>size_t\<close> of which some bytes were read over.\<close>

abbreviation (input) size_bytes :: nat where "size_bytes \<equiv> 8"

definition size_over :: "target \<Rightarrow> nat \<Rightarrow> bytes \<Rightarrow> nat" where
  "size_over T n bs = nat (host_val T (bs @ drop (length bs) (host_bytes T size_bytes (int n))))"

definition fread_size :: "io_env \<Rightarrow> io_world \<Rightarrow> cob_file \<Rightarrow> (bool \<times> io_world \<times> cob_file) option" where
  "fread_size E W f = do {
     (ok, bs, W) \<leftarrow> fread1 W (fhandle f) size_bytes;
     Some (ok, W, f\<lparr>record_len := size_over (env_target E) (record_len f) bs\<rparr>) }"

definition fread_data :: "io_world \<Rightarrow> cob_file \<Rightarrow> nat \<Rightarrow> (nat \<times> io_world \<times> cob_file) option" where
  "fread_data W f n = do {
     (bs, W) \<leftarrow> fread W (fhandle f) n;
     d \<leftarrow> wrs (record_data f) 0 bs;
     Some (length bs, W, f\<lparr>record_data := d\<rparr>) }"

definition at_end_or_error :: "io_world \<Rightarrow> cob_file \<Rightarrow> io_result" where
  "at_end_or_error W f = do {
     e \<leftarrow> ferror W (fhandle f);
     Some (if e then COB_STATUS_30_PERMANENT_ERROR else COB_STATUS_10_END_OF_FILE, W, f) }"

text \<open>The record area from which \<open>n\<close> bytes are written.\<close>

definition area :: "cob_file \<Rightarrow> nat \<Rightarrow> bytes option" where
  "area f n = rds (record_data f) 0 n"

section \<open>SEQUENTIAL\<close>

text \<open>The length that precedes a record of variable size, in the formats of \<open>WITH_VARSEQ\<close>.\<close>

definition rdw_size :: "nat \<Rightarrow> nat" where
  "rdw_size v = (if v = 2 then size_bytes else if v = 3 then 2 else 4)"

definition rdw_bytes :: "io_env \<Rightarrow> nat \<Rightarrow> bytes" where
  "rdw_bytes E n =
    (if env_varseq E = 2 then host_bytes (env_target E) size_bytes (int n)
     else if env_varseq E = 1 then rev (le_bytes 4 (int n))
     else if env_varseq E = 3 then rev (le_bytes 2 (int n))
     else rev (le_bytes 2 (int n)) @ [0, 0])"

definition rdw_value :: "io_env \<Rightarrow> bytes \<Rightarrow> nat" where
  "rdw_value E bs =
    (if env_varseq E = 2 then nat (host_val (env_target E) bs)
     else if env_varseq E = 1 then nat (le_val (rev bs))
     else nat (le_val (rev (take 2 bs))))"

definition sequential_read :: "io_env \<Rightarrow> io_world \<Rightarrow> cob_file \<Rightarrow> io_result" where
  "sequential_read E W f = do {
     (ok, W, f) \<leftarrow> (if record_min f \<noteq> record_max f then do {
         (ok, bs, W) \<leftarrow> fread1 W (fhandle f) (rdw_size (env_varseq E));
         Some (ok, W, if ok then f\<lparr>record_len := rdw_value E bs\<rparr>
           else if env_varseq E = 2 then f\<lparr>record_len := size_over (env_target E) (record_len f) bs\<rparr>
           else f) }
       else Some (True, W, f));
     if \<not> ok then at_end_or_error W f
     else do {
       (n, W, f) \<leftarrow> fread_data W f (record_len f);
       if n \<noteq> record_len f then do {
         e \<leftarrow> ferror W (fhandle f);
         Some (if e then COB_STATUS_30_PERMANENT_ERROR
           else if n = 0 then COB_STATUS_10_END_OF_FILE else COB_STATUS_04_SUCCESS_INCOMPLETE, W, f) }
       else Some (COB_STATUS_00_SUCCESS, W, f) } }"

text \<open>WRITE AFTER or BEFORE ADVANCING: when the flag \<open>b\<close> is in the options, the lines, then the flag.\<close>

definition advance :: "io_env \<Rightarrow> io_world \<Rightarrow> cob_file \<Rightarrow> io_opts \<Rightarrow> io_opts \<Rightarrow> io_result" where
  "advance E W f opt b =
    (if opt AND b \<noteq> 0 then do {
       (ret, W, f) \<leftarrow> cob_file_write_opt E W f opt;
       Some (ret, W, if ret \<noteq> 0 then f else f\<lparr>flag_needs_nl := (b = COB_WRITE_AFTER)\<rparr>) }
     else Some (0, W, f))"

definition sequential_write :: "io_env \<Rightarrow> io_world \<Rightarrow> cob_file \<Rightarrow> io_opts \<Rightarrow> io_result" where
  "sequential_write E W f opt = do {
     (ret, W, f) \<leftarrow> advance E W f opt COB_WRITE_AFTER;
     if ret \<noteq> 0 then Some (ret, W, f)
     else do {
       (ok, W) \<leftarrow> (if record_min f \<noteq> record_max f
         then fwrite1 W (fhandle f) (rdw_bytes E (record_len f)) else Some (True, W));
       if \<not> ok then Some (COB_STATUS_30_PERMANENT_ERROR, W, f)
       else do {
         bs \<leftarrow> area f (record_len f);
         (ok, W) \<leftarrow> fwrite1 W (fhandle f) bs;
         if \<not> ok then Some (COB_STATUS_30_PERMANENT_ERROR, W, f)
         else advance E W f opt COB_WRITE_BEFORE } } }"

definition sequential_rewrite :: "io_world \<Rightarrow> cob_file \<Rightarrow> io_result" where
  "sequential_rewrite W f = do {
     (ok, W) \<leftarrow> fseek_cur W (fhandle f) (- int (record_len f));
     if \<not> ok then Some (COB_STATUS_30_PERMANENT_ERROR, W, f)
     else do {
       bs \<leftarrow> area f (record_len f);
       (ok, W) \<leftarrow> fwrite1 W (fhandle f) bs;
       Some (if ok then COB_STATUS_00_SUCCESS else COB_STATUS_30_PERMANENT_ERROR, W, f) } }"

section \<open>LINE SEQUENTIAL\<close>

text \<open>
  The loop of \<open>lineseq_read\<close>: \<open>i\<close> characters are in the record area. The result tells how the
  loop was left: a status (at the end of the file, or after a lone null), or a line.
\<close>

partial_function (option) lineseq_loop ::
  "bool \<Rightarrow> nat option \<Rightarrow> nat \<Rightarrow> io_world \<Rightarrow> nat \<Rightarrow> bytes \<Rightarrow> (nat \<times> io_world \<times> nat \<times> bytes) option" where
  "lineseq_loop nulls fp sz W i d = do {
     (c, W) \<leftarrow> getc W fp;
     case c of
       None \<Rightarrow> Some (if i = 0 then COB_STATUS_10_END_OF_FILE else COB_STATUS_00_SUCCESS, W, i, d)
     | Some c \<Rightarrow> do {
         (c, e, W) \<leftarrow> (if c = 0 \<and> nulls then map_option (\<lambda>(c, W). (c, True, W)) (getc W fp)
                        else Some (Some c, False, W));
         case c of
           None \<Rightarrow> Some (COB_STATUS_30_PERMANENT_ERROR, W, i, d)
         | Some c \<Rightarrow>
             if \<not> e \<and> c = chr_cr then lineseq_loop nulls fp sz W i d
             else if \<not> e \<and> c = chr_nl then Some (COB_STATUS_00_SUCCESS, W, i, d)
             else if i < sz then do { d \<leftarrow> wr d i c; lineseq_loop nulls fp sz W (Suc i) d }
             else lineseq_loop nulls fp sz W i d } }"

definition lineseq_read :: "io_env \<Rightarrow> io_world \<Rightarrow> cob_file \<Rightarrow> io_result" where
  "lineseq_read E W f = do {
     (ret, W, i, d) \<leftarrow> lineseq_loop (cob_ls_nulls E) (fhandle f) (record_len f) W 0 (record_data f);
     let f = f\<lparr>record_data := d\<rparr>;
     if ret \<noteq> 0 then Some (ret, W, f)
     else do {
       d \<leftarrow> wrs d i (replicate (record_len f - i) chr_space);
       f \<leftarrow> set_record_size E (f\<lparr>record_data := d\<rparr>) (int i);
       Some (COB_STATUS_00_SUCCESS, W, f) } }"

text \<open>The record without trailing spaces, and the bytes that stand for it in the file.\<close>

definition trim_spaces :: "bytes \<Rightarrow> bytes" where
  "trim_spaces bs = rev (dropWhile (\<lambda>b. b = chr_space) (rev bs))"

definition null_escape :: "bytes \<Rightarrow> bytes" where
  "null_escape bs = concat (map (\<lambda>b. if b < chr_space then [0, b] else [b]) bs)"

definition lineseq_write :: "io_env \<Rightarrow> io_world \<Rightarrow> cob_file \<Rightarrow> io_opts \<Rightarrow> io_result" where
  "lineseq_write E W f opt = do {
     r \<leftarrow> area f (record_len f);
     let bs = (if cob_ls_fixed E then r else trim_spaces r);
     (W, f) \<leftarrow> (case linage f of
         Some L \<Rightarrow> if flag_needs_top f
           then map_option (\<lambda>W. (W, f\<lparr>flag_needs_top := False\<rparr>)) (putn W (fhandle f) (lin_top L) chr_nl)
           else Some (W, f)
       | None \<Rightarrow> Some (W, f));
     (ret, W, f) \<leftarrow> advance E W f opt COB_WRITE_AFTER;
     if ret \<noteq> 0 then Some (ret, W, f)
     else do {
       (ok, W) \<leftarrow> (if bs = [] then Some (True, W)
         else if cob_ls_nulls E then map_option (\<lambda>(ok, W). (True, W)) (fwrite W (fhandle f) (null_escape bs))
         else fwrite1 W (fhandle f) bs);
       if \<not> ok then Some (COB_STATUS_30_PERMANENT_ERROR, W, f)
       else do {
         W \<leftarrow> (if linage f \<noteq> None then putc W (fhandle f) chr_nl else Some W);
         (ret, W, f) \<leftarrow> advance E W f opt COB_WRITE_BEFORE;
         if ret \<noteq> 0 then Some (ret, W, f)
         else do {
           (W, f) \<leftarrow> (if flag_needs_nl f \<and> linage f = None
             then map_option (\<lambda>W. (W, f\<lparr>flag_needs_nl := False\<rparr>)) (putc W (fhandle f) chr_nl)
             else Some (W, f));
           Some (if eop_status W then (COB_STATUS_52_EOP,
               W\<lparr>eop_status := False, io_rt := (io_rt W)\<lparr>exception_code := 0x0502\<rparr>\<rparr>, f)
             else (COB_STATUS_00_SUCCESS, W, f)) } } } }"

section \<open>RELATIVE\<close>

text \<open>A slot of a relative file: the length of the record in it (0: none), then the record area.\<close>

definition rel_size :: "cob_file \<Rightarrow> nat" where
  "rel_size f = record_max f + size_bytes"

text \<open>
  Position at slot \<open>k\<close> (from 0) and read the length there. The product is computed as
  \<open>size_t\<close> and converted to \<open>off_t\<close>.
\<close>

definition slot_offset :: "cob_file \<Rightarrow> int \<Rightarrow> int" where
  "slot_offset f k = i64 (k * int (rel_size f))"

definition seek_slot :: "io_env \<Rightarrow> io_world \<Rightarrow> cob_file \<Rightarrow> int \<Rightarrow> (bool \<times> io_world \<times> cob_file) option" where
  "seek_slot E W f k = do {
     (ok, W) \<leftarrow> fseek_set W (fhandle f) (slot_offset f k);
     if \<not> ok then Some (False, W, f) else fread_size E W f }"

definition back_to_size :: "io_world \<Rightarrow> cob_file \<Rightarrow> io_world option" where
  "back_to_size W f = map_option snd (fseek_cur W (fhandle f) (- int size_bytes))"

text \<open>The loop of \<open>relative_start\<close>; an index that leaves the range of an int has no meaning.\<close>

partial_function (option) start_loop ::
  "io_env \<Rightarrow> start_cond \<Rightarrow> io_world \<Rightarrow> cob_file \<Rightarrow> int \<Rightarrow> io_result" where
  "start_loop E cond W f k = (if k < - (2 ^ 31) \<or> 2 ^ 31 \<le> k then None else do {
     (ok, W, f) \<leftarrow> seek_slot E W f k;
     if \<not> ok then Some (COB_STATUS_23_KEY_NOT_EXISTS, W, f)
     else if record_len f > 0 then do {
       f \<leftarrow> set_rel_key E f (k + 1);
       W \<leftarrow> back_to_size W f;
       Some (COB_STATUS_00_SUCCESS, W, f) }
     else if cond = COB_EQ then Some (COB_STATUS_23_KEY_NOT_EXISTS, W, f)
     else start_loop E cond W f (if cond = COB_LT \<or> cond = COB_LE then k - 1 else k + 1) })"

definition relative_start :: "io_env \<Rightarrow> io_world \<Rightarrow> cob_file \<Rightarrow> start_cond \<Rightarrow> io_result" where
  "relative_start E W f cond = do {
     (k, f) \<leftarrow> get_rel_key E f;
     start_loop E cond W f (if cond = COB_LT then k - 2 else if cond = COB_GT then k else k - 1) }"

definition relative_read :: "io_env \<Rightarrow> io_world \<Rightarrow> cob_file \<Rightarrow> io_result" where
  "relative_read E W f = do {
     (k, f) \<leftarrow> get_rel_key E f;
     (ok, W, f) \<leftarrow> seek_slot E W f (k - 1);
     if \<not> ok then Some (COB_STATUS_23_KEY_NOT_EXISTS, W, f)
     else if record_len f = 0 then do {
       W \<leftarrow> back_to_size W f;
       Some (COB_STATUS_23_KEY_NOT_EXISTS, W, f) }
     else do {
       (n, W, f) \<leftarrow> fread_data W f (record_max f);
       Some (if n \<noteq> record_max f \<or> n = 0 then COB_STATUS_30_PERMANENT_ERROR
         else COB_STATUS_00_SUCCESS, W, f) } }"

text \<open>
  The number of the record just found goes to the RELATIVE KEY: 1 for the first read, else
  from the position. The result says whether it fits the item.
\<close>

definition number_record :: "io_env \<Rightarrow> io_world \<Rightarrow> cob_file \<Rightarrow> (bool \<times> io_world \<times> cob_file) option" where
  "number_record E W f =
    (case rel_key f of
       None \<Rightarrow> Some (True, W, f)
     | Some g \<Rightarrow>
       if flag_first_read f \<noteq> 0 then do {
         g \<leftarrow> item_set E g 1;
         Some (True, W, f\<lparr>rel_key := Some g, flag_first_read := 0\<rparr>) }
       else do {
         off \<leftarrow> ftell W (fhandle f);
         g \<leftarrow> item_set E g 0;
         (r, W, g) \<leftarrow> item_add E W g (i32 (int (off div rel_size f) + 1));
         Some (r = 0, W, f\<lparr>rel_key := Some g\<rparr>) })"

partial_function (option) relative_read_next :: "io_env \<Rightarrow> io_world \<Rightarrow> cob_file \<Rightarrow> io_result" where
  "relative_read_next E W f = do {
     (ok, W, f) \<leftarrow> fread_size E W f;
     if \<not> ok then at_end_or_error W f
     else do {
       (ok, W, f) \<leftarrow> number_record E W f;
       if \<not> ok then do { W \<leftarrow> back_to_size W f; Some (COB_STATUS_14_OUT_OF_KEY_RANGE, W, f) }
       else if record_len f > 0 then do {
         (n, W, f) \<leftarrow> fread_data W f (record_max f);
         Some (if n \<noteq> record_max f \<or> n = 0 then COB_STATUS_30_PERMANENT_ERROR
           else COB_STATUS_00_SUCCESS, W, f) }
       else do {
         (_, W) \<leftarrow> fseek_cur W (fhandle f) (int (record_max f));
         relative_read_next E W f } } }"

text \<open>The length and the whole record area go to the slot at the position.\<close>

definition write_slot :: "io_env \<Rightarrow> io_world \<Rightarrow> cob_file \<Rightarrow> (bool \<times> io_world) option" where
  "write_slot E W f = do {
     (ok, W) \<leftarrow> fwrite1 W (fhandle f) (host_bytes (env_target E) size_bytes (int (record_len f)));
     if \<not> ok then Some (False, W)
     else do { bs \<leftarrow> area f (record_max f); fwrite1 W (fhandle f) bs } }"

definition relative_write :: "io_env \<Rightarrow> io_world \<Rightarrow> cob_file \<Rightarrow> io_result" where
  "relative_write E W f = do {
     let sequ = (access_mode f = COB_ACCESS_SEQUENTIAL);
     (k, f) \<leftarrow> (if sequ then Some (1, f) else get_rel_key E f);
     if k - 1 < 0 then Some (COB_STATUS_21_KEY_INVALID, W, f)
     else do {
       (ok, W) \<leftarrow> (if sequ then Some (True, W) else fseek_set W (fhandle f) (slot_offset f (k - 1)));
       if \<not> ok then Some (COB_STATUS_21_KEY_INVALID, W, f)
       else do {
         off \<leftarrow> ftell W (fhandle f);
         (ok, bs, W) \<leftarrow> fread1 W (fhandle f) size_bytes;
         (_, W) \<leftarrow> (if ok then fseek_cur W (fhandle f) (- int size_bytes) else fseek_set W (fhandle f) (int off));
         if ok \<and> host_val (env_target E) bs > 0 then Some (COB_STATUS_22_KEY_EXISTS, W, f)
         else do {
           (ok, W) \<leftarrow> write_slot E W f;
           if \<not> ok then Some (COB_STATUS_30_PERMANENT_ERROR, W, f)
           else do {
             f \<leftarrow> (if sequ then set_rel_key E f (i32 (int ((off + rel_size f) div rel_size f))) else Some f);
             Some (COB_STATUS_00_SUCCESS, W, f) } } } } }"

definition relative_rewrite :: "io_env \<Rightarrow> io_world \<Rightarrow> cob_file \<Rightarrow> io_result" where
  "relative_rewrite E W f = do {
     (ok, W, f) \<leftarrow> (if access_mode f = COB_ACCESS_SEQUENTIAL
       then map_option (\<lambda>(_, W). (True, W, f)) (fseek_cur W (fhandle f) (- int (record_max f)))
       else do { (k, f) \<leftarrow> get_rel_key E f; seek_slot E W f (k - 1) });
     if \<not> ok then Some (COB_STATUS_23_KEY_NOT_EXISTS, W, f)
     else do {
       bs \<leftarrow> area f (record_max f);
       (ok, W) \<leftarrow> fwrite1 W (fhandle f) bs;
       Some (if ok then COB_STATUS_00_SUCCESS else COB_STATUS_30_PERMANENT_ERROR, W, f) } }"

definition relative_delete :: "io_env \<Rightarrow> io_world \<Rightarrow> cob_file \<Rightarrow> io_result" where
  "relative_delete E W f = do {
     (k, f) \<leftarrow> get_rel_key E f;
     (ok, W, f) \<leftarrow> seek_slot E W f (k - 1);
     if \<not> ok then Some (COB_STATUS_23_KEY_NOT_EXISTS, W, f)
     else do {
       W \<leftarrow> back_to_size W f;
       let f = f\<lparr>record_len := 0\<rparr>;
       (ok, W) \<leftarrow> fwrite1 W (fhandle f) (host_bytes (env_target E) size_bytes 0);
       if \<not> ok then Some (COB_STATUS_30_PERMANENT_ERROR, W, f)
       else do {
         (_, W) \<leftarrow> fseek_cur W (fhandle f) (int (record_max f));
         Some (COB_STATUS_00_SUCCESS, W, f) } } }"

section \<open>The tables of handlers\<close>

text \<open>\<open>fileio_funcs\<close>; what an organization does not have answers 91, as do INDEXED files.\<close>

abbreviation not_available :: "io_world \<Rightarrow> cob_file \<Rightarrow> io_result" where
  "not_available W f \<equiv> Some (COB_STATUS_91_NOT_AVAILABLE, W, f)"

fun funcs_open where
  "funcs_open COB_ORG_INDEXED E W f name mode sharing = not_available W f"
| "funcs_open _ E W f name mode sharing = cob_file_open E W f name mode sharing"

fun funcs_close where
  "funcs_close COB_ORG_INDEXED W f opt = not_available W f"
| "funcs_close _ W f opt = cob_file_close W f opt"

fun funcs_start where
  "funcs_start COB_ORG_RELATIVE E W f cond = relative_start E W f cond"
| "funcs_start _ E W f cond = not_available W f"

fun funcs_read where
  "funcs_read COB_ORG_RELATIVE E W f = relative_read E W f"
| "funcs_read _ E W f = not_available W f"

fun funcs_read_next where
  "funcs_read_next COB_ORG_SEQUENTIAL E W f = sequential_read E W f"
| "funcs_read_next COB_ORG_LINE_SEQUENTIAL E W f = lineseq_read E W f"
| "funcs_read_next COB_ORG_RELATIVE E W f = relative_read_next E W f"
| "funcs_read_next COB_ORG_INDEXED E W f = not_available W f"

fun funcs_write where
  "funcs_write COB_ORG_SEQUENTIAL E W f opt = sequential_write E W f opt"
| "funcs_write COB_ORG_LINE_SEQUENTIAL E W f opt = lineseq_write E W f opt"
| "funcs_write COB_ORG_RELATIVE E W f opt = relative_write E W f"
| "funcs_write COB_ORG_INDEXED E W f opt = not_available W f"

fun funcs_rewrite where
  "funcs_rewrite COB_ORG_SEQUENTIAL E W f = sequential_rewrite W f"
| "funcs_rewrite COB_ORG_RELATIVE E W f = relative_rewrite E W f"
| "funcs_rewrite _ E W f = not_available W f"

fun funcs_delete where
  "funcs_delete COB_ORG_RELATIVE E W f = relative_delete E W f"
| "funcs_delete _ E W f = not_available W f"

end
