(* ===== verification/Cob_Fileio.thy ===== *)
theory Cob_Fileio
  imports Cob_File
begin

text \<open>
  The statements of fileio.c on one connector: how OPEN finds the file (mapping of names
  through the environment), the checks each statement makes before it calls the handler of
  the organization, and what it records in the connector afterwards.
\<close>

section \<open>File names\<close>

definition isalnum_c :: "u8 \<Rightarrow> bool" where
  "isalnum_c c \<longleftrightarrow> (48 \<le> c \<and> c \<le> 57) \<or> (65 \<le> c \<and> c \<le> 90) \<or> (97 \<le> c \<and> c \<le> 122)"

abbreviation (input) chr_dollar :: u8 where "chr_dollar \<equiv> 36"
abbreviation (input) chr_underscore :: u8 where "chr_underscore \<equiv> 95"
abbreviation (input) chr_dash :: u8 where "chr_dash \<equiv> 45"
abbreviation (input) chr_slash :: u8 where "chr_slash \<equiv> 47"

text \<open>
  The expansion of \<open>$NAME\<close>: the name ends at the first character that is neither
  alphanumeric nor an underscore (the test against a dash looks at the dollar sign itself).
  An unset variable expands to nothing.
\<close>

function expand_name :: "io_env \<Rightarrow> bytes \<Rightarrow> bytes" where
  "expand_name E [] = []"
| "expand_name E (c # cs) =
    (if c = chr_dollar then
       (case env_getenv E (takeWhile (\<lambda>b. isalnum_c b \<or> b = chr_underscore) cs) of
          None \<Rightarrow> [] | Some v \<Rightarrow> v) @
       expand_name E (dropWhile (\<lambda>b. isalnum_c b \<or> b = chr_underscore) cs)
     else c # expand_name E cs)"
  by pat_completeness auto

termination
  by (relation "measure (\<lambda>(E, cs). length cs)") (auto simp: length_dropWhile_le le_imp_less_Suc)

text \<open>
  Whether the name is to be looked up as a whole: no character the loop stops at is
  special; a dollar sign is.
\<close>

definition simple_name :: "bytes \<Rightarrow> bool" where
  "simple_name cs \<longleftrightarrow> (\<forall>c\<in>set cs. isalnum_c c \<or> c = chr_underscore \<or> c = chr_dash)"

definition dd_prefixes :: "bytes list" where
  "dd_prefixes = [[68, 68, 95], [100, 100, 95], []]"

fun env_lookup :: "io_env \<Rightarrow> bytes list \<Rightarrow> bytes \<Rightarrow> bytes option" where
  "env_lookup E [] n = None"
| "env_lookup E (p # ps) n = (case env_getenv E (take (COB_SMALL_BUFF - 2) (p @ n)) of
     Some v \<Rightarrow> Some v | None \<Rightarrow> env_lookup E ps n)"

text \<open>Two buffers of \<open>COB_SMALL_BUFF\<close> bytes hold the names.\<close>

definition map_file_name :: "io_env \<Rightarrow> bytes \<Rightarrow> bytes option" where
  "map_file_name E n =
    (if \<not> flag_filename_mapping E then Some n
     else let x = expand_name E n in
       if COB_SMALL_BUFF \<le> length x then None
       else if \<not> simple_name n then Some x
       else Some (case env_lookup E dd_prefixes x of
           Some v \<Rightarrow> take (COB_SMALL_BUFF - 1) v
         | None \<Rightarrow> (case cob_file_path E of
               None \<Rightarrow> x
             | Some d \<Rightarrow> take (COB_SMALL_BUFF - 2) (d @ [chr_slash] @ x))))"

definition assigned_name :: "cob_file \<Rightarrow> bytes option" where
  "assigned_name f = (case assign f of
     None \<Rightarrow> Some (take (COB_SMALL_BUFF - 1) (select_name f))
   | Some g \<Rightarrow> if COB_SMALL_BUFF \<le> fsize g then None else Some (c_string (cob_field_to_string g)))"

section \<open>OPEN\<close>

definition cob_cache_file :: "io_world \<Rightarrow> cob_file \<Rightarrow> io_world" where
  "cob_cache_file W f = (if select_name f \<in> set (file_cache W) then W
     else W\<lparr>file_cache := select_name f # file_cache W\<rparr>)"

text \<open>The streams of ACCEPT and DISPLAY are open from the start.\<close>

abbreviation (input) stdin_handle :: nat where "stdin_handle \<equiv> 0"
abbreviation (input) stdout_handle :: nat where "stdout_handle \<equiv> 1"

text \<open>What OPEN makes of the answer of the handler.\<close>

definition mark_nonexistent :: "cob_file \<Rightarrow> open_mode \<Rightarrow> cob_file" where
  "mark_nonexistent f mode = f\<lparr>open_mode := mode, flag_nonexistent := True,
     flag_end_of_file := True, flag_begin_of_file := True\<rparr>"

definition open_answer :: "nat \<Rightarrow> bool \<Rightarrow> cob_file \<Rightarrow> open_mode \<Rightarrow> nat \<times> cob_file" where
  "open_answer ret was_not_exist f mode =
    (if ret = 0 then
       (if flag_optional f \<and> was_not_exist then COB_STATUS_05_SUCCESS_OPTIONAL
        else COB_STATUS_00_SUCCESS, f\<lparr>open_mode := mode\<rparr>)
     else if ret = ENOENT then
       (if mode = COB_OPEN_EXTEND \<or> mode = COB_OPEN_OUTPUT then (COB_STATUS_30_PERMANENT_ERROR, f)
        else if flag_optional f then (COB_STATUS_05_SUCCESS_OPTIONAL, mark_nonexistent f mode)
        else (COB_STATUS_35_NOT_EXISTS, f))
     else if ret = EACCES \<or> ret = EISDIR \<or> ret = EROFS then (COB_STATUS_37_PERMISSION_DENIED, f)
     else if ret = EAGAIN \<or> ret = COB_STATUS_61_FILE_SHARING then (COB_STATUS_61_FILE_SHARING, f)
     else if ret = COB_STATUS_91_NOT_AVAILABLE then (COB_STATUS_91_NOT_AVAILABLE, f)
     else if ret = COB_LINAGE_INVALID then (COB_STATUS_57_I_O_LINAGE, f)
     else (COB_STATUS_30_PERMANENT_ERROR, f))"

definition open_special :: "io_world \<Rightarrow> cob_file \<Rightarrow> open_mode \<Rightarrow> nat \<times> io_world \<times> cob_file" where
  "open_special W f mode =
    (let (want, h) = (if special f = 1 then (COB_OPEN_INPUT, stdin_handle) else (COB_OPEN_OUTPUT, stdout_handle))
     in if mode \<noteq> want then (COB_STATUS_30_PERMANENT_ERROR, W, f)
        else (COB_STATUS_00_SUCCESS, W, f\<lparr>fhandle := Some h, open_mode := mode\<rparr>))"

definition open_named :: "io_env \<Rightarrow> io_world \<Rightarrow> cob_file \<Rightarrow> open_mode \<Rightarrow> bool \<Rightarrow> io_result" where
  "open_named E W f mode sharing = do {
     n \<leftarrow> assigned_name f;
     n \<leftarrow> map_file_name E n;
     let was_not_exist = (io_disk W n = None);
     if was_not_exist \<and> mode \<noteq> COB_OPEN_OUTPUT \<and> \<not> flag_optional f
     then Some (COB_STATUS_35_NOT_EXISTS, W, f)
     else do {
       let W = cob_cache_file W f;
       (ret, W, f) \<leftarrow> funcs_open (organization f) E W f n mode sharing;
       let (st, f) = open_answer ret was_not_exist f mode;
       Some (st, W, f) } }"

definition open_file :: "io_env \<Rightarrow> io_world \<Rightarrow> cob_file \<Rightarrow> open_mode \<Rightarrow> bool \<Rightarrow> io_result" where
  "open_file E W f mode sharing =
    (let f = f\<lparr>flag_read_done := False\<rparr> in
     if open_mode f = COB_OPEN_LOCKED then Some (COB_STATUS_38_CLOSED_WITH_LOCK, W, f)
     else if open_mode f \<noteq> COB_OPEN_CLOSED then Some (COB_STATUS_41_ALREADY_OPEN, W, f)
     else let f = f\<lparr>last_open_mode := mode, flag_nonexistent := False, flag_end_of_file := False,
                flag_begin_of_file := False, flag_first_read := 2\<rparr> in
       if special f \<noteq> 0 then Some (open_special W f mode) else open_named E W f mode sharing)"

definition cob_open ::
  "io_env \<Rightarrow> io_world \<Rightarrow> cob_file \<Rightarrow> open_mode \<Rightarrow> bool \<Rightarrow> cob_field option \<Rightarrow> stmt_result" where
  "cob_open E W f mode sharing fns = finish fns (open_file E W f mode sharing)"

section \<open>CLOSE and UNLOCK\<close>

definition close_file :: "io_world \<Rightarrow> cob_file \<Rightarrow> close_opt \<Rightarrow> io_result" where
  "close_file W f opt =
    (let f = f\<lparr>flag_read_done := False\<rparr> in
     if special f \<noteq> 0 then Some (COB_STATUS_00_SUCCESS, W, f\<lparr>open_mode := COB_OPEN_CLOSED\<rparr>)
     else if open_mode f = COB_OPEN_CLOSED then Some (COB_STATUS_42_NOT_OPEN, W, f)
     else do {
       (ret, W, f) \<leftarrow> (if flag_nonexistent f then Some (COB_STATUS_00_SUCCESS, W, f)
         else funcs_close (organization f) W f opt);
       Some (ret, W, if ret = COB_STATUS_00_SUCCESS
         then f\<lparr>open_mode := (if opt = COB_CLOSE_LOCK then COB_OPEN_LOCKED else COB_OPEN_CLOSED)\<rparr> else f) })"

definition cob_close :: "io_world \<Rightarrow> cob_file \<Rightarrow> close_opt \<Rightarrow> cob_field option \<Rightarrow> stmt_result" where
  "cob_close W f opt fns = finish fns (close_file W f opt)"

definition cob_file_unlock :: "io_world \<Rightarrow> cob_file \<Rightarrow> io_world option" where
  "cob_file_unlock W f =
    (if open_mode f \<noteq> COB_OPEN_CLOSED \<and> open_mode f \<noteq> COB_OPEN_LOCKED \<and> organization f \<noteq> COB_ORG_INDEXED
     then fflush W (fhandle f) else Some W)"

definition cob_unlock_file :: "io_world \<Rightarrow> cob_file \<Rightarrow> cob_field option \<Rightarrow> stmt_result" where
  "cob_unlock_file W f fns = do { W \<leftarrow> cob_file_unlock W f; save_status COB_STATUS_00_SUCCESS W f fns }"

text \<open>COMMIT and ROLLBACK over the connectors in the cache.\<close>

fun cob_commit :: "io_world \<Rightarrow> cob_file list \<Rightarrow> io_world option" where
  "cob_commit W [] = Some W"
| "cob_commit W (f # fs) = do { W \<leftarrow> cob_file_unlock W f; cob_commit W fs }"

definition cob_rollback :: "io_world \<Rightarrow> cob_file list \<Rightarrow> io_world option" where
  "cob_rollback W fs = cob_commit W fs"

section \<open>START and READ\<close>

definition start_file :: "io_env \<Rightarrow> io_world \<Rightarrow> cob_file \<Rightarrow> start_cond \<Rightarrow> io_result" where
  "start_file E W f cond =
    (let f = f\<lparr>flag_read_done := False, flag_first_read := 0\<rparr> in
     if flag_nonexistent f then Some (COB_STATUS_23_KEY_NOT_EXISTS, W, f)
     else if open_mode f = COB_OPEN_CLOSED \<or> open_mode f = COB_OPEN_OUTPUT \<or> open_mode f = COB_OPEN_EXTEND
       \<or> access_mode f = COB_ACCESS_RANDOM then Some (COB_STATUS_47_INPUT_DENIED, W, f)
     else do {
       (ret, W, f) \<leftarrow> funcs_start (organization f) E W f cond;
       Some (ret, W, if ret = COB_STATUS_00_SUCCESS
         then f\<lparr>flag_end_of_file := False, flag_begin_of_file := False, flag_first_read := 1\<rparr> else f) })"

definition cob_start :: "io_env \<Rightarrow> io_world \<Rightarrow> cob_file \<Rightarrow> start_cond \<Rightarrow> cob_field option \<Rightarrow> stmt_result" where
  "cob_start E W f cond fns = finish fns (start_file E W f cond)"

text \<open>\<open>keyed\<close>: the statement has a key argument, which for a relative file is the RELATIVE KEY.\<close>

definition read_noted :: "io_env \<Rightarrow> nat \<Rightarrow> cob_file \<Rightarrow> io_opts \<Rightarrow> cob_file option" where
  "read_noted E ret f opts =
    (if ret = COB_STATUS_00_SUCCESS then
       let f = f\<lparr>flag_first_read := 0, flag_read_done := True, flag_end_of_file := False,
                 flag_begin_of_file := False\<rparr> in
       if organization f \<noteq> COB_ORG_LINE_SEQUENTIAL then set_record_size E f (i32 (int (record_len f))) else Some f
     else if ret = COB_STATUS_10_END_OF_FILE then
       Some (if opts AND COB_READ_PREVIOUS \<noteq> 0 then f\<lparr>flag_begin_of_file := True\<rparr> else f\<lparr>flag_end_of_file := True\<rparr>)
     else Some f)"

definition read_file :: "io_env \<Rightarrow> io_world \<Rightarrow> cob_file \<Rightarrow> bool \<Rightarrow> io_opts \<Rightarrow> io_result" where
  "read_file E W f keyed opts =
    (let f = f\<lparr>flag_read_done := False\<rparr> in
     if flag_nonexistent f then
       (if flag_first_read f = 0 then Some (COB_STATUS_23_KEY_NOT_EXISTS, W, f)
        else Some (COB_STATUS_10_END_OF_FILE, W, f\<lparr>flag_first_read := 0\<rparr>))
     else if \<not> keyed \<and> flag_end_of_file f \<and> opts AND COB_READ_PREVIOUS = 0
     then Some (COB_STATUS_46_READ_ERROR, W, f)
     else if \<not> keyed \<and> flag_begin_of_file f \<and> opts AND COB_READ_PREVIOUS \<noteq> 0
     then Some (COB_STATUS_46_READ_ERROR, W, f)
     else if open_mode f = COB_OPEN_CLOSED \<or> open_mode f = COB_OPEN_OUTPUT \<or> open_mode f = COB_OPEN_EXTEND
     then Some (COB_STATUS_47_INPUT_DENIED, W, f)
     else do {
       (ret, W, f) \<leftarrow> (if keyed then funcs_read (organization f) E W f
         else funcs_read_next (organization f) E W f);
       f \<leftarrow> read_noted E ret f opts;
       Some (ret, W, f) })"

definition cob_read ::
  "io_env \<Rightarrow> io_world \<Rightarrow> cob_file \<Rightarrow> bool \<Rightarrow> cob_field option \<Rightarrow> io_opts \<Rightarrow> stmt_result" where
  "cob_read E W f keyed fns opts = finish fns (read_file E W f keyed opts)"

section \<open>WRITE, REWRITE and DELETE\<close>

definition cob_sync :: "io_env \<Rightarrow> nat \<Rightarrow> io_world \<Rightarrow> cob_file \<Rightarrow> io_world option" where
  "cob_sync E ret W f =
    (if cob_do_sync E \<noteq> 0 \<and> ret = 0 \<and> organization f \<noteq> COB_ORG_INDEXED then fflush W (fhandle f) else Some W)"

definition write_denied :: "cob_file \<Rightarrow> bool" where
  "write_denied f \<longleftrightarrow>
    (if access_mode f = COB_ACCESS_SEQUENTIAL
     then open_mode f = COB_OPEN_CLOSED \<or> open_mode f = COB_OPEN_INPUT \<or> open_mode f = COB_OPEN_I_O
     else open_mode f = COB_OPEN_CLOSED \<or> open_mode f = COB_OPEN_INPUT \<or> open_mode f = COB_OPEN_EXTEND)"

text \<open>A negative size in the DEPENDING ON item becomes a huge \<open>size_t\<close>.\<close>

definition written_size :: "io_env \<Rightarrow> cob_file \<Rightarrow> nat \<Rightarrow> cob_file option" where
  "written_size E f rec_size =
    (case record_size f of
       None \<Rightarrow> Some (f\<lparr>record_len := rec_size\<rparr>)
     | Some g \<Rightarrow> do { (n, g) \<leftarrow> item_get E g; Some (f\<lparr>record_size := Some g, record_len := nat (u64 n)\<rparr>) })"

definition write_file :: "io_env \<Rightarrow> io_world \<Rightarrow> cob_file \<Rightarrow> nat \<Rightarrow> io_opts \<Rightarrow> io_result" where
  "write_file E W f rec_size opt =
    (let f = f\<lparr>flag_read_done := False\<rparr> in
     if write_denied f then Some (COB_STATUS_48_OUTPUT_DENIED, W, f)
     else do {
       f \<leftarrow> written_size E f rec_size;
       if record_len f < record_min f \<or> record_max f < record_len f
       then Some (COB_STATUS_44_RECORD_OVERFLOW, W, f)
       else do {
         (ret, W, f) \<leftarrow> funcs_write (organization f) E W f opt;
         W \<leftarrow> cob_sync E ret W f;
         Some (ret, W, f) } })"

definition cob_write ::
  "io_env \<Rightarrow> io_world \<Rightarrow> cob_file \<Rightarrow> nat \<Rightarrow> io_opts \<Rightarrow> cob_field option \<Rightarrow> stmt_result" where
  "cob_write E W f rec_size opt fns = finish fns (write_file E W f rec_size opt)"

definition change_denied :: "bool \<Rightarrow> cob_file \<Rightarrow> nat option" where
  "change_denied read_done f =
    (if open_mode f \<noteq> COB_OPEN_I_O then Some COB_STATUS_49_I_O_DENIED
     else if access_mode f = COB_ACCESS_SEQUENTIAL \<and> \<not> read_done then Some COB_STATUS_43_READ_NOT_DONE
     else None)"

text \<open>Whether the record of a sequential file keeps its size.\<close>

definition same_size :: "io_env \<Rightarrow> cob_file \<Rightarrow> nat \<Rightarrow> (bool \<times> cob_file) option" where
  "same_size E f rec_size =
    (if organization f \<noteq> COB_ORG_SEQUENTIAL then Some (True, f)
     else if record_len f \<noteq> rec_size then Some (False, f)
     else case record_size f of
       None \<Rightarrow> Some (True, f)
     | Some g \<Rightarrow> do {
         (n, g) \<leftarrow> item_get E g;
         Some (record_len f = nat (u64 n), f\<lparr>record_size := Some g\<rparr>) })"

definition rewrite_file :: "io_env \<Rightarrow> io_world \<Rightarrow> cob_file \<Rightarrow> nat \<Rightarrow> io_result" where
  "rewrite_file E W f rec_size =
    (let done = flag_read_done f; f = f\<lparr>flag_read_done := False\<rparr> in
     case change_denied done f of
       Some st \<Rightarrow> Some (st, W, f)
     | None \<Rightarrow> do {
         (same, f) \<leftarrow> same_size E f rec_size;
         if \<not> same then Some (COB_STATUS_44_RECORD_OVERFLOW, W, f)
         else do {
           (ret, W, f) \<leftarrow> funcs_rewrite (organization f) E W f;
           W \<leftarrow> cob_sync E ret W f;
           Some (ret, W, f) } })"

definition cob_rewrite ::
  "io_env \<Rightarrow> io_world \<Rightarrow> cob_file \<Rightarrow> nat \<Rightarrow> cob_field option \<Rightarrow> stmt_result" where
  "cob_rewrite E W f rec_size fns = finish fns (rewrite_file E W f rec_size)"

definition delete_file :: "io_env \<Rightarrow> io_world \<Rightarrow> cob_file \<Rightarrow> io_result" where
  "delete_file E W f =
    (let done = flag_read_done f; f = f\<lparr>flag_read_done := False\<rparr> in
     case change_denied done f of
       Some st \<Rightarrow> Some (st, W, f)
     | None \<Rightarrow> do {
         (ret, W, f) \<leftarrow> funcs_delete (organization f) E W f;
         W \<leftarrow> cob_sync E ret W f;
         Some (ret, W, f) })"

definition cob_delete :: "io_env \<Rightarrow> io_world \<Rightarrow> cob_file \<Rightarrow> cob_field option \<Rightarrow> stmt_result" where
  "cob_delete E W f fns = finish fns (delete_file E W f)"

section \<open>Files written and read back\<close>

text \<open>The statements a program issues to write records, and to read them until the end of the file.\<close>

abbreviation (input) status_ok :: "u8 \<times> u8" where "status_ok \<equiv> (chr_0, chr_0)"
abbreviation (input) status_at_end :: "u8 \<times> u8" where "status_at_end \<equiv> (0x31, chr_0)"

fun put_records :: "io_env \<Rightarrow> io_opts \<Rightarrow> io_world \<Rightarrow> cob_file \<Rightarrow> bytes list \<Rightarrow> (io_world \<times> cob_file) option" where
  "put_records E opt W f [] = Some (W, f)"
| "put_records E opt W f (r # rs) = do {
     (W, f, _) \<leftarrow> cob_write E W (f\<lparr>record_data := r @ drop (length r) (record_data f)\<rparr>) (length r) opt None;
     if file_status f = status_ok then put_records E opt W f rs else None }"

fun get_records :: "io_env \<Rightarrow> io_world \<Rightarrow> cob_file \<Rightarrow> nat \<Rightarrow> (bytes list \<times> io_world \<times> cob_file) option" where
  "get_records E W f 0 = do {
     (W, f, _) \<leftarrow> cob_read E W f False None 1;
     if file_status f = status_at_end then Some ([], W, f) else None }"
| "get_records E W f (Suc k) = do {
     (W, f, _) \<leftarrow> cob_read E W f False None 1;
     if file_status f = status_ok then do {
       let r = take (record_len f) (record_data f);
       (rs, W, f) \<leftarrow> get_records E W f k;
       Some (r # rs, W, f) }
     else None }"

definition save_records :: "io_env \<Rightarrow> io_opts \<Rightarrow> io_world \<Rightarrow> cob_file \<Rightarrow> bytes list \<Rightarrow> (io_world \<times> cob_file) option" where
  "save_records E opt W f rs = do {
     (W, f, _) \<leftarrow> cob_open E W f COB_OPEN_OUTPUT False None;
     if file_status f \<noteq> status_ok then None
     else do {
       (W, f) \<leftarrow> put_records E opt W f rs;
       (W, f, _) \<leftarrow> cob_close W f COB_CLOSE_NORMAL None;
       if file_status f = status_ok then Some (W, f) else None } }"

definition load_records :: "io_env \<Rightarrow> io_world \<Rightarrow> cob_file \<Rightarrow> nat \<Rightarrow> (bytes list \<times> io_world \<times> cob_file) option" where
  "load_records E W f k = do {
     (W, f, _) \<leftarrow> cob_open E W f COB_OPEN_INPUT False None;
     if file_status f \<noteq> status_ok then None
     else do {
       (rs, W, f) \<leftarrow> get_records E W f k;
       (W, f, _) \<leftarrow> cob_close W f COB_CLOSE_NORMAL None;
       if file_status f = status_ok then Some (rs, W, f) else None } }"

text \<open>A stream at the end of the file it writes, and one in front of what is left to read.\<close>

definition writing :: "io_world \<Rightarrow> cob_file \<Rightarrow> bytes \<Rightarrow> bytes \<Rightarrow> bool" where
  "writing W f n c \<longleftrightarrow> (\<exists>h s. fhandle f = Some h \<and> io_streams W h = Some s \<and> sm_name s = n \<and> sm_write s \<and>
     sm_pos s = length c \<and> io_disk W n = Some c) \<and> \<not> eop_status W"

definition reading :: "io_world \<Rightarrow> cob_file \<Rightarrow> bytes \<Rightarrow> bytes \<Rightarrow> bool" where
  "reading W f n c \<longleftrightarrow> (\<exists>h s b. fhandle f = Some h \<and> io_streams W h = Some s \<and> sm_name s = n \<and> sm_read s \<and>
     \<not> sm_err s \<and> sm_pos s = length b \<and> io_disk W n = Some (b @ c)) \<and> \<not> eop_status W"

text \<open>What no handler changes in a connector without LINAGE and DEPENDING ON.\<close>

definition conn :: "cob_file \<Rightarrow> cob_file \<Rightarrow> bool" where
  "conn f g \<longleftrightarrow> select_name g = select_name f \<and> assign g = assign f \<and> fhandle g = fhandle f \<and>
     organization g = organization f \<and> access_mode g = access_mode f \<and> record_min g = record_min f \<and>
     record_max g = record_max f \<and> open_mode g = open_mode f \<and> special g = special f \<and>
     flag_optional g = flag_optional f \<and> flag_nonexistent g = flag_nonexistent f \<and>
     flag_end_of_file g = flag_end_of_file f \<and> length (record_data g) = length (record_data f) \<and>
     linage g = None \<and> record_size g = None \<and> rel_key g = None \<and> \<not> flag_needs_nl g"

definition plain :: "cob_file \<Rightarrow> bool" where
  "plain f \<longleftrightarrow> linage f = None \<and> record_size f = None \<and> rel_key f = None \<and> special f = 0 \<and>
     access_mode f = COB_ACCESS_SEQUENTIAL \<and> length (record_data f) = record_max f \<and>
     \<not> flag_needs_nl f \<and> \<not> flag_optional f"

definition found_as :: "io_env \<Rightarrow> cob_file \<Rightarrow> bytes \<Rightarrow> bool" where
  "found_as E f n \<longleftrightarrow> Option.bind (assigned_name f) (map_file_name E) = Some n \<and>
     (\<forall>m. env_refuse E n m = None) \<and> (\<forall>x. env_lock E n x = None) "


section \<open>A run-time without options\<close>

text \<open>
  The configuration without name mapping, options and refusals, the connector the compiler
  emits for a file of records of up to \<open>m\<close> bytes, and the world before the first OPEN.
\<close>

definition plain_env :: "target \<Rightarrow> io_env" where
  "plain_env T = \<lparr>env_target = T, env_fp = fp_none, env_module = default_module, env_varseq = 0,
     env_getenv = (\<lambda>_. None), flag_filename_mapping = False, cob_ls_nulls = False, cob_ls_fixed = False,
     cob_file_path = None, cob_do_sync = 0, env_refuse = (\<lambda>_ _. None), env_lock = (\<lambda>_ _. None)\<rparr>"

definition new_file :: "org \<Rightarrow> access \<Rightarrow> bytes \<Rightarrow> nat \<Rightarrow> nat \<Rightarrow> cob_file" where
  "new_file og acc n k m = \<lparr>select_name = n, file_status = status_ok, assign = None,
     record_data = replicate m chr_space, record_len = m, record_size = None, rel_key = None, fhandle = None,
     linage = None, record_min = k, record_max = m, organization = og, access_mode = acc,
     open_mode = COB_OPEN_CLOSED, flag_optional = False, last_open_mode = COB_OPEN_CLOSED, special = 0,
     flag_nonexistent = False, flag_end_of_file = False, flag_begin_of_file = False, flag_first_read = 0,
     flag_read_done = False, flag_needs_nl = False, flag_needs_top = False\<rparr>"

definition idle_world :: io_world where
  "idle_world = \<lparr>io_rt = cob_rt_init, io_accs = cob_init_numeric, io_disk = Map.empty,
     io_streams = Map.empty, io_next = 2, eop_status = False, cob_error_file = [], file_cache = []\<rparr>"

end
