(* ===== verification/Cob_Records.thy ===== *)
theory Cob_Records
  imports Cob_Fileio
begin

text \<open>
  Sequential organizations as files of records: what is written with WRITE until CLOSE is
  what READ returns from OPEN INPUT on, and the read behind the last record finds the end of
  the file. The argument is made once, in a locale, for any encoding of a record in the file.
\<close>

section \<open>Streams at the end and in front of what is left\<close>

lemma fwrite_writing:
  assumes "writing W f n c"
  obtains W' where "fwrite W (fhandle f) bs = Some (True, W')" "writing W' f n (c @ bs)"
  using assms by (auto simp: writing_def fwrite_def get_stream_def put_stream_def contents_def overwrite_def split: if_splits)

lemma fread_reading:
  assumes "reading W f n (bs @ c)" "length bs = k \<or> (length bs < k \<and> c = [])"
  obtains W' where "fread W (fhandle f) k = Some (bs, W')" "reading W' f n c"
proof -
  from assms(1) obtain h s b where s: "fhandle f = Some h" "io_streams W h = Some s" "sm_name s = n"
    "sm_read s" "\<not> sm_err s" "sm_pos s = length b" "io_disk W n = Some (b @ bs @ c)" "\<not> eop_status W"
    by (auto simp: reading_def)
  let ?W = "put_stream W h (s\<lparr>sm_pos := sm_pos s + length bs\<rparr>)"
  have "take k (bs @ c) = bs" using assms(2) by auto
  then have "fread W (fhandle f) k = Some (bs, ?W)"
    using s by (simp add: fread_def get_stream_def contents_def)
  moreover have "reading ?W f n c"
    using s unfolding reading_def put_stream_def
    by (intro conjI exI [of _ h] exI [of _ "s\<lparr>sm_pos := sm_pos s + length bs\<rparr>"] exI [of _ "b @ bs"]) simp_all
  ultimately show ?thesis by (rule that)
qed

lemma writing_more [simp]:
  "writing W (f\<lparr>flag_read_done := x, record_len := k\<rparr>) n c = writing W f n c"
  "writing W (f\<lparr>record_data := d\<rparr>) n c = writing W f n c"
  "writing W (f\<lparr>file_status := st\<rparr>) n c = writing W f n c"
  by (simp_all add: writing_def)

lemma reading_more [simp]:
  "reading W (f\<lparr>flag_read_done := x\<rparr>) n c = reading W f n c"
  "reading W (f\<lparr>flag_end_of_file := x\<rparr>) n c = reading W f n c"
  "reading W (f\<lparr>file_status := st\<rparr>) n c = reading W f n c"
  "reading W (f\<lparr>flag_first_read := a, flag_read_done := x, flag_end_of_file := y, flag_begin_of_file := z\<rparr>) n c
    = reading W f n c"
  by (simp_all add: reading_def)

lemma ferror_reading: "reading W f n c \<Longrightarrow> ferror W (fhandle f) = Some False"
  by (auto simp: reading_def ferror_def get_stream_def)

lemma conn_refl: "plain f \<Longrightarrow> conn f f"
  by (simp add: plain_def conn_def)

lemma conn_trans: "conn f g \<Longrightarrow> conn g h \<Longrightarrow> conn f h"
  by (simp add: conn_def)

lemma conn_plain: "conn f g \<Longrightarrow> plain f \<Longrightarrow> plain g"
  by (simp add: plain_def conn_def)

lemma save_status_none:
  "save_status st W f None = Some (let W = W\<lparr>cob_error_file := select_name f\<rparr> in
     if st = 0 then (W\<lparr>io_rt := cob_clear_exception (io_rt W)\<rparr>, f\<lparr>file_status := status_ok\<rparr>, None)
     else (if st \<noteq> COB_STATUS_52_EOP
         then W\<lparr>io_rt := cob_set_exception (io_rt W) (status_exception ! (st div 10))\<rparr> else W,
       f\<lparr>file_status := (cob_i2d (int (st div 10)), cob_i2d (int (st mod 10)))\<rparr>, None))"
  by (simp add: save_status_def put_status_def Let_def)

text \<open>Setting the status leaves files and streams alone.\<close>

lemma save_status_io:
  assumes "save_status st W f fns = Some (W', f', fns')"
  shows "io_disk W' = io_disk W" "io_streams W' = io_streams W" "io_next W' = io_next W"
    "eop_status W' = eop_status W" "file_status f' = (cob_i2d (int (st div 10)), cob_i2d (int (st mod 10)))"
    "f' = f\<lparr>file_status := file_status f'\<rparr>"
  using assms
  by (auto simp: save_status_def Let_def cob_i2d_def bind_eq_Some_conv split: if_splits)

lemma sync_writing: "writing W f n c \<Longrightarrow> cob_sync E ret W f = Some W"
  by (auto simp: writing_def cob_sync_def fflush_def get_stream_def)

lemma finish_Some [simp]: "finish fns (Some (ret, W, f)) = save_status ret W f fns"
  by (simp add: finish_def)

text \<open>Writing the status to a connector does not concern what \<open>conn\<close> and the streams are about.\<close>

lemma finish_none:
  obtains W' where "finish None (Some (st, W, f)) =
      Some (W', f\<lparr>file_status := (cob_i2d (int (st div 10)), cob_i2d (int (st mod 10)))\<rparr>, None)"
    "io_disk W' = io_disk W" "io_streams W' = io_streams W" "io_next W' = io_next W" "eop_status W' = eop_status W"
    "\<And>g n c. writing W' g n c = writing W g n c" "\<And>g n c. reading W' g n c = reading W g n c"
  by (rule that [of "fst (the (finish None (Some (st, W, f))))"])
    (simp_all add: save_status_none Let_def cob_i2d_def writing_def reading_def)

lemma conn_status [simp]: "conn f (g\<lparr>file_status := x\<rparr>) = conn f g"
  by (simp add: conn_def)

lemma digits_of_status: "(cob_i2d (int (0 div 10)), cob_i2d (int (0 mod 10))) = status_ok"
  "(cob_i2d (int (10 div 10)), cob_i2d (int (10 mod 10))) = status_at_end"
  by (simp_all add: cob_i2d_def)

section \<open>The contract of an organization\<close>

locale record_file =
  fixes E :: io_env and og :: org and opt :: io_opts and enc :: "bytes \<Rightarrow> bytes"
    and ok ready :: "cob_file \<Rightarrow> bool" and fits :: "bytes \<Rightarrow> bool" and got :: "nat \<Rightarrow> bytes \<Rightarrow> bytes"
  assumes not_indexed: "og \<noteq> COB_ORG_INDEXED"
    and put: "\<lbrakk>plain f; organization f = og; ok f; writing W f n c; record_len f \<le> record_max f; record_min f \<le> record_len f;
        fits (take (record_len f) (record_data f))\<rbrakk> \<Longrightarrow>
      \<exists>W' g. funcs_write og E W f opt = Some (0, W', g) \<and>
        writing W' g n (c @ enc (take (record_len f) (record_data f))) \<and> conn f g"
    and get: "\<lbrakk>plain f; organization f = og; ok f; reading W f n (enc r @ c); fits r; ready f;
        record_min f \<le> length r; length r \<le> record_max f\<rbrakk> \<Longrightarrow>
      \<exists>W' g. funcs_read_next og E W f = Some (0, W', g) \<and> reading W' g n c \<and> conn f g \<and> ready g \<and>
        take (record_len g) (record_data g) = got (record_max f) r"
    and get_end: "\<lbrakk>plain f; organization f = og; ok f; reading W f n []; ready f\<rbrakk> \<Longrightarrow>
      \<exists>W' g. funcs_read_next og E W f = Some (COB_STATUS_10_END_OF_FILE, W', g) \<and> reading W' g n [] \<and> conn f g"
    and ok_cong: "\<lbrakk>record_min g = record_min f; record_max g = record_max f\<rbrakk> \<Longrightarrow> ok g = ok f"
    and ready_cong: "\<lbrakk>record_len g = record_len f; record_min g = record_min f; record_max g = record_max f\<rbrakk> \<Longrightarrow>
      ready g = ready f"
begin

lemma conn_ok: "conn f g \<Longrightarrow> ok f \<Longrightarrow> ok g"
  using ok_cong [of g f] by (simp add: conn_def)

lemma write_one:
  assumes f: "plain f" "organization f = og" "ok f" "open_mode f = COB_OPEN_OUTPUT" and w: "writing W f n c"
    and k: "record_min f \<le> k" "k \<le> record_max f" "fits (take k (record_data f))"
  shows "\<exists>W' g. cob_write E W f k opt None = Some (W', g, None) \<and> file_status g = status_ok \<and>
    writing W' g n (c @ enc (take k (record_data f))) \<and> conn f g"
proof -
  let ?f = "f\<lparr>flag_read_done := False, record_len := k\<rparr>"
  have "plain ?f" "ok ?f" using f ok_cong [of ?f f] by (simp_all add: plain_def)
  then obtain W' g where g: "funcs_write og E W ?f opt = Some (0, W', g)"
    "writing W' g n (c @ enc (take k (record_data f)))" "conn ?f g"
    using put [of ?f W n c] f k w by fastforce
  have "access_mode f = COB_ACCESS_SEQUENTIAL" "record_size f = None"
    using f by (simp_all add: plain_def)
  then have "write_file E W f k opt = Some (0, W', g)"
    using f k g(1) sync_writing [OF g(2)]
    by (simp add: write_file_def Let_def written_size_def write_denied_def not_less)
  moreover obtain W'' where "finish None (Some (0, W', g)) = Some (W'', g\<lparr>file_status := status_ok\<rparr>, None)"
    "writing W'' g n (c @ enc (take k (record_data f)))"
    using g(2) finish_none [of 0 W' g] unfolding digits_of_status by metis
  moreover have "conn f g" using g(3) by (simp add: conn_def)
  ultimately show ?thesis
    by (intro exI [of _ W''] exI [of _ "g\<lparr>file_status := status_ok\<rparr>"]) (simp add: cob_write_def)
qed

lemma put_all:
  assumes "plain f" "organization f = og" "ok f" "open_mode f = COB_OPEN_OUTPUT" "writing W f n c"
    "\<forall>r\<in>set rs. fits r \<and> record_min f \<le> length r \<and> length r \<le> record_max f"
  shows "\<exists>W' g. put_records E opt W f rs = Some (W', g) \<and> writing W' g n (c @ concat (map enc rs)) \<and> conn f g"
  using assms
proof (induction rs arbitrary: W f c)
  case Nil
  then show ?case by (auto intro: conn_refl)
next
  case (Cons r rs)
  let ?f = "f\<lparr>record_data := r @ drop (length r) (record_data f)\<rparr>"
  have len: "length (record_data f) = record_max f" "length r \<le> record_max f"
    using Cons.prems by (simp_all add: plain_def)
  have p: "plain ?f" "ok ?f" "writing W ?f n c" using Cons.prems len ok_cong [of ?f f] by (simp_all add: plain_def)
  obtain W' g where g: "cob_write E W ?f (length r) opt None = Some (W', g, None)" "file_status g = status_ok"
    "writing W' g n (c @ enc r)" "conn ?f g"
    using write_one [of ?f W n c "length r"] Cons.prems p by auto
  then have fg: "conn f g" using len by (simp add: conn_def)
  obtain W'' h where "put_records E opt W' g rs = Some (W'', h)"
    "writing W'' h n ((c @ enc r) @ concat (map enc rs))" "conn g h"
    using Cons.IH [of g W' "c @ enc r"] Cons.prems g fg conn_plain [OF fg] conn_ok [OF fg] by (auto simp: conn_def)
  then show ?case using g fg by (auto intro: conn_trans)
qed

lemma read_one:
  assumes f: "plain f" "organization f = og" "ok f" "open_mode f = COB_OPEN_INPUT" "ready f"
      "\<not> flag_nonexistent f" "\<not> flag_end_of_file f"
    and r: "reading W f n (enc r @ c)" "fits r" "record_min f \<le> length r" "length r \<le> record_max f"
  shows "\<exists>W' g. cob_read E W f False None 1 = Some (W', g, None) \<and> file_status g = status_ok \<and>
    reading W' g n c \<and> conn f g \<and> ready g \<and> take (record_len g) (record_data g) = got (record_max f) r"
proof -
  let ?f = "f\<lparr>flag_read_done := False\<rparr>"
  have "plain ?f" "ready ?f" "ok ?f" using f ready_cong [of ?f f] ok_cong [of ?f f] by (simp_all add: plain_def)
  then obtain W' g where g: "funcs_read_next og E W ?f = Some (0, W', g)" "reading W' g n c" "conn ?f g" "ready g"
    "take (record_len g) (record_data g) = got (record_max f) r"
    using get [of ?f W n r c] f r by fastforce
  let ?g = "g\<lparr>flag_first_read := 0, flag_read_done := True, flag_end_of_file := False, flag_begin_of_file := False\<rparr>"
  have "record_size g = None" "flag_end_of_file g = False" using g(3) f by (simp_all add: conn_def)
  then have "read_file E W f False 1 = Some (0, W', ?g)"
    using f g(1) by (simp add: read_file_def read_noted_def set_record_size_def Let_def)
  moreover obtain W'' where "finish None (Some (0, W', ?g)) = Some (W'', ?g\<lparr>file_status := status_ok\<rparr>, None)"
    "reading W'' g n c"
    using g(2) finish_none [of 0 W' ?g] unfolding digits_of_status by metis
  moreover have "conn f ?g" using g(3) f by (simp add: conn_def)
  moreover have "ready (?g\<lparr>file_status := status_ok\<rparr>)" using g(4) ready_cong [of "?g\<lparr>file_status := status_ok\<rparr>" g] by simp
  ultimately show ?thesis using g(5)
    by (intro exI [of _ W''] exI [of _ "?g\<lparr>file_status := status_ok\<rparr>"]) (simp add: cob_read_def)
qed

lemma read_end:
  assumes f: "plain f" "organization f = og" "ok f" "open_mode f = COB_OPEN_INPUT" "ready f"
      "\<not> flag_nonexistent f" "\<not> flag_end_of_file f" and r: "reading W f n []"
  shows "\<exists>W' g. cob_read E W f False None 1 = Some (W', g, None) \<and> file_status g = status_at_end \<and>
    reading W' g n [] \<and> conn (f\<lparr>flag_end_of_file := True\<rparr>) g"
proof -
  let ?f = "f\<lparr>flag_read_done := False\<rparr>"
  have "plain ?f" "ready ?f" "ok ?f" using f ready_cong [of ?f f] ok_cong [of ?f f] by (simp_all add: plain_def)
  then obtain W' g where g: "funcs_read_next og E W ?f = Some (COB_STATUS_10_END_OF_FILE, W', g)"
    "reading W' g n []" "conn ?f g"
    using get_end [of ?f W n] f r by fastforce
  have "read_file E W f False 1 = Some (COB_STATUS_10_END_OF_FILE, W', g\<lparr>flag_end_of_file := True\<rparr>)"
    using f g(1) by (simp add: read_file_def read_noted_def Let_def)
  moreover obtain W'' where "finish None (Some (10, W', g\<lparr>flag_end_of_file := True\<rparr>)) =
      Some (W'', g\<lparr>flag_end_of_file := True, file_status := status_at_end\<rparr>, None)" "reading W'' g n []"
    using g(2) finish_none [of 10 W' "g\<lparr>flag_end_of_file := True\<rparr>"] unfolding digits_of_status by (metis)
  moreover have "conn (f\<lparr>flag_end_of_file := True\<rparr>) (g\<lparr>flag_end_of_file := True\<rparr>)" using g(3) by (simp add: conn_def)
  ultimately show ?thesis
    by (intro exI [of _ W''] exI [of _ "g\<lparr>flag_end_of_file := True, file_status := status_at_end\<rparr>"])
      (simp add: cob_read_def conn_def)
qed

lemma get_all:
  assumes "plain f" "organization f = og" "ok f" "open_mode f = COB_OPEN_INPUT" "ready f"
    "\<not> flag_nonexistent f" "\<not> flag_end_of_file f" "reading W f n (concat (map enc rs))"
    "\<forall>r\<in>set rs. fits r \<and> record_min f \<le> length r \<and> length r \<le> record_max f"
  shows "\<exists>W' g. get_records E W f (length rs) = Some (map (got (record_max f)) rs, W', g) \<and> reading W' g n [] \<and>
    conn (f\<lparr>flag_end_of_file := True\<rparr>) g"
  using assms
proof (induction rs arbitrary: W f)
  case Nil
  then show ?case using read_end [of f W n] by auto
next
  case (Cons r rs)
  obtain W' g where g: "cob_read E W f False None 1 = Some (W', g, None)" "file_status g = status_ok"
    "reading W' g n (concat (map enc rs))" "conn f g" "ready g" "take (record_len g) (record_data g) = got (record_max f) r"
    using read_one [of f W n r "concat (map enc rs)"] Cons.prems by auto
  obtain W'' h where h: "get_records E W' g (length rs) = Some (map (got (record_max g)) rs, W'', h)" "reading W'' h n []"
    "conn (g\<lparr>flag_end_of_file := True\<rparr>) h"
    using Cons.IH [of g W'] Cons.prems g conn_plain [OF g(4)] conn_ok [OF g(4)] by (auto simp: conn_def)
  moreover have "conn (f\<lparr>flag_end_of_file := True\<rparr>) h" using g(4) h(3) by (simp add: conn_def)
  ultimately show ?case using g by (simp add: conn_def)
qed

lemma open_for_output:
  assumes f: "plain f" "organization f = og" "open_mode f = COB_OPEN_CLOSED" "found_as E f n" "\<not> eop_status W"
  shows "\<exists>W' g. cob_open E W f COB_OPEN_OUTPUT False None = Some (W', g, None) \<and> file_status g = status_ok \<and>
    writing W' g n [] \<and> plain g \<and> organization g = og \<and> open_mode g = COB_OPEN_OUTPUT \<and>
    record_min g = record_min f \<and> record_max g = record_max f \<and> \<not> flag_nonexistent g"
proof -
  let ?g = "f\<lparr>flag_read_done := False, last_open_mode := COB_OPEN_OUTPUT, flag_nonexistent := False,
    flag_end_of_file := False, flag_begin_of_file := False, flag_first_read := 2, fhandle := Some (io_next W),
    open_mode := COB_OPEN_OUTPUT\<rparr>"
  obtain a where n: "assigned_name f = Some a" "map_file_name E a = Some n" "\<And>m. env_refuse E n m = None"
    "\<And>x. env_lock E n x = None"
    using f(4) by (auto simp: found_as_def bind_eq_Some_conv)
  have og: "funcs_open og E W h x m s = cob_file_open E W h x m s" for W h x m s
    using not_indexed by (cases og) simp_all
  obtain W' where W': "open_file E W f COB_OPEN_OUTPUT False = Some (0, W', ?g)" "writing W' ?g n []"
  proof
    let ?W = "cob_cache_file W f"
    let ?s = "\<lparr>sm_name = n, sm_pos = 0, sm_read = (og = COB_ORG_RELATIVE), sm_write = True, sm_append = False, sm_err = False\<rparr>"
    let ?W' = "(put_stream ?W (io_next W) ?s)\<lparr>io_next := Suc (io_next W), io_disk := (io_disk W)(n := Some [])\<rparr>"
    have c: "io_next ?W = io_next W" "io_disk ?W = io_disk W" "eop_status ?W = eop_status W"
      by (simp_all add: cob_cache_file_def)
    let ?f = "f\<lparr>flag_read_done := False, last_open_mode := COB_OPEN_OUTPUT, flag_nonexistent := False,
      flag_end_of_file := False, flag_begin_of_file := False, flag_first_read := 2\<rparr>"
    have a: "assigned_name ?f = Some a" "cob_cache_file W ?f = ?W"
      using n(1) by (simp_all add: assigned_name_def cob_cache_file_def cong: option.case_cong)
    have "cob_file_open E ?W ?f n COB_OPEN_OUTPUT False = Some (0, ?W', ?f\<lparr>fhandle := Some (io_next W)\<rparr>)"
      using f n by (auto simp: cob_file_open_def fopen_def open_fmode_def c plain_def)
    then show "open_file E W f COB_OPEN_OUTPUT False = Some (0, ?W', ?g)"
      using f n(2) by (simp add: open_file_def open_named_def a og open_answer_def plain_def)
    show "writing ?W' ?g n []" using f(5) by (simp add: writing_def put_stream_def c)
  qed
  moreover obtain W'' where "finish None (Some (0, W', ?g)) = Some (W'', ?g\<lparr>file_status := status_ok\<rparr>, None)"
    "writing W'' ?g n []"
    using W'(2) finish_none [of 0 W' ?g] unfolding digits_of_status by metis
  moreover have "plain (?g\<lparr>file_status := status_ok\<rparr>)" using f(1) by (simp add: plain_def)
  ultimately show ?thesis using f(2)
    by (intro exI [of _ W''] exI [of _ "?g\<lparr>file_status := status_ok\<rparr>"]) (simp add: cob_open_def)
qed

lemma open_for_input:
  assumes f: "plain f" "organization f = og" "open_mode f = COB_OPEN_CLOSED" "found_as E f n" "\<not> eop_status W"
    "io_disk W n = Some c"
  shows "\<exists>W' g. cob_open E W f COB_OPEN_INPUT False None = Some (W', g, None) \<and> file_status g = status_ok \<and>
    reading W' g n c \<and> conn (f\<lparr>open_mode := COB_OPEN_INPUT, fhandle := fhandle g, flag_nonexistent := False,
      flag_end_of_file := False\<rparr>) g \<and> record_len g = record_len f"
proof -
  let ?f = "f\<lparr>flag_read_done := False, last_open_mode := COB_OPEN_INPUT, flag_nonexistent := False,
      flag_end_of_file := False, flag_begin_of_file := False, flag_first_read := 2\<rparr>"
  let ?g = "?f\<lparr>fhandle := Some (io_next W), open_mode := COB_OPEN_INPUT\<rparr>"
  obtain a where n: "assigned_name f = Some a" "map_file_name E a = Some n" "\<And>m. env_refuse E n m = None"
    "\<And>x. env_lock E n x = None"
    using f(4) by (auto simp: found_as_def bind_eq_Some_conv)
  have og: "funcs_open og E W h x m s = cob_file_open E W h x m s" for W h x m s
    using not_indexed by (cases og) simp_all
  let ?W = "cob_cache_file W f"
  let ?s = "\<lparr>sm_name = n, sm_pos = 0, sm_read = True, sm_write = False, sm_append = False, sm_err = False\<rparr>"
  let ?W' = "(put_stream ?W (io_next W) ?s)\<lparr>io_next := Suc (io_next W), io_disk := io_disk W\<rparr>"
  have c: "io_next ?W = io_next W" "io_disk ?W = io_disk W" "eop_status ?W = eop_status W"
    by (simp_all add: cob_cache_file_def)
  have a: "assigned_name ?f = Some a" "cob_cache_file W ?f = ?W"
    using n(1) by (simp_all add: assigned_name_def cob_cache_file_def cong: option.case_cong)
  have "cob_file_open E ?W ?f n COB_OPEN_INPUT False = Some (0, ?W', ?f\<lparr>fhandle := Some (io_next W)\<rparr>)"
    using f n by (auto simp: cob_file_open_def fopen_def open_fmode_def c plain_def)
  then have op: "open_file E W f COB_OPEN_INPUT False = Some (0, ?W', ?g)"
    using f n(2) by (simp add: open_file_def open_named_def a og open_answer_def plain_def)
  have rd: "reading ?W' ?g n c" using f(5,6) by (auto simp: reading_def put_stream_def c)
  obtain W'' where "finish None (Some (0, ?W', ?g)) = Some (W'', ?g\<lparr>file_status := status_ok\<rparr>, None)"
    "reading W'' ?g n c"
    using rd finish_none [of 0 ?W' ?g] unfolding digits_of_status by metis
  moreover have "conn (f\<lparr>open_mode := COB_OPEN_INPUT, fhandle := Some (io_next W), flag_nonexistent := False,
      flag_end_of_file := False\<rparr>) ?g" using f(1) by (simp add: conn_def plain_def)
  ultimately show ?thesis using op
    by (intro exI [of _ W''] exI [of _ "?g\<lparr>file_status := status_ok\<rparr>"]) (simp add: cob_open_def)
qed

lemma close_normal:
  assumes f: "plain f" "organization f = og" "open_mode f \<noteq> COB_OPEN_CLOSED" "\<not> flag_nonexistent f"
    "fhandle f = Some h" "io_streams W h = Some s" "\<not> eop_status W"
  shows "\<exists>W' g. cob_close W f COB_CLOSE_NORMAL None = Some (W', g, None) \<and> file_status g = status_ok \<and>
    io_disk W' = io_disk W \<and> open_mode g = COB_OPEN_CLOSED \<and> \<not> eop_status W'"
proof -
  let ?f = "f\<lparr>flag_read_done := False\<rparr>"
  let ?W = "W\<lparr>io_streams := (io_streams W)(h := None)\<rparr>"
  have og: "funcs_close og W g x = cob_file_close W g x" for W g x
    using not_indexed by (cases og) simp_all
  have "cob_file_close W ?f COB_CLOSE_NORMAL = Some (0, ?W, ?f)"
    using f by (simp add: cob_file_close_def plain_def fclose_def get_stream_def)
  then have cl: "close_file W f COB_CLOSE_NORMAL = Some (0, ?W, ?f\<lparr>open_mode := COB_OPEN_CLOSED\<rparr>)"
    using f by (simp add: close_file_def og plain_def)
  obtain W'' where "finish None (Some (0, ?W, ?f\<lparr>open_mode := COB_OPEN_CLOSED\<rparr>)) =
      Some (W'', ?f\<lparr>open_mode := COB_OPEN_CLOSED, file_status := status_ok\<rparr>, None)"
    "io_disk W'' = io_disk W" "\<not> eop_status W''"
    using f(7) finish_none [of 0 ?W "?f\<lparr>open_mode := COB_OPEN_CLOSED\<rparr>"] unfolding digits_of_status
    by (metis (no_types, lifting) io_world.select_convs io_world.surjective io_world.update_convs(4))
  then show ?thesis using cl
    by (intro exI [of _ W''] exI [of _ "?f\<lparr>open_mode := COB_OPEN_CLOSED, file_status := status_ok\<rparr>"]) (simp add: cob_close_def)
qed

lemma round_trip:
  assumes f: "plain f" "organization f = og" "ok f" "open_mode f = COB_OPEN_CLOSED" "found_as E f n" "\<not> eop_status W"
    and rs: "\<forall>r\<in>set rs. fits r \<and> record_min f \<le> length r \<and> length r \<le> record_max f"
    and g: "plain g" "organization g = og" "ok g" "ready g" "open_mode g = COB_OPEN_CLOSED" "found_as E g n"
      "record_min g = record_min f" "record_max g = record_max f"
  shows "\<exists>W1 f1 W2 g2. save_records E opt W f rs = Some (W1, f1) \<and> io_disk W1 n = Some (concat (map enc rs)) \<and>
    load_records E W1 g (length rs) = Some (map (got (record_max g)) rs, W2, g2) \<and> open_mode g2 = COB_OPEN_CLOSED"
proof -
  obtain Wa fa where a: "cob_open E W f COB_OPEN_OUTPUT False None = Some (Wa, fa, None)" "file_status fa = status_ok"
    "writing Wa fa n []" "plain fa" "organization fa = og" "open_mode fa = COB_OPEN_OUTPUT"
    "record_min fa = record_min f" "record_max fa = record_max f" "\<not> flag_nonexistent fa"
    using open_for_output [OF f(1,2,4,5,6)] by blast
  have okfa: "ok fa" using ok_cong [of fa f] a(7,8) f(3) by simp
  obtain Wb fb where b: "put_records E opt Wa fa rs = Some (Wb, fb)" "writing Wb fb n (concat (map enc rs))" "conn fa fb"
    using put_all [OF a(4,5) okfa a(6,3), of rs] rs a(7,8) by auto
  obtain h s where s: "fhandle fb = Some h" "io_streams Wb h = Some s" "io_disk Wb n = Some (concat (map enc rs))" "\<not> eop_status Wb"
    using b(2) by (auto simp: writing_def)
  have fb: "plain fb" "organization fb = og" "open_mode fb \<noteq> COB_OPEN_CLOSED" "\<not> flag_nonexistent fb"
    using a b(3) conn_plain [OF b(3)] by (simp_all add: conn_def)
  obtain W1 f1 where c: "cob_close Wb fb COB_CLOSE_NORMAL None = Some (W1, f1, None)" "file_status f1 = status_ok"
    "io_disk W1 = io_disk Wb" "\<not> eop_status W1"
    using close_normal [OF fb s(1,2,4)] by blast
  have d1: "io_disk W1 n = Some (concat (map enc rs))" using s c by simp
  obtain Wd gd where d: "cob_open E W1 g COB_OPEN_INPUT False None = Some (Wd, gd, None)" "file_status gd = status_ok"
    "reading Wd gd n (concat (map enc rs))" "conn (g\<lparr>open_mode := COB_OPEN_INPUT, fhandle := fhandle gd, flag_nonexistent := False,
      flag_end_of_file := False\<rparr>) gd" "record_len gd = record_len g"
    using open_for_input [OF g(1,2,5,6) c(4) d1] by blast
  have gd: "plain gd" "organization gd = og" "ok gd" "ready gd" "open_mode gd = COB_OPEN_INPUT"
      "\<not> flag_nonexistent gd" "\<not> flag_end_of_file gd" "record_min gd = record_min f" "record_max gd = record_max f"
    using d(4,5) g ok_cong [of gd g] ready_cong [of gd g] by (simp_all add: conn_def plain_def)
  obtain We ge where e: "get_records E Wd gd (length rs) = Some (map (got (record_max g)) rs, We, ge)" "reading We ge n []"
    "conn (gd\<lparr>flag_end_of_file := True\<rparr>) ge"
    using get_all [OF gd(1,2,3,5,4,6,7) d(3)] rs gd(8,9) g(8) by auto
  obtain h2 s2 where s2: "fhandle ge = Some h2" "io_streams We h2 = Some s2" "\<not> eop_status We"
    using e(2) by (auto simp: reading_def)
  have ge: "plain ge" "organization ge = og" "open_mode ge \<noteq> COB_OPEN_CLOSED" "\<not> flag_nonexistent ge"
    using gd e(3) by (simp_all add: conn_def plain_def)
  obtain W2 g2 where z: "cob_close We ge COB_CLOSE_NORMAL None = Some (W2, g2, None)" "file_status g2 = status_ok"
    "open_mode g2 = COB_OPEN_CLOSED"
    using close_normal [OF ge s2] by blast
  show ?thesis using a(1,2) b(1) c(1,2) d(1,2) d1 e(1) z by (simp add: save_records_def load_records_def)
qed

end

section \<open>SEQUENTIAL files\<close>

text \<open>What the length in front of a record of variable size can hold.\<close>

definition rdw_limit :: "io_env \<Rightarrow> nat" where
  "rdw_limit E = (if env_varseq E = 2 then 2 ^ 64 else if env_varseq E = 1 then 2 ^ 32 else 2 ^ 16)"

definition seq_enc :: "io_env \<Rightarrow> bool \<Rightarrow> bytes \<Rightarrow> bytes" where
  "seq_enc E var r = (if var then rdw_bytes E (length r) else []) @ r"

definition seq_fits :: "io_env \<Rightarrow> bool \<Rightarrow> bytes \<Rightarrow> bool" where
  "seq_fits E var r \<longleftrightarrow> r \<noteq> [] \<and> (var \<longrightarrow> length r < rdw_limit E)"

lemma length_rdw: "length (rdw_bytes E k) = rdw_size (env_varseq E)"
  by (simp add: rdw_bytes_def rdw_size_def host_bytes_def)

lemma rdw_size_pos: "0 < rdw_size v"
  by (simp add: rdw_size_def)

lemma le_val_le_bytes_nat: "n < 256 ^ k \<Longrightarrow> le_val (le_bytes k (int n)) = int n"
  by (simp add: le_val_le_bytes zmod_trivial_iff flip: of_nat_power)

lemma rdw_value_bytes: "k < rdw_limit E \<Longrightarrow> rdw_value E (rdw_bytes E k) = k"
  by (auto simp: rdw_value_def rdw_bytes_def rdw_limit_def host_val_def host_bytes_def le_val_le_bytes_nat split: if_splits)

lemma fwrite1_writing:
  assumes "writing W f n c" "bs \<noteq> []"
  obtains W' where "fwrite1 W (fhandle f) bs = Some (True, W')" "writing W' f n (c @ bs)"
proof -
  obtain W' where "fwrite W (fhandle f) bs = Some (True, W')" "writing W' f n (c @ bs)"
    using fwrite_writing [OF assms(1)] by blast
  then show ?thesis using assms(2) by (intro that [of W']) (simp_all add: fwrite1_def)
qed

lemma area_Some: "k \<le> length (record_data f) \<Longrightarrow> area f k = Some (take k (record_data f))"
  by (simp add: area_def rds_Some)

lemma advance_0 [simp]: "advance E W f 0 b = Some (0, W, f)"
  by (simp add: advance_def)

lemma sequential_put:
  assumes f: "plain f" "(record_min f \<noteq> record_max f) = var" "writing W f n c" "record_len f \<le> record_max f"
    "seq_fits E var (take (record_len f) (record_data f))"
  shows "\<exists>W'. sequential_write E W f 0 = Some (0, W', f) \<and>
    writing W' f n (c @ seq_enc E var (take (record_len f) (record_data f)))"
proof -
  let ?r = "take (record_len f) (record_data f)"
  have len: "length ?r = record_len f" "?r \<noteq> []" "record_len f \<le> length (record_data f)"
    using f by (auto simp: plain_def seq_fits_def)
  have "rdw_bytes E (record_len f) \<noteq> []"
    using length_rdw [of E "record_len f"] rdw_size_pos [of "env_varseq E"] by auto
  then obtain W1 where w1: "(if record_min f \<noteq> record_max f then fwrite1 W (fhandle f) (rdw_bytes E (record_len f))
      else Some (True, W)) = Some (True, W1)"
    "writing W1 f n (c @ (if var then rdw_bytes E (record_len f) else []))"
  proof (cases var)
    case True
    then show ?thesis
      using fwrite1_writing [OF f(3) \<open>rdw_bytes E (record_len f) \<noteq> []\<close>] f(2) that by (metis (full_types))
  next
    case False
    then show ?thesis using f(2,3) that [of W] by simp
  qed
  obtain W2 where "fwrite1 W1 (fhandle f) ?r = Some (True, W2)" "writing W2 f n (c @ seq_enc E var ?r)"
    using fwrite1_writing [OF w1(2) len(2)] len by (metis append_assoc seq_enc_def)
  then show ?thesis
    using w1(1) len(3) by (simp add: sequential_write_def area_Some)
qed

lemma sequential_get:
  assumes f: "plain f" "(record_min f \<noteq> record_max f) = var" "reading W f n (seq_enc E var r @ c)" "seq_fits E var r"
    "\<not> var \<longrightarrow> record_len f = record_max f" "record_min f \<le> length r" "length r \<le> record_max f"
  shows "\<exists>W' g. sequential_read E W f = Some (0, W', g) \<and> reading W' g n c \<and> conn f g \<and>
    record_len g = length r \<and> take (record_len g) (record_data g) = r"
proof -
  let ?f = "f\<lparr>record_len := length r\<rparr>"
  let ?g = "?f\<lparr>record_data := r @ drop (length r) (record_data f)\<rparr>"
  have eq: "?f = f" if "\<not> var" using that f by simp
  obtain W1 where w1: "(if record_min f \<noteq> record_max f then do {
         (ok, bs, W) \<leftarrow> fread1 W (fhandle f) (rdw_size (env_varseq E));
         Some (ok, W, if ok then f\<lparr>record_len := rdw_value E bs\<rparr>
           else if env_varseq E = 2 then f\<lparr>record_len := size_over (env_target E) (record_len f) bs\<rparr>
           else f) }
       else Some (True, W, f)) = Some (True, W1, ?f)" "reading W1 f n (r @ c)"
  proof (cases var)
    case True
    obtain W1 where "fread W (fhandle f) (rdw_size (env_varseq E)) = Some (rdw_bytes E (length r), W1)" "reading W1 f n (r @ c)"
      using fread_reading [of W f n "rdw_bytes E (length r)" "r @ c" "rdw_size (env_varseq E)"] f(3) True
      by (auto simp: seq_enc_def length_rdw)
    then show ?thesis
      using True f(2,4) that [of W1] by (simp add: fread1_def length_rdw rdw_size_pos rdw_value_bytes seq_fits_def)
  next
    case False
    then show ?thesis using f(2,3) eq that [of W] by (simp add: seq_enc_def)
  qed
  obtain W2 where w2: "fread W1 (fhandle f) (length r) = Some (r, W2)" "reading W2 f n c"
    using fread_reading [OF w1(2)] by blast
  have "fread_data W1 ?f (length r) = Some (length r, W2, ?g)"
    using w2(1) f(1,7) by (simp add: fread_data_def wrs_Some plain_def)
  then have "sequential_read E W f = Some (0, W2, ?g)"
    unfolding sequential_read_def w1(1) by simp
  moreover have "conn f ?g" "reading W2 ?g n c"
    using f(1,7) w2(2) by (simp_all add: conn_def plain_def reading_def)
  ultimately show ?thesis by (intro exI [of _ W2] exI [of _ ?g]) simp
qed

lemma sequential_get_end:
  assumes f: "plain f" "reading W f n []" "record_min f = record_max f \<longrightarrow> 0 < record_len f"
  shows "\<exists>W' g. sequential_read E W f = Some (COB_STATUS_10_END_OF_FILE, W', g) \<and> reading W' g n [] \<and> conn f g"
proof -
  have rd: "\<exists>W'. fread W (fhandle f) k = Some ([], W') \<and> reading W' f n []" if "0 < k" for k
    using fread_reading [of W f n "[]" "[]" k] f(2) that by auto
  have no: "size_over T k [] = k" if "k < 2 ^ 64" for T k
    using that by (simp add: size_over_def host_val_def host_bytes_def le_val_le_bytes_nat)
  show ?thesis
  proof (cases "record_min f = record_max f")
    case True
    obtain W' where "fread W (fhandle f) (record_len f) = Some ([], W')" "reading W' f n []"
      using rd [of "record_len f"] f(3) True by auto
    then have "sequential_read E W f = Some (COB_STATUS_10_END_OF_FILE, W', f)"
      using True f(3) ferror_reading [of W' f n "[]"]
      by (simp add: sequential_read_def fread_data_def wrs_Some)
    then show ?thesis using \<open>reading W' f n []\<close> conn_refl [OF f(1)] by blast
  next
    case False
    obtain W' where w: "fread W (fhandle f) (rdw_size (env_varseq E)) = Some ([], W')" "reading W' f n []"
      using rd [OF rdw_size_pos] by blast
    let ?g = "if env_varseq E = 2 then f\<lparr>record_len := size_over (env_target E) (record_len f) []\<rparr> else f"
    have g: "fhandle ?g = fhandle f" "conn f ?g" using f(1) by (simp_all add: conn_def plain_def)
    then have "reading W' ?g n []" using w(2) by (simp add: reading_def)
    moreover have "sequential_read E W f = at_end_or_error W' ?g"
      using False w(1) rdw_size_pos [of "env_varseq E"] by (simp add: sequential_read_def fread1_def)
    ultimately show ?thesis
      using g(2) ferror_reading [of W' ?g n "[]"] by (simp add: at_end_or_error_def)
  qed
qed

interpretation sequential: record_file E COB_ORG_SEQUENTIAL 0 "seq_enc E var"
  "\<lambda>f. (record_min f \<noteq> record_max f) = var \<and> 0 < record_max f" "\<lambda>f. record_min f = record_max f \<longrightarrow> record_len f = record_max f"
  "seq_fits E var" "\<lambda>m r. r" for E var
proof unfold_locales
  fix f :: cob_file and W n c
  assume "plain f" "(record_min f \<noteq> record_max f) = var \<and> 0 < record_max f" "writing W f n c"
    "record_len f \<le> record_max f" "seq_fits E var (take (record_len f) (record_data f))"
  then show "\<exists>W' g. funcs_write COB_ORG_SEQUENTIAL E W f 0 = Some (0, W', g) \<and>
      writing W' g n (c @ seq_enc E var (take (record_len f) (record_data f))) \<and> conn f g"
    using sequential_put [of f var W n c E] conn_refl [of f] by auto
next
  fix f :: cob_file and W n r c
  assume f: "plain f" "(record_min f \<noteq> record_max f) = var \<and> 0 < record_max f" "reading W f n (seq_enc E var r @ c)"
    "seq_fits E var r" "record_min f = record_max f \<longrightarrow> record_len f = record_max f"
    "record_min f \<le> length r" "length r \<le> record_max f"
  then obtain W' g where g: "sequential_read E W f = Some (0, W', g)" "reading W' g n c" "conn f g"
    "record_len g = length r" "take (record_len g) (record_data g) = r"
    using sequential_get [of f var W n E r c] by auto
  then have "record_min g = record_max g \<longrightarrow> record_len g = record_max g"
    using f(6,7) by (simp add: conn_def)
  then show "\<exists>W' g. funcs_read_next COB_ORG_SEQUENTIAL E W f = Some (0, W', g) \<and> reading W' g n c \<and> conn f g \<and>
      (record_min g = record_max g \<longrightarrow> record_len g = record_max g) \<and> take (record_len g) (record_data g) = r"
    using g by auto
next
  fix f :: cob_file and W n
  assume "plain f" "(record_min f \<noteq> record_max f) = var \<and> 0 < record_max f" "reading W f n []"
    "record_min f = record_max f \<longrightarrow> record_len f = record_max f"
  then show "\<exists>W' g. funcs_read_next COB_ORG_SEQUENTIAL E W f = Some (COB_STATUS_10_END_OF_FILE, W', g) \<and>
      reading W' g n [] \<and> conn f g"
    using sequential_get_end [of f W n E] by auto
qed auto

section \<open>LINE SEQUENTIAL files\<close>

text \<open>
  The compiler emits WRITE of a line as BEFORE ADVANCING 1 LINE. The characters of a line are
  the record without its trailing spaces, unless COB_LS_FIXED is set; with COB_LS_NULLS a
  control character has a null in front of it, so that any record can be read back.
\<close>

abbreviation (input) write_line :: io_opts where "write_line \<equiv> 0x00210001"

definition line_chars :: "io_env \<Rightarrow> bytes \<Rightarrow> bytes" where
  "line_chars E r = (if cob_ls_fixed E then r else trim_spaces r)"

definition line_enc :: "io_env \<Rightarrow> bytes \<Rightarrow> bytes" where
  "line_enc E r = (if cob_ls_nulls E then null_escape (line_chars E r) else line_chars E r) @ [chr_nl]"

definition line_fits :: "io_env \<Rightarrow> bytes \<Rightarrow> bool" where
  "line_fits E r \<longleftrightarrow> cob_ls_nulls E \<or> (chr_nl \<notin> set r \<and> chr_cr \<notin> set r)"

definition padded :: "nat \<Rightarrow> bytes \<Rightarrow> bytes" where
  "padded m r = r @ replicate (m - length r) chr_space"

lemma trim_pad: "r = trim_spaces r @ replicate (length r - length (trim_spaces r)) chr_space"
proof -
  let ?P = "\<lambda>b. b = chr_space"
  define w where "w = takeWhile ?P (rev r)"
  have w: "w = replicate (length w) chr_space"
    unfolding w_def by (intro replicate_eqI) (auto dest: set_takeWhileD)
  have "rev r = w @ dropWhile ?P (rev r)" by (simp add: w_def)
  then have "r = trim_spaces r @ rev w" unfolding trim_spaces_def by (metis rev_append rev_rev_ident)
  then have r: "r = trim_spaces r @ replicate (length w) chr_space" using w by (metis rev_replicate)
  have "length r - length (trim_spaces r) = length w" by (subst r) simp
  then show ?thesis using r by simp
qed

lemma line_chars_fit: "length (line_chars E r) \<le> length r" "b \<in> set (line_chars E r) \<Longrightarrow> b \<in> set r"
proof -
  have "length (dropWhile P (rev r)) \<le> length r" for P using length_dropWhile_le [of P "rev r"] by simp
  then show "length (line_chars E r) \<le> length r" by (simp add: line_chars_def trim_spaces_def)
  show "b \<in> set (line_chars E r) \<Longrightarrow> b \<in> set r"
    by (simp add: line_chars_def trim_spaces_def split: if_splits) (metis set_dropWhileD set_rev)
qed

lemma padded_line_chars: "length r \<le> m \<Longrightarrow> padded m (line_chars E r) = padded m r"
proof (cases "cob_ls_fixed E")
  case False
  assume "length r \<le> m"
  have t: "length (trim_spaces r) \<le> length r" using line_chars_fit(1) [of E r] False by (simp add: line_chars_def)
  have "padded m r = trim_spaces r @ replicate (length r - length (trim_spaces r)) chr_space @ replicate (m - length r) chr_space"
    unfolding padded_def using trim_pad [of r] by (metis append.assoc)
  also have "\<dots> = padded m (trim_spaces r)"
    using t \<open>length r \<le> m\<close> by (simp add: padded_def flip: replicate_add)
  finally show ?thesis using False by (simp add: line_chars_def)
qed (simp add: line_chars_def)

lemma putn_writing:
  assumes "writing W f n c"
  obtains W' where "putn W (fhandle f) k b = Some W'" "writing W' f n (c @ replicate (nat k) b)"
proof (cases "k \<le> 0")
  case True
  then show ?thesis using assms that [of W] by (simp add: putn_def)
next
  case False
  obtain W' where "fwrite W (fhandle f) (replicate (nat k) b) = Some (True, W')" "writing W' f n (c @ replicate (nat k) b)"
    using fwrite_writing [OF assms] by blast
  then show ?thesis using False that [of W'] by (simp add: putn_def)
qed

lemma lineseq_put:
  assumes f: "plain f" "writing W f n c" "record_len f \<le> record_max f"
  shows "\<exists>W' g. lineseq_write E W f write_line = Some (0, W', g) \<and>
    writing W' g n (c @ line_enc E (take (record_len f) (record_data f))) \<and> conn f g"
proof -
  let ?r = "take (record_len f) (record_data f)"
  let ?b = "line_chars E ?r"
  let ?g = "f\<lparr>flag_needs_nl := False\<rparr>"
  have f': "linage f = None" "\<not> flag_needs_nl f" "record_len f \<le> length (record_data f)"
    using f by (simp_all add: plain_def)
  obtain W1 where w1: "(if ?b = [] then Some (True, W)
      else if cob_ls_nulls E then map_option (\<lambda>(ok, W). (True, W)) (fwrite W (fhandle f) (null_escape ?b))
      else fwrite1 W (fhandle f) ?b) = Some (True, W1)"
    "writing W1 f n (c @ (if cob_ls_nulls E then null_escape ?b else ?b))"
  proof (cases "?b = []")
    case True
    then show ?thesis using f(2) that [of W] by (simp add: null_escape_def)
  next
    case False
    obtain W1 where "fwrite1 W (fhandle f) ?b = Some (True, W1)" "writing W1 f n (c @ ?b)"
      using fwrite1_writing [OF f(2) False] by blast
    moreover obtain W2 where "fwrite W (fhandle f) (null_escape ?b) = Some (True, W2)" "writing W2 f n (c @ null_escape ?b)"
      using fwrite_writing [OF f(2)] by blast
    ultimately show ?thesis using that [of W1] that [of W2] False by (cases "cob_ls_nulls E") simp_all
  qed
  obtain W2 where w2: "putn W1 (fhandle f) 1 chr_nl = Some W2"
    "writing W2 f n ((c @ (if cob_ls_nulls E then null_escape ?b else ?b)) @ [chr_nl])"
    using putn_writing [OF w1(2), of 1 chr_nl] by auto
  have a: "advance E W f write_line COB_WRITE_AFTER = Some (0, W, f)"
    "advance E W1 f write_line COB_WRITE_BEFORE = Some (0, W2, ?g)"
    using w2(1) f'(1) by (simp_all add: advance_def cob_file_write_opt_def write_lines_def)
  have eop: "\<not> eop_status W2" using w2(2) by (simp add: writing_def)
  have r: "(if cob_ls_fixed E then ?r else trim_spaces ?r) = ?b" by (simp add: line_chars_def)
  have "lineseq_write E W f write_line = Some (0, W2, ?g)"
    by (simp only: lineseq_write_def area_Some [OF f'(3)] bind.bind_lunit Let_def r f'(1) option.case case_prod_conv
        a(1) w1(1) simp_thms if_False) (simp add: a(2) f' eop)
  moreover have "writing W2 ?g n (c @ line_enc E ?r)"
    using w2(2) by (simp add: line_enc_def writing_def)
  moreover have "conn f ?g" using f(1) by (simp add: conn_def plain_def)
  ultimately show ?thesis by blast
qed

lemma getc_reading:
  assumes "reading W f n (b # c)"
  obtains W' where "getc W (fhandle f) = Some (Some b, W')" "reading W' f n c"
  by (rule fread_reading [of W f n "[b]" c 1]) (use assms that in \<open>auto simp: getc_def\<close>)

lemma getc_end:
  assumes "reading W f n []"
  obtains W' where "getc W (fhandle f) = Some (None, W')" "reading W' f n []"
  by (rule fread_reading [of W f n "[]" "[]" 1]) (use assms that in \<open>auto simp: getc_def\<close>)

lemma take_put: "i < length d \<Longrightarrow> take (Suc i) (d[i := b]) = take i d @ [b]"
  by (simp add: take_Suc_conv_app_nth)

lemma lineseq_loop_line:
  assumes "reading W f n ((if nulls then null_escape bs else bs) @ chr_nl # c)"
    "nulls \<or> (chr_nl \<notin> set bs \<and> chr_cr \<notin> set bs)" "i + length bs \<le> sz" "sz \<le> length d"
  shows "\<exists>W'. lineseq_loop nulls (fhandle f) sz W i d =
      Some (0, W', i + length bs, take i d @ bs @ drop (i + length bs) d) \<and> reading W' f n c"
  using assms
proof (induction bs arbitrary: W i d)
  case Nil
  then have "reading W f n (chr_nl # c)" by (simp add: null_escape_def split: if_splits)
  then obtain W' where "getc W (fhandle f) = Some (Some chr_nl, W')" "reading W' f n c"
    by (rule getc_reading)
  then show ?case by (subst lineseq_loop.simps) simp
next
  case (Cons b bs)
  let ?rest = "(if nulls then null_escape bs else bs) @ chr_nl # c"
  have step: "\<exists>W'. lineseq_loop nulls (fhandle f) sz W i d = lineseq_loop nulls (fhandle f) sz W' (Suc i) (d[i := b])
      \<and> reading W' f n ?rest"
  proof (cases "nulls \<and> b < chr_space")
    case True
    then have "reading W f n (0 # b # ?rest)" using Cons.prems(1) by (simp add: null_escape_def)
    then obtain W1 where w1: "getc W (fhandle f) = Some (Some 0, W1)" "reading W1 f n (b # ?rest)"
      by (rule getc_reading)
    obtain W2 where "getc W1 (fhandle f) = Some (Some b, W2)" "reading W2 f n ?rest"
      using getc_reading [OF w1(2)] by blast
    then show ?thesis
      using True w1(1) Cons.prems(3,4)
      by (intro exI [of _ W2], subst lineseq_loop.simps) (simp add: wr_Some)
  next
    case False
    then have "reading W f n (b # ?rest)" using Cons.prems(1) by (auto simp: null_escape_def split: if_splits)
    then obtain W1 where "getc W (fhandle f) = Some (Some b, W1)" "reading W1 f n ?rest"
      by (rule getc_reading)
    moreover have "\<not> (b = 0 \<and> nulls)" "b \<noteq> chr_cr" "b \<noteq> chr_nl"
      using False Cons.prems(2) by (auto simp: word_less_def)
    ultimately show ?thesis
      using Cons.prems(3,4) by (subst lineseq_loop.simps) (auto simp: wr_Some)
  qed
  then obtain W1 where w1: "lineseq_loop nulls (fhandle f) sz W i d = lineseq_loop nulls (fhandle f) sz W1 (Suc i) (d[i := b])"
    "reading W1 f n ?rest" by blast
  obtain W2 where "lineseq_loop nulls (fhandle f) sz W1 (Suc i) (d[i := b]) = Some (0, W2, Suc i + length bs,
      take (Suc i) (d[i := b]) @ bs @ drop (Suc i + length bs) (d[i := b]))" "reading W2 f n c"
    using Cons.IH [OF w1(2), of "Suc i" "d[i := b]"] Cons.prems by auto
  then show ?case using w1(1) Cons.prems(3,4) by (simp add: take_put del: take_Suc)
qed

lemma lineseq_get:
  assumes f: "plain f" "reading W f n (line_enc E r @ c)" "line_fits E r" "record_len f = record_max f"
    "length r \<le> record_max f"
  shows "\<exists>W' g. lineseq_read E W f = Some (0, W', g) \<and> reading W' g n c \<and> conn f g \<and>
    record_len g = record_max f \<and> take (record_len g) (record_data g) = padded (record_max f) r"
proof -
  let ?b = "line_chars E r"
  have b: "length ?b \<le> record_max f" "cob_ls_nulls E \<or> (chr_nl \<notin> set ?b \<and> chr_cr \<notin> set ?b)"
    using line_chars_fit(1) [of E r] line_chars_fit(2) [where E = E and r = r] f by (auto simp: line_fits_def)
  have d: "length (record_data f) = record_max f" using f(1) by (simp add: plain_def)
  obtain W' where w: "lineseq_loop (cob_ls_nulls E) (fhandle f) (record_max f) W 0 (record_data f) =
      Some (0, W', length ?b, ?b @ drop (length ?b) (record_data f))" "reading W' f n c"
    using lineseq_loop_line [of W f n "cob_ls_nulls E" ?b c 0 "record_max f" "record_data f"] f(2) b d
    by (auto simp: line_enc_def)
  let ?g = "f\<lparr>record_data := padded (record_max f) ?b\<rparr>"
  have "lineseq_read E W f = Some (0, W', ?g)"
    using w(1) f(1,4) b d by (simp add: lineseq_read_def wrs_Some set_record_size_def padded_def plain_def)
  moreover have "padded (record_max f) ?b = padded (record_max f) r" "length (padded (record_max f) ?b) = record_max f"
    using padded_line_chars [OF f(5)] b f(5) by (simp_all add: padded_def)
  ultimately show ?thesis
    using w(2) f by (intro exI [of _ W'] exI [of _ ?g]) (simp add: reading_def conn_def plain_def)
qed

lemma lineseq_get_end:
  assumes f: "plain f" "reading W f n []"
  shows "\<exists>W'. lineseq_read E W f = Some (COB_STATUS_10_END_OF_FILE, W', f) \<and> reading W' f n []"
proof -
  obtain W' where "getc W (fhandle f) = Some (None, W')" "reading W' f n []" using getc_end [OF f(2)] by blast
  moreover from this have "lineseq_loop (cob_ls_nulls E) (fhandle f) (record_len f) W 0 (record_data f) =
      Some (COB_STATUS_10_END_OF_FILE, W', 0, record_data f)"
    by (subst lineseq_loop.simps) simp
  ultimately show ?thesis by (simp add: lineseq_read_def)
qed

interpretation line_sequential: record_file E COB_ORG_LINE_SEQUENTIAL write_line "line_enc E"
  "\<lambda>_. True" "\<lambda>f. record_len f = record_max f" "line_fits E" padded for E
proof unfold_locales
  fix f :: cob_file and W n c
  assume "plain f" "writing W f n c" "record_len f \<le> record_max f"
  then show "\<exists>W' g. funcs_write COB_ORG_LINE_SEQUENTIAL E W f write_line = Some (0, W', g) \<and>
      writing W' g n (c @ line_enc E (take (record_len f) (record_data f))) \<and> conn f g"
    using lineseq_put by simp
next
  fix f :: cob_file and W n r c
  assume f: "plain f" "reading W f n (line_enc E r @ c)" "line_fits E r" "record_len f = record_max f" "length r \<le> record_max f"
  then obtain W' g where "lineseq_read E W f = Some (0, W', g)" "reading W' g n c" "conn f g"
      "record_len g = record_max f" "take (record_len g) (record_data g) = padded (record_max f) r"
    using lineseq_get by blast
  then show "\<exists>W' g. funcs_read_next COB_ORG_LINE_SEQUENTIAL E W f = Some (0, W', g) \<and> reading W' g n c \<and> conn f g \<and>
      record_len g = record_max g \<and> take (record_len g) (record_data g) = padded (record_max f) r"
    by (simp add: conn_def)
next
  fix f :: cob_file and W n
  assume "plain f" "reading W f n []"
  then show "\<exists>W' g. funcs_read_next COB_ORG_LINE_SEQUENTIAL E W f = Some (COB_STATUS_10_END_OF_FILE, W', g) \<and>
      reading W' g n [] \<and> conn f g"
    using lineseq_get_end [of f W n E] conn_refl [of f] by auto
qed auto

end
