(* ===== verification/Cob_File_Safety.thy ===== *)
theory Cob_File_Safety
  imports Cob_Fileio
begin

text \<open>
  The connector as a state machine: what holds of a connector and its stream after any
  sequence of statements. \<open>keeps\<close> is what a handler may do to the world and the connector;
  \<open>file_ok\<close> is the invariant of the statements.
\<close>

section \<open>What a handler keeps\<close>

text \<open>The streams that are open, and the directions they were opened for, stay the same.\<close>

definition same_stream :: "stream option \<Rightarrow> stream option \<Rightarrow> bool" where
  "same_stream a b \<longleftrightarrow> (case (a, b) of
     (None, None) \<Rightarrow> True
   | (Some s, Some t) \<Rightarrow> sm_name t = sm_name s \<and> sm_read t = sm_read s \<and> sm_write t = sm_write s \<and> sm_append t = sm_append s
   | _ \<Rightarrow> False)"

definition wkeeps :: "io_world \<Rightarrow> io_world \<Rightarrow> bool" where
  "wkeeps W W' \<longleftrightarrow> io_next W' = io_next W \<and> (\<forall>h. same_stream (io_streams W h) (io_streams W' h))"

definition fkeeps :: "cob_file \<Rightarrow> cob_file \<Rightarrow> bool" where
  "fkeeps f f' \<longleftrightarrow> fhandle f' = fhandle f \<and> open_mode f' = open_mode f \<and> organization f' = organization f \<and>
     special f' = special f \<and> flag_nonexistent f' = flag_nonexistent f \<and> access_mode f' = access_mode f \<and>
     record_max f' = record_max f \<and> record_min f' = record_min f \<and> length (record_data f') = length (record_data f) \<and>
     (linage f' = None) = (linage f = None)"

lemma same_stream_refl [simp]: "same_stream a a"
  by (simp add: same_stream_def split: option.split)

lemma same_stream_trans: "same_stream a b \<Longrightarrow> same_stream b c \<Longrightarrow> same_stream a c"
  by (auto simp: same_stream_def split: option.splits)

lemma wkeeps_refl [simp]: "wkeeps W W"
  by (simp add: wkeeps_def)

lemma wkeeps_trans [trans]: "wkeeps W V \<Longrightarrow> wkeeps V U \<Longrightarrow> wkeeps W U"
  by (auto simp: wkeeps_def intro: same_stream_trans)

lemma fkeeps_refl [simp]: "fkeeps f f"
  by (simp add: fkeeps_def)

lemma fkeeps_trans [trans]: "fkeeps f g \<Longrightarrow> fkeeps g h \<Longrightarrow> fkeeps f h"
  by (simp add: fkeeps_def)


lemma put_stream_wkeeps:
  "io_streams W h = Some s \<Longrightarrow> same_stream (Some s) (Some s') \<Longrightarrow> wkeeps W (put_stream W h s')"
  by (auto simp: wkeeps_def put_stream_def)

lemma wkeeps_disk [simp]: "wkeeps W (V\<lparr>io_disk := x\<rparr>) = wkeeps W V" "wkeeps W (V\<lparr>eop_status := b\<rparr>) = wkeeps W V"
  "wkeeps W (V\<lparr>io_rt := r, io_accs := n\<rparr>) = wkeeps W V" "wkeeps W (V\<lparr>io_rt := r\<rparr>) = wkeeps W V"
  "wkeeps W (V\<lparr>eop_status := b, io_rt := r\<rparr>) = wkeeps W V"
  by (simp_all add: wkeeps_def)

lemma fread_wkeeps: "fread W fp n = Some (bs, W') \<Longrightarrow> wkeeps W W'"
  by (auto simp: fread_def get_stream_def bind_eq_Some_conv same_stream_def Let_def split: if_splits intro!: put_stream_wkeeps)

lemma fwrite_wkeeps: "fwrite W fp bs = Some (ok, W') \<Longrightarrow> wkeeps W W'"
  by (auto simp: fwrite_def get_stream_def bind_eq_Some_conv same_stream_def Let_def split: if_splits intro!: put_stream_wkeeps)

lemma putc_wkeeps: "putc W fp c = Some W' \<Longrightarrow> wkeeps W W'"
  by (auto simp: putc_def dest: fwrite_wkeeps)

lemma putn_wkeeps: "putn W fp n c = Some W' \<Longrightarrow> wkeeps W W'"
  by (auto simp: putn_def dest: fwrite_wkeeps split: if_splits)

lemma getc_wkeeps: "getc W fp = Some (c, W') \<Longrightarrow> wkeeps W W'"
  by (auto simp: getc_def dest: fread_wkeeps)

lemma fseek_set_wkeeps: "fseek_set W fp p = Some (ok, W') \<Longrightarrow> wkeeps W W'"
  by (auto simp: fseek_set_def get_stream_def bind_eq_Some_conv same_stream_def split: if_splits intro!: put_stream_wkeeps)

lemma fseek_cur_wkeeps: "fseek_cur W fp d = Some (ok, W') \<Longrightarrow> wkeeps W W'"
  by (auto simp: fseek_cur_def bind_eq_Some_conv dest: fseek_set_wkeeps)

lemma fflush_wkeeps: "fflush W fp = Some W' \<Longrightarrow> wkeeps W W'"
  by (auto simp: fflush_def)

lemma fread1_wkeeps: "fread1 W fp n = Some (ok, bs, W') \<Longrightarrow> wkeeps W W'"
  by (auto simp: fread1_def dest: fread_wkeeps)

lemma fwrite1_wkeeps: "fwrite1 W fp bs = Some (ok, W') \<Longrightarrow> wkeeps W W'"
  by (auto simp: fwrite1_def dest: fwrite_wkeeps)

lemma item_add_wkeeps: "item_add E W g n = Some (r, W', g') \<Longrightarrow> wkeeps W W'"
  by (auto simp: item_add_def)

section \<open>Rules for computations\<close>

text \<open>
  What a computation with a result \<open>(r, W, x)\<close> keeps. The rules take a computation apart, one
  construct or call at a time.
\<close>

definition kept :: "io_world \<Rightarrow> ('b \<Rightarrow> bool) \<Rightarrow> ('a \<times> io_world \<times> 'b) option \<Rightarrow> bool" where
  "kept V F m \<longleftrightarrow> (\<forall>r W x. m = Some (r, W, x) \<longrightarrow> wkeeps V W \<and> F x)"

named_theorems kept_rules

lemma kept_struct [kept_rules]:
  "wkeeps V W \<Longrightarrow> F x \<Longrightarrow> kept V F (Some (r, W, x))"
  "kept V F None"
  "(b \<Longrightarrow> kept V F m) \<Longrightarrow> (\<not> b \<Longrightarrow> kept V F n) \<Longrightarrow> kept V F (if b then m else n)"
  "(\<And>x. x = t \<Longrightarrow> kept V F (h x)) \<Longrightarrow> kept V F (let x = t in h x)"
  "(y = None \<Longrightarrow> kept V F m) \<Longrightarrow> (\<And>z. y = Some z \<Longrightarrow> kept V F (h z)) \<Longrightarrow> kept V F (case y of None \<Rightarrow> m | Some z \<Rightarrow> h z)"
  by (auto simp: kept_def split: option.split)

lemma kept_Some_if [kept_rules]:
  "(b \<Longrightarrow> kept V F (Some x)) \<Longrightarrow> (\<not> b \<Longrightarrow> kept V F (Some y)) \<Longrightarrow> kept V F (Some (if b then x else y))"
  by simp

lemma kept_bind [kept_rules]:
  "kept V F (m \<bind> (\<lambda>x. h x \<bind> k)) \<Longrightarrow> kept V F ((m \<bind> h) \<bind> k)"
  by (simp add: kept_def)

lemma kept_bind_if [kept_rules]:
  "(b \<Longrightarrow> kept V F (m \<bind> k)) \<Longrightarrow> (\<not> b \<Longrightarrow> kept V F (n \<bind> k)) \<Longrightarrow> kept V F ((if b then m else n) \<bind> k)"
  by simp

lemma kept_bind_Some [kept_rules]: "kept V F (k x) \<Longrightarrow> kept V F (Some x \<bind> k)"
  by simp

lemma kept_bind_map [kept_rules]: "kept V F (m \<bind> (\<lambda>x. k (q x))) \<Longrightarrow> kept V F (map_option q m \<bind> k)"
  by (simp add: bind_map_option comp_def)

lemma kept_map [kept_rules]: "kept V F (m \<bind> (\<lambda>x. Some (q x))) \<Longrightarrow> kept V F (map_option q m)"
  by (simp add: map_conv_bind_option comp_def)

lemma kept_bind_option [kept_rules]:
  "(y = None \<Longrightarrow> kept V F (m \<bind> k)) \<Longrightarrow> (\<And>z. y = Some z \<Longrightarrow> kept V F (g z \<bind> k)) \<Longrightarrow>
    kept V F ((case y of None \<Rightarrow> m | Some z \<Rightarrow> g z) \<bind> k)"
  by (simp split: option.split)

lemma kept_step:
  assumes "wkeeps V W" "\<And>x. m = Some x \<Longrightarrow> wkeeps W (w x)" "\<And>x. m = Some x \<Longrightarrow> wkeeps V (w x) \<Longrightarrow> kept V F (k x)"
  shows "kept V F (m \<bind> k)"
  using assms(1,2) assms(3) [OF _ wkeeps_trans [OF assms(1,2)]]
  by (auto simp: kept_def bind_eq_Some_conv)

lemma kept_bind_any: "(\<And>x. m = Some x \<Longrightarrow> kept V F (k x)) \<Longrightarrow> kept V F (m \<bind> k)"
  by (auto simp: kept_def bind_eq_Some_conv)

lemma fread_kept [kept_rules]:
  "wkeeps V W \<Longrightarrow> (\<And>bs W'. wkeeps V W' \<Longrightarrow> kept V F (k (bs, W'))) \<Longrightarrow> kept V F (fread W fp n \<bind> k)"
  by (rule kept_step [where w = "snd"]) (auto dest: fread_wkeeps)

lemma fwrite_kept [kept_rules]:
  "wkeeps V W \<Longrightarrow> (\<And>ok W'. wkeeps V W' \<Longrightarrow> kept V F (k (ok, W'))) \<Longrightarrow> kept V F (fwrite W fp bs \<bind> k)"
  by (rule kept_step [where w = "snd"]) (auto dest: fwrite_wkeeps)

lemma putc_kept [kept_rules]:
  "wkeeps V W \<Longrightarrow> (\<And>W'. wkeeps V W' \<Longrightarrow> kept V F (k W')) \<Longrightarrow> kept V F (putc W fp c \<bind> k)"
  by (rule kept_step [where w = "\<lambda>x. x"]) (auto dest: putc_wkeeps)

lemma putn_kept [kept_rules]:
  "wkeeps V W \<Longrightarrow> (\<And>W'. wkeeps V W' \<Longrightarrow> kept V F (k W')) \<Longrightarrow> kept V F (putn W fp n c \<bind> k)"
  by (rule kept_step [where w = "\<lambda>x. x"]) (auto dest: putn_wkeeps)

lemma getc_kept [kept_rules]:
  "wkeeps V W \<Longrightarrow> (\<And>c W'. wkeeps V W' \<Longrightarrow> kept V F (k (c, W'))) \<Longrightarrow> kept V F (getc W fp \<bind> k)"
  by (rule kept_step [where w = "snd"]) (auto dest: getc_wkeeps)

lemma fseek_set_kept [kept_rules]:
  "wkeeps V W \<Longrightarrow> (\<And>ok W'. wkeeps V W' \<Longrightarrow> kept V F (k (ok, W'))) \<Longrightarrow> kept V F (fseek_set W fp p \<bind> k)"
  by (rule kept_step [where w = "snd"]) (auto dest: fseek_set_wkeeps)

lemma fseek_cur_kept [kept_rules]:
  "wkeeps V W \<Longrightarrow> (\<And>ok W'. wkeeps V W' \<Longrightarrow> kept V F (k (ok, W'))) \<Longrightarrow> kept V F (fseek_cur W fp d \<bind> k)"
  by (rule kept_step [where w = "snd"]) (auto dest: fseek_cur_wkeeps)

lemma fflush_kept [kept_rules]:
  "wkeeps V W \<Longrightarrow> (\<And>W'. wkeeps V W' \<Longrightarrow> kept V F (k W')) \<Longrightarrow> kept V F (fflush W fp \<bind> k)"
  by (rule kept_step [where w = "\<lambda>x. x"]) (auto dest: fflush_wkeeps)

lemma fread1_kept [kept_rules]:
  "wkeeps V W \<Longrightarrow> (\<And>ok bs W'. wkeeps V W' \<Longrightarrow> kept V F (k (ok, bs, W'))) \<Longrightarrow> kept V F (fread1 W fp n \<bind> k)"
  by (rule kept_step [where w = "\<lambda>x. snd (snd x)"]) (auto dest: fread1_wkeeps)

lemma fwrite1_kept [kept_rules]:
  "wkeeps V W \<Longrightarrow> (\<And>ok W'. wkeeps V W' \<Longrightarrow> kept V F (k (ok, W'))) \<Longrightarrow> kept V F (fwrite1 W fp bs \<bind> k)"
  by (rule kept_step [where w = "snd"]) (auto dest: fwrite1_wkeeps)

lemma item_add_kept [kept_rules]:
  "wkeeps V W \<Longrightarrow> (\<And>r W' g'. wkeeps V W' \<Longrightarrow> kept V F (k (r, W', g'))) \<Longrightarrow> kept V F (item_add E W g n \<bind> k)"
  by (rule kept_step [where w = "\<lambda>x. fst (snd x)"]) (auto dest: item_add_wkeeps)

lemma pure_kept [kept_rules]:
  "(\<And>n g'. kept V F (k (n, g'))) \<Longrightarrow> kept V F (item_get E g \<bind> k)"
  "(\<And>g'. kept V F (k' g')) \<Longrightarrow> kept V F (item_set E g i \<bind> k')"
  "(\<And>b L'. kept V F (k'' (b, L'))) \<Longrightarrow> kept V F (file_linage_check E L \<bind> k'')"
  "(\<And>e. kept V F (j e)) \<Longrightarrow> kept V F (ferror W fp \<bind> j)"
  "(\<And>e. kept V F (j' e)) \<Longrightarrow> kept V F (ftell W fp \<bind> j')"
  "(\<And>d. kept V F (j'' d)) \<Longrightarrow> kept V F (area f n \<bind> j'')"
  by (auto intro: kept_bind_any)

section \<open>Handlers\<close>

lemma kept_then:
  "kept V G m \<Longrightarrow> (\<And>r W x. wkeeps V W \<Longrightarrow> G x \<Longrightarrow> kept V F (k (r, W, x))) \<Longrightarrow> kept V F (m \<bind> k)"
  by (auto simp: kept_def bind_eq_Some_conv)

lemma kept_cong: "kept V F m \<Longrightarrow> (\<And>r W x. m = Some (r, W, x) \<Longrightarrow> F x \<Longrightarrow> G x) \<Longrightarrow> kept V G m"
  by (auto simp: kept_def)

lemma linage_kept [kept_rules]:
  "wkeeps V W \<Longrightarrow> kept V (\<lambda>_. True) (linage_page E W fp L)"
  "wkeeps V W \<Longrightarrow> kept V (\<lambda>_. True) (linage_lines E W fp L opt)"
  unfolding linage_page_def linage_lines_def by (auto intro!: kept_rules)

lemmas linage_then [kept_rules] = linage_kept [THEN kept_then]

lemma fkeeps_items [simp]:
  "fkeeps g (f\<lparr>record_size := x\<rparr>) = fkeeps g f" "fkeeps g (f\<lparr>rel_key := x\<rparr>) = fkeeps g f"
  "fkeeps g (f\<lparr>record_len := k\<rparr>) = fkeeps g f" "fkeeps g (f\<lparr>flag_needs_nl := b\<rparr>) = fkeeps g f"
  "fkeeps g (f\<lparr>flag_needs_top := b\<rparr>) = fkeeps g f" "fkeeps g (f\<lparr>rel_key := x, flag_first_read := n\<rparr>) = fkeeps g f"
  "fkeeps g (f\<lparr>flag_read_done := b\<rparr>) = fkeeps g f" "fkeeps g (f\<lparr>flag_end_of_file := b\<rparr>) = fkeeps g f"
  "fkeeps g (f\<lparr>flag_begin_of_file := b\<rparr>) = fkeeps g f" "fkeeps g (f\<lparr>file_status := s\<rparr>) = fkeeps g f"
  "fkeeps g (f\<lparr>record_size := x, record_len := k\<rparr>) = fkeeps g f"
  by (simp_all add: fkeeps_def)

lemma fkeeps_if [simp]: "fkeeps g (if b then f else f') = (if b then fkeeps g f else fkeeps g f')"
  by simp

lemma item_kept [kept_rules]:
  "fkeeps g f \<Longrightarrow> (\<And>f'. fkeeps g f' \<Longrightarrow> kept V F (k f')) \<Longrightarrow> kept V F (set_record_size E f n \<bind> k)"
  "fkeeps g f \<Longrightarrow> (\<And>f'. fkeeps g f' \<Longrightarrow> kept V F (k f')) \<Longrightarrow> kept V F (set_rel_key E f n \<bind> k)"
  "fkeeps g f \<Longrightarrow> (\<And>i f'. fkeeps g f' \<Longrightarrow> kept V F (k' (i, f'))) \<Longrightarrow> kept V F (get_rel_key E f \<bind> k')"
  by (rule kept_bind_any; auto simp: set_record_size_def set_rel_key_def get_rel_key_def bind_eq_Some_conv
      split: option.splits)+

lemma wrs_kept [kept_rules]:
  "fkeeps g f \<Longrightarrow> (\<And>d. fkeeps g (f\<lparr>record_data := d\<rparr>) \<Longrightarrow> kept V F (k d)) \<Longrightarrow> kept V F (wrs (record_data f) i bs \<bind> k)"
  by (rule kept_bind_any) (auto simp: fkeeps_def dest: wrs_length)

lemma transfer_kept [kept_rules]:
  "wkeeps V W \<Longrightarrow> fkeeps g f \<Longrightarrow> kept V (fkeeps g) (fread_size E W f)"
  "wkeeps V W \<Longrightarrow> fkeeps g f \<Longrightarrow> kept V (fkeeps g) (fread_data W f n)"
  "wkeeps V W \<Longrightarrow> fkeeps g f \<Longrightarrow> kept V (fkeeps g) (at_end_or_error W f)"
  unfolding fread_size_def fread_data_def at_end_or_error_def by (auto intro!: kept_rules)

lemmas transfer_then [kept_rules] = transfer_kept [THEN kept_then]

lemma write_opt_kept [kept_rules]:
  "wkeeps V W \<Longrightarrow> fkeeps g f \<Longrightarrow> kept V (fkeeps g) (cob_file_write_opt E W f opt)"
  unfolding cob_file_write_opt_def cob_linage_write_opt_def
  by (auto intro!: kept_rules simp: fkeeps_def)

lemmas write_opt_then [kept_rules] = write_opt_kept [THEN kept_then]

lemma advance_kept [kept_rules]:
  "wkeeps V W \<Longrightarrow> fkeeps g f \<Longrightarrow> kept V (fkeeps g) (advance E W f opt b)"
  unfolding advance_def by (auto intro!: kept_rules)

lemmas advance_then [kept_rules] = advance_kept [THEN kept_then]

lemma sequential_kept [kept_rules]:
  "wkeeps V W \<Longrightarrow> fkeeps g f \<Longrightarrow> kept V (fkeeps g) (sequential_read E W f)"
  "wkeeps V W \<Longrightarrow> fkeeps g f \<Longrightarrow> kept V (fkeeps g) (sequential_write E W f opt)"
  "wkeeps V W \<Longrightarrow> fkeeps g f \<Longrightarrow> kept V (fkeeps g) (sequential_rewrite W f)"
  unfolding sequential_read_def sequential_write_def sequential_rewrite_def by (auto intro!: kept_rules)

text \<open>The loops, by induction on their computation.\<close>

definition sized :: "nat \<Rightarrow> bytes \<Rightarrow> bool" where
  "sized n d \<longleftrightarrow> length d = n"

lemma sized_kept [kept_rules]:
  "sized n d \<Longrightarrow> (\<And>d'. sized n d' \<Longrightarrow> kept V F (k d')) \<Longrightarrow> kept V F (wr d i c \<bind> k)"
  "sized n d \<Longrightarrow> (\<And>d'. sized n d' \<Longrightarrow> kept V F (k d')) \<Longrightarrow> kept V F (wrs d i bs \<bind> k)"
  by (auto simp: sized_def dest: wr_length wrs_length intro: kept_bind_any)

lemma lineseq_loop_kept [kept_rules]:
  assumes "wkeeps V W" "sized n d"
  shows "kept V (\<lambda>(i, d). sized n d) (lineseq_loop nulls fp sz W i d)"
proof -
  let ?P = "\<lambda>nulls fp sz W i d r. wkeeps V W \<longrightarrow> sized n d \<longrightarrow> kept V (\<lambda>(i, d). sized n d) (Some r)"
  have "?P nulls fp sz W i d r" if "lineseq_loop nulls fp sz W i d = Some r" for r
  proof (rule lineseq_loop.raw_induct [where P = ?P, OF _ that], intro impI, goal_cases)
    case (1 loop nulls fp sz W i d r)
    have IH: "wkeeps V W \<Longrightarrow> sized n d \<Longrightarrow> kept V (\<lambda>(i, d). sized n d) (loop nulls fp sz W i d)"
      for nulls fp sz W i d
      using 1(1) [of nulls fp sz W i d] by (auto simp: kept_def)
    show ?case unfolding 1(2) [symmetric] using 1(3,4) by (auto intro!: kept_rules IH)
  qed
  then show ?thesis using assms by (auto simp: kept_def)
qed

lemmas lineseq_loop_then [kept_rules] = lineseq_loop_kept [THEN kept_then]

lemma record_sized [simp]: "sized (length (record_data f)) d \<Longrightarrow> fkeeps g (f\<lparr>record_data := d\<rparr>) = fkeeps g f"
  by (simp add: fkeeps_def sized_def)

lemma sized_self [intro!, simp]: "sized (length d) d"
  by (simp add: sized_def)

lemma lineseq_kept [kept_rules]:
  "wkeeps V W \<Longrightarrow> fkeeps g f \<Longrightarrow> kept V (fkeeps g) (lineseq_read E W f)"
  "wkeeps V W \<Longrightarrow> fkeeps g f \<Longrightarrow> kept V (fkeeps g) (lineseq_write E W f opt)"
  unfolding lineseq_read_def lineseq_write_def
   apply (auto intro!: kept_rules)[1]
  apply (auto intro!: kept_rules)[1]
  done

lemma slot_kept [kept_rules]:
  "wkeeps V W \<Longrightarrow> fkeeps g f \<Longrightarrow> kept V (fkeeps g) (seek_slot E W f i)"
  "wkeeps V W \<Longrightarrow> fkeeps g f \<Longrightarrow> kept V (fkeeps g) (number_record E W f)"
  unfolding seek_slot_def number_record_def by (auto intro!: kept_rules)

lemma slot_world_kept [kept_rules]:
  "wkeeps V W \<Longrightarrow> (\<And>W'. wkeeps V W' \<Longrightarrow> kept V F (k W')) \<Longrightarrow> kept V F (back_to_size W f \<bind> k)"
  "wkeeps V W \<Longrightarrow> (\<And>ok W'. wkeeps V W' \<Longrightarrow> kept V F (k' (ok, W'))) \<Longrightarrow> kept V F (write_slot E W f \<bind> k')"
  unfolding back_to_size_def write_slot_def by (auto intro!: kept_rules)

lemmas slot_then [kept_rules] = slot_kept [THEN kept_then]

lemma start_loop_kept [kept_rules]:
  assumes "wkeeps V W" "fkeeps g f"
  shows "kept V (fkeeps g) (start_loop E c W f i)"
proof -
  let ?P = "\<lambda>E c W f i r. wkeeps V W \<longrightarrow> fkeeps g f \<longrightarrow> kept V (fkeeps g) (Some r)"
  have "?P E c W f i r" if "start_loop E c W f i = Some r" for r
  proof (rule start_loop.raw_induct [where P = ?P, OF _ that], intro impI, goal_cases)
    case (1 loop E c W f i r)
    have IH: "wkeeps V W \<Longrightarrow> fkeeps g f \<Longrightarrow> kept V (fkeeps g) (loop E c W f i)" for E c W f i
      using 1(1) [of E c W f i] by (auto simp: kept_def)
    show ?case unfolding 1(2) [symmetric] using 1(3,4) by (auto intro!: kept_rules IH)
  qed
  then show ?thesis using assms by (auto simp: kept_def)
qed

lemma relative_read_next_kept [kept_rules]:
  assumes "wkeeps V W" "fkeeps g f"
  shows "kept V (fkeeps g) (relative_read_next E W f)"
proof -
  let ?P = "\<lambda>E W f r. wkeeps V W \<longrightarrow> fkeeps g f \<longrightarrow> kept V (fkeeps g) (Some r)"
  have "?P E W f r" if "relative_read_next E W f = Some r" for r
  proof (rule relative_read_next.raw_induct [where P = ?P, OF _ that], intro impI, goal_cases)
    case (1 loop E W f r)
    have IH: "wkeeps V W \<Longrightarrow> fkeeps g f \<Longrightarrow> kept V (fkeeps g) (loop E W f)" for E W f
      using 1(1) [of E W f] by (auto simp: kept_def)
    show ?case unfolding 1(2) [symmetric] using 1(3,4) by (auto intro!: kept_rules IH)
  qed
  then show ?thesis using assms by (auto simp: kept_def)
qed

lemma relative_kept [kept_rules]:
  "wkeeps V W \<Longrightarrow> fkeeps g f \<Longrightarrow> kept V (fkeeps g) (relative_start E W f c)"
  "wkeeps V W \<Longrightarrow> fkeeps g f \<Longrightarrow> kept V (fkeeps g) (relative_read E W f)"
  "wkeeps V W \<Longrightarrow> fkeeps g f \<Longrightarrow> kept V (fkeeps g) (relative_write E W f)"
  "wkeeps V W \<Longrightarrow> fkeeps g f \<Longrightarrow> kept V (fkeeps g) (relative_rewrite E W f)"
  "wkeeps V W \<Longrightarrow> fkeeps g f \<Longrightarrow> kept V (fkeeps g) (relative_delete E W f)"
  unfolding relative_start_def relative_read_def relative_write_def relative_rewrite_def relative_delete_def
      apply (auto intro!: kept_rules)[1]
     apply (auto intro!: kept_rules)[1]
    apply (auto intro!: kept_rules)[1]
   apply (auto intro!: kept_rules)[1]
  apply (auto intro!: kept_rules)[1]
  done

text \<open>Every handler but those of OPEN and CLOSE.\<close>

lemma funcs_kept [kept_rules]:
  "wkeeps V W \<Longrightarrow> fkeeps g f \<Longrightarrow> kept V (fkeeps g) (funcs_start og E W f c)"
  "wkeeps V W \<Longrightarrow> fkeeps g f \<Longrightarrow> kept V (fkeeps g) (funcs_read og E W f)"
  "wkeeps V W \<Longrightarrow> fkeeps g f \<Longrightarrow> kept V (fkeeps g) (funcs_read_next og E W f)"
  "wkeeps V W \<Longrightarrow> fkeeps g f \<Longrightarrow> kept V (fkeeps g) (funcs_write og E W f opt)"
  "wkeeps V W \<Longrightarrow> fkeeps g f \<Longrightarrow> kept V (fkeeps g) (funcs_rewrite og E W f)"
  "wkeeps V W \<Longrightarrow> fkeeps g f \<Longrightarrow> kept V (fkeeps g) (funcs_delete og E W f)"
  by (cases og; auto intro!: kept_rules)+

section \<open>The statements as steps\<close>

text \<open>
  The invariant. An open connector that is not a standard stream and whose file exists owns
  an open stream of the directions its mode needs; a connector closed WITH LOCK has a stream
  that is closed for good; streams are never named twice.
\<close>

definition mode_reads :: "open_mode \<Rightarrow> bool" where
  "mode_reads m \<longleftrightarrow> m = COB_OPEN_INPUT \<or> m = COB_OPEN_I_O"

definition mode_writes :: "open_mode \<Rightarrow> bool" where
  "mode_writes m \<longleftrightarrow> m = COB_OPEN_OUTPUT \<or> m = COB_OPEN_I_O \<or> m = COB_OPEN_EXTEND"

abbreviation is_open :: "cob_file \<Rightarrow> bool" where
  "is_open f \<equiv> open_mode f \<noteq> COB_OPEN_CLOSED \<and> open_mode f \<noteq> COB_OPEN_LOCKED"

definition fresh_streams :: "io_world \<Rightarrow> bool" where
  "fresh_streams W \<longleftrightarrow> (\<forall>h\<ge>io_next W. io_streams W h = None)"

definition owns :: "io_world \<Rightarrow> cob_file \<Rightarrow> bool" where
  "owns W f \<longleftrightarrow> organization f \<noteq> COB_ORG_INDEXED \<and>
     (\<exists>h s. fhandle f = Some h \<and> io_streams W h = Some s \<and>
       (mode_reads (open_mode f) \<longrightarrow> sm_read s) \<and> (mode_writes (open_mode f) \<longrightarrow> sm_write s))"

definition released :: "io_world \<Rightarrow> cob_file \<Rightarrow> bool" where
  "released W f \<longleftrightarrow> organization f \<noteq> COB_ORG_INDEXED \<and>
     (\<exists>h. fhandle f = Some h \<and> h < io_next W \<and> io_streams W h = None)"

definition file_ok :: "io_world \<Rightarrow> cob_file \<Rightarrow> bool" where
  "file_ok W f \<longleftrightarrow> fresh_streams W \<and>
     (special f = 0 \<and> is_open f \<and> \<not> flag_nonexistent f \<longrightarrow> owns W f) \<and>
     (special f = 0 \<and> open_mode f = COB_OPEN_LOCKED \<and> \<not> flag_nonexistent f \<longrightarrow> released W f) \<and>
     (special f \<noteq> 0 \<longrightarrow> open_mode f \<in> {COB_OPEN_CLOSED, COB_OPEN_INPUT, COB_OPEN_OUTPUT})"

text \<open>
  A step is a statement on the connector, a change of the items it names by the program, or
  something that does not concern its stream (statements on other connectors).
\<close>

inductive file_step :: "io_env \<Rightarrow> io_world \<Rightarrow> cob_file \<Rightarrow> io_world \<Rightarrow> cob_file \<Rightarrow> bool" for E where
  step_open: "mode \<noteq> COB_OPEN_CLOSED \<Longrightarrow> mode \<noteq> COB_OPEN_LOCKED \<Longrightarrow>
    cob_open E W f mode sharing fns = Some (W', f', fns') \<Longrightarrow> file_step E W f W' f'"
| step_close: "cob_close W f copt fns = Some (W', f', fns') \<Longrightarrow> file_step E W f W' f'"
| step_start: "cob_start E W f cond fns = Some (W', f', fns') \<Longrightarrow> file_step E W f W' f'"
| step_read: "cob_read E W f keyed fns opts = Some (W', f', fns') \<Longrightarrow> file_step E W f W' f'"
| step_write: "cob_write E W f n wopt fns = Some (W', f', fns') \<Longrightarrow> file_step E W f W' f'"
| step_rewrite: "cob_rewrite E W f n fns = Some (W', f', fns') \<Longrightarrow> file_step E W f W' f'"
| step_delete: "cob_delete E W f fns = Some (W', f', fns') \<Longrightarrow> file_step E W f W' f'"
| step_unlock: "cob_unlock_file W f fns = Some (W', f', fns') \<Longrightarrow> file_step E W f W' f'"
| step_items: "length d = length (record_data f) \<Longrightarrow>
    file_step E W f W (f\<lparr>record_data := d, record_size := rs, rel_key := rk\<rparr>)"
| step_other: "fresh_streams W' \<Longrightarrow> io_next W \<le> io_next W' \<Longrightarrow>
    (\<And>h. fhandle f = Some h \<Longrightarrow> h < io_next W \<Longrightarrow> same_stream (io_streams W h) (io_streams W' h)) \<Longrightarrow>
    file_step E W f W' f"

inductive file_reachable :: "io_env \<Rightarrow> io_world \<Rightarrow> cob_file \<Rightarrow> bool" for E where
  unopened: "fresh_streams W \<Longrightarrow> open_mode f = COB_OPEN_CLOSED \<Longrightarrow> file_reachable E W f"
| after: "file_reachable E W f \<Longrightarrow> file_step E W f W' f' \<Longrightarrow> file_reachable E W' f'"

section \<open>Every statement keeps the invariant\<close>

lemma save_status_keeps:
  assumes "save_status st W f fns = Some (W', f', fns')"
  shows "wkeeps W W'" "fkeeps f f'"
  using assms by (auto simp: save_status_def Let_def bind_eq_Some_conv wkeeps_def split: if_splits)

lemma same_stream_Some: "same_stream (Some s) t \<Longrightarrow> \<exists>s'. t = Some s' \<and> sm_read s' = sm_read s \<and> sm_write s' = sm_write s"
  by (auto simp: same_stream_def split: option.splits)

lemma same_stream_None: "same_stream None t \<Longrightarrow> t = None"
  by (auto simp: same_stream_def split: option.splits)

lemma fresh_kept: "fresh_streams W \<Longrightarrow> wkeeps W W' \<Longrightarrow> fresh_streams W'"
  by (auto simp: fresh_streams_def wkeeps_def) (metis same_stream_None)

lemma owns_kept:
  assumes "owns W f" "wkeeps W W'" "fkeeps f f'"
  shows "owns W' f'"
proof -
  obtain h s where h: "fhandle f = Some h" "io_streams W h = Some s" "mode_reads (open_mode f) \<longrightarrow> sm_read s"
    "mode_writes (open_mode f) \<longrightarrow> sm_write s"
    using assms(1) by (auto simp: owns_def)
  obtain s' where "io_streams W' h = Some s'" "sm_read s' = sm_read s" "sm_write s' = sm_write s"
    using assms(2) same_stream_Some [of s "io_streams W' h"] h(2) by (metis wkeeps_def)
  then show ?thesis using h assms(1,3) by (simp add: owns_def fkeeps_def)
qed

lemma released_kept:
  assumes "released W f" "wkeeps W W'" "fkeeps f f'"
  shows "released W' f'"
proof -
  obtain h where h: "fhandle f = Some h" "h < io_next W" "io_streams W h = None"
    using assms(1) by (auto simp: released_def)
  have "io_streams W' h = None" using assms(2) same_stream_None [of "io_streams W' h"] h(3) by (metis wkeeps_def)
  then show ?thesis using h assms by (simp add: released_def fkeeps_def wkeeps_def)
qed

lemma file_ok_kept: "file_ok W f \<Longrightarrow> wkeeps W W' \<Longrightarrow> fkeeps f f' \<Longrightarrow> file_ok W' f'"
  using fresh_kept [of W W'] owns_kept [of W f W' f'] released_kept [of W f W' f'] by (simp add: file_ok_def fkeeps_def)

lemma finish_kept:
  assumes "kept W (fkeeps f) m" "finish fns m = Some (W', f', fns')"
  shows "wkeeps W W'" "fkeeps f f'"
proof -
  obtain r V g where "m = Some (r, V, g)" "save_status r V g fns = Some (W', f', fns')"
    using assms(2) by (auto simp: finish_def bind_eq_Some_conv)
  then show "wkeeps W W'" "fkeeps f f'"
    using assms(1) save_status_keeps wkeeps_trans fkeeps_trans by (auto simp: kept_def)
qed

lemma sync_kept [kept_rules]:
  "wkeeps V W \<Longrightarrow> (\<And>W'. wkeeps V W' \<Longrightarrow> kept V F (k W')) \<Longrightarrow> kept V F (cob_sync E r W f \<bind> k)"
  unfolding cob_sync_def by (auto intro!: kept_rules)

lemma noted_kept [kept_rules]:
  "fkeeps g f \<Longrightarrow> (\<And>f'. fkeeps g f' \<Longrightarrow> kept V F (k f')) \<Longrightarrow> kept V F (read_noted E r f opts \<bind> k)"
  "fkeeps g f \<Longrightarrow> (\<And>f'. fkeeps g f' \<Longrightarrow> kept V F (k f')) \<Longrightarrow> kept V F (written_size E f n \<bind> k)"
  "fkeeps g f \<Longrightarrow> (\<And>b f'. fkeeps g f' \<Longrightarrow> kept V F (k' (b, f'))) \<Longrightarrow> kept V F (same_size E f n \<bind> k')"
    apply (rule kept_bind_any, auto simp: read_noted_def set_record_size_def Let_def fkeeps_def split: if_splits option.splits)[1]
   apply (rule kept_bind_any, auto simp: written_size_def bind_eq_Some_conv split: option.splits)[1]
  apply (rule kept_bind_any, auto simp: same_size_def bind_eq_Some_conv split: option.splits if_splits)[1]
  done

lemmas funcs_then [kept_rules] = funcs_kept [THEN kept_then]

lemma statement_kept:
  "kept W (fkeeps f) (start_file E W f c)" "kept W (fkeeps f) (read_file E W f keyed opts)"
  "kept W (fkeeps f) (write_file E W f n opt)" "kept W (fkeeps f) (rewrite_file E W f n)"
  "kept W (fkeeps f) (delete_file E W f)"
proof -
  have k: "fkeeps f f" "fkeeps f (f\<lparr>flag_read_done := False\<rparr>)"
    "fkeeps f (f\<lparr>flag_read_done := False, flag_first_read := 0\<rparr>)"
    by (simp_all add: fkeeps_def)
  have [simp]: "fkeeps g (h\<lparr>flag_end_of_file := False, flag_begin_of_file := False, flag_first_read := Suc 0\<rparr>) = fkeeps g h"
    "fkeeps g (h\<lparr>flag_first_read := 0\<rparr>) = fkeeps g h" for g h
    by (simp_all add: fkeeps_def)
  show "kept W (fkeeps f) (start_file E W f c)" unfolding start_file_def using k by (auto intro!: kept_rules)
  show "kept W (fkeeps f) (read_file E W f keyed opts)" unfolding read_file_def using k by (auto intro!: kept_rules)
  show "kept W (fkeeps f) (write_file E W f n opt)" unfolding write_file_def using k by (auto intro!: kept_rules)
  show "kept W (fkeeps f) (rewrite_file E W f n)" unfolding rewrite_file_def using k by (auto intro!: kept_rules)
  show "kept W (fkeeps f) (delete_file E W f)" unfolding delete_file_def using k by (auto intro!: kept_rules)
qed

text \<open>CLOSE: a stream that was closed already cannot be closed again.\<close>

lemma dead_close: "released W f \<Longrightarrow> funcs_close (organization f) W f copt = None"
  by (cases "organization f")
    (auto simp: released_def cob_file_close_def putc_def fwrite_def fclose_def fflush_def get_stream_def Let_def)

lemma fclose_released:
  assumes "fclose W (Some h) = Some W'" "fresh_streams W" "io_streams W h = Some s"
  shows "fresh_streams W'" "io_streams W' h = None" "h < io_next W'"
  using assms by (auto simp: fclose_def get_stream_def fresh_streams_def not_less [symmetric])

lemma file_close_kept:
  assumes "cob_file_close W f copt = Some (r, W', g)" "owns W f" "fresh_streams W" "is_open f"
  shows "fresh_streams W' \<and> organization g = organization f \<and> special g = special f \<and>
    flag_nonexistent g = flag_nonexistent f \<and>
    (r = 0 \<or> open_mode g = COB_OPEN_CLOSED \<longrightarrow> released W' g) \<and> (r \<noteq> 0 \<and> open_mode g \<noteq> COB_OPEN_CLOSED \<longrightarrow> owns W' g \<and> open_mode g = open_mode f)"
proof (cases "copt = COB_CLOSE_NORMAL \<or> copt = COB_CLOSE_LOCK \<or> copt = COB_CLOSE_NO_REWIND")
  case True
  let ?nl = "organization f = COB_ORG_LINE_SEQUENTIAL \<and> flag_needs_nl f \<and> linage f = None"
  obtain h s where h: "fhandle f = Some h" "io_streams W h = Some s" using assms(2) by (auto simp: owns_def)
  obtain V where V: "(if ?nl then putc W (Some h) chr_nl else Some W) = Some V" "fclose V (Some h) = Some W'"
    and g: "r = 0 \<and> g = (if ?nl then f\<lparr>flag_needs_nl := False\<rparr> else f) \<or>
      r = 7 \<and> g = (if ?nl then f\<lparr>flag_needs_nl := False\<rparr> else f)\<lparr>open_mode := COB_OPEN_CLOSED\<rparr>"
    using assms(1) True h(1) by (auto simp: cob_file_close_def bind_eq_Some_conv Let_def split: if_splits)
  have "wkeeps W V" using V(1) putc_wkeeps by (auto split: if_splits)
  then have "fresh_streams V" "\<exists>s. io_streams V h = Some s"
    using fresh_kept [OF assms(3)] same_stream_Some [of s "io_streams V h"] h(2) by (auto simp: wkeeps_def) (metis)
  then have "fresh_streams W'" "io_streams W' h = None" "h < io_next W'"
    using fclose_released [OF V(2)] by blast+
  moreover have "organization f \<noteq> COB_ORG_INDEXED" using assms(2) by (simp add: owns_def)
  moreover obtain f2 where "f2 = (if ?nl then f\<lparr>flag_needs_nl := False\<rparr> else f)" "fhandle f2 = Some h"
    "organization f2 = organization f" "special f2 = special f" "flag_nonexistent f2 = flag_nonexistent f"
    using h(1) by (cases ?nl) auto
  ultimately show ?thesis using g by (auto simp: released_def)
next
  case False
  then have "r = 7" "W' = W" "g = f" using assms(1) by (auto simp: cob_file_close_def fflush_def split: if_splits)
  then show ?thesis using assms by simp
qed

lemma close_step:
  assumes ok: "file_ok W f" and c: "close_file W f copt = Some (r, W', g)"
  shows "file_ok W' g"
proof -
  let ?f = "f\<lparr>flag_read_done := False\<rparr>"
  have ok': "file_ok W ?f" using file_ok_kept [OF ok, of W ?f] by simp
  consider "special f \<noteq> 0" | "special f = 0" "open_mode f = COB_OPEN_CLOSED"
    | "special f = 0" "open_mode f \<noteq> COB_OPEN_CLOSED" "flag_nonexistent f"
    | "special f = 0" "open_mode f = COB_OPEN_LOCKED" "\<not> flag_nonexistent f"
    | "special f = 0" "is_open f" "\<not> flag_nonexistent f" by blast
  then show ?thesis
  proof cases
    case 4
    then have "released W ?f" using ok' by (simp add: file_ok_def)
    then show ?thesis using dead_close [of W ?f copt] c 4 by (simp add: close_file_def)
  next
    case 5
    then have o: "owns W ?f" using ok' by (simp add: file_ok_def)
    obtain V h where cl: "cob_file_close W ?f copt = Some (r, V, h)" and W': "W' = V" and
      g: "g = (if r = 0 then h\<lparr>open_mode := (if copt = COB_CLOSE_LOCK then COB_OPEN_LOCKED else COB_OPEN_CLOSED)\<rparr> else h)"
    proof -
      have fc: "funcs_close (organization f) W ?f copt = cob_file_close W ?f copt"
        using o by (cases "organization f") (simp_all add: owns_def)
      obtain V h where "cob_file_close W ?f copt = Some (r, V, h)" "W' = V"
        "g = (if r = 0 then h\<lparr>open_mode := (if copt = COB_CLOSE_LOCK then COB_OPEN_LOCKED else COB_OPEN_CLOSED)\<rparr> else h)"
        using c 5 fc by (simp add: close_file_def bind_eq_Some_conv del: if_split) (metis prod.exhaust_sel)
      then show ?thesis by (rule that)
    qed
    have k: "fresh_streams V" "organization h = organization f" "special h = special f" "flag_nonexistent h = flag_nonexistent f"
      "r = 0 \<or> open_mode h = COB_OPEN_CLOSED \<Longrightarrow> released V h"
      "r \<noteq> 0 \<and> open_mode h \<noteq> COB_OPEN_CLOSED \<Longrightarrow> owns V h \<and> open_mode h = open_mode f"
      using file_close_kept [OF cl o] ok 5 by (simp_all add: file_ok_def)
    have "released V h \<Longrightarrow> released V (h\<lparr>open_mode := m\<rparr>)" for m by (simp add: released_def)
    then show ?thesis using k 5 unfolding W' g file_ok_def by (cases "r = 0") auto
  qed (use ok c in \<open>auto simp: close_file_def file_ok_def\<close>)
qed

text \<open>OPEN. The error numbers of the system are not 0.\<close>

definition errnos :: "io_env \<Rightarrow> bool" where
  "errnos E \<longleftrightarrow> (\<forall>n m. env_refuse E n m \<noteq> Some 0) \<and> (\<forall>n x. env_lock E n x \<noteq> Some 0)"

lemma fopen_stream:
  assumes "fopen ref W n m = Inr (h, W')" "fresh_streams W"
  shows "fresh_streams W' \<and> (\<exists>s. io_streams W' h = Some s \<and> sm_read s = (m \<noteq> FM_W) \<and> sm_write s = (m \<noteq> FM_R))"
  using assms by (auto simp: fopen_def fresh_streams_def put_stream_def split: option.splits if_splits)

lemma file_open_kept:
  assumes "cob_file_open E W f n mode sh = Some (r, W', g)" "fresh_streams W" "errnos E"
  shows "fresh_streams W' \<and> organization g = organization f \<and> special g = special f \<and> open_mode g = open_mode f \<and>
    flag_nonexistent g = flag_nonexistent f \<and> flag_optional g = flag_optional f \<and>
    (r = 0 \<longrightarrow> (\<exists>h s. fhandle g = Some h \<and> io_streams W' h = Some s \<and>
      sm_read s = (open_fmode (organization f) mode \<noteq> FM_W) \<and> sm_write s = (open_fmode (organization f) mode \<noteq> FM_R)))"
proof (cases "fopen (env_refuse E) W n (open_fmode (organization f) mode)")
  case (Inl e)
  moreover have "e \<noteq> 0"
    using Inl assms(3) by (cases "e = 0") (auto simp: fopen_def errnos_def split: option.splits if_splits)
  ultimately show ?thesis using assms(1,2) by (auto simp: cob_file_open_def)
next
  case (Inr x)
  then obtain h V where x: "fopen (env_refuse E) W n (open_fmode (organization f) mode) = Inr (h, V)" by (cases x) auto
  obtain s where s: "fresh_streams V" "io_streams V h = Some s" "sm_read s = (open_fmode (organization f) mode \<noteq> FM_W)"
    "sm_write s = (open_fmode (organization f) mode \<noteq> FM_R)"
    using fopen_stream [OF x assms(2)] by blast
  obtain V1 s1 where V1: "(if mode = COB_OPEN_EXTEND then fseek_end V (Some h) else Some V) = Some V1" "fresh_streams V1"
    "io_streams V1 h = Some s1" "sm_read s1 = sm_read s" "sm_write s1 = sm_write s"
  proof (cases "mode = COB_OPEN_EXTEND")
    case True
    let ?s = "s\<lparr>sm_pos := length (contents V (sm_name s))\<rparr>"
    have "wkeeps V (put_stream V h ?s)" by (rule put_stream_wkeeps [OF s(2)]) (simp add: same_stream_def)
    then have "fresh_streams (put_stream V h ?s)" using fresh_kept s(1) by blast
    then show ?thesis using True s by (intro that [of "put_stream V h ?s" ?s])
      (simp_all add: fseek_end_def get_stream_def put_stream_def)
  qed (use s that in auto)
  show ?thesis
  proof (cases "if take 5 n = dev_prefix then None else env_lock E n (sh \<or> mode = COB_OPEN_OUTPUT)")
    case (Some e)
    then have "e \<noteq> 0" using assms(3) by (cases "e = 0") (auto simp: errnos_def split: if_splits)
    moreover have V2: "fclose V1 (Some h) = Some (V1\<lparr>io_streams := (io_streams V1)(h := None)\<rparr>)"
      using V1(3) by (simp add: fclose_def get_stream_def)
    moreover have "fresh_streams (V1\<lparr>io_streams := (io_streams V1)(h := None)\<rparr>)"
      by (rule fclose_released(1) [OF V2 V1(2,3)])
    ultimately show ?thesis
      using assms(1) x V1(1) Some by (auto simp: cob_file_open_def simp del: if_split_asm)
  next
    case None
    have o: "(case linage f of None \<Rightarrow> Some (0, V1, f\<lparr>fhandle := Some h\<rparr>)
       | Some L \<Rightarrow> do {
           (bad, L) \<leftarrow> file_linage_check E L;
           if bad then Some (COB_LINAGE_INVALID, V1, f\<lparr>fhandle := Some h, linage := Some L\<rparr>)
           else do {
             c \<leftarrow> item_set E (linage_ctr L) 1;
             Some (0, V1, f\<lparr>fhandle := Some h, flag_needs_top := True, linage := Some (L\<lparr>linage_ctr := c\<rparr>)\<rparr>) } })
       = Some (r, W', g)"
      using assms(1) x V1(1) None by (simp add: cob_file_open_def Let_def cong: option.case_cong)
    show ?thesis
    proof (cases "linage f")
      case None
      then show ?thesis using o V1 s by auto
    next
      case (Some L)
      obtain b L' where L: "file_linage_check E L = Some (b, L')" using o Some by (cases "file_linage_check E L") auto
      show ?thesis
      proof (cases b)
        case True
        then have "r \<noteq> 0" "W' = V1" "g = f\<lparr>fhandle := Some h, linage := Some L'\<rparr>" using o Some L by auto
        then show ?thesis using V1 by simp
      next
        case False
        then obtain c where "W' = V1"
          "g = f\<lparr>fhandle := Some h, flag_needs_top := True, linage := Some (L'\<lparr>linage_ctr := c\<rparr>)\<rparr>"
          using o Some L by (auto simp: bind_eq_Some_conv)
        then show ?thesis using V1 s by simp
      qed
    qed
  qed
qed

lemma open_step:
  assumes ok: "file_ok W f" and e: "errnos E" and m: "mode \<noteq> COB_OPEN_CLOSED" "mode \<noteq> COB_OPEN_LOCKED"
    and o: "open_file E W f mode sh = Some (r, W', g)"
  shows "file_ok W' g"
proof -
  let ?f = "f\<lparr>flag_read_done := False, last_open_mode := mode, flag_nonexistent := False,
    flag_end_of_file := False, flag_begin_of_file := False, flag_first_read := 2\<rparr>"
  have fresh: "fresh_streams W" using ok by (simp add: file_ok_def)
  show ?thesis
  proof (cases "open_mode f = COB_OPEN_CLOSED")
    case False
    then have "W' = W \<and> g = f\<lparr>flag_read_done := False\<rparr>" using o by (auto simp: open_file_def Let_def split: if_splits)
    then show ?thesis using file_ok_kept [OF ok, of W g] by simp
  next
    case cl: True
    show ?thesis
    proof (cases "special f = 0")
      case False
      then show ?thesis using o cl fresh
        by (auto simp: open_file_def open_special_def Let_def file_ok_def split: if_splits)
    next
      case True
      then have n: "open_named E W ?f mode sh = Some (r, W', g)" using o cl by (simp add: open_file_def)
      have keep: "file_ok W ?f" using cl True fresh by (simp add: file_ok_def)
      obtain b a where ba: "assigned_name ?f = Some b" "map_file_name E b = Some a"
        using n by (cases "assigned_name ?f"; cases "map_file_name E (the (assigned_name ?f))") (auto simp: open_named_def)
      let ?was = "io_disk W a = None"
      let ?open = "funcs_open (organization f) E (cob_cache_file W ?f) ?f a mode sh"
      have a: "r = COB_STATUS_35_NOT_EXISTS \<and> W' = W \<and> g = ?f \<or>
          (\<exists>r0 h was. ?open = Some (r0, W', h) \<and> (r, g) = open_answer r0 was h mode)"
      proof (cases "?was \<and> mode \<noteq> COB_OPEN_OUTPUT \<and> \<not> flag_optional ?f")
        case True
        then show ?thesis using n ba by (simp add: open_named_def)
      next
        case False
        then obtain r0 V h where o: "?open = Some (r0, V, h)"
          using n ba by (cases ?open) (auto simp: open_named_def Let_def)
        then have "open_named E W ?f mode sh = Some (fst (open_answer r0 ?was h mode), V, snd (open_answer r0 ?was h mode))"
          using ba False by (auto simp: open_named_def Let_def split_beta)
        then have "V = W'" "(r, g) = open_answer r0 ?was h mode" using n by (simp_all add: prod_eq_iff)
        then show ?thesis using o by blast
      qed
      then consider "W' = W" "g = ?f" | r0 h was where
          "funcs_open (organization f) E (cob_cache_file W ?f) ?f a mode sh = Some (r0, W', h)" "(r, g) = open_answer r0 was h mode"
        by blast
      then show ?thesis
      proof cases
        case 1
        then show ?thesis using keep by simp
      next
        case 2
        have fr: "fresh_streams (cob_cache_file W ?f)" using fresh by (simp add: cob_cache_file_def fresh_streams_def)
        show ?thesis
        proof (cases "organization f = COB_ORG_INDEXED")
          case True
          then have "r0 = 91" "h = ?f" "W' = cob_cache_file W ?f" using 2 by auto
          then have "g = ?f" using 2 by (simp add: open_answer_def)
          then show ?thesis using \<open>W' = _\<close> fr cl \<open>special f = 0\<close> by (simp add: file_ok_def)
        next
          case False
          then have fo: "cob_file_open E (cob_cache_file W ?f) ?f a mode sh = Some (r0, W', h)"
            using 2 by (cases "organization f") simp_all
          note k = file_open_kept [OF fo fr e]
          have dir: "mode_reads mode \<longrightarrow> open_fmode (organization f) mode \<noteq> FM_W" "mode_writes mode \<longrightarrow> open_fmode (organization f) mode \<noteq> FM_R"
            by (auto simp: mode_reads_def mode_writes_def open_fmode_def)
          show ?thesis
          proof (cases "r0 = 0")
            case True
            then have "g = h\<lparr>open_mode := mode\<rparr>" using 2 by (simp add: open_answer_def)
            moreover have "owns W' (h\<lparr>open_mode := mode\<rparr>)" using k True False dir by (auto simp: owns_def)
            ultimately show ?thesis using k m \<open>special f = 0\<close> by (simp add: file_ok_def)
          next
            case False
            then have "g = h \<or> g = mark_nonexistent h mode" using 2 by (auto simp: open_answer_def split: if_splits)
            then show ?thesis using k cl \<open>special f = 0\<close> m by (auto simp: file_ok_def mark_nonexistent_def)
          qed
        qed
      qed
    qed
  qed
qed

lemma finish_ok:
  assumes "finish fns m = Some (W', f', fns')" "\<And>r V g. m = Some (r, V, g) \<Longrightarrow> file_ok V g"
  shows "file_ok W' f'"
proof -
  obtain r V g where m: "m = Some (r, V, g)" "save_status r V g fns = Some (W', f', fns')"
    using assms(1) by (auto simp: finish_def bind_eq_Some_conv)
  show ?thesis using file_ok_kept [OF assms(2) [OF m(1)] save_status_keeps [OF m(2)]] .
qed

lemma finish_kept_ok:
  assumes "file_ok W f" "finish fns m = Some (W', f', fns')" "kept W (fkeeps f) m"
  shows "file_ok W' f'"
  by (rule file_ok_kept [OF assms(1) finish_kept [OF assms(3,2)]])

lemma file_step_ok:
  assumes "errnos E" "file_step E W f W' f'" "file_ok W f"
  shows "file_ok W' f'"
  using assms(2,3)
proof (induction rule: file_step.induct)
  case (step_open mode W f sharing fns W' f' fns')
  show ?case
    by (rule finish_ok [OF step_open(3) [unfolded cob_open_def]])
      (rule open_step [OF step_open.prems assms(1) step_open(1,2)])
next
  case (step_close W f copt fns W' f' fns')
  show ?case by (rule finish_ok [OF step_close(1) [unfolded cob_close_def]]) (rule close_step [OF step_close.prems])
next
  case (step_unlock W f fns W' f' fns')
  then obtain V where V: "cob_file_unlock W f = Some V" "save_status 0 V f fns = Some (W', f', fns')"
    by (auto simp: cob_unlock_file_def bind_eq_Some_conv)
  then have V': "V = W" by (auto simp: cob_file_unlock_def fflush_def split: if_splits)
  show ?case by (rule file_ok_kept [OF step_unlock.prems save_status_keeps [OF V(2) [unfolded V']]])
next
  case (step_items d f W rs rk)
  then show ?case by (intro file_ok_kept [OF step_items.prems wkeeps_refl]) (simp add: fkeeps_def)
next
  case (step_other W' W f)
  have "owns W f \<Longrightarrow> owns W' f"
  proof -
    assume "owns W f"
    then obtain h s where h: "fhandle f = Some h" "io_streams W h = Some s"  "mode_reads (open_mode f) \<longrightarrow> sm_read s"
      "mode_writes (open_mode f) \<longrightarrow> sm_write s" "organization f \<noteq> COB_ORG_INDEXED" by (auto simp: owns_def)
    then have "h < io_next W" using step_other.prems by (auto simp: file_ok_def fresh_streams_def not_less [symmetric])
    then obtain s' where "io_streams W' h = Some s'" "sm_read s' = sm_read s" "sm_write s' = sm_write s"
      using step_other(3) [OF h(1)] h(2) same_stream_Some [of s "io_streams W' h"] by auto
    then show "owns W' f" using h by (simp add: owns_def)
  qed
  moreover have "released W f \<Longrightarrow> released W' f"
    using step_other(2,3) same_stream_None by (auto simp: released_def) (metis order_less_le_trans)?
  ultimately show ?case using step_other by (auto simp: file_ok_def)
next
  case (step_start W f cond fns W' f' fns')
  show ?case by (rule finish_kept_ok [OF step_start.prems step_start(1) [unfolded cob_start_def] statement_kept(1)])
next
  case (step_read W f keyed fns opts W' f' fns')
  show ?case by (rule finish_kept_ok [OF step_read.prems step_read(1) [unfolded cob_read_def] statement_kept(2)])
next
  case (step_write W f n wopt fns W' f' fns')
  show ?case by (rule finish_kept_ok [OF step_write.prems step_write(1) [unfolded cob_write_def] statement_kept(3)])
next
  case (step_rewrite W f n fns W' f' fns')
  show ?case by (rule finish_kept_ok [OF step_rewrite.prems step_rewrite(1) [unfolded cob_rewrite_def] statement_kept(4)])
next
  case (step_delete W f fns W' f' fns')
  show ?case by (rule finish_kept_ok [OF step_delete.prems step_delete(1) [unfolded cob_delete_def] statement_kept(5)])
qed

lemma file_reachable_ok:
  assumes "errnos E" "file_reachable E W f"
  shows "file_ok W f"
  using assms(2)
proof induction
  case (unopened W f)
  then show ?case by (simp add: file_ok_def)
next
  case (after W f W' f')
  then show ?case using file_step_ok [OF assms(1)] by blast
qed

section \<open>What the invariant is for\<close>

lemma save_status_total: "save_status st W f None \<noteq> None"
  by (simp add: save_status_def put_status_def Let_def)

text \<open>An open connector can be closed, and its stream goes with it.\<close>

lemma close_open_file:
  assumes ok: "file_ok W f" and f: "special f = 0" "is_open f"
  shows "\<exists>W' f'. cob_close W f COB_CLOSE_NORMAL None = Some (W', f', None) \<and> open_mode f' = COB_OPEN_CLOSED \<and>
    file_status f' = (chr_0, chr_0) \<and> (\<not> flag_nonexistent f \<longrightarrow> released W' f')"
proof -
  let ?f = "f\<lparr>flag_read_done := False\<rparr>"
  have st: "\<exists>W' f'. save_status 0 V g None = Some (W', f', None) \<and> open_mode f' = open_mode g \<and>
      file_status f' = (chr_0, chr_0) \<and> (released V g \<longrightarrow> released W' f')" for V g
    by (simp add: save_status_def put_status_def released_def)
  show ?thesis
  proof (cases "flag_nonexistent f")
    case True
    then have "close_file W f COB_CLOSE_NORMAL = Some (0, W, ?f\<lparr>open_mode := COB_OPEN_CLOSED\<rparr>)"
      using f by (simp add: close_file_def)
    then show ?thesis using st [of W "?f\<lparr>open_mode := COB_OPEN_CLOSED\<rparr>"] True by (auto simp: cob_close_def finish_def)
  next
    case False
    have o: "owns W ?f" using file_ok_kept [OF ok, of W ?f] f False by (simp add: file_ok_def)
    then obtain h s where h: "fhandle f = Some h" "io_streams W h = Some s" "mode_writes (open_mode f) \<longrightarrow> sm_write s"
      "organization f \<noteq> COB_ORG_INDEXED"
      by (auto simp: owns_def)
    let ?nl = "organization f = COB_ORG_LINE_SEQUENTIAL \<and> flag_needs_nl f \<and> linage f = None"
    have "\<exists>V. putc W (Some h) chr_nl = Some V" using h(2)
      by (cases "sm_write s") (simp_all add: putc_def fwrite_def get_stream_def Let_def)
    then obtain V where V: "(if ?nl then putc W (Some h) chr_nl else Some W) = Some V"
      by (cases ?nl) auto
    then have k: "wkeeps W V" using putc_wkeeps by (auto split: if_splits)
    then have "same_stream (Some s) (io_streams V h)" unfolding wkeeps_def using h(2) by metis
    then obtain s' where s': "io_streams V h = Some s'" "fresh_streams V"
      using same_stream_Some [of s "io_streams V h"] fresh_kept [OF _ k] ok unfolding file_ok_def by blast
    let ?V = "V\<lparr>io_streams := (io_streams V)(h := None)\<rparr>"
    have cl: "fclose V (Some h) = Some ?V" using s' by (simp add: fclose_def get_stream_def)
    obtain g where g: "g = (if ?nl then ?f\<lparr>flag_needs_nl := False\<rparr> else ?f)" "fhandle g = Some h" "organization g = organization f"
      using h(1) by (cases ?nl) auto
    have "cob_file_close W ?f COB_CLOSE_NORMAL = Some (0, ?V, g)"
      using V cl h(1) by (cases ?nl) (auto simp: cob_file_close_def Let_def g(1))
    then have "close_file W f COB_CLOSE_NORMAL = Some (0, ?V, g\<lparr>open_mode := COB_OPEN_CLOSED\<rparr>)"
      using f False h(4) by (cases "organization f") (simp_all add: close_file_def)
    moreover have "released ?V (g\<lparr>open_mode := COB_OPEN_CLOSED\<rparr>)"
      using g(2,3) h(4) fclose_released [OF cl s'(2,1)] by (simp add: released_def)
    ultimately show ?thesis using st [of ?V "g\<lparr>open_mode := COB_OPEN_CLOSED\<rparr>"] by (auto simp: cob_close_def finish_def)
  qed
qed

text \<open>
  After CLOSE WITH LOCK the stream is closed, but CLOSE and READ do not look for the lock:
  CLOSE closes the stream a second time.
\<close>

lemma locked_close:
  assumes "file_ok W f" "special f = 0" "open_mode f = COB_OPEN_LOCKED" "\<not> flag_nonexistent f"
  shows "cob_close W f copt fns = None"
proof -
  have "released W (f\<lparr>flag_read_done := False\<rparr>)" using assms by (simp add: file_ok_def released_def)
  from dead_close [OF this, of copt] assms show ?thesis by (simp add: cob_close_def close_file_def finish_def)
qed

lemma locked_open:
  assumes "open_mode f = COB_OPEN_LOCKED"
  shows "\<exists>W' f'. cob_open E W f mode sh None = Some (W', f', None) \<and> file_status f' = (0x33, 0x38) \<and>
    open_mode f' = COB_OPEN_LOCKED"
  using assms by (simp add: cob_open_def open_file_def finish_def save_status_def put_status_def cob_i2d_def)

end
