(* ===== verification/Cob_Relative.thy ===== *)
theory Cob_Relative
  imports Cob_Fileio
begin

text \<open>
  A RELATIVE file as a map from record numbers to records. The file is an array of slots, each
  a length (\<open>size_t\<close>, in host order) and the record area; a slot of length 0, or behind the end
  of the file, holds no record. The handlers for random access refine the operations of the map.
\<close>

section \<open>The map a file stands for\<close>

text \<open>Behind the end a file reads as zeros.\<close>

definition byte_at :: "bytes \<Rightarrow> nat \<Rightarrow> u8" where
  "byte_at c i = (if i < length c then c ! i else 0)"

definition bytes_at :: "bytes \<Rightarrow> nat \<Rightarrow> nat \<Rightarrow> bytes" where
  "bytes_at c p n = map (byte_at c) [p..<p + n]"

definition rel_map :: "target \<Rightarrow> nat \<Rightarrow> bytes \<Rightarrow> nat \<Rightarrow> (nat \<times> bytes) option" where
  "rel_map T m c k =
    (let p = k * (m + size_bytes); n = host_val T (bytes_at c p size_bytes) in
     if n > 0 then Some (nat n, bytes_at c (p + size_bytes) m) else None)"

text \<open>A stream for reading and writing at a position of a file of whole slots.\<close>

definition rel_at :: "io_world \<Rightarrow> cob_file \<Rightarrow> bytes \<Rightarrow> bytes \<Rightarrow> nat \<Rightarrow> bool" where
  "rel_at W f n c p \<longleftrightarrow> (\<exists>h s. fhandle f = Some h \<and> io_streams W h = Some s \<and> sm_name s = n \<and> sm_pos s = p \<and>
     sm_read s \<and> sm_write s \<and> \<not> sm_append s \<and> \<not> sm_err s \<and> io_disk W n = Some c)"

lemma length_bytes_at [simp]: "length (bytes_at c p n) = n"
  by (simp add: bytes_at_def)

lemma bytes_at_take: "p + n \<le> length c \<Longrightarrow> bytes_at c p n = take n (drop p c)"
  by (rule nth_equalityI) (auto simp: bytes_at_def byte_at_def)

lemma bytes_at_end: "length c \<le> p \<Longrightarrow> bytes_at c p n = replicate n 0"
  by (rule nth_equalityI) (auto simp: bytes_at_def byte_at_def)

lemma length_overwrite: "length (overwrite c p bs) = max (length c) (p + length bs)"
  by (auto simp: overwrite_def)

lemma nth_overwrite:
  assumes "i < length (overwrite c p bs)"
  shows "overwrite c p bs ! i = (if p \<le> i \<and> i < p + length bs then bs ! (i - p) else byte_at c i)"
proof (cases "p \<le> length c")
  case True
  then have "overwrite c p bs = take p c @ bs @ drop (p + length bs) c" by (simp add: overwrite_def)
  then show ?thesis using True assms by (auto simp: nth_append byte_at_def length_overwrite min_def)
next
  case False
  then have "overwrite c p bs = c @ replicate (p - length c) 0 @ bs" by (simp add: overwrite_def)
  then show ?thesis using False assms by (auto simp: nth_append byte_at_def length_overwrite)
qed

lemma byte_at_overwrite:
  "byte_at (overwrite c p bs) i = (if p \<le> i \<and> i < p + length bs then bs ! (i - p) else byte_at c i)"
  using nth_overwrite [of i c p bs] by (auto simp: byte_at_def length_overwrite)

lemma bytes_at_overwrite_same: "bytes_at (overwrite c p bs) p (length bs) = bs"
  by (rule nth_equalityI) (auto simp: bytes_at_def byte_at_overwrite)

lemma bytes_at_overwrite_other: "q + n \<le> p \<or> p + length bs \<le> q \<Longrightarrow> bytes_at (overwrite c p bs) q n = bytes_at c q n"
  by (rule nth_equalityI) (auto simp: bytes_at_def byte_at_overwrite)

lemma bytes_at_overwrite_part:
  assumes "p \<le> q" "q + n \<le> p + length bs"
  shows "bytes_at (overwrite c p bs) q n = take n (drop (q - p) bs)"
  using assms by (intro nth_equalityI) (auto simp: bytes_at_def byte_at_overwrite)

section \<open>Streams\<close>

lemma rel_seek:
  assumes "rel_at W f n c p" "0 \<le> q"
  obtains W' where "fseek_set W (fhandle f) q = Some (True, W')" "rel_at W' f n c (nat q)"
proof -
  obtain h s where s: "fhandle f = Some h" "io_streams W h = Some s" "sm_name s = n" "sm_read s" "sm_write s"
    "\<not> sm_append s" "\<not> sm_err s" "io_disk W n = Some c"
    using assms(1) by (auto simp: rel_at_def)
  show ?thesis
    by (rule that [of "put_stream W h (s\<lparr>sm_pos := nat q\<rparr>)"])
      (use s assms(2) in \<open>simp_all add: fseek_set_def get_stream_def rel_at_def put_stream_def\<close>)
qed

lemma rel_step:
  assumes "rel_at W f n c p" "0 \<le> int p + d"
  obtains W' where "fseek_cur W (fhandle f) d = Some (True, W')" "rel_at W' f n c (nat (int p + d))"
proof -
  obtain W' where "fseek_set W (fhandle f) (int p + d) = Some (True, W')" "rel_at W' f n c (nat (int p + d))"
    using rel_seek [OF assms] by blast
  then show ?thesis using assms(1) by (intro that [of W']) (auto simp: fseek_cur_def rel_at_def get_stream_def)
qed

lemma rel_fread:
  assumes "rel_at W f n c p"
  obtains W' where "fread W (fhandle f) k = Some (take k (drop p c), W')" "rel_at W' f n c (p + min k (length c - p))"
proof -
  obtain h s where s: "fhandle f = Some h" "io_streams W h = Some s" "sm_name s = n" "sm_read s" "sm_write s" "sm_pos s = p"
    "\<not> sm_append s" "\<not> sm_err s" "io_disk W n = Some c"
    using assms(1) by (auto simp: rel_at_def)
  show ?thesis
    by (rule that [of "put_stream W h (s\<lparr>sm_pos := p + min k (length c - p)\<rparr>)"])
      (use s in \<open>simp_all add: fread_def get_stream_def rel_at_def put_stream_def contents_def min.commute\<close>)
qed

lemma rel_fwrite:
  assumes "rel_at W f n c p"
  obtains W' where "fwrite W (fhandle f) bs = Some (True, W')" "rel_at W' f n (overwrite c p bs) (p + length bs)"
proof -
  obtain h s where s: "fhandle f = Some h" "io_streams W h = Some s" "sm_name s = n" "sm_read s" "sm_write s" "sm_pos s = p"
    "\<not> sm_append s" "\<not> sm_err s" "io_disk W n = Some c"
    using assms(1) by (auto simp: rel_at_def)
  show ?thesis
    by (rule that [of "(put_stream W h (s\<lparr>sm_pos := p + length bs\<rparr>))\<lparr>io_disk := (io_disk W)(n := Some (overwrite c p bs))\<rparr>"])
      (use s in \<open>simp_all add: fwrite_def get_stream_def rel_at_def put_stream_def contents_def\<close>)
qed

lemma rel_at_cong: "fhandle g = fhandle f \<Longrightarrow> rel_at W f n c p \<Longrightarrow> rel_at W g n c p"
  by (simp add: rel_at_def)

text \<open>The area, the slot a record number names, and the file that holds it.\<close>

definition rel_shape :: "cob_file \<Rightarrow> bytes \<Rightarrow> bool" where
  "rel_shape f c \<longleftrightarrow> length (record_data f) = record_max f \<and> 0 < record_max f \<and> rel_size f dvd length c"

definition slot_ok :: "cob_file \<Rightarrow> nat \<Rightarrow> bool" where
  "slot_ok f k \<longleftrightarrow> k * rel_size f < 2 ^ 63"

lemma slot_offset_ok: "slot_ok f k \<Longrightarrow> slot_offset f (int k) = int (k * rel_size f)"
  by (simp add: slot_offset_def slot_ok_def i64_id flip: of_nat_mult)

lemma slot_inside:
  assumes "rel_shape f c" "k * rel_size f < length c"
  shows "k * rel_size f + rel_size f \<le> length c"
proof -
  obtain q where "length c = rel_size f * q" using assms(1) by (auto simp: rel_shape_def)
  moreover from this have "Suc k \<le> q" using assms(2) by (simp add: mult.commute)
  ultimately show ?thesis using mult_le_mono2 [of "Suc k" q "rel_size f"] by (simp add: algebra_simps)
qed

section \<open>The handlers\<close>

lemma host_val_nonneg: "0 \<le> host_val T bs"
  by (simp add: host_val_def)

lemma host_val_zeros: "host_val T (replicate n 0) = 0"
  by (simp add: host_val_def)

lemma host_val_size: "n < 2 ^ 64 \<Longrightarrow> host_val T (host_bytes T size_bytes (int n)) = int n"
  by (simp add: host_val_def host_bytes_def le_val_le_bytes)

text \<open>The length word of slot \<open>k\<close>.\<close>

definition slot_len :: "io_env \<Rightarrow> cob_file \<Rightarrow> bytes \<Rightarrow> nat \<Rightarrow> nat" where
  "slot_len E f c k = nat (host_val (env_target E) (bytes_at c (k * rel_size f) size_bytes))"

lemma rel_map_slot: "rel_map (env_target E) (record_max f) c k =
    (if slot_len E f c k = 0 then None
     else Some (slot_len E f c k, bytes_at c (k * rel_size f + size_bytes) (record_max f)))"
  by (simp add: rel_map_def slot_len_def rel_size_def Let_def)

lemma slot_beyond: "length c \<le> k * rel_size f \<Longrightarrow> slot_len E f c k = 0"
  by (simp add: slot_len_def bytes_at_end host_val_zeros)

lemma fread_size_at:
  assumes "rel_at W f n c p" "p + size_bytes \<le> length c"
  obtains W' where "fread_size E W f = Some (True, W', f\<lparr>record_len := nat (host_val (env_target E) (bytes_at c p size_bytes))\<rparr>)"
    "rel_at W' f n c (p + size_bytes)"
proof -
  obtain W' where "fread W (fhandle f) size_bytes = Some (take size_bytes (drop p c), W')"
    "rel_at W' f n c (p + min size_bytes (length c - p))" by (rule rel_fread [OF assms(1)])
  then show ?thesis using assms(2) that [of W'] bytes_at_take [of p size_bytes c]
    by (simp add: fread_size_def fread1_def size_over_def length_host_bytes)
qed

lemma seek_to_slot:
  assumes "rel_at W f n c p" "slot_ok f k"
  obtains W' where "fseek_set W (fhandle f) (slot_offset f (int k)) = Some (True, W')" "rel_at W' f n c (k * rel_size f)"
proof -
  have o: "slot_offset f (int k) = int (k * rel_size f)" by (rule slot_offset_ok [OF assms(2)])
  then have "0 \<le> slot_offset f (int k)" by linarith
  from rel_seek [OF assms(1) this] obtain W' where
    "fseek_set W (fhandle f) (slot_offset f (int k)) = Some (True, W')" "rel_at W' f n c (nat (slot_offset f (int k)))"
    by blast
  then show ?thesis using that unfolding o nat_int by blast
qed

lemma seek_slot_inside:
  assumes "rel_at W f n c p" "rel_shape f c" "slot_ok f k" "k * rel_size f < length c"
  obtains W' where "seek_slot E W f (int k) = Some (True, W', f\<lparr>record_len := slot_len E f c k\<rparr>)"
    "rel_at W' f n c (k * rel_size f + size_bytes)"
proof -
  obtain W1 where w1: "fseek_set W (fhandle f) (slot_offset f (int k)) = Some (True, W1)" "rel_at W1 f n c (k * rel_size f)"
    by (rule seek_to_slot [OF assms(1,3)])
  have "k * rel_size f + size_bytes \<le> length c" using slot_inside [OF assms(2,4)] by (simp add: rel_size_def)
  from fread_size_at [OF w1(2) this, of E] obtain W2 where
    "fread_size E W1 f = Some (True, W2, f\<lparr>record_len := slot_len E f c k\<rparr>)" "rel_at W2 f n c (k * rel_size f + size_bytes)"
    unfolding slot_len_def by blast
  then show ?thesis using w1(1) that by (simp add: seek_slot_def)
qed

lemma seek_slot_beyond:
  assumes "rel_at W f n c p" "slot_ok f k" "length c \<le> k * rel_size f"
  obtains W' r where "seek_slot E W f (int k) = Some (False, W', f\<lparr>record_len := r\<rparr>)" "rel_at W' f n c (k * rel_size f)"
proof -
  obtain W1 where w1: "fseek_set W (fhandle f) (slot_offset f (int k)) = Some (True, W1)" "rel_at W1 f n c (k * rel_size f)"
    by (rule seek_to_slot [OF assms(1,2)])
  obtain W2 where "fread W1 (fhandle f) size_bytes = Some (take size_bytes (drop (k * rel_size f) c), W2)"
    "rel_at W2 f n c (k * rel_size f + min size_bytes (length c - k * rel_size f))"
    by (rule rel_fread [OF w1(2)])
  then show ?thesis using w1(1) assms(3) that by (simp add: seek_slot_def fread_size_def fread1_def)
qed

lemma back_over_size:
  assumes "rel_at W f n c (p + size_bytes)"
  obtains W' where "back_to_size W f = Some W'" "rel_at W' f n c p"
proof -
  have "0 \<le> int (p + size_bytes) + - int size_bytes" by linarith
  from rel_step [OF assms this] obtain W' where
    "fseek_cur W (fhandle f) (- int size_bytes) = Some (True, W')" "rel_at W' f n c (nat (int (p + size_bytes) + - int size_bytes))"
    by blast
  moreover have "nat (int (p + size_bytes) + - int size_bytes) = p" by linarith
  ultimately show ?thesis using that by (simp add: back_to_size_def)
qed

lemma back_to_size_len: "back_to_size W (f\<lparr>record_len := r\<rparr>) = back_to_size W f"
  by (simp add: back_to_size_def)

text \<open>READ with the RELATIVE KEY: the record of the map, or status 23.\<close>

abbreviation (input) rel_record :: "io_env \<Rightarrow> cob_file \<Rightarrow> bytes \<Rightarrow> nat \<Rightarrow> (nat \<times> bytes) option" where
  "rel_record E f c k \<equiv> rel_map (env_target E) (record_max f) c k"

lemma relative_read_none:
  assumes "rel_at W f n c p" "rel_shape f c" "slot_ok f k" "get_rel_key E f = Some (int k + 1, f)" "rel_record E f c k = None"
  shows "\<exists>W' r p'. relative_read E W f = Some (COB_STATUS_23_KEY_NOT_EXISTS, W', f\<lparr>record_len := r\<rparr>) \<and> rel_at W' f n c p'"
proof (cases "k * rel_size f < length c")
  case False
  obtain W' r where "seek_slot E W f (int k) = Some (False, W', f\<lparr>record_len := r\<rparr>)" "rel_at W' f n c (k * rel_size f)"
    using seek_slot_beyond [OF assms(1,3)] False by (metis not_less)
  then show ?thesis using assms(4) by (auto simp: relative_read_def)
next
  case True
  have e: "slot_len E f c k = 0" using assms(5) by (simp add: rel_map_slot split: if_splits)
  obtain W1 where w1: "seek_slot E W f (int k) = Some (True, W1, f\<lparr>record_len := slot_len E f c k\<rparr>)"
    "rel_at W1 f n c (k * rel_size f + size_bytes)"
    by (rule seek_slot_inside [OF assms(1-3) True])
  obtain W2 where "back_to_size W1 f = Some W2" "rel_at W2 f n c (k * rel_size f)"
    by (rule back_over_size [OF w1(2)])
  then show ?thesis using assms(4) w1(1) e
    by (auto simp: relative_read_def back_to_size_len)
qed

lemma slot_area: "rel_shape f c \<Longrightarrow> k * rel_size f < length c \<Longrightarrow>
    take (record_max f) (drop (k * rel_size f + size_bytes) c) = bytes_at c (k * rel_size f + size_bytes) (record_max f)"
  using slot_inside [of f c k] by (simp add: bytes_at_take rel_size_def)

lemma relative_read_some:
  assumes "rel_at W f n c p" "rel_shape f c" "slot_ok f k" "get_rel_key E f = Some (int k + 1, f)"
    "rel_record E f c k = Some (l, d)"
  shows "\<exists>W' p'. relative_read E W f = Some (0, W', f\<lparr>record_len := l, record_data := d\<rparr>) \<and> rel_at W' f n c p'"
proof -
  have l: "l = slot_len E f c k" "0 < l" and d: "d = bytes_at c (k * rel_size f + size_bytes) (record_max f)"
    using assms(5) by (simp_all add: rel_map_slot split: if_splits)
  then have inside: "k * rel_size f < length c" using slot_beyond [of c k f E] by (cases "k * rel_size f < length c") simp_all
  let ?g = "f\<lparr>record_len := l\<rparr>"
  obtain W1 where w1: "seek_slot E W f (int k) = Some (True, W1, ?g)" "rel_at W1 f n c (k * rel_size f + size_bytes)"
    using seek_slot_inside [OF assms(1-3) inside, of E] l by blast
  obtain W2 where w2: "fread W1 (fhandle f) (record_max f) = Some (take (record_max f) (drop (k * rel_size f + size_bytes) c), W2)"
    "rel_at W2 f n c (k * rel_size f + size_bytes + min (record_max f) (length c - (k * rel_size f + size_bytes)))"
    by (rule rel_fread [OF w1(2)])
  have "fread_data W1 ?g (record_max f) = Some (record_max f, W2, ?g\<lparr>record_data := d\<rparr>)"
    using w2(1) assms(2) slot_area [OF assms(2) inside] d by (simp add: fread_data_def rel_shape_def wrs_all)
  then show ?thesis using assms(2,4) w1(1) w2(2) l by (auto simp: relative_read_def rel_shape_def)
qed

section \<open>Writing slots\<close>

lemma overwrite_append: "overwrite (overwrite c p a) (p + length a) b = overwrite c p (a @ b)"
  by (rule nth_equalityI) (auto simp: nth_overwrite byte_at_overwrite length_overwrite nth_append)

text \<open>Two slots of an array of slots do not overlap.\<close>

lemma slots_apart: "j \<noteq> k \<Longrightarrow> j * s + s \<le> k * s \<or> k * s + s \<le> j * (s::nat)"
  using mult_le_mono1 [of "Suc j" k s] mult_le_mono1 [of "Suc k" j s] by (cases "j < k") auto

lemma rel_map_frame:
  assumes "j \<noteq> k" "k * (m + size_bytes) \<le> p" "p + length bs \<le> k * (m + size_bytes) + (m + size_bytes)"
  shows "rel_map T m (overwrite c p bs) j = rel_map T m c j"
proof -
  let ?q = "j * (m + size_bytes)"
  have "?q + (m + size_bytes) \<le> p \<or> p + length bs \<le> ?q"
    using slots_apart [OF assms(1), of "m + size_bytes"] assms(2,3) by linarith
  then have "?q + size_bytes \<le> p \<or> p + length bs \<le> ?q" "?q + size_bytes + m \<le> p \<or> p + length bs \<le> ?q + size_bytes"
    by linarith+
  then show ?thesis by (simp add: rel_map_def bytes_at_overwrite_other Let_def)
qed

lemma rel_map_put:
  assumes "length d = m" "n < 2 ^ 64" "0 < n"
  shows "rel_map T m (overwrite c (k * (m + size_bytes)) (host_bytes T size_bytes (int n) @ d)) = (rel_map T m c)(k \<mapsto> (n, d))"
proof
  fix j
  let ?p = "k * (m + size_bytes)" and ?bs = "host_bytes T size_bytes (int n) @ d"
  show "rel_map T m (overwrite c ?p ?bs) j = ((rel_map T m c)(k \<mapsto> (n, d))) j"
  proof (cases "j = k")
    case False
    then show ?thesis using rel_map_frame [of j k m ?p ?bs T c] assms(1) by (simp add: length_host_bytes)
  next
    case True
    have "bytes_at (overwrite c ?p ?bs) ?p size_bytes = host_bytes T size_bytes (int n)"
      "bytes_at (overwrite c ?p ?bs) (?p + size_bytes) m = d"
      by (subst bytes_at_overwrite_part; simp add: length_host_bytes assms(1))+
    then show ?thesis using True assms(2,3) by (simp add: rel_map_def host_val_size)
  qed
qed

lemma rel_map_clear:
  "rel_map T m (overwrite c (k * (m + size_bytes)) (host_bytes T size_bytes 0)) = (rel_map T m c)(k := None)"
proof
  fix j
  let ?p = "k * (m + size_bytes)" and ?bs = "host_bytes T size_bytes 0"
  have "bytes_at (overwrite c ?p ?bs) ?p size_bytes = ?bs"
    using bytes_at_overwrite_same [of c ?p ?bs] by (simp add: length_host_bytes)
  then show "rel_map T m (overwrite c ?p ?bs) j = ((rel_map T m c)(k := None)) j"
    using rel_map_frame [of j k m ?p ?bs T c] host_val_size [of 0 T] by (auto simp: rel_map_def length_host_bytes)
qed

lemma rel_map_data:
  assumes "length d = m"
  shows "rel_map T m (overwrite c (k * (m + size_bytes) + size_bytes) d) =
    (rel_map T m c)(k := map_option (\<lambda>r. (fst r, d)) (rel_map T m c k))"
proof
  fix j
  let ?p = "k * (m + size_bytes)"
  have "bytes_at (overwrite c (?p + size_bytes) d) ?p size_bytes = bytes_at c ?p size_bytes"
    by (simp add: bytes_at_overwrite_other)
  moreover have "bytes_at (overwrite c (?p + size_bytes) d) (?p + size_bytes) m = d"
    using bytes_at_overwrite_same [of c "?p + size_bytes" d] assms by simp
  ultimately show "rel_map T m (overwrite c (?p + size_bytes) d) j =
      ((rel_map T m c)(k := map_option (\<lambda>r. (fst r, d)) (rel_map T m c k))) j"
    using rel_map_frame [of j k m "?p + size_bytes" d T c] assms by (auto simp: rel_map_def Let_def)
qed


section \<open>WRITE, REWRITE and DELETE\<close>

lemma rel_fwrite1:
  assumes "rel_at W f n c p" "bs \<noteq> []"
  obtains W' where "fwrite1 W (fhandle f) bs = Some (True, W')" "rel_at W' f n (overwrite c p bs) (p + length bs)"
proof -
  obtain W' where "fwrite W (fhandle f) bs = Some (True, W')" "rel_at W' f n (overwrite c p bs) (p + length bs)"
    by (rule rel_fwrite [OF assms(1)])
  then show ?thesis using assms(2) that by (simp add: fwrite1_def)
qed

lemma shape_area: "rel_shape f c \<Longrightarrow> area f (record_max f) = Some (record_data f)"
  by (simp add: rel_shape_def area_def rds0)

lemma size_word: "host_bytes T size_bytes v \<noteq> []"
  using length_host_bytes [of T size_bytes v] by force

text \<open>The slot at the position is written whole.\<close>

lemma write_slot_at:
  assumes "rel_at W f n c p" "rel_shape f c"
  obtains W' where "write_slot E W f = Some (True, W')"
    "rel_at W' f n (overwrite c p (host_bytes (env_target E) size_bytes (int (record_len f)) @ record_data f)) (p + rel_size f)"
proof -
  let ?s = "host_bytes (env_target E) size_bytes (int (record_len f))"
  obtain W1 where w1: "fwrite1 W (fhandle f) ?s = Some (True, W1)" "rel_at W1 f n (overwrite c p ?s) (p + length ?s)"
    by (rule rel_fwrite1 [OF assms(1) size_word])
  have ne: "record_data f \<noteq> []" using assms(2) by (auto simp: rel_shape_def)
  obtain W2 where "fwrite1 W1 (fhandle f) (record_data f) = Some (True, W2)"
    "rel_at W2 f n (overwrite (overwrite c p ?s) (p + length ?s) (record_data f)) (p + length ?s + length (record_data f))"
    by (rule rel_fwrite1 [OF w1(2) ne])
  then have "rel_at W2 f n (overwrite c p (?s @ record_data f)) (p + rel_size f)" "write_slot E W f = Some (True, W2)"
    using w1(1) assms(2) shape_area [OF assms(2)] overwrite_append [of c p ?s]
    by (simp_all add: write_slot_def length_host_bytes rel_shape_def rel_size_def add_ac)
  then show ?thesis by (intro that)
qed

text \<open>The write attempt looks at the length at the position and returns there.\<close>

lemma peek_inside:
  assumes "rel_at W f n c p" "p + size_bytes \<le> length c"
  obtains W1 W2 where "fread1 W (fhandle f) size_bytes = Some (True, bytes_at c p size_bytes, W1)"
    "fseek_cur W1 (fhandle f) (- int size_bytes) = Some (True, W2)" "rel_at W2 f n c p"
proof -
  obtain W1 where w1: "fread W (fhandle f) size_bytes = Some (take size_bytes (drop p c), W1)"
    "rel_at W1 f n c (p + min size_bytes (length c - p))" by (rule rel_fread [OF assms(1)])
  have "min size_bytes (length c - p) = size_bytes" using assms(2) by linarith
  then have "rel_at W1 f n c (p + size_bytes)" using w1(2) by simp
  moreover have "0 \<le> int (p + size_bytes) + - int size_bytes" by linarith
  ultimately obtain W2 where w2: "fseek_cur W1 (fhandle f) (- int size_bytes) = Some (True, W2)"
    "rel_at W2 f n c (nat (int (p + size_bytes) + - int size_bytes))" by (rule rel_step)
  have p: "nat (int (p + size_bytes) + - int size_bytes) = p" by linarith
  show ?thesis
    by (rule that [of W1 W2]) (use w1(1) assms(2) w2 p in \<open>simp_all add: fread1_def bytes_at_take\<close>)
qed

lemma peek_beyond:
  assumes "rel_at W f n c p" "length c \<le> p"
  obtains W1 W2 where "fread1 W (fhandle f) size_bytes = Some (False, [], W1)"
    "fseek_set W1 (fhandle f) (int p) = Some (True, W2)" "rel_at W2 f n c p"
proof -
  obtain W1 where w1: "fread W (fhandle f) size_bytes = Some (take size_bytes (drop p c), W1)"
    "rel_at W1 f n c (p + min size_bytes (length c - p))" by (rule rel_fread [OF assms(1)])
  have "0 \<le> int p" by simp
  from rel_seek [OF w1(2) this] obtain W2 where "fseek_set W1 (fhandle f) (int p) = Some (True, W2)" "rel_at W2 f n c p"
    unfolding nat_int by blast
  then show ?thesis by (rule that [rotated]) (use w1(1) assms(2) in \<open>simp add: fread1_def\<close>)
qed

lemma rel_ftell: "rel_at W f n c p \<Longrightarrow> ftell W (fhandle f) = Some p"
  by (auto simp: rel_at_def ftell_def get_stream_def)

definition put_record :: "target \<Rightarrow> cob_file \<Rightarrow> bytes \<Rightarrow> nat \<Rightarrow> bytes" where
  "put_record T f c k = overwrite c (k * rel_size f) (host_bytes T size_bytes (int (record_len f)) @ record_data f)"

lemma relative_write_free:
  assumes "rel_at W f n c p" "rel_shape f c" "slot_ok f k" "get_rel_key E f = Some (int k + 1, f)"
    "access_mode f \<noteq> COB_ACCESS_SEQUENTIAL" "slot_len E f c k = 0"
  shows "\<exists>W' p'. relative_write E W f = Some (0, W', f) \<and> rel_at W' f n (put_record (env_target E) f c k) p'"
proof -
  let ?p = "k * rel_size f"
  obtain W1 where w1: "fseek_set W (fhandle f) (slot_offset f (int k)) = Some (True, W1)" "rel_at W1 f n c ?p"
    by (rule seek_to_slot [OF assms(1,3)])
  have "\<exists>b bs W2 W3 x. fread1 W1 (fhandle f) size_bytes = Some (b, bs, W2) \<and>
      (if b then fseek_cur W2 (fhandle f) (- int size_bytes) else fseek_set W2 (fhandle f) (int ?p)) = Some (x, W3) \<and>
      rel_at W3 f n c ?p \<and> \<not> (b \<and> host_val (env_target E) bs > 0)"
  proof (cases "?p < length c")
    case True
    then have "?p + size_bytes \<le> length c" using slot_inside [OF assms(2) True] by (simp add: rel_size_def)
    from peek_inside [OF w1(2) this] obtain W2 W3 where
      "fread1 W1 (fhandle f) size_bytes = Some (True, bytes_at c ?p size_bytes, W2)"
      "fseek_cur W2 (fhandle f) (- int size_bytes) = Some (True, W3)" "rel_at W3 f n c ?p" by blast
    then show ?thesis using assms(6) by (auto simp: slot_len_def)
  next
    case False
    then have "length c \<le> ?p" by simp
    from peek_beyond [OF w1(2) this] obtain W2 W3 where
      "fread1 W1 (fhandle f) size_bytes = Some (False, [], W2)"
      "fseek_set W2 (fhandle f) (int ?p) = Some (True, W3)" "rel_at W3 f n c ?p" by blast
    then show ?thesis by auto
  qed
  then obtain b bs W2 W3 x where w2: "fread1 W1 (fhandle f) size_bytes = Some (b, bs, W2)"
    "(if b then fseek_cur W2 (fhandle f) (- int size_bytes) else fseek_set W2 (fhandle f) (int ?p)) = Some (x, W3)"
    "rel_at W3 f n c ?p" "\<not> (b \<and> host_val (env_target E) bs > 0)" by blast
  obtain W4 where "write_slot E W3 f = Some (True, W4)" "rel_at W4 f n (put_record (env_target E) f c k) (?p + rel_size f)"
    unfolding put_record_def by (rule write_slot_at [OF w2(3) assms(2)])
  then show ?thesis using w1 w2 assms(4,5) rel_ftell [OF w1(2)]
    by (simp add: relative_write_def Let_def) blast
qed

lemma relative_write_taken:
  assumes "rel_at W f n c p" "rel_shape f c" "slot_ok f k" "get_rel_key E f = Some (int k + 1, f)"
    "access_mode f \<noteq> COB_ACCESS_SEQUENTIAL" "slot_len E f c k > 0"
  shows "\<exists>W' p'. relative_write E W f = Some (COB_STATUS_22_KEY_EXISTS, W', f) \<and> rel_at W' f n c p'"
proof -
  let ?p = "k * rel_size f"
  obtain W1 where w1: "fseek_set W (fhandle f) (slot_offset f (int k)) = Some (True, W1)" "rel_at W1 f n c ?p"
    by (rule seek_to_slot [OF assms(1,3)])
  have "?p < length c" using assms(6) slot_beyond [of c k f E] by (cases "?p < length c") simp_all
  then have "?p + size_bytes \<le> length c" using slot_inside [OF assms(2), of k] by (simp add: rel_size_def)
  from peek_inside [OF w1(2) this] obtain W2 W3 where
    "fread1 W1 (fhandle f) size_bytes = Some (True, bytes_at c ?p size_bytes, W2)"
    "fseek_cur W2 (fhandle f) (- int size_bytes) = Some (True, W3)" "rel_at W3 f n c ?p" by blast
  then show ?thesis using w1 assms(4,5,6) rel_ftell [OF w1(2)]
    by (auto simp: relative_write_def Let_def slot_len_def)
qed

text \<open>REWRITE and DELETE behind the end of the file answer 23.\<close>

lemma relative_change_beyond:
  assumes "rel_at W f n c p" "slot_ok f k" "get_rel_key E f = Some (int k + 1, f)" "access_mode f \<noteq> COB_ACCESS_SEQUENTIAL"
    "length c \<le> k * rel_size f"
  shows "\<exists>W' r p'. relative_rewrite E W f = Some (COB_STATUS_23_KEY_NOT_EXISTS, W', f\<lparr>record_len := r\<rparr>) \<and> rel_at W' f n c p'"
    and "\<exists>W' r p'. relative_delete E W f = Some (COB_STATUS_23_KEY_NOT_EXISTS, W', f\<lparr>record_len := r\<rparr>) \<and> rel_at W' f n c p'"
proof -
  obtain W' r where "seek_slot E W f (int k) = Some (False, W', f\<lparr>record_len := r\<rparr>)" "rel_at W' f n c (k * rel_size f)"
    by (rule seek_slot_beyond [OF assms(1,2,5)])
  then show "\<exists>W' r p'. relative_rewrite E W f = Some (COB_STATUS_23_KEY_NOT_EXISTS, W', f\<lparr>record_len := r\<rparr>) \<and> rel_at W' f n c p'"
    "\<exists>W' r p'. relative_delete E W f = Some (COB_STATUS_23_KEY_NOT_EXISTS, W', f\<lparr>record_len := r\<rparr>) \<and> rel_at W' f n c p'"
    using assms(3,4) by (auto simp: relative_rewrite_def relative_delete_def)
qed

lemma relative_rewrite_slot:
  assumes "rel_at W f n c p" "rel_shape f c" "slot_ok f k" "get_rel_key E f = Some (int k + 1, f)"
    "access_mode f \<noteq> COB_ACCESS_SEQUENTIAL" "k * rel_size f < length c"
  shows "\<exists>W' r p'. relative_rewrite E W f = Some (0, W', f\<lparr>record_len := r\<rparr>) \<and>
    rel_at W' f n (overwrite c (k * rel_size f + size_bytes) (record_data f)) p'"
proof -
  obtain W1 where w1: "seek_slot E W f (int k) = Some (True, W1, f\<lparr>record_len := slot_len E f c k\<rparr>)"
    "rel_at W1 f n c (k * rel_size f + size_bytes)"
    by (rule seek_slot_inside [OF assms(1-3) assms(6)])
  have ne: "record_data f \<noteq> []" using assms(2) by (auto simp: rel_shape_def)
  obtain W2 where w2: "fwrite1 W1 (fhandle f) (record_data f) = Some (True, W2)"
    "rel_at W2 f n (overwrite c (k * rel_size f + size_bytes) (record_data f)) (k * rel_size f + size_bytes + length (record_data f))"
    by (rule rel_fwrite1 [OF w1(2) ne])
  have "area (f\<lparr>record_len := slot_len E f c k\<rparr>) (record_max f) = Some (record_data f)"
    using shape_area [OF assms(2)] by (simp add: area_def)
  then show ?thesis using w1(1) w2 assms(4,5) by (auto simp: relative_rewrite_def)
qed

lemma relative_delete_slot:
  assumes "rel_at W f n c p" "rel_shape f c" "slot_ok f k" "get_rel_key E f = Some (int k + 1, f)"
    "k * rel_size f < length c"
  shows "\<exists>W' p'. relative_delete E W f = Some (0, W', f\<lparr>record_len := 0\<rparr>) \<and>
    rel_at W' f n (overwrite c (k * rel_size f) (host_bytes (env_target E) size_bytes 0)) p'"
proof -
  let ?p = "k * rel_size f" and ?z = "host_bytes (env_target E) size_bytes 0"
  obtain W1 where w1: "seek_slot E W f (int k) = Some (True, W1, f\<lparr>record_len := slot_len E f c k\<rparr>)"
    "rel_at W1 f n c (?p + size_bytes)"
    by (rule seek_slot_inside [OF assms(1-3,5)])
  obtain W2 where w2: "back_to_size W1 f = Some W2" "rel_at W2 f n c ?p" by (rule back_over_size [OF w1(2)])
  obtain W3 where w3: "fwrite1 W2 (fhandle f) ?z = Some (True, W3)" "rel_at W3 f n (overwrite c ?p ?z) (?p + length ?z)"
    by (rule rel_fwrite1 [OF w2(2) size_word])
  have "0 \<le> int (?p + length ?z) + int (record_max f)" by linarith
  from rel_step [OF w3(2) this] obtain W4 where "fseek_cur W3 (fhandle f) (int (record_max f)) = Some (True, W4)"
    "rel_at W4 f n (overwrite c ?p ?z) (nat (int (?p + length ?z) + int (record_max f)))" by blast
  then show ?thesis using w1(1) w2(1) w3(1) assms(4) by (auto simp: relative_delete_def back_to_size_len Let_def)
qed


section \<open>The statements and the map\<close>

text \<open>
  What a program does with one record of a relative file opened I-O for random access: it
  sets the RELATIVE KEY (the item \<open>key k\<close> holds \<open>k + 1\<close>), fills the record area and issues the
  statement. It sees the FILE STATUS and, after a READ, the record.
\<close>

datatype rel_op = Rel_read nat | Rel_write nat nat bytes | Rel_rewrite nat nat bytes | Rel_delete nat

type_synonym rel_answer = "(u8 \<times> u8) \<times> (nat \<times> bytes) option"

definition seen :: "bool \<Rightarrow> stmt_result \<Rightarrow> (rel_answer \<times> io_world \<times> cob_file) option" where
  "seen b r = map_option (\<lambda>(W, f, _). ((file_status f,
     if b \<and> file_status f = status_ok then Some (record_len f, record_data f) else None), W, f)) r"

fun rel_do :: "io_env \<Rightarrow> (nat \<Rightarrow> cob_field) \<Rightarrow> rel_op \<Rightarrow> io_world \<Rightarrow> cob_file \<Rightarrow> (rel_answer \<times> io_world \<times> cob_file) option" where
  "rel_do E key (Rel_read k) W f = seen True (cob_read E W (f\<lparr>rel_key := Some (key k)\<rparr>) True None 0)"
| "rel_do E key (Rel_write k n d) W f =
     seen False (cob_write E W (f\<lparr>rel_key := Some (key k), record_data := d\<rparr>) n 0 None)"
| "rel_do E key (Rel_rewrite k n d) W f =
     seen False (cob_rewrite E W (f\<lparr>rel_key := Some (key k), record_data := d\<rparr>) n None)"
| "rel_do E key (Rel_delete k) W f = seen False (cob_delete E W (f\<lparr>rel_key := Some (key k)\<rparr>) None)"

fun rel_run where
  "rel_run E key [] W f = Some ([], W, f)"
| "rel_run E key (x # xs) W f = do {
     (a, W, f) \<leftarrow> rel_do E key x W f;
     (as, W, f) \<leftarrow> rel_run E key xs W f;
     Some (a # as, W, f) }"

text \<open>The same on a number of slots and a map from slots to records.\<close>

type_synonym rel_state = "nat \<times> (nat \<Rightarrow> (nat \<times> bytes) option)"

abbreviation (input) status_22 :: "u8 \<times> u8" where "status_22 \<equiv> (0x32, 0x32)"
abbreviation (input) status_23 :: "u8 \<times> u8" where "status_23 \<equiv> (0x32, 0x33)"

fun rel_spec :: "rel_op \<Rightarrow> rel_state \<Rightarrow> rel_answer \<times> rel_state" where
  "rel_spec (Rel_read k) (N, M) = ((if M k = None then status_23 else status_ok, M k), (N, M))"
| "rel_spec (Rel_write k n d) (N, M) =
     (if M k = None then ((status_ok, None), (max N (Suc k), M(k \<mapsto> (n, d)))) else ((status_22, None), (N, M)))"
| "rel_spec (Rel_rewrite k n d) (N, M) =
     (if k < N then ((status_ok, None), (N, M(k := map_option (\<lambda>r. (fst r, d)) (M k)))) else ((status_23, None), (N, M)))"
| "rel_spec (Rel_delete k) (N, M) =
     (if k < N then ((status_ok, None), (N, M(k := None))) else ((status_23, None), (N, M)))"

fun rel_spec_run where
  "rel_spec_run [] S = ([], S)"
| "rel_spec_run (x # xs) S = (let (a, S) = rel_spec x S; (as, S) = rel_spec_run xs S in (a # as, S))"

text \<open>The connector and the operations the refinement is about.\<close>

definition rel_ready :: "cob_file \<Rightarrow> bool" where
  "rel_ready f \<longleftrightarrow> organization f = COB_ORG_RELATIVE \<and> access_mode f \<noteq> COB_ACCESS_SEQUENTIAL \<and>
     open_mode f = COB_OPEN_I_O \<and> record_size f = None \<and> \<not> flag_nonexistent f \<and> 0 < record_max f \<and>
     length (record_data f) = record_max f \<and> record_max f < 2 ^ 64"

fun rel_op_ok :: "io_env \<Rightarrow> (nat \<Rightarrow> cob_field) \<Rightarrow> cob_file \<Rightarrow> rel_op \<Rightarrow> bool" where
  "rel_op_ok E key f (Rel_read k) \<longleftrightarrow> slot_ok f k \<and> item_get E (key k) = Some (int k + 1, key k)"
| "rel_op_ok E key f (Rel_write k n d) \<longleftrightarrow> slot_ok f k \<and> item_get E (key k) = Some (int k + 1, key k) \<and>
     length d = record_max f \<and> 0 < n \<and> record_min f \<le> n \<and> n \<le> record_max f"
| "rel_op_ok E key f (Rel_rewrite k n d) \<longleftrightarrow> slot_ok f k \<and> item_get E (key k) = Some (int k + 1, key k) \<and>
     length d = record_max f"
| "rel_op_ok E key f (Rel_delete k) \<longleftrightarrow> slot_ok f k \<and> item_get E (key k) = Some (int k + 1, key k)"

text \<open>The world and the connector stand for a state of the map.\<close>

definition rel_abs :: "io_env \<Rightarrow> bytes \<Rightarrow> io_world \<Rightarrow> cob_file \<Rightarrow> rel_state \<Rightarrow> bool" where
  "rel_abs E n W f S \<longleftrightarrow> rel_ready f \<and> (\<exists>c p. rel_at W f n c p \<and> rel_size f dvd length c \<and>
     S = (length c div rel_size f, rel_map (env_target E) (record_max f) c))"

lemma slot_count:
  assumes "rel_size f dvd length c"
  shows "k < length c div rel_size f \<longleftrightarrow> k * rel_size f < length c"
proof -
  have "0 < rel_size f" by (simp add: rel_size_def)
  moreover obtain q where "length c = rel_size f * q" using assms by (auto elim: dvdE)
  ultimately show ?thesis by (simp add: mult.commute)
qed

lemma slot_grow:
  assumes "rel_size f dvd length c"
  shows "rel_size f dvd max (length c) (k * rel_size f + rel_size f)"
    "max (length c) (k * rel_size f + rel_size f) div rel_size f = max (length c div rel_size f) (Suc k)"
proof -
  have s: "0 < rel_size f" by (simp add: rel_size_def)
  obtain q where q: "length c = q * rel_size f" using assms by (metis dvdE mult.commute)
  have m: "max (length c) (k * rel_size f + rel_size f) = max q (Suc k) * rel_size f"
    unfolding q nat_mult_max_left by (simp add: add.commute)
  show "rel_size f dvd max (length c) (k * rel_size f + rel_size f)" unfolding m by simp
  show "max (length c) (k * rel_size f + rel_size f) div rel_size f = max (length c div rel_size f) (Suc k)"
    unfolding m unfolding q using s by simp
qed


lemma rel_at_upd [simp]:
  "rel_at W (f\<lparr>record_len := l\<rparr>) n c p = rel_at W f n c p"
  "rel_at W (f\<lparr>record_data := d\<rparr>) n c p = rel_at W f n c p"
  "rel_at W (f\<lparr>rel_key := g\<rparr>) n c p = rel_at W f n c p"
  "rel_at W (f\<lparr>file_status := st\<rparr>) n c p = rel_at W f n c p"
  "rel_at W (f\<lparr>flag_read_done := b\<rparr>) n c p = rel_at W f n c p"
  "rel_at W (f\<lparr>flag_first_read := r\<rparr>) n c p = rel_at W f n c p"
  "rel_at W (f\<lparr>flag_end_of_file := b\<rparr>) n c p = rel_at W f n c p"
  "rel_at W (f\<lparr>flag_begin_of_file := b\<rparr>) n c p = rel_at W f n c p"
  by (simp_all add: rel_at_def)

lemma rel_at_flush: "rel_at W f n c p \<Longrightarrow> fflush W (fhandle f) = Some W"
  by (auto simp: rel_at_def fflush_def get_stream_def)

lemma rel_sync: "rel_at W f n c p \<Longrightarrow> cob_sync E ret W f = Some W"
  by (simp add: cob_sync_def rel_at_flush)

text \<open>What a statement makes of a handler's answer.\<close>

lemma finish_at:
  assumes "rel_at W f n c p" "st = 0 \<or> st = 22 \<or> st = 23"
  obtains W' where "finish None (Some (st, W, f)) =
      Some (W', f\<lparr>file_status := (if st = 0 then status_ok else if st = 22 then status_22 else status_23)\<rparr>, None)"
    "rel_at W' f n c p"
proof -
  have "\<exists>W'. finish None (Some (st, W, f)) =
      Some (W', f\<lparr>file_status := (if st = 0 then status_ok else if st = 22 then status_22 else status_23)\<rparr>, None) \<and>
      rel_at W' f n c p"
    using assms by (auto simp: finish_def save_status_def put_status_def Let_def rel_at_def cob_i2d_def)
  then show ?thesis using that by blast
qed

definition rel_as :: "cob_file \<Rightarrow> cob_file \<Rightarrow> bool" where
  "rel_as f g \<longleftrightarrow> rel_ready g \<and> record_max g = record_max f \<and> record_min g = record_min f"

lemma rel_op_ok_as: "rel_as f g \<Longrightarrow> rel_op_ok E key g x = rel_op_ok E key f x"
  by (cases x) (simp_all add: rel_as_def slot_ok_def rel_size_def)

lemma key_item: "item_get E g = Some (n, g) \<Longrightarrow> get_rel_key E (f\<lparr>rel_key := Some g\<rparr>) = Some (n, f\<lparr>rel_key := Some g\<rparr>)"
  by (simp add: get_rel_key_def)


lemma rel_map_none: "rel_record E f c k = None \<longleftrightarrow> slot_len E f c k = 0"
  by (simp add: rel_map_slot)

lemma length_rel_record: "rel_record E f c k = Some r \<Longrightarrow> length (snd r) = record_max f"
  by (auto simp: rel_map_slot split: if_splits)

text \<open>The four statements; \<open>c\<close> is the file before.\<close>

lemma do_read:
  assumes "rel_ready f" "rel_at W f n c p" "rel_size f dvd length c" "rel_op_ok E key f (Rel_read k)"
  shows "\<exists>W' f' p'. rel_do E key (Rel_read k) W f =
      Some ((if rel_record E f c k = None then status_23 else status_ok, rel_record E f c k), W', f') \<and>
    rel_as f f' \<and> rel_at W' f' n c p'"
proof -
  let ?g = "f\<lparr>rel_key := Some (key k), flag_read_done := False\<rparr>"
  have h: "rel_at W ?g n c p" "rel_shape ?g c" "slot_ok ?g k" "get_rel_key E ?g = Some (int k + 1, ?g)"
    using assms by (simp_all add: rel_shape_def rel_ready_def rel_size_def slot_ok_def get_rel_key_def)
  have fl: "read_file E W (f\<lparr>rel_key := Some (key k)\<rparr>) True 0 =
      do { (ret, W, f) \<leftarrow> relative_read E W ?g; f \<leftarrow> read_noted E ret f 0; Some (ret, W, f) }"
    using assms(1) by (simp add: read_file_def rel_ready_def)
  show ?thesis
  proof (cases "rel_record E f c k")
    case None
    then have "rel_record E ?g c k = None" by simp
    from relative_read_none [OF h this] obtain W1 r p1 where
      r: "relative_read E W ?g = Some (COB_STATUS_23_KEY_NOT_EXISTS, W1, ?g\<lparr>record_len := r\<rparr>)" "rel_at W1 ?g n c p1"
      by blast
    have at: "rel_at W1 (?g\<lparr>record_len := r\<rparr>) n c p1" using r(2) by simp
    obtain W2 where "finish None (Some (23, W1, ?g\<lparr>record_len := r\<rparr>)) = Some (W2, ?g\<lparr>record_len := r, file_status := status_23\<rparr>, None)"
      "rel_at W2 (?g\<lparr>record_len := r\<rparr>) n c p1"
      using finish_at [OF at, of 23] by auto
    then show ?thesis using None r(1) assms(1)
      by (auto simp: cob_read_def fl read_noted_def seen_def rel_as_def rel_ready_def)
  next
    case (Some x)
    obtain l d where x: "x = (l, d)" by (cases x)
    have ld: "length d = record_max f" using length_rel_record [OF Some] x by simp
    let ?h = "?g\<lparr>record_len := l, record_data := d, flag_first_read := 0, flag_read_done := True,
      flag_end_of_file := False, flag_begin_of_file := False\<rparr>"
    have "rel_record E ?g c k = Some (l, d)" using Some x by simp
    from relative_read_some [OF h this] obtain W1 p1 where
      r: "relative_read E W ?g = Some (0, W1, ?g\<lparr>record_len := l, record_data := d\<rparr>)" "rel_at W1 ?g n c p1"
      by blast
    have at: "rel_at W1 ?h n c p1" using r(2) by simp
    obtain W2 where "finish None (Some (0, W1, ?h)) = Some (W2, ?h\<lparr>file_status := status_ok\<rparr>, None)" "rel_at W2 ?h n c p1"
      using finish_at [OF at, of 0] by auto
    then show ?thesis using Some x ld r(1) assms(1)
      by (auto simp: cob_read_def fl read_noted_def set_record_size_def seen_def rel_as_def rel_ready_def)
  qed
qed

lemma do_write:
  assumes "rel_ready f" "rel_at W f n c p" "rel_size f dvd length c" "rel_op_ok E key f (Rel_write k l d)"
  shows "\<exists>W' f' p'. rel_do E key (Rel_write k l d) W f =
      Some ((if rel_record E f c k = None then status_ok else status_22, None), W', f') \<and>
    rel_as f f' \<and> rel_at W' f' n (if rel_record E f c k = None
      then overwrite c (k * rel_size f) (host_bytes (env_target E) size_bytes (int l) @ d) else c) p'"
proof -
  let ?g = "f\<lparr>rel_key := Some (key k), record_data := d, flag_read_done := False, record_len := l\<rparr>"
  have h: "rel_at W ?g n c p" "rel_shape ?g c" "slot_ok ?g k" "get_rel_key E ?g = Some (int k + 1, ?g)"
    "access_mode ?g \<noteq> COB_ACCESS_SEQUENTIAL"
    using assms by (simp_all add: rel_shape_def rel_ready_def rel_size_def slot_ok_def get_rel_key_def)
  have fl: "write_file E W (f\<lparr>rel_key := Some (key k), record_data := d\<rparr>) l 0 =
      do { (ret, W, f) \<leftarrow> relative_write E W ?g; W \<leftarrow> cob_sync E ret W f; Some (ret, W, f) }"
    using assms(1,4) by (simp add: write_file_def rel_ready_def write_denied_def written_size_def Let_def)
  show ?thesis
  proof (cases "slot_len E f c k = 0")
    case True
    then have "slot_len E ?g c k = 0" by (simp add: slot_len_def rel_size_def)
    from relative_write_free [OF h this] obtain W1 p1 where
      r: "relative_write E W ?g = Some (0, W1, ?g)" "rel_at W1 ?g n (put_record (env_target E) ?g c k) p1"
      by blast
    obtain W2 where "finish None (Some (0, W1, ?g)) = Some (W2, ?g\<lparr>file_status := status_ok\<rparr>, None)"
      "rel_at W2 ?g n (put_record (env_target E) ?g c k) p1"
      using finish_at [OF r(2), of 0] by auto
    then show ?thesis using True r rel_sync [OF r(2)] assms(1,4)
      by (auto simp: cob_write_def fl seen_def rel_as_def rel_ready_def rel_map_none put_record_def rel_size_def)
  next
    case False
    then have "slot_len E ?g c k > 0" by (simp add: slot_len_def rel_size_def)
    from relative_write_taken [OF h this] obtain W1 p1 where
      r: "relative_write E W ?g = Some (22, W1, ?g)" "rel_at W1 ?g n c p1"
      by blast
    obtain W2 where "finish None (Some (22, W1, ?g)) = Some (W2, ?g\<lparr>file_status := status_22\<rparr>, None)" "rel_at W2 ?g n c p1"
      using finish_at [OF r(2), of 22] by auto
    then show ?thesis using False r rel_sync [OF r(2)] assms(1,4)
      by (auto simp: cob_write_def fl seen_def rel_as_def rel_ready_def rel_map_none)
  qed
qed


lemma do_rewrite:
  assumes "rel_ready f" "rel_at W f n c p" "rel_size f dvd length c" "rel_op_ok E key f (Rel_rewrite k l d)"
  shows "\<exists>W' f' p'. rel_do E key (Rel_rewrite k l d) W f =
      Some ((if k * rel_size f < length c then status_ok else status_23, None), W', f') \<and>
    rel_as f f' \<and> rel_at W' f' n (if k * rel_size f < length c
      then overwrite c (k * rel_size f + size_bytes) d else c) p'"
proof -
  let ?g = "f\<lparr>rel_key := Some (key k), record_data := d, flag_read_done := False\<rparr>"
  have h: "rel_at W ?g n c p" "rel_shape ?g c" "slot_ok ?g k" "get_rel_key E ?g = Some (int k + 1, ?g)"
    "access_mode ?g \<noteq> COB_ACCESS_SEQUENTIAL"
    using assms by (simp_all add: rel_shape_def rel_ready_def rel_size_def slot_ok_def get_rel_key_def)
  have fl: "rewrite_file E W (f\<lparr>rel_key := Some (key k), record_data := d\<rparr>) l =
      do { (ret, W, f) \<leftarrow> relative_rewrite E W ?g; W \<leftarrow> cob_sync E ret W f; Some (ret, W, f) }"
    using assms(1) by (simp add: rewrite_file_def rel_ready_def change_denied_def same_size_def Let_def)
  show ?thesis
  proof (cases "k * rel_size f < length c")
    case True
    then have "k * rel_size ?g < length c" by (simp add: rel_size_def)
    from relative_rewrite_slot [OF h this] obtain W1 r p1 where
      r: "relative_rewrite E W ?g = Some (0, W1, ?g\<lparr>record_len := r\<rparr>)"
      "rel_at W1 (?g\<lparr>record_len := r\<rparr>) n (overwrite c (k * rel_size f + size_bytes) d) p1"
      by (auto simp: rel_size_def)
    obtain W2 where "finish None (Some (0, W1, ?g\<lparr>record_len := r\<rparr>)) = Some (W2, ?g\<lparr>record_len := r, file_status := status_ok\<rparr>, None)"
      "rel_at W2 (?g\<lparr>record_len := r\<rparr>) n (overwrite c (k * rel_size f + size_bytes) d) p1"
      using finish_at [OF r(2), of 0] by auto
    then show ?thesis using True r(1) rel_sync [OF r(2)] assms(1,4)
      by (auto simp: cob_rewrite_def fl seen_def rel_as_def rel_ready_def)
  next
    case False
    then have "length c \<le> k * rel_size ?g" by (simp add: rel_size_def)
    from relative_change_beyond(1) [OF h(1,3,4,5) this] obtain W1 r p1 where
      r: "relative_rewrite E W ?g = Some (23, W1, ?g\<lparr>record_len := r\<rparr>)" "rel_at W1 (?g\<lparr>record_len := r\<rparr>) n c p1"
      by auto
    obtain W2 where "finish None (Some (23, W1, ?g\<lparr>record_len := r\<rparr>)) = Some (W2, ?g\<lparr>record_len := r, file_status := status_23\<rparr>, None)"
      "rel_at W2 (?g\<lparr>record_len := r\<rparr>) n c p1"
      using finish_at [OF r(2), of 23] by auto
    then show ?thesis using False r(1) rel_sync [OF r(2)] assms(1,4)
      by (auto simp: cob_rewrite_def fl seen_def rel_as_def rel_ready_def)
  qed
qed

lemma do_delete:
  assumes "rel_ready f" "rel_at W f n c p" "rel_size f dvd length c" "rel_op_ok E key f (Rel_delete k)"
  shows "\<exists>W' f' p'. rel_do E key (Rel_delete k) W f =
      Some ((if k * rel_size f < length c then status_ok else status_23, None), W', f') \<and>
    rel_as f f' \<and> rel_at W' f' n (if k * rel_size f < length c
      then overwrite c (k * rel_size f) (host_bytes (env_target E) size_bytes 0) else c) p'"
proof -
  let ?g = "f\<lparr>rel_key := Some (key k), flag_read_done := False\<rparr>"
  have h: "rel_at W ?g n c p" "rel_shape ?g c" "slot_ok ?g k" "get_rel_key E ?g = Some (int k + 1, ?g)"
    "access_mode ?g \<noteq> COB_ACCESS_SEQUENTIAL"
    using assms by (simp_all add: rel_shape_def rel_ready_def rel_size_def slot_ok_def get_rel_key_def)
  have fl: "delete_file E W (f\<lparr>rel_key := Some (key k)\<rparr>) =
      do { (ret, W, f) \<leftarrow> relative_delete E W ?g; W \<leftarrow> cob_sync E ret W f; Some (ret, W, f) }"
    using assms(1) by (simp add: delete_file_def rel_ready_def change_denied_def Let_def)
  let ?c = "overwrite c (k * rel_size f) (host_bytes (env_target E) size_bytes 0)"
  show ?thesis
  proof (cases "k * rel_size f < length c")
    case True
    then have "k * rel_size ?g < length c" by (simp add: rel_size_def)
    from relative_delete_slot [OF h(1-4) this] obtain W1 p1 where
      r: "relative_delete E W ?g = Some (0, W1, ?g\<lparr>record_len := 0\<rparr>)" "rel_at W1 (?g\<lparr>record_len := 0\<rparr>) n ?c p1"
      by (auto simp: rel_size_def)
    obtain W2 where "finish None (Some (0, W1, ?g\<lparr>record_len := 0\<rparr>)) = Some (W2, ?g\<lparr>record_len := 0, file_status := status_ok\<rparr>, None)"
      "rel_at W2 (?g\<lparr>record_len := 0\<rparr>) n ?c p1"
      using finish_at [OF r(2), of 0] by auto
    then show ?thesis using True r(1) rel_sync [OF r(2)] assms(1,4)
      by (auto simp: cob_delete_def fl seen_def rel_as_def rel_ready_def)
  next
    case False
    then have "length c \<le> k * rel_size ?g" by (simp add: rel_size_def)
    from relative_change_beyond(2) [OF h(1,3,4,5) this] obtain W1 r p1 where
      r: "relative_delete E W ?g = Some (23, W1, ?g\<lparr>record_len := r\<rparr>)" "rel_at W1 (?g\<lparr>record_len := r\<rparr>) n c p1"
      by auto
    obtain W2 where "finish None (Some (23, W1, ?g\<lparr>record_len := r\<rparr>)) = Some (W2, ?g\<lparr>record_len := r, file_status := status_23\<rparr>, None)"
      "rel_at W2 (?g\<lparr>record_len := r\<rparr>) n c p1"
      using finish_at [OF r(2), of 23] by auto
    then show ?thesis using False r(1) rel_sync [OF r(2)] assms(1,4)
      by (auto simp: cob_delete_def fl seen_def rel_as_def rel_ready_def)
  qed
qed

section \<open>The refinement\<close>

lemma rel_absI:
  assumes "rel_as f f'" "rel_at W' f' n c' p'" "rel_size f dvd length c'"
  shows "rel_abs E n W' f' (length c' div rel_size f, rel_map (env_target E) (record_max f) c')"
proof -
  have "rel_size f' = rel_size f" "record_max f' = record_max f" "rel_ready f'"
    using assms(1) by (simp_all add: rel_as_def rel_size_def)
  then show ?thesis using assms(2,3) by (auto simp: rel_abs_def)
qed

lemma rel_do_refines:
  assumes "rel_abs E n W f S" "rel_op_ok E key f x"
  shows "\<exists>W' f'. rel_do E key x W f = Some (fst (rel_spec x S), W', f') \<and> rel_as f f' \<and>
    rel_abs E n W' f' (snd (rel_spec x S))"
proof -
  obtain c p where a: "rel_ready f" "rel_at W f n c p" "rel_size f dvd length c"
    and S: "S = (length c div rel_size f, rel_map (env_target E) (record_max f) c)"
    using assms(1) by (auto simp: rel_abs_def)
  have s: "rel_size f = record_max f + size_bytes" by (simp add: rel_size_def)
  show ?thesis
  proof (cases x)
    case (Rel_read k)
    from do_read [OF a assms(2) [unfolded Rel_read]] obtain W' f' p' where
      d: "rel_do E key (Rel_read k) W f =
        Some ((if rel_record E f c k = None then status_23 else status_ok, rel_record E f c k), W', f')"
      and g: "rel_as f f'" "rel_at W' f' n c p'" by blast
    show ?thesis using d g(1) rel_absI [OF g a(3)] by (simp add: Rel_read S)
  next
    case (Rel_write k l d)
    let ?bs = "host_bytes (env_target E) size_bytes (int l) @ d"
    have ld: "length d = record_max f" "0 < l" "l < 2 ^ 64"
      using assms(2) a(1) by (simp_all add: Rel_write rel_ready_def)
    have len: "length (overwrite c (k * rel_size f) ?bs) = max (length c) (k * rel_size f + rel_size f)"
      using ld by (simp add: length_overwrite length_host_bytes s)
    have put: "rel_map (env_target E) (record_max f) (overwrite c (k * rel_size f) ?bs) =
        (rel_map (env_target E) (record_max f) c)(k \<mapsto> (l, d))"
      unfolding s by (rule rel_map_put [OF ld(1,3,2)])
    from do_write [OF a assms(2) [unfolded Rel_write]] obtain W' f' p' where
      d: "rel_do E key (Rel_write k l d) W f =
        Some ((if rel_record E f c k = None then status_ok else status_22, None), W', f')"
      and g: "rel_as f f'" "rel_at W' f' n (if rel_record E f c k = None
        then overwrite c (k * rel_size f) ?bs else c) p'" by blast
    have v: "rel_size f dvd length (if rel_record E f c k = None then overwrite c (k * rel_size f) ?bs else c)"
      using a(3) slot_grow(1) [OF a(3)] len by simp
    show ?thesis using d g(1) rel_absI [OF g v, of E] len put slot_grow(2) [OF a(3), of k]
      by (auto simp: Rel_write S)
  next
    case (Rel_rewrite k l d)
    have ld: "length d = record_max f" using assms(2) by (simp add: Rel_rewrite)
    from do_rewrite [OF a assms(2) [unfolded Rel_rewrite]] obtain W' f' p' where
      d: "rel_do E key (Rel_rewrite k l d) W f =
        Some ((if k * rel_size f < length c then status_ok else status_23, None), W', f')"
      and g: "rel_as f f'" "rel_at W' f' n (if k * rel_size f < length c
        then overwrite c (k * rel_size f + size_bytes) d else c) p'" by blast
    have len: "length (if k * rel_size f < length c then overwrite c (k * rel_size f + size_bytes) d else c) = length c"
      using slot_inside [of f c k] a ld by (auto simp: length_overwrite s rel_shape_def rel_ready_def)
    show ?thesis using d g(1) rel_absI [OF g, of E] len a(3) rel_map_data [OF ld, of "env_target E" c k]
        slot_count [OF a(3), of k]
      by (auto simp: Rel_rewrite S s split: if_splits)
  next
    case (Rel_delete k)
    let ?z = "host_bytes (env_target E) size_bytes 0"
    from do_delete [OF a assms(2) [unfolded Rel_delete]] obtain W' f' p' where
      d: "rel_do E key (Rel_delete k) W f =
        Some ((if k * rel_size f < length c then status_ok else status_23, None), W', f')"
      and g: "rel_as f f'" "rel_at W' f' n (if k * rel_size f < length c
        then overwrite c (k * rel_size f) ?z else c) p'" by blast
    have len: "length (if k * rel_size f < length c then overwrite c (k * rel_size f) ?z else c) = length c"
      using slot_inside [of f c k] a by (auto simp: length_overwrite s rel_shape_def rel_ready_def length_host_bytes)
    show ?thesis using d g(1) rel_absI [OF g, of E] len a(3) rel_map_clear [of "env_target E" "record_max f" c k]
        slot_count [OF a(3), of k]
      by (auto simp: Rel_delete S s split: if_splits)
  qed
qed

lemma rel_run_refines:
  assumes "rel_abs E n W f S" "\<forall>x \<in> set xs. rel_op_ok E key f x"
  shows "\<exists>W' f'. rel_run E key xs W f = Some (fst (rel_spec_run xs S), W', f') \<and> rel_abs E n W' f' (snd (rel_spec_run xs S))"
  using assms
proof (induction xs arbitrary: W f S)
  case Nil
  then show ?case by simp
next
  case (Cons x xs)
  from rel_do_refines [OF Cons.prems(1), of key x] Cons.prems(2) obtain W1 f1 where
    1: "rel_do E key x W f = Some (fst (rel_spec x S), W1, f1)" "rel_as f f1" "rel_abs E n W1 f1 (snd (rel_spec x S))"
    by auto
  have "\<forall>x \<in> set xs. rel_op_ok E key f1 x" using Cons.prems(2) rel_op_ok_as [OF 1(2)] by simp
  from Cons.IH [OF 1(3) this] 1(1) show ?case by (auto simp: split_beta Let_def)
qed

end
