(* ===== verification/Cob_Sort.thy ===== *)
theory Cob_Sort
  imports Cob_Fileio Cob_Common
begin

text \<open>
  SORT files (fileio.c): records are released into two queues of blocks, which a balanced merge
  turns into one sorted block; when as many items are queued as fit the memory, the block goes to
  one of two temporary files, and the blocks of the files are merged between two pairs of files
  until one block per file is left, which are merged on return.

  The queues are lists of items, whose counts are the lengths of the lists. The list \<open>empty\<close> of
  unused items is their number. A temporary file is its bytes, a position and the number of
  blocks in it. The comparison works on the decimals of numeric.c, which are passed along.
\<close>

section \<open>State\<close>

record cobitem =
  end_of_block :: bool
  ci_unique :: nat
  ci_item :: bytes

record temp_file =
  tf_data :: bytes
  tf_pos :: nat
  tf_count :: nat

text \<open>
  The run-time around a SORT: host, module, the keys and the collating sequence of the sort
  file, and what the system answers: whether a temporary file can be had, and whether one may
  grow to a length.
\<close>

record sort_env =
  so_target :: target
  so_fp :: fp_env
  so_module :: cob_module
  so_sort :: sort_state
  so_tmpfile :: "nat \<Rightarrow> bool"
  so_room :: "nat \<Rightarrow> bool"

record cobsort =
  s_empty :: nat
  s_unique :: nat
  s_retrieving :: bool
  s_files_used :: bool
  s_size :: nat
  s_memory :: nat
  destination_file :: nat
  retrieval_queue :: nat
  s_queue :: "nat \<Rightarrow> cobitem list"
  s_file :: "nat \<Rightarrow> temp_file option"
  s_accs :: cob_accs

datatype sort_code = COBSORTOK | COBSORTEND | COBSORTABORT | COBSORTFILEERR | COBSORTNOTOPEN

text \<open>A SORT that cannot get a temporary file ends the run unit, which is no result here.\<close>

type_synonym sort_result = "(sort_code \<times> cobsort) option"

definition put_queue :: "cobsort \<Rightarrow> nat \<Rightarrow> cobitem list \<Rightarrow> cobsort" where
  "put_queue S n q = S\<lparr>s_queue := (s_queue S)(n := q)\<rparr>"

definition put_file :: "cobsort \<Rightarrow> nat \<Rightarrow> temp_file \<Rightarrow> cobsort" where
  "put_file S n t = S\<lparr>s_file := (s_file S)(n := Some t)\<rparr>"

section \<open>Comparing items\<close>

text \<open>The keys decide as in the SORT of a table; items with equal keys stay in the order they came.\<close>

definition cob_file_sort_compare ::
  "sort_env \<Rightarrow> cob_accs \<Rightarrow> cobitem \<Rightarrow> cobitem \<Rightarrow> (int \<times> cob_accs \<times> cobitem \<times> cobitem) option" where
  "cob_file_sort_compare X N k1 k2 = do {
     (c, N, e1, e2) \<leftarrow> sort_compare (so_target X) (so_fp X) (so_module X) N (sort_collate (so_sort X))
       (sort_keys (so_sort X)) (ci_item k1) (ci_item k2);
     Some (if c \<noteq> 0 then c else if ci_unique k1 < ci_unique k2 then - 1 else 1,
       N, k1\<lparr>ci_item := e1\<rparr>, k2\<lparr>ci_item := e2\<rparr>) }"

section \<open>Merging the queues\<close>

text \<open>
  One block of each source queue goes to the destination. \<open>e0\<close> and \<open>e1\<close> say that the end of
  the block was met.
\<close>

definition next_queue ::
  "sort_env \<Rightarrow> cob_accs \<Rightarrow> bool \<Rightarrow> bool \<Rightarrow> cobitem list \<Rightarrow> cobitem list \<Rightarrow>
   (bool \<times> cob_accs \<times> cobitem list \<times> cobitem list) option" where
  "next_queue X N e0 e1 q0 q1 =
    (if e0 then Some (True, N, q0, q1)
     else if e1 then Some (False, N, q0, q1)
     else case (q0, q1) of
       (k0 # r0, k1 # r1) \<Rightarrow> do {
         (n, N, k0, k1) \<leftarrow> cob_file_sort_compare X N k0 k1;
         Some (\<not> n < 0, N, k0 # r0, k1 # r1) }
     | _ \<Rightarrow> None)"

partial_function (option) merge_block ::
  "sort_env \<Rightarrow> cob_accs \<Rightarrow> bool \<Rightarrow> bool \<Rightarrow> cobitem list \<Rightarrow> cobitem list \<Rightarrow>
   (cob_accs \<times> cobitem list \<times> cobitem list \<times> cobitem list) option" where
  "merge_block X N e0 e1 q0 q1 =
    (if e0 \<and> e1 then Some (N, [], q0, q1)
     else do {
       (m, N, q0, q1) \<leftarrow> next_queue X N e0 e1 q0 q1;
       case (if m then q1 else q0) of
         [] \<Rightarrow> None
       | q # r \<Rightarrow> do {
           (N, out, q0, q1) \<leftarrow> (if m then merge_block X N e0 (e1 \<or> end_of_block q) q0 r
             else merge_block X N (e0 \<or> end_of_block q) e1 r q1);
           Some (N, q\<lparr>end_of_block := False\<rparr> # out, q0, q1) } })"

definition mark_last :: "cobitem list \<Rightarrow> cobitem list" where
  "mark_last q = (if q = [] then [] else butlast q @ [(last q)\<lparr>end_of_block := True\<rparr>])"

text \<open>A pass: the merged blocks go to the two destination queues in turn.\<close>

partial_function (option) merge_pass ::
  "sort_env \<Rightarrow> cob_accs \<Rightarrow> cobitem list \<Rightarrow> cobitem list \<Rightarrow> (cob_accs \<times> cobitem list \<times> cobitem list) option" where
  "merge_pass X N q0 q1 =
    (if q0 = [] \<and> q1 = [] then Some (N, [], [])
     else do {
       (N, b, q0, q1) \<leftarrow> merge_block X N (q0 = []) (q1 = []) q0 q1;
       (N, d1, d0) \<leftarrow> merge_pass X N q0 q1;
       Some (N, mark_last b @ d0, d1) })"

text \<open>Passes until the second queue is empty; the result is the number of the queue that holds all items.\<close>

partial_function (option) queue_passes ::
  "sort_env \<Rightarrow> cob_accs \<Rightarrow> nat \<Rightarrow> cobitem list \<Rightarrow> cobitem list \<Rightarrow> (nat \<times> cob_accs \<times> cobitem list) option" where
  "queue_passes X N source q0 q1 =
    (if q1 = [] then Some (source, N, q0)
     else do {
       (N, d0, d1) \<leftarrow> merge_pass X N q0 q1;
       queue_passes X N (if source = 0 then 2 else 0) d0 d1 })"

definition cob_sort_queues :: "sort_env \<Rightarrow> cobsort \<Rightarrow> (nat \<times> cobsort) option" where
  "cob_sort_queues X S = do {
     (n, N, q) \<leftarrow> queue_passes X (s_accs S) 0 (s_queue S 0) (s_queue S 1);
     Some (n, S\<lparr>s_accs := N,
       s_queue := (if s_queue S 1 = [] then s_queue S else (\<lambda>_. [])(n := q))\<rparr>) }"

section \<open>Temporary files\<close>

definition cob_get_temp_file :: "sort_env \<Rightarrow> cobsort \<Rightarrow> nat \<Rightarrow> cobsort option" where
  "cob_get_temp_file X S n =
    (case s_file S n of
       None \<Rightarrow> if so_tmpfile X n then Some (put_file S n \<lparr>tf_data = [], tf_pos = 0, tf_count = 0\<rparr>) else None
     | Some t \<Rightarrow> Some (put_file S n (t\<lparr>tf_pos := 0, tf_count := 0\<rparr>)))"

definition tf_write :: "sort_env \<Rightarrow> temp_file \<Rightarrow> bytes \<Rightarrow> (bool \<times> temp_file)" where
  "tf_write X t bs =
    (let d = overwrite (tf_data t) (tf_pos t) bs in
     if so_room X (length d) then (True, t\<lparr>tf_data := d, tf_pos := tf_pos t + length bs\<rparr>) else (False, t))"

text \<open>The bytes of an item in a file: the byte 0, the number of the item, the record.\<close>

definition item_bytes :: "target \<Rightarrow> cobitem \<Rightarrow> bytes" where
  "item_bytes T q = 0 # host_bytes T size_bytes (int (ci_unique q)) @ ci_item q"

definition tf_rewind :: "cobsort \<Rightarrow> nat \<Rightarrow> cobsort option" where
  "tf_rewind S n = map_option (\<lambda>t. put_file S n (t\<lparr>tf_pos := 0\<rparr>)) (s_file S n)"

text \<open>
  Read what is next in file \<open>n\<close> into the item queue \<open>n\<close> starts with: a byte other than 0, or
  the end of the file, ends the block. The result says whether the file could be read.
\<close>

definition cob_read_item :: "sort_env \<Rightarrow> cobsort \<Rightarrow> nat \<Rightarrow> (bool \<times> cobsort) option" where
  "cob_read_item X S n = do {
     t \<leftarrow> s_file S n;
     case s_queue S n of
       [] \<Rightarrow> None
     | k # r \<Rightarrow>
       let d = drop (tf_pos t) (tf_data t) in
       if d = [] then Some (True, put_queue S n (k\<lparr>end_of_block := True\<rparr> # r))
       else if hd d \<noteq> 0 then
         Some (True, put_queue (put_file S n (t\<lparr>tf_pos := Suc (tf_pos t)\<rparr>)) n (k\<lparr>end_of_block := True\<rparr> # r))
       else
         let bs = take (s_size S + size_bytes) (tl d); k = k\<lparr>end_of_block := False\<rparr> in
         if length bs \<noteq> s_size S + size_bytes
         then Some (False, put_queue (put_file S n (t\<lparr>tf_pos := length (tf_data t)\<rparr>)) n (k # r))
         else Some (True, put_queue (put_file S n (t\<lparr>tf_pos := tf_pos t + 1 + length bs\<rparr>)) n
           (k\<lparr>ci_unique := nat (host_val (so_target X) (take size_bytes bs)), ci_item := drop size_bytes bs\<rparr> # r)) }"

text \<open>A block of the queue goes to the file and its items to the unused ones.\<close>

fun write_items :: "sort_env \<Rightarrow> temp_file \<Rightarrow> nat \<Rightarrow> cobitem list \<Rightarrow> bool \<times> temp_file \<times> nat \<times> cobitem list" where
  "write_items X t e [] = (True, t, e, [])"
| "write_items X t e (q # qs) =
    (case tf_write X t (item_bytes (so_target X) q) of
       (True, t) \<Rightarrow> write_items X t (Suc e) qs
     | (False, t) \<Rightarrow> (False, t, e, q # qs))"

definition cob_write_block :: "sort_env \<Rightarrow> cobsort \<Rightarrow> nat \<Rightarrow> (bool \<times> cobsort) option" where
  "cob_write_block X S n = do {
     t \<leftarrow> s_file S (destination_file S);
     let (ok, t, e, q) = write_items X t (s_empty S) (s_queue S n);
     let S = (put_queue S n q)\<lparr>s_empty := e\<rparr>;
     if \<not> ok then Some (False, put_file S (destination_file S) t)
     else let (ok, t) = tf_write X (t\<lparr>tf_count := Suc (tf_count t)\<rparr>) [1] in
       Some (ok, put_file S (destination_file S) t) }"


section \<open>Merging the files\<close>

text \<open>The first item of a queue is the item read last from its file.\<close>

definition current :: "cobsort \<Rightarrow> nat \<Rightarrow> cobitem option" where
  "current S n = (case s_queue S n of [] \<Rightarrow> None | k # _ \<Rightarrow> Some k)"

definition put_current :: "cobsort \<Rightarrow> nat \<Rightarrow> cobitem \<Rightarrow> cobsort" where
  "put_current S n k = put_queue S n (k # tl (s_queue S n))"

text \<open>Which of the two files goes first; none when both are at the end of a block.\<close>

definition next_file :: "sort_env \<Rightarrow> cobsort \<Rightarrow> nat \<Rightarrow> (nat option \<times> cobsort) option" where
  "next_file X S source = do {
     k0 \<leftarrow> current S source;
     k1 \<leftarrow> current S (source + 1);
     if end_of_block k0 then Some (if end_of_block k1 then None else Some (source + 1), S)
     else if end_of_block k1 then Some (Some source, S)
     else do {
       (res, N, k0, k1) \<leftarrow> cob_file_sort_compare X (s_accs S) k0 k1;
       Some (Some (if res < 0 then source else source + 1),
         put_current (put_current (S\<lparr>s_accs := N\<rparr>) source k0) (source + 1) k1) } }"

partial_function (option) merge_files :: "sort_env \<Rightarrow> nat \<Rightarrow> nat \<Rightarrow> cobsort \<Rightarrow> (bool \<times> cobsort) option" where
  "merge_files X source dest S = do {
     (m, S) \<leftarrow> next_file X S source;
     case m of
       None \<Rightarrow> Some (True, S)
     | Some n \<Rightarrow> do {
         k \<leftarrow> current S n;
         t \<leftarrow> s_file S dest;
         let (ok, t) = tf_write X t (item_bytes (so_target X) k);
         let S = put_file S dest t;
         if \<not> ok then Some (False, S)
         else do {
           (ok, S) \<leftarrow> cob_read_item X S n;
           if \<not> ok then Some (False, S) else merge_files X source dest S } } }"

text \<open>The block of each source file starts with its first item; a file without blocks counts as at the end.\<close>

definition start_block :: "sort_env \<Rightarrow> cobsort \<Rightarrow> nat \<Rightarrow> (bool \<times> cobsort) option" where
  "start_block X S source = do {
     (ok, S) \<leftarrow> cob_read_item X S source;
     if \<not> ok then Some (False, S)
     else do {
       t \<leftarrow> s_file S (source + 1);
       if tf_count t > 0 then cob_read_item X S (source + 1)
       else do {
         k \<leftarrow> current S (source + 1);
         Some (True, put_current S (source + 1) (k\<lparr>end_of_block := True\<rparr>)) } } }"

definition close_block :: "sort_env \<Rightarrow> cobsort \<Rightarrow> nat \<Rightarrow> (bool \<times> cobsort) option" where
  "close_block X S dest = do {
     t \<leftarrow> s_file S dest;
     let (ok, t) = tf_write X (t\<lparr>tf_count := Suc (tf_count t)\<rparr>) [1];
     Some (ok, put_file S dest t) }"

text \<open>The count of blocks is a \<open>size_t\<close>, which wraps when the file had none.\<close>

definition drop_block :: "cobsort \<Rightarrow> nat \<Rightarrow> cobsort option" where
  "drop_block S n = map_option (\<lambda>t. put_file S n (t\<lparr>tf_count := nat (u64 (int (tf_count t) - 1))\<rparr>)) (s_file S n)"

partial_function (option) file_blocks ::
  "sort_env \<Rightarrow> nat \<Rightarrow> nat \<Rightarrow> cobsort \<Rightarrow> (bool \<times> nat \<times> cobsort) option" where
  "file_blocks X source dest S = do {
     t \<leftarrow> s_file S source;
     if tf_count t = 0 then Some (True, dest, S)
     else do {
       (ok, S) \<leftarrow> start_block X S source;
       if \<not> ok then Some (False, dest, S)
       else do {
         (ok, S) \<leftarrow> merge_files X source dest S;
         if \<not> ok then Some (False, dest, S)
         else do {
           (ok, S) \<leftarrow> close_block X S dest;
           if \<not> ok then Some (False, dest, S)
           else do {
             S \<leftarrow> drop_block S source;
             S \<leftarrow> drop_block S (source + 1);
             file_blocks X source (if even dest then dest + 1 else dest - 1) S } } } } }"

definition clear_count :: "cobsort \<Rightarrow> nat \<Rightarrow> cobsort option" where
  "clear_count S n = map_option (\<lambda>t. put_file S n (t\<lparr>tf_count := 0\<rparr>)) (s_file S n)"

definition rewind_all :: "cobsort \<Rightarrow> cobsort option" where
  "rewind_all S = do { S \<leftarrow> tf_rewind S 0; S \<leftarrow> tf_rewind S 1; S \<leftarrow> tf_rewind S 2; tf_rewind S 3 }"

partial_function (option) file_passes :: "sort_env \<Rightarrow> nat \<Rightarrow> cobsort \<Rightarrow> (bool \<times> nat \<times> cobsort) option" where
  "file_passes X source S = do {
     t \<leftarrow> s_file S source;
     if tf_count t \<le> 1 then Some (True, source, S)
     else do {
       let dest = (if source = 0 then 2 else 0);
       S \<leftarrow> clear_count S dest;
       S \<leftarrow> clear_count S (dest + 1);
       (ok, d, S) \<leftarrow> file_blocks X source dest S;
       if \<not> ok then Some (False, source, S)
       else do {
         S \<leftarrow> rewind_all S;
         file_passes X (if d < 2 then 0 else 2) S } } }"

text \<open>Four unused items become the items read last from the four files.\<close>

definition take_empties :: "cobsort \<Rightarrow> cobsort option" where
  "take_empties S = (if s_empty S < 4 then None
     else Some (S\<lparr>s_empty := s_empty S - 4, s_queue := (\<lambda>n. if n < 4
       then [\<lparr>end_of_block = False, ci_unique = 0, ci_item = replicate (s_size S) 0\<rparr>] else s_queue S n)\<rparr>))"

definition cob_file_sort_process :: "sort_env \<Rightarrow> cobsort \<Rightarrow> sort_result" where
  "cob_file_sort_process X S = do {
     (n, S) \<leftarrow> cob_sort_queues X (S\<lparr>s_retrieving := True\<rparr>);
     if \<not> s_files_used S then Some (COBSORTOK, S\<lparr>retrieval_queue := n\<rparr>)
     else do {
       (ok, S) \<leftarrow> cob_write_block X S n;
       if \<not> ok then Some (COBSORTFILEERR, S)
       else do {
         S \<leftarrow> take_empties S;
         S \<leftarrow> tf_rewind S 0;
         S \<leftarrow> tf_rewind S 1;
         S \<leftarrow> cob_get_temp_file X S 2;
         S \<leftarrow> cob_get_temp_file X S 3;
         (ok, source, S) \<leftarrow> file_passes X 0 S;
         if \<not> ok then Some (COBSORTFILEERR, S)
         else do {
           (ok, S) \<leftarrow> cob_read_item X (S\<lparr>retrieval_queue := source\<rparr>) source;
           if \<not> ok then Some (COBSORTFILEERR, S)
           else do {
             (ok, S) \<leftarrow> cob_read_item X S (source + 1);
             Some (if ok then COBSORTOK else COBSORTFILEERR, S) } } } } }"

section \<open>Submitting and retrieving\<close>

text \<open>The memory is full: the sorted block goes to a file.\<close>

definition spill :: "sort_env \<Rightarrow> cobsort \<Rightarrow> (bool \<times> cobsort) option" where
  "spill X S = do {
     S \<leftarrow> (if s_files_used S then Some S
       else do {
         S \<leftarrow> cob_get_temp_file X S 0;
         S \<leftarrow> cob_get_temp_file X S 1;
         Some (S\<lparr>s_files_used := True, destination_file := 0\<rparr>) });
     (n, S) \<leftarrow> cob_sort_queues X S;
     (ok, S) \<leftarrow> cob_write_block X S n;
     Some (ok, if ok then S\<lparr>destination_file := (if destination_file S = 0 then 1 else 0)\<rparr> else S) }"

definition new_item :: "cobsort \<Rightarrow> bytes \<Rightarrow> cobsort" where
  "new_item S p =
    (let q = \<lparr>end_of_block = True, ci_unique = s_unique S, ci_item = p\<rparr>;
         n = (if length (s_queue S 0) \<le> length (s_queue S 1) then 0 else 1) in
     (put_queue S n (q # s_queue S n))
       \<lparr>s_empty := s_empty S - 1, s_unique := nat (u64 (int (s_unique S) + 1))\<rparr>)"

definition cob_file_sort_submit :: "sort_env \<Rightarrow> cobsort \<Rightarrow> bytes \<Rightarrow> sort_result" where
  "cob_file_sort_submit X S buf =
    (if s_retrieving S then Some (COBSORTABORT, S)
     else do {
       (ok, S) \<leftarrow> (if s_memory S \<le> length (s_queue S 0) + length (s_queue S 1) then spill X S else Some (True, S));
       if \<not> ok then Some (COBSORTFILEERR, S)
       else do {
         p \<leftarrow> rds buf 0 (s_size S);
         Some (COBSORTOK, new_item S p) } })"

text \<open>The record goes to the front of the record area.\<close>

definition cob_file_sort_retrieve ::
  "sort_env \<Rightarrow> cobsort \<Rightarrow> bytes \<Rightarrow> (sort_code \<times> cobsort \<times> bytes) option" where
  "cob_file_sort_retrieve X S buf = do {
     (res, S) \<leftarrow> (if s_retrieving S then Some (COBSORTOK, S) else cob_file_sort_process X S);
     if res \<noteq> COBSORTOK then Some (res, S, buf)
     else if s_files_used S then do {
       (m, S) \<leftarrow> next_file X S (retrieval_queue S);
       case m of
         None \<Rightarrow> Some (COBSORTEND, S, buf)
       | Some n \<Rightarrow> do {
           k \<leftarrow> current S n;
           buf \<leftarrow> wrs buf 0 (take (s_size S) (ci_item k));
           (ok, S) \<leftarrow> cob_read_item X S n;
           Some (if ok then COBSORTOK else COBSORTFILEERR, S, buf) } }
     else case s_queue S (retrieval_queue S) of
       [] \<Rightarrow> Some (COBSORTEND, S, buf)
     | k # r \<Rightarrow> do {
         buf \<leftarrow> wrs buf 0 (take (s_size S) (ci_item k));
         Some (COBSORTOK, (put_queue S (retrieval_queue S) r)\<lparr>s_empty := Suc (s_empty S)\<rparr>, buf) } }"

section \<open>The statements\<close>

text \<open>
  The sort file \<open>f\<close>, its work area \<open>hp\<close> (\<open>f->file\<close>) and the special register SORT-RETURN. The
  memory is a number of bytes, of which each item takes its size and \<open>item_head\<close>, the
  size of \<open>struct cobitem\<close>.
\<close>

abbreviation (input) item_head :: nat where "item_head \<equiv> 32"

record sort_work =
  hp :: "cobsort option"
  sort_return :: int
  sort_fnstatus :: "cob_field option"

definition new_sort :: "nat \<Rightarrow> nat \<Rightarrow> cob_accs \<Rightarrow> cobsort" where
  "new_sort mem sz N = \<lparr>s_empty = 0, s_unique = 0, s_retrieving = False, s_files_used = False, s_size = sz,
     s_memory = mem div (sz + item_head), destination_file = 0, retrieval_queue = 0,
     s_queue = (\<lambda>_. []), s_file = (\<lambda>_. None), s_accs = N\<rparr>"

definition cob_file_sort_init :: "nat \<Rightarrow> io_world \<Rightarrow> cob_file \<Rightarrow> cob_field option \<Rightarrow>
   (io_world \<times> cob_file \<times> sort_work) option" where
  "cob_file_sort_init mem W f fns = do {
     let S = new_sort mem (record_max f) (io_accs W);
     (W, f, fns) \<leftarrow> save_status COB_STATUS_00_SUCCESS W f fns;
     Some (W, f, \<lparr>hp = Some S, sort_return = 0, sort_fnstatus = fns\<rparr>) }"

definition cob_file_sort_init_key :: "sort_state \<Rightarrow> bool \<Rightarrow> cob_field \<Rightarrow> nat \<Rightarrow> sort_state" where
  "cob_file_sort_init_key S flag f off =
     S\<lparr>sort_keys := sort_keys S @ [\<lparr>sk_ascending = flag, sk_field = f, sk_offset = off\<rparr>]\<rparr>"

definition cob_file_sort_close :: "io_world \<Rightarrow> cob_file \<Rightarrow> sort_work \<Rightarrow> (io_world \<times> cob_file \<times> sort_work) option" where
  "cob_file_sort_close W f K = do {
     (W, f, fns) \<leftarrow> save_status COB_STATUS_00_SUCCESS W f (if hp K = None then None else sort_fnstatus K);
     Some (W, f, K\<lparr>hp := None, sort_fnstatus := (if hp K = None then sort_fnstatus K else fns)\<rparr>) }"

text \<open>A RELEASE and a RETURN: the answer of the work area as FILE STATUS.\<close>

definition sort_status :: "io_world \<Rightarrow> cob_file \<Rightarrow> sort_work \<Rightarrow> nat \<Rightarrow> (io_world \<times> cob_file \<times> sort_work) option" where
  "sort_status W f K st = do {
     let K = (if st = COB_STATUS_30_PERMANENT_ERROR \<and> hp K \<noteq> None then K\<lparr>sort_return := 16\<rparr> else K);
     (W, f, fns) \<leftarrow> save_status st W f (if hp K = None then None else sort_fnstatus K);
     Some (W, f, K\<lparr>sort_fnstatus := (if hp K = None then sort_fnstatus K else fns)\<rparr>) }"

definition cob_file_release :: "sort_env \<Rightarrow> io_world \<Rightarrow> cob_file \<Rightarrow> sort_work \<Rightarrow> (io_world \<times> cob_file \<times> sort_work) option" where
  "cob_file_release X W f K =
    (case hp K of
       None \<Rightarrow> sort_status W f K COB_STATUS_30_PERMANENT_ERROR
     | Some S \<Rightarrow> do {
         (res, S) \<leftarrow> cob_file_sort_submit X S (record_data f);
         sort_status W f (K\<lparr>hp := Some S\<rparr>)
           (if res = COBSORTOK then COB_STATUS_00_SUCCESS else COB_STATUS_30_PERMANENT_ERROR) })"

definition cob_file_return :: "sort_env \<Rightarrow> io_world \<Rightarrow> cob_file \<Rightarrow> sort_work \<Rightarrow> (io_world \<times> cob_file \<times> sort_work) option" where
  "cob_file_return X W f K =
    (case hp K of
       None \<Rightarrow> sort_status W f K COB_STATUS_30_PERMANENT_ERROR
     | Some S \<Rightarrow> do {
         (res, S, d) \<leftarrow> cob_file_sort_retrieve X S (record_data f);
         sort_status W (f\<lparr>record_data := d\<rparr>) (K\<lparr>hp := Some S\<rparr>)
           (if res = COBSORTOK then COB_STATUS_00_SUCCESS
            else if res = COBSORTEND then COB_STATUS_10_END_OF_FILE else COB_STATUS_30_PERMANENT_ERROR) })"


section \<open>USING and GIVING\<close>

text \<open>The record of one file goes to the record area of another.\<close>

definition cob_copy_check :: "cob_file \<Rightarrow> cob_file \<Rightarrow> cob_file option" where
  "cob_copy_check to from = do {
     bs \<leftarrow> rds (record_data from) 0 (min (record_len to) (record_len from));
     d \<leftarrow> wrs (record_data to) 0 (bs @ replicate (record_len to - record_len from) chr_space);
     Some (to\<lparr>record_data := d\<rparr>) }"

partial_function (option) using_loop ::
  "io_env \<Rightarrow> sort_env \<Rightarrow> io_world \<Rightarrow> cob_file \<Rightarrow> cobsort \<Rightarrow> cob_file \<Rightarrow> (io_world \<times> cob_file \<times> cobsort \<times> cob_file) option" where
  "using_loop E X W sf S g = do {
     (W, g, _) \<leftarrow> cob_read E W g False None 1;
     if fst (file_status g) \<noteq> chr_0 then Some (W, sf, S, g)
     else do {
       sf \<leftarrow> cob_copy_check sf g;
       (res, S) \<leftarrow> cob_file_sort_submit X S (record_data sf);
       if res \<noteq> COBSORTOK then Some (W, sf, S, g) else using_loop E X W sf S g } }"

definition cob_file_sort_using ::
  "io_env \<Rightarrow> sort_env \<Rightarrow> io_world \<Rightarrow> cob_file \<Rightarrow> cobsort \<Rightarrow> cob_file \<Rightarrow> (io_world \<times> cob_file \<times> cobsort \<times> cob_file) option" where
  "cob_file_sort_using E X W sf S g = do {
     (W, g, _) \<leftarrow> cob_open E W g COB_OPEN_INPUT False None;
     (W, sf, S, g) \<leftarrow> using_loop E X W sf S g;
     (W, g, _) \<leftarrow> cob_close W g COB_CLOSE_NORMAL None;
     Some (W, sf, S, g) }"

fun open_outputs :: "io_env \<Rightarrow> io_world \<Rightarrow> cob_file list \<Rightarrow> (io_world \<times> cob_file list) option" where
  "open_outputs E W [] = Some (W, [])"
| "open_outputs E W (g # gs) = do {
     (W, g, _) \<leftarrow> cob_open E W g COB_OPEN_OUTPUT False None;
     (W, gs) \<leftarrow> open_outputs E W gs;
     Some (W, g # gs) }"

fun write_outputs :: "io_env \<Rightarrow> io_world \<Rightarrow> cob_file \<Rightarrow> cob_file list \<Rightarrow> (io_world \<times> cob_file list) option" where
  "write_outputs E W sf [] = Some (W, [])"
| "write_outputs E W sf (g # gs) = do {
     let opt = (if special g \<noteq> 0 \<or> organization g = COB_ORG_LINE_SEQUENTIAL
       then COB_WRITE_BEFORE OR COB_WRITE_LINES OR 1 else 0);
     g \<leftarrow> cob_copy_check g sf;
     (W, g, _) \<leftarrow> cob_write E W g (record_len g) opt None;
     (W, gs) \<leftarrow> write_outputs E W sf gs;
     Some (W, g # gs) }"

fun close_outputs :: "io_world \<Rightarrow> cob_file list \<Rightarrow> (io_world \<times> cob_file list) option" where
  "close_outputs W [] = Some (W, [])"
| "close_outputs W (g # gs) = do {
     (W, g, _) \<leftarrow> cob_close W g COB_CLOSE_NORMAL None;
     (W, gs) \<leftarrow> close_outputs W gs;
     Some (W, g # gs) }"

partial_function (option) giving_loop ::
  "io_env \<Rightarrow> sort_env \<Rightarrow> io_world \<Rightarrow> cob_file \<Rightarrow> cobsort \<Rightarrow> int \<Rightarrow> cob_file list \<Rightarrow>
   (io_world \<times> cob_file \<times> cobsort \<times> int \<times> cob_file list) option" where
  "giving_loop E X W sf S ret gs = do {
     (res, S, d) \<leftarrow> cob_file_sort_retrieve X S (record_data sf);
     let sf = sf\<lparr>record_data := d\<rparr>;
     if res = COBSORTEND then Some (W, sf\<lparr>file_status := status_at_end\<rparr>, S, ret, gs)
     else if res \<noteq> COBSORTOK then Some (W, sf\<lparr>file_status := (0x33, chr_0)\<rparr>, S, 16, gs)
     else do {
       (W, gs) \<leftarrow> write_outputs E W sf gs;
       giving_loop E X W sf S ret gs } }"

definition cob_file_sort_giving ::
  "io_env \<Rightarrow> sort_env \<Rightarrow> io_world \<Rightarrow> cob_file \<Rightarrow> cobsort \<Rightarrow> int \<Rightarrow> cob_file list \<Rightarrow>
   (io_world \<times> cob_file \<times> cobsort \<times> int \<times> cob_file list) option" where
  "cob_file_sort_giving E X W sf S ret gs = do {
     (W, gs) \<leftarrow> open_outputs E W gs;
     (W, sf, S, ret, gs) \<leftarrow> giving_loop E X W sf S ret gs;
     (W, gs) \<leftarrow> close_outputs W gs;
     Some (W, sf, S, ret, gs) }"

end
