(* ===== verification/Cob_Sort_Merge.thy ===== *)
theory Cob_Sort_Merge
  imports Cob_Sort Cob_Relative
begin

text \<open>
  The merge of SORT: queues and temporary files as lists of blocks, a pass over them, and that
  passes end with the sorted list. The order of the items is the interface (a locale), whose
  instance is the order by the keys of the sort file and the number of the item.
\<close>

section \<open>Blocks\<close>

type_synonym numbered = "nat \<times> bytes"

definition item :: "bool \<Rightarrow> numbered \<Rightarrow> cobitem" where
  "item e p = \<lparr>end_of_block = e, ci_unique = fst p, ci_item = snd p\<rparr>"

definition pay :: "cobitem \<Rightarrow> numbered" where
  "pay k = (ci_unique k, ci_item k)"

fun block :: "numbered list \<Rightarrow> cobitem list" where
  "block [] = []"
| "block (x # xs) = item (xs = []) x # block xs"

definition blocked :: "numbered list list \<Rightarrow> cobitem list" where
  "blocked bs = concat (map block bs)"

lemma item_sel [simp]: "end_of_block (item e p) = e" "pay (item e p) = p" "ci_unique (item e p) = fst p"
  "ci_item (item e p) = snd p" "item e p\<lparr>end_of_block := e'\<rparr> = item e' p" "item (end_of_block k) (pay k) = k"
  by (simp_all add: item_def pay_def)

lemma block_eq_Nil [simp]: "block xs = [] \<longleftrightarrow> xs = []"
  by (cases xs) simp_all

lemma length_block [simp]: "length (block xs) = length xs"
  by (induction xs) simp_all

lemma pay_block [simp]: "map pay (block xs) = xs"
  by (induction xs) simp_all

lemma blocked_simps [simp]: "blocked [] = []" "blocked (b # bs) = block b @ blocked bs"
  by (simp_all add: blocked_def)

lemma mark_last_raw: "mark_last (map (item False) xs) = block xs"
proof (induction xs)
  case (Cons x xs)
  then show ?case by (cases "xs = []") (simp_all add: mark_last_def)
qed (simp add: mark_last_def)

text \<open>Single items are blocks of their own.\<close>

lemma blocked_singles: "blocked (map (\<lambda>p. [p]) xs) = map (item True) xs"
  by (induction xs) simp_all

section \<open>Merging lists\<close>

fun smerge :: "('a \<Rightarrow> 'a \<Rightarrow> bool) \<Rightarrow> 'a list \<Rightarrow> 'a list \<Rightarrow> 'a list" where
  "smerge lt [] ys = ys"
| "smerge lt (x # xs) [] = x # xs"
| "smerge lt (x # xs) (y # ys) = (if lt x y then x # smerge lt xs (y # ys) else y # smerge lt (x # xs) ys)"

lemma smerge_Nil [simp]: "smerge lt xs [] = xs"
  by (cases xs) simp_all

lemma mset_smerge [simp]: "mset (smerge lt xs ys) = mset xs + mset ys"
  by (induction lt xs ys rule: smerge.induct) simp_all

lemma set_smerge [simp]: "set (smerge lt xs ys) = set xs \<union> set ys"
  by (metis mset_smerge set_mset_mset set_mset_union)

lemma smerge_eq_Nil [simp]: "smerge lt xs ys = [] \<longleftrightarrow> xs = [] \<and> ys = []"
  by (metis length_0_conv add_is_0 mset_smerge size_mset size_union)

text \<open>The blocks of two sources merged pair by pair, and dealt to two destinations.\<close>

fun merged :: "('a \<Rightarrow> 'a \<Rightarrow> bool) \<Rightarrow> 'a list list \<Rightarrow> 'a list list \<Rightarrow> 'a list list" where
  "merged lt [] cs = cs"
| "merged lt (b # bs) [] = b # bs"
| "merged lt (b # bs) (c # cs) = smerge lt b c # merged lt bs cs"

fun deal :: "'a list \<Rightarrow> 'a list \<times> 'a list" where
  "deal [] = ([], [])"
| "deal (x # xs) = (x # snd (deal xs), fst (deal xs))"

lemma merged_Nil [simp]: "merged lt bs [] = bs"
  by (cases bs) simp_all

lemma mset_merged: "mset (concat (merged lt bs cs)) = mset (concat bs) + mset (concat cs)"
  by (induction lt bs cs rule: merged.induct) simp_all

lemma length_merged: "length (merged lt bs cs) = max (length bs) (length cs)"
  by (induction lt bs cs rule: merged.induct) simp_all

lemma mset_deal: "mset (concat (fst (deal bs))) + mset (concat (snd (deal bs))) = mset (concat bs)"
  by (induction bs) (simp_all add: add.commute)

lemma set_deal: "set (fst (deal bs)) \<union> set (snd (deal bs)) = set bs"
  by (induction bs) auto

lemma deal_balanced: "length (snd (deal bs)) \<le> length (fst (deal bs)) \<and> length (fst (deal bs)) \<le> Suc (length (snd (deal bs)))"
  by (induction bs) auto

lemma length_deal: "length (fst (deal bs)) + length (snd (deal bs)) = length bs"
  by (induction bs) auto

section \<open>The order of items\<close>

locale item_order =
  fixes X :: sort_env and A :: "numbered set" and lt :: "numbered \<Rightarrow> numbered \<Rightarrow> bool"
  assumes compare: "\<lbrakk>pay k1 \<in> A; pay k2 \<in> A; pay k1 \<noteq> pay k2\<rbrakk> \<Longrightarrow>
      \<exists>c N'. cob_file_sort_compare X N k1 k2 = Some (c, N', k1, k2) \<and> (c < 0 \<longleftrightarrow> lt (pay k1) (pay k2))"
    and lt_trans: "\<lbrakk>a \<in> A; b \<in> A; c \<in> A; lt a b; lt b c\<rbrakk> \<Longrightarrow> lt a c"
    and lt_total: "\<lbrakk>a \<in> A; b \<in> A; a \<noteq> b\<rbrakk> \<Longrightarrow> lt a b \<or> lt b a"
    and lt_irrefl: "a \<in> A \<Longrightarrow> \<not> lt a a"
begin

lemma sorted_smerge:
  "\<lbrakk>sorted_wrt lt xs; sorted_wrt lt ys; set xs \<subseteq> A; set ys \<subseteq> A; set xs \<inter> set ys = {}\<rbrakk> \<Longrightarrow> sorted_wrt lt (smerge lt xs ys)"
proof (induction "length xs + length ys" arbitrary: xs ys rule: less_induct)
  case less
  show ?case
  proof (cases "xs = [] \<or> ys = []")
    case False
    then obtain x xs' y ys' where l: "xs = x # xs'" "ys = y # ys'" by (meson list.exhaust)
    have t: "lt x y \<or> lt y x" using lt_total [of x y] less.prems l by auto
    have xy: "lt x z" if "lt x y" "z \<in> set ys'" for z
      using that less.prems l lt_trans [of x y z] by auto
    have yx: "lt y z" if "lt y x" "z \<in> set xs'" for z
      using that less.prems l lt_trans [of y x z] by auto
    have "sorted_wrt lt (smerge lt xs' ys)" "sorted_wrt lt (smerge lt xs ys')"
      using less.prems l by (intro less.hyps; auto)+
    then show ?thesis using less.prems(1,2) l t xy yx by auto
  qed (use less.prems in auto)
qed

text \<open>One block of each queue becomes one sorted block.\<close>

lemma compare_items:
  assumes "p \<in> A" "q \<in> A" "p \<noteq> q"
  obtains c N' where "cob_file_sort_compare X N (item d p) (item e q) = Some (c, N', item d p, item e q)" "c < 0 \<longleftrightarrow> lt p q"
  using compare [of "item d p" "item e q" N] assms by auto

lemma merge_block_blocks:
  assumes "set xs \<subseteq> A" "set ys \<subseteq> A" "set xs \<inter> set ys = {}"
  shows "\<exists>N'. merge_block X N (xs = []) (ys = []) (block xs @ r0) (block ys @ r1) =
    Some (N', map (item False) (smerge lt xs ys), r0, r1)"
  using assms
proof (induction "length xs + length ys" arbitrary: xs ys N rule: less_induct)
  case less
  show ?case
  proof (cases xs)
    case xs: Nil
    show ?thesis
    proof (cases ys)
      case Nil
      then show ?thesis using xs by (simp add: merge_block.simps)
    next
      case (Cons y ys')
      obtain N' where "merge_block X N True (ys' = []) r0 (block ys' @ r1) = Some (N', map (item False) ys', r0, r1)"
        using less.hyps [of "[]" ys' N] less.prems xs Cons by auto
      then show ?thesis using xs Cons by (subst merge_block.simps) (simp add: next_queue_def)
    qed
  next
    case xs: (Cons x xs')
    show ?thesis
    proof (cases ys)
      case Nil
      obtain N' where "merge_block X N (xs' = []) True (block xs' @ r0) r1 = Some (N', map (item False) xs', r0, r1)"
        using less.hyps [of xs' "[]" N] less.prems xs Nil by auto
      then show ?thesis using xs Nil by (subst merge_block.simps) (simp add: next_queue_def)
    next
      case (Cons y ys')
      obtain c N1 where c: "cob_file_sort_compare X N (item (xs' = []) x) (item (ys' = []) y) =
          Some (c, N1, item (xs' = []) x, item (ys' = []) y)" "c < 0 \<longleftrightarrow> lt x y"
        by (rule compare_items [of x y N "xs' = []" "ys' = []"]) (use less.prems xs Cons in auto)
      show ?thesis
      proof (cases "lt x y")
        case True
        obtain N' where "merge_block X N1 (xs' = []) False (block xs' @ r0) (block ys @ r1) =
            Some (N', map (item False) (smerge lt xs' ys), r0, r1)"
          using less.hyps [of xs' ys N1] less.prems xs Cons by auto
        then show ?thesis using xs Cons c True by (subst merge_block.simps) (simp add: next_queue_def)
      next
        case False
        obtain N' where "merge_block X N1 False (ys' = []) (block xs @ r0) (block ys' @ r1) =
            Some (N', map (item False) (smerge lt xs ys'), r0, r1)"
          using less.hyps [of xs ys' N1] less.prems xs Cons by auto
        then show ?thesis using xs Cons c False by (subst merge_block.simps) (simp add: next_queue_def)
      qed
    qed
  qed
qed

text \<open>Lists of blocks that a pass can take: sorted blocks of items of the order, none of them twice.\<close>

definition good :: "numbered list list \<Rightarrow> bool" where
  "good bs \<longleftrightarrow> set (concat bs) \<subseteq> A \<and> (\<forall>b\<in>set bs. b \<noteq> [] \<and> sorted_wrt lt b)"

lemma good_simps [simp]: "good []" "good (b # bs) \<longleftrightarrow> good bs \<and> set b \<subseteq> A \<and> b \<noteq> [] \<and> sorted_wrt lt b"
  by (auto simp: good_def)

lemma good_blocked: "good bs \<Longrightarrow> blocked bs = [] \<longleftrightarrow> bs = []"
  by (cases bs) auto

lemma good_merged:
  "\<lbrakk>good bs; good cs; set (concat bs) \<inter> set (concat cs) = {}\<rbrakk> \<Longrightarrow> good (merged lt bs cs)"
proof (induction bs arbitrary: cs)
  case (Cons b bs)
  show ?case
  proof (cases cs)
    case Nil
    then show ?thesis using Cons.prems by simp
  next
    case c: (Cons c cs')
    have "good (merged lt bs cs')" by (rule Cons.IH) (use Cons.prems c in auto)
    moreover have "sorted_wrt lt (smerge lt b c)" by (rule sorted_smerge) (use Cons.prems c in auto)
    ultimately show ?thesis using c Cons.prems by auto
  qed
qed simp

lemma good_deal: "good bs \<Longrightarrow> good (fst (deal bs)) \<and> good (snd (deal bs))"
  by (induction bs) auto

lemma merge_pass_blocks:
  assumes "good bs" "good cs" "set (concat bs) \<inter> set (concat cs) = {}"
  shows "\<exists>N'. merge_pass X N (blocked bs) (blocked cs) =
    Some (N', blocked (fst (deal (merged lt bs cs))), blocked (snd (deal (merged lt bs cs))))"
  using assms
proof (induction "length bs + length cs" arbitrary: bs cs N rule: less_induct)
  case less
  show ?case
  proof (cases "bs = [] \<and> cs = []")
    case True
    then show ?thesis by (simp add: merge_pass.simps)
  next
    case False
    define b where "b = (case bs of [] \<Rightarrow> [] | b # _ \<Rightarrow> b)"
    define c where "c = (case cs of [] \<Rightarrow> [] | c # _ \<Rightarrow> c)"
    have split: "blocked bs = block b @ blocked (tl bs)" "blocked cs = block c @ blocked (tl cs)"
      by (cases bs; cases cs; simp add: b_def c_def)+
    have e: "blocked bs = [] \<longleftrightarrow> b = []" "blocked cs = [] \<longleftrightarrow> c = []"
      using less.prems by (cases bs; cases cs; simp add: b_def c_def)+
    have m: "merged lt bs cs = smerge lt b c # merged lt (tl bs) (tl cs)"
      using False by (cases bs; cases cs; simp add: b_def c_def)
    have bc: "set b \<subseteq> A" "set c \<subseteq> A" "set b \<inter> set c = {}" "b \<noteq> [] \<or> c \<noteq> []"
      using less.prems False by (cases bs; cases cs; auto simp: b_def c_def)+
    have tls: "good (tl bs)" "good (tl cs)" "set (concat (tl bs)) \<inter> set (concat (tl cs)) = {}"
      "length (tl bs) + length (tl cs) < length bs + length cs"
      using less.prems False by (cases bs; cases cs; auto)+
    obtain N1 where 1: "merge_block X N (b = []) (c = []) (block b @ blocked (tl bs)) (block c @ blocked (tl cs)) =
        Some (N1, map (item False) (smerge lt b c), blocked (tl bs), blocked (tl cs))"
      using merge_block_blocks [OF bc(1-3)] by blast
    obtain N2 where 2: "merge_pass X N1 (blocked (tl bs)) (blocked (tl cs)) =
        Some (N2, blocked (fst (deal (merged lt (tl bs) (tl cs)))), blocked (snd (deal (merged lt (tl bs) (tl cs)))))"
      using less.hyps [OF tls(4,1,2,3)] by blast
    have "\<not> (block b @ blocked (tl bs) = [] \<and> block c @ blocked (tl cs) = [])" using bc(4) by auto
    then show ?thesis unfolding m unfolding split using 1 2 e [unfolded split] bc(4) mark_last_raw [of "smerge lt b c"]
      by (subst merge_pass.simps) auto
  qed
qed

text \<open>After a pass: the items are the same, each once, and there are fewer blocks.\<close>

lemma pass_result:
  fixes bs cs
  defines "d0 \<equiv> fst (deal (merged lt bs cs))" and "d1 \<equiv> snd (deal (merged lt bs cs))"
  assumes "good bs" "good cs" "distinct (concat bs @ concat cs)" "length cs \<le> length bs" "cs \<noteq> []"
  shows "good d0" "good d1" "distinct (concat d0 @ concat d1)" "mset (concat d0 @ concat d1) = mset (concat bs @ concat cs)"
    "length d1 \<le> length d0" "length d0 \<le> Suc (length d1)" "length d0 + length d1 = length bs"
proof -
  have disj: "set (concat bs) \<inter> set (concat cs) = {}" using assms(5) by simp
  show "good d0" "good d1"
    using good_deal [OF good_merged [OF assms(3,4) disj]] by (simp_all add: d0_def d1_def)
  show m: "mset (concat d0 @ concat d1) = mset (concat bs @ concat cs)"
    unfolding d0_def d1_def by (simp only: mset_append mset_deal mset_merged)
  show "distinct (concat d0 @ concat d1)"
    using mset_eq_imp_distinct_iff [OF m] assms(5) by simp
  show "length d1 \<le> length d0" "length d0 \<le> Suc (length d1)"
    using deal_balanced [of "merged lt bs cs"] by (simp_all add: d0_def d1_def)
  show "length d0 + length d1 = length bs"
    using assms(6) by (simp add: d0_def d1_def length_deal length_merged)
qed

lemma queue_passes_sort:
  assumes "good bs" "good cs" "distinct (concat bs @ concat cs)"
    and "length cs \<le> length bs" "length bs \<le> Suc (length cs)" "source = 0 \<or> source = 2"
  shows "\<exists>n N' ys. queue_passes X N source (blocked bs) (blocked cs) = Some (n, N', block ys) \<and> (n = 0 \<or> n = 2) \<and>
    sorted_wrt lt ys \<and> mset ys = mset (concat bs @ concat cs)"
  using assms
proof (induction "length bs + length cs" arbitrary: bs cs N source rule: less_induct)
  case less
  show ?case
  proof (cases "cs = []")
    case True
    then consider "bs = []" | b where "bs = [b]" using less.prems(5) by (cases bs) auto
    then show ?thesis
    proof cases
      case 1
      then show ?thesis using True less.prems(6) by (intro exI [of _ source] exI [of _ N] exI [of _ "[]"]) (simp add: queue_passes.simps)
    next
      case 2
      then show ?thesis using True less.prems
        by (intro exI [of _ source] exI [of _ N] exI [of _ b]) (simp add: queue_passes.simps)
    qed
  next
    case False
    let ?d0 = "fst (deal (merged lt bs cs))" and ?d1 = "snd (deal (merged lt bs cs))"
    note r = pass_result [OF less.prems(1-4) False]
    have "set (concat bs) \<inter> set (concat cs) = {}" using less.prems(3) by simp
    from merge_pass_blocks [OF less.prems(1,2) this] obtain N1
      where 1: "merge_pass X N (blocked bs) (blocked cs) = Some (N1, blocked ?d0, blocked ?d1)" by blast
    have "length ?d0 + length ?d1 < length bs + length cs" using r(7) False by simp
    moreover have "(if source = 0 then 2 else 0) = (0::nat) \<or> (if source = 0 then 2 else 0) = (2::nat)" by simp
    ultimately have "\<exists>n N' ys. queue_passes X N1 (if source = 0 then 2 else 0) (blocked ?d0) (blocked ?d1) = Some (n, N', block ys) \<and>
        (n = 0 \<or> n = 2) \<and> sorted_wrt lt ys \<and> mset ys = mset (concat ?d0 @ concat ?d1)"
      by (intro less.hyps r(1-3,5,6)) 
    then obtain n N' ys where
      "queue_passes X N1 (if source = 0 then 2 else 0) (blocked ?d0) (blocked ?d1) = Some (n, N', block ys)" "n = 0 \<or> n = 2"
      "sorted_wrt lt ys" "mset ys = mset (concat bs @ concat cs)"
      unfolding r(4) by blast
    moreover have "blocked cs \<noteq> []" using good_blocked [OF less.prems(2)] False by simp
    ultimately show ?thesis using 1 by (subst queue_passes.simps) auto
  qed
qed

end


section \<open>Files of blocks\<close>

definition enc :: "target \<Rightarrow> numbered \<Rightarrow> bytes" where
  "enc T p = 0 # host_bytes T size_bytes (int (fst p)) @ snd p"

definition encs :: "target \<Rightarrow> numbered list \<Rightarrow> bytes" where
  "encs T ps = concat (map (enc T) ps)"

definition encbs :: "target \<Rightarrow> numbered list list \<Rightarrow> bytes" where
  "encbs T bs = concat (map (\<lambda>b. encs T b @ [1]) bs)"

lemma enc_simps [simp]: "encs T [] = []" "encs T (p # ps) = enc T p @ encs T ps" "encs T (ps @ qs) = encs T ps @ encs T qs"
  "encbs T [] = []" "encbs T (b # bs) = encs T b @ 1 # encbs T bs" "encbs T (bs @ cs) = encbs T bs @ encbs T cs"
  by (simp_all add: encs_def encbs_def)

lemma item_bytes_item [simp]: "item_bytes T (item e p) = enc T p"
  by (simp add: item_bytes_def enc_def)

text \<open>
  File \<open>n\<close> in front of blocks; inside a block, of which the item read last and the rest are to
  come; and as the target of a pass, where \<open>D\<close> has been written. Behind what matters a file may
  hold what an earlier pass left.
\<close>

definition before :: "target \<Rightarrow> cobsort \<Rightarrow> nat \<Rightarrow> nat \<Rightarrow> numbered list list \<Rightarrow> bytes \<Rightarrow> bool" where
  "before T S n c bs J \<longleftrightarrow> (\<exists>t k. s_file S n = Some t \<and> s_queue S n = [k] \<and> tf_count t = c \<and>
     drop (tf_pos t) (tf_data t) = encbs T bs @ J)"

definition inside :: "target \<Rightarrow> cobsort \<Rightarrow> nat \<Rightarrow> nat \<Rightarrow> numbered list \<Rightarrow> bytes \<Rightarrow> bool" where
  "inside T S n c l J \<longleftrightarrow> (\<exists>t k. s_file S n = Some t \<and> s_queue S n = [k] \<and> tf_count t = c \<and>
     (case l of [] \<Rightarrow> end_of_block k \<and> drop (tf_pos t) (tf_data t) = J
      | x # xs \<Rightarrow> k = item False x \<and> drop (tf_pos t) (tf_data t) = encs T xs @ 1 # J))"

definition written :: "cobsort \<Rightarrow> nat \<Rightarrow> nat \<Rightarrow> bytes \<Rightarrow> bool" where
  "written S n c D \<longleftrightarrow> (\<exists>t k. s_file S n = Some t \<and> s_queue S n = [k] \<and> tf_count t = c \<and>
     tf_pos t = length D \<and> take (length D) (tf_data t) = D)"

text \<open>Only the files and queues in \<open>ns\<close> may differ, and the decimals.\<close>

definition same_but :: "nat set \<Rightarrow> cobsort \<Rightarrow> cobsort \<Rightarrow> bool" where
  "same_but ns S S' \<longleftrightarrow> (\<forall>n. n \<notin> ns \<longrightarrow> s_file S' n = s_file S n \<and> s_queue S' n = s_queue S n) \<and>
     s_size S' = s_size S \<and> s_files_used S' = s_files_used S \<and> s_retrieving S' = s_retrieving S \<and>
     retrieval_queue S' = retrieval_queue S"

lemma same_but_refl [simp]: "same_but ns S S"
  by (simp add: same_but_def)

lemma same_but_trans: "same_but ns S S' \<Longrightarrow> same_but ns S' S'' \<Longrightarrow> same_but ns S S''"
  by (simp add: same_but_def)

lemma same_but_mono: "same_but ms S S' \<Longrightarrow> ms \<subseteq> ns \<Longrightarrow> same_but ns S S'"
  by (auto simp: same_but_def)

lemma same_but_keeps:
  assumes "same_but ns S S'" "n \<notin> ns"
  shows "before T S' n c bs J = before T S n c bs J" "inside T S' n c l J = inside T S n c l J" "written S' n c D = written S n c D"
  using assms by (simp_all add: same_but_def before_def inside_def written_def)

lemma accs_keeps [simp]:
  "inside T (S\<lparr>s_accs := N\<rparr>) n c l J = inside T S n c l J" "written (S\<lparr>s_accs := N\<rparr>) n c D = written S n c D"
  "same_but ns (S\<lparr>s_accs := N\<rparr>) S' = same_but ns S S'" "same_but ns S' (S\<lparr>s_accs := N\<rparr>) = same_but ns S' S"
  by (simp_all add: inside_def written_def same_but_def)

lemma put_file_same_but: "n \<in> ns \<Longrightarrow> same_but ns S (put_file S n t)"
  by (simp add: same_but_def put_file_def)

lemma take_overwrite: "p \<le> length c \<Longrightarrow> take (p + length bs) (overwrite c p bs) = take p c @ bs"
  by (simp add: overwrite_def)

text \<open>The item that is current, and what the comparison puts back.\<close>

lemma inside_current: "inside T S n c (x # xs) J \<Longrightarrow> current S n = Some (item False x)"
  "inside T S n c [] J \<Longrightarrow> \<exists>k. current S n = Some k \<and> end_of_block k"
  by (auto simp: inside_def current_def)

lemma inside_end: "inside T S n c l J \<Longrightarrow> \<exists>k. current S n = Some k \<and> end_of_block k = (l = [])"
  by (cases l) (auto simp: inside_def current_def)

lemma put_current_same: "s_queue S n = [k] \<Longrightarrow> put_current S n k = S"
  by (simp add: put_current_def put_queue_def fun_upd_idem)

locale file_order = item_order +
  fixes sz :: nat
  assumes room: "so_room X n" and items: "p \<in> A \<Longrightarrow> length (snd p) = sz \<and> fst p < 2 ^ 64"
begin

abbreviation T :: target where "T \<equiv> so_target X"

lemma length_enc: "p \<in> A \<Longrightarrow> length (enc T p) = Suc (size_bytes + sz)"
  using items by (simp add: enc_def length_host_bytes)

lemma read_item:
  assumes "s_file S n = Some t" "s_queue S n = [k]" "drop (tf_pos t) (tf_data t) = enc T p @ R" "p \<in> A" "s_size S = sz"
  shows "\<exists>t'. cob_read_item X S n = Some (True, put_queue (put_file S n t') n [item False p]) \<and>
    tf_count t' = tf_count t \<and> drop (tf_pos t') (tf_data t') = R"
proof -
  let ?bs = "host_bytes T size_bytes (int (fst p)) @ snd p"
  have l: "length ?bs = sz + size_bytes" using items [OF assms(4)] by (simp add: length_host_bytes)
  have d: "drop (tf_pos t) (tf_data t) = 0 # ?bs @ R" using assms(3) by (simp add: enc_def)
  then have "drop (Suc (tf_pos t)) (tf_data t) = ?bs @ R"
    by (metis drop_Suc tl_drop list.sel(3))
  then have R: "drop (tf_pos t + 1 + length ?bs) (tf_data t) = R"
    using l by (metis add.commute append_eq_conv_conj drop_drop plus_1_eq_Suc)
  have "take (sz + size_bytes) (tl (drop (tf_pos t) (tf_data t))) = ?bs" using l d by simp
  moreover have "take size_bytes ?bs = host_bytes T size_bytes (int (fst p))" "drop size_bytes ?bs = snd p"
    by (simp_all add: length_host_bytes)
  moreover have "nat (host_val T (host_bytes T size_bytes (int (fst p)))) = fst p"
    using host_val_size [of "fst p" T] items [OF assms(4)] by simp
  moreover have "tf_pos t < length (tf_data t)" using d by (cases "tf_pos t < length (tf_data t)") simp_all
  ultimately show ?thesis using assms(1,2,5) d l R
    by (intro exI [of _ "t\<lparr>tf_pos := tf_pos t + 1 + length ?bs\<rparr>"])
      (cases k; simp add: cob_read_item_def Let_def item_def)
qed

lemma read_end:
  assumes "s_file S n = Some t" "s_queue S n = [k]" "drop (tf_pos t) (tf_data t) = 1 # R"
  shows "\<exists>t'. cob_read_item X S n = Some (True, put_queue (put_file S n t') n [k\<lparr>end_of_block := True\<rparr>]) \<and>
    tf_count t' = tf_count t \<and> drop (tf_pos t') (tf_data t') = R"
proof -
  have "drop (Suc (tf_pos t)) (tf_data t) = R" using assms(3) by (metis drop_Suc tl_drop list.sel(3))
  moreover have "tf_pos t < length (tf_data t)" using assms(3) by (cases "tf_pos t < length (tf_data t)") simp_all
  ultimately show ?thesis using assms
    by (intro exI [of _ "t\<lparr>tf_pos := Suc (tf_pos t)\<rparr>"]) (simp add: cob_read_item_def Let_def)
qed

text \<open>What follows the current item becomes current.\<close>

lemma read_next:
  assumes "s_file S n = Some t" "s_queue S n = [k]" "drop (tf_pos t) (tf_data t) = encs T xs @ 1 # J" "set xs \<subseteq> A" "s_size S = sz"
  obtains S' where "cob_read_item X S n = Some (True, S')" "inside T S' n (tf_count t) xs J" "same_but {n} S S'"
proof (cases xs)
  case Nil
  then obtain t' where "cob_read_item X S n = Some (True, put_queue (put_file S n t') n [k\<lparr>end_of_block := True\<rparr>])"
    "tf_count t' = tf_count t" "drop (tf_pos t') (tf_data t') = J"
    using read_end [OF assms(1,2), of J] assms(3) by auto
  then show ?thesis using Nil by (intro that) (auto simp: inside_def same_but_def put_queue_def put_file_def)
next
  case (Cons x xs')
  then obtain t' where "cob_read_item X S n = Some (True, put_queue (put_file S n t') n [item False x])"
    "tf_count t' = tf_count t" "drop (tf_pos t') (tf_data t') = encs T xs' @ 1 # J"
    using read_item [OF assms(1,2), of x "encs T xs' @ 1 # J"] assms(3,4,5) by auto
  then show ?thesis using Cons by (intro that) (auto simp: inside_def same_but_def put_queue_def put_file_def)
qed

lemma write_bytes:
  assumes "written S n c D"
  obtains t t' where "s_file S n = Some t" "tf_count t = c" "tf_write X t bs = (True, t')" "written (put_file S n t') n c (D @ bs)"
proof -
  obtain t k where t: "s_file S n = Some t" "s_queue S n = [k]" "tf_count t = c" "tf_pos t = length D" "take (length D) (tf_data t) = D"
    using assms by (auto simp: written_def)
  have "length (take (length D) (tf_data t)) = length D" using t(5) by simp
  then have "length D \<le> length (tf_data t)" unfolding length_take by linarith
  then have "take (length D + length bs) (overwrite (tf_data t) (length D) bs) = D @ bs"
    using t(5) take_overwrite by metis
  then have "written (put_file S n (t\<lparr>tf_data := overwrite (tf_data t) (tf_pos t) bs, tf_pos := tf_pos t + length bs\<rparr>)) n c (D @ bs)"
    using t by (simp add: written_def put_file_def)
  then show ?thesis using t(1,3) room
    by (intro that [of t "t\<lparr>tf_data := overwrite (tf_data t) (tf_pos t) bs, tf_pos := tf_pos t + length bs\<rparr>"])
      (simp_all add: tf_write_def Let_def)
qed


text \<open>The choice between the two files.\<close>

definition choice :: "nat \<Rightarrow> numbered list \<Rightarrow> numbered list \<Rightarrow> nat option" where
  "choice src l0 l1 = (case (l0, l1) of
     ([], []) \<Rightarrow> None
   | ([], _) \<Rightarrow> Some (Suc src)
   | (_, []) \<Rightarrow> Some src
   | (x # _, y # _) \<Rightarrow> Some (if lt x y then src else Suc src))"

lemma next_file_choice:
  assumes "inside T S src c0 l0 J0" "inside T S (Suc src) c1 l1 J1" "set l0 \<subseteq> A" "set l1 \<subseteq> A" "set l0 \<inter> set l1 = {}"
  shows "\<exists>N. next_file X S src = Some (choice src l0 l1, S\<lparr>s_accs := N\<rparr>)"
proof -
  have same: "S\<lparr>s_accs := s_accs S\<rparr> = S" by simp
  obtain k0 k1 where k: "current S src = Some k0" "current S (Suc src) = Some k1"
    "end_of_block k0 = (l0 = [])" "end_of_block k1 = (l1 = [])"
    using inside_end [OF assms(1)] inside_end [OF assms(2)] by blast
  show ?thesis
  proof (cases "l0 = [] \<or> l1 = []")
    case True
    then have "next_file X S src = Some (choice src l0 l1, S)"
      using k by (cases l0; cases l1) (simp_all add: next_file_def choice_def)
    then show ?thesis using same by metis
  next
    case False
    then obtain x xs y ys where l0: "l0 = x # xs" and l1: "l1 = y # ys" by (meson list.exhaust)
    obtain c N where c: "cob_file_sort_compare X (s_accs S) (item False x) (item False y) = Some (c, N, item False x, item False y)"
      "c < 0 \<longleftrightarrow> lt x y"
      by (rule compare_items [of x y "s_accs S" False False]) (use assms(3,4,5) l0 l1 in auto)
    have q: "s_queue (S\<lparr>s_accs := N\<rparr>) src = [item False x]" "s_queue (S\<lparr>s_accs := N\<rparr>) (Suc src) = [item False y]"
      using assms(1,2) l0 l1 by (auto simp: inside_def)
    show ?thesis
      using inside_current(1) [OF assms(1) [unfolded l0]] inside_current(1) [OF assms(2) [unfolded l1]] c l0 l1
        put_current_same [OF q(1)] put_current_same [OF q(2)]
      by (intro exI [of _ N]) (simp add: next_file_def choice_def)
  qed
qed

lemma copy_item:
  assumes "inside T S n c (x # xs) J" "written S d cd D" "n \<noteq> d" "s_size S = sz" "set xs \<subseteq> A"
  obtains t t' S' where "current S n = Some (item False x)" "s_file S d = Some t" "tf_write X t (enc T x) = (True, t')"
    "cob_read_item X (put_file S d t') n = Some (True, S')" "inside T S' n c xs J" "written S' d cd (D @ enc T x)"
    "same_but {n, d} S S'"
proof -
  obtain t t' where w: "s_file S d = Some t" "tf_count t = cd" "tf_write X t (enc T x) = (True, t')"
    "written (put_file S d t') d cd (D @ enc T x)"
    by (rule write_bytes [OF assms(2)])
  obtain u k where u: "s_file (put_file S d t') n = Some u" "s_queue (put_file S d t') n = [k]" "tf_count u = c"
    "drop (tf_pos u) (tf_data u) = encs T xs @ 1 # J"
    using assms(1,3) by (auto simp: inside_def put_file_def)
  have "s_size (put_file S d t') = sz" using assms(4) by (simp add: put_file_def)
  from read_next [OF u(1,2,4) assms(5) this] obtain S' where r: "cob_read_item X (put_file S d t') n = Some (True, S')"
    "inside T S' n c xs J" "same_but {n} (put_file S d t') S'" using u(3) by auto
  have "same_but {n, d} S S'"
    using same_but_trans [OF put_file_same_but [of d "{n, d}" S t'] same_but_mono [OF r(3)]] by simp
  moreover have "written S' d cd (D @ enc T x)" using same_but_keeps(3) [OF r(3)] w(4) assms(3) by simp
  ultimately show ?thesis using that inside_current(1) [OF assms(1)] w(1,3) r(1,2) by blast
qed

lemma merge_files_block:
  assumes "inside T S src c0 l0 J0" "inside T S (Suc src) c1 l1 J1" "written S d cd D" "d \<notin> {src, Suc src}" "s_size S = sz"
    "set l0 \<subseteq> A" "set l1 \<subseteq> A" "set l0 \<inter> set l1 = {}"
  shows "\<exists>S'. merge_files X src d S = Some (True, S') \<and> inside T S' src c0 [] J0 \<and> inside T S' (Suc src) c1 [] J1 \<and>
    written S' d cd (D @ encs T (smerge lt l0 l1)) \<and> same_but {src, Suc src, d} S S'"
  using assms
proof (induction "length l0 + length l1" arbitrary: S l0 l1 D rule: less_induct)
  case less
  obtain N where c: "next_file X S src = Some (choice src l0 l1, S\<lparr>s_accs := N\<rparr>)"
    using next_file_choice [OF less.prems(1,2,6,7,8)] by blast
  let ?S = "S\<lparr>s_accs := N\<rparr>"
  have step: "\<exists>S'. merge_files X src d S = Some (True, S') \<and> inside T S' src c0 [] J0 \<and> inside T S' (Suc src) c1 [] J1 \<and>
      written S' d cd (D @ encs T (smerge lt l0 l1)) \<and> same_but {src, Suc src, d} S S'"
    if n: "choice src l0 l1 = Some n" "n = src \<or> n = Suc src" "inside T S n cn (x # xs) J" "set xs \<subseteq> A"
      and rest: "\<And>S'. inside T S' n cn xs J \<Longrightarrow> same_but {n, d} S S' \<Longrightarrow> inside T S' src c0 m0 J0 \<and> inside T S' (Suc src) c1 m1 J1"
      and m: "length m0 + length m1 < length l0 + length l1" "set m0 \<subseteq> A" "set m1 \<subseteq> A" "set m0 \<inter> set m1 = {}"
        "smerge lt l0 l1 = x # smerge lt m0 m1" for n cn x xs J m0 m1
  proof -
    have nd: "n \<noteq> d" using n(2) less.prems(4) by auto
    have h: "inside T ?S n cn (x # xs) J" "written ?S d cd D" "s_size ?S = sz" using n(3) less.prems(3,5) by simp_all
    obtain t t' S1 where s: "current ?S n = Some (item False x)" "s_file ?S d = Some t" "tf_write X t (enc T x) = (True, t')"
      "cob_read_item X (put_file ?S d t') n = Some (True, S1)" "inside T S1 n cn xs J" "written S1 d cd (D @ enc T x)"
      "same_but {n, d} ?S S1"
      by (rule copy_item [OF h(1,2) nd h(3) n(4)])
    have sb: "same_but {n, d} S S1" "s_size S1 = sz" using s(7) less.prems(5) by (simp_all add: same_but_def)
    from less.hyps [OF m(1) _ _ s(6) less.prems(4) sb(2) m(2,3,4)] rest [OF s(5) sb(1)] obtain S' where
      r: "merge_files X src d S1 = Some (True, S')" "inside T S' src c0 [] J0" "inside T S' (Suc src) c1 [] J1"
        "written S' d cd ((D @ enc T x) @ encs T (smerge lt m0 m1))" "same_but {src, Suc src, d} S1 S'" by blast
    have "same_but {src, Suc src, d} S S1" by (rule same_but_mono [OF sb(1)]) (use n(2) in auto)
    from same_but_trans [OF this r(5)] have "same_but {src, Suc src, d} S S'" .
    then show ?thesis using c n(1) s(1-4) r m(5) by (subst merge_files.simps) simp
  qed
  show ?case
  proof (cases l0)
    case l0: Nil
    show ?thesis
    proof (cases l1)
      case Nil
      then show ?thesis using c less.prems(1-3) l0
        by (subst merge_files.simps) (simp add: choice_def)
    next
      case (Cons y ys)
      show ?thesis
        by (rule step [of "Suc src" c1 y ys J1 "[]" ys])
          (use less.prems l0 Cons same_but_keeps in \<open>auto simp: choice_def\<close>)
    qed
  next
    case l0: (Cons x xs)
    show ?thesis
    proof (cases l1)
      case Nil
      show ?thesis
        by (rule step [of src c0 x xs J0 xs "[]"])
          (use less.prems l0 Nil same_but_keeps in \<open>auto simp: choice_def\<close>)
    next
      case (Cons y ys)
      show ?thesis
      proof (cases "lt x y")
        case True
        show ?thesis
          by (rule step [of src c0 x xs J0 xs l1])
            (use less.prems l0 Cons True same_but_keeps in \<open>auto simp: choice_def\<close>)
      next
        case False
        show ?thesis
          by (rule step [of "Suc src" c1 y ys J1 l0 ys])
            (use less.prems l0 Cons False same_but_keeps in \<open>auto simp: choice_def\<close>)
      qed
    qed
  qed
qed


section \<open>A pass over the files\<close>

definition first :: "numbered list list \<Rightarrow> numbered list" where
  "first bs = (case bs of [] \<Rightarrow> [] | b # _ \<Rightarrow> b)"

lemma first_simps [simp]: "first [] = []" "first (b # bs) = b"
  by (simp_all add: first_def)

lemma before_inside:
  assumes "before T S n c (b # bs) J" "set b \<subseteq> A" "s_size S = sz"
  obtains S' where "cob_read_item X S n = Some (True, S')" "inside T S' n c b (encbs T bs @ J)" "same_but {n} S S'"
proof -
  obtain t k where t: "s_file S n = Some t" "s_queue S n = [k]" "tf_count t = c"
    "drop (tf_pos t) (tf_data t) = encs T b @ 1 # (encbs T bs @ J)"
    using assms(1) by (auto simp: before_def)
  show ?thesis by (rule read_next [OF t(1,2,4) assms(2,3)]) (use t(3) that in blast)
qed

lemma start_block_files:
  assumes "before T S src c (b # bs) J" "before T S (Suc src) (length cs) cs J1" "set b \<subseteq> A" "set (concat cs) \<subseteq> A" "s_size S = sz"
  obtains S' where "start_block X S src = Some (True, S')" "inside T S' src c b (encbs T bs @ J)"
    "inside T S' (Suc src) (length cs) (first cs) (encbs T (tl cs) @ J1)" "same_but {src, Suc src} S S'"
proof -
  obtain S1 where s1: "cob_read_item X S src = Some (True, S1)" "inside T S1 src c b (encbs T bs @ J)" "same_but {src} S S1"
    by (rule before_inside [OF assms(1,3,5)])
  have b1: "before T S1 (Suc src) (length cs) cs J1" "s_size S1 = sz"
    using same_but_keeps(1) [OF s1(3), of "Suc src"] assms(2,5) s1(3) by (simp_all add: same_but_def)
  obtain t k where t: "s_file S1 (Suc src) = Some t" "s_queue S1 (Suc src) = [k]" "tf_count t = length cs"
    using b1(1) by (auto simp: before_def)
  have sb: "same_but {src, Suc src} S S1" by (rule same_but_mono [OF s1(3)]) auto
  show ?thesis
  proof (cases cs)
    case Nil
    let ?S = "put_current S1 (Suc src) (k\<lparr>end_of_block := True\<rparr>)"
    have "inside T ?S (Suc src) (length cs) (first cs) (encbs T (tl cs) @ J1)" "inside T ?S src c b (encbs T bs @ J)"
      "same_but {src, Suc src} S1 ?S"
      using b1(1) s1(2) Nil by (auto simp: before_def inside_def put_current_def put_queue_def same_but_def)
    then show ?thesis using that [of ?S] s1(1) t Nil same_but_trans [OF sb] by (simp add: start_block_def current_def)
  next
    case (Cons x xs)
    obtain S2 where s2: "cob_read_item X S1 (Suc src) = Some (True, S2)"
      "inside T S2 (Suc src) (length cs) x (encbs T xs @ J1)" "same_but {Suc src} S1 S2"
      by (rule before_inside [OF b1(1) [unfolded Cons]]) (use assms(4) b1(2) Cons in auto)
    have "inside T S2 src c b (encbs T bs @ J)" using same_but_keeps(2) [OF s2(3), of src] s1(2) by simp
    moreover have "same_but {src, Suc src} S S2" by (rule same_but_trans [OF sb same_but_mono [OF s2(3)]]) auto
    ultimately show ?thesis using that [of S2] s1(1) s2(1,2) t Cons by (simp add: start_block_def)
  qed
qed

lemma close_block_written:
  assumes "written S d cd D"
  obtains S' where "close_block X S d = Some (True, S')" "written S' d (Suc cd) (D @ [1])" "same_but {d} S S'"
proof -
  obtain t where t: "s_file S d = Some t" "tf_count t = cd" using assms by (auto simp: written_def)
  let ?t = "t\<lparr>tf_count := Suc cd\<rparr>"
  have w: "written (put_file S d ?t) d (Suc cd) D" using assms t by (auto simp: written_def put_file_def)
  obtain u t' where u: "s_file (put_file S d ?t) d = Some u" "tf_write X u [1] = (True, t')"
    "written (put_file (put_file S d ?t) d t') d (Suc cd) (D @ [1])"
    by (rule write_bytes [OF w]) 
  moreover have "put_file (put_file S d ?t) d t' = put_file S d t'" "u = ?t" using u(1) by (simp_all add: put_file_def)
  ultimately show ?thesis using that [of "put_file S d t'"] t put_file_same_but [of d "{d}" S t']
    by (simp add: close_block_def)
qed

lemma drop_block_before:
  assumes "inside T S n c [] (encbs T bs @ J)"
  obtains S' where "drop_block S n = Some S'" "before T S' n (nat (u64 (int c - 1))) bs J" "same_but {n} S S'"
proof -
  obtain t k where t: "s_file S n = Some t" "s_queue S n = [k]" "tf_count t = c" "drop (tf_pos t) (tf_data t) = encbs T bs @ J"
    using assms by (auto simp: inside_def)
  show ?thesis
    by (rule that [of "put_file S n (t\<lparr>tf_count := nat (u64 (int c - 1))\<rparr>)"])
      (use t in \<open>simp_all add: drop_block_def before_def put_file_def same_but_def\<close>)
qed

definition partner :: "nat \<Rightarrow> nat" where
  "partner d = (if even d then d + 1 else d - 1)"

lemma partner_partner [simp]: "partner (partner d) = d" "partner d \<noteq> d"
  by (auto simp: partner_def elim: oddE)

text \<open>One merged block; what is left of the sources, and the destination.\<close>

lemma one_block:
  assumes "before T S src (Suc n) (b # bs) J0" "before T S (Suc src) (length cs) cs J1" "written S d cd D" "d \<notin> {src, Suc src}"
    "s_size S = sz" "Suc n < 2 ^ 64" "set b \<subseteq> A" "set (concat cs) \<subseteq> A" "set b \<inter> set (concat cs) = {}"
  obtains S1 S2 S3 S4 S5 where "start_block X S src = Some (True, S1)" "merge_files X src d S1 = Some (True, S2)"
    "close_block X S2 d = Some (True, S3)" "drop_block S3 src = Some S4" "drop_block S4 (Suc src) = Some S5"
    "before T S5 src n bs J0" "before T S5 (Suc src) (nat (u64 (int (length cs) - 1))) (tl cs) J1"
    "written S5 d (Suc cd) (D @ encbs T [smerge lt b (first cs)])" "same_but {src, Suc src, d} S S5"
proof -
  let ?ns = "{src, Suc src, d}" and ?k = "nat (u64 (int (length cs) - 1))"
  have fc: "set (first cs) \<subseteq> A" "set b \<inter> set (first cs) = {}" using assms(8,9) by (cases cs; auto)+
  obtain S1 where s1: "start_block X S src = Some (True, S1)" "inside T S1 src (Suc n) b (encbs T bs @ J0)"
    "inside T S1 (Suc src) (length cs) (first cs) (encbs T (tl cs) @ J1)" "same_but {src, Suc src} S S1"
    by (rule start_block_files [OF assms(1,2,7,8,5)])
  have w1: "written S1 d cd D" "s_size S1 = sz"
    using same_but_keeps(3) [OF s1(4) assms(4)] assms(3,5) s1(4) by (simp_all add: same_but_def)
  obtain S2 where s2: "merge_files X src d S1 = Some (True, S2)" "inside T S2 src (Suc n) [] (encbs T bs @ J0)"
    "inside T S2 (Suc src) (length cs) [] (encbs T (tl cs) @ J1)" "written S2 d cd (D @ encs T (smerge lt b (first cs)))"
    "same_but ?ns S1 S2"
    using merge_files_block [OF s1(2,3) w1(1) assms(4) w1(2) assms(7) fc] by blast
  obtain S3 where s3: "close_block X S2 d = Some (True, S3)" "written S3 d (Suc cd) ((D @ encs T (smerge lt b (first cs))) @ [1])"
    "same_but {d} S2 S3"
    by (rule close_block_written [OF s2(4)])
  have d: "d \<noteq> src" "d \<noteq> Suc src" using assms(4) by auto
  have i3: "inside T S3 src (Suc n) [] (encbs T bs @ J0)" "inside T S3 (Suc src) (length cs) [] (encbs T (tl cs) @ J1)"
    using same_but_keeps(2) [OF s3(3)] s2(2,3) d by simp_all
  obtain S4 where s4: "drop_block S3 src = Some S4" "before T S4 src (nat (u64 (int (Suc n) - 1))) bs J0" "same_but {src} S3 S4"
    by (rule drop_block_before [OF i3(1)])
  have i4: "inside T S4 (Suc src) (length cs) [] (encbs T (tl cs) @ J1)" using same_but_keeps(2) [OF s4(3)] i3(2) by simp
  obtain S5 where s5: "drop_block S4 (Suc src) = Some S5" "before T S5 (Suc src) ?k (tl cs) J1" "same_but {Suc src} S4 S5"
    by (rule drop_block_before [OF i4])
  have "nat (u64 (int (Suc n) - 1)) = n" using assms(6) by (simp add: u64_id)
  then have "before T S5 src n bs J0" using same_but_keeps(1) [OF s5(3), of src] s4(2) by simp
  moreover have "written S5 d (Suc cd) (D @ encbs T [smerge lt b (first cs)])"
    using same_but_keeps(3) [OF s5(3), of d] same_but_keeps(3) [OF s4(3), of d] s3(2) d by simp
  moreover have "same_but ?ns S S1" "same_but ?ns S2 S3" "same_but ?ns S3 S4" "same_but ?ns S4 S5"
    by (rule same_but_mono [OF s1(4)] same_but_mono [OF s3(3)] same_but_mono [OF s4(3)] same_but_mono [OF s5(3)]; auto)+
  then have "same_but ?ns S S5" using s2(5) same_but_trans by metis
  ultimately show ?thesis using that s1(1) s2(1) s3(1) s4(1) s5(1,2) by blast
qed

lemma file_blocks_pass:
  assumes "before T S src (length bs) bs J0" "before T S (Suc src) c cs J1" "bs \<noteq> [] \<longrightarrow> c = length cs"
    "written S d cd D" "written S (partner d) cd' D'" "d \<notin> {src, Suc src}" "partner d \<notin> {src, Suc src}" "s_size S = sz"
    "length bs < 2 ^ 64" "length cs \<le> length bs" "length bs \<le> Suc (length cs)"
    "good bs" "good cs" "distinct (concat bs @ concat cs)"
  shows "\<exists>S' e c' . file_blocks X src d S = Some (True, e, S') \<and> e \<in> {d, partner d} \<and> before T S' src 0 [] J0 \<and>
    before T S' (Suc src) c' [] J1 \<and>
    written S' d (cd + length (fst (deal (merged lt bs cs)))) (D @ encbs T (fst (deal (merged lt bs cs)))) \<and>
    written S' (partner d) (cd' + length (snd (deal (merged lt bs cs)))) (D' @ encbs T (snd (deal (merged lt bs cs)))) \<and>
    same_but {src, Suc src, d, partner d} S S'"
  using assms
proof (induction bs arbitrary: S c cs d cd D cd' D')
  case Nil
  then have "file_blocks X src d S = Some (True, d, S)" by (subst file_blocks.simps) (auto simp: before_def)
  then show ?case using Nil.prems by (auto intro!: exI [of _ S] exI [of _ c])
next
  case (Cons b bs)
  have dis: "set b \<subseteq> A" "set (concat cs) \<subseteq> A" "set b \<inter> set (concat cs) = {}"
    using Cons.prems(12,13,14) by (auto simp: good_def)
  have c: "c = length cs" and len: "Suc (length bs) < 2 ^ 64" using Cons.prems(3,9) by simp_all
  have bf: "before T S src (Suc (length bs)) (b # bs) J0" using Cons.prems(1) by simp
  obtain S1 S2 S3 S4 S5 where s: "start_block X S src = Some (True, S1)" "merge_files X src d S1 = Some (True, S2)"
    "close_block X S2 d = Some (True, S3)" "drop_block S3 src = Some S4" "drop_block S4 (Suc src) = Some S5"
    "before T S5 src (length bs) bs J0" "before T S5 (Suc src) (nat (u64 (int (length cs) - 1))) (tl cs) J1"
    "written S5 d (Suc cd) (D @ encbs T [smerge lt b (first cs)])" "same_but {src, Suc src, d} S S5"
    by (rule one_block [OF bf Cons.prems(2) [unfolded c] Cons.prems(4,6,8) len dis])
  have k: "bs \<noteq> [] \<longrightarrow> nat (u64 (int (length cs) - 1)) = length (tl cs)"
    using Cons.prems(9,10,11) by (cases cs) (auto simp: u64_id)
  have p: "partner d \<notin> {src, Suc src, d}" using Cons.prems(7) by simp
  have w: "written S5 (partner d) cd' D'" "s_size S5 = sz"
    using same_but_keeps(3) [OF s(9) p] Cons.prems(5,8) s(9) by (simp_all add: same_but_def)
  have m: "merged lt (b # bs) cs = smerge lt b (first cs) # merged lt bs (tl cs)" by (cases cs) simp_all
  have g: "length (tl cs) \<le> length bs" "length bs \<le> Suc (length (tl cs))" "good bs" "good (tl cs)" "distinct (concat bs @ concat (tl cs))"
    using Cons.prems(10-14) by (cases cs; auto)+
  obtain S' e c' where r: "file_blocks X src (partner d) S5 = Some (True, e, S')" "e \<in> {partner d, d}"
    "before T S' src 0 [] J0" "before T S' (Suc src) c' [] J1"
    "written S' (partner d) (cd' + length (fst (deal (merged lt bs (tl cs))))) (D' @ encbs T (fst (deal (merged lt bs (tl cs)))))"
    "written S' d (Suc cd + length (snd (deal (merged lt bs (tl cs)))))
      ((D @ encbs T [smerge lt b (first cs)]) @ encbs T (snd (deal (merged lt bs (tl cs)))))"
    "same_but {src, Suc src, partner d, d} S5 S'"
    using Cons.IH [OF s(6,7) k w(1), unfolded partner_partner, OF s(8) Cons.prems(7,6) w(2) _ g] len by auto
  obtain t where t: "s_file S src = Some t" "tf_count t \<noteq> 0" using bf by (auto simp: before_def)
  have "file_blocks X src d S = Some (True, e, S')"
    by (subst file_blocks.simps) (use t s(1-5) r(1) in \<open>simp add: partner_def\<close>)
  moreover have "same_but {src, Suc src, d, partner d} S S'"
    by (rule same_but_trans [OF same_but_mono [OF s(9)] same_but_mono [OF r(7)]]) auto
  ultimately show ?case using r(2-6) m by auto
qed


section \<open>Passes\<close>

text \<open>All four files are there, each with an item, at their start.\<close>

definition rewound :: "cobsort \<Rightarrow> bool" where
  "rewound S \<longleftrightarrow> (\<forall>n<4. \<exists>t k. s_file S n = Some t \<and> s_queue S n = [k] \<and> tf_pos t = 0)"

lemma less_4: "(n < (4::nat)) = (n = 0 \<or> n = 1 \<or> n = 2 \<or> n = 3)"
  by auto

lemma rewind_all_files:
  assumes "\<forall>n<4. \<exists>t k. s_file S n = Some t \<and> s_queue S n = [k]"
  obtains S' where "rewind_all S = Some S'" "rewound S'" "same_but {0, 1, 2, 3} S S'"
    "\<And>n c bs. n < 4 \<Longrightarrow> written S n c (encbs T bs) \<Longrightarrow> \<exists>J. before T S' n c bs J"
proof -
  let ?S = "S\<lparr>s_file := (\<lambda>n. if n < 4 then map_option (\<lambda>t. t\<lparr>tf_pos := 0\<rparr>) (s_file S n) else s_file S n)\<rparr>"
  obtain t0 t1 t2 t3 where t: "s_file S 0 = Some t0" "s_file S 1 = Some t1" "s_file S 2 = Some t2" "s_file S 3 = Some t3"
    using assms by (metis less_4)
  have "rewind_all S = Some ?S"
    using t by (auto simp: rewind_all_def tf_rewind_def put_file_def fun_eq_iff less_4)
  moreover have "rewound ?S" "same_but {0, 1, 2, 3} S ?S"
    using assms by (auto simp: rewound_def same_but_def less_4)
  moreover have "\<exists>J. before T ?S n c bs J" if n: "n < 4" and w: "written S n c (encbs T bs)" for n c bs
  proof -
    obtain t k where u: "s_file S n = Some t" "s_queue S n = [k]" "tf_count t = c"
      "take (length (encbs T bs)) (tf_data t) = encbs T bs"
      using w by (auto simp: written_def)
    then have "tf_data t = encbs T bs @ drop (length (encbs T bs)) (tf_data t)" by (metis append_take_drop_id)
    then show ?thesis using u n
      by (intro exI [of _ "drop (length (encbs T bs)) (tf_data t)"]) (simp add: before_def)
  qed
  ultimately show ?thesis by (rule that)
qed

lemma clear_count_written:
  assumes "rewound S" "n < 4"
  obtains S' where "clear_count S n = Some S'" "rewound S'" "written S' n 0 []" "same_but {n} S S'"
proof -
  obtain t k where t: "s_file S n = Some t" "s_queue S n = [k]" "tf_pos t = 0" using assms by (auto simp: rewound_def)
  show ?thesis
    by (rule that [of "put_file S n (t\<lparr>tf_count := 0\<rparr>)"])
      (use t assms in \<open>auto simp: clear_count_def rewound_def written_def put_file_def same_but_def\<close>)
qed

text \<open>From the files of \<open>source\<close> to the others, and back to their starts.\<close>

definition other :: "nat \<Rightarrow> nat" where
  "other source = (if source = 0 then 2 else 0)"

lemma one_pass:
  assumes "rewound S" "source = 0 \<or> source = 2" "before T S source (length bs) bs J0" "before T S (Suc source) (length cs) cs J1"
    "s_size S = sz" "length bs < 2 ^ 64" "length cs \<le> length bs" "length bs \<le> Suc (length cs)"
    "good bs" "good cs" "distinct (concat bs @ concat cs)"
  defines "d0 \<equiv> fst (deal (merged lt bs cs))" and "d1 \<equiv> snd (deal (merged lt bs cs))"
  obtains S1 S2 S3 S4 e J J' where "clear_count S (other source) = Some S1" "clear_count S1 (Suc (other source)) = Some S2"
    "file_blocks X source (other source) S2 = Some (True, e, S3)" "(if e < 2 then 0 else 2) = other source"
    "rewind_all S3 = Some S4" "rewound S4" "before T S4 (other source) (length d0) d0 J"
    "before T S4 (Suc (other source)) (length d1) d1 J'" "same_but {0, 1, 2, 3} S S4"
proof -
  let ?o = "other source" and ?ns = "{0, 1, 2, 3} :: nat set"
  have o: "?o = 0 \<or> ?o = 2" "?o \<notin> {source, Suc source}" "Suc ?o \<notin> {source, Suc source}" "partner ?o = Suc ?o"
    "?o < 4" "Suc ?o < 4" "source < 4" "Suc source < 4"
    using assms(2) by (auto simp: other_def partner_def)
  obtain S1 where s1: "clear_count S ?o = Some S1" "rewound S1" "written S1 ?o 0 []" "same_but {?o} S S1"
    by (rule clear_count_written [OF assms(1) o(5)])
  obtain S2 where s2: "clear_count S1 (Suc ?o) = Some S2" "rewound S2" "written S2 (Suc ?o) 0 []" "same_but {Suc ?o} S1 S2"
    by (rule clear_count_written [OF s1(2) o(6)])
  have k: "before T S2 source (length bs) bs J0" "before T S2 (Suc source) (length cs) cs J1" "written S2 ?o 0 []"
    "written S2 (partner ?o) 0 []" "s_size S2 = sz"
    using same_but_keeps [OF s1(4)] same_but_keeps [OF s2(4)] s1(3,4) s2(3,4) assms(3,4,5) o by (auto simp: same_but_def)
  obtain S3 e c' where s3: "file_blocks X source ?o S2 = Some (True, e, S3)" "e \<in> {?o, partner ?o}" "before T S3 source 0 [] J0"
    "before T S3 (Suc source) c' [] J1" "written S3 ?o (0 + length d0) ([] @ encbs T d0)"
    "written S3 (partner ?o) (0 + length d1) ([] @ encbs T d1)" "same_but {source, Suc source, ?o, partner ?o} S2 S3"
    using file_blocks_pass [OF k(1,2) _ k(3,4) _ _ k(5) assms(6-11)] o unfolding d0_def d1_def by auto
  have "\<forall>n<4. \<exists>t k. s_file S3 n = Some t \<and> s_queue S3 n = [k]"
    using s3(3-6) assms(2) by (auto simp: less_4 before_def written_def other_def partner_def)
  then obtain S4 where s4: "rewind_all S3 = Some S4" "rewound S4" "same_but ?ns S3 S4"
    "\<And>n c bs. n < 4 \<Longrightarrow> written S3 n c (encbs T bs) \<Longrightarrow> \<exists>J. before T S4 n c bs J"
    using rewind_all_files [of S3] by blast
  obtain J J' where "before T S4 ?o (length d0) d0 J" "before T S4 (Suc ?o) (length d1) d1 J'"
    using s4(4) [OF o(5), of "length d0" d0] s4(4) [OF o(6), of "length d1" d1] s3(5,6) o(4) by auto
  moreover have "same_but ?ns S S1" "same_but ?ns S1 S2" "same_but ?ns S2 S3"
    by (rule same_but_mono [OF s1(4)] same_but_mono [OF s2(4)] same_but_mono [OF s3(7)]; use assms(2) in \<open>auto simp: other_def partner_def\<close>)+
  then have "same_but ?ns S S4" using s4(3) same_but_trans by metis
  moreover have "(if e < 2 then 0 else 2) = ?o" using s3(2) assms(2) by (auto simp: other_def partner_def)
  ultimately show ?thesis using that s1(1) s2(1) s3(1) s4(1,2) by blast
qed

lemma file_passes_sort:
  assumes "rewound S" "source = 0 \<or> source = 2" "before T S source (length bs) bs J0" "before T S (Suc source) (length cs) cs J1"
    "s_size S = sz" "length bs < 2 ^ 64" "length cs \<le> length bs" "length bs \<le> Suc (length cs)" "cs \<noteq> []"
    "good bs" "good cs" "distinct (concat bs @ concat cs)"
  shows "\<exists>S' s b c J J'. file_passes X source S = Some (True, s, S') \<and> before T S' s 1 [b] J \<and> before T S' (Suc s) 1 [c] J' \<and>
    good [b] \<and> good [c] \<and> mset (b @ c) = mset (concat bs @ concat cs) \<and> same_but {0, 1, 2, 3} S S'"
  using assms
proof (induction "length bs + length cs" arbitrary: S source bs cs J0 J1 rule: less_induct)
  case less
  obtain t where t: "s_file S source = Some t" "tf_count t = length bs" using less.prems(3) by (auto simp: before_def)
  show ?case
  proof (cases "length bs \<le> 1")
    case True
    then obtain b c where "bs = [b]" "cs = [c]"
      using less.prems(7,9) by (cases bs; cases cs) auto
    moreover have "file_passes X source S = Some (True, source, S)" using t True by (subst file_passes.simps) simp
    ultimately show ?thesis using less.prems(3,4,10,11)
      by (intro exI [of _ S] exI [of _ source] exI [of _ b] exI [of _ c] exI [of _ J0] exI [of _ J1]) simp
  next
    case False
    let ?d0 = "fst (deal (merged lt bs cs))" and ?d1 = "snd (deal (merged lt bs cs))"
    note r = pass_result [OF less.prems(10,11,12,7,9)]
    obtain S1 S2 S3 S4 e J J' where s: "clear_count S (other source) = Some S1" "clear_count S1 (Suc (other source)) = Some S2"
      "file_blocks X source (other source) S2 = Some (True, e, S3)" "(if e < 2 then 0 else 2) = other source"
      "rewind_all S3 = Some S4" "rewound S4" "before T S4 (other source) (length ?d0) ?d0 J"
      "before T S4 (Suc (other source)) (length ?d1) ?d1 J'" "same_but {0, 1, 2, 3} S S4"
      by (rule one_pass [OF less.prems(1-8,10-12)])
    have o: "other source = 0 \<or> other source = 2" "s_size S4 = sz" using less.prems(2,5) s(9) by (auto simp: other_def same_but_def)
    have n: "?d1 \<noteq> []" "length ?d0 < 2 ^ 64" "length ?d0 + length ?d1 < length bs + length cs"
      using r(5-7) False less.prems(6,9) by (auto simp flip: length_greater_0_conv)
    from less.hyps [OF n(3) s(6) o(1) s(7,8) o(2) n(2) r(5,6) n(1) r(1-3)] r(4) obtain S' s' b c K K' where
      p: "file_passes X (other source) S4 = Some (True, s', S')" "before T S' s' 1 [b] K" "before T S' (Suc s') 1 [c] K'"
        "good [b]" "good [c]" "mset (b @ c) = mset (concat bs @ concat cs)" "same_but {0, 1, 2, 3} S4 S'" by metis
    have "file_passes X source S = file_passes X (if e < 2 then 0 else 2) S4"
      by (subst file_passes.simps) (use t False s(1-3,5) in \<open>simp add: Let_def other_def\<close>)
    then have "file_passes X source S = Some (True, s', S')" unfolding s(4) using p(1) by simp
    then show ?thesis using p(2-6) same_but_trans [OF s(9) p(7)] by blast
  qed
qed

end

end
