(* ===== verification/Cob_Sort_Stable.thy ===== *)
theory Cob_Sort_Stable
  imports Cob_Sort_Merge
begin

text \<open>
  SORT as a whole: whatever is released comes back in the order of the keys, records with equal
  keys in the order they were released, whether the items fit the memory or go through the
  temporary files any number of times.
\<close>

section \<open>While records are released\<close>

definition full :: "target \<Rightarrow> temp_file option \<Rightarrow> numbered list list \<Rightarrow> bool" where
  "full T t F \<longleftrightarrow> (\<exists>u. t = Some u \<and> tf_data u = encbs T F \<and> tf_pos u = length (encbs T F) \<and> tf_count u = length F)"

lemma item_bytes_pay: "item_bytes T q = enc T (pay q)"
  by (simp add: item_bytes_def enc_def pay_def)

lemma overwrite_end [simp]: "overwrite c (length c) bs = c @ bs"
  by (simp add: overwrite_def)

text \<open>Records released one after the other, and returned into the record area \<open>d\<close>.\<close>

fun submit_all :: "sort_env \<Rightarrow> cobsort \<Rightarrow> bytes list \<Rightarrow> cobsort option" where
  "submit_all X S [] = Some S"
| "submit_all X S (r # rs) = do {
     (res, S) \<leftarrow> cob_file_sort_submit X S r;
     if res = COBSORTOK then submit_all X S rs else None }"

fun retrieve_all :: "sort_env \<Rightarrow> cobsort \<Rightarrow> bytes \<Rightarrow> nat \<Rightarrow> (cobsort \<times> bytes list) option" where
  "retrieve_all X S d 0 = Some (S, [])"
| "retrieve_all X S d (Suc n) = do {
     (res, S, d) \<leftarrow> cob_file_sort_retrieve X S d;
     if res \<noteq> COBSORTOK then None
     else do {
       (S', rs) \<leftarrow> retrieve_all X S d n;
       Some (S', take (s_size S) d # rs) } }"

context file_order
begin

definition holds :: "cobsort \<Rightarrow> numbered list list \<Rightarrow> numbered list list \<Rightarrow> numbered list \<Rightarrow> numbered list \<Rightarrow> bool" where
  "holds S F0 F1 a b \<longleftrightarrow> \<not> s_retrieving S \<and> s_size S = sz \<and> 4 \<le> s_memory S \<and>
     s_queue S 0 = map (item True) a \<and> s_queue S 1 = map (item True) b \<and> (\<forall>n\<ge>2. s_queue S n = []) \<and>
     length b \<le> length a \<and> length a \<le> Suc (length b) \<and> good F0 \<and> good F1 \<and>
     length F1 \<le> length F0 \<and> length F0 \<le> Suc (length F1) \<and>
     distinct (concat F0 @ concat F1 @ a @ b) \<and> set a \<union> set b \<subseteq> A \<and>
     (if s_files_used S then full T (s_file S 0) F0 \<and> full T (s_file S 1) F1 \<and> s_file S 2 = None \<and> s_file S 3 = None \<and>
        F0 \<noteq> [] \<and> destination_file S = (if length F0 = length F1 then 0 else 1) \<and>
        s_memory S \<le> s_empty S + length a + length b
      else F0 = [] \<and> F1 = [] \<and> s_file S = (\<lambda>_. None))"

text \<open>The queues become one sorted block.\<close>

lemma good_singles: "set xs \<subseteq> A \<Longrightarrow> good (map (\<lambda>p. [p]) xs)"
  by (auto simp: good_def)

lemma concat_singles [simp]: "concat (map (\<lambda>p. [p]) xs) = xs"
  by (induction xs) simp_all

lemma sort_queues:
  assumes q: "s_queue S 0 = map (item True) a" "s_queue S 1 = map (item True) b" "\<forall>n\<ge>2. s_queue S n = []"
    and l: "length b \<le> length a" "length a \<le> Suc (length b)" "distinct (a @ b)" "set a \<union> set b \<subseteq> A"
  obtains n N Q ys where "cob_sort_queues X S = Some (n, S\<lparr>s_accs := N, s_queue := Q\<rparr>)" "n = 0 \<or> n = 2"
    "Q n = block ys" "\<forall>m. m \<noteq> n \<longrightarrow> Q m = []" "sorted_wrt lt ys" "mset ys = mset (a @ b)"
proof -
  let ?B = "\<lambda>xs. map (\<lambda>p. [p]) xs"
  obtain n N ys where p: "queue_passes X (s_accs S) 0 (blocked (?B a)) (blocked (?B b)) = Some (n, N, block ys)" "n = 0 \<or> n = 2"
    "sorted_wrt lt ys" "mset ys = mset (a @ b)"
    using queue_passes_sort [of "?B a" "?B b" 0 "s_accs S"] good_singles [of a] good_singles [of b] l by auto
  let ?Q = "if s_queue S 1 = [] then s_queue S else (\<lambda>_. [])(n := block ys)"
  have "cob_sort_queues X S = Some (n, S\<lparr>s_accs := N, s_queue := ?Q\<rparr>)"
    using p(1) by (simp add: cob_sort_queues_def q(1) q(2) [unfolded One_nat_def] blocked_singles)
  moreover have "?Q n = block ys \<and> (\<forall>m. m \<noteq> n \<longrightarrow> ?Q m = [])"
  proof (cases "s_queue S 1 = []")
    case True
    then have "n = 0 \<and> block ys = s_queue S 0"
      using p(1) q by (simp add: blocked_singles queue_passes.simps)
    moreover have "s_queue S m = []" if "m \<noteq> 0" for m
      using that True q(3) by (cases "m = 1") auto
    ultimately show ?thesis using True by auto
  qed simp
  ultimately show ?thesis using that p(2-4) by blast
qed

lemma write_items_all:
  assumes "tf_pos t = length (tf_data t)"
  shows "write_items X t e qs = (True, t\<lparr>tf_data := tf_data t @ encs T (map pay qs),
     tf_pos := length (tf_data t @ encs T (map pay qs))\<rparr>, e + length qs, [])"
  using assms
proof (induction qs arbitrary: t e)
  case (Cons q qs)
  then show ?case using room by (simp add: tf_write_def item_bytes_pay Let_def)
qed simp

lemma write_block_full:
  assumes "full T (s_file S (destination_file S)) F" "s_queue S n = block ys"
  obtains u where "cob_write_block X S n = Some (True, put_file ((put_queue S n [])\<lparr>s_empty := s_empty S + length ys\<rparr>) (destination_file S) u)"
    "full T (Some u) (F @ [ys])"
proof -
  obtain t where t: "s_file S (destination_file S) = Some t" "tf_data t = encbs T F" "tf_pos t = length (encbs T F)" "tf_count t = length F"
    using assms(1) by (auto simp: full_def)
  let ?d = "encbs T F @ encs T ys @ [1]"
  let ?u = "t\<lparr>tf_count := Suc (length F), tf_data := ?d, tf_pos := length ?d\<rparr>"
  have e: "length (encbs T F) + length (encs T ys) = length (encbs T F @ encs T ys)" by simp
  have "overwrite (encbs T F @ encs T ys) (length (encbs T F) + length (encs T ys)) [1] = ?d"
    unfolding e overwrite_end by simp
  then have "cob_write_block X S n = Some (True, put_file ((put_queue S n [])\<lparr>s_empty := s_empty S + length ys\<rparr>) (destination_file S) ?u)"
    using t assms(2) write_items_all [of t "s_empty S" "block ys"] room
    by (simp add: cob_write_block_def tf_write_def put_file_def put_queue_def Let_def)
  moreover have "full T (Some ?u) (F @ [ys])" using t by (simp add: full_def)
  ultimately show ?thesis by (rule that)
qed


text \<open>Sorted and written: the queues are empty and one file has a block more.\<close>

definition add0 :: "numbered list list \<Rightarrow> numbered list list \<Rightarrow> numbered list \<Rightarrow> numbered list list" where
  "add0 F0 F1 ys = (if length F0 = length F1 then F0 @ [ys] else F0)"

definition add1 :: "numbered list list \<Rightarrow> numbered list list \<Rightarrow> numbered list \<Rightarrow> numbered list list" where
  "add1 F0 F1 ys = (if length F0 = length F1 then F1 else F1 @ [ys])"

lemma add_balanced:
  assumes "length F1 \<le> length F0" "length F0 \<le> Suc (length F1)"
  shows "length (add1 F0 F1 ys) \<le> length (add0 F0 F1 ys)" "length (add0 F0 F1 ys) \<le> Suc (length (add1 F0 F1 ys))"
    "mset (concat (add0 F0 F1 ys) @ concat (add1 F0 F1 ys)) = mset (concat F0 @ concat F1 @ ys)" "add0 F0 F1 ys \<noteq> []"
    "length (add0 F0 F1 ys) = length (add1 F0 F1 ys) \<longleftrightarrow> length F0 \<noteq> length F1"
  using assms by (auto simp: add0_def add1_def)

lemma good_snoc: "good (F @ [ys]) \<longleftrightarrow> good F \<and> set ys \<subseteq> A \<and> ys \<noteq> [] \<and> sorted_wrt lt ys"
  by (induction F) auto

lemma good_add: "\<lbrakk>good F0; good F1; set ys \<subseteq> A; ys \<noteq> []; sorted_wrt lt ys\<rbrakk> \<Longrightarrow> good (add0 F0 F1 ys) \<and> good (add1 F0 F1 ys)"
  by (simp add: add0_def add1_def good_snoc)

lemma sorted_block_written:
  assumes q: "s_queue S 0 = map (item True) a" "s_queue S 1 = map (item True) b" "\<forall>n\<ge>2. s_queue S n = []"
    and l: "length b \<le> length a" "length a \<le> Suc (length b)" "distinct (a @ b)" "set a \<union> set b \<subseteq> A"
    and f: "full T (s_file S 0) F0" "full T (s_file S 1) F1" "destination_file S = (if length F0 = length F1 then 0 else 1)"
  obtains n S1 S2 ys where "cob_sort_queues X S = Some (n, S1)" "cob_write_block X S1 n = Some (True, S2)"
    "s_queue S2 = (\<lambda>_. [])" "full T (s_file S2 0) (add0 F0 F1 ys)" "full T (s_file S2 1) (add1 F0 F1 ys)"
    "sorted_wrt lt ys" "mset ys = mset (a @ b)" "s_empty S2 = s_empty S + length ys" "s_file S2 2 = s_file S 2"
    "s_file S2 3 = s_file S 3" "s_size S2 = s_size S" "s_memory S2 = s_memory S" "s_retrieving S2 = s_retrieving S"
    "s_files_used S2 = s_files_used S" "destination_file S2 = destination_file S" "s_unique S2 = s_unique S"
    "s_files_used S1 = s_files_used S"
proof -
  obtain n N Q ys where s: "cob_sort_queues X S = Some (n, S\<lparr>s_accs := N, s_queue := Q\<rparr>)"
    "Q n = block ys" "\<forall>m. m \<noteq> n \<longrightarrow> Q m = []" "sorted_wrt lt ys" "mset ys = mset (a @ b)"
    by (rule sort_queues [OF q l])
  let ?S1 = "S\<lparr>s_accs := N, s_queue := Q\<rparr>"
  let ?F = "if length F0 = length F1 then F0 else F1"
  have "full T (s_file ?S1 (destination_file ?S1)) ?F" "s_queue ?S1 n = block ys" using f s(2) by auto
  then obtain u where w: "cob_write_block X ?S1 n =
      Some (True, put_file ((put_queue ?S1 n [])\<lparr>s_empty := s_empty ?S1 + length ys\<rparr>) (destination_file ?S1) u)"
    "full T (Some u) (?F @ [ys])"
    by (rule write_block_full)
  have "s_queue (put_queue ?S1 n []) = (\<lambda>_. [])" using s(3) by (auto simp: put_queue_def fun_eq_iff)
  moreover have "full T (s_file (put_file ((put_queue ?S1 n [])\<lparr>s_empty := s_empty ?S1 + length ys\<rparr>) (destination_file ?S1) u) 0) (add0 F0 F1 ys)"
    "full T (s_file (put_file ((put_queue ?S1 n [])\<lparr>s_empty := s_empty ?S1 + length ys\<rparr>) (destination_file ?S1) u) 1) (add1 F0 F1 ys)"
    using w(2) f by (cases "length F0 = length F1"; simp add: put_file_def put_queue_def add0_def add1_def)+
  moreover have "destination_file S \<noteq> 2" "destination_file S \<noteq> 3" using f(3) by simp_all
  ultimately show ?thesis using s(4,5)
    by (intro that [OF s(1) w(1)]) (simp_all add: put_file_def put_queue_def)
qed

lemma spill_holds:
  assumes h: "holds S F0 F1 a b" "a \<noteq> []" "s_memory S \<le> length a + length b" and tmp: "so_tmpfile X 0" "so_tmpfile X 1"
  obtains S' G0 G1 where "spill X S = Some (True, S')" "holds S' G0 G1 [] []" "s_files_used S'" "s_unique S' = s_unique S"
    "mset (concat G0 @ concat G1) = mset (concat F0 @ concat F1 @ a @ b)"
proof -
  define S0 where "S0 = (if s_files_used S then S
    else S\<lparr>s_file := (s_file S)(0 := Some \<lparr>tf_data = [], tf_pos = 0, tf_count = 0\<rparr>, 1 := Some \<lparr>tf_data = [], tf_pos = 0, tf_count = 0\<rparr>),
      s_files_used := True, destination_file := 0\<rparr>)"
  have g: "(if s_files_used S then Some S
      else do { S \<leftarrow> cob_get_temp_file X S 0; S \<leftarrow> cob_get_temp_file X S 1; Some (S\<lparr>s_files_used := True, destination_file := 0\<rparr>) }) = Some S0"
    using h tmp by (auto simp: S0_def holds_def cob_get_temp_file_def put_file_def)
  have q: "s_queue S0 0 = map (item True) a" "s_queue S0 1 = map (item True) b" "\<forall>n\<ge>2. s_queue S0 n = []"
    using h(1) by (simp_all add: S0_def holds_def)
  have l: "length b \<le> length a" "length a \<le> Suc (length b)" "distinct (a @ b)" "set a \<union> set b \<subseteq> A"
    using h(1) by (simp_all add: holds_def)
  have f: "full T (s_file S0 0) F0" "full T (s_file S0 1) F1" "destination_file S0 = (if length F0 = length F1 then 0 else 1)"
    "s_file S0 2 = None" "s_file S0 3 = None" "s_files_used S0"
    using h(1) by (auto simp: S0_def holds_def full_def)
  have k: "s_size S0 = sz" "s_memory S0 = s_memory S" "\<not> s_retrieving S0" "s_unique S0 = s_unique S" "4 \<le> s_memory S0"
    using h(1) by (simp_all add: S0_def holds_def)
  have F: "good F0" "good F1" "length F1 \<le> length F0" "length F0 \<le> Suc (length F1)" "distinct (concat F0 @ concat F1 @ a @ b)"
    using h(1) by (simp_all add: holds_def)
  obtain n S1 S2 ys where s: "cob_sort_queues X S0 = Some (n, S1)" "cob_write_block X S1 n = Some (True, S2)"
    "s_queue S2 = (\<lambda>_. [])" "full T (s_file S2 0) (add0 F0 F1 ys)" "full T (s_file S2 1) (add1 F0 F1 ys)"
    "sorted_wrt lt ys" "mset ys = mset (a @ b)" "s_empty S2 = s_empty S0 + length ys" "s_file S2 2 = s_file S0 2"
    "s_file S2 3 = s_file S0 3" "s_size S2 = s_size S0" "s_memory S2 = s_memory S0" "s_retrieving S2 = s_retrieving S0"
    "s_files_used S2 = s_files_used S0" "destination_file S2 = destination_file S0" "s_unique S2 = s_unique S0"
    by (rule sorted_block_written [OF q l f(1-3)])
  let ?S = "S2\<lparr>destination_file := (if destination_file S2 = 0 then 1 else 0)\<rparr>"
  have sp: "spill X S = Some (True, ?S)" unfolding spill_def g using s(1,2) by simp
  have ly: "length ys = length a + length b" using s(7) by (metis length_append size_mset)
  have sy: "set ys = set a \<union> set b" using s(7) by (metis set_append set_mset_mset)
  have yne: "ys \<noteq> []" using ly h(2) by auto
  note ab = add_balanced [OF F(3,4), of ys]
  have m: "mset (concat (add0 F0 F1 ys) @ concat (add1 F0 F1 ys)) = mset (concat F0 @ concat F1 @ a @ b)"
    using ab(3) s(7) by simp
  have "distinct (concat (add0 F0 F1 ys) @ concat (add1 F0 F1 ys))" using mset_eq_imp_distinct_iff [OF m] F(5) by simp
  moreover have "good (add0 F0 F1 ys) \<and> good (add1 F0 F1 ys)" by (rule good_add) (use F s(6) sy yne l(4) in auto)
  moreover have "destination_file ?S = (if length (add0 F0 F1 ys) = length (add1 F0 F1 ys) then 0 else 1)"
    using s(15) f(3) ab(5) by simp
  ultimately have "holds ?S (add0 F0 F1 ys) (add1 F0 F1 ys) [] []"
    using s k f ab(1,2,4) ly h(3) by (simp add: holds_def)
  moreover have "s_files_used ?S" "s_unique ?S = s_unique S" using s k f by simp_all
  ultimately show ?thesis using that sp m by blast
qed

definition collecting :: "cobsort \<Rightarrow> numbered list \<Rightarrow> bool" where
  "collecting S rs \<longleftrightarrow> s_unique S = length rs \<and> (\<exists>F0 F1 a b. holds S F0 F1 a b \<and> (s_files_used S \<longrightarrow> a \<noteq> []) \<and>
     mset (concat F0 @ concat F1 @ a @ b) = mset rs)"

lemma new_item_holds:
  assumes h: "holds S F0 F1 a b" and p: "(s_unique S, r) \<in> A" "(s_unique S, r) \<notin> set (concat F0 @ concat F1 @ a @ b)"
  obtains a' b' where "holds (new_item S r) F0 F1 a' b'" "a' \<noteq> []"
    "mset (a' @ b') = add_mset (s_unique S, r) (mset (a @ b))"
proof -
  let ?p = "(s_unique S, r)"
  have i: "item True ?p = \<lparr>end_of_block = True, ci_unique = s_unique S, ci_item = r\<rparr>" by (simp add: item_def)
  show ?thesis
  proof (cases "length a = length b")
    case True
    then have "holds (new_item S r) F0 F1 (?p # a) b"
      using h p i by (auto simp: holds_def new_item_def put_queue_def Let_def)
    then show ?thesis using that by simp
  next
    case False
    then have "length a = Suc (length b)" using h by (simp add: holds_def)
    moreover from this have "holds (new_item S r) F0 F1 a (?p # b)"
      using h p i by (auto simp: holds_def new_item_def put_queue_def Let_def)
    moreover have "a \<noteq> []" using calculation(1) by auto
    ultimately show ?thesis using that by simp
  qed
qed

lemma submit_collects:
  assumes c: "collecting S rs" and p: "(length rs, r) \<in> A" "(length rs, r) \<notin> set rs" "take sz d = r" "sz \<le> length d"
    and tmp: "so_tmpfile X 0" "so_tmpfile X 1" and n: "length rs + 1 < 2 ^ 64"
  shows "\<exists>S'. cob_file_sort_submit X S d = Some (COBSORTOK, S') \<and> collecting S' (rs @ [(length rs, r)])"
proof -
  obtain F0 F1 a b where h: "holds S F0 F1 a b" "s_files_used S \<longrightarrow> a \<noteq> []" "mset (concat F0 @ concat F1 @ a @ b) = mset rs"
    and u: "s_unique S = length rs" using c by (auto simp: collecting_def)
  have q: "length (s_queue S 0) + length (s_queue S 1) = length a + length b" "\<not> s_retrieving S" "4 \<le> s_memory S"
    "length b \<le> length a"
    using h(1) by (simp_all add: holds_def)
  have "\<exists>S1 G0 G1 a1 b1. (if s_memory S \<le> length (s_queue S 0) + length (s_queue S 1) then spill X S else Some (True, S)) = Some (True, S1) \<and>
      holds S1 G0 G1 a1 b1 \<and> s_unique S1 = length rs \<and> mset (concat G0 @ concat G1 @ a1 @ b1) = mset rs"
  proof (cases "s_memory S \<le> length a + length b")
    case True
    then have "a \<noteq> []" using q(3,4) by auto
    from spill_holds [OF h(1) this True tmp] obtain S' G0 G1 where
      "spill X S = Some (True, S')" "holds S' G0 G1 [] []" "s_unique S' = s_unique S"
      "mset (concat G0 @ concat G1) = mset (concat F0 @ concat F1 @ a @ b)" by metis
    then show ?thesis using True q(1) u h(3)
      by (intro exI [of _ S'] exI [of _ G0] exI [of _ G1] exI [of _ "[]"]) simp
  next
    case False
    then show ?thesis unfolding q(1) using h u by auto
  qed
  then obtain S1 G0 G1 a1 b1 where s: "(if s_memory S \<le> length (s_queue S 0) + length (s_queue S 1) then spill X S else Some (True, S)) = Some (True, S1)"
    "holds S1 G0 G1 a1 b1" "s_unique S1 = length rs" "mset (concat G0 @ concat G1 @ a1 @ b1) = mset rs" by blast
  have "set (concat G0 @ concat G1 @ a1 @ b1) = set rs" using s(4) by (metis set_mset_mset)
  then have nin: "(s_unique S1, r) \<notin> set (concat G0 @ concat G1 @ a1 @ b1)" using s(3) p(2) by simp
  have inA: "(s_unique S1, r) \<in> A" using s(3) p(1) by simp
  obtain a' b' where w: "holds (new_item S1 r) G0 G1 a' b'" "a' \<noteq> []" "mset (a' @ b') = add_mset (length rs, r) (mset (a1 @ b1))"
    using new_item_holds [OF s(2) inA nin] unfolding s(3) by blast
  have uq: "s_unique (new_item S1 r) = Suc (length rs)" using s(3) n by (simp add: new_item_def u64_id Let_def)
  have "mset (concat G0 @ concat G1 @ a' @ b') = mset (rs @ [(length rs, r)])"
    using arg_cong [OF s(4), of "add_mset (length rs, r)"] w(3) by (simp add: ac_simps)
  then have "collecting (new_item S1 r) (rs @ [(length rs, r)])"
    using w(1,2) uq unfolding collecting_def by (intro conjI exI [of _ G0] exI [of _ G1] exI [of _ a'] exI [of _ b']) simp_all
  moreover have "s_size S1 = sz" using s(2) by (simp add: holds_def)
  moreover have "rds d 0 sz = Some r" using p(3,4) by (simp add: rds_def)
  ultimately show ?thesis using s(1) q(2) by (simp add: cob_file_sort_submit_def)
qed


section \<open>From releasing to returning\<close>

definition returning :: "cobsort \<Rightarrow> numbered list \<Rightarrow> bool" where
  "returning S ys \<longleftrightarrow> s_retrieving S \<and> s_size S = sz \<and> set ys \<subseteq> A \<and>
     (if s_files_used S then \<exists>c0 c1 l0 l1 J0 J1. inside T S (retrieval_queue S) c0 l0 J0 \<and>
        inside T S (Suc (retrieval_queue S)) c1 l1 J1 \<and> set l0 \<inter> set l1 = {} \<and> ys = smerge lt l0 l1
      else map pay (s_queue S (retrieval_queue S)) = ys)"

lemma length_good: "good F \<Longrightarrow> length F \<le> length (concat F)"
proof (induction F)
  case (Cons b F)
  then show ?case by (cases b) simp_all
qed simp

text \<open>The files with the last block, the items read last and the two new files.\<close>

lemma files_ready:
  assumes f: "full T (s_file S 0) G0" "full T (s_file S 1) G1" "s_file S 2 = None" "s_file S 3 = None"
    and e: "4 \<le> s_empty S" and tmp: "so_tmpfile X 2" "so_tmpfile X 3"
  obtains S1 S2 S3 S4 S5 where "take_empties S = Some S1" "tf_rewind S1 0 = Some S2" "tf_rewind S2 1 = Some S3"
    "cob_get_temp_file X S3 2 = Some S4" "cob_get_temp_file X S4 3 = Some S5" "rewound S5"
    "before T S5 0 (length G0) G0 []" "before T S5 (Suc 0) (length G1) G1 []" "s_size S5 = s_size S"
    "s_retrieving S5 = s_retrieving S" "s_files_used S5 = s_files_used S"
proof -
  let ?k = "\<lparr>end_of_block = False, ci_unique = 0, ci_item = replicate (s_size S) 0\<rparr>"
  let ?S1 = "S\<lparr>s_empty := s_empty S - 4, s_queue := (\<lambda>n. if n < 4 then [?k] else s_queue S n)\<rparr>"
  let ?t = "\<lparr>tf_data = [], tf_pos = 0, tf_count = 0\<rparr>"
  obtain t0 t1 where t: "s_file S 0 = Some t0" "tf_data t0 = encbs T G0" "tf_count t0 = length G0"
    "s_file S 1 = Some t1" "tf_data t1 = encbs T G1" "tf_count t1 = length G1"
    using f(1,2) by (auto simp: full_def)
  let ?S2 = "put_file ?S1 0 (t0\<lparr>tf_pos := 0\<rparr>)"
  let ?S3 = "put_file ?S2 1 (t1\<lparr>tf_pos := 0\<rparr>)"
  let ?S4 = "put_file ?S3 2 ?t"
  let ?S5 = "put_file ?S4 3 ?t"
  have 1: "take_empties S = Some ?S1" "tf_rewind ?S1 0 = Some ?S2" "tf_rewind ?S2 1 = Some ?S3"
    "cob_get_temp_file X ?S3 2 = Some ?S4" "cob_get_temp_file X ?S4 3 = Some ?S5"
    using t f(3,4) e tmp by (simp_all add: take_empties_def tf_rewind_def cob_get_temp_file_def put_file_def)
  have 2: "rewound ?S5" "before T ?S5 0 (length G0) G0 []" "before T ?S5 (Suc 0) (length G1) G1 []"
    "s_size ?S5 = s_size S" "s_retrieving ?S5 = s_retrieving S" "s_files_used ?S5 = s_files_used S"
    using t by (auto simp: rewound_def before_def put_file_def)
  show ?thesis by (rule that [OF 1 2])
qed

lemma keeps_retrieval_queue [simp]: "before T (S\<lparr>retrieval_queue := n\<rparr>) m c bs J = before T S m c bs J"
  by (simp add: before_def)

text \<open>After the passes the first items of the two files are read.\<close>

lemma first_items:
  assumes "before T S s 1 [b] J" "before T S (Suc s) 1 [c] J'" "good [b]" "good [c]" "set b \<inter> set c = {}"
    "s_size S = sz" "s_files_used S" "s_retrieving S"
  obtains S1 S2 where "cob_read_item X (S\<lparr>retrieval_queue := s\<rparr>) s = Some (True, S1)" "cob_read_item X S1 (Suc s) = Some (True, S2)"
    "returning S2 (smerge lt b c)"
proof -
  let ?S = "S\<lparr>retrieval_queue := s\<rparr>"
  have bc: "set b \<subseteq> A" "set c \<subseteq> A" using assms(3,4) by simp_all
  obtain S1 where 1: "cob_read_item X ?S s = Some (True, S1)" "inside T S1 s 1 b (encbs T [] @ J)" "same_but {s} ?S S1"
    by (rule before_inside [of ?S s 1 b "[]" J]) (use assms bc in auto)
  have b: "before T S1 (Suc s) 1 [c] J'" "s_size S1 = sz" using same_but_keeps(1) [OF 1(3)] assms(2,6) 1(3) by (simp_all add: same_but_def)
  obtain S2 where 2: "cob_read_item X S1 (Suc s) = Some (True, S2)" "inside T S2 (Suc s) 1 c (encbs T [] @ J')" "same_but {Suc s} S1 S2"
    by (rule before_inside [OF b(1) bc(2) b(2)])
  have "inside T S2 s 1 b (encbs T [] @ J)" using same_but_keeps(2) [OF 2(3)] 1(2) by simp
  moreover have k: "retrieval_queue S2 = s" "s_size S2 = sz" "s_files_used S2" "s_retrieving S2"
    using 1(3) 2(3) assms(6-8) by (simp_all add: same_but_def)
  ultimately have "\<exists>c0 c1 l0 l1 J0 J1. inside T S2 (retrieval_queue S2) c0 l0 J0 \<and>
      inside T S2 (Suc (retrieval_queue S2)) c1 l1 J1 \<and> set l0 \<inter> set l1 = {} \<and> smerge lt b c = smerge lt l0 l1"
    using 2(2) assms(5) unfolding k(1) by blast
  then have "returning S2 (smerge lt b c)" using k bc by (simp add: returning_def)
  then show ?thesis using that 1(1) 2(1) by blast
qed

lemma process_memory:
  assumes "holds S F0 F1 a b" "\<not> s_files_used S"
  shows "\<exists>S' ys. cob_file_sort_process X S = Some (COBSORTOK, S') \<and> returning S' ys \<and> sorted_wrt lt ys \<and>
    mset ys = mset (concat F0 @ concat F1 @ a @ b)"
proof -
  let ?S = "S\<lparr>s_retrieving := True\<rparr>"
  have q: "s_queue ?S 0 = map (item True) a" "s_queue ?S 1 = map (item True) b" "\<forall>n\<ge>2. s_queue ?S n = []"
    and l: "length b \<le> length a" "length a \<le> Suc (length b)" "distinct (a @ b)" "set a \<union> set b \<subseteq> A"
    and z: "s_size S = sz" "F0 = []" "F1 = []"
    using assms by (simp_all add: holds_def)
  obtain n N Q ys where s: "cob_sort_queues X ?S = Some (n, ?S\<lparr>s_accs := N, s_queue := Q\<rparr>)" "Q n = block ys"
    "sorted_wrt lt ys" "mset ys = mset (a @ b)"
    by (rule sort_queues [OF q l])
  have "set ys = set a \<union> set b" using s(4) by (metis set_append set_mset_mset)
  then have "returning (?S\<lparr>s_accs := N, s_queue := Q, retrieval_queue := n\<rparr>) ys" using s l z assms(2) by (simp add: returning_def)
  then show ?thesis using s z assms(2) by (intro exI conjI) (simp_all add: cob_file_sort_process_def)
qed

lemma process_files:
  assumes h: "holds S F0 F1 a b" "s_files_used S" "a \<noteq> []" and tmp: "so_tmpfile X 2" "so_tmpfile X 3"
    and n: "length (concat F0 @ concat F1 @ a @ b) < 2 ^ 64"
  shows "\<exists>S' ys. cob_file_sort_process X S = Some (COBSORTOK, S') \<and> returning S' ys \<and> sorted_wrt lt ys \<and>
    mset ys = mset (concat F0 @ concat F1 @ a @ b)"
proof -
  let ?S = "S\<lparr>s_retrieving := True\<rparr>"
  have q: "s_queue ?S 0 = map (item True) a" "s_queue ?S 1 = map (item True) b" "\<forall>n\<ge>2. s_queue ?S n = []"
    and l: "length b \<le> length a" "length a \<le> Suc (length b)" "distinct (a @ b)" "set a \<union> set b \<subseteq> A"
    and f: "full T (s_file ?S 0) F0" "full T (s_file ?S 1) F1" "destination_file ?S = (if length F0 = length F1 then 0 else 1)"
    and F: "good F0" "good F1" "length F1 \<le> length F0" "length F0 \<le> Suc (length F1)" "distinct (concat F0 @ concat F1 @ a @ b)"
    and k: "s_size S = sz" "4 \<le> s_memory S" "s_memory S \<le> s_empty S + length a + length b" "F0 \<noteq> []" "s_file S 2 = None" "s_file S 3 = None"
    using h by (simp_all add: holds_def)
  obtain m S1 S2 ys where s: "cob_sort_queues X ?S = Some (m, S1)" "cob_write_block X S1 m = Some (True, S2)"
    "full T (s_file S2 0) (add0 F0 F1 ys)" "full T (s_file S2 1) (add1 F0 F1 ys)"
    "sorted_wrt lt ys" "mset ys = mset (a @ b)" "s_empty S2 = s_empty ?S + length ys" "s_file S2 2 = s_file ?S 2"
    "s_file S2 3 = s_file ?S 3" "s_size S2 = s_size ?S" "s_retrieving S2 = s_retrieving ?S"
    "s_files_used S2 = s_files_used ?S" "s_files_used S1 = s_files_used ?S"
    by (rule sorted_block_written [OF q l f])
  have ly: "length ys = length a + length b" using s(6) by (metis length_append size_mset)
  have sy: "set ys = set a \<union> set b" using s(6) by (metis set_append set_mset_mset)
  have yne: "ys \<noteq> []" using ly h(3) by auto
  have e: "s_file S2 2 = None" "s_file S2 3 = None" "4 \<le> s_empty S2" using s(7-9) k ly by simp_all
  obtain R1 R2 R3 R4 R5 where r: "take_empties S2 = Some R1" "tf_rewind R1 0 = Some R2" "tf_rewind R2 1 = Some R3"
    "cob_get_temp_file X R3 2 = Some R4" "cob_get_temp_file X R4 3 = Some R5" "rewound R5"
    "before T R5 0 (length (add0 F0 F1 ys)) (add0 F0 F1 ys) []" "before T R5 (Suc 0) (length (add1 F0 F1 ys)) (add1 F0 F1 ys) []"
    "s_size R5 = s_size S2" "s_retrieving R5 = s_retrieving S2" "s_files_used R5 = s_files_used S2"
    by (rule files_ready [OF s(3,4) e tmp])
  note ab = add_balanced [OF F(3,4), of ys]
  have g: "good (add0 F0 F1 ys)" "good (add1 F0 F1 ys)" using good_add [OF F(1,2) _ yne s(5)] sy l(4) by simp_all
  have m: "mset (concat (add0 F0 F1 ys) @ concat (add1 F0 F1 ys)) = mset (concat F0 @ concat F1 @ a @ b)"
    using ab(3) s(6) by simp
  have d: "distinct (concat (add0 F0 F1 ys) @ concat (add1 F0 F1 ys))" using mset_eq_imp_distinct_iff [OF m] F(5) by simp
  have "length (concat (add0 F0 F1 ys) @ concat (add1 F0 F1 ys)) < 2 ^ 64" using n m by (metis size_mset)
  then have b: "length (add0 F0 F1 ys) < 2 ^ 64" using length_good [OF g(1)] by simp
  have ne: "add1 F0 F1 ys \<noteq> []" using k(4) F(3) by (auto simp: add1_def)
  have z: "s_size R5 = sz" using r(9) s(10) k(1) by simp
  from file_passes_sort [OF r(6) _ r(7,8) z b ab(1,2) ne g d] obtain S' s' u v J J' where
    p: "file_passes X 0 R5 = Some (True, s', S')" "before T S' s' 1 [u] J" "before T S' (Suc s') 1 [v] J'" "good [u]" "good [v]"
      "mset (u @ v) = mset (concat F0 @ concat F1 @ a @ b)" "same_but {0, 1, 2, 3} R5 S'" unfolding m by blast
  have uv: "set u \<inter> set v = {}" using mset_eq_imp_distinct_iff [OF p(6)] F(5) by simp
  have S': "s_size S' = sz" "s_files_used S'" "s_retrieving S'" using p(7) z r(10,11) s(11,12) h(2) by (simp_all add: same_but_def)
  obtain P1 P2 where i: "cob_read_item X (S'\<lparr>retrieval_queue := s'\<rparr>) s' = Some (True, P1)" "cob_read_item X P1 (Suc s') = Some (True, P2)"
    "returning P2 (smerge lt u v)"
    by (rule first_items [OF p(2-5) uv S'])
  have "cob_file_sort_process X S = Some (COBSORTOK, P2)"
    using s(1,2,13) r(1-5) p(1) i(1,2) h(2) by (simp add: cob_file_sort_process_def)
  moreover have "sorted_wrt lt (smerge lt u v)" by (rule sorted_smerge) (use p(4,5) uv in simp_all)
  moreover have "mset (smerge lt u v) = mset (concat F0 @ concat F1 @ a @ b)" using p(6) by simp
  ultimately show ?thesis using i(3) by blast
qed

lemma process_returns:
  assumes "collecting S rs" "so_tmpfile X 2" "so_tmpfile X 3" "length rs < 2 ^ 64"
  shows "\<exists>S' ys. cob_file_sort_process X S = Some (COBSORTOK, S') \<and> returning S' ys \<and> sorted_wrt lt ys \<and> mset ys = mset rs"
proof -
  obtain F0 F1 a b where h: "holds S F0 F1 a b" "s_files_used S \<longrightarrow> a \<noteq> []" "mset (concat F0 @ concat F1 @ a @ b) = mset rs"
    using assms(1) by (auto simp: collecting_def)
  have "length (concat F0 @ concat F1 @ a @ b) < 2 ^ 64" using h(3) assms(4) by (metis size_mset)
  then show ?thesis
    using process_memory [OF h(1)] process_files [OF h(1) _ _ assms(2,3)] h(2) unfolding h(3) by blast
qed

section \<open>Returning\<close>

lemma returning_accs: "returning (S\<lparr>s_accs := N\<rparr>) ys = returning S ys"
  by (simp add: returning_def)

lemma wrs_front: "length xs \<le> length d \<Longrightarrow> wrs d 0 xs = Some (xs @ drop (length xs) d)"
  by (simp add: wrs_def)

lemma retrieve_end:
  assumes "returning S []"
  shows "\<exists>S'. cob_file_sort_retrieve X S d = Some (COBSORTEND, S', d) \<and> returning S' []"
proof (cases "s_files_used S")
  case True
  then obtain c0 c1 l0 l1 J0 J1 where i: "inside T S (retrieval_queue S) c0 l0 J0" "inside T S (Suc (retrieval_queue S)) c1 l1 J1"
    "l0 = []" "l1 = []" using assms by (auto simp: returning_def dest: sym [of "[]"])
  obtain N where "next_file X S (retrieval_queue S) = Some (choice (retrieval_queue S) l0 l1, S\<lparr>s_accs := N\<rparr>)"
    using next_file_choice [OF i(1,2)] i(3,4) by auto
  moreover have "returning (S\<lparr>s_accs := N\<rparr>) []" using assms by (simp add: returning_accs)
  ultimately show ?thesis using i(3,4) True assms
    by (intro exI [of _ "S\<lparr>s_accs := N\<rparr>"]) (simp add: cob_file_sort_retrieve_def choice_def returning_def)
next
  case False
  then show ?thesis using assms by (intro exI [of _ S]) (simp add: cob_file_sort_retrieve_def returning_def)
qed

lemma inside_next:
  assumes "inside T S n c (x # xs) J" "set xs \<subseteq> A" "s_size S = sz"
  obtains S' where "cob_read_item X S n = Some (True, S')" "inside T S' n c xs J" "same_but {n} S S'"
proof -
  obtain t k where t: "s_file S n = Some t" "s_queue S n = [k]" "tf_count t = c" "drop (tf_pos t) (tf_data t) = encs T xs @ 1 # J"
    using assms(1) by (auto simp: inside_def)
  show ?thesis by (rule read_next [OF t(1,2,4) assms(2,3)]) (use t(3) that in blast)
qed

lemma choice_first:
  assumes "smerge lt l0 l1 = y # ys"
  obtains m0 m1 where "choice q l0 l1 = Some q" "l0 = y # m0" "l1 = m1" "ys = smerge lt m0 m1"
  | m0 m1 where "choice q l0 l1 = Some (Suc q)" "l0 = m0" "l1 = y # m1" "ys = smerge lt m0 m1"
  using assms by (cases l0; cases l1) (auto simp: choice_def split: if_splits)

lemma retrieve_from_file:
  assumes r: "returning S (y # ys)" "s_files_used S" "sz \<le> length d"
  shows "\<exists>S'. cob_file_sort_retrieve X S d = Some (COBSORTOK, S', snd y @ drop sz d) \<and> returning S' ys"
proof -
  let ?q = "retrieval_queue S"
  obtain c0 c1 l0 l1 J0 J1 where i: "inside T S ?q c0 l0 J0" "inside T S (Suc ?q) c1 l1 J1" "set l0 \<inter> set l1 = {}"
    "smerge lt l0 l1 = y # ys" using r(1,2) unfolding returning_def by (auto simp: eq_commute)
  have z: "s_retrieving S" "s_size S = sz" "set (y # ys) \<subseteq> A" using r(1) by (simp_all add: returning_def)
  have A: "set l0 \<subseteq> A" "set l1 \<subseteq> A" "y \<in> A" using z(3) arg_cong [OF i(4), of set] by auto
  obtain N where n: "next_file X S ?q = Some (choice ?q l0 l1, S\<lparr>s_accs := N\<rparr>)"
    using next_file_choice [OF i(1,2) A(1,2) i(3)] by blast
  let ?S = "S\<lparr>s_accs := N\<rparr>"
  have w: "wrs d 0 (take sz (snd y)) = Some (snd y @ drop sz d)"
    using items [OF A(3)] r(3) by (simp add: wrs_front)
  have step: "\<exists>S'. cob_file_sort_retrieve X S d = Some (COBSORTOK, S', snd y @ drop sz d) \<and> returning S' ys"
    if c: "choice ?q l0 l1 = Some m" "inside T ?S m cm (y # xs) J" "set xs \<subseteq> A"
      and rest: "\<And>S'. inside T S' m cm xs J \<Longrightarrow> same_but {m} ?S S' \<Longrightarrow>
        inside T S' ?q c0 m0 J0 \<and> inside T S' (Suc ?q) c1 m1 J1"
      and m: "set m0 \<inter> set m1 = {}" "ys = smerge lt m0 m1" for m cm xs J m0 m1
  proof -
    have "s_size ?S = sz" using z(2) by simp
    then obtain S' where s: "cob_read_item X ?S m = Some (True, S')" "inside T S' m cm xs J" "same_but {m} ?S S'"
      by (rule inside_next [OF c(2,3)])
    have k: "s_retrieving S'" "s_size S' = sz" "s_files_used S'" "retrieval_queue S' = ?q"
      using s(3) z(1,2) r(2) by (simp_all add: same_but_def)
    have "\<exists>c0 c1 l0 l1 J0 J1. inside T S' (retrieval_queue S') c0 l0 J0 \<and>
        inside T S' (Suc (retrieval_queue S')) c1 l1 J1 \<and> set l0 \<inter> set l1 = {} \<and> ys = smerge lt l0 l1"
      unfolding k(4) using rest [OF s(2,3)] m by blast
    then have "returning S' ys" using k z(3) by (simp add: returning_def)
    moreover have "cob_file_sort_retrieve X S d = Some (COBSORTOK, S', snd y @ drop sz d)"
      using n c(1) inside_current(1) [OF c(2)] w s(1) r(2) z(1,2) by (simp add: cob_file_sort_retrieve_def)
    ultimately show ?thesis by blast
  qed
  from i(4) show ?thesis
  proof (cases rule: choice_first [where q = ?q])
    case (1 m0 m1)
    show ?thesis
      by (rule step [OF 1(1), of c0 m0 J0 m0 m1]) (use 1 i A same_but_keeps in auto)
  next
    case (2 m0 m1)
    show ?thesis
      by (rule step [OF 2(1), of c1 m1 J1 m0 m1]) (use 2 i A same_but_keeps in auto)
  qed
qed

lemma retrieve_next:
  assumes "returning S (y # ys)" "sz \<le> length d"
  shows "\<exists>S'. cob_file_sort_retrieve X S d = Some (COBSORTOK, S', snd y @ drop sz d) \<and> returning S' ys"
proof (cases "s_files_used S")
  case True
  then show ?thesis using retrieve_from_file assms by blast
next
  case False
  let ?q = "retrieval_queue S"
  have z: "s_retrieving S" "s_size S = sz" "y \<in> A" "set ys \<subseteq> A" "map pay (s_queue S ?q) = y # ys"
    using assms(1) False by (simp_all add: returning_def)
  then obtain k r where q: "s_queue S ?q = k # r" "pay k = y" "map pay r = ys" by auto
  have w: "wrs d 0 (take sz (ci_item k)) = Some (snd y @ drop sz d)"
    using items [OF z(3)] assms(2) q(2) by (auto simp: wrs_front pay_def)
  have "returning ((put_queue S ?q r)\<lparr>s_empty := Suc (s_empty S)\<rparr>) ys"
    using z q(3) False by (simp add: returning_def put_queue_def)
  then show ?thesis using z(1,2) False q(1) w
    by (intro exI [of _ "(put_queue S ?q r)\<lparr>s_empty := Suc (s_empty S)\<rparr>"]) (simp add: cob_file_sort_retrieve_def)
qed

text \<open>The first RETURN sorts.\<close>

lemma retrieve_first:
  assumes "\<not> s_retrieving S" "cob_file_sort_process X S = Some (COBSORTOK, S')" "s_retrieving S'"
  shows "cob_file_sort_retrieve X S d = cob_file_sort_retrieve X S' d"
  using assms by (simp add: cob_file_sort_retrieve_def)

lemma submit_all_collects:
  assumes "collecting S ns" "set (List.enumerate (length ns) rs) \<subseteq> A" "\<forall>p\<in>set ns. fst p < length ns"
    "length ns + length rs < 2 ^ 64" "so_tmpfile X 0" "so_tmpfile X 1"
  shows "\<exists>S'. submit_all X S rs = Some S' \<and> collecting S' (ns @ List.enumerate (length ns) rs)"
  using assms
proof (induction rs arbitrary: S ns)
  case (Cons r rs)
  have r: "(length ns, r) \<in> A" "(length ns, r) \<notin> set ns" "length ns + 1 < 2 ^ 64" using Cons.prems by auto
  have l: "take sz r = r" "sz \<le> length r" using items [OF r(1)] by simp_all
  obtain S1 where 1: "cob_file_sort_submit X S r = Some (COBSORTOK, S1)" "collecting S1 (ns @ [(length ns, r)])"
    using submit_collects [OF Cons.prems(1) r(1,2) l Cons.prems(5,6) r(3)] by blast
  have "\<exists>S'. submit_all X S1 rs = Some S' \<and>
      collecting S' ((ns @ [(length ns, r)]) @ List.enumerate (length (ns @ [(length ns, r)])) rs)"
    by (rule Cons.IH [OF 1(2)]) (use Cons.prems in auto)
  then show ?case using 1(1) by auto
qed simp

lemma retrieve_all_returns:
  assumes "returning S ys" "sz \<le> length d"
  shows "\<exists>S'. retrieve_all X S d (length ys) = Some (S', map snd ys) \<and> returning S' []"
  using assms
proof (induction ys arbitrary: S d)
  case (Cons y ys)
  obtain S1 where 1: "cob_file_sort_retrieve X S d = Some (COBSORTOK, S1, snd y @ drop sz d)" "returning S1 ys"
    using retrieve_next [OF Cons.prems] by blast
  have "y \<in> A" using Cons.prems(1) by (simp add: returning_def)
  then have l: "length (snd y) = sz" using items by blast
  obtain S' where "retrieve_all X S1 (snd y @ drop sz d) (length ys) = Some (S', map snd ys)" "returning S' []"
    using Cons.IH [OF 1(2), of "snd y @ drop sz d"] l by auto
  moreover have "s_size S1 = sz" using 1(2) by (simp add: returning_def)
  ultimately show ?case using 1(1) l by simp
qed simp

text \<open>A sorted list is determined by its items.\<close>

lemma sorted_unique:
  assumes "sorted_wrt lt xs" "sorted_wrt lt ys" "mset xs = mset ys" "set xs \<subseteq> A"
  shows "xs = ys"
  using assms
proof (induction xs arbitrary: ys)
  case (Cons x xs)
  then obtain y ys' where y: "ys = y # ys'" by (cases ys) auto
  have s: "set ys = insert x (set xs)" using Cons.prems(3) by (metis list.set(2) set_mset_mset)
  have "x = y"
  proof (rule ccontr)
    assume n: "x \<noteq> y"
    then have "lt x y" "lt y x" using Cons.prems(1,2) s y by auto
    moreover have "x \<in> A" "y \<in> A" using Cons.prems(4) s y by auto
    ultimately show False using lt_trans [of x y x] lt_irrefl by blast
  qed
  then show ?case using Cons.IH [of ys'] Cons.prems y by auto
qed simp

lemma collecting_new:
  assumes "4 * (sz + item_head) \<le> mem"
  shows "collecting (new_sort mem sz N) []"
proof -
  have "4 \<le> mem div (sz + item_head)" using assms by (simp only: less_eq_div_iff_mult_less_eq)
  then have "holds (new_sort mem sz N) [] [] [] []" by (simp add: holds_def new_sort_def)
  moreover have "s_unique (new_sort mem sz N) = 0" "\<not> s_files_used (new_sort mem sz N)" by (simp_all add: new_sort_def)
  ultimately show ?thesis unfolding collecting_def
    by (intro conjI exI [of _ "[]"] exI [of _ "[]"]) simp_all
qed

lemma collecting_retrieves:
  assumes "collecting S rs" "so_tmpfile X 2" "so_tmpfile X 3" "length rs < 2 ^ 64" "sz \<le> length d"
  shows "\<exists>S' ys. retrieve_all X S d (length rs) = Some (S', map snd ys) \<and> sorted_wrt lt ys \<and> mset ys = mset rs \<and>
    (\<forall>e. \<exists>S''. cob_file_sort_retrieve X S' e = Some (COBSORTEND, S'', e))"
proof -
  obtain S1 ys where p: "cob_file_sort_process X S = Some (COBSORTOK, S1)" "returning S1 ys" "sorted_wrt lt ys" "mset ys = mset rs"
    using process_returns [OF assms(1-4)] by blast
  have "\<not> s_retrieving S" "s_retrieving S1" using assms(1) p(2) by (auto simp: collecting_def holds_def returning_def)
  then have f: "cob_file_sort_retrieve X S e = cob_file_sort_retrieve X S1 e" for e using retrieve_first p(1) by blast
  have l: "length ys = length rs" using p(4) by (metis size_mset)
  show ?thesis
  proof (cases ys)
    case Nil
    then have "retrieve_all X S d (length rs) = Some (S, map snd ys)" using l by simp
    moreover have "\<forall>e. \<exists>S''. cob_file_sort_retrieve X S e = Some (COBSORTEND, S'', e)"
      unfolding f using retrieve_end p(2) Nil by blast
    ultimately show ?thesis using p(3,4) by blast
  next
    case (Cons y ys')
    then have "length rs = Suc (length ys')" using l by simp
    then have "retrieve_all X S d (length rs) = retrieve_all X S1 d (length ys)" using l f by simp
    then show ?thesis using retrieve_all_returns [OF p(2) assms(5)] retrieve_end p(3,4) by metis
  qed
qed

lemma submitted_then_retrieved:
  assumes "set (List.enumerate 0 rs) \<subseteq> A" "length rs < 2 ^ 64" "\<forall>n<4. so_tmpfile X n" "4 * (sz + item_head) \<le> mem" "sz \<le> length d"
  shows "\<exists>S S' ys. submit_all X (new_sort mem sz N) rs = Some S \<and> retrieve_all X S d (length rs) = Some (S', map snd ys) \<and>
    sorted_wrt lt ys \<and> mset ys = mset (List.enumerate 0 rs) \<and>
    (\<forall>e. \<exists>S''. cob_file_sort_retrieve X S' e = Some (COBSORTEND, S'', e))"
proof -
  have tmp: "so_tmpfile X 0" "so_tmpfile X 1" "so_tmpfile X 2" "so_tmpfile X 3" using assms(3) by simp_all
  obtain S where 1: "submit_all X (new_sort mem sz N) rs = Some S" "collecting S (List.enumerate 0 rs)"
    using submit_all_collects [OF collecting_new [OF assms(4)], of rs N] assms(1,2) tmp by auto
  have l: "length (List.enumerate 0 rs) = length rs" by simp
  show ?thesis using collecting_retrieves [OF 1(2) tmp(3,4), of d] 1(1) assms(2,5) unfolding l by blast
qed

end

section \<open>The order of the keys\<close>

definition record_keys :: "sort_env \<Rightarrow> bytes \<Rightarrow> key_val list option" where
  "record_keys X r = keys_of (so_target X) (so_module X) (sort_collate (so_sort X)) (sort_keys (so_sort X)) r"

definition record_before :: "sort_env \<Rightarrow> bytes \<Rightarrow> bytes \<Rightarrow> bool" where
  "record_before X r s \<longleftrightarrow>
    keys_before (map sk_ascending (sort_keys (so_sort X))) (the (record_keys X r)) (the (record_keys X s))"

text \<open>The reference: each record goes in front of the first one it is not to follow.\<close>

fun place :: "('a \<Rightarrow> 'a \<Rightarrow> bool) \<Rightarrow> 'a \<Rightarrow> 'a list \<Rightarrow> 'a list" where
  "place lt x [] = [x]"
| "place lt x (y # ys) = (if lt y x then y # place lt x ys else x # y # ys)"

definition stable_sort :: "('a \<Rightarrow> 'a \<Rightarrow> bool) \<Rightarrow> 'a list \<Rightarrow> 'a list" where
  "stable_sort lt xs = foldr (place lt) xs []"

text \<open>The items of the records \<open>rs\<close> and their order: by the keys, then by number.\<close>

definition items_of :: "sort_env \<Rightarrow> nat \<Rightarrow> bytes list \<Rightarrow> numbered set" where
  "items_of X sz rs = {p \<in> set (List.enumerate 0 rs). length (snd p) = sz \<and> fst p < 2 ^ 64 \<and> record_keys X (snd p) \<noteq> None}"

definition comes_before :: "sort_env \<Rightarrow> numbered \<Rightarrow> numbered \<Rightarrow> bool" where
  "comes_before X p q \<longleftrightarrow> record_before X (snd p) (snd q) \<or>
     record_keys X (snd p) = record_keys X (snd q) \<and> fst p < fst q"

lemma enumerate_unique: "p \<in> set (List.enumerate n rs) \<Longrightarrow> q \<in> set (List.enumerate n rs) \<Longrightarrow> fst p = fst q \<Longrightarrow> p = q"
  by (auto simp: in_set_enumerate_eq intro: prod_eqI)

lemma comes_before_trans:
  assumes "comes_before X a b" "comes_before X b c"
  shows "comes_before X a c"
proof -
  consider "record_before X (snd a) (snd b)" "record_before X (snd b) (snd c)"
    | "record_before X (snd a) (snd b)" "record_keys X (snd b) = record_keys X (snd c)"
    | "record_keys X (snd a) = record_keys X (snd b)" "record_before X (snd b) (snd c)"
    | "record_keys X (snd a) = record_keys X (snd c)" "fst a < fst c"
    using assms by (auto simp: comes_before_def)
  then show ?thesis
  proof cases
    case 1
    then show ?thesis using keys_before_trans unfolding comes_before_def record_before_def by blast
  qed (simp_all add: comes_before_def record_before_def)
qed

lemma file_compare_order:
  assumes "pay k1 \<in> items_of X sz rs" "pay k2 \<in> items_of X sz rs" "pay k1 \<noteq> pay k2"
  shows "\<exists>c N'. cob_file_sort_compare X N k1 k2 = Some (c, N', k1, k2) \<and> (c < 0 \<longleftrightarrow> comes_before X (pay k1) (pay k2))"
proof -
  obtain vs ws where v: "record_keys X (ci_item k1) = Some vs" "record_keys X (ci_item k2) = Some ws"
    using assms(1,2) by (auto simp: items_of_def pay_def)
  have n: "ci_unique k1 \<noteq> ci_unique k2" using enumerate_unique [of "pay k1" 0 rs "pay k2"] assms by (auto simp: items_of_def) (simp add: pay_def)
  show ?thesis
    using sort_compare_order [OF v [unfolded record_keys_def], of "so_fp X" N] v n
    by (auto simp: cob_file_sort_compare_def comes_before_def record_before_def pay_def)
qed

interpretation srt: file_order "X\<lparr>so_room := \<lambda>_. True\<rparr>" "items_of X sz rs" "comes_before X" sz for X sz rs
proof
  show "\<exists>c N'. cob_file_sort_compare (X\<lparr>so_room := \<lambda>_. True\<rparr>) N k1 k2 = Some (c, N', k1, k2) \<and> (c < 0 \<longleftrightarrow> comes_before X (pay k1) (pay k2))"
    if "pay k1 \<in> items_of X sz rs" "pay k2 \<in> items_of X sz rs" "pay k1 \<noteq> pay k2" for k1 k2 N
    using file_compare_order [OF that, of N] by (simp add: cob_file_sort_compare_def)
  fix a b c
  assume A: "a \<in> items_of X sz rs" "b \<in> items_of X sz rs" "c \<in> items_of X sz rs"
  show "comes_before X a b \<Longrightarrow> comes_before X b c \<Longrightarrow> comes_before X a c"
    by (rule comes_before_trans)
  show "comes_before X a b \<or> comes_before X b a" if "a \<noteq> b"
  proof -
    obtain vs ws where v: "record_keys X (snd a) = Some vs" "record_keys X (snd b) = Some ws"
      using A by (auto simp: items_of_def)
    have "fst a \<noteq> fst b" using A enumerate_unique [of a 0 rs b] that by (auto simp: items_of_def)
    moreover have "length vs = length (sort_keys (so_sort X))" "length ws = length (sort_keys (so_sort X))"
      using v length_keys_of by (simp_all add: record_keys_def)
    ultimately show ?thesis using keys_before_total [of vs "map sk_ascending (sort_keys (so_sort X))" ws] v
      by (auto simp: comes_before_def record_before_def)
  qed
  show "\<not> comes_before X a a" by (simp add: comes_before_def record_before_def)
qed (auto simp: items_of_def)

section \<open>The whole SORT\<close>

lemma mset_place [simp]: "mset (place lt x ys) = add_mset x (mset ys)"
  by (induction ys) simp_all

lemma set_place [simp]: "set (place lt x ys) = insert x (set ys)"
  by (metis mset_place set_mset_add_mset_insert set_mset_mset)

lemma mset_stable_sort: "mset (stable_sort lt xs) = mset xs"
  by (induction xs) (simp_all add: stable_sort_def)

lemma sorted_place:
  assumes "sorted_wrt lt ys" "\<And>y. y \<in> set ys \<Longrightarrow> lt x y \<or> lt y x" "\<And>y z. lt x y \<Longrightarrow> lt y z \<Longrightarrow> lt x z"
  shows "sorted_wrt lt (place lt x ys)"
  using assms
proof (induction ys)
  case (Cons y ys)
  show ?case
  proof (cases "lt y x")
    case True
    then show ?thesis using Cons by auto
  next
    case False
    then have "lt x y" using Cons.prems(2) by auto
    then show ?thesis using Cons.prems False by auto
  qed
qed simp

lemma place_same:
  "(\<And>q. q \<in> set qs \<Longrightarrow> lt q p \<longleftrightarrow> bf (g q) (g p)) \<Longrightarrow> map g (place lt p qs) = place bf (g p) (map g qs)"
  by (induction qs) auto

text \<open>Sorting the numbered records by keys and number is sorting the records stably.\<close>

lemma before_by_number:
  assumes "\<forall>r\<in>set rs. record_keys X r \<noteq> None" "snd p \<in> set rs" "snd q \<in> set rs" "fst p < fst q"
  shows "comes_before X q p \<longleftrightarrow> record_before X (snd q) (snd p)"
  using assms by (auto simp: comes_before_def)

lemma stable_sort_numbered:
  assumes "\<forall>r\<in>set rs. record_keys X r \<noteq> None"
  shows "map snd (stable_sort (comes_before X) (List.enumerate n rs)) = stable_sort (record_before X) rs \<and>
    sorted_wrt (comes_before X) (stable_sort (comes_before X) (List.enumerate n rs))"
  using assms
proof (induction rs arbitrary: n)
  case (Cons r rs)
  let ?qs = "stable_sort (comes_before X) (List.enumerate (Suc n) rs)"
  have qs: "set ?qs = set (List.enumerate (Suc n) rs)" by (metis mset_stable_sort set_mset_mset)
  have IH: "map snd ?qs = stable_sort (record_before X) rs" "sorted_wrt (comes_before X) ?qs" using Cons by simp_all
  have q: "n < fst q" "snd q \<in> set rs" if "q \<in> set ?qs" for q
    using that unfolding qs by (auto simp: in_set_enumerate_eq) (metis nth_mem add.commute add_Suc_right less_diff_conv2)
  have before: "comes_before X q (n, r) \<longleftrightarrow> record_before X (snd q) (snd (n, r))" if "q \<in> set ?qs" for q
    using before_by_number [OF Cons.prems, of "(n, r)" q] q [OF that] by simp
  have total: "comes_before X (n, r) q \<or> comes_before X q (n, r)" if "q \<in> set ?qs" for q
  proof -
    have "record_keys X r \<noteq> None" "record_keys X (snd q) \<noteq> None" using Cons.prems q(2) [OF that] by simp_all
    then obtain vs ws where v: "record_keys X r = Some vs" "record_keys X (snd q) = Some ws" by blast
    then have "length vs = length (sort_keys (so_sort X))" "length ws = length (sort_keys (so_sort X))"
      using length_keys_of by (simp_all add: record_keys_def)
    then show ?thesis using keys_before_total [of vs "map sk_ascending (sort_keys (so_sort X))" ws] v q(1) [OF that]
      by (auto simp: comes_before_def record_before_def)
  qed
  have "map snd (place (comes_before X) (n, r) ?qs) = place (record_before X) r (map snd ?qs)"
    using place_same [of ?qs "comes_before X" "(n, r)" "record_before X" snd] before by simp
  moreover have "sorted_wrt (comes_before X) (place (comes_before X) (n, r) ?qs)"
    by (rule sorted_place [OF IH(2) total comes_before_trans])
  ultimately show ?case using IH(1) by (simp add: stable_sort_def)
qed (simp add: stable_sort_def)

lemma sort_of_records:
  assumes X: "\<forall>n. so_room X n" "\<forall>n<4. so_tmpfile X n"
    and r: "\<forall>r\<in>set rs. length r = sz \<and> record_keys X r \<noteq> None" "length rs < 2 ^ 64"
    and m: "4 * (sz + item_head) \<le> mem" and d: "sz \<le> length d"
  shows "\<exists>S S'. submit_all X (new_sort mem sz N) rs = Some S \<and>
    retrieve_all X S d (length rs) = Some (S', stable_sort (record_before X) rs) \<and>
    (\<forall>e. \<exists>S''. cob_file_sort_retrieve X S' e = Some (COBSORTEND, S'', e))"
proof -
  have "so_room X = (\<lambda>_. True)" using X(1) by auto
  then have Y: "X\<lparr>so_room := \<lambda>_. True\<rparr> = X" by simp
  have A: "set (List.enumerate 0 rs) \<subseteq> items_of X sz rs"
    using r by (fastforce simp: items_of_def in_set_enumerate_eq)
  obtain S S' ys where s: "submit_all X (new_sort mem sz N) rs = Some S" "retrieve_all X S d (length rs) = Some (S', map snd ys)"
    "sorted_wrt (comes_before X) ys" "mset ys = mset (List.enumerate 0 rs)"
    "\<forall>e. \<exists>S''. cob_file_sort_retrieve X S' e = Some (COBSORTEND, S'', e)"
    using srt.submitted_then_retrieved [where X = X, unfolded Y, OF A r(2) X(2) m d] by blast
  have k: "\<forall>r\<in>set rs. record_keys X r \<noteq> None" using r(1) by blast
  have "set ys \<subseteq> items_of X sz rs" using A s(4) by (metis set_mset_mset)
  then have "ys = stable_sort (comes_before X) (List.enumerate 0 rs)"
    using srt.sorted_unique [OF s(3)] stable_sort_numbered [OF k] mset_stable_sort s(4) by metis
  then show ?thesis using s(1,2,5) stable_sort_numbered [OF k] by auto
qed

end
