(* ===== verification/Cob_Dates.thy ===== *)
theory Cob_Dates
  imports Cob_Services
begin

text \<open>
  The date and time functions of intrinsic.c. A function makes a new item for its result
  (\<open>make_field_entry\<close>) and returns it; here the result is that item, beside the exception
  register and the argument as reading leaves it. The eight result items are used in turn;
  a result is taken to be used before its item is.
\<close>

section \<open>Result items\<close>

definition bin_entry :: "nat \<Rightarrow> int \<Rightarrow> u8 \<Rightarrow> nat \<Rightarrow> cob_field" where
  "bin_entry digits scale fl sz = cob_fld COB_TYPE_NUMERIC_BINARY digits scale fl [] (replicate sz 0)"

definition disp_entry :: "nat \<Rightarrow> int \<Rightarrow> bytes \<Rightarrow> cob_field" where
  "disp_entry n scale bs = cob_fld COB_TYPE_NUMERIC_DISPLAY n scale 0 [] bs"

definition int_result :: "target \<Rightarrow> fp_env \<Rightarrow> cob_module \<Rightarrow> int \<Rightarrow> cob_field option" where
  "int_result T E M n = cob_set_int T E M (bin_entry 8 0 0 4) n"

section \<open>The calendar\<close>

definition leap_year :: "int \<Rightarrow> bool" where
  "leap_year y \<longleftrightarrow> (y smod 4 = 0 \<and> y smod 100 \<noteq> 0) \<or> y smod 400 = 0"

definition normal_days :: "int list" where
  "normal_days = [0,31,59,90,120,151,181,212,243,273,304,334,365]"

definition leap_days :: "int list" where
  "leap_days = [0,31,60,91,121,152,182,213,244,274,305,335,366]"

definition normal_month_days :: "int list" where
  "normal_month_days = [0,31,28,31,30,31,30,31,31,30,31,30,31]"

definition leap_month_days :: "int list" where
  "leap_month_days = [0,31,29,31,30,31,30,31,31,30,31,30,31]"

definition year_length :: "int \<Rightarrow> int" where
  "year_length y = (if leap_year y then 366 else 365)"

text \<open>The loop that takes whole years off a day number.\<close>

function year_loop :: "int \<Rightarrow> int \<Rightarrow> int \<Rightarrow> int \<times> int" where
  "year_loop days baseyear leapyear =
    (if days > leapyear \<and> 0 < leapyear then year_loop (days - leapyear) (baseyear + 1) (year_length (baseyear + 1))
     else (days, baseyear))"
  by pat_completeness auto

termination
  by (relation "measure (\<lambda>(days, baseyear, leapyear). nat days)") auto

declare year_loop.simps [simp del]

text \<open>The month whose table entry reaches the day, and the day in it.\<close>

fun month_loop :: "int list \<Rightarrow> int \<Rightarrow> int \<Rightarrow> int \<Rightarrow> int \<times> int" where
  "month_loop [] i prev days = (i, days)"
| "month_loop (d # ds) i prev days = (if days \<le> d then (i, days - prev) else month_loop ds (i + 1) d days)"

definition date_of_days :: "int \<Rightarrow> int \<times> int \<times> int" where
  "date_of_days n =
    (let (days, y) = year_loop n 1601 365;
         (m, d) = month_loop (if leap_year y then leap_days else normal_days) 0 0 days in (y, m, d))"

text \<open>The loop that adds up the years before one, which is not before the first.\<close>

function years_before :: "int \<Rightarrow> int \<Rightarrow> int \<Rightarrow> int" where
  "years_before acc baseyear year =
    (if baseyear < year then years_before (acc + year_length baseyear) (baseyear + 1) year else acc)"
  by pat_completeness auto

termination
  by (relation "measure (\<lambda>(acc, baseyear, year). nat (year - baseyear))") auto

declare years_before.simps [simp del]

text \<open>The checks of a date and of a day, in the order the functions make them.\<close>

definition date_error :: "int \<Rightarrow> int" where
  "date_error indate =
    (let year = indate sdiv 10000; month = (indate smod 10000) sdiv 100; days = (indate smod 10000) smod 100 in
     if year < 1601 \<or> year > 9999 then 1
     else if month < 1 \<or> month > 12 then 2
     else if days < 1 \<or> days > 31 then 3
     else if days > (if leap_year year then leap_month_days else normal_month_days) ! nat month then 3
     else 0)"

definition day_error :: "int \<Rightarrow> int" where
  "day_error indate =
    (let year = indate sdiv 1000; days = indate smod 1000 in
     if year < 1601 \<or> year > 9999 then 1
     else if days < 1 \<or> days > year_length year then 2
     else 0)"

definition days_of_date :: "int \<Rightarrow> int" where
  "days_of_date indate =
    (let year = indate sdiv 10000; month = (indate smod 10000) sdiv 100; days = (indate smod 10000) smod 100 in
     years_before 0 1601 year + (if leap_year year then leap_days else normal_days) ! nat (month - 1) + days)"

definition days_of_day :: "int \<Rightarrow> int" where
  "days_of_day indate = years_before 0 1601 (indate sdiv 1000) + indate smod 1000"

section \<open>The functions\<close>

definition arg_error :: "cob_rt \<Rightarrow> cob_rt" where
  "arg_error R = cob_set_exception R COB_EC_ARGUMENT_FUNCTION"

definition cob_intr_date_of_integer ::
  "target \<Rightarrow> fp_env \<Rightarrow> cob_module \<Rightarrow> cob_rt \<Rightarrow> cob_field \<Rightarrow> (cob_rt \<times> cob_field \<times> cob_field) option" where
  "cob_intr_date_of_integer T E M R srcdays = do {
     let R = cob_clear_exception R;
     (days, srcdays) \<leftarrow> cob_get_int T E M srcdays;
     if days < 1 \<or> days > 3067671 then Some (arg_error R, disp_entry 8 0 (replicate 8 chr_0), srcdays)
     else let (y, m, d) = date_of_days days in
       Some (R, disp_entry 8 0 (pad_digits 4 y @ pad_digits 2 m @ pad_digits 2 d), srcdays) }"

definition cob_intr_day_of_integer ::
  "target \<Rightarrow> fp_env \<Rightarrow> cob_module \<Rightarrow> cob_rt \<Rightarrow> cob_field \<Rightarrow> (cob_rt \<times> cob_field \<times> cob_field) option" where
  "cob_intr_day_of_integer T E M R srcdays = do {
     let R = cob_clear_exception R;
     (days, srcdays) \<leftarrow> cob_get_int T E M srcdays;
     if days < 1 \<or> days > 3067671 then Some (arg_error R, disp_entry 7 0 (replicate 7 chr_0), srcdays)
     else let (d, y) = year_loop days 1601 365 in
       Some (R, disp_entry 7 0 (pad_digits 4 y @ pad_digits 3 d), srcdays) }"

definition cob_intr_integer_of_date ::
  "target \<Rightarrow> fp_env \<Rightarrow> cob_module \<Rightarrow> cob_rt \<Rightarrow> cob_field \<Rightarrow> (cob_rt \<times> cob_field \<times> cob_field) option" where
  "cob_intr_integer_of_date T E M R srcfield = do {
     let R = cob_clear_exception R;
     (indate, srcfield) \<leftarrow> cob_get_int T E M srcfield;
     if date_error indate \<noteq> 0 then map_option (\<lambda>g. (arg_error R, g, srcfield)) (int_result T E M 0)
     else map_option (\<lambda>g. (R, g, srcfield)) (int_result T E M (days_of_date indate)) }"

definition cob_intr_integer_of_day ::
  "target \<Rightarrow> fp_env \<Rightarrow> cob_module \<Rightarrow> cob_rt \<Rightarrow> cob_field \<Rightarrow> (cob_rt \<times> cob_field \<times> cob_field) option" where
  "cob_intr_integer_of_day T E M R srcfield = do {
     let R = cob_clear_exception R;
     (indate, srcfield) \<leftarrow> cob_get_int T E M srcfield;
     if day_error indate \<noteq> 0 then map_option (\<lambda>g. (arg_error R, g, srcfield)) (int_result T E M 0)
     else map_option (\<lambda>g. (R, g, srcfield)) (int_result T E M (days_of_day indate)) }"

definition cob_intr_test_date_yyyymmdd ::
  "target \<Rightarrow> fp_env \<Rightarrow> cob_module \<Rightarrow> cob_field \<Rightarrow> (cob_field \<times> cob_field) option" where
  "cob_intr_test_date_yyyymmdd T E M srcfield = do {
     (indate, srcfield) \<leftarrow> cob_get_int T E M srcfield;
     map_option (\<lambda>g. (g, srcfield)) (int_result T E M (date_error indate)) }"

definition cob_intr_test_day_yyyyddd ::
  "target \<Rightarrow> fp_env \<Rightarrow> cob_module \<Rightarrow> cob_field \<Rightarrow> (cob_field \<times> cob_field) option" where
  "cob_intr_test_day_yyyyddd T E M srcfield = do {
     (indate, srcfield) \<leftarrow> cob_get_int T E M srcfield;
     map_option (\<lambda>g. (g, srcfield)) (int_result T E M (day_error indate)) }"

definition cob_intr_combined_datetime ::
  "target \<Rightarrow> fp_env \<Rightarrow> cob_module \<Rightarrow> cob_rt \<Rightarrow> cob_field \<Rightarrow> cob_field \<Rightarrow>
   (cob_rt \<times> cob_field \<times> cob_field \<times> cob_field) option" where
  "cob_intr_combined_datetime T E M R srcdays srctime = do {
     let R = cob_clear_exception R;
     (srdays, srcdays) \<leftarrow> cob_get_int T E M srcdays;
     if srdays < 1 \<or> srdays > 3067671 then Some (arg_error R, disp_entry 12 5 (replicate 12 chr_0), srcdays, srctime)
     else do {
       (srtime, srctime) \<leftarrow> cob_get_int T E M srctime;
       if srtime < 1 \<or> srtime > 86400 then Some (arg_error R, disp_entry 12 5 (replicate 12 chr_0), srcdays, srctime)
       else Some (R, disp_entry 12 5 (pad_digits 7 srdays @ pad_digits 5 srtime), srcdays, srctime) } }"

text \<open>
  The century window: \<open>args\<close> are the optional second and third argument, \<open>now\<close> is what
  \<open>localtime\<close> gives for the current time. \<open>yy\<close> is the year to complete and \<open>mx\<close> the
  greatest year that is not rejected.
\<close>

definition get_opt_int :: "target \<Rightarrow> fp_env \<Rightarrow> cob_module \<Rightarrow> cob_field option \<Rightarrow> int \<Rightarrow> (int \<times> cob_field option) option" where
  "get_opt_int T E M f n = (case f of None \<Rightarrow> Some (n, None) | Some g \<Rightarrow> map_option (\<lambda>(v, g). (v, Some g)) (cob_get_int T E M g))"

definition window_year :: "int \<Rightarrow> int \<Rightarrow> int \<Rightarrow> int \<Rightarrow> int option" where
  "window_year mx yy interval xqtyear =
    (let maxyear = i32 (xqtyear + interval) in
     if yy < 0 \<or> yy > mx then None
     else if xqtyear < 1601 \<or> xqtyear > 9999 then None
     else if maxyear < 1700 \<or> maxyear > 9999 then None
     else if maxyear smod 100 \<ge> yy then Some (yy + 100 * (maxyear sdiv 100))
     else Some (yy + 100 * (maxyear sdiv 100 - 1)))"

definition window_result ::
  "target \<Rightarrow> fp_env \<Rightarrow> cob_module \<Rightarrow> cob_rt \<Rightarrow> int \<Rightarrow> int \<Rightarrow> int option \<Rightarrow> (cob_rt \<times> cob_field) option" where
  "window_result T E M R k rest y =
    (case y of None \<Rightarrow> map_option (Pair (arg_error R)) (int_result T E M 0)
     | Some y \<Rightarrow> map_option (Pair R) (int_result T E M (i32 (i32 (y * k) + rest))))"

definition cob_intr_year_to_yyyy ::
  "target \<Rightarrow> fp_env \<Rightarrow> cob_module \<Rightarrow> cob_rt \<Rightarrow> tm \<Rightarrow> cob_field \<Rightarrow> cob_field option \<Rightarrow> cob_field option \<Rightarrow>
   (cob_rt \<times> cob_field) option" where
  "cob_intr_year_to_yyyy T E M R now f1 f2 f3 = do {
     (year, _) \<leftarrow> cob_get_int T E M f1;
     (interval, _) \<leftarrow> get_opt_int T E M f2 50;
     (xqtyear, _) \<leftarrow> get_opt_int T E M f3 (1900 + tm_year now);
     window_result T E M (cob_clear_exception R) 1 0 (window_year 99 year interval xqtyear) }"

definition cob_intr_date_to_yyyymmdd ::
  "target \<Rightarrow> fp_env \<Rightarrow> cob_module \<Rightarrow> cob_rt \<Rightarrow> tm \<Rightarrow> cob_field \<Rightarrow> cob_field option \<Rightarrow> cob_field option \<Rightarrow>
   (cob_rt \<times> cob_field) option" where
  "cob_intr_date_to_yyyymmdd T E M R now f1 f2 f3 = do {
     (year, _) \<leftarrow> cob_get_int T E M f1;
     (interval, _) \<leftarrow> get_opt_int T E M f2 50;
     (xqtyear, _) \<leftarrow> get_opt_int T E M f3 (1900 + tm_year now);
     window_result T E M (cob_clear_exception R) 10000 (year smod 10000) (window_year 999999 (year sdiv 10000) interval xqtyear) }"

definition cob_intr_day_to_yyyyddd ::
  "target \<Rightarrow> fp_env \<Rightarrow> cob_module \<Rightarrow> cob_rt \<Rightarrow> tm \<Rightarrow> cob_field \<Rightarrow> cob_field option \<Rightarrow> cob_field option \<Rightarrow>
   (cob_rt \<times> cob_field) option" where
  "cob_intr_day_to_yyyyddd T E M R now f1 f2 f3 = do {
     (year, _) \<leftarrow> cob_get_int T E M f1;
     (interval, _) \<leftarrow> get_opt_int T E M f2 50;
     (xqtyear, _) \<leftarrow> get_opt_int T E M f3 (1900 + tm_year now);
     window_result T E M (cob_clear_exception R) 1000 (year smod 1000) (window_year 999999 (year sdiv 1000) interval xqtyear) }"

definition cob_intr_seconds_past_midnight :: "target \<Rightarrow> fp_env \<Rightarrow> cob_module \<Rightarrow> tm \<Rightarrow> cob_field option" where
  "cob_intr_seconds_past_midnight T E M now = int_result T E M (tm_hour now * 3600 + tm_min now * 60 + tm_sec now)"

text \<open>The fields of a formatted time, each read at the first place of its letters.\<close>

record time_parts =
  tp_hours :: "int option"
  tp_minutes :: "int option"
  tp_seconds :: "int option"

definition two_digits :: "bytes \<Rightarrow> nat \<Rightarrow> int option" where
  "two_digits v n = (if isdigit (v ! n) \<and> isdigit (v ! Suc n) then Some (cob_d2i (v ! n) * 10 + cob_d2i (v ! Suc n)) else None)"

fun time_loop :: "bytes \<Rightarrow> bytes \<Rightarrow> nat list \<Rightarrow> time_parts \<Rightarrow> time_parts" where
  "time_loop fmt v [] P = P"
| "time_loop fmt v (n # ns) P = time_loop fmt v ns
    (case two_digits v n of None \<Rightarrow> P
     | Some k \<Rightarrow>
       if fmt ! n = 104 \<and> fmt ! Suc n = 104 \<and> tp_hours P = None then P\<lparr>tp_hours := Some k\<rparr>
       else if fmt ! n = 109 \<and> fmt ! Suc n = 109 \<and> tp_minutes P = None then P\<lparr>tp_minutes := Some k\<rparr>
       else if fmt ! n = 115 \<and> fmt ! Suc n = 115 \<and> tp_seconds P = None then P\<lparr>tp_seconds := Some k\<rparr>
       else P)"

definition cob_intr_seconds_from_formatted_time ::
  "target \<Rightarrow> fp_env \<Rightarrow> cob_module \<Rightarrow> cob_rt \<Rightarrow> cob_field \<Rightarrow> cob_field \<Rightarrow> (cob_rt \<times> cob_field) option" where
  "cob_intr_seconds_from_formatted_time T E M R fmt v =
    (let R = cob_clear_exception R in
     if fsize v < fsize fmt then map_option (Pair (arg_error R)) (int_result T E M 0)
     else if fsize fmt = 0 then None
     else let P = time_loop (fdata fmt) (fdata v) [0 ..< fsize fmt - 1] \<lparr>tp_hours = None, tp_minutes = None, tp_seconds = None\<rparr> in
       case (tp_hours P, tp_minutes P, tp_seconds P) of
         (Some h, Some m, Some s) \<Rightarrow> map_option (Pair R) (int_result T E M (s + (h * 3600 + m * 60)))
       | _ \<Rightarrow> map_option (Pair (arg_error R)) (int_result T E M 0))"

section \<open>Facts: the calendar\<close>

lemma years_before_acc: "years_before acc b y = acc + years_before 0 b y"
proof (induction "nat (y - b)" arbitrary: acc b)
  case 0
  then show ?case by (simp add: years_before.simps)
next
  case (Suc k)
  then have b: "b < y" "k = nat (y - (b + 1))" by simp_all
  from Suc.hyps(1) [OF b(2), of "acc + year_length b"] Suc.hyps(1) [OF b(2), of "year_length b"] b
  show ?case by (simp add: years_before.simps [of acc b] years_before.simps [of 0 b])
qed

lemma years_before_step: "b < y \<Longrightarrow> years_before 0 b y = year_length b + years_before 0 (b + 1) y"
  by (simp add: years_before.simps [of 0 b] years_before_acc [of "year_length b"])

lemma years_before_same [simp]: "years_before 0 b b = 0"
  by (simp add: years_before.simps)

lemma year_length_bounds: "365 \<le> year_length y" "year_length y \<le> 366"
  by (simp_all add: year_length_def)

lemma year_loop_split:
  "1 \<le> n \<Longrightarrow> year_loop n b (year_length b) = (d, y) \<Longrightarrow>
   b \<le> y \<and> 1 \<le> d \<and> d \<le> year_length y \<and> n = years_before 0 b y + d"
proof (induction "nat n" arbitrary: n b rule: less_induct)
  case less
  show ?case
  proof (cases "n > year_length b")
    case True
    with less.prems(2) have "year_loop (n - year_length b) (b + 1) (year_length (b + 1)) = (d, y)"
      using year_length_bounds(1) [of b] by (simp add: year_loop.simps [of n])
    moreover have "nat (n - year_length b) < nat n" "1 \<le> n - year_length b"
      using True year_length_bounds(1) [of b] by simp_all
    ultimately have "b + 1 \<le> y \<and> 1 \<le> d \<and> d \<le> year_length y \<and> n - year_length b = years_before 0 (b + 1) y + d"
      using less.hyps by blast
    then show ?thesis by (simp add: years_before_step)
  next
    case False
    with less.prems show ?thesis by (auto simp: year_loop.simps [of n])
  qed
qed

lemma year_loop_join:
  "b \<le> y \<Longrightarrow> 1 \<le> d \<Longrightarrow> d \<le> year_length y \<Longrightarrow> year_loop (years_before 0 b y + d) b (year_length b) = (d, y)"
proof (induction "nat (y - b)" arbitrary: b)
  case 0
  then show ?case by (simp add: year_loop.simps)
next
  case (Suc k)
  then have b: "b < y" "k = nat (y - (b + 1))" "b + 1 \<le> y" by simp_all
  from Suc.hyps(1) [OF b(2,3)] Suc.prems have IH: "year_loop (years_before 0 (b + 1) y + d) (b + 1) (year_length (b + 1)) = (d, y)"
    by simp
  have "0 \<le> years_before 0 (b + 1) y"
  proof -
    have "0 \<le> acc \<Longrightarrow> 0 \<le> years_before acc c y" for acc c
      by (induction acc c y rule: years_before.induct)
        (subst years_before.simps, use year_length_bounds(1) in \<open>force intro: add_nonneg_nonneg order_trans [of 0 365]\<close>)
    then show ?thesis by simp
  qed
  then show ?case
    using IH b Suc.prems year_length_bounds(1) [of b]
    by (subst year_loop.simps) (simp add: years_before_step)
qed

text \<open>The closed form of the Gregorian calendar.\<close>

lemma leap_year_mod: "0 \<le> y \<Longrightarrow> leap_year y \<longleftrightarrow> (y mod 4 = 0 \<and> y mod 100 \<noteq> 0) \<or> y mod 400 = 0"
  by (simp add: leap_year_def smod_nonneg)

lemma years_before_snoc: "b \<le> y \<Longrightarrow> years_before 0 b (y + 1) = years_before 0 b y + year_length y"
proof (induction "nat (y - b)" arbitrary: b)
  case 0
  then show ?case by (simp add: years_before_step)
next
  case (Suc k)
  then have b: "b < y" "k = nat (y - (b + 1))" "b + 1 \<le> y" by simp_all
  from Suc.hyps(1) [OF b(2,3)] b show ?case by (simp add: years_before_step)
qed

lemma years_before_closed:
  "years_before 0 1601 (1601 + int k) = 365 * int k + int k div 4 - int k div 100 + int k div 400"
proof (induction k)
  case (Suc k)
  have "leap_year (1601 + int k) \<longleftrightarrow> ((1601 + int k) mod 4 = 0 \<and> (1601 + int k) mod 100 \<noteq> 0) \<or> (1601 + int k) mod 400 = 0"
    by (rule leap_year_mod) simp
  also have "(1601 + int k) mod 4 = (int k + 1) mod 4" using mod_mult_self1 [of "int k + 1" 400 4] by (simp add: add.commute)
  also have "(1601 + int k) mod 100 = (int k + 1) mod 100" using mod_mult_self1 [of "int k + 1" 16 100] by (simp add: add.commute)
  also have "(1601 + int k) mod 400 = (int k + 1) mod 400" using mod_mult_self1 [of "int k + 1" 4 400] by (simp add: add.commute)
  finally have l: "leap_year (1601 + int k) \<longleftrightarrow> ((int k + 1) mod 4 = 0 \<and> (int k + 1) mod 100 \<noteq> 0) \<or> (int k + 1) mod 400 = 0" .
  have d: "(int k + 1) div m = int k div m + (if (int k + 1) mod m = 0 then 1 else 0)" if "1 < m" for m :: int
  proof -
    have "(int k + 1) div m = int k div m + ((int k mod m) + 1) div m"
      using that by (subst div_add1_eq) simp
    moreover have "((int k mod m) + 1) div m = (if (int k + 1) mod m = 0 then 1 else 0)"
    proof (cases "int k mod m + 1 = m")
      case True
      then have "(int k + 1) mod m = 0" by (metis mod_add_left_eq mod_self)
      with True that show ?thesis by simp
    next
      case False
      have "0 \<le> int k mod m" "int k mod m < m" using that by simp_all
      with False have "int k mod m + 1 < m" "0 \<le> int k mod m + 1" by linarith+
      moreover from this have "(int k + 1) mod m = int k mod m + 1" by (metis mod_add_left_eq mod_pos_pos_trivial)
      ultimately show ?thesis using \<open>0 \<le> int k mod m\<close> by simp
    qed
    ultimately show ?thesis by simp
  qed
  have "years_before 0 1601 (1601 + int (Suc k)) = years_before 0 1601 (1601 + int k) + year_length (1601 + int k)"
    using years_before_snoc [of 1601 "1601 + int k"] by (simp add: add.assoc add.commute)
  moreover define p4 p100 p400 where "p4 \<longleftrightarrow> (int k + 1) mod 4 = 0" "p100 \<longleftrightarrow> (int k + 1) mod 100 = 0" "p400 \<longleftrightarrow> (int k + 1) mod 400 = 0"
  have "p400 \<longrightarrow> p100 \<and> p4" "p100 \<longrightarrow> p4"
    using dvd_trans [of 100 400 "int k + 1"] dvd_trans [of 4 100 "int k + 1"] dvd_trans [of 4 400 "int k + 1"]
    by (simp_all add: p4_p100_p400_def mod_eq_0_iff_dvd)
  then have "year_length (1601 + int k) = 365 + (if p4 then 1 else 0) - (if p100 then 1 else 0) + (if p400 then 1 else 0)"
    using l by (auto simp: year_length_def simp flip: p4_p100_p400_def)
  ultimately have "years_before 0 1601 (1601 + int (Suc k)) = 365 * int k + 365 + (int k div 4 + (if p4 then 1 else 0)) -
      (int k div 100 + (if p100 then 1 else 0)) + (int k div 400 + (if p400 then 1 else 0))"
    using Suc by simp
  also have "int k div 4 + (if p4 then 1 else 0) = (int k + 1) div 4" unfolding p4_p100_p400_def by (rule d [symmetric]) simp
  also have "int k div 100 + (if p100 then 1 else 0) = (int k + 1) div 100" unfolding p4_p100_p400_def by (rule d [symmetric]) simp
  also have "int k div 400 + (if p400 then 1 else 0) = (int k + 1) div 400" unfolding p4_p100_p400_def by (rule d [symmetric]) simp
  finally show ?case by (simp add: add.commute)
qed simp

lemma years_before_9999: "years_before 0 1601 10000 = 3067671"
  using years_before_closed [of 8399] by simp

lemma years_before_mono: "b \<le> y \<Longrightarrow> y \<le> z \<Longrightarrow> years_before 0 b y \<le> years_before 0 b z"
proof (induction "nat (z - y)" arbitrary: y)
  case (Suc k)
  then have "years_before 0 b (y + 1) \<le> years_before 0 b z" by simp
  then show ?case using years_before_snoc [OF Suc.prems(1)] year_length_bounds(1) [of y] by simp
qed simp

text \<open>Months: the tables are the sums of the lengths of the months.\<close>

definition month_table :: "int \<Rightarrow> int list" where
  "month_table y = (if leap_year y then leap_days else normal_days)"

definition month_length :: "int \<Rightarrow> int \<Rightarrow> int" where
  "month_length y m = (if leap_year y then leap_month_days else normal_month_days) ! nat m"

lemmas day_tables = leap_days_def normal_days_def leap_month_days_def normal_month_days_def

lemma months: "1 \<le> m \<Longrightarrow> m \<le> 12 \<Longrightarrow> m \<in> {1, 2, 3, 4, 5, 6, 7, 8, 9, 10, 11, 12 :: int}"
  by (simp only: insert_iff empty_iff) presburger

lemma month_loop_split:
  assumes "1 \<le> n" "n \<le> year_length y" "month_loop (month_table y) 0 0 n = (m, d)"
  shows "1 \<le> m \<and> m \<le> 12 \<and> 1 \<le> d \<and> d \<le> month_length y m \<and> month_table y ! nat (m - 1) + d = n"
  using assms by (cases "leap_year y") (auto simp: month_table_def month_length_def year_length_def day_tables split: if_splits)

lemma month_loop_join:
  assumes "1 \<le> m" "m \<le> 12" "1 \<le> d" "d \<le> month_length y m"
  shows "month_loop (month_table y) 0 0 (month_table y ! nat (m - 1) + d) = (m, d) \<and>
    1 \<le> month_table y ! nat (m - 1) + d \<and> month_table y ! nat (m - 1) + d \<le> year_length y"
proof (cases "leap_year y")
  case True
  then show ?thesis using months [OF assms(1,2)] assms(3,4)
    by (simp only: insert_iff empty_iff, elim disjE; simp add: month_table_def month_length_def year_length_def day_tables)
next
  case False
  then show ?thesis using months [OF assms(1,2)] assms(3,4)
    by (simp only: insert_iff empty_iff, elim disjE; simp add: month_table_def month_length_def year_length_def day_tables)
qed

lemma month_length_31: "1 \<le> m \<Longrightarrow> m \<le> 12 \<Longrightarrow> month_length y m \<le> 31"
  using months [of m] by (cases "leap_year y") (auto simp: month_length_def day_tables)

text \<open>A date as a number, and its parts.\<close>

lemma ymd_parts:
  fixes y m d :: int
  assumes "0 \<le> y" "0 \<le> m" "m < 100" "0 \<le> d" "d < 100"
  shows "(y * 10000 + m * 100 + d) sdiv 10000 = y" "((y * 10000 + m * 100 + d) smod 10000) sdiv 100 = m"
    "((y * 10000 + m * 100 + d) smod 10000) smod 100 = d"
proof -
  have "0 \<le> m * 100 + d" "m * 100 + d < 10000" using assms by linarith+
  then have "(y * 10000 + (m * 100 + d)) div 10000 = y" "(y * 10000 + (m * 100 + d)) mod 10000 = m * 100 + d"
    by (simp_all only: div_mult_self3 div_mult_self_is_m mod_mult_self3 div_pos_pos_trivial mod_pos_pos_trivial)
  moreover have "(m * 100 + d) div 100 = m" "(m * 100 + d) mod 100 = d" using assms by simp_all
  ultimately have "(y * 10000 + m * 100 + d) div 10000 = y" "(y * 10000 + m * 100 + d) mod 10000 = m * 100 + d"
    "(m * 100 + d) div 100 = m" "(m * 100 + d) mod 100 = d" by (simp_all add: add.assoc)
  then show "(y * 10000 + m * 100 + d) sdiv 10000 = y" "((y * 10000 + m * 100 + d) smod 10000) sdiv 100 = m"
    "((y * 10000 + m * 100 + d) smod 10000) smod 100 = d"
    using assms(1,2,4) by (simp_all add: sdiv_nonneg smod_nonneg)
qed

definition valid_date :: "int \<Rightarrow> int \<Rightarrow> int \<Rightarrow> bool" where
  "valid_date y m d \<longleftrightarrow> 1601 \<le> y \<and> y \<le> 9999 \<and> 1 \<le> m \<and> m \<le> 12 \<and> 1 \<le> d \<and> d \<le> month_length y m"

text \<open>The number of the day, counted from 1 January 1601.\<close>

definition day_number :: "int \<Rightarrow> int \<Rightarrow> int \<Rightarrow> int" where
  "day_number y m d = 365 * (y - 1601) + (y - 1601) div 4 - (y - 1601) div 100 + (y - 1601) div 400 +
     month_table y ! nat (m - 1) + d"

lemma years_before_number: "1601 \<le> y \<Longrightarrow>
    years_before 0 1601 y = 365 * (y - 1601) + (y - 1601) div 4 - (y - 1601) div 100 + (y - 1601) div 400"
  using years_before_closed [of "nat (y - 1601)"] by simp

lemma date_number:
  assumes "valid_date y m d"
  shows "date_error (y * 10000 + m * 100 + d) = 0" "days_of_date (y * 10000 + m * 100 + d) = day_number y m d"
proof -
  have v: "1601 \<le> y" "y \<le> 9999" "1 \<le> m" "m \<le> 12" "1 \<le> d" "d \<le> month_length y m" using assms by (simp_all add: valid_date_def)
  have d: "d \<le> 31" using month_length_31 [OF v(3,4), of y] v(6) by linarith
  have p: "(y * 10000 + m * 100 + d) sdiv 10000 = y" "((y * 10000 + m * 100 + d) smod 10000) sdiv 100 = m"
    "((y * 10000 + m * 100 + d) smod 10000) smod 100 = d"
    using v d by (intro ymd_parts; linarith)+
  show "date_error (y * 10000 + m * 100 + d) = 0"
    unfolding date_error_def p Let_def using v d by (auto simp: month_length_def)
  show "days_of_date (y * 10000 + m * 100 + d) = day_number y m d"
    unfolding days_of_date_def p Let_def using years_before_number [OF v(1)] by (simp add: day_number_def month_table_def)
qed

lemma date_of_number:
  assumes "1 \<le> n" "n \<le> 3067671"
  obtains y m d where "date_of_days n = (y, m, d)" "valid_date y m d" "day_number y m d = n"
proof -
  obtain k y where k: "year_loop n 1601 (year_length 1601) = (k, y)" by (metis surj_pair)
  have yl: "year_length 1601 = 365" by code_simp
  have s: "1601 \<le> y" "1 \<le> k" "k \<le> year_length y" "n = years_before 0 1601 y + k"
    using year_loop_split [OF assms(1) k] by simp_all
  obtain m d where m: "month_loop (month_table y) 0 0 k = (m, d)" by (metis surj_pair)
  have md: "1 \<le> m" "m \<le> 12" "1 \<le> d" "d \<le> month_length y m" "month_table y ! nat (m - 1) + d = k"
    using month_loop_split [OF s(2,3) m] by simp_all
  have "y < 10000"
  proof (rule ccontr)
    assume "\<not> y < 10000"
    then have "years_before 0 1601 10000 \<le> years_before 0 1601 y" by (intro years_before_mono) simp_all
    then show False using s assms(2) years_before_9999 by simp
  qed
  then have "valid_date y m d" using s(1) md by (simp add: valid_date_def)
  moreover have "date_of_days n = (y, m, d)" using k m by (simp add: date_of_days_def yl month_table_def)
  moreover have "day_number y m d = n" using s(1,4) md(5) by (simp add: day_number_def years_before_number)
  ultimately show ?thesis using that by blast
qed

lemma number_of_date:
  assumes "valid_date y m d"
  shows "date_of_days (day_number y m d) = (y, m, d)" "1 \<le> day_number y m d" "day_number y m d \<le> 3067671"
proof -
  have v: "1601 \<le> y" "y \<le> 9999" "1 \<le> m" "m \<le> 12" "1 \<le> d" "d \<le> month_length y m" using assms by (simp_all add: valid_date_def)
  let ?k = "month_table y ! nat (m - 1) + d"
  have j: "month_loop (month_table y) 0 0 ?k = (m, d)" "1 \<le> ?k" "?k \<le> year_length y"
    using month_loop_join [OF v(3-6)] by simp_all
  have n: "day_number y m d = years_before 0 1601 y + ?k" using v(1) by (simp add: day_number_def years_before_number)
  have yl: "year_length 1601 = 365" by code_simp
  show "date_of_days (day_number y m d) = (y, m, d)"
    unfolding n date_of_days_def yl [symmetric] year_loop_join [OF v(1) j(2,3)]
    using j(1) by (simp add: month_table_def)
  have "years_before 0 1601 1601 \<le> years_before 0 1601 y" using v(1) by (intro years_before_mono) simp_all
  then show "1 \<le> day_number y m d" unfolding n using j(2) by simp
  have "years_before 0 1601 (y + 1) \<le> years_before 0 1601 10000" using v(1,2) by (intro years_before_mono) simp_all
  then show "day_number y m d \<le> 3067671" unfolding n
    using j(3) years_before_snoc [OF v(1)] years_before_9999 by simp
qed

text \<open>What is not rejected is a date.\<close>

lemma date_checks:
  assumes "(if y < 1601 \<or> y > 9999 then 1 else if m < 1 \<or> m > 12 then 2 else if d < 1 \<or> d > 31 then 3
     else if d > (if leap_year y then leap_month_days else normal_month_days) ! nat m then 3 else 0) = (0 :: int)"
  shows "valid_date y m d"
  using assms by (simp add: valid_date_def month_length_def split: if_splits)

lemma date_error_valid:
  assumes "0 \<le> x" "date_error x = 0"
  shows "valid_date (x div 10000) (x mod 10000 div 100) (x mod 100)" "x = x div 10000 * 10000 + x mod 10000 div 100 * 100 + x mod 100"
proof -
  have e: "x sdiv 10000 = x div 10000" "(x smod 10000) sdiv 100 = x mod 10000 div 100" "(x smod 10000) smod 100 = x mod 100"
    using assms(1) by (simp_all add: sdiv_nonneg smod_nonneg mod_mod_cancel)
  show "valid_date (x div 10000) (x mod 10000 div 100) (x mod 100)"
    using assms(2) unfolding date_error_def e Let_def
    by (rule date_checks)
  show "x = x div 10000 * 10000 + x mod 10000 div 100 * 100 + x mod 100"
  proof -
    have "x mod 10000 mod 100 = x mod 100" by (simp add: mod_mod_cancel)
    then show ?thesis using div_mult_mod_eq [of x 10000] div_mult_mod_eq [of "x mod 10000" 100] by linarith
  qed
qed

section \<open>Facts: results as items\<close>

lemma int_acc_digits:
  assumes "all_digits ds" "0 \<le> v" "v * 10 ^ length ds + dec_val ds < 2 ^ 31"
  shows "int_acc 32 v (map cob_d2i ds) = v * 10 ^ length ds + dec_val ds"
  using assms
proof (induction ds arbitrary: v)
  case (Cons d ds)
  have d: "0 \<le> cob_d2i d" and ds: "all_digits ds" using Cons.prems(1) by (simp_all add: isdigit_iff)
  have eq: "v * 10 ^ length (d # ds) + dec_val (d # ds) = (v * 10 + cob_d2i d) * 10 ^ length ds + dec_val ds"
    by (simp add: dec_val_Cons algebra_simps)
  have "0 \<le> dec_val ds" "1 \<le> (10 :: int) ^ length ds" using dec_val_nonneg [OF ds] by simp_all
  moreover have "0 \<le> v * 10 + cob_d2i d" using Cons.prems(2) d by simp
  ultimately have "v * 10 + cob_d2i d \<le> (v * 10 + cob_d2i d) * 10 ^ length ds + dec_val ds"
    by (smt (verit, best) mult_le_cancel_left1)
  then have s: "v * 10 + cob_d2i d < 2 ^ 31" using Cons.prems(3) unfolding eq by linarith
  have "signed_take_bit 31 (signed_take_bit 31 (v * 10) + cob_d2i d) = v * 10 + cob_d2i d"
    using s d Cons.prems(2) by (simp add: signed_take_bit_int_eq_self)
  then show ?case
    using Cons.IH [OF ds, of "v * 10 + cob_d2i d"] Cons.prems(2,3) d unfolding eq by simp
qed simp

lemma get_int_digits:
  assumes "all_digits bs" "length bs \<le> 9"
  shows "cob_get_int T E M (disp_entry n 0 bs) = Some (dec_val bs, disp_entry n 0 bs)"
proof -
  let ?f = "disp_entry n 0 bs" and ?z = "takeWhile (\<lambda>b. cob_d2i b = 0) bs"
  have f: "field_type ?f = COB_TYPE_NUMERIC_DISPLAY" "have_sign ?f = False" "field_scale ?f = 0" "field_bytes ?f = bs"
    by (simp_all add: disp_entry_def field_bytes_def data_off_def data_size_def)
  have "dec_val ?z = 0"
  proof (induction bs)
    case (Cons b bs)
    then show ?case by (simp add: dec_val_Cons)
  qed simp
  moreover have "bs = ?z @ drop (length ?z) bs" by (metis append_take_drop_id takeWhile_eq_take)
  ultimately have v: "dec_val (drop (length ?z) bs) = dec_val bs"
    using dec_val_append [of ?z "drop (length ?z) bs"] by simp
  have ad: "all_digits (drop (length ?z) bs)" using assms(1) by (simp only: all_digits_def list_all_iff) (meson in_set_dropD)
  have "dec_val bs < 10 ^ length bs" by (rule dec_val_less [OF assms(1)])
  also have "\<dots> \<le> (10 :: int) ^ 9" using assms(2) by (intro power_increasing) simp_all
  finally have b: "dec_val bs < 2 ^ 31" "0 \<le> dec_val bs" using dec_val_nonneg [OF assms(1)] by simp_all
  have "int_acc 32 0 (map cob_d2i (drop (length ?z) bs)) = dec_val bs"
    using int_acc_digits [OF ad, of 0] v b by simp
  then have "display_get 32 9 M ?f = Some (dec_val bs, ?f)"
    using f b by (simp add: display_get_def display_int_digits_def cob_get_sign_def cob_put_sign_def Let_def
        drop_map [symmetric] signed_take_bit_int_eq_self)
  then show ?thesis using f by (simp add: cob_get_int_def cob_display_get_int_def)
qed

lemma int_result_val:
  assumes "flag_binary_truncate M" "0 \<le> n" "n < 10 ^ 8"
  shows "\<exists>g. int_result T E M n = Some g \<and> num_val T M g = Some n \<and> same_shape (bin_entry 8 0 0 4) g"
proof -
  let ?t = "bin_entry 8 0 0 4"
  have t: "field_type ?t = COB_TYPE_NUMERIC_BINARY" "\<not> have_sign ?t" "fsize ?t = 4" "\<not> real_binary ?t" "field_digits ?t = 8"
    "field_scale ?t = 0" by (simp_all add: bin_entry_def)
  have v: "num_val T M (int_temp T 9 4 n) = Some n" using assms by (intro int_temp_val) simp_all
  have "num_target M ?t" using t assms(1) by (simp add: num_target_def wf_binary_def)
  moreover have "move_fits (int_temp T 9 4 n) ?t n"
    using t assms by (simp add: move_fits_def int_temp_def source_len_def rescale_def)
  ultimately have "moved T M (int_temp T 9 4 n) ?t n (cob_move T E M (int_temp T 9 4 n) ?t)" by (rule move_num [OF v])
  moreover have "move_result ?t n 0 = n" using assms t by (simp add: move_result_def rescale_def capacity_def)
  moreover have "field_scale (int_temp T 9 4 n) = 0" by (simp add: int_temp_def)
  ultimately show ?thesis using t by (auto simp: moved_def int_result_def cob_set_int_def)
qed

lemma date_text:
  assumes "valid_date y m d"
  shows "dec_val (pad_digits 4 y @ pad_digits 2 m @ pad_digits 2 d) = y * 10000 + m * 100 + d"
proof -
  have "m < 100" "d < 100" "y < 10000" "0 \<le> y" "0 \<le> m" "0 \<le> d"
    using assms month_length_31 [of m y] by (auto simp: valid_date_def)
  then show ?thesis by (simp add: dec_val_append dec_val_pad)
qed

lemma integer_of_date_item:
  assumes "flag_binary_truncate M" "valid_date y m d"
  shows "\<exists>g. cob_intr_integer_of_date T E M R (disp_entry 8 0 (pad_digits 4 y @ pad_digits 2 m @ pad_digits 2 d)) =
      Some (cob_clear_exception R, g, disp_entry 8 0 (pad_digits 4 y @ pad_digits 2 m @ pad_digits 2 d)) \<and>
    num_val T M g = Some (day_number y m d)"
proof -
  let ?bs = "pad_digits 4 y @ pad_digits 2 m @ pad_digits 2 d"
  have "cob_get_int T E M (disp_entry 8 0 ?bs) = Some (y * 10000 + m * 100 + d, disp_entry 8 0 ?bs)"
    using get_int_digits [of ?bs T E M 8] date_text [OF assms(2)] by simp
  moreover have "0 \<le> day_number y m d" "day_number y m d < 10 ^ 8" using number_of_date(2,3) [OF assms(2)] by simp_all
  then obtain g where "int_result T E M (day_number y m d) = Some g" "num_val T M g = Some (day_number y m d)"
    using int_result_val [OF assms(1)] by blast
  ultimately show ?thesis using date_number [OF assms(2)] by (simp add: cob_intr_integer_of_date_def Let_def)
qed

lemma date_of_integer_item:
  assumes "cob_get_int T E M f = Some (n, f')" "1 \<le> n" "n \<le> 3067671"
  obtains y m d where "valid_date y m d" "day_number y m d = n"
    "cob_intr_date_of_integer T E M R f = Some (cob_clear_exception R,
       disp_entry 8 0 (pad_digits 4 y @ pad_digits 2 m @ pad_digits 2 d), f')"
proof -
  obtain y m d where d: "date_of_days n = (y, m, d)" "valid_date y m d" "day_number y m d = n"
    by (rule date_of_number [OF assms(2,3)])
  show ?thesis by (rule that [OF d(2,3)]) (use assms d(1) in \<open>simp add: cob_intr_date_of_integer_def Let_def\<close>)
qed

text \<open>The same for years and days: the day of the year.\<close>

lemma day_of_number:
  assumes "1 \<le> n" "n \<le> 3067671"
  obtains k y where "year_loop n 1601 365 = (k, y)" "1601 \<le> y" "y \<le> 9999" "1 \<le> k" "k \<le> year_length y"
    "n = years_before 0 1601 y + k"
proof -
  obtain k y where k: "year_loop n 1601 (year_length 1601) = (k, y)" by (metis surj_pair)
  have yl: "year_length 1601 = 365" by code_simp
  have s: "1601 \<le> y" "1 \<le> k" "k \<le> year_length y" "n = years_before 0 1601 y + k"
    using year_loop_split [OF assms(1) k] by simp_all
  have "y \<le> 9999"
  proof (rule ccontr)
    assume "\<not> y \<le> 9999"
    then have "years_before 0 1601 10000 \<le> years_before 0 1601 y" by (intro years_before_mono) simp_all
    then show False using s(2,4) assms(2) years_before_9999 by simp
  qed
  then show thesis using that s k yl by simp
qed

lemma yd_parts:
  assumes "0 \<le> y" "0 \<le> k" "k < (1000 :: int)"
  shows "(y * 1000 + k) sdiv 1000 = y" "(y * 1000 + k) smod 1000 = k"
  using assms by (simp_all add: sdiv_nonneg smod_nonneg)

lemma day_of_integer_item:
  assumes "flag_binary_truncate M" "cob_get_int T E M f = Some (n, f')" "1 \<le> n" "n \<le> 3067671"
  obtains y k g where "1601 \<le> y" "y \<le> 9999" "1 \<le> k" "k \<le> year_length y"
    "cob_intr_day_of_integer T E M R f = Some (cob_clear_exception R, disp_entry 7 0 (pad_digits 4 y @ pad_digits 3 k), f')"
    "cob_intr_integer_of_day T E M R' (disp_entry 7 0 (pad_digits 4 y @ pad_digits 3 k)) =
       Some (cob_clear_exception R', g, disp_entry 7 0 (pad_digits 4 y @ pad_digits 3 k))" "num_val T M g = Some n"
proof -
  obtain k y where k: "year_loop n 1601 365 = (k, y)" "1601 \<le> y" "y \<le> 9999" "1 \<le> k" "k \<le> year_length y"
    "n = years_before 0 1601 y + k" by (rule day_of_number [OF assms(3,4)])
  let ?bs = "pad_digits 4 y @ pad_digits 3 k"
  have k3: "k < 1000" using k(5) year_length_bounds(2) [of y] by linarith
  have "dec_val ?bs = y * 1000 + k" using k k3 by (simp add: dec_val_append dec_val_pad)
  then have gi: "cob_get_int T E M (disp_entry 7 0 ?bs) = Some (y * 1000 + k, disp_entry 7 0 ?bs)"
    using get_int_digits [of ?bs T E M 7] by simp
  have p: "(y * 1000 + k) sdiv 1000 = y" "(y * 1000 + k) smod 1000 = k" by (rule yd_parts; use k k3 in linarith)+
  have d: "day_error (y * 1000 + k) = 0" "days_of_day (y * 1000 + k) = n"
    unfolding day_error_def days_of_day_def p Let_def using k by simp_all
  obtain g where "int_result T E M n = Some g" "num_val T M g = Some n"
    using int_result_val [OF assms(1), of n] assms(3,4) by auto
  then show thesis using that [OF k(2,3,4,5)] k(1) assms(2-4) gi d
    by (simp add: cob_intr_day_of_integer_def cob_intr_integer_of_day_def Let_def)
qed

text \<open>A date that is none: the result is 0 and EC-ARGUMENT-FUNCTION is raised.\<close>

lemma date_checked:
  assumes "flag_binary_truncate M" "all_digits bs" "length bs = 8" "x = dec_val bs"
    and ymd: "y = x div 10000" "m = x mod 10000 div 100" "d = x mod 100"
  shows "\<exists>g. cob_intr_integer_of_date T E M R (disp_entry 8 0 bs) =
      Some (if valid_date y m d then cob_clear_exception R else arg_error (cob_clear_exception R), g, disp_entry 8 0 bs) \<and>
    num_val T M g = Some (if valid_date y m d then day_number y m d else 0)"
    and "\<exists>g. cob_intr_test_date_yyyymmdd T E M (disp_entry 8 0 bs) = Some (g, disp_entry 8 0 bs) \<and>
      num_val T M g = Some (if valid_date y m d then 0
        else if y < 1601 \<or> 9999 < y then 1 else if m < 1 \<or> 12 < m then 2 else 3)"
proof -
  have x: "0 \<le> x" using dec_val_nonneg [OF assms(2)] assms(4) by simp
  have e: "x sdiv 10000 = y" "(x smod 10000) sdiv 100 = m" "(x smod 10000) smod 100 = d"
    using x ymd by (simp_all add: sdiv_nonneg smod_nonneg mod_mod_cancel)
  have g: "cob_get_int T E M (disp_entry 8 0 bs) = Some (x, disp_entry 8 0 bs)"
    using get_int_digits [OF assms(2)] assms(3,4) by simp
  have v: "date_error x = 0 \<longleftrightarrow> valid_date y m d"
  proof
    assume "date_error x = 0"
    then show "valid_date y m d" using date_error_valid(1) [OF x] ymd by simp
  next
    assume v: "valid_date y m d"
    have "x mod 10000 mod 100 = x mod 100" by (simp add: mod_mod_cancel)
    then have "x = y * 10000 + m * 100 + d" using ymd div_mult_mod_eq [of x 10000] div_mult_mod_eq [of "x mod 10000" 100] by linarith
    then show "date_error x = 0" using date_number(1) [OF v] by simp
  qed
  have n: "days_of_date x = day_number y m d" if v: "valid_date y m d"
  proof -
    have "x mod 10000 mod 100 = x mod 100" by (simp add: mod_mod_cancel)
    then have "x = y * 10000 + m * 100 + d" using ymd div_mult_mod_eq [of x 10000] div_mult_mod_eq [of "x mod 10000" 100] by linarith
    then show ?thesis using date_number(2) [OF v] by simp
  qed
  have r: "\<exists>g. int_result T E M k = Some g \<and> num_val T M g = Some k" if "0 \<le> k" "k < 10 ^ 8" for k
    using int_result_val [OF assms(1) that, of T E] by blast
  show "\<exists>g. cob_intr_integer_of_date T E M R (disp_entry 8 0 bs) =
      Some (if valid_date y m d then cob_clear_exception R else arg_error (cob_clear_exception R), g, disp_entry 8 0 bs) \<and>
    num_val T M g = Some (if valid_date y m d then day_number y m d else 0)"
  proof (cases "valid_date y m d")
    case True
    then show ?thesis using r [of "day_number y m d"] number_of_date(2,3) [OF True] g v n
      by (auto simp: cob_intr_integer_of_date_def Let_def)
  next
    case False
    then show ?thesis using r [of 0] g v by (auto simp: cob_intr_integer_of_date_def Let_def)
  qed
  have er: "date_error x = (if valid_date y m d then 0
      else if y < 1601 \<or> 9999 < y then 1 else if m < 1 \<or> 12 < m then 2 else 3)"
    using v unfolding date_error_def e Let_def by (auto split: if_splits)
  then have "0 \<le> date_error x" "date_error x < 10 ^ 8" by simp_all
  from r [OF this] show "\<exists>g. cob_intr_test_date_yyyymmdd T E M (disp_entry 8 0 bs) = Some (g, disp_entry 8 0 bs) \<and>
      num_val T M g = Some (if valid_date y m d then 0
        else if y < 1601 \<or> 9999 < y then 1 else if m < 1 \<or> 12 < m then 2 else 3)"
    using g er by (auto simp: cob_intr_test_date_yyyymmdd_def)
qed

lemma test_date_item:
  assumes "flag_binary_truncate M" "valid_date y m d"
  shows "\<exists>t. cob_intr_test_date_yyyymmdd T E M (disp_entry 8 0 (pad_digits 4 y @ pad_digits 2 m @ pad_digits 2 d)) =
      Some (t, disp_entry 8 0 (pad_digits 4 y @ pad_digits 2 m @ pad_digits 2 d)) \<and> num_val T M t = Some 0"
  using get_int_digits [of "pad_digits 4 y @ pad_digits 2 m @ pad_digits 2 d" T E M 8] date_text [OF assms(2)]
    int_result_val [OF assms(1), of 0 T E] date_number(1) [OF assms(2)]
  by (auto simp: cob_intr_test_date_yyyymmdd_def)

lemma arg_error_code: "exception_code (arg_error R) = 0x0101"
  by (simp add: arg_error_def cob_set_exception_def cob_exception_tab_code_def exception_def_def Let_def)

lemma dates_invert:
  assumes "flag_binary_truncate M" "cob_get_int T E M f = Some (n, f')" "1 \<le> n" "n \<le> 3067671"
  shows "\<exists>y m d g u t. valid_date y m d \<and> n = day_number y m d \<and> fdata g = pad_digits 4 y @ pad_digits 2 m @ pad_digits 2 d \<and>
      cob_intr_date_of_integer T E M R f = Some (cob_clear_exception R, g, f') \<and>
      cob_intr_integer_of_date T E M R g = Some (cob_clear_exception R, u, g) \<and> num_val T M u = Some n \<and>
      cob_intr_test_date_yyyymmdd T E M g = Some (t, g) \<and> num_val T M t = Some 0"
proof -
  obtain y m d where d: "valid_date y m d" "day_number y m d = n" "cob_intr_date_of_integer T E M R f =
      Some (cob_clear_exception R, disp_entry 8 0 (pad_digits 4 y @ pad_digits 2 m @ pad_digits 2 d), f')"
    by (rule date_of_integer_item [OF assms(2-4)])
  let ?g = "disp_entry 8 0 (pad_digits 4 y @ pad_digits 2 m @ pad_digits 2 d)"
  obtain u where "cob_intr_integer_of_date T E M R ?g = Some (cob_clear_exception R, u, ?g)" "num_val T M u = Some n"
    using integer_of_date_item [OF assms(1) d(1), of T E R] d(2) by blast
  moreover obtain t where "cob_intr_test_date_yyyymmdd T E M ?g = Some (t, ?g)" "num_val T M t = Some 0"
    using test_date_item [OF assms(1) d(1), of T E] by blast
  moreover have "fdata ?g = pad_digits 4 y @ pad_digits 2 m @ pad_digits 2 d" by (simp add: disp_entry_def)
  ultimately show ?thesis using d by blast
qed

lemma days_invert:
  assumes "flag_binary_truncate M" "cob_get_int T E M f = Some (n, f')" "1 \<le> n" "n \<le> 3067671"
  shows "\<exists>y k g u. 1601 \<le> y \<and> y \<le> 9999 \<and> 1 \<le> k \<and> k \<le> year_length y \<and> fdata g = pad_digits 4 y @ pad_digits 3 k \<and>
      cob_intr_day_of_integer T E M R f = Some (cob_clear_exception R, g, f') \<and>
      cob_intr_integer_of_day T E M R g = Some (cob_clear_exception R, u, g) \<and> num_val T M u = Some n"
proof -
  have f: "fdata (disp_entry 7 0 bs) = bs" for bs by (simp add: disp_entry_def)
  obtain y k u where "1601 \<le> y" "y \<le> 9999" "1 \<le> k" "k \<le> year_length y"
    "cob_intr_day_of_integer T E M R f = Some (cob_clear_exception R, disp_entry 7 0 (pad_digits 4 y @ pad_digits 3 k), f')"
    "cob_intr_integer_of_day T E M R (disp_entry 7 0 (pad_digits 4 y @ pad_digits 3 k)) =
       Some (cob_clear_exception R, u, disp_entry 7 0 (pad_digits 4 y @ pad_digits 3 k))" "num_val T M u = Some n"
    by (rule day_of_integer_item [OF assms])
  then show ?thesis using f by blast
qed

lemma dates_checked:
  assumes "flag_binary_truncate M" "all_digits bs" "length bs = 8"
    and "y = dec_val bs div 10000" "m = dec_val bs mod 10000 div 100" "d = dec_val bs mod 100"
  shows "\<exists>R' g. cob_intr_integer_of_date T E M R (disp_entry 8 0 bs) = Some (R', g, disp_entry 8 0 bs) \<and>
    (if valid_date y m d then exception_code R' = 0 \<and> num_val T M g = Some (day_number y m d)
     else exception_code R' = 0x0101 \<and> num_val T M g = Some 0)"
proof (cases "valid_date y m d")
  case True
  then show ?thesis using date_checked(1) [OF assms(1-3) refl assms(4-6), of T E R] by (auto simp: cob_clear_exception_def)
next
  case False
  then show ?thesis using date_checked(1) [OF assms(1-3) refl assms(4-6), of T E R] arg_error_code by auto
qed

end
