(* ===== verification/Cob_Intrinsic_Num.thy ===== *)
theory Cob_Intrinsic_Num
  imports Cob_Dates Cob_Common
begin

text \<open>
  The numeric functions of intrinsic.c: arithmetic expressions, INTEGER, MOD, REM, FACTORIAL, ABS,
  SIGN, the functions on lists of arguments, and those computed in floating point.

  The decimals \<open>d1\<close> to \<open>d5\<close> of intrinsic.c are local here: what one function leaves in them is
  not used by the next. \<open>mpz_sizeinbase (v, 10)\<close> is an argument, because GMP promises only that it
  is the number of digits or one more; so are the functions of the mathematical library,
  from the decimal given to the bytes of the double (none when they set \<open>errno\<close>), and the
  power of decimals that goes through a double.
\<close>

section \<open>Environment\<close>

record intr_env =
  ie_target :: target
  ie_fp :: fp_env
  ie_module :: cob_module
  ie_size10 :: "int \<Rightarrow> nat"
  ie_pow :: "cob_decimal \<Rightarrow> cob_decimal \<Rightarrow> cob_decimal"
  ie_libm :: "string \<Rightarrow> cob_decimal \<Rightarrow> bytes option"
  ie_annuity :: "cob_decimal \<Rightarrow> cob_decimal \<Rightarrow> bytes"

text \<open>What a function changes: the exception register and the decimals of numeric.c.\<close>

type_synonym intr_state = "cob_rt \<times> cob_accs"

definition set_field :: "intr_env \<Rightarrow> cob_field \<Rightarrow> (cob_decimal \<times> cob_field) option" where
  "set_field X f = cob_decimal_set_field (ie_target X) (ie_fp X) (ie_module X) (mkdec 0 0) f"

definition get_field :: "intr_env \<Rightarrow> intr_state \<Rightarrow> cob_decimal \<Rightarrow> cob_field \<Rightarrow> (intr_state \<times> cob_field) option" where
  "get_field X S d f = map_option (\<lambda>(r, R, N, g). ((R, N), g))
    (cob_decimal_get_field (fst S) (ie_target X) (ie_fp X) (ie_module X) (snd S) d f 0)"

definition set_int :: "intr_env \<Rightarrow> cob_field \<Rightarrow> int \<Rightarrow> cob_field option" where
  "set_int X f n = cob_set_int (ie_target X) (ie_fp X) (ie_module X) f n"

definition get_int :: "intr_env \<Rightarrow> cob_field \<Rightarrow> (int \<times> cob_field) option" where
  "get_int X f = cob_get_int (ie_target X) (ie_fp X) (ie_module X) f"

definition double_entry :: cob_field where
  "double_entry = cob_fld COB_TYPE_NUMERIC_DOUBLE 18 9 COB_FLAG_HAVE_SIGN [] (replicate 8 0)"

text \<open>An attribute has a byte for the number of digits and a signed byte for the scale.\<close>

definition entry_scale :: "int \<Rightarrow> int" where
  "entry_scale s = signed_take_bit 7 s"

definition wide_entry :: "int \<Rightarrow> cob_field" where
  "wide_entry s = bin_entry 18 (entry_scale s) COB_FLAG_HAVE_SIGN 8"

definition sized_display :: "nat \<Rightarrow> int \<Rightarrow> u8 \<Rightarrow> cob_field" where
  "sized_display n s fl =
    cob_fld COB_TYPE_NUMERIC_DISPLAY (n mod 256) (entry_scale s) fl [] (replicate n 0)"

section \<open>Arithmetic expressions\<close>

fun bit_size :: "nat \<Rightarrow> nat" where
  "bit_size n = (if n < 2 then 1 else Suc (bit_size (n div 2)))"

declare bit_size.simps [simp del]

definition binop_decimal :: "intr_env \<Rightarrow> intr_state \<Rightarrow> char \<Rightarrow> cob_decimal \<Rightarrow> cob_decimal \<Rightarrow> intr_state \<times> cob_decimal" where
  "binop_decimal X S op d1 d2 =
    (if op = CHR ''+'' then (S, fst (cob_decimal_add d1 d2))
     else if op = CHR ''-'' then (S, fst (cob_decimal_sub d1 d2))
     else if op = CHR ''*'' then (S, cob_decimal_mul d1 d2)
     else if op = CHR ''/'' then let (R, d) = cob_decimal_div (fst S) d1 d2 in ((R, snd S), d)
     else if op = CHR ''^'' then (S, cob_decimal_pow (ie_pow X) d1 d2)
     else (S, d1))"

definition binop_entry :: "intr_env \<Rightarrow> cob_decimal \<Rightarrow> cob_field" where
  "binop_entry X d =
    (let (attrsign, sign) = (if dvalue d < 0 then (COB_FLAG_HAVE_SIGN, 1) else (0, 0));
         bitnum = bit_size (nat \<bar>dvalue d\<bar>) in
     if bitnum < 33 - sign \<and> dscale d < 10 then bin_entry 9 (entry_scale (dscale d)) attrsign 4
     else if bitnum < 65 - sign \<and> dscale d < 19 then bin_entry 20 (entry_scale (dscale d)) attrsign 8
     else sized_display (max (ie_size10 X (dvalue d)) (nat (dscale d))) (dscale d) attrsign)"

definition cob_intr_binop ::
  "intr_env \<Rightarrow> intr_state \<Rightarrow> cob_field \<Rightarrow> char \<Rightarrow> cob_field \<Rightarrow>
   (intr_state \<times> cob_field \<times> cob_field \<times> cob_field) option" where
  "cob_intr_binop X S f1 op f2 = do {
     (d1, f1) \<leftarrow> set_field X f1;
     (d2, f2) \<leftarrow> set_field X f2;
     let (S, d1) = binop_decimal X S op d1 d2;
     (S, g) \<leftarrow> get_field X S d1 (binop_entry X d1);
     Some (S, g, f1, f2) }"

section \<open>One argument\<close>

text \<open>
  INTEGER: a negative number is first cut to one decimal place, and then taken down by one if
  that place is not zero.
\<close>

fun cut_loop :: "nat \<Rightarrow> int \<Rightarrow> int" where
  "cut_loop 0 v = v"
| "cut_loop (Suc n) v = cut_loop n (v sdiv 10)"

definition cut_places :: "cob_decimal \<Rightarrow> cob_decimal" where
  "cut_places d = (if 1 < dscale d then mkdec (cut_loop (nat (dscale d - 1)) (dvalue d)) 1 else d)"

definition integer_decimal :: "cob_decimal \<Rightarrow> cob_decimal" where
  "integer_decimal d =
    (if 0 \<le> dvalue d then d
     else let d = cut_places d; scale = (if 0 < dscale d then 10 else 1) in
       if dvalue d mod scale \<noteq> 0 then d\<lparr>dvalue := dvalue d - scale\<rparr> else d)"

definition cob_intr_integer :: "intr_env \<Rightarrow> intr_state \<Rightarrow> cob_field \<Rightarrow> (intr_state \<times> cob_field \<times> cob_field) option" where
  "cob_intr_integer X S f = do {
     (d1, f) \<leftarrow> set_field X f;
     (S, g) \<leftarrow> get_field X S (integer_decimal d1) (wide_entry 0);
     Some (S, g, f) }"

definition cob_intr_integer_part :: "intr_env \<Rightarrow> cob_field \<Rightarrow> (cob_field \<times> cob_field) option" where
  "cob_intr_integer_part X f =
    map_option (\<lambda>(f, g). (g, f)) (cob_move (ie_target X) (ie_fp X) (ie_module X) f (wide_entry 0))"

definition cob_intr_fraction_part :: "intr_env \<Rightarrow> cob_field \<Rightarrow> (cob_field \<times> cob_field) option" where
  "cob_intr_fraction_part X f =
    map_option (\<lambda>(f, g). (g, f)) (cob_move (ie_target X) (ie_fp X) (ie_module X) f (wide_entry 18))"

definition compare :: "intr_env \<Rightarrow> intr_state \<Rightarrow> cob_field \<Rightarrow> cob_field \<Rightarrow> (int \<times> intr_state \<times> cob_field \<times> cob_field) option" where
  "compare X S f1 f2 = map_option (\<lambda>(c, N, f1, f2). (c, (fst S, N), f1, f2))
    (cob_cmp (ie_target X) (ie_fp X) (ie_module X) (snd S) False f1 False f2)"

definition cob_intr_sign :: "intr_env \<Rightarrow> intr_state \<Rightarrow> cob_field \<Rightarrow> (intr_state \<times> cob_field \<times> cob_field) option" where
  "cob_intr_sign X S f = do {
     g \<leftarrow> set_int X (bin_entry 8 0 COB_FLAG_HAVE_SIGN 4) 0;
     (n, S, f, g) \<leftarrow> compare X S f g;
     g \<leftarrow> (if n < 0 then set_int X g (- 1) else if 0 < n then set_int X g 1 else Some g);
     Some (S, g, f) }"

definition cob_intr_factorial :: "intr_env \<Rightarrow> intr_state \<Rightarrow> cob_field \<Rightarrow> (intr_state \<times> cob_field \<times> cob_field) option" where
  "cob_intr_factorial X S f = do {
     let S = (cob_clear_exception (fst S), snd S);
     (n, f) \<leftarrow> get_int X f;
     if n < 0 then do {
       g \<leftarrow> set_int X (bin_entry 18 0 0 8) 0;
       Some ((arg_error (fst S), snd S), g, f) }
     else do {
       (S, g) \<leftarrow> get_field X S (mkdec (fact (nat n)) 0) (bin_entry 18 0 0 8);
       Some (S, g, f) } }"

definition cob_intr_abs :: "intr_env \<Rightarrow> intr_state \<Rightarrow> cob_field \<Rightarrow> (intr_state \<times> cob_field \<times> cob_field) option" where
  "cob_intr_abs X S f = do {
     let g = set_data f (replicate (fsize f) 0);
     (d1, f) \<leftarrow> set_field X f;
     (S, g) \<leftarrow> get_field X S (d1\<lparr>dvalue := \<bar>dvalue d1\<bar>\<rparr>) g;
     Some (S, g, f) }"

text \<open>Functions of the mathematical library; where they set \<open>errno\<close> the result is zero.\<close>

definition libm_function :: "string \<Rightarrow> intr_env \<Rightarrow> cob_field \<Rightarrow> (cob_field \<times> cob_field) option" where
  "libm_function name X f = do {
     (d1, f) \<leftarrow> set_field X f;
     g \<leftarrow> (case ie_libm X name d1 of
         None \<Rightarrow> set_int X double_entry 0
       | Some bs \<Rightarrow> map_option (set_data double_entry) (wrs (fdata double_entry) 0 bs));
     Some (g, f) }"

definition cob_intr_exp :: "intr_env \<Rightarrow> cob_field \<Rightarrow> (cob_field \<times> cob_field) option" where
  "cob_intr_exp = libm_function ''exp''"

definition cob_intr_exp10 :: "intr_env \<Rightarrow> cob_field \<Rightarrow> (cob_field \<times> cob_field) option" where
  "cob_intr_exp10 = libm_function ''exp10''"

definition cob_intr_log :: "intr_env \<Rightarrow> cob_field \<Rightarrow> (cob_field \<times> cob_field) option" where
  "cob_intr_log = libm_function ''log''"

definition cob_intr_log10 :: "intr_env \<Rightarrow> cob_field \<Rightarrow> (cob_field \<times> cob_field) option" where
  "cob_intr_log10 = libm_function ''log10''"

definition cob_intr_sqrt :: "intr_env \<Rightarrow> cob_field \<Rightarrow> (cob_field \<times> cob_field) option" where
  "cob_intr_sqrt = libm_function ''sqrt''"

definition cob_intr_tan :: "intr_env \<Rightarrow> cob_field \<Rightarrow> (cob_field \<times> cob_field) option" where
  "cob_intr_tan = libm_function ''tan''"

definition cob_intr_annuity :: "intr_env \<Rightarrow> cob_field \<Rightarrow> cob_field \<Rightarrow> (cob_field \<times> cob_field \<times> cob_field) option" where
  "cob_intr_annuity X f1 f2 = do {
     (d1, f1) \<leftarrow> set_field X f1;
     (d2, f2) \<leftarrow> set_field X f2;
     p \<leftarrow> wrs (fdata double_entry) 0 (ie_annuity X d1 d2);
     Some (set_data double_entry p, f1, f2) }"

section \<open>MOD and REM\<close>

text \<open>The first argument minus a quotient times the second.\<close>

definition less_product ::
  "intr_env \<Rightarrow> intr_state \<Rightarrow> cob_field \<Rightarrow> cob_field \<Rightarrow> cob_field \<Rightarrow> cob_field \<Rightarrow>
   (intr_state \<times> cob_field \<times> cob_field \<times> cob_field) option" where
  "less_product X S f1 f2 q g = do {
     (d1, f2) \<leftarrow> set_field X f2;
     (d2, q) \<leftarrow> set_field X q;
     let d2 = cob_decimal_mul d2 d1;
     (d1, f1) \<leftarrow> set_field X f1;
     let (d1, d2) = cob_decimal_sub d1 d2;
     (S, g) \<leftarrow> get_field X S d1 g;
     Some (S, g, f1, f2) }"

text \<open>The result of MOD goes to the item that INTEGER made last.\<close>

definition cob_intr_mod ::
  "intr_env \<Rightarrow> intr_state \<Rightarrow> cob_field \<Rightarrow> cob_field \<Rightarrow> (intr_state \<times> cob_field \<times> cob_field \<times> cob_field) option" where
  "cob_intr_mod X S f1 f2 = do {
     (S, g, f1, f2) \<leftarrow> cob_intr_binop X S f1 CHR ''/'' f2;
     (S, q, g) \<leftarrow> cob_intr_integer X S g;
     less_product X S f1 f2 q q }"

definition cob_intr_rem ::
  "intr_env \<Rightarrow> intr_state \<Rightarrow> cob_field \<Rightarrow> cob_field \<Rightarrow> (intr_state \<times> cob_field \<times> cob_field \<times> cob_field) option" where
  "cob_intr_rem X S f1 f2 = do {
     (S, g, f1, f2) \<leftarrow> cob_intr_binop X S f1 CHR ''/'' f2;
     (q, g) \<leftarrow> cob_intr_integer_part X g;
     less_product X S f1 f2 q (wide_entry (max (field_scale f1) (field_scale f2))) }"

section \<open>Lists of arguments\<close>

text \<open>The sum of the arguments, their greatest scale (at least zero), and the arguments as read.\<close>

fun sum_loop :: "intr_env \<Rightarrow> cob_decimal \<Rightarrow> int \<Rightarrow> cob_field list \<Rightarrow> (cob_decimal \<times> int \<times> cob_field list) option" where
  "sum_loop X d1 s [] = Some (d1, s, [])"
| "sum_loop X d1 s (f # fs) = do {
     (d2, g) \<leftarrow> set_field X f;
     (d1, s, gs) \<leftarrow> sum_loop X (fst (cob_decimal_add d1 d2)) (max s (field_scale f)) fs;
     Some (d1, s, g # gs) }"

definition sum_entry :: "intr_env \<Rightarrow> cob_decimal \<Rightarrow> int \<Rightarrow> cob_field" where
  "sum_entry X d s =
    (let n = ie_size10 X (dvalue d) in
     if n < 19 then wide_entry s
     else sized_display (max (max n (nat (dscale d))) (nat s)) s COB_FLAG_HAVE_SIGN)"

definition cob_intr_sum :: "intr_env \<Rightarrow> intr_state \<Rightarrow> cob_field list \<Rightarrow> (intr_state \<times> cob_field \<times> cob_field list) option" where
  "cob_intr_sum X S fs = do {
     (d1, s, fs) \<leftarrow> sum_loop X (mkdec 0 0) 0 fs;
     (S, g) \<leftarrow> get_field X S d1 (sum_entry X d1 s);
     Some (S, g, fs) }"

text \<open>
  The number of the argument that comes first in an order, found in one go through the list;
  a comparison may rewrite the signs of the items it reads.
\<close>

fun pick_loop ::
  "(int \<Rightarrow> bool) \<Rightarrow> intr_env \<Rightarrow> intr_state \<Rightarrow> cob_field list \<Rightarrow> nat \<Rightarrow> nat list \<Rightarrow> (intr_state \<times> cob_field list \<times> nat) option" where
  "pick_loop better X S fs base [] = Some (S, fs, base)"
| "pick_loop better X S fs base (i # is) = do {
     (c, S, f, b) \<leftarrow> compare X S (fs ! i) (fs ! base);
     pick_loop better X S (fs[base := b, i := f]) (if better c then i else base) is }"

definition pick :: "(int \<Rightarrow> bool) \<Rightarrow> intr_env \<Rightarrow> intr_state \<Rightarrow> cob_field list \<Rightarrow> (intr_state \<times> cob_field list \<times> nat) option" where
  "pick better X S fs = (if fs = [] then None else pick_loop better X S fs 0 [1 ..< length fs])"

definition ord_result ::
  "(int \<Rightarrow> bool) \<Rightarrow> intr_env \<Rightarrow> intr_state \<Rightarrow> cob_field list \<Rightarrow> (intr_state \<times> cob_field \<times> cob_field list) option" where
  "ord_result better X S fs =
    (if length fs \<le> 1 then map_option (\<lambda>g. (S, g, fs)) (set_int X (bin_entry 8 0 0 4) 0)
     else do {
       (S, fs, i) \<leftarrow> pick better X S fs;
       g \<leftarrow> set_int X (bin_entry 8 0 0 4) (int i + 1);
       Some (S, g, fs) })"

definition cob_intr_ord_min :: "intr_env \<Rightarrow> intr_state \<Rightarrow> cob_field list \<Rightarrow> (intr_state \<times> cob_field \<times> cob_field list) option" where
  "cob_intr_ord_min = ord_result (\<lambda>c. c < 0)"

definition cob_intr_ord_max :: "intr_env \<Rightarrow> intr_state \<Rightarrow> cob_field list \<Rightarrow> (intr_state \<times> cob_field \<times> cob_field list) option" where
  "cob_intr_ord_max = ord_result (\<lambda>c. c > 0)"

text \<open>MIN and MAX return the argument itself.\<close>

definition cob_intr_min :: "intr_env \<Rightarrow> intr_state \<Rightarrow> cob_field list \<Rightarrow> (intr_state \<times> cob_field \<times> cob_field list) option" where
  "cob_intr_min X S fs = do { (S, fs, i) \<leftarrow> pick (\<lambda>c. c < 0) X S fs; Some (S, fs ! i, fs) }"

definition cob_intr_max :: "intr_env \<Rightarrow> intr_state \<Rightarrow> cob_field list \<Rightarrow> (intr_state \<times> cob_field \<times> cob_field list) option" where
  "cob_intr_max X S fs = do { (S, fs, i) \<leftarrow> pick (\<lambda>c. c > 0) X S fs; Some (S, fs ! i, fs) }"

text \<open>MIDRANGE and RANGE look for both at once: each argument is compared with the least and then with the greatest so far.\<close>

fun ends_loop ::
  "intr_env \<Rightarrow> intr_state \<Rightarrow> cob_field list \<Rightarrow> nat \<Rightarrow> nat \<Rightarrow> nat list \<Rightarrow> (intr_state \<times> cob_field list \<times> nat \<times> nat) option" where
  "ends_loop X S fs lo hi [] = Some (S, fs, lo, hi)"
| "ends_loop X S fs lo hi (i # is) = do {
     (c, S, f, b) \<leftarrow> compare X S (fs ! i) (fs ! lo);
     let fs = fs[lo := b, i := f];
     let lo = (if c < 0 then i else lo);
     (c, S, f, b) \<leftarrow> compare X S (fs ! i) (fs ! hi);
     ends_loop X S (fs[hi := b, i := f]) lo (if c > 0 then i else hi) is }"

text \<open>Half the sum of two items, as a double.\<close>

definition half_sum :: "intr_env \<Rightarrow> intr_state \<Rightarrow> cob_field \<Rightarrow> cob_field \<Rightarrow> (intr_state \<times> cob_field) option" where
  "half_sum X S f1 f2 = do {
     (d1, f1) \<leftarrow> set_field X f1;
     (d2, f2) \<leftarrow> set_field X f2;
     let (R, d1) = cob_decimal_div (fst S) (fst (cob_decimal_add d1 d2)) (mkdec 2 0);
     get_field X (R, snd S) d1 double_entry }"

definition cob_intr_midrange :: "intr_env \<Rightarrow> intr_state \<Rightarrow> cob_field list \<Rightarrow> (intr_state \<times> cob_field) option" where
  "cob_intr_midrange X S fs =
    (if fs = [] then None
     else do {
       (S, fs, lo, hi) \<leftarrow> ends_loop X S fs 0 0 [1 ..< length fs];
       half_sum X S (fs ! lo) (fs ! hi) })"

definition cob_intr_range :: "intr_env \<Rightarrow> intr_state \<Rightarrow> cob_field list \<Rightarrow> (intr_state \<times> cob_field) option" where
  "cob_intr_range X S fs =
    (if fs = [] then None
     else do {
       (S, fs, lo, hi) \<leftarrow> ends_loop X S fs 0 0 [1 ..< length fs];
       let s = max (field_scale (fs ! lo)) (field_scale (fs ! hi));
       (d1, _) \<leftarrow> set_field X (fs ! hi);
       (d2, _) \<leftarrow> set_field X (fs ! lo);
       get_field X S (fst (cob_decimal_sub d1 d2)) (wide_entry s) })"

text \<open>
  MEDIAN sorts with the \<open>qsort\<close> of the C library, which is an argument; the comparison is
  taken on the items as they were given.
\<close>

definition comp_field :: "intr_env \<Rightarrow> intr_state \<Rightarrow> cob_field \<Rightarrow> cob_field \<Rightarrow> int" where
  "comp_field X S f1 f2 = (case compare X S f1 f2 of Some (c, _) \<Rightarrow> c | None \<Rightarrow> 0)"

definition cob_intr_median ::
  "((cob_field \<Rightarrow> cob_field \<Rightarrow> int) \<Rightarrow> cob_field list \<Rightarrow> cob_field list) \<Rightarrow> intr_env \<Rightarrow> intr_state \<Rightarrow> cob_field list \<Rightarrow>
   (intr_state \<times> cob_field) option" where
  "cob_intr_median qsort X S fs =
    (case fs of
       [] \<Rightarrow> None
     | [f] \<Rightarrow> Some (S, f)
     | _ \<Rightarrow>
       let gs = qsort (comp_field X S) fs; i = length fs div 2 in
       if odd (length fs) then Some (S, gs ! i) else half_sum X S (gs ! (i - 1)) (gs ! i))"

text \<open>
  A quotient goes first to an item of scale 0, whose number of digits decides the scale of the
  result. The number of digits is counted in a loop.
\<close>

fun count_digits :: "nat \<Rightarrow> nat" where
  "count_digits n = (if n = 0 then 0 else Suc (count_digits (n div 10)))"

declare count_digits.simps [simp del]

definition scaled_result :: "intr_env \<Rightarrow> intr_state \<Rightarrow> cob_decimal \<Rightarrow> (intr_state \<times> cob_field) option" where
  "scaled_result X S d = do {
     (S, t) \<leftarrow> get_field X S d (wide_entry 0);
     let i = count_digits (nat \<bar>i64 (host_val (ie_target X) (fdata t))\<bar>);
     get_field X S d (wide_entry (if i \<le> 18 then 18 - int i else 0)) }"

definition mean_decimal :: "intr_env \<Rightarrow> intr_state \<Rightarrow> cob_field list \<Rightarrow> (intr_state \<times> cob_decimal \<times> cob_field list) option" where
  "mean_decimal X S fs = do {
     (d1, _, gs) \<leftarrow> sum_loop X (mkdec 0 0) 0 fs;
     let (R, d1) = cob_decimal_div (fst S) d1 (mkdec (u32 (int (length fs))) 0);
     Some ((R, snd S), d1, gs) }"

definition cob_intr_mean :: "intr_env \<Rightarrow> intr_state \<Rightarrow> cob_field list \<Rightarrow> (intr_state \<times> cob_field) option" where
  "cob_intr_mean X S fs = do {
     (S, d1, fs) \<leftarrow> mean_decimal X S fs;
     scaled_result X S d1 }"

text \<open>The sum of the squares of the distances from the mean.\<close>

fun squares_loop :: "intr_env \<Rightarrow> cob_decimal \<Rightarrow> cob_decimal \<Rightarrow> cob_field list \<Rightarrow> cob_decimal option" where
  "squares_loop X d1 d4 [] = Some d4"
| "squares_loop X d1 d4 (f # fs) = do {
     (d2, f) \<leftarrow> set_field X f;
     let (d2, d1) = cob_decimal_sub d2 d1;
     squares_loop X d1 (fst (cob_decimal_add d4 (cob_decimal_mul d2 d2))) fs }"

definition variance_decimal :: "intr_env \<Rightarrow> intr_state \<Rightarrow> cob_field list \<Rightarrow> (intr_state \<times> cob_decimal) option" where
  "variance_decimal X S fs = do {
     (S, d1, fs) \<leftarrow> mean_decimal X S fs;
     d4 \<leftarrow> squares_loop X d1 (mkdec 0 0) fs;
     let (R, d4) = cob_decimal_div (fst S) d4 (mkdec (u32 (int (length fs))) 0);
     Some ((R, snd S), d4) }"

definition cob_intr_variance :: "intr_env \<Rightarrow> intr_state \<Rightarrow> cob_field list \<Rightarrow> (intr_state \<times> cob_field) option" where
  "cob_intr_variance X S fs =
    (if length fs = 1 then map_option (Pair S) (set_int X (wide_entry 0) 0)
     else do {
       (S, d4) \<leftarrow> variance_decimal X S fs;
       scaled_result X S d4 })"

definition cob_intr_standard_deviation :: "intr_env \<Rightarrow> intr_state \<Rightarrow> cob_field list \<Rightarrow> (intr_state \<times> cob_field) option" where
  "cob_intr_standard_deviation X S fs =
    (if length fs = 1 then map_option (Pair S) (set_int X double_entry 0)
     else do {
       (S, d4) \<leftarrow> variance_decimal X S fs;
       (S, g) \<leftarrow> get_field X S d4 double_entry;
       (g, _) \<leftarrow> cob_intr_sqrt X g;
       Some (S, g) })"

text \<open>PRESENT-VALUE: \<open>d1\<close> is one plus the rate; the arguments are divided by its powers.\<close>

fun present_loop ::
  "intr_env \<Rightarrow> intr_state \<Rightarrow> cob_decimal \<Rightarrow> cob_decimal \<Rightarrow> int \<Rightarrow> cob_field list \<Rightarrow> (intr_state \<times> cob_decimal) option" where
  "present_loop X S d1 d4 i [] = Some (S, d4)"
| "present_loop X S d1 d4 i (f # fs) = do {
     (d2, f) \<leftarrow> set_field X f;
     let d3 = (if i > 1 then cob_decimal_pow (ie_pow X) d1 (mkdec i 0) else d1);
     let (R, d2) = cob_decimal_div (fst S) d2 d3;
     present_loop X (R, snd S) d1 (fst (cob_decimal_add d4 d2)) (i + 1) fs }"

definition cob_intr_present_value :: "intr_env \<Rightarrow> intr_state \<Rightarrow> cob_field list \<Rightarrow> (intr_state \<times> cob_field) option" where
  "cob_intr_present_value X S fs =
    (case fs of
       f # g # gs \<Rightarrow> do {
         (d1, f) \<leftarrow> set_field X f;
         let d1 = fst (cob_decimal_add d1 (mkdec 1 0));
         (S, d4) \<leftarrow> present_loop X S d1 (mkdec 0 0) 1 (g # gs);
         get_field X S d4 double_entry }
     | _ \<Rightarrow> map_option (Pair S) (set_int X double_entry 0))"

section \<open>Facts: exact results\<close>

lemma rounded_dec [simp]: "rounded (dec_rat d) (dscale d) opt = dvalue d"
  using round_decimal_rounded [of "dscale d" opt d] by (simp add: round_decimal_def shift_decimal_def)

lemma exact_store:
  assumes st: "storable (ie_target X) f" and sc: "field_scale f = dscale d" "dscale d \<noteq> - 128"
    and v: "\<bar>dvalue d\<bar> < 10 ^ (num_buff_size - 1)" "field_fits (ie_module X) f 0 (dvalue d)" "dvalue d < 0 \<longrightarrow> have_sign f"
  shows "\<exists>N g. get_field X S d f = Some ((fst S, N), g) \<and> same_shape f g \<and>
    num_val (ie_target X) (ie_module X) g = Some (dvalue d) \<and> item_rat g (dvalue d) = dec_rat d"
proof -
  have r: "dvalue d = rounded (dec_rat d) (field_scale f) 0" by (simp add: sc(1))
  have n: "dscale d \<noteq> DECIMAL_NAN" using sc(2) by (simp add: DECIMAL_NAN_def)
  from get_field_num [OF st n r v(1) disjI2 [OF v(2)], of "fst S" "ie_fp X" "snd S"] v(2)
  obtain N g where g: "cob_decimal_get_field (fst S) (ie_target X) (ie_fp X) (ie_module X) (snd S) d f 0 = Some (0, fst S, N, g)"
    "same_shape f g" "num_val (ie_target X) (ie_module X) g = Some (if have_sign f then dvalue d else \<bar>dvalue d\<bar>)"
    by (auto simp: stored_def)
  have "(if have_sign f then dvalue d else \<bar>dvalue d\<bar>) = dvalue d" using v(3) by auto
  moreover have "field_scale g = dscale d" using same_shape_sel(1) [OF g(2)] sc(1) by simp
  ultimately show ?thesis using g by (simp add: get_field_def item_rat_def)
qed

lemma bit_size_bound: "n < 2 ^ bit_size n"
proof (induction n rule: bit_size.induct)
  case (1 n)
  then show ?case by (cases "n < 2") (auto simp: bit_size.simps [of n])
qed

lemma entry_scale_id: "- 128 \<le> s \<Longrightarrow> s < 128 \<Longrightarrow> entry_scale s = s"
  by (simp add: entry_scale_def signed_take_bit_int_eq_self)

text \<open>What GMP promises of \<open>mpz_sizeinbase\<close>.\<close>

definition size10_ok :: "(int \<Rightarrow> nat) \<Rightarrow> bool" where
  "size10_ok size10 \<longleftrightarrow> (\<forall>v. 0 < size10 v \<and> \<bar>v\<bar> < 10 ^ size10 v \<and> (1 < size10 v \<longrightarrow> 10 ^ (size10 v - 2) \<le> \<bar>v\<bar>))"

lemma size10_ok_dec_len: "size10_ok (\<lambda>v. dec_len (nat \<bar>v\<bar>))"
  unfolding size10_ok_def
proof (intro allI conjI impI)
  fix v :: int
  let ?n = "nat \<bar>v\<bar>"
  show "0 < dec_len ?n" by simp
  have "int ?n < int (10 ^ dec_len ?n)" using dec_len_bound by (simp only: of_nat_less_iff)
  then show "\<bar>v\<bar> < 10 ^ dec_len ?n" by simp
  assume d: "1 < dec_len ?n"
  have "10 ^ (dec_len ?n - 2) \<le> ?n"
  proof (cases "dec_len ?n = 2")
    case True
    then have "?n \<noteq> 0" by (auto simp: dec_len.simps [of 0])
    then show ?thesis using True by simp
  next
    case False
    then have "0 < dec_len ?n - 2" "\<not> dec_len ?n \<le> dec_len ?n - 2" using d by linarith+
    then show ?thesis using dec_len_le [of ?n "dec_len ?n - 2"] by (meson not_le)
  qed
  then have "int (10 ^ (dec_len ?n - 2)) \<le> int ?n" by (simp only: of_nat_le_iff)
  then show "10 ^ (dec_len ?n - 2) \<le> \<bar>v\<bar>" by simp
qed

lemma binop_entry_room:
  assumes X: "size10_ok (ie_size10 X)" "cob_li_is_ll (ie_target X)" and s: "- 128 \<le> dscale d" "dscale d < 128"
  shows "storable (ie_target X) (binop_entry X d)" "field_scale (binop_entry X d) = dscale d"
    "field_fits (ie_module X) (binop_entry X d) 0 (dvalue d)" "dvalue d < 0 \<longrightarrow> have_sign (binop_entry X d)"
proof -
  let ?b = "bit_size (nat \<bar>dvalue d\<bar>)" and ?e = "binop_entry X d"
  have b: "\<bar>dvalue d\<bar> < 2 ^ ?b"
  proof -
    have "int (nat \<bar>dvalue d\<bar>) < int (2 ^ ?b)" using bit_size_bound [of "nat \<bar>dvalue d\<bar>"] by (simp only: of_nat_less_iff)
    then show ?thesis by simp
  qed
  have z: "0 < ie_size10 X (dvalue d)" "\<bar>dvalue d\<bar> < 10 ^ ie_size10 X (dvalue d)" using X(1) by (simp_all add: size10_ok_def)
  have up: "\<bar>dvalue d\<bar> < 2 ^ k" if "?b \<le> k" for k
    using b power_increasing [OF that, of "2::int"] by linarith
  have up10: "\<bar>dvalue d\<bar> < 10 ^ k" if "ie_size10 X (dvalue d) \<le> k" for k
    using z(2) power_increasing [OF that, of "10::int"] by linarith
  define fl where "fl = (if dvalue d < 0 then COB_FLAG_HAVE_SIGN else 0)"
  define sg where "sg = (if dvalue d < 0 then 1 else (0::nat))"
  have fs: "fl AND COB_FLAG_HAVE_SIGN \<noteq> 0 \<longleftrightarrow> dvalue d < 0" "fl AND COB_FLAG_SIGN_SEPARATE = 0" "sg \<le> 1"
    by (simp_all add: fl_def sg_def)
  have e: "?e = (if ?b < 33 - sg \<and> dscale d < 10 then bin_entry 9 (dscale d) fl 4
      else if ?b < 65 - sg \<and> dscale d < 19 then bin_entry 20 (dscale d) fl 8
      else sized_display (max (ie_size10 X (dvalue d)) (nat (dscale d))) (dscale d) fl)"
  proof -
    have p: "(if dvalue d < 0 then (COB_FLAG_HAVE_SIGN, 1) else (0, 0)) = (fl, sg)" by (simp add: fl_def sg_def)
    show ?thesis unfolding binop_entry_def p Let_def prod.case entry_scale_id [OF s] ..
  qed
  consider (four) "?e = bin_entry 9 (dscale d) fl 4" "\<bar>dvalue d\<bar> < 2 ^ (32 - sg)"
    | (eight) "?e = bin_entry 20 (dscale d) fl 8" "\<bar>dvalue d\<bar> < 2 ^ (64 - sg)"
    | (chars) n where "?e = sized_display n (dscale d) fl" "0 < n" "\<bar>dvalue d\<bar> < 10 ^ n"
  proof (cases "?b < 33 - sg \<and> dscale d < 10")
    case True
    then have "?b \<le> 32 - sg" using fs(3) by linarith
    moreover have "?e = bin_entry 9 (dscale d) fl 4" using e by (simp only: if_P [OF True])
    ultimately show ?thesis using four up by blast
  next
    case no4: False
    show ?thesis
    proof (cases "?b < 65 - sg \<and> dscale d < 19")
      case True
      then have "?b \<le> 64 - sg" using fs(3) by linarith
      moreover have "?e = bin_entry 20 (dscale d) fl 8" using e by (simp only: if_not_P [OF no4] if_P [OF True])
      ultimately show ?thesis using eight up by blast
    next
      case False
      have "\<bar>dvalue d\<bar> < 10 ^ max (ie_size10 X (dvalue d)) (nat (dscale d))" by (rule up10) simp
      moreover have "?e = sized_display (max (ie_size10 X (dvalue d)) (nat (dscale d))) (dscale d) fl"
        using e by (simp only: if_not_P [OF no4] if_not_P [OF False])
      moreover have "0 < max (ie_size10 X (dvalue d)) (nat (dscale d))" using z(1) by simp
      ultimately show ?thesis using chars by blast
    qed
  qed
  then have "storable (ie_target X) ?e \<and> field_scale ?e = dscale d \<and> field_fits (ie_module X) ?e 0 (dvalue d) \<and>
    (dvalue d < 0 \<longrightarrow> have_sign ?e)"
  proof cases
    case four
    then show ?thesis using X(2) fs
      by (simp add: bin_entry_def storable_def wf_binary_def field_fits_def binary_fits_def COB_MAX_BINARY_def) (simp add: sg_def split: if_splits)
  next
    case eight
    then show ?thesis using X(2) fs
      by (simp add: bin_entry_def storable_def wf_binary_def field_fits_def binary_fits_def COB_MAX_BINARY_def) (simp add: sg_def split: if_splits)
  next
    case chars
    then show ?thesis using fs s
      by (simp add: sized_display_def storable_def wf_field_def data_size_def field_fits_def capacity_def entry_scale_id)
  qed
  then show "storable (ie_target X) ?e" "field_scale ?e = dscale d" "field_fits (ie_module X) ?e 0 (dvalue d)"
    "dvalue d < 0 \<longrightarrow> have_sign ?e" by blast+
qed

lemma binop_exact:
  assumes v1: "num_val T M f1 = Some v1" "loadable T f1 v1" and v2: "num_val T M f2 = Some v2" "loadable T f2 v2"
    and X: "T = ie_target X" "M = ie_module X" "size10_ok (ie_size10 X)" "cob_li_is_ll T"
    and d: "binop_decimal X S op (mkdec v1 (field_scale f1)) (mkdec v2 (field_scale f2)) = (S', d)"
      "- 128 < dscale d" "dscale d < 128" "\<bar>dvalue d\<bar> < 10 ^ (num_buff_size - 1)"
  shows "\<exists>N g g1 g2. cob_intr_binop X S f1 op f2 = Some ((fst S', N), g, g1, g2) \<and> num_val T M g = Some (dvalue d) \<and>
    item_rat g (dvalue d) = dec_rat d \<and> num_val T M g1 = Some v1 \<and> num_val T M g2 = Some v2"
proof -
  obtain h1 where h1: "set_field X f1 = Some (mkdec v1 (field_scale f1), h1)" "num_val T M h1 = Some v1"
    using set_field_num [OF v1] X by (auto simp: set_field_def)
  obtain h2 where h2: "set_field X f2 = Some (mkdec v2 (field_scale f2), h2)" "num_val T M h2 = Some v2"
    using set_field_num [OF v2] X by (auto simp: set_field_def)
  have s: "- 128 \<le> dscale d" "dscale d \<noteq> - 128" using d(2) by simp_all
  note r = binop_entry_room [OF X(3) X(4) [unfolded X(1)] s(1) d(3)]
  from exact_store [OF r(1,2) s(2) d(4) r(3,4)] obtain N g where g: "get_field X S' d (binop_entry X d) = Some ((fst S', N), g)"
    "num_val T M g = Some (dvalue d)" "item_rat g (dvalue d) = dec_rat d" unfolding X(1,2) by blast
  have "cob_intr_binop X S f1 op f2 = Some ((fst S', N), g, h1, h2)"
    using h1(1) h2(1) d(1) g(1) by (simp add: cob_intr_binop_def)
  then show ?thesis using g h1(2) h2(2) by blast
qed

text \<open>The three operations that are exact.\<close>

definition exact_op :: "char \<Rightarrow> rat \<Rightarrow> rat \<Rightarrow> rat" where
  "exact_op op x y = (if op = CHR ''+'' then x + y else if op = CHR ''-'' then x - y else x * y)"

lemma binop_decimal_exact:
  assumes "op \<in> {CHR ''+'', CHR ''-'', CHR ''*''}" "dscale d1 \<noteq> - 128" "dscale d2 \<noteq> - 128"
  obtains d where "binop_decimal X S op d1 d2 = (S, d)" "dec_rat d = exact_op op (dec_rat d1) (dec_rat d2)"
    "dscale d = (if op = CHR ''*'' then dscale d1 + dscale d2 else max (dscale d1) (dscale d2))"
proof -
  have n: "\<not> decimal_nan d1 d2" using assms(2,3) by (simp add: decimal_nan_def DECIMAL_NAN_def)
  obtain a b where ab: "cob_decimal_add d1 d2 = (a, b)" by fastforce
  obtain x y where xy: "cob_decimal_sub d1 d2 = (x, y)" by fastforce
  note ad = cob_decimal_add_exact [OF n ab] and sb = cob_decimal_sub_exact [OF n xy]
  show ?thesis
  proof (cases "op = CHR ''*''")
    case True
    then show ?thesis using cob_decimal_mul_exact [OF n] n
      by (intro that [of "cob_decimal_mul d1 d2"]) (simp_all add: binop_decimal_def exact_op_def, simp add: cob_decimal_mul_def)
  next
    case False
    then consider "op = CHR ''+''" | "op = CHR ''-''" using assms(1) by auto
    then show ?thesis
    proof cases
      case 1
      then show ?thesis using ad by (intro that [of a]) (simp_all add: binop_decimal_def exact_op_def ab)
    next
      case 2
      then show ?thesis using sb by (intro that [of x]) (simp_all add: binop_decimal_def exact_op_def xy)
    qed
  qed
qed

text \<open>The size of exact results, so that they fit the buffers of the conversion.\<close>

lemma dec_rat_abs: "\<bar>dec_rat d\<bar> = of_int \<bar>dvalue d\<bar> * 10 powi (- dscale d)"
  using powi_pos [of "- dscale d"] by (simp add: dec_rat_def abs_mult)

lemma powi_less: "a \<le> b \<Longrightarrow> (10 :: rat) powi a \<le> 10 powi b"
  by (rule power_int_increasing) simp_all

lemma rat_bound:
  assumes "\<bar>v\<bar> < 10 ^ k" "- b \<le> s"
  shows "\<bar>dec_rat (mkdec v s)\<bar> < 10 powi (int k + b)"
proof -
  have "(of_int \<bar>v\<bar> :: rat) < of_int (10 ^ k)" using assms(1) by (simp only: of_int_less_iff)
  then have "of_int \<bar>v\<bar> * (10 :: rat) powi (- s) < 10 powi int k * 10 powi (- s)"
    using powi_pos [of "- s"] by (simp add: power_int_def)
  also have "\<dots> = 10 powi (int k - s)" using power_int_10_split [of "int k" "- s"] by simp
  also have "\<dots> \<le> 10 powi (int k + b)" using assms(2) by (intro powi_less) simp
  finally show ?thesis using dec_rat_abs [of "mkdec v s"] by simp
qed

lemma value_bound:
  assumes "\<bar>dec_rat d\<bar> < 10 powi a" "dscale d \<le> b" "0 \<le> a + b"
  shows "\<bar>dvalue d\<bar> < 10 ^ nat (a + b)"
proof -
  have "(10 :: rat) powi (- dscale d) * 10 powi dscale d = 1" using power_int_10_split [of "- dscale d" "dscale d"] by simp
  then have "of_int \<bar>dvalue d\<bar> = \<bar>dec_rat d\<bar> * 10 powi dscale d" unfolding dec_rat_abs by (simp add: mult.assoc)
  also have "\<dots> < 10 powi a * 10 powi dscale d" using assms(1) powi_pos by (rule mult_strict_right_mono)
  also have "\<dots> = 10 powi (a + dscale d)" using power_int_10_split [of a "dscale d"] by simp
  also have "\<dots> \<le> 10 powi (a + b)" using assms(2) by (intro powi_less) simp
  also have "\<dots> = of_int (10 ^ nat (a + b))" using assms(3) by (simp add: power_int_def)
  finally show ?thesis by (simp only: of_int_less_iff)
qed

lemma exact_op_bound:
  assumes "\<bar>x\<bar> < 10 powi a" "\<bar>y\<bar> < 10 powi a" "0 \<le> a"
  shows "\<bar>exact_op op x y\<bar> < 10 powi (2 * a + 1)"
proof -
  have one: "1 \<le> (10 :: rat) powi a" using powi_less [OF assms(3)] by simp
  have sum: "\<bar>x\<bar> + \<bar>y\<bar> < 10 powi (2 * a + 1)"
  proof -
    have "\<bar>x\<bar> + \<bar>y\<bar> < 10 powi a + 10 powi a" using assms(1,2) by linarith
    also have "\<dots> \<le> 10 powi 1 * 10 powi a" using one by simp
    also have "\<dots> = 10 powi (1 + a)" by (rule power_int_10_split [symmetric])
    also have "\<dots> \<le> 10 powi (2 * a + 1)" using assms(3) by (intro powi_less) simp
    finally show ?thesis .
  qed
  have "\<bar>x * y\<bar> \<le> 10 powi a * 10 powi a" unfolding abs_mult using assms(1,2) by (intro mult_mono) simp_all
  also have "\<dots> = 10 powi (a + a)" by (rule power_int_10_split [symmetric])
  also have "\<dots> < 10 powi (2 * a + 1)" by (rule power_int_strict_increasing) simp_all
  finally show ?thesis using sum by (auto simp: exact_op_def)
qed

lemma item_arithmetic_exact:
  assumes v1: "num_val T M f1 = Some v1" "loadable T f1 v1" and v2: "num_val T M f2 = Some v2" "loadable T f2 v2"
    and X: "T = ie_target X" "M = ie_module X" "size10_ok (ie_size10 X)" "cob_li_is_ll T"
    and op: "op \<in> {CHR ''+'', CHR ''-'', CHR ''*''}"
    and b: "\<bar>v1\<bar> < 10 ^ 100" "\<bar>v2\<bar> < 10 ^ 100" "- 63 \<le> field_scale f1" "field_scale f1 \<le> 63" "- 63 \<le> field_scale f2" "field_scale f2 \<le> 63"
  shows "\<exists>N g w g1 g2. cob_intr_binop X S f1 op f2 = Some ((fst S, N), g, g1, g2) \<and> num_val T M g = Some w \<and>
    item_rat g w = exact_op op (item_rat f1 v1) (item_rat f2 v2) \<and> num_val T M g1 = Some v1 \<and> num_val T M g2 = Some v2"
proof -
  have ns: "dscale (mkdec v1 (field_scale f1)) \<noteq> - 128" "dscale (mkdec v2 (field_scale f2)) \<noteq> - 128" using b by auto
  obtain d where d: "binop_decimal X S op (mkdec v1 (field_scale f1)) (mkdec v2 (field_scale f2)) = (S, d)"
    "dec_rat d = exact_op op (item_rat f1 v1) (item_rat f2 v2)"
    "dscale d = (if op = CHR ''*'' then field_scale f1 + field_scale f2 else max (field_scale f1) (field_scale f2))"
    by (rule binop_decimal_exact [OF op ns, where X = X and S = S, folded item_rat_def, unfolded mkdec_sel])
  have s: "- 128 < dscale d" "dscale d < 128" "dscale d \<le> 126" using d(3) b by (auto split: if_splits)
  have n: "nat (2 * 163 + 1 + 126) < 2048" "(0 :: int) \<le> 2 * 163 + 1 + 126" by simp_all
  have r: "\<bar>dec_rat d\<bar> < 10 powi (2 * 163 + 1)"
    unfolding d(2) using rat_bound [OF b(1), of 63 "field_scale f1"] rat_bound [OF b(2), of 63 "field_scale f2"] b
    by (intro exact_op_bound) (simp_all add: item_rat_def)
  note vb = buffer_room [OF value_bound [OF r s(3) n(2)] n(1)]
  from binop_exact [OF v1 v2 X d(1) s(1,2) vb] d(2) show ?thesis by metis
qed

section \<open>Facts: INTEGER\<close>

text \<open>
  The largest integer not above the argument, except that a negative argument is cut to one
  decimal place before: INTEGER of -1.05 is -1.
\<close>

definition integer_value :: "rat \<Rightarrow> int" where
  "integer_value x = (if 0 \<le> x then \<lfloor>x\<rfloor> else \<lfloor>of_int (rounded x 1 0) / (10 :: rat)\<rfloor>)"

lemma sdiv_sdiv_10: "(v sdiv 10) sdiv 10 ^ n = v sdiv (10 :: int) ^ Suc n"
proof -
  have d: "\<bar>v\<bar> div 10 ^ Suc n = \<bar>v\<bar> div 10 div 10 ^ n" using zdiv_zmult2_eq [of "10 ^ n" "\<bar>v\<bar>" 10] by simp
  have a: "\<bar>v sdiv 10\<bar> = \<bar>v\<bar> div 10" using sdiv_abs [of 10 v] by simp
  show ?thesis
  proof (cases "v sdiv 10 = 0")
    case True
    then have "\<bar>v\<bar> div 10 = 0" using a by simp
    then have "\<bar>v\<bar> div 10 ^ Suc n = 0" by (simp only: d) simp
    then have "v sdiv 10 ^ Suc n = 0" by (simp only: sdiv_pow_sgn [of v "Suc n"]) simp
    then show ?thesis using True by simp
  next
    case False
    then have "v sdiv 10 < 0 \<longleftrightarrow> v < 0" using sdiv_pow_sgn [of v 1] div_pow_nonneg [of v 1] by (auto split: if_splits)
    then show ?thesis by (simp only: sdiv_pow_sgn [of "v sdiv 10" n] sdiv_pow_sgn [of v "Suc n"] d a)
  qed
qed

lemma cut_loop_sdiv: "cut_loop n v = v sdiv 10 ^ n"
proof (induction n arbitrary: v)
  case 0
  then show ?case using sdiv_pow_sgn [of v 0] by simp
next
  case (Suc n)
  then show ?case using sdiv_sdiv_10 [of v n] by simp
qed

lemma rounded_cut: "rounded (dec_rat d) s 0 = dvalue (shift_decimal d (s - dscale d))"
  using round_decimal_rounded [of s 0 d] by (simp add: round_decimal_def opt_set_def)

lemma sdiv_10_floor: "(w :: int) \<le> 0 \<Longrightarrow> (if w mod 10 \<noteq> 0 then w - 10 else w) sdiv 10 = w div 10"
proof -
  assume w: "w \<le> 0"
  have s: "x sdiv 10 = - ((- x) div 10)" if "x \<le> 0" for x :: int
    using sdiv_pow_sgn [of x 1] that by (cases "x = 0") simp_all
  show ?thesis
  proof (cases "w mod 10 = 0")
    case True
    then show ?thesis using s [OF w] by (simp add: zdiv_zminus1_eq_if)
  next
    case False
    have "(10 - w) div 10 = 1 + (- w) div 10" by simp
    moreover have "(- w) div 10 = - (w div 10) - 1" using False by (simp add: zdiv_zminus1_eq_if)
    ultimately show ?thesis using s [of "w - 10"] w False by simp
  qed
qed

lemma dec_rat_sign: "0 \<le> dec_rat d \<longleftrightarrow> 0 \<le> dvalue d"
  using powi_pos [of "- dscale d"] by (simp add: dec_rat_def zero_le_mult_iff not_le [symmetric])

lemma cut_places_value: "dvalue d < 0 \<Longrightarrow> 0 < dscale d \<Longrightarrow> dvalue (cut_places d) = rounded (dec_rat d) 1 0 \<and> dscale (cut_places d) = 1"
  unfolding rounded_cut by (auto simp: cut_places_def cut_loop_sdiv shift_decimal_def nat_diff_distrib)

lemma integer_decimal_value: "rounded (dec_rat (integer_decimal d)) 0 0 = integer_value (dec_rat d)"
proof (cases "0 \<le> dvalue d")
  case True
  then have "0 \<le> dec_rat d" by (simp add: dec_rat_sign)
  then show ?thesis using True by (simp add: integer_decimal_def integer_value_def rounded_def opt_set_def Let_def)
next
  case neg: False
  then have n: "\<not> 0 \<le> dec_rat d" by (simp add: dec_rat_sign)
  let ?w = "rounded (dec_rat d) 1 0"
  have fl: "\<lfloor>of_int ?w / (10 :: rat)\<rfloor> = ?w div 10" using floor_div_int [of 10 ?w] by simp
  show ?thesis
  proof (cases "0 < dscale d")
    case True
    have c: "dvalue (cut_places d) = ?w" "dscale (cut_places d) = 1" using cut_places_value [of d] neg True by simp_all
    have w: "?w \<le> 0" using n by (auto simp: rounded_def Let_def opt_set_def)
    have "integer_decimal d = (cut_places d)\<lparr>dvalue := (if ?w mod 10 \<noteq> 0 then ?w - 10 else ?w)\<rparr>"
      using neg c by (simp add: integer_decimal_def Let_def)
    then have "dvalue (integer_decimal d) = (if ?w mod 10 \<noteq> 0 then ?w - 10 else ?w)" "dscale (integer_decimal d) = 1"
      using c by simp_all
    then have "rounded (dec_rat (integer_decimal d)) 0 0 = (if ?w mod 10 \<noteq> 0 then ?w - 10 else ?w) sdiv 10"
      unfolding rounded_cut by (simp add: shift_decimal_def)
    then show ?thesis using sdiv_10_floor [OF w] n fl by (simp add: integer_value_def)
  next
    case False
    have i: "integer_decimal d = d" using neg False by (simp add: integer_decimal_def cut_places_def)
    have r: "rounded (dec_rat d) 0 0 = dvalue d * 10 ^ nat (- dscale d)" "?w = dvalue d * 10 ^ nat (1 - dscale d)"
      unfolding rounded_cut using False by (auto simp: shift_decimal_def)
    have "nat (1 - dscale d) = Suc (nat (- dscale d))" using False by simp
    then have "?w = rounded (dec_rat d) 0 0 * 10" using r by simp
    then show ?thesis using n fl i by (simp add: integer_value_def)
  qed
qed

lemma integer_of_item:
  assumes v: "num_val T M f = Some v" "loadable T f v" "field_scale f \<noteq> - 128"
    and X: "T = ie_target X" "M = ie_module X" "cob_li_is_ll T"
    and w: "w = integer_value (item_rat f v)" "\<bar>w\<bar> < 2 ^ 63"
  shows "\<exists>N g f'. cob_intr_integer X S f = Some ((fst S, N), g, f') \<and> num_val T M g = Some w \<and> num_val T M f' = Some v \<and>
    field_scale g = 0"
proof -
  obtain h where h: "set_field X f = Some (mkdec v (field_scale f), h)" "num_val T M h = Some v"
    using set_field_num [OF v(1,2)] X by (auto simp: set_field_def)
  let ?d = "integer_decimal (mkdec v (field_scale f))" and ?e = "wide_entry 0"
  have e: "field_type ?e = COB_TYPE_NUMERIC_BINARY" "fsize ?e = 8" "have_sign ?e" "field_scale ?e = 0" "field_digits ?e = 18"
    by (simp_all add: wide_entry_def bin_entry_def entry_scale_def)
  have st: "storable T ?e" using e X(3) by (simp add: storable_def wf_binary_def COB_MAX_BINARY_def)
  have n: "dscale ?d \<noteq> DECIMAL_NAN"
    using v(3) by (auto simp: integer_decimal_def cut_places_def DECIMAL_NAN_def Let_def)
  have r: "w = rounded (dec_rat ?d) (field_scale ?e) 0"
    using integer_decimal_value [of "mkdec v (field_scale f)"] w(1) e(4) by (simp add: item_rat_def)
  have b: "\<bar>w\<bar> < 10 ^ (num_buff_size - 1)" by (rule buffer_room [of _ 19]) (use w(2) in simp_all)
  have ft: "field_fits M ?e 0 w" using e w(2) by (simp add: field_fits_def binary_fits_def)
  from get_field_num [OF st n r b disjI2 [OF ft], of "fst S" "ie_fp X" "snd S"] ft e(3)
  obtain N g where g: "cob_decimal_get_field (fst S) T (ie_fp X) M (snd S) ?d ?e 0 = Some (0, fst S, N, g)"
    "same_shape ?e g" "num_val T M g = Some w" by (auto simp: stored_def)
  have "field_scale g = 0" using same_shape_sel(1) [OF g(2)] e(4) by simp
  moreover have "cob_intr_integer X S f = Some ((fst S, N), g, h)"
    using h(1) g(1) X by (simp add: cob_intr_integer_def get_field_def)
  ultimately show ?thesis using g(3) h(2) by blast
qed

end
