(* ===== verification/Cob_Class.thy ===== *)
theory Cob_Class
  imports Cob_Common
begin

text \<open>
  The class test NUMERIC (common.c, \<open>cob_is_numeric\<close>) against the characters and half bytes
  an item may hold, said without the routines that read and write the sign.
\<close>

section \<open>What a numeric item may hold\<close>

definition sign_char_of :: "cob_field \<Rightarrow> u8" where
  "sign_char_of f = (if sign_leading f then hd (fdata f) else last (fdata f))"

definition other_chars :: "cob_field \<Rightarrow> bytes" where
  "other_chars f = (if sign_leading f then tl (fdata f) else butlast (fdata f))"

text \<open>
  A sign of its own may be any character; a sign over a digit is a digit, a space or one of
  \<open>p\<close> to \<open>y\<close>, under the EBCDIC convention any character at all.
\<close>

definition display_content :: "cob_module \<Rightarrow> cob_field \<Rightarrow> bool" where
  "display_content M f \<longleftrightarrow>
    (if have_sign f then
       (\<forall>b\<in>set (other_chars f). isdigit b) \<and>
       (sign_separate f \<or> display_sign M \<or> isdigit (sign_char_of f) \<or> sign_char_of f = 0x20 \<or>
        0x70 \<le> sign_char_of f \<and> sign_char_of f \<le> 0x79)
     else \<forall>b\<in>set (fdata f). isdigit b)"

definition packed_content :: "cob_field \<Rightarrow> bool" where
  "packed_content f \<longleftrightarrow>
    (\<forall>n\<in>set (butlast (nibs (fdata f))). n \<le> 9) \<and>
    last (nibs (fdata f)) \<in> (if have_sign f then {0xC, 0xD, 0xF} else {0xF})"

definition numeric_content :: "cob_module \<Rightarrow> cob_field \<Rightarrow> bool" where
  "numeric_content M f \<longleftrightarrow>
    (case field_type f of
       COB_TYPE_NUMERIC_BINARY \<Rightarrow> True
     | COB_TYPE_NUMERIC_FLOAT \<Rightarrow> True
     | COB_TYPE_NUMERIC_DOUBLE \<Rightarrow> True
     | COB_TYPE_NUMERIC_PACKED \<Rightarrow> packed_content f
     | COB_TYPE_NUMERIC_DISPLAY \<Rightarrow> display_content M f
     | _ \<Rightarrow> \<forall>b\<in>set (fdata f). isdigit b)"

section \<open>PACKED-DECIMAL\<close>

lemma and_f0_high: "(b :: u8) AND 0xf0 \<le> 0x90 \<longleftrightarrow> uint b div 16 \<le> 9"
proof -
  have "uint (b AND 0xf0) = 16 * (uint b div 16 mod 16)"
    using and_f0 [of "uint b"] by (simp add: uint_and)
  moreover have "uint b div 16 mod 16 = uint b div 16" using byte_range(1,2) [of b] by simp
  ultimately show ?thesis by (simp add: word_le_def)
qed

lemma and_0f_low: "(b :: u8) AND 0x0f \<le> 0x09 \<longleftrightarrow> uint b mod 16 \<le> 9" "(b :: u8) AND 0x0f = w \<longleftrightarrow> uint b mod 16 = uint w"
  using low_nib [of b] by (simp_all add: word_le_def word_uint_eq_iff)

lemma nibs_snoc: "nibs (p @ [b]) = nibs p @ [uint b div 16, uint b mod 16]"
  by (simp add: nibs_append)

lemma set_nibs: "set (nibs p) = (\<Union>b\<in>set p. {uint b div 16, uint b mod 16})"
  by (induction p) auto

lemma packed_class_content: "fdata f \<noteq> [] \<Longrightarrow> packed_class f = Some (packed_content f)"
proof -
  assume "fdata f \<noteq> []"
  then obtain p b where f: "fdata f = p @ [b]" by (cases "fdata f" rule: rev_cases) auto
  have d: "list_all pk_digit_byte p \<longleftrightarrow> (\<forall>n\<in>set (nibs p). n \<le> 9)"
    by (auto simp: list_all_iff pk_digit_byte_def set_nibs and_f0_high and_0f_low(1))
  have s: "b AND 0x0f = 0x0f \<longleftrightarrow> uint b mod 16 = 15" "b AND 0x0f = 0x0c \<longleftrightarrow> uint b mod 16 = 12"
    "b AND 0x0f = 0x0d \<longleftrightarrow> uint b mod 16 = 13" by (simp_all add: and_0f_low(2))
  have "butlast (nibs (fdata f)) = nibs p @ [uint b div 16]" "last (nibs (fdata f)) = uint b mod 16"
    unfolding f nibs_snoc by (simp_all add: butlast_append)
  then show ?thesis
    by (auto simp: packed_class_def packed_content_def f d s Let_def and_f0_high not_le [symmetric] simp del: not_le)
qed

section \<open>DISPLAY\<close>

lemma overpunched_digit: "isdigit (b - 0x40) \<longleftrightarrow> 0x70 \<le> b \<and> b \<le> (0x79 :: u8)"
  unfolding isdigit_def by (uint_arith; simp)

lemma ebcdic_digit: "isdigit (snd (cob_get_sign_ebcdic b))"
  by (simp add: cob_get_sign_ebcdic_def isdigit_def)

lemma zoned_digit: "isdigit (snd (zoned_get e b)) \<longleftrightarrow> e \<or> isdigit b \<or> b = 0x20 \<or> 0x70 \<le> b \<and> b \<le> 0x79"
  using overpunched_digit [of b] ebcdic_digit [of b] by (auto simp: zoned_get_def isdigit_def)

lemma all_digits_all: "all_digits bs \<longleftrightarrow> (\<forall>b\<in>set bs. isdigit b)"
  by (induction bs) auto

lemma all_digits_parts:
  assumes "fdata f \<noteq> []"
  shows "all_digits ((fdata f)[sign_pos f := c]) \<longleftrightarrow> (\<forall>b\<in>set (other_chars f). isdigit b) \<and> isdigit c"
proof (cases "sign_leading f")
  case True
  then show ?thesis using assms by (cases "fdata f") (auto simp: sign_pos_def other_chars_def all_digits_all)
next
  case False
  then show ?thesis using assms by (cases "fdata f" rule: rev_cases) (auto simp: sign_pos_def other_chars_def fsize_def all_digits_all)
qed

lemma sign_char_at: "fdata f \<noteq> [] \<Longrightarrow> rd (fdata f) (sign_pos f) = Some (sign_char_of f)"
  by (cases "fdata f" rule: rev_cases) (auto simp: rd_def sign_pos_def sign_char_of_def fsize_def hd_conv_nth)

lemma separate_bytes: "sign_separate f \<Longrightarrow> field_bytes f = other_chars f"
  by (simp add: field_bytes_def data_size_def data_off_def other_chars_def fsize_def butlast_conv_take drop_Suc)

lemma display_content_test:
  assumes t: "field_type f = COB_TYPE_NUMERIC_DISPLAY" and f: "fdata f \<noteq> []" "sign_separate f \<longrightarrow> have_sign f"
  shows "\<exists>g. cob_is_numeric M f = Some (display_content M f, g) \<and> same_shape f g"
proof (cases "have_sign f")
  case False
  then have "field_bytes f = fdata f" using f(2) field_bytes_nonsep by blast
  then show ?thesis using False t by (simp add: cob_is_numeric_def cob_get_sign_def cob_put_sign_def display_content_def same_shape_def all_digits_all)
next
  case True
  have p: "sign_pos f < length (fdata f)" using f(1) by (simp add: sign_pos_def fsize_def)
  show ?thesis
  proof (cases "sign_separate f")
    case sep: True
    then show ?thesis using True t p sign_char_at [OF f(1)] separate_bytes [OF sep]
      by (auto simp: cob_is_numeric_def cob_get_sign_def cob_put_sign_def cob_real_get_sign_def cob_real_put_sign_def
          display_content_def same_shape_def all_digits_all wr_def fsize_def set_data_def field_sel)
  next
    case nosep: False
    obtain s c where z: "zoned_get (display_sign M) (sign_char_of f) = (s, c)" by force
    then have c: "isdigit c \<longleftrightarrow> display_sign M \<or> isdigit (sign_char_of f) \<or> sign_char_of f = 0x20 \<or>
        0x70 \<le> sign_char_of f \<and> sign_char_of f \<le> 0x79"
      using zoned_digit [of "display_sign M" "sign_char_of f"] by simp
    let ?g = "set_data f ((fdata f)[sign_pos f := c])"
    have g: "cob_get_sign M f = Some (s, ?g)"
      using True nosep t p sign_char_at [OF f(1)] z by (simp add: cob_get_sign_def cob_real_get_sign_def wr_def)
    have "field_bytes ?g = (fdata f)[sign_pos f := c]" using nosep field_bytes_nonsep [of ?g] by (simp add: set_data_def field_sel)
    then have a: "all_digits (field_bytes ?g) \<longleftrightarrow> display_content M f"
      using all_digits_parts [OF f(1), of c] c True nosep by (simp add: display_content_def)
    have "\<exists>h. cob_put_sign M ?g s = Some h \<and> same_shape f h"
      using True nosep t p by (auto simp: cob_put_sign_def cob_real_put_sign_def rd_def wr_def same_shape_def fsize_def set_data_def field_sel
          sign_pos_def)
    then show ?thesis using g a t by (auto simp: cob_is_numeric_def)
  qed
qed

theorem is_numeric_content:
  assumes "fdata f \<noteq> []" "sign_separate f \<longrightarrow> have_sign f"
  shows "\<exists>g. cob_is_numeric M f = Some (numeric_content M f, g) \<and> same_shape f g"
proof (cases "field_type f = COB_TYPE_NUMERIC_DISPLAY")
  case True
  then show ?thesis using display_content_test [OF True assms] by (simp add: numeric_content_def)
next
  case False
  then show ?thesis using packed_class_content [OF assms(1)]
    by (cases "field_type f") (auto simp: cob_is_numeric_def numeric_content_def same_shape_def all_digits_all)
qed


section \<open>A literal compared with an item\<close>

text \<open>With the figurative constant or \<open>ALL\<close> literal first the result has the other sign.\<close>

lemma cob_cmp_figurative_first:
  assumes "char_operand f" "fdata g \<noteq> []" "field_type g = COB_TYPE_ALPHANUMERIC_ALL" "\<not> z1 \<or> \<not> field_is_numeric f"
    "field_type f \<noteq> COB_TYPE_ALPHANUMERIC_ALL"
  shows "cob_cmp T E M N z1 g z2 f = Some (- common_cmps (collating_sequence M) (fdata f)
     (take (fsize f) (concat (replicate (fsize f) (fdata g)))), N, g, f)"
proof -
  have n: "\<not> field_is_numeric g" using assms by (simp add: field_is_numeric_def)
  have s: "\<not> have_sign f" using assms by (simp add: char_operand_def)
  have "cob_cmp_char M f (fdata g ! 0) = Some (cmp_all_loop (collating_sequence M) (fdata f) (fdata g), f)"
    if "fsize g = 1"
  proof -
    from that obtain c where c: "fdata g = [c]" by (auto simp: fsize_def length_Suc_conv)
    have "concat (replicate n [c]) = replicate n c" for n by (induction n) simp_all
    with s c show ?thesis by (simp add: cob_cmp_char_def cmp_all_loop_repeat common_cmpc_replicate)
  qed
  with assms s n show ?thesis by (auto simp: cob_cmp_def cob_cmp_all_def cmp_all_loop_repeat fsize_def)
qed

text \<open>What a comparison of two texts of one length says.\<close>

definition decides :: "int \<Rightarrow> 'a::linorder \<Rightarrow> 'a \<Rightarrow> bool" where
  "decides c x y \<longleftrightarrow> (c < 0 \<longleftrightarrow> x < y) \<and> (c = 0 \<longleftrightarrow> x = y) \<and> (0 < c \<longleftrightarrow> y < x)"

lemma decidesI: "(c < 0 \<longleftrightarrow> x < y) \<Longrightarrow> (c = 0 \<longleftrightarrow> x = y) \<Longrightarrow> decides c x y"
  by (auto simp: decides_def)

lemma decides_minus: "decides (- c) y x \<longleftrightarrow> decides c x y"
  by (auto simp: decides_def)

end
