(* ===== verification/Cob_Termio.thy ===== *)
theory Cob_Termio
  imports Cob_Move_Numeric Cob_Services
begin

text \<open>
  termio.c: DISPLAY and ACCEPT on the terminal, without the screen. What a program prints is a
  list of bytes per stream, what it can still read is a list of bytes. The text of a floating
  point item (\<open>fprintf ("%-.18lf")\<close>) is a parameter.
\<close>

section \<open>State\<close>

record term_env =
  tm_target :: target
  tm_fp :: fp_env
  tm_module :: cob_module
  flag_pretty_display :: bool
  fp_show :: "cob_type \<Rightarrow> bytes \<Rightarrow> bytes"

record term_state =
  term_in :: bytes
  term_out :: bytes
  term_err :: bytes

abbreviation COB_FLAG_IS_POINTER :: u8 where "COB_FLAG_IS_POINTER \<equiv> 0x80"

definition is_pointer :: "cob_field \<Rightarrow> bool" where
  "is_pointer f \<longleftrightarrow> attr_flags (fattr f) AND COB_FLAG_IS_POINTER \<noteq> 0"

definition bin_digits :: "nat list" where
  "bin_digits = [1, 3, 5, 8, 10, 13, 15, 17, 20]"

section \<open>DISPLAY\<close>

text \<open>
  A number is moved to a DISPLAY item with a sign of its own, or, for the pretty form, to an
  edited item with a plus or minus in front and a decimal point. Its storage is an array of
  128 (256) bytes. The item displayed comes back from the MOVE as it was. The move writes every byte, so
  what the arrays held does not matter.
\<close>

definition display_target :: "cob_field \<Rightarrow> cob_field" where
  "display_target f =
    (let sz = field_digits f + (if have_sign f then 1 else 0);
         flags = (if \<not> have_sign f then 0
           else if sign_leading f \<or> field_type f = COB_TYPE_NUMERIC_BINARY
           then COB_FLAG_HAVE_SIGN OR COB_FLAG_SIGN_SEPARATE OR COB_FLAG_SIGN_LEADING
           else COB_FLAG_HAVE_SIGN OR COB_FLAG_SIGN_SEPARATE) in
     cob_fld COB_TYPE_NUMERIC_DISPLAY (field_digits f) (field_scale f) flags [] (replicate sz 0))"

definition display_numeric :: "term_env \<Rightarrow> cob_field \<Rightarrow> (bytes \<times> cob_field) option" where
  "display_numeric X f =
    (if fsize f = 0 then Some ([], f)
     else let t = display_target f in
       if 128 < fsize t then None
       else map_option (\<lambda>(f, t). (fdata t, f)) (cob_move (tm_target X) (tm_fp X) (tm_module X) f t))"

text \<open>A scale beyond the digits gives the picture a negative count, which the model of pictures does not have.\<close>

definition pretty_pic :: "term_env \<Rightarrow> cob_field \<Rightarrow> picture" where
  "pretty_pic X f = (if have_sign f then [(chr_plus, 1)] else []) @
     (if field_scale f > 0
      then [(chr_9, nat (int (field_digits f) - field_scale f)), (decimal_point (tm_module X), 1), (chr_9, nat (field_scale f))]
      else [(chr_9, field_digits f)])"

definition pretty_display_numeric :: "term_env \<Rightarrow> cob_field \<Rightarrow> (bytes \<times> cob_field) option" where
  "pretty_display_numeric X f =
    (if fsize f = 0 then Some ([], f)
     else let sz = field_digits f + (if have_sign f then 1 else 0) + (if field_scale f > 0 then 1 else 0);
              t = cob_fld COB_TYPE_NUMERIC_EDITED (field_digits f) (field_scale f) 0 (pretty_pic X f) (replicate sz 0) in
       if 256 < sz \<or> field_scale f > int (field_digits f) then None
       else map_option (\<lambda>(f, t). (fdata t, f)) (cob_move (tm_target X) (tm_fp X) (tm_module X) f t))"

text \<open>A pointer: its eight bytes from the most significant one, in hexadecimal.\<close>

definition hex_char :: "u8 \<Rightarrow> u8" where
  "hex_char n = (if n < 10 then 0x30 + n else 0x57 + n)"

definition display_pointer :: "target \<Rightarrow> bytes \<Rightarrow> bytes" where
  "display_pointer T bs = [0x30, 0x78] @
     concat (map (\<lambda>b. [hex_char (drop_bit 4 b), hex_char (b AND 0xF)]) (if words_bigendian T then bs else rev bs))"

definition display :: "term_env \<Rightarrow> cob_field \<Rightarrow> (bytes \<times> cob_field) option" where
  "display X f =
    (if field_type f = COB_TYPE_NUMERIC_DOUBLE \<or> field_type f = COB_TYPE_NUMERIC_FLOAT
     then Some (fp_show X (field_type f) (fdata f), f)
     else if is_pointer f then
       (if fsize f < 8 then None else Some (display_pointer (tm_target X) (take 8 (fdata f)), f))
     else if real_binary f \<or> (field_type f = COB_TYPE_NUMERIC_BINARY \<and> \<not> flag_pretty_display X) then
       (if length bin_digits \<le> fsize f then None
        else map_option (\<lambda>(bs, g). (bs, g\<lparr>fattr := fattr f\<rparr>))
          (display_numeric X (f\<lparr>fattr := (fattr f)\<lparr>attr_digits := bin_digits ! fsize f\<rparr>\<rparr>)))
     else if field_is_numeric f then
       (if flag_pretty_display X then pretty_display_numeric X f else display_numeric X f)
     else Some (fdata f, f))"

fun display_all :: "term_env \<Rightarrow> cob_field list \<Rightarrow> (bytes \<times> cob_field list) option" where
  "display_all X [] = Some ([], [])"
| "display_all X (f # fs) = do {
     (bs, f) \<leftarrow> display X f;
     (cs, fs) \<leftarrow> display_all X fs;
     Some (bs @ cs, f # fs) }"

text \<open>\<open>outorerr\<close> is the UPON phrase; a screen that is in use takes the output of both to \<open>stderr\<close>.\<close>

definition cob_display ::
  "term_env \<Rightarrow> bool \<Rightarrow> bool \<Rightarrow> bool \<Rightarrow> cob_field list \<Rightarrow> term_state \<Rightarrow> (term_state \<times> cob_field list) option" where
  "cob_display X screen outorerr newline fs S = do {
     (bs, fs) \<leftarrow> display_all X fs;
     let bs = (if newline then bs @ [10] else bs);
     Some (if \<not> outorerr \<and> \<not> screen then S\<lparr>term_out := term_out S @ bs\<rparr> else S\<lparr>term_err := term_err S @ bs\<rparr>, fs) }"

section \<open>ACCEPT\<close>

text \<open>
  \<open>fgets\<close>: up to \<open>n\<close> characters, no more than to the end of the line; nothing at the end of
  the input. The buffer is read as a C string.
\<close>

fun take_line :: "nat \<Rightarrow> bytes \<Rightarrow> bytes \<times> bytes" where
  "take_line 0 bs = ([], bs)"
| "take_line (Suc n) [] = ([], [])"
| "take_line (Suc n) (b # bs) =
    (if b = 10 then ([b], bs) else let (l, r) = take_line n bs in (b # l, r))"

definition fgets :: "nat \<Rightarrow> bytes \<Rightarrow> (bytes option \<times> bytes)" where
  "fgets n bs = (if bs = [] then (None, []) else let (l, r) = take_line (n - 1) bs in (Some l, r))"

text \<open>
  The size of the line is \<open>strlen - 1\<close>, whether or not the line ends with a line end; for an
  empty string it is the largest \<open>size_t\<close>, unless the target is a DISPLAY item, whose size bounds it.
\<close>

definition accepted :: "bytes option \<Rightarrow> cob_field \<Rightarrow> bytes option" where
  "accepted l f =
    (case l of
       None \<Rightarrow> Some (take (if field_type f = COB_TYPE_NUMERIC_DISPLAY then fsize f else 1) [chr_space])
     | Some bs \<Rightarrow>
       let n = length (c_string bs) in
       if field_type f = COB_TYPE_NUMERIC_DISPLAY then
         (if n = 0 then (if fsize f \<le> length bs then Some (take (fsize f) bs) else None)
          else Some (take (min (n - 1) (fsize f)) bs))
       else if n = 0 then None else Some (take (n - 1) bs))"

definition cob_accept :: "term_env \<Rightarrow> cob_field \<Rightarrow> term_state \<Rightarrow> (term_state \<times> cob_field) option" where
  "cob_accept X f S = do {
     let (l, rest) = fgets COB_MEDIUM_BUFF (term_in S);
     bs \<leftarrow> accepted l f;
     (_, f) \<leftarrow> cob_move (tm_target X) (tm_fp X) (tm_module X) (cob_fld COB_TYPE_ALPHANUMERIC 0 0 0 [] bs) f;
     Some (S\<lparr>term_in := rest\<rparr>, f) }"


section \<open>What DISPLAY prints\<close>

text \<open>The digits of the number, and the sign in front or behind.\<close>

definition signed_text :: "cob_field \<Rightarrow> u8 \<Rightarrow> bytes \<Rightarrow> bytes" where
  "signed_text f c ds = (if \<not> have_sign f then ds
     else if sign_leading f \<or> field_type f = COB_TYPE_NUMERIC_BINARY then c # ds else ds @ [c])"

definition shown_sign :: "int \<Rightarrow> u8 \<Rightarrow> bool" where
  "shown_sign v c \<longleftrightarrow> (c = chr_plus \<or> c = chr_minus) \<and> (0 < v \<longrightarrow> c = chr_plus) \<and> (v < 0 \<longrightarrow> c = chr_minus)"

lemma display_target_sel:
  "field_type (display_target f) = COB_TYPE_NUMERIC_DISPLAY" "have_sign (display_target f) = have_sign f"
  "sign_separate (display_target f) = have_sign f" "field_scale (display_target f) = field_scale f"
  "sign_leading (display_target f) = (have_sign f \<and> (sign_leading f \<or> field_type f = COB_TYPE_NUMERIC_BINARY))"
  "fsize (display_target f) = field_digits f + (if have_sign f then 1 else 0)"
  "data_size (display_target f) = field_digits f"
  by (auto simp: display_target_def Let_def data_size_def)

lemma put_sign_char:
  assumes "cob_put_sign M x s = Some g" "have_sign x" "sign_separate x" "field_type x = COB_TYPE_NUMERIC_DISPLAY"
  shows "fdata g ! sign_pos g = chr_plus \<or> fdata g ! sign_pos g = chr_minus"
proof -
  obtain p where p: "wr (fdata x) (sign_pos x) (if s < 0 then chr_minus else chr_plus) = Some p" "g = set_data x p"
    using assms by (auto simp: cob_put_sign_def cob_real_put_sign_def bind_eq_Some_conv)
  then have "length p = fsize x" "sign_pos x < fsize x" "p ! sign_pos x = (if s < 0 then chr_minus else chr_plus)"
    by (auto simp: wr_def fsize_def split: if_splits)
  then show ?thesis using p(2) by simp
qed

text \<open>Each conversion to DISPLAY ends by writing the sign.\<close>

lemma move_writes_sign:
  assumes m: "cob_move T E M f t = Some (f', g)" and f: "num_type (field_type f)" "fsize f \<noteq> 0" "fsize t \<noteq> 0"
    and t: "have_sign t" "sign_separate t" "field_type t = COB_TYPE_NUMERIC_DISPLAY"
  shows "fdata g ! sign_pos g = chr_plus \<or> fdata g ! sign_pos g = chr_minus"
proof -
  have g: "fsize f \<noteq> 0" "fsize t \<noteq> 0" "field_type t \<noteq> COB_TYPE_GROUP" using f(2,3) t(3) by simp_all
  consider "field_type f = COB_TYPE_NUMERIC_DISPLAY" | "field_type f = COB_TYPE_NUMERIC_PACKED"
    | "field_type f = COB_TYPE_NUMERIC_BINARY" using f(1) by (auto simp: num_type_def)
  then have "\<exists>x sc s. cob_put_sign M (store_common_region t x sc) s = Some g"
  proof cases
    case 1
    then have "cob_move T E M f t = cob_move_display_to_display M f t"
      using g t(3) by (subst cob_move.simps) (simp add: is_fp_def)
    with m have "cob_move_display_to_display M f t = Some (f', g)" by simp
    then show ?thesis by (auto simp: cob_move_display_to_display_def bind_eq_Some_conv Let_def)
  next
    case 2
    then have "cob_move T E M f t = cob_move_packed_to_display M f t"
      using g t(3) by (subst cob_move.simps) simp
    with m have "cob_move_packed_to_display M f t = Some (f', g)" by simp
    then show ?thesis by (auto simp: cob_move_packed_to_display_def bind_eq_Some_conv Let_def)
  next
    case 3
    then have "cob_move T E M f t = cob_move_binary_to_display T M f t"
      using g t(3) by (subst cob_move.simps) simp
    with m have "cob_move_binary_to_display T M f t = Some (f', g)" by simp
    then show ?thesis by (auto simp: cob_move_binary_to_display_def bind_eq_Some_conv Let_def)
  qed
  then obtain x sc s where x: "cob_put_sign M (store_common_region t x sc) s = Some g" by blast
  have "fattr (store_common_region t x sc) = fattr t" by (simp add: store_common_region_def Let_def put_bytes_def)
  then have "have_sign (store_common_region t x sc)" "sign_separate (store_common_region t x sc)"
    "field_type (store_common_region t x sc) = COB_TYPE_NUMERIC_DISPLAY"
    using t by (simp_all add: have_sign_def sign_separate_def field_type_def)
  from put_sign_char [OF x this] show ?thesis .
qed

lemma split_sign:
  assumes "sign_separate g" "0 < fsize g"
  shows "fdata g = (if sign_leading g then fdata g ! sign_pos g # field_bytes g else field_bytes g @ [fdata g ! sign_pos g])"
proof (cases "sign_leading g")
  case True
  then show ?thesis using assms
    by (cases "fdata g") (simp_all add: field_bytes_def data_size_def data_off_def sign_pos_def fsize_def)
next
  case False
  then show ?thesis using assms
    by (cases "fdata g" rule: rev_cases) (simp_all add: field_bytes_def data_size_def data_off_def sign_pos_def fsize_def)
qed

lemma display_numeric_shows:
  assumes v: "num_val (tm_target X) (tm_module X) f = Some v"
    and f: "field_type f = COB_TYPE_NUMERIC_DISPLAY \<Longrightarrow> field_digits f = data_size f"
      "field_type f = COB_TYPE_NUMERIC_PACKED \<Longrightarrow> field_digits f \<le> 64" "0 < field_digits f" "field_digits f < 128"
    and b: "\<bar>v\<bar> < 10 ^ field_digits f" "have_sign f \<or> 0 \<le> v"
  shows "\<exists>c f'. display_numeric X f = Some (signed_text f c (pad_digits (field_digits f) \<bar>v\<bar>), f') \<and>
    shown_sign v c \<and> num_val (tm_target X) (tm_module X) f' = Some v"
proof -
  let ?T = "tm_target X" and ?M = "tm_module X" and ?t = "display_target f"
  note t = display_target_sel [of f]
  have wt: "wf_field ?t" using f(3) t by (simp add: wf_field_def)
  have "moved ?T ?M f ?t v (cob_move ?T (tm_fp X) ?M f ?t)"
    by (rule move_num [OF v]) (use wt t f in \<open>simp_all add: num_target_def move_fits_def\<close>)
  then obtain f' g where m: "cob_move ?T (tm_fp X) ?M f ?t = Some (f', g)" "same_shape ?t g"
    "num_val ?T ?M f' = Some v" "num_val ?T ?M g = Some (move_result ?t v 0)"
    unfolding moved_def t by auto
  have gt: "field_type g = COB_TYPE_NUMERIC_DISPLAY" "have_sign g = have_sign f" "sign_separate g = have_sign f"
    "sign_leading g = (have_sign f \<and> (sign_leading f \<or> field_type f = COB_TYPE_NUMERIC_BINARY))" "fsize g = fsize ?t"
    "data_size g = field_digits f"
    using m(2) t by (simp_all add: same_shape_def field_type_def have_sign_def sign_separate_def sign_leading_def data_size_def)
  have r: "move_result ?t v 0 = v"
    using b t by (cases "v < 0") (simp_all add: move_result_def capacity_def rescale_def)
  obtain s h where h: "cob_get_sign ?M g = Some (s, h)" "all_digits (field_bytes h)" "v = signed_val s (field_bytes h)"
    "length (field_bytes h) = field_digits f"
    using num_valE [OF m(4) gt(1)] r gt(6) by metis
  have ds: "field_bytes h = pad_digits (field_digits f) \<bar>v\<bar>"
    using pad_digits_dec_val [OF h(2)] h(3,4) dec_val_nonneg [OF h(2)] by (simp add: signed_val_def split: if_splits)
  have fs: "fsize f \<noteq> 0" using num_val_size [OF v] by simp
  have d: "display_numeric X f = Some (fdata g, f')"
    using m(1) fs f(4) t by (simp add: display_numeric_def Let_def)
  show ?thesis
  proof (cases "have_sign f")
    case False
    then have "h = g" using h(1) gt by (simp add: cob_get_sign_def)
    then have "fdata g = pad_digits (field_digits f) \<bar>v\<bar>" using ds field_bytes_nonsep [of g] gt(3) False by simp
    then show ?thesis using d m(3) False by (intro exI [of _ "if v < 0 then chr_minus else chr_plus"]) (auto simp: signed_text_def shown_sign_def)
  next
    case True
    let ?c = "fdata g ! sign_pos g"
    have room: "sign_pos g < length (fdata g)" using gt True t f(3) by (simp add: sign_pos_def fsize_def split: if_splits)
    have hg: "h = g" "s = (if ?c = chr_plus then 1 else - 1)"
      using h(1) gt True room by (auto simp: cob_get_sign_def cob_real_get_sign_def rd_def)
    have pm: "?c = chr_plus \<or> ?c = chr_minus"
      by (rule move_writes_sign [OF m(1)]) (use num_val_size [OF v] True t f(3) in simp_all)
    have "shown_sign v ?c"
      using pm hg(2) h(3) dec_val_nonneg [OF h(2)] by (auto simp: shown_sign_def signed_val_def split: if_splits)
    moreover have "fdata g = signed_text f ?c (pad_digits (field_digits f) \<bar>v\<bar>)"
      by (subst split_sign) (use gt True t ds hg(1) f(3) in \<open>simp_all add: signed_text_def\<close>)
    ultimately show ?thesis using d m(3) by auto
  qed
qed


text \<open>A binary item is shown with the digits that any value of its size has.\<close>

definition shown_digits :: "cob_field \<Rightarrow> nat" where
  "shown_digits f = (if field_type f = COB_TYPE_NUMERIC_BINARY then bin_digits ! fsize f else field_digits f)"

lemma bin_digits_fit:
  assumes "wf_binary f"
  shows "\<bar>bin_val T f\<bar> < 10 ^ (bin_digits ! fsize f)" "0 < bin_digits ! fsize f" "bin_digits ! fsize f < 128"
    "fsize f < length bin_digits"
proof -
  have f: "fsize f \<in> {1, 2, 3, 4, 5, 6, 7, 8}" using assms by (auto simp: wf_binary_def)
  have "\<bar>bin_val T f\<bar> < 2 ^ (8 * fsize f)"
  proof (cases "have_sign f")
    case True
    have "(2::int) ^ (8 * fsize f - 1) < 2 ^ (8 * fsize f)" using f by auto
    then show ?thesis using bin_val_bounds [OF assms, of T] True by linarith
  qed (use bin_val_bounds [OF assms, of T] in simp)
  also have "\<dots> \<le> 10 ^ (bin_digits ! fsize f)" using f by (auto simp: bin_digits_def)
  finally show "\<bar>bin_val T f\<bar> < 10 ^ (bin_digits ! fsize f)" .
  show "0 < bin_digits ! fsize f" "bin_digits ! fsize f < 128" "fsize f < length bin_digits"
    using f by (auto simp: bin_digits_def)
qed

lemma display_number:
  assumes v: "num_val (tm_target X) (tm_module X) f = Some v"
    and f: "\<not> is_pointer f" "\<not> flag_pretty_display X" "real_binary f \<longrightarrow> field_type f = COB_TYPE_NUMERIC_BINARY"
    and d: "field_type f = COB_TYPE_NUMERIC_DISPLAY \<longrightarrow> field_digits f = data_size f"
      "field_type f = COB_TYPE_NUMERIC_PACKED \<longrightarrow> field_digits f \<le> 64"
      "field_type f \<noteq> COB_TYPE_NUMERIC_BINARY \<longrightarrow> 0 < field_digits f \<and> field_digits f < 128 \<and> in_range f v"
  shows "\<exists>c f'. display X f = Some (signed_text f c (pad_digits (shown_digits f) \<bar>v\<bar>), f') \<and> shown_sign v c"
proof (cases "field_type f = COB_TYPE_NUMERIC_BINARY")
  case True
  let ?g = "f\<lparr>fattr := (fattr f)\<lparr>attr_digits := bin_digits ! fsize f\<rparr>\<rparr>"
  have w: "wf_binary f" "v = bin_val (tm_target X) f" using v True by (auto simp: num_val_def split: if_splits)
  have g: "field_type ?g = field_type f" "fsize ?g = fsize f" "have_sign ?g = have_sign f" "field_digits ?g = bin_digits ! fsize f"
    "sign_leading ?g = sign_leading f" "bin_val (tm_target X) ?g = bin_val (tm_target X) f"
    by (simp_all add: field_type_def fsize_def have_sign_def field_digits_def sign_leading_def bin_val_def bin_raw_def
        bin_be_def binary_swap_def)
  have n: "num_val (tm_target X) (tm_module X) ?g = Some v" using w True g by (simp add: num_val_def wf_binary_def)
  have "have_sign f \<or> 0 \<le> v" using bin_val_bounds(4) [OF w(1), of "tm_target X"] w(2) by blast
  then obtain c f' where "display_numeric X ?g = Some (signed_text ?g c (pad_digits (bin_digits ! fsize f) \<bar>v\<bar>), f')" "shown_sign v c"
    using display_numeric_shows [OF n, unfolded g] bin_digits_fit(1) [OF w(1), of "tm_target X"] bin_digits_fit(2,3) [OF w(1)]
      True w(2) by auto
  moreover have "signed_text ?g c ds = signed_text f c ds" for c ds using g by (simp add: signed_text_def)
  ultimately show ?thesis using True f bin_digits_fit(4) [OF w(1)]
    by (auto simp: display_def shown_digits_def)
next
  case False
  have t: "field_type f = COB_TYPE_NUMERIC_DISPLAY \<or> field_type f = COB_TYPE_NUMERIC_PACKED"
    using num_val_size [OF v] False by (simp add: num_type_def)
  then have "\<bar>v\<bar> < 10 ^ field_digits f" "have_sign f \<or> 0 \<le> v" using d False by (auto simp: in_range_def capacity_def)
  then obtain c f' where "display_numeric X f = Some (signed_text f c (pad_digits (field_digits f) \<bar>v\<bar>), f')" "shown_sign v c"
    using display_numeric_shows [OF v] d False by (auto 0 3)
  moreover have "field_is_numeric f" using t by (auto simp: field_is_numeric_def)
  ultimately show ?thesis using t f False by (auto simp: display_def shown_digits_def)
qed

section \<open>Text on the terminal\<close>

definition text_item :: "cob_field \<Rightarrow> bool" where
  "text_item f \<longleftrightarrow> field_type f = COB_TYPE_ALPHANUMERIC \<and> \<not> is_pointer f \<and> \<not> real_binary f \<and> \<not> justified f \<and> 0 < fsize f"

lemma display_text: "text_item f \<Longrightarrow> display X f = Some (fdata f, f)"
  by (simp add: text_item_def display_def field_is_numeric_def)

lemma display_all_texts: "\<forall>f\<in>set fs. text_item f \<Longrightarrow> display_all X fs = Some (concat (map fdata fs), fs)"
  by (induction fs) (simp_all add: display_text)

lemma take_line_end: "10 \<notin> set t \<Longrightarrow> length t < n \<Longrightarrow> take_line n (t @ 10 # rest) = (t @ [10], rest)"
proof (induction t arbitrary: n)
  case Nil
  then show ?case by (cases n) simp_all
next
  case (Cons b t)
  then show ?case by (cases n) simp_all
qed

lemma take_line_last: "10 \<notin> set t \<Longrightarrow> length t \<le> n \<Longrightarrow> take_line n t = (t, [])"
proof (induction t arbitrary: n)
  case Nil
  then show ?case by (cases n) simp_all
next
  case (Cons b t)
  then show ?case by (cases n) simp_all
qed

lemma c_string_all: "0 \<notin> set t \<Longrightarrow> c_string t = t"
  by (simp add: c_string_def takeWhile_eq_all_conv) metis

lemma move_text:
  assumes "text_item f"
  shows "\<exists>h. cob_move T E M (cob_fld COB_TYPE_ALPHANUMERIC 0 0 0 [] bs) f =
    Some (h, set_data f (take (fsize f) (bs @ replicate (fsize f) chr_space)))"
proof (cases "bs = []")
  case True
  obtain k where "fsize f = Suc k" using assms by (cases "fsize f") (simp_all add: text_item_def)
  then show ?thesis using assms True
    by (subst cob_move.simps)
      (auto simp: text_item_def cob_move_alphanum_to_alphanum_def cob_space_def is_fp_def other_numeric_def Let_def)
next
  case False
  then show ?thesis using assms
    by (subst cob_move.simps)
      (auto simp: text_item_def cob_move_alphanum_to_alphanum_def is_fp_def other_numeric_def Let_def take_replicate)
qed

lemma accept_text:
  assumes f: "text_item f" and t: "10 \<notin> set t" "0 \<notin> set t" "length t < COB_MEDIUM_BUFF - 1"
    and S: "term_in S = t @ 10 # rest"
  shows "cob_accept X f S = Some (S\<lparr>term_in := rest\<rparr>, set_data f (take (fsize f) (t @ replicate (fsize f) chr_space)))"
proof -
  have "fgets COB_MEDIUM_BUFF (term_in S) = (Some (t @ [10]), rest)"
    using take_line_end [OF t(1,3), of rest] S by (simp add: fgets_def)
  moreover have "accepted (Some (t @ [10])) f = Some t"
    using f t(2) by (simp add: accepted_def text_item_def c_string_all Let_def)
  ultimately show ?thesis using move_text [OF f, of "tm_target X" "tm_fp X" "tm_module X" t] by (auto simp: cob_accept_def)
qed

text \<open>The last line of the input, when it has no line end, loses its last character.\<close>

lemma accept_last_line:
  assumes f: "text_item f" and t: "10 \<notin> set t" "0 \<notin> set t" "length t < COB_MEDIUM_BUFF" "t \<noteq> []" and S: "term_in S = t"
  shows "cob_accept X f S = Some (S\<lparr>term_in := []\<rparr>, set_data f (take (fsize f) (butlast t @ replicate (fsize f) chr_space)))"
proof -
  have "length t \<le> COB_MEDIUM_BUFF - 1" using t(3) by linarith
  then have "fgets COB_MEDIUM_BUFF (term_in S) = (Some t, [])"
    using take_line_last [OF t(1)] t(4) S by (simp add: fgets_def)
  moreover have "accepted (Some t) f = Some (butlast t)"
    using f t(2,4) by (simp add: accepted_def text_item_def c_string_all Let_def butlast_conv_take)
  ultimately show ?thesis using move_text [OF f, of "tm_target X" "tm_fp X" "tm_module X" "butlast t"] by (auto simp: cob_accept_def)
qed

lemma display_accept:
  assumes fs: "\<forall>f\<in>set fs. text_item f" and g: "text_item g"
    and t: "10 \<notin> set (concat (map fdata fs))" "0 \<notin> set (concat (map fdata fs))" "length (concat (map fdata fs)) < COB_MEDIUM_BUFF - 1"
    and S: "term_out S = []"
  shows "\<exists>S'. cob_display X False False True fs S = Some (S', fs) \<and>
    cob_accept X g (S\<lparr>term_in := term_out S'\<rparr>) = Some (S\<lparr>term_in := []\<rparr>,
      set_data g (take (fsize g) (concat (map fdata fs) @ replicate (fsize g) chr_space)))"
  using accept_text [OF g t, of "S\<lparr>term_in := concat (map fdata fs) @ [10]\<rparr>" "[]" X] S
  by (simp add: cob_display_def display_all_texts [OF fs])

end
