(* ===== verification/Cob_Intrinsic_Text.thy ===== *)
theory Cob_Intrinsic_Text
  imports Cob_Dates Cob_Fileio Cob_Termio
begin

text \<open>
  The functions of intrinsic.c on text: case, reversal, concatenation, SUBSTITUTE, TRIM, CHAR and
  ORD, the exception functions, CURRENT-DATE, NUMVAL and NUMVAL-C. Each returns a new item.
\<close>

section \<open>Result items\<close>

definition alnum_entry :: "bytes \<Rightarrow> cob_field" where
  "alnum_entry bs = cob_fld COB_TYPE_ALPHANUMERIC 0 0 0 [] bs"

text \<open>The reference modification of a result; an offset behind its end is ignored.\<close>

definition calc_ref_mod :: "int \<Rightarrow> int \<Rightarrow> cob_field \<Rightarrow> cob_field" where
  "calc_ref_mod offset len f =
    (if nat (u64 offset) \<le> fsize f then
       let calcoff = nat (u64 offset) - 1;
           size = fsize f - calcoff;
           size = (if 0 < len \<and> nat len < size then nat len else size) in
       set_data f (take size (drop calcoff (fdata f)))
     else f)"

definition ref_modified :: "int \<Rightarrow> int \<Rightarrow> cob_field \<Rightarrow> cob_field" where
  "ref_modified offset len f = (if 0 < offset then calc_ref_mod offset len f else f)"

section \<open>Characters\<close>

definition cob_intr_length :: "target \<Rightarrow> fp_env \<Rightarrow> cob_module \<Rightarrow> cob_field \<Rightarrow> cob_field option" where
  "cob_intr_length T E M f = int_result T E M (i32 (int (fsize f)))"

definition cob_intr_upper_case :: "int \<Rightarrow> int \<Rightarrow> cob_field \<Rightarrow> cob_field" where
  "cob_intr_upper_case offset len f = ref_modified offset len (set_data f (map toupper (fdata f)))"

definition cob_intr_lower_case :: "int \<Rightarrow> int \<Rightarrow> cob_field \<Rightarrow> cob_field" where
  "cob_intr_lower_case offset len f = ref_modified offset len (set_data f (map tolower (fdata f)))"

definition cob_intr_reverse :: "int \<Rightarrow> int \<Rightarrow> cob_field \<Rightarrow> cob_field" where
  "cob_intr_reverse offset len f = ref_modified offset len (set_data f (rev (fdata f)))"

definition cob_intr_concatenate :: "int \<Rightarrow> int \<Rightarrow> cob_field list \<Rightarrow> cob_field" where
  "cob_intr_concatenate offset len fs = ref_modified offset len (alnum_entry (concat (map fdata fs)))"

definition cob_intr_char :: "target \<Rightarrow> fp_env \<Rightarrow> cob_module \<Rightarrow> cob_field \<Rightarrow> (cob_field \<times> cob_field) option" where
  "cob_intr_char T E M f = do {
     (i, f) \<leftarrow> cob_get_int T E M f;
     Some (alnum_entry [if i < 1 \<or> i > 256 then 0 else word_of_int (i - 1)], f) }"

definition cob_intr_ord :: "target \<Rightarrow> fp_env \<Rightarrow> cob_module \<Rightarrow> cob_field \<Rightarrow> cob_field option" where
  "cob_intr_ord T E M f = do { b \<leftarrow> rd (fdata f) 0; int_result T E M (uint b + 1) }"

definition cob_intr_stored_char_length :: "target \<Rightarrow> fp_env \<Rightarrow> cob_module \<Rightarrow> cob_field \<Rightarrow> cob_field option" where
  "cob_intr_stored_char_length T E M f =
    int_result T E M (int (length (dropWhile (\<lambda>b. b = chr_space) (rev (fdata f)))))"

definition cob_intr_when_compiled :: "int \<Rightarrow> int \<Rightarrow> cob_field \<Rightarrow> cob_field" where
  "cob_intr_when_compiled offset len f = ref_modified offset len f"

section \<open>SUBSTITUTE\<close>

text \<open>
  The text is searched twice, once for the size of the result and once for the result. At each
  place the first of the search items that fits and is there is taken. A search item of size
  zero is found again and again.
\<close>

fun find_rep :: "(bytes \<Rightarrow> bytes \<Rightarrow> bool) \<Rightarrow> (bytes \<times> bytes) list \<Rightarrow> bytes \<Rightarrow> (bytes \<times> bytes) option" where
  "find_rep eq [] p1 = None"
| "find_rep eq ((f1, f2) # reps) p1 =
    (if length f1 \<le> length p1 \<and> eq (take (length f1) p1) f1 then Some (f1, f2) else find_rep eq reps p1)"

partial_function (option) substitute_size ::
  "(bytes \<Rightarrow> bytes \<Rightarrow> bool) \<Rightarrow> (bytes \<times> bytes) list \<Rightarrow> bytes \<Rightarrow> nat \<Rightarrow> nat option" where
  "substitute_size eq reps p1 calcsize =
    (if p1 = [] then Some calcsize
     else case find_rep eq reps p1 of
       Some (f1, f2) \<Rightarrow> substitute_size eq reps (drop (length f1) p1) (calcsize + length f2)
     | None \<Rightarrow> substitute_size eq reps (tl p1) (Suc calcsize))"

text \<open>The result is written into the item \<open>p2\<close> from its start on.\<close>

partial_function (option) substitute_fill ::
  "(bytes \<Rightarrow> bytes \<Rightarrow> bool) \<Rightarrow> (bytes \<times> bytes) list \<Rightarrow> bytes \<Rightarrow> bytes \<Rightarrow> nat \<Rightarrow> bytes option" where
  "substitute_fill eq reps p1 p2 n =
    (if p1 = [] then Some p2
     else case find_rep eq reps p1 of
       Some (f1, f2) \<Rightarrow> do {
         p2 \<leftarrow> wrs p2 n f2;
         substitute_fill eq reps (drop (length f1) p1) p2 (n + length f2) }
     | None \<Rightarrow> do {
         p2 \<leftarrow> wr p2 n (hd p1);
         substitute_fill eq reps (tl p1) p2 (Suc n) })"

definition substitute_with ::
  "(bytes \<Rightarrow> bytes \<Rightarrow> bool) \<Rightarrow> int \<Rightarrow> int \<Rightarrow> cob_field \<Rightarrow> (cob_field \<times> cob_field) list \<Rightarrow> cob_field option" where
  "substitute_with eq offset len var fs = do {
     let reps = map (\<lambda>(f1, f2). (fdata f1, fdata f2)) fs;
     calcsize \<leftarrow> substitute_size eq reps (fdata var) 0;
     bs \<leftarrow> substitute_fill eq reps (fdata var) (replicate calcsize 0) 0;
     Some (ref_modified offset len (alnum_entry bs)) }"

definition cob_intr_substitute :: "int \<Rightarrow> int \<Rightarrow> cob_field \<Rightarrow> (cob_field \<times> cob_field) list \<Rightarrow> cob_field option" where
  "cob_intr_substitute = substitute_with (=)"

text \<open>\<open>strncasecmp\<close>: without regard to case, and no further than a NUL that both have.\<close>

fun same_nocase :: "bytes \<Rightarrow> bytes \<Rightarrow> bool" where
  "same_nocase (a # as) (b # bs) \<longleftrightarrow> tolower a = tolower b \<and> (a = 0 \<or> same_nocase as bs)"
| "same_nocase _ _ \<longleftrightarrow> True"

definition cob_intr_substitute_case :: "int \<Rightarrow> int \<Rightarrow> cob_field \<Rightarrow> (cob_field \<times> cob_field) list \<Rightarrow> cob_field option" where
  "cob_intr_substitute_case = substitute_with same_nocase"

section \<open>TRIM\<close>

definition cob_intr_trim :: "int \<Rightarrow> int \<Rightarrow> cob_field \<Rightarrow> int \<Rightarrow> cob_field" where
  "cob_intr_trim offset len f direction =
    (if \<forall>b\<in>set (fdata f). b = chr_space then set_data f [chr_space]
     else
       let d = (if direction \<noteq> 2 then dropWhile (\<lambda>b. b = chr_space) (fdata f) else fdata f);
           d = (if direction \<noteq> 1 then rev (dropWhile (\<lambda>b. b = chr_space) (rev d)) else d) in
       ref_modified offset len (set_data f d))"

section \<open>The exception functions\<close>

definition bytes_of :: "string \<Rightarrow> bytes" where
  "bytes_of s = map of_char s"

definition cob_intr_exception_file :: "cob_rt \<Rightarrow> cob_file option \<Rightarrow> cob_field" where
  "cob_intr_exception_file R error_file =
    (case error_file of
       None \<Rightarrow> alnum_entry [chr_0, chr_0]
     | Some f \<Rightarrow> if exception_code R = 0 \<or> exception_code R AND 0x0500 \<noteq> 0x0500 then alnum_entry [chr_0, chr_0]
         else alnum_entry ([fst (file_status f), snd (file_status f)] @ select_name f))"

abbreviation COB_SMALL_MAX :: nat where "COB_SMALL_MAX \<equiv> 1023"

text \<open>\<open>snprintf\<close> leaves a NUL behind at most \<open>COB_SMALL_MAX - 1\<close> characters.\<close>

definition cob_intr_exception_location :: "cob_rt \<Rightarrow> cob_field" where
  "cob_intr_exception_location R =
    (case (got_exception R, loc_program_id (orig_loc R)) of
       (True, Some pid) \<Rightarrow>
         let l = orig_loc R;
             place = (case (loc_section l, loc_paragraph l) of
                (Some s, Some p) \<Rightarrow> bytes_of p @ bytes_of '' OF '' @ bytes_of s
              | (Some s, None) \<Rightarrow> bytes_of s
              | (None, Some p) \<Rightarrow> bytes_of p
              | (None, None) \<Rightarrow> []) in
         alnum_entry (take (COB_SMALL_MAX - 1) (bytes_of pid @ bytes_of ''; '' @ place @ bytes_of ''; '' @
           mpz_get_str10 (int (loc_line l))))
     | _ \<Rightarrow> alnum_entry [chr_space])"

definition fill_31 :: "bytes \<Rightarrow> bytes" where
  "fill_31 bs = bs @ replicate (31 - length bs) chr_space"

text \<open>The names of exceptions are shorter than 31 characters.\<close>

definition cob_intr_exception_status :: "cob_rt \<Rightarrow> cob_field" where
  "cob_intr_exception_status R =
    (if exception_code R = 0 then alnum_entry (fill_31 [])
     else alnum_entry (fill_31 (case cob_get_exception_name (exception_code R) of
       None \<Rightarrow> bytes_of ''EXCEPTION-OBJECT'' | Some n \<Rightarrow> bytes_of n)))"

definition cob_intr_exception_statement :: "cob_rt \<Rightarrow> cob_field" where
  "cob_intr_exception_statement R =
    (case loc_statement (orig_loc R) of
       Some s \<Rightarrow> if exception_code R \<noteq> 0 then alnum_entry (fill_31 (take 31 (bytes_of s))) else alnum_entry (fill_31 [])
     | None \<Rightarrow> alnum_entry (fill_31 []))"

text \<open>
  CURRENT-DATE where \<open>strftime\<close> knows \<open>%z\<close>: \<open>zone\<close> is what that gives, \<open>usec\<close> the microseconds
  of \<open>gettimeofday\<close>.
\<close>

definition cob_intr_current_date :: "int \<Rightarrow> int \<Rightarrow> tm \<Rightarrow> bytes \<Rightarrow> int \<Rightarrow> cob_field" where
  "cob_intr_current_date offset len now zone usec =
    (let buff = pad_digits 4 (tm_year now + 1900) @ pad_digits 2 (tm_mon now + 1) @ pad_digits 2 (tm_mday now) @
       pad_digits 2 (tm_hour now) @ pad_digits 2 (tm_min now) @ pad_digits 2 (tm_sec now) @
       pad_digits 2 (usec div 10000) @ zone in
     ref_modified offset len (alnum_entry (take 21 (buff @ replicate (21 - length buff) 0))))"

section \<open>NUMVAL\<close>

text \<open>
  \<open>CR\<close> and \<open>DB\<close> are looked for with \<open>strcasecmp\<close>, which wants the NUL at the end of a C string
  behind them; \<open>r\<close> is the rest of the item and what lies behind it in storage.
\<close>

definition at_word :: "u8 \<Rightarrow> u8 \<Rightarrow> bytes \<Rightarrow> bool option" where
  "at_word a b r =
    (case r of
       [] \<Rightarrow> None
     | x # r \<Rightarrow> if tolower x \<noteq> tolower a then Some False
       else case r of
         [] \<Rightarrow> None
       | y # r \<Rightarrow> if tolower y \<noteq> tolower b then Some False
         else case r of [] \<Rightarrow> None | z # _ \<Rightarrow> Some (z = 0))"

definition at_credit :: "bytes \<Rightarrow> bool option" where
  "at_credit r = do { c \<leftarrow> at_word 0x43 0x52 r; if c then Some True else at_word 0x44 0x42 r }"

record numval_state =
  nv_llval :: int
  nv_integer :: bytes
  nv_decimal :: bytes
  nv_sign :: bool
  nv_seen :: bool

definition nv_digit :: "numval_state \<Rightarrow> u8 \<Rightarrow> numval_state" where
  "nv_digit S b =
    (let S = S\<lparr>nv_llval := i64 (i64 (nv_llval S * 10) + cob_d2i b)\<rparr> in
     if nv_seen S then S\<lparr>nv_decimal := nv_decimal S @ [b]\<rparr> else S\<lparr>nv_integer := nv_integer S @ [b]\<rparr>)"

text \<open>
  The loop over the item: \<open>p\<close> is the rest of the item, \<open>behind\<close> the storage behind it. \<open>cur\<close> is
  the currency text of NUMVAL-C, \<open>sy\<close> its currency symbol; NUMVAL has neither.
\<close>

function numval_loop :: "cob_module \<Rightarrow> bytes option \<Rightarrow> u8 option \<Rightarrow> bytes \<Rightarrow> bytes \<Rightarrow> numval_state \<Rightarrow> numval_state option" where
  "numval_loop M cur sy behind p S =
    (case p of
       [] \<Rightarrow> Some S
     | b # r \<Rightarrow> do {
         credit \<leftarrow> (if r \<noteq> [] then at_credit (p @ behind) else Some False);
         if credit then Some (S\<lparr>nv_sign := True\<rparr>)
         else if (case cur of Some c \<Rightarrow> length c < length p \<and> take (length c) p = c | None \<Rightarrow> False)
         then (if cur = Some [] then None else numval_loop M cur sy behind (drop (length (the cur)) p) S)
         else if b = chr_space \<or> b = chr_plus then numval_loop M cur sy behind r S
         else if b = chr_minus then numval_loop M cur sy behind r (S\<lparr>nv_sign := True\<rparr>)
         else if b = decimal_point M then numval_loop M cur sy behind r (S\<lparr>nv_seen := True\<rparr>)
         else if sy = Some b then numval_loop M cur sy behind r S
         else
           let S = (if isdigit b then nv_digit S b else S) in
           if 30 < length (nv_integer S) + length (nv_decimal S) then Some S
           else numval_loop M cur sy behind r S })"
  by pat_completeness auto

termination
  by (relation "measure (\<lambda>(M, cur, sy, behind, p, S). length p)") (auto split: option.splits)

declare numval_loop.simps [simp del]

definition numval_start :: numval_state where
  "numval_start = \<lparr>nv_llval = 0, nv_integer = [], nv_decimal = [], nv_sign = False, nv_seen = False\<rparr>"

text \<open>More than 18 digits go through \<open>sscanf ("%lf")\<close> into a double.\<close>

definition numval_result :: "target \<Rightarrow> fp_env \<Rightarrow> numval_state \<Rightarrow> cob_field option" where
  "numval_result T E S =
    (let v = (if nv_sign S then i64 (- nv_llval S) else nv_llval S);
         ib = (if nv_integer S = [] then [chr_0] else nv_integer S);
         db = (if nv_decimal S = [] then [chr_0] else nv_decimal S) in
     if length (nv_integer S) + length (nv_decimal S) \<le> 18
     then Some (cob_fld COB_TYPE_NUMERIC_BINARY 18 (int (length (nv_decimal S))) COB_FLAG_HAVE_SIGN [] (host_bytes T 8 v))
     else map_option (cob_fld COB_TYPE_NUMERIC_DOUBLE 18 9 COB_FLAG_HAVE_SIGN [])
       (fp_scan E COB_TYPE_NUMERIC_DOUBLE ((if nv_sign S then [chr_minus] else []) @ ib @ [0x2E] @ db)))"

definition cob_intr_numval :: "target \<Rightarrow> fp_env \<Rightarrow> cob_module \<Rightarrow> bytes \<Rightarrow> cob_field \<Rightarrow> cob_field option" where
  "cob_intr_numval T E M behind f = do {
     S \<leftarrow> numval_loop M None None behind (fdata f) numval_start;
     numval_result T E S }"

definition cob_intr_numval_c ::
  "target \<Rightarrow> fp_env \<Rightarrow> cob_module \<Rightarrow> bytes \<Rightarrow> cob_field \<Rightarrow> cob_field option \<Rightarrow> cob_field option" where
  "cob_intr_numval_c T E M behind f currency = do {
     let cur = (case currency of Some c \<Rightarrow> if fsize c < fsize f then Some (fdata c) else None | None \<Rightarrow> None);
     S \<leftarrow> numval_loop M cur (Some (currency_symbol M)) behind (fdata f) numval_start;
     numval_result T E S }"

section \<open>Facts: SUBSTITUTE\<close>

text \<open>
  What the result promises, said without the search: the text is cut into pieces. A piece that
  matches a search item (character by character under \<open>r\<close>), where no item before it in the list
  matches, gives way to the replacement of that item; a character where none of the items
  matches stays.
\<close>

definition matches_at :: "(u8 \<Rightarrow> u8 \<Rightarrow> bool) \<Rightarrow> bytes \<Rightarrow> bytes \<Rightarrow> bool" where
  "matches_at r item p \<longleftrightarrow> (\<exists>u v. p = u @ v \<and> list_all2 r u item)"

inductive substituted :: "(u8 \<Rightarrow> u8 \<Rightarrow> bool) \<Rightarrow> (bytes \<times> bytes) list \<Rightarrow> bytes \<Rightarrow> bytes \<Rightarrow> bool" for r reps where
  sub_end: "substituted r reps [] []"
| sub_keep: "\<forall>x\<in>set reps. \<not> matches_at r (fst x) (b # p) \<Longrightarrow> substituted r reps p q \<Longrightarrow> substituted r reps (b # p) (b # q)"
| sub_replace: "reps = xs @ (item, new) # ys \<Longrightarrow> \<forall>x\<in>set xs. \<not> matches_at r (fst x) (u @ p) \<Longrightarrow>
    list_all2 r u item \<Longrightarrow> u \<noteq> [] \<Longrightarrow> substituted r reps p q \<Longrightarrow> substituted r reps (u @ p) (new @ q)"

definition same_letter :: "u8 \<Rightarrow> u8 \<Rightarrow> bool" where
  "same_letter a b \<longleftrightarrow> tolower a = tolower b"

inductive_cases substituted_nilE: "substituted r reps [] q"
inductive_cases substituted_consE: "substituted r reps (b # p) q"

text \<open>The comparison of the code is the one of characters, for items of the size compared.\<close>

definition compares :: "(bytes \<Rightarrow> bytes \<Rightarrow> bool) \<Rightarrow> (u8 \<Rightarrow> u8 \<Rightarrow> bool) \<Rightarrow> bytes \<Rightarrow> bool" where
  "compares eq r item \<longleftrightarrow> (\<forall>u. length u = length item \<longrightarrow> eq u item = list_all2 r u item)"

lemma compares_eq: "compares (=) (=) item"
  by (simp add: compares_def list_all2_eq)

lemma tolower_0: "tolower b = 0 \<longleftrightarrow> b = 0"
proof -
  have "\<not> (65 \<le> b \<and> b \<le> 90 \<and> b + 32 = 0)"
  proof
    assume b: "65 \<le> b \<and> b \<le> 90 \<and> b + 32 = 0"
    then have "uint b \<le> 90" by (simp add: word_le_def)
    then have "uint (b + 32) = uint b + 32" by (simp add: uint_word_ariths take_bit_eq_mod)
    moreover have "0 \<le> uint b" by simp
    ultimately show False using b by simp
  qed
  then show ?thesis by (auto simp: tolower_def isupper_def)
qed

lemma compares_nocase: "0 \<notin> set item \<Longrightarrow> compares same_nocase same_letter item"
  unfolding compares_def
proof (intro allI impI)
  fix u :: bytes
  show "0 \<notin> set item \<Longrightarrow> length u = length item \<Longrightarrow> same_nocase u item = list_all2 same_letter u item"
  proof (induction u item rule: list_induct2')
    case (4 a u b item)
    have "a \<noteq> 0 \<or> tolower a \<noteq> tolower b" using 4(2) tolower_0 [of b] tolower_0 [of a] by auto
    then show ?case using 4 by (auto simp: same_letter_def)
  qed simp_all
qed

text \<open>The item found is the first of the search items that is there.\<close>

lemma matches_take: "compares eq r item \<Longrightarrow> matches_at r item p \<longleftrightarrow> length item \<le> length p \<and> eq (take (length item) p) item"
proof (intro iffI)
  assume c: "compares eq r item" and "matches_at r item p"
  then obtain u v where u: "p = u @ v" "list_all2 r u item" by (auto simp: matches_at_def)
  then show "length item \<le> length p \<and> eq (take (length item) p) item"
    using c list_all2_lengthD [OF u(2)] by (simp add: compares_def)
next
  assume c: "compares eq r item" and l: "length item \<le> length p \<and> eq (take (length item) p) item"
  have "length (take (length item) p) = length item" using l by simp
  then have "list_all2 r (take (length item) p) item" using c l unfolding compares_def by blast
  then show "matches_at r item p" unfolding matches_at_def
    by (intro exI [of _ "take (length item) p"] exI [of _ "drop (length item) p"]) simp
qed

lemma find_rep_Cons:
  assumes "compares eq r item"
  shows "find_rep eq ((item, new) # reps) p = (if matches_at r item p then Some (item, new) else find_rep eq reps p)"
  using matches_take [OF assms, of p] by auto

lemma find_rep_None:
  "\<forall>x\<in>set reps. compares eq r (fst x) \<Longrightarrow> find_rep eq reps p = None \<longleftrightarrow> (\<forall>x\<in>set reps. \<not> matches_at r (fst x) p)"
proof (induction reps)
  case (Cons x reps)
  obtain g1 g2 where x: "x = (g1, g2)" by force
  then have "compares eq r g1" using Cons.prems by simp
  from find_rep_Cons [OF this, of g2 reps p] show ?case using Cons x by simp
qed simp

lemma find_rep_Some:
  "\<forall>x\<in>set reps. compares eq r (fst x) \<Longrightarrow> find_rep eq reps p = Some (item, new) \<Longrightarrow>
   \<exists>xs ys. reps = xs @ (item, new) # ys \<and> (\<forall>x\<in>set xs. \<not> matches_at r (fst x) p) \<and> matches_at r item p"
proof (induction reps)
  case (Cons x reps)
  obtain g1 g2 where x: "x = (g1, g2)" by force
  then have "compares eq r g1" using Cons.prems by simp
  note e = find_rep_Cons [OF this, of g2 reps p]
  show ?case
  proof (cases "matches_at r g1 p")
    case True
    then have "item = g1" "new = g2" using Cons.prems(2) e x by simp_all
    then show ?thesis using True x by (intro exI [of _ "[]"] exI [of _ reps]) simp
  next
    case False
    then obtain xs ys where "reps = xs @ (item, new) # ys" "\<forall>x\<in>set xs. \<not> matches_at r (fst x) p" "matches_at r item p"
      using Cons.IH Cons.prems e x by auto
    then show ?thesis using False x by (intro exI [of _ "(g1, g2) # xs"] exI [of _ ys]) simp
  qed
qed simp

lemma substitute_pass:
  assumes c: "\<forall>x\<in>set reps. compares eq r (fst x)" and ne: "\<forall>x\<in>set reps. fst x \<noteq> []"
  shows "\<exists>q. substituted r reps p q \<and> (\<forall>n. substitute_size eq reps p n = Some (n + length q)) \<and>
    (\<forall>p2 n. n + length q \<le> length p2 \<longrightarrow>
      substitute_fill eq reps p p2 n = Some (take n p2 @ q @ drop (n + length q) p2))"
proof (induction p rule: length_induct)
  case (1 p)
  show ?case
  proof (cases p)
    case Nil
    then show ?thesis
      by (intro exI [of _ "[]"]) (simp add: substitute_size.simps [of _ _ "[]"] substitute_fill.simps [of _ _ "[]"] sub_end)
  next
    case (Cons b t)
    show ?thesis
    proof (cases "find_rep eq reps p")
      case None
      obtain q where q: "substituted r reps t q" "\<forall>n. substitute_size eq reps t n = Some (n + length q)"
        "\<forall>p2 n. n + length q \<le> length p2 \<longrightarrow> substitute_fill eq reps t p2 n = Some (take n p2 @ q @ drop (n + length q) p2)"
        using "1.IH" Cons by (metis length_Cons lessI)
      have "substitute_fill eq reps p p2 n = Some (take n p2 @ (b # q) @ drop (n + length (b # q)) p2)"
        if "n + length (b # q) \<le> length p2" for p2 n
        using q(3) None Cons that
        by (subst substitute_fill.simps) (simp add: wr_def take_Suc_conv_app_nth)
      moreover have "substituted r reps p (b # q)" using None Cons q(1) find_rep_None [OF c] by (simp add: sub_keep)
      moreover have "substitute_size eq reps p n = Some (n + length (b # q))" for n
        using q(2) None Cons by (subst substitute_size.simps) simp
      ultimately show ?thesis by blast
    next
      case (Some ff)
      obtain f1 f2 where ff: "ff = (f1, f2)" by force
      obtain xs ys where f: "reps = xs @ (f1, f2) # ys" "\<forall>x\<in>set xs. \<not> matches_at r (fst x) p" "matches_at r f1 p"
        using find_rep_Some [OF c] Some ff by blast
      then obtain u v where u: "p = u @ v" "list_all2 r u f1" by (auto simp: matches_at_def)
      have f1: "f1 \<noteq> []" "length u = length f1" using ne f(1) list_all2_lengthD [OF u(2)] by auto
      then have d: "drop (length f1) p = v" "u \<noteq> []" "length v < length p" using u(1) by auto
      then obtain q where q: "substituted r reps v q"
        "\<forall>n. substitute_size eq reps v n = Some (n + length q)"
        "\<forall>p2 n. n + length q \<le> length p2 \<longrightarrow>
           substitute_fill eq reps v p2 n = Some (take n p2 @ q @ drop (n + length q) p2)"
        using "1.IH" by metis
      have "substitute_fill eq reps p p2 n = Some (take n p2 @ (f2 @ q) @ drop (n + length (f2 @ q)) p2)"
        if "n + length (f2 @ q) \<le> length p2" for p2 n
        using q(3) Some ff Cons that d(1)
        by (subst substitute_fill.simps) (simp add: wrs_def ac_simps)
      moreover have "substituted r reps p (f2 @ q)" using sub_replace [OF f(1) _ u(2) d(2) q(1)] f(2) u(1) by simp
      moreover have "substitute_size eq reps p n = Some (n + length (f2 @ q))" for n
        using q(2) Some ff Cons d(1) by (subst substitute_size.simps) (simp add: add.assoc)
      ultimately show ?thesis by blast
    qed
  qed
qed

text \<open>There is one such result only.\<close>

lemma same_split:
  "xs @ x # ys = xs' @ x' # ys' \<Longrightarrow> \<forall>z\<in>set xs. \<not> P z \<Longrightarrow> \<forall>z\<in>set xs'. \<not> P z \<Longrightarrow> P x \<Longrightarrow> P x' \<Longrightarrow> x = x'"
proof (induction xs arbitrary: xs')
  case Nil
  then show ?case by (cases xs') auto
next
  case (Cons y xs)
  then show ?case by (cases xs') auto
qed

lemma matches_atI: "list_all2 r u item \<Longrightarrow> matches_at r item (u @ v)"
  by (auto simp: matches_at_def)

lemma substituted_unique: "substituted r reps p q \<Longrightarrow> substituted r reps p q' \<Longrightarrow> q = q'"
proof (induction arbitrary: q' rule: substituted.induct)
  case sub_end
  then show ?case by (rule substituted_nilE) auto
next
  case (sub_keep b p q)
  from sub_keep.prems show ?case
  proof (rule substituted_consE)
    fix u t item new q2 xs ys
    assume a: "b # p = u @ t" "reps = xs @ (item, new) # ys" "list_all2 r u item"
    have "matches_at r item (b # p)" unfolding a(1) by (rule matches_atI [OF a(3)])
    moreover have "(item, new) \<in> set reps" using a(2) by simp
    ultimately show ?thesis using sub_keep.hyps(1) by fastforce
  qed (use sub_keep.IH in simp)
next
  case (sub_replace xs item new ys u p q)
  note h = sub_replace.hyps and IH = sub_replace.IH
  obtain b w where w: "u = b # w" using h(4) by (cases u) simp_all
  from sub_replace.prems have "substituted r reps (b # (w @ p)) q'" using w by simp
  then show ?case
  proof (rule substituted_consE)
    assume "\<forall>x\<in>set reps. \<not> matches_at r (fst x) (b # w @ p)"
    then show ?thesis using h(1,3) w matches_atI [of r u item p] by auto
  next
    fix u' t item' new' q2 xs' ys'
    assume a: "b # w @ p = u' @ t" "q' = new' @ q2" "reps = xs' @ (item', new') # ys'"
      "\<forall>x\<in>set xs'. \<not> matches_at r (fst x) (u' @ t)" "list_all2 r u' item'" "substituted r (xs' @ (item', new') # ys') t q2"
    have e: "u @ p = u' @ t" using a(1) w by simp
    have m: "matches_at r item (u @ p)" "matches_at r item' (u @ p)"
      unfolding e using matches_atI [OF h(3), of p] matches_atI [OF a(5), of t] e by simp_all
    have "(item, new) = (item', new')"
      by (rule same_split [where P = "\<lambda>x. matches_at r (fst x) (u @ p)", of xs _ ys xs' _ ys'])
        (use h(1,2) a(3,4) e m in simp_all)
    moreover from this have "length u = length u'"
      using list_all2_lengthD [OF h(3)] list_all2_lengthD [OF a(5)] by simp
    ultimately show ?thesis using a(2,6) e IH unfolding a(3) [symmetric] by auto
  qed
qed

text \<open>An empty search item is found at its place again and again.\<close>

lemma substitute_size_empty:
  assumes "find_rep eq reps p = Some ([], f2)" "p \<noteq> []"
  shows "substitute_size eq reps p n = None"
proof -
  have False if "substitute_size eq reps p n = Some k" for k
  proof -
    let ?P = "\<lambda>e r p' (n :: nat) (y :: nat). \<not> (e = eq \<and> r = reps \<and> p' = p)"
    have "?P eq reps p n k"
      by (rule substitute_size.raw_induct [where P = ?P, OF _ that])
        (use assms in \<open>auto split: if_splits option.splits prod.splits; blast\<close>)
    then show ?thesis by simp
  qed
  then show ?thesis by (cases "substitute_size eq reps p n") auto
qed

lemma substitute_item:
  assumes "\<forall>(f1, f2)\<in>set fs. 0 < fsize f1 \<and> compares eq r (fdata f1)"
  shows "\<exists>q. substitute_with eq 0 0 var fs = Some (alnum_entry q) \<and>
    (\<forall>q'. substituted r (map (\<lambda>(f1, f2). (fdata f1, fdata f2)) fs) (fdata var) q' \<longleftrightarrow> q' = q)"
proof -
  let ?reps = "map (\<lambda>(f1, f2). (fdata f1, fdata f2)) fs"
  have "\<forall>x\<in>set ?reps. fst x \<noteq> []" "\<forall>x\<in>set ?reps. compares eq r (fst x)" using assms by (auto simp: fsize_def)
  from substitute_pass [OF this(2,1), of "fdata var"] obtain q where q: "substituted r ?reps (fdata var) q"
    "substitute_size eq ?reps (fdata var) 0 = Some (length q)"
    "substitute_fill eq ?reps (fdata var) (replicate (length q) 0) 0 = Some q"
    by auto
  have "substitute_with eq 0 0 var fs = Some (alnum_entry q)" by (simp add: substitute_with_def ref_modified_def q(2,3))
  moreover have "\<forall>q'. substituted r ?reps (fdata var) q' \<longleftrightarrow> q' = q" using q(1) substituted_unique by blast
  ultimately show ?thesis by blast
qed

lemma substitute_item_empty:
  assumes "fs = (f1, f2) # gs" "fsize f1 = 0" "0 < fsize var" "eq [] []"
  shows "substitute_with eq 0 0 var fs = None"
  using substitute_size_empty [of eq "map (\<lambda>(f1, f2). (fdata f1, fdata f2)) fs" "fdata var" "fdata f2" 0] assms
  by (simp add: substitute_with_def fsize_def)

section \<open>Facts: NUMVAL\<close>

text \<open>The characters of a number as text, and what NUMVAL takes from it.\<close>

definition number_char :: "cob_module \<Rightarrow> u8 \<Rightarrow> bool" where
  "number_char M b \<longleftrightarrow> b = chr_space \<or> b = chr_plus \<or> b = chr_minus \<or> b = decimal_point M \<or> isdigit b"

definition text_digits :: "bytes \<Rightarrow> bytes" where
  "text_digits t = filter isdigit t"

definition text_decimals :: "cob_module \<Rightarrow> bytes \<Rightarrow> bytes" where
  "text_decimals M t = filter isdigit (dropWhile (\<lambda>b. b \<noteq> decimal_point M) t)"

definition text_integer :: "cob_module \<Rightarrow> bytes \<Rightarrow> bytes" where
  "text_integer M t = filter isdigit (takeWhile (\<lambda>b. b \<noteq> decimal_point M) t)"

lemma all_digits_text [simp]: "all_digits (text_digits t)"
  by (simp add: text_digits_def all_digits_def list_all_iff)

lemma text_digits_split: "text_digits t = text_integer M t @ text_decimals M t"
  by (simp add: text_digits_def text_integer_def text_decimals_def flip: filter_append)

lemma not_credit:
  assumes "decimal_point M \<in> {0x2E, 0x2C}" "number_char M b"
  shows "at_credit (b # r) = Some False"
proof -
  have "tolower b = b" using assms by (auto simp: number_char_def isdigit_def tolower_def isupper_def word_le_def)
  moreover have "b \<noteq> tolower 0x43 \<and> b \<noteq> tolower 0x44"
    using assms by (auto simp: number_char_def isdigit_def tolower_def isupper_def word_le_def)
  ultimately show ?thesis by (simp add: at_credit_def at_word_def)
qed

lemma numval_loop_text:
  assumes "decimal_point M \<in> {0x2E, 0x2C}" "\<forall>b\<in>set p. number_char M b"
    and "length (nv_integer S) + length (nv_decimal S) + length (text_digits p) \<le> 18"
    and "0 \<le> nv_llval S" "nv_llval S < 10 ^ (length (nv_integer S) + length (nv_decimal S))"
  shows "numval_loop M None None behind p S = Some (S\<lparr>
    nv_llval := nv_llval S * 10 ^ length (text_digits p) + dec_val (text_digits p),
    nv_integer := nv_integer S @ (if nv_seen S then [] else text_integer M p),
    nv_decimal := nv_decimal S @ (if nv_seen S then text_digits p else text_decimals M p),
    nv_sign := (nv_sign S \<or> chr_minus \<in> set p),
    nv_seen := (nv_seen S \<or> decimal_point M \<in> set p)\<rparr>)"
  using assms
proof (induction p arbitrary: S)
  case Nil
  then show ?case by (simp add: numval_loop.simps text_digits_def text_integer_def text_decimals_def)
next
  case (Cons b p)
  have nd: "\<not> isdigit (decimal_point M)" "decimal_point M \<noteq> chr_space" "decimal_point M \<noteq> chr_plus" "decimal_point M \<noteq> chr_minus"
    "\<not> isdigit chr_space" "\<not> isdigit chr_plus" "\<not> isdigit chr_minus"
    using Cons.prems(1) by (auto simp: isdigit_def word_le_def)
  have c: "at_credit (b # p @ behind) = Some False" by (rule not_credit [of M]) (use Cons.prems(1,2) in simp_all)
  have step: "numval_loop M None None behind (b # p) S =
    (if b = chr_space \<or> b = chr_plus then numval_loop M None None behind p S
     else if b = chr_minus then numval_loop M None None behind p (S\<lparr>nv_sign := True\<rparr>)
     else if b = decimal_point M then numval_loop M None None behind p (S\<lparr>nv_seen := True\<rparr>)
     else let S = (if isdigit b then nv_digit S b else S) in
       if 30 < length (nv_integer S) + length (nv_decimal S) then Some S else numval_loop M None None behind p S)"
    using c by (subst numval_loop.simps) (simp cong: if_cong)
  have b: "number_char M b" and p: "\<forall>b\<in>set p. number_char M b" using Cons.prems(2) by simp_all
  note IH = Cons.IH [OF Cons.prems(1) p]
  show ?case
  proof (cases "isdigit b")
    case False
    then have "text_digits (b # p) = text_digits p" by (simp add: text_digits_def)
    then show ?thesis using IH [of S] IH [of "S\<lparr>nv_sign := True\<rparr>"] IH [of "S\<lparr>nv_seen := True\<rparr>"] Cons.prems b nd False step
      by (auto simp: number_char_def text_integer_def text_decimals_def text_digits_def)
  next
    case True
    let ?k = "length (nv_integer S) + length (nv_decimal S)" and ?v = "nv_llval S * 10 + cob_d2i b" and ?S = "nv_digit S b"
    have td: "text_digits (b # p) = b # text_digits p" using True by (simp add: text_digits_def)
    have d: "0 \<le> cob_d2i b" "cob_d2i b \<le> 9" using True by (simp_all add: isdigit_iff)
    have v: "0 \<le> ?v" "?v < 10 ^ Suc ?k" using Cons.prems(4,5) d by simp_all
    have "(10 :: int) ^ Suc ?k \<le> 10 ^ 18" using Cons.prems(3) td by (intro power_increasing) simp_all
    with v have "?v < 2 ^ 63" by simp
    then have w: "i64 (i64 (nv_llval S * 10) + cob_d2i b) = ?v"
      using d v Cons.prems(4) by (simp add: signed_take_bit_int_eq_self)
    have S: "nv_llval ?S = ?v" "length (nv_integer ?S) + length (nv_decimal ?S) = Suc ?k" "nv_seen ?S = nv_seen S" "nv_sign ?S = nv_sign S"
      "nv_integer ?S = nv_integer S @ (if nv_seen S then [] else [b])" "nv_decimal ?S = nv_decimal S @ (if nv_seen S then [b] else [])"
      using w by (simp_all add: nv_digit_def Let_def)
    have nb: "b \<noteq> decimal_point M" "b \<noteq> chr_space" "b \<noteq> chr_plus" "b \<noteq> chr_minus" using True nd by auto
    have "numval_loop M None None behind (b # p) S = numval_loop M None None behind p ?S"
      using step nb True Cons.prems(3) S(2) td by simp
    moreover have "text_integer M (b # p) = b # text_integer M p" "text_decimals M (b # p) = text_decimals M p"
      using True nb by (simp_all add: text_integer_def text_decimals_def)
    moreover have "?v * 10 ^ length (text_digits p) + dec_val (text_digits p) =
        nv_llval S * 10 ^ length (text_digits (b # p)) + dec_val (text_digits (b # p))"
      using td by (simp add: dec_val_Cons algebra_simps)
    ultimately show ?thesis using IH [of ?S] S v Cons.prems(3) td nb
      by (simp del: One_nat_def)
  qed
qed

lemma long_val:
  assumes "- (2 ^ 63) \<le> n" "n < 2 ^ 63"
  shows "num_val T M (cob_fld COB_TYPE_NUMERIC_BINARY 18 s COB_FLAG_HAVE_SIGN [] (host_bytes T 8 n)) = Some n"
proof -
  let ?f = "cob_fld COB_TYPE_NUMERIC_BINARY 18 s COB_FLAG_HAVE_SIGN [] (host_bytes T 8 n)"
  have f: "field_type ?f = COB_TYPE_NUMERIC_BINARY" "have_sign ?f" "fsize ?f = 8" "\<not> binary_swap ?f"
    by simp_all
  then have "bin_be T ?f = words_bigendian T" by (simp add: bin_be_def)
  then have "bin_raw T ?f = n mod 2 ^ 64" by (simp add: bin_raw_def host_bytes_end end_val_end_bytes)
  then have "bin_val T ?f = signed_take_bit 63 n"
    using f signed_take_bit_take_bit [of 63 64 n] by (simp add: bin_val_def take_bit_eq_mod)
  also have "\<dots> = n" using assms by (simp add: signed_take_bit_int_eq_self)
  finally show ?thesis using f by (simp add: num_val_def wf_binary_def)
qed

text \<open>NUMVAL of a text of at most 18 digits: its digits, signed, and scaled by those behind the point.\<close>

lemma numval_text:
  assumes "decimal_point M \<in> {0x2E, 0x2C}" "\<forall>b\<in>set (fdata f). number_char M b" "length (text_digits (fdata f)) \<le> 18"
  shows "\<exists>g. cob_intr_numval T E M behind f = Some g \<and> field_scale g = int (length (text_decimals M (fdata f))) \<and>
    num_val T M g = Some ((if chr_minus \<in> set (fdata f) then - 1 else 1) * dec_val (text_digits (fdata f)))"
proof -
  let ?p = "fdata f" and ?n = "dec_val (text_digits (fdata f))"
  have l: "numval_loop M None None behind ?p numval_start = Some \<lparr>nv_llval = ?n, nv_integer = text_integer M ?p,
      nv_decimal = text_decimals M ?p, nv_sign = (chr_minus \<in> set ?p), nv_seen = (decimal_point M \<in> set ?p)\<rparr>"
    using numval_loop_text [OF assms(1,2), of numval_start] assms(3) by (simp add: numval_start_def)
  have "?n < 10 ^ length (text_digits ?p)" by (rule dec_val_less) simp
  also have "\<dots> \<le> (10 :: int) ^ 18" using assms(3) by (intro power_increasing) simp_all
  finally have n: "?n < 10 ^ 18" "0 \<le> ?n" by (simp_all add: dec_val_nonneg)
  then have "i64 (- ?n) = - ?n" by (simp add: signed_take_bit_int_eq_self)
  moreover have "length (text_decimals M ?p) < 128" "length (text_integer M ?p) + length (text_decimals M ?p) \<le> 18"
    using assms(3) text_digits_split [of ?p M] by simp_all
  ultimately show ?thesis using l n long_val [of ?n T M] long_val [of "- ?n" T M]
    by (simp add: cob_intr_numval_def numval_result_def)
qed

text \<open>DISPLAY, ACCEPT and NUMVAL: a number displayed, taken in as text and read by NUMVAL is the number.\<close>

lemma signed_text_digits:
  assumes "shown_sign v c"
  shows "text_digits (signed_text f c (pad_digits k n)) = pad_digits k n"
    and "b \<in> set (signed_text f c (pad_digits k n)) \<Longrightarrow> b = chr_plus \<or> b = chr_minus \<or> isdigit b"
    and "length (signed_text f c (pad_digits k n)) \<le> Suc k"
proof -
  have c: "c = chr_plus \<or> c = chr_minus" "\<not> isdigit c" using assms by (auto simp: shown_sign_def isdigit_def word_le_def)
  have d: "\<forall>b\<in>set (pad_digits k n). isdigit b" using all_digits_pad [of k n] by (simp add: all_digits_def list_all_iff)
  then have "filter isdigit (pad_digits k n) = pad_digits k n" by simp
  then show "text_digits (signed_text f c (pad_digits k n)) = pad_digits k n"
    using c(2) by (simp add: text_digits_def signed_text_def)
  show "b = chr_plus \<or> b = chr_minus \<or> isdigit b" if "b \<in> set (signed_text f c (pad_digits k n))"
    using that c(1) d by (auto simp: signed_text_def split: if_splits)
  show "length (signed_text f c (pad_digits k n)) \<le> Suc k" by (simp add: signed_text_def)
qed

lemma signed_text_minus:
  assumes "shown_sign v c" "have_sign f \<or> 0 \<le> v" "v \<noteq> 0"
  shows "chr_minus \<in> set (signed_text f c (pad_digits k n)) \<longleftrightarrow> v < 0"
proof -
  have "chr_minus \<notin> set (pad_digits k n)"
    using all_digits_pad [of k n] by (auto simp: all_digits_def list_all_iff isdigit_def word_le_def)
  then show ?thesis using assms by (auto simp: signed_text_def shown_sign_def)
qed

lemma shown_fits:
  assumes "num_val T M f = Some v" "field_type f \<noteq> COB_TYPE_NUMERIC_BINARY \<longrightarrow> in_range f v"
    and "field_type f = COB_TYPE_NUMERIC_DISPLAY \<longrightarrow> field_digits f = data_size f"
  shows "\<bar>v\<bar> < 10 ^ shown_digits f" "have_sign f \<or> 0 \<le> v"
proof -
  have "\<bar>v\<bar> < 10 ^ shown_digits f \<and> (have_sign f \<or> 0 \<le> v)"
  proof (cases "field_type f = COB_TYPE_NUMERIC_BINARY")
    case True
    then have w: "wf_binary f" "v = bin_val T f" using assms(1) by (auto simp: num_val_def split: if_splits)
    then show ?thesis using bin_digits_fit(1) [OF w(1), of T] bin_val_bounds(4) [OF w(1), of T] True
      by (auto simp: shown_digits_def)
  next
    case False
    have "num_type (field_type f)" using num_val_size [OF assms(1)] by simp
    with False show ?thesis using assms(2,3) by (auto simp: shown_digits_def in_range_def capacity_def num_type_def)
  qed
  then show "\<bar>v\<bar> < 10 ^ shown_digits f" "have_sign f \<or> 0 \<le> v" by simp_all
qed

end
