(* ===== verification/Cob_Pretty.thy ===== *)
theory Cob_Pretty
  imports Cob_Intrinsic_Text
begin

text \<open>
  DISPLAY with the configuration option pretty-display (termio.c, \<open>pretty_display_numeric\<close>): what
  the MOVE to the edited item shows, and that NUMVAL reads the number back from it, decimal places
  included.
\<close>

section \<open>Digits through an edited item\<close>

definition digit_at :: "bytes \<Rightarrow> int \<Rightarrow> u8" where
  "digit_at data i = (if 0 \<le> i \<and> i < int (length data) then data ! nat i else chr_0)"

fun digits_from :: "bytes \<Rightarrow> int \<Rightarrow> nat \<Rightarrow> bytes" where
  "digits_from data i 0 = []"
| "digits_from data i (Suc n) = digit_at data i # digits_from data (i + 1) n"

lemma length_digits_from [simp]: "length (digits_from data i n) = n"
  by (induction n arbitrary: i) simp_all

lemma digits_from_take: "i + n \<le> length data \<Longrightarrow> digits_from data (int i) n = take n (drop i data)"
proof (induction n arbitrary: i)
  case (Suc n)
  then have "drop i data = data ! i # drop (Suc i) data" by (simp add: Cons_nth_drop_Suc)
  moreover have "digits_from data (int i + 1) n = take n (drop (Suc i) data)"
    using Suc.IH [of "Suc i"] Suc.prems by (simp add: add.commute)
  ultimately show ?case using Suc.prems by (simp add: digit_at_def)
qed simp

lemma pad_digits_split: "pad_digits (m + n) v = pad_digits m (v div 10 ^ n) @ pad_digits n v"
proof (induction n arbitrary: v)
  case (Suc n)
  then show ?case by (simp add: div_exp_eq zdiv_zmult2_eq)
qed simp

lemma pad_digits_zero: "pad_digits m 0 = replicate m chr_0"
  by (induction m) (simp_all add: cob_i2d_def replicate_append_same)

text \<open>A number of at most \<open>n\<close> digits in a longer row of digits: zeros, and then its \<open>n\<close> digits.\<close>

lemma leading_zeros:
  assumes "all_digits ds" "dec_val ds < 10 ^ n" "n \<le> length ds"
  shows "ds = replicate (length ds - n) chr_0 @ pad_digits n (dec_val ds)"
proof -
  have "ds = pad_digits (length ds - n + n) (dec_val ds)" using assms pad_digits_dec_val [of ds] by simp
  also have "\<dots> = pad_digits (length ds - n) (dec_val ds div 10 ^ n) @ pad_digits n (dec_val ds)" by (rule pad_digits_split)
  also have "dec_val ds div 10 ^ n = 0" using assms dec_val_nonneg [of ds] by simp
  finally show ?thesis by (simp add: pad_digits_zero)
qed

lemma ed_put_at: "ed_out e = p @ b # r \<Longrightarrow> ed_dst e = int (length p) \<Longrightarrow> ed_put e x = Some (e\<lparr>ed_out := p @ x # r\<rparr>)"
  by (simp add: ed_put_def wri_def wr_def)

lemma ed_nine:
  assumes "ed_out e = p @ b # r" "ed_dst e = int (length p)"
  shows "\<exists>z. ed_char M data neg pl chr_9 e = Some (e\<lparr>ed_out := p @ digit_at data (ed_src e) # r, ed_src := ed_src e + 1,
    ed_is_zero := z, ed_suppress := False, ed_trail_sign := True, ed_trail_curr := True\<rparr>)"
proof -
  have "ed_next data e = (digit_at data (ed_src e), if digit_at data (ed_src e) \<noteq> chr_0
      then e\<lparr>ed_src := ed_src e + 1, ed_is_zero := False, ed_suppress := False\<rparr> else e\<lparr>ed_src := ed_src e + 1\<rparr>)"
    by (simp add: ed_next_def digit_at_def Let_def)
  then obtain z w where "ed_next data e = (digit_at data (ed_src e), e\<lparr>ed_src := ed_src e + 1, ed_is_zero := z, ed_suppress := w\<rparr>)"
    by (cases e) (auto split: if_splits)
  then show ?thesis using assms by (intro exI [of _ z]) (simp add: ed_char_def ed_put_at [where p = p and b = b and r = r])
qed

text \<open>After a row of nines: what was written, and what did not change.\<close>

definition written :: "edit \<Rightarrow> edit \<Rightarrow> bytes \<Rightarrow> bytes \<Rightarrow> int \<Rightarrow> bool" where
  "written e e' p r k \<longleftrightarrow> ed_out e' = p @ r \<and> ed_dst e' = int (length p) \<and> ed_src e' = ed_src e + k \<and> ed_point e' = ed_point e \<and>
    ed_pad e' = ed_pad e \<and> ed_end e' = ed_end e \<and> ed_sign_symbol e' = ed_sign_symbol e \<and> ed_curr_symbol e' = ed_curr_symbol e"

lemma ed_nines:
  assumes "ed_out e = p @ r" "ed_dst e = int (length p)" "n \<le> length r"
  shows "\<exists>e'. ed_repeat M data neg pl chr_9 n e = Some e' \<and>
    written e e' (p @ digits_from data (ed_src e) n) (drop n r) (int n) \<and> (ed_suppress e' \<longrightarrow> n = 0 \<and> ed_suppress e)"
  using assms
proof (induction n arbitrary: e p r)
  case 0
  then show ?case by (simp add: written_def)
next
  case (Suc n)
  obtain b s where r: "r = b # s" using Suc.prems(3) by (cases r) auto
  obtain z where z: "ed_char M data neg pl chr_9 e = Some (e\<lparr>ed_out := p @ digit_at data (ed_src e) # s, ed_src := ed_src e + 1,
    ed_is_zero := z, ed_suppress := False, ed_trail_sign := True, ed_trail_curr := True\<rparr>)" (is "_ = Some ?e")
    using ed_nine [OF Suc.prems(1) [unfolded r] Suc.prems(2)] by blast
  let ?f = "?e\<lparr>ed_dst := ed_dst ?e + 1\<rparr>"
  have "ed_out ?f = (p @ [digit_at data (ed_src e)]) @ s" "ed_dst ?f = int (length (p @ [digit_at data (ed_src e)]))" "n \<le> length s"
    using Suc.prems r by simp_all
  from Suc.IH [OF this] obtain e' where "ed_repeat M data neg pl chr_9 n ?f = Some e'"
    "written ?f e' ((p @ [digit_at data (ed_src e)]) @ digits_from data (ed_src ?f) n) (drop n s) (int n)"
    "ed_suppress e' \<longrightarrow> n = 0 \<and> ed_suppress ?f" by blast
  then show ?case using z r by (intro exI [of _ e']) (auto simp: written_def)
qed

lemma find_blank_none: "(\<And>j. 0 < j \<Longrightarrow> j \<le> i \<Longrightarrow> out ! j \<noteq> chr_space) \<Longrightarrow> find_blank out i = 0"
  by (induction i) simp_all

lemma zero_fill_same: "(\<And>i. i < length out \<Longrightarrow> from \<le> int i \<Longrightarrow> isdigit (out ! i)) \<Longrightarrow> zero_fill from till out = out"
  by (rule nth_equalityI) (auto simp: zero_fill_def Let_def)

lemma replace_B_same: "0x42 \<notin> set bs \<Longrightarrow> replace_B pad seen bs = bs"
  by (induction bs arbitrary: seen) auto

text \<open>The first plus of the picture: no digit falls on it, and its place is kept.\<close>

lemma ed_plus_first:
  assumes "ed_out e = b # r" "ed_dst e = 0" "\<not> ed_trail_sign e" "digit_at data (ed_src e) = chr_0" "ed_pad e = chr_space"
  shows "\<exists>y. ed_repeat M data neg pl chr_plus 1 e = Some (e\<lparr>ed_out := chr_space # r, ed_src := ed_src e + 1,
    ed_sign_symbol := sign_char neg chr_plus, ed_sign_first := y, ed_dst := 1\<rparr>)"
proof -
  have "ed_next data e = (chr_0, e\<lparr>ed_src := ed_src e + 1\<rparr>)"
    using assms(4) by (simp add: ed_next_def digit_at_def Let_def split: if_splits)
  then show ?thesis using assms ed_put_at [where p = "[]" and b = b and r = r]
    by (intro exI [of _ "ed_sign_first e \<or> ed_curr_symbol e = 0"]) (simp add: ed_char_def)
qed

lemma ed_finish_text:
  assumes out: "ed_out e = (if h then [chr_space] else []) @ body" "ed_end e = int (length (ed_out e))" "body \<noteq> []"
    and body: "chr_space \<notin> set body" "0x42 \<notin> set body" "\<And>q. ed_point e = Some q \<Longrightarrow> \<forall>i<length (ed_out e). q < int i \<longrightarrow> isdigit (ed_out e ! i)"
    and e: "\<not> ed_suppress e" "ed_curr_symbol e = 0" "ed_sign_symbol e = (if h then c else 0)" "c \<noteq> 0" "c \<noteq> 0x42"
  shows "ed_finish M False e = Some ((if h then [c] else []) @ body)"
proof -
  have z: "(case ed_point e of None \<Rightarrow> e | Some q \<Rightarrow> e\<lparr>ed_out := zero_fill (q + 1) (ed_end e) (ed_out e)\<rparr>) = e"
  proof (cases "ed_point e")
    case (Some q)
    have "zero_fill (q + 1) (ed_end e) (ed_out e) = ed_out e"
      by (rule zero_fill_same) (use body(3) [OF Some] in auto)
    then show ?thesis using Some by (cases e) simp
  qed simp
  have f: "ed_finish M False e = map_option (\<lambda>e. replace_B (ed_pad e) False (take (nat (ed_end e)) (ed_out e)) @
      drop (nat (ed_end e)) (ed_out e)) (put_symbols e)"
    using e(1) by (simp add: ed_finish_def z Let_def map_option_case split: Option.bind_split option.splits)
  obtain k where k: "length body = Suc k" using out(3) by (cases body) auto
  have B: "replace_B (ed_pad e) False body = body" "replace_B (ed_pad e) False (c # body) = c # body"
    using body(2) e(5) by (simp_all add: replace_B_same)
  show ?thesis
  proof (cases h)
    case False
    then show ?thesis using e(2,3) out B(1) by (simp add: f put_symbols_def)
  next
    case True
    have "body ! j \<noteq> chr_space" if "j < length body" for j using body(1) that by (metis nth_mem)
    then have "find_blank (chr_space # body) (Suc k) = 0"
      using k by (intro find_blank_none) (simp add: nth_Cons split: nat.splits)
    moreover have n: "ed_end e - 1 = int (Suc k)" "ed_out e = chr_space # body" using out True k by simp_all
    ultimately have pos: "(if ed_end e - 1 > 0 then int (find_blank (ed_out e) (nat (ed_end e - 1))) else ed_end e - 1) = 0"
      unfolding n nat_int by (simp del: find_blank.simps)
    have "put_symbols e = Some (e\<lparr>ed_out := c # body\<rparr>)"
      unfolding put_symbols_def pos Let_def using e(2-4) True n(2) by (simp add: wri_def wr_def)
    then show ?thesis using B(2) out(1,2) True by (simp add: f)
  qed
qed

text \<open>The text of a row of digits with \<open>k\<close> places behind the point, and the picture it comes from.\<close>

definition pointed :: "u8 \<Rightarrow> nat \<Rightarrow> bytes \<Rightarrow> bytes" where
  "pointed dp k ds = (if k = 0 then ds else take (length ds - k) ds @ dp # drop (length ds - k) ds)"

definition nines :: "u8 \<Rightarrow> nat \<Rightarrow> nat \<Rightarrow> picture" where
  "nines dp k n = (if k = 0 then [(chr_9, n)] else [(chr_9, n - k), (dp, 1), (chr_9, k)])"

lemma ed_point_char:
  assumes "ed_out e = p @ b # r" "ed_dst e = int (length p)" "decimal_point M \<in> {0x2E, 0x2C}"
  shows "ed_repeat M data neg pl (decimal_point M) 1 e =
    Some (e\<lparr>ed_out := p @ decimal_point M # r, ed_point := Some (ed_dst e), ed_dst := ed_dst e + 1\<rparr>)"
  using assms ed_put_at [of "e\<lparr>ed_point := Some (ed_dst e)\<rparr>" p b r] by (auto simp: ed_char_def)

lemma ed_number:
  assumes e: "ed_out e = p @ r" "ed_dst e = int (length p)" "ed_src e = int (length ds - n)" "ed_point e = None"
      "length r = n + (if k = 0 then 0 else 1)"
    and n: "n \<le> length ds" "0 < n" "k \<le> n" and M: "decimal_point M \<in> {0x2E, 0x2C}"
  shows "\<exists>e'. ed_picture M ds neg pl (nines (decimal_point M) k n) e = Some e' \<and>
    ed_out e' = p @ pointed (decimal_point M) k (drop (length ds - n) ds) \<and> ed_pad e' = ed_pad e \<and> ed_end e' = ed_end e \<and>
    ed_sign_symbol e' = ed_sign_symbol e \<and> ed_curr_symbol e' = ed_curr_symbol e \<and> \<not> ed_suppress e' \<and>
    (\<forall>q. ed_point e' = Some q \<longrightarrow> k \<noteq> 0 \<and> q = int (length p + (n - k)))"
proof (cases "k = 0")
  case True
  from ed_nines [OF e(1,2), of n M ds neg pl] obtain e' where "ed_repeat M ds neg pl chr_9 n e = Some e'"
    "written e e' (p @ digits_from ds (ed_src e) n) (drop n r) (int n)" "ed_suppress e' \<longrightarrow> n = 0"
    using e(5) True by auto
  then show ?thesis using True e n digits_from_take [of "length ds - n" n ds]
    by (auto simp: nines_def pointed_def written_def)
next
  case False
  have l: "n - k \<le> length r" "drop (n - k) r \<noteq> []" using e(5) n False by auto
  then obtain b s where r: "drop (n - k) r = b # s" by (cases "drop (n - k) r") auto
  have ls: "length s = k" using arg_cong [OF r, of length] e(5) n False by simp
  from ed_nines [OF e(1,2) l(1), of M ds neg pl] obtain e1 where e1: "ed_repeat M ds neg pl chr_9 (n - k) e = Some e1"
    "written e e1 (p @ digits_from ds (ed_src e) (n - k)) (b # s) (int (n - k))" unfolding r by blast
  define e2 where "e2 = e1\<lparr>ed_out := (p @ digits_from ds (ed_src e) (n - k)) @ decimal_point M # s,
    ed_point := Some (ed_dst e1), ed_dst := ed_dst e1 + 1\<rparr>"
  have o: "ed_out e1 = (p @ digits_from ds (ed_src e) (n - k)) @ b # s"
    "ed_dst e1 = int (length (p @ digits_from ds (ed_src e) (n - k)))" using e1(2) by (simp_all add: written_def)
  have e2: "ed_repeat M ds neg pl (decimal_point M) 1 e1 = Some e2"
    unfolding e2_def by (rule ed_point_char [OF o M])
  have "ed_out e2 = (p @ digits_from ds (ed_src e) (n - k) @ [decimal_point M]) @ s"
    "ed_dst e2 = int (length (p @ digits_from ds (ed_src e) (n - k) @ [decimal_point M]))" "k \<le> length s"
    using o ls by (simp_all add: e2_def)
  from ed_nines [OF this, of M ds neg pl] obtain e3 where e3: "ed_repeat M ds neg pl chr_9 k e2 = Some e3"
    "written e2 e3 ((p @ digits_from ds (ed_src e) (n - k) @ [decimal_point M]) @ digits_from ds (ed_src e2) k) [] (int k)"
    "ed_suppress e3 \<longrightarrow> k = 0" using ls by auto
  have s2: "ed_src e2 = int (length ds - n + (n - k))" using e1(2) e(3) by (simp add: e2_def written_def)
  have d: "digits_from ds (ed_src e) (n - k) = take (n - k) (drop (length ds - n) ds)"
    "digits_from ds (ed_src e2) k = drop (n - k) (drop (length ds - n) ds)"
    unfolding s2 e(3) by (subst digits_from_take; use n in \<open>simp add: add.commute\<close>)+
  show ?thesis
    using False e1 e2 e3 d e o(2) n by (intro exI [of _ e3]) (auto simp: nines_def pointed_def written_def e2_def)
qed

text \<open>The places before the point that the picture has.\<close>

lemma count_nines:
  assumes "k \<le> n" "decimal_point M \<in> {0x2E, 0x2C}"
  shows "count_places M c cs cc (nines (decimal_point M) k n) = (c + (n - k), False)"
  using assms by (auto simp: nines_def)

lemma count_pretty:
  assumes "k \<le> n" "decimal_point M \<in> {0x2E, 0x2C}"
  shows "count_places M 0 True True ((if h then [(chr_plus, 1)] else []) @ nines (decimal_point M) k n) =
    ((if h then 1 else 0) + (n - k), False)"
  using count_nines [OF assms] by simp

lemma pretty_digits:
  assumes "all_digits ds" "length ds = n" "k \<le> n" "decimal_point M \<in> {0x2E, 0x2C}" "0 < n" "b = pointed (decimal_point M) k ds"
  shows "chr_space \<notin> set b" "0x42 \<notin> set b" "b \<noteq> []" "length b = n + (if k = 0 then 0 else 1)"
    and "\<lbrakk>j < length b; n - k < j\<rbrakk> \<Longrightarrow> k \<noteq> 0 \<Longrightarrow> isdigit (b ! j)"
proof -
  have d: "\<forall>x\<in>set ds. isdigit x" using assms(1) by (simp add: all_digits_def list_all_iff)
  have "\<forall>x\<in>set b. isdigit x \<or> x = decimal_point M"
    using d assms(6) by (auto simp: pointed_def dest: in_set_takeD in_set_dropD)
  then show "chr_space \<notin> set b" "0x42 \<notin> set b" using assms(4) by (auto simp: isdigit_def word_le_def)
  show "b \<noteq> []" "length b = n + (if k = 0 then 0 else 1)" using assms by (auto simp: pointed_def)
  show "isdigit (b ! j)" if j: "j < length b" "n - k < j" "k \<noteq> 0"
  proof -
    obtain i where i: "j = Suc (n - k + i)" using j(2) less_iff_Suc_add by auto
    have "b ! j = drop (n - k) ds ! i" using j(3) assms i by (auto simp: pointed_def nth_append)
    moreover have "i < length (drop (n - k) ds)" using j assms i by (auto simp: pointed_def)
    ultimately show ?thesis using d by (metis nth_mem in_set_dropD)
  qed
qed

lemma ed_picture_append:
  "ed_picture M data neg pl (p @ q) e = Option.bind (ed_picture M data neg pl p e) (ed_picture M data neg pl q)"
  by (induction p arbitrary: e) (auto split: Option.bind_split)

text \<open>MOVE of a DISPLAY item to the edited item of the pretty form.\<close>

lemma display_to_pretty:
  assumes g: "cob_get_sign M f = Some (s, h)" "cob_put_sign M h s = Some f'" "field_bytes h = ds" "field_scale h = int k"
    and ds: "all_digits ds" "dec_val ds < 10 ^ n" "n \<le> length ds" "k \<le> n" "0 < n" and M: "decimal_point M \<in> {0x2E, 0x2C}"
    and t: "fdata t = replicate (n + (if b then 1 else 0) + (if k = 0 then 0 else 1)) 0"
      "field_pic t = (if b then [(chr_plus, 1)] else []) @ nines (decimal_point M) k n" "\<not> blank_zero t"
  shows "cob_move_display_to_edited M f t = Some (f', set_data t
    ((if b then [sign_char (s < 0) chr_plus] else []) @ pointed (decimal_point M) k (pad_digits n (dec_val ds))))"
proof -
  let ?ds = "drop (length ds - n) ds" and ?p = "if b then [chr_space] else []"
  let ?e = "\<lparr>ed_out = fdata t, ed_dst = 0, ed_end = int (fsize t), ed_src = int (length ds) - int k - int ((if b then 1 else 0) + (n - k)),
      ed_point = None, ed_pad = chr_space, ed_is_zero = True, ed_suppress = True, ed_trail_sign = False, ed_trail_curr = False,
      ed_sign_first = False, ed_sign_symbol = 0, ed_curr_symbol = 0\<rparr>"
  have z: "ds = replicate (length ds - n) chr_0 @ pad_digits n (dec_val ds)" by (rule leading_zeros [OF ds(1,2,3)])
  then have d: "?ds = pad_digits n (dec_val ds)"
    by (metis append_eq_conv_conj length_replicate)
  obtain e1 where e1: "ed_picture M ds (s < 0) False (if b then [(chr_plus, 1)] else []) ?e = Some e1"
    "ed_out e1 = ?p @ replicate (n + (if k = 0 then 0 else 1)) 0" "ed_dst e1 = int (length ?p)" "ed_src e1 = int (length ds - n)"
    "ed_point e1 = None" "ed_end e1 = int (fsize t)" "ed_curr_symbol e1 = 0"
    "ed_sign_symbol e1 = (if b then sign_char (s < 0) chr_plus else 0)"
  proof (cases b)
    case False
    then show ?thesis using that [of ?e] t ds by simp
  next
    case True
    have "digit_at ds (ed_src ?e) = chr_0"
    proof (cases "length ds = n")
      case True
      then show ?thesis using \<open>b\<close> ds by (simp add: digit_at_def)
    next
      case False
      then have "length ds - n - 1 < length ds - n" "nat (ed_src ?e) = length ds - n - 1" using \<open>b\<close> ds by auto
      then have "ds ! nat (ed_src ?e) = chr_0" using z by (metis length_replicate nth_append nth_replicate)
      then show ?thesis by (simp add: digit_at_def)
    qed
    moreover have "ed_out ?e = 0 # replicate (n + (if k = 0 then 0 else 1)) 0" using t True by simp
    ultimately obtain y where "ed_repeat M ds (s < 0) False chr_plus 1 ?e = Some (?e\<lparr>ed_out := chr_space # replicate (n + (if k = 0 then 0 else 1)) 0,
      ed_src := ed_src ?e + 1, ed_sign_symbol := sign_char (s < 0) chr_plus, ed_sign_first := y, ed_dst := 1\<rparr>)"
      using ed_plus_first [of ?e 0 "replicate (n + (if k = 0 then 0 else 1)) 0" ds M "s < 0" False] by auto
    then show ?thesis using True t ds by (intro that) (simp, simp_all)
  qed
  let ?r = "replicate (n + (if k = 0 then 0 else 1)) (0 :: u8)" and ?body = "pointed (decimal_point M) k ?ds"
  have "length ?r = n + (if k = 0 then 0 else 1)" by simp
  from ed_number [OF e1(2-5) this ds(3,5,4) M, of "s < 0" False] obtain e2 where
    e2: "ed_picture M ds (s < 0) False (nines (decimal_point M) k n) e1 = Some e2" "ed_out e2 = ?p @ ?body" "ed_end e2 = int (fsize t)"
      "ed_sign_symbol e2 = (if b then sign_char (s < 0) chr_plus else 0)" "ed_curr_symbol e2 = 0" "\<not> ed_suppress e2"
      "\<And>q. ed_point e2 = Some q \<Longrightarrow> k \<noteq> 0 \<and> q = int (length ?p + (n - k))"
    using e1(6-8) by auto
  have "all_digits ?ds" "length ?ds = n" unfolding d by simp_all
  note body = pretty_digits [OF this ds(4) M ds(5) refl]
  have fin: "ed_finish M False e2 = Some ((if b then [sign_char (s < 0) chr_plus] else []) @ ?body)"
  proof (rule ed_finish_text [OF e2(2) _ body(3,1,2) _ e2(6,5,4)])
    show "ed_end e2 = int (length (ed_out e2))" using e2(2,3) body(4) t(1) by (simp add: fsize_def)
    fix q assume "ed_point e2 = Some q"
    then have q: "k \<noteq> 0" "q = int (length ?p + (n - k))" using e2(7) by blast+
    show "\<forall>i<length (ed_out e2). q < int i \<longrightarrow> isdigit (ed_out e2 ! i)"
    proof (intro allI impI)
      fix i assume i: "i < length (ed_out e2)" "q < int i"
      have "isdigit (?body ! (i - length ?p))" by (rule body(5)) (use i q e2(2) in auto)
      then show "isdigit (ed_out e2 ! i)" using i q e2(2) by (auto simp: nth_append split: if_splits)
    qed
  qed (auto simp: sign_char_def)
  have c: "count_places M 0 True True (field_pic t) = ((if b then 1 else 0) + (n - k), False)"
    unfolding t(2) by (rule count_pretty [OF ds(4) M])
  have "ed_picture M ds (s < 0) False (field_pic t) ?e = Some e2"
    unfolding t(2) ed_picture_append e1(1) using e2(1) by simp
  then show ?thesis using g(1,2) c fin t(3) unfolding d
    by (simp add: cob_move_display_to_edited_def g(3,4) Let_def)
qed

lemma display_item_pretty:
  assumes v: "num_val T M f = Some v" "field_type f = COB_TYPE_NUMERIC_DISPLAY"
    and n: "\<bar>v\<bar> < 10 ^ n" "n \<le> data_size f" "k \<le> n" "0 < n" "field_scale f = int k" and M: "decimal_point M \<in> {0x2E, 0x2C}"
    and t: "fdata t = replicate (n + (if b then 1 else 0) + (if k = 0 then 0 else 1)) 0"
      "field_pic t = (if b then [(chr_plus, 1)] else []) @ nines (decimal_point M) k n" "\<not> blank_zero t"
  shows "\<exists>c f'. cob_move_display_to_edited M f t = Some (f', set_data t
    ((if b then [c] else []) @ pointed (decimal_point M) k (pad_digits n \<bar>v\<bar>))) \<and> shown_sign v c"
proof -
  obtain s h where h: "wf_field f" "cob_get_sign M f = Some (s, h)" "all_digits (field_bytes h)" "v = signed_val s (field_bytes h)"
    "length (field_bytes h) = data_size f" by (rule num_valE [OF v])
  obtain f' where f': "cob_put_sign M h s = Some f'" using put_back_sign [OF h(1) v(2) h(2,3), of T] by blast
  have "field_scale h = int k" using get_sign_wf(4) [OF h(2,1)] n(5) by simp
  moreover have a: "dec_val (field_bytes h) = \<bar>v\<bar>" using h(3,4) dec_val_nonneg [OF h(3)] by (simp add: signed_val_def split: if_splits)
  moreover have "shown_sign v (sign_char (s < 0) chr_plus)"
    using h(4) a by (auto simp: shown_sign_def sign_char_def signed_val_def split: if_splits)
  ultimately show ?thesis using display_to_pretty [OF h(2) f' refl _ h(3) _ _ n(3,4) M t] n(1,2) h(5) by auto
qed

definition pretty_text :: "term_env \<Rightarrow> cob_field \<Rightarrow> u8 \<Rightarrow> bytes \<Rightarrow> bytes" where
  "pretty_text X f c ds = (if have_sign f then [c] else []) @ pointed (decimal_point (tm_module X)) (nat (field_scale f)) ds"

lemma temp_item_pretty:
  assumes cv: "\<And>t. wf_field t \<Longrightarrow> field_type t = COB_TYPE_NUMERIC_DISPLAY \<Longrightarrow>
      \<exists>g. func f t = Some (f, g) \<and> same_shape t g \<and> num_val T M g = Some (move_result t v (field_scale t - field_scale f))"
    and sz: "0 < sz" "sz \<le> 64" "\<bar>v\<bar> < 10 ^ sz" "n \<le> sz"
    and n: "\<bar>v\<bar> < 10 ^ n" "k \<le> n" "0 < n" "field_scale f = int k" and M: "decimal_point M \<in> {0x2E, 0x2C}"
    and t: "fdata t = replicate (n + (if b then 1 else 0) + (if k = 0 then 0 else 1)) 0"
      "field_pic t = (if b then [(chr_plus, 1)] else []) @ nines (decimal_point M) k n" "\<not> blank_zero t"
      "field_type t = COB_TYPE_NUMERIC_EDITED"
  shows "\<exists>c f'. (do { (s', u) \<leftarrow> indirect_temp func f sz (field_scale f);
      (_, d) \<leftarrow> cob_move T E M (display_temp sz (field_scale f) u) t; Some (s', d) }) =
    Some (f', set_data t ((if b then [c] else []) @ pointed (decimal_point M) k (pad_digits n \<bar>v\<bar>))) \<and> shown_sign v c"
proof -
  let ?t = "cob_fld COB_TYPE_NUMERIC_DISPLAY sz (field_scale f) COB_FLAG_HAVE_SIGN [] (replicate sz 0)"
  have "wf_field ?t" using sz(1) by (simp add: wf_field_def data_size_def)
  then obtain g where g: "func f ?t = Some (f, g)" "same_shape ?t g" "num_val T M g = Some v"
    using cv [of ?t] temp_capacity [OF sz(3)] by auto
  have gd: "display_temp sz (field_scale f) (fdata g) = g" by (rule display_temp_shape [OF g(2)])
  have gs: "field_type g = COB_TYPE_NUMERIC_DISPLAY" "data_size g = sz" "field_scale g = int k" "fsize g \<noteq> 0"
    using g(2) sz(1) n(4) by (auto simp: same_shape_def field_sel data_size_def cob_fld_def)
  have "fsize t \<noteq> 0" using t(1) n(3) by (simp add: fsize_def)
  then have "cob_move T E M g t = cob_move_display_to_edited M g t"
    using gs t(4) by (subst cob_move.simps) (simp add: is_fp_def)
  moreover obtain c g' where "cob_move_display_to_edited M g t =
      Some (g', set_data t ((if b then [c] else []) @ pointed (decimal_point M) k (pad_digits n \<bar>v\<bar>)))" "shown_sign v c"
    using display_item_pretty [OF g(3) gs(1) n(1) _ n(2,3) gs(3) M t(1-3)] sz(4) gs(2) by auto
  moreover have "indirect_temp func f sz (field_scale f) = Some (f, fdata g)" using g(1) sz(2) by (simp add: indirect_temp_def)
  ultimately show ?thesis by (auto simp: gd)
qed

lemma pretty_display_shows:
  assumes v: "num_val (tm_target X) (tm_module X) f = Some v"
    and f: "field_type f = COB_TYPE_NUMERIC_DISPLAY \<Longrightarrow> field_digits f = data_size f"
      "field_type f = COB_TYPE_NUMERIC_PACKED \<Longrightarrow> field_digits f \<le> 64" "field_type f = COB_TYPE_NUMERIC_BINARY \<Longrightarrow> field_digits f \<le> 20"
      "0 < field_digits f" "field_digits f < 128" "0 \<le> field_scale f" "field_scale f \<le> int (field_digits f)" "\<bar>v\<bar> < 10 ^ field_digits f"
    and M: "decimal_point (tm_module X) \<in> {0x2E, 0x2C}"
  shows "\<exists>c f'. pretty_display_numeric X f = Some (pretty_text X f c (pad_digits (field_digits f) \<bar>v\<bar>), f') \<and> shown_sign v c"
proof -
  let ?M = "tm_module X" and ?n = "field_digits f" and ?k = "nat (field_scale f)"
  define t where "t = cob_fld COB_TYPE_NUMERIC_EDITED ?n (field_scale f) 0 (pretty_pic X f)
    (replicate (?n + (if have_sign f then 1 else 0) + (if field_scale f > 0 then 1 else 0)) 0)"
  have k: "field_scale f = int ?k" "?k \<le> ?n" "field_scale f > 0 \<longleftrightarrow> ?k \<noteq> 0" using f(6,7) by auto
  have bz: "\<not> blank_zero (cob_fld ty d sc 0 pc bs)" for ty d sc pc bs by (simp add: blank_zero_def cob_fld_def)
  have "nat (int ?n - field_scale f) = ?n - ?k" using f(6,7) by simp
  then have t: "fdata t = replicate (?n + (if have_sign f then 1 else 0) + (if ?k = 0 then 0 else 1)) 0"
      "field_pic t = (if have_sign f then [(chr_plus, 1)] else []) @ nines (decimal_point ?M) ?k ?n" "\<not> blank_zero t"
      "field_type t = COB_TYPE_NUMERIC_EDITED"
    using k bz by (auto simp: t_def pretty_pic_def nines_def)
  have z: "fsize f \<noteq> 0" "fsize t \<noteq> 0" "num_type (field_type f)" using num_val_size [OF v] t(1) f(4) by (auto simp: fsize_def)
  have "\<exists>c f'. cob_move (tm_target X) (tm_fp X) ?M f t = Some (f', set_data t (pretty_text X f c (pad_digits ?n \<bar>v\<bar>))) \<and> shown_sign v c"
  proof -
    consider "field_type f = COB_TYPE_NUMERIC_DISPLAY" | "field_type f = COB_TYPE_NUMERIC_PACKED"
      | "field_type f = COB_TYPE_NUMERIC_BINARY" using z(3) by (auto simp: num_type_def)
    then show ?thesis
    proof cases
      case 1
      then have "cob_move (tm_target X) (tm_fp X) ?M f t = cob_move_display_to_edited ?M f t"
        using z t(4) by (subst cob_move.simps) (simp add: is_fp_def)
      then show ?thesis using display_item_pretty [OF v 1 f(8) _ k(2) f(4) k(1) M t(1-3)] f(1) [OF 1] by (auto simp: pretty_text_def)
    next
      case 2
      then have m: "cob_move (tm_target X) (tm_fp X) ?M f t = do {
          (s', u) \<leftarrow> indirect_temp (cob_move_packed_to_display ?M) f ?n (field_scale f);
          (_, d) \<leftarrow> cob_move (tm_target X) (tm_fp X) ?M (display_temp ?n (field_scale f) u) t; Some (s', d) }"
        using z t(4) by (subst cob_move.simps) simp
      show ?thesis unfolding m pretty_text_def
        by (rule temp_item_pretty [where func = "cob_move_packed_to_display ?M",
              OF packed_to_display_num [OF v 2 f(2) [OF 2]] f(4) f(2) [OF 2] f(8) le_refl f(8) k(2) f(4) k(1) M t])
    next
      case 3
      then have m: "cob_move (tm_target X) (tm_fp X) ?M f t = do {
          (s', u) \<leftarrow> indirect_temp (cob_move_binary_to_display (tm_target X) ?M) f 20 (field_scale f);
          (_, d) \<leftarrow> cob_move (tm_target X) (tm_fp X) ?M (display_temp 20 (field_scale f) u) t; Some (s', d) }"
        using z t(4) by (subst cob_move.simps) (simp add: other_numeric_def)
      have "(10 :: int) ^ ?n \<le> 10 ^ 20" using f(3) [OF 3] by (intro power_increasing) simp_all
      then have "\<bar>v\<bar> < 10 ^ 20" using f(8) by linarith
      then show ?thesis unfolding m pretty_text_def
        using temp_item_pretty [where func = "cob_move_binary_to_display (tm_target X) ?M",
              OF binary_to_display_num [OF v 3] _ _ _ f(3) [OF 3] f(8) k(2) f(4) k(1) M t] by simp
    qed
  qed
  then show ?thesis using z(1) f(4,5,7) unfolding t_def
    by (auto simp: pretty_display_numeric_def Let_def)
qed

section \<open>DISPLAY of a number in both forms\<close>

text \<open>The pretty form is for all items but those of the binary usages that keep the range of their bytes.\<close>

definition pretty_shown :: "term_env \<Rightarrow> cob_field \<Rightarrow> bool" where
  "pretty_shown X f \<longleftrightarrow> flag_pretty_display X \<and> \<not> real_binary f"

definition number_text :: "term_env \<Rightarrow> cob_field \<Rightarrow> u8 \<Rightarrow> int \<Rightarrow> bytes" where
  "number_text X f c v = (if pretty_shown X f then pretty_text X f c (pad_digits (field_digits f) \<bar>v\<bar>)
     else signed_text f c (pad_digits (shown_digits f) \<bar>v\<bar>))"

text \<open>An item that holds a number its picture has room for; in the pretty form its decimal point is among its digits.\<close>

definition showable :: "term_env \<Rightarrow> cob_field \<Rightarrow> int \<Rightarrow> bool" where
  "showable X f v \<longleftrightarrow> num_val (tm_target X) (tm_module X) f = Some v \<and> \<not> is_pointer f \<and>
     (real_binary f \<longrightarrow> field_type f = COB_TYPE_NUMERIC_BINARY) \<and>
     (field_type f = COB_TYPE_NUMERIC_DISPLAY \<longrightarrow> field_digits f = data_size f) \<and>
     (field_type f = COB_TYPE_NUMERIC_PACKED \<longrightarrow> field_digits f \<le> 64) \<and>
     (field_type f = COB_TYPE_NUMERIC_BINARY \<and> \<not> pretty_shown X f \<or> 0 < field_digits f \<and> field_digits f < 128 \<and> in_range f v) \<and>
     (pretty_shown X f \<longrightarrow> 0 \<le> field_scale f \<and> field_scale f \<le> int (field_digits f) \<and>
        (field_type f = COB_TYPE_NUMERIC_BINARY \<longrightarrow> field_digits f \<le> 20) \<and> decimal_point (tm_module X) \<in> {0x2E, 0x2C})"

lemma display_number_text:
  assumes "showable X f v"
  shows "\<exists>c f'. display X f = Some (number_text X f c v, f') \<and> shown_sign v c"
proof (cases "flag_pretty_display X")
  case False
  then show ?thesis using display_number [of X f v] assms by (auto simp: showable_def number_text_def pretty_shown_def)
next
  case True
  show ?thesis
  proof (cases "real_binary f")
    case r: True
    let ?X = "X\<lparr>flag_pretty_display := False\<rparr>"
    have "num_val (tm_target ?X) (tm_module ?X) f = Some v" "\<not> is_pointer f" "\<not> flag_pretty_display ?X"
      "field_type f = COB_TYPE_NUMERIC_BINARY" using assms r by (auto simp: showable_def)
    from display_number [OF this(1-3)] this(4) obtain c f'
      where "display ?X f = Some (signed_text f c (pad_digits (shown_digits f) \<bar>v\<bar>), f')" "shown_sign v c" by auto
    moreover have "display ?X f = display X f"
      using r by (simp add: display_def display_numeric_def Let_def)
    ultimately show ?thesis using r by (auto simp: number_text_def pretty_shown_def)
  next
    case r: False
    then have p: "pretty_shown X f" using True by (simp add: pretty_shown_def)
    have v: "num_val (tm_target X) (tm_module X) f = Some v" using assms by (simp add: showable_def)
    have t: "num_type (field_type f)" using num_val_size [OF v] by simp
    have a: "\<bar>v\<bar> < 10 ^ field_digits f" "0 < field_digits f" "field_digits f < 128" using assms p t
      by (auto simp: showable_def in_range_def capacity_def num_type_def)
    obtain c f' where "pretty_display_numeric X f = Some (pretty_text X f c (pad_digits (field_digits f) \<bar>v\<bar>), f')" "shown_sign v c"
      using pretty_display_shows [OF v _ _ _ a(2,3) _ _ a(1)] assms p by (auto simp: showable_def)
    moreover have "display X f = pretty_display_numeric X f"
      using True r t assms by (auto simp: display_def showable_def field_is_numeric_def num_type_def)
    ultimately show ?thesis using p by (auto simp: number_text_def)
  qed
qed

section \<open>NUMVAL of what DISPLAY shows\<close>

lemma number_text_chars:
  assumes c: "shown_sign v c" and b: "b \<in> set (number_text X f c v)"
  shows "b = chr_plus \<or> b = chr_minus \<or> isdigit b \<or> pretty_shown X f \<and> 0 < field_scale f \<and> b = decimal_point (tm_module X)"
proof (cases "pretty_shown X f")
  case False
  then show ?thesis using signed_text_digits(2) [OF c] b by (auto simp: number_text_def)
next
  case True
  have "\<forall>x\<in>set (pad_digits (field_digits f) \<bar>v\<bar>). isdigit x" using all_digits_pad by (simp add: all_digits_def list_all_iff)
  moreover have "c = chr_plus \<or> c = chr_minus" using c by (simp add: shown_sign_def)
  ultimately show ?thesis using b True
    by (auto simp: number_text_def pretty_text_def pointed_def split: if_splits dest: in_set_takeD in_set_dropD)
qed

text \<open>The digits that are shown.\<close>

definition text_width :: "term_env \<Rightarrow> cob_field \<Rightarrow> nat" where
  "text_width X f = (if pretty_shown X f then field_digits f else shown_digits f)"

lemma filter_digits [simp]: "all_digits ds \<Longrightarrow> filter isdigit ds = ds"
  by (induction ds) auto

lemma digits_take_drop: "all_digits ds \<Longrightarrow> all_digits (take i ds)" "all_digits ds \<Longrightarrow> all_digits (drop i ds)"
  by (auto simp: all_digits_def list_all_iff dest: in_set_takeD in_set_dropD)

lemma number_text_digits:
  assumes c: "shown_sign v c" and M: "decimal_point (tm_module X) \<in> {0x2E, 0x2C}"
  shows "text_digits (number_text X f c v) = pad_digits (text_width X f) \<bar>v\<bar>"
proof -
  have "\<not> isdigit c" "\<not> isdigit (decimal_point (tm_module X))" using c M by (auto simp: shown_sign_def isdigit_def word_le_def)
  then show ?thesis using signed_text_digits(1) [OF c]
    by (simp add: number_text_def text_width_def pretty_text_def pointed_def text_digits_def digits_take_drop)
qed

lemma no_char: "all_digits ds \<Longrightarrow> \<not> isdigit b \<Longrightarrow> b \<notin> set ds"
  by (auto simp: all_digits_def list_all_iff)

lemma number_text_minus:
  assumes "shown_sign v c" "have_sign f \<or> 0 \<le> v" "v \<noteq> 0" "decimal_point (tm_module X) \<in> {0x2E, 0x2C}"
  shows "chr_minus \<in> set (number_text X f c v) \<longleftrightarrow> v < 0"
proof (cases "pretty_shown X f")
  case False
  then show ?thesis using signed_text_minus [OF assms(1-3)] by (simp add: number_text_def)
next
  case True
  have nd: "\<not> isdigit chr_minus" "chr_minus \<noteq> decimal_point (tm_module X)" using assms(4) by (auto simp: isdigit_def word_le_def)
  have "chr_minus \<notin> set (pointed (decimal_point (tm_module X)) k (pad_digits n \<bar>v\<bar>))" for k n
    using nd no_char [OF digits_take_drop(1)] no_char [OF digits_take_drop(2)] no_char by (simp add: pointed_def)
  then show ?thesis using True assms(1-3) by (auto simp: number_text_def pretty_text_def shown_sign_def)
qed

lemma number_text_decimals:
  assumes c: "shown_sign v c" and M: "decimal_point (tm_module X) \<in> {0x2E, 0x2C}"
    and w: "pretty_shown X f \<Longrightarrow> 0 \<le> field_scale f \<and> field_scale f \<le> int (field_digits f)"
  shows "int (length (text_decimals (tm_module X) (number_text X f c v @ replicate m chr_space))) =
    (if pretty_shown X f then field_scale f else 0)"
proof -
  let ?d = "decimal_point (tm_module X)" and ?k = "nat (field_scale f)" and ?ds = "pad_digits (field_digits f) \<bar>v\<bar>"
  have nd: "\<not> isdigit ?d" "?d \<noteq> chr_space" "?d \<noteq> chr_plus" "?d \<noteq> chr_minus" "\<not> isdigit chr_space"
    using M by (auto simp: isdigit_def word_le_def)
  show ?thesis
  proof (cases "pretty_shown X f \<and> 0 < field_scale f")
    case True
    let ?p = "(if have_sign f then [c] else []) @ take (field_digits f - ?k) ?ds"
    have "?d \<notin> set ?p" using c nd no_char [OF digits_take_drop(1) [OF all_digits_pad] nd(1)] by (auto simp: shown_sign_def)
    then have "\<forall>b\<in>set ?p. b \<noteq> ?d" by blast
    then have z: "dropWhile (\<lambda>b. b \<noteq> ?d) ?p = []" by (simp only: dropWhile_eq_Nil_conv)
    have n: "number_text X f c v @ replicate m chr_space = ?p @ ?d # (drop (field_digits f - ?k) ?ds @ replicate m chr_space)"
      using True by (simp add: number_text_def pretty_text_def pointed_def)
    have "dropWhile (\<lambda>b. b \<noteq> ?d) (?p @ ?d # (drop (field_digits f - ?k) ?ds @ replicate m chr_space)) =
        ?d # drop (field_digits f - ?k) ?ds @ replicate m chr_space"
      by (subst dropWhile_append3) (simp, simp only: z append_Nil)
    then have "dropWhile (\<lambda>b. b \<noteq> ?d) (number_text X f c v @ replicate m chr_space) =
        ?d # drop (field_digits f - ?k) ?ds @ replicate m chr_space" unfolding n .
    then show ?thesis using True w nd by (simp add: text_decimals_def digits_take_drop)
  next
    case False
    then have "\<forall>b\<in>set (number_text X f c v @ replicate m chr_space). b \<noteq> ?d"
      using number_text_chars [OF c] nd by fastforce
    then have "dropWhile (\<lambda>b. b \<noteq> ?d) (number_text X f c v @ replicate m chr_space) = []" by (simp only: dropWhile_eq_Nil_conv)
    then have "text_decimals (tm_module X) (number_text X f c v @ replicate m chr_space) = []"
      by (simp only: text_decimals_def filter.simps)
    then show ?thesis using False w by auto
  qed
qed

lemma showable_range:
  assumes "showable X f v"
  shows "\<bar>v\<bar> < 10 ^ text_width X f" "have_sign f \<or> 0 \<le> v"
proof -
  have v: "num_val (tm_target X) (tm_module X) f = Some v" using assms by (simp add: showable_def)
  have "\<bar>v\<bar> < 10 ^ text_width X f \<and> (have_sign f \<or> 0 \<le> v)"
  proof (cases "pretty_shown X f")
    case False
    then show ?thesis using shown_fits [OF v] assms by (auto simp: showable_def text_width_def)
  next
    case True
    have "num_type (field_type f)" using num_val_size [OF v] by simp
    then show ?thesis using True assms by (auto simp: showable_def text_width_def in_range_def capacity_def num_type_def)
  qed
  then show "\<bar>v\<bar> < 10 ^ text_width X f" "have_sign f \<or> 0 \<le> v" by simp_all
qed

lemma numval_of_text:
  assumes f: "showable X f v" and c: "shown_sign v c" and M: "decimal_point (tm_module X) \<in> {0x2E, 0x2C}" "text_width X f \<le> 18"
    and g: "fdata g = number_text X f c v @ replicate m chr_space"
  shows "\<exists>r. cob_intr_numval T E (tm_module X) behind g = Some r \<and> field_scale r = (if pretty_shown X f then field_scale f else 0) \<and>
    num_val T (tm_module X) r = Some v"
proof -
  let ?M = "tm_module X" and ?t = "number_text X f c v"
  have "\<not> isdigit chr_space" "chr_minus \<noteq> chr_space" by (auto simp: isdigit_def word_le_def)
  then have td: "text_digits (fdata g) = pad_digits (text_width X f) \<bar>v\<bar>" and m: "chr_minus \<in> set (fdata g) \<longleftrightarrow> chr_minus \<in> set ?t"
    using number_text_digits [OF c M(1)] g by (auto simp: text_digits_def)
  have "\<forall>b\<in>set (fdata g). number_char ?M b" using number_text_chars [OF c] g by (auto simp: number_char_def)
  moreover have "dec_val (pad_digits (text_width X f) \<bar>v\<bar>) = \<bar>v\<bar>" using showable_range(1) [OF f] by (simp add: dec_val_pad)
  moreover have "int (length (text_decimals ?M (fdata g))) = (if pretty_shown X f then field_scale f else 0)"
    unfolding g by (rule number_text_decimals [OF c M(1)]) (use f in \<open>simp add: showable_def\<close>)
  ultimately show ?thesis
    using numval_text [OF M(1), of g T E behind] td m M(2) number_text_minus [OF c showable_range(2) [OF f] _ M(1)]
    by (cases "v = 0") (auto split: if_splits)
qed

theorem number_by_text:
  assumes f: "showable X f v" "text_width X f \<le> 18" and g: "text_item g" "\<And>c. length (number_text X f c v) \<le> fsize g"
    and M: "decimal_point (tm_module X) \<in> {0x2E, 0x2C}" and S: "term_out S = []"
  shows "\<exists>S1 h g' r. cob_display X False False True [f] S = Some (S1, [h]) \<and>
    cob_accept X g (S\<lparr>term_in := term_out S1\<rparr>) = Some (S\<lparr>term_in := []\<rparr>, g') \<and>
    cob_intr_numval T E (tm_module X) behind g' = Some r \<and> field_scale r = (if pretty_shown X f then field_scale f else 0) \<and>
    num_val T (tm_module X) r = Some v"
proof -
  obtain c h where d: "display X f = Some (number_text X f c v, h)" "shown_sign v c" using display_number_text [OF f(1)] by blast
  let ?t = "number_text X f c v"
  have "\<not> isdigit 10" "\<not> isdigit 0" "decimal_point (tm_module X) \<noteq> 10" "decimal_point (tm_module X) \<noteq> 0"
    using M by (auto simp: isdigit_def)
  then have b: "10 \<notin> set ?t" "0 \<notin> set ?t" using number_text_chars [OF d(2), of 10] number_text_chars [OF d(2), of 0] by auto
  have "length ?t \<le> text_width X f + 2" by (simp add: number_text_def text_width_def pretty_text_def signed_text_def pointed_def)
  then have l: "length ?t < COB_MEDIUM_BUFF - 1" using f(2) by (simp add: COB_MEDIUM_BUFF_def)
  have "cob_accept X g (S\<lparr>term_in := ?t @ [10]\<rparr>) =
      Some (S\<lparr>term_in := []\<rparr>, set_data g (take (fsize g) (?t @ replicate (fsize g) chr_space)))"
    using accept_text [OF g(1) b l, of "S\<lparr>term_in := ?t @ [10]\<rparr>" "[]" X] by simp
  moreover have "fdata (set_data g (take (fsize g) (?t @ replicate (fsize g) chr_space))) = ?t @ replicate (fsize g - length ?t) chr_space"
    using g(2) [of c] by (simp add: take_replicate)
  ultimately show ?thesis
    using numval_of_text [OF f(1) d(2) M f(2), of _ "fsize g - length ?t" T E behind] d(1) S
    by (auto simp: cob_display_def)
qed

text \<open>An item with scaling positions (\<open>PIC 99PP\<close> with the value 1200) is shown with its zeros.\<close>

lemma pretty_scaled_item:
  "display \<lparr>tm_target = T, tm_fp = E, tm_module = default_module, flag_pretty_display = True, fp_show = s\<rparr>
     (cob_fld COB_TYPE_NUMERIC_DISPLAY 4 (- 2) 0 [] [0x31, 0x32]) =
     Some ([0x31, 0x32, 0x30, 0x30], cob_fld COB_TYPE_NUMERIC_DISPLAY 4 (- 2) 0 [] [0x31, 0x32])"
  by code_simp

end
