(* ===== verification/Cob_Move_Shape.thy ===== *)
theory Cob_Move_Shape
  imports Cob_Move_Numeric
begin

text \<open>
  MOVE keeps its items: whatever the two usages, when MOVE has a result the item that receives and
  the item that is read have the size and the attributes they had. That it has a result, which
  means that no conversion writes outside the receiving item, is the subject of
  \<open>Cob_Move_Safe\<close>.
\<close>

section \<open>Lengths\<close>

lemma wri_length: "wri bs i b = Some bs' \<Longrightarrow> length bs' = length bs"
  by (auto simp: wri_def wr_def split: if_splits)

lemma set_data_shape: "length bs = fsize f \<Longrightarrow> same_shape f (set_data f bs)"
  by (simp add: same_shape_def)

lemma pack_chars_length: "pack_chars n k p i d1 d2 = Some d3 \<Longrightarrow> length d3 = length d2"
  by (induction n k p i d1 d2 rule: pack_chars.induct) (auto simp: bind_eq_Some_conv wr_def split: if_splits)

lemma ed_put_length: "ed_put e b = Some e' \<Longrightarrow> length (ed_out e') = length (ed_out e)"
  by (auto simp: ed_put_def dest: wri_length)

lemma ed_next_out: "ed_next data e = (x, e') \<Longrightarrow> ed_out e' = ed_out e"
  by (auto simp: ed_next_def Let_def split: if_splits)

lemma ed_char_length: "ed_char M data neg pl c e = Some e' \<Longrightarrow> length (ed_out e') = length (ed_out e)"
  unfolding ed_char_def
  by (auto simp: Let_def bind_eq_Some_conv split: if_splits prod.splits dest!: ed_put_length ed_next_out)

lemma ed_repeat_length: "ed_repeat M data neg pl c n e = Some e' \<Longrightarrow> length (ed_out e') = length (ed_out e)"
  by (induction M data neg pl c n e rule: ed_repeat.induct) (auto simp: bind_eq_Some_conv dest: ed_char_length)

lemma ed_picture_length: "ed_picture M data neg pl pic e = Some e' \<Longrightarrow> length (ed_out e') = length (ed_out e)"
  by (induction M data neg pl pic e rule: ed_picture.induct) (auto simp: bind_eq_Some_conv dest: ed_repeat_length)

lemma put_symbols_length: "put_symbols e = Some e' \<Longrightarrow> length (ed_out e') = length (ed_out e)"
  unfolding put_symbols_def
  by (auto simp: Let_def bind_eq_Some_conv split: if_splits option.splits prod.splits dest!: wri_length)

lemma replace_B_length [simp]: "length (replace_B pad seen bs) = length bs"
  by (induction pad seen bs rule: replace_B.induct) auto

lemma ed_finish_length: "ed_finish M bz e = Some bs \<Longrightarrow> length bs = length (ed_out e)"
  unfolding ed_finish_def
  by (auto simp: Let_def bind_eq_Some_conv zero_fill_def split: if_splits option.splits dest!: put_symbols_length)

section \<open>Every conversion keeps both items\<close>

definition keeps :: "cob_field \<Rightarrow> cob_field \<Rightarrow> (cob_field \<times> cob_field) option \<Rightarrow> bool" where
  "keeps f g r \<longleftrightarrow> (\<forall>f' g'. r = Some (f', g') \<longrightarrow> same_shape f f' \<and> same_shape g g')"

lemma signs_shape:
  "cob_get_sign M f = Some (s, f1) \<Longrightarrow> cob_put_sign M f1 t = Some f2 \<Longrightarrow> same_shape f f2"
  by (rule same_shape_trans [OF get_sign_shape put_sign_shape])

lemma keeps_display_to_alphanum: "keeps f g (cob_move_display_to_alphanum M f g)"
  unfolding keeps_def
proof (intro allI impI)
  fix f' g' assume m: "cob_move_display_to_alphanum M f g = Some (f', g')"
  obtain s f1 where f1: "cob_get_sign M f = Some (s, f1)" using m by (auto simp: cob_move_display_to_alphanum_def bind_eq_Some_conv)
  with m have "cob_put_sign M f1 s = Some f'" "fsize g' = fsize g" "fattr g' = fattr g"
    by (auto simp: cob_move_display_to_alphanum_def bind_eq_Some_conv Let_def min_def)
  then show "same_shape f f' \<and> same_shape g g'" using f1 by (auto simp: same_shape_def [of g] intro: signs_shape)
qed

lemma keeps_alphanum_to_alphanum: "keeps f g (cob_move_alphanum_to_alphanum f g)"
  unfolding keeps_def cob_move_alphanum_to_alphanum_def
  by (auto simp: Let_def fsize_def intro!: set_data_shape)

lemma keeps_display_to_packed: "keeps f g (cob_move_display_to_packed M f g)"
  unfolding keeps_def cob_move_display_to_packed_def
  by (auto simp: bind_eq_Some_conv Let_def intro: signs_shape intro!: set_data_shape dest!: pack_chars_length wri_length)

lemma keeps_display_to_fp: "keeps f g (cob_move_display_to_fp E M f g)"
  unfolding keeps_def
proof (intro allI impI)
  fix f' g' assume "cob_move_display_to_fp E M f g = Some (f', g')"
  then obtain s bs p where "cob_get_sign M f = Some (s, f')" "wrs (fdata g) 0 bs = Some p" "g' = set_data g p"
    by (auto simp: cob_move_display_to_fp_def bind_eq_Some_conv Let_def split del: if_split)
  then show "same_shape f f' \<and> same_shape g g'"
    using wrs_length by (auto simp: fsize_def intro: get_sign_shape intro!: set_data_shape)
qed

lemma keeps_display_to_edited: "keeps f g (cob_move_display_to_edited M f g)"
  unfolding keeps_def
proof (intro allI impI)
  fix f' g' assume m: "cob_move_display_to_edited M f g = Some (f', g')"
  obtain n pl where c: "count_places M 0 True True (field_pic g) = (n, pl)" by fastforce
  let ?e = "\<lambda>f1. \<lparr>ed_out = fdata g, ed_dst = 0, ed_end = int (fsize g),
      ed_src = int (length (field_bytes f1)) - field_scale f1 - int n, ed_point = None,
      ed_pad = chr_space, ed_is_zero = True, ed_suppress = True, ed_trail_sign = False, ed_trail_curr = False,
      ed_sign_first = False, ed_sign_symbol = 0, ed_curr_symbol = 0\<rparr>"
  from m obtain s f1 e out where "cob_get_sign M f = Some (s, f1)" "cob_put_sign M f1 s = Some f'"
    "ed_picture M (field_bytes f1) (s < 0) pl (field_pic g) (?e f1) = Some e"
    "ed_finish M (blank_zero g) e = Some out" "g' = set_data g out"
    by (auto simp: cob_move_display_to_edited_def bind_eq_Some_conv c Let_def)
  then show "same_shape f f' \<and> same_shape g g'"
    using ed_picture_length ed_finish_length by (auto simp: fsize_def intro: signs_shape intro!: set_data_shape)
qed

lemma keeps_alphanum_to_edited: "keeps f g (cob_move_alphanum_to_edited M f g)"
  unfolding keeps_def
proof (intro allI impI)
  fix f' g' assume "cob_move_alphanum_to_edited M f g = Some (f', g')"
  then obtain s f1 bs p where "cob_get_sign M f = Some (s, f1)" "cob_put_sign M f1 s = Some f'"
    "wrs (fdata g) 0 bs = Some p" "g' = set_data g p"
    by (auto simp: cob_move_alphanum_to_edited_def bind_eq_Some_conv)
  then show "same_shape f f' \<and> same_shape g g'"
    using wrs_length by (auto simp: fsize_def intro: signs_shape intro!: set_data_shape)
qed

lemma mset_shape: "cob_binary_mset_int64 T g v = Some g' \<Longrightarrow> same_shape g g'"
  unfolding cob_binary_mset_int64_def cob_binary_set_int64_def
  by (auto simp: bind_eq_Some_conv obj_out_def rds_def fsize_def intro!: set_data_shape split: if_splits)

lemma keeps_display_to_binary: "keeps f g (cob_move_display_to_binary T M f g)"
  unfolding keeps_def
proof (intro allI impI)
  fix f' g' assume "cob_move_display_to_binary T M f g = Some (f', g')"
  then obtain s f1 v where "cob_get_sign M f = Some (s, f1)" "cob_put_sign M f1 s = Some f'"
    "cob_binary_mset_int64 T g v = Some g'"
    by (auto simp: cob_move_display_to_binary_def bind_eq_Some_conv Let_def split del: if_split)
  then show "same_shape f f' \<and> same_shape g g'" using mset_shape by (auto intro: signs_shape)
qed

text \<open>The conversions to DISPLAY: their sources.\<close>

lemma keeps_to_display:
  assumes "has_room g"
  shows "keeps f g (cob_move_alphanum_to_display M f g)" "keeps f g (cob_move_display_to_display M f g)"
    "keeps f g (cob_move_packed_to_display M f g)" "keeps f g (cob_move_binary_to_display T M f g)"
    "keeps f g (cob_move_fp_to_display E M f g)" "keeps f g (cob_move_edited_to_display M f g)"
proof -
  note shape = move_to_display_shape [OF assms]
  show "keeps f g (cob_move_display_to_display M f g)"
    unfolding keeps_def using shape(2)
    by (auto simp: cob_move_display_to_display_def bind_eq_Some_conv Let_def intro: signs_shape)
  show "keeps f g (cob_move_packed_to_display M f g)"
    unfolding keeps_def using shape(3) by (auto simp: cob_move_packed_to_display_def bind_eq_Some_conv Let_def intro: get_sign_shape split del: if_split)
  show "keeps f g (cob_move_binary_to_display T M f g)"
    unfolding keeps_def using shape(4) by (auto simp: cob_move_binary_to_display_def bind_eq_Some_conv Let_def split: if_splits prod.splits)
  show "keeps f g (cob_move_fp_to_display E M f g)"
    unfolding keeps_def using shape(5) by (auto simp: cob_move_fp_to_display_def bind_eq_Some_conv Let_def split: prod.splits)
  show "keeps f g (cob_move_edited_to_display M f g)"
    unfolding keeps_def using shape(6) by (auto simp: cob_move_edited_to_display_def bind_eq_Some_conv Let_def split: if_splits prod.splits)
  show "keeps f g (cob_move_alphanum_to_display M f g)"
    unfolding keeps_def using shape(1)
    by (auto simp: cob_move_alphanum_to_display_def bind_eq_Some_conv Let_def intro: signs_shape split: if_splits prod.splits option.splits)
qed

section \<open>The dispatcher\<close>

lemma keep_source: "map_option (apfst (If False f)) r = r"
  by (cases r) (auto simp: apfst_def map_prod_def split: prod.split)

lemma keeps_aside: "keeps h g r \<Longrightarrow> keeps f g (map_option (apfst (If True f)) r)"
  by (auto simp: keeps_def same_shape_def)

text \<open>Through the temporary item: the source of the first conversion and the target of the second.\<close>

lemma keeps_indirect:
  assumes "\<And>t. has_room t \<Longrightarrow> keeps f t (func f t)"
    and "\<And>f' bs. indirect_temp func f sz s = Some (f', bs) \<Longrightarrow> keeps (display_temp n k bs) g (cob_move T E M (display_temp n k bs) g)"
  shows "keeps f g (do { (f', bs) \<leftarrow> indirect_temp func f sz s; (_, g') \<leftarrow> cob_move T E M (display_temp n k bs) g; Some (f', g') })"
  unfolding keeps_def
proof (intro allI impI)
  fix f1 g1 assume "do { (f', bs) \<leftarrow> indirect_temp func f sz s; (_, g') \<leftarrow> cob_move T E M (display_temp n k bs) g; Some (f', g') } = Some (f1, g1)"
  then obtain bs h where b: "indirect_temp func f sz s = Some (f1, bs)" "cob_move T E M (display_temp n k bs) g = Some (h, g1)"
    by (auto simp: bind_eq_Some_conv)
  let ?t = "cob_fld COB_TYPE_NUMERIC_DISPLAY sz s COB_FLAG_HAVE_SIGN [] (replicate sz 0)"
  have "has_room ?t" by (rule plain_has_room) simp
  from assms(1) [OF this] b(1) have "same_shape f f1" by (auto simp: indirect_temp_def keeps_def split: if_splits)
  then show "same_shape f f1 \<and> same_shape g g1" using assms(2) [OF b(1)] b(2) by (auto simp: keeps_def)
qed

lemma keeps_indirect_aside:
  assumes "\<And>f' bs. indirect_temp func h sz s = Some (f', bs) \<Longrightarrow> keeps (display_temp n k bs) g (cob_move T E M (display_temp n k bs) g)"
  shows "keeps f g (do { (f', bs) \<leftarrow> indirect_temp func h sz s; (_, g') \<leftarrow> cob_move T E M (display_temp n k bs) g; Some (f, g') })"
  unfolding keeps_def
proof (intro allI impI)
  fix f1 g1 assume "do { (f', bs) \<leftarrow> indirect_temp func h sz s; (_, g') \<leftarrow> cob_move T E M (display_temp n k bs) g; Some (f, g') } = Some (f1, g1)"
  then obtain h1 bs h2 where b: "indirect_temp func h sz s = Some (h1, bs)" "cob_move T E M (display_temp n k bs) g = Some (h2, g1)" "f1 = f"
    by (auto simp: bind_eq_Some_conv)
  then show "same_shape f f1 \<and> same_shape g g1" using assms [OF b(1)] by (auto simp: keeps_def)
qed

lemma keeps_if: "(b \<Longrightarrow> keeps f g r) \<Longrightarrow> (\<not> b \<Longrightarrow> keeps f g s) \<Longrightarrow> keeps f g (if b then r else s)"
  by simp

lemma keeps_refl: "keeps f g (Some (f, g))"
  by (simp add: keeps_def)

lemma move_keeps: "has_room dst \<Longrightarrow> keeps src dst (cob_move T E M src dst)"
proof (induction T E M src dst rule: cob_move.induct)
  case (1 T E M src dst)
  note IH = "1.IH" and room = "1.prems"
  note conv = keeps_to_display keeps_display_to_alphanum keeps_alphanum_to_alphanum keeps_display_to_packed keeps_display_to_fp
    keeps_display_to_edited keeps_alphanum_to_edited keeps_display_to_binary
  show ?case
  proof (cases "field_type src = COB_TYPE_ALPHANUMERIC_ALL")
    case True
    then show ?thesis using IH(1) [OF True _ room]
      by (subst cob_move.simps) (fastforce simp: keeps_def bind_eq_Some_conv)
  next
    case na: False
    show ?thesis
    proof (cases "fsize dst = 0")
      case True
      then show ?thesis using na by (subst cob_move.simps) (simp add: keeps_refl)
    next
      case nd: False
      show ?thesis
      proof (cases "fsize src = 0")
        case False
        note IH2 = IH(2-) [simplified False if_False simp_thms]
        show ?thesis
          using na nd False
          by (subst cob_move.simps, simp only: Let_def if_False simp_thms keep_source, intro keeps_if conv room keeps_indirect)
            (assumption | rule room | (rule IH2; (assumption | rule refl TrueI room | (simp; fail))))+
      next
        case True
        have t: "field_type cob_space = COB_TYPE_ALPHANUMERIC_ALL" by (simp add: cob_space_def)
        note IH3 = IH(2-) [simplified True if_True simp_thms t]
        show ?thesis
          using na nd True
          by (subst cob_move.simps, simp only: Let_def t is_fp_def cob_type.distinct if_True if_False simp_thms,
              intro keeps_if conv room keeps_indirect_aside keeps_aside)
            (assumption | rule room conv | (rule IH3; (assumption | rule refl TrueI room | (simp add: t is_fp_def; fail))))+
      qed
    qed
  qed
qed

end
