(* ===== verification/Cob_Picture.thy ===== *)
theory Cob_Picture
  imports Cob_Move_Shape
begin

text \<open>
  The compiler's reading of a PICTURE string (cobc/tree.c, \<open>cb_build_picture\<close>): the size, digits,
  scale and sign of the item and, for an edited item, the packed picture that MOVE runs over.
  Strings hold no NUL; reading behind the end gives one.
\<close>

section \<open>Pictures\<close>

datatype cb_category = CB_CATEGORY_UNKNOWN | CB_CATEGORY_ALPHABETIC | CB_CATEGORY_ALPHANUMERIC
  | CB_CATEGORY_ALPHANUMERIC_EDITED | CB_CATEGORY_BOOLEAN | CB_CATEGORY_INDEX | CB_CATEGORY_NATIONAL
  | CB_CATEGORY_NATIONAL_EDITED | CB_CATEGORY_NUMERIC | CB_CATEGORY_NUMERIC_EDITED
  | CB_CATEGORY_OBJECT_REFERENCE | CB_CATEGORY_DATA_POINTER | CB_CATEGORY_PROGRAM_POINTER

record cb_picture =
  pc_size :: nat
  pc_digits :: nat
  pc_scale :: int
  pc_have_sign :: nat
  pc_category :: cb_category
  pc_str :: "picture option"

definition PIC_ALPHABETIC :: u8 where "PIC_ALPHABETIC = 0x01"
definition PIC_NUMERIC :: u8 where "PIC_NUMERIC = 0x02"
definition PIC_NATIONAL :: u8 where "PIC_NATIONAL = 0x04"
definition PIC_EDITED :: u8 where "PIC_EDITED = 0x08"

definition PIC_ALPHANUMERIC :: u8 where "PIC_ALPHANUMERIC = PIC_ALPHABETIC OR PIC_NUMERIC"
definition PIC_ALPHABETIC_EDITED :: u8 where "PIC_ALPHABETIC_EDITED = PIC_ALPHABETIC OR PIC_EDITED"
definition PIC_ALPHANUMERIC_EDITED :: u8 where "PIC_ALPHANUMERIC_EDITED = PIC_ALPHANUMERIC OR PIC_EDITED"
definition PIC_NUMERIC_EDITED :: u8 where "PIC_NUMERIC_EDITED = PIC_NUMERIC OR PIC_EDITED"
definition PIC_NATIONAL_EDITED :: u8 where "PIC_NATIONAL_EDITED = PIC_NATIONAL OR PIC_EDITED"

section \<open>Repetitions\<close>

text \<open>
  \<open>count_reps c n al r\<close>: \<open>r\<close> is what follows the character \<open>c\<close>, of which \<open>n\<close> have been read;
  \<open>al\<close> counts the digits between parentheses, of which nine are allowed in the whole string.
\<close>

definition paren_count :: "nat \<Rightarrow> bytes \<Rightarrow> (nat \<times> nat \<times> bytes) option" where
  "paren_count al r =
    (let r = dropWhile (\<lambda>b. b = chr_0) r; ds = takeWhile isdigit r; r = dropWhile isdigit r; al = al + length ds in
     if 9 < al then None
     else case r of
       b # r \<Rightarrow> if b = 0x29 \<and> 0 < dec_val ds then Some (nat (dec_val ds), al, r) else None
     | [] \<Rightarrow> None)"

lemma paren_count_shorter: "paren_count al r = Some (i, al', r') \<Longrightarrow> length r' < length r"
proof -
  assume p: "paren_count al r = Some (i, al', r')"
  let ?r = "dropWhile isdigit (dropWhile (\<lambda>b. b = chr_0) r)"
  have "length ?r \<le> length r" by (meson length_dropWhile_le order_trans)
  moreover have "length r' < length ?r" using p by (auto simp: paren_count_def Let_def split: list.splits if_splits)
  ultimately show ?thesis by linarith
qed

function count_reps :: "u8 \<Rightarrow> nat \<Rightarrow> nat \<Rightarrow> bytes \<Rightarrow> (nat \<times> nat \<times> bytes) option" where
  "count_reps c n al r =
    (case r of
       [] \<Rightarrow> Some (n, al, [])
     | b # r' \<Rightarrow>
       if b = c then count_reps c (Suc n) al r'
       else if b = 0x28 then
         (case paren_count al r' of
            None \<Rightarrow> None
          | Some (i, al', r'') \<Rightarrow> count_reps c (n + i - 1) al' r'')
       else Some (n, al, r))"
  by pat_completeness auto

termination
  by (relation "measure (\<lambda>(c, n, al, r). length r)") (auto dest: paren_count_shorter)

declare count_reps.simps [simp del]

section \<open>One character\<close>

text \<open>The variables of the loop; \<open>ps_buff\<close> is the buffer, as a list of characters and counts.\<close>

record pic_state =
  ps_p_seen :: bool
  ps_s_seen :: bool
  ps_cur_seen :: bool
  ps_category :: u8
  ps_size :: nat
  ps_digits :: nat
  ps_scale :: int
  ps_s_count :: nat
  ps_v_count :: nat
  ps_buff :: picture

definition pic_cat :: "u8 \<Rightarrow> pic_state \<Rightarrow> pic_state" where
  "pic_cat k S = S\<lparr>ps_category := ps_category S OR k\<rparr>"

definition sp_seen :: "pic_state \<Rightarrow> bool" where
  "sp_seen S \<longleftrightarrow> ps_s_seen S \<or> ps_p_seen S"

definition has_alphabetic :: "pic_state \<Rightarrow> bool" where
  "has_alphabetic S \<longleftrightarrow> ps_category S AND PIC_ALPHABETIC \<noteq> 0"

text \<open>A letter of text: \<open>A\<close>, \<open>X\<close>, \<open>N\<close>, or an insertion character.\<close>

definition pic_plain :: "u8 \<Rightarrow> pic_state \<Rightarrow> pic_state option" where
  "pic_plain k S = (let S = pic_cat k S in if sp_seen S then None else Some S)"

definition pic_9 :: "nat \<Rightarrow> pic_state \<Rightarrow> pic_state" where
  "pic_9 n S = (let S = pic_cat PIC_NUMERIC S in
     S\<lparr>ps_digits := ps_digits S + n, ps_scale := (if 0 < ps_v_count S then ps_scale S + int n else ps_scale S)\<rparr>)"

definition pic_S :: "nat \<Rightarrow> pic_state \<Rightarrow> pic_state option" where
  "pic_S n S = (let S = pic_cat PIC_NUMERIC S in
     if has_alphabetic S then None
     else let S = S\<lparr>ps_s_count := ps_s_count S + n\<rparr> in
       if 1 < ps_s_count S \<or> ps_buff S \<noteq> [] then None else Some (S\<lparr>ps_s_seen := True\<rparr>))"

definition pic_V :: "nat \<Rightarrow> pic_state \<Rightarrow> pic_state option" where
  "pic_V n S = (let S = pic_cat PIC_NUMERIC S in
     if has_alphabetic S then None
     else let S = S\<lparr>ps_v_count := ps_v_count S + n\<rparr> in if 1 < ps_v_count S then None else Some S)"

definition pic_point :: "u8 \<Rightarrow> u8 \<Rightarrow> nat \<Rightarrow> pic_state \<Rightarrow> pic_state option" where
  "pic_point dp c n S = (let S = pic_cat PIC_NUMERIC_EDITED S in
     if sp_seen S then None else if c \<noteq> dp then Some S else pic_V n S)"

text \<open>The characters stored last; \<open>S\<close> is never stored, so that of the three beginnings two occur.\<close>

definition P_at_beginning :: "picture \<Rightarrow> bool" where
  "P_at_beginning buff =
    (case map fst (rev buff) of
       [] \<Rightarrow> True
     | [b] \<Rightarrow> b = 0x56 \<or> b = 0x53
     | [b, a] \<Rightarrow> a = 0x53 \<and> b = 0x56
     | _ \<Rightarrow> False)"

definition pic_P :: "nat \<Rightarrow> bytes \<Rightarrow> pic_state \<Rightarrow> pic_state option" where
  "pic_P n r S = (let S = pic_cat PIC_NUMERIC S in
     if has_alphabetic S then None
     else if ps_p_seen S then None
     else let at_beginning = P_at_beginning (ps_buff S); at_end = (r = [] \<or> r = [0x56]) in
       if \<not> at_beginning \<and> \<not> at_end then None
       else let v = (if at_beginning then Suc (ps_v_count S) else ps_v_count S) in
         Some (S\<lparr>ps_p_seen := True, ps_v_count := v, ps_digits := ps_digits S + n,
           ps_scale := (if 0 < v then ps_scale S + int n else ps_scale S - int n)\<rparr>))"

definition pic_Z :: "nat \<Rightarrow> pic_state \<Rightarrow> pic_state option" where
  "pic_Z n S = (let S = pic_cat PIC_NUMERIC_EDITED S in
     if has_alphabetic S \<or> sp_seen S then None
     else Some (S\<lparr>ps_digits := ps_digits S + n,
       ps_scale := (if 0 < ps_v_count S then ps_scale S + int n else ps_scale S)\<rparr>))"

definition pic_sign :: "nat \<Rightarrow> pic_state \<Rightarrow> pic_state option" where
  "pic_sign n S = (let S = pic_cat PIC_NUMERIC_EDITED S in
     if has_alphabetic S \<or> sp_seen S then None
     else Some (S\<lparr>ps_digits := ps_digits S + (n - 1) + (if 0 < ps_s_count S then 1 else 0),
       ps_s_count := Suc (ps_s_count S)\<rparr>))"

text \<open>\<open>CR\<close> and \<open>DB\<close>: the second letter must end the string.\<close>

definition pic_credit :: "u8 \<Rightarrow> bytes \<Rightarrow> pic_state \<Rightarrow> pic_state option" where
  "pic_credit b r S = (let S = pic_cat PIC_NUMERIC_EDITED S in
     if r \<noteq> [b] \<or> sp_seen S then None else Some (S\<lparr>ps_s_count := Suc (ps_s_count S)\<rparr>))"

definition pic_currency :: "nat \<Rightarrow> pic_state \<Rightarrow> pic_state" where
  "pic_currency n S = (let S = pic_cat PIC_NUMERIC_EDITED S in
     if \<not> ps_cur_seen S then S\<lparr>ps_digits := ps_digits S + (n - 1), ps_cur_seen := True\<rparr>
     else S\<lparr>ps_digits := ps_digits S + n\<rparr>)"

text \<open>The size of the item grows by the positions of the character, and it is stored.\<close>

definition pic_store :: "u8 \<Rightarrow> nat \<Rightarrow> pic_state \<Rightarrow> pic_state" where
  "pic_store c n S =
    S\<lparr>ps_size := ps_size S + (if c \<noteq> 0x56 \<and> c \<noteq> 0x50 then n else 0) +
        (if c = 0x43 \<or> c = 0x44 \<or> c = 0x4E then n else 0),
      ps_buff := ps_buff S @ [(c, n)]\<rparr>"

definition pic_char :: "u8 \<Rightarrow> u8 \<Rightarrow> u8 \<Rightarrow> nat \<Rightarrow> bytes \<Rightarrow> pic_state \<Rightarrow> (pic_state \<times> bytes) option" where
  "pic_char dp cs c n r S =
    (let stored = map_option (\<lambda>S. (pic_store c n S, r)) in
     if c = 0x41 then stored (pic_plain PIC_ALPHABETIC S)
     else if c = 0x58 then stored (pic_plain PIC_ALPHANUMERIC S)
     else if c = chr_9 then stored (Some (pic_9 n S))
     else if c = 0x4E then stored (pic_plain PIC_NATIONAL S)
     else if c = 0x53 then map_option (\<lambda>S. (S, r)) (pic_S n S)
     else if c = chr_comma \<or> c = chr_dot then stored (pic_point dp c n S)
     else if c = 0x56 then stored (pic_V n S)
     else if c = 0x50 then stored (pic_P n r S)
     else if c = chr_0 \<or> c = 0x42 \<or> c = chr_slash then stored (pic_plain PIC_EDITED S)
     else if c = chr_star \<or> c = 0x5A then stored (pic_Z n S)
     else if c = chr_plus \<or> c = chr_minus then stored (pic_sign n S)
     else if c = 0x43 then map_option (\<lambda>S. (pic_store c n S, tl r)) (pic_credit 0x52 r S)
     else if c = 0x44 then map_option (\<lambda>S. (pic_store c n S, tl r)) (pic_credit 0x42 r S)
     else if c = cs then stored (Some (pic_currency n S))
     else None)"

section \<open>The whole string\<close>

lemma count_reps_shorter: "count_reps c n al r = Some (n', al', r') \<Longrightarrow> length r' \<le> length r"
proof (induction c n al r rule: count_reps.induct)
  case (1 c n al r)
  show ?case
  proof (cases r)
    case Nil
    then show ?thesis using "1.prems" by (simp add: count_reps.simps)
  next
    case (Cons b s)
    consider "b = c" | "b \<noteq> c" "b \<noteq> 0x28" | "b \<noteq> c" "b = 0x28" by blast
    then show ?thesis
    proof cases
      case 1
      then have "length r' \<le> length s" using "1.IH"(1) [OF Cons] "1.prems" Cons by (simp add: count_reps.simps [of c n])
      then show ?thesis using Cons by simp
    next
      case 2
      then show ?thesis using "1.prems" Cons by (simp add: count_reps.simps [of c n])
    next
      case 3
      then obtain i al2 s2 where p: "paren_count al s = Some (i, al2, s2)" "count_reps c (n + i - 1) al2 s2 = Some (n', al', r')"
        using "1.prems" Cons by (auto simp: count_reps.simps [of c n] split: option.splits)
      then have "length r' \<le> length s2" using "1.IH"(2) [OF Cons 3(1)] 3(2) by simp
      then show ?thesis using paren_count_shorter [OF p(1)] Cons by simp
    qed
  qed
qed

lemma pic_char_shorter: "pic_char dp cs c n r S = Some (S', r') \<Longrightarrow> length r' \<le> length r"
  by (auto simp: pic_char_def Let_def split: if_splits)

function pic_loop :: "u8 \<Rightarrow> u8 \<Rightarrow> nat \<Rightarrow> bytes \<Rightarrow> pic_state \<Rightarrow> pic_state option" where
  "pic_loop dp cs al [] S = Some S"
| "pic_loop dp cs al (c # r) S =
    (case count_reps c 1 al r of
       None \<Rightarrow> None
     | Some (n, al, r) \<Rightarrow>
       (case pic_char dp cs c n r S of
          None \<Rightarrow> None
        | Some (S, r) \<Rightarrow> pic_loop dp cs al r S))"
  by pat_completeness auto

termination
  by (relation "measure (\<lambda>(dp, cs, al, r, S). length r)")
    (auto dest!: count_reps_shorter pic_char_shorter)

definition pic_start :: pic_state where
  "pic_start = \<lparr>ps_p_seen = False, ps_s_seen = False, ps_cur_seen = False, ps_category = 0, ps_size = 0,
     ps_digits = 0, ps_scale = 0, ps_s_count = 0, ps_v_count = 0, ps_buff = []\<rparr>"

definition no_picture :: cb_picture where
  "no_picture = \<lparr>pc_size = 0, pc_digits = 0, pc_scale = 0, pc_have_sign = 0,
     pc_category = CB_CATEGORY_UNKNOWN, pc_str = None\<rparr>"

text \<open>The result says with the picture whether an error was reported.\<close>

definition cb_build_picture :: "u8 \<Rightarrow> u8 \<Rightarrow> bytes \<Rightarrow> bool \<times> cb_picture" where
  "cb_build_picture dp cs str =
    (if 50 < length str then (True, no_picture)
     else case pic_loop dp cs 0 str pic_start of
       None \<Rightarrow> (True, no_picture)
     | Some S \<Rightarrow>
       if ps_size S = 0 \<and> 0 < ps_v_count S then (True, no_picture)
       else let pic = no_picture\<lparr>pc_size := ps_size S, pc_digits := ps_digits S mod 256,
              pc_scale := signed_take_bit 7 (ps_scale S), pc_have_sign := ps_s_count S mod 256\<rparr>;
            k = ps_category S in
         if k = PIC_ALPHABETIC then (False, pic\<lparr>pc_category := CB_CATEGORY_ALPHABETIC\<rparr>)
         else if k = PIC_NUMERIC then (36 < ps_digits S, pic\<lparr>pc_category := CB_CATEGORY_NUMERIC\<rparr>)
         else if k = PIC_ALPHANUMERIC \<or> k = PIC_NATIONAL then (False, pic\<lparr>pc_category := CB_CATEGORY_ALPHANUMERIC\<rparr>)
         else if k = PIC_NUMERIC_EDITED then
           (False, pic\<lparr>pc_str := Some (ps_buff S), pc_category := CB_CATEGORY_NUMERIC_EDITED\<rparr>)
         else if k = PIC_EDITED \<or> k = PIC_ALPHABETIC_EDITED \<or> k = PIC_ALPHANUMERIC_EDITED \<or> k = PIC_NATIONAL_EDITED then
           (False, pic\<lparr>pc_str := Some (ps_buff S), pc_category := CB_CATEGORY_ALPHANUMERIC_EDITED\<rparr>)
         else (True, pic))"

end
