(* ===== verification/Cob_Picture_Facts.thy ===== *)
theory Cob_Picture_Facts
  imports Cob_Picture
begin

text \<open>
  The compiler gives an edited item as many characters as its picture has positions, and MOVE
  of a number to it, which runs over the packed picture, stays inside the item. This holds for
  pictures without \<open>P\<close>; one with \<open>P\<close> can make MOVE write behind the item.
\<close>

section \<open>The positions of a picture\<close>

definition width :: "u8 \<times> nat \<Rightarrow> nat" where
  "width p = (if fst p \<noteq> 0x56 \<and> fst p \<noteq> 0x50 then snd p else 0) +
     (if fst p = 0x43 \<or> fst p = 0x44 \<or> fst p = 0x4E then snd p else 0)"

definition credit :: "u8 \<Rightarrow> bool" where
  "credit c \<longleftrightarrow> c = 0x43 \<or> c = 0x44"

lemma paren_count_more:
  assumes "paren_count al r = Some (i, al', r')"
  shows "0 < i" "set r' \<subseteq> set r"
proof -
  let ?r = "dropWhile isdigit (dropWhile (\<lambda>b. b = chr_0) r)"
  have "set ?r \<subseteq> set r" by (meson set_dropWhileD subsetI)
  moreover have "0 < i \<and> ?r = 0x29 # r'" using assms by (auto simp: paren_count_def Let_def split: list.splits if_splits)
  ultimately show "0 < i" "set r' \<subseteq> set r" by auto
qed

lemma count_reps_more:
  "count_reps c n al r = Some (n', al', r') \<Longrightarrow> 0 < n \<Longrightarrow> 0 < n' \<and> set r' \<subseteq> set r"
proof (induction c n al r rule: count_reps.induct)
  case (1 c n al r)
  show ?case
  proof (cases r)
    case Nil
    then show ?thesis using "1.prems" by (simp add: count_reps.simps)
  next
    case (Cons b s)
    consider "b = c" | "b \<noteq> c" "b \<noteq> 0x28" | "b \<noteq> c" "b = 0x28" by blast
    then show ?thesis
    proof cases
      case 1
      then have "0 < n' \<and> set r' \<subseteq> set s" using "1.IH"(1) [OF Cons] "1.prems" Cons by (simp add: count_reps.simps [of c n])
      then show ?thesis using Cons by auto
    next
      case 2
      then show ?thesis using "1.prems" Cons by (simp add: count_reps.simps [of c n])
    next
      case 3
      then obtain i al2 s2 where p: "paren_count al s = Some (i, al2, s2)" "count_reps c (n + i - 1) al2 s2 = Some (n', al', r')"
        using "1.prems" Cons by (auto simp: count_reps.simps [of c n] split: option.splits)
      have "0 < i" "set s2 \<subseteq> set s" by (rule paren_count_more [OF p(1)])+
      moreover have "0 < n' \<and> set r' \<subseteq> set s2" using "1.IH"(2) [OF Cons 3(1)] 3(2) p "1.prems"(2) \<open>0 < i\<close> by simp
      ultimately show ?thesis using Cons by auto
    qed
  qed
qed

lemma pic_char_cases:
  assumes "pic_char dp cs c n r S = Some (S', r')"
  shows "c = 0x53 \<and> ps_buff S' = ps_buff S \<and> ps_size S' = ps_size S \<and> r' = r \<or>
    ps_buff S' = ps_buff S @ [(c, n)] \<and> ps_size S' = ps_size S + width (c, n) \<and> set r' \<subseteq> set r \<and> (credit c \<longrightarrow> r' = [])"
proof -
  define same where "same T \<longleftrightarrow> ps_buff T = ps_buff S \<and> ps_size T = ps_size S" for T :: pic_state
  have cat: "ps_buff (pic_cat k T) = ps_buff T" "ps_size (pic_cat k T) = ps_size T" for k T by (simp_all add: pic_cat_def)
  have keep: "pic_plain k S = Some T \<Longrightarrow> same T" "same (pic_9 n S)" "pic_S n S = Some T \<Longrightarrow> same T"
    "pic_V n S = Some T \<Longrightarrow> same T" "pic_P n r S = Some T \<Longrightarrow> same T" "pic_Z n S = Some T \<Longrightarrow> same T"
    "pic_sign n S = Some T \<Longrightarrow> same T" "pic_credit b r S = Some T \<Longrightarrow> same T" "same (pic_currency n S)" for k T b
    by (auto simp: same_def cat pic_plain_def pic_9_def pic_S_def pic_V_def pic_P_def pic_Z_def pic_sign_def
        pic_credit_def pic_currency_def Let_def split: if_splits)
  have keep_point: "pic_point dp c n S = Some T \<Longrightarrow> same T" for T
    by (auto simp: same_def cat pic_point_def pic_V_def Let_def split: if_splits)
  have credit_end: "tl r = []" if "pic_credit b r S = Some T" for b T
    using that by (auto simp: pic_credit_def Let_def split: if_splits)
  have store: "ps_buff (pic_store c n T) = ps_buff S @ [(c, n)] \<and> ps_size (pic_store c n T) = ps_size S + width (c, n)"
    if "same T" for T
    using that by (simp add: pic_store_def width_def same_def)
  show ?thesis
  proof (cases "c = 0x53")
    case True
    then show ?thesis using assms keep(3) by (auto simp: pic_char_def Let_def same_def)
  next
    case False
    have "\<exists>T. S' = pic_store c n T \<and> same T \<and> (r' = r \<and> \<not> credit c \<or> r' = [])"
    proof (cases "credit c")
      case True
      then obtain b T where "pic_credit b r S = Some T" "S' = pic_store c n T" "r' = tl r"
        using assms by (auto simp: pic_char_def Let_def credit_def)
      then show ?thesis using keep(8) credit_end by blast
    next
      case nc: False
      then show ?thesis using assms False keep(1,2,4-7,9) keep_point
        by (auto simp: pic_char_def Let_def credit_def split: if_splits)
    qed
    then show ?thesis using store by auto
  qed
qed

lemma pic_loop_parts:
  "pic_loop dp cs al r S = Some S' \<Longrightarrow>
   \<exists>q. ps_buff S' = ps_buff S @ q \<and> ps_size S' = ps_size S + sum_list (map width q) \<and>
     (\<forall>p\<in>set q. 0 < snd p \<and> fst p \<in> set r) \<and> (\<forall>p\<in>set (butlast q). \<not> credit (fst p))"
proof (induction dp cs al r S rule: pic_loop.induct)
  case (1 dp cs al S)
  then show ?case by simp
next
  case (2 dp cs al c r S)
  obtain n al2 r2 where c: "count_reps c 1 al r = Some (n, al2, r2)" using "2.prems" by (auto split: option.splits)
  obtain S2 r3 where s: "pic_char dp cs c n r2 S = Some (S2, r3)" "pic_loop dp cs al2 r3 S2 = Some S'"
    using "2.prems" c by (auto split: option.splits)
  obtain q where q: "ps_buff S' = ps_buff S2 @ q" "ps_size S' = ps_size S2 + sum_list (map width q)"
    "\<forall>p\<in>set q. 0 < snd p \<and> fst p \<in> set r3" "\<forall>p\<in>set (butlast q). \<not> credit (fst p)"
    using "2.IH" [OF c refl refl s(1) refl s(2)] by blast
  have n: "0 < n" "set r2 \<subseteq> set r" using count_reps_more [OF c] by simp_all
  from pic_char_cases [OF s(1)] show ?case
  proof
    assume "c = 0x53 \<and> ps_buff S2 = ps_buff S \<and> ps_size S2 = ps_size S \<and> r3 = r2"
    then show ?thesis using q n by (intro exI [of _ q]) auto
  next
    assume a: "ps_buff S2 = ps_buff S @ [(c, n)] \<and> ps_size S2 = ps_size S + width (c, n) \<and> set r3 \<subseteq> set r2 \<and> (credit c \<longrightarrow> r3 = [])"
    have "q = [] \<or> \<not> credit c" using a q(3) by (cases q) auto
    then show ?thesis using a q n by (intro exI [of _ "(c, n) # q"]) (auto split: if_splits)
  qed
qed

text \<open>An edited item as the compiler makes it.\<close>

lemma build_picture_edited:
  assumes "cb_build_picture dp cs str = (err, pic)" "pc_str pic = Some q"
  shows "pc_size pic = sum_list (map width q)" "\<forall>p\<in>set q. 0 < snd p \<and> fst p \<in> set str" "\<forall>p\<in>set (butlast q). \<not> credit (fst p)"
proof -
  obtain S where S: "pic_loop dp cs 0 str pic_start = Some S" "ps_buff S = q" "pc_size pic = ps_size S"
    using assms by (auto simp: cb_build_picture_def no_picture_def Let_def split: if_splits option.splits)
  from pic_loop_parts [OF S(1)] S(2,3) show "pc_size pic = sum_list (map width q)" "\<forall>p\<in>set q. 0 < snd p \<and> fst p \<in> set str"
    "\<forall>p\<in>set (butlast q). \<not> credit (fst p)" by (auto simp: pic_start_def)
qed

section \<open>MOVE runs over the positions\<close>

text \<open>
  The state after \<open>k\<close> positions: \<open>ed_end\<close> has gone back by the trailing signs and currency
  symbols, which come behind the place where a symbol waits to be inserted.
\<close>

definition edit_inv :: "nat \<Rightarrow> nat \<Rightarrow> edit \<Rightarrow> bool" where
  "edit_inv L k e \<longleftrightarrow> length (ed_out e) = L \<and> 0 \<le> ed_dst e \<and> ed_dst e \<le> int k \<and> ed_trail_sign e = ed_trail_curr e \<and>
     0 \<le> int L - ed_end e \<and> (\<not> ed_trail_sign e \<longrightarrow> ed_end e = int L) \<and>
     (ed_sign_symbol e \<noteq> 0 \<or> ed_curr_symbol e \<noteq> 0 \<longrightarrow> int L - ed_end e < ed_dst e)"

lemma edit_inv_more: "edit_inv L k e \<Longrightarrow> k \<le> l \<Longrightarrow> edit_inv L l e"
  by (simp add: edit_inv_def)

lemma ed_put_Some: "0 \<le> ed_dst e \<Longrightarrow> ed_dst e < int (length (ed_out e)) \<Longrightarrow>
    ed_put e b = Some (e\<lparr>ed_out := (ed_out e)[nat (ed_dst e) := b]\<rparr>)"
  by (simp add: ed_put_def wri_def wr_def)

lemma ed_next_cases: "ed_next data e = (x, e') \<Longrightarrow>
    e' = e\<lparr>ed_src := ed_src e + 1\<rparr> \<or> e' = e\<lparr>ed_src := ed_src e + 1, ed_is_zero := False, ed_suppress := False\<rparr>"
  by (auto simp: ed_next_def Let_def split: if_splits)

text \<open>One position more, whatever was put there.\<close>

definition put_good :: "nat \<Rightarrow> nat \<Rightarrow> edit option \<Rightarrow> bool" where
  "put_good L k r \<longleftrightarrow> (\<exists>e. r = Some e \<and> edit_inv L k (e\<lparr>ed_dst := ed_dst e + 1\<rparr>))"

lemma put_good_put: "edit_inv L k (e\<lparr>ed_dst := ed_dst e + 1\<rparr>) \<Longrightarrow> 0 \<le> ed_dst e \<Longrightarrow> ed_dst e < int L \<Longrightarrow> put_good L k (ed_put e b)"
  by (auto simp: put_good_def ed_put_Some edit_inv_def)

lemma put_good_if: "(b \<Longrightarrow> put_good L k r) \<Longrightarrow> (\<not> b \<Longrightarrow> put_good L k s) \<Longrightarrow> put_good L k (if b then r else s)"
  by simp

lemma put_good_next:
  assumes "edit_inv L k e" "k < L"
    and "\<And>x e1. edit_inv L k e1 \<Longrightarrow> 0 \<le> ed_dst e1 \<Longrightarrow> ed_dst e1 < int L \<Longrightarrow> ed_dst e1 = ed_dst e \<Longrightarrow> put_good L (Suc k) (F x e1)"
  shows "put_good L (Suc k) (let (x, e1) = ed_next data e in F x e1)"
proof -
  obtain x e1 where n: "ed_next data e = (x, e1)" by fastforce
  have "edit_inv L k e1" "ed_dst e1 = ed_dst e" using ed_next_cases [OF n] assms(1) by (auto simp: edit_inv_def)
  moreover from this have "0 \<le> ed_dst e1" "ed_dst e1 < int L" using assms(2) by (simp_all add: edit_inv_def)
  ultimately show ?thesis using assms(3) n by simp
qed

lemma ed_char_inv:
  assumes e: "edit_inv L k e" "k < L" and c: "c \<noteq> 0x50" "\<not> credit c" "c \<noteq> 0x56"
  shows "put_good L (Suc k) (ed_char M data neg pl c e)"
proof -
  have r: "0 \<le> ed_dst e" "ed_dst e < int L" using e by (simp_all add: edit_inv_def)
  have n: "\<not> (c = 0x43 \<or> c = 0x44)" "\<not> c = 0x50" "\<not> c = 0x56" using c by (simp_all add: credit_def)
  show ?thesis
    unfolding ed_char_def if_not_P [OF n(1)] if_not_P [OF n(2)] if_not_P [OF n(3)]
    by (intro put_good_if put_good_next [OF e]; (unfold Let_def)?; (intro put_good_if)?; rule put_good_put;
        (use e r in \<open>auto simp: edit_inv_def\<close>))
qed

lemma ed_char_V:
  assumes "edit_inv L k e"
  shows "\<exists>e'. ed_char M data neg pl 0x56 e = Some e' \<and> edit_inv L k (e'\<lparr>ed_dst := ed_dst e' + 1\<rparr>)"
  using assms by (auto simp: ed_char_def edit_inv_def)

lemma ed_repeat_inv:
  assumes "edit_inv L k e" "k + width (c, n) \<le> L" "c \<noteq> 0x50" "\<not> credit c"
  shows "\<exists>e'. ed_repeat M data neg pl c n e = Some e' \<and> edit_inv L (k + width (c, n)) e'"
  using assms
proof (induction n arbitrary: k e)
  case 0
  then show ?case by (simp add: width_def)
next
  case (Suc n)
  show ?case
  proof (cases "c = 0x56")
    case True
    obtain e1 where e1: "ed_char M data neg pl c e = Some e1" "edit_inv L k (e1\<lparr>ed_dst := ed_dst e1 + 1\<rparr>)"
      using ed_char_V [OF Suc.prems(1)] True by blast
    then show ?thesis using Suc.IH [OF e1(2)] Suc.prems True by (simp add: width_def)
  next
    case False
    have w: "width (c, Suc n) = Suc (width (c, n)) \<or> width (c, Suc n) = Suc (Suc (width (c, n)))"
      using False Suc.prems(3) by (simp add: width_def)
    then have "k < L" "Suc k + width (c, n) \<le> L" "Suc k + width (c, n) \<le> k + width (c, Suc n)" using Suc.prems(2) by auto
    then obtain e1 where e1: "ed_char M data neg pl c e = Some e1" "edit_inv L (Suc k) (e1\<lparr>ed_dst := ed_dst e1 + 1\<rparr>)"
      using ed_char_inv [OF Suc.prems(1) _ Suc.prems(3,4) False, of M data neg pl] by (auto simp: put_good_def)
    from Suc.IH [OF e1(2) \<open>Suc k + width (c, n) \<le> L\<close> Suc.prems(3,4)] obtain e'
      where "ed_repeat M data neg pl c n (e1\<lparr>ed_dst := ed_dst e1 + 1\<rparr>) = Some e'" "edit_inv L (Suc k + width (c, n)) e'" by blast
    then show ?thesis using e1(1) edit_inv_more [OF _ \<open>Suc k + width (c, n) \<le> k + width (c, Suc n)\<close>] by auto
  qed
qed

text \<open>The state at the end, when the symbols are inserted.\<close>

definition edit_done :: "nat \<Rightarrow> edit \<Rightarrow> bool" where
  "edit_done L e \<longleftrightarrow> length (ed_out e) = L \<and> ed_end e \<le> int L \<and>
     (ed_sign_symbol e \<noteq> 0 \<or> ed_curr_symbol e \<noteq> 0 \<longrightarrow> 1 \<le> ed_end e)"

lemma edit_inv_done: "edit_inv L k e \<Longrightarrow> k \<le> L \<Longrightarrow> edit_done L e"
  by (auto simp: edit_inv_def edit_done_def)

lemma ed_char_credit:
  assumes "length (ed_out e) = L" "0 \<le> ed_dst e" "ed_dst e + 2 \<le> int L" "credit c"
    and "ed_sign_symbol e \<noteq> 0 \<or> ed_curr_symbol e \<noteq> 0 \<longrightarrow> 1 \<le> ed_dst e"
  obtains e' where "ed_char M data neg pl c e = Some e'" "length (ed_out e') = L" "ed_dst e' = ed_dst e + 1" "edit_done L e'"
    "ed_sign_symbol e' = ed_sign_symbol e" "ed_curr_symbol e' = ed_curr_symbol e"
proof -
  obtain a b where ab: "(if neg then if c = 0x43 then (0x43, 0x52) else (0x44, 0x42) else (chr_space, chr_space)) = (a, b)"
    by (metis surj_pair)
  have n: "c \<noteq> chr_0" "c \<noteq> chr_slash" "c \<noteq> 0x42" "c \<noteq> 0x50" "c \<noteq> chr_9" "c \<noteq> 0x56" "c \<noteq> chr_dot" "c \<noteq> chr_comma" "c = 0x43 \<or> c = 0x44"
    using assms(4) by (auto simp: credit_def)
  have "\<exists>e'. ed_char M data neg pl c e = Some e' \<and> length (ed_out e') = L \<and> ed_dst e' = ed_dst e + 1 \<and> edit_done L e' \<and>
    ed_sign_symbol e' = ed_sign_symbol e \<and> ed_curr_symbol e' = ed_curr_symbol e"
    unfolding ed_char_def ab using n assms by (auto simp: ed_put_Some edit_done_def)
  then show ?thesis using that by blast
qed

lemma ed_repeat_credit:
  assumes "length (ed_out e) = L" "0 \<le> ed_dst e" "ed_dst e + 2 * int n \<le> int L" "credit c" "0 < n"
    and "ed_sign_symbol e \<noteq> 0 \<or> ed_curr_symbol e \<noteq> 0 \<longrightarrow> 1 \<le> ed_dst e"
  shows "\<exists>e'. ed_repeat M data neg pl c n e = Some e' \<and> edit_done L e'"
  using assms
proof (induction n arbitrary: e)
  case (Suc n)
  have "ed_dst e + 2 \<le> int L" using Suc.prems(3) by simp
  from ed_char_credit [OF Suc.prems(1,2) this Suc.prems(4,6)]
  obtain e1 where e1: "ed_char M data neg pl c e = Some e1" "length (ed_out e1) = L" "ed_dst e1 = ed_dst e + 1" "edit_done L e1"
    "ed_sign_symbol e1 = ed_sign_symbol e" "ed_curr_symbol e1 = ed_curr_symbol e" by metis
  show ?case
  proof (cases "n = 0")
    case True
    then show ?thesis using e1 by (simp add: edit_done_def)
  next
    case False
    then show ?thesis using Suc.IH [of "e1\<lparr>ed_dst := ed_dst e1 + 1\<rparr>"] Suc.prems e1 by simp
  qed
qed simp

lemma ed_picture_inv:
  assumes "edit_inv L k e" "k + sum_list (map width q) \<le> L" "\<forall>p\<in>set q. fst p \<noteq> 0x50 \<and> 0 < snd p" "\<forall>p\<in>set (butlast q). \<not> credit (fst p)"
  shows "\<exists>e'. ed_picture M data neg pl q e = Some e' \<and> edit_done L e'"
  using assms
proof (induction q arbitrary: k e)
  case Nil
  then show ?case using edit_inv_done by simp
next
  case (Cons p q)
  obtain c n where p: "p = (c, n)" by force
  show ?case
  proof (cases "credit c")
    case True
    then have "q = []" using Cons.prems(4) p by (auto split: if_splits)
    have "width (c, n) = 2 * n" using True by (auto simp: width_def credit_def)
    then have "ed_dst e + 2 * int n \<le> int L" using Cons.prems(1,2) p by (simp add: edit_inv_def)
    moreover have "ed_sign_symbol e \<noteq> 0 \<or> ed_curr_symbol e \<noteq> 0 \<longrightarrow> 1 \<le> ed_dst e" using Cons.prems(1) by (auto simp: edit_inv_def)
    ultimately show ?thesis
      using ed_repeat_credit [of e L n c M data neg pl] Cons.prems(1,3) p True \<open>q = []\<close> by (auto simp: edit_inv_def)
  next
    case False
    have "k + width (c, n) \<le> L" using Cons.prems(2) p by simp
    then obtain e1 where e1: "ed_repeat M data neg pl c n e = Some e1" "edit_inv L (k + width (c, n)) e1"
      using ed_repeat_inv [OF Cons.prems(1) _ _ False, of n M data neg pl] Cons.prems(3) p by auto
    have "\<forall>p\<in>set (butlast q). \<not> credit (fst p)" using Cons.prems(4) by (cases q) auto
    then show ?thesis using Cons.IH [OF e1(2)] Cons.prems(2,3) e1(1) p by (simp add: add.assoc)
  qed
qed

lemma find_blank_le: "find_blank out n \<le> n"
  by (induction n) simp_all

lemma wri_Some: "0 \<le> i \<Longrightarrow> i < int (length bs) \<Longrightarrow> \<exists>out. wri bs i b = Some out \<and> length out = length bs"
  by (simp add: wri_def wr_def nat_less_iff)

lemma put_symbols_Some:
  assumes "edit_done L e"
  shows "\<exists>e'. put_symbols e = Some e'"
proof (cases "ed_sign_symbol e = 0 \<and> ed_curr_symbol e = 0")
  case True
  then show ?thesis by (simp add: put_symbols_def)
next
  case False
  let ?pos = "if ed_end e - 1 > 0 then int (find_blank (ed_out e) (nat (ed_end e - 1))) else ed_end e - 1"
  have d: "1 \<le> ed_end e" "ed_end e \<le> int (length (ed_out e))" using assms False by (auto simp: edit_done_def)
  have "int (find_blank (ed_out e) (nat (ed_end e - 1))) \<le> ed_end e - 1" using find_blank_le [of "ed_out e" "nat (ed_end e - 1)"] d by simp
  then have p: "0 \<le> ?pos" "?pos < int (length (ed_out e))" using d by auto
  obtain a b where ab: "(if ed_sign_symbol e \<noteq> 0 \<and> ed_curr_symbol e \<noteq> 0 then
            if ed_sign_first e then (ed_curr_symbol e, Some (ed_sign_symbol e)) else (ed_sign_symbol e, Some (ed_curr_symbol e))
          else if ed_sign_symbol e \<noteq> 0 then (ed_sign_symbol e, None) else (ed_curr_symbol e, None)) = (a, b)"
    by (metis surj_pair)
  obtain out where o1: "wri (ed_out e) ?pos a = Some out" "length out = length (ed_out e)"
    using wri_Some [OF p] by blast
  have second: "\<exists>o2. (case b of Some s \<Rightarrow> if q - 1 \<ge> 0 then wri out (q - 1) s else Some out | None \<Rightarrow> Some out) = Some o2"
    if "q < int (length out)" for q
  proof (cases "0 \<le> q - 1")
    case True
    then have "\<exists>o2. wri out (q - 1) s = Some o2" for s using that wri_Some [of "q - 1" out s] by auto
    then show ?thesis using True by (simp split: option.split)
  qed (simp split: option.split)
  have "?pos < int (length out)" using p(2) o1(2) by simp
  from second [OF this] obtain o2 where
    "(case b of Some s \<Rightarrow> if ?pos - 1 \<ge> 0 then wri out (?pos - 1) s else Some out | None \<Rightarrow> Some out) = Some o2" by blast
  then show ?thesis unfolding put_symbols_def ab Let_def using False o1(1) by auto
qed

lemma ed_finish_Some:
  assumes "edit_done L e"
  shows "\<exists>out. ed_finish M bz e = Some out"
proof -
  have z: "edit_done L (e\<lparr>ed_out := zero_fill a b (ed_out e)\<rparr>)" for a b
    using assms by (simp add: edit_done_def zero_fill_def)
  then have "\<exists>e'. put_symbols (case ed_point e of None \<Rightarrow> e | Some q \<Rightarrow> e\<lparr>ed_out := zero_fill (q + 1) (ed_end e) (ed_out e)\<rparr>) = Some e'"
    using put_symbols_Some [OF assms] put_symbols_Some [OF z] by (cases "ed_point e") simp_all
  then show ?thesis by (auto simp: ed_finish_def Let_def)
qed

section \<open>MOVE to an edited item\<close>

text \<open>An edited item whose size is that of its picture, and whose picture has no \<open>P\<close>.\<close>

definition edited_item :: "cob_field \<Rightarrow> bool" where
  "edited_item f \<longleftrightarrow> field_type f = COB_TYPE_NUMERIC_EDITED \<and> fsize f = sum_list (map width (field_pic f)) \<and> 0 < fsize f \<and>
     (\<forall>p\<in>set (field_pic f). fst p \<noteq> 0x50 \<and> 0 < snd p) \<and> (\<forall>p\<in>set (butlast (field_pic f)). \<not> credit (fst p))"

lemma edited_item_sel: "edited_item f \<Longrightarrow> fsize f \<noteq> 0" "edited_item f \<Longrightarrow> field_type f = COB_TYPE_NUMERIC_EDITED"
  unfolding edited_item_def by (metis less_numeral_extra(3)) (elim conjE)

lemma display_to_edited_Some:
  assumes v: "num_val T M f1 = Some v" "field_type f1 = COB_TYPE_NUMERIC_DISPLAY" and f2: "edited_item f2"
  shows "\<exists>g1 g2. cob_move_display_to_edited M f1 f2 = Some (g1, g2) \<and> num_val T M g1 = Some v"
proof -
  obtain s h where h: "wf_field f1" "cob_get_sign M f1 = Some (s, h)" "all_digits (field_bytes h)" "v = signed_val s (field_bytes h)"
    by (rule num_valE [OF v])
  obtain g1 where g1: "cob_put_sign M h s = Some g1" "num_val T M g1 = Some v"
    using put_back_sign [OF h(1) v(2) h(2,3), of T] h(4) by blast
  obtain n pl where c: "count_places M 0 True True (field_pic f2) = (n, pl)" by fastforce
  let ?e = "\<lparr>ed_out = fdata f2, ed_dst = 0, ed_end = int (fsize f2),
      ed_src = int (length (field_bytes h)) - field_scale h - int n, ed_point = None,
      ed_pad = chr_space, ed_is_zero = True, ed_suppress = True, ed_trail_sign = False, ed_trail_curr = False,
      ed_sign_first = False, ed_sign_symbol = 0, ed_curr_symbol = 0\<rparr>"
  have "edit_inv (fsize f2) 0 ?e" by (simp add: edit_inv_def fsize_def)
  then obtain e where e: "ed_picture M (field_bytes h) (s < 0) pl (field_pic f2) ?e = Some e" "edit_done (fsize f2) e"
    using ed_picture_inv [of "fsize f2" 0 ?e "field_pic f2" M "field_bytes h" "s < 0" pl] f2 by (auto simp: edited_item_def)
  obtain out where "ed_finish M (blank_zero f2) e = Some out" using ed_finish_Some [OF e(2)] by blast
  then show ?thesis using h(2) c e(1) g1 by (simp add: cob_move_display_to_edited_def Let_def)
qed

text \<open>From the other usages the number goes through a temporary item.\<close>

lemma through_temp_to_edited:
  assumes cv: "\<And>t. wf_field t \<Longrightarrow> field_type t = COB_TYPE_NUMERIC_DISPLAY \<Longrightarrow>
      \<exists>g. func f1 t = Some (f1, g) \<and> same_shape t g \<and> num_val T M g = Some (move_result t v (field_scale t - field_scale f1))"
    and sz: "0 < sz" "sz \<le> 64" and v: "num_val T M f1 = Some v" and f2: "edited_item f2"
  shows "\<exists>g1 g2. (do { (s', t) \<leftarrow> indirect_temp func f1 sz (field_scale f1);
     (_, d) \<leftarrow> cob_move T E M (display_temp sz (field_scale f1) t) f2; Some (s', d) }) = Some (g1, g2) \<and> num_val T M g1 = Some v"
proof -
  let ?t = "cob_fld COB_TYPE_NUMERIC_DISPLAY sz (field_scale f1) COB_FLAG_HAVE_SIGN [] (replicate sz 0)"
  have "wf_field ?t" using sz(1) by (simp add: wf_field_def data_size_def)
  then obtain g where g: "func f1 ?t = Some (f1, g)" "same_shape ?t g" "\<exists>w. num_val T M g = Some w" using cv [of ?t] by auto
  obtain w where w: "num_val T M g = Some w" using g(3) by blast
  have gd: "display_temp sz (field_scale f1) (fdata g) = g" by (rule display_temp_shape [OF g(2)])
  have "fsize f2 \<noteq> 0" "field_type f2 = COB_TYPE_NUMERIC_EDITED" by (rule edited_item_sel [OF f2])+
  then have t: "field_type g = COB_TYPE_NUMERIC_DISPLAY" "fsize g \<noteq> 0" "fsize f2 \<noteq> 0" "field_type f2 = COB_TYPE_NUMERIC_EDITED"
    using g(2) sz(1) by (auto simp: same_shape_def field_sel cob_fld_def)
  then have "cob_move T E M g f2 = cob_move_display_to_edited M g f2" by (subst cob_move.simps) (simp add: is_fp_def)
  then obtain g1 g2 where "cob_move T E M g f2 = Some (g1, g2)" using display_to_edited_Some [OF w t(1) f2] by auto
  moreover have "indirect_temp func f1 sz (field_scale f1) = Some (f1, fdata g)" using g(1) sz(2) by (simp add: indirect_temp_def)
  ultimately show ?thesis using v by (simp add: gd)
qed

lemma move_to_edited:
  assumes v: "num_val T M f1 = Some v" and d: "field_type f1 = COB_TYPE_NUMERIC_PACKED \<longrightarrow> field_digits f1 \<le> 64" and f2: "edited_item f2"
  shows "\<exists>g1 g2. cob_move T E M f1 f2 = Some (g1, g2) \<and> num_val T M g1 = Some v"
proof -
  have n: "fsize f1 \<noteq> 0" "fsize f2 \<noteq> 0" "field_type f2 = COB_TYPE_NUMERIC_EDITED" "num_type (field_type f1)"
    using num_val_size [OF v] edited_item_sel [OF f2] by simp_all
  then consider "field_type f1 = COB_TYPE_NUMERIC_DISPLAY" | "field_type f1 = COB_TYPE_NUMERIC_PACKED"
    | "field_type f1 = COB_TYPE_NUMERIC_BINARY" by (auto simp: num_type_def)
  then show ?thesis
  proof cases
    case 1
    then have "cob_move T E M f1 f2 = cob_move_display_to_edited M f1 f2" using n by (subst cob_move.simps) (simp add: is_fp_def)
    then show ?thesis using display_to_edited_Some [OF v 1 f2] by simp
  next
    case 2
    then have m: "cob_move T E M f1 f2 = do {
        (s', t) \<leftarrow> indirect_temp (cob_move_packed_to_display M) f1 (field_digits f1) (field_scale f1);
        (_, d) \<leftarrow> cob_move T E M (display_temp (field_digits f1) (field_scale f1) t) f2; Some (s', d) }"
      using n by (subst cob_move.simps) simp
    have "0 < field_digits f1" "field_digits f1 \<le> 64" using v 2 d by (auto simp: num_val_def wf_packed_def split: if_splits)
    then show ?thesis
      unfolding m by (intro through_temp_to_edited [where func = "cob_move_packed_to_display M", OF packed_to_display_num [OF v 2]]) (use v f2 in simp_all)
  next
    case 3
    then have m: "cob_move T E M f1 f2 = do {
        (s', t) \<leftarrow> indirect_temp (cob_move_binary_to_display T M) f1 20 (field_scale f1);
        (_, d) \<leftarrow> cob_move T E M (display_temp 20 (field_scale f1) t) f2; Some (s', d) }"
      using n by (subst cob_move.simps) (simp add: other_numeric_def)
    show ?thesis
      unfolding m by (rule through_temp_to_edited [where func = "cob_move_binary_to_display T M", OF binary_to_display_num [OF v 3]]) (use v f2 in simp_all)
  qed
qed

text \<open>The item that the compiler declares for a picture without \<open>P\<close>.\<close>

lemma compiled_edited_item:
  assumes pic: "cb_build_picture dp cs str = (False, pic)" "pc_category pic = CB_CATEGORY_NUMERIC_EDITED" "0x50 \<notin> set str"
    and f: "field_type f = COB_TYPE_NUMERIC_EDITED" "pc_str pic = Some (field_pic f)" "fsize f = pc_size pic" "0 < fsize f"
  shows "edited_item f"
  using build_picture_edited [OF pic(1) f(2)] pic(3) f by (auto simp: edited_item_def)

text \<open>\<open>PIC VPP$9\<close>: the compiler gives it two characters, and MOVE writes behind them.\<close>

lemma P_overflow:
  "cb_build_picture chr_dot 0x24 [0x56, 0x50, 0x50, 0x24, 0x39] =
     (False, \<lparr>pc_size = 2, pc_digits = 3, pc_scale = 3, pc_have_sign = 0, pc_category = CB_CATEGORY_NUMERIC_EDITED,
       pc_str = Some [(0x56, 1), (0x50, 2), (0x24, 1), (0x39, 1)]\<rparr>)"
  "cob_move_display_to_edited default_module (cob_fld COB_TYPE_NUMERIC_DISPLAY 1 0 0 [] [0x35])
     (cob_fld COB_TYPE_NUMERIC_EDITED 3 3 0 [(0x56, 1), (0x50, 2), (0x24, 1), (0x39, 1)] [0, 0]) = None"
  by code_simp+

end
