(* ===== verification/Cob_Move_Safe.thy ===== *)
theory Cob_Move_Safe
  imports Cob_Move_Shape Cob_Picture_Facts
begin

text \<open>
  MOVE is type safe. A well-formed item is one whose declaration (usage, digits, scale, picture,
  size) is consistent; its contents may be anything. MOVE between well-formed items gets stuck
  nowhere (progress: every write of every conversion, and every read whose value matters, stays
  inside its storage and every loop ends) and leaves well-formed items (preservation). The loop that
  packs digits also fetches characters beside the source, which it then does not use.
\<close>

section \<open>Signs\<close>

definition sign_ok :: "cob_field \<Rightarrow> bool" where
  "sign_ok f \<longleftrightarrow> (field_type f = COB_TYPE_NUMERIC_DISPLAY \<longrightarrow> wf_field f) \<and> (field_type f = COB_TYPE_NUMERIC_PACKED \<longrightarrow> 0 < fsize f)"

lemma shape_sel:
  assumes "same_shape f g"
  shows "field_type g = field_type f" "field_digits g = field_digits f" "field_scale g = field_scale f" "field_pic g = field_pic f"
    "have_sign g = have_sign f" "sign_separate g = sign_separate f" "real_binary g = real_binary f" "fsize g = fsize f"
    "data_size g = data_size f" "data_off g = data_off f" "wf_field g = wf_field f" "wf_binary g = wf_binary f"
  using assms by (simp_all add: same_shape_def field_type_def field_digits_def field_scale_def field_pic_def have_sign_def
    sign_separate_def real_binary_def data_size_def data_off_def sign_leading_def wf_field_def wf_binary_def)

lemma sign_ok_shape: "same_shape f g \<Longrightarrow> sign_ok g = sign_ok f"
  by (simp add: sign_ok_def shape_sel)

lemma get_sign_goes: "sign_ok f \<Longrightarrow> \<exists>s g. cob_get_sign M f = Some (s, g)"
  using sign_pos_room [of f]
  by (cases "field_type f") (auto simp: cob_get_sign_def cob_real_get_sign_def sign_ok_def rd_def wr_def fsize_def Let_def split: prod.split)

lemma put_sign_goes: "sign_ok f \<Longrightarrow> \<exists>g. cob_put_sign M f s = Some g"
  using sign_pos_room [of f]
  by (cases "field_type f") (auto simp: cob_put_sign_def cob_real_put_sign_def sign_ok_def rd_def wr_def fsize_def Let_def)

lemma take_sign:
  assumes "sign_ok f"
  obtains s g where "cob_get_sign M f = Some (s, g)" "same_shape f g" "\<And>g2 t. same_shape g g2 \<Longrightarrow> \<exists>h. cob_put_sign M g2 t = Some h"
proof -
  obtain s g where g: "cob_get_sign M f = Some (s, g)" using get_sign_goes [OF assms] by blast
  have "sign_ok g2" if "same_shape g g2" for g2
    using that get_sign_shape [OF g] assms sign_ok_shape by (metis same_shape_trans)
  with g get_sign_shape [OF g] put_sign_goes that show thesis by metis
qed

lemma wf_sign_ok: "wf_field f \<Longrightarrow> sign_ok f"
  by (auto simp: sign_ok_def wf_field_def data_size_def)

section \<open>To DISPLAY\<close>

lemma store_goes:
  assumes "wf_field g"
  shows "\<exists>h. cob_put_sign M (store_common_region g bs k) s = Some h"
proof -
  have r: "has_room g" by (rule wf_has_room [OF assms])
  have "wf_field (store_common_region g bs k)" using shape_sel(11) [OF store_common_region_shape [OF r]] assms by blast
  then have "sign_ok (store_common_region g bs k)" by (rule wf_sign_ok)
  then show ?thesis by (rule put_sign_goes)
qed

lemma store_not_None: "wf_field g \<Longrightarrow> cob_put_sign M (store_common_region g bs k) s \<noteq> None"
  using store_goes [of g M bs k s] by auto

lemma goesI: "r \<noteq> None \<Longrightarrow> \<exists>a b. r = Some (a, b)"
  by (cases r) auto

lemma display_to_display_goes:
  assumes "sign_ok f" "wf_field g"
  shows "\<exists>f' g'. cob_move_display_to_display M f g = Some (f', g')"
proof -
  obtain s h where h: "cob_get_sign M f = Some (s, h)" "\<And>h2 t. same_shape h h2 \<Longrightarrow> \<exists>k. cob_put_sign M h2 t = Some k"
    using take_sign [OF assms(1), of M] by metis
  obtain k where k: "cob_put_sign M h s = Some k" using h(2) [of h] by auto
  have "cob_move_display_to_display M f g \<noteq> None"
    unfolding cob_move_display_to_display_def h(1) Let_def
    by (simp add: k store_not_None [OF assms(2)] split: Option.bind_split del: not_None_eq)
  then show ?thesis by (rule goesI)
qed

lemma those_exists: "(\<And>x. x \<in> set xs \<Longrightarrow> \<exists>y. f x = Some y) \<Longrightarrow> \<exists>ys. those (map f xs) = Some ys"
  by (induction xs) fastforce+

lemma half_byte_room: "i < d + (1 - d mod 2) \<Longrightarrow> i div 2 < d div 2 + (1 :: nat)"
  by presburger

lemma packed_to_display_goes:
  assumes f: "field_type f = COB_TYPE_NUMERIC_PACKED" "field_digits f \<le> 64" "fsize f = field_digits f div 2 + 1" and g: "wf_field g"
  shows "\<exists>f' g'. cob_move_packed_to_display M f g = Some (f', g')"
proof -
  have "sign_ok f" using f by (simp add: sign_ok_def)
  from get_sign_goes [OF this] obtain s h where h: "cob_get_sign M f = Some (s, h)" by blast
  have hf: "field_digits h = field_digits f" "length (fdata h) = field_digits f div 2 + 1"
    using shape_sel [OF get_sign_shape [OF h]] f(3) by (simp_all add: fsize_def)
  obtain bs where "those (map (\<lambda>i. map_option (\<lambda>b. cob_i2d (if even i then uint (drop_bit 4 b) else uint (b AND 0x0f)))
      (rd (fdata h) (i div 2))) [1 - field_digits h mod 2 ..< field_digits h + (1 - field_digits h mod 2)]) = Some bs"
    using those_exists [where xs = "[1 - field_digits h mod 2 ..< field_digits h + (1 - field_digits h mod 2)]"
      and f = "\<lambda>i. map_option (\<lambda>b. cob_i2d (if even i then uint (drop_bit 4 b) else uint (b AND 0x0f))) (rd (fdata h) (i div 2))"]
      half_byte_room hf by (force simp: rd_def)
  then show ?thesis using h f(2) hf(1) store_goes [OF g, of M bs "field_scale h" s]
    by (auto simp: cob_move_packed_to_display_def Let_def)
qed

lemma binary_to_display_goes:
  assumes "wf_binary f" "wf_field g"
  shows "\<exists>f' g'. cob_move_binary_to_display T M f g = Some (f', g')"
proof (rule goesI)
  obtain n where n: "cob_binary_mget_int64 T f = Some n" using mget_bin_val [OF assms(1), of T] by blast
  show "cob_move_binary_to_display T M f g \<noteq> None"
    unfolding cob_move_binary_to_display_def n Let_def by (simp add: store_not_None [OF assms(2)] split: Option.bind_split del: not_None_eq)
qed

lemma fp_to_display_goes: "wf_field g \<Longrightarrow> \<exists>f' g'. cob_move_fp_to_display E M f g = Some (f', g')"
proof (rule goesI)
  assume g: "wf_field g"
  obtain n d b where p: "fp_print E (field_type f) (fdata f) = (n, d, b)" by (metis surj_pair)
  show "cob_move_fp_to_display E M f g \<noteq> None"
    unfolding cob_move_fp_to_display_def p Let_def by (simp add: store_not_None [OF g] split: Option.bind_split del: not_None_eq)
qed

lemma deedit_length: "deedit M point scale sign bs = (ds, r) \<Longrightarrow> length ds \<le> length bs"
  by (induction M point scale sign bs arbitrary: ds r rule: deedit.induct) (fastforce split: if_splits prod.splits)+

lemma edited_to_display_goes:
  assumes "fsize f \<le> 64" "wf_field g"
  shows "\<exists>f' g'. cob_move_edited_to_display M f g = Some (f', g')"
proof -
  obtain ds p sc sg where d: "deedit M False 0 0 (fdata f) = (ds, p, sc, sg)" by (metis surj_pair)
  have "length ds \<le> 64" using deedit_length [OF d] assms(1) by (simp add: fsize_def)
  then have "cob_move_edited_to_display M f g \<noteq> None"
    unfolding cob_move_edited_to_display_def d Let_def
    by (simp add: store_not_None [OF assms(2)] split: Option.bind_split del: not_None_eq)
  then show ?thesis by (rule goesI)
qed

text \<open>Text: the digits that do not fit are skipped; they are there if the item has as many places before its point.\<close>

lemma skip_digits_goes: "k \<le> length (filter isdigit s) \<Longrightarrow> \<exists>t. skip_digits k s = Some t"
proof (induction k arbitrary: s)
  case (Suc k)
  have f: "filter isdigit s = filter isdigit (dropWhile (\<lambda>c. \<not> isdigit c) s)" by (induction s) auto
  obtain c t where c: "dropWhile (\<lambda>c. \<not> isdigit c) s = c # t" using Suc.prems f by (cases "dropWhile (\<lambda>c. \<not> isdigit c) s") auto
  then have "isdigit c" using hd_dropWhile [of "\<lambda>c. \<not> isdigit c" s] by auto
  then have "k \<le> length (filter isdigit t)" using Suc.prems f c by simp
  then show ?case using Suc.IH c by simp
qed simp

lemma alphanum_to_display_goes:
  assumes "wf_field g" "field_scale g \<le> int (data_size g)"
  shows "\<exists>f' g'. cob_move_alphanum_to_display M f g = Some (f', g')"
proof -
  let ?z = "set_data g (replicate (fsize g) chr_0)"
  have z: "same_shape g ?z" by (simp add: same_shape_def)
  then have wz: "wf_field ?z" "has_room ?z" using shape_sel(11) assms(1) wf_has_room by blast+
  obtain sg s1 where s1: "(case dropWhile isspace (fdata f) of [] \<Rightarrow> (0 :: int, [])
      | c # t \<Rightarrow> if c = chr_plus then (1, t) else if c = chr_minus then (-1, t) else (0, dropWhile isspace (fdata f))) = (sg, s1)"
    by force
  let ?count = "int (length (filter isdigit (takeWhile (\<lambda>c. c \<noteq> decimal_point M) s1)))"
  let ?size = "int (data_size ?z) - field_scale ?z"
  let ?off = "if ?count < ?size then nat (?size - ?count) else 0"
  have "length (filter isdigit (takeWhile P s1)) \<le> length (filter isdigit s1)" for P
    using length_append [of "filter isdigit (takeWhile P s1)" "filter isdigit (dropWhile P s1)"] by (simp flip: filter_append)
  moreover have "0 \<le> ?size" using shape_sel(3,9) [OF z] assms(2) by simp
  ultimately have n: "nat (?count - ?size) \<le> length (filter isdigit s1)" by (smt (verit) nat_le_iff of_nat_mono)
  have "\<exists>t. (if ?count < ?size then Some s1 else skip_digits (nat (?count - ?size)) s1) = Some t"
    using skip_digits_goes [OF n] by (cases "?count < ?size") (simp_all del: data_size_set_data)
  then obtain t where t: "(if ?count < ?size then Some s1 else skip_digits (nat (?count - ?size)) s1) = Some t" by blast
  have put: "cob_put_sign M (put_bytes ?z (overlay (field_bytes ?z) ?off ds)) sg \<noteq> None"
    if a: "an_loop M (data_size ?z - ?off) 0 t = Some ds" for ds
  proof -
    have "length (field_bytes ?z) = data_size ?z"
      using wz(2) by (simp add: field_bytes_def has_room_def fsize_def)
    then have "length (overlay (field_bytes ?z) ?off ds) = data_size ?z"
      using an_loop_length [OF a] by (cases "ds = []") (auto simp: overlay_def simp del: data_size_set_data)
    from shape_sel(11) [OF put_bytes_shape [OF wz(2) this]] wz(1)
    have "sign_ok (put_bytes ?z (overlay (field_bytes ?z) ?off ds))" by (auto simp: sign_ok_def wf_field_def data_size_def)
    from put_sign_goes [OF this, of M sg] show ?thesis by auto
  qed
  have put0: "cob_put_sign M ?z 0 \<noteq> None" using put_sign_goes [OF wf_sign_ok [OF wz(1)], of M 0] by auto
  have "\<exists>h. (case an_loop M (data_size ?z - ?off) 0 t of
           Some ds \<Rightarrow> cob_put_sign M (put_bytes ?z (overlay (field_bytes ?z) ?off ds)) sg
         | None \<Rightarrow> cob_put_sign M ?z 0) = Some h"
  proof (cases "an_loop M (data_size ?z - ?off) 0 t")
    case None
    then show ?thesis using put0 unfolding None option.case by blast
  next
    case (Some ds)
    show ?thesis using put [OF Some] unfolding Some option.case by blast
  qed
  then obtain h where h: "(case an_loop M (data_size ?z - ?off) 0 t of
           Some ds \<Rightarrow> cob_put_sign M (put_bytes ?z (overlay (field_bytes ?z) ?off ds)) sg
         | None \<Rightarrow> cob_put_sign M ?z 0) = Some h" by blast
  show ?thesis
    unfolding cob_move_alphanum_to_display_def Let_def s1 prod.case t bind.bind_lunit h by blast
qed

section \<open>From DISPLAY\<close>

lemma display_to_alphanum_goes:
  assumes "sign_ok f"
  shows "\<exists>f' g'. cob_move_display_to_alphanum M f g = Some (f', g')"
proof -
  obtain s h where h: "cob_get_sign M f = Some (s, h)" "\<And>h2 t. same_shape h h2 \<Longrightarrow> \<exists>k. cob_put_sign M h2 t = Some k"
    using take_sign [OF assms, of M] by metis
  obtain k where k: "cob_put_sign M h s = Some k" using h(2) [of h] by auto
  show ?thesis unfolding cob_move_display_to_alphanum_def h(1) by (simp add: k Let_def)
qed

lemma display_to_binary_goes:
  assumes "sign_ok f" "wf_binary g" "flag_binary_truncate M \<and> \<not> real_binary g \<longrightarrow> field_digits g < 19"
  shows "\<exists>f' g'. cob_move_display_to_binary T M f g = Some (f', g')"
proof -
  obtain s h where h: "cob_get_sign M f = Some (s, h)" "\<And>h2 t. same_shape h h2 \<Longrightarrow> \<exists>k. cob_put_sign M h2 t = Some k"
    using take_sign [OF assms(1), of M] by metis
  obtain k where k: "cob_put_sign M h s = Some k" using h(2) [of h] by auto
  have m: "cob_binary_mset_int64 T g v \<noteq> None" for v
    using assms(2) by (auto simp: cob_binary_mset_int64_def cob_binary_set_int64_def wf_binary_def obj_out_def rds_def fsize_def)
  have "cob_move_display_to_binary T M f g \<noteq> None"
    unfolding cob_move_display_to_binary_def h(1) Let_def
    using assms(3) by (simp add: k m cob_exp10LL_def split: Option.bind_split if_split del: not_None_eq)
  then show ?thesis by (rule goesI)
qed

lemma pack_chars_goes:
  assumes "digits1 \<le> length data1" "\<forall>j<k. (i + j) div 2 < length data2"
  shows "\<exists>out. pack_chars digits1 k p i data1 data2 = Some out"
  using assms(2)
proof (induction k arbitrary: p i data2)
  case (Suc k)
  have "\<exists>n. (if 0 \<le> p \<and> p < int digits1 then do {
             c \<leftarrow> rdi data1 p; Some (if c = chr_space then 0 else word_of_int (cob_d2i c)) } else Some (0 :: u8)) = Some n"
    using assms(1) by (auto simp: rdi_def rd_def)
  then obtain n where n: "(if 0 \<le> p \<and> p < int digits1 then do {
             c \<leftarrow> rdi data1 p; Some (if c = chr_space then 0 else word_of_int (cob_d2i c)) } else Some (0 :: u8)) = Some n" by blast
  have i: "i div 2 < length data2" using Suc.prems by force
  let ?d = "data2[i div 2 := (if even i then push_bit 4 n else data2 ! (i div 2) OR n)]"
  have "\<forall>j<k. (Suc i + j) div 2 < length ?d" using Suc.prems by (metis Suc_less_eq add_Suc add_Suc_right length_list_update)
  from Suc.IH [OF this, of "p + 1"] show ?case using n i by (simp add: rd_def wr_def)
qed simp

lemma display_to_packed_goes:
  assumes "sign_ok f" "field_digits f \<le> data_size f" "has_room f" "0 < field_digits g" "fsize g = field_digits g div 2 + 1"
  shows "\<exists>f' g'. cob_move_display_to_packed M f g = Some (f', g')"
proof -
  obtain s h where h: "cob_get_sign M f = Some (s, h)" "\<And>h2 t. same_shape h h2 \<Longrightarrow> \<exists>k. cob_put_sign M h2 t = Some k"
    using take_sign [OF assms(1), of M] by metis
  obtain k where k: "cob_put_sign M h s = Some k" using h(2) [of h] by auto
  have l: "field_digits h \<le> length (drop (data_off h) (fdata h))"
    using shape_sel [OF get_sign_shape [OF h(1)]] assms(2,3) by (simp add: has_room_def fsize_def)
  have "\<forall>j<field_digits g. (1 - field_digits g mod 2 + j) div 2 < length (replicate (fsize g) (0 :: u8))"
    using half_byte_room [of _ "field_digits g"] assms(5) by simp
  from pack_chars_goes [OF l this, of "(int (field_digits h) - field_scale h) - (int (field_digits g) - field_scale g)"]
  obtain out where out: "pack_chars (field_digits h) (field_digits g) ((int (field_digits h) - field_scale h) - (int (field_digits g) - field_scale g))
    (1 - field_digits g mod 2) (drop (data_off h) (fdata h)) (replicate (fsize g) 0) = Some out" by blast
  then have "length out = fsize g" "0 < fsize g" using pack_chars_length assms(5) by auto
  then show ?thesis unfolding cob_move_display_to_packed_def h(1) Let_def bind.bind_lunit prod.case out
    by (simp add: k rdi_def wri_def rd_def wr_def nat_diff_distrib)
qed

lemma alphanum_to_edited_goes:
  assumes "sign_ok f" "sum_list (map snd (field_pic g)) \<le> fsize g"
  shows "\<exists>f' g'. cob_move_alphanum_to_edited M f g = Some (f', g')"
proof -
  obtain s h where h: "cob_get_sign M f = Some (s, h)" "\<And>h2 t. same_shape h h2 \<Longrightarrow> \<exists>k. cob_put_sign M h2 t = Some k"
    using take_sign [OF assms(1), of M] by metis
  obtain k where k: "cob_put_sign M h s = Some k" using h(2) [of h] by auto
  have "length (edit_alnum pic src) = sum_list (map snd pic)" for pic src
    by (induction pic src rule: edit_alnum.induct) (auto split: list.split)
  then show ?thesis unfolding cob_move_alphanum_to_edited_def h(1) using assms(2)
    by (simp add: k wrs_def fsize_def)
qed

lemma display_to_edited_goes:
  assumes "sign_ok f" "edited_item g"
  shows "\<exists>f' g'. cob_move_display_to_edited M f g = Some (f', g')"
proof -
  obtain s h where h: "cob_get_sign M f = Some (s, h)" "\<And>h2 t. same_shape h h2 \<Longrightarrow> \<exists>k. cob_put_sign M h2 t = Some k"
    using take_sign [OF assms(1), of M] by metis
  obtain k where k: "cob_put_sign M h s = Some k" using h(2) [of h] by auto
  obtain n pl where c: "count_places M 0 True True (field_pic g) = (n, pl)" by fastforce
  let ?e = "\<lparr>ed_out = fdata g, ed_dst = 0, ed_end = int (fsize g),
      ed_src = int (length (field_bytes h)) - field_scale h - int n, ed_point = None,
      ed_pad = chr_space, ed_is_zero = True, ed_suppress = True, ed_trail_sign = False, ed_trail_curr = False,
      ed_sign_first = False, ed_sign_symbol = 0, ed_curr_symbol = 0\<rparr>"
  have "edit_inv (fsize g) 0 ?e" by (simp add: edit_inv_def fsize_def)
  then obtain e where e: "ed_picture M (field_bytes h) (s < 0) pl (field_pic g) ?e = Some e" "edit_done (fsize g) e"
    using ed_picture_inv [of "fsize g" 0 ?e "field_pic g" M "field_bytes h" "s < 0" pl] assms(2) by (auto simp: edited_item_def)
  obtain out where "ed_finish M (blank_zero g) e = Some out" using ed_finish_Some [OF e(2)] by blast
  then show ?thesis using h(1) c e(1) k by (simp add: cob_move_display_to_edited_def Let_def)
qed

section \<open>Well-formed items\<close>

text \<open>
  What may be sent: a numeric item by its declaration, with the 64 characters of the temporary item
  as the limit of its digits; an edited number of at most 64 characters; a literal that is not
  empty; and any text, group or floating point item.
\<close>

definition sending :: "cob_field \<Rightarrow> bool" where
  "sending f \<longleftrightarrow>
    (case field_type f of
       COB_TYPE_NUMERIC_DISPLAY \<Rightarrow> wf_field f \<and> 0 < field_digits f \<and> field_digits f \<le> 64 \<and> field_scale f \<le> 64
     | COB_TYPE_NUMERIC_PACKED \<Rightarrow> 0 < field_digits f \<and> field_digits f \<le> 64 \<and> field_scale f \<le> 64 \<and> fsize f = field_digits f div 2 + 1
     | COB_TYPE_NUMERIC_BINARY \<Rightarrow> wf_binary f \<and> 0 < field_digits f \<and> field_digits f \<le> 64 \<and> field_scale f \<le> 64
     | COB_TYPE_NUMERIC_EDITED \<Rightarrow> fsize f \<le> 64
     | COB_TYPE_ALPHANUMERIC_ALL \<Rightarrow> fdata f \<noteq> []
     | _ \<Rightarrow> True)"

text \<open>
  What may receive: a numeric item with the size of its usage, an edited item with the size of its
  picture (without \<open>P\<close>), and any text item or group; floating point is left out, as its storage is
  written by \<open>sscanf\<close>.
\<close>

definition receiving :: "cob_module \<Rightarrow> cob_field \<Rightarrow> bool" where
  "receiving M g \<longleftrightarrow> fsize g = 0 \<or>
    (case field_type g of
       COB_TYPE_NUMERIC_DISPLAY \<Rightarrow> wf_field g
     | COB_TYPE_NUMERIC_PACKED \<Rightarrow> 0 < field_digits g \<and> fsize g = field_digits g div 2 + 1
     | COB_TYPE_NUMERIC_BINARY \<Rightarrow> wf_binary g \<and> (flag_binary_truncate M \<and> \<not> real_binary g \<longrightarrow> field_digits g < 19)
     | COB_TYPE_NUMERIC_EDITED \<Rightarrow> edited_item g
     | COB_TYPE_ALPHANUMERIC_EDITED \<Rightarrow> sum_list (map snd (field_pic g)) \<le> fsize g
     | COB_TYPE_NUMERIC_FLOAT \<Rightarrow> False
     | COB_TYPE_NUMERIC_DOUBLE \<Rightarrow> False
     | _ \<Rightarrow> True)"

text \<open>
  Two pairs need more: a PACKED item reads as many characters of a DISPLAY item as that has
  digits, and a DISPLAY item that receives text has its decimal point among its digits.
\<close>

definition move_ok :: "cob_module \<Rightarrow> cob_field \<Rightarrow> cob_field \<Rightarrow> bool" where
  "move_ok M f g \<longleftrightarrow> sending f \<and> receiving M g \<and>
     (field_type f = COB_TYPE_NUMERIC_DISPLAY \<and> field_type g = COB_TYPE_NUMERIC_PACKED \<longrightarrow> field_digits f \<le> data_size f) \<and>
     (field_type g = COB_TYPE_NUMERIC_DISPLAY \<and> \<not> num_type (field_type f) \<and> field_type f \<noteq> COB_TYPE_ALPHANUMERIC_ALL \<longrightarrow>
        field_scale g \<le> int (data_size g))"

lemma move_ok_shape:
  assumes "same_shape f f'" "same_shape g g'" "move_ok M f g"
  shows "move_ok M f' g'"
proof -
  have e: "edited_item g' = edited_item g" using shape_sel [OF assms(2)] by (simp add: edited_item_def)
  have "fdata f' = [] \<longleftrightarrow> fdata f = []" using shape_sel(8) [OF assms(1)] by (auto simp: fsize_def)
  then show ?thesis using assms(3) shape_sel [OF assms(1)] shape_sel [OF assms(2)] e
    by (simp add: move_ok_def sending_def receiving_def cong del: cob_type.case_cong_weak)
qed

text \<open>The dispatcher, a DISPLAY item first: it is also what the temporary items are.\<close>

lemma display_moves_plain:
  assumes f: "field_type f = COB_TYPE_NUMERIC_DISPLAY" "wf_field f" "field_type g = COB_TYPE_NUMERIC_PACKED \<longrightarrow> field_digits f \<le> data_size f"
    and g: "receiving M g" "fsize g \<noteq> 0" and p: "\<not> expands_P f \<or> field_type g \<noteq> COB_TYPE_ALPHANUMERIC_EDITED"
  shows "\<exists>f' g'. cob_move T E M f g = Some (f', g')"
proof -
  have s: "sign_ok f" "has_room f" "fsize f \<noteq> 0" using wf_sign_ok wf_has_room f(2) by (auto simp: wf_field_def data_size_def)
  note goes = display_to_display_goes [OF s(1)] display_to_packed_goes [OF s(1) _ s(2)] display_to_binary_goes [OF s(1)]
    display_to_edited_goes [OF s(1)] alphanum_to_edited_goes [OF s(1)] display_to_alphanum_goes [OF s(1)]
  have a: "\<exists>f' g'. cob_move_alphanum_to_alphanum f g = Some (f', g')" by (simp add: cob_move_alphanum_to_alphanum_def Let_def)
  show ?thesis
    using goes a f g p s(3)
    by (subst cob_move.simps) (cases "field_type g"; simp add: receiving_def is_fp_def)
qed

lemma temp_plain:
  assumes "length bs = sz" "0 < sz" "k \<le> int sz" "0 \<le> k"
  shows "field_type (display_temp sz k bs) = COB_TYPE_NUMERIC_DISPLAY" "wf_field (display_temp sz k bs)"
    "field_digits (display_temp sz k bs) = data_size (display_temp sz k bs)" "\<not> expands_P (display_temp sz k bs)"
  using assms by (simp_all add: display_temp_def wf_field_def data_size_def expands_P_def)

lemma temp_sel:
  assumes "length bs = sz" "0 < sz"
  shows "field_type (display_temp sz k bs) = COB_TYPE_NUMERIC_DISPLAY" "wf_field (display_temp sz k bs)"
    "field_digits (display_temp sz k bs) = sz" "data_size (display_temp sz k bs) = sz" "field_scale (display_temp sz k bs) = k"
  using assms by (simp_all add: display_temp_def wf_field_def data_size_def)

text \<open>A conversion into the temporary item, and the MOVE of that.\<close>

lemma indirect_goes:
  assumes func: "\<And>t. wf_field t \<Longrightarrow> field_type t = COB_TYPE_NUMERIC_DISPLAY \<Longrightarrow> field_scale t = k \<Longrightarrow> data_size t = sz \<Longrightarrow>
      \<exists>f' t'. func f t = Some (f', t')"
    and len: "\<And>f' bs. indirect_temp func f sz k = Some (f', bs) \<Longrightarrow> length bs = sz"
    and sz: "0 < sz" "sz \<le> 64"
    and move: "\<And>bs. length bs = sz \<Longrightarrow> \<exists>t g'. cob_move T E M (display_temp sz k bs) g = Some (t, g')"
  shows "\<exists>f' g'. (do { (s', t) \<leftarrow> indirect_temp func f sz k; (_, d) \<leftarrow> cob_move T E M (display_temp sz k t) g; Some (s', d) }) = Some (f', g')"
proof -
  let ?t = "cob_fld COB_TYPE_NUMERIC_DISPLAY sz k COB_FLAG_HAVE_SIGN [] (replicate sz 0)"
  have "wf_field ?t" "field_type ?t = COB_TYPE_NUMERIC_DISPLAY" "field_scale ?t = k" "data_size ?t = sz"
    using sz(1) by (simp_all add: wf_field_def data_size_def)
  then obtain f' t' where t: "func f ?t = Some (f', t')" using func by blast
  then have i: "indirect_temp func f sz k = Some (f', fdata t')" using sz(2) by (simp add: indirect_temp_def)
  from move [OF len [OF this]] i show ?thesis by auto
qed

lemma display_moves:
  assumes f: "field_type f = COB_TYPE_NUMERIC_DISPLAY" "wf_field f" "0 < field_digits f" "field_digits f \<le> 64" "field_scale f \<le> 64"
      "field_type g = COB_TYPE_NUMERIC_PACKED \<longrightarrow> field_digits f \<le> data_size f"
    and g: "receiving M g" "fsize g \<noteq> 0"
  shows "\<exists>f' g'. cob_move T E M f g = Some (f', g')"
proof (cases "expands_P f \<and> field_type g = COB_TYPE_ALPHANUMERIC_EDITED")
  case False
  then show ?thesis using display_moves_plain [OF f(1,2,6) g] by blast
next
  case True
  let ?sz = "max (field_digits f) (nat (field_scale f))" and ?k = "max 0 (field_scale f)"
  have s: "sign_ok f" "fsize f \<noteq> 0" using wf_sign_ok f(2) by (auto simp: wf_field_def data_size_def)
  have m: "cob_move T E M f g = do {
      (s', t) \<leftarrow> indirect_temp (cob_move_display_to_display M) f ?sz ?k;
      (_, d) \<leftarrow> cob_move T E M (display_temp ?sz ?k t) g; Some (s', d) }"
    using True f(1) g(2) s(2) by (subst cob_move.simps) (simp add: is_fp_def)
  have sz: "0 < ?sz" "?sz \<le> 64" using f(3-5) by auto
  show ?thesis unfolding m
  proof (rule indirect_goes [OF _ _ sz])
    fix bs :: bytes assume l: "length bs = ?sz"
    have k: "?k \<le> int ?sz" "0 \<le> ?k" by auto
    show "\<exists>t g'. cob_move T E M (display_temp ?sz ?k bs) g = Some (t, g')"
      by (rule display_moves_plain) (use temp_plain [OF l sz(1) k] g in simp_all)
  next
    fix f' bs assume "indirect_temp (cob_move_display_to_display M) f ?sz ?k = Some (f', bs)"
    then show "length bs = ?sz" by (rule indirect_lengths)
  qed (rule display_to_display_goes [OF s(1)])
qed

lemma temp_moves:
  assumes "length bs = sz" "0 < sz" "sz \<le> 64" "k \<le> 64" "receiving M g" "fsize g \<noteq> 0"
  shows "\<exists>f' g'. cob_move T E M (display_temp sz k bs) g = Some (f', g')"
  by (rule display_moves) (use temp_sel [OF assms(1,2), of k] assms in simp_all)

text \<open>Numbers of the other usages, edited numbers and text: through the temporary item or at once.\<close>

lemma packed_moves:
  assumes f: "field_type f = COB_TYPE_NUMERIC_PACKED" "sending f" and g: "receiving M g" "fsize g \<noteq> 0"
  shows "\<exists>f' g'. cob_move T E M f g = Some (f', g')"
proof -
  have d: "0 < field_digits f" "field_digits f \<le> 64" "field_scale f \<le> 64" "fsize f = field_digits f div 2 + 1"
    using f by (simp_all add: sending_def)
  have s: "sign_ok f" "fsize f \<noteq> 0" using f(1) d(4) by (simp_all add: sign_ok_def)
  note conv = packed_to_display_goes [OF f(1) d(2,4)]
  consider "field_type g = COB_TYPE_GROUP" | "field_type g = COB_TYPE_NUMERIC_DISPLAY"
    | "field_type g \<noteq> COB_TYPE_GROUP" "field_type g \<noteq> COB_TYPE_NUMERIC_DISPLAY" by blast
  then show ?thesis
  proof cases
    case 1
    then show ?thesis using f(1) g(2) s(2)
      by (subst cob_move.simps) (simp add: cob_move_alphanum_to_alphanum_def Let_def)
  next
    case 2
    then have "wf_field g" using g by (simp add: receiving_def)
    then show ?thesis using conv f(1) 2 g(2) s(2) by (subst cob_move.simps) simp
  next
    case 3
    have "cob_move T E M f g = do {
        (s', t) \<leftarrow> indirect_temp (cob_move_packed_to_display M) f (field_digits f) (field_scale f);
        (_, d) \<leftarrow> cob_move T E M (display_temp (field_digits f) (field_scale f) t) g; Some (s', d) }"
      using 3 f(1) g(2) s(2) by (subst cob_move.simps) simp
    then show ?thesis
      by (simp only:) (rule indirect_goes [where f = f and func = "cob_move_packed_to_display M", OF conv indirect_lengths(3) d(1,2) temp_moves [OF _ d(1-3) g]])
  qed
qed

lemma binary_moves:
  assumes f: "field_type f = COB_TYPE_NUMERIC_BINARY" "sending f" and g: "receiving M g" "fsize g \<noteq> 0"
  shows "\<exists>f' g'. cob_move T E M f g = Some (f', g')"
proof -
  have d: "wf_binary f" "0 < field_digits f" "field_digits f \<le> 64" "field_scale f \<le> 64"
    using f by (simp_all add: sending_def)
  have s: "fsize f \<noteq> 0" using d(1) by (simp add: wf_binary_def)
  note conv = binary_to_display_goes [OF d(1)]
  consider "field_type g = COB_TYPE_GROUP" | "field_type g = COB_TYPE_NUMERIC_DISPLAY"
    | "field_type g \<noteq> COB_TYPE_GROUP" "field_type g \<noteq> COB_TYPE_NUMERIC_DISPLAY" by blast
  then show ?thesis
  proof cases
    case 1
    then show ?thesis using f(1) g(2) s
      by (subst cob_move.simps) (simp add: cob_move_alphanum_to_alphanum_def Let_def)
  next
    case 2
    then have "wf_field g" using g by (simp add: receiving_def)
    then show ?thesis using conv f(1) 2 g(2) s by (subst cob_move.simps) simp
  next
    case 3
    let ?sz = "if other_numeric (field_type g) then 20 else field_digits f"
    have sz: "0 < ?sz" "?sz \<le> 64" using d by auto
    have "cob_move T E M f g = do {
        (s', t) \<leftarrow> indirect_temp (cob_move_binary_to_display T M) f ?sz (field_scale f);
        (_, d) \<leftarrow> cob_move T E M (display_temp ?sz (field_scale f) t) g; Some (s', d) }"
      using 3 f(1) g(2) s by (subst cob_move.simps) (simp add: Let_def)
    then show ?thesis
      by (simp only:) (rule indirect_goes [where f = f and func = "cob_move_binary_to_display T M", OF conv indirect_lengths(4) sz temp_moves [OF _ sz d(4) g]])
  qed
qed

lemma edited_moves:
  assumes f: "field_type f = COB_TYPE_NUMERIC_EDITED" "fsize f \<le> 64" "fsize f \<noteq> 0" and g: "receiving M g" "fsize g \<noteq> 0"
  shows "\<exists>f' g'. cob_move T E M f g = Some (f', g')"
proof -
  have s: "sign_ok f" using f(1) by (simp add: sign_ok_def)
  note conv = edited_to_display_goes [OF f(2)]
  have a: "\<exists>f' g'. cob_move_alphanum_to_alphanum f g = Some (f', g')" by (simp add: cob_move_alphanum_to_alphanum_def Let_def)
  have sz: "0 < (36 :: nat)" "(36 :: nat) \<le> 64" "(18 :: int) \<le> 64" by simp_all
  have i: "\<exists>f' g'. (do { (s', t) \<leftarrow> indirect_temp (cob_move_edited_to_display M) f 36 18;
      (_, d) \<leftarrow> cob_move T E M (display_temp 36 18 t) g; Some (s', d) }) = Some (f', g')"
    by (rule indirect_goes [where f = f and func = "cob_move_edited_to_display M", OF conv indirect_lengths(6) sz(1,2) temp_moves [OF _ sz g]])
  show ?thesis
    using f(1,3) g i a conv [of g] alphanum_to_edited_goes [OF s, of g]
    by (subst cob_move.simps) (cases "field_type g"; simp add: receiving_def other_numeric_def is_fp_def Let_def)
qed

lemma fp_moves:
  assumes f: "is_fp (field_type f)" "fsize f \<noteq> 0" and g: "receiving M g" "fsize g \<noteq> 0"
  shows "\<exists>f' g'. cob_move T E M f g = Some (f', g')"
proof -
  have sz: "0 < (40 :: nat)" "(40 :: nat) \<le> 64" "(20 :: int) \<le> 64" by simp_all
  have i: "\<exists>f' g'. (do { (s', t) \<leftarrow> indirect_temp (cob_move_fp_to_display E M) f 40 20;
      (_, d) \<leftarrow> cob_move T E M (display_temp 40 20 t) g; Some (s', d) }) = Some (f', g')"
    by (rule indirect_goes [where f = f and func = "cob_move_fp_to_display E M", OF fp_to_display_goes indirect_lengths(5) sz(1,2) temp_moves [OF _ sz g]])
  have a: "\<exists>f' g'. cob_move_alphanum_to_alphanum f g = Some (f', g')" by (simp add: cob_move_alphanum_to_alphanum_def Let_def)
  have t: "field_type f \<notin> {COB_TYPE_ALPHANUMERIC_ALL, COB_TYPE_GROUP, COB_TYPE_NUMERIC_DISPLAY, COB_TYPE_NUMERIC_PACKED,
      COB_TYPE_NUMERIC_BINARY, COB_TYPE_NUMERIC_EDITED}" using f(1) by (auto simp: is_fp_def)
  show ?thesis using t f g(2) i a by (subst cob_move.simps) (simp add: Let_def)
qed

definition text_branch ::
  "target \<Rightarrow> fp_env \<Rightarrow> cob_module \<Rightarrow> (cob_field \<Rightarrow> cob_field) \<Rightarrow> cob_field \<Rightarrow> cob_field \<Rightarrow> (cob_field \<times> cob_field) option" where
  "text_branch T E M keep s g =
    (if field_type g = COB_TYPE_NUMERIC_DISPLAY then map_option (apfst keep) (cob_move_alphanum_to_display M s g)
     else if other_numeric (field_type g) then do {
       (s', t) \<leftarrow> indirect_temp (cob_move_alphanum_to_display M) s 36 18;
       (_, d) \<leftarrow> cob_move T E M (display_temp 36 18 t) g;
       Some (keep s', d) }
     else if field_type g = COB_TYPE_ALPHANUMERIC_EDITED then map_option (apfst keep) (cob_move_alphanum_to_edited M s g)
     else map_option (apfst keep) (cob_move_alphanum_to_alphanum s g))"

lemma text_branch_goes:
  assumes h: "sign_ok h" and g: "receiving M g" "fsize g \<noteq> 0"
    and p: "field_type g = COB_TYPE_NUMERIC_DISPLAY \<longrightarrow> field_scale g \<le> int (data_size g)"
  shows "\<exists>f' g'. text_branch T E M keep h g = Some (f', g')"
proof -
  have sz: "0 < (36 :: nat)" "(36 :: nat) \<le> 64" "(18 :: int) \<le> 64" by simp_all
  have c: "\<exists>f' t'. cob_move_alphanum_to_display M h t = Some (f', t')"
    if "wf_field t" "field_type t = COB_TYPE_NUMERIC_DISPLAY" "field_scale t = 18" "data_size t = 36" for t
    using alphanum_to_display_goes [of t M h] that by simp
  have "\<exists>f' g'. (do { (s', t) \<leftarrow> indirect_temp (cob_move_alphanum_to_display M) h 36 18;
      (_, d) \<leftarrow> cob_move T E M (display_temp 36 18 t) g; Some (s', d) }) = Some (f', g')"
    by (rule indirect_goes [where f = h and func = "cob_move_alphanum_to_display M", OF c indirect_lengths(1) sz(1,2) temp_moves [OF _ sz g]])
  then have i: "\<exists>f' g'. (do { (s', t) \<leftarrow> indirect_temp (cob_move_alphanum_to_display M) h 36 18;
      (_, d) \<leftarrow> cob_move T E M (display_temp 36 18 t) g; Some (keep s', d) }) = Some (f', g')"
    by (fastforce simp: bind_eq_Some_conv)
  have a: "\<exists>f' g'. cob_move_alphanum_to_alphanum h g = Some (f', g')" by (simp add: cob_move_alphanum_to_alphanum_def Let_def)
  have d: "field_type g = COB_TYPE_NUMERIC_DISPLAY \<Longrightarrow> \<exists>f' g'. cob_move_alphanum_to_display M h g = Some (f', g')"
    using alphanum_to_display_goes p g by (simp add: receiving_def)
  have e: "field_type g = COB_TYPE_ALPHANUMERIC_EDITED \<Longrightarrow> \<exists>f' g'. cob_move_alphanum_to_edited M h g = Some (f', g')"
    using alphanum_to_edited_goes [OF h] g by (simp add: receiving_def)
  show ?thesis unfolding text_branch_def using i a d e by (auto split: if_split)
qed

lemma item_moves:
  assumes f: "sending f" "field_type f \<noteq> COB_TYPE_ALPHANUMERIC_ALL" "move_ok M f g" and g: "fsize g \<noteq> 0"
  shows "\<exists>f' g'. cob_move T E M f g = Some (f', g')"
proof -
  have r: "receiving M g" using f(3) by (simp add: move_ok_def)
  have p: "field_type g = COB_TYPE_NUMERIC_DISPLAY \<longrightarrow> field_scale g \<le> int (data_size g)" if "\<not> num_type (field_type f)"
    using f(2,3) that by (simp add: move_ok_def)
  consider "fsize f = 0" | "fsize f \<noteq> 0" "num_type (field_type f)" | "fsize f \<noteq> 0" "is_fp (field_type f)"
    | "fsize f \<noteq> 0" "field_type f = COB_TYPE_NUMERIC_EDITED"
    | "fsize f \<noteq> 0" "\<not> num_type (field_type f)" "\<not> is_fp (field_type f)" "field_type f \<noteq> COB_TYPE_NUMERIC_EDITED" by blast
  then show ?thesis
  proof cases
    case 1
    have n: "\<not> num_type (field_type f)"
    proof
      assume "num_type (field_type f)"
      then show False using 1 f(1) by (auto simp: num_type_def sending_def wf_field_def wf_binary_def data_size_def)
    qed
    have c: "field_type cob_space = COB_TYPE_ALPHANUMERIC_ALL" "sign_ok cob_space" by (simp_all add: cob_space_def sign_ok_def)
    have k: "If True f = (\<lambda>s'. f)" by (rule ext) simp
    have "cob_move T E M f g = (if field_type g = COB_TYPE_GROUP then map_option (apfst (\<lambda>s'. f)) (cob_move_alphanum_to_alphanum cob_space g)
      else text_branch T E M (\<lambda>s'. f) cob_space g)"
      using 1 f(2) g c by (subst cob_move.simps) (simp add: text_branch_def Let_def is_fp_def k)
    then show ?thesis using text_branch_goes [OF c(2) r g p [OF n]] by (simp add: cob_move_alphanum_to_alphanum_def Let_def)
  next
    case 2
    then consider "field_type f = COB_TYPE_NUMERIC_DISPLAY" | "field_type f = COB_TYPE_NUMERIC_PACKED"
      | "field_type f = COB_TYPE_NUMERIC_BINARY" by (auto simp: num_type_def)
    then show ?thesis
    proof cases
      case 1
      then show ?thesis using display_moves [OF 1 _ _ _ _ _ r g] f(1,3) by (simp add: sending_def move_ok_def)
    qed (use packed_moves binary_moves f(1) r g in blast)+
  next
    case 3
    show ?thesis by (rule fp_moves [OF 3(2,1) r g])
  next
    case 4
    then show ?thesis using edited_moves [OF 4(2) _ 4(1) r g] f(1) by (simp add: sending_def)
  next
    case 5
    have s: "sign_ok f" using 5(2) by (auto simp: sign_ok_def num_type_def)
    have "cob_move T E M f g = (if field_type f = COB_TYPE_GROUP \<or> field_type g = COB_TYPE_GROUP then cob_move_alphanum_to_alphanum f g
      else text_branch T E M id f g)"
      using 5 f(2) g by (subst cob_move.simps) (simp add: text_branch_def Let_def num_type_def keep_source apfst_id option.map_id)
    then show ?thesis using text_branch_goes [OF s r g p [OF 5(2)]] by (simp add: cob_move_alphanum_to_alphanum_def Let_def)
  qed
qed

lemma literal_moves:
  assumes "length bs = all_count g" "receiving M g"
  shows "\<exists>t g'. cob_move T E M (all_temp g bs) g = Some (t, g')"
proof (cases "fsize g = 0")
  case True
  then show ?thesis by (subst cob_move.simps) (simp add: all_temp_def)
next
  case g: False
  show ?thesis
  proof (cases "field_is_numeric g")
    case True
    then show ?thesis using assms g
      by (intro display_moves) (simp_all add: all_temp_def all_count_def wf_field_def data_size_def)
  next
    case False
    then have "field_type g \<noteq> COB_TYPE_NUMERIC_DISPLAY" by (auto simp: field_is_numeric_def)
    then show ?thesis using False assms(2) g
      by (intro item_moves) (simp_all add: all_temp_def move_ok_def sending_def)
  qed
qed

lemma empty_target: "fsize g = 0 \<Longrightarrow> cob_move T E M f g = Some (f', g') \<Longrightarrow> f' = f \<and> g' = g"
proof (cases "field_type f = COB_TYPE_ALPHANUMERIC_ALL")
  case True
  assume g: "fsize g = 0" and m: "cob_move T E M f g = Some (f', g')"
  have t: "cob_move T E M (all_temp g bs) g = Some (all_temp g bs, g)" for bs
    using g by (subst cob_move.simps) (simp add: all_temp_def)
  show ?thesis using m True by (subst (asm) cob_move.simps) (auto simp: bind_eq_Some_conv t)
qed (subst (asm) cob_move.simps; simp)

theorem moves_safely:
  assumes "move_ok M f g"
  shows "\<exists>f' g'. cob_move T E M f g = Some (f', g') \<and> same_shape f f' \<and> same_shape g g' \<and> move_ok M f' g'"
proof -
  have goes: "\<exists>f' g'. cob_move T E M f g = Some (f', g')"
  proof (cases "field_type f = COB_TYPE_ALPHANUMERIC_ALL")
    case True
    have "fdata f \<noteq> []" using assms True by (simp add: move_ok_def sending_def)
    then have "\<exists>bs. repeat_all (fdata f) (all_count g) = Some bs \<and> length bs = all_count g" by (simp add: repeat_all_def)
    then obtain bs where bs: "repeat_all (fdata f) (all_count g) = Some bs" "length bs = all_count g" by blast
    have "\<exists>t g'. cob_move T E M (all_temp g bs) g = Some (t, g')" by (rule literal_moves [OF bs(2)]) (use assms in \<open>simp add: move_ok_def\<close>)
    then show ?thesis using True bs(1) by (subst cob_move.simps) auto
  next
    case False
    show ?thesis
    proof (cases "fsize g = 0")
      case True
      then show ?thesis using False by (subst cob_move.simps) simp
    next
      case g: False
      show ?thesis by (rule item_moves [OF _ False assms g]) (use assms in \<open>simp add: move_ok_def\<close>)
    qed
  qed
  then obtain f' g' where m: "cob_move T E M f g = Some (f', g')" by blast
  have k: "same_shape f f' \<and> same_shape g g'"
  proof (cases "has_room g")
    case True
    then show ?thesis using move_keeps [of g f T E M] m by (simp add: keeps_def)
  next
    case False
    then have "fsize g = 0" by (auto simp: has_room_def data_off_def data_size_def split: if_splits)
    then show ?thesis using empty_target [OF _ m] by simp
  qed
  then show ?thesis using m move_ok_shape [of f f' g g'] assms by blast
qed

text \<open>
  What the two extra conditions exclude goes wrong: \<open>PIC 99PP\<close> has four digits and two characters,
  and its MOVE to a PACKED item reads behind them; text moved to \<open>PIC VPP9\<close> is searched for digits
  behind its end. And a loop that ends may be long: the number of characters taken for a BINARY item
  is a \<open>size_t\<close>, so that MOVE of \<open>PIC 9\<close> to \<open>PIC 99PP COMP\<close> makes 2 to the 64 steps but one.
\<close>

lemma scaled_to_packed:
  "cob_move T E default_module (cob_fld COB_TYPE_NUMERIC_DISPLAY 4 (- 2) 0 [] [0x31, 0x32])
     (cob_fld COB_TYPE_NUMERIC_PACKED 7 0 0 [] [0, 0, 0, 0]) = None"
  by code_simp

lemma text_to_scaled:
  "cob_move T E default_module (cob_fld COB_TYPE_ALPHANUMERIC 0 0 0 [] [0x35])
     (cob_fld COB_TYPE_NUMERIC_DISPLAY 3 3 0 [] [0x30]) = None"
  by code_simp

lemma digit_to_scaled_binary:
  "field_scale g = - 2 \<Longrightarrow> data_size f = 1 \<Longrightarrow> field_scale f = 0 \<Longrightarrow>
     nat (u64 (int (data_size f) - field_scale f + field_scale g)) = 2 ^ 64 - 1"
  by (simp add: take_bit_eq_mod)

end
