(* ===== verification/Cob_Move_Native.thy ===== *)
theory Cob_Move_Native
  imports Cob_Move_Numeric
begin

text \<open>
  MOVE of a number to a binary item that is not cut to its picture: usage COMP-5 and the like, or
  any binary item without the option binary-truncate. It takes the low-order bits of the number.
\<close>

definition native_target :: "cob_module \<Rightarrow> cob_field \<Rightarrow> bool" where
  "native_target M f \<longleftrightarrow> field_type f = COB_TYPE_NUMERIC_BINARY \<and> wf_binary f \<and> (real_binary f \<or> \<not> flag_binary_truncate M)"

definition native_result :: "cob_field \<Rightarrow> int \<Rightarrow> int \<Rightarrow> int" where
  "native_result f v k =
    (let a = rescale \<bar>v\<bar> k; n = (if v < 0 \<and> have_sign f then - a else a) in
     if have_sign f then signed_take_bit (8 * fsize f - 1) n else n mod 2 ^ (8 * fsize f))"

lemma native_result_fits:
  assumes "0 < fsize f" "n = (if v < 0 \<and> have_sign f then - rescale \<bar>v\<bar> k else rescale \<bar>v\<bar> k)"
    and "if have_sign f then - (2 ^ (8 * fsize f - 1)) \<le> n \<and> n < 2 ^ (8 * fsize f - 1) else 0 \<le> n \<and> n < 2 ^ (8 * fsize f)"
  shows "native_result f v k = n"
  using assms by (auto simp: native_result_def Let_def signed_take_bit_int_eq_self split: if_splits)

lemma mset_val:
  assumes "wf_binary f"
  shows "\<exists>g. cob_binary_mset_int64 T f n = Some g \<and> same_shape f g \<and> wf_binary g \<and>
    bin_val T g = (if have_sign f then signed_take_bit (8 * fsize f - 1) n else n mod 2 ^ (8 * fsize f))"
proof -
  let ?g = "set_data f (end_bytes (bin_be T f) (fsize f) n)"
  note fr = set_bin_frame [OF assms, of ?g T n, OF refl]
  have "0 < fsize f" using assms by (simp add: wf_binary_def)
  then have "signed_take_bit (8 * fsize f - 1) (n mod 2 ^ (8 * fsize f)) = signed_take_bit (8 * fsize f - 1) n"
    using signed_take_bit_take_bit [of "8 * fsize f - 1" "8 * fsize f" n] by (simp add: take_bit_eq_mod)
  then have "bin_val T ?g = (if have_sign f then signed_take_bit (8 * fsize f - 1) n else n mod 2 ^ (8 * fsize f))"
    unfolding bin_val_def fr(2,3,4) by simp
  then show ?thesis using set_int64_raw(2) [OF assms, of T n] fr(1,2)
    by (simp add: cob_binary_mset_int64_def same_shape_def)
qed

lemma display_to_native:
  assumes v: "num_val T M f1 = Some v" "field_type f1 = COB_TYPE_NUMERIC_DISPLAY" and f2: "native_target M f2"
    and sc: "0 \<le> int (data_size f1) - field_scale f1 + field_scale f2" "int (data_size f1) - field_scale f1 + field_scale f2 < 2 ^ 64"
      "rescale \<bar>v\<bar> (field_scale f2 - field_scale f1) < 2 ^ 63"
  shows "\<exists>g1 g2. cob_move_display_to_binary T M f1 f2 = Some (g1, g2) \<and> same_shape f1 g1 \<and> same_shape f2 g2 \<and>
    num_val T M g1 = Some v \<and> num_val T M g2 = Some (native_result f2 v (field_scale f2 - field_scale f1))"
proof -
  obtain s g where g: "wf_field f1" "cob_get_sign M f1 = Some (s, g)" "all_digits (field_bytes g)"
    "v = signed_val s (field_bytes g)" "length (field_bytes g) = data_size f1" using num_valE [OF v(1,2)] .
  obtain h1 where h1: "cob_put_sign M g s = Some h1" "same_shape f1 h1" "num_val T M h1 = Some v"
    using put_back_sign [OF g(1) v(2) g(2,3), of T] g(4) by auto
  note gw = get_sign_wf [OF g(2,1)]
  have wf: "wf_binary f2" and tr: "\<not> (flag_binary_truncate M \<and> \<not> real_binary f2)" and t2: "field_type f2 = COB_TYPE_NUMERIC_BINARY"
    using f2 by (auto simp: native_target_def)
  let ?ds = "field_bytes g" let ?k = "field_scale f2 - field_scale f1" let ?a = "rescale (dec_val ?ds) ?k"
  have av: "\<bar>v\<bar> = dec_val ?ds" using dec_val_nonneg [OF g(3)] unfolding g(4) signed_val_def by simp
  have a0: "0 \<le> ?a" using dec_val_nonneg [OF g(3)] by (simp add: rescale_def pos_imp_zdiv_nonneg_iff)
  have a1: "?a < 2 ^ 63" using sc(3) unfolding av .
  have sz: "u64 (int (data_size f1) - field_scale f1 + field_scale f2) = int (length ?ds) + ?k"
    using sc(1,2) g(5) by (simp add: u64_id)
  have loop: "bin_loop (nat (int (length ?ds) + ?k)) 0 ?ds = ?a"
    by (rule bin_loop_rescale [OF g(3) _ a1]) (use sc(1) g(5) in simp)
  let ?n = "if s < 0 \<and> have_sign f2 then - ?a else ?a"
  have neg: "(if s < 0 \<and> have_sign f2 then i64 (- ?a) else ?a) = ?n" using a0 a1 by (auto intro!: i64_id)
  obtain g2 where g2: "cob_binary_mset_int64 T f2 ?n = Some g2" "same_shape f2 g2" "wf_binary g2"
    "bin_val T g2 = (if have_sign f2 then signed_take_bit (8 * fsize f2 - 1) ?n else ?n mod 2 ^ (8 * fsize f2))"
    using mset_val [OF wf] by blast
  have "?n = (if v < 0 \<and> have_sign f2 then - rescale \<bar>v\<bar> ?k else rescale \<bar>v\<bar> ?k)"
  proof (cases "dec_val ?ds = 0")
    case True
    then show ?thesis unfolding av by simp
  next
    case False
    then have "v < 0 \<longleftrightarrow> s < 0" using dec_val_nonneg [OF g(3)] unfolding g(4) signed_val_def by auto
    then show ?thesis unfolding av by simp
  qed
  then have "bin_val T g2 = native_result f2 v ?k" unfolding g2(4) native_result_def Let_def by (simp only:)
  moreover have "field_type g2 = COB_TYPE_NUMERIC_BINARY" using g2(2) t2 by (simp add: same_shape_def field_type_def)
  ultimately have nv: "num_val T M g2 = Some (native_result f2 v ?k)" using g2(3) by (simp add: num_val_def)
  have "cob_move_display_to_binary T M f1 f2 = Some (h1, g2)"
    unfolding cob_move_display_to_binary_def g(2) bind.bind_lunit prod.case Let_def gw(2,4) sz loop neg if_not_P [OF tr]
      g2(1) h1(1) ..
  then show ?thesis using h1 g2(2) nv by blast
qed

text \<open>A number in a temporary item.\<close>

lemma temp_holds:
  assumes cv: "\<And>t. wf_field t \<Longrightarrow> field_type t = COB_TYPE_NUMERIC_DISPLAY \<Longrightarrow>
      \<exists>g. func f1 t = Some (f1, g) \<and> same_shape t g \<and> num_val T M g = Some (move_result t v (field_scale t - field_scale f1))"
    and sz: "0 < sz" "sz \<le> 64" "\<bar>v\<bar> < 10 ^ sz"
  obtains bs where "indirect_temp func f1 sz (field_scale f1) = Some (f1, bs)"
    "num_val T M (display_temp sz (field_scale f1) bs) = Some v" "length bs = sz"
proof -
  let ?t = "cob_fld COB_TYPE_NUMERIC_DISPLAY sz (field_scale f1) COB_FLAG_HAVE_SIGN [] (replicate sz 0)"
  have "wf_field ?t" using sz(1) by (simp add: wf_field_def data_size_def)
  then obtain g where g: "func f1 ?t = Some (f1, g)" "same_shape ?t g" "num_val T M g = Some v"
    using cv [of ?t] temp_capacity [OF sz(3), of "field_scale f1"] by auto
  have gd: "display_temp sz (field_scale f1) (fdata g) = g" by (rule display_temp_shape [OF g(2)])
  show thesis
  proof (rule that [of "fdata g"])
    show "indirect_temp func f1 sz (field_scale f1) = Some (f1, fdata g)" using g(1) sz(2) by (simp add: indirect_temp_def)
    show "num_val T M (display_temp sz (field_scale f1) (fdata g)) = Some v" using g(3) gd by simp
    show "length (fdata g) = sz" using g(2) by (simp add: same_shape_def fsize_def)
  qed
qed

definition moved_native :: "target \<Rightarrow> cob_module \<Rightarrow> cob_field \<Rightarrow> cob_field \<Rightarrow> int \<Rightarrow> (cob_field \<times> cob_field) option \<Rightarrow> bool" where
  "moved_native T M f1 f2 v r \<longleftrightarrow> (\<exists>g1 g2. r = Some (g1, g2) \<and> same_shape f1 g1 \<and> same_shape f2 g2 \<and>
     num_val T M g1 = Some v \<and> num_val T M g2 = Some (native_result f2 v (field_scale f2 - field_scale f1)))"

lemma native_sel: "native_target M f \<Longrightarrow> fsize f \<noteq> 0 \<and> field_type f = COB_TYPE_NUMERIC_BINARY"
  by (simp add: native_target_def wf_binary_def)

lemma move_display_native:
  assumes v: "num_val T M f1 = Some v" "field_type f1 = COB_TYPE_NUMERIC_DISPLAY" and f2: "native_target M f2"
    and sc: "0 \<le> int (data_size f1) - field_scale f1 + field_scale f2" "int (data_size f1) - field_scale f1 + field_scale f2 < 2 ^ 64"
      "rescale \<bar>v\<bar> (field_scale f2 - field_scale f1) < 2 ^ 63"
  shows "moved_native T M f1 f2 v (cob_move T E M f1 f2)"
proof -
  have "cob_move T E M f1 f2 = cob_move_display_to_binary T M f1 f2"
    using num_val_size [OF v(1)] native_sel [OF f2] v(2) by (subst cob_move.simps) (simp add: is_fp_def)
  then show ?thesis using display_to_native [OF v f2 sc] by (simp only: moved_native_def)
qed

lemma native_through_temp:
  assumes cv: "\<And>t. wf_field t \<Longrightarrow> field_type t = COB_TYPE_NUMERIC_DISPLAY \<Longrightarrow>
      \<exists>g. func f1 t = Some (f1, g) \<and> same_shape t g \<and> num_val T M g = Some (move_result t v (field_scale t - field_scale f1))"
    and sz: "0 < sz" "sz \<le> 64" "\<bar>v\<bar> < 10 ^ sz" and v: "num_val T M f1 = Some v" and f2: "native_target M f2"
    and sc: "0 \<le> int sz - field_scale f1 + field_scale f2" "int sz - field_scale f1 + field_scale f2 < 2 ^ 64"
      "rescale \<bar>v\<bar> (field_scale f2 - field_scale f1) < 2 ^ 63"
  shows "moved_native T M f1 f2 v (do { (s', t) \<leftarrow> indirect_temp func f1 sz (field_scale f1);
     (_, d) \<leftarrow> cob_move T E M (display_temp sz (field_scale f1) t) f2; Some (s', d) })"
proof -
  obtain bs where bs: "indirect_temp func f1 sz (field_scale f1) = Some (f1, bs)"
    "num_val T M (display_temp sz (field_scale f1) bs) = Some v" "length bs = sz" by (rule temp_holds [where func = func and v = v, OF cv sz])
  let ?g = "display_temp sz (field_scale f1) bs"
  have a: "field_type ?g = COB_TYPE_NUMERIC_DISPLAY" "field_scale ?g = field_scale f1" "data_size ?g = sz"
    using bs(3) by (simp_all add: display_temp_def data_size_def)
  obtain g1 g2 where "cob_move T E M ?g f2 = Some (g1, g2)" "same_shape f2 g2"
    "num_val T M g2 = Some (native_result f2 v (field_scale f2 - field_scale f1))"
    using move_display_native [OF bs(2) a(1) f2, of E] sc unfolding moved_native_def a by auto
  then show ?thesis using bs(1) v by (simp add: moved_native_def)
qed

theorem move_native:
  assumes v: "num_val T M f1 = Some v" and f2: "native_target M f2" and ok: "move_fits f1 f2 v"
  shows "moved_native T M f1 f2 v (cob_move T E M f1 f2)"
proof -
  have n: "fsize f1 \<noteq> 0" "fsize f2 \<noteq> 0" "field_type f2 = COB_TYPE_NUMERIC_BINARY" "num_type (field_type f1)"
    using num_val_size [OF v] native_sel [OF f2] by auto
  have sc: "0 \<le> int (source_len f1) - field_scale f1 + field_scale f2" "int (source_len f1) - field_scale f1 + field_scale f2 < 2 ^ 64"
      "rescale \<bar>v\<bar> (field_scale f2 - field_scale f1) < 2 ^ 63" using ok n(3) by (simp_all add: move_fits_def)
  consider "field_type f1 = COB_TYPE_NUMERIC_DISPLAY" | "field_type f1 = COB_TYPE_NUMERIC_PACKED"
    | "field_type f1 = COB_TYPE_NUMERIC_BINARY" using n(4) by (auto simp: num_type_def)
  then show ?thesis
  proof cases
    case 1
    have "source_len f1 = data_size f1" using 1 by (simp add: source_len_def)
    then show ?thesis using sc by (intro move_display_native [OF v 1 f2]) simp_all
  next
    case 2
    have D: "field_digits f1 \<le> 64" using ok 2 by (simp add: move_fits_def)
    have wf: "wf_packed f1" "v = pk_val f1" using v 2 by (auto simp: num_val_def split: if_splits)
    have m: "cob_move T E M f1 f2 = do {
        (s', t) \<leftarrow> indirect_temp (cob_move_packed_to_display M) f1 (field_digits f1) (field_scale f1);
        (_, d) \<leftarrow> cob_move T E M (display_temp (field_digits f1) (field_scale f1) t) f2; Some (s', d) }"
      using n(1-3) 2 by (subst cob_move.simps) simp
    have "0 < field_digits f1" "source_len f1 = field_digits f1" "\<bar>v\<bar> < 10 ^ field_digits f1"
      using wf packed_val_bound [OF wf(1)] 2 by (simp_all add: wf_packed_def source_len_def)
    then show ?thesis unfolding m
      by (intro native_through_temp [where func = "cob_move_packed_to_display M", OF packed_to_display_num [OF v 2 D]])
        (use D v f2 sc in simp_all)
  next
    case 3
    have wf: "wf_binary f1" "v = bin_val T f1" using v 3 by (auto simp: num_val_def split: if_splits)
    have m: "cob_move T E M f1 f2 = do {
        (s', t) \<leftarrow> indirect_temp (cob_move_binary_to_display T M) f1 20 (field_scale f1);
        (_, d) \<leftarrow> cob_move T E M (display_temp 20 (field_scale f1) t) f2; Some (s', d) }"
      using n(1-3) 3 by (subst cob_move.simps) (simp add: other_numeric_def)
    have "source_len f1 = 20" "\<bar>v\<bar> < 10 ^ 20" using bin_val_20 [OF wf(1), of T] wf(2) 3 by (simp_all add: source_len_def)
    then show ?thesis unfolding m
      by (intro native_through_temp [where func = "cob_move_binary_to_display T M", OF binary_to_display_num [OF v 3]])
        (use v f2 sc in simp_all)
  qed
qed

end
