(* ===== verification/Cob_Strings_Facts.thy ===== *)
theory Cob_Strings_Facts
  imports Cob_Strings Cob_Move_Native
begin

text \<open>
  STRING and UNSTRING as whole statements: STRING with its pointer item, and UNSTRING of any
  tokens, an empty one at the end included.
\<close>

section \<open>Storing an integer\<close>

text \<open>An integer item, with room for the number.\<close>

definition counter_for :: "cob_module \<Rightarrow> cob_field \<Rightarrow> int \<Rightarrow> bool" where
  "counter_for M f n \<longleftrightarrow> field_scale f = 0 \<and>
    (num_target M f \<and> n < 10 ^ capacity f \<or>
     native_target M f \<and> n < 2 ^ (8 * fsize f - (if have_sign f then 1 else 0)))"

lemma set_int_val:
  assumes "counter_for M f n" "0 \<le> n" "n < 2 ^ 31"
  shows "\<exists>g. cob_set_int T E M f n = Some g \<and> num_val T M g = Some n \<and> same_shape f g"
proof -
  let ?t = "int_temp T 9 4 n"
  have v: "num_val T M ?t = Some n" using assms(2,3) by (intro int_temp_val) simp_all
  have s: "field_scale ?t = 0" "field_type ?t = COB_TYPE_NUMERIC_BINARY" "field_scale f = 0"
    using assms(1) by (simp_all add: int_temp_def counter_for_def)
  have fits: "move_fits ?t f n" using assms(2,3) s by (simp add: move_fits_def source_len_def rescale_def)
  show ?thesis
  proof (cases "num_target M f \<and> n < 10 ^ capacity f")
    case True
    have "move_result f n 0 = n" using True assms(2) by (simp add: move_result_def rescale_def Let_def)
    then show ?thesis using move_num [OF v _ fits, of E] True s by (auto simp: moved_def cob_set_int_def)
  next
    case False
    then have f: "native_target M f" "n < 2 ^ (8 * fsize f - (if have_sign f then 1 else 0))" "0 < fsize f"
      using assms(1) by (auto simp: counter_for_def native_target_def wf_binary_def)
    have "native_result f n 0 = n"
      by (rule native_result_fits) (use f assms(2) in \<open>auto simp: rescale_def intro: order_trans [of _ 0]\<close>)
    then show ?thesis using move_native [OF v f(1) fits, of E] s by (auto simp: moved_native_def cob_set_int_def)
  qed
qed

lemma display_get_shape: "display_get w k M f = Some (n, g) \<Longrightarrow> same_shape f g"
  unfolding display_get_def
  by (auto simp: bind_eq_Some_conv Let_def split: if_splits option.splits prod.splits
      intro: same_shape_trans [OF get_sign_shape put_sign_shape])

lemma get_int_shape:
  assumes "cob_get_int T E M f = Some (n, g)" "num_type (field_type f)"
  shows "same_shape f g"
  using assms display_get_shape by (auto simp: cob_get_int_def cob_display_get_int_def num_type_def)

lemma counter_for_shape: "same_shape f g \<Longrightarrow> counter_for M g n = counter_for M f n"
  by (simp add: counter_for_def num_target_def native_target_def same_shape_def field_type_def field_digits_def field_scale_def
      have_sign_def real_binary_def wf_field_def wf_binary_def data_size_def sign_separate_def capacity_def cong del: cob_type.case_cong_weak)

section \<open>STRING with a pointer\<close>

lemma string_statement:
  assumes p: "cob_get_int T E M p = Some (int k + 1, p')" "k < fsize dst" "fsize dst < 2 ^ 31 - 1"
    and c: "c = concat (map piece xs)" "m = min (length c) (fsize dst - k)" and room: "counter_for M p (int (k + m) + 1)"
  shows "\<exists>S0 S1 S2 q. cob_string_init R T E M dst (Some p) = Some (cob_clear_exception R, S0) \<and>
    string_items (cob_clear_exception R) S0 xs =
      Some (if fsize dst - k < length c then cob_set_exception (cob_clear_exception R) COB_EC_OVERFLOW_STRING else cob_clear_exception R, S1) \<and>
    cob_string_finish T E M S1 = Some S2 \<and>
    st_dst S2 = set_data dst (take k (fdata dst) @ take m c @ drop (k + m) (fdata dst)) \<and>
    st_ptr S2 = Some q \<and> num_val T M q = Some (int (k + m) + 1)"
proof -
  let ?S = "\<lparr>st_dst = dst, st_ptr = Some p', st_dlm = None, st_offset = int k\<rparr>" and ?R = "cob_clear_exception R"
  have k: "int k < 2 ^ 31" "i32 (int k) = int k" using p(2,3) by (simp_all add: signed_take_bit_int_eq_self)
  have i: "cob_string_init R T E M dst (Some p) = Some (?R, ?S)"
    unfolding cob_string_init_def Let_def option.case p(1) bind.bind_lunit prod.case add_diff_cancel_right' k(2)
    using p(2) by simp
  have "exception_code ?R = 0" by (simp add: cob_clear_exception_def)
  from string_items_concat [OF this, of ?S k c xs m] c p(2) obtain S1 where S1: "string_items ?R ?S xs =
      Some (if fsize dst - k < length c then cob_set_exception ?R COB_EC_OVERFLOW_STRING else ?R, S1)"
    "st_dst S1 = set_data dst (take k (fdata dst) @ take m c @ drop (k + m) (fdata dst))" "st_offset S1 = int (k + m)" "st_ptr S1 = Some p'"
    by auto
  have "num_type (field_type p)" using room by (auto simp: counter_for_def native_target_def num_target_size dest: num_target_size simp: num_type_def)
  then have r: "counter_for M p' (int (k + m) + 1)" using counter_for_shape [OF get_int_shape [OF p(1)]] room by simp
  have "k + m \<le> fsize dst" using c(2) p(2) by simp
  then have n: "int (k + m) + 1 < 2 ^ 31" using p(3) by simp
  obtain q where q: "cob_set_int T E M p' (int (k + m) + 1) = Some q" "num_val T M q = Some (int (k + m) + 1)"
    using set_int_val [OF r _ n, of T E] by auto
  have "cob_string_finish T E M S1 = Some (S1\<lparr>st_ptr := Some q\<rparr>)" using S1(3,4) q(1) by (simp add: cob_string_finish_def)
  then show ?thesis using i S1(1,2) q(2) by force
qed

section \<open>UNSTRING of any tokens\<close>

text \<open>An empty last token is not delivered: its item stays as it was.\<close>

definition delivered :: "bytes list \<Rightarrow> cob_field list \<Rightarrow> cob_field list \<Rightarrow> cob_field list" where
  "delivered ts fs gs = (if last ts = [] then butlast gs @ [last fs] else gs)"

lemma unstring_any_tokens:
  assumes "exception_code R = 0" "un_dlms S = [([c], False)]" "un_offset S = int (length u)"
    "fdata (un_src S) = u @ joined c ts" "\<forall>t\<in>set ts. c \<notin> set t" "ts \<noteq> []"
    "list_all2 (\<lambda>f (t, g). cob_memcpy T E M f t = Some g) fs (zip ts gs)" "length gs = length ts"
  shows "\<exists>S'. unstring_items R T E M S fs = Some (S', delivered ts fs gs) \<and> un_offset S' = int (fsize (un_src S)) \<and>
    un_count S' = un_count S + int (length ts) - (if last ts = [] then 1 else 0) \<and> un_src S' = un_src S \<and> un_ptr S' = un_ptr S"
  using assms
proof (induction ts arbitrary: S u fs gs)
  case (Cons t ts)
  obtain g gs' where gs: "gs = g # gs'" "length gs' = length ts" using Cons.prems(8) by (cases gs) auto
  obtain f fs' where fs: "fs = f # fs'" "cob_memcpy T E M f t = Some g"
    "list_all2 (\<lambda>f (t, g). cob_memcpy T E M f t = Some g) fs' (zip ts gs')"
    using Cons.prems(7) gs by (auto simp: list_all2_Cons2)
  have nt: "c \<notin> set t" using Cons.prems(5) by simp
  show ?case
  proof (cases "ts = []")
    case True
    have one: "fs' = []" "gs' = []" using True fs(3) gs(2) by auto
    show ?thesis
    proof (cases "t = []")
      case True
      then have "cob_unstring_into R T E M S f None None = Some (S, f, None, None)"
        using Cons.prems(3,4) \<open>ts = []\<close> by (simp add: cob_unstring_into_def fsize_def)
      then show ?thesis using True \<open>ts = []\<close> one gs fs(1) Cons.prems(3,4) by (simp add: delivered_def fsize_def)
    next
      case False
      have "unstring_take S (data_size f) = Some (t, None, length (u @ t))"
        using Cons.prems(2-4) scan_none [OF nt, of False u] True by (simp add: unstring_take_def)
      then show ?thesis
        using True False one gs fs Cons.prems(1,3,4) by (auto simp: cob_unstring_into_def fsize_def delivered_def)
    qed
  next
    case False
    let ?rest = "joined c ts"
    have d: "fdata (un_src S) = u @ t @ c # ?rest" using Cons.prems(4) False by (simp add: joined_Cons)
    have take: "unstring_take S (data_size f) = Some (t, Some [c], length (u @ t @ [c]))"
      using Cons.prems(2,3) d scan_one [OF nt, of False u ?rest] by (simp add: unstring_take_def)
    let ?S = "S\<lparr>un_offset := int (length (u @ t @ [c])), un_count := un_count S + 1\<rparr>"
    have into: "cob_unstring_into R T E M S f None None = Some (?S, g, None, None)"
      using take fs(2) Cons.prems(1,3) d by (simp add: cob_unstring_into_def fsize_def)
    obtain S' where "unstring_items R T E M ?S fs' = Some (S', delivered ts fs' gs')" "un_offset S' = int (fsize (un_src S))"
      "un_count S' = un_count ?S + int (length ts) - (if last ts = [] then 1 else 0)" "un_src S' = un_src S" "un_ptr S' = un_ptr S"
      using Cons.IH [of ?S "u @ t @ [c]" fs' gs'] Cons.prems False d fs gs by auto
    moreover have "delivered (t # ts) fs gs = g # delivered ts fs' gs'"
      using False fs(1,3) gs by (auto simp: delivered_def)
    ultimately show ?thesis using into fs False by auto
  qed
qed simp

end
