(* ===== verification/Cob_Layout.thy ===== *)
theory Cob_Layout
  imports Cob_Picture
begin

text \<open>
  The compiler's layout of data items (cobc/field.c): pictures of the usages without one, sizes
  of elementary items, and offsets and sizes of groups with OCCURS, REDEFINES, RENAMES and
  SYNCHRONIZED. The pointers between the items of a record are a tree of their numbers; what an
  item is declared as, its offset and its size are kept under its number.
\<close>

section \<open>Items\<close>

datatype cb_usage = CB_USAGE_BINARY | CB_USAGE_BIT | CB_USAGE_COMP_5 | CB_USAGE_COMP_X | CB_USAGE_DISPLAY
  | CB_USAGE_FLOAT | CB_USAGE_DOUBLE | CB_USAGE_INDEX | CB_USAGE_NATIONAL | CB_USAGE_OBJECT | CB_USAGE_PACKED
  | CB_USAGE_POINTER | CB_USAGE_PROGRAM | CB_USAGE_LENGTH | CB_USAGE_PROGRAM_POINTER
  | CB_USAGE_UNSIGNED_CHAR | CB_USAGE_SIGNED_CHAR | CB_USAGE_UNSIGNED_SHORT | CB_USAGE_SIGNED_SHORT
  | CB_USAGE_UNSIGNED_INT | CB_USAGE_SIGNED_INT | CB_USAGE_UNSIGNED_LONG | CB_USAGE_SIGNED_LONG

datatype cb_storage = CB_STORAGE_CONSTANT | CB_STORAGE_FILE | CB_STORAGE_WORKING | CB_STORAGE_LOCAL
  | CB_STORAGE_LINKAGE | CB_STORAGE_SCREEN | CB_STORAGE_REPORT | CB_STORAGE_COMMUNICATION

text \<open>A literal of a VALUE clause: whether it is numeric, its size, scale and sign.\<close>

record cb_literal =
  lit_numeric :: bool
  lit_size :: nat
  lit_scale :: int
  lit_sign :: bool

record cb_item =
  cf_level :: nat
  cf_storage :: cb_storage
  cf_usage :: cb_usage
  cf_pic :: "cb_picture option"
  cf_values :: "cb_literal list"
  cf_occurs_max :: int
  cf_occurs_depending :: "nat option"
  cf_redefines :: "nat option"
  cf_rename_thru :: "nat option"
  flag_external :: bool
  flag_blank_zero :: bool
  flag_justified :: bool
  flag_sign_separate :: bool
  flag_synchronized :: bool
  flag_occurs :: bool
  flag_invalid :: bool
  flag_binary_swap :: bool
  flag_local :: bool
  flag_base :: bool
  flag_real_binary :: bool
  flag_item_based :: bool
  flag_item_78 :: bool
  flag_any_length :: bool
  flag_is_global :: bool
  flag_is_verified :: bool
  cf_size :: int
  cf_memory_size :: int
  cf_offset :: int

text \<open>A new item.\<close>

definition cb_build_field :: cb_item where
  "cb_build_field = \<lparr>cf_level = 0, cf_storage = CB_STORAGE_WORKING, cf_usage = CB_USAGE_DISPLAY, cf_pic = None,
     cf_values = [], cf_occurs_max = 1, cf_occurs_depending = None, cf_redefines = None, cf_rename_thru = None,
     flag_external = False, flag_blank_zero = False, flag_justified = False, flag_sign_separate = False,
     flag_synchronized = False, flag_occurs = False, flag_invalid = False, flag_binary_swap = False, flag_local = False,
     flag_base = False, flag_real_binary = False, flag_item_based = False, flag_item_78 = False, flag_any_length = False,
     flag_is_global = False, flag_is_verified = False, cf_size = 0, cf_memory_size = 0, cf_offset = 0\<rparr>"

datatype item_tree = Item nat "item_tree list"

fun root :: "item_tree \<Rightarrow> nat" where
  "root (Item i cs) = i"

type_synonym items = "nat \<Rightarrow> cb_item"

section \<open>Configuration and messages\<close>

datatype cb_binary_size = CB_BINARY_SIZE_2_4_8 | CB_BINARY_SIZE_1_2_4_8 | CB_BINARY_SIZE_1__8

text \<open>
  \<open>lc_swap\<close>: binary items are big-endian on a little-endian host; \<open>lc_synchronized\<close>: what
  \<open>cb_verify\<close> answers for the SYNCHRONIZED clause.
\<close>

record layout_conf =
  lc_binary_size :: cb_binary_size
  lc_larger_redefines_ok :: bool
  lc_synchronized :: bool
  lc_swap :: bool
  lc_pointer :: int
  lc_decimal_point :: u8
  lc_currency :: u8

text \<open>The errors reported, each with the item it is about; warnings are left out.\<close>

datatype layout_error = Larger_redefines nat | Group_too_large nat | Binary_too_large nat

section \<open>Pictures of usages without one\<close>

definition ascii :: "string \<Rightarrow> bytes" where
  "ascii s = map of_char s"

definition made_picture :: "layout_conf \<Rightarrow> string \<Rightarrow> cb_picture" where
  "made_picture C s = snd (cb_build_picture (lc_decimal_point C) (lc_currency C) (ascii s))"

definition pic_digits :: "nat list" where
  "pic_digits = [2, 4, 7, 9, 12, 14, 16, 18]"

text \<open>
  A COMP-5 or COMP-X item with a picture of X's becomes a number; one without a picture, or with
  a picture of size 0, is not handled.
\<close>

definition comp_picture :: "layout_conf \<Rightarrow> cb_picture \<Rightarrow> cb_picture option" where
  "comp_picture C p =
    (if pc_category p = CB_CATEGORY_ALPHANUMERIC then
       if 8 < pc_size p then Some (made_picture C ''9(36)'')
       else if pc_size p = 0 then None
       else Some (snd (cb_build_picture (lc_decimal_point C) (lc_currency C)
         (ascii ''9('' @ mpz_get_str10 (int (pic_digits ! (pc_size p - 1))) @ ascii '')'')))
     else Some p)"

definition setup_item :: "layout_conf \<Rightarrow> cb_item \<Rightarrow> cb_item option" where
  "setup_item C f =
    (case cf_usage f of
       CB_USAGE_BINARY \<Rightarrow> Some (if lc_swap C then f\<lparr>flag_binary_swap := True\<rparr> else f)
     | CB_USAGE_INDEX \<Rightarrow> Some (f\<lparr>cf_pic := Some (made_picture C ''S9(9)'')\<rparr>)
     | CB_USAGE_LENGTH \<Rightarrow> Some (f\<lparr>cf_pic := Some (made_picture C ''9(9)'')\<rparr>)
     | CB_USAGE_POINTER \<Rightarrow> Some (f\<lparr>cf_pic := Some (made_picture C ''9(10)'')\<rparr>)
     | CB_USAGE_PROGRAM_POINTER \<Rightarrow> Some (f\<lparr>cf_pic := Some (made_picture C ''9(10)'')\<rparr>)
     | CB_USAGE_FLOAT \<Rightarrow> Some (f\<lparr>cf_pic := Some (made_picture C ''S9(7)V9(7)'')\<rparr>)
     | CB_USAGE_DOUBLE \<Rightarrow> Some (f\<lparr>cf_pic := Some (made_picture C ''S9(9)V9(9)'')\<rparr>)
     | CB_USAGE_COMP_5 \<Rightarrow> do {
         p \<leftarrow> cf_pic f;
         p \<leftarrow> comp_picture C p;
         Some (f\<lparr>cf_pic := Some p\<rparr>) }
     | CB_USAGE_COMP_X \<Rightarrow> do {
         p \<leftarrow> cf_pic f;
         p \<leftarrow> comp_picture C p;
         Some (f\<lparr>cf_pic := Some p, flag_binary_swap := (lc_swap C \<or> flag_binary_swap f)\<rparr>) }
     | _ \<Rightarrow> Some f)"

fun setup_parameters :: "layout_conf \<Rightarrow> item_tree \<Rightarrow> items \<Rightarrow> items option"
  and setup_children :: "layout_conf \<Rightarrow> bool \<Rightarrow> item_tree list \<Rightarrow> items \<Rightarrow> items option" where
  "setup_parameters C (Item i cs) S =
    (if cs \<noteq> [] then setup_children C (flag_local (S i)) cs S
     else map_option (\<lambda>f. S(i := f)) (setup_item C (S i)))"
| "setup_children C local [] S = Some S"
| "setup_children C local (c # cs) S = do {
     S \<leftarrow> setup_parameters C c (S(root c := (S (root c))\<lparr>flag_local := local\<rparr>));
     setup_children C local cs S }"

section \<open>Sizes\<close>

text \<open>A product of C ints; beyond the range of an int its value is undefined.\<close>

definition mul_int :: "int \<Rightarrow> int \<Rightarrow> int option" where
  "mul_int a b = (if - (2 ^ 31) \<le> a * b \<and> a * b < 2 ^ 31 then Some (a * b) else None)"

definition comp_x_size :: "nat \<Rightarrow> int" where
  "comp_x_size n = (if n \<le> 2 then 1 else if n \<le> 4 then 2 else if n \<le> 7 then 3 else if n \<le> 9 then 4
     else if n \<le> 12 then 5 else if n \<le> 14 then 6 else if n \<le> 16 then 7 else if n \<le> 18 then 8 else 16)"

definition signed_1_8_size :: "nat \<Rightarrow> int" where
  "signed_1_8_size n = (if n \<le> 2 then 1 else if n \<le> 4 then 2 else if n \<le> 6 then 3 else if n \<le> 9 then 4
     else if n \<le> 11 then 5 else if n \<le> 14 then 6 else if n \<le> 16 then 7 else if n \<le> 18 then 8 else 16)"

definition binary_bytes :: "layout_conf \<Rightarrow> cb_item \<Rightarrow> cb_picture \<Rightarrow> int" where
  "binary_bytes C f p =
    (let n = pc_size p in
     case lc_binary_size C of
       CB_BINARY_SIZE_2_4_8 \<Rightarrow>
         if flag_real_binary f \<and> n \<le> 2 then 1
         else if n \<le> 4 then 2 else if n \<le> 9 then 4 else if n \<le> 18 then 8 else 16
     | CB_BINARY_SIZE_1_2_4_8 \<Rightarrow>
         if n \<le> 2 then 1 else if n \<le> 4 then 2 else if n \<le> 9 then 4 else if n \<le> 18 then 8 else 16
     | CB_BINARY_SIZE_1__8 \<Rightarrow> if 0 < pc_have_sign p then signed_1_8_size n else comp_x_size n)"

text \<open>The bytes of an elementary item; an item without picture or of another usage has none.\<close>

definition elem_size :: "layout_conf \<Rightarrow> cb_item \<Rightarrow> int option" where
  "elem_size C f =
    (case cf_usage f of
       CB_USAGE_COMP_X \<Rightarrow> map_option (\<lambda>p. if pc_category p = CB_CATEGORY_ALPHANUMERIC then cf_size f else comp_x_size (pc_size p)) (cf_pic f)
     | CB_USAGE_BINARY \<Rightarrow> map_option (binary_bytes C f) (cf_pic f)
     | CB_USAGE_COMP_5 \<Rightarrow> map_option (binary_bytes C f) (cf_pic f)
     | CB_USAGE_DISPLAY \<Rightarrow> map_option (\<lambda>p. int (pc_size p) +
         (if pc_category p = CB_CATEGORY_NUMERIC \<and> 0 < pc_have_sign p \<and> flag_sign_separate f then 1 else 0)) (cf_pic f)
     | CB_USAGE_PACKED \<Rightarrow> map_option (\<lambda>p. int (pc_size p) div 2 + 1) (cf_pic f)
     | CB_USAGE_INDEX \<Rightarrow> Some 4
     | CB_USAGE_LENGTH \<Rightarrow> Some 4
     | CB_USAGE_FLOAT \<Rightarrow> Some 4
     | CB_USAGE_DOUBLE \<Rightarrow> Some 8
     | CB_USAGE_OBJECT \<Rightarrow> Some (lc_pointer C)
     | CB_USAGE_POINTER \<Rightarrow> Some (lc_pointer C)
     | CB_USAGE_PROGRAM_POINTER \<Rightarrow> Some (lc_pointer C)
     | CB_USAGE_PROGRAM \<Rightarrow> Some (lc_pointer C)
     | _ \<Rightarrow> None)"

definition is_binary_usage :: "cb_usage \<Rightarrow> bool" where
  "is_binary_usage u \<longleftrightarrow> u = CB_USAGE_BINARY \<or> u = CB_USAGE_COMP_5"

definition elem_item :: "layout_conf \<Rightarrow> nat \<Rightarrow> cb_item \<Rightarrow> (cb_item \<times> layout_error list) option" where
  "elem_item C i f = do {
     n \<leftarrow> elem_size C f;
     let large = (is_binary_usage (cf_usage f) \<and> (case cf_pic f of Some p \<Rightarrow> 18 < pc_size p | None \<Rightarrow> False));
     Some (f\<lparr>cf_size := n, flag_binary_swap := (flag_binary_swap f \<and> \<not> large)\<rparr>,
       if large then [Binary_too_large i] else []) }"

definition align_size :: "layout_conf \<Rightarrow> cb_item \<Rightarrow> int" where
  "align_size C c =
    (if cf_usage c \<in> {CB_USAGE_BINARY, CB_USAGE_COMP_5, CB_USAGE_COMP_X, CB_USAGE_FLOAT, CB_USAGE_DOUBLE} then
       if cf_size c = 2 \<or> cf_size c = 4 \<or> cf_size c = 8 then cf_size c else 1
     else if cf_usage c \<in> {CB_USAGE_INDEX, CB_USAGE_LENGTH} then 4
     else if cf_usage c \<in> {CB_USAGE_OBJECT, CB_USAGE_POINTER, CB_USAGE_PROGRAM_POINTER, CB_USAGE_PROGRAM} then lc_pointer C
     else 1)"

definition sync_pad :: "layout_conf \<Rightarrow> cb_item \<Rightarrow> int" where
  "sync_pad C c =
    (if flag_synchronized c \<and> lc_synchronized C then
       let a = align_size C c in if cf_offset c smod a \<noteq> 0 then a - cf_offset c smod a else 0
     else 0)"

text \<open>The check of a redefinition of an external item, which ends the computation of each size.\<close>

definition external_check :: "layout_conf \<Rightarrow> nat \<Rightarrow> items \<times> layout_error list \<Rightarrow> (items \<times> layout_error list) option" where
  "external_check C i st =
    (let (S, ms) = st in
     case cf_redefines (S i) of
       None \<Rightarrow> Some st
     | Some r \<Rightarrow>
       if flag_external (S r) then do {
         a \<leftarrow> mul_int (cf_size (S i)) (cf_occurs_max (S i));
         b \<leftarrow> mul_int (cf_size (S r)) (cf_occurs_max (S r));
         Some (S, if b < a \<and> \<not> lc_larger_redefines_ok C then ms @ [Larger_redefines i] else ms) }
       else Some st)"

text \<open>The size of a group is summed up in an unsigned int.\<close>

fun compute_size :: "layout_conf \<Rightarrow> item_tree \<Rightarrow> items \<times> layout_error list \<Rightarrow> (int \<times> items \<times> layout_error list) option"
  and compute_children :: "layout_conf \<Rightarrow> nat \<Rightarrow> int \<Rightarrow> item_tree list \<Rightarrow> items \<times> layout_error list \<Rightarrow>
    (int \<times> items \<times> layout_error list) option" where
  "compute_size C (Item i cs) (S, ms) =
    (if cf_level (S i) = 66 then do {
       r \<leftarrow> cf_redefines (S i);
       let n = (case cf_rename_thru (S i) of
           Some t \<Rightarrow> cf_offset (S t) + cf_size (S t) - cf_offset (S r)
         | None \<Rightarrow> cf_size (S r));
       Some (n, S(i := (S i)\<lparr>cf_size := n\<rparr>), ms) }
     else if cs \<noteq> [] then do {
       (sz, S, ms) \<leftarrow> compute_children C i 0 cs (S, ms);
       let ms = (if sz > 2 ^ 31 - 1 then ms @ [Group_too_large i] else ms);
       (S, ms) \<leftarrow> external_check C i (S(i := (S i)\<lparr>cf_size := i32 sz\<rparr>), ms);
       Some (cf_size (S i), S, ms) }
     else do {
       (f, es) \<leftarrow> elem_item C i (S i);
       (S, ms) \<leftarrow> external_check C i (S(i := f), ms @ es);
       Some (cf_size (S i), S, ms) })"
| "compute_children C i sz [] (S, ms) = Some (sz, S, ms)"
| "compute_children C i sz (c # cs) (S, ms) =
    (case cf_redefines (S (root c)) of
       Some r \<Rightarrow> do {
         let S = S(root c := (S (root c))\<lparr>cf_offset := cf_offset (S r)\<rparr>);
         (_, S, ms) \<leftarrow> compute_size C c (S, ms);
         if cf_level (S (root c)) \<noteq> 66 then do {
           a \<leftarrow> mul_int (cf_size (S (root c))) (cf_occurs_max (S (root c)));
           b \<leftarrow> mul_int (cf_size (S r)) (cf_occurs_max (S r));
           if b < a then
             if lc_larger_redefines_ok C then compute_children C i (u32 (sz + (a - b))) cs (S, ms)
             else compute_children C i sz cs (S, ms @ [Larger_redefines (root c)])
           else compute_children C i sz cs (S, ms) }
         else compute_children C i sz cs (S, ms) }
     | None \<Rightarrow> do {
         let S = S(root c := (S (root c))\<lparr>cf_offset := i32 (cf_offset (S i) + sz)\<rparr>);
         (n, S, ms) \<leftarrow> compute_size C c (S, ms);
         a \<leftarrow> mul_int n (cf_occurs_max (S (root c)));
         let pad = sync_pad C (S (root c));
         compute_children C i (u32 (u32 (sz + a) + pad)) cs
           (S(root c := (S (root c))\<lparr>cf_offset := cf_offset (S (root c)) + pad\<rparr>), ms) })"

end
