(* ===== verification/Cob_Layout_Facts.thy ===== *)
theory Cob_Layout_Facts
  imports Cob_Layout
begin

text \<open>
  The layout of a record: every item lies inside its group, items that do not redefine start
  behind all that comes before them, and a redefining item starts where the item it redefines
  does. It is proved for records below 2 GB (a REDEFINES and the padding counted in full) in
  which a REDEFINES follows its original and only elementary items are SYNCHRONIZED.
\<close>

section \<open>Declarations\<close>

fun ids :: "item_tree \<Rightarrow> nat list" where
  "ids (Item i cs) = i # concat (map ids cs)"

definition kid_ids :: "item_tree list \<Rightarrow> nat list" where
  "kid_ids cs = concat (map ids cs)"

text \<open>What the layout reads of an item and does not change.\<close>

definition decl :: "cb_item \<Rightarrow> nat \<times> cb_usage \<times> cb_picture option \<times> int \<times> nat option \<times> bool \<times> bool \<times> bool \<times> bool" where
  "decl f = (cf_level f, cf_usage f, cf_pic f, cf_occurs_max f, cf_redefines f, flag_external f, flag_synchronized f,
     flag_sign_separate f, flag_real_binary f)"

definition decl_same :: "items \<Rightarrow> items \<Rightarrow> bool" where
  "decl_same S S' \<longleftrightarrow> (\<forall>j. decl (S' j) = decl (S j))"

lemma decl_same_refl [simp]: "decl_same S S"
  by (simp add: decl_same_def)

lemma decl_same_trans: "decl_same S S1 \<Longrightarrow> decl_same S1 S2 \<Longrightarrow> decl_same S S2"
  by (simp add: decl_same_def)

lemma decl_same_offset [simp]: "decl_same S (S(j := (S j)\<lparr>cf_offset := n\<rparr>))"
  by (simp add: decl_same_def decl_def)

lemma decl_same_sel:
  assumes "decl_same S S'"
  shows "cf_level (S' j) = cf_level (S j)" "cf_usage (S' j) = cf_usage (S j)" "cf_pic (S' j) = cf_pic (S j)"
    "cf_occurs_max (S' j) = cf_occurs_max (S j)" "cf_redefines (S' j) = cf_redefines (S j)"
    "flag_external (S' j) = flag_external (S j)" "flag_synchronized (S' j) = flag_synchronized (S j)"
    "flag_sign_separate (S' j) = flag_sign_separate (S j)" "flag_real_binary (S' j) = flag_real_binary (S j)"
  using assms by (auto simp: decl_same_def decl_def)

text \<open>A redefining item follows the item it redefines, with only redefining items between.\<close>

fun redef_ok :: "items \<Rightarrow> nat option \<Rightarrow> item_tree list \<Rightarrow> bool" where
  "redef_ok S prev [] \<longleftrightarrow> True"
| "redef_ok S prev (c # cs) \<longleftrightarrow>
    (case cf_redefines (S (root c)) of
       None \<Rightarrow> redef_ok S (Some (root c)) cs
     | Some r \<Rightarrow> prev = Some r \<and> redef_ok S prev cs)"

definition elem_ok :: "layout_conf \<Rightarrow> cb_item \<Rightarrow> bool" where
  "elem_ok C f \<longleftrightarrow> (case elem_size C f of None \<Rightarrow> False | Some n \<Rightarrow> 0 \<le> n) \<and>
     (cf_usage f = CB_USAGE_COMP_X \<longrightarrow> (case cf_pic f of None \<Rightarrow> False | Some p \<Rightarrow> pc_category p \<noteq> CB_CATEGORY_ALPHANUMERIC))"

fun decl_ok :: "layout_conf \<Rightarrow> items \<Rightarrow> item_tree \<Rightarrow> bool" where
  "decl_ok C S (Item i cs) \<longleftrightarrow>
    cf_level (S i) \<noteq> 66 \<and> 1 \<le> cf_occurs_max (S i) \<and>
    (case cf_redefines (S i) of None \<Rightarrow> True | Some r \<Rightarrow> \<not> flag_external (S r)) \<and>
    (if cs = [] then elem_ok C (S i)
     else \<not> flag_synchronized (S i) \<and> redef_ok S None cs \<and> list_all (decl_ok C S) cs)"

text \<open>A bound of the size, with everything counted in full.\<close>

fun room :: "layout_conf \<Rightarrow> items \<Rightarrow> item_tree \<Rightarrow> int" where
  "room C S (Item i cs) =
    (if cs = [] then (case elem_size C (S i) of None \<Rightarrow> 0 | Some n \<Rightarrow> n)
     else sum_list (map (\<lambda>c. room C S c * cf_occurs_max (S (root c)) + 8) cs))"

definition rooms :: "layout_conf \<Rightarrow> items \<Rightarrow> item_tree list \<Rightarrow> int" where
  "rooms C S cs = sum_list (map (\<lambda>c. room C S c * cf_occurs_max (S (root c)) + 8) cs)"

lemma elem_size_cong: "decl f = decl g \<Longrightarrow> elem_ok C f \<Longrightarrow> elem_size C g = elem_size C f"
  by (auto simp: decl_def elem_ok_def elem_size_def binary_bytes_def Let_def split: cb_usage.splits option.splits)

lemma elem_ok_cong: "decl f = decl g \<Longrightarrow> elem_ok C f \<Longrightarrow> elem_ok C g"
  using elem_size_cong [of f g C] by (auto simp: elem_ok_def decl_def split: option.splits)

lemma redef_ok_cong: "decl_same S S' \<Longrightarrow> redef_ok S' prev cs = redef_ok S prev cs"
  by (induction cs arbitrary: prev) (auto simp: decl_same_sel split: option.splits)

lemma decl_ok_cong: "decl_same S S' \<Longrightarrow> decl_ok C S t \<Longrightarrow> decl_ok C S' t \<and> room C S' t = room C S t"
proof (induction t)
  case (Item i cs)
  have d: "decl (S i) = decl (S' i)" using Item.prems(1) by (simp add: decl_same_def)
  have k: "\<forall>c\<in>set cs. decl_ok C S c \<longrightarrow> decl_ok C S' c \<and> room C S' c = room C S c" using Item.IH Item.prems(1) by blast
  have ext: "(case cf_redefines (S' i) of None \<Rightarrow> True | Some r \<Rightarrow> \<not> flag_external (S' r)) =
    (case cf_redefines (S i) of None \<Rightarrow> True | Some r \<Rightarrow> \<not> flag_external (S r))"
    by (simp add: decl_same_sel [OF Item.prems(1)] split: option.split)
  show ?case
  proof (cases "cs = []")
    case True
    then have "elem_ok C (S i)" using Item.prems(2) by simp
    then show ?thesis using True Item.prems elem_ok_cong [OF d] elem_size_cong [OF d] ext
      by (simp add: decl_same_sel [OF Item.prems(1)])
  next
    case False
    then have c: "\<forall>c\<in>set cs. decl_ok C S c" using Item.prems(2) by (simp add: list_all_iff)
    then have "map (\<lambda>c. room C S' c * cf_occurs_max (S' (root c)) + 8) cs = map (\<lambda>c. room C S c * cf_occurs_max (S (root c)) + 8) cs"
      using k by (simp add: decl_same_sel [OF Item.prems(1)])
    then show ?thesis using False Item.prems k c ext redef_ok_cong [OF Item.prems(1)]
      by (simp add: decl_same_sel [OF Item.prems(1)] list_all_iff del: map_eq_conv)
  qed
qed

lemma rooms_cong: "decl_same S S' \<Longrightarrow> \<forall>c\<in>set cs. decl_ok C S c \<Longrightarrow> rooms C S' cs = rooms C S cs"
  unfolding rooms_def by (intro arg_cong [where f = sum_list] map_cong refl)
    (use decl_ok_cong in \<open>simp add: decl_same_sel\<close>)

lemma room_nonneg: "decl_ok C S t \<Longrightarrow> 0 \<le> room C S t \<and> 1 \<le> cf_occurs_max (S (root t))"
proof (induction t)
  case (Item i cs)
  show ?case
  proof (cases "cs = []")
    case True
    then show ?thesis using Item.prems by (auto simp: elem_ok_def split: option.splits)
  next
    case False
    have "0 \<le> sum_list (map (\<lambda>c. room C S c * cf_occurs_max (S (root c)) + 8) cs)"
      using Item False by (intro sum_list_nonneg) (fastforce simp: list_all_iff)
    then show ?thesis using False Item.prems by simp
  qed
qed

lemma rooms_nonneg: "\<forall>c\<in>set cs. decl_ok C S c \<Longrightarrow> 0 \<le> rooms C S cs"
  unfolding rooms_def using room_nonneg by (intro sum_list_nonneg) (fastforce)


lemma redef_ok_mem:
  "redef_ok S prev cs \<Longrightarrow> c \<in> set cs \<Longrightarrow> cf_redefines (S (root c)) = Some r \<Longrightarrow> prev = Some r \<or> r \<in> set (kid_ids cs)"
proof (induction cs arbitrary: prev)
  case (Cons d cs)
  have d: "root d \<in> set (ids d)" by (cases d) simp
  show ?case
  proof (cases "cf_redefines (S (root d))")
    case None
    then show ?thesis using Cons d by (fastforce simp: kid_ids_def)
  next
    case (Some q)
    then show ?thesis using Cons by (fastforce simp: kid_ids_def)
  qed
qed simp

section \<open>What a layout is\<close>

definition item_end :: "items \<Rightarrow> nat \<Rightarrow> int" where
  "item_end S j = cf_offset (S j) + cf_size (S j) * cf_occurs_max (S j)"

text \<open>The items of a group up to \<open>bnd\<close>, the first of them at \<open>pos\<close> or behind it.\<close>

fun kids_out :: "items \<Rightarrow> int \<Rightarrow> int \<Rightarrow> item_tree list \<Rightarrow> bool" where
  "kids_out S bnd pos [] \<longleftrightarrow> True"
| "kids_out S bnd pos (c # cs) \<longleftrightarrow>
    0 \<le> cf_size (S (root c)) \<and>
    (case cf_redefines (S (root c)) of
       None \<Rightarrow> pos \<le> cf_offset (S (root c))
     | Some r \<Rightarrow> cf_offset (S (root c)) = cf_offset (S r)) \<and>
    item_end S (root c) \<le> bnd \<and> kids_out S bnd (max pos (item_end S (root c))) cs"

fun laid_out :: "layout_conf \<Rightarrow> items \<Rightarrow> item_tree \<Rightarrow> bool" where
  "laid_out C S (Item i cs) \<longleftrightarrow>
    (if cs = [] then elem_size C (S i) = Some (cf_size (S i))
     else kids_out S (cf_offset (S i) + cf_size (S i)) (cf_offset (S i)) cs \<and> list_all (laid_out C S) cs)"

lemma kids_out_mono: "kids_out S bnd pos cs \<Longrightarrow> bnd \<le> bnd' \<Longrightarrow> kids_out S bnd' pos cs"
  by (induction cs arbitrary: pos) auto

lemma root_ids [simp]: "root t \<in> set (ids t)"
  by (cases t) simp

lemma kid_ids_Cons [simp]: "kid_ids (c # cs) = ids c @ kid_ids cs" "kid_ids [] = []"
  by (simp_all add: kid_ids_def)

lemma kid_ids_mem: "c \<in> set cs \<Longrightarrow> set (ids c) \<subseteq> set (kid_ids cs)"
  by (auto simp: kid_ids_def)

lemma kids_out_cong:
  "\<forall>j\<in>A. S' j = S j \<Longrightarrow> \<forall>c\<in>set cs. root c \<in> A \<and> (\<forall>r. cf_redefines (S (root c)) = Some r \<longrightarrow> r \<in> A) \<Longrightarrow>
   kids_out S' bnd pos cs = kids_out S bnd pos cs"
  by (induction cs arbitrary: pos) (auto simp: item_end_def split: option.splits)

lemma laid_out_cong:
  "decl_ok C S t \<Longrightarrow> \<forall>j\<in>set (ids t). S' j = S j \<Longrightarrow> laid_out C S' t = laid_out C S t"
proof (induction t)
  case (Item i cs)
  have i: "S' i = S i" using Item.prems(2) by simp
  show ?case
  proof (cases "cs = []")
    case True
    then show ?thesis using i by simp
  next
    case False
    have k: "laid_out C S' c = laid_out C S c" if "c \<in> set cs" for c
      using that Item False by (fastforce simp: list_all_iff kid_ids_def)
    have "redef_ok S None cs" using Item.prems(1) False by simp
    from redef_ok_mem [OF this] have "\<forall>c\<in>set cs. root c \<in> set (kid_ids cs) \<and> (\<forall>r. cf_redefines (S (root c)) = Some r \<longrightarrow> r \<in> set (kid_ids cs))"
      using kid_ids_mem root_ids by blast
    moreover have "\<forall>j\<in>set (kid_ids cs). S' j = S j" using Item.prems(2) by (simp add: kid_ids_def)
    ultimately have "kids_out S' bnd pos cs = kids_out S bnd pos cs" for bnd pos by (intro kids_out_cong) auto
    then show ?thesis using k i False by (simp add: list_all_iff)
  qed
qed

section \<open>One item\<close>

definition size_good :: "layout_conf \<Rightarrow> item_tree \<Rightarrow> bool" where
  "size_good C t \<longleftrightarrow> (\<forall>S ms. decl_ok C S t \<longrightarrow> distinct (ids t) \<longrightarrow> 0 \<le> cf_offset (S (root t)) \<longrightarrow>
     cf_offset (S (root t)) + room C S t < 2 ^ 31 \<longrightarrow>
     (\<exists>S' new. compute_size C t (S, ms) = Some (cf_size (S' (root t)), S', ms @ new) \<and>
        0 \<le> cf_size (S' (root t)) \<and> cf_size (S' (root t)) \<le> room C S t \<and>
        cf_offset (S' (root t)) = cf_offset (S (root t)) \<and> decl_same S S' \<and>
        (\<forall>j. j \<notin> set (ids t) \<longrightarrow> S' j = S j) \<and> (new = [] \<longrightarrow> laid_out C S' t)))"

lemma external_check_same:
  "(case cf_redefines (S i) of None \<Rightarrow> True | Some r \<Rightarrow> \<not> flag_external (S r)) \<Longrightarrow> external_check C i (S, ms) = Some (S, ms)"
  by (auto simp: external_check_def split: option.splits)

lemma mul_int_ok: "0 \<le> a * b \<Longrightarrow> a * b < 2 ^ 31 \<Longrightarrow> mul_int a b = Some (a * b)"
  by (simp add: mul_int_def)

lemma sync_pad_range:
  assumes "0 \<le> cf_offset f" "0 < lc_pointer C" "lc_pointer C \<le> 8"
  shows "0 \<le> sync_pad C f \<and> sync_pad C f \<le> 7"
proof -
  have a: "0 < align_size C f \<and> align_size C f \<le> 8" using assms(2,3) by (auto simp: align_size_def)
  have "0 \<le> cf_offset f smod align_size C f \<and> cf_offset f smod align_size C f < align_size C f"
    using assms(1) a by (cases "cf_offset f = 0") (simp_all add: smod_int_alt_def)
  then show ?thesis using a by (auto simp: sync_pad_def Let_def)
qed


lemma elem_item_Some:
  "elem_size C f = Some n \<Longrightarrow> \<exists>b es. elem_item C i f = Some (f\<lparr>cf_size := n, flag_binary_swap := b\<rparr>, es)"
  by (auto simp: elem_item_def Let_def)

lemma elem_good: "size_good C (Item i [])"
  unfolding size_good_def
proof (intro allI impI)
  fix S ms
  assume h: "decl_ok C S (Item i [])" "0 \<le> cf_offset (S (root (Item i [])))"
    "cf_offset (S (root (Item i []))) + room C S (Item i []) < 2 ^ 31"
  obtain n where n: "elem_size C (S i) = Some n" "0 \<le> n" using h(1) by (auto simp: elem_ok_def split: option.splits)
  obtain b es where e: "elem_item C i (S i) = Some ((S i)\<lparr>cf_size := n, flag_binary_swap := b\<rparr>, es)"
    using elem_item_Some [OF n(1)] by blast
  let ?f = "(S i)\<lparr>cf_size := n, flag_binary_swap := b\<rparr>"
  let ?S = "S(i := ?f)"
  have d: "decl ?f = decl (S i)" by (simp add: decl_def)
  then have ds: "decl_same S ?S" by (simp add: decl_same_def)
  have "case cf_redefines (?S i) of None \<Rightarrow> True | Some r \<Rightarrow> \<not> flag_external (?S r)"
    using h(1) by (auto split: option.splits)
  then have x: "external_check C i (?S, ms @ es) = Some (?S, ms @ es)" by (rule external_check_same)
  have "elem_ok C (S i)" using h(1) by simp
  then have z: "elem_size C ?f = Some n" using elem_size_cong [of "S i" ?f] d n(1) by simp
  have c: "compute_size C (Item i []) (S, ms) = Some (n, ?S, ms @ es)" using h(1) e x by simp
  show "\<exists>S' new. compute_size C (Item i []) (S, ms) = Some (cf_size (S' (root (Item i []))), S', ms @ new) \<and>
      0 \<le> cf_size (S' (root (Item i []))) \<and> cf_size (S' (root (Item i []))) \<le> room C S (Item i []) \<and>
      cf_offset (S' (root (Item i []))) = cf_offset (S (root (Item i []))) \<and> decl_same S S' \<and>
      (\<forall>j. j \<notin> set (ids (Item i [])) \<longrightarrow> S' j = S j) \<and> (new = [] \<longrightarrow> laid_out C S' (Item i []))"
    by (intro exI [of _ ?S] exI [of _ es]) (use c n ds z in simp)
qed


section \<open>The items of a group\<close>

definition kids_ready :: "layout_conf \<Rightarrow> nat \<Rightarrow> items \<Rightarrow> int \<Rightarrow> nat option \<Rightarrow> int \<Rightarrow> item_tree list \<Rightarrow> bool" where
  "kids_ready C i S sz prev pos cs \<longleftrightarrow>
    (\<forall>c\<in>set cs. decl_ok C S c) \<and> redef_ok S prev cs \<and> distinct (kid_ids cs) \<and> i \<notin> set (kid_ids cs) \<and>
    0 \<le> cf_offset (S i) \<and> 0 \<le> sz \<and> cf_offset (S i) + sz + rooms C S cs < 2 ^ 31 \<and> pos \<le> cf_offset (S i) + sz \<and>
    (\<forall>r. prev = Some r \<longrightarrow> r \<notin> set (kid_ids cs) \<and> 0 \<le> cf_offset (S r) \<and> 0 \<le> cf_size (S r) \<and> 1 \<le> cf_occurs_max (S r) \<and>
       item_end S r \<le> cf_offset (S i) + sz)"

definition kids_done :: "layout_conf \<Rightarrow> nat \<Rightarrow> items \<Rightarrow> int \<Rightarrow> int \<Rightarrow> item_tree list \<Rightarrow> layout_error list \<Rightarrow>
    (int \<times> items \<times> layout_error list) option \<Rightarrow> bool" where
  "kids_done C i S sz pos cs ms r \<longleftrightarrow> (\<exists>sz' S' new. r = Some (sz', S', ms @ new) \<and> sz \<le> sz' \<and> sz' \<le> sz + rooms C S cs \<and>
     decl_same S S' \<and> (\<forall>j. j \<notin> set (kid_ids cs) \<longrightarrow> S' j = S j) \<and>
     (new = [] \<longrightarrow> kids_out S' (cf_offset (S i) + sz') pos cs \<and> list_all (laid_out C S') cs))"

lemma ready_tail:
  assumes "kids_ready C i S sz prev pos (c # cs)" "decl_same S S2" "\<forall>j. j \<notin> set (ids c) \<longrightarrow> S2 j = S j"
    and "sz \<le> sz2" "sz2 \<le> sz + room C S c * cf_occurs_max (S (root c)) + 8" "pos2 \<le> cf_offset (S i) + sz2"
    and "redef_ok S (Some r) cs" "r \<notin> set (kid_ids cs)" "0 \<le> cf_offset (S2 r)" "0 \<le> cf_size (S2 r)" "1 \<le> cf_occurs_max (S r)"
      "item_end S2 r \<le> cf_offset (S i) + sz2"
  shows "kids_ready C i S2 sz2 (Some r) pos2 cs"
proof -
  have k: "\<forall>c\<in>set cs. decl_ok C S c" "S2 i = S i" "0 \<le> cf_offset (S i)" "0 \<le> sz" "distinct (kid_ids cs)" "i \<notin> set (kid_ids cs)"
    "cf_offset (S i) + sz + rooms C S (c # cs) < 2 ^ 31"
    using assms(1,3) by (auto simp: kids_ready_def)
  have "rooms C S2 cs = rooms C S cs" by (rule rooms_cong [OF assms(2) k(1)])
  moreover have "rooms C S (c # cs) = room C S c * cf_occurs_max (S (root c)) + 8 + rooms C S cs" by (simp add: rooms_def)
  moreover have "\<forall>c\<in>set cs. decl_ok C S2 c" using decl_ok_cong [OF assms(2)] k(1) by blast
  ultimately show ?thesis using assms(4-12) k redef_ok_cong [OF assms(2)]
    by (simp add: kids_ready_def decl_same_sel [OF assms(2)])
qed

lemma done_cons:
  assumes "kids_ready C i S sz prev pos (c # cs)" "decl_same S S2" "\<forall>j. j \<notin> set (ids c) \<longrightarrow> S2 j = S j"
    and "sz \<le> sz2" "sz2 \<le> sz + room C S c * cf_occurs_max (S (root c)) + 8"
    and "kids_done C i S2 sz2 pos2 cs (ms @ new2) r"
    and "new2 = [] \<Longrightarrow> laid_out C S2 c \<and> 0 \<le> cf_size (S2 (root c)) \<and> pos2 = max pos (item_end S2 (root c)) \<and>
      item_end S2 (root c) \<le> cf_offset (S i) + sz2 \<and>
      (case cf_redefines (S (root c)) of None \<Rightarrow> pos \<le> cf_offset (S2 (root c))
       | Some q \<Rightarrow> cf_offset (S2 (root c)) = cf_offset (S2 q) \<and> q \<notin> set (kid_ids cs))"
  shows "kids_done C i S sz pos (c # cs) ms r"
proof -
  have k: "\<forall>c\<in>set cs. decl_ok C S c" "decl_ok C S c" "S2 i = S i" "distinct (ids c)" "set (ids c) \<inter> set (kid_ids cs) = {}"
    using assms(1,3) by (auto simp: kids_ready_def)
  obtain sz' S' new where g: "r = Some (sz', S', (ms @ new2) @ new)" "sz2 \<le> sz'" "sz' \<le> sz2 + rooms C S2 cs" "decl_same S2 S'"
    "\<forall>j. j \<notin> set (kid_ids cs) \<longrightarrow> S' j = S2 j"
    "new = [] \<longrightarrow> kids_out S' (cf_offset (S i) + sz') pos2 cs \<and> list_all (laid_out C S') cs"
    using assms(6) k(3) by (auto simp: kids_done_def)
  have rm: "rooms C S2 cs = rooms C S cs" by (rule rooms_cong [OF assms(2) k(1)])
  have ds: "decl_same S S'" by (rule decl_same_trans [OF assms(2) g(4)])
  have same: "\<forall>j\<in>set (ids c). S' j = S2 j" using g(5) k(5) by blast
  have lay: "laid_out C S' c = laid_out C S2 c" by (rule laid_out_cong [OF _ same]) (use decl_ok_cong [OF assms(2) k(2)] in simp)
  have "S' (root c) = S2 (root c)" using same by simp
  then have e: "item_end S' (root c) = item_end S2 (root c)" by (simp add: item_end_def)
  have out: "kids_out S' (cf_offset (S i) + sz') pos (c # cs) \<and> list_all (laid_out C S') (c # cs)" if "new2 @ new = []"
    using that assms(7) g(2,5,6) lay e \<open>S' (root c) = S2 (root c)\<close>
    by (auto simp: decl_same_sel [OF ds] decl_same_sel [OF assms(2)] split: option.splits)
  show ?thesis unfolding kids_done_def
    by (intro exI [of _ sz'] exI [of _ S'] exI [of _ "new2 @ new"])
      (use g assms(3,4,5) rm ds out in \<open>simp add: rooms_def\<close>)
qed


lemma sized:
  assumes "size_good C c" "decl_ok C S c" "distinct (ids c)" "0 \<le> p" "p + room C S c * cf_occurs_max (S (root c)) < 2 ^ 31"
  shows "\<exists>S1 new. compute_size C c (S(root c := (S (root c))\<lparr>cf_offset := p\<rparr>), ms) = Some (cf_size (S1 (root c)), S1, ms @ new) \<and>
    0 \<le> cf_size (S1 (root c)) \<and> cf_size (S1 (root c)) * cf_occurs_max (S (root c)) \<le> room C S c * cf_occurs_max (S (root c)) \<and>
    0 \<le> cf_size (S1 (root c)) * cf_occurs_max (S (root c)) \<and> cf_offset (S1 (root c)) = p \<and> decl_same S S1 \<and>
    (\<forall>j. j \<notin> set (ids c) \<longrightarrow> S1 j = S j) \<and> (new = [] \<longrightarrow> laid_out C S1 c)"
proof -
  let ?S = "S(root c := (S (root c))\<lparr>cf_offset := p\<rparr>)"
  have d: "decl_same S ?S" by simp
  have r: "decl_ok C ?S c" "room C ?S c = room C S c" using decl_ok_cong [OF d assms(2)] by simp_all
  have o: "0 \<le> room C S c" "1 \<le> cf_occurs_max (S (root c))" using room_nonneg [OF assms(2)] by simp_all
  have "room C S c \<le> room C S c * cf_occurs_max (S (root c))" using mult_left_mono [OF o(2,1)] by simp
  then have "cf_offset (?S (root c)) + room C ?S c < 2 ^ 31" "0 \<le> cf_offset (?S (root c))" using assms(4,5) r(2) by simp_all
  then obtain S1 new where g: "compute_size C c (?S, ms) = Some (cf_size (S1 (root c)), S1, ms @ new)" "0 \<le> cf_size (S1 (root c))"
    "cf_size (S1 (root c)) \<le> room C S c" "cf_offset (S1 (root c)) = p" "decl_same ?S S1" "\<forall>j. j \<notin> set (ids c) \<longrightarrow> S1 j = ?S j"
    "new = [] \<longrightarrow> laid_out C S1 c"
    using assms(1) [unfolded size_good_def, rule_format, OF r(1) assms(3), of ms] unfolding r(2) by auto
  have "\<forall>j. j \<notin> set (ids c) \<longrightarrow> S1 j = S j" using g(6) root_ids by (metis fun_upd_other)
  moreover have "0 \<le> cf_size (S1 (root c)) * cf_occurs_max (S (root c))" using g(2) o(2) by simp
  moreover have "cf_size (S1 (root c)) * cf_occurs_max (S (root c)) \<le> room C S c * cf_occurs_max (S (root c))"
    using g(3) o(2) by (simp add: mult_right_mono)
  ultimately show ?thesis using g decl_same_trans [OF d g(5)] by blast
qed

lemma laid_out_pad:
  assumes "decl_ok C S c" "decl_same S S1" "laid_out C S1 c"
  shows "laid_out C (S1(root c := (S1 (root c))\<lparr>cf_offset := cf_offset (S1 (root c)) + sync_pad C (S1 (root c))\<rparr>)) c"
proof (cases c)
  case (Item i cs)
  let ?S = "S1(i := (S1 i)\<lparr>cf_offset := cf_offset (S1 i) + sync_pad C (S1 i)\<rparr>)"
  show ?thesis
  proof (cases "cs = []")
    case True
    have d: "decl (S i) = decl (S1 i)" "decl (S i) = decl (?S i)" using assms(2) by (auto simp: decl_same_def decl_def)
    have "elem_ok C (S i)" using assms(1) Item True by simp
    from elem_size_cong [OF d(1) this] elem_size_cong [OF d(2) this] show ?thesis using assms(3) Item True by simp
  next
    case False
    then have "sync_pad C (S1 i) = 0" using assms(1) Item by (simp add: sync_pad_def decl_same_sel [OF assms(2)])
    then have "?S = S1" by (simp add: fun_upd_idem)
    then show ?thesis using assms(3) Item by simp
  qed
qed

text \<open>An item that redefines nothing.\<close>

lemma plain_step:
  assumes c: "size_good C c" and cs: "\<And>S sz prev pos ms. kids_ready C i S sz prev pos cs \<Longrightarrow> kids_done C i S sz pos cs ms (compute_children C i sz cs (S, ms))"
    and C: "0 < lc_pointer C" "lc_pointer C \<le> 8"
    and h: "kids_ready C i S sz prev pos (c # cs)" "cf_redefines (S (root c)) = None"
  shows "kids_done C i S sz pos (c # cs) ms (compute_children C i sz (c # cs) (S, ms))"
proof -
  let ?k = "root c" and ?p = "cf_offset (S i) + sz" and ?o = "cf_occurs_max (S (root c))"
  have k: "decl_ok C S c" "\<forall>c\<in>set cs. decl_ok C S c" "distinct (ids c)" "i \<noteq> ?k" "?k \<notin> set (kid_ids cs)" "0 \<le> cf_offset (S i)" "0 \<le> sz"
    "pos \<le> ?p" "?p + (room C S c * ?o + 8 + rooms C S cs) < 2 ^ 31" "redef_ok S (Some ?k) cs"
    using h root_ids [of c] by (auto simp: kids_ready_def rooms_def simp del: root_ids)
  have rs: "0 \<le> rooms C S cs" "0 \<le> room C S c" "1 \<le> ?o" using rooms_nonneg [OF k(2)] room_nonneg [OF k(1)] by simp_all
  have p: "0 \<le> ?p" "?p + room C S c * ?o < 2 ^ 31" using k(6,7,9) rs(1) by linarith+
  have "0 \<le> room C S c * ?o" using rs(2,3) by simp
  then have i32: "i32 ?p = ?p" using p by (intro i32_id) simp_all
  obtain S1 new where g: "compute_size C c (S(?k := (S ?k)\<lparr>cf_offset := ?p\<rparr>), ms) = Some (cf_size (S1 ?k), S1, ms @ new)"
    "0 \<le> cf_size (S1 ?k)" "cf_size (S1 ?k) * ?o \<le> room C S c * ?o" "0 \<le> cf_size (S1 ?k) * ?o" "cf_offset (S1 ?k) = ?p" "decl_same S S1"
    "\<forall>j. j \<notin> set (ids c) \<longrightarrow> S1 j = S j" "new = [] \<longrightarrow> laid_out C S1 c"
    using sized [OF c k(1,3) p, of ms] by blast
  let ?a = "cf_size (S1 ?k) * ?o" and ?pad = "sync_pad C (S1 ?k)"
  let ?sz2 = "sz + ?a + ?pad"
  define S2 where "S2 = S1(?k := (S1 ?k)\<lparr>cf_offset := cf_offset (S1 ?k) + ?pad\<rparr>)"
  have pad: "0 \<le> ?pad" "?pad \<le> 7" using sync_pad_range [OF _ C, of "S1 ?k"] p(1) g(5) by simp_all
  have a: "mul_int (cf_size (S1 ?k)) (cf_occurs_max (S1 ?k)) = Some ?a"
    using g(3,4) p k(6) by (simp add: mul_int_def decl_same_sel [OF g(6)])
  have "sz + ?a + ?pad < 2 ^ 31" "sz + ?a < 2 ^ 31" using g(3) pad k(6,9) rs(1) by linarith+
  then have u: "u32 (u32 (sz + ?a) + ?pad) = ?sz2" using k(7) g(4) pad by (simp add: u32_id)
  have d2: "decl_same S S2" using g(6) by (simp add: S2_def decl_same_def decl_def)
  have s2: "\<forall>j. j \<notin> set (ids c) \<longrightarrow> S2 j = S j" using g(7) root_ids by (auto simp: S2_def)
  have e2: "item_end S2 ?k = cf_offset (S i) + ?sz2" "cf_offset (S2 ?k) = ?p + ?pad" "cf_size (S2 ?k) = cf_size (S1 ?k)"
    using g(5) by (simp_all add: S2_def item_end_def decl_same_sel [OF g(6)])
  have r: "compute_children C i sz (c # cs) (S, ms) = compute_children C i ?sz2 cs (S2, ms @ new)"
    using h(2) g(1) i32 a u by (simp add: Let_def S2_def)
  let ?pos2 = "max pos (item_end S2 ?k)"
  have pos2: "?pos2 \<le> cf_offset (S i) + ?sz2" using e2(1) k(8) g(4) pad by simp
  have "kids_ready C i S2 ?sz2 (Some ?k) ?pos2 cs"
    by (rule ready_tail [OF h(1) d2 s2 _ _ pos2 k(10,5) _ _ rs(3)]) (use g(2,3,4) pad e2 p(1) in simp_all)
  from cs [OF this, of "ms @ new"] show ?thesis unfolding r
    by (rule done_cons [OF h(1) d2 s2, rotated 2])
      (use g pad e2 k(8) h(2) laid_out_pad [OF k(1) g(6), folded S2_def] in \<open>simp_all\<close>)
qed


text \<open>An item that redefines the last one that does not.\<close>

lemma redef_step:
  assumes c: "size_good C c" and cs: "\<And>S sz prev pos ms. kids_ready C i S sz prev pos cs \<Longrightarrow> kids_done C i S sz pos cs ms (compute_children C i sz cs (S, ms))"
    and h: "kids_ready C i S sz prev pos (c # cs)" "cf_redefines (S (root c)) = Some r"
  shows "kids_done C i S sz pos (c # cs) ms (compute_children C i sz (c # cs) (S, ms))"
proof -
  let ?k = "root c" and ?o = "cf_occurs_max (S (root c))"
  have k: "decl_ok C S c" "\<forall>c\<in>set cs. decl_ok C S c" "distinct (ids c)" "0 \<le> cf_offset (S i)" "0 \<le> sz"
    "pos \<le> cf_offset (S i) + sz" "cf_offset (S i) + sz + (room C S c * ?o + 8 + rooms C S cs) < 2 ^ 31" "redef_ok S (Some r) cs"
    "r \<notin> set (ids c)" "r \<notin> set (kid_ids cs)" "0 \<le> cf_offset (S r)" "0 \<le> cf_size (S r)" "1 \<le> cf_occurs_max (S r)"
    "item_end S r \<le> cf_offset (S i) + sz"
    using h by (auto simp: kids_ready_def rooms_def)
  have rs: "0 \<le> rooms C S cs" "0 \<le> room C S c" "1 \<le> ?o" using rooms_nonneg [OF k(2)] room_nonneg [OF k(1)] by simp_all
  let ?b = "cf_size (S r) * cf_occurs_max (S r)"
  have b: "0 \<le> ?b" "cf_offset (S r) + ?b \<le> cf_offset (S i) + sz" using k(12-14) by (simp_all add: item_end_def)
  have p: "cf_offset (S r) + room C S c * ?o < 2 ^ 31" using b k(7) rs(1) by linarith
  obtain S1 new where g: "compute_size C c (S(?k := (S ?k)\<lparr>cf_offset := cf_offset (S r)\<rparr>), ms) = Some (cf_size (S1 ?k), S1, ms @ new)"
    "0 \<le> cf_size (S1 ?k)" "cf_size (S1 ?k) * ?o \<le> room C S c * ?o" "0 \<le> cf_size (S1 ?k) * ?o" "cf_offset (S1 ?k) = cf_offset (S r)"
    "decl_same S S1" "\<forall>j. j \<notin> set (ids c) \<longrightarrow> S1 j = S j" "new = [] \<longrightarrow> laid_out C S1 c"
    using sized [OF c k(1,3,11) p, of ms] by blast
  let ?a = "cf_size (S1 ?k) * ?o"
  have S1r: "S1 r = S r" using g(7) k(9) by blast
  have lvl: "cf_level (S1 ?k) \<noteq> 66" using k(1) by (cases c) (simp add: decl_same_sel [OF g(6)])
  have ab: "mul_int (cf_size (S1 ?k)) (cf_occurs_max (S1 ?k)) = Some ?a" "mul_int (cf_size (S r)) (cf_occurs_max (S r)) = Some ?b"
    using g(3,4) p b k(4,7,11) rs(1) by (simp_all add: mul_int_def decl_same_sel [OF g(6)])
  have e: "item_end S1 ?k = cf_offset (S r) + ?a" using g(5) by (simp add: item_end_def decl_same_sel [OF g(6)])
  have tail: "kids_done C i S sz pos (c # cs) ms (compute_children C i sz2 cs (S1, ms @ new2))"
    if t: "sz \<le> sz2" "sz2 \<le> sz + ?a" "new2 = [] \<Longrightarrow> new = [] \<and> cf_offset (S r) + ?a \<le> cf_offset (S i) + sz2" for sz2 new2
  proof -
    define pos2 where "pos2 = (if new2 = [] then max pos (item_end S1 ?k) else pos)"
    have sz2: "sz2 \<le> sz + room C S c * ?o + 8" using t(2) g(3) by linarith
    have pos2: "pos2 \<le> cf_offset (S i) + sz2" using t k(6) e by (auto simp: pos2_def)
    have er: "item_end S1 r = item_end S r" by (simp add: item_end_def S1r)
    have "kids_ready C i S1 sz2 (Some r) pos2 cs"
      by (rule ready_tail [OF h(1) g(6,7) t(1) sz2 pos2 k(8,10) _ _ k(13)]) (use er S1r k t(1) in simp_all)
    from cs [OF this, of "ms @ new2"] show ?thesis
      by (rule done_cons [OF h(1) g(6,7) t(1) sz2]) (use t(3) g(2,5,8) e h(2) S1r k(10) in \<open>simp_all add: pos2_def\<close>)
  qed
  have u: "u32 (sz + (?a - ?b)) = sz + (?a - ?b)" if "?b < ?a" 
  proof -
    have "sz + (?a - ?b) < 2 ^ 31" using g(3) b(1) k(4,7) rs(1) by linarith
    then show ?thesis using that k(5) by (intro u32_id) simp_all
  qed
  show ?thesis
  proof (cases "?b < ?a")
    case True
    then show ?thesis
      using h(2) g(1) lvl ab u S1r tail [of "sz + (?a - ?b)" new] tail [of sz "new @ [Larger_redefines ?k]"] b g(4)
      by (cases "lc_larger_redefines_ok C") simp_all
  next
    case False
    then show ?thesis using h(2) g(1) lvl ab S1r tail [of sz new] b g(4) by simp
  qed
qed

lemma kids_good:
  assumes "\<forall>c\<in>set cs. size_good C c" "0 < lc_pointer C" "lc_pointer C \<le> 8"
  shows "kids_ready C i S sz prev pos cs \<Longrightarrow> kids_done C i S sz pos cs ms (compute_children C i sz cs (S, ms))"
  using assms(1)
proof (induction cs arbitrary: S sz prev pos ms)
  case Nil
  then show ?case by (simp add: kids_done_def rooms_def)
next
  case (Cons c cs)
  then have cs: "kids_ready C i S sz prev pos cs \<Longrightarrow> kids_done C i S sz pos cs ms (compute_children C i sz cs (S, ms))" for S sz prev pos ms
    by simp
  have c: "size_good C c" using Cons.prems(2) by simp
  show ?case
  proof (cases "cf_redefines (S (root c))")
    case None
    show ?thesis by (rule plain_step [OF c cs assms(2,3) Cons.prems(1) None])
  next
    case (Some r)
    show ?thesis by (rule redef_step [OF c cs Cons.prems(1) Some])
  qed
qed

section \<open>The whole record\<close>

lemma group_good:
  assumes "\<forall>c\<in>set cs. size_good C c" "0 < lc_pointer C" "lc_pointer C \<le> 8" "cs \<noteq> []"
  shows "size_good C (Item i cs)"
  unfolding size_good_def
proof (intro allI impI)
  fix S ms
  assume h: "decl_ok C S (Item i cs)" "distinct (ids (Item i cs))" "0 \<le> cf_offset (S (root (Item i cs)))"
    "cf_offset (S (root (Item i cs))) + room C S (Item i cs) < 2 ^ 31"
  have "kids_ready C i S 0 None (cf_offset (S i)) cs"
    using h assms(4) by (simp add: kids_ready_def kid_ids_def rooms_def list_all_iff)
  from kids_good [OF assms(1-3) this, of ms] obtain sz S1 new where g: "compute_children C i 0 cs (S, ms) = Some (sz, S1, ms @ new)"
    "0 \<le> sz" "sz \<le> rooms C S cs" "decl_same S S1" "\<forall>j. j \<notin> set (kid_ids cs) \<longrightarrow> S1 j = S j"
    "new = [] \<longrightarrow> kids_out S1 (cf_offset (S i) + sz) (cf_offset (S i)) cs \<and> list_all (laid_out C S1) cs"
    by (auto simp: kids_done_def)
  have rm: "room C S (Item i cs) = rooms C S cs" using assms(4) by (simp add: rooms_def)
  have sz: "sz < 2 ^ 31" using g(3) h(3,4) rm by simp
  let ?S = "S1(i := (S1 i)\<lparr>cf_size := sz\<rparr>)"
  have i: "i \<notin> set (kid_ids cs)" "S1 i = S i" using h(2) g(5) by (auto simp: kid_ids_def)
  have ds: "decl_same S ?S" using g(4) by (simp add: decl_same_def decl_def)
  have x: "external_check C i (?S, ms @ new) = Some (?S, ms @ new)"
    by (rule external_check_same) (use h(1) in \<open>auto simp: decl_same_sel [OF g(4)] split: option.splits\<close>)
  have c: "compute_size C (Item i cs) (S, ms) = Some (sz, ?S, ms @ new)"
    using g(1,2) sz h(1) assms(4) x by (simp add: i32_id)
  have same: "\<forall>j\<in>set (kid_ids cs). ?S j = S1 j" using i(1) by auto
  have ok: "redef_ok S1 None cs" "\<forall>c\<in>set cs. decl_ok C S1 c"
    using h(1) assms(4) redef_ok_cong [OF g(4)] decl_ok_cong [OF g(4)] by (auto simp: list_all_iff)
  have "kids_out ?S bnd pos cs = kids_out S1 bnd pos cs" for bnd pos
    using redef_ok_mem [OF ok(1)] kid_ids_mem root_ids by (intro kids_out_cong [OF same]) blast
  moreover have "laid_out C ?S c = laid_out C S1 c" if "c \<in> set cs" for c
    by (rule laid_out_cong) (use ok(2) same that kid_ids_mem in blast)+
  ultimately have l: "new = [] \<longrightarrow> laid_out C ?S (Item i cs)" using g(6) i(2) assms(4) by (simp add: list_all_iff)
  show "\<exists>S' new. compute_size C (Item i cs) (S, ms) = Some (cf_size (S' (root (Item i cs))), S', ms @ new) \<and>
      0 \<le> cf_size (S' (root (Item i cs))) \<and> cf_size (S' (root (Item i cs))) \<le> room C S (Item i cs) \<and>
      cf_offset (S' (root (Item i cs))) = cf_offset (S (root (Item i cs))) \<and> decl_same S S' \<and>
      (\<forall>j. j \<notin> set (ids (Item i cs)) \<longrightarrow> S' j = S j) \<and> (new = [] \<longrightarrow> laid_out C S' (Item i cs))"
    by (intro exI [of _ ?S] exI [of _ new]) (use c l ds g(2,3,5) rm i(2) in \<open>simp add: kid_ids_def\<close>)
qed

theorem all_sized: "0 < lc_pointer C \<Longrightarrow> lc_pointer C \<le> 8 \<Longrightarrow> size_good C t"
proof (induction t)
  case (Item i cs)
  then show ?case by (cases "cs = []") (simp_all add: elem_good group_good)
qed

end
