(* ===== verification/Spec2Isabelle.thy ===== *)
theory Spec2Isabelle
  imports Cob_Codegen_Native Cob_Codegen_Swapped Cob_Strings Cob_Records Cob_File_Safety Cob_Relative Cob_Sort_Stable Cob_Intrinsic_Num Cob_Class Cob_Pretty Cob_Move_Safe Cob_Strings_Facts Cob_Layout_Facts
begin

text \<open>
  A verification library for the run-time system of the GNU Cobol compiler (OpenCOBOL),
  the library libcob that every compiled COBOL program calls.

  \<^bold>\<open>The program.\<close> The compiler cobc translates COBOL to C; the C code describes each data item
  by a \<open>cob_field\<close> (size, pointer to storage, attributes) and calls libcob for what the items
  take part in. numeric.c computes with decimals of unbounded size and with DISPLAY, PACKED and
  BINARY items directly; move.c converts between items; codegen.h holds the inlined routines
  for binary items; common.c compares, sorts, tests, allocates and keeps the state of the run
  unit; strings.c has INSPECT, STRING and UNSTRING; fileio.c the files; intrinsic.c the
  functions. The parts share the exception register (\<open>cob_exception_code\<close>), the module settings
  (\<open>cob_current_module\<close>), the decimals \<open>cob_d1\<close>..\<open>cob_d4\<close> and the fields they are given.

  \<^bold>\<open>How it is modelled.\<close> A field is a record whose storage is a list of bytes; a routine is a
  function from its arguments and the state it reads to an \<open>option\<close>: the new state and fields,
  or \<open>None\<close> where the C code reads or writes outside the storage it was given, uses a stale
  pointer, or has another undefined behaviour. Static variables are records that are passed on
  (\<open>cob_rt\<close>, \<open>cob_accs\<close>, \<open>inspect_state\<close>, \<open>string_state\<close>, \<open>unstring_state\<close>, \<open>alloc_state\<close>,
  \<open>handler_list\<close>, \<open>io_world\<close>, \<open>\<dots>\<close>). A linked list whose nodes can dangle is a heap of nodes.
  C integers are \<open>int\<close> with their conversions written out (\<open>i32\<close>, \<open>u32\<close>, \<open>i64\<close>, \<open>u64\<close>) or words;
  the host (byte order, misaligned access, the size of long) is the record \<open>target\<close>, so that
  theorems hold for each host. GMP integers are \<open>int\<close>. Loops are recursion on what is left;
  the loops over a file, whose end depends on what is read, are \<open>partial_function (option)\<close>, so that not
  returning is \<open>None\<close> and a theorem with a result shows that they return. No fuel is used
  except where a definition says so.

  \<^bold>\<open>The theories.\<close>

  \<^item> \<open>Cob_Prelude\<close>: checked storage access, C integer conversions, digit strings and their values,
    the collections \<open>cob_simps\<close> and the like.
  \<^item> \<open>Cob_Target\<close>, \<open>Cob_Cells\<close>: the host, integers as bytes, and what a binary item of \<open>k\<close> bytes is;
    the interface of the binary routines as locales.
  \<^item> \<open>Cob_Codegen_Native\<close>, \<open>Cob_Codegen_Swapped\<close> (codegen.h): each routine as written, every host
    branch, and that it is the item operation: an interpretation per routine.
  \<^item> \<open>Cob_Field\<close> (common.h, common.c): fields, attributes, the operational sign.
  \<^item> \<open>Cob_Runtime\<close> (common.c, exception.def): exceptions and source locations.
  \<^item> \<open>Cob_Decimal\<close>, \<open>Cob_Display\<close>, \<open>Cob_Packed\<close>, \<open>Cob_Binary\<close>, \<open>Cob_Numeric\<close> (numeric.c): decimals as
    rationals, the three usages, and the statements ADD, SUBTRACT, DIVIDE, comparison on items.
  \<^item> \<open>Cob_Move\<close>, \<open>Cob_Move_Numeric\<close> (move.c): MOVE, and the value it stores between numeric items.
  \<^item> \<open>Cob_Common\<close>, \<open>Cob_Services\<close> (common.c): comparison, class tests, SORT of tables, run-time
    checks, switches, modules, EXTERNAL, ALLOCATE and FREE, exit procedures, environment.
  \<^item> \<open>Cob_Strings\<close> (strings.c): INSPECT, STRING, UNSTRING.
  \<^item> \<open>Cob_Stdio\<close>, \<open>Cob_File\<close>, \<open>Cob_Fileio\<close> (fileio.c): streams, the handlers of the three
    organizations of byte files, the statements. \<open>Cob_Records\<close> shows, in a locale interpreted for
    SEQUENTIAL and LINE SEQUENTIAL, that records written come back; \<open>Cob_File_Safety\<close> has the
    connector as a step relation with its invariant; \<open>Cob_Relative\<close> refines a map from record
    numbers to records.
  \<^item> \<open>Cob_Sort\<close> (fileio.c): SORT files, their queues, temporary files and merge passes.
    \<open>Cob_Sort_Merge\<close> has the merge as a function on lists of blocks, in two locales (an order of
    items; files that hold blocks of them), \<open>Cob_Sort_Stable\<close> the way of the records through
    RELEASE, the passes and RETURN, and interprets the locales for the order by the keys and the
    number of the record: SORT is the stable sort.
  \<^item> \<open>Cob_Termio\<close> (termio.c): DISPLAY and ACCEPT on the terminal. \<open>Cob_Pretty\<close> shows what DISPLAY
    prints of a number with the option pretty-display, which is a MOVE to an edited item made for
    the purpose, and that NUMVAL reads the number back.
  \<^item> \<open>Cob_Class\<close> (common.c): the class test NUMERIC against the characters and half bytes of an item,
    and comparison with a literal as first operand.
  \<^item> \<open>Cob_Strings_Facts\<close> (strings.c): STRING and UNSTRING as whole statements, pointer item included.
  \<^item> \<open>Cob_Dates\<close>, \<open>Cob_Intrinsic_Text\<close>, \<open>Cob_Intrinsic_Num\<close> (intrinsic.c): the intrinsic
    functions, each of which returns a new item. Proved are the Gregorian calendar of the date
    functions, SUBSTITUTE as a cut of the text into replaced pieces, NUMVAL of what DISPLAY shows,
    the exactness of expressions, and what INTEGER gives.
  \<^item> \<open>Cob_Move_Native\<close>, \<open>Cob_Move_Shape\<close>, \<open>Cob_Move_Safe\<close> (move.c): MOVE to binary items that are not
    cut to their picture; MOVE keeps sizes and attributes; and MOVE is type safe, in the two parts
    of such theorems: between well-formed items it has a result, that is no conversion reads or
    writes outside its storage (progress), and the items stay well formed (preservation).
  \<^item> \<open>Cob_Picture\<close> (cobc/tree.c): PICTURE strings as the compiler reads them. \<open>Cob_Picture_Facts\<close>
    shows that MOVE to an edited item, which runs over the picture the compiler packed, stays inside
    the item the compiler declared.
  \<^item> \<open>Cob_Layout\<close> (cobc/field.c): sizes and offsets of the items of a record, a tree of item numbers
    over a map from numbers to declarations. \<open>Cob_Layout_Facts\<close> proves by induction on the tree,
    with a list invariant for the items of a group, that the record is well laid out.
  \<^bold>\<open>What the lemmas show.\<close> Of each routine: the value it computes as a number, a text or a
  list, on each branch, with its error answers; that a routine written for speed agrees with
  the plain definition; that what is stored can be loaded again; that invariants of the state
  hold after any sequence of operations. Where the code does not do what it means to, the theorem
  states what it does do (\<open>exit_procedures\<close>, \<open>file_close_live\<close>, \<open>relative_refines_map\<close>, \<open>class_numeric\<close>,
  \<open>\<dots>\<close>).

  \<^bold>\<open>Assumptions\<close> are arguments or named hypotheses: the sorting function of the C library
  (\<open>sorts\<close>), the conversions between binary floating point and text (\<open>fp_env\<close>), the environment,
  the clock, what malloc, fopen and lock requests answer. Items given to one statement do not overlap unless a theory says
  so. A file is not changed by other programs while a connector has it open.

  \<^bold>\<open>Not modelled.\<close> INDEXED files are calls of Berkeley DB or an ISAM library, which are not in the
  repository (the build without them answers 91 and is modelled); external file handlers, _WIN32
  branches and the COB_EXPERIMENTAL code are left out. screenio.c is calls of curses. Of cobc only PICTURE
  strings and the layout of records are modelled: its scanners and parsers are generated, and its
  other passes work on the whole syntax tree. The file routines called by name are calls of the system, of intrinsic.c the
  functions that take the digits of a double one by one (ACOS, ASIN, ATAN, COS, SIN), RANDOM and
  the locale functions are left out; call.c is calls of the dynamic linker.
\<close>



section \<open>Facts beside the properties\<close>

text \<open>
  Each of the 32 inlined add and subtract routines on a native binary item adds to,
  respectively subtracts from, the item of its width modulo its width and touches no other
  byte.
\<close>

theorem native_add_sub_refine:
  "cob_add_u8_binary p v = cell_upd False 1 p (\<lambda>x. x + v) \<and>
    cob_add_s8_binary p v = cell_upd False 1 p (\<lambda>x. x + v) \<and>
    cob_add_u16_binary T p v = cell_upd (words_bigendian T) 2 p (\<lambda>x. x + v) \<and>
    cob_add_s16_binary T p v = cell_upd (words_bigendian T) 2 p (\<lambda>x. x + v) \<and>
    cob_add_u24_binary T p v = cell_upd (words_bigendian T) 3 p (\<lambda>x. x + v) \<and>
    cob_add_s24_binary T p v = cell_upd (words_bigendian T) 3 p (\<lambda>x. x + v) \<and>
    cob_add_u32_binary T p v = cell_upd (words_bigendian T) 4 p (\<lambda>x. x + v) \<and>
    cob_add_s32_binary T p v = cell_upd (words_bigendian T) 4 p (\<lambda>x. x + v) \<and>
    cob_add_u40_binary T p v = cell_upd (words_bigendian T) 5 p (\<lambda>x. x + v) \<and>
    cob_add_s40_binary T p v = cell_upd (words_bigendian T) 5 p (\<lambda>x. x + v) \<and>
    cob_add_u48_binary T p v = cell_upd (words_bigendian T) 6 p (\<lambda>x. x + v) \<and>
    cob_add_s48_binary T p v = cell_upd (words_bigendian T) 6 p (\<lambda>x. x + v) \<and>
    cob_add_u56_binary T p v = cell_upd (words_bigendian T) 7 p (\<lambda>x. x + v) \<and>
    cob_add_s56_binary T p v = cell_upd (words_bigendian T) 7 p (\<lambda>x. x + v) \<and>
    cob_add_u64_binary T p v = cell_upd (words_bigendian T) 8 p (\<lambda>x. x + v) \<and>
    cob_add_s64_binary T p v = cell_upd (words_bigendian T) 8 p (\<lambda>x. x + v) \<and>
    cob_sub_u8_binary p v = cell_upd False 1 p (\<lambda>x. x - v) \<and>
    cob_sub_s8_binary p v = cell_upd False 1 p (\<lambda>x. x - v) \<and>
    cob_sub_u16_binary T p v = cell_upd (words_bigendian T) 2 p (\<lambda>x. x - v) \<and>
    cob_sub_s16_binary T p v = cell_upd (words_bigendian T) 2 p (\<lambda>x. x - v) \<and>
    cob_sub_u24_binary T p v = cell_upd (words_bigendian T) 3 p (\<lambda>x. x - v) \<and>
    cob_sub_s24_binary T p v = cell_upd (words_bigendian T) 3 p (\<lambda>x. x - v) \<and>
    cob_sub_u32_binary T p v = cell_upd (words_bigendian T) 4 p (\<lambda>x. x - v) \<and>
    cob_sub_s32_binary T p v = cell_upd (words_bigendian T) 4 p (\<lambda>x. x - v) \<and>
    cob_sub_u40_binary T p v = cell_upd (words_bigendian T) 5 p (\<lambda>x. x - v) \<and>
    cob_sub_s40_binary T p v = cell_upd (words_bigendian T) 5 p (\<lambda>x. x - v) \<and>
    cob_sub_u48_binary T p v = cell_upd (words_bigendian T) 6 p (\<lambda>x. x - v) \<and>
    cob_sub_s48_binary T p v = cell_upd (words_bigendian T) 6 p (\<lambda>x. x - v) \<and>
    cob_sub_u56_binary T p v = cell_upd (words_bigendian T) 7 p (\<lambda>x. x - v) \<and>
    cob_sub_s56_binary T p v = cell_upd (words_bigendian T) 7 p (\<lambda>x. x - v) \<and>
    cob_sub_u64_binary T p v = cell_upd (words_bigendian T) 8 p (\<lambda>x. x - v) \<and>
    cob_sub_s64_binary T p v = cell_upd (words_bigendian T) 8 p (\<lambda>x. x - v)"
  by (simp only: cob_add_u8_binary_spec cob_sub_u8_binary_spec cob_add_s8_binary_spec cob_sub_s8_binary_spec cob_add_u16_binary_spec cob_sub_u16_binary_spec cob_add_s16_binary_spec cob_sub_s16_binary_spec cob_add_u24_binary_spec cob_sub_u24_binary_spec cob_add_s24_binary_spec cob_sub_s24_binary_spec cob_add_u32_binary_spec cob_sub_u32_binary_spec cob_add_s32_binary_spec cob_sub_s32_binary_spec cob_add_u40_binary_spec cob_sub_u40_binary_spec cob_add_s40_binary_spec cob_sub_s40_binary_spec cob_add_u48_binary_spec cob_sub_u48_binary_spec cob_add_s48_binary_spec cob_sub_s48_binary_spec cob_add_u56_binary_spec cob_sub_u56_binary_spec cob_add_s56_binary_spec cob_sub_s56_binary_spec cob_add_u64_binary_spec cob_sub_u64_binary_spec cob_add_s64_binary_spec cob_sub_s64_binary_spec simp_thms)

text \<open>
  Each of the 16 inlined compares of a native binary item with an int gives the comparison
  of the item's value with that int.
\<close>

theorem native_cmp_refine:
  assumes "- (2 ^ 31) \<le> n" "n < 2 ^ 31"
  shows "cob_cmp_u8_binary p n = cell_cmpu False 1 p n \<and>
    cob_cmp_s8_binary p n = cell_cmps False 1 p n \<and>
    cob_cmp_u16_binary T p n = cell_cmpu (words_bigendian T) 2 p n \<and>
    cob_cmp_s16_binary T p n = cell_cmps (words_bigendian T) 2 p n \<and>
    cob_cmp_u24_binary T p n = cell_cmpu (words_bigendian T) 3 p n \<and>
    cob_cmp_s24_binary T p n = cell_cmps (words_bigendian T) 3 p n \<and>
    cob_cmp_u32_binary T p n = cell_cmpu (words_bigendian T) 4 p n \<and>
    cob_cmp_s32_binary T p n = cell_cmps (words_bigendian T) 4 p n \<and>
    cob_cmp_u40_binary T p n = cell_cmpu (words_bigendian T) 5 p n \<and>
    cob_cmp_s40_binary T p n = cell_cmps (words_bigendian T) 5 p n \<and>
    cob_cmp_u48_binary T p n = cell_cmpu (words_bigendian T) 6 p n \<and>
    cob_cmp_s48_binary T p n = cell_cmps (words_bigendian T) 6 p n \<and>
    cob_cmp_u56_binary T p n = cell_cmpu (words_bigendian T) 7 p n \<and>
    cob_cmp_s56_binary T p n = cell_cmps (words_bigendian T) 7 p n \<and>
    cob_cmp_u64_binary T p n = cell_cmpu (words_bigendian T) 8 p n \<and>
    cob_cmp_s64_binary T p n = cell_cmps (words_bigendian T) 8 p n"
  using assms by (simp add: cob_cmp_u8_binary_spec cob_cmp_s8_binary_spec cob_cmp_u16_binary_spec cob_cmp_s16_binary_spec cob_cmp_u24_binary_spec cob_cmp_s24_binary_spec cob_cmp_u32_binary_spec cob_cmp_s32_binary_spec cob_cmp_u40_binary_spec cob_cmp_s40_binary_spec cob_cmp_u48_binary_spec cob_cmp_s48_binary_spec cob_cmp_u56_binary_spec cob_cmp_s56_binary_spec cob_cmp_u64_binary_spec cob_cmp_s64_binary_spec)

lemma native_cmp_refine_witness:
  "cob_cmp_u24_binary \<lparr>words_bigendian = False, allow_misaligned = True, cob_li_is_ll = True\<rparr> [0xff, 0xff, 0] 70000 = cell_cmpu (words_bigendian \<lparr>words_bigendian = False, allow_misaligned = True, cob_li_is_ll = True\<rparr>) 3 [0xff, 0xff, 0] 70000"
  using native_cmp_refine [where n = 70000 and T = "\<lparr>words_bigendian = False, allow_misaligned = True, cob_li_is_ll = True\<rparr>" and p = "[0xff, 0xff, 0]"] by simp

text \<open>
  On a little-endian host the byte-swapping compares give the comparison of the big-endian
  item with the int.
\<close>

theorem swapped_cmp_refine:
  assumes "\<not> words_bigendian T" "- (2 ^ 31) \<le> n" "n < 2 ^ 31"
  shows "cob_cmpswp_u16_binary T p n = cell_cmpu True 2 p n \<and>
    cob_cmpswp_s16_binary T p n = cell_cmps True 2 p n \<and>
    cob_cmpswp_u24_binary T p n = cell_cmpu True 3 p n \<and>
    cob_cmpswp_s24_binary T p n = cell_cmps True 3 p n \<and>
    cob_cmpswp_u32_binary T p n = cell_cmpu True 4 p n \<and>
    cob_cmpswp_s32_binary T p n = cell_cmps True 4 p n \<and>
    cob_cmpswp_u40_binary T p n = cell_cmpu True 5 p n \<and>
    cob_cmpswp_s40_binary T p n = cell_cmps True 5 p n \<and>
    cob_cmpswp_u48_binary T p n = cell_cmpu True 6 p n \<and>
    cob_cmpswp_s48_binary T p n = cell_cmps True 6 p n \<and>
    cob_cmpswp_u56_binary T p n = cell_cmpu True 7 p n \<and>
    cob_cmpswp_s56_binary T p n = cell_cmps True 7 p n \<and>
    cob_cmpswp_u64_binary T p n = cell_cmpu True 8 p n \<and>
    cob_cmpswp_s64_binary T p n = cell_cmps True 8 p n"
  using assms by (simp add: cob_cmpswp_u16_binary_spec cob_cmpswp_s16_binary_spec cob_cmpswp_u24_binary_spec cob_cmpswp_s24_binary_spec cob_cmpswp_u32_binary_spec cob_cmpswp_s32_binary_spec cob_cmpswp_u40_binary_spec cob_cmpswp_s40_binary_spec cob_cmpswp_u48_binary_spec cob_cmpswp_s48_binary_spec cob_cmpswp_u56_binary_spec cob_cmpswp_s56_binary_spec cob_cmpswp_u64_binary_spec cob_cmpswp_s64_binary_spec)

lemma swapped_cmp_refine_witness:
  "cob_cmpswp_s24_binary \<lparr>words_bigendian = False, allow_misaligned = True, cob_li_is_ll = True\<rparr> [0xff, 0, 0] (- 3) = cell_cmps True 3 [0xff, 0, 0] (- 3)"
  using swapped_cmp_refine [where T = "\<lparr>words_bigendian = False, allow_misaligned = True, cob_li_is_ll = True\<rparr>" and n = "- 3" and p = "[0xff, 0, 0]"] by simp

text \<open>
  The routines the compiler picks for aligned items agree with the general ones on every
  item and operand.
\<close>

theorem aligned_agrees:
  assumes "\<not> words_bigendian T" "- (2 ^ 31) \<le> n" "n < 2 ^ 31"
  shows "cob_add_align_u16_binary T p v = cob_add_u16_binary T p v \<and>
    cob_add_align_s16_binary T p v = cob_add_s16_binary T p v \<and>
    cob_add_align_u32_binary T p v = cob_add_u32_binary T p v \<and>
    cob_add_align_s32_binary T p v = cob_add_s32_binary T p v \<and>
    cob_add_align_u64_binary T p v = cob_add_u64_binary T p v \<and>
    cob_add_align_s64_binary T p v = cob_add_s64_binary T p v \<and>
    cob_sub_align_u16_binary T p v = cob_sub_u16_binary T p v \<and>
    cob_sub_align_s16_binary T p v = cob_sub_s16_binary T p v \<and>
    cob_sub_align_u32_binary T p v = cob_sub_u32_binary T p v \<and>
    cob_sub_align_s32_binary T p v = cob_sub_s32_binary T p v \<and>
    cob_sub_align_u64_binary T p v = cob_sub_u64_binary T p v \<and>
    cob_sub_align_s64_binary T p v = cob_sub_s64_binary T p v \<and>
    cob_cmp_align_u16_binary T p n = cob_cmp_u16_binary T p n \<and>
    cob_cmp_align_s16_binary T p n = cob_cmp_s16_binary T p n \<and>
    cob_cmp_align_u32_binary T p n = cob_cmp_u32_binary T p n \<and>
    cob_cmp_align_s32_binary T p n = cob_cmp_s32_binary T p n \<and>
    cob_cmp_align_u64_binary T p n = cob_cmp_u64_binary T p n \<and>
    cob_cmp_align_s64_binary T p n = cob_cmp_s64_binary T p n \<and>
    cob_cmpswp_align_u16_binary T p n = cob_cmpswp_u16_binary T p n \<and>
    cob_cmpswp_align_s16_binary T p n = cob_cmpswp_s16_binary T p n \<and>
    cob_cmpswp_align_u32_binary T p n = cob_cmpswp_u32_binary T p n \<and>
    cob_cmpswp_align_s32_binary T p n = cob_cmpswp_s32_binary T p n \<and>
    cob_cmpswp_align_u64_binary T p n = cob_cmpswp_u64_binary T p n \<and>
    cob_cmpswp_align_s64_binary T p n = cob_cmpswp_s64_binary T p n"
  using assms by (simp add: cob_add_align_u16_binary_spec cob_sub_align_u16_binary_spec cob_cmp_align_u16_binary_spec cob_cmpswp_align_u16_binary_spec cob_add_u16_binary_spec cob_sub_u16_binary_spec cob_cmp_u16_binary_spec cob_cmpswp_u16_binary_spec cob_add_align_s16_binary_spec cob_sub_align_s16_binary_spec cob_cmp_align_s16_binary_spec cob_cmpswp_align_s16_binary_spec cob_add_s16_binary_spec cob_sub_s16_binary_spec cob_cmp_s16_binary_spec cob_cmpswp_s16_binary_spec cob_add_align_u32_binary_spec cob_sub_align_u32_binary_spec cob_cmp_align_u32_binary_spec cob_cmpswp_align_u32_binary_spec cob_add_u32_binary_spec cob_sub_u32_binary_spec cob_cmp_u32_binary_spec cob_cmpswp_u32_binary_spec cob_add_align_s32_binary_spec cob_sub_align_s32_binary_spec cob_cmp_align_s32_binary_spec cob_cmpswp_align_s32_binary_spec cob_add_s32_binary_spec cob_sub_s32_binary_spec cob_cmp_s32_binary_spec cob_cmpswp_s32_binary_spec cob_add_align_u64_binary_spec cob_sub_align_u64_binary_spec cob_cmp_align_u64_binary_spec cob_cmpswp_align_u64_binary_spec cob_add_u64_binary_spec cob_sub_u64_binary_spec cob_cmp_u64_binary_spec cob_cmpswp_u64_binary_spec cob_add_align_s64_binary_spec cob_sub_align_s64_binary_spec cob_cmp_align_s64_binary_spec cob_cmpswp_align_s64_binary_spec cob_add_s64_binary_spec cob_sub_s64_binary_spec cob_cmp_s64_binary_spec cob_cmpswp_s64_binary_spec)

lemma aligned_agrees_witness:
  "cob_add_align_u32_binary \<lparr>words_bigendian = False, allow_misaligned = True, cob_li_is_ll = True\<rparr> [1, 0, 0, 0] 7 = cob_add_u32_binary \<lparr>words_bigendian = False, allow_misaligned = True, cob_li_is_ll = True\<rparr> [1, 0, 0, 0] 7"
  using aligned_agrees [where T = "\<lparr>words_bigendian = False, allow_misaligned = True, cob_li_is_ll = True\<rparr>" and n = 0 and p = "[1, 0, 0, 0]" and v = 7] by simp

text \<open>
  An int stored into a swapped signed item of four bytes and then incremented compares as
  the wrapped sum, whatever the item held before.
\<close>

theorem swapped_set_then_compare:
  assumes "\<not> words_bigendian T" "cob_setswp_s32_binary T p v = Some q" "cob_addswp_s32_binary T q w = Some r"
    "- (2 ^ 31) \<le> n" "n < 2 ^ 31"
  shows "\<exists>y. cob_cmpswp_s32_binary T r n = Some (cmp3 y n) \<and> y mod 256 ^ 4 = (v + w) mod 256 ^ 4"
proof -
  have T: "T\<lparr>words_bigendian := False\<rparr> = T" using assms(1) by (cases T) simp
  obtain y where y: "cell_sget True 4 q = Some y" "y mod 256 ^ 4 = v mod 256 ^ 4"
    using sws32.val_set [of T p v q] assms(2) by (auto simp: T)
  from sws32.cmp_after_add [of q y T w r n] y assms(3-) obtain z where
    "cob_cmpswp_s32_binary T r n = Some (cmp3 z n)" "z mod 256 ^ 4 = (y + w) mod 256 ^ 4" by (auto simp: T)
  then show ?thesis using y(2) by (metis mod_add_left_eq)
qed

lemma swapped_set_then_compare_witness:
  "\<exists>y. cob_cmpswp_s32_binary \<lparr>words_bigendian = False, allow_misaligned = True, cob_li_is_ll = True\<rparr> [0, 0, 1, 2] 258 = Some (cmp3 y 258) \<and> y mod 256 ^ 4 = (256 + 2) mod 256 ^ 4"
  by (rule swapped_set_then_compare [where p = "[9, 9, 9, 9]" and q = "[0, 0, 1, 0]"]) (simp_all, (code_simp)+)

text \<open>
  Adding, subtracting and multiplying decimals is exact as rational arithmetic, and add and
  subtract give the larger of the two scales.
\<close>

theorem decimal_ring_exact:
  assumes "\<not> decimal_nan d1 d2"
  shows "dec_rat (fst (cob_decimal_add d1 d2)) = dec_rat d1 + dec_rat d2 \<and>
    dec_rat (fst (cob_decimal_sub d1 d2)) = dec_rat d1 - dec_rat d2 \<and>
    dec_rat (cob_decimal_mul d1 d2) = dec_rat d1 * dec_rat d2 \<and>
    dscale (fst (cob_decimal_add d1 d2)) = max (dscale d1) (dscale d2) \<and>
    dscale (fst (cob_decimal_sub d1 d2)) = max (dscale d1) (dscale d2)"
  using cob_decimal_add_exact [OF assms prod.collapse [symmetric]]
    cob_decimal_sub_exact [OF assms prod.collapse [symmetric]] cob_decimal_mul_exact [OF assms] by simp

lemma decimal_ring_exact_witness:
  "dec_rat (fst (cob_decimal_add (mkdec 15 1) (mkdec (- 225) 2))) = dec_rat (mkdec 15 1) + dec_rat (mkdec (- 225) 2)"
  using decimal_ring_exact [of "mkdec 15 1" "mkdec (- 225) 2"] by (simp add: decimal_nan_def DECIMAL_NAN_def)

text \<open>
  Loading a DISPLAY item gives the signed value of its digits at its scale, at every length
  up to the buffer, and leaves sign and digits as they were.
\<close>

theorem display_load:
  assumes "wf_field f" "field_type f = COB_TYPE_NUMERIC_DISPLAY"
    and "sign_of M f s ds" "all_digits ds" "length ds < num_buff_size"
    and "fdata f ! data_off f \<notin> {0, 255}"
  shows "\<exists>g. cob_decimal_set_display M d f = Some (mkdec (signed_val s ds) (field_scale f), g) \<and>
    sign_of M g (sign_result f s) ds \<and> fattr g = fattr f \<and> fsize g = fsize f"
  by (rule set_display_value [OF assms])

lemma display_load_witness:
  "\<exists>g. cob_decimal_set_display default_module (mkdec 0 0) (cob_fld COB_TYPE_NUMERIC_DISPLAY 3 1 1 [] [0x30, 0x31, 0x72]) = Some (mkdec (signed_val (- 1) [0x30, 0x31, 0x32]) (field_scale (cob_fld COB_TYPE_NUMERIC_DISPLAY 3 1 1 [] [0x30, 0x31, 0x72])), g) \<and>
    sign_of default_module g (sign_result (cob_fld COB_TYPE_NUMERIC_DISPLAY 3 1 1 [] [0x30, 0x31, 0x72]) (- 1)) [0x30, 0x31, 0x32] \<and> fattr g = fattr (cob_fld COB_TYPE_NUMERIC_DISPLAY 3 1 1 [] [0x30, 0x31, 0x72]) \<and> fsize g = fsize (cob_fld COB_TYPE_NUMERIC_DISPLAY 3 1 1 [] [0x30, 0x31, 0x72])"
  by (rule display_load) code_simp+

text \<open>
  A value that fits, stored into a signed DISPLAY item, is what a load reads back, at the
  item's scale.
\<close>

theorem display_store_load:
  fixes R :: cob_rt
  assumes "wf_field f" "field_type f = COB_TYPE_NUMERIC_DISPLAY" "have_sign f"
    and "\<bar>v\<bar> < 10 ^ data_size f" "data_size f < 2048"
  shows "\<exists>g h. cob_decimal_get_display R M (mkdec v (field_scale f)) f opt = Some (0, R, g) \<and>
    cob_decimal_set_display M d g = Some (mkdec v (field_scale f), h) \<and> fattr h = fattr f \<and> fsize h = fsize f"
  by (rule display_store_load_core [OF assms])

lemma display_store_load_witness:
  "\<exists>g h. cob_decimal_get_display cob_rt_init default_module (mkdec (- 57) (field_scale (cob_fld COB_TYPE_NUMERIC_DISPLAY 3 1 7 [] [0x2b, 0x30, 0x31, 0x32]))) (cob_fld COB_TYPE_NUMERIC_DISPLAY 3 1 7 [] [0x2b, 0x30, 0x31, 0x32]) 0 = Some (0, cob_rt_init, g) \<and>
    cob_decimal_set_display default_module (mkdec 0 0) g = Some (mkdec (- 57) (field_scale (cob_fld COB_TYPE_NUMERIC_DISPLAY 3 1 7 [] [0x2b, 0x30, 0x31, 0x32])), h) \<and> fattr h = fattr (cob_fld COB_TYPE_NUMERIC_DISPLAY 3 1 7 [] [0x2b, 0x30, 0x31, 0x32]) \<and> fsize h = fsize (cob_fld COB_TYPE_NUMERIC_DISPLAY 3 1 7 [] [0x2b, 0x30, 0x31, 0x32])"
  by (rule display_store_load) code_simp+

text \<open>
  Adding an int in place to a DISPLAY item gives the exact sum, its sign included, whenever
  the sum fits the item.
\<close>

theorem display_add_int_exact:
  fixes R :: cob_rt
  assumes "wf_field f" "field_type f = COB_TYPE_NUMERIC_DISPLAY" "sign_of M f s ds" "all_digits ds" "length ds \<le> 64"
    and "0 \<le> field_scale f" "\<bar>n * 10 ^ nat (field_scale f)\<bar> < 2 ^ 63"
    and "w = addend s n (nat (field_scale f))" "\<bar>dec_val ds + w\<bar> < 10 ^ length ds"
  shows "\<exists>g. cob_display_add_int R M f n = Some (0, R, g) \<and>
    sign_of M g (sign_result f (if dec_val ds + w < 0 then - s else s)) (pad_digits (length ds) \<bar>dec_val ds + w\<bar>) \<and>
    fattr g = fattr f \<and> fsize g = fsize f"
  using display_add_int_core(1) [OF assms(1-7)] assms(8,9) by blast

lemma display_add_int_exact_witness:
  "\<exists>g. cob_display_add_int cob_rt_init default_module (cob_fld COB_TYPE_NUMERIC_DISPLAY 3 1 1 [] [0x30, 0x31, 0x72]) 5 = Some (0, cob_rt_init, g) \<and>
    sign_of default_module g (sign_result (cob_fld COB_TYPE_NUMERIC_DISPLAY 3 1 1 [] [0x30, 0x31, 0x72]) (if dec_val [0x30, 0x31, 0x32] + - 50 < 0 then - (- 1) else - 1))
      (pad_digits (length [0x30, 0x31, 0x32 :: u8]) \<bar>dec_val [0x30, 0x31, 0x32] + - 50\<bar>) \<and> fattr g = fattr (cob_fld COB_TYPE_NUMERIC_DISPLAY 3 1 1 [] [0x30, 0x31, 0x72]) \<and> fsize g = fsize (cob_fld COB_TYPE_NUMERIC_DISPLAY 3 1 1 [] [0x30, 0x31, 0x72])"
  by (rule display_add_int_exact) code_simp+

text \<open>
  The inlined compares of DISPLAY digit strings with an int, unsigned and with a trailing
  overpunched sign, order the value of the string against the int, up to 9 digits in int and
  18 in long long arithmetic.
\<close>

theorem numdisp_compare:
  assumes "all_digits ds" "isdigit d" "data = ds @ [zoned_put (display_sign M) s d]"
  shows "(length ds \<le> 9 \<longrightarrow> cob_cmp_numdisp ds n = cmp3 (dec_val ds) n \<and> cob_get_numdisp ds = dec_val ds) \<and>
    (length ds \<le> 18 \<longrightarrow> cob_cmp_long_numdisp ds n = cmp3 (dec_val ds) n) \<and>
    (length data \<le> 9 \<longrightarrow> cob_cmp_sign_numdisp M data n = Some (cmp3 (signed_val s (ds @ [d])) n)) \<and>
    (length data \<le> 18 \<longrightarrow> cob_cmp_long_sign_numdisp M data n = Some (cmp3 (signed_val s (ds @ [d])) n))"
  unfolding assms(3)
  using cmp_numdisp_val [OF assms(1)] cmp_sign_numdisp_val [OF assms(1,2)] by blast

lemma numdisp_compare_witness:
  "cob_cmp_sign_numdisp default_module [0x31, 0x72] (- 11) = Some (cmp3 (signed_val (- 1) [0x31, 0x32]) (- 11))"
  using numdisp_compare [of "[0x31]" "0x32" "[0x31, 0x72]" default_module "- 1" "- 11"]
  by (simp add: isdigit_def zoned_put_def default_module_def)

text \<open>
  A decimal too large for a PACKED-DECIMAL item raises EC-SIZE-OVERFLOW; with ON SIZE ERROR
  the item is unchanged and the code is returned, otherwise the low-order digits are stored
  with the sign of the value.
\<close>

theorem packed_store_overflow:
  fixes R :: cob_rt
  assumes "field_digits f > 0" "fsize f = field_digits f div 2 + 1" "\<bar>dvalue d\<bar> < 10 ^ (num_buff_size - 1)"
    and "10 ^ field_digits f \<le> \<bar>dvalue d\<bar>" "R1 = cob_set_exception R COB_EC_SIZE_OVERFLOW"
  shows "if opt_set opt COB_STORE_KEEP_ON_OVERFLOW then cob_decimal_get_packed R d f opt = Some (0x1004, R1, f)
    else \<exists>g. cob_decimal_get_packed R d f opt = Some (0, R1, g) \<and> wf_packed g \<and> fattr g = fattr f \<and>
      dval (pk_digits g) = \<bar>dvalue d\<bar> mod 10 ^ field_digits f \<and> pk_neg g = (have_sign f \<and> dvalue d < 0)"
  unfolding assms(5)
  using get_packed_pk [OF assms(1,2) assms(3) [unfolded num_buff_pred], of opt R] assms(4)
  by (auto simp: exception_code_size_overflow dest!: arg_cong [where f = fattr])

lemma packed_store_overflow_witness:
  "cob_decimal_get_packed cob_rt_init (mkdec 12345 0) (cob_fld COB_TYPE_NUMERIC_PACKED 4 2 1 [] [0x99, 0x99, 0x9f]) 2 = Some (0x1004, cob_set_exception cob_rt_init COB_EC_SIZE_OVERFLOW, (cob_fld COB_TYPE_NUMERIC_PACKED 4 2 1 [] [0x99, 0x99, 0x9f]))"
  using packed_store_overflow [where f = "(cob_fld COB_TYPE_NUMERIC_PACKED 4 2 1 [] [0x99, 0x99, 0x9f])" and d = "mkdec 12345 0" and opt = 2 and R = cob_rt_init]
    buffer_room [of 12345 5] by (simp add: opt_set_def)

text \<open>
  Adding an int to a PACKED-DECIMAL item, in the decimal borrow and complement loops, gives
  the exact sum (its magnitude in an unsigned item) and keeps the item well formed, when
  addend and sum fit.
\<close>

theorem packed_add_exact:
  assumes "wf_packed f" "w = n * 10 ^ nat (field_scale f)" "\<bar>w\<bar> < 2 ^ 63"
    and "\<bar>pk_val f + w\<bar> < 10 ^ field_digits f" "\<bar>w\<bar> < 10 ^ field_digits f"
  shows "\<exists>g. cob_add_packed f n = Some g \<and> g = set_data f (fdata g) \<and> wf_packed g \<and> pk_val g = packed_sum f w"
  using add_packed_pk [of f n] assms by blast

lemma packed_add_exact_witness:
  "\<exists>g. cob_add_packed (cob_fld COB_TYPE_NUMERIC_PACKED 3 0 1 [] [0x12, 0x3c]) (- 200) = Some g \<and> g = set_data (cob_fld COB_TYPE_NUMERIC_PACKED 3 0 1 [] [0x12, 0x3c]) (fdata g) \<and> wf_packed g \<and> pk_val g = packed_sum (cob_fld COB_TYPE_NUMERIC_PACKED 3 0 1 [] [0x12, 0x3c]) (- 200)"
  by (rule packed_add_exact) code_simp+

text \<open>
  The compare of a PACKED-DECIMAL item with an int decides the order of the values and keeps
  the cached comparand consistent with the digits cached for it, so every later compare may
  reuse it (a packed minus zero against zero apart).
\<close>

theorem packed_compare_cache:
  assumes "wf_packed f" "fsize f \<le> 20" "cache_ok C" "\<bar>n\<bar> < 2 ^ 31" "\<not> (pk_neg f \<and> pk_val f = 0 \<and> n = 0)"
  shows "\<exists>r C'. cob_cmp_packed C f n = Some (r, C') \<and> cache_ok C' \<and> sgn r = sgn (pk_val f - n)"
  by (rule cmp_packed_pk [OF assms])

lemma packed_compare_cache_witness:
  "\<exists>r C'. cob_cmp_packed packed_cache_init (cob_fld COB_TYPE_NUMERIC_PACKED 3 0 1 [] [0x12, 0x3d]) (- 99) = Some (r, C') \<and> cache_ok C' \<and> sgn r = sgn (pk_val (cob_fld COB_TYPE_NUMERIC_PACKED 3 0 1 [] [0x12, 0x3d]) - - 99)"
  by (rule packed_compare_cache [OF _ _ cache_ok_init]) code_simp+

text \<open>
  The inlined int access to PACKED-DECIMAL items: setting writes the int whatever the old
  bytes, reading gives it back, and the byte-pair add gives the exact sum when addend and
  sum fit.
\<close>

theorem packed_int_ops:
  assumes "wf_packed f" "pad_clear f" "sign_clear f" "field_digits f < 10" "field_scale f = 0"
    and "\<bar>n\<bar> < 2 ^ 31" "\<bar>n\<bar> < 10 ^ field_digits f" "\<bar>pk_val f + n\<bar> < 10 ^ field_digits f"
  shows "cob_get_packed_int f = Some (pk_val f) \<and>
    (\<exists>g. cob_set_packed_int f n = Some g \<and> wf_packed g \<and> pk_val g = (if have_sign f then n else \<bar>n\<bar>)) \<and>
    (\<exists>g. cob_add_packed_int f n = Some (0, g) \<and> wf_packed g \<and> pk_val g = packed_sum f n)"
proof -
  have "field_digits f > 0" "fsize f = field_digits f div 2 + 1" using assms(1) by (simp_all add: wf_packed_def)
  then show ?thesis
    using get_packed_int_pk [OF assms(1-4)] set_packed_int_pk [of f n] add_packed_int_pk [OF assms(1-3,5-8)] assms(6,7)
    by blast
qed

lemma packed_int_ops_witness:
  "cob_get_packed_int (cob_fld COB_TYPE_NUMERIC_PACKED 3 0 1 [] [0x12, 0x3d]) = Some (pk_val (cob_fld COB_TYPE_NUMERIC_PACKED 3 0 1 [] [0x12, 0x3d])) \<and>
    (\<exists>g. cob_set_packed_int (cob_fld COB_TYPE_NUMERIC_PACKED 3 0 1 [] [0x12, 0x3d]) (- 99) = Some g \<and> wf_packed g \<and> pk_val g = (if have_sign (cob_fld COB_TYPE_NUMERIC_PACKED 3 0 1 [] [0x12, 0x3d]) then - 99 else \<bar>- 99\<bar>)) \<and>
    (\<exists>g. cob_add_packed_int (cob_fld COB_TYPE_NUMERIC_PACKED 3 0 1 [] [0x12, 0x3d]) (- 99) = Some (0, g) \<and> wf_packed g \<and> pk_val g = packed_sum (cob_fld COB_TYPE_NUMERIC_PACKED 3 0 1 [] [0x12, 0x3d]) (- 99))"
  by (rule packed_int_ops) code_simp+

text \<open>
  Loading a binary item of one to eight bytes gives its two's complement or unsigned value
  in its byte order and at its scale, with 64 and with 32 bit long (there the least 8 byte
  value is excepted).
\<close>

theorem binary_load:
  assumes "wf_binary f" "cob_li_is_ll T \<or> \<not> (have_sign f \<and> bin_val T f = - (2 ^ 63))"
  shows "cob_decimal_set_binary T f = Some (mkdec (bin_val T f) (field_scale f))"
  by (rule set_binary_val [OF assms])

lemma binary_load_witness:
  "cob_decimal_set_binary \<lparr>words_bigendian = False, allow_misaligned = True, cob_li_is_ll = True\<rparr> (cob_fld COB_TYPE_NUMERIC_BINARY 7 2 33 [] [0xff, 0x00, 0x01]) = Some (mkdec (bin_val \<lparr>words_bigendian = False, allow_misaligned = True, cob_li_is_ll = True\<rparr> (cob_fld COB_TYPE_NUMERIC_BINARY 7 2 33 [] [0xff, 0x00, 0x01])) (field_scale (cob_fld COB_TYPE_NUMERIC_BINARY 7 2 33 [] [0xff, 0x00, 0x01])))"
  by (rule binary_load) (simp_all add: wf_binary_def)

text \<open>
  INSPECT TALLYING ALL, after any BEFORE and AFTER phrases, adds to the counter the number
  of occurrences of the pattern in the window, found from left to right without overlap, and
  leaves the inspected data as they were.
\<close>

theorem inspect_tallying:
  assumes "cob_inspect_init R M f False = Some (R', S0)" "wf_field f" "window_of S0 S" "fdata f2 \<noteq> []"
  shows "\<exists>S'. cob_inspect_all R' T E M N S (Some f1) (Some f2) =
      map_option (\<lambda>(_, R, N, g). (R, N, S', g)) (cob_add_int R' T E M N f1 (int (occurrences (fdata f2) (window S)))) \<and>
    cob_inspect_finish M S' = cob_put_sign M (in_var S0) (in_sign S0)"
  by (rule tallying_all [OF assms])

lemma inspect_tallying_witness:
  "\<exists>S0 S'. cob_inspect_all cob_rt_init \<lparr>words_bigendian = False, allow_misaligned = True, cob_li_is_ll = True\<rparr> fp_none default_module cob_init_numeric (cob_inspect_start S0) (Some (cob_fld COB_TYPE_NUMERIC_DISPLAY 2 0 0 [] [0x30, 0x30])) (Some (cob_fld COB_TYPE_ALPHANUMERIC 0 0 0 [] [88])) =
      map_option (\<lambda>(_, R, N, g). (R, N, S', g)) (cob_add_int cob_rt_init \<lparr>words_bigendian = False, allow_misaligned = True, cob_li_is_ll = True\<rparr> fp_none default_module cob_init_numeric (cob_fld COB_TYPE_NUMERIC_DISPLAY 2 0 0 [] [0x30, 0x30]) 2) \<and>
    cob_inspect_finish default_module S' = Some (cob_fld COB_TYPE_ALPHANUMERIC 0 0 0 [] [88, 66, 88])"
proof -
  let ?S0 = "\<lparr>in_var = (cob_fld COB_TYPE_ALPHANUMERIC 0 0 0 [] [88, 66, 88]), in_data = [88, 66, 88], in_start = 0, in_end = 0, in_mark = [-1, -1, -1], in_replacing = False, in_sign = 0\<rparr>"
  have i: "cob_inspect_init cob_rt_init default_module (cob_fld COB_TYPE_ALPHANUMERIC 0 0 0 [] [88, 66, 88]) False = Some (cob_rt_init, ?S0)"
    by (simp add: cob_inspect_init_def cob_get_sign_def field_bytes_def data_size_def data_off_def cob_clear_exception_def cob_rt_init_def Let_def)
  have h: "wf_field (cob_fld COB_TYPE_ALPHANUMERIC 0 0 0 [] [88, 66, 88])" "fdata (cob_fld COB_TYPE_ALPHANUMERIC 0 0 0 [] [88]) \<noteq> []" and o: "int (occurrences (fdata (cob_fld COB_TYPE_ALPHANUMERIC 0 0 0 [] [88])) (window (cob_inspect_start ?S0))) = 2"
    and p: "cob_put_sign default_module (in_var ?S0) (in_sign ?S0) = Some (cob_fld COB_TYPE_ALPHANUMERIC 0 0 0 [] [88, 66, 88])" by code_simp+
  from inspect_tallying [OF i h(1) window_of.whole h(2), of "\<lparr>words_bigendian = False, allow_misaligned = True, cob_li_is_ll = True\<rparr>" fp_none cob_init_numeric "(cob_fld COB_TYPE_NUMERIC_DISPLAY 2 0 0 [] [0x30, 0x30])"] show ?thesis
    unfolding o p by blast
qed

section \<open>Properties\<close>

text \<open>
  C1: the SORT of a sort file, with its queues, temporary files and merge passes, is the
  stable sort by the keys, when no key is floating point (keys are text, groups and numbers
  of usage DISPLAY, PACKED-DECIMAL or BINARY that the records hold): for fewer than 2 to the
  64 records of the length of the file, any memory that holds four of them, and a system
  that gives the four temporary files and the room in them, the records released come back
  in the order of the keys, those with equal keys in the order they were released, each
  once, and then the end is reported; the loops of the merge all end.
\<close>

theorem sort_stable:
  assumes "\<forall>n. so_room X n" "\<forall>n<4. so_tmpfile X n"
    and "\<forall>r\<in>set rs. length r = sz \<and> record_keys X r \<noteq> None" "length rs < 2 ^ 64"
    and "4 * (sz + item_head) \<le> mem" "sz \<le> length d"
  shows "\<exists>S S'. submit_all X (new_sort mem sz N) rs = Some S \<and>
    retrieve_all X S d (length rs) = Some (S', stable_sort (record_before X) rs) \<and>
    (\<forall>e. \<exists>S''. cob_file_sort_retrieve X S' e = Some (COBSORTEND, S'', e))"
  by (rule sort_of_records [OF assms])

lemma sort_stable_witness:
  "\<exists>S S'. submit_all (\<lparr>so_target = \<lparr>words_bigendian = False, allow_misaligned = True, cob_li_is_ll = True\<rparr>, so_fp = fp_none, so_module = default_module, so_sort = \<lparr>sort_keys = [\<lparr>sk_ascending = True, sk_field = cob_fld COB_TYPE_ALPHANUMERIC 0 0 0 [] [0], sk_offset = 0\<rparr>], sort_collate = None\<rparr>, so_tmpfile = (\<lambda>_. True), so_room = (\<lambda>_. True)\<rparr>) (new_sort 136 2 cob_init_numeric) [[66, 1], [65, 2], [67, 3], [66, 4], [65, 5], [64, 6]] = Some S \<and>
    retrieve_all (\<lparr>so_target = \<lparr>words_bigendian = False, allow_misaligned = True, cob_li_is_ll = True\<rparr>, so_fp = fp_none, so_module = default_module, so_sort = \<lparr>sort_keys = [\<lparr>sk_ascending = True, sk_field = cob_fld COB_TYPE_ALPHANUMERIC 0 0 0 [] [0], sk_offset = 0\<rparr>], sort_collate = None\<rparr>, so_tmpfile = (\<lambda>_. True), so_room = (\<lambda>_. True)\<rparr>) S [0, 0] 6 = Some (S', [[64, 6], [65, 2], [65, 5], [66, 1], [66, 4], [67, 3]])"
proof -
  let ?rs = "[[66, 1], [65, 2], [67, 3], [66, 4], [65, 5], [64, 6]] :: bytes list"
  have k: "\<forall>r\<in>set ?rs. length r = 2 \<and> record_keys (\<lparr>so_target = \<lparr>words_bigendian = False, allow_misaligned = True, cob_li_is_ll = True\<rparr>, so_fp = fp_none, so_module = default_module, so_sort = \<lparr>sort_keys = [\<lparr>sk_ascending = True, sk_field = cob_fld COB_TYPE_ALPHANUMERIC 0 0 0 [] [0], sk_offset = 0\<rparr>], sort_collate = None\<rparr>, so_tmpfile = (\<lambda>_. True), so_room = (\<lambda>_. True)\<rparr>) r \<noteq> None" by code_simp
  have s: "stable_sort (record_before (\<lparr>so_target = \<lparr>words_bigendian = False, allow_misaligned = True, cob_li_is_ll = True\<rparr>, so_fp = fp_none, so_module = default_module, so_sort = \<lparr>sort_keys = [\<lparr>sk_ascending = True, sk_field = cob_fld COB_TYPE_ALPHANUMERIC 0 0 0 [] [0], sk_offset = 0\<rparr>], sort_collate = None\<rparr>, so_tmpfile = (\<lambda>_. True), so_room = (\<lambda>_. True)\<rparr>)) ?rs = [[64, 6], [65, 2], [65, 5], [66, 1], [66, 4], [67, 3]]" by code_simp
  have l: "length ?rs = 6" by simp
  have "\<forall>n. so_room (\<lparr>so_target = \<lparr>words_bigendian = False, allow_misaligned = True, cob_li_is_ll = True\<rparr>, so_fp = fp_none, so_module = default_module, so_sort = \<lparr>sort_keys = [\<lparr>sk_ascending = True, sk_field = cob_fld COB_TYPE_ALPHANUMERIC 0 0 0 [] [0], sk_offset = 0\<rparr>], sort_collate = None\<rparr>, so_tmpfile = (\<lambda>_. True), so_room = (\<lambda>_. True)\<rparr>) n" "\<forall>n<4. so_tmpfile (\<lparr>so_target = \<lparr>words_bigendian = False, allow_misaligned = True, cob_li_is_ll = True\<rparr>, so_fp = fp_none, so_module = default_module, so_sort = \<lparr>sort_keys = [\<lparr>sk_ascending = True, sk_field = cob_fld COB_TYPE_ALPHANUMERIC 0 0 0 [] [0], sk_offset = 0\<rparr>], sort_collate = None\<rparr>, so_tmpfile = (\<lambda>_. True), so_room = (\<lambda>_. True)\<rparr>) n" "length ?rs < 2 ^ 64" by simp_all
  from sort_stable [OF this(1,2) k this(3), of 136 "[0, 0]" cob_init_numeric] show ?thesis unfolding s l by auto
qed

text \<open>
  C2: any sequence of READ, WRITE, REWRITE and DELETE with the RELATIVE KEY on a RELATIVE
  file opened I-O answers as the same sequence on a map from record numbers to records: READ
  finds the record or answers 23, WRITE adds a record or answers 22, DELETE removes it;
  DELETE and REWRITE answer 23 only beyond the last slot of the file (a record that is
  absent inside the file answers 00), and the file afterwards stands for the map afterwards.
\<close>

theorem relative_refines_map:
  assumes "rel_abs E n W f S" "\<forall>x\<in>set xs. rel_op_ok E key f x"
  shows "\<exists>W' f'. rel_run E key xs W f = Some (fst (rel_spec_run xs S), W', f') \<and> rel_abs E n W' f' (snd (rel_spec_run xs S))"
  by (rule rel_run_refines [OF assms])

lemma relative_refines_map_witness:
  "\<exists>W f. rel_run (plain_env \<lparr>words_bigendian = False, allow_misaligned = True, cob_li_is_ll = True\<rparr>) (\<lambda>_. (cob_fld COB_TYPE_NUMERIC_DISPLAY 1 0 0 [] [0x32])) [Rel_write 1 2 [65, 66], Rel_read 1, Rel_write 1 1 [67, 67], Rel_delete 1, Rel_read 1, Rel_delete 1] (idle_world\<lparr>io_disk := [[70] \<mapsto> []], io_streams := [2 \<mapsto> \<lparr>sm_name = [70], sm_pos = 0, sm_read = True, sm_write = True, sm_append = False, sm_err = False\<rparr>], io_next := 3\<rparr>) (new_file COB_ORG_RELATIVE COB_ACCESS_RANDOM [70] 1 2\<lparr>fhandle := Some 2, open_mode := COB_OPEN_I_O\<rparr>) =
    Some ([(status_ok, None), (status_ok, Some (2, [65, 66])), (status_22, None), (status_ok, None), (status_23, None), (status_ok, None)], W, f)"
proof -
  have a: "rel_abs (plain_env \<lparr>words_bigendian = False, allow_misaligned = True, cob_li_is_ll = True\<rparr>) [70] (idle_world\<lparr>io_disk := [[70] \<mapsto> []], io_streams := [2 \<mapsto> \<lparr>sm_name = [70], sm_pos = 0, sm_read = True, sm_write = True, sm_append = False, sm_err = False\<rparr>], io_next := 3\<rparr>) (new_file COB_ORG_RELATIVE COB_ACCESS_RANDOM [70] 1 2\<lparr>fhandle := Some 2, open_mode := COB_OPEN_I_O\<rparr>) (0, Map.empty)"
    unfolding rel_abs_def
    by (rule conjI, simp add: rel_ready_def new_file_def, rule exI [of _ "[]"], rule exI [of _ 0])
      (simp add: rel_at_def new_file_def idle_world_def fun_eq_iff rel_map_def bytes_at_end host_val_zeros)
  have "item_get (plain_env \<lparr>words_bigendian = False, allow_misaligned = True, cob_li_is_ll = True\<rparr>) (cob_fld COB_TYPE_NUMERIC_DISPLAY 1 0 0 [] [0x32]) = Some (2, (cob_fld COB_TYPE_NUMERIC_DISPLAY 1 0 0 [] [0x32]))" by code_simp
  then have o: "\<forall>x\<in>set [Rel_write 1 2 [65, 66], Rel_read 1, Rel_write 1 1 [67, 67], Rel_delete 1, Rel_read 1, Rel_delete 1].
      rel_op_ok (plain_env \<lparr>words_bigendian = False, allow_misaligned = True, cob_li_is_ll = True\<rparr>) (\<lambda>_. (cob_fld COB_TYPE_NUMERIC_DISPLAY 1 0 0 [] [0x32])) (new_file COB_ORG_RELATIVE COB_ACCESS_RANDOM [70] 1 2\<lparr>fhandle := Some 2, open_mode := COB_OPEN_I_O\<rparr>) x"
    by (simp add: slot_ok_def rel_size_def new_file_def)
  show ?thesis using relative_refines_map [OF a o] by auto
qed

text \<open>
  C3: a number survives its journey as text through three parts of the runtime: DISPLAY of
  an item of usage DISPLAY, PACKED-DECIMAL or BINARY (as in the property of DISPLAY, with at
  most 18 digits shown), ACCEPT of that line into a text item with room for it, and FUNCTION
  NUMVAL of that item. With the option pretty-display (the default) the result has the
  number and the decimal places of the item; where DISPLAY shows no decimal point (without
  the option, and for COMP-5) it has the digits of the number as an integer, which is the
  number if the item has no decimal places. The decimal point is a point or a comma, and the
  output was empty before.
\<close>

theorem number_by_text_read:
  assumes "showable X f v" "text_width X f \<le> 18" "text_item g" "\<And>c. length (number_text X f c v) \<le> fsize g"
    and "decimal_point (tm_module X) \<in> {0x2E, 0x2C}" "term_out S = []"
  shows "\<exists>S1 h g' r. cob_display X False False True [f] S = Some (S1, [h]) \<and>
    cob_accept X g (S\<lparr>term_in := term_out S1\<rparr>) = Some (S\<lparr>term_in := []\<rparr>, g') \<and>
    cob_intr_numval T E (tm_module X) behind g' = Some r \<and> num_val T (tm_module X) r = Some v \<and>
    field_scale r = (if flag_pretty_display X \<and> \<not> real_binary f then field_scale f else 0)"
  using number_by_text [OF assms] by (simp add: pretty_shown_def conj_commute conj_left_commute)

lemma number_by_text_read_witness:
  "\<exists>S1 h g' r. cob_display (\<lparr>tm_target = \<lparr>words_bigendian = False, allow_misaligned = True, cob_li_is_ll = True\<rparr>, tm_fp = fp_none, tm_module = default_module, flag_pretty_display = True, fp_show = (\<lambda>_ _. [])\<rparr>) False False True [(cob_fld COB_TYPE_NUMERIC_PACKED 4 1 5 [] [0x00, 0x04, 0x2D])] \<lparr>term_in = [], term_out = [], term_err = []\<rparr> = Some (S1, [h]) \<and>
    cob_accept (\<lparr>tm_target = \<lparr>words_bigendian = False, allow_misaligned = True, cob_li_is_ll = True\<rparr>, tm_fp = fp_none, tm_module = default_module, flag_pretty_display = True, fp_show = (\<lambda>_ _. [])\<rparr>) (cob_fld COB_TYPE_ALPHANUMERIC 0 0 0 [] [0, 0, 0, 0, 0, 0, 0, 0]) \<lparr>term_in = term_out S1, term_out = [], term_err = []\<rparr> =
      Some (\<lparr>term_in = [], term_out = [], term_err = []\<rparr>, g') \<and>
    cob_intr_numval \<lparr>words_bigendian = False, allow_misaligned = True, cob_li_is_ll = True\<rparr> fp_none default_module [0] g' = Some r \<and> num_val \<lparr>words_bigendian = False, allow_misaligned = True, cob_li_is_ll = True\<rparr> default_module r = Some (- 42) \<and> field_scale r = 1"
proof -
  have h: "showable (\<lparr>tm_target = \<lparr>words_bigendian = False, allow_misaligned = True, cob_li_is_ll = True\<rparr>, tm_fp = fp_none, tm_module = default_module, flag_pretty_display = True, fp_show = (\<lambda>_ _. [])\<rparr>) (cob_fld COB_TYPE_NUMERIC_PACKED 4 1 5 [] [0x00, 0x04, 0x2D]) (- 42)" "text_width (\<lparr>tm_target = \<lparr>words_bigendian = False, allow_misaligned = True, cob_li_is_ll = True\<rparr>, tm_fp = fp_none, tm_module = default_module, flag_pretty_display = True, fp_show = (\<lambda>_ _. [])\<rparr>) (cob_fld COB_TYPE_NUMERIC_PACKED 4 1 5 [] [0x00, 0x04, 0x2D]) \<le> 18" "text_item (cob_fld COB_TYPE_ALPHANUMERIC 0 0 0 [] [0, 0, 0, 0, 0, 0, 0, 0])" "field_scale (cob_fld COB_TYPE_NUMERIC_PACKED 4 1 5 [] [0x00, 0x04, 0x2D]) = 1" "\<not> real_binary (cob_fld COB_TYPE_NUMERIC_PACKED 4 1 5 [] [0x00, 0x04, 0x2D])" by code_simp+
  have t: "number_text (\<lparr>tm_target = \<lparr>words_bigendian = False, allow_misaligned = True, cob_li_is_ll = True\<rparr>, tm_fp = fp_none, tm_module = default_module, flag_pretty_display = True, fp_show = (\<lambda>_ _. [])\<rparr>) (cob_fld COB_TYPE_NUMERIC_PACKED 4 1 5 [] [0x00, 0x04, 0x2D]) c (- 42) = [c, 48, 48, 52, 46, 50]" "fsize (cob_fld COB_TYPE_ALPHANUMERIC 0 0 0 [] [0, 0, 0, 0, 0, 0, 0, 0]) = 8" for c by code_simp+
  have "length (number_text (\<lparr>tm_target = \<lparr>words_bigendian = False, allow_misaligned = True, cob_li_is_ll = True\<rparr>, tm_fp = fp_none, tm_module = default_module, flag_pretty_display = True, fp_show = (\<lambda>_ _. [])\<rparr>) (cob_fld COB_TYPE_NUMERIC_PACKED 4 1 5 [] [0x00, 0x04, 0x2D]) c (- 42)) \<le> fsize (cob_fld COB_TYPE_ALPHANUMERIC 0 0 0 [] [0, 0, 0, 0, 0, 0, 0, 0])" for c unfolding t by simp
  moreover have d: "decimal_point (tm_module (\<lparr>tm_target = \<lparr>words_bigendian = False, allow_misaligned = True, cob_li_is_ll = True\<rparr>, tm_fp = fp_none, tm_module = default_module, flag_pretty_display = True, fp_show = (\<lambda>_ _. [])\<rparr>)) \<in> {0x2E, 0x2C}" "term_out \<lparr>term_in = [], term_out = [], term_err = []\<rparr> = []"
    by (simp_all add: default_module_def)
  ultimately show ?thesis using number_by_text_read [OF h(1-3) _ d, of "\<lparr>words_bigendian = False, allow_misaligned = True, cob_li_is_ll = True\<rparr>" fp_none "[0]"] h(4,5) by simp
qed

text \<open>
  C4: the layout of a record: for a tree of items below 2 GB (occurrences, redefinitions and
  padding counted in full) without RENAMES, SYNCHRONIZED groups, redefinition of EXTERNAL
  items and COMP-X items with an alphanumeric picture, in which every redefining item
  follows its original with only other redefinitions of it between, items occur at least
  once and elementary items have a usage with a size, the computation of sizes ends without
  an undefined value; no item outside the record and no clause of an item is changed; and
  when no error is reported every item lies inside its group with all its occurrences, an
  item that redefines nothing starts behind everything declared before it, a redefining item
  starts where its original does, and every elementary item has the size of its usage.
\<close>

theorem record_layout:
  assumes "0 < lc_pointer C" "lc_pointer C \<le> 8" "decl_ok C S t" "distinct (ids t)" "0 \<le> cf_offset (S (root t))"
    "cf_offset (S (root t)) + room C S t < 2 ^ 31"
  shows "\<exists>S' ms. compute_size C t (S, []) = Some (cf_size (S' (root t)), S', ms) \<and>
    0 \<le> cf_size (S' (root t)) \<and> cf_size (S' (root t)) \<le> room C S t \<and> cf_offset (S' (root t)) = cf_offset (S (root t)) \<and>
    decl_same S S' \<and> (\<forall>j. j \<notin> set (ids t) \<longrightarrow> S' j = S j) \<and> (ms = [] \<longrightarrow> laid_out C S' t)"
  using all_sized [OF assms(1,2), of t, unfolded size_good_def, rule_format, OF assms(3-6), of "[]"] by simp

lemma record_layout_witness:
  "\<exists>S'. compute_size \<lparr>lc_binary_size = CB_BINARY_SIZE_1_2_4_8, lc_larger_redefines_ok = False, lc_synchronized = True, lc_swap = True, lc_pointer = 8, lc_decimal_point = chr_dot, lc_currency = 0x24\<rparr> (Item 0 [Item 1 [], Item 2 [Item 3 [], Item 4 []], Item 5 [], Item 6 []]) (((\<lambda>j. cb_build_field)(
      0 := cb_build_field\<lparr>cf_level := 1\<rparr>,
      1 := cb_build_field\<lparr>cf_level := 5, cf_pic := Some (no_picture\<lparr>pc_size := 3, pc_category := CB_CATEGORY_ALPHANUMERIC\<rparr>)\<rparr>,
      2 := cb_build_field\<lparr>cf_level := 5, cf_occurs_max := 2\<rparr>,
      3 := cb_build_field\<lparr>cf_level := 10, flag_synchronized := True, cf_usage := CB_USAGE_BINARY,
        cf_pic := Some (no_picture\<lparr>pc_size := 4, pc_digits := 4, pc_category := CB_CATEGORY_NUMERIC\<rparr>)\<rparr>,
      4 := cb_build_field\<lparr>cf_level := 10, flag_sign_separate := True,
        cf_pic := Some (no_picture\<lparr>pc_size := 6, pc_digits := 6, pc_have_sign := 1, pc_category := CB_CATEGORY_NUMERIC\<rparr>)\<rparr>,
      5 := cb_build_field\<lparr>cf_level := 5, cf_redefines := Some 2, cf_pic := Some (no_picture\<lparr>pc_size := 20, pc_category := CB_CATEGORY_ALPHANUMERIC\<rparr>)\<rparr>,
      6 := cb_build_field\<lparr>cf_level := 5, cf_usage := CB_USAGE_PACKED,
        cf_pic := Some (no_picture\<lparr>pc_size := 7, pc_digits := 7, pc_category := CB_CATEGORY_NUMERIC\<rparr>)\<rparr>)), []) = Some (27, S', []) \<and> laid_out \<lparr>lc_binary_size = CB_BINARY_SIZE_1_2_4_8, lc_larger_redefines_ok = False, lc_synchronized = True, lc_swap = True, lc_pointer = 8, lc_decimal_point = chr_dot, lc_currency = 0x24\<rparr> S' (Item 0 [Item 1 [], Item 2 [Item 3 [], Item 4 []], Item 5 [], Item 6 []]) \<and>
    map (\<lambda>j. cf_offset (S' j)) [1, 2, 3, 4, 5, 6] = [0, 3, 4, 6, 3, 23] \<and> map (\<lambda>j. cf_size (S' j)) [1, 2, 3, 4, 5, 6] = [3, 10, 2, 7, 20, 4]"
proof -
  have h: "0 < lc_pointer \<lparr>lc_binary_size = CB_BINARY_SIZE_1_2_4_8, lc_larger_redefines_ok = False, lc_synchronized = True, lc_swap = True, lc_pointer = 8, lc_decimal_point = chr_dot, lc_currency = 0x24\<rparr>" "lc_pointer \<lparr>lc_binary_size = CB_BINARY_SIZE_1_2_4_8, lc_larger_redefines_ok = False, lc_synchronized = True, lc_swap = True, lc_pointer = 8, lc_decimal_point = chr_dot, lc_currency = 0x24\<rparr> \<le> 8" "decl_ok \<lparr>lc_binary_size = CB_BINARY_SIZE_1_2_4_8, lc_larger_redefines_ok = False, lc_synchronized = True, lc_swap = True, lc_pointer = 8, lc_decimal_point = chr_dot, lc_currency = 0x24\<rparr> ((\<lambda>j. cb_build_field)(
      0 := cb_build_field\<lparr>cf_level := 1\<rparr>,
      1 := cb_build_field\<lparr>cf_level := 5, cf_pic := Some (no_picture\<lparr>pc_size := 3, pc_category := CB_CATEGORY_ALPHANUMERIC\<rparr>)\<rparr>,
      2 := cb_build_field\<lparr>cf_level := 5, cf_occurs_max := 2\<rparr>,
      3 := cb_build_field\<lparr>cf_level := 10, flag_synchronized := True, cf_usage := CB_USAGE_BINARY,
        cf_pic := Some (no_picture\<lparr>pc_size := 4, pc_digits := 4, pc_category := CB_CATEGORY_NUMERIC\<rparr>)\<rparr>,
      4 := cb_build_field\<lparr>cf_level := 10, flag_sign_separate := True,
        cf_pic := Some (no_picture\<lparr>pc_size := 6, pc_digits := 6, pc_have_sign := 1, pc_category := CB_CATEGORY_NUMERIC\<rparr>)\<rparr>,
      5 := cb_build_field\<lparr>cf_level := 5, cf_redefines := Some 2, cf_pic := Some (no_picture\<lparr>pc_size := 20, pc_category := CB_CATEGORY_ALPHANUMERIC\<rparr>)\<rparr>,
      6 := cb_build_field\<lparr>cf_level := 5, cf_usage := CB_USAGE_PACKED,
        cf_pic := Some (no_picture\<lparr>pc_size := 7, pc_digits := 7, pc_category := CB_CATEGORY_NUMERIC\<rparr>)\<rparr>)) (Item 0 [Item 1 [], Item 2 [Item 3 [], Item 4 []], Item 5 [], Item 6 []])" "distinct (ids (Item 0 [Item 1 [], Item 2 [Item 3 [], Item 4 []], Item 5 [], Item 6 []]))" "0 \<le> cf_offset (((\<lambda>j. cb_build_field)(
      0 := cb_build_field\<lparr>cf_level := 1\<rparr>,
      1 := cb_build_field\<lparr>cf_level := 5, cf_pic := Some (no_picture\<lparr>pc_size := 3, pc_category := CB_CATEGORY_ALPHANUMERIC\<rparr>)\<rparr>,
      2 := cb_build_field\<lparr>cf_level := 5, cf_occurs_max := 2\<rparr>,
      3 := cb_build_field\<lparr>cf_level := 10, flag_synchronized := True, cf_usage := CB_USAGE_BINARY,
        cf_pic := Some (no_picture\<lparr>pc_size := 4, pc_digits := 4, pc_category := CB_CATEGORY_NUMERIC\<rparr>)\<rparr>,
      4 := cb_build_field\<lparr>cf_level := 10, flag_sign_separate := True,
        cf_pic := Some (no_picture\<lparr>pc_size := 6, pc_digits := 6, pc_have_sign := 1, pc_category := CB_CATEGORY_NUMERIC\<rparr>)\<rparr>,
      5 := cb_build_field\<lparr>cf_level := 5, cf_redefines := Some 2, cf_pic := Some (no_picture\<lparr>pc_size := 20, pc_category := CB_CATEGORY_ALPHANUMERIC\<rparr>)\<rparr>,
      6 := cb_build_field\<lparr>cf_level := 5, cf_usage := CB_USAGE_PACKED,
        cf_pic := Some (no_picture\<lparr>pc_size := 7, pc_digits := 7, pc_category := CB_CATEGORY_NUMERIC\<rparr>)\<rparr>)) (root (Item 0 [Item 1 [], Item 2 [Item 3 [], Item 4 []], Item 5 [], Item 6 []])))"
    "cf_offset (((\<lambda>j. cb_build_field)(
      0 := cb_build_field\<lparr>cf_level := 1\<rparr>,
      1 := cb_build_field\<lparr>cf_level := 5, cf_pic := Some (no_picture\<lparr>pc_size := 3, pc_category := CB_CATEGORY_ALPHANUMERIC\<rparr>)\<rparr>,
      2 := cb_build_field\<lparr>cf_level := 5, cf_occurs_max := 2\<rparr>,
      3 := cb_build_field\<lparr>cf_level := 10, flag_synchronized := True, cf_usage := CB_USAGE_BINARY,
        cf_pic := Some (no_picture\<lparr>pc_size := 4, pc_digits := 4, pc_category := CB_CATEGORY_NUMERIC\<rparr>)\<rparr>,
      4 := cb_build_field\<lparr>cf_level := 10, flag_sign_separate := True,
        cf_pic := Some (no_picture\<lparr>pc_size := 6, pc_digits := 6, pc_have_sign := 1, pc_category := CB_CATEGORY_NUMERIC\<rparr>)\<rparr>,
      5 := cb_build_field\<lparr>cf_level := 5, cf_redefines := Some 2, cf_pic := Some (no_picture\<lparr>pc_size := 20, pc_category := CB_CATEGORY_ALPHANUMERIC\<rparr>)\<rparr>,
      6 := cb_build_field\<lparr>cf_level := 5, cf_usage := CB_USAGE_PACKED,
        cf_pic := Some (no_picture\<lparr>pc_size := 7, pc_digits := 7, pc_category := CB_CATEGORY_NUMERIC\<rparr>)\<rparr>)) (root (Item 0 [Item 1 [], Item 2 [Item 3 [], Item 4 []], Item 5 [], Item 6 []]))) + room \<lparr>lc_binary_size = CB_BINARY_SIZE_1_2_4_8, lc_larger_redefines_ok = False, lc_synchronized = True, lc_swap = True, lc_pointer = 8, lc_decimal_point = chr_dot, lc_currency = 0x24\<rparr> ((\<lambda>j. cb_build_field)(
      0 := cb_build_field\<lparr>cf_level := 1\<rparr>,
      1 := cb_build_field\<lparr>cf_level := 5, cf_pic := Some (no_picture\<lparr>pc_size := 3, pc_category := CB_CATEGORY_ALPHANUMERIC\<rparr>)\<rparr>,
      2 := cb_build_field\<lparr>cf_level := 5, cf_occurs_max := 2\<rparr>,
      3 := cb_build_field\<lparr>cf_level := 10, flag_synchronized := True, cf_usage := CB_USAGE_BINARY,
        cf_pic := Some (no_picture\<lparr>pc_size := 4, pc_digits := 4, pc_category := CB_CATEGORY_NUMERIC\<rparr>)\<rparr>,
      4 := cb_build_field\<lparr>cf_level := 10, flag_sign_separate := True,
        cf_pic := Some (no_picture\<lparr>pc_size := 6, pc_digits := 6, pc_have_sign := 1, pc_category := CB_CATEGORY_NUMERIC\<rparr>)\<rparr>,
      5 := cb_build_field\<lparr>cf_level := 5, cf_redefines := Some 2, cf_pic := Some (no_picture\<lparr>pc_size := 20, pc_category := CB_CATEGORY_ALPHANUMERIC\<rparr>)\<rparr>,
      6 := cb_build_field\<lparr>cf_level := 5, cf_usage := CB_USAGE_PACKED,
        cf_pic := Some (no_picture\<lparr>pc_size := 7, pc_digits := 7, pc_category := CB_CATEGORY_NUMERIC\<rparr>)\<rparr>)) (Item 0 [Item 1 [], Item 2 [Item 3 [], Item 4 []], Item 5 [], Item 6 []]) < 2 ^ 31" by code_simp+
  have v: "map_option (\<lambda>(n, S, ms). (n, map (\<lambda>j. cf_offset (S j)) [1, 2, 3, 4, 5, 6], map (\<lambda>j. cf_size (S j)) [1, 2, 3, 4, 5, 6], ms))
      (compute_size \<lparr>lc_binary_size = CB_BINARY_SIZE_1_2_4_8, lc_larger_redefines_ok = False, lc_synchronized = True, lc_swap = True, lc_pointer = 8, lc_decimal_point = chr_dot, lc_currency = 0x24\<rparr> (Item 0 [Item 1 [], Item 2 [Item 3 [], Item 4 []], Item 5 [], Item 6 []]) (((\<lambda>j. cb_build_field)(
      0 := cb_build_field\<lparr>cf_level := 1\<rparr>,
      1 := cb_build_field\<lparr>cf_level := 5, cf_pic := Some (no_picture\<lparr>pc_size := 3, pc_category := CB_CATEGORY_ALPHANUMERIC\<rparr>)\<rparr>,
      2 := cb_build_field\<lparr>cf_level := 5, cf_occurs_max := 2\<rparr>,
      3 := cb_build_field\<lparr>cf_level := 10, flag_synchronized := True, cf_usage := CB_USAGE_BINARY,
        cf_pic := Some (no_picture\<lparr>pc_size := 4, pc_digits := 4, pc_category := CB_CATEGORY_NUMERIC\<rparr>)\<rparr>,
      4 := cb_build_field\<lparr>cf_level := 10, flag_sign_separate := True,
        cf_pic := Some (no_picture\<lparr>pc_size := 6, pc_digits := 6, pc_have_sign := 1, pc_category := CB_CATEGORY_NUMERIC\<rparr>)\<rparr>,
      5 := cb_build_field\<lparr>cf_level := 5, cf_redefines := Some 2, cf_pic := Some (no_picture\<lparr>pc_size := 20, pc_category := CB_CATEGORY_ALPHANUMERIC\<rparr>)\<rparr>,
      6 := cb_build_field\<lparr>cf_level := 5, cf_usage := CB_USAGE_PACKED,
        cf_pic := Some (no_picture\<lparr>pc_size := 7, pc_digits := 7, pc_category := CB_CATEGORY_NUMERIC\<rparr>)\<rparr>)), [])) = Some (27, [0, 3, 4, 6, 3, 23], [3, 10, 2, 7, 20, 4], [])" by code_simp
  obtain S' ms where r: "compute_size \<lparr>lc_binary_size = CB_BINARY_SIZE_1_2_4_8, lc_larger_redefines_ok = False, lc_synchronized = True, lc_swap = True, lc_pointer = 8, lc_decimal_point = chr_dot, lc_currency = 0x24\<rparr> (Item 0 [Item 1 [], Item 2 [Item 3 [], Item 4 []], Item 5 [], Item 6 []]) (((\<lambda>j. cb_build_field)(
      0 := cb_build_field\<lparr>cf_level := 1\<rparr>,
      1 := cb_build_field\<lparr>cf_level := 5, cf_pic := Some (no_picture\<lparr>pc_size := 3, pc_category := CB_CATEGORY_ALPHANUMERIC\<rparr>)\<rparr>,
      2 := cb_build_field\<lparr>cf_level := 5, cf_occurs_max := 2\<rparr>,
      3 := cb_build_field\<lparr>cf_level := 10, flag_synchronized := True, cf_usage := CB_USAGE_BINARY,
        cf_pic := Some (no_picture\<lparr>pc_size := 4, pc_digits := 4, pc_category := CB_CATEGORY_NUMERIC\<rparr>)\<rparr>,
      4 := cb_build_field\<lparr>cf_level := 10, flag_sign_separate := True,
        cf_pic := Some (no_picture\<lparr>pc_size := 6, pc_digits := 6, pc_have_sign := 1, pc_category := CB_CATEGORY_NUMERIC\<rparr>)\<rparr>,
      5 := cb_build_field\<lparr>cf_level := 5, cf_redefines := Some 2, cf_pic := Some (no_picture\<lparr>pc_size := 20, pc_category := CB_CATEGORY_ALPHANUMERIC\<rparr>)\<rparr>,
      6 := cb_build_field\<lparr>cf_level := 5, cf_usage := CB_USAGE_PACKED,
        cf_pic := Some (no_picture\<lparr>pc_size := 7, pc_digits := 7, pc_category := CB_CATEGORY_NUMERIC\<rparr>)\<rparr>)), []) = Some (cf_size (S' (root (Item 0 [Item 1 [], Item 2 [Item 3 [], Item 4 []], Item 5 [], Item 6 []]))), S', ms)" "ms = [] \<longrightarrow> laid_out \<lparr>lc_binary_size = CB_BINARY_SIZE_1_2_4_8, lc_larger_redefines_ok = False, lc_synchronized = True, lc_swap = True, lc_pointer = 8, lc_decimal_point = chr_dot, lc_currency = 0x24\<rparr> S' (Item 0 [Item 1 [], Item 2 [Item 3 [], Item 4 []], Item 5 [], Item 6 []])"
    using record_layout [OF h] by blast
  have e: "cf_size (S' (root (Item 0 [Item 1 [], Item 2 [Item 3 [], Item 4 []], Item 5 [], Item 6 []]))) = 27" "ms = []" "map (\<lambda>j. cf_offset (S' j)) [1, 2, 3, 4, 5, 6] = [0, 3, 4, 6, 3, 23]"
    "map (\<lambda>j. cf_size (S' j)) [1, 2, 3, 4, 5, 6] = [3, 10, 2, 7, 20, 4]" using v [unfolded r(1)] by simp_all
  show ?thesis by (intro exI [of _ S'] conjI r(1) [unfolded e(1,2)] r(2) [rule_format, OF e(2)] e(3,4))
qed

text \<open>
  C5: the compiler and the runtime agree on edited items: when cobc reads a PICTURE string
  without P as a numeric edited picture, the size it declares is one character for every
  position of the packed picture (two for CR, DB and N, none for V), and MOVE of any number
  of usage DISPLAY, PACKED-DECIMAL (up to 64 digits) or BINARY to an item of that picture
  and size ends, stays inside it and leaves the number as it was.
\<close>

theorem picture_edit_safe:
  assumes "cb_build_picture dp cs str = (False, pic)" "pc_category pic = CB_CATEGORY_NUMERIC_EDITED" "0x50 \<notin> set str"
    and "field_type g = COB_TYPE_NUMERIC_EDITED" "pc_str pic = Some (field_pic g)" "fsize g = pc_size pic" "0 < fsize g"
    and "num_val T M f = Some v" "field_type f = COB_TYPE_NUMERIC_PACKED \<longrightarrow> field_digits f \<le> 64"
  shows "pc_size pic = sum_list (map (\<lambda>(c, n). if c = 0x56 then 0 else if c \<in> {0x43, 0x44, 0x4E} then 2 * n else n) (field_pic g)) \<and>
    (\<exists>f' g'. cob_move T E M f g = Some (f', g') \<and> num_val T M f' = Some v \<and> fattr g' = fattr g \<and> fsize g' = fsize g)"
proof
  have w: "width p = (case p of (c, n) \<Rightarrow> if c = 0x56 then 0 else if c \<in> {0x43, 0x44, 0x4E} then 2 * n else n)"
    if "p \<in> set (field_pic g)" for p
    using build_picture_edited(2) [OF assms(1,5)] assms(3) that by (cases p) (auto simp: width_def)
  have e: "map width (field_pic g) = map (\<lambda>(c, n). if c = 0x56 then 0 else if c \<in> {0x43, 0x44, 0x4E} then 2 * n else n) (field_pic g)"
    by (rule map_cong [OF refl w])
  show "pc_size pic = sum_list (map (\<lambda>(c, n). if c = 0x56 then 0 else if c \<in> {0x43, 0x44, 0x4E} then 2 * n else n) (field_pic g))"
    using build_picture_edited(1) [OF assms(1,5)] unfolding e .
  obtain f' g' where m: "cob_move T E M f g = Some (f', g')" "num_val T M f' = Some v"
    using move_to_edited [OF assms(8,9) compiled_edited_item [OF assms(1-7)]] by blast
  have "has_room g" using assms(7) by (auto simp: has_room_def data_off_def data_size_def)
  then show "\<exists>f' g'. cob_move T E M f g = Some (f', g') \<and> num_val T M f' = Some v \<and> fattr g' = fattr g \<and> fsize g' = fsize g"
    using move_keeps [of g f T E M] m by (simp add: keeps_def same_shape_def)
qed

lemma picture_edit_safe_witness:
  "\<exists>f' g'. cob_move \<lparr>words_bigendian = False, allow_misaligned = True, cob_li_is_ll = True\<rparr> fp_none default_module (cob_fld COB_TYPE_NUMERIC_PACKED 4 1 COB_FLAG_HAVE_SIGN [] [0x00, 0x04, 0x2D]) (cob_fld COB_TYPE_NUMERIC_EDITED 4 1 0 [(0x5A, 2), (0x39, 1), (0x2E, 1), (0x39, 1), (0x43, 1)] [0, 0, 0, 0, 0, 0, 0]) = Some (f', g') \<and> num_val \<lparr>words_bigendian = False, allow_misaligned = True, cob_li_is_ll = True\<rparr> default_module f' = Some (- 42) \<and> fsize g' = 7"
proof -
  have p: "cb_build_picture chr_dot 0x24 [0x5A, 0x28, 0x32, 0x29, 0x39, 0x2E, 0x39, 0x43, 0x52] =
      (False, \<lparr>pc_size = 7, pc_digits = 4, pc_scale = 1, pc_have_sign = 1, pc_category = CB_CATEGORY_NUMERIC_EDITED,
        pc_str = Some [(0x5A, 2), (0x39, 1), (0x2E, 1), (0x39, 1), (0x43, 1)]\<rparr>)" by code_simp
  have h: "(0x50 :: u8) \<notin> set [0x5A, 0x28, 0x32, 0x29, 0x39, 0x2E, 0x39, 0x43, 0x52]" "field_type (cob_fld COB_TYPE_NUMERIC_EDITED 4 1 0 [(0x5A, 2), (0x39, 1), (0x2E, 1), (0x39, 1), (0x43, 1)] [0, 0, 0, 0, 0, 0, 0]) = COB_TYPE_NUMERIC_EDITED"
    "num_val \<lparr>words_bigendian = False, allow_misaligned = True, cob_li_is_ll = True\<rparr> default_module (cob_fld COB_TYPE_NUMERIC_PACKED 4 1 COB_FLAG_HAVE_SIGN [] [0x00, 0x04, 0x2D]) = Some (- 42)" "field_type (cob_fld COB_TYPE_NUMERIC_PACKED 4 1 COB_FLAG_HAVE_SIGN [] [0x00, 0x04, 0x2D]) = COB_TYPE_NUMERIC_PACKED \<longrightarrow> field_digits (cob_fld COB_TYPE_NUMERIC_PACKED 4 1 COB_FLAG_HAVE_SIGN [] [0x00, 0x04, 0x2D]) \<le> 64" by code_simp+
  have g: "field_pic (cob_fld COB_TYPE_NUMERIC_EDITED 4 1 0 [(0x5A, 2), (0x39, 1), (0x2E, 1), (0x39, 1), (0x43, 1)] [0, 0, 0, 0, 0, 0, 0]) = [(0x5A, 2), (0x39, 1), (0x2E, 1), (0x39, 1), (0x43, 1)]" "fsize (cob_fld COB_TYPE_NUMERIC_EDITED 4 1 0 [(0x5A, 2), (0x39, 1), (0x2E, 1), (0x39, 1), (0x43, 1)] [0, 0, 0, 0, 0, 0, 0]) = 7" by code_simp+
  show ?thesis using picture_edit_safe [OF p _ h(1,2) _ _ _ h(3,4), of fp_none] unfolding g by auto
qed

text \<open>
  C6: in every state that any sequence of OPEN, CLOSE, START, READ, WRITE, REWRITE, DELETE
  and UNLOCK on a connector can reach, whatever happens to other files and to the items of
  the program in between, an open connector of an existing ordinary file (not the special
  file of standard input and output) holds a stream that is open in the directions of its
  mode, a connector closed WITH LOCK holds a stream that was closed, and no stream has yet a
  number that the next OPEN will give.
\<close>

theorem file_protocol:
  assumes "errnos E" "file_reachable E W f" "special f = 0" "\<not> flag_nonexistent f"
  shows "(open_mode f \<noteq> COB_OPEN_CLOSED \<and> open_mode f \<noteq> COB_OPEN_LOCKED \<longrightarrow>
      (\<exists>h s. fhandle f = Some h \<and> io_streams W h = Some s \<and>
        (open_mode f \<in> {COB_OPEN_INPUT, COB_OPEN_I_O} \<longrightarrow> sm_read s) \<and>
        (open_mode f \<in> {COB_OPEN_OUTPUT, COB_OPEN_I_O, COB_OPEN_EXTEND} \<longrightarrow> sm_write s))) \<and>
    (open_mode f = COB_OPEN_LOCKED \<longrightarrow> (\<exists>h. fhandle f = Some h \<and> h < io_next W \<and> io_streams W h = None)) \<and>
    (\<forall>h\<ge>io_next W. io_streams W h = None)"
  using file_reachable_ok [OF assms(1,2)] assms(3,4)
  by (simp add: file_ok_def owns_def released_def fresh_streams_def mode_reads_def mode_writes_def)

lemma file_protocol_witness:
  "\<exists>W f fns h s. cob_open (plain_env \<lparr>words_bigendian = False, allow_misaligned = True, cob_li_is_ll = True\<rparr>) idle_world (new_file COB_ORG_SEQUENTIAL COB_ACCESS_SEQUENTIAL [70] 1 4) COB_OPEN_OUTPUT False None = Some (W, f, fns) \<and>
    fhandle f = Some h \<and> io_streams W h = Some s \<and> sm_write s"
proof -
  have e: "errnos (plain_env \<lparr>words_bigendian = False, allow_misaligned = True, cob_li_is_ll = True\<rparr>)" and s: "file_reachable (plain_env \<lparr>words_bigendian = False, allow_misaligned = True, cob_li_is_ll = True\<rparr>) idle_world (new_file COB_ORG_SEQUENTIAL COB_ACCESS_SEQUENTIAL [70] 1 4)"
    by (simp_all add: errnos_def plain_env_def file_reachable.unopened fresh_streams_def idle_world_def new_file_def)
  obtain W f where o: "cob_open (plain_env \<lparr>words_bigendian = False, allow_misaligned = True, cob_li_is_ll = True\<rparr>) idle_world (new_file COB_ORG_SEQUENTIAL COB_ACCESS_SEQUENTIAL [70] 1 4) COB_OPEN_OUTPUT False None = Some (W, f, None)"
    and f: "special f = 0" "\<not> flag_nonexistent f" "open_mode f = COB_OPEN_OUTPUT"
    by (simp add: cob_open_def open_file_def open_named_def finish_def save_status_def put_status_def new_file_def plain_env_def
      idle_world_def assigned_name_def map_file_name_def cob_cache_file_def cob_file_open_def fopen_def put_stream_def
      open_fmode_def open_answer_def Let_def)
  have "file_reachable (plain_env \<lparr>words_bigendian = False, allow_misaligned = True, cob_li_is_ll = True\<rparr>) W f" by (rule file_reachable.after [OF s file_step.step_open [OF _ _ o]]) simp_all
  from file_protocol [OF e this f(1,2)] o f(3) show ?thesis by auto
qed

text \<open>
  C7: MOVE from any of DISPLAY, PACKED-DECIMAL and BINARY to any of them, directly or
  through the temporary item, aligns the number of the source at the decimal point and drops
  the sign for an unsigned target; a DISPLAY or PACKED target, and a BINARY target of less
  than 19 digits under binary-truncate, keeps the low-order digits its picture has; a COMP-5
  target, and any BINARY target without binary-truncate, keeps the low-order bits its bytes
  have. Both items keep their shape and the source its number. A DISPLAY source has no
  scaling positions, a PACKED one at most 64 digits, and for a binary target the aligned
  number is less than 2 to the 63.
\<close>

theorem move_between_numeric:
  assumes "num_val T M f1 = Some v" "num_target M f2 \<or> native_target M f2" "move_fits f1 f2 v"
    and "k = field_scale f2 - field_scale f1"
  shows "\<exists>g1 g2. cob_move T E M f1 f2 = Some (g1, g2) \<and> same_shape f1 g1 \<and> same_shape f2 g2 \<and> num_val T M g1 = Some v \<and>
    num_val T M g2 = Some (if native_target M f2 then native_result f2 v k else move_result f2 v k)"
proof (cases "native_target M f2")
  case True
  then show ?thesis using move_native [OF assms(1) True assms(3), of E] by (simp add: moved_native_def assms(4))
next
  case False
  then show ?thesis using move_num [OF assms(1) _ assms(3), of E] assms(2) by (simp add: moved_def assms(4))
qed

lemma move_between_numeric_witness:
  "(\<exists>g1 g2. cob_move \<lparr>words_bigendian = False, allow_misaligned = True, cob_li_is_ll = True\<rparr> fp_none default_module (cob_fld COB_TYPE_NUMERIC_PACKED 5 2 1 [] [0x12, 0x34, 0x5d]) (cob_fld COB_TYPE_NUMERIC_BINARY 2 0 33 [] [0x7f]) = Some (g1, g2) \<and> num_val \<lparr>words_bigendian = False, allow_misaligned = True, cob_li_is_ll = True\<rparr> default_module g2 = Some (- 23)) \<and>
    (\<exists>g1 g2. cob_move \<lparr>words_bigendian = False, allow_misaligned = True, cob_li_is_ll = True\<rparr> fp_none default_module (cob_fld COB_TYPE_NUMERIC_PACKED 5 2 1 [] [0x12, 0x34, 0x5d]) (cob_fld COB_TYPE_NUMERIC_BINARY 2 0 (COB_FLAG_HAVE_SIGN OR COB_FLAG_REAL_BINARY) [] [0x7f]) = Some (g1, g2) \<and> num_val \<lparr>words_bigendian = False, allow_misaligned = True, cob_li_is_ll = True\<rparr> default_module g2 = Some (- 123))"
proof -
  have h: "num_val \<lparr>words_bigendian = False, allow_misaligned = True, cob_li_is_ll = True\<rparr> default_module (cob_fld COB_TYPE_NUMERIC_PACKED 5 2 1 [] [0x12, 0x34, 0x5d]) = Some (- 12345)" "num_target default_module (cob_fld COB_TYPE_NUMERIC_BINARY 2 0 33 [] [0x7f]) \<or> native_target default_module (cob_fld COB_TYPE_NUMERIC_BINARY 2 0 33 [] [0x7f])"
    "move_fits (cob_fld COB_TYPE_NUMERIC_PACKED 5 2 1 [] [0x12, 0x34, 0x5d]) (cob_fld COB_TYPE_NUMERIC_BINARY 2 0 33 [] [0x7f]) (- 12345)" "num_target default_module (cob_fld COB_TYPE_NUMERIC_BINARY 2 0 (COB_FLAG_HAVE_SIGN OR COB_FLAG_REAL_BINARY) [] [0x7f]) \<or> native_target default_module (cob_fld COB_TYPE_NUMERIC_BINARY 2 0 (COB_FLAG_HAVE_SIGN OR COB_FLAG_REAL_BINARY) [] [0x7f])" "move_fits (cob_fld COB_TYPE_NUMERIC_PACKED 5 2 1 [] [0x12, 0x34, 0x5d]) (cob_fld COB_TYPE_NUMERIC_BINARY 2 0 (COB_FLAG_HAVE_SIGN OR COB_FLAG_REAL_BINARY) [] [0x7f]) (- 12345)" by code_simp+
  have r: "(if native_target default_module (cob_fld COB_TYPE_NUMERIC_BINARY 2 0 33 [] [0x7f]) then native_result (cob_fld COB_TYPE_NUMERIC_BINARY 2 0 33 [] [0x7f]) (- 12345) (field_scale (cob_fld COB_TYPE_NUMERIC_BINARY 2 0 33 [] [0x7f]) - field_scale (cob_fld COB_TYPE_NUMERIC_PACKED 5 2 1 [] [0x12, 0x34, 0x5d]))
      else move_result (cob_fld COB_TYPE_NUMERIC_BINARY 2 0 33 [] [0x7f]) (- 12345) (field_scale (cob_fld COB_TYPE_NUMERIC_BINARY 2 0 33 [] [0x7f]) - field_scale (cob_fld COB_TYPE_NUMERIC_PACKED 5 2 1 [] [0x12, 0x34, 0x5d]))) = - 23"
    "(if native_target default_module (cob_fld COB_TYPE_NUMERIC_BINARY 2 0 (COB_FLAG_HAVE_SIGN OR COB_FLAG_REAL_BINARY) [] [0x7f]) then native_result (cob_fld COB_TYPE_NUMERIC_BINARY 2 0 (COB_FLAG_HAVE_SIGN OR COB_FLAG_REAL_BINARY) [] [0x7f]) (- 12345) (field_scale (cob_fld COB_TYPE_NUMERIC_BINARY 2 0 (COB_FLAG_HAVE_SIGN OR COB_FLAG_REAL_BINARY) [] [0x7f]) - field_scale (cob_fld COB_TYPE_NUMERIC_PACKED 5 2 1 [] [0x12, 0x34, 0x5d]))
      else move_result (cob_fld COB_TYPE_NUMERIC_BINARY 2 0 (COB_FLAG_HAVE_SIGN OR COB_FLAG_REAL_BINARY) [] [0x7f]) (- 12345) (field_scale (cob_fld COB_TYPE_NUMERIC_BINARY 2 0 (COB_FLAG_HAVE_SIGN OR COB_FLAG_REAL_BINARY) [] [0x7f]) - field_scale (cob_fld COB_TYPE_NUMERIC_PACKED 5 2 1 [] [0x12, 0x34, 0x5d]))) = - 123" by code_simp+
  show ?thesis using move_between_numeric [OF h(1-3) refl, of fp_none, unfolded r]
      move_between_numeric [OF h(1,4,5) refl, of fp_none, unfolded r] by auto
qed

text \<open>
  C8: UNSTRING DELIMITED BY a character, without a pointer, undoes joining by it: applied to
  tokens without the character joined by it (one or more, empty ones included) it moves to
  the receiving items the tokens one by one, counts them, and reaches the end of the source,
  so that it raises no overflow; only an empty token at the end, behind the last delimiter,
  is not delivered: its item stays as it was, and it is not counted.
\<close>

theorem unstring_splits:
  assumes "exception_code R = 0" "un_dlms S = [([c], False)]" "un_offset S = 0"
    "fdata (un_src S) = joined c ts" "\<forall>t\<in>set ts. c \<notin> set t" "ts \<noteq> []"
    "list_all2 (\<lambda>f (t, g). cob_memcpy T E M f t = Some g) fs (zip ts gs)" "length gs = length ts" "un_ptr S = None"
  shows "\<exists>S'. unstring_items R T E M S fs = Some (S', if last ts = [] then butlast gs @ [last fs] else gs) \<and>
    un_count S' = un_count S + int (length ts) - (if last ts = [] then 1 else 0) \<and> cob_unstring_finish R T E M S' = Some (R, S')"
  using unstring_any_tokens [OF assms(1,2), of "[]" ts T E M fs gs] assms(3-9)
  by (auto simp: cob_unstring_finish_def Let_def delivered_def)

lemma unstring_splits_witness:
  "(\<exists>S'. unstring_items cob_rt_init \<lparr>words_bigendian = False, allow_misaligned = True, cob_li_is_ll = True\<rparr> fp_none default_module
      \<lparr>un_src = (cob_fld COB_TYPE_ALPHANUMERIC 0 0 0 [] [65, 66, 44, 67]), un_ptr = None, un_dlms = [([44], False)], un_offset = 0, un_count = 0\<rparr> [(cob_fld COB_TYPE_ALPHANUMERIC 0 0 0 [] [46, 46]), (cob_fld COB_TYPE_ALPHANUMERIC 0 0 0 [] [46, 46])] = Some (S', [(cob_fld COB_TYPE_ALPHANUMERIC 0 0 0 [] [65, 66]), (cob_fld COB_TYPE_ALPHANUMERIC 0 0 0 [] [67, 32])]) \<and> un_count S' = 2) \<and>
    (\<exists>S'. unstring_items cob_rt_init \<lparr>words_bigendian = False, allow_misaligned = True, cob_li_is_ll = True\<rparr> fp_none default_module
      \<lparr>un_src = (cob_fld COB_TYPE_ALPHANUMERIC 0 0 0 [] [65, 66, 44]), un_ptr = None, un_dlms = [([44], False)], un_offset = 0, un_count = 0\<rparr> [(cob_fld COB_TYPE_ALPHANUMERIC 0 0 0 [] [46, 46]), (cob_fld COB_TYPE_ALPHANUMERIC 0 0 0 [] [46, 46])] = Some (S', [(cob_fld COB_TYPE_ALPHANUMERIC 0 0 0 [] [65, 66]), (cob_fld COB_TYPE_ALPHANUMERIC 0 0 0 [] [46, 46])]) \<and> un_count S' = 1)"
proof -
  have h: "exception_code cob_rt_init = 0" by (simp add: cob_rt_init_def Let_def)
  have m: "cob_memcpy \<lparr>words_bigendian = False, allow_misaligned = True, cob_li_is_ll = True\<rparr> fp_none default_module (cob_fld COB_TYPE_ALPHANUMERIC 0 0 0 [] [46, 46]) [65, 66] = Some (cob_fld COB_TYPE_ALPHANUMERIC 0 0 0 [] [65, 66])" "cob_memcpy \<lparr>words_bigendian = False, allow_misaligned = True, cob_li_is_ll = True\<rparr> fp_none default_module (cob_fld COB_TYPE_ALPHANUMERIC 0 0 0 [] [46, 46]) [67] = Some (cob_fld COB_TYPE_ALPHANUMERIC 0 0 0 [] [67, 32])"
    "cob_memcpy \<lparr>words_bigendian = False, allow_misaligned = True, cob_li_is_ll = True\<rparr> fp_none default_module (cob_fld COB_TYPE_ALPHANUMERIC 0 0 0 [] [46, 46]) [] = Some (cob_fld COB_TYPE_ALPHANUMERIC 0 0 0 [] [32, 32])" by code_simp+
  have l: "list_all2 (\<lambda>f (t, g). cob_memcpy \<lparr>words_bigendian = False, allow_misaligned = True, cob_li_is_ll = True\<rparr> fp_none default_module f t = Some g) [(cob_fld COB_TYPE_ALPHANUMERIC 0 0 0 [] [46, 46]), (cob_fld COB_TYPE_ALPHANUMERIC 0 0 0 [] [46, 46])] (zip [[65, 66], [67]] [(cob_fld COB_TYPE_ALPHANUMERIC 0 0 0 [] [65, 66]), (cob_fld COB_TYPE_ALPHANUMERIC 0 0 0 [] [67, 32])])"
    "list_all2 (\<lambda>f (t, g). cob_memcpy \<lparr>words_bigendian = False, allow_misaligned = True, cob_li_is_ll = True\<rparr> fp_none default_module f t = Some g) [(cob_fld COB_TYPE_ALPHANUMERIC 0 0 0 [] [46, 46]), (cob_fld COB_TYPE_ALPHANUMERIC 0 0 0 [] [46, 46])] (zip [[65, 66], []] [(cob_fld COB_TYPE_ALPHANUMERIC 0 0 0 [] [65, 66]), (cob_fld COB_TYPE_ALPHANUMERIC 0 0 0 [] [32, 32])])"
    using m by simp_all
  note u = unstring_splits [OF h, of "\<lparr>un_src = (cob_fld COB_TYPE_ALPHANUMERIC 0 0 0 [] [65, 66, 44, 67]), un_ptr = None, un_dlms = [([44], False)], un_offset = 0, un_count = 0\<rparr>" 44 "[[65, 66], [67]]", OF _ _ _ _ _ l(1)]
    unstring_splits [OF h, of "\<lparr>un_src = (cob_fld COB_TYPE_ALPHANUMERIC 0 0 0 [] [65, 66, 44]), un_ptr = None, un_dlms = [([44], False)], un_offset = 0, un_count = 0\<rparr>" 44 "[[65, 66], []]", OF _ _ _ _ _ l(2)]
  show ?thesis
  proof
    show "\<exists>S'. unstring_items cob_rt_init \<lparr>words_bigendian = False, allow_misaligned = True, cob_li_is_ll = True\<rparr> fp_none default_module
      \<lparr>un_src = (cob_fld COB_TYPE_ALPHANUMERIC 0 0 0 [] [65, 66, 44, 67]), un_ptr = None, un_dlms = [([44], False)], un_offset = 0, un_count = 0\<rparr> [(cob_fld COB_TYPE_ALPHANUMERIC 0 0 0 [] [46, 46]), (cob_fld COB_TYPE_ALPHANUMERIC 0 0 0 [] [46, 46])] = Some (S', [(cob_fld COB_TYPE_ALPHANUMERIC 0 0 0 [] [65, 66]), (cob_fld COB_TYPE_ALPHANUMERIC 0 0 0 [] [67, 32])]) \<and> un_count S' = 2"
      using u(1) by (auto simp del: unstring_items.simps)
    show "\<exists>S'. unstring_items cob_rt_init \<lparr>words_bigendian = False, allow_misaligned = True, cob_li_is_ll = True\<rparr> fp_none default_module
      \<lparr>un_src = (cob_fld COB_TYPE_ALPHANUMERIC 0 0 0 [] [65, 66, 44]), un_ptr = None, un_dlms = [([44], False)], un_offset = 0, un_count = 0\<rparr> [(cob_fld COB_TYPE_ALPHANUMERIC 0 0 0 [] [46, 46]), (cob_fld COB_TYPE_ALPHANUMERIC 0 0 0 [] [46, 46])] = Some (S', [(cob_fld COB_TYPE_ALPHANUMERIC 0 0 0 [] [65, 66]), (cob_fld COB_TYPE_ALPHANUMERIC 0 0 0 [] [46, 46])]) \<and> un_count S' = 1"
      using u(2) by (auto simp del: unstring_items.simps)
  qed
qed

text \<open>
  C9: MOVE is type safe. Between well-formed items it ends without a write outside their
  storage or that of the temporary item, and without a read outside it whose value matters
  (progress, which in the model is that it has a result; the loop that packs digits fetches
  characters beside the source without using them, and a BINARY item with more scaling
  positions than the source has digits costs about 2 to the 64 steps), and leaves both items
  well formed, with the attributes and sizes they had (preservation), whatever they contain.
  Well formed is said of the declaration only. A sending item may be a DISPLAY item of up to
  64 digits and places, PACKED or BINARY with the size of their digits, an edited number of
  up to 64 characters, floating point, any text or group, even empty, and an ALL literal
  that is not empty. A receiving item may be any group or text item, an edited item with the
  size of its picture (without P), DISPLAY, PACKED with the size of its digits, or BINARY of
  one to eight bytes (less than 19 digits if it is cut to them). Two pairs need more: a
  DISPLAY item with scaling positions must not go to PACKED, nor text to a DISPLAY item
  whose decimal point lies outside its digits.
\<close>

theorem move_type_safe:
  assumes "move_ok M f g"
  shows "\<exists>f' g'. cob_move T E M f g = Some (f', g') \<and> move_ok M f' g' \<and>
    fattr f' = fattr f \<and> fsize f' = fsize f \<and> fattr g' = fattr g \<and> fsize g' = fsize g"
  using moves_safely [OF assms, of T E] by (auto simp: same_shape_def)

lemma move_type_safe_witness:
  "(\<exists>f g. cob_move \<lparr>words_bigendian = False, allow_misaligned = True, cob_li_is_ll = True\<rparr> fp_none default_module (cob_fld COB_TYPE_NUMERIC_PACKED 4 1 COB_FLAG_HAVE_SIGN [] [0xFF, 0x04, 0x2D]) (cob_fld COB_TYPE_NUMERIC_EDITED 4 1 0 [(0x5A, 2), (0x39, 1), (0x2E, 1), (0x39, 1), (0x2D, 1)] [0, 0, 0, 0, 0, 0]) = Some (f, g) \<and> fsize g = 6) \<and>
    (\<exists>f g. cob_move \<lparr>words_bigendian = False, allow_misaligned = True, cob_li_is_ll = True\<rparr> fp_none default_module (cob_fld COB_TYPE_ALPHANUMERIC 0 0 0 [] [0x2D, 0xFF, 0x31]) (cob_fld COB_TYPE_NUMERIC_PACKED 3 0 0 [] [0, 0]) = Some (f, g) \<and> fsize g = 2)"
proof -
  have "move_ok default_module (cob_fld COB_TYPE_NUMERIC_PACKED 4 1 COB_FLAG_HAVE_SIGN [] [0xFF, 0x04, 0x2D]) (cob_fld COB_TYPE_NUMERIC_EDITED 4 1 0 [(0x5A, 2), (0x39, 1), (0x2E, 1), (0x39, 1), (0x2D, 1)] [0, 0, 0, 0, 0, 0])" "move_ok default_module (cob_fld COB_TYPE_ALPHANUMERIC 0 0 0 [] [0x2D, 0xFF, 0x31]) (cob_fld COB_TYPE_NUMERIC_PACKED 3 0 0 [] [0, 0])" "fsize (cob_fld COB_TYPE_NUMERIC_EDITED 4 1 0 [(0x5A, 2), (0x39, 1), (0x2E, 1), (0x39, 1), (0x2D, 1)] [0, 0, 0, 0, 0, 0]) = 6" "fsize (cob_fld COB_TYPE_NUMERIC_PACKED 3 0 0 [] [0, 0]) = 2" by code_simp+
  then show ?thesis using move_type_safe [of default_module "(cob_fld COB_TYPE_NUMERIC_PACKED 4 1 COB_FLAG_HAVE_SIGN [] [0xFF, 0x04, 0x2D])" "(cob_fld COB_TYPE_NUMERIC_EDITED 4 1 0 [(0x5A, 2), (0x39, 1), (0x2E, 1), (0x39, 1), (0x2D, 1)] [0, 0, 0, 0, 0, 0])" "\<lparr>words_bigendian = False, allow_misaligned = True, cob_li_is_ll = True\<rparr>" fp_none] move_type_safe [of default_module "(cob_fld COB_TYPE_ALPHANUMERIC 0 0 0 [] [0x2D, 0xFF, 0x31])" "(cob_fld COB_TYPE_NUMERIC_PACKED 3 0 0 [] [0, 0])" "\<lparr>words_bigendian = False, allow_misaligned = True, cob_li_is_ll = True\<rparr>" fp_none] by auto
qed

text \<open>
  C10: records that a program writes to a SEQUENTIAL file between OPEN OUTPUT and CLOSE come
  back unchanged and in order, and then the end of the file, when a program with a connector
  of the same record sizes opens the file INPUT and reads it: for fixed and for variable
  records, in each of the formats of the length word; the file holds the records behind each
  other, variable ones after their length.
\<close>

theorem sequential_round_trip:
  assumes f: "plain f" "organization f = COB_ORG_SEQUENTIAL" "open_mode f = COB_OPEN_CLOSED" "found_as E f n" "\<not> eop_status W"
    and g: "plain g" "organization g = COB_ORG_SEQUENTIAL" "open_mode g = COB_OPEN_CLOSED" "found_as E g n"
      "record_min g = record_min f" "record_max g = record_max f" "record_min g = record_max g \<longrightarrow> record_len g = record_max g"
    and m: "0 < record_max f" "var = (record_min f \<noteq> record_max f)"
    and rs: "\<forall>r\<in>set rs. r \<noteq> [] \<and> (var \<longrightarrow> length r < rdw_limit E) \<and> record_min f \<le> length r \<and> length r \<le> record_max f"
  shows "\<exists>W1 f1 W2 g2. save_records E 0 W f rs = Some (W1, f1) \<and>
    io_disk W1 n = Some (concat (map (\<lambda>r. (if var then rdw_bytes E (length r) else []) @ r) rs)) \<and>
    load_records E W1 g (length rs) = Some (rs, W2, g2) \<and> open_mode g2 = COB_OPEN_CLOSED"
  using sequential.round_trip [where E = E and var = var, OF f(1,2) _ f(3,4,5) _ g(1,2) _ g(7) g(3,4,5,6)] m rs g(5,6)
  by (simp add: seq_fits_def seq_enc_def [abs_def])

lemma sequential_round_trip_witness:
  "\<exists>W1 f1 W2 g2. save_records (plain_env \<lparr>words_bigendian = False, allow_misaligned = True, cob_li_is_ll = True\<rparr>) 0 idle_world (new_file COB_ORG_SEQUENTIAL COB_ACCESS_SEQUENTIAL [70] 1 4) [[65, 66], [67]] = Some (W1, f1) \<and>
    io_disk W1 [70] = Some [0, 2, 0, 0, 65, 66, 0, 1, 0, 0, 67] \<and>
    load_records (plain_env \<lparr>words_bigendian = False, allow_misaligned = True, cob_li_is_ll = True\<rparr>) W1 (new_file COB_ORG_SEQUENTIAL COB_ACCESS_SEQUENTIAL [70] 1 4) 2 = Some ([[65, 66], [67]], W2, g2)"
proof -
  have h: "plain (new_file COB_ORG_SEQUENTIAL COB_ACCESS_SEQUENTIAL [70] 1 4)" "organization (new_file COB_ORG_SEQUENTIAL COB_ACCESS_SEQUENTIAL [70] 1 4) = COB_ORG_SEQUENTIAL" "open_mode (new_file COB_ORG_SEQUENTIAL COB_ACCESS_SEQUENTIAL [70] 1 4) = COB_OPEN_CLOSED"
    "found_as (plain_env \<lparr>words_bigendian = False, allow_misaligned = True, cob_li_is_ll = True\<rparr>) (new_file COB_ORG_SEQUENTIAL COB_ACCESS_SEQUENTIAL [70] 1 4) [70]" "\<not> eop_status idle_world" "record_min (new_file COB_ORG_SEQUENTIAL COB_ACCESS_SEQUENTIAL [70] 1 4) = record_max (new_file COB_ORG_SEQUENTIAL COB_ACCESS_SEQUENTIAL [70] 1 4) \<longrightarrow> record_len (new_file COB_ORG_SEQUENTIAL COB_ACCESS_SEQUENTIAL [70] 1 4) = record_max (new_file COB_ORG_SEQUENTIAL COB_ACCESS_SEQUENTIAL [70] 1 4)"
    "0 < record_max (new_file COB_ORG_SEQUENTIAL COB_ACCESS_SEQUENTIAL [70] 1 4)" "True = (record_min (new_file COB_ORG_SEQUENTIAL COB_ACCESS_SEQUENTIAL [70] 1 4) \<noteq> record_max (new_file COB_ORG_SEQUENTIAL COB_ACCESS_SEQUENTIAL [70] 1 4))"
    "\<forall>r\<in>set [[65, 66], [67]]. r \<noteq> [] \<and> (True \<longrightarrow> length r < rdw_limit (plain_env \<lparr>words_bigendian = False, allow_misaligned = True, cob_li_is_ll = True\<rparr>)) \<and> record_min (new_file COB_ORG_SEQUENTIAL COB_ACCESS_SEQUENTIAL [70] 1 4) \<le> length r \<and>
      length r \<le> record_max (new_file COB_ORG_SEQUENTIAL COB_ACCESS_SEQUENTIAL [70] 1 4)"
    by (simp_all add: plain_def new_file_def found_as_def plain_env_def assigned_name_def map_file_name_def idle_world_def rdw_limit_def COB_SMALL_BUFF_def)
  have l: "length [[65, 66], [67::u8]] = 2" by simp
  have e: "concat (map (\<lambda>r. (if True then rdw_bytes (plain_env \<lparr>words_bigendian = False, allow_misaligned = True, cob_li_is_ll = True\<rparr>) (length r) else []) @ r) [[65, 66], [67]]) =
      [0, 2, 0, 0, 65, 66, 0, 1, 0, 0, 67]" by code_simp
  show ?thesis using sequential_round_trip [OF h(1-5) h(1-4) refl refl h(6-9)] unfolding e l by blast
qed

text \<open>
  C11: records written to a LINE SEQUENTIAL file by WRITE (one line each) and read back come
  back in order, each filled with spaces to the size of the record area: whatever bytes they
  hold under COB_LS_NULLS, and without it for records without line ends; the file holds one
  line per record, without its trailing spaces unless COB_LS_FIXED is set.
\<close>

theorem line_sequential_round_trip:
  assumes f: "plain f" "organization f = COB_ORG_LINE_SEQUENTIAL" "open_mode f = COB_OPEN_CLOSED" "found_as E f n" "\<not> eop_status W"
    and g: "plain g" "organization g = COB_ORG_LINE_SEQUENTIAL" "open_mode g = COB_OPEN_CLOSED" "found_as E g n"
      "record_min g = record_min f" "record_max g = record_max f" "record_len g = record_max g"
    and rs: "\<forall>r\<in>set rs. (cob_ls_nulls E \<or> chr_nl \<notin> set r \<and> chr_cr \<notin> set r) \<and> record_min f \<le> length r \<and> length r \<le> record_max f"
  shows "\<exists>W1 f1 W2 g2. save_records E (COB_WRITE_BEFORE OR COB_WRITE_LINES OR 1) W f rs = Some (W1, f1) \<and>
    io_disk W1 n = Some (concat (map (line_enc E) rs)) \<and>
    load_records E W1 g (length rs) = Some (map (\<lambda>r. r @ replicate (record_max f - length r) chr_space) rs, W2, g2)"
proof -
  have "COB_WRITE_BEFORE OR COB_WRITE_LINES OR 1 = write_line" by code_simp
  with line_sequential.round_trip [where E = E, OF f(1,2) TrueI f(3,4,5) _ g(1,2) TrueI g(7) g(3,4,5,6)] rs g(5,6)
  show ?thesis by (simp add: line_fits_def padded_def [abs_def]) blast
qed

lemma line_sequential_round_trip_witness:
  "\<exists>W1 f1 W2 g2. save_records (plain_env \<lparr>words_bigendian = False, allow_misaligned = True, cob_li_is_ll = True\<rparr>) (COB_WRITE_BEFORE OR COB_WRITE_LINES OR 1) idle_world (new_file COB_ORG_LINE_SEQUENTIAL COB_ACCESS_SEQUENTIAL [70] 0 5) [[65, 32, 66, 32], []] = Some (W1, f1) \<and>
    io_disk W1 [70] = Some [65, 32, 66, 10, 10] \<and>
    load_records (plain_env \<lparr>words_bigendian = False, allow_misaligned = True, cob_li_is_ll = True\<rparr>) W1 (new_file COB_ORG_LINE_SEQUENTIAL COB_ACCESS_SEQUENTIAL [70] 0 5) 2 = Some ([[65, 32, 66, 32, 32], [32, 32, 32, 32, 32]], W2, g2)"
proof -
  have h: "plain (new_file COB_ORG_LINE_SEQUENTIAL COB_ACCESS_SEQUENTIAL [70] 0 5)" "organization (new_file COB_ORG_LINE_SEQUENTIAL COB_ACCESS_SEQUENTIAL [70] 0 5) = COB_ORG_LINE_SEQUENTIAL" "open_mode (new_file COB_ORG_LINE_SEQUENTIAL COB_ACCESS_SEQUENTIAL [70] 0 5) = COB_OPEN_CLOSED"
    "found_as (plain_env \<lparr>words_bigendian = False, allow_misaligned = True, cob_li_is_ll = True\<rparr>) (new_file COB_ORG_LINE_SEQUENTIAL COB_ACCESS_SEQUENTIAL [70] 0 5) [70]" "\<not> eop_status idle_world" "record_len (new_file COB_ORG_LINE_SEQUENTIAL COB_ACCESS_SEQUENTIAL [70] 0 5) = record_max (new_file COB_ORG_LINE_SEQUENTIAL COB_ACCESS_SEQUENTIAL [70] 0 5)"
    "\<forall>r\<in>set [[65, 32, 66, 32], []]. (cob_ls_nulls (plain_env \<lparr>words_bigendian = False, allow_misaligned = True, cob_li_is_ll = True\<rparr>) \<or> chr_nl \<notin> set r \<and> chr_cr \<notin> set r) \<and>
      record_min (new_file COB_ORG_LINE_SEQUENTIAL COB_ACCESS_SEQUENTIAL [70] 0 5) \<le> length r \<and> length r \<le> record_max (new_file COB_ORG_LINE_SEQUENTIAL COB_ACCESS_SEQUENTIAL [70] 0 5)"
    by (simp_all add: plain_def new_file_def found_as_def plain_env_def assigned_name_def map_file_name_def idle_world_def COB_SMALL_BUFF_def)
  have "concat (map (line_enc (plain_env \<lparr>words_bigendian = False, allow_misaligned = True, cob_li_is_ll = True\<rparr>)) [[65, 32, 66, 32], []]) = [65, 32, 66, 10, 10]" by code_simp
  moreover have "map (\<lambda>r. r @ replicate (record_max (new_file COB_ORG_LINE_SEQUENTIAL COB_ACCESS_SEQUENTIAL [70] 0 5) - length r) chr_space) [[65, 32, 66, 32], []] =
      [[65, 32, 66, 32, 32], [32, 32, 32, 32, 32]]" by code_simp
  ultimately show ?thesis using line_sequential_round_trip [OF h(1-5) h(1-4) refl refl h(6,7)] by (simp add: numeral_2_eq_2)
qed

text \<open>
  C12: the digit-wise add and subtract of an int on a DISPLAY digit string compute the sum
  and difference modulo the capacity of the string; the add reports overflow exactly when
  the sum does not fit and binary truncation is on, the subtract reports a borrow exactly
  when the result is negative.
\<close>

theorem display_digit_add_sub:
  assumes "all_digits data" "0 \<le> n" "display_add_int M data n = (r, ys)" "display_sub_int data n = (b, zs)"
  shows "length ys = length data \<and> all_digits ys \<and> dec_val ys = (dec_val data + n) mod 10 ^ length data \<and>
    r = overflow_flag (flag_binary_truncate M) (length data) (dec_val data + n) \<and>
    length zs = length data \<and> all_digits zs \<and> dec_val zs = (dec_val data - n) mod 10 ^ length data \<and>
    b = (if dec_val data < n then 1 else 0)"
  using display_add_int_val [OF assms(1-3)] display_sub_int_val [OF assms(1,2,4)] by simp

lemma display_digit_add_sub_witness:
  "length [0x31, 0x30, 0x36 :: u8] = length [0x30, 0x39, 0x39 :: u8] \<and> all_digits [0x31, 0x30, 0x36] \<and>
    dec_val [0x31, 0x30, 0x36] = (dec_val [0x30, 0x39, 0x39] + 7) mod 10 ^ length [0x30, 0x39, 0x39 :: u8] \<and>
    0 = overflow_flag (flag_binary_truncate default_module) (length [0x30, 0x39, 0x39 :: u8]) (dec_val [0x30, 0x39, 0x39] + 7) \<and>
    length [0x30, 0x39, 0x32 :: u8] = length [0x30, 0x39, 0x39 :: u8] \<and> all_digits [0x30, 0x39, 0x32] \<and>
    dec_val [0x30, 0x39, 0x32] = (dec_val [0x30, 0x39, 0x39] - 7) mod 10 ^ length [0x30, 0x39, 0x39 :: u8] \<and>
    (0 :: int) = (if dec_val [0x30, 0x39, 0x39] < 7 then 1 else 0)"
  by (rule display_digit_add_sub) code_simp+

text \<open>
  C13: an arithmetic expression as an argument is computed exactly: for two items of any of
  the usages DISPLAY, PACKED-DECIMAL and BINARY, with numbers of at most 100 digits and
  scales between -63 and 63, which cover every item that can be declared, that can be loaded
  (a DISPLAY item does not begin with LOW- or HIGH-VALUE), and a 64-bit long, the item that
  the function makes for +, - or * is large enough, in digits, sign and scale, to hold the
  exact rational result, and the operands keep their numbers.
\<close>

theorem expression_exact:
  assumes "num_val T M f1 = Some v1" "loadable T f1 v1" "num_val T M f2 = Some v2" "loadable T f2 v2"
    and "T = ie_target X" "M = ie_module X" "size10_ok (ie_size10 X)" "cob_li_is_ll T"
    and "op \<in> {CHR ''+'', CHR ''-'', CHR ''*''}"
    and "\<bar>v1\<bar> < 10 ^ 100" "\<bar>v2\<bar> < 10 ^ 100" "- 63 \<le> field_scale f1" "field_scale f1 \<le> 63" "- 63 \<le> field_scale f2" "field_scale f2 \<le> 63"
  shows "\<exists>N g w g1 g2. cob_intr_binop X S f1 op f2 = Some ((fst S, N), g, g1, g2) \<and> num_val T M g = Some w \<and>
    item_rat g w = exact_op op (item_rat f1 v1) (item_rat f2 v2) \<and> num_val T M g1 = Some v1 \<and> num_val T M g2 = Some v2"
  by (rule item_arithmetic_exact [OF assms])

lemma expression_exact_witness:
  "\<exists>N g w g1 g2. cob_intr_binop (\<lparr>ie_target = \<lparr>words_bigendian = False, allow_misaligned = True, cob_li_is_ll = True\<rparr>, ie_fp = fp_none, ie_module = default_module, ie_size10 = (\<lambda>v. dec_len (nat \<bar>v\<bar>)), ie_pow = (\<lambda>d _. d), ie_libm = (\<lambda>_ _. None), ie_annuity = (\<lambda>_ _. [])\<rparr>) (cob_rt_init, cob_init_numeric) (cob_fld COB_TYPE_NUMERIC_PACKED 3 1 COB_FLAG_HAVE_SIGN [] [0x01, 0x5D]) (CHR ''*'') (disp_entry 3 2 [48, 48, 51]) =
      Some ((cob_rt_init, N), g, g1, g2) \<and> num_val \<lparr>words_bigendian = False, allow_misaligned = True, cob_li_is_ll = True\<rparr> default_module g = Some w \<and> item_rat g w = - 45 / 1000"
proof -
  have h: "num_val \<lparr>words_bigendian = False, allow_misaligned = True, cob_li_is_ll = True\<rparr> default_module (cob_fld COB_TYPE_NUMERIC_PACKED 3 1 COB_FLAG_HAVE_SIGN [] [0x01, 0x5D]) = Some (- 15)" "loadable \<lparr>words_bigendian = False, allow_misaligned = True, cob_li_is_ll = True\<rparr> (cob_fld COB_TYPE_NUMERIC_PACKED 3 1 COB_FLAG_HAVE_SIGN [] [0x01, 0x5D]) (- 15)"
    "num_val \<lparr>words_bigendian = False, allow_misaligned = True, cob_li_is_ll = True\<rparr> default_module (disp_entry 3 2 [48, 48, 51]) = Some 3" "loadable \<lparr>words_bigendian = False, allow_misaligned = True, cob_li_is_ll = True\<rparr> (disp_entry 3 2 [48, 48, 51]) 3" by code_simp+
  have s: "field_scale (cob_fld COB_TYPE_NUMERIC_PACKED 3 1 COB_FLAG_HAVE_SIGN [] [0x01, 0x5D]) = 1" "field_scale (disp_entry 3 2 [48, 48, 51]) = 2" by code_simp+
  have x: "exact_op (CHR ''*'') (item_rat (cob_fld COB_TYPE_NUMERIC_PACKED 3 1 COB_FLAG_HAVE_SIGN [] [0x01, 0x5D]) (- 15)) (item_rat (disp_entry 3 2 [48, 48, 51]) 3) = - 45 / 1000"
    by (simp add: exact_op_def item_rat_def dec_rat_def s power_int_def power2_eq_square)
  show ?thesis
    using expression_exact [OF h, where X = "(\<lparr>ie_target = \<lparr>words_bigendian = False, allow_misaligned = True, cob_li_is_ll = True\<rparr>, ie_fp = fp_none, ie_module = default_module, ie_size10 = (\<lambda>v. dec_len (nat \<bar>v\<bar>)), ie_pow = (\<lambda>d _. d), ie_libm = (\<lambda>_ _. None), ie_annuity = (\<lambda>_ _. [])\<rparr>)" and op = "CHR ''*''" and S = "(cob_rt_init, cob_init_numeric)",
        unfolded x s] size10_ok_dec_len by auto
qed

text \<open>
  C14: SUBSTITUTE and SUBSTITUTE-CASE (without reference modification) end when no search
  item is empty, and their result is the only text that arises by cutting the argument, from
  left to right, into places where a search item stands, each replaced by the replacement of
  the first item of the list that stands there, and characters where none stands, which
  stay; an item stands at a place if the text there has its characters, for SUBSTITUTE-CASE
  regardless of case (its search items without NUL characters); if the first search item is
  empty and the argument is not, neither function returns.
\<close>

theorem substitute_terminates:
  assumes "reps = map (\<lambda>(f1, f2). (fdata f1, fdata f2)) fs"
  shows "((\<forall>(f1, f2)\<in>set fs. 0 < fsize f1) \<longrightarrow>
      (\<exists>q. cob_intr_substitute 0 0 var fs = Some (alnum_entry q) \<and> (\<forall>q'. substituted (=) reps (fdata var) q' \<longleftrightarrow> q' = q))) \<and>
    ((\<forall>(f1, f2)\<in>set fs. 0 < fsize f1 \<and> 0 \<notin> set (fdata f1)) \<longrightarrow>
      (\<exists>q. cob_intr_substitute_case 0 0 var fs = Some (alnum_entry q) \<and>
        (\<forall>q'. substituted same_letter reps (fdata var) q' \<longleftrightarrow> q' = q))) \<and>
    (fs = (f1, f2) # gs \<and> fsize f1 = 0 \<and> 0 < fsize var \<longrightarrow>
      cob_intr_substitute 0 0 var fs = None \<and> cob_intr_substitute_case 0 0 var fs = None)"
proof (intro conjI impI)
  assume "\<forall>(f1, f2)\<in>set fs. 0 < fsize f1"
  then have "\<forall>(f1, f2)\<in>set fs. 0 < fsize f1 \<and> compares (=) (=) (fdata f1)" by (auto simp: compares_eq)
  from substitute_item [OF this, of var]
  show "\<exists>q. cob_intr_substitute 0 0 var fs = Some (alnum_entry q) \<and> (\<forall>q'. substituted (=) reps (fdata var) q' \<longleftrightarrow> q' = q)"
    unfolding cob_intr_substitute_def assms .
next
  assume "\<forall>(f1, f2)\<in>set fs. 0 < fsize f1 \<and> 0 \<notin> set (fdata f1)"
  then have "\<forall>(f1, f2)\<in>set fs. 0 < fsize f1 \<and> compares same_nocase same_letter (fdata f1)" by (auto simp: compares_nocase)
  from substitute_item [OF this, of var]
  show "\<exists>q. cob_intr_substitute_case 0 0 var fs = Some (alnum_entry q) \<and>
      (\<forall>q'. substituted same_letter reps (fdata var) q' \<longleftrightarrow> q' = q)"
    unfolding cob_intr_substitute_case_def assms .
qed (simp_all add: cob_intr_substitute_def cob_intr_substitute_case_def substitute_item_empty)

lemma substitute_terminates_witness:
  "(\<exists>q. cob_intr_substitute 0 0 (cob_fld COB_TYPE_ALPHANUMERIC 0 0 0 [] [97, 97, 97, 98]) [((cob_fld COB_TYPE_ALPHANUMERIC 0 0 0 [] [97, 97]), (cob_fld COB_TYPE_ALPHANUMERIC 0 0 0 [] [120])), ((cob_fld COB_TYPE_ALPHANUMERIC 0 0 0 [] [98]), (cob_fld COB_TYPE_ALPHANUMERIC 0 0 0 [] [121, 122]))] = Some (alnum_entry q) \<and>
      (\<forall>q'. substituted (=) [([97, 97], [120]), ([98], [121, 122])] [97, 97, 97, 98] q' \<longleftrightarrow> q' = q)) \<and>
    (\<exists>q. cob_intr_substitute_case 0 0 (cob_fld COB_TYPE_ALPHANUMERIC 0 0 0 [] [97, 97, 97, 98]) [((cob_fld COB_TYPE_ALPHANUMERIC 0 0 0 [] [97, 97]), (cob_fld COB_TYPE_ALPHANUMERIC 0 0 0 [] [120])), ((cob_fld COB_TYPE_ALPHANUMERIC 0 0 0 [] [98]), (cob_fld COB_TYPE_ALPHANUMERIC 0 0 0 [] [121, 122]))] = Some (alnum_entry q) \<and>
      (\<forall>q'. substituted same_letter [([97, 97], [120]), ([98], [121, 122])] [97, 97, 97, 98] q' \<longleftrightarrow> q' = q)) \<and>
    cob_intr_substitute_case 0 0 (cob_fld COB_TYPE_ALPHANUMERIC 0 0 0 [] [97, 97, 97, 98]) [((cob_fld COB_TYPE_ALPHANUMERIC 0 0 0 [] []), (cob_fld COB_TYPE_ALPHANUMERIC 0 0 0 [] [120]))] = None"
proof -
  let ?fs = "[((cob_fld COB_TYPE_ALPHANUMERIC 0 0 0 [] [97, 97]), (cob_fld COB_TYPE_ALPHANUMERIC 0 0 0 [] [120])), ((cob_fld COB_TYPE_ALPHANUMERIC 0 0 0 [] [98]), (cob_fld COB_TYPE_ALPHANUMERIC 0 0 0 [] [121, 122]))]"
  have h: "\<forall>(f1, f2)\<in>set ?fs. 0 < fsize f1" "\<forall>(f1, f2)\<in>set ?fs. 0 < fsize f1 \<and> 0 \<notin> set (fdata f1)" by code_simp+
  have r: "[([97, 97], [120]), ([98], [121, 122])] = map (\<lambda>(f1, f2). (fdata f1, fdata f2)) ?fs"
    "fdata (cob_fld COB_TYPE_ALPHANUMERIC 0 0 0 [] [97, 97, 97, 98]) = [97, 97, 97, 98]" by (simp_all add: cob_fld_def)
  note t = substitute_terminates [OF r(1), of "(cob_fld COB_TYPE_ALPHANUMERIC 0 0 0 [] [97, 97, 97, 98])", unfolded r(2)]
  have "cob_intr_substitute_case 0 0 (cob_fld COB_TYPE_ALPHANUMERIC 0 0 0 [] [97, 97, 97, 98]) [((cob_fld COB_TYPE_ALPHANUMERIC 0 0 0 [] []), (cob_fld COB_TYPE_ALPHANUMERIC 0 0 0 [] [120]))] = None"
    using substitute_terminates [OF refl, of "[((cob_fld COB_TYPE_ALPHANUMERIC 0 0 0 [] []), (cob_fld COB_TYPE_ALPHANUMERIC 0 0 0 [] [120]))]" "(cob_fld COB_TYPE_ALPHANUMERIC 0 0 0 [] [97, 97, 97, 98])" "(cob_fld COB_TYPE_ALPHANUMERIC 0 0 0 [] [])" "(cob_fld COB_TYPE_ALPHANUMERIC 0 0 0 [] [120])" "[]"] by (simp add: fsize_def cob_fld_def)
  with t [THEN conjunct1, THEN mp, OF h(1)] t [THEN conjunct2, THEN conjunct1, THEN mp, OF h(2)] show ?thesis
    by (intro conjI)
qed

text \<open>
  C15: in every state that any sequence of ALLOCATE and FREE can reach, the cache lists
  exactly the blocks that are allocated, each once, and with the size that the block has;
  ALLOCATE of a positive size, when storage is there, adds a block of that many zero bytes;
  FREE of a pointer to a listed block frees it and clears the pointer; FREE of any other
  pointer raises EC-STORAGE-NOT-ALLOC and frees nothing: no block is ever freed twice.
\<close>

theorem allocate_free_safe:
  assumes "alloc_reachable T E M A"
  shows "distinct (live A) \<and> dom (alloc_heap A) = set (live A) \<and>
    (\<forall>p n. (Some p, n) \<in> set (alloc_cache A) \<longrightarrow> (\<exists>bs. alloc_heap A p = Some bs \<and> length bs = n)) \<and>
    (\<forall>a f n g. alloc_heap A a = None \<and> cob_get_int T E M f = Some (n, g) \<and> 0 < n \<longrightarrow>
      (\<exists>A'. cob_allocate T E M R (Some a) f A = Some (cob_clear_exception R, A', Some a, g) \<and>
        alloc_heap A' = (alloc_heap A)(a \<mapsto> replicate (nat n) 0) \<and> alloc_cache A' = (Some a, nat n) # alloc_cache A)) \<and>
    (\<forall>p. \<exists>R' A' q. cob_free_alloc R (Some (Some p)) ptr2 A = Some (R', A', Some q, ptr2) \<and>
      (if p \<in> set (live A) then q = None \<and> alloc_heap A' = (alloc_heap A)(p := None) \<and> live A' = remove1 p (live A)
       else q = Some p \<and> A' = A \<and> R' = cob_set_exception (cob_clear_exception R) COB_EC_STORAGE_NOT_ALLOC))"
proof -
  note ok = alloc_reachable_ok [OF assms]
  note f = free_pointer_ok [OF ok]
  have "\<exists>R' A' q. cob_free_alloc R (Some (Some p)) ptr2 A = Some (R', A', Some q, ptr2) \<and>
      (if p \<in> set (live A) then q = None \<and> alloc_heap A' = (alloc_heap A)(p := None) \<and> live A' = remove1 p (live A)
       else q = Some p \<and> A' = A \<and> R' = cob_set_exception (cob_clear_exception R) COB_EC_STORAGE_NOT_ALLOC)" for p
    using f(1) [of "cob_clear_exception R" p] f(3) [of p] by (simp add: cob_free_alloc_def Let_def)
  with ok show ?thesis by (simp add: alloc_ok_def cob_allocate_def Let_def)
qed

lemma allocate_free_safe_witness:
  "\<exists>A. alloc_reachable \<lparr>words_bigendian = False, allow_misaligned = True, cob_li_is_ll = True\<rparr> fp_none default_module A \<and> live A = [7] \<and> dom (alloc_heap A) = {7}"
proof -
  let ?A = "\<lparr>alloc_cache = [(Some 7, 3)], alloc_heap = [7 \<mapsto> [0, 0, 0]]\<rparr>"
  have "cob_get_int \<lparr>words_bigendian = False, allow_misaligned = True, cob_li_is_ll = True\<rparr> fp_none default_module (cob_fld COB_TYPE_NUMERIC_DISPLAY 1 0 0 [] [0x33]) = Some (3, (cob_fld COB_TYPE_NUMERIC_DISPLAY 1 0 0 [] [0x33]))" by code_simp
  then have "cob_allocate \<lparr>words_bigendian = False, allow_misaligned = True, cob_li_is_ll = True\<rparr> fp_none default_module cob_rt_init (Some 7) (cob_fld COB_TYPE_NUMERIC_DISPLAY 1 0 0 [] [0x33]) \<lparr>alloc_cache = [], alloc_heap = Map.empty\<rparr> =
      Some (cob_clear_exception cob_rt_init, ?A, Some 7, (cob_fld COB_TYPE_NUMERIC_DISPLAY 1 0 0 [] [0x33]))"
    by (simp add: cob_allocate_def Let_def numeral_eq_Suc)
  from alloc_reachable.allocate [OF alloc_reachable.start _ this] have "alloc_reachable \<lparr>words_bigendian = False, allow_misaligned = True, cob_li_is_ll = True\<rparr> fp_none default_module ?A" by simp
  moreover from allocate_free_safe [OF this, of cob_rt_init None] have "dom (alloc_heap ?A) = set (live ?A)" by blast
  moreover have "live ?A = [7]" by (simp add: live_def map_filter_simps)
  ultimately show ?thesis by (intro exI [of _ ?A]) simp
qed

text \<open>
  C16: the lists of exit procedures (called when the run unit stops) and of error procedures
  (called, and then forgotten, at a runtime error) behave alike. On a list that is in order,
  installing a procedure that is not on it puts it first and keeps the list; removing the
  first one leaves the others; what is on the list is called newest first. But removing one
  that is not the first frees the node before it, which stays linked, so that the next run
  through the list reads freed storage, which in the model is that it has no result.
\<close>

theorem exit_procedures:
  assumes "handlers_ok L as"
    and "PROC = CBL_EXIT_PROC \<and> run = cob_stop_run \<or> PROC = CBL_ERROR_PROC \<and> run = (\<lambda>L. map_option fst (cob_runtime_error L))"
  shows "run L = Some (procs (hl_heap L) as) \<and> cob_runtime_error L = Some (procs (hl_heap L) as, L\<lparr>hl_head := None\<rparr>) \<and>
    (new \<notin> set as \<and> p \<notin> set (procs (hl_heap L) as) \<longrightarrow>
      (\<exists>L'. PROC new 0 (Some p) L = Some (0, L') \<and> handlers_ok L' (new # as) \<and> run L' = Some (p # procs (hl_heap L) as))) \<and>
    (\<forall>a bs. as = a # bs \<longrightarrow>
      (\<exists>L'. PROC new 1 (Some (h_proc (the (hl_heap L a)))) L = Some (0, L') \<and> handlers_ok L' bs \<and>
        run L' = Some (procs (hl_heap L) bs))) \<and>
    (\<forall>xs b a ys. as = xs @ b # a # ys \<and> h_proc (the (hl_heap L a)) \<notin> set (procs (hl_heap L) (xs @ [b])) \<longrightarrow>
      (\<exists>L'. PROC new 1 (Some (h_proc (the (hl_heap L a)))) L = Some (0, L') \<and>
        hl_heap L' b = None \<and> hl_head L' = hl_head L \<and> run L' = None))"
proof -
  have r: "run K = Some (procs (hl_heap K) bs)" "cob_runtime_error K = Some (procs (hl_heap K) bs, K\<lparr>hl_head := None\<rparr>)"
    if "handlers_ok K bs" for K bs
    using run_chain [of "hl_heap K" "hl_head K" bs] that assms(2)
    by (auto simp: handlers_ok_def cob_stop_run_def cob_runtime_error_def)
  have install: "\<exists>L'. PROC new 0 (Some p) L = Some (0, L') \<and> handlers_ok L' (new # as) \<and> run L' = Some (p # procs (hl_heap L) as)"
    if "new \<notin> set as" "p \<notin> set (procs (hl_heap L) as)"
    using install_handler [OF assms(1) that] assms(2) r(1) by metis
  have one: "(1 :: u8) \<noteq> 0" "(1 :: u8) \<noteq> 2" "(1 :: u8) \<noteq> 3" by simp_all
  have remove: "\<exists>L'. PROC new 1 (Some (h_proc (the (hl_heap L a)))) L = Some (0, L') \<and> handlers_ok L' bs \<and> run L' = Some (procs (hl_heap L) bs)"
    if ab: "as = a # bs" for a bs
  proof -
    obtain L' where "PROC new 1 (Some (h_proc (the (hl_heap L a)))) L = Some (0, L')" "handlers_ok L' bs" "hl_heap L' = hl_heap L"
      using remove_first_handler [OF assms(1) [unfolded ab] refl one, of new] assms(2) by blast
    then show ?thesis using r(1) by fastforce
  qed
  have dangle: "\<exists>L'. PROC new 1 (Some (h_proc (the (hl_heap L a)))) L = Some (0, L') \<and> hl_heap L' b = None \<and> hl_head L' = hl_head L \<and> run L' = None"
    if d: "as = xs @ b # a # ys" "h_proc (the (hl_heap L a)) \<notin> set (procs (hl_heap L) (xs @ [b]))" for xs b a ys
  proof -
    have ok: "handlers_ok L (xs @ b # a # ys)" using assms(1) d(1) by simp
    then have "remove_handler (h_proc (the (hl_heap L a))) None (hl_head L) L = Some (L\<lparr>hl_heap := (hl_heap L)(b := None)\<rparr>)"
      by (intro remove_later [where cs = ys, OF _ d(2) refl]) (simp add: handlers_ok_def)
    then have "PROC new 1 (Some (h_proc (the (hl_heap L a)))) L = Some (0, L\<lparr>hl_heap := (hl_heap L)(b := None)\<rparr>)"
      using assms(2) by (auto simp: CBL_EXIT_PROC_def CBL_ERROR_PROC_def)
    then show ?thesis using remove_later_dangles [OF ok d(2) refl, of new] assms(2) by auto
  qed
  show ?thesis using r [OF assms(1)] install remove dangle by blast
qed

lemma exit_procedures_witness:
  "(\<exists>L'. CBL_EXIT_PROC 9 1 (Some 100) \<lparr>hl_head = Some 2, hl_heap = [1 \<mapsto> \<lparr>h_next = None, h_proc = 100\<rparr>, 2 \<mapsto> \<lparr>h_next = Some 1, h_proc = 200\<rparr>]\<rparr> =
     Some (0, L') \<and> cob_stop_run L' = None) \<and>
   (\<exists>L'. CBL_ERROR_PROC 9 0 (Some 300) \<lparr>hl_head = Some 2, hl_heap = [1 \<mapsto> \<lparr>h_next = None, h_proc = 100\<rparr>, 2 \<mapsto> \<lparr>h_next = Some 1, h_proc = 200\<rparr>]\<rparr> =
     Some (0, L') \<and> map_option fst (cob_runtime_error L') = Some [300, 200, 100])"
proof -
  let ?L = "\<lparr>hl_head = Some 2, hl_heap = [1 \<mapsto> \<lparr>h_next = None, h_proc = 100\<rparr>, 2 \<mapsto> \<lparr>h_next = Some 1, h_proc = 200\<rparr>]\<rparr>"
  have h: "handlers_ok ?L ([] @ 2 # 1 # [])" by (simp add: handlers_ok_def)
  have p: "procs (hl_heap ?L) [2, 1] = [200, 100]" by (simp add: procs_def)
  note e = exit_procedures [OF h disjI1 [OF conjI [OF refl refl]], of 9 0]
  note f = exit_procedures [OF h disjI2 [OF conjI [OF refl refl]], of 9 300]
  show ?thesis
    using e [THEN conjunct2, THEN conjunct2, THEN conjunct2, THEN conjunct2, rule_format, of "[]" 2 1 "[]"]
      f [THEN conjunct2, THEN conjunct2, THEN conjunct1] p by (auto simp: procs_def)
qed

text \<open>
  C17: dividing decimals, the dividend not zero, gives at least 37 decimal places, errs by
  less than one unit of the last place and never exceeds the exact quotient in magnitude; a
  zero divisor, whatever the dividend, raises EC-SIZE-ZERO-DIVIDE and gives the not-a-number
  decimal.
\<close>

theorem decimal_div_truncates:
  fixes R :: cob_rt
  assumes "\<not> decimal_nan d1 d2" "cob_decimal_div R d1 d2 = (R', q)"
  shows "(dvalue d2 = 0 \<longrightarrow> exception_code R' = 0x1007 \<and> dscale q = DECIMAL_NAN) \<and>
    (dvalue d1 \<noteq> 0 \<and> dvalue d2 \<noteq> 0 \<longrightarrow> 37 \<le> dscale q \<and> R' = R \<and>
      \<bar>dec_rat d1 / dec_rat d2 - dec_rat q\<bar> < 10 powi (- dscale q) \<and>
      \<bar>dec_rat q\<bar> \<le> \<bar>dec_rat d1 / dec_rat d2\<bar>)"
proof -
  have "dvalue d2 = 0 \<Longrightarrow> exception_code R' = 0x1007 \<and> dscale q = DECIMAL_NAN"
    using assms by (auto simp: cob_decimal_div_def exception_code_zero_divide)
  then show ?thesis using assms cob_decimal_div_scale [OF assms(1) _ _ assms(2)]
    cob_decimal_div_bound [OF assms(1) _ _ assms(2)] by blast
qed

lemma decimal_div_truncates_witness:
  "\<bar>dec_rat (mkdec 1 0) / dec_rat (mkdec 3 0) - dec_rat (mkdec 3333333333333333333333333333333333333 37)\<bar> < 10 powi (- 37)"
  using decimal_div_truncates [of "mkdec 1 0" "mkdec 3 0" cob_rt_init cob_rt_init "mkdec 3333333333333333333333333333333333333 37"]
  by (simp add: decimal_nan_def DECIMAL_NAN_def cob_decimal_div_def shift_decimal_def mkdec_def)

text \<open>
  C18: the date functions invert each other over their whole range, with the option binary-
  truncate: for every day number from 1 (1 January 1601) to 3067671 (31 December 9999) DATE-
  OF-INTEGER gives the digits of a date of the Gregorian calendar that is that many days on,
  which INTEGER-OF-DATE turns back into the day number and TEST-DATE-YYYYMMDD accepts; DAY-
  OF-INTEGER and INTEGER-OF-DAY do so for the day of the year.
\<close>

theorem date_round_trip:
  assumes "flag_binary_truncate M" "cob_get_int T E M f = Some (n, f')" "1 \<le> n" "n \<le> 3067671"
  shows "(\<exists>y m d g u t. valid_date y m d \<and> n = day_number y m d \<and> fdata g = pad_digits 4 y @ pad_digits 2 m @ pad_digits 2 d \<and>
      cob_intr_date_of_integer T E M R f = Some (cob_clear_exception R, g, f') \<and>
      cob_intr_integer_of_date T E M R g = Some (cob_clear_exception R, u, g) \<and> num_val T M u = Some n \<and>
      cob_intr_test_date_yyyymmdd T E M g = Some (t, g) \<and> num_val T M t = Some 0) \<and>
    (\<exists>y k g u. 1601 \<le> y \<and> y \<le> 9999 \<and> 1 \<le> k \<and> k \<le> year_length y \<and> fdata g = pad_digits 4 y @ pad_digits 3 k \<and>
      cob_intr_day_of_integer T E M R f = Some (cob_clear_exception R, g, f') \<and>
      cob_intr_integer_of_day T E M R g = Some (cob_clear_exception R, u, g) \<and> num_val T M u = Some n)"
  by (rule conjI [OF dates_invert [OF assms] days_invert [OF assms]])

lemma date_round_trip_witness:
  "\<exists>y m d g u t. valid_date y m d \<and> 145731 = day_number y m d \<and> fdata g = pad_digits 4 y @ pad_digits 2 m @ pad_digits 2 d \<and>
    cob_intr_date_of_integer \<lparr>words_bigendian = False, allow_misaligned = True, cob_li_is_ll = True\<rparr> fp_none default_module cob_rt_init (disp_entry 6 0 [49, 52, 53, 55, 51, 49]) = Some (cob_clear_exception cob_rt_init, g, (disp_entry 6 0 [49, 52, 53, 55, 51, 49])) \<and>
    cob_intr_integer_of_date \<lparr>words_bigendian = False, allow_misaligned = True, cob_li_is_ll = True\<rparr> fp_none default_module cob_rt_init g = Some (cob_clear_exception cob_rt_init, u, g) \<and>
    num_val \<lparr>words_bigendian = False, allow_misaligned = True, cob_li_is_ll = True\<rparr> default_module u = Some 145731 \<and>
    cob_intr_test_date_yyyymmdd \<lparr>words_bigendian = False, allow_misaligned = True, cob_li_is_ll = True\<rparr> fp_none default_module g = Some (t, g) \<and> num_val \<lparr>words_bigendian = False, allow_misaligned = True, cob_li_is_ll = True\<rparr> default_module t = Some 0"
proof -
  have g: "cob_get_int \<lparr>words_bigendian = False, allow_misaligned = True, cob_li_is_ll = True\<rparr> fp_none default_module (disp_entry 6 0 [49, 52, 53, 55, 51, 49]) = Some (145731, (disp_entry 6 0 [49, 52, 53, 55, 51, 49]))" by code_simp
  show ?thesis by (rule conjunct1 [OF date_round_trip [OF _ g]]) (simp_all add: default_module_def)
qed



text \<open>
  C20: INSPECT REPLACING ALL, after any BEFORE and AFTER phrases, replaces in the window
  they leave every occurrence of the pattern, found from left to right without overlap, and
  changes nothing outside the window; the sign of the item is put back.
\<close>

theorem inspect_replacing:
  assumes "cob_inspect_init R M f True = Some (R', S0)" "wf_field f" "window_of S0 S"
    "fsize f1 = fsize f2" "fdata f2 \<noteq> []"
  shows "\<exists>S'. cob_inspect_all R' T E M N S (Some f1) (Some f2) = Some (R', N, S', f1) \<and>
    cob_inspect_finish M S' = cob_put_sign M (put_bytes (in_var S0)
      (take (in_start S) (in_data S0) @ replace_all (fdata f2) (fdata f1) (window S) @ drop (in_end S) (in_data S0))) (in_sign S0)"
  by (rule replacing_all [OF assms])

lemma inspect_replacing_witness:
  "\<exists>S0 S'. cob_inspect_init cob_rt_init default_module (cob_fld COB_TYPE_ALPHANUMERIC 0 0 0 [] [88, 66, 88]) True = Some (cob_rt_init, S0) \<and>
    cob_inspect_all cob_rt_init \<lparr>words_bigendian = False, allow_misaligned = True, cob_li_is_ll = True\<rparr> fp_none default_module cob_init_numeric (cob_inspect_start S0) (Some (cob_fld COB_TYPE_ALPHANUMERIC 0 0 0 [] [89])) (Some (cob_fld COB_TYPE_ALPHANUMERIC 0 0 0 [] [88])) =
      Some (cob_rt_init, cob_init_numeric, S', (cob_fld COB_TYPE_ALPHANUMERIC 0 0 0 [] [89])) \<and> map_option fdata (cob_inspect_finish default_module S') = Some [89, 66, 89]"
proof -
  let ?S0 = "\<lparr>in_var = (cob_fld COB_TYPE_ALPHANUMERIC 0 0 0 [] [88, 66, 88]), in_data = [88, 66, 88], in_start = 0, in_end = 0, in_mark = [-1, -1, -1], in_replacing = True, in_sign = 0\<rparr>"
  have i: "cob_inspect_init cob_rt_init default_module (cob_fld COB_TYPE_ALPHANUMERIC 0 0 0 [] [88, 66, 88]) True = Some (cob_rt_init, ?S0)"
    by (simp add: cob_inspect_init_def cob_get_sign_def field_bytes_def data_size_def data_off_def cob_clear_exception_def cob_rt_init_def Let_def)
  have h: "wf_field (cob_fld COB_TYPE_ALPHANUMERIC 0 0 0 [] [88, 66, 88])" "fsize (cob_fld COB_TYPE_ALPHANUMERIC 0 0 0 [] [89]) = fsize (cob_fld COB_TYPE_ALPHANUMERIC 0 0 0 [] [88])" "fdata (cob_fld COB_TYPE_ALPHANUMERIC 0 0 0 [] [88]) \<noteq> []" by code_simp+
  have "map_option fdata (cob_put_sign default_module (put_bytes (in_var ?S0) (take (in_start (cob_inspect_start ?S0)) (in_data ?S0) @
      replace_all (fdata (cob_fld COB_TYPE_ALPHANUMERIC 0 0 0 [] [88])) (fdata (cob_fld COB_TYPE_ALPHANUMERIC 0 0 0 [] [89])) (window (cob_inspect_start ?S0)) @ drop (in_end (cob_inspect_start ?S0)) (in_data ?S0))) (in_sign ?S0)) =
      Some [89, 66, 89]" by code_simp
  with inspect_replacing [OF i h(1) window_of.whole h(2,3), of "\<lparr>words_bigendian = False, allow_misaligned = True, cob_li_is_ll = True\<rparr>" fp_none cob_init_numeric] i show ?thesis by (metis (no_types))
qed

text \<open>
  C21: on a little-endian host the byte-swapping add, subtract and set routines implement a
  big-endian item of their width.
\<close>

theorem swapped_refine:
  assumes "\<not> words_bigendian T"
  shows "cob_addswp_u16_binary T p v = cell_upd True 2 p (\<lambda>x. x + v) \<and>
    cob_addswp_s16_binary T p v = cell_upd True 2 p (\<lambda>x. x + v) \<and>
    cob_addswp_u24_binary T p v = cell_upd True 3 p (\<lambda>x. x + v) \<and>
    cob_addswp_s24_binary T p v = cell_upd True 3 p (\<lambda>x. x + v) \<and>
    cob_addswp_u32_binary T p v = cell_upd True 4 p (\<lambda>x. x + v) \<and>
    cob_addswp_s32_binary T p v = cell_upd True 4 p (\<lambda>x. x + v) \<and>
    cob_addswp_u40_binary T p v = cell_upd True 5 p (\<lambda>x. x + v) \<and>
    cob_addswp_s40_binary T p v = cell_upd True 5 p (\<lambda>x. x + v) \<and>
    cob_addswp_u48_binary T p v = cell_upd True 6 p (\<lambda>x. x + v) \<and>
    cob_addswp_s48_binary T p v = cell_upd True 6 p (\<lambda>x. x + v) \<and>
    cob_addswp_u56_binary T p v = cell_upd True 7 p (\<lambda>x. x + v) \<and>
    cob_addswp_s56_binary T p v = cell_upd True 7 p (\<lambda>x. x + v) \<and>
    cob_addswp_u64_binary T p v = cell_upd True 8 p (\<lambda>x. x + v) \<and>
    cob_addswp_s64_binary T p v = cell_upd True 8 p (\<lambda>x. x + v) \<and>
    cob_subswp_u16_binary T p v = cell_upd True 2 p (\<lambda>x. x - v) \<and>
    cob_subswp_s16_binary T p v = cell_upd True 2 p (\<lambda>x. x - v) \<and>
    cob_subswp_u24_binary T p v = cell_upd True 3 p (\<lambda>x. x - v) \<and>
    cob_subswp_s24_binary T p v = cell_upd True 3 p (\<lambda>x. x - v) \<and>
    cob_subswp_u32_binary T p v = cell_upd True 4 p (\<lambda>x. x - v) \<and>
    cob_subswp_s32_binary T p v = cell_upd True 4 p (\<lambda>x. x - v) \<and>
    cob_subswp_u40_binary T p v = cell_upd True 5 p (\<lambda>x. x - v) \<and>
    cob_subswp_s40_binary T p v = cell_upd True 5 p (\<lambda>x. x - v) \<and>
    cob_subswp_u48_binary T p v = cell_upd True 6 p (\<lambda>x. x - v) \<and>
    cob_subswp_s48_binary T p v = cell_upd True 6 p (\<lambda>x. x - v) \<and>
    cob_subswp_u56_binary T p v = cell_upd True 7 p (\<lambda>x. x - v) \<and>
    cob_subswp_s56_binary T p v = cell_upd True 7 p (\<lambda>x. x - v) \<and>
    cob_subswp_u64_binary T p v = cell_upd True 8 p (\<lambda>x. x - v) \<and>
    cob_subswp_s64_binary T p v = cell_upd True 8 p (\<lambda>x. x - v) \<and>
    cob_setswp_u16_binary T p v = cell_set True 2 p v \<and>
    cob_setswp_s16_binary T p v = cell_set True 2 p v \<and>
    cob_setswp_u24_binary T p v = cell_set True 3 p v \<and>
    cob_setswp_s24_binary T p v = cell_set True 3 p v \<and>
    cob_setswp_u32_binary T p v = cell_set True 4 p v \<and>
    cob_setswp_s32_binary T p v = cell_set True 4 p v \<and>
    cob_setswp_u40_binary T p v = cell_set True 5 p v \<and>
    cob_setswp_s40_binary T p v = cell_set True 5 p v \<and>
    cob_setswp_u48_binary T p v = cell_set True 6 p v \<and>
    cob_setswp_s48_binary T p v = cell_set True 6 p v \<and>
    cob_setswp_u56_binary T p v = cell_set True 7 p v \<and>
    cob_setswp_s56_binary T p v = cell_set True 7 p v \<and>
    cob_setswp_u64_binary T p v = cell_set True 8 p v \<and>
    cob_setswp_s64_binary T p v = cell_set True 8 p v"
  by (simp only: cob_addswp_u16_binary_spec [OF assms] cob_subswp_u16_binary_spec [OF assms] cob_setswp_u16_binary_spec [OF assms] cob_addswp_s16_binary_spec [OF assms] cob_subswp_s16_binary_spec [OF assms] cob_setswp_s16_binary_spec [OF assms] cob_addswp_u24_binary_spec [OF assms] cob_subswp_u24_binary_spec [OF assms] cob_setswp_u24_binary_spec [OF assms] cob_addswp_s24_binary_spec [OF assms] cob_subswp_s24_binary_spec [OF assms] cob_setswp_s24_binary_spec [OF assms] cob_addswp_u32_binary_spec [OF assms] cob_subswp_u32_binary_spec [OF assms] cob_setswp_u32_binary_spec [OF assms] cob_addswp_s32_binary_spec [OF assms] cob_subswp_s32_binary_spec [OF assms] cob_setswp_s32_binary_spec [OF assms] cob_addswp_u40_binary_spec [OF assms] cob_subswp_u40_binary_spec [OF assms] cob_setswp_u40_binary_spec [OF assms] cob_addswp_s40_binary_spec [OF assms] cob_subswp_s40_binary_spec [OF assms] cob_setswp_s40_binary_spec [OF assms] cob_addswp_u48_binary_spec [OF assms] cob_subswp_u48_binary_spec [OF assms] cob_setswp_u48_binary_spec [OF assms] cob_addswp_s48_binary_spec [OF assms] cob_subswp_s48_binary_spec [OF assms] cob_setswp_s48_binary_spec [OF assms] cob_addswp_u56_binary_spec [OF assms] cob_subswp_u56_binary_spec [OF assms] cob_setswp_u56_binary_spec [OF assms] cob_addswp_s56_binary_spec [OF assms] cob_subswp_s56_binary_spec [OF assms] cob_setswp_s56_binary_spec [OF assms] cob_addswp_u64_binary_spec [OF assms] cob_subswp_u64_binary_spec [OF assms] cob_setswp_u64_binary_spec [OF assms] cob_addswp_s64_binary_spec [OF assms] cob_subswp_s64_binary_spec [OF assms] cob_setswp_s64_binary_spec [OF assms] simp_thms)

lemma swapped_refine_witness:
  "cob_addswp_s40_binary \<lparr>words_bigendian = False, allow_misaligned = True, cob_li_is_ll = True\<rparr> [0, 0, 0, 0, 0xff] 1 = cell_upd True 5 [0, 0, 0, 0, 0xff] (\<lambda>x. x + 1)"
  using swapped_refine [where T = "\<lparr>words_bigendian = False, allow_misaligned = True, cob_li_is_ll = True\<rparr>" and p = "[0, 0, 0, 0, 0xff]" and v = 1] by simp

text \<open>
  C22: a sign written into a DISPLAY item, separate or overpunched (ASCII or EBCDIC style),
  leading or trailing, is read back with the digits unchanged.
\<close>

theorem sign_put_get:
  assumes "wf_field f" "field_type f = COB_TYPE_NUMERIC_DISPLAY" "all_digits (field_bytes f)"
  shows "\<exists>h. cob_put_sign M f s = Some h \<and> sign_of M h (sign_result f s) (field_bytes f)"
  by (rule put_sign_sign_of [OF assms])

lemma sign_put_get_witness:
  "\<exists>h. cob_put_sign default_module (cob_fld COB_TYPE_NUMERIC_DISPLAY 3 0 1 [] [0x31, 0x32, 0x33]) (- 1) = Some h \<and>
    sign_of default_module h (sign_result (cob_fld COB_TYPE_NUMERIC_DISPLAY 3 0 1 [] [0x31, 0x32, 0x33]) (- 1))
      (field_bytes (cob_fld COB_TYPE_NUMERIC_DISPLAY 3 0 1 [] [0x31, 0x32, 0x33]))"
  by (rule sign_put_get) code_simp+

text \<open>
  C23: the compare of decimals of any two scales is the order of the rational numbers they
  stand for.
\<close>

theorem decimal_cmp_order:
  assumes "cob_decimal_cmp d1 d2 = (c, a, b)"
  shows "(c < 0 \<longleftrightarrow> dec_rat d1 < dec_rat d2) \<and> (c = 0 \<longleftrightarrow> dec_rat d1 = dec_rat d2) \<and>
    (c > 0 \<longleftrightarrow> dec_rat d1 > dec_rat d2)"
  by (rule cob_decimal_cmp_rat [OF assms])

lemma decimal_cmp_order_witness:
  "dec_rat (mkdec 15 1) < dec_rat (mkdec 151 2)"
  using decimal_cmp_order [of "mkdec 15 1" "mkdec 151 2" "- 1" "mkdec 150 2" "mkdec 151 2"] by (simp, code_simp)

text \<open>
  C24: storing a decimal into a DISPLAY item writes the zero-padded digits and sign of a
  value that fits; one that does not fit raises EC-SIZE-OVERFLOW and leaves the item alone,
  or, without ON SIZE ERROR, keeps the low-order digits.
\<close>

theorem display_store:
  fixes R :: cob_rt
  assumes "wf_field f" "field_type f = COB_TYPE_NUMERIC_DISPLAY" "\<bar>dvalue d\<bar> < 10 ^ (num_buff_size - 1)"
    and "fits = (\<bar>dvalue d\<bar> < 10 ^ data_size f)" "R1 = cob_set_exception R COB_EC_SIZE_OVERFLOW"
  shows "if \<not> fits \<and> opt_set opt COB_STORE_KEEP_ON_OVERFLOW
    then cob_decimal_get_display R M d f opt = Some (0x1004, R1, f)
    else \<exists>g. cob_decimal_get_display R M d f opt = Some (0, if fits then R else R1, g) \<and>
      sign_of M g (sign_result f (sgn (dvalue d))) (pad_digits (data_size f) \<bar>dvalue d\<bar>) \<and>
      fattr g = fattr f \<and> fsize g = fsize f"
  unfolding assms(4,5)
  using get_display_value [OF assms(1,2) assms(3) [unfolded num_buff_pred], of opt R M] by (auto simp: exception_code_size_overflow)

lemma display_store_witness:
  "cob_decimal_get_display cob_rt_init default_module (mkdec 1234 0) (cob_fld COB_TYPE_NUMERIC_DISPLAY 3 0 1 [] [0x30, 0x31, 0x72]) 2 =
    Some (0x1004, cob_set_exception cob_rt_init COB_EC_SIZE_OVERFLOW, (cob_fld COB_TYPE_NUMERIC_DISPLAY 3 0 1 [] [0x30, 0x31, 0x72]))"
  using display_store [where f = "(cob_fld COB_TYPE_NUMERIC_DISPLAY 3 0 1 [] [0x30, 0x31, 0x72])" and d = "mkdec 1234 0" and M = default_module and opt = 2 and R = cob_rt_init and fits = False]
  buffer_room [of 1234 4] by (simp add: wf_field_def data_size_def opt_set_def)

text \<open>
  C25: when adding an int to a DISPLAY item overflows, binary truncation on: EC-SIZE-
  OVERFLOW is raised, its code returned and the item keeps its value; binary truncation off:
  the low-order digits are stored silently.
\<close>

theorem display_add_int_overflow:
  fixes R :: cob_rt
  assumes "wf_field f" "field_type f = COB_TYPE_NUMERIC_DISPLAY" "sign_of M f s ds" "all_digits ds" "length ds \<le> 64"
    and "0 \<le> field_scale f" "\<bar>n * 10 ^ nat (field_scale f)\<bar> < 2 ^ 63"
    and "w = addend s n (nat (field_scale f))" "10 ^ length ds \<le> dec_val ds + w"
  shows "\<exists>g. fattr g = fattr f \<and> fsize g = fsize f \<and>
    (if flag_binary_truncate M
     then cob_display_add_int R M f n = Some (0x1004, cob_set_exception R COB_EC_SIZE_OVERFLOW, g) \<and>
       sign_of M g (sign_result f s) ds
     else cob_display_add_int R M f n = Some (0, R, g) \<and>
       sign_of M g (sign_result f s) (pad_digits (length ds) (dec_val ds + w)))"
  using display_add_int_core(2,3) [OF assms(1-7)] assms(8,9) by (cases "flag_binary_truncate M") auto

lemma display_add_int_overflow_witness:
  "\<exists>g. fattr g = fattr (cob_fld COB_TYPE_NUMERIC_DISPLAY 3 0 0 [] [0x39, 0x31, 0x32]) \<and> fsize g = fsize (cob_fld COB_TYPE_NUMERIC_DISPLAY 3 0 0 [] [0x39, 0x31, 0x32]) \<and>
    (if flag_binary_truncate default_module
     then cob_display_add_int cob_rt_init default_module (cob_fld COB_TYPE_NUMERIC_DISPLAY 3 0 0 [] [0x39, 0x31, 0x32]) 100 = Some (0x1004, cob_set_exception cob_rt_init COB_EC_SIZE_OVERFLOW, g) \<and>
       sign_of default_module g (sign_result (cob_fld COB_TYPE_NUMERIC_DISPLAY 3 0 0 [] [0x39, 0x31, 0x32]) 0) [0x39, 0x31, 0x32]
     else cob_display_add_int cob_rt_init default_module (cob_fld COB_TYPE_NUMERIC_DISPLAY 3 0 0 [] [0x39, 0x31, 0x32]) 100 = Some (0, cob_rt_init, g) \<and>
       sign_of default_module g (sign_result (cob_fld COB_TYPE_NUMERIC_DISPLAY 3 0 0 [] [0x39, 0x31, 0x32]) 0) (pad_digits (length [0x39, 0x31, 0x32 :: u8]) (dec_val [0x39, 0x31, 0x32] + 100)))"
  by (rule display_add_int_overflow) code_simp+

text \<open>
  C26: a decimal that fits, stored into a PACKED-DECIMAL item of any even or odd digit count
  whatever its old content, is what a load reads back (its absolute value from an unsigned
  item).
\<close>

theorem packed_store_load:
  fixes R :: cob_rt
  assumes "field_digits f > 0" "fsize f = field_digits f div 2 + 1" "\<bar>v\<bar> < 10 ^ field_digits f" "field_digits f < 2048"
  shows "\<exists>g. cob_decimal_get_packed R (mkdec v (field_scale f)) f opt = Some (0, R, g) \<and>
    cob_decimal_set_packed g = Some (mkdec (if have_sign f then v else \<bar>v\<bar>) (field_scale f))"
  by (rule packed_store_load_core [OF assms])

lemma packed_store_load_witness:
  "\<exists>g. cob_decimal_get_packed cob_rt_init (mkdec (- 5678) (field_scale (cob_fld COB_TYPE_NUMERIC_PACKED 4 2 1 [] [0x99, 0x99, 0x9f]))) (cob_fld COB_TYPE_NUMERIC_PACKED 4 2 1 [] [0x99, 0x99, 0x9f]) 0 = Some (0, cob_rt_init, g) \<and>
    cob_decimal_set_packed g = Some (mkdec (if have_sign (cob_fld COB_TYPE_NUMERIC_PACKED 4 2 1 [] [0x99, 0x99, 0x9f]) then - 5678 else \<bar>- 5678\<bar>) (field_scale (cob_fld COB_TYPE_NUMERIC_PACKED 4 2 1 [] [0x99, 0x99, 0x9f])))"
  by (rule packed_store_load) simp_all

text \<open>
  C27: raising exception identifier i records the code of row i of exception.def with the
  current source location, and looking that code up gives the name of row i.
\<close>

theorem exception_register:
  fixes R :: cob_rt
  assumes "i < length exception_def" "R' = cob_set_exception R (Suc i)"
  shows "exception_code R' = fst (exception_def ! i) \<and> got_exception R' \<and> orig_loc R' = source_loc R \<and>
    cob_get_exception_name (exception_code R') = Some (snd (exception_def ! i))"
  using exception_raised(1,3,4) [OF assms(1), of R] exception_name_lookup [OF assms(1)] assms(2) by simp

lemma exception_register_witness:
  "exception_code (cob_set_exception cob_rt_init 111) = fst (exception_def ! 110)"
  using exception_register [where i = 110 and R = cob_rt_init] by (simp add: length_exception_def)

text \<open>
  C28: the rounding step of a store turns a decimal of any scale into the integer number of
  units of the target scale: cut towards zero without ROUNDED, half away from zero with it.
\<close>

theorem round_half_away:
  "dscale (round_decimal s opt d) = s \<and>
   (let u = dec_rat d * 10 powi s; a = \<lfloor>\<bar>u\<bar> + (if opt_set opt COB_STORE_ROUND then 1 / 2 else 0)\<rfloor>
    in dvalue (round_decimal s opt d) = (if u < 0 then - a else a))"
  using round_decimal_rounded [of s opt d] by (simp add: rounded_def Let_def)

text \<open>
  C29: ADD of two items of any of the usages DISPLAY, PACKED-DECIMAL and BINARY (loadable,
  with a scale other than -128; a BINARY target with a 64-bit long) stores the exact
  rational sum, rounded or cut at the scale of the target, by its magnitude if the target is
  unsigned; a sum that does not fit raises EC-SIZE-OVERFLOW under ON SIZE ERROR and leaves
  the target its value; the addend keeps its value.
\<close>

theorem add_to_item:
  fixes R :: cob_rt
  assumes "num_val T M f1 = Some v1" "loadable T f1 v1" "num_val T M f2 = Some v2" "loadable T f2 v2"
    and "field_scale f1 \<noteq> - 128" "field_scale f2 \<noteq> - 128" "storable T f1"
    and "v = rounded (item_rat f1 v1 + item_rat f2 v2) (field_scale f1) opt"
    and "\<bar>v\<bar> < 10 ^ (num_buff_size - 1)" "opt_set opt COB_STORE_KEEP_ON_OVERFLOW \<or> field_fits M f1 opt v"
  shows "\<exists>r R' N' g1 g2. cob_add R T E M N f1 f2 opt = Some (r, R', N', g1, g2) \<and> same_shape f1 g1 \<and>
    num_val T M g2 = Some v2 \<and>
    (if field_fits M f1 opt v then r = 0 \<and> R' = R \<and> num_val T M g1 = Some (if have_sign f1 then v else \<bar>v\<bar>)
     else r = 0x1004 \<and> R' = cob_set_exception R COB_EC_SIZE_OVERFLOW \<and> num_val T M g1 = Some v1)"
  by (rule cob_add_num [OF assms])

lemma add_to_item_witness:
  "\<exists>r R' N' g1 g2. cob_add cob_rt_init \<lparr>words_bigendian = False, allow_misaligned = True, cob_li_is_ll = True\<rparr> fp_none default_module cob_init_numeric (cob_fld COB_TYPE_NUMERIC_PACKED 5 1 1 [] [0x00, 0x00, 0x0c]) (cob_fld COB_TYPE_NUMERIC_BINARY 5 2 33 [] [0x00, 0x26, 0x92]) 1 = Some (r, R', N', g1, g2) \<and>
    r = 0 \<and> num_val \<lparr>words_bigendian = False, allow_misaligned = True, cob_li_is_ll = True\<rparr> default_module g1 = Some 987"
proof -
  have f: "field_fits default_module (cob_fld COB_TYPE_NUMERIC_PACKED 5 1 1 [] [0x00, 0x00, 0x0c]) 1 987" by code_simp
  have h: "num_val \<lparr>words_bigendian = False, allow_misaligned = True, cob_li_is_ll = True\<rparr> default_module (cob_fld COB_TYPE_NUMERIC_PACKED 5 1 1 [] [0x00, 0x00, 0x0c]) = Some 0" "loadable \<lparr>words_bigendian = False, allow_misaligned = True, cob_li_is_ll = True\<rparr> (cob_fld COB_TYPE_NUMERIC_PACKED 5 1 1 [] [0x00, 0x00, 0x0c]) 0" "num_val \<lparr>words_bigendian = False, allow_misaligned = True, cob_li_is_ll = True\<rparr> default_module (cob_fld COB_TYPE_NUMERIC_BINARY 5 2 33 [] [0x00, 0x26, 0x92]) = Some 9874"
    "loadable \<lparr>words_bigendian = False, allow_misaligned = True, cob_li_is_ll = True\<rparr> (cob_fld COB_TYPE_NUMERIC_BINARY 5 2 33 [] [0x00, 0x26, 0x92]) 9874" "field_scale (cob_fld COB_TYPE_NUMERIC_PACKED 5 1 1 [] [0x00, 0x00, 0x0c]) \<noteq> - 128" "field_scale (cob_fld COB_TYPE_NUMERIC_BINARY 5 2 33 [] [0x00, 0x26, 0x92]) \<noteq> - 128" "storable \<lparr>words_bigendian = False, allow_misaligned = True, cob_li_is_ll = True\<rparr> (cob_fld COB_TYPE_NUMERIC_PACKED 5 1 1 [] [0x00, 0x00, 0x0c])"
    "987 = rounded (item_rat (cob_fld COB_TYPE_NUMERIC_PACKED 5 1 1 [] [0x00, 0x00, 0x0c]) 0 + item_rat (cob_fld COB_TYPE_NUMERIC_BINARY 5 2 33 [] [0x00, 0x26, 0x92]) 9874) (field_scale (cob_fld COB_TYPE_NUMERIC_PACKED 5 1 1 [] [0x00, 0x00, 0x0c])) 1" by code_simp+
  have "\<bar>987 :: int\<bar> < 10 ^ (num_buff_size - 1)" by (rule buffer_room [of _ 3]) simp_all
  from add_to_item [OF h this disjI2 [OF f], of cob_rt_init fp_none cob_init_numeric] f
  show ?thesis unfolding if_P [OF f] by auto
qed

text \<open>
  C30: DIVIDE GIVING REMAINDER of loadable items of usage DISPLAY, PACKED-DECIMAL or BINARY
  by a divisor that is not zero: the quotient item receives the exact rational quotient
  rounded or cut at its scale (below 37 decimals), by its magnitude if the item is unsigned
  (a BINARY item with a 64-bit long), and the remainder left for the next call is the
  dividend minus the cut quotient times the divisor, exactly.
\<close>

theorem divide_with_remainder:
  fixes R :: cob_rt
  assumes "num_val T M f1 = Some v1" "loadable T f1 v1" "num_val T M f2 = Some v2" "loadable T f2 v2" "v2 \<noteq> 0"
    and "field_scale f1 > - 128" "field_scale f2 \<noteq> - 128" "- 128 < field_scale q + field_scale f2"
      "field_scale q \<noteq> - 128" "field_scale q < 37"
    and "storable T q" "v = rounded (item_rat f1 v1 / item_rat f2 v2) (field_scale q) opt"
    and "\<bar>v\<bar> < 10 ^ (num_buff_size - 1)" "opt_set opt COB_STORE_KEEP_ON_OVERFLOW \<or> field_fits M q opt v"
  shows "\<exists>r R' N' g1 g2 g. cob_div_quotient R T E M N f1 f2 q opt = Some (r, R', N', g1, g2, g) \<and>
    stored T M R q opt v r R' g \<and> dscale (cob_d3 N') \<noteq> DECIMAL_NAN \<and>
    dec_rat (cob_d3 N') = item_rat f1 v1 -
      of_int (rounded (item_rat f1 v1 / item_rat f2 v2) (field_scale q) 0) * 10 powi (- field_scale q) * item_rat f2 v2"
  by (rule div_quotient_num [OF assms])

lemma divide_with_remainder_witness:
  "\<exists>r R' N' g1 g2 g. cob_div_quotient cob_rt_init \<lparr>words_bigendian = False, allow_misaligned = True, cob_li_is_ll = True\<rparr> fp_none default_module cob_init_numeric (cob_fld COB_TYPE_NUMERIC_PACKED 3 0 1 [] [0x02, 0x0c]) (cob_fld COB_TYPE_NUMERIC_DISPLAY 1 0 0 [] [0x33]) (cob_fld COB_TYPE_NUMERIC_DISPLAY 5 2 1 [] [0x30, 0x30, 0x30, 0x30, 0x30]) 1 = Some (r, R', N', g1, g2, g) \<and>
    num_val \<lparr>words_bigendian = False, allow_misaligned = True, cob_li_is_ll = True\<rparr> default_module g = Some 667"
proof -
  have f: "field_fits default_module (cob_fld COB_TYPE_NUMERIC_DISPLAY 5 2 1 [] [0x30, 0x30, 0x30, 0x30, 0x30]) 1 667" by code_simp
  have h: "num_val \<lparr>words_bigendian = False, allow_misaligned = True, cob_li_is_ll = True\<rparr> default_module (cob_fld COB_TYPE_NUMERIC_PACKED 3 0 1 [] [0x02, 0x0c]) = Some 20" "loadable \<lparr>words_bigendian = False, allow_misaligned = True, cob_li_is_ll = True\<rparr> (cob_fld COB_TYPE_NUMERIC_PACKED 3 0 1 [] [0x02, 0x0c]) 20" "num_val \<lparr>words_bigendian = False, allow_misaligned = True, cob_li_is_ll = True\<rparr> default_module (cob_fld COB_TYPE_NUMERIC_DISPLAY 1 0 0 [] [0x33]) = Some 3"
    "loadable \<lparr>words_bigendian = False, allow_misaligned = True, cob_li_is_ll = True\<rparr> (cob_fld COB_TYPE_NUMERIC_DISPLAY 1 0 0 [] [0x33]) 3" "(3 :: int) \<noteq> 0" "field_scale (cob_fld COB_TYPE_NUMERIC_PACKED 3 0 1 [] [0x02, 0x0c]) > - 128" "field_scale (cob_fld COB_TYPE_NUMERIC_DISPLAY 1 0 0 [] [0x33]) \<noteq> - 128"
    "- 128 < field_scale (cob_fld COB_TYPE_NUMERIC_DISPLAY 5 2 1 [] [0x30, 0x30, 0x30, 0x30, 0x30]) + field_scale (cob_fld COB_TYPE_NUMERIC_DISPLAY 1 0 0 [] [0x33])" "field_scale (cob_fld COB_TYPE_NUMERIC_DISPLAY 5 2 1 [] [0x30, 0x30, 0x30, 0x30, 0x30]) \<noteq> - 128" "field_scale (cob_fld COB_TYPE_NUMERIC_DISPLAY 5 2 1 [] [0x30, 0x30, 0x30, 0x30, 0x30]) < 37" "storable \<lparr>words_bigendian = False, allow_misaligned = True, cob_li_is_ll = True\<rparr> (cob_fld COB_TYPE_NUMERIC_DISPLAY 5 2 1 [] [0x30, 0x30, 0x30, 0x30, 0x30])"
    "667 = rounded (item_rat (cob_fld COB_TYPE_NUMERIC_PACKED 3 0 1 [] [0x02, 0x0c]) 20 / item_rat (cob_fld COB_TYPE_NUMERIC_DISPLAY 1 0 0 [] [0x33]) 3) (field_scale (cob_fld COB_TYPE_NUMERIC_DISPLAY 5 2 1 [] [0x30, 0x30, 0x30, 0x30, 0x30])) 1" by code_simp+
  have "\<bar>667 :: int\<bar> < 10 ^ (num_buff_size - 1)" by (rule buffer_room [of _ 3]) simp_all
  from divide_with_remainder [OF h this disjI2 [OF f], of cob_rt_init fp_none cob_init_numeric] f
  show ?thesis unfolding stored_def by auto
qed

text \<open>
  C31: CLOSE (plain, without LOCK) of a connector of an ordinary file that is open in a
  reachable state returns, answers 00, leaves the connector closed and, if the file exists,
  its stream released; OPEN of a connector closed WITH LOCK answers 38; but CLOSE of it, if
  the file exists, has no result in the model, because it closes the same stream a second
  time.
\<close>

theorem file_close_live:
  assumes "errnos E" "file_reachable E W f" "special f = 0"
  shows "(open_mode f \<noteq> COB_OPEN_CLOSED \<and> open_mode f \<noteq> COB_OPEN_LOCKED \<longrightarrow>
      (\<exists>W' f'. cob_close W f COB_CLOSE_NORMAL None = Some (W', f', None) \<and> open_mode f' = COB_OPEN_CLOSED \<and>
        file_status f' = (chr_0, chr_0) \<and>
        (\<not> flag_nonexistent f \<longrightarrow> (\<exists>h. fhandle f' = Some h \<and> io_streams W' h = None)))) \<and>
    (open_mode f = COB_OPEN_LOCKED \<longrightarrow>
      (\<exists>W' f'. cob_open E W f mode sh None = Some (W', f', None) \<and> file_status f' = (0x33, 0x38)) \<and>
      (\<not> flag_nonexistent f \<longrightarrow> cob_close W f copt None = None))"
proof -
  have ok: "file_ok W f" by (rule file_reachable_ok [OF assms(1,2)])
  show ?thesis using close_open_file [OF ok assms(3)] locked_close [OF ok assms(3), of copt None] locked_open [of f E W mode sh]
    by (auto simp: released_def)
qed

lemma file_close_live_witness:
  "\<exists>W f W' f' h. cob_open (plain_env \<lparr>words_bigendian = False, allow_misaligned = True, cob_li_is_ll = True\<rparr>) idle_world (new_file COB_ORG_SEQUENTIAL COB_ACCESS_SEQUENTIAL [70] 1 4) COB_OPEN_OUTPUT False None = Some (W, f, None) \<and>
    cob_close W f COB_CLOSE_NORMAL None = Some (W', f', None) \<and> open_mode f' = COB_OPEN_CLOSED"
proof -
  have e: "errnos (plain_env \<lparr>words_bigendian = False, allow_misaligned = True, cob_li_is_ll = True\<rparr>)" and s: "file_reachable (plain_env \<lparr>words_bigendian = False, allow_misaligned = True, cob_li_is_ll = True\<rparr>) idle_world (new_file COB_ORG_SEQUENTIAL COB_ACCESS_SEQUENTIAL [70] 1 4)"
    by (simp_all add: errnos_def plain_env_def file_reachable.unopened fresh_streams_def idle_world_def new_file_def)
  obtain W f where o: "cob_open (plain_env \<lparr>words_bigendian = False, allow_misaligned = True, cob_li_is_ll = True\<rparr>) idle_world (new_file COB_ORG_SEQUENTIAL COB_ACCESS_SEQUENTIAL [70] 1 4) COB_OPEN_OUTPUT False None = Some (W, f, None)"
    and f: "special f = 0" "open_mode f = COB_OPEN_OUTPUT"
    by (simp add: cob_open_def open_file_def open_named_def finish_def save_status_def put_status_def new_file_def plain_env_def
      idle_world_def assigned_name_def map_file_name_def cob_cache_file_def cob_file_open_def fopen_def put_stream_def
      open_fmode_def open_answer_def Let_def)
  have "file_reachable (plain_env \<lparr>words_bigendian = False, allow_misaligned = True, cob_li_is_ll = True\<rparr>) W f" by (rule file_reachable.after [OF s file_step.step_open [OF _ _ o]]) simp_all
  from file_close_live [OF e this f(1)] o f(2) show ?thesis by auto
qed

text \<open>
  C32: what a program displays as text another accepts: the line that a DISPLAY of
  alphanumeric items writes (to an empty output; no NUL and no line end in the items, and
  fewer characters in all than the input buffer of the runtime), put into the terminal, is
  taken by ACCEPT whole, without its line end, and moved to the accepting alphanumeric item
  (cut or filled with spaces to its size); a last line without line end loses its last
  character.
\<close>

theorem display_accepted:
  assumes "\<forall>f\<in>set fs. text_item f" "text_item g"
    and "10 \<notin> set (concat (map fdata fs))" "0 \<notin> set (concat (map fdata fs))" "length (concat (map fdata fs)) < COB_MEDIUM_BUFF - 1"
    and "t = concat (map fdata fs)" "term_out S = []"
  shows "(\<exists>S'. cob_display X False False True fs S = Some (S', fs) \<and>
      cob_accept X g (S\<lparr>term_in := term_out S'\<rparr>) = Some (S\<lparr>term_in := []\<rparr>, set_data g (take (fsize g) (t @ replicate (fsize g) chr_space)))) \<and>
    (t \<noteq> [] \<longrightarrow> (\<exists>S'. cob_display X False False False fs S = Some (S', fs) \<and>
      cob_accept X g (S\<lparr>term_in := term_out S'\<rparr>) =
        Some (S\<lparr>term_in := []\<rparr>, set_data g (take (fsize g) (butlast t @ replicate (fsize g) chr_space)))))"
  using display_accept [OF assms(1-5,7), of X] accept_last_line [OF assms(2,3,4), of "S\<lparr>term_in := t\<rparr>" X] assms
  by (simp add: cob_display_def display_all_texts)

lemma display_accepted_witness:
  "\<exists>S'. cob_display (\<lparr>tm_target = \<lparr>words_bigendian = False, allow_misaligned = True, cob_li_is_ll = True\<rparr>, tm_fp = fp_none, tm_module = default_module, flag_pretty_display = False, fp_show = (\<lambda>_ _. [])\<rparr>) False False True [(cob_fld COB_TYPE_ALPHANUMERIC 0 0 0 [] [72]), (cob_fld COB_TYPE_ALPHANUMERIC 0 0 0 [] [73, 33])] \<lparr>term_in = [], term_out = [], term_err = []\<rparr> = Some (S', [(cob_fld COB_TYPE_ALPHANUMERIC 0 0 0 [] [72]), (cob_fld COB_TYPE_ALPHANUMERIC 0 0 0 [] [73, 33])]) \<and>
    cob_accept (\<lparr>tm_target = \<lparr>words_bigendian = False, allow_misaligned = True, cob_li_is_ll = True\<rparr>, tm_fp = fp_none, tm_module = default_module, flag_pretty_display = False, fp_show = (\<lambda>_ _. [])\<rparr>) (cob_fld COB_TYPE_ALPHANUMERIC 0 0 0 [] [0, 0, 0, 0]) \<lparr>term_in = term_out S', term_out = [], term_err = []\<rparr> =
      Some (\<lparr>term_in = [], term_out = [], term_err = []\<rparr>, set_data (cob_fld COB_TYPE_ALPHANUMERIC 0 0 0 [] [0, 0, 0, 0]) [72, 73, 33, 32])"
proof -
  have h: "\<forall>f\<in>set [(cob_fld COB_TYPE_ALPHANUMERIC 0 0 0 [] [72]), (cob_fld COB_TYPE_ALPHANUMERIC 0 0 0 [] [73, 33])]. text_item f" "text_item (cob_fld COB_TYPE_ALPHANUMERIC 0 0 0 [] [0, 0, 0, 0])" by code_simp+
  have t: "10 \<notin> set (concat (map fdata [(cob_fld COB_TYPE_ALPHANUMERIC 0 0 0 [] [72]), (cob_fld COB_TYPE_ALPHANUMERIC 0 0 0 [] [73, 33])]))" "0 \<notin> set (concat (map fdata [(cob_fld COB_TYPE_ALPHANUMERIC 0 0 0 [] [72]), (cob_fld COB_TYPE_ALPHANUMERIC 0 0 0 [] [73, 33])]))"
    "length (concat (map fdata [(cob_fld COB_TYPE_ALPHANUMERIC 0 0 0 [] [72]), (cob_fld COB_TYPE_ALPHANUMERIC 0 0 0 [] [73, 33])])) < COB_MEDIUM_BUFF - 1" "[72, 73, 33] = concat (map fdata [(cob_fld COB_TYPE_ALPHANUMERIC 0 0 0 [] [72]), (cob_fld COB_TYPE_ALPHANUMERIC 0 0 0 [] [73, 33])])"
    "term_out \<lparr>term_in = [], term_out = [], term_err = []\<rparr> = []" by (simp_all add: COB_MEDIUM_BUFF_def)
  have e: "take (fsize (cob_fld COB_TYPE_ALPHANUMERIC 0 0 0 [] [0, 0, 0, 0])) ([72, 73, 33] @ replicate (fsize (cob_fld COB_TYPE_ALPHANUMERIC 0 0 0 [] [0, 0, 0, 0])) chr_space) = [72, 73, 33, 32]" by code_simp
  show ?thesis using display_accepted [OF h t, of "(\<lparr>tm_target = \<lparr>words_bigendian = False, allow_misaligned = True, cob_li_is_ll = True\<rparr>, tm_fp = fp_none, tm_module = default_module, flag_pretty_display = False, fp_show = (\<lambda>_ _. [])\<rparr>)"] unfolding e by simp
qed

text \<open>
  C33: INTEGER-OF-DATE and TEST-DATE-YYYYMMDD of an unsigned DISPLAY item of any eight
  digits, with the option binary-truncate: a date of the calendar (years 1601 to 9999, 29
  February of leap years only) gives its day number and 0; for any other the first returns 0
  and raises EC-ARGUMENT-FUNCTION, and the second tells whether the year, the month or the
  day is wrong.
\<close>

theorem date_checked_first:
  assumes "flag_binary_truncate M" "all_digits bs" "length bs = 8"
    and "y = dec_val bs div 10000" "m = dec_val bs mod 10000 div 100" "d = dec_val bs mod 100"
  shows "(\<exists>R' g. cob_intr_integer_of_date T E M R (disp_entry 8 0 bs) = Some (R', g, disp_entry 8 0 bs) \<and>
      (if valid_date y m d then exception_code R' = 0 \<and> num_val T M g = Some (day_number y m d)
       else exception_code R' = 0x0101 \<and> num_val T M g = Some 0)) \<and>
    (\<exists>g. cob_intr_test_date_yyyymmdd T E M (disp_entry 8 0 bs) = Some (g, disp_entry 8 0 bs) \<and>
      num_val T M g = Some (if valid_date y m d then 0
        else if y < 1601 \<or> 9999 < y then 1 else if m < 1 \<or> 12 < m then 2 else 3))"
  by (rule conjI [OF dates_checked [OF assms] date_checked(2) [OF assms(1-3) refl assms(4-6)]])

lemma date_checked_first_witness:
  "\<exists>R' g. cob_intr_integer_of_date \<lparr>words_bigendian = False, allow_misaligned = True, cob_li_is_ll = True\<rparr> fp_none default_module cob_rt_init (disp_entry 8 0 [50, 49, 48, 48, 48, 50, 50, 57]) = Some (R', g, (disp_entry 8 0 [50, 49, 48, 48, 48, 50, 50, 57])) \<and>
    exception_code R' = 0x0101 \<and> num_val \<lparr>words_bigendian = False, allow_misaligned = True, cob_li_is_ll = True\<rparr> default_module g = Some 0"
proof -
  let ?bs = "[50, 49, 48, 48, 48, 50, 50, 57] :: bytes"
  have h: "flag_binary_truncate default_module" "all_digits ?bs" "length ?bs = 8" by (simp_all add: default_module_def isdigit_def)
  have v: "dec_val ?bs div 10000 = 2100" "dec_val ?bs mod 10000 div 100 = 2" "dec_val ?bs mod 100 = 29" by code_simp+
  have n: "\<not> valid_date 2100 2 29" by code_simp
  show ?thesis using date_checked_first [OF h refl refl refl, unfolded v, of "\<lparr>words_bigendian = False, allow_misaligned = True, cob_li_is_ll = True\<rparr>" fp_none cob_rt_init] n by simp
qed

text \<open>
  C34: FUNCTION INTEGER of an item of usage DISPLAY, PACKED-DECIMAL or BINARY that can be
  loaded (a DISPLAY item does not begin with LOW- or HIGH-VALUE and is no longer than the
  buffer of the runtime), with a 64-bit long and a scale other than -128, is the greatest
  integer not above it when it is not negative; a negative number is first cut to one
  decimal place, so that INTEGER of -1.05 is -1; the result fits its item if it is less than
  2 to the 63 in magnitude.
\<close>

theorem integer_function:
  assumes "num_val T M f = Some v" "loadable T f v" "field_scale f \<noteq> - 128"
    and "T = ie_target X" "M = ie_module X" "cob_li_is_ll T"
    and "w = (let x = item_rat f v in if 0 \<le> x then \<lfloor>x\<rfloor> else \<lfloor>of_int (rounded x 1 0) / (10 :: rat)\<rfloor>)" "\<bar>w\<bar> < 2 ^ 63"
  shows "\<exists>N g f'. cob_intr_integer X S f = Some ((fst S, N), g, f') \<and> num_val T M g = Some w \<and> num_val T M f' = Some v \<and>
    field_scale g = 0"
  using integer_of_item [OF assms(1-6) _ assms(8), of S] assms(7) by (simp add: integer_value_def Let_def)

lemma integer_function_witness:
  "\<exists>N g f'. cob_intr_integer (\<lparr>ie_target = \<lparr>words_bigendian = False, allow_misaligned = True, cob_li_is_ll = True\<rparr>, ie_fp = fp_none, ie_module = default_module, ie_size10 = (\<lambda>v. dec_len (nat \<bar>v\<bar>)), ie_pow = (\<lambda>d _. d), ie_libm = (\<lambda>_ _. None), ie_annuity = (\<lambda>_ _. [])\<rparr>) (cob_rt_init, cob_init_numeric) (cob_fld COB_TYPE_NUMERIC_PACKED 3 2 COB_FLAG_HAVE_SIGN [] [0x10, 0x5D]) = Some ((cob_rt_init, N), g, f') \<and>
    num_val \<lparr>words_bigendian = False, allow_misaligned = True, cob_li_is_ll = True\<rparr> default_module g = Some (- 1)"
proof -
  have h: "num_val \<lparr>words_bigendian = False, allow_misaligned = True, cob_li_is_ll = True\<rparr> default_module (cob_fld COB_TYPE_NUMERIC_PACKED 3 2 COB_FLAG_HAVE_SIGN [] [0x10, 0x5D]) = Some (- 105)" "loadable \<lparr>words_bigendian = False, allow_misaligned = True, cob_li_is_ll = True\<rparr> (cob_fld COB_TYPE_NUMERIC_PACKED 3 2 COB_FLAG_HAVE_SIGN [] [0x10, 0x5D]) (- 105)" "field_scale (cob_fld COB_TYPE_NUMERIC_PACKED 3 2 COB_FLAG_HAVE_SIGN [] [0x10, 0x5D]) \<noteq> - 128" by code_simp+
  have w: "- 1 = (let x = item_rat (cob_fld COB_TYPE_NUMERIC_PACKED 3 2 COB_FLAG_HAVE_SIGN [] [0x10, 0x5D]) (- 105) in if 0 \<le> x then \<lfloor>x\<rfloor> else \<lfloor>of_int (rounded x 1 0) / (10 :: rat)\<rfloor>)"
    by code_simp
  show ?thesis
    using integer_function [OF h _ _ _ w, where X = "(\<lparr>ie_target = \<lparr>words_bigendian = False, allow_misaligned = True, cob_li_is_ll = True\<rparr>, ie_fp = fp_none, ie_module = default_module, ie_size10 = (\<lambda>v. dec_len (nat \<bar>v\<bar>)), ie_pow = (\<lambda>d _. d), ie_libm = (\<lambda>_ _. None), ie_annuity = (\<lambda>_ _. [])\<rparr>)" and S = "(cob_rt_init, cob_init_numeric)"] by auto
qed

text \<open>
  C35: the class test NUMERIC of an item of any usage that is not empty answers by what the
  item holds, described without the routines that read a sign: a PACKED item by its half
  bytes (digits, and at the end C, D or F, for an unsigned item F); a DISPLAY item by its
  characters, digits everywhere but at the place of the sign, where an item with a separate
  sign may have any character, another one a digit, a space or one of p to y, and under the
  EBCDIC convention any character; text by digits only; BINARY and floating point items are
  always numeric; the item keeps its shape and, if it holds a number, the number.
\<close>

theorem class_numeric:
  assumes "fdata f \<noteq> []" "sign_separate f \<longrightarrow> have_sign f"
  shows "\<exists>g. cob_is_numeric M f = Some (numeric_content M f, g) \<and> same_shape f g \<and>
    (\<forall>v. num_val T M f = Some v \<longrightarrow> num_val T M g = Some v)"
proof -
  obtain g where g: "cob_is_numeric M f = Some (numeric_content M f, g)" "same_shape f g"
    using is_numeric_content [OF assms, of M] by blast
  have "num_val T M g = Some v" if v: "num_val T M f = Some v" for v
  proof (cases "field_type f = COB_TYPE_NUMERIC_DISPLAY")
    case True
    from is_numeric_display [OF v True] g(1) show ?thesis by auto
  next
    case False
    then have "g = f" using g(1) by (auto simp: cob_is_numeric_def split: cob_type.splits)
    then show ?thesis using v by simp
  qed
  with g show ?thesis by blast
qed

lemma class_numeric_witness:
  "(\<exists>g. cob_is_numeric default_module (cob_fld COB_TYPE_NUMERIC_DISPLAY 2 0 1 [] [0x31, 0x72]) = Some (True, g) \<and> num_val \<lparr>words_bigendian = False, allow_misaligned = True, cob_li_is_ll = True\<rparr> default_module g = Some (- 12)) \<and>
    (\<exists>g. cob_is_numeric default_module (cob_fld COB_TYPE_NUMERIC_DISPLAY 2 0 1 [] [0x72, 0x31]) = Some (False, g)) \<and> (\<exists>g. cob_is_numeric default_module (cob_fld COB_TYPE_NUMERIC_PACKED 3 0 0 [] [0x12, 0x3c]) = Some (False, g))"
proof -
  have h: "fdata (cob_fld COB_TYPE_NUMERIC_DISPLAY 2 0 1 [] [0x31, 0x72]) \<noteq> []" "sign_separate (cob_fld COB_TYPE_NUMERIC_DISPLAY 2 0 1 [] [0x31, 0x72]) \<longrightarrow> have_sign (cob_fld COB_TYPE_NUMERIC_DISPLAY 2 0 1 [] [0x31, 0x72])" "fdata (cob_fld COB_TYPE_NUMERIC_DISPLAY 2 0 1 [] [0x72, 0x31]) \<noteq> []" "sign_separate (cob_fld COB_TYPE_NUMERIC_DISPLAY 2 0 1 [] [0x72, 0x31]) \<longrightarrow> have_sign (cob_fld COB_TYPE_NUMERIC_DISPLAY 2 0 1 [] [0x72, 0x31])"
    "fdata (cob_fld COB_TYPE_NUMERIC_PACKED 3 0 0 [] [0x12, 0x3c]) \<noteq> []" "sign_separate (cob_fld COB_TYPE_NUMERIC_PACKED 3 0 0 [] [0x12, 0x3c]) \<longrightarrow> have_sign (cob_fld COB_TYPE_NUMERIC_PACKED 3 0 0 [] [0x12, 0x3c])" by code_simp+
  have c: "numeric_content default_module (cob_fld COB_TYPE_NUMERIC_DISPLAY 2 0 1 [] [0x31, 0x72]) = True" "numeric_content default_module (cob_fld COB_TYPE_NUMERIC_DISPLAY 2 0 1 [] [0x72, 0x31]) = False"
    "numeric_content default_module (cob_fld COB_TYPE_NUMERIC_PACKED 3 0 0 [] [0x12, 0x3c]) = False" "num_val \<lparr>words_bigendian = False, allow_misaligned = True, cob_li_is_ll = True\<rparr> default_module (cob_fld COB_TYPE_NUMERIC_DISPLAY 2 0 1 [] [0x31, 0x72]) = Some (- 12)" by code_simp+
  note p = class_numeric [OF h(1,2), of default_module "\<lparr>words_bigendian = False, allow_misaligned = True, cob_li_is_ll = True\<rparr>", unfolded c(1)] class_numeric [OF h(3,4), of default_module "\<lparr>words_bigendian = False, allow_misaligned = True, cob_li_is_ll = True\<rparr>", unfolded c(2)]
    class_numeric [OF h(5,6), of default_module "\<lparr>words_bigendian = False, allow_misaligned = True, cob_li_is_ll = True\<rparr>", unfolded c(3)]
  show ?thesis
  proof (intro conjI)
    show "\<exists>g. cob_is_numeric default_module (cob_fld COB_TYPE_NUMERIC_DISPLAY 2 0 1 [] [0x31, 0x72]) = Some (True, g) \<and> num_val \<lparr>words_bigendian = False, allow_misaligned = True, cob_li_is_ll = True\<rparr> default_module g = Some (- 12)" using p(1) c(4) by blast
    show "\<exists>g. cob_is_numeric default_module (cob_fld COB_TYPE_NUMERIC_DISPLAY 2 0 1 [] [0x72, 0x31]) = Some (False, g)" using p(2) by blast
    show "\<exists>g. cob_is_numeric default_module (cob_fld COB_TYPE_NUMERIC_PACKED 3 0 0 [] [0x12, 0x3c]) = Some (False, g)" using p(3) by blast
  qed
qed

text \<open>
  C36: the general comparison of two operands that are text or unsigned DISPLAY numbers, not
  both numbers, decides the order, under the collating sequence of the program, of the two
  texts filled with spaces to the longer one; with a figurative constant or ALL literal (one
  with characters, other than ZERO against a number) as second or as first operand it
  decides the order of the item and the literal repeated to the size of the item, less,
  equal and greater turned round if the literal is first; the operands stay as they are.
\<close>

theorem compare_text:
  assumes "char_operand f1" "char_operand f2" "field_type f1 \<noteq> COB_TYPE_ALPHANUMERIC_ALL"
    "field_type f2 \<noteq> COB_TYPE_ALPHANUMERIC_ALL" "\<not> (field_is_numeric f1 \<and> field_is_numeric f2)"
    "field_type lit = COB_TYPE_ALPHANUMERIC_ALL" "fdata lit \<noteq> []" "\<not> z \<or> \<not> field_is_numeric f1"
    and "k = max (fsize f1) (fsize f2)" "text = map (collate (collating_sequence M))"
    and "repeated = take (fsize f1) (concat (replicate (fsize f1) (fdata lit)))"
  shows "(\<exists>c. cob_cmp T E M N z1 f1 z2 f2 = Some (c, N, f1, f2) \<and> decides c (text (fill k (fdata f1))) (text (fill k (fdata f2)))) \<and>
    (\<exists>c. cob_cmp T E M N z1 f1 z lit = Some (c, N, f1, lit) \<and> decides c (text (fdata f1)) (text repeated)) \<and>
    (\<exists>c. cob_cmp T E M N z lit z1 f1 = Some (c, N, lit, f1) \<and> decides c (text repeated) (text (fdata f1)))"
proof -
  have "length (fill k (fdata f1)) = length (fill k (fdata f2))" using assms(9) by (simp add: fill_def fsize_def)
  note o1 = common_cmps_order [OF this, of "collating_sequence M"]
  have "length (fdata f1) = length repeated" using assms(7,11) by (simp add: fsize_def repeat_long)
  note o2 = common_cmps_order [OF this, of "collating_sequence M"]
  have "decides (common_cmps (collating_sequence M) (fill k (fdata f1)) (fill k (fdata f2)))
      (text (fill k (fdata f1))) (text (fill k (fdata f2)))"
    "decides (common_cmps (collating_sequence M) (fdata f1) repeated) (text (fdata f1)) (text repeated)"
    using o1 o2 assms(10) by (auto intro: decidesI)
  then show ?thesis
    unfolding cob_cmp_items [OF assms(1-5)] cob_cmp_figurative [OF assms(1,7,6,8)]
      cob_cmp_figurative_first [OF assms(1,7,6,8,3)] alnum_order_fill
    by (simp add: assms(9,11) fsize_def decides_minus)
qed

lemma compare_text_witness:
  "(\<exists>c. cob_cmp \<lparr>words_bigendian = False, allow_misaligned = True, cob_li_is_ll = True\<rparr> fp_none default_module cob_init_numeric False (cob_fld COB_TYPE_ALPHANUMERIC 0 0 0 [] [65, 66]) False (cob_fld COB_TYPE_ALPHANUMERIC 0 0 0 [] [65, 66, 32, 32]) = Some (c, cob_init_numeric, (cob_fld COB_TYPE_ALPHANUMERIC 0 0 0 [] [65, 66]), (cob_fld COB_TYPE_ALPHANUMERIC 0 0 0 [] [65, 66, 32, 32])) \<and> c = 0) \<and>
    (\<exists>c. cob_cmp \<lparr>words_bigendian = False, allow_misaligned = True, cob_li_is_ll = True\<rparr> fp_none default_module cob_init_numeric False (cob_fld COB_TYPE_ALPHANUMERIC_ALL 0 0 0 [] [42]) False (cob_fld COB_TYPE_ALPHANUMERIC 0 0 0 [] [65, 66]) = Some (c, cob_init_numeric, (cob_fld COB_TYPE_ALPHANUMERIC_ALL 0 0 0 [] [42]), (cob_fld COB_TYPE_ALPHANUMERIC 0 0 0 [] [65, 66])) \<and> c < 0)"
proof -
  have h: "char_operand (cob_fld COB_TYPE_ALPHANUMERIC 0 0 0 [] [65, 66])" "char_operand (cob_fld COB_TYPE_ALPHANUMERIC 0 0 0 [] [65, 66, 32, 32])" "field_type (cob_fld COB_TYPE_ALPHANUMERIC 0 0 0 [] [65, 66]) \<noteq> COB_TYPE_ALPHANUMERIC_ALL" "field_type (cob_fld COB_TYPE_ALPHANUMERIC 0 0 0 [] [65, 66, 32, 32]) \<noteq> COB_TYPE_ALPHANUMERIC_ALL"
    "\<not> (field_is_numeric (cob_fld COB_TYPE_ALPHANUMERIC 0 0 0 [] [65, 66]) \<and> field_is_numeric (cob_fld COB_TYPE_ALPHANUMERIC 0 0 0 [] [65, 66, 32, 32]))" "field_type (cob_fld COB_TYPE_ALPHANUMERIC_ALL 0 0 0 [] [42]) = COB_TYPE_ALPHANUMERIC_ALL" "fdata (cob_fld COB_TYPE_ALPHANUMERIC_ALL 0 0 0 [] [42]) \<noteq> []"
    "\<not> False \<or> \<not> field_is_numeric (cob_fld COB_TYPE_ALPHANUMERIC 0 0 0 [] [65, 66])" by code_simp+
  let ?text = "map (collate (collating_sequence default_module))"
  have e: "?text (fill (max (fsize (cob_fld COB_TYPE_ALPHANUMERIC 0 0 0 [] [65, 66])) (fsize (cob_fld COB_TYPE_ALPHANUMERIC 0 0 0 [] [65, 66, 32, 32]))) (fdata (cob_fld COB_TYPE_ALPHANUMERIC 0 0 0 [] [65, 66]))) = ?text (fill (max (fsize (cob_fld COB_TYPE_ALPHANUMERIC 0 0 0 [] [65, 66])) (fsize (cob_fld COB_TYPE_ALPHANUMERIC 0 0 0 [] [65, 66, 32, 32]))) (fdata (cob_fld COB_TYPE_ALPHANUMERIC 0 0 0 [] [65, 66, 32, 32])))"
    "?text (take (fsize (cob_fld COB_TYPE_ALPHANUMERIC 0 0 0 [] [65, 66])) (concat (replicate (fsize (cob_fld COB_TYPE_ALPHANUMERIC 0 0 0 [] [65, 66])) (fdata (cob_fld COB_TYPE_ALPHANUMERIC_ALL 0 0 0 [] [42]))))) < ?text (fdata (cob_fld COB_TYPE_ALPHANUMERIC 0 0 0 [] [65, 66]))" by code_simp+
  from compare_text [OF h refl refl refl, where M = default_module and T = "\<lparr>words_bigendian = False, allow_misaligned = True, cob_li_is_ll = True\<rparr>" and E = fp_none and N = cob_init_numeric and ?z1.0 = False and ?z2.0 = False] e
  show ?thesis by (auto simp: decides_def)
qed

text \<open>
  C37: DISPLAY of a number of usage DISPLAY, PACKED-DECIMAL (up to 64 digits) or BINARY, of
  up to 127 digits, that its picture has room for. With the option pretty-display (the
  default) and an item other than COMP-5 and the like, its decimal point among at most as
  many places as it has digits: the sign of a signed item, the digits of its picture and
  between them the decimal point. Without the option, or for such a binary item: its digits
  (a binary item: as many as any value of its size has) without a decimal point, and, if it
  is signed, its sign in front of them or behind them as the item has it. Then the line end;
  what was printed before stays.
\<close>

theorem display_shows_number:
  assumes "showable X f v"
  shows "\<exists>c g. cob_display X False False True [f] S =
    Some (S\<lparr>term_out := term_out S @ number_text X f c v @ [10]\<rparr>, [g]) \<and> shown_sign v c"
  using display_number_text [OF assms] by (auto simp: cob_display_def)

lemma display_shows_number_witness:
  "(\<exists>c g. cob_display (\<lparr>tm_target = \<lparr>words_bigendian = False, allow_misaligned = True, cob_li_is_ll = True\<rparr>, tm_fp = fp_none, tm_module = default_module, flag_pretty_display = False, fp_show = (\<lambda>_ _. [])\<rparr>) False False True [(cob_fld COB_TYPE_NUMERIC_PACKED 4 1 5 [] [0x00, 0x04, 0x2D])] \<lparr>term_in = [], term_out = [65], term_err = []\<rparr> =
      Some (\<lparr>term_in = [], term_out = [65, c, 48, 48, 52, 50, 10], term_err = []\<rparr>, [g]) \<and> shown_sign (- 42) c) \<and>
    (\<exists>c g. cob_display (\<lparr>tm_target = \<lparr>words_bigendian = False, allow_misaligned = True, cob_li_is_ll = True\<rparr>, tm_fp = fp_none, tm_module = default_module, flag_pretty_display = True, fp_show = (\<lambda>_ _. [])\<rparr>) False False True [(cob_fld COB_TYPE_NUMERIC_PACKED 4 1 5 [] [0x00, 0x04, 0x2D])] \<lparr>term_in = [], term_out = [65], term_err = []\<rparr> =
      Some (\<lparr>term_in = [], term_out = [65, c, 48, 48, 52, 46, 50, 10], term_err = []\<rparr>, [g]) \<and> shown_sign (- 42) c)"
proof -
  have h: "showable (\<lparr>tm_target = \<lparr>words_bigendian = False, allow_misaligned = True, cob_li_is_ll = True\<rparr>, tm_fp = fp_none, tm_module = default_module, flag_pretty_display = False, fp_show = (\<lambda>_ _. [])\<rparr>) (cob_fld COB_TYPE_NUMERIC_PACKED 4 1 5 [] [0x00, 0x04, 0x2D]) (- 42)" "showable (\<lparr>tm_target = \<lparr>words_bigendian = False, allow_misaligned = True, cob_li_is_ll = True\<rparr>, tm_fp = fp_none, tm_module = default_module, flag_pretty_display = True, fp_show = (\<lambda>_ _. [])\<rparr>) (cob_fld COB_TYPE_NUMERIC_PACKED 4 1 5 [] [0x00, 0x04, 0x2D]) (- 42)" by code_simp+
  have t: "number_text (\<lparr>tm_target = \<lparr>words_bigendian = False, allow_misaligned = True, cob_li_is_ll = True\<rparr>, tm_fp = fp_none, tm_module = default_module, flag_pretty_display = False, fp_show = (\<lambda>_ _. [])\<rparr>) (cob_fld COB_TYPE_NUMERIC_PACKED 4 1 5 [] [0x00, 0x04, 0x2D]) c (- 42) = [c, 48, 48, 52, 50]" "number_text (\<lparr>tm_target = \<lparr>words_bigendian = False, allow_misaligned = True, cob_li_is_ll = True\<rparr>, tm_fp = fp_none, tm_module = default_module, flag_pretty_display = True, fp_show = (\<lambda>_ _. [])\<rparr>) (cob_fld COB_TYPE_NUMERIC_PACKED 4 1 5 [] [0x00, 0x04, 0x2D]) c (- 42) = [c, 48, 48, 52, 46, 50]" for c by code_simp+
  show ?thesis
    using display_shows_number [OF h(1), unfolded t, of "\<lparr>term_in = [], term_out = [65], term_err = []\<rparr>"]
      display_shows_number [OF h(2), unfolded t, of "\<lparr>term_in = [], term_out = [65], term_err = []\<rparr>"] by simp
qed

text \<open>
  C38: storing a decimal into a binary item of one to eight bytes (64-bit long, less than 36
  digits): a value whose magnitude fits the bits of the item, one bit less if it is signed
  (so that the least value of two's complement counts as too large), and the digits of its
  picture where these are checked, is stored exactly, by magnitude into an unsigned item,
  and read back; any other raises EC-SIZE-OVERFLOW, and with ON SIZE ERROR leaves the item
  unchanged; without, the item gets the low-order bytes of the value, or, when it is cut to
  its digits, of the magnitude of the value modulo the power of ten: a negative value loses
  its sign.
\<close>

theorem binary_store:
  fixes R :: cob_rt
  assumes "wf_binary f" "cob_li_is_ll T" "field_digits f < COB_MAX_BINARY"
  shows "(binary_fits M f opt (dvalue d) \<longrightarrow>
      (\<exists>g. cob_decimal_get_binary R T M d f opt = Some (0, R, g) \<and>
        cob_decimal_set_binary T g = Some (mkdec (if have_sign f then dvalue d else \<bar>dvalue d\<bar>) (field_scale f)))) \<and>
    (\<not> binary_fits M f opt (dvalue d) \<and> opt_set opt COB_STORE_KEEP_ON_OVERFLOW \<longrightarrow>
      cob_decimal_get_binary R T M d f opt = Some (0x1004, cob_set_exception R COB_EC_SIZE_OVERFLOW, f)) \<and>
    (\<not> binary_fits M f opt (dvalue d) \<and> \<not> opt_set opt COB_STORE_KEEP_ON_OVERFLOW \<longrightarrow>
      (\<exists>g. cob_decimal_get_binary R T M d f opt = Some (0x1004, cob_set_exception R COB_EC_SIZE_OVERFLOW, g) \<and>
        fattr g = fattr f \<and> fsize g = fsize f \<and>
        bin_raw T g = (if opt_set opt COB_STORE_TRUNC_ON_OVERFLOW then \<bar>dvalue d\<bar> mod 10 ^ field_digits f
          else if have_sign f then dvalue d else \<bar>dvalue d\<bar>) mod 2 ^ (8 * fsize f)))"
proof -
  let ?v = "if have_sign f then dvalue d else \<bar>dvalue d\<bar>"
  have third: "\<exists>g. cob_decimal_get_binary R T M d f opt = Some (0x1004, cob_set_exception R COB_EC_SIZE_OVERFLOW, g) \<and>
      fattr g = fattr f \<and> fsize g = fsize f \<and>
      bin_raw T g = (if opt_set opt COB_STORE_TRUNC_ON_OVERFLOW then \<bar>dvalue d\<bar> mod 10 ^ field_digits f else ?v) mod 2 ^ (8 * fsize f)"
    if o: "\<not> binary_fits M f opt (dvalue d)" "\<not> opt_set opt COB_STORE_KEEP_ON_OVERFLOW"
  proof -
    have nz: "dvalue d \<noteq> 0" using o(1) by (auto simp: binary_fits_def)
    then have "\<bar>?v smod 10 ^ field_digits f\<bar> = \<bar>dvalue d\<bar> mod 10 ^ field_digits f"
      by (cases "dvalue d < 0"; cases "have_sign f") (simp_all add: signed_modulo_int_def abs_mult)
    then have "\<bar>truncate_binary f opt ?v\<bar> mod 2 ^ (8 * fsize f) =
       (if opt_set opt COB_STORE_TRUNC_ON_OVERFLOW then \<bar>dvalue d\<bar> mod 10 ^ field_digits f else ?v) mod 2 ^ (8 * fsize f)"
      by (simp add: truncate_binary_def mult.commute)
    then show ?thesis using get_binary_val(3) [OF assms o nz, of R] by (metis set_data_sel(2))
  qed
  then show ?thesis using binary_store_core [OF assms, of M opt d R] by blast
qed

lemma binary_store_witness:
  "(\<exists>g. cob_decimal_get_binary cob_rt_init \<lparr>words_bigendian = False, allow_misaligned = True, cob_li_is_ll = True\<rparr> default_module (mkdec (- 9999) 0) (cob_fld COB_TYPE_NUMERIC_BINARY 4 0 33 [] [0, 0]) 2 = Some (0, cob_rt_init, g) \<and>
      cob_decimal_set_binary \<lparr>words_bigendian = False, allow_misaligned = True, cob_li_is_ll = True\<rparr> g = Some (mkdec (- 9999) 0)) \<and>
    (\<exists>g. cob_decimal_get_binary cob_rt_init \<lparr>words_bigendian = False, allow_misaligned = True, cob_li_is_ll = True\<rparr> default_module (mkdec (- 12345) 0) (cob_fld COB_TYPE_NUMERIC_BINARY 4 0 33 [] [0, 0]) 4 =
      Some (0x1004, cob_set_exception cob_rt_init COB_EC_SIZE_OVERFLOW, g) \<and> bin_raw \<lparr>words_bigendian = False, allow_misaligned = True, cob_li_is_ll = True\<rparr> g = 2345)"
proof -
  have h: "wf_binary (cob_fld COB_TYPE_NUMERIC_BINARY 4 0 33 [] [0, 0])" "cob_li_is_ll \<lparr>words_bigendian = False, allow_misaligned = True, cob_li_is_ll = True\<rparr>" "field_digits (cob_fld COB_TYPE_NUMERIC_BINARY 4 0 33 [] [0, 0]) < COB_MAX_BINARY" by (simp_all add: wf_binary_def COB_MAX_BINARY_def)
  have f: "binary_fits default_module (cob_fld COB_TYPE_NUMERIC_BINARY 4 0 33 [] [0, 0]) 2 (dvalue (mkdec (- 9999) 0))" "\<not> binary_fits default_module (cob_fld COB_TYPE_NUMERIC_BINARY 4 0 33 [] [0, 0]) 4 (dvalue (mkdec (- 12345) 0))"
    "\<not> opt_set 4 COB_STORE_KEEP_ON_OVERFLOW" "opt_set 4 COB_STORE_TRUNC_ON_OVERFLOW" "have_sign (cob_fld COB_TYPE_NUMERIC_BINARY 4 0 33 [] [0, 0])" "field_scale (cob_fld COB_TYPE_NUMERIC_BINARY 4 0 33 [] [0, 0]) = 0"
    "field_digits (cob_fld COB_TYPE_NUMERIC_BINARY 4 0 33 [] [0, 0]) = 4" "fsize (cob_fld COB_TYPE_NUMERIC_BINARY 4 0 33 [] [0, 0]) = 2" by code_simp+
  show ?thesis
    using binary_store [OF h, of default_module 2 "mkdec (- 9999) 0" cob_rt_init] f(1,5,6)
      binary_store [OF h, of default_module 4 "mkdec (- 12345) 0" cob_rt_init] f(2-) by auto
qed

text \<open>
  C39: the general numeric compare of two items of usage DISPLAY, PACKED-DECIMAL or BINARY
  at any scales, and the compare of such an item with an int and with an unsigned int,
  decide the order of the rational numbers the items hold, and leave the items their values
  (a DISPLAY item does not begin with LOW- or HIGH-VALUE and is no longer than the buffer of
  the runtime; the least eight-byte value needs a 64-bit long).
\<close>

theorem numeric_compare:
  assumes "num_val T M f1 = Some v1" "loadable T f1 v1" "num_val T M f2 = Some v2" "loadable T f2 v2"
  shows "(\<exists>c N' g1 g2. cob_numeric_cmp T E M N f1 f2 = Some (c, N', g1, g2) \<and>
      num_val T M g1 = Some v1 \<and> num_val T M g2 = Some v2 \<and> decides c (item_rat f1 v1) (item_rat f2 v2)) \<and>
    (\<forall>n. - (2 ^ 31) \<le> n \<and> n < 2 ^ 31 \<longrightarrow> (\<exists>c N' g. cob_cmp_int T E M N f1 n = Some (c, N', g) \<and>
      num_val T M g = Some v1 \<and> decides c (item_rat f1 v1) (of_int n))) \<and>
    (\<forall>n. 0 \<le> n \<and> n < 2 ^ 32 \<longrightarrow> (\<exists>c N' g. cob_cmp_uint T E M N f1 n = Some (c, N', g) \<and>
      num_val T M g = Some v1 \<and> decides c (item_rat f1 v1) (of_int n)))"
proof (intro conjI allI impI)
  show "\<exists>c N' g1 g2. cob_numeric_cmp T E M N f1 f2 = Some (c, N', g1, g2) \<and>
      num_val T M g1 = Some v1 \<and> num_val T M g2 = Some v2 \<and> decides c (item_rat f1 v1) (item_rat f2 v2)"
    using numeric_cmp_num [OF assms, of E N] by (blast intro: decidesI)
  show "\<exists>c N' g. cob_cmp_int T E M N f1 n = Some (c, N', g) \<and> num_val T M g = Some v1 \<and> decides c (item_rat f1 v1) (of_int n)"
    if "- (2 ^ 31) \<le> n \<and> n < 2 ^ 31" for n
    using cmp_int_num(1) [OF assms(1,2), of n E N] that by (blast intro: decidesI)
  show "\<exists>c N' g. cob_cmp_uint T E M N f1 n = Some (c, N', g) \<and> num_val T M g = Some v1 \<and> decides c (item_rat f1 v1) (of_int n)"
    if "0 \<le> n \<and> n < 2 ^ 32" for n
    using cmp_int_num(2) [OF assms(1,2), of n E N] that by (blast intro: decidesI)
qed

lemma numeric_compare_witness:
  "(\<exists>c N' g1 g2. cob_numeric_cmp \<lparr>words_bigendian = False, allow_misaligned = True, cob_li_is_ll = True\<rparr> fp_none default_module cob_init_numeric (cob_fld COB_TYPE_NUMERIC_PACKED 3 2 1 [] [0x02, 0x0d]) (cob_fld COB_TYPE_NUMERIC_DISPLAY 1 0 0 [] [0x33]) = Some (c, N', g1, g2) \<and> c < 0) \<and>
    (\<exists>c N' g. cob_cmp_uint \<lparr>words_bigendian = False, allow_misaligned = True, cob_li_is_ll = True\<rparr> fp_none default_module cob_init_numeric (cob_fld COB_TYPE_NUMERIC_PACKED 3 2 1 [] [0x02, 0x0d]) 3000000000 = Some (c, N', g) \<and> c < 0)"
proof -
  have h: "num_val \<lparr>words_bigendian = False, allow_misaligned = True, cob_li_is_ll = True\<rparr> default_module (cob_fld COB_TYPE_NUMERIC_PACKED 3 2 1 [] [0x02, 0x0d]) = Some (- 20)" "loadable \<lparr>words_bigendian = False, allow_misaligned = True, cob_li_is_ll = True\<rparr> (cob_fld COB_TYPE_NUMERIC_PACKED 3 2 1 [] [0x02, 0x0d]) (- 20)" "num_val \<lparr>words_bigendian = False, allow_misaligned = True, cob_li_is_ll = True\<rparr> default_module (cob_fld COB_TYPE_NUMERIC_DISPLAY 1 0 0 [] [0x33]) = Some 3"
    "loadable \<lparr>words_bigendian = False, allow_misaligned = True, cob_li_is_ll = True\<rparr> (cob_fld COB_TYPE_NUMERIC_DISPLAY 1 0 0 [] [0x33]) 3" by code_simp+
  note p = numeric_compare [OF h, of fp_none cob_init_numeric]
  have "item_rat (cob_fld COB_TYPE_NUMERIC_PACKED 3 2 1 [] [0x02, 0x0d]) (- 20) < item_rat (cob_fld COB_TYPE_NUMERIC_DISPLAY 1 0 0 [] [0x33]) 3" "item_rat (cob_fld COB_TYPE_NUMERIC_PACKED 3 2 1 [] [0x02, 0x0d]) (- 20) < of_int 3000000000" by code_simp+
  then show ?thesis using p [THEN conjunct1] p [THEN conjunct2, THEN conjunct2, rule_format, of 3000000000]
    by (auto simp: decides_def)
qed

text \<open>
  C40: the STRING statement with a pointer item: from a pointer value within the receiving
  item on, it writes the concatenation of what the sending items contribute, each cut at its
  delimiter, up to the end of the receiving item; it leaves the other characters of the
  item, raises EC-OVERFLOW-STRING exactly if something did not fit, and stores into the
  pointer item, an integer item of usage DISPLAY, PACKED-DECIMAL or BINARY with room for it,
  the position behind the last character written.
\<close>

theorem string_into:
  assumes "cob_get_int T E M p = Some (int k + 1, p')" "k < fsize dst" "fsize dst < 2 ^ 31 - 1"
    and "c = concat (map piece xs)" "m = min (length c) (fsize dst - k)" "counter_for M p (int (k + m) + 1)" "R0 = cob_clear_exception R"
  shows "\<exists>S0 S1 S2 q. cob_string_init R T E M dst (Some p) = Some (R0, S0) \<and>
    string_items R0 S0 xs = Some (if fsize dst - k < length c then cob_set_exception R0 COB_EC_OVERFLOW_STRING else R0, S1) \<and>
    cob_string_finish T E M S1 = Some S2 \<and>
    st_dst S2 = set_data dst (take k (fdata dst) @ take m c @ drop (k + m) (fdata dst)) \<and>
    st_ptr S2 = Some q \<and> num_val T M q = Some (int (k + m) + 1)"
  unfolding assms(7) by (rule string_statement [OF assms(1-6)])

lemma string_into_witness:
  "\<exists>S0 S1 S2 q. cob_string_init cob_rt_init \<lparr>words_bigendian = False, allow_misaligned = True, cob_li_is_ll = True\<rparr> fp_none default_module (cob_fld COB_TYPE_ALPHANUMERIC 0 0 0 [] [46, 46, 46, 46]) (Some (cob_fld COB_TYPE_NUMERIC_DISPLAY 2 0 0 [] [0x30, 0x32])) = Some (cob_clear_exception cob_rt_init, S0) \<and>
     string_items (cob_clear_exception cob_rt_init) S0 [(None, (cob_fld COB_TYPE_ALPHANUMERIC 0 0 0 [] [88, 88])), (Some (cob_fld COB_TYPE_ALPHANUMERIC 0 0 0 [] [47]), (cob_fld COB_TYPE_ALPHANUMERIC 0 0 0 [] [89, 90, 47, 91]))] =
       Some (cob_set_exception (cob_clear_exception cob_rt_init) COB_EC_OVERFLOW_STRING, S1) \<and>
     cob_string_finish \<lparr>words_bigendian = False, allow_misaligned = True, cob_li_is_ll = True\<rparr> fp_none default_module S1 = Some S2 \<and> fdata (st_dst S2) = [46, 88, 88, 89] \<and>
     st_ptr S2 = Some q \<and> num_val \<lparr>words_bigendian = False, allow_misaligned = True, cob_li_is_ll = True\<rparr> default_module q = Some 5"
proof -
  have g: "cob_get_int \<lparr>words_bigendian = False, allow_misaligned = True, cob_li_is_ll = True\<rparr> fp_none default_module (cob_fld COB_TYPE_NUMERIC_DISPLAY 2 0 0 [] [0x30, 0x32]) = Some (int 1 + 1, (cob_fld COB_TYPE_NUMERIC_DISPLAY 2 0 0 [] [0x30, 0x32]))" "counter_for default_module (cob_fld COB_TYPE_NUMERIC_DISPLAY 2 0 0 [] [0x30, 0x32]) (int (1 + 3) + 1)" by code_simp+
  have c: "[88, 88, 89, 90] = concat (map piece [(None, (cob_fld COB_TYPE_ALPHANUMERIC 0 0 0 [] [88, 88])), (Some (cob_fld COB_TYPE_ALPHANUMERIC 0 0 0 [] [47]), (cob_fld COB_TYPE_ALPHANUMERIC 0 0 0 [] [89, 90, 47, 91]))])" "3 = min (length [88, 88, 89, 90 :: u8]) (fsize (cob_fld COB_TYPE_ALPHANUMERIC 0 0 0 [] [46, 46, 46, 46]) - 1)"
    by code_simp+
  have k: "1 < fsize (cob_fld COB_TYPE_ALPHANUMERIC 0 0 0 [] [46, 46, 46, 46])" "fsize (cob_fld COB_TYPE_ALPHANUMERIC 0 0 0 [] [46, 46, 46, 46]) < 2 ^ 31 - 1" by simp_all
  show ?thesis using string_into [OF g(1) k c g(2) refl, of cob_rt_init] by fastforce
qed

end
